(* ===== verification/Prelude.thy ===== *)
theory Prelude
  imports Main "HOL-Library.AList" "HOL-Library.Char_ord" "HOL-Library.List_Lexorder"
    "HOL-Library.Product_Lexorder"
begin

text \<open>
  Shared vocabulary of the development. A JavaScript \<^verbatim>\<open>Map\<close> is an insertion-ordered
  association list with one entry per key: \<^verbatim>\<open>set\<close> on a known key keeps its position,
  on a new key appends, which is exactly \<^const>\<open>AList.update\<close>. A JavaScript
  \<^verbatim>\<open>Set\<close> of strings is a duplicate-free list. \<^verbatim>\<open>Array.prototype.sort\<close> is a
  stable sort by a comparator that answers a signed number. Code that can throw while keeping
  the mutations it already made is an operation of type \<open>('s, 'e, 'a) op\<close>: a state
  transformer that answers an error or a value together with the state reached.

  The theory declares the interface locale \<open>ordered_map\<close> and its interpretation on
  association lists, the locale \<open>stepping\<close> that lifts a one-step invariant to runs, and
  the collections \<open>js_simps\<close>, \<open>op_defs\<close> and \<open>op_rules\<close> used by every
  component.
\<close>

named_theorems js_simps \<open>lookups, keys and sizes of JavaScript maps after set and delete\<close>
named_theorems op_defs \<open>definitions of the throwing state transformers\<close>
named_theorems op_rules \<open>rules that push an invariant through a throwing state transformer\<close>

subsection \<open>Types and the JavaScript containers\<close>

text \<open>
  Identifiers are strings. An \<open>instant\<close> is the number of milliseconds an ISO-8601
  timestamp names, that is \<^verbatim>\<open>Date.parse\<close> of it; the timestamps the code writes come from
  \<^verbatim>\<open>toISOString\<close>, whose fixed width makes string order and instant order the same.
\<close>

type_synonym ident = string
type_synonym instant = int
type_synonym ('k, 'v) js_map = "('k \<times> 'v) list"

abbreviation js_get :: "('k, 'v) js_map \<Rightarrow> 'k \<Rightarrow> 'v option" where
  "js_get \<equiv> map_of"

abbreviation js_set :: "'k \<Rightarrow> 'v \<Rightarrow> ('k, 'v) js_map \<Rightarrow> ('k, 'v) js_map" where
  "js_set \<equiv> AList.update"

abbreviation js_delete :: "'k \<Rightarrow> ('k, 'v) js_map \<Rightarrow> ('k, 'v) js_map" where
  "js_delete \<equiv> AList.delete"

abbreviation js_keys :: "('k, 'v) js_map \<Rightarrow> 'k list" where
  "js_keys m \<equiv> map fst m"

abbreviation js_values :: "('k, 'v) js_map \<Rightarrow> 'v list" where
  "js_values m \<equiv> map snd m"

definition js_has :: "('k, 'v) js_map \<Rightarrow> 'k \<Rightarrow> bool" where
  "js_has m k = (js_get m k \<noteq> None)"

definition js_wf :: "('k, 'v) js_map \<Rightarrow> bool" where
  "js_wf m = distinct (js_keys m)"

text \<open>Every value sits under the key its own identifying field names.\<close>

definition keyed :: "('v \<Rightarrow> 'k) \<Rightarrow> ('k, 'v) js_map \<Rightarrow> bool" where
  "keyed f m = (js_wf m \<and> list_all (\<lambda>(k, v). f v = k) m)"

text \<open>\<^verbatim>\<open>Set.prototype.add\<close> on a duplicate-free list.\<close>

definition js_add :: "'a \<Rightarrow> 'a list \<Rightarrow> 'a list" where
  "js_add x xs = (if x \<in> set xs then xs else xs @ [x])"

text \<open>A stable insertion sort by a JavaScript comparator.\<close>

fun js_insort :: "('a \<Rightarrow> 'a \<Rightarrow> int) \<Rightarrow> 'a \<Rightarrow> 'a list \<Rightarrow> 'a list" where
  "js_insort cmp x [] = [x]"
| "js_insort cmp x (y # ys) = (if cmp x y \<le> 0 then x # y # ys else y # js_insort cmp x ys)"

definition js_sort :: "('a \<Rightarrow> 'a \<Rightarrow> int) \<Rightarrow> 'a list \<Rightarrow> 'a list" where
  "js_sort cmp xs = foldr (js_insort cmp) xs []"

text \<open>A natural number in a template string.\<close>

fun decimal :: "nat \<Rightarrow> string" where
  "decimal n = (if n < 10 then [char_of (48 + n)] else decimal (n div 10) @ [char_of (48 + n mod 10)])"

declare decimal.simps [simp del]

text \<open>The sign \<^verbatim>\<open>localeCompare\<close> answers on two values of an ordered type.\<close>

definition js_compare :: "'a::linorder \<Rightarrow> 'a \<Rightarrow> int" where
  "js_compare x y = (if x < y then - 1 else if x = y then 0 else 1)"

text \<open>The pairs of a sequence whose key was not seen before.\<close>

fun first_uses :: "'k list \<Rightarrow> ('k \<times> 'd) list \<Rightarrow> ('k \<times> 'd) list" where
  "first_uses seen [] = []"
| "first_uses seen ((k, d) # xs) =
     (if k \<in> set seen then first_uses seen xs else (k, d) # first_uses (k # seen) xs)"

subsection \<open>Throwing state transformers\<close>

type_synonym ('s, 'e, 'a) op = "'s \<Rightarrow> ('e + 'a) \<times> 's"

definition op_return :: "'a \<Rightarrow> ('s, 'e, 'a) op" where
  [op_defs]: "op_return x s = (Inr x, s)"

definition op_throw :: "'e \<Rightarrow> ('s, 'e, 'a) op" where
  [op_defs]: "op_throw e s = (Inl e, s)"

definition op_bind :: "('s, 'e, 'a) op \<Rightarrow> ('a \<Rightarrow> ('s, 'e, 'b) op) \<Rightarrow> ('s, 'e, 'b) op" where
  [op_defs]: "op_bind m f s = (case m s of (Inl e, t) \<Rightarrow> (Inl e, t) | (Inr x, t) \<Rightarrow> f x t)"

definition op_then :: "('s, 'e, unit) op \<Rightarrow> ('s, 'e, 'b) op \<Rightarrow> ('s, 'e, 'b) op" where
  [op_defs]: "op_then m k = op_bind m (\<lambda>_. k)"

definition op_gets :: "('s \<Rightarrow> 'a) \<Rightarrow> ('s, 'e, 'a) op" where
  [op_defs]: "op_gets f s = (Inr (f s), s)"

definition op_modify :: "('s \<Rightarrow> 's) \<Rightarrow> ('s, 'e, unit) op" where
  [op_defs]: "op_modify f s = (Inr (), f s)"

definition op_when :: "bool \<Rightarrow> ('s, 'e, unit) op \<Rightarrow> ('s, 'e, unit) op" where
  [op_defs]: "op_when b m = (if b then m else op_return ())"

primrec op_for :: "('b \<Rightarrow> ('s, 'e, unit) op) \<Rightarrow> 'b list \<Rightarrow> ('s, 'e, unit) op" where
  "op_for f [] = op_return ()"
| "op_for f (x # xs) = op_then (f x) (op_for f xs)"

text \<open>An operation keeps a predicate on its state, whether it returns or throws.\<close>

definition op_keeps :: "('s \<Rightarrow> bool) \<Rightarrow> ('s, 'e, 'a) op \<Rightarrow> bool" where
  "op_keeps P m = (\<forall>s. P s \<longrightarrow> P (snd (m s)))"

subsection \<open>The ordered-map interface\<close>

text \<open>
  What the components rely on of a JavaScript \<^verbatim>\<open>Map\<close>: lookups after \<^verbatim>\<open>set\<close> and
  \<^verbatim>\<open>delete\<close>, and the insertion order of the keys.
\<close>

locale ordered_map =
  fixes get :: "'m \<Rightarrow> 'k \<Rightarrow> 'v option"
    and put :: "'k \<Rightarrow> 'v \<Rightarrow> 'm \<Rightarrow> 'm"
    and del :: "'k \<Rightarrow> 'm \<Rightarrow> 'm"
    and keys :: "'m \<Rightarrow> 'k list"
  assumes get_put: "get (put k v m) k' = (if k' = k then Some v else get m k')"
    and get_del: "get (del k m) k' = (if k' = k then None else get m k')"
    and keys_put: "keys (put k v m) = (if k \<in> set (keys m) then keys m else keys m @ [k])"
    and keys_del: "keys (del k m) = filter (\<lambda>k'. k' \<noteq> k) (keys m)"
    and keys_get: "k \<in> set (keys m) \<longleftrightarrow> get m k \<noteq> None"
begin

lemma distinct_put: "distinct (keys m) \<Longrightarrow> distinct (keys (put k v m))"
  by (simp add: keys_put)

lemma distinct_del: "distinct (keys m) \<Longrightarrow> distinct (keys (del k m))"
  by (simp add: keys_del)

lemma put_overwrites: "get (put k v (put k w m)) = get (put k v m)"
  by (rule ext) (simp add: get_put)

lemma keys_put_known: "get m k \<noteq> None \<Longrightarrow> keys (put k v m) = keys m"
  using keys_get by (simp add: keys_put)

lemma fold_put_get:
  "get (fold (\<lambda>(k, v). put k v) kvs m) k
     = (case map_of (rev kvs) k of Some v \<Rightarrow> Some v | None \<Rightarrow> get m k)"
  by (induction kvs arbitrary: m) (auto simp: get_put map_add_def split: option.splits)

lemma fold_put_distinct:
  "distinct (keys m) \<Longrightarrow> distinct (keys (fold (\<lambda>(k, v). put k v) kvs m))"
  by (induction kvs arbitrary: m) (auto simp: distinct_put)

lemma fold_put_keys:
  "set (keys (fold (\<lambda>(k, v). put k v) kvs m)) = set (keys m) \<union> fst ` set kvs"
  by (induction kvs arbitrary: m) (auto simp: keys_put split: if_splits)

end

interpretation js: ordered_map map_of AList.update AList.delete "map fst"
proof
  fix k k' :: 'a and v :: 'b and m :: "('a \<times> 'b) list"
  show "map_of (AList.update k v m) k' = (if k' = k then Some v else map_of m k')"
    by (simp add: update_conv')
  show "map_of (AList.delete k m) k' = (if k' = k then None else map_of m k')"
    by (simp add: delete_conv')
  show "map fst (AList.update k v m) = (if k \<in> set (map fst m) then map fst m else map fst m @ [k])"
    by (simp add: update_keys)
  show "map fst (AList.delete k m) = filter (\<lambda>k'. k' \<noteq> k) (map fst m)"
    by (induction m) (auto simp: AList.delete_eq)
  show "(k \<in> set (map fst m)) = (map_of m k \<noteq> None)"
    by (simp add: map_of_eq_None_iff)
qed

lemmas js_lookup [js_simps] = js.get_put js.get_del
lemmas js_key_order [js_simps] = js.keys_put js.keys_del

subsection \<open>Facts about the containers\<close>

lemma js_has_iff [js_simps]: "js_has m k \<longleftrightarrow> k \<in> set (js_keys m)"
  by (simp add: js_has_def map_of_eq_None_iff)

lemma js_wf_Nil [simp]: "js_wf []"
  by (simp add: js_wf_def)

lemma js_wf_set [simp]: "js_wf m \<Longrightarrow> js_wf (js_set k v m)"
  unfolding js_wf_def by (rule js.distinct_put)

lemma js_wf_delete [simp]: "js_wf m \<Longrightarrow> js_wf (js_delete k m)"
  unfolding js_wf_def by (rule js.distinct_del)

lemma js_set_fresh: "k \<notin> set (js_keys m) \<Longrightarrow> js_set k v m = m @ [(k, v)]"
  by (induction m) auto

lemma js_set_split:
  "js_wf m \<Longrightarrow> js_get m k = Some w \<Longrightarrow>
     \<exists>m1 m2. m = m1 @ (k, w) # m2 \<and> js_set k v m = m1 @ (k, v) # m2
       \<and> k \<notin> set (js_keys m1) \<and> k \<notin> set (js_keys m2)"
proof (induction m)
  case Nil
  then show ?case by simp
next
  case (Cons p m)
  obtain a b where p: "p = (a, b)" by fastforce
  show ?case
  proof (cases "a = k")
    case True
    then have "p # m = [] @ (k, w) # m" "js_set k v (p # m) = [] @ (k, v) # m"
      using Cons.prems p by auto
    then show ?thesis
      using Cons.prems True p by (intro exI [of _ "[]"] exI [of _ m]) (auto simp: js_wf_def)
  next
    case False
    with Cons p obtain m1 m2 where
      "m = m1 @ (k, w) # m2" "js_set k v m = m1 @ (k, v) # m2"
      "k \<notin> set (js_keys m1)" "k \<notin> set (js_keys m2)"
      by (auto simp: js_wf_def)
    with False p show ?thesis
      by (intro exI [of _ "p # m1"] exI [of _ m2]) auto
  qed
qed

lemma js_set_get_same: "js_get m k = Some v \<Longrightarrow> js_wf m \<Longrightarrow> js_set k v m = m"
  using js_set_split [of m k v v] by auto

lemma in_js_values:
  "js_wf m \<Longrightarrow> v \<in> set (js_values m) \<longleftrightarrow> (\<exists>k. js_get m k = Some v)"
  unfolding js_wf_def by (force simp: map_of_eq_Some_iff)

lemma js_delete_absent: "k \<notin> set (js_keys m) \<Longrightarrow> js_delete k m = m"
  by (induction m) (auto simp: AList.delete_eq)

lemma js_delete_values_subset: "set (js_values (js_delete k m)) \<subseteq> set (js_values m)"
  by (auto simp: AList.delete_eq)

lemma length_js_delete_le: "length (js_delete k m) \<le> length m"
  by (simp add: AList.delete_eq)

lemma length_js_delete_less:
  assumes "k \<in> set (js_keys m)"
  shows "length (js_delete k m) < length m"
proof -
  from assms obtain v where "(k, v) \<in> set m" by auto
  then show ?thesis
    unfolding AList.delete_eq by (rule length_filter_less) simp
qed

lemma js_delete_pairs: "set (js_delete k m) = {p \<in> set m. fst p \<noteq> k}"
  by (auto simp: AList.delete_eq)

lemma filter_js_delete_length:
  "length (filter P (js_values (js_delete k m))) \<le> length (filter P (js_values m))"
  by (induction m) (auto simp: AList.delete_eq)

lemma keyed_Nil [simp]: "keyed f []"
  by (simp add: keyed_def)

lemma keyed_wf: "keyed f m \<Longrightarrow> js_wf m"
  by (simp add: keyed_def)

lemma set_js_set_D: "(a, b) \<in> set (js_set k v m) \<Longrightarrow> (a = k \<and> b = v) \<or> (a, b) \<in> set m"
  by (induction m) (auto split: if_splits)

lemma keyed_set [simp]: "keyed f m \<Longrightarrow> f v = k \<Longrightarrow> keyed f (js_set k v m)"
  by (auto simp: keyed_def list_all_iff dest!: set_js_set_D)

lemma keyed_delete [simp]: "keyed f m \<Longrightarrow> keyed f (js_delete k m)"
  by (auto simp: keyed_def AList.delete_eq list_all_iff js_wf_def distinct_map_filter)

lemma keyed_get: "keyed f m \<Longrightarrow> js_get m k = Some v \<Longrightarrow> f v = k"
  by (auto simp: keyed_def list_all_iff dest: map_of_SomeD)

lemma keyed_value: "keyed f m \<Longrightarrow> v \<in> set (js_values m) \<longleftrightarrow> js_get m (f v) = Some v"
  using in_js_values [OF keyed_wf, of f m v] keyed_get [of f m _ v] by blast

lemma keyed_values: "keyed f m \<Longrightarrow> map f (js_values m) = js_keys m"
  by (induction m) (auto simp: keyed_def js_wf_def)

lemma set_js_add [simp]: "set (js_add x xs) = insert x (set xs)"
  by (auto simp: js_add_def)

lemma distinct_js_add [simp]: "distinct (js_add x xs) \<longleftrightarrow> distinct xs"
  by (simp add: js_add_def)

lemma length_js_add: "length (js_add x xs) = length xs + (if x \<in> set xs then 0 else 1)"
  by (simp add: js_add_def)

lemma js_add_idem [simp]: "js_add x (js_add x xs) = js_add x xs"
  by (simp add: js_add_def)

subsection \<open>Facts about the comparator sort\<close>

lemma js_compare_le: "js_compare x y \<le> 0 \<longleftrightarrow> x \<le> y"
  by (auto simp: js_compare_def)

text \<open>A comparator that agrees with a key sorts by that key, stably.\<close>

lemma js_insort_key:
  assumes "\<And>x y. cmp x y \<le> 0 \<longleftrightarrow> k x \<le> k y"
  shows "js_insort cmp x ys = insort_key k x ys"
  by (induction ys) (auto simp: assms)

lemma js_sort_key:
  assumes "\<And>x y. cmp x y \<le> 0 \<longleftrightarrow> k x \<le> k y"
  shows "js_sort cmp xs = sort_key k xs"
  by (induction xs) (simp_all add: js_sort_def sort_key_def js_insort_key [OF assms])

lemma set_js_insort [simp]: "set (js_insort cmp x ys) = insert x (set ys)"
  by (induction ys) auto

lemma set_js_sort [simp]: "set (js_sort cmp xs) = set xs"
  by (induction xs) (auto simp: js_sort_def)

subsection \<open>Rules for throwing state transformers\<close>

lemma op_keepsD: "op_keeps P m \<Longrightarrow> P s \<Longrightarrow> P (snd (m s))"
  by (simp add: op_keeps_def)

lemma op_keeps_return [op_rules]: "op_keeps P (op_return x)"
  by (simp add: op_keeps_def op_return_def)

lemma op_keeps_throw [op_rules]: "op_keeps P (op_throw e)"
  by (simp add: op_keeps_def op_throw_def)

lemma op_keeps_gets [op_rules]: "op_keeps P (op_gets f)"
  by (simp add: op_keeps_def op_gets_def)

lemma op_keeps_bind [op_rules]:
  "op_keeps P m \<Longrightarrow> (\<And>x. op_keeps P (f x)) \<Longrightarrow> op_keeps P (op_bind m f)"
  by (fastforce simp: op_keeps_def op_bind_def split: prod.split sum.split)

lemma op_keeps_then [op_rules]: "op_keeps P m \<Longrightarrow> op_keeps P k \<Longrightarrow> op_keeps P (op_then m k)"
  unfolding op_then_def by (rule op_keeps_bind)

lemma op_keeps_modify: "(\<And>s. P s \<Longrightarrow> P (f s)) \<Longrightarrow> op_keeps P (op_modify f)"
  by (simp add: op_keeps_def op_modify_def)

lemma op_keeps_when [op_rules]: "op_keeps P m \<Longrightarrow> op_keeps P (op_when b m)"
  by (simp add: op_when_def op_keeps_return)

lemma op_keeps_for [op_rules]: "(\<And>x. op_keeps P (f x)) \<Longrightarrow> op_keeps P (op_for f xs)"
  by (induction xs) (auto intro: op_rules)

lemma op_bind_exec [simp]:
  "op_bind (op_gets f) k s = k (f s) s"
  "op_bind (op_return x) k s = k x s"
  "op_bind (op_throw e) k s = (Inl e, s)"
  "op_bind (op_modify h) k' s = k' () (h s)"
  by (simp_all add: op_defs)

lemma op_then_exec [simp]:
  "op_then (op_return ()) k s = k s"
  "op_then (op_throw e) k s = (Inl e, s)"
  "op_then (op_modify h) k s = k (h s)"
  "op_then (op_when b m) k s = (if b then op_then m k s else k s)"
  by (simp_all add: op_defs)

subsection \<open>Triples for throwing state transformers\<close>

text \<open>
  From a state with \<open>P\<close>, the operation returns a value and a state with \<open>Q\<close>, or throws in a
  state with \<open>E\<close>.
\<close>

definition op_triple ::
  "('s \<Rightarrow> bool) \<Rightarrow> ('s, 'e, 'a) op \<Rightarrow> ('a \<Rightarrow> 's \<Rightarrow> bool) \<Rightarrow> ('s \<Rightarrow> bool) \<Rightarrow> bool" where
  "op_triple P m Q E =
     (\<forall>s. P s \<longrightarrow> (case m s of (Inr x, t) \<Rightarrow> Q x t | (Inl e, t) \<Rightarrow> E t))"

lemma op_tripleI:
  "(\<And>s. P s \<Longrightarrow> case m s of (Inr x, t) \<Rightarrow> Q x t | (Inl e, t) \<Rightarrow> E t) \<Longrightarrow> op_triple P m Q E"
  by (simp add: op_triple_def)

lemma op_triple_return: "(\<And>s. P s \<Longrightarrow> Q x s) \<Longrightarrow> op_triple P (op_return x) Q E"
  by (simp add: op_triple_def op_return_def)

lemma op_triple_throw: "(\<And>s. P s \<Longrightarrow> E s) \<Longrightarrow> op_triple P (op_throw e) Q E"
  by (simp add: op_triple_def op_throw_def)

lemma op_triple_gets: "(\<And>s. P s \<Longrightarrow> Q (f s) s) \<Longrightarrow> op_triple P (op_gets f) Q E"
  by (simp add: op_triple_def op_gets_def)

lemma op_triple_modify: "(\<And>s. P s \<Longrightarrow> Q () (f s)) \<Longrightarrow> op_triple P (op_modify f) Q E"
  by (simp add: op_triple_def op_modify_def)

lemma op_triple_bind:
  "op_triple P m R E \<Longrightarrow> (\<And>x. op_triple (R x) (f x) Q E) \<Longrightarrow> op_triple P (op_bind m f) Q E"
  by (fastforce simp: op_triple_def op_bind_def split: prod.splits sum.splits)

lemma op_triple_then:
  "op_triple P m (\<lambda>_. R) E \<Longrightarrow> op_triple R k Q E \<Longrightarrow> op_triple P (op_then m k) Q E"
  unfolding op_then_def by (rule op_triple_bind)

lemma op_triple_when:
  "(b \<Longrightarrow> op_triple P m (\<lambda>_. R) E) \<Longrightarrow> (\<And>s. \<not> b \<Longrightarrow> P s \<Longrightarrow> R s) \<Longrightarrow>
     op_triple P (op_when b m) (\<lambda>_. R) E"
  by (auto simp: op_when_def intro: op_triple_return)

lemma op_triple_weaken:
  "op_triple P m Q E \<Longrightarrow> (\<And>s. P' s \<Longrightarrow> P s) \<Longrightarrow> (\<And>x s. Q x s \<Longrightarrow> Q' x s) \<Longrightarrow>
     (\<And>s. E s \<Longrightarrow> E' s) \<Longrightarrow> op_triple P' m Q' E'"
  by (fastforce simp: op_triple_def split: prod.splits sum.splits)

lemma op_triple_pointwise:
  "(\<And>s. P s \<Longrightarrow> op_triple (\<lambda>t. t = s) m Q E) \<Longrightarrow> op_triple P m Q E"
  by (simp add: op_triple_def)

lemma op_triple_ex:
  assumes "\<And>y. op_triple (P y) m Q E" shows "op_triple (\<lambda>s. \<exists>y. P y s) m Q E"
proof (rule op_tripleI)
  fix s
  assume "\<exists>y. P y s"
  then obtain y where "P y s" ..
  with assms [of y] show "case m s of (Inr x, t) \<Rightarrow> Q x t | (Inl e, t) \<Rightarrow> E t"
    by (simp add: op_triple_def)
qed

lemma op_triple_for:
  "(\<And>x. x \<in> set xs \<Longrightarrow> op_triple P (f x) (\<lambda>_. P) P) \<Longrightarrow> op_triple P (op_for f xs) (\<lambda>_. P) P"
  by (induction xs) (auto intro: op_triple_return op_triple_then)

lemma op_tripleD:
  "op_triple P m Q E \<Longrightarrow> P s \<Longrightarrow> m s = (Inr x, t) \<Longrightarrow> Q x t"
  by (fastforce simp: op_triple_def)

lemma op_triple_snd:
  assumes "op_triple P m (\<lambda>_. R) R" "P s" shows "R (snd (m s))"
proof -
  obtain res t where "m s = (res, t)" by fastforce
  with assms show ?thesis by (cases res) (fastforce simp: op_triple_def)+
qed

lemma op_triple_run: "R (snd (m s)) \<Longrightarrow> op_triple (\<lambda>t. t = s) m (\<lambda>_. R) R"
  by (auto simp: op_triple_def split: prod.splits sum.splits)

lemma keeps_triple: "op_keeps P m \<Longrightarrow> op_triple P m (\<lambda>_. P) P"
  by (auto simp: op_keeps_def op_triple_def split: prod.split sum.split)

lemma triple_keeps: "op_triple P m (\<lambda>_. P) P \<Longrightarrow> op_keeps P m"
  unfolding op_keeps_def by (intro allI impI) (rule op_triple_snd)

subsection \<open>Runs of a machine\<close>

text \<open>A one-step invariant holds along every run.\<close>

locale stepping =
  fixes step :: "'e \<Rightarrow> 's \<Rightarrow> 's"
    and inv :: "'s \<Rightarrow> bool"
  assumes step_inv: "inv s \<Longrightarrow> inv (step e s)"
begin

lemma run_inv: "inv s \<Longrightarrow> inv (fold step es s)"
  by (induction es arbitrary: s) (auto simp: step_inv)

lemma run_prefix_inv: "inv s \<Longrightarrow> inv (fold step (take n es) s)"
  by (rule run_inv)

end

subsection \<open>Effects applied at most once per key\<close>

text \<open>
  The contract behind an idempotent debit or delivery: applying a key again changes nothing. A
  client that replays a sequence with duplicates reaches the state of the sequence without them.
\<close>

locale once_only =
  fixes effect :: "'k \<Rightarrow> 'd \<Rightarrow> 's \<Rightarrow> 's"
    and applied :: "'s \<Rightarrow> 'k \<Rightarrow> bool"
    and ready :: "'s \<Rightarrow> bool"
  assumes effect_again: "ready s \<Longrightarrow> applied s k \<Longrightarrow> effect k d s = s"
    and effect_marks: "ready s \<Longrightarrow> applied (effect k d s) k' \<longleftrightarrow> k' = k \<or> applied s k'"
    and effect_ready: "ready s \<Longrightarrow> ready (effect k d s)"
begin

lemma fold_effect_first_uses:
  assumes "ready s" "\<And>k. k \<in> set seen \<Longrightarrow> applied s k"
  shows "fold (\<lambda>(k, d). effect k d) xs s = fold (\<lambda>(k, d). effect k d) (first_uses seen xs) s"
  using assms
proof (induction xs arbitrary: s seen)
  case Nil
  then show ?case by simp
next
  case (Cons p xs)
  obtain k d where p: "p = (k, d)" by fastforce
  show ?case
  proof (cases "k \<in> set seen")
    case True
    then have "effect k d s = s" using Cons.prems effect_again by blast
    with True Cons show ?thesis by (simp add: p)
  next
    case False
    have "ready (effect k d s)" using Cons.prems(1) by (rule effect_ready)
    moreover have "applied (effect k d s) k'" if "k' \<in> set (k # seen)" for k'
      using that Cons.prems by (auto simp: effect_marks)
    ultimately have "fold (\<lambda>(k, d). effect k d) xs (effect k d s)
        = fold (\<lambda>(k, d). effect k d) (first_uses (k # seen) xs) (effect k d s)"
      by (rule Cons.IH)
    with False show ?thesis by (simp add: p)
  qed
qed

lemma fold_effect_ready: "ready s \<Longrightarrow> ready (fold (\<lambda>(k, d). effect k d) xs s)"
  by (induction xs arbitrary: s) (auto simp: effect_ready)

end

end
