(* ===== verification/Policy.thy ===== *)
theory Policy
  imports Prelude
begin

text \<open>
  The neutral start policy and the provider registry: \<^verbatim>\<open>src/src/domain/policy.ts\<close>,
  \<^verbatim>\<open>src/src/domain/limits.ts\<close>, \<^verbatim>\<open>src/src/domain/provider-registration.ts\<close> and
  \<^verbatim>\<open>src/src/control-plane/provider-registry.ts\<close>. Regular expressions of the source are written
  out as scans over the string; the lemmas relate each scan to the language the expression denotes.
\<close>

subsection \<open>Model names and launch safety\<close>

definition ascii_lower :: "char \<Rightarrow> char" where
  "ascii_lower c =
     (if 65 \<le> (of_char c :: nat) \<and> (of_char c :: nat) \<le> 90
      then char_of ((of_char c :: nat) + 32) else c)"

definition spells_fable :: "string \<Rightarrow> bool" where
  "spells_fable w = (map ascii_lower w = ''fable'')"

text \<open>\<^verbatim>\<open>fable($|-)\<close>, case-insensitively, at the head of a string.\<close>

definition fable_at :: "string \<Rightarrow> bool" where
  "fable_at s =
     (spells_fable (take 5 s)
      \<and> (case drop 5 s of [] \<Rightarrow> True | c # _ \<Rightarrow> c = CHR ''-''))"

text \<open>The scan of \<^verbatim>\<open>/(^|-)fable($|-)/i\<close>; the flag says that the head is a boundary.\<close>

fun fable_scan :: "bool \<Rightarrow> string \<Rightarrow> bool" where
  "fable_scan b [] = False"
| "fable_scan b (c # cs) = ((b \<and> fable_at (c # cs)) \<or> fable_scan (c = CHR ''-'') cs)"

definition isFableModel :: "string option \<Rightarrow> bool" where
  "isFableModel model = (case model of None \<Rightarrow> False | Some m \<Rightarrow> fable_scan True m)"

datatype launch_safety_decision = LaunchSafe | ClaudeLaunchRequiresExplicitModel

definition evaluateClaudeLaunchSafety :: "string \<Rightarrow> string option \<Rightarrow> launch_safety_decision" where
  "evaluateClaudeLaunchSafety provider model =
     (if provider \<noteq> ''claude'' then LaunchSafe
      else if model = None then ClaudeLaunchRequiresExplicitModel
      else LaunchSafe)"

subsection \<open>The interactive start policy\<close>

datatype session_kind = KindWorker | KindOrchestrator

text \<open>The two fields of a start request the policy reads.\<close>

record start_request =
  rq_kind :: "session_kind option"
  rq_parentSessionId :: "ident option"

record ancestry_entry =
  anc_id :: ident
  anc_parentSessionId :: "ident option"

text \<open>
  \<^verbatim>\<open>maxConcurrentWorkers?: number | null\<close> has three shapes: absent, \<^verbatim>\<open>null\<close> and a
  number.
\<close>

record start_policy_context =
  ctx_activeWorkerCount :: "nat option"
  ctx_maxConcurrentWorkers :: "nat option option"
  ctx_maxDelegationDepth :: "nat option"

datatype start_policy_decision =
    StartAllowed
  | StartMaxConcurrentWorkers nat nat
  | StartMaxDelegationDepth

definition DEFAULT_MAX_CONCURRENT_WORKERS :: nat where
  "DEFAULT_MAX_CONCURRENT_WORKERS = 64"

definition evaluateStart ::
  "start_request \<Rightarrow> ancestry_entry list \<Rightarrow> start_policy_context \<Rightarrow> start_policy_decision" where
  "evaluateStart request ancestry context =
     (let activeWorkerCount = (case ctx_activeWorkerCount context of None \<Rightarrow> 0 | Some n \<Rightarrow> n);
          maxConcurrentWorkers =
            (case ctx_maxConcurrentWorkers context of
               None \<Rightarrow> Some DEFAULT_MAX_CONCURRENT_WORKERS
             | Some limit \<Rightarrow> limit);
          maxDelegationDepth = (case ctx_maxDelegationDepth context of None \<Rightarrow> 1 | Some d \<Rightarrow> d);
          depth_check =
            (if rq_parentSessionId request \<noteq> None \<and> maxDelegationDepth < length ancestry
             then StartMaxDelegationDepth else StartAllowed)
      in case maxConcurrentWorkers of
           None \<Rightarrow> depth_check
         | Some limit \<Rightarrow>
             (if rq_kind request \<noteq> Some KindOrchestrator \<and> limit \<le> activeWorkerCount
              then StartMaxConcurrentWorkers activeWorkerCount limit
              else depth_check))"

subsection \<open>Provider registration\<close>

definition is_lower :: "char \<Rightarrow> bool" where
  "is_lower c = (97 \<le> (of_char c :: nat) \<and> (of_char c :: nat) \<le> 122)"

definition is_digit :: "char \<Rightarrow> bool" where
  "is_digit c = (48 \<le> (of_char c :: nat) \<and> (of_char c :: nat) \<le> 57)"

text \<open>\<^verbatim>\<open>ProviderIdSchema\<close>: \<^verbatim>\<open>/^[a-z][a-z0-9-]*$/\<close>.\<close>

definition provider_slug :: "string \<Rightarrow> bool" where
  "provider_slug s =
     (case s of [] \<Rightarrow> False
      | c # cs \<Rightarrow> is_lower c \<and> list_all (\<lambda>d. is_lower d \<or> is_digit d \<or> d = CHR ''-'') cs)"

record provider_descriptor =
  pd_id :: string
  pd_displayName :: string

definition descriptor_valid :: "provider_descriptor \<Rightarrow> bool" where
  "descriptor_valid d = (provider_slug (pd_id d) \<and> pd_displayName d \<noteq> [])"

type_synonym provider_registry = "(string, provider_descriptor) js_map"

datatype registry_error = DescriptorInvalid

definition registry_register ::
  "provider_descriptor \<Rightarrow> provider_registry \<Rightarrow> registry_error + provider_registry" where
  "registry_register d r =
     (if descriptor_valid d then Inr (js_set (pd_id d) d r) else Inl DescriptorInvalid)"

definition registry_has :: "provider_registry \<Rightarrow> string \<Rightarrow> bool" where
  "registry_has r i = js_has r i"

definition registry_list :: "provider_registry \<Rightarrow> provider_descriptor list" where
  "registry_list r = js_values r"

fun register_all ::
  "provider_descriptor list \<Rightarrow> provider_registry \<Rightarrow> registry_error + provider_registry" where
  "register_all [] r = Inr r"
| "register_all (d # ds) r =
     (case registry_register d r of Inl e \<Rightarrow> Inl e | Inr r' \<Rightarrow> register_all ds r')"

definition BUILTIN_PROVIDER_IDS :: "string list" where
  "BUILTIN_PROVIDER_IDS = [''codex'', ''claude'']"

definition defaultProviderRegistry :: "registry_error + provider_registry" where
  "defaultProviderRegistry =
     register_all (map (\<lambda>i. \<lparr>pd_id = i, pd_displayName = i\<rparr>) BUILTIN_PROVIDER_IDS) []"

datatype provider_validation = ProviderOk string | ProviderNotRegistered

fun registered_scan :: "string \<Rightarrow> string list \<Rightarrow> provider_validation" where
  "registered_scan i [] = ProviderNotRegistered"
| "registered_scan i (known # rest) = (if known = i then ProviderOk i else registered_scan i rest)"

definition validateRegisteredProvider :: "string \<Rightarrow> string list \<Rightarrow> provider_validation" where
  "validateRegisteredProvider i registered =
     (if provider_slug i then registered_scan i registered else ProviderNotRegistered)"

subsection \<open>What the scans decide\<close>

text \<open>The language of the expression: a boundary, the word, a boundary.\<close>

definition fable_word :: "string \<Rightarrow> bool" where
  "fable_word m =
     (\<exists>pre w post. m = pre @ w @ post \<and> spells_fable w
        \<and> (pre = [] \<or> last pre = CHR ''-'') \<and> (post = [] \<or> hd post = CHR ''-''))"

lemma length_spells_fable: "spells_fable w \<Longrightarrow> length w = 5"
  unfolding spells_fable_def by (drule arg_cong [where f = length]) simp

lemma fable_at_iff:
  "fable_at s \<longleftrightarrow>
     (\<exists>w post. s = w @ post \<and> spells_fable w \<and> (post = [] \<or> hd post = CHR ''-''))"
proof
  assume "fable_at s"
  then have "s = take 5 s @ drop 5 s" "spells_fable (take 5 s)"
    "drop 5 s = [] \<or> hd (drop 5 s) = CHR ''-''"
    by (auto simp: fable_at_def split: list.splits)
  then show "\<exists>w post. s = w @ post \<and> spells_fable w
      \<and> (post = [] \<or> hd post = CHR ''-'')" by (intro exI conjI)
next
  assume "\<exists>w post. s = w @ post \<and> spells_fable w
      \<and> (post = [] \<or> hd post = CHR ''-'')"
  then obtain w post where s: "s = w @ post" and w: "spells_fable w"
    and post: "post = [] \<or> hd post = CHR ''-''" by blast
  from w have "length w = 5" by (rule length_spells_fable)
  then have "take 5 s = w" "drop 5 s = post" by (simp_all add: s)
  with w post show "fable_at s"
    by (cases post) (simp_all add: fable_at_def)
qed

lemma fable_scan_iff:
  "fable_scan b s \<longleftrightarrow>
     (\<exists>pre rest. s = pre @ rest \<and> rest \<noteq> [] \<and> fable_at rest
        \<and> (if pre = [] then b else last pre = CHR ''-''))"
proof (induction b s rule: fable_scan.induct)
  case (1 b)
  then show ?case by simp
next
  case (2 b c cs)
  show ?case
  proof
    assume "fable_scan b (c # cs)"
    then consider "b" "fable_at (c # cs)" | "fable_scan (c = CHR ''-'') cs" by auto
    then show "\<exists>pre rest. c # cs = pre @ rest \<and> rest \<noteq> [] \<and> fable_at rest
        \<and> (if pre = [] then b else last pre = CHR ''-'')"
    proof cases
      case 1
      then show ?thesis by (intro exI [of _ "[]"] exI [of _ "c # cs"]) simp
    next
      case 2
      then obtain pre rest where "cs = pre @ rest" "rest \<noteq> []" "fable_at rest"
        "if pre = [] then c = CHR ''-'' else last pre = CHR ''-''"
        using "2.IH" by blast
      then show ?thesis by (intro exI [of _ "c # pre"] exI [of _ rest]) (auto split: if_splits)
    qed
  next
    assume "\<exists>pre rest. c # cs = pre @ rest \<and> rest \<noteq> [] \<and> fable_at rest
        \<and> (if pre = [] then b else last pre = CHR ''-'')"
    then obtain pre rest where eq: "c # cs = pre @ rest" and ne: "rest \<noteq> []"
      and at: "fable_at rest" and bd: "if pre = [] then b else last pre = CHR ''-''" by blast
    show "fable_scan b (c # cs)"
    proof (cases pre)
      case Nil
      with eq have "rest = c # cs" by simp
      with at bd Nil show ?thesis by simp
    next
      case (Cons d pre')
      with eq ne at bd have "\<exists>pre rest. cs = pre @ rest \<and> rest \<noteq> [] \<and> fable_at rest
          \<and> (if pre = [] then c = CHR ''-'' else last pre = CHR ''-'')"
        by (intro exI [of _ pre'] exI [of _ rest]) auto
      with "2.IH" show ?thesis by simp
    qed
  qed
qed

lemma registered_scan_iff: "registered_scan i ids = ProviderOk j \<longleftrightarrow> j = i \<and> i \<in> set ids"
  by (induction i ids rule: registered_scan.induct) auto

lemma keyed_register:
  "registry_register d r = Inr r' \<Longrightarrow> keyed pd_id r \<Longrightarrow> keyed pd_id r'"
  by (auto simp: registry_register_def split: if_splits)

lemma register_all_slugs:
  "register_all ds r = Inr r' \<Longrightarrow> \<forall>d \<in> set (js_values r). descriptor_valid d \<Longrightarrow> keyed pd_id r \<Longrightarrow>
     (\<forall>d \<in> set (js_values r'). descriptor_valid d) \<and> keyed pd_id r'
       \<and> set (js_keys r') = set (js_keys r) \<union> pd_id ` set ds"
proof (induction ds arbitrary: r)
  case Nil
  then show ?case by simp
next
  case (Cons d ds)
  from Cons.prems(1) obtain r1 where r1: "registry_register d r = Inr r1"
    and rest: "register_all ds r1 = Inr r'" by (auto split: sum.splits)
  from r1 have eq: "r1 = js_set (pd_id d) d r" and valid: "descriptor_valid d"
    by (auto simp: registry_register_def split: if_splits)
  have v1: "\<forall>d \<in> set (js_values r1). descriptor_valid d"
    using Cons.prems(2) valid eq by (auto dest!: set_js_set_D)
  have k1: "keyed pd_id r1" using keyed_register [OF r1 Cons.prems(3)] .
  have "set (js_keys r1) = insert (pd_id d) (set (js_keys r))"
    unfolding eq js.keys_put by auto
  with Cons.IH [OF rest v1 k1] show ?case by simp
qed

subsection \<open>Properties\<close>

text \<open>
  The Fable gate recognises exactly the model names in which the word fable, in any letter
  case, stands between hyphens or ends of the name.
\<close>

theorem isFableModel_language: "isFableModel (Some m) \<longleftrightarrow> fable_word m"
proof -
  have "fable_word m \<longleftrightarrow> (\<exists>pre rest. m = pre @ rest \<and> fable_at rest \<and> (pre = [] \<or> last pre = CHR ''-''))"
    unfolding fable_word_def fable_at_iff by metis
  also have "\<dots> \<longleftrightarrow> fable_scan True m"
  proof -
    have ne: "rest \<noteq> []" if "fable_at rest" for rest
      using that by (auto simp: fable_at_def spells_fable_def)
    have bd: "(if pre = [] then True else last pre = CHR ''-'') \<longleftrightarrow> pre = [] \<or> last pre = CHR ''-''"
      for pre :: string by simp
    show ?thesis unfolding fable_scan_iff bd using ne by blast
  qed
  finally show ?thesis by (simp add: isFableModel_def)
qed

text \<open>
  Explicit selection: after any sequence of successful registrations on top of the built-in
  providers, a provider id validates against the registry exactly when it is a built-in id or one
  of the registered descriptors carries it.
\<close>

theorem validate_iff_registered:
  assumes "register_all (map (\<lambda>i. \<lparr>pd_id = i, pd_displayName = i\<rparr>) BUILTIN_PROVIDER_IDS @ ds) [] = Inr r"
  shows "validateRegisteredProvider i (map pd_id (registry_list r)) = ProviderOk i \<longleftrightarrow>
           i \<in> set BUILTIN_PROVIDER_IDS \<union> pd_id ` set ds"
proof -
  have r: "\<forall>d \<in> set (js_values r). descriptor_valid d" "keyed pd_id r"
    "set (js_keys r) = set BUILTIN_PROVIDER_IDS \<union> pd_id ` set ds"
    using register_all_slugs [OF assms] by (auto simp: image_Un image_image)
  have ids: "set (map pd_id (registry_list r)) = set (js_keys r)"
    using r(2) by (force simp: registry_list_def keyed_def list_all_iff)
  have slug: "provider_slug i" if "i \<in> set (js_keys r)"
    using that r(1,2) by (force simp: keyed_def list_all_iff descriptor_valid_def)
  show ?thesis
    unfolding validateRegisteredProvider_def registered_scan_iff [symmetric]
    using slug ids r(3) registered_scan_iff by (auto split: if_splits)
qed

text \<open>Registering Cursor on top of the built-ins makes exactly its id selectable as well.\<close>

theorem validate_iff_registered_witness:
  "validateRegisteredProvider ''cursor''
     (map pd_id (registry_list
       [(''codex'', \<lparr>pd_id = ''codex'', pd_displayName = ''codex''\<rparr>),
        (''claude'', \<lparr>pd_id = ''claude'', pd_displayName = ''claude''\<rparr>),
        (''cursor'', \<lparr>pd_id = ''cursor'', pd_displayName = ''Cursor''\<rparr>)]))
   = ProviderOk ''cursor''"
proof -
  have "register_all (map (\<lambda>i. \<lparr>pd_id = i, pd_displayName = i\<rparr>) BUILTIN_PROVIDER_IDS
        @ [\<lparr>pd_id = ''cursor'', pd_displayName = ''Cursor''\<rparr>]) []
      = Inr [(''codex'', \<lparr>pd_id = ''codex'', pd_displayName = ''codex''\<rparr>),
        (''claude'', \<lparr>pd_id = ''claude'', pd_displayName = ''claude''\<rparr>),
        (''cursor'', \<lparr>pd_id = ''cursor'', pd_displayName = ''Cursor''\<rparr>)]"
    by code_simp
  from validate_iff_registered [OF this, of "''cursor''"] show ?thesis by simp
qed

end
