(* ===== verification/Admission_Scheduler.thy ===== *)
theory Admission_Scheduler
  imports Policy
begin

text \<open>
  The admission scheduler of the job plane: \<^verbatim>\<open>src/src/control-plane/admission-scheduler.ts\<close>
  and the concurrency declaration of \<^verbatim>\<open>src/src/domain/budget.ts\<close>. The class is a record; every
  method is a function on it. The reservation id and the clock reading that \<^verbatim>\<open>admitNext\<close> asks
  its options for are arguments.

  The lemmas give the well-formedness invariant, that every declared concurrency ceiling holds in
  every reachable state, and that the scan is first-in first-out within a bucket.
\<close>

subsection \<open>Data\<close>

record concurrency_declaration =
  cd_schemaVersion :: nat
  maxConcurrentJobs :: "nat option"
  maxConcurrentPerProvider :: "(string, nat) js_map option"
  maxConcurrentPerRepository :: "nat option"

record admission_candidate =
  ac_jobId :: ident
  ac_provider :: string
  ac_repositoryKey :: string
  ac_enqueuedAt :: instant
  ac_model :: "string option"

record queued_entry = admission_candidate +
  qe_sequence :: nat

record slot_reservation =
  sr_reservationId :: ident
  sr_jobId :: ident
  sr_provider :: string
  sr_repositoryKey :: string
  sr_reservedAt :: instant

datatype admission_block_reason =
    MaxConcurrentJobs
  | MaxConcurrentPerProvider
  | MaxConcurrentPerRepository
  | ClaudeModelRequired

record queued_entry_view =
  qv_jobId :: ident
  qv_provider :: string
  qv_repositoryKey :: string
  qv_enqueuedAt :: instant
  qv_blockedBy :: admission_block_reason

record admission_scheduler =
  as_limits :: concurrency_declaration
  as_queue :: "(ident, queued_entry) js_map"
  as_reservations :: "(ident, slot_reservation) js_map"
  as_sequence :: nat
  as_open :: bool

record admission_snapshot =
  sn_limits :: concurrency_declaration
  sn_admissionOpen :: bool
  sn_reservations :: "slot_reservation list"
  sn_queued :: "queued_entry_view list"

subsection \<open>Operations\<close>

definition new_scheduler :: "concurrency_declaration \<Rightarrow> admission_scheduler" where
  "new_scheduler limits =
     \<lparr>as_limits = limits, as_queue = [], as_reservations = [], as_sequence = 0, as_open = False\<rparr>"

definition activeCount :: "admission_scheduler \<Rightarrow> nat" where
  "activeCount s = length (as_reservations s)"

definition openAdmission :: "admission_scheduler \<Rightarrow> admission_scheduler" where
  "openAdmission s = s\<lparr>as_open := True\<rparr>"

definition closeAdmission :: "admission_scheduler \<Rightarrow> admission_scheduler" where
  "closeAdmission s = s\<lparr>as_open := False\<rparr>"

definition enqueue :: "admission_candidate \<Rightarrow> admission_scheduler \<Rightarrow> admission_scheduler" where
  "enqueue c s =
     (if js_has (as_queue s) (ac_jobId c) \<or> js_has (as_reservations s) (ac_jobId c) then s
      else s\<lparr>as_sequence := as_sequence s + 1,
             as_queue := js_set (ac_jobId c)
               (admission_candidate.extend c (queued_entry.fields (as_sequence s + 1)))
               (as_queue s)\<rparr>)"

definition entry_compare :: "queued_entry \<Rightarrow> queued_entry \<Rightarrow> int" where
  "entry_compare left right =
     (if ac_enqueuedAt left \<noteq> ac_enqueuedAt right
      then js_compare (ac_enqueuedAt left) (ac_enqueuedAt right)
      else if qe_sequence left \<noteq> qe_sequence right
      then int (qe_sequence left) - int (qe_sequence right)
      else js_compare (ac_jobId left) (ac_jobId right))"

definition ordered :: "admission_scheduler \<Rightarrow> queued_entry list" where
  "ordered s = js_sort entry_compare (js_values (as_queue s))"

definition countBy :: "(slot_reservation \<Rightarrow> string) \<Rightarrow> string \<Rightarrow> admission_scheduler \<Rightarrow> nat" where
  "countBy f v s = length (filter (\<lambda>r. f r = v) (js_values (as_reservations s)))"

definition blockReason ::
  "admission_scheduler \<Rightarrow> 'a admission_candidate_scheme \<Rightarrow> admission_block_reason option" where
  "blockReason s c =
     (if evaluateClaudeLaunchSafety (ac_provider c) (ac_model c) \<noteq> LaunchSafe
      then Some ClaudeModelRequired
      else if (case maxConcurrentJobs (as_limits s) of None \<Rightarrow> False
               | Some n \<Rightarrow> n \<le> length (as_reservations s))
      then Some MaxConcurrentJobs
      else if (case maxConcurrentPerProvider (as_limits s) of None \<Rightarrow> False
               | Some m \<Rightarrow>
                   (case js_get m (ac_provider c) of None \<Rightarrow> False
                    | Some n \<Rightarrow> n \<le> countBy sr_provider (ac_provider c) s))
      then Some MaxConcurrentPerProvider
      else if (case maxConcurrentPerRepository (as_limits s) of None \<Rightarrow> False
               | Some n \<Rightarrow> n \<le> countBy sr_repositoryKey (ac_repositoryKey c) s)
      then Some MaxConcurrentPerRepository
      else None)"

definition reservation_of :: "ident \<Rightarrow> instant \<Rightarrow> queued_entry \<Rightarrow> slot_reservation" where
  "reservation_of rid now c =
     \<lparr>sr_reservationId = rid, sr_jobId = ac_jobId c, sr_provider = ac_provider c,
      sr_repositoryKey = ac_repositoryKey c, sr_reservedAt = now\<rparr>"

text \<open>The scan of \<^verbatim>\<open>admitNext\<close>: the first candidate in order that nothing blocks.\<close>

definition next_eligible :: "admission_scheduler \<Rightarrow> queued_entry option" where
  "next_eligible s = List.find (\<lambda>c. blockReason s c = None) (ordered s)"

definition admitNext ::
  "ident \<Rightarrow> instant \<Rightarrow> admission_scheduler \<Rightarrow> slot_reservation option \<times> admission_scheduler" where
  "admitNext rid now s =
     (if \<not> as_open s then (None, s)
      else case next_eligible s of
             None \<Rightarrow> (None, s)
           | Some c \<Rightarrow>
               (let r = reservation_of rid now c
                in (Some r,
                    s\<lparr>as_queue := js_delete (ac_jobId c) (as_queue s),
                      as_reservations := js_set (ac_jobId c) r (as_reservations s)\<rparr>)))"

definition release :: "ident \<Rightarrow> admission_scheduler \<Rightarrow> bool \<times> admission_scheduler" where
  "release j s =
     (js_has (as_reservations s) j, s\<lparr>as_reservations := js_delete j (as_reservations s)\<rparr>)"

definition withdraw :: "ident \<Rightarrow> admission_scheduler \<Rightarrow> bool \<times> admission_scheduler" where
  "withdraw j s = (js_has (as_queue s) j, s\<lparr>as_queue := js_delete j (as_queue s)\<rparr>)"

definition isQueued :: "ident \<Rightarrow> admission_scheduler \<Rightarrow> bool" where
  "isQueued j s = js_has (as_queue s) j"

definition holdsSlot :: "ident \<Rightarrow> admission_scheduler \<Rightarrow> bool" where
  "holdsSlot j s = js_has (as_reservations s) j"

definition view_of :: "admission_scheduler \<Rightarrow> queued_entry \<Rightarrow> queued_entry_view" where
  "view_of s c =
     \<lparr>qv_jobId = ac_jobId c, qv_provider = ac_provider c, qv_repositoryKey = ac_repositoryKey c,
      qv_enqueuedAt = ac_enqueuedAt c,
      qv_blockedBy = (case blockReason s c of None \<Rightarrow> MaxConcurrentJobs | Some b \<Rightarrow> b)\<rparr>"

definition snapshot :: "admission_scheduler \<Rightarrow> admission_snapshot" where
  "snapshot s =
     \<lparr>sn_limits = as_limits s, sn_admissionOpen = as_open s,
      sn_reservations = js_values (as_reservations s),
      sn_queued = map (view_of s) (ordered s)\<rparr>"

text \<open>The calls a client can make, as data, and the state each leaves.\<close>

datatype scheduler_call =
    CallOpen
  | CallClose
  | CallEnqueue admission_candidate
  | CallAdmit ident instant
  | CallRelease ident
  | CallWithdraw ident

fun scheduler_step :: "scheduler_call \<Rightarrow> admission_scheduler \<Rightarrow> admission_scheduler" where
  "scheduler_step CallOpen s = openAdmission s"
| "scheduler_step CallClose s = closeAdmission s"
| "scheduler_step (CallEnqueue c) s = enqueue c s"
| "scheduler_step (CallAdmit rid now) s = snd (admitNext rid now s)"
| "scheduler_step (CallRelease j) s = snd (release j s)"
| "scheduler_step (CallWithdraw j) s = snd (withdraw j s)"

text \<open>Slots handed out to a job minus slots taken back from it along a sequence of calls.\<close>

fun slot_delta :: "ident \<Rightarrow> scheduler_call \<Rightarrow> admission_scheduler \<Rightarrow> int" where
  "slot_delta j (CallAdmit rid now) s =
     (case fst (admitNext rid now s) of None \<Rightarrow> 0 | Some r \<Rightarrow> if sr_jobId r = j then 1 else 0)"
| "slot_delta j (CallRelease k) s = (if k = j \<and> fst (release k s) then - 1 else 0)"
| "slot_delta j _ s = 0"

fun slot_balance :: "ident \<Rightarrow> scheduler_call list \<Rightarrow> admission_scheduler \<Rightarrow> int" where
  "slot_balance j [] s = 0"
| "slot_balance j (c # cs) s = slot_delta j c s + slot_balance j cs (scheduler_step c s)"

subsection \<open>The invariant\<close>

definition scheduler_wf :: "admission_scheduler \<Rightarrow> bool" where
  "scheduler_wf s =
     (keyed ac_jobId (as_queue s) \<and> keyed sr_jobId (as_reservations s)
      \<and> set (js_keys (as_queue s)) \<inter> set (js_keys (as_reservations s)) = {}
      \<and> list_all (\<lambda>e. qe_sequence e \<le> as_sequence s) (js_values (as_queue s))
      \<and> distinct (map qe_sequence (js_values (as_queue s))))"

definition within_limits :: "admission_scheduler \<Rightarrow> bool" where
  "within_limits s =
     ((case maxConcurrentJobs (as_limits s) of None \<Rightarrow> True
       | Some n \<Rightarrow> length (as_reservations s) \<le> n)
      \<and> (case maxConcurrentPerProvider (as_limits s) of None \<Rightarrow> True
         | Some m \<Rightarrow> (\<forall>p n. js_get m p = Some n \<longrightarrow> countBy sr_provider p s \<le> n))
      \<and> (case maxConcurrentPerRepository (as_limits s) of None \<Rightarrow> True
         | Some n \<Rightarrow> (\<forall>k. countBy sr_repositoryKey k s \<le> n)))"

definition scheduler_inv :: "admission_scheduler \<Rightarrow> bool" where
  "scheduler_inv s = (scheduler_wf s \<and> within_limits s)"

text \<open>The global admission order: instant, then arrival.\<close>

definition entry_key :: "queued_entry \<Rightarrow> instant \<times> nat \<times> ident" where
  "entry_key e = (ac_enqueuedAt e, qe_sequence e, ac_jobId e)"

lemmas scheduler_op_defs = openAdmission_def closeAdmission_def enqueue_def admitNext_def
  release_def withdraw_def new_scheduler_def

subsection \<open>The scan order\<close>

lemma entry_compare_le: "entry_compare x y \<le> 0 \<longleftrightarrow> entry_key x \<le> entry_key y"
  by (auto simp: entry_compare_def entry_key_def js_compare_le less_eq_prod_def)

lemma ordered_sort_key: "ordered s = sort_key entry_key (js_values (as_queue s))"
  unfolding ordered_def by (rule js_sort_key) (rule entry_compare_le)

lemma set_ordered [simp]: "set (ordered s) = set (js_values (as_queue s))"
  by (simp add: ordered_def)

lemma sorted_ordered: "sorted (map entry_key (ordered s))"
  by (simp add: ordered_sort_key)

lemma find_sorted_least:
  assumes "sorted (map f xs)" "List.find P xs = Some x" "y \<in> set xs" "P y"
  shows "f x \<le> f y"
  using assms
  by (induction xs) (auto split: if_splits)

lemma next_eligible_Some:
  assumes "next_eligible s = Some c"
  shows "c \<in> set (js_values (as_queue s))" "blockReason s c = None"
    "\<And>e. e \<in> set (js_values (as_queue s)) \<Longrightarrow> blockReason s e = None \<Longrightarrow> entry_key c \<le> entry_key e"
proof -
  from assms have found: "List.find (\<lambda>c. blockReason s c = None) (ordered s) = Some c"
    by (simp add: next_eligible_def)
  then have "c \<in> set (ordered s)" and "blockReason s c = None"
    using nth_mem by (fastforce simp: find_Some_iff simp del: set_ordered)+
  then show "c \<in> set (js_values (as_queue s))" "blockReason s c = None"
    by simp_all
  fix e
  assume "e \<in> set (js_values (as_queue s))" "blockReason s e = None"
  then show "entry_key c \<le> entry_key e"
    using find_sorted_least [OF sorted_ordered found] by simp
qed

lemma next_eligible_None:
  "next_eligible s = None \<longleftrightarrow> (\<forall>e \<in> set (js_values (as_queue s)). blockReason s e \<noteq> None)"
  by (auto simp: next_eligible_def find_None_iff)

lemma blockReason_bucket:
  assumes "ac_provider (c :: 'a admission_candidate_scheme) = ac_provider (d :: 'b admission_candidate_scheme)"
    and "ac_repositoryKey c = ac_repositoryKey d"
    and "blockReason s c = None" and "blockReason s d = Some b"
  shows "b = ClaudeModelRequired"
  using assms by (auto simp: blockReason_def split: if_splits option.splits)

lemma blockReason_claude:
  "blockReason s (c :: 'a admission_candidate_scheme) = Some ClaudeModelRequired \<longleftrightarrow>
     evaluateClaudeLaunchSafety (ac_provider c) (ac_model c) \<noteq> LaunchSafe"
  by (simp add: blockReason_def)

subsection \<open>Counting reservations\<close>

lemma countBy_append:
  "j \<notin> set (js_keys (as_reservations s)) \<Longrightarrow>
     countBy f v (s\<lparr>as_queue := q, as_reservations := js_set j r (as_reservations s)\<rparr>)
       = countBy f v s + (if f r = v then 1 else 0)"
  by (simp add: countBy_def js_set_fresh)

lemma countBy_other [simp]:
  "countBy f v (s\<lparr>as_queue := q\<rparr>) = countBy f v s"
  "countBy f v (s\<lparr>as_open := b\<rparr>) = countBy f v s"
  "countBy f v (s\<lparr>as_sequence := n\<rparr>) = countBy f v s"
  by (simp_all add: countBy_def)

lemma countBy_delete:
  "countBy f v (s\<lparr>as_reservations := js_delete j (as_reservations s)\<rparr>) \<le> countBy f v s"
  using filter_js_delete_length [of "\<lambda>r. f r = v" j "as_reservations s"]
  by (simp add: countBy_def)

subsection \<open>Every call keeps the invariant\<close>

lemma within_limits_mono:
  assumes "within_limits s" "as_limits t = as_limits s"
    and "length (as_reservations t) \<le> length (as_reservations s)"
    and "\<And>f v. countBy f v t \<le> countBy f v s"
  shows "within_limits t"
  using assms unfolding within_limits_def
  by (auto split: option.splits) (meson order_trans)+

lemma enqueue_wf: "scheduler_wf s \<Longrightarrow> scheduler_wf (enqueue c s)"
  by (auto simp: scheduler_wf_def enqueue_def js_simps js_set_fresh list_all_iff
      admission_candidate.defs queued_entry.defs keyed_def js_wf_def le_Suc_eq)

lemma admitNext_cases:
  obtains (closed) "admitNext rid now s = (None, s)"
      "\<not> as_open s \<or> next_eligible s = None"
  | (admitted) c where "as_open s" "next_eligible s = Some c"
      "admitNext rid now s = (Some (reservation_of rid now c),
         s\<lparr>as_queue := js_delete (ac_jobId c) (as_queue s),
           as_reservations := js_set (ac_jobId c) (reservation_of rid now c) (as_reservations s)\<rparr>)"
  by (cases "as_open s"; cases "next_eligible s") (auto simp: admitNext_def Let_def)

lemma distinct_map_delete:
  "distinct (map f (js_values m)) \<Longrightarrow> distinct (map f (js_values (js_delete k m)))"
  by (induction m) (auto simp: AList.delete_eq)

lemma wf_delete_queue:
  "scheduler_wf s \<Longrightarrow> scheduler_wf (s\<lparr>as_queue := js_delete j (as_queue s)\<rparr>)"
  by (auto simp: scheduler_wf_def js_simps list_all_iff js_delete_pairs distinct_map_delete
      simp del: map_map)

lemma wf_delete_reservation:
  "scheduler_wf s \<Longrightarrow> scheduler_wf (s\<lparr>as_reservations := js_delete j (as_reservations s)\<rparr>)"
  by (auto simp: scheduler_wf_def js_simps)

lemma wf_reserve:
  "scheduler_wf s \<Longrightarrow> sr_jobId r = j \<Longrightarrow> j \<notin> set (js_keys (as_queue s)) \<Longrightarrow>
     scheduler_wf (s\<lparr>as_reservations := js_set j r (as_reservations s)\<rparr>)"
  by (auto simp: scheduler_wf_def js_simps simp del: set_map split: if_splits)

lemma admitNext_wf:
  assumes "scheduler_wf s" shows "scheduler_wf (snd (admitNext rid now s))"
proof (cases rid now s rule: admitNext_cases)
  case closed
  with assms show ?thesis by simp
next
  case (admitted c)
  have "scheduler_wf ((s\<lparr>as_queue := js_delete (ac_jobId c) (as_queue s)\<rparr>)
      \<lparr>as_reservations := js_set (ac_jobId c) (reservation_of rid now c)
        (as_reservations (s\<lparr>as_queue := js_delete (ac_jobId c) (as_queue s)\<rparr>))\<rparr>)"
    by (rule wf_reserve [OF wf_delete_queue [OF assms]])
      (auto simp: reservation_of_def js_simps)
  with admitted(3) show ?thesis by simp
qed

lemma admitNext_fresh:
  assumes "scheduler_wf s" "next_eligible s = Some c"
  shows "ac_jobId c \<notin> set (js_keys (as_reservations s))"
proof -
  from assms(1) have "keyed ac_jobId (as_queue s)" by (simp add: scheduler_wf_def)
  then have "js_get (as_queue s) (ac_jobId c) = Some c"
    using next_eligible_Some(1) [OF assms(2)] keyed_value by metis
  then have "ac_jobId c \<in> set (js_keys (as_queue s))"
    by (metis js.keys_get option.distinct(1))
  with assms(1) show ?thesis by (auto simp: scheduler_wf_def)
qed

lemma admitNext_within_limits:
  assumes "scheduler_inv s" shows "within_limits (snd (admitNext rid now s))"
proof (cases rid now s rule: admitNext_cases)
  case closed
  with assms show ?thesis by (simp add: scheduler_inv_def)
next
  case (admitted c)
  let ?r = "reservation_of rid now c"
  have fresh: "ac_jobId c \<notin> set (js_keys (as_reservations s))"
    using assms admitted(2) admitNext_fresh by (simp add: scheduler_inv_def)
  have none: "blockReason s c = None" using next_eligible_Some(2) [OF admitted(2)] .
  have len: "length (js_set (ac_jobId c) ?r (as_reservations s)) = Suc (length (as_reservations s))"
    using fresh by (simp add: js_set_fresh)
  let ?t = "snd (admitNext rid now s)"
  have t: "as_limits ?t = as_limits s" "length (as_reservations ?t) = Suc (length (as_reservations s))"
    using len by (simp_all add: admitted(3))
  have provider: "countBy sr_provider p ?t = countBy sr_provider p s + (if p = ac_provider c then 1 else 0)"
    and repository: "countBy sr_repositoryKey p ?t
      = countBy sr_repositoryKey p s + (if p = ac_repositoryKey c then 1 else 0)" for p
    by (auto simp: admitted(3) countBy_append [OF fresh] reservation_of_def)
  from assms none show ?thesis
    unfolding scheduler_inv_def within_limits_def t provider repository
    by (auto simp: blockReason_def split: option.splits if_splits)
qed

lemma scheduler_step_wf: "scheduler_wf s \<Longrightarrow> scheduler_wf (scheduler_step e s)"
proof (cases e)
  case (CallEnqueue c)
  then show "scheduler_wf s \<Longrightarrow> ?thesis" by (simp add: enqueue_wf)
next
  case (CallAdmit rid now)
  then show "scheduler_wf s \<Longrightarrow> ?thesis" by (simp add: admitNext_wf)
next
  case (CallRelease j)
  then show "scheduler_wf s \<Longrightarrow> ?thesis" by (simp add: release_def wf_delete_reservation)
next
  case (CallWithdraw j)
  then show "scheduler_wf s \<Longrightarrow> ?thesis" by (simp add: withdraw_def wf_delete_queue)
qed (auto simp: scheduler_wf_def scheduler_op_defs)

lemma scheduler_step_limits: "scheduler_inv s \<Longrightarrow> within_limits (scheduler_step e s)"
proof (cases e)
  case (CallAdmit rid now)
  then show "scheduler_inv s \<Longrightarrow> ?thesis" by (simp add: admitNext_within_limits)
next
  case (CallRelease j)
  then show "scheduler_inv s \<Longrightarrow> ?thesis"
    by (auto simp: scheduler_inv_def release_def countBy_delete length_js_delete_le
        intro: within_limits_mono)
qed (auto simp: scheduler_inv_def scheduler_op_defs intro: within_limits_mono)

interpretation sched: stepping scheduler_step scheduler_inv
  by unfold_locales (simp add: scheduler_step_wf scheduler_step_limits scheduler_inv_def)

lemma new_scheduler_inv: "scheduler_inv (new_scheduler limits)"
  by (simp add: scheduler_inv_def scheduler_wf_def within_limits_def new_scheduler_def countBy_def
      split: option.split)

subsection \<open>Slot accounting\<close>

lemma slot_delta_step:
  assumes "scheduler_wf s"
  shows "slot_delta j c s = (if holdsSlot j (scheduler_step c s) then 1 else 0)
           - (if holdsSlot j s then 1 else 0)"
proof (cases c)
  case (CallAdmit rid now)
  show ?thesis
  proof (cases rid now s rule: admitNext_cases)
    case closed
    then show ?thesis by (simp add: CallAdmit)
  next
    case (admitted d)
    then show ?thesis
      using admitNext_fresh [OF assms admitted(2)]
      by (auto simp: CallAdmit holdsSlot_def js_simps reservation_of_def simp del: set_map)
  qed
qed (auto simp: scheduler_op_defs holdsSlot_def js_simps)

lemma slot_balance_holds:
  "scheduler_wf s \<Longrightarrow>
     slot_balance j cs s = (if holdsSlot j (fold scheduler_step cs s) then 1 else 0)
       - (if holdsSlot j s then 1 else 0)"
  by (induction cs arbitrary: s) (auto simp: slot_delta_step scheduler_step_wf)

subsection \<open>Properties\<close>

text \<open>
  Concurrency ceilings: after any sequence of scheduler calls on a fresh scheduler, the number
  of reservations respects the global ceiling, every declared provider ceiling and the repository
  ceiling.
\<close>

theorem scheduler_ceilings_hold:
  "within_limits (fold scheduler_step calls (new_scheduler limits))"
  using sched.run_inv [OF new_scheduler_inv] by (simp add: scheduler_inv_def)

text \<open>
  First-in first-out within a bucket: the job admitted next is, among the launch-safe jobs
  waiting for the same provider and repository, the one that was enqueued at the earliest instant
  and, at that instant, arrived first.
\<close>

theorem admitNext_bucket_fifo:
  assumes "scheduler_wf s"
    and "admitNext rid now s = (Some r, t)"
    and "js_get (as_queue s) j = Some e"
    and "ac_provider e = sr_provider r" and "ac_repositoryKey e = sr_repositoryKey r"
    and "evaluateClaudeLaunchSafety (ac_provider e) (ac_model e) = LaunchSafe"
  shows "\<exists>c. js_get (as_queue s) (sr_jobId r) = Some c
           \<and> (ac_enqueuedAt c, qe_sequence c) \<le> (ac_enqueuedAt e, qe_sequence e)"
proof -
  from assms(2) obtain c where c: "next_eligible s = Some c" and r: "r = reservation_of rid now c"
    by (cases rid now s rule: admitNext_cases) auto
  note el = next_eligible_Some [OF c]
  have keyed: "keyed ac_jobId (as_queue s)" using assms(1) by (simp add: scheduler_wf_def)
  have got: "js_get (as_queue s) (sr_jobId r) = Some c"
    using el(1) keyed_value [OF keyed] by (simp add: r reservation_of_def del: set_map)
  have e: "e \<in> set (js_values (as_queue s))"
    using assms(3) in_js_values [OF keyed_wf [OF keyed]] by blast
  have "blockReason s e = None"
  proof (rule ccontr)
    assume "blockReason s e \<noteq> None"
    then obtain b where b: "blockReason s e = Some b" by blast
    moreover have "b = ClaudeModelRequired"
      by (rule blockReason_bucket [OF _ _ el(2) b])
        (simp_all add: assms(4,5) r reservation_of_def)
    ultimately show False
      using assms(6) blockReason_claude [of s e] by simp
  qed
  from el(3) [OF e this] got show ?thesis
    by (auto simp: entry_key_def less_eq_prod_def)
qed

text \<open>Two Codex jobs of one repository, enqueued in the same millisecond, leave in arrival order.\<close>

definition fifo_example :: admission_scheduler where
  "fifo_example =
     openAdmission
       (enqueue \<lparr>ac_jobId = ''a'', ac_provider = ''codex'', ac_repositoryKey = ''/r'',
                 ac_enqueuedAt = 5, ac_model = None\<rparr>
         (enqueue \<lparr>ac_jobId = ''b'', ac_provider = ''codex'', ac_repositoryKey = ''/r'',
                   ac_enqueuedAt = 5, ac_model = None\<rparr>
           (new_scheduler \<lparr>cd_schemaVersion = 1, maxConcurrentJobs = Some 1,
              maxConcurrentPerProvider = None, maxConcurrentPerRepository = None\<rparr>)))"

theorem admitNext_bucket_fifo_witness:
  "\<exists>c. js_get (as_queue fifo_example) ''b'' = Some c
     \<and> (ac_enqueuedAt c, qe_sequence c) \<le> (5, 2)"
proof -
  let ?e = "\<lparr>ac_jobId = ''a'', ac_provider = ''codex'', ac_repositoryKey = ''/r'',
             ac_enqueuedAt = 5, ac_model = None, qe_sequence = 2\<rparr>"
  have wf: "scheduler_wf fifo_example" by code_simp
  have admit: "admitNext ''slot'' 7 fifo_example =
      (Some \<lparr>sr_reservationId = ''slot'', sr_jobId = ''b'', sr_provider = ''codex'',
         sr_repositoryKey = ''/r'', sr_reservedAt = 7\<rparr>, snd (admitNext ''slot'' 7 fifo_example))"
    by code_simp
  have queued: "js_get (as_queue fifo_example) ''a'' = Some ?e" by code_simp
  show ?thesis
    using admitNext_bucket_fifo [OF wf admit queued]
    by (simp add: evaluateClaudeLaunchSafety_def)
qed

text \<open>
  Work conservation: an admission attempt reserves a slot exactly when the startup gate is open
  and some waiting job is not blocked.
\<close>

theorem admitNext_work_conserving:
  "fst (admitNext rid now s) \<noteq> None \<longleftrightarrow>
     as_open s \<and> list_ex (\<lambda>e. blockReason s e = None) (js_values (as_queue s))"
proof -
  have "fst (admitNext rid now s) = None \<longleftrightarrow> \<not> as_open s \<or> next_eligible s = None"
    by (cases rid now s rule: admitNext_cases) auto
  then show ?thesis by (auto simp: next_eligible_None list_ex_iff)
qed

text \<open>
  Slots are conserved: along any sequence of calls, the admissions of a job minus its
  successful releases are one exactly when the job still holds a slot, and zero otherwise.
\<close>

theorem slots_conserved:
  "slot_balance j calls (new_scheduler limits)
     = (if holdsSlot j (fold scheduler_step calls (new_scheduler limits)) then 1 else 0)"
proof -
  have "scheduler_wf (new_scheduler limits)"
    using new_scheduler_inv by (simp add: scheduler_inv_def)
  from slot_balance_holds [OF this] show ?thesis
    by (simp add: holdsSlot_def new_scheduler_def js_has_def)
qed

end
