(* ===== verification/Budget_Ledger.thy ===== *)
theory Budget_Ledger
  imports Prelude
begin

text \<open>
  Budget accounting per job tree: \<^verbatim>\<open>src/src/control-plane/budget-ledger.ts\<close>, the budget
  declaration and usage of \<^verbatim>\<open>src/src/domain/budget.ts\<close> and the usage report of
  \<^verbatim>\<open>src/src/domain/usage.ts\<close>. The clock reading each method takes is an argument.

  The lemmas show that every debit applies once per job, what the counters sum to, that the job
  ceiling holds, and that an unreported token count closes a scope under a token ceiling.
\<close>

subsection \<open>Data\<close>

record usage_report =
  ur_schemaVersion :: nat
  ur_inputTokens :: "nat option"
  ur_outputTokens :: "nat option"
  ur_totalTokens :: "nat option"
  ur_costUsd :: "string option" \<comment> \<open>carried, never read\<close>

record budget_declaration =
  bd_schemaVersion :: nat
  maxJobs :: "nat option"
  maxWallClockMs :: "nat option"
  maxTotalTokens :: "nat option"
  maxArtifactBytes :: "nat option"

record budget_usage =
  bu_jobsStarted :: nat
  bu_jobsSettled :: nat
  bu_wallClockMs :: int
  bu_totalTokens :: "nat option"
  bu_artifactBytes :: nat
  bu_jobsWithUnknownUsage :: nat
  bu_updatedAt :: instant

datatype budget_block_reason =
    MaxJobs
  | MaxWallClockMs
  | MaxTotalTokens
  | MaxArtifactBytes
  | UnprovableTokenUsage

datatype budget_decision = BudgetOk | BudgetExceeded budget_block_reason

record settlement_debit =
  sd_usage :: "usage_report option"
  sd_artifactBytes :: "nat option"

record scope_state =
  sc_startedAt :: instant
  sc_admitted :: "ident list"
  sc_settled :: "ident list"
  sc_totalTokens :: "nat option"
  sc_artifactBytes :: nat
  sc_jobsWithUnknownUsage :: nat

record budget_ledger =
  bl_declaration :: budget_declaration
  bl_scopes :: "(ident, scope_state) js_map"

record budget_scope_report =
  br_scopeId :: ident
  br_usage :: budget_usage
  br_exhausted :: bool
  br_reason :: "budget_block_reason option"

subsection \<open>Operations\<close>

definition or_zero :: "nat option \<Rightarrow> nat" where
  "or_zero n = (case n of None \<Rightarrow> 0 | Some k \<Rightarrow> k)"

definition totalTokensOf :: "usage_report option \<Rightarrow> nat option" where
  "totalTokensOf usage =
     (case usage of None \<Rightarrow> None
      | Some u \<Rightarrow>
          (if ur_totalTokens u \<noteq> None then ur_totalTokens u
           else if ur_inputTokens u = None \<and> ur_outputTokens u = None then None
           else Some (or_zero (ur_inputTokens u) + or_zero (ur_outputTokens u))))"

definition new_ledger :: "budget_declaration \<Rightarrow> budget_ledger" where
  "new_ledger d = \<lparr>bl_declaration = d, bl_scopes = []\<rparr>"

definition open_scope :: "instant \<Rightarrow> scope_state" where
  "open_scope now =
     \<lparr>sc_startedAt = now, sc_admitted = [], sc_settled = [], sc_totalTokens = None,
      sc_artifactBytes = 0, sc_jobsWithUnknownUsage = 0\<rparr>"

definition reached :: "nat option \<Rightarrow> int \<Rightarrow> bool" where
  "reached limit n = (case limit of None \<Rightarrow> False | Some m \<Rightarrow> int m \<le> n)"

definition ledger_blockReason ::
  "budget_declaration \<Rightarrow> instant \<Rightarrow> scope_state option \<Rightarrow> budget_block_reason option" where
  "ledger_blockReason d now scope =
     (case scope of None \<Rightarrow> None
      | Some st \<Rightarrow>
          (if reached (maxJobs d) (int (length (sc_admitted st))) then Some MaxJobs
           else if reached (maxWallClockMs d) (now - sc_startedAt st) then Some MaxWallClockMs
           else if reached (maxTotalTokens d) (int (or_zero (sc_totalTokens st)))
           then Some MaxTotalTokens
           else if maxTotalTokens d \<noteq> None \<and> 0 < sc_jobsWithUnknownUsage st
           then Some UnprovableTokenUsage
           else if reached (maxArtifactBytes d) (int (sc_artifactBytes st))
           then Some MaxArtifactBytes
           else None))"

definition ledger_admit ::
  "instant \<Rightarrow> ident \<Rightarrow> ident \<Rightarrow> budget_ledger \<Rightarrow> budget_decision \<times> budget_ledger" where
  "ledger_admit now scopeId jobId l =
     (let scope = js_get (bl_scopes l) scopeId
      in if (case scope of None \<Rightarrow> False | Some st \<Rightarrow> jobId \<in> set (sc_admitted st))
         then (BudgetOk, l)
         else case ledger_blockReason (bl_declaration l) now scope of
                Some b \<Rightarrow> (BudgetExceeded b, l)
              | None \<Rightarrow>
                  (let opened = (case scope of None \<Rightarrow> open_scope now | Some st \<Rightarrow> st)
                   in (BudgetOk,
                       l\<lparr>bl_scopes := js_set scopeId
                           (opened\<lparr>sc_admitted := js_add jobId (sc_admitted opened)\<rparr>)
                           (bl_scopes l)\<rparr>)))"

definition debit_scope :: "ident \<Rightarrow> settlement_debit \<Rightarrow> scope_state \<Rightarrow> scope_state" where
  "debit_scope jobId debit st =
     (let st1 = st\<lparr>sc_settled := js_add jobId (sc_settled st)\<rparr>;
          st2 = (case totalTokensOf (sd_usage debit) of
                   None \<Rightarrow> st1\<lparr>sc_jobsWithUnknownUsage := sc_jobsWithUnknownUsage st1 + 1\<rparr>
                 | Some t \<Rightarrow> st1\<lparr>sc_totalTokens := Some (or_zero (sc_totalTokens st1) + t)\<rparr>)
      in case sd_artifactBytes debit of
           None \<Rightarrow> st2
         | Some b \<Rightarrow> st2\<lparr>sc_artifactBytes := sc_artifactBytes st2 + b\<rparr>)"

definition ledger_settle ::
  "ident \<Rightarrow> ident \<Rightarrow> settlement_debit \<Rightarrow> budget_ledger \<Rightarrow> budget_ledger" where
  "ledger_settle scopeId jobId debit l =
     (case js_get (bl_scopes l) scopeId of
        None \<Rightarrow> l
      | Some st \<Rightarrow>
          (if jobId \<in> set (sc_settled st) then l
           else l\<lparr>bl_scopes := js_set scopeId (debit_scope jobId debit st) (bl_scopes l)\<rparr>))"

definition ledger_usage :: "instant \<Rightarrow> ident \<Rightarrow> budget_ledger \<Rightarrow> budget_usage" where
  "ledger_usage now scopeId l =
     (case js_get (bl_scopes l) scopeId of
        None \<Rightarrow>
          \<lparr>bu_jobsStarted = 0, bu_jobsSettled = 0, bu_wallClockMs = 0, bu_totalTokens = None,
           bu_artifactBytes = 0, bu_jobsWithUnknownUsage = 0, bu_updatedAt = now\<rparr>
      | Some st \<Rightarrow>
          \<lparr>bu_jobsStarted = length (sc_admitted st), bu_jobsSettled = length (sc_settled st),
           bu_wallClockMs = max 0 (now - sc_startedAt st), bu_totalTokens = sc_totalTokens st,
           bu_artifactBytes = sc_artifactBytes st,
           bu_jobsWithUnknownUsage = sc_jobsWithUnknownUsage st, bu_updatedAt = now\<rparr>)"

definition ledger_report :: "instant \<Rightarrow> budget_ledger \<Rightarrow> budget_scope_report list" where
  "ledger_report now l =
     map (\<lambda>(scopeId, st).
            let reason = ledger_blockReason (bl_declaration l) now (Some st)
            in \<lparr>br_scopeId = scopeId, br_usage = ledger_usage now scopeId l,
                br_exhausted = (reason \<noteq> None), br_reason = reason\<rparr>)
       (bl_scopes l)"

datatype ledger_call =
    CallBudgetAdmit instant ident ident
  | CallBudgetSettle ident ident settlement_debit

fun ledger_step :: "ledger_call \<Rightarrow> budget_ledger \<Rightarrow> budget_ledger" where
  "ledger_step (CallBudgetAdmit now sc j) l = snd (ledger_admit now sc j l)"
| "ledger_step (CallBudgetSettle sc j d) l = ledger_settle sc j d l"

subsection \<open>Specification vocabulary\<close>

definition scope_settled :: "ident \<Rightarrow> budget_ledger \<Rightarrow> ident \<Rightarrow> bool" where
  "scope_settled sc l j =
     (case js_get (bl_scopes l) sc of None \<Rightarrow> False | Some st \<Rightarrow> j \<in> set (sc_settled st))"

definition scope_known :: "ident \<Rightarrow> budget_ledger \<Rightarrow> bool" where
  "scope_known sc l = js_has (bl_scopes l) sc"

text \<open>What a list of debits adds up to.\<close>

definition known_tokens :: "(ident \<times> settlement_debit) list \<Rightarrow> nat list" where
  "known_tokens ds = List.map_filter (\<lambda>(j, d). totalTokensOf (sd_usage d)) ds"

definition unknown_count :: "(ident \<times> settlement_debit) list \<Rightarrow> nat" where
  "unknown_count ds = length (filter (\<lambda>(j, d). totalTokensOf (sd_usage d) = None) ds)"

definition bytes_sum :: "(ident \<times> settlement_debit) list \<Rightarrow> nat" where
  "bytes_sum ds = sum_list (map (\<lambda>(j, d). or_zero (sd_artifactBytes d)) ds)"

definition jobs_bounded :: "nat \<Rightarrow> budget_ledger \<Rightarrow> bool" where
  "jobs_bounded m l =
     (maxJobs (bl_declaration l) = Some m
      \<and> list_all (\<lambda>st. length (sc_admitted st) \<le> m \<and> distinct (sc_admitted st))
          (js_values (bl_scopes l)))"

text \<open>A scope that a token ceiling and an unreported count keep shut, with a fixed job set.\<close>

definition scope_shut :: "ident \<Rightarrow> ident list \<Rightarrow> budget_ledger \<Rightarrow> bool" where
  "scope_shut sc js l =
     (maxTotalTokens (bl_declaration l) \<noteq> None
      \<and> (case js_get (bl_scopes l) sc of None \<Rightarrow> False
         | Some st \<Rightarrow> 0 < sc_jobsWithUnknownUsage st \<and> set (sc_admitted st) = set js))"

subsection \<open>Debits are applied once\<close>

interpretation debits: once_only "ledger_settle sc" "scope_settled sc" "scope_known sc" for sc :: ident
proof
  fix l :: budget_ledger and k k' :: ident and d :: settlement_debit
  assume "scope_known sc l"
  then obtain st where st: "js_get (bl_scopes l) sc = Some st"
    by (auto simp: scope_known_def js_has_def)
  show "scope_settled sc l k \<Longrightarrow> ledger_settle sc k d l = l"
    by (simp add: scope_settled_def ledger_settle_def st)
  show "scope_settled sc (ledger_settle sc k d l) k' \<longleftrightarrow> k' = k \<or> scope_settled sc l k'"
    by (auto simp: scope_settled_def ledger_settle_def st js_lookup debit_scope_def Let_def
        split: option.splits)
  show "scope_known sc (ledger_settle sc k d l)"
    by (simp add: ledger_settle_def st scope_known_def js_has_def js_lookup)
qed

lemma debit_scope_simps [simp]:
  "sc_startedAt (debit_scope j d st) = sc_startedAt st"
  "sc_admitted (debit_scope j d st) = sc_admitted st"
  "sc_settled (debit_scope j d st) = js_add j (sc_settled st)"
  "sc_artifactBytes (debit_scope j d st) = sc_artifactBytes st + or_zero (sd_artifactBytes d)"
  by (simp_all add: debit_scope_def Let_def or_zero_def split: option.splits)

lemma debit_scope_tokens:
  "sc_totalTokens (debit_scope j d st) =
     (case totalTokensOf (sd_usage d) of None \<Rightarrow> sc_totalTokens st
      | Some t \<Rightarrow> Some (or_zero (sc_totalTokens st) + t))"
  "sc_jobsWithUnknownUsage (debit_scope j d st) =
     sc_jobsWithUnknownUsage st + (if totalTokensOf (sd_usage d) = None then 1 else 0)"
  by (simp_all add: debit_scope_def Let_def split: option.splits)

text \<open>Settling fresh, distinct jobs accumulates their debits.\<close>

lemma settle_distinct:
  assumes "js_get (bl_scopes l) sc = Some st" "distinct (map fst ds)"
    and "set (map fst ds) \<inter> set (sc_settled st) = {}"
  shows "\<exists>st'. js_get (bl_scopes (fold (\<lambda>(j, d). ledger_settle sc j d) ds l)) sc = Some st'
           \<and> sc_settled st' = sc_settled st @ map fst ds
           \<and> sc_totalTokens st' = (if known_tokens ds = [] then sc_totalTokens st
               else Some (or_zero (sc_totalTokens st) + sum_list (known_tokens ds)))
           \<and> sc_artifactBytes st' = sc_artifactBytes st + bytes_sum ds
           \<and> sc_jobsWithUnknownUsage st' = sc_jobsWithUnknownUsage st + unknown_count ds
           \<and> sc_startedAt st' = sc_startedAt st \<and> sc_admitted st' = sc_admitted st"
  using assms
proof (induction ds arbitrary: l st)
  case Nil
  then show ?case by (simp add: known_tokens_def bytes_sum_def unknown_count_def map_filter_simps)
next
  case (Cons p ds)
  obtain j d where p: "p = (j, d)" by fastforce
  have fresh: "j \<notin> set (sc_settled st)" using Cons.prems(3) p by auto
  let ?l = "ledger_settle sc j d l"
  have l: "js_get (bl_scopes ?l) sc = Some (debit_scope j d st)"
    using Cons.prems(1) fresh by (simp add: ledger_settle_def js_lookup)
  have "set (map fst ds) \<inter> set (sc_settled (debit_scope j d st)) = {}"
    using Cons.prems(2,3) p by auto
  with Cons.IH [OF l] Cons.prems(2) obtain st' where st':
    "js_get (bl_scopes (fold (\<lambda>(j, d). ledger_settle sc j d) ds ?l)) sc = Some st'"
    "sc_settled st' = sc_settled (debit_scope j d st) @ map fst ds"
    "sc_totalTokens st' = (if known_tokens ds = [] then sc_totalTokens (debit_scope j d st)
       else Some (or_zero (sc_totalTokens (debit_scope j d st)) + sum_list (known_tokens ds)))"
    "sc_artifactBytes st' = sc_artifactBytes (debit_scope j d st) + bytes_sum ds"
    "sc_jobsWithUnknownUsage st' = sc_jobsWithUnknownUsage (debit_scope j d st) + unknown_count ds"
    "sc_startedAt st' = sc_startedAt (debit_scope j d st)"
    "sc_admitted st' = sc_admitted (debit_scope j d st)"
    by auto
  then show ?case
    using fresh
    by (auto simp: p debit_scope_tokens known_tokens_def bytes_sum_def unknown_count_def
        map_filter_simps or_zero_def js_add_def split: option.splits)
qed

lemma first_uses_distinct: "distinct (map fst (first_uses seen xs))
    \<and> set (map fst (first_uses seen xs)) \<inter> set seen = {}"
  by (induction seen xs rule: first_uses.induct) auto

subsection \<open>Admission\<close>

lemma ledger_admit_declaration [simp]: "bl_declaration (snd (ledger_admit now sc j l)) = bl_declaration l"
  by (simp add: ledger_admit_def Let_def split: option.split)

lemma ledger_settle_declaration [simp]: "bl_declaration (ledger_settle sc j d l) = bl_declaration l"
  by (simp add: ledger_settle_def split: option.split)

lemma ledger_step_declaration [simp]: "bl_declaration (ledger_step c l) = bl_declaration l"
  by (cases c) simp_all

lemma ledger_admit_ok:
  assumes ok: "fst (ledger_admit now sc j l) = BudgetOk"
  obtains (known) "snd (ledger_admit now sc j l) = l"
  | (counted) st where
      "snd (ledger_admit now sc j l) = l\<lparr>bl_scopes := js_set sc
         (st\<lparr>sc_admitted := js_add j (sc_admitted st)\<rparr>) (bl_scopes l)\<rparr>"
      "js_get (bl_scopes l) sc = Some st \<or> js_get (bl_scopes l) sc = None \<and> st = open_scope now"
      "ledger_blockReason (bl_declaration l) now (js_get (bl_scopes l) sc) = None"
proof (cases "js_get (bl_scopes l) sc")
  case None
  then show thesis
    by (intro counted [of "open_scope now"])
      (simp_all add: ledger_admit_def ledger_blockReason_def Let_def)
next
  case (Some st)
  show thesis
  proof (cases "j \<in> set (sc_admitted st)")
    case True
    with Some show thesis by (intro known) (simp add: ledger_admit_def)
  next
    case False
    with Some ok have none: "ledger_blockReason (bl_declaration l) now (Some st) = None"
      by (simp add: ledger_admit_def Let_def split: option.splits)
    with Some False show thesis by (intro counted [of st]) (simp_all add: ledger_admit_def Let_def)
  qed
qed

lemma ledger_admit_refused:
  "fst (ledger_admit now sc j l) \<noteq> BudgetOk \<Longrightarrow> snd (ledger_admit now sc j l) = l"
  by (auto simp: ledger_admit_def Let_def split: option.splits if_splits)

lemma values_js_set:
  "list_all P (js_values m) \<Longrightarrow> P v \<Longrightarrow> list_all P (js_values (js_set k v m))"
  by (auto simp: list_all_iff dest!: set_js_set_D)

lemma value_of_get: "js_get m k = Some v \<Longrightarrow> list_all P (js_values m) \<Longrightarrow> P v"
  using map_of_SomeD by (fastforce simp: list_all_iff)

lemma jobs_bounded_step:
  assumes "0 < m" "jobs_bounded m l" shows "jobs_bounded m (ledger_step c l)"
proof (cases c)
  case (CallBudgetAdmit now sc j)
  show ?thesis
  proof (cases "fst (ledger_admit now sc j l) = BudgetOk")
    case False
    then show ?thesis using assms by (simp add: CallBudgetAdmit ledger_admit_refused)
  next
    case True
    then show ?thesis
    proof (cases rule: ledger_admit_ok)
      case known
      with assms show ?thesis by (simp add: CallBudgetAdmit)
    next
      case (counted st)
      have room: "length (sc_admitted st) < m \<and> distinct (sc_admitted st)"
        using counted(2)
      proof
        assume got: "js_get (bl_scopes l) sc = Some st"
        have "distinct (sc_admitted st)"
          using value_of_get [OF got] assms(2) unfolding jobs_bounded_def by blast
        with counted(3) got assms(2) show ?thesis
          by (simp add: ledger_blockReason_def reached_def jobs_bounded_def split: if_splits)
      qed (simp add: open_scope_def assms(1))
      have "length (js_add j (sc_admitted st)) \<le> m"
        using room by (simp add: length_js_add)
      with room assms(2) counted(1) show ?thesis
        by (simp add: CallBudgetAdmit jobs_bounded_def values_js_set)
    qed
  qed
next
  case (CallBudgetSettle sc j d)
  show ?thesis
  proof (cases "js_get (bl_scopes l) sc")
    case None
    with assms show ?thesis by (simp add: CallBudgetSettle ledger_settle_def)
  next
    case (Some st)
    have "length (sc_admitted st) \<le> m \<and> distinct (sc_admitted st)"
      using value_of_get [OF Some] assms(2) unfolding jobs_bounded_def by blast
    with Some assms show ?thesis
      by (simp add: CallBudgetSettle ledger_settle_def jobs_bounded_def values_js_set)
  qed
qed

lemma scope_shut_refuses:
  assumes "scope_shut sc js l" "j \<notin> set js"
  shows "fst (ledger_admit now sc j l) \<noteq> BudgetOk"
proof -
  from assms(1) obtain st where st: "js_get (bl_scopes l) sc = Some st"
    "0 < sc_jobsWithUnknownUsage st" "set (sc_admitted st) = set js"
    by (cases "js_get (bl_scopes l) sc") (simp_all add: scope_shut_def)
  moreover have "ledger_blockReason (bl_declaration l) now (Some st) \<noteq> None"
    using assms(1) st(2) by (simp add: ledger_blockReason_def scope_shut_def)
  ultimately show ?thesis
    using assms(2) by (auto simp: ledger_admit_def Let_def)
qed

lemma scope_shut_step:
  assumes "scope_shut sc js l" shows "scope_shut sc js (ledger_step c l)"
proof (cases c)
  case (CallBudgetAdmit now sc' j)
  show ?thesis
  proof (cases "fst (ledger_admit now sc' j l) = BudgetOk")
    case False
    then show ?thesis using assms by (simp add: CallBudgetAdmit ledger_admit_refused)
  next
    case True
    then show ?thesis
    proof (cases rule: ledger_admit_ok)
      case known
      with assms show ?thesis by (simp add: CallBudgetAdmit)
    next
      case (counted st)
      have "sc' \<noteq> sc"
      proof
        assume same: "sc' = sc"
        with assms obtain st' where "js_get (bl_scopes l) sc = Some st'" "0 < sc_jobsWithUnknownUsage st'"
          by (cases "js_get (bl_scopes l) sc") (simp_all add: scope_shut_def)
        with counted(3) assms same show False
          by (simp add: ledger_blockReason_def scope_shut_def split: if_splits)
      qed
      with assms counted(1) show ?thesis
        by (simp add: CallBudgetAdmit scope_shut_def js_lookup)
    qed
  qed
next
  case (CallBudgetSettle sc' j d)
  with assms show ?thesis
    by (cases "js_get (bl_scopes l) sc'"; cases "js_get (bl_scopes l) sc"; cases "sc = sc'")
      (simp_all add: scope_shut_def ledger_settle_def js_lookup debit_scope_tokens)
qed

interpretation shut: stepping ledger_step "scope_shut sc js" for sc js
  by unfold_locales (rule scope_shut_step)

interpretation bounded: stepping ledger_step "\<lambda>l. 0 < m \<and> jobs_bounded m l" for m
  by unfold_locales (simp add: jobs_bounded_step)

subsection \<open>Properties\<close>

text \<open>
  C4. Exactly-once debits: whatever sequence of settlements arrives for a scope, with any job
  reported any number of times, the counters move by the first report of each job not settled
  before. Tokens stay unknown as long as no job reported any, and otherwise grow by the sum of the
  reported totals; every job that reported none is counted as unknown.
\<close>

theorem debits_exactly_once:
  assumes "js_get (bl_scopes l) sc = Some st"
    and "ds = first_uses (sc_settled st) settlements"
    and "before = ledger_usage now sc l"
  shows "ledger_usage now sc (fold (\<lambda>(j, d). ledger_settle sc j d) settlements l)
    = before\<lparr>bu_jobsSettled := bu_jobsSettled before + length ds,
        bu_totalTokens := (if known_tokens ds = [] then bu_totalTokens before
          else Some (or_zero (bu_totalTokens before) + sum_list (known_tokens ds))),
        bu_artifactBytes := bu_artifactBytes before + bytes_sum ds,
        bu_jobsWithUnknownUsage := bu_jobsWithUnknownUsage before + unknown_count ds\<rparr>"
proof -
  have "fold (\<lambda>(j, d). ledger_settle sc j d) settlements l
      = fold (\<lambda>(j, d). ledger_settle sc j d) ds l"
    unfolding assms(2)
    by (rule debits.fold_effect_first_uses)
      (simp_all add: scope_known_def js_has_def scope_settled_def assms(1))
  moreover obtain st' where
    "js_get (bl_scopes (fold (\<lambda>(j, d). ledger_settle sc j d) ds l)) sc = Some st'"
    "sc_settled st' = sc_settled st @ map fst ds"
    "sc_totalTokens st' = (if known_tokens ds = [] then sc_totalTokens st
       else Some (or_zero (sc_totalTokens st) + sum_list (known_tokens ds)))"
    "sc_artifactBytes st' = sc_artifactBytes st + bytes_sum ds"
    "sc_jobsWithUnknownUsage st' = sc_jobsWithUnknownUsage st + unknown_count ds"
    "sc_startedAt st' = sc_startedAt st" "sc_admitted st' = sc_admitted st"
    using settle_distinct [OF assms(1), of ds] first_uses_distinct [of "sc_settled st" settlements]
    unfolding assms(2) by blast
  ultimately show ?thesis
    by (simp add: assms(1,3) ledger_usage_def)
qed

definition ledger_example :: budget_ledger where
  "ledger_example =
     snd (ledger_admit 10 ''root'' ''root'' (new_ledger
       \<lparr>bd_schemaVersion = 1, maxJobs = Some 2, maxWallClockMs = None,
        maxTotalTokens = Some 100, maxArtifactBytes = None\<rparr>))"

definition debit_of :: "nat option \<Rightarrow> settlement_debit" where
  "debit_of tokens =
     \<lparr>sd_usage = Some \<lparr>ur_schemaVersion = 1, ur_inputTokens = None, ur_outputTokens = None,
                        ur_totalTokens = tokens, ur_costUsd = None\<rparr>,
      sd_artifactBytes = Some 3\<rparr>"

theorem debits_exactly_once_witness:
  "bu_totalTokens (ledger_usage 12 ''root''
     (fold (\<lambda>(j, d). ledger_settle ''root'' j d)
        [(''root'', debit_of (Some 7)), (''kid'', debit_of None), (''root'', debit_of (Some 9))]
        ledger_example)) = Some 7"
proof -
  let ?rs = "[(''root'', debit_of (Some 7)), (''kid'', debit_of None), (''root'', debit_of (Some 9))]"
  let ?st = "(open_scope 10)\<lparr>sc_admitted := [''root'']\<rparr>"
  have st: "js_get (bl_scopes ledger_example) ''root'' = Some ?st" by code_simp
  let ?ds = "first_uses (sc_settled ?st) ?rs"
  have "known_tokens ?ds = [7]" "bu_totalTokens (ledger_usage 12 ''root'' ledger_example) = None"
    by code_simp+
  then show ?thesis
    unfolding debits_exactly_once [OF st refl refl, of 12 ?rs] by (simp add: or_zero_def)
qed

text \<open>
  C22. The job ceiling of a budget holds per job tree: along any sequence of admissions and
  settlements no scope ever counts more than \<^verbatim>\<open>maxJobs\<close> started jobs.
\<close>

theorem scope_job_ceiling:
  assumes "maxJobs d = Some m" and "0 < m"
  shows "bu_jobsStarted (ledger_usage now sc (fold ledger_step calls (new_ledger d))) \<le> m"
proof -
  let ?l = "fold ledger_step calls (new_ledger d)"
  have "jobs_bounded m (new_ledger d)" by (simp add: jobs_bounded_def new_ledger_def assms(1))
  with bounded.run_inv [of m "new_ledger d" calls] assms(2) have "jobs_bounded m ?l" by simp
  then have "length (sc_admitted st) \<le> m" if "js_get (bl_scopes ?l) sc = Some st" for st
    using value_of_get [OF that] unfolding jobs_bounded_def by blast
  then show ?thesis by (simp add: ledger_usage_def split: option.split)
qed

theorem scope_job_ceiling_witness:
  "bu_jobsStarted (ledger_usage 9 ''root'' (fold ledger_step
     [CallBudgetAdmit 1 ''root'' ''a'', CallBudgetAdmit 2 ''root'' ''b'', CallBudgetAdmit 3 ''root'' ''c'']
     (new_ledger \<lparr>bd_schemaVersion = 1, maxJobs = Some 2, maxWallClockMs = None,
        maxTotalTokens = None, maxArtifactBytes = None\<rparr>))) \<le> 2"
  by (rule scope_job_ceiling) simp_all

text \<open>
  Fail closed on unknown usage: once a job of a scope under a token ceiling settled without
  reporting tokens, no later sequence of calls lets a job into the scope that had not been
  admitted by then.
\<close>

theorem unknown_usage_fails_closed:
  assumes "maxTotalTokens (bl_declaration l) = Some cap"
    and "js_get (bl_scopes l) sc = Some st" and "j \<notin> set (sc_settled st)"
    and "totalTokensOf (sd_usage debit) = None" and "k \<notin> set (sc_admitted st)"
  shows "fst (ledger_admit now sc k (fold ledger_step calls (ledger_settle sc j debit l))) \<noteq> BudgetOk"
proof -
  have "scope_shut sc (sc_admitted st) (ledger_settle sc j debit l)"
    using assms(1-4) by (simp add: scope_shut_def ledger_settle_def js_lookup debit_scope_tokens)
  from scope_shut_refuses [OF shut.run_inv [OF this] assms(5)] show ?thesis .
qed

theorem unknown_usage_fails_closed_witness:
  "fst (ledger_admit 20 ''root'' ''kid''
     (fold ledger_step [CallBudgetSettle ''root'' ''root'' (debit_of (Some 1))]
       (ledger_settle ''root'' ''root'' (debit_of None) ledger_example))) \<noteq> BudgetOk"
proof -
  let ?st = "(open_scope 10)\<lparr>sc_admitted := [''root'']\<rparr>"
  have "maxTotalTokens (bl_declaration ledger_example) = Some 100"
    "js_get (bl_scopes ledger_example) ''root'' = Some ?st"
    "''root'' \<notin> set (sc_settled ?st)" "totalTokensOf (sd_usage (debit_of None)) = None"
    "''kid'' \<notin> set (sc_admitted ?st)"
    by code_simp+
  then show ?thesis by (rule unknown_usage_fails_closed)
qed

end
