(* ===== verification/Snapshot_Store.thy ===== *)
theory Snapshot_Store
  imports Prelude Complex_Main
begin

text \<open>
  Append-only snapshot files: \<^verbatim>\<open>src/src/persistence/job-store.ts\<close>,
  \<^verbatim>\<open>src/src/persistence/lease-store.ts\<close> and
  \<^verbatim>\<open>src/src/persistence/instruction-store.ts\<close>. A file is its content as a string. The schema
  validators are a third-party package: they, and the JSON text codec they are used with, are the
  fields of the parameter record \<open>line_codec\<close>, and what a theorem needs of them is the named
  hypothesis \<open>codec_law\<close>. The walk over the lines, the version checks and the replay are the
  code's own.

  The lemmas show that a file read back is the replay of what was appended, with or without a torn
  tail, and what an append after a torn tail does. The locale \<open>append_log\<close> is the contract the
  lease manager and the job plane use of a store.
\<close>

subsection \<open>JSON values and the codec\<close>

datatype json =
    JNull
  | JBool bool
  | JNumber rat
  | JString string
  | JArray "json list"
  | JObject "(string \<times> json) list"

definition CONTROL_PLANE_SCHEMA_VERSION :: rat where
  "CONTROL_PLANE_SCHEMA_VERSION = 1"

record 's envelope =
  en_schemaVersion :: rat
  en_recordType :: string
  en_eventId :: ident
  en_persistedAt :: instant
  en_state :: 's

record 's line_codec =
  lc_validate :: "'s \<Rightarrow> 's option"
  lc_stateView :: "'s \<Rightarrow> json"
  lc_view :: "'s envelope \<Rightarrow> json"
  lc_stringify :: "'s envelope \<Rightarrow> string"
  lc_parse :: "string \<Rightarrow> json option"
  lc_safeParse :: "json \<Rightarrow> 's envelope option"

datatype store_error =
    StoreCorrupt nat
  | SchemaVersionUnsupported "nat option"
  | DuplicateEventId nat
  | SchemaRejected

subsection \<open>Operations\<close>

definition newline :: char where
  "newline = CHR 0x0A"

text \<open>\<^verbatim>\<open>String.prototype.trim\<close> leaves nothing: only white space and line terminators.\<close>

definition js_space :: "char \<Rightarrow> bool" where
  "js_space c = (of_char c \<in> {9, 10, 11, 12, 13, 32, 160 :: nat})"

definition blank :: "string \<Rightarrow> bool" where
  "blank = list_all js_space"

fun split_lines :: "string \<Rightarrow> string list" where
  "split_lines [] = [[]]"
| "split_lines (c # cs) =
     (if c = newline then [] # split_lines cs
      else (case split_lines cs of [] \<Rightarrow> [[c]] | l # ls \<Rightarrow> (c # l) # ls))"

fun assertSupportedVersions :: "json \<Rightarrow> bool" where
  "assertSupportedVersions (JArray xs) = (\<forall>x \<in> set xs. assertSupportedVersions x)"
| "assertSupportedVersions (JObject fs) =
     ((case map_of fs ''schemaVersion'' of
         Some (JNumber v) \<Rightarrow> v = CONTROL_PLANE_SCHEMA_VERSION | _ \<Rightarrow> True)
      \<and> (\<forall>f \<in> set fs. assertSupportedVersions (snd f)))"
| "assertSupportedVersions _ = True"

definition assertEnvelopeVersion :: "json \<Rightarrow> bool" where
  "assertEnvelopeVersion raw =
     (case raw of
        JObject fs \<Rightarrow>
          (case map_of fs ''schemaVersion'' of
             Some (JNumber v) \<Rightarrow> v = CONTROL_PLANE_SCHEMA_VERSION | _ \<Rightarrow> True)
      | _ \<Rightarrow> True)"

definition envelope_of :: "string \<Rightarrow> ident \<Rightarrow> instant \<Rightarrow> 's \<Rightarrow> 's envelope" where
  "envelope_of rt eid now st =
     \<lparr>en_schemaVersion = CONTROL_PLANE_SCHEMA_VERSION, en_recordType = rt, en_eventId = eid,
      en_persistedAt = now, en_state = st\<rparr>"

definition store_append ::
  "'s line_codec \<Rightarrow> string \<Rightarrow> ident \<Rightarrow> instant \<Rightarrow> 's \<Rightarrow> string \<Rightarrow> store_error + string" where
  "store_append c rt eid now st file =
     (case lc_validate c st of
        None \<Rightarrow> Inl SchemaRejected
      | Some validated \<Rightarrow>
          (if \<not> assertSupportedVersions (lc_stateView c validated)
           then Inl (SchemaVersionUnsupported None)
           else Inr (file @ lc_stringify c (envelope_of rt eid now validated) @ [newline])))"

fun load_lines ::
  "'s line_codec \<Rightarrow> ('s \<Rightarrow> 'k) \<Rightarrow> nat \<Rightarrow> ident list \<Rightarrow> ('k, 's) js_map \<Rightarrow> string list
     \<Rightarrow> store_error + ('k, 's) js_map" where
  "load_lines c key n eventIds latest [] = Inr latest"
| "load_lines c key n eventIds latest (line # lines) =
     (if blank line then Inl (StoreCorrupt n)
      else case lc_parse c line of
        None \<Rightarrow> Inl (StoreCorrupt n)
      | Some raw \<Rightarrow>
          (if \<not> assertEnvelopeVersion raw then Inl (SchemaVersionUnsupported (Some n))
           else case lc_safeParse c raw of
             None \<Rightarrow> Inl (StoreCorrupt n)
           | Some e \<Rightarrow>
               (if \<not> assertSupportedVersions (lc_view c e)
                then Inl (SchemaVersionUnsupported (Some n))
                else if en_eventId e \<in> set eventIds then Inl (DuplicateEventId n)
                else load_lines c key (n + 1) (js_add (en_eventId e) eventIds)
                       (js_set (key (en_state e)) (en_state e) latest) lines)))"

definition store_load ::
  "'s line_codec \<Rightarrow> ('s \<Rightarrow> 'k) \<Rightarrow> string option \<Rightarrow> store_error + 's list" where
  "store_load c key content =
     (case content of
        None \<Rightarrow> Inr []
      | Some file \<Rightarrow>
          (if file = [] then Inr []
           else case load_lines c key 1 [] [] (butlast (split_lines file)) of
                  Inl e \<Rightarrow> Inl e
                | Inr latest \<Rightarrow> Inr (js_values latest)))"

text \<open>
  The two stores of the control plane differ only in the tag of their records and in the field that
  names a record: \<^verbatim>\<open>JobStore\<close> and \<^verbatim>\<open>LeaseStore\<close>.
\<close>

definition JobStore_append :: "'s line_codec \<Rightarrow> ident \<Rightarrow> instant \<Rightarrow> 's \<Rightarrow> string \<Rightarrow> store_error + string" where
  "JobStore_append c = store_append c ''job.snapshot''"

definition LeaseStore_append :: "'s line_codec \<Rightarrow> ident \<Rightarrow> instant \<Rightarrow> 's \<Rightarrow> string \<Rightarrow> store_error + string" where
  "LeaseStore_append c = store_append c ''lease.snapshot''"

text \<open>
  \<^verbatim>\<open>InstructionStore.list\<close> skips blank lines, and keeps the (empty) piece after a final
  newline.
\<close>

fun list_lines ::
  "(string \<Rightarrow> 's option) \<Rightarrow> ('s \<Rightarrow> 'k) \<Rightarrow> ('k, 's) js_map \<Rightarrow> string list
     \<Rightarrow> store_error + ('k, 's) js_map" where
  "list_lines parse key latest [] = Inr latest"
| "list_lines parse key latest (line # lines) =
     (if blank line then list_lines parse key latest lines
      else case parse line of
        None \<Rightarrow> Inl SchemaRejected
      | Some r \<Rightarrow> list_lines parse key (js_set (key r) r latest) lines)"

definition InstructionStore_list ::
  "(string \<Rightarrow> 's option) \<Rightarrow> ('s \<Rightarrow> 'k) \<Rightarrow> ('s \<Rightarrow> bool) \<Rightarrow> string option
     \<Rightarrow> store_error + 's list" where
  "InstructionStore_list parse key wanted content =
     (let file = (case content of None \<Rightarrow> [] | Some f \<Rightarrow> f);
          pieces = split_lines file;
          lines = (if file \<noteq> [] \<and> last file = newline then pieces else butlast pieces)
      in case list_lines parse key [] lines of
           Inl e \<Rightarrow> Inl e
         | Inr latest \<Rightarrow> Inr (filter wanted (js_values latest)))"

subsection \<open>Specification vocabulary\<close>

text \<open>The latest record of each key, in first-seen order.\<close>

definition replay :: "('s \<Rightarrow> 'k) \<Rightarrow> 's list \<Rightarrow> ('k, 's) js_map" where
  "replay key rs = fold (\<lambda>r. js_set (key r) r) rs []"

text \<open>
  What JSON and the schemas promise of one envelope: its text is one line, is not blank, parses
  back to the value written, the schema accepts that value and answers the envelope, and every
  version in it is the supported one.
\<close>

definition codec_law :: "'s line_codec \<Rightarrow> 's envelope \<Rightarrow> bool" where
  "codec_law c e =
     (newline \<notin> set (lc_stringify c e) \<and> \<not> blank (lc_stringify c e)
      \<and> lc_parse c (lc_stringify c e) = Some (lc_view c e)
      \<and> lc_safeParse c (lc_view c e) = Some e
      \<and> assertEnvelopeVersion (lc_view c e) \<and> assertSupportedVersions (lc_view c e))"

definition accepted :: "'s line_codec \<Rightarrow> 's \<Rightarrow> bool" where
  "accepted c st = (lc_validate c st = Some st \<and> assertSupportedVersions (lc_stateView c st))"

primrec store_append_all ::
  "'s line_codec \<Rightarrow> string \<Rightarrow> (ident \<times> instant \<times> 's) list \<Rightarrow> string \<Rightarrow> store_error + string" where
  "store_append_all c rt [] file = Inr file"
| "store_append_all c rt (x # xs) file =
     (case x of (eid, now, st) \<Rightarrow>
        (case store_append c rt eid now st file of
           Inl e \<Rightarrow> Inl e | Inr file' \<Rightarrow> store_append_all c rt xs file'))"

definition file_of :: "'s line_codec \<Rightarrow> 's envelope list \<Rightarrow> string" where
  "file_of c es = concat (map (\<lambda>e. lc_stringify c e @ [newline]) es)"

definition envelopes :: "string \<Rightarrow> (ident \<times> instant \<times> 's) list \<Rightarrow> 's envelope list" where
  "envelopes rt xs = map (\<lambda>(eid, now, st). envelope_of rt eid now st) xs"

subsection \<open>The contract of a store\<close>

text \<open>
  A client appends records and reads back, per key, the latest one, in the order the keys were
  first written.
\<close>

locale append_log =
  fixes append :: "'s \<Rightarrow> 'h \<Rightarrow> 'h"
    and load :: "'h \<Rightarrow> ('k, 's) js_map"
    and key :: "'s \<Rightarrow> 'k"
  assumes load_append: "load (append r h) = js_set (key r) r (load h)"
begin

lemma load_appends: "load (fold append rs h) = fold (\<lambda>r. js_set (key r) r) rs (load h)"
  by (induction rs arbitrary: h) (simp_all add: load_append)

lemma load_append_get:
  "js_get (load (append r h)) k = (if k = key r then Some r else js_get (load h) k)"
  by (simp add: load_append js_lookup)

lemma load_append_same:
  "js_wf (load h) \<Longrightarrow> js_get (load h) (key r) = Some r \<Longrightarrow> load (append r h) = load h"
  by (simp add: load_append js_set_get_same)

lemma load_append_keyed: "keyed key (load h) \<Longrightarrow> keyed key (load (append r h))"
  by (simp add: load_append)

end

text \<open>The log as the list of records written, oldest first.\<close>

definition log_append :: "'s \<Rightarrow> 's list \<Rightarrow> 's list" where
  "log_append r h = h @ [r]"

interpretation snapshots: append_log log_append "replay key" key for key
  by unfold_locales (simp add: replay_def log_append_def)

lemma replay_keyed: "keyed key (replay key rs)"
proof (induction rs rule: rev_induct)
  case (snoc r rs)
  then show ?case using snapshots.load_append_keyed [of key rs r] by (simp add: log_append_def)
qed (simp add: replay_def)

subsection \<open>Splitting and scanning\<close>

lemma split_lines_nonempty: "split_lines s \<noteq> []"
  by (induction s) (auto split: list.split)

lemma split_lines_append:
  "newline \<notin> set l \<Longrightarrow> split_lines (l @ newline # s) = l # split_lines s"
  by (induction l) auto

lemma split_lines_tail: "newline \<notin> set l \<Longrightarrow> split_lines l = [l]"
  by (induction l) auto

lemma split_file_of:
  "list_all (codec_law c) es \<Longrightarrow>
     split_lines (file_of c es @ s) = map (lc_stringify c) es @ split_lines s"
  by (induction es) (auto simp: file_of_def codec_law_def split_lines_append)

lemma butlast_file_of:
  "list_all (codec_law c) es \<Longrightarrow> newline \<notin> set tail \<Longrightarrow>
     butlast (split_lines (file_of c es @ tail)) = map (lc_stringify c) es"
  by (simp add: split_file_of split_lines_tail butlast_append)

lemma load_lines_run:
  assumes "list_all (codec_law c) es" "distinct (map en_eventId es)"
    and "set (map en_eventId es) \<inter> set seen = {}"
  shows "\<exists>seen'. load_lines c key n seen latest (map (lc_stringify c) es @ ls)
    = load_lines c key (n + length es) seen'
        (fold (\<lambda>r. js_set (key r) r) (map en_state es) latest) ls"
  using assms
proof (induction es arbitrary: n seen latest)
  case (Cons e es)
  have step: "load_lines c key n seen latest (map (lc_stringify c) (e # es) @ ls)
      = load_lines c key (n + 1) (js_add (en_eventId e) seen)
          (js_set (key (en_state e)) (en_state e) latest) (map (lc_stringify c) es @ ls)"
    using Cons.prems by (simp add: codec_law_def)
  have "set (map en_eventId es) \<inter> set (js_add (en_eventId e) seen) = {}"
    using Cons.prems by auto
  with Cons.IH [of "js_add (en_eventId e) seen" "n + 1" "js_set (key (en_state e)) (en_state e) latest"]
    Cons.prems step show ?case by (simp add: add.assoc)
qed auto

lemma store_load_file:
  assumes "list_all (codec_law c) es" "distinct (map en_eventId es)" "newline \<notin> set tail"
  shows "store_load c key (Some (file_of c es @ tail)) = Inr (js_values (replay key (map en_state es)))"
proof (cases "file_of c es @ tail = []")
  case True
  then have "es = []" by (cases es) (simp_all add: file_of_def)
  with True show ?thesis by (simp add: store_load_def replay_def)
next
  case False
  have "load_lines c key 1 [] [] (map (lc_stringify c) es) = Inr (replay key (map en_state es))"
    using load_lines_run [OF assms(1,2), of "[]" key 1 "[]" "[]"] by (simp add: replay_def)
  with False show ?thesis
    by (simp only: store_load_def option.case butlast_file_of [OF assms(1,3)] if_False sum.case)
qed

lemma store_append_all_file:
  assumes "list_all (\<lambda>(eid, now, st). accepted c st) xs"
  shows "store_append_all c rt xs f = Inr (f @ file_of c (envelopes rt xs))"
  using assms
  by (induction xs arbitrary: f)
    (auto simp: store_append_def accepted_def file_of_def envelopes_def split: prod.split)

lemma envelopes_fields [simp]:
  "map en_eventId (envelopes rt xs) = map fst xs"
  "map en_state (envelopes rt xs) = map (snd \<circ> snd) xs"
  by (auto simp: envelopes_def envelope_of_def)

subsection \<open>Properties\<close>

text \<open>
  C23. Crash-safe round trip: after any sequence of appends with fresh event ids to a new file, and
  with any unterminated tail a crash left behind, reading the file answers exactly the latest
  appended snapshot of each id, in first-seen order.
\<close>

theorem store_roundtrip:
  assumes "list_all (\<lambda>(eid, now, st). accepted c st) xs"
    and "list_all (codec_law c) (envelopes rt xs)"
    and "distinct (map fst xs)"
    and "newline \<notin> set tail"
  shows "\<exists>file. store_append_all c rt xs [] = Inr file
           \<and> store_load c key (Some (file @ tail)) = Inr (js_values (replay key (map (snd \<circ> snd) xs)))"
  using store_append_all_file [OF assms(1), of rt "[]"] store_load_file [OF assms(2) _ assms(4), of key]
    assms(3) by simp

text \<open>A concrete codec: the two string fields of an envelope separated by a colon.\<close>

definition colon_split :: "string \<Rightarrow> string \<times> string" where
  "colon_split l = (takeWhile (\<lambda>x. x \<noteq> CHR '':'') l, tl (dropWhile (\<lambda>x. x \<noteq> CHR '':'') l))"

definition demo_codec :: "string line_codec" where
  "demo_codec =
     \<lparr>lc_validate = Some, lc_stateView = JString,
      lc_view = (\<lambda>e. JObject [(''schemaVersion'', JNumber 1), (''eventId'', JString (en_eventId e)),
                              (''state'', JString (en_state e))]),
      lc_stringify = (\<lambda>e. en_eventId e @ '':'' @ en_state e),
      lc_parse = (\<lambda>l. if length (filter (\<lambda>x. x = CHR '':'') l) = 1
                      then Some (JObject [(''schemaVersion'', JNumber 1),
                             (''eventId'', JString (fst (colon_split l))),
                             (''state'', JString (snd (colon_split l)))])
                      else None),
      lc_safeParse = (\<lambda>j. case j of
          JObject [_, (_, JString i), (_, JString s)] \<Rightarrow> Some (envelope_of ''demo'' i 0 s)
        | _ \<Rightarrow> None)\<rparr>"

definition demo_writes :: "(ident \<times> instant \<times> string) list" where
  "demo_writes = [(''e1'', 0, ''a1''), (''e2'', 0, ''b1''), (''e3'', 0, ''a2'')]"

theorem store_roundtrip_witness:
  "\<exists>file. store_append_all demo_codec ''demo'' demo_writes [] = Inr file
     \<and> store_load demo_codec hd (Some (file @ ''e4:a'')) = Inr [''a2'', ''b1'']"
proof -
  have "list_all (\<lambda>(eid, now, st). accepted demo_codec st) demo_writes"
    "list_all (codec_law demo_codec) (envelopes ''demo'' demo_writes)"
    "distinct (map fst demo_writes)" "newline \<notin> set ''e4:a''"
    by code_simp+
  note store_roundtrip [OF this, of hd]
  moreover have "js_values (replay hd (map (snd \<circ> snd) demo_writes)) = [''a2'', ''b1'']"
    by code_simp
  ultimately show ?thesis by simp
qed

text \<open>
  C24. A torn tail poisons the next append: the loader ignores an unterminated tail, but the store
  never removes it, so the next record is written on the same line. When the joined line is no
  JSON, the file can no longer be loaded, and the error names that line.
\<close>

theorem torn_tail_poisons_append:
  assumes "list_all (codec_law c) es" and "distinct (map en_eventId es)"
    and "newline \<notin> set tail" and "accepted c st"
    and "newline \<notin> set (lc_stringify c (envelope_of rt eid now st))"
    and "lc_parse c (tail @ lc_stringify c (envelope_of rt eid now st)) = None"
  shows "\<exists>file. store_append c rt eid now st (file_of c es @ tail) = Inr file
           \<and> store_load c key (Some file) = Inl (StoreCorrupt (length es + 1))"
proof -
  let ?line = "tail @ lc_stringify c (envelope_of rt eid now st)"
  let ?file = "file_of c es @ ?line @ [newline]"
  have "newline \<notin> set ?line" using assms(3,5) by simp
  then have lines: "butlast (split_lines ?file) = map (lc_stringify c) es @ [?line]"
    using split_lines_append [of ?line "[]"]
    by (simp add: split_file_of [OF assms(1)] butlast_append)
  obtain seen where "load_lines c key 1 [] [] (map (lc_stringify c) es @ [?line])
      = load_lines c key (1 + length es) seen
          (fold (\<lambda>r. js_set (key r) r) (map en_state es) []) [?line]"
    using load_lines_run [OF assms(1,2), of "[]" key 1 "[]" "[?line]"] by auto
  then have "store_load c key (Some ?file) = Inl (StoreCorrupt (length es + 1))"
    unfolding store_load_def option.case lines by (simp add: assms(6))
  then show ?thesis
    using assms(4) by (simp add: store_append_def accepted_def)
qed

theorem torn_tail_poisons_append_witness:
  "\<exists>file. store_append demo_codec ''demo'' ''e9'' 0 ''c1''
       (file_of demo_codec (envelopes ''demo'' demo_writes) @ ''e4:a'') = Inr file
     \<and> store_load demo_codec hd (Some file) = Inl (StoreCorrupt 4)"
proof -
  have "list_all (codec_law demo_codec) (envelopes ''demo'' demo_writes)"
    "distinct (map en_eventId (envelopes ''demo'' demo_writes))"
    "newline \<notin> set ''e4:a''" "accepted demo_codec ''c1''"
    "newline \<notin> set (lc_stringify demo_codec (envelope_of ''demo'' ''e9'' 0 ''c1''))"
    "lc_parse demo_codec (''e4:a'' @ lc_stringify demo_codec (envelope_of ''demo'' ''e9'' 0 ''c1'')) = None"
    by code_simp+
  note torn_tail_poisons_append [OF this, of hd]
  moreover have "length (envelopes ''demo'' demo_writes) + 1 = 4" by code_simp
  ultimately show ?thesis by simp
qed

end
