(* ===== verification/Worktree_Leases.thy ===== *)
theory Worktree_Leases
  imports Snapshot_Store
begin

text \<open>
  Worktree leases: \<^verbatim>\<open>src/src/control-plane/worktree-lease-manager.ts\<close> over the lease
  records of \<^verbatim>\<open>src/src/domain/lease.ts\<close> and \<^verbatim>\<open>src/src/persistence/lease-store.ts\<close>.
  The manager is a record with its in-memory map and its append-only store. Every method runs
  through \<^verbatim>\<open>serial\<close>, so methods are atomic with respect to each other; a method is a
  throwing state transformer. The clock is a stream of readings and the store a stream of
  successes and failures, both consumed one element per use. Path canonicalisation, the dirty
  probe and the schema validators are parameters (\<open>lease_env\<close>).

  The lemmas show writer exclusivity and fencing over arbitrary runs, restarts and store failures
  included.
\<close>

subsection \<open>Data\<close>

datatype lease_access = ReadOnly | WorkspaceWrite
datatype lease_state = LeaseHeld | LeaseReleased

record worktree_lease =
  wl_schemaVersion :: nat
  wl_leaseId :: ident
  wl_repositoryPath :: string
  wl_worktreePath :: string
  wl_branch :: "string option"
  wl_holderJobId :: "ident option"
  wl_holderSessionId :: "ident option"
  wl_state :: lease_state
  wl_acquiredAt :: instant
  wl_releasedAt :: "instant option"
  wl_expiresAt :: "instant option"

record durable_lease_record =
  dl_schemaVersion :: nat
  dl_lease :: worktree_lease
  dl_access :: lease_access
  dl_canonicalRepositoryPath :: string
  dl_canonicalWorktreePath :: string
  dl_canonicalKey :: string
  dl_fencingToken :: nat
  dl_ownerKey :: string
  dl_lastRenewedAt :: instant
  dl_orphanedAt :: "instant option"
  dl_orphanReason :: "string option"

record acquire_lease_request =
  aq_repositoryPath :: string
  aq_worktreePath :: string
  aq_access :: lease_access
  aq_holderJobId :: "ident option"
  aq_holderSessionId :: "ident option"
  aq_branch :: "string option"
  aq_ttlMs :: "int option"

record lease_grant =
  lg_lease :: worktree_lease
  lg_access :: lease_access
  lg_canonicalKey :: string
  lg_fencingToken :: nat
  lg_ownerKey :: string

datatype lease_error =
    LeaseConflict
  | LeaseOrphaned
  | LeaseNotFound
  | StaleLease
  | InvalidOwner
  | InvalidTtl
  | PathUnresolved
  | LeaseSchemaRejected
  | DateOutOfRange
  | LeaseStoreFailed

record lease_env =
  le_canonicalize :: "string \<Rightarrow> string option"
  le_isWorktreeDirty :: "string \<Rightarrow> bool"
  le_isJobId :: "string \<Rightarrow> bool"
  le_leaseValid :: "worktree_lease \<Rightarrow> bool"
  le_defaultTtlMs :: "int option"

record lease_manager =
  lm_records :: "(ident, durable_lease_record) js_map"
  lm_store :: "durable_lease_record list"
  lm_clock :: "nat \<Rightarrow> instant"
  lm_ticks :: nat
  lm_storeUp :: "nat \<Rightarrow> bool"
  lm_writes :: nat

record orphan_evidence =
  oe_leaseId :: ident
  oe_canonicalKey :: string
  oe_ownerKey :: string
  oe_manualRemediationRequired :: bool

type_synonym 'a lease_op = "(lease_manager, lease_error, 'a) op"

subsection \<open>Helpers of the manager\<close>

definition record_id :: "durable_lease_record \<Rightarrow> ident" where
  "record_id r = wl_leaseId (dl_lease r)"

definition held :: "durable_lease_record \<Rightarrow> bool" where
  "held r = (wl_state (dl_lease r) = LeaseHeld)"

definition lease_now :: "instant lease_op" where
  "lease_now m = (Inr (lm_clock m (lm_ticks m)), m\<lparr>lm_ticks := lm_ticks m + 1\<rparr>)"

definition lease_store_append :: "durable_lease_record \<Rightarrow> unit lease_op" where
  "lease_store_append r m =
     (let m' = m\<lparr>lm_writes := lm_writes m + 1\<rparr>
      in if lm_storeUp m (lm_writes m) then (Inr (), m'\<lparr>lm_store := log_append r (lm_store m)\<rparr>)
         else (Inl LeaseStoreFailed, m'))"

definition lease_store_load :: "(durable_lease_record list) lease_op" where
  "lease_store_load m = (Inr (js_values (replay record_id (lm_store m))), m)"

definition set_record :: "durable_lease_record \<Rightarrow> unit lease_op" where
  "set_record r = op_modify (\<lambda>m. m\<lparr>lm_records := js_set (record_id r) r (lm_records m)\<rparr>)"

definition isExpired :: "durable_lease_record \<Rightarrow> bool lease_op" where
  "isExpired r =
     (case wl_expiresAt (dl_lease r) of
        None \<Rightarrow> op_return False
      | Some t \<Rightarrow> op_bind lease_now (\<lambda>now. op_return (t \<le> now)))"

definition grant :: "durable_lease_record \<Rightarrow> lease_grant" where
  "grant r = \<lparr>lg_lease = dl_lease r, lg_access = dl_access r, lg_canonicalKey = dl_canonicalKey r,
              lg_fencingToken = dl_fencingToken r, lg_ownerKey = dl_ownerKey r\<rparr>"

definition grant_matches :: "durable_lease_record \<Rightarrow> lease_grant \<Rightarrow> bool" where
  "grant_matches r g = (dl_fencingToken r = lg_fencingToken g \<and> dl_ownerKey r = lg_ownerKey g
                        \<and> dl_canonicalKey r = lg_canonicalKey g)"

definition requireCurrent :: "lease_grant \<Rightarrow> durable_lease_record lease_op" where
  "requireCurrent g m =
     (case js_get (lm_records m) (wl_leaseId (lg_lease g)) of
        None \<Rightarrow> (Inl LeaseNotFound, m)
      | Some r \<Rightarrow> (if grant_matches r g then (Inr r, m) else (Inl StaleLease, m)))"

definition released_record :: "instant \<Rightarrow> string \<Rightarrow> durable_lease_record \<Rightarrow> durable_lease_record" where
  "released_record now reason r =
     r\<lparr>dl_lease := (dl_lease r)\<lparr>wl_state := LeaseReleased, wl_releasedAt := Some now\<rparr>,
       dl_orphanReason := (if dl_orphanedAt r \<noteq> None then Some reason else dl_orphanReason r)\<rparr>"

definition persistReleased :: "durable_lease_record \<Rightarrow> string \<Rightarrow> durable_lease_record lease_op" where
  "persistReleased r reason =
     (if \<not> held r then op_return r
      else op_bind lease_now (\<lambda>now.
             op_then (lease_store_append (released_record now reason r))
               (op_then (set_record (released_record now reason r))
                  (op_return (released_record now reason r)))))"

definition expire_one :: "string \<Rightarrow> durable_lease_record \<Rightarrow> unit lease_op" where
  "expire_one key r =
     (if dl_canonicalKey r = key \<and> held r
      then op_bind (isExpired r) (\<lambda>expired.
             op_when expired
               (op_bind (persistReleased r ''expired before acquisition'') (\<lambda>_. op_return ())))
      else op_return ())"

definition expireKey :: "string \<Rightarrow> unit lease_op" where
  "expireKey key =
     op_bind (op_gets (\<lambda>m. js_values (lm_records m))) (\<lambda>rs. op_for (expire_one key) rs)"

definition lease_owner :: "lease_env \<Rightarrow> acquire_lease_request \<Rightarrow> string lease_op" where
  "lease_owner env q =
     (case (aq_holderJobId q, aq_holderSessionId q) of
        (Some j, None) \<Rightarrow>
          (if le_isJobId env j then op_return (''job:'' @ j) else op_throw LeaseSchemaRejected)
      | (None, Some t) \<Rightarrow> op_return (''session:'' @ t)
      | _ \<Rightarrow> op_throw InvalidOwner)"

definition isSafePositive :: "int \<Rightarrow> bool" where
  "isSafePositive n = (0 < n \<and> n \<le> 2 ^ 53 - 1)"

definition or_default :: "int option \<Rightarrow> int \<Rightarrow> int" where
  "or_default x d = (case x of None \<Rightarrow> d | Some v \<Rightarrow> v)"

definition default_ttl :: "lease_env \<Rightarrow> int" where
  "default_ttl env = or_default (le_defaultTtlMs env) 30000"

text \<open>\<^verbatim>\<open>new Date(ms).toISOString()\<close> throws beyond the range of a JavaScript date.\<close>

definition iso_date :: "int \<Rightarrow> instant lease_op" where
  "iso_date ms = (if \<bar>ms\<bar> \<le> 8640000000000000 then op_return ms else op_throw DateOutOfRange)"

definition canonicalize :: "lease_env \<Rightarrow> string \<Rightarrow> string lease_op" where
  "canonicalize env path =
     (case le_canonicalize env path of None \<Rightarrow> op_throw PathUnresolved | Some p \<Rightarrow> op_return p)"

definition records_of_key :: "string \<Rightarrow> lease_manager \<Rightarrow> durable_lease_record list" where
  "records_of_key key m = filter (\<lambda>r. dl_canonicalKey r = key) (js_values (lm_records m))"

definition newest_fence :: "string \<Rightarrow> lease_manager \<Rightarrow> nat" where
  "newest_fence key m = fold max (map dl_fencingToken (records_of_key key m)) 0"

definition active_records :: "string \<Rightarrow> lease_manager \<Rightarrow> durable_lease_record list" where
  "active_records key m = filter held (records_of_key key m)"

subsection \<open>Methods of the manager\<close>

definition new_manager ::
  "lease_env \<Rightarrow> durable_lease_record list \<Rightarrow> (nat \<Rightarrow> instant) \<Rightarrow> (nat \<Rightarrow> bool)
     \<Rightarrow> lease_error + lease_manager" where
  "new_manager env store clock up =
     (if isSafePositive (default_ttl env)
      then Inr \<lparr>lm_records = [], lm_store = store, lm_clock = clock, lm_ticks = 0,
                lm_storeUp = up, lm_writes = 0\<rparr>
      else Inl InvalidTtl)"

definition evidence_of :: "durable_lease_record \<Rightarrow> orphan_evidence" where
  "evidence_of r = \<lparr>oe_leaseId = record_id r, oe_canonicalKey = dl_canonicalKey r,
                    oe_ownerKey = dl_ownerKey r, oe_manualRemediationRequired = True\<rparr>"

definition orphaned_record :: "instant \<Rightarrow> durable_lease_record \<Rightarrow> durable_lease_record" where
  "orphaned_record now r =
     r\<lparr>dl_orphanedAt := Some now,
       dl_orphanReason := Some ''Broker restarted; prior lease owner is unverifiable''\<rparr>"

definition recover_one :: "durable_lease_record \<Rightarrow> (orphan_evidence list) lease_op" where
  "recover_one r =
     (if \<not> held r then op_return []
      else op_bind (isExpired r) (\<lambda>expired.
        if expired
        then op_bind (persistReleased r ''expired during startup recovery'') (\<lambda>_. op_return [])
        else if dl_orphanedAt r \<noteq> None then op_return [evidence_of r]
        else op_bind lease_now (\<lambda>now.
               op_then (set_record (orphaned_record now r))
                 (op_then (lease_store_append (orphaned_record now r))
                    (op_return [evidence_of (orphaned_record now r)])))))"

primrec recover_loop :: "durable_lease_record list \<Rightarrow> (orphan_evidence list) lease_op" where
  "recover_loop [] = op_return []"
| "recover_loop (r # rs) =
     op_bind (recover_one r) (\<lambda>found. op_bind (recover_loop rs) (\<lambda>more. op_return (found @ more)))"

definition lease_recover :: "(orphan_evidence list) lease_op" where
  "lease_recover =
     op_then (op_modify (\<lambda>m. m\<lparr>lm_records := []\<rparr>))
       (op_bind lease_store_load (\<lambda>rs.
          op_then (op_for set_record rs)
            (op_bind (op_gets (\<lambda>m. js_values (lm_records m))) recover_loop)))"

definition acquired_lease ::
  "ident \<Rightarrow> string \<Rightarrow> string \<Rightarrow> acquire_lease_request \<Rightarrow> instant \<Rightarrow> instant \<Rightarrow> worktree_lease" where
  "acquired_lease lid repo tree q now expires =
     \<lparr>wl_schemaVersion = 1, wl_leaseId = lid, wl_repositoryPath = repo, wl_worktreePath = tree,
      wl_branch = aq_branch q, wl_holderJobId = aq_holderJobId q,
      wl_holderSessionId = aq_holderSessionId q, wl_state = LeaseHeld, wl_acquiredAt = now,
      wl_releasedAt = None, wl_expiresAt = Some expires\<rparr>"

definition acquired_record ::
  "worktree_lease \<Rightarrow> lease_access \<Rightarrow> string \<Rightarrow> string \<Rightarrow> string \<Rightarrow> nat \<Rightarrow> string \<Rightarrow> instant
     \<Rightarrow> durable_lease_record" where
  "acquired_record l access repo tree key fence owner now =
     \<lparr>dl_schemaVersion = 1, dl_lease = l, dl_access = access, dl_canonicalRepositoryPath = repo,
      dl_canonicalWorktreePath = tree, dl_canonicalKey = key, dl_fencingToken = fence,
      dl_ownerKey = owner, dl_lastRenewedAt = now, dl_orphanedAt = None, dl_orphanReason = None\<rparr>"

definition lease_key :: "string \<Rightarrow> string \<Rightarrow> string" where
  "lease_key repo tree = repo @ CHR 0x00 # tree"

definition admit_record :: "durable_lease_record \<Rightarrow> lease_grant lease_op" where
  "admit_record r = op_then (lease_store_append r) (op_then (set_record r) (op_return (grant r)))"

text \<open>The conflict checks of \<^verbatim>\<open>acquire\<close> on the leases held for the key.\<close>

definition check_conflict :: "lease_access \<Rightarrow> string \<Rightarrow> unit lease_op" where
  "check_conflict access key m =
     (if \<exists>r \<in> set (active_records key m). dl_orphanedAt r \<noteq> None then (Inl LeaseOrphaned, m)
      else if \<exists>r \<in> set (active_records key m). access = WorkspaceWrite \<or> dl_access r = WorkspaceWrite
      then (Inl LeaseConflict, m)
      else (Inr (), m))"

definition lease_acquire :: "lease_env \<Rightarrow> ident \<Rightarrow> acquire_lease_request \<Rightarrow> lease_grant lease_op" where
  "lease_acquire env lid q =
     op_bind (lease_owner env q) (\<lambda>owner.
     let ttl = or_default (aq_ttlMs q) (default_ttl env) in
     op_then (op_when (\<not> isSafePositive ttl) (op_throw InvalidTtl))
     (op_bind (canonicalize env (aq_repositoryPath q)) (\<lambda>repo.
     op_bind (canonicalize env (aq_worktreePath q)) (\<lambda>tree.
     let key = lease_key repo tree in
     op_then (expireKey key)
     (op_then (check_conflict (aq_access q) key)
     (op_bind (op_gets (newest_fence key)) (\<lambda>newest.
     op_bind lease_now (\<lambda>now.
     op_bind (iso_date (now + ttl)) (\<lambda>expires.
     let l = acquired_lease lid repo tree q now expires in
     op_then (op_when (\<not> le_leaseValid env l) (op_throw LeaseSchemaRejected))
       (admit_record (acquired_record l (aq_access q) repo tree key (newest + 1) owner now)))))))))))"

definition renewed_record :: "instant \<Rightarrow> instant \<Rightarrow> durable_lease_record \<Rightarrow> durable_lease_record" where
  "renewed_record now expires r =
     r\<lparr>dl_lease := (dl_lease r)\<lparr>wl_expiresAt := Some expires\<rparr>, dl_lastRenewedAt := now\<rparr>"

text \<open>
  \<^verbatim>\<open>renew\<close> asks \<^verbatim>\<open>isExpired\<close> a second time in the refused branch, and records the
  release only then.
\<close>

definition refuse_renewal :: "durable_lease_record \<Rightarrow> lease_grant lease_op" where
  "refuse_renewal r =
     op_bind (isExpired r) (\<lambda>expired.
       op_then (op_when expired
                  (op_bind (persistReleased r ''expired before renewal'') (\<lambda>_. op_return ())))
         (op_throw StaleLease))"

definition lease_renew :: "lease_env \<Rightarrow> lease_grant \<Rightarrow> int option \<Rightarrow> lease_grant lease_op" where
  "lease_renew env g ttlMs =
     (let ttl = or_default ttlMs (default_ttl env) in
      op_then (op_when (\<not> isSafePositive ttl) (op_throw InvalidTtl))
      (op_bind (requireCurrent g) (\<lambda>r.
       op_bind (if dl_orphanedAt r \<noteq> None then op_return True else isExpired r) (\<lambda>refused.
         if refused then refuse_renewal r
         else op_bind lease_now (\<lambda>now.
              op_bind (iso_date (now + ttl)) (\<lambda>expires.
                admit_record (renewed_record now expires r)))))))"

definition lease_validate :: "lease_grant \<Rightarrow> bool lease_op" where
  "lease_validate g =
     op_bind (op_gets (\<lambda>m. js_get (lm_records m) (wl_leaseId (lg_lease g)))) (\<lambda>found.
       case found of
         None \<Rightarrow> op_return False
       | Some r \<Rightarrow>
           (if \<not> grant_matches r g \<or> \<not> held r \<or> dl_orphanedAt r \<noteq> None then op_return False
            else op_bind (isExpired r) (\<lambda>expired.
              if expired
              then op_bind (persistReleased r ''expired during validation'') (\<lambda>_. op_return False)
              else op_gets (\<lambda>m. newest_fence (dl_canonicalKey r) m = dl_fencingToken r))))"

definition lease_release :: "lease_grant \<Rightarrow> lease_grant lease_op" where
  "lease_release g =
     op_bind (op_gets (\<lambda>m. js_get (lm_records m) (wl_leaseId (lg_lease g)))) (\<lambda>found.
       case found of
         None \<Rightarrow> op_throw StaleLease
       | Some r \<Rightarrow>
           (if \<not> grant_matches r g then op_throw StaleLease
            else op_bind (op_gets (\<lambda>m. \<exists>c \<in> set (records_of_key (dl_canonicalKey r) m).
                                         dl_fencingToken r < dl_fencingToken c)) (\<lambda>newer.
              if newer then op_throw StaleLease
              else if \<not> held r then op_return (grant r)
              else op_bind (persistReleased r ''released by current owner'')
                     (\<lambda>released. op_return (grant released)))))"

definition resolveOrphan :: "lease_grant \<Rightarrow> bool \<Rightarrow> lease_grant lease_op" where
  "resolveOrphan g operatorConfirmed =
     op_bind (requireCurrent g) (\<lambda>r.
       if dl_orphanedAt r = None then op_throw StaleLease
       else if \<not> operatorConfirmed then op_throw LeaseOrphaned
       else op_bind (persistReleased r ''orphan manually resolved after operator verification'')
              (\<lambda>released. op_return (grant released)))"

definition assessOrphanCleanup :: "lease_env \<Rightarrow> lease_grant \<Rightarrow> (bool \<times> bool) lease_op" where
  "assessOrphanCleanup env g =
     op_bind (requireCurrent g) (\<lambda>r.
       op_return (False, le_isWorktreeDirty env (dl_canonicalWorktreePath r)))"

definition findByJob :: "ident \<Rightarrow> lease_manager \<Rightarrow> lease_grant list" where
  "findByJob j m =
     map grant (filter (\<lambda>r. wl_holderJobId (dl_lease r) = Some j \<and> held r) (js_values (lm_records m)))"

definition findByOwner :: "string \<Rightarrow> lease_manager \<Rightarrow> lease_grant list" where
  "findByOwner owner m =
     map grant (filter (\<lambda>r. dl_ownerKey r = owner \<and> held r) (js_values (lm_records m)))"

text \<open>The serialised calls, as data. A restart is a recovery on the same store.\<close>

datatype lease_call =
    CallRecover
  | CallAcquire ident acquire_lease_request
  | CallRenew lease_grant "int option"
  | CallValidate lease_grant
  | CallLeaseRelease lease_grant
  | CallResolveOrphan lease_grant bool

fun lease_step :: "lease_env \<Rightarrow> lease_call \<Rightarrow> lease_manager \<Rightarrow> lease_manager" where
  "lease_step env CallRecover m = snd (lease_recover m)"
| "lease_step env (CallAcquire lid q) m = snd (lease_acquire env lid q m)"
| "lease_step env (CallRenew g ttl) m = snd (lease_renew env g ttl m)"
| "lease_step env (CallValidate g) m = snd (lease_validate g m)"
| "lease_step env (CallLeaseRelease g) m = snd (lease_release g m)"
| "lease_step env (CallResolveOrphan g ok) m = snd (resolveOrphan g ok m)"

subsection \<open>The abstract lease table\<close>

text \<open>
  What fencing and exclusivity depend on: per lease id its target, token, access and whether it is
  held. The manager refines a table with two moves: a lease is dropped, or a new one is admitted
  with a token above every token of its target and no writer involved in an overlap.
\<close>

record lease_shape =
  ls_id :: ident
  ls_key :: string
  ls_token :: nat
  ls_access :: lease_access
  ls_held :: bool

type_synonym lease_table = "(ident, lease_shape) js_map"

definition shape :: "durable_lease_record \<Rightarrow> lease_shape" where
  "shape r = \<lparr>ls_id = record_id r, ls_key = dl_canonicalKey r, ls_token = dl_fencingToken r,
              ls_access = dl_access r, ls_held = held r\<rparr>"

definition shapes :: "(ident, durable_lease_record) js_map \<Rightarrow> lease_table" where
  "shapes m = map (\<lambda>(k, r). (k, shape r)) m"

inductive lease_drop :: "lease_table \<Rightarrow> lease_table \<Rightarrow> bool" where
  drop: "js_get sh i = Some s \<Longrightarrow> lease_drop sh (js_set i (s\<lparr>ls_held := False\<rparr>) sh)"

abbreviation lease_drops :: "lease_table \<Rightarrow> lease_table \<Rightarrow> bool" where
  "lease_drops \<equiv> lease_drop\<^sup>*\<^sup>*"

definition overlap_ok :: "lease_shape \<Rightarrow> lease_shape \<Rightarrow> bool" where
  "overlap_ok a b = (ls_held a \<and> ls_held b \<longrightarrow> ls_access a = ReadOnly \<and> ls_access b = ReadOnly)"

definition admissible :: "lease_shape \<Rightarrow> lease_table \<Rightarrow> bool" where
  "admissible s sh =
     (\<forall>i b. js_get sh i = Some b \<and> ls_key b = ls_key s \<longrightarrow> ls_token b < ls_token s \<and> overlap_ok s b)"

definition table_ok :: "lease_table \<Rightarrow> bool" where
  "table_ok sh =
     (keyed ls_id sh
      \<and> (\<forall>i j a b. js_get sh i = Some a \<and> js_get sh j = Some b \<and> i \<noteq> j \<and> ls_key a = ls_key b
            \<longrightarrow> ls_token a \<noteq> ls_token b \<and> overlap_ok a b))"

text \<open>The memory and the store agree on the table, and the table is in order.\<close>

definition lease_inv :: "lease_manager \<Rightarrow> bool" where
  "lease_inv m =
     (shapes (lm_records m) = shapes (replay record_id (lm_store m)) \<and> table_ok (shapes (lm_records m)))"

text \<open>The tracked part of a run that only dropped leases since the table \<open>sh\<close>.\<close>

definition dropped_from :: "lease_table \<Rightarrow> lease_manager \<Rightarrow> bool" where
  "dropped_from sh m = (lease_inv m \<and> lease_drops sh (shapes (lm_records m)))"

definition known_in :: "lease_table \<Rightarrow> durable_lease_record \<Rightarrow> bool" where
  "known_in sh r = (\<exists>s. js_get sh (record_id r) = Some s \<and> s\<lparr>ls_held := False\<rparr> = (shape r)\<lparr>ls_held := False\<rparr>)"

subsection \<open>The table under moves\<close>

lemma js_set_map_values:
  "map (\<lambda>(k, v). (k, f v)) (js_set k v m) = js_set k (f v) (map (\<lambda>(k, v). (k, f v)) m)"
  by (induction m) auto

lemma shapes_set: "shapes (js_set k r m) = js_set k (shape r) (shapes m)"
  by (simp add: shapes_def js_set_map_values)

lemma shapes_get: "js_get (shapes m) k = map_option shape (js_get m k)"
  by (simp add: shapes_def map_of_map)

lemma shape_id [simp]: "ls_id (shape r) = record_id r"
  by (simp add: shape_def)

lemma table_okD:
  "table_ok sh \<Longrightarrow> js_get sh i = Some a \<Longrightarrow> js_get sh j = Some b \<Longrightarrow> i \<noteq> j \<Longrightarrow> ls_key a = ls_key b \<Longrightarrow>
     ls_token a \<noteq> ls_token b \<and> overlap_ok a b"
  unfolding table_ok_def by blast

lemma table_okI_set:
  assumes "table_ok sh" "ls_id s = i"
    and "\<And>j b. j \<noteq> i \<Longrightarrow> js_get sh j = Some b \<Longrightarrow> ls_key b = ls_key s \<Longrightarrow>
           ls_token b \<noteq> ls_token s \<and> overlap_ok s b"
  shows "table_ok (js_set i s sh)"
proof -
  have sym: "overlap_ok a b = overlap_ok b a" for a b by (auto simp: overlap_ok_def)
  have "ls_token a \<noteq> ls_token b \<and> overlap_ok a b"
    if "js_get (js_set i s sh) k = Some a" "js_get (js_set i s sh) j = Some b" "k \<noteq> j"
      "ls_key a = ls_key b" for k j a b
  proof (cases "k = i")
    case True
    with that assms(3) [of j b] show ?thesis by (auto simp: js_lookup)
  next
    case k: False
    show ?thesis
    proof (cases "j = i")
      case True
      with that k assms(3) [of k a] show ?thesis by (simp add: js_lookup sym)
    next
      case False
      with that k show ?thesis using table_okD [OF assms(1), of k a j b] by (simp add: js_lookup)
    qed
  qed
  moreover have "keyed ls_id (js_set i s sh)"
    using assms(1,2) unfolding table_ok_def by simp
  ultimately show ?thesis unfolding table_ok_def by blast
qed

lemma table_ok_keyed: "table_ok sh \<Longrightarrow> keyed ls_id sh"
  unfolding table_ok_def by blast

lemma table_ok_id: "table_ok sh \<Longrightarrow> js_get sh i = Some s \<Longrightarrow> ls_id s = i"
  unfolding table_ok_def by (erule conjE) (rule keyed_get)

lemma table_ok_drop: "lease_drop sh sh' \<Longrightarrow> table_ok sh \<Longrightarrow> table_ok sh'"
proof (induction rule: lease_drop.induct)
  case (drop sh i s)
  then have "ls_id s = i" using table_ok_id by blast
  show ?case
  proof (rule table_okI_set [OF drop.prems])
    show "ls_id (s\<lparr>ls_held := False\<rparr>) = i" using \<open>ls_id s = i\<close> by simp
    fix j b
    assume "j \<noteq> i" "js_get sh j = Some b" "ls_key b = ls_key (s\<lparr>ls_held := False\<rparr>)"
    with table_okD [OF drop.prems _ drop.hyps, of j b]
    show "ls_token b \<noteq> ls_token (s\<lparr>ls_held := False\<rparr>) \<and> overlap_ok (s\<lparr>ls_held := False\<rparr>) b"
      by (simp add: overlap_ok_def)
  qed
qed

lemma table_ok_admit:
  "table_ok sh \<Longrightarrow> admissible s sh \<Longrightarrow> table_ok (js_set (ls_id s) s sh)"
  by (rule table_okI_set) (fastforce simp: admissible_def)+

lemma drop_get:
  assumes "lease_drops sh sh'" "js_get sh i = Some s"
  shows "\<exists>s'. js_get sh' i = Some s' \<and> s'\<lparr>ls_held := False\<rparr> = s\<lparr>ls_held := False\<rparr>
           \<and> (ls_held s' \<longrightarrow> ls_held s)"
  using assms
proof (induction rule: rtranclp_induct)
  case (step y z)
  from step.hyps(2) step.IH [OF step.prems] show ?case
    by (cases rule: lease_drop.cases) (auto simp: js_lookup)
qed simp

lemma drop_dom: "lease_drops sh sh' \<Longrightarrow> js_keys sh' = js_keys sh"
proof (induction rule: rtranclp_induct)
  case (step y z)
  from step.hyps(2) step.IH show ?case
    by (cases rule: lease_drop.cases) (metis js.keys_put_known option.distinct(1))
qed simp

lemma known_after_drops: "known_in sh r \<Longrightarrow> lease_drops sh sh' \<Longrightarrow> known_in sh' r"
  unfolding known_in_def using drop_get by metis

subsection \<open>Methods refine the table\<close>

text \<open>The records other than one lease, as a frame.\<close>

definition others :: "ident \<Rightarrow> (ident \<Rightarrow> durable_lease_record option) \<Rightarrow> lease_manager \<Rightarrow> bool" where
  "others i f m = (\<forall>j. j \<noteq> i \<longrightarrow> js_get (lm_records m) j = f j)"

lemma lease_inv_counters [simp]:
  "lease_inv (m\<lparr>lm_ticks := n\<rparr>) = lease_inv m"
  "lease_inv (m\<lparr>lm_writes := n\<rparr>) = lease_inv m"
  "dropped_from sh (m\<lparr>lm_ticks := n\<rparr>) = dropped_from sh m"
  "dropped_from sh (m\<lparr>lm_writes := n\<rparr>) = dropped_from sh m"
  "others i f (m\<lparr>lm_ticks := n\<rparr>) = others i f m"
  "others i f (m\<lparr>lm_writes := n\<rparr>) = others i f m"
  by (simp_all add: lease_inv_def dropped_from_def others_def)

lemma lease_now_triple:
  "(\<And>m n. P m \<Longrightarrow> P (m\<lparr>lm_ticks := n\<rparr>)) \<Longrightarrow> op_triple P lease_now (\<lambda>_. P) E"
  by (simp add: op_triple_def lease_now_def)

lemma isExpired_triple:
  assumes "\<And>m n. P m \<Longrightarrow> P (m\<lparr>lm_ticks := n\<rparr>)"
  shows "op_triple P (isExpired r) (\<lambda>_. P) E"
proof (cases "wl_expiresAt (dl_lease r)")
  case None
  then show ?thesis by (simp add: isExpired_def op_triple_return)
next
  case (Some t)
  then show ?thesis unfolding isExpired_def option.case Some
    by (intro op_triple_bind [OF lease_now_triple] op_triple_return) (rule assms)
qed

text \<open>Writing a new snapshot of a known lease to the store and the memory moves both tables alike.\<close>

definition write_record :: "durable_lease_record \<Rightarrow> lease_manager \<Rightarrow> lease_manager" where
  "write_record r m = m\<lparr>lm_records := js_set (record_id r) r (lm_records m),
                        lm_store := log_append r (lm_store m), lm_writes := lm_writes m + 1\<rparr>"

lemma write_exec:
  "op_then (lease_store_append r) (op_then (set_record r) (op_return x)) m
     = (if lm_storeUp m (lm_writes m) then (Inr x, write_record r m)
        else (Inl LeaseStoreFailed, m\<lparr>lm_writes := lm_writes m + 1\<rparr>))"
  by (simp add: op_defs lease_store_append_def set_record_def write_record_def Let_def)

lemma replay_append:
  "replay record_id (log_append r h) = js_set (record_id r) r (replay record_id h)"
  by (rule snapshots.load_append)

lemma write_inv:
  assumes "lease_inv m" "table_ok (js_set (record_id r) (shape r) (shapes (lm_records m)))"
  shows "lease_inv (write_record r m)"
  using assms by (simp add: lease_inv_def write_record_def replay_append shapes_set)

lemma write_dropped:
  assumes "dropped_from sh m" "js_get (shapes (lm_records m)) (record_id r) = Some s"
    and "shape r = s\<lparr>ls_held := False\<rparr> \<or> shape r = s"
  shows "dropped_from sh (write_record r m)"
proof -
  let ?T = "shapes (lm_records m)"
  have ok: "table_ok ?T" using assms(1) unfolding dropped_from_def lease_inv_def by blast
  have "lease_drops ?T (js_set (record_id r) (shape r) ?T)"
    using assms(3)
  proof
    assume "shape r = s\<lparr>ls_held := False\<rparr>"
    then show ?thesis using lease_drop.drop [OF assms(2)] by simp
  next
    assume "shape r = s"
    then show ?thesis
      using js_set_get_same [OF assms(2) keyed_wf [OF table_ok_keyed [OF ok]]] by simp
  qed
  moreover from this have "table_ok (js_set (record_id r) (shape r) ?T)"
    using ok by (induction rule: rtranclp_induct) (auto intro: table_ok_drop)
  ultimately show ?thesis
    using assms(1) write_inv [of m r] unfolding dropped_from_def
    by (auto simp: write_record_def shapes_set)
qed

lemma known_current:
  assumes "known_in sh r" "dropped_from sh m"
  obtains s where "js_get (shapes (lm_records m)) (record_id r) = Some s"
    "s\<lparr>ls_held := False\<rparr> = (shape r)\<lparr>ls_held := False\<rparr>"
  using known_after_drops [OF assms(1)] assms(2) unfolding dropped_from_def known_in_def by blast

lemma released_shape: "shape (released_record now reason r) = (shape r)\<lparr>ls_held := False\<rparr>"
  by (simp add: shape_def released_record_def record_id_def held_def)

lemma record_id_updates [simp]:
  "record_id (released_record now reason r) = record_id r"
  "record_id (orphaned_record now r) = record_id r"
  "record_id (renewed_record now expires r) = record_id r"
  by (simp_all add: record_id_def released_record_def orphaned_record_def renewed_record_def)

lemma held_updates [simp]:
  "\<not> held (released_record now reason r)"
  "held (orphaned_record now r) = held r"
  by (simp_all add: held_def released_record_def orphaned_record_def)

lemma persistReleased_triple:
  assumes "known_in sh r"
  shows "op_triple (\<lambda>m. dropped_from sh m \<and> others (record_id r) f m) (persistReleased r reason)
           (\<lambda>x m. dropped_from sh m \<and> others (record_id r) f m
              \<and> (held r \<longrightarrow> js_get (lm_records m) (record_id r) = Some x \<and> \<not> held x)) (dropped_from sh)"
proof (rule op_tripleI)
  fix m
  assume pre: "dropped_from sh m \<and> others (record_id r) f m"
  let ?r = "released_record (lm_clock m (lm_ticks m)) reason r"
  let ?m = "m\<lparr>lm_ticks := lm_ticks m + 1\<rparr>"
  obtain s where s: "js_get (shapes (lm_records ?m)) (record_id ?r) = Some s"
    "shape ?r = s\<lparr>ls_held := False\<rparr>"
    using known_current [OF assms] pre released_shape by simp metis
  have "dropped_from sh (write_record ?r ?m)"
    by (rule write_dropped [OF _ s(1)]) (use pre s(2) in simp_all)
  moreover have "others (record_id r) f (write_record ?r ?m)"
    using pre by (simp add: others_def write_record_def js_lookup)
  moreover have "js_get (lm_records (write_record ?r ?m)) (record_id r) = Some ?r" "\<not> held ?r"
    by (simp_all add: write_record_def js_lookup)
  ultimately show "case persistReleased r reason m of
      (Inl e, t) \<Rightarrow> dropped_from sh t
    | (Inr x, t) \<Rightarrow> dropped_from sh t \<and> others (record_id r) f t
        \<and> (held r \<longrightarrow> js_get (lm_records t) (record_id r) = Some x \<and> \<not> held x)"
    using pre
    by (simp add: persistReleased_def op_bind_def [of lease_now] lease_now_def write_exec op_return_def)
qed

lemma persistReleased_dropped:
  assumes "known_in sh r"
  shows "op_triple (dropped_from sh) (persistReleased r reason) (\<lambda>_. dropped_from sh) (dropped_from sh)"
proof (rule op_triple_pointwise)
  fix m
  assume "dropped_from sh m"
  then show "op_triple (\<lambda>t. t = m) (persistReleased r reason) (\<lambda>_. dropped_from sh) (dropped_from sh)"
    by (intro op_triple_weaken
        [OF persistReleased_triple [OF assms, of "js_get (lm_records m)" reason]])
      (simp_all add: others_def)
qed

lemma known_in_record:
  "js_get (lm_records m) (record_id r) = Some r \<Longrightarrow> known_in (shapes (lm_records m)) r"
  by (simp add: known_in_def shapes_get)

lemma inv_table_ok: "lease_inv m \<Longrightarrow> table_ok (shapes (lm_records m))"
  unfolding lease_inv_def by blast

lemma inv_keyed:
  assumes "lease_inv m" shows "keyed record_id (lm_records m)"
proof -
  have "keyed ls_id (shapes (lm_records m))"
    using assms table_ok_keyed unfolding lease_inv_def by blast
  then show ?thesis
    by (auto simp: keyed_def js_wf_def shapes_def list_all_iff comp_def case_prod_beta)
qed

lemma inv_values:
  assumes "lease_inv m"
  shows "r \<in> set (js_values (lm_records m)) \<longleftrightarrow> js_get (lm_records m) (record_id r) = Some r"
  by (rule keyed_value [OF inv_keyed [OF assms]])

lemma inv_get_id: "lease_inv m \<Longrightarrow> js_get (lm_records m) i = Some r \<Longrightarrow> record_id r = i"
  using keyed_get [OF inv_keyed] .

lemma known_in_get:
  "lease_inv m \<Longrightarrow> js_get (lm_records m) i = Some r \<Longrightarrow> known_in (shapes (lm_records m)) r"
  by (rule known_in_record) (simp add: inv_get_id)

lemma dropped_self: "lease_inv m \<Longrightarrow> dropped_from (shapes (lm_records m)) m"
  by (simp add: dropped_from_def)

lemmas lease_triples =
  op_triple_return op_triple_throw op_triple_when persistReleased_dropped
  lease_now_triple isExpired_triple

lemma expire_one_triple:
  "known_in sh r \<Longrightarrow> op_triple (dropped_from sh) (expire_one key r) (\<lambda>_. dropped_from sh) (dropped_from sh)"
  unfolding expire_one_def
  by (auto intro!: lease_triples op_triple_bind [where R = "\<lambda>_. dropped_from sh"])

lemma expireKey_dropped:
  assumes "lease_inv m"
  shows "dropped_from (shapes (lm_records m)) (snd (expireKey key m))"
proof -
  let ?sh = "shapes (lm_records m)" and ?rs = "js_values (lm_records m)"
  have "known_in ?sh r" if "r \<in> set ?rs" for r
    using known_in_record inv_values [OF assms] that by blast
  then have "op_triple (dropped_from ?sh) (op_for (expire_one key) ?rs)
      (\<lambda>_. dropped_from ?sh) (dropped_from ?sh)"
    by (intro op_triple_for expire_one_triple)
  from op_triple_snd [OF this dropped_self [OF assms]] show ?thesis
    by (simp add: expireKey_def op_bind_def op_gets_def)
qed

lemma admit_same_triple:
  "op_triple (\<lambda>m. dropped_from sh m \<and> js_get (shapes (lm_records m)) (record_id r) = Some (shape r))
     (admit_record r) (\<lambda>_. dropped_from sh) (dropped_from sh)"
  by (auto simp: op_triple_def admit_record_def write_exec intro: write_dropped)

lemma validate_dropped:
  assumes "lease_inv m"
  shows "dropped_from (shapes (lm_records m)) (snd (lease_validate g m))"
proof (cases "js_get (lm_records m) (wl_leaseId (lg_lease g))")
  case None
  with dropped_self [OF assms] show ?thesis by (simp add: lease_validate_def op_defs)
next
  case (Some r)
  let ?sh = "shapes (lm_records m)"
  have known: "known_in ?sh r"
    by (rule known_in_get [OF assms Some])
  have "op_triple (dropped_from ?sh)
      (if \<not> grant_matches r g \<or> \<not> held r \<or> dl_orphanedAt r \<noteq> None then op_return False
       else op_bind (isExpired r) (\<lambda>expired.
         if expired then op_bind (persistReleased r ''expired during validation'') (\<lambda>_. op_return False)
         else op_gets (\<lambda>m. newest_fence (dl_canonicalKey r) m = dl_fencingToken r)))
      (\<lambda>_. dropped_from ?sh) (dropped_from ?sh)"
    using known
    by (auto intro!: lease_triples op_triple_gets op_triple_bind [where R = "\<lambda>_. dropped_from ?sh"])
  from op_triple_snd [OF this dropped_self [OF assms]] show ?thesis
    by (simp add: lease_validate_def op_bind_def [of "op_gets _"] op_gets_def Some)
qed

lemma release_dropped:
  assumes "lease_inv m"
  shows "dropped_from (shapes (lm_records m)) (snd (lease_release g m))"
proof (cases "js_get (lm_records m) (wl_leaseId (lg_lease g))")
  case None
  with dropped_self [OF assms] show ?thesis by (simp add: lease_release_def op_defs)
next
  case (Some r)
  let ?sh = "shapes (lm_records m)"
  have known: "known_in ?sh r"
    by (rule known_in_get [OF assms Some])
  have "op_triple (dropped_from ?sh)
      (op_bind (persistReleased r ''released by current owner'') (\<lambda>released. op_return (grant released)))
      (\<lambda>_. dropped_from ?sh) (dropped_from ?sh)"
    using known by (auto intro!: lease_triples op_triple_bind [where R = "\<lambda>_. dropped_from ?sh"])
  from op_triple_snd [OF this dropped_self [OF assms]] dropped_self [OF assms] show ?thesis
    by (simp add: lease_release_def op_bind_def [of "op_gets _"] op_gets_def Some op_throw_def
        op_return_def)
qed

lemma requireCurrent_cases:
  obtains (refused) e where "requireCurrent g m = (Inl e, m)"
  | (current) r where "requireCurrent g m = (Inr r, m)"
      "js_get (lm_records m) (wl_leaseId (lg_lease g)) = Some r" "grant_matches r g"
proof (cases "js_get (lm_records m) (wl_leaseId (lg_lease g))")
  case None
  then show thesis by (intro refused [of LeaseNotFound]) (simp add: requireCurrent_def)
next
  case (Some r)
  then show thesis
    by (cases "grant_matches r g")
      (auto intro: current [of r] refused [of StaleLease] simp: requireCurrent_def)
qed

lemma resolveOrphan_dropped:
  assumes "lease_inv m"
  shows "dropped_from (shapes (lm_records m)) (snd (resolveOrphan g ok m))"
proof (cases g m rule: requireCurrent_cases)
  case (refused e)
  with dropped_self [OF assms] show ?thesis by (simp add: resolveOrphan_def op_bind_def)
next
  case (current r)
  let ?sh = "shapes (lm_records m)"
  have known: "known_in ?sh r"
    by (rule known_in_get [OF assms current(2)])
  have "op_triple (dropped_from ?sh)
      (op_bind (persistReleased r ''orphan manually resolved after operator verification'')
         (\<lambda>released. op_return (grant released)))
      (\<lambda>_. dropped_from ?sh) (dropped_from ?sh)"
    using known by (auto intro!: lease_triples op_triple_bind [where R = "\<lambda>_. dropped_from ?sh"])
  from op_triple_snd [OF this dropped_self [OF assms]] dropped_self [OF assms] show ?thesis
    by (simp add: resolveOrphan_def op_bind_def [of "requireCurrent g"] current(1) op_throw_def)
qed

lemma renewed_shape: "shape (renewed_record now expires r) = shape r"
  by (simp add: shape_def renewed_record_def record_id_def held_def)

lemma iso_date_triple: "(\<And>m. P m \<Longrightarrow> E m) \<Longrightarrow> op_triple P (iso_date ms) (\<lambda>_. P) E"
  by (auto simp: iso_date_def intro: op_triple_return op_triple_throw)

lemma renew_dropped:
  assumes "lease_inv m"
  shows "dropped_from (shapes (lm_records m)) (snd (lease_renew env g ttl m))"
proof (cases g m rule: requireCurrent_cases)
  case (refused e)
  with dropped_self [OF assms] show ?thesis
    by (simp add: lease_renew_def op_defs Let_def)
next
  case (current r)
  let ?sh = "shapes (lm_records m)"
  let ?P = "\<lambda>m. dropped_from ?sh m \<and> js_get (shapes (lm_records m)) (record_id r) = Some (shape r)"
  have known: "known_in ?sh r"
    by (rule known_in_get [OF assms current(2)])
  have start: "?P m"
    using dropped_self [OF assms] inv_get_id [OF assms current(2)] current(2)
    by (simp add: shapes_get)
  have refuse: "op_triple ?P (refuse_renewal r) (\<lambda>_. dropped_from ?sh) (dropped_from ?sh)"
    unfolding refuse_renewal_def op_then_def using known
    by (auto intro!: lease_triples op_triple_bind [where R = "\<lambda>_. dropped_from ?sh"]
        intro: op_triple_weaken [OF isExpired_triple [where P = "dropped_from ?sh"]])
  have extend: "op_triple ?P
      (op_bind lease_now (\<lambda>now. op_bind (iso_date (now + t)) (\<lambda>expires.
         admit_record (renewed_record now expires r)))) (\<lambda>_. dropped_from ?sh) (dropped_from ?sh)" for t
    using admit_same_triple [of ?sh "renewed_record now expires r" for now expires]
    by (auto simp: renewed_shape intro!: op_triple_bind [where R = "\<lambda>_. ?P"] lease_now_triple iso_date_triple)
  have "op_triple ?P
      (op_bind (if dl_orphanedAt r \<noteq> None then op_return True else isExpired r) (\<lambda>refused.
         if refused then refuse_renewal r
         else op_bind lease_now (\<lambda>now. op_bind (iso_date (now + t)) (\<lambda>expires.
                admit_record (renewed_record now expires r)))))
      (\<lambda>_. dropped_from ?sh) (dropped_from ?sh)" for t
    using refuse extend
    by (auto intro!: op_triple_bind [where R = "\<lambda>_. ?P"] op_triple_return isExpired_triple)
  from op_triple_snd [OF this start, of "or_default ttl (default_ttl env)"] dropped_self [OF assms]
  show ?thesis
    by (auto simp: lease_renew_def Let_def op_then_def op_when_def op_throw_def op_return_def
        op_bind_def [of "requireCurrent g"] current(1) op_bind_def [of "op_return ()"]
        op_bind_def [of "op_throw _"])
qed

subsection \<open>Recovery\<close>

definition current :: "lease_manager \<Rightarrow> durable_lease_record \<Rightarrow> bool" where
  "current m r = (js_get (lm_records m) (record_id r) = Some r)"

definition held_at :: "lease_manager \<Rightarrow> ident \<Rightarrow> bool" where
  "held_at m i = (case js_get (lm_records m) i of None \<Rightarrow> False | Some r \<Rightarrow> held r)"

definition no_live_at :: "lease_manager \<Rightarrow> ident \<Rightarrow> bool" where
  "no_live_at m i =
     (case js_get (lm_records m) i of None \<Rightarrow> False | Some r \<Rightarrow> held r \<longrightarrow> dl_orphanedAt r \<noteq> None)"

definition recovered_one :: "ident \<Rightarrow> orphan_evidence list \<Rightarrow> lease_manager \<Rightarrow> bool" where
  "recovered_one i ev m =
     (no_live_at m i \<and> map oe_leaseId ev = (if held_at m i then [i] else []))"

lemma orphaned_shape: "shape (orphaned_record now r) = shape r"
  by (simp add: shape_def orphaned_record_def record_id_def held_def)

lemma dropped_cong:
  "dropped_from sh m \<Longrightarrow> shapes (lm_records m') = shapes (lm_records m) \<Longrightarrow> lm_store m' = lm_store m \<Longrightarrow>
     dropped_from sh m'"
  unfolding dropped_from_def lease_inv_def by metis

lemma orphan_exec:
  "op_then (set_record r) (op_then (lease_store_append r) (op_return x)) m
     = (if lm_storeUp m (lm_writes m) then (Inr x, write_record r m)
        else (Inl LeaseStoreFailed,
              (m\<lparr>lm_records := js_set (record_id r) r (lm_records m)\<rparr>)\<lparr>lm_writes := lm_writes m + 1\<rparr>))"
  by (simp add: op_defs lease_store_append_def set_record_def write_record_def Let_def)

lemma orphan_write:
  assumes "dropped_from sh m" "current m r"
  shows "dropped_from sh (m\<lparr>lm_records := js_set (record_id r) (orphaned_record now r) (lm_records m)\<rparr>)"
    and "dropped_from sh (write_record (orphaned_record now r) m)"
proof -
  have s: "js_get (shapes (lm_records m)) (record_id r) = Some (shape r)"
    using assms(2) by (simp add: current_def shapes_get)
  have wf: "js_wf (shapes (lm_records m))"
    using assms(1) table_ok_keyed keyed_wf unfolding dropped_from_def lease_inv_def by blast
  let ?m = "m\<lparr>lm_records := js_set (record_id r) (orphaned_record now r) (lm_records m)\<rparr>"
  have "shapes (lm_records ?m) = shapes (lm_records m)" "lm_store ?m = lm_store m"
    using js_set_get_same [OF s wf] by (simp_all add: shapes_set orphaned_shape)
  then show "dropped_from sh ?m" by (rule dropped_cong [OF assms(1)])
  show "dropped_from sh (write_record (orphaned_record now r) m)"
    by (rule write_dropped [OF assms(1), of _ "shape r"]) (simp_all add: s orphaned_shape)
qed

lemma recover_one_triple:
  assumes known: "known_in sh r"
  shows "op_triple (\<lambda>m. dropped_from sh m \<and> current m r \<and> others (record_id r) f m) (recover_one r)
           (\<lambda>ev m. dropped_from sh m \<and> others (record_id r) f m \<and> recovered_one (record_id r) ev m)
           (dropped_from sh)"
    (is "op_triple ?P _ ?Q _")
proof (cases "held r")
  case False
  then show ?thesis
    by (auto simp: recover_one_def current_def recovered_one_def no_live_at_def held_at_def
        intro: op_triple_return)
next
  case True
  have expire: "op_triple ?P
      (op_bind (persistReleased r ''expired during startup recovery'') (\<lambda>_. op_return [])) ?Q (dropped_from sh)"
    by (rule op_triple_bind
        [OF op_triple_weaken [OF persistReleased_triple [OF known, of f]] op_triple_return])
      (auto simp: True recovered_one_def no_live_at_def held_at_def)
  have keep: "op_triple ?P (op_return [evidence_of r] :: (orphan_evidence list) lease_op) ?Q (dropped_from sh)" if "dl_orphanedAt r \<noteq> None"
    using that
    by (auto simp: True current_def recovered_one_def no_live_at_def held_at_def evidence_of_def
        intro!: op_triple_return)
  have orphan: "op_triple ?P
      (op_bind lease_now (\<lambda>now.
         op_then (set_record (orphaned_record now r))
           (op_then (lease_store_append (orphaned_record now r))
              (op_return [evidence_of (orphaned_record now r)])))) ?Q (dropped_from sh)"
  proof (rule op_tripleI)
    fix m
    assume pre: "?P m"
    let ?m = "m\<lparr>lm_ticks := lm_ticks m + 1\<rparr>" and ?r = "orphaned_record (lm_clock m (lm_ticks m)) r"
    have pre': "dropped_from sh ?m" "current ?m r" using pre by (simp_all add: current_def)
    note w = orphan_write [OF pre', of "lm_clock m (lm_ticks m)"]
    have ok: "recovered_one (record_id r) [evidence_of ?r] (write_record ?r ?m)"
      by (simp add: recovered_one_def no_live_at_def held_at_def write_record_def js_lookup
          evidence_of_def True) (simp add: orphaned_record_def)
    have oth: "others (record_id r) f (write_record ?r ?m)"
      using pre by (simp add: others_def write_record_def js_lookup)
    show "case op_bind lease_now (\<lambda>now. op_then (set_record (orphaned_record now r))
        (op_then (lease_store_append (orphaned_record now r))
          (op_return [evidence_of (orphaned_record now r)]))) m of
        (Inl e, t) \<Rightarrow> dropped_from sh t | (Inr x, t) \<Rightarrow> ?Q x t"
      using w ok oth
      by (simp add: op_bind_def [of lease_now] lease_now_def orphan_exec)
  qed
  have split: "op_triple ?P (if expired then op_bind (persistReleased r ''expired during startup recovery'') (\<lambda>_. op_return [])
      else if dl_orphanedAt r \<noteq> None then op_return [evidence_of r]
      else op_bind lease_now (\<lambda>now. op_then (set_record (orphaned_record now r))
         (op_then (lease_store_append (orphaned_record now r))
              (op_return [evidence_of (orphaned_record now r)])))) ?Q (dropped_from sh)" for expired
    using expire keep orphan by (cases "dl_orphanedAt r = None") simp_all
  have "op_triple ?P (isExpired r) (\<lambda>_. ?P) (dropped_from sh)"
    by (rule isExpired_triple) (simp add: current_def)
  then show ?thesis
    unfolding recover_one_def using True split by (simp add: op_triple_bind)
qed

text \<open>The records outside a set of leases, as a frame of the whole loop.\<close>

definition outside :: "ident set \<Rightarrow> (ident \<Rightarrow> durable_lease_record option) \<Rightarrow> lease_manager \<Rightarrow> bool" where
  "outside I f m = (\<forall>j. j \<notin> I \<longrightarrow> js_get (lm_records m) j = f j)"

definition recovered_all :: "ident list \<Rightarrow> orphan_evidence list \<Rightarrow> lease_manager \<Rightarrow> bool" where
  "recovered_all ids ev m = (list_all (no_live_at m) ids \<and> map oe_leaseId ev = filter (held_at m) ids)"

lemma recovered_frame:
  "js_get (lm_records m') i = js_get (lm_records m) i \<Longrightarrow> recovered_one i ev m' = recovered_one i ev m"
  by (simp add: recovered_one_def no_live_at_def held_at_def)

lemma recover_loop_triple:
  assumes "distinct (map record_id rs)" "list_all (known_in sh) rs"
  shows "op_triple (\<lambda>m. dropped_from sh m \<and> list_all (current m) rs \<and> outside (record_id ` set rs) f m)
           (recover_loop rs)
           (\<lambda>ev m. dropped_from sh m \<and> outside (record_id ` set rs) f m \<and> recovered_all (map record_id rs) ev m)
           (dropped_from sh)"
  using assms
proof (induction rs arbitrary: f)
  case Nil
  then show ?case by (auto simp: recovered_all_def intro: op_triple_return)
next
  case (Cons r rs)
  let ?I = "record_id ` set rs" and ?i = "record_id r"
  let ?Q = "\<lambda>ev m. dropped_from sh m \<and> outside (record_id ` set (r # rs)) f m
              \<and> recovered_all (map record_id (r # rs)) ev m"
  have fresh: "?i \<notin> ?I" using Cons.prems by auto
  have tail: "op_triple (\<lambda>m. dropped_from sh m \<and> list_all (current m) rs \<and> outside ?I g m
        \<and> (\<forall>j. j \<notin> insert ?i ?I \<longrightarrow> g j = f j) \<and> js_get (lm_records m) ?i = g ?i \<and> recovered_one ?i found m)
      (op_bind (recover_loop rs) (\<lambda>more. op_return (found @ more))) ?Q (dropped_from sh)" (is "op_triple ?P _ _ _")
    for g found
  proof (rule op_triple_pointwise)
    fix m
    assume m: "?P m"
    let ?R = "\<lambda>ev m'. dropped_from sh m' \<and> outside ?I g m' \<and> recovered_all (map record_id rs) ev m'"
    have run: "op_triple (\<lambda>t. t = m) (recover_loop rs) ?R (dropped_from sh)"
      by (rule op_triple_weaken [OF Cons.IH [of g]]) (use Cons.prems m in auto)
    have "?Q (found @ more) m'" if "?R more m'" for more m'
    proof -
      have "js_get (lm_records m') ?i = js_get (lm_records m) ?i"
        using that m fresh by (simp add: outside_def)
      then have "recovered_one ?i found m'" using m recovered_frame by blast
      then show ?thesis
        using that m by (auto simp: recovered_one_def recovered_all_def outside_def split: if_splits)
    qed
    then show "op_triple (\<lambda>t. t = m) (op_bind (recover_loop rs) (\<lambda>more. op_return (found @ more))) ?Q (dropped_from sh)"
      by (intro op_triple_bind [OF run] op_triple_return)
  qed
  show ?case
  proof (rule op_triple_pointwise)
    fix m
    assume m: "dropped_from sh m \<and> list_all (current m) (r # rs) \<and> outside (record_id ` set (r # rs)) f m"
    let ?f = "js_get (lm_records m)"
    have one: "op_triple (\<lambda>t. t = m) (recover_one r)
        (\<lambda>ev m'. dropped_from sh m' \<and> others ?i ?f m' \<and> recovered_one ?i ev m') (dropped_from sh)"
      by (rule op_triple_weaken [OF recover_one_triple [of sh r ?f]])
        (use Cons.prems m in \<open>auto simp: others_def\<close>)
    have step: "\<exists>g. dropped_from sh m' \<and> list_all (current m') rs \<and> outside ?I g m'
        \<and> (\<forall>j. j \<notin> insert ?i ?I \<longrightarrow> g j = f j) \<and> js_get (lm_records m') ?i = g ?i \<and> recovered_one ?i ev m'"
      if "dropped_from sh m' \<and> others ?i ?f m' \<and> recovered_one ?i ev m'" for ev m'
    proof (intro exI [of _ "js_get (lm_records m')"] conjI)
      show "list_all (current m') rs"
        using that m fresh by (auto simp: others_def current_def list_all_iff image_iff)
      show "\<forall>j. j \<notin> insert ?i ?I \<longrightarrow> js_get (lm_records m') j = f j"
        using that m by (auto simp: others_def outside_def)
    qed (use that in \<open>auto simp: outside_def\<close>)
    show "op_triple (\<lambda>t. t = m) (recover_loop (r # rs)) ?Q (dropped_from sh)"
      unfolding recover_loop.simps
      by (rule op_triple_bind [OF op_triple_weaken [OF one] op_triple_ex [OF tail]])
        (assumption | rule step)+
  qed
qed

lemma fold_set_values:
  "keyed f m \<Longrightarrow> set (js_keys m) \<inter> set (js_keys acc) = {} \<Longrightarrow>
     fold (\<lambda>r. js_set (f r) r) (js_values m) acc = acc @ m"
proof (induction m arbitrary: acc)
  case (Cons p m)
  obtain k v where p: "p = (k, v)" by fastforce
  have "f v = k" "keyed f m" "k \<notin> set (js_keys m)" "js_set k v acc = acc @ [(k, v)]"
    using Cons.prems by (auto simp: p keyed_def js_wf_def js_set_fresh)
  moreover have "set (js_keys m) \<inter> set (js_keys (acc @ [(k, v)])) = {}"
    using Cons.prems by (auto simp: p keyed_def js_wf_def)
  ultimately show ?case using Cons.IH [of "acc @ [(k, v)]"] by (simp add: p)
qed simp

lemma op_for_set_record:
  "op_for set_record rs m
     = (Inr (), m\<lparr>lm_records := fold (\<lambda>r. js_set (record_id r) r) rs (lm_records m)\<rparr>)"
  by (induction rs arbitrary: m) (simp_all add: op_defs set_record_def)

lemma lease_recover_exec:
  "lease_recover m =
     recover_loop (js_values (replay record_id (lm_store m)))
       (m\<lparr>lm_records := replay record_id (lm_store m)\<rparr>)"
  using fold_set_values [OF replay_keyed [of record_id "lm_store m"], of "[]"]
  by (simp add: lease_recover_def op_then_def op_bind_def op_modify_def lease_store_load_def
      op_for_set_record op_gets_def)

lemma recover_triple:
  assumes "lease_inv m"
  shows "op_triple (\<lambda>t. t = m) lease_recover
    (\<lambda>ev m'. dropped_from (shapes (lm_records m)) m' \<and> recovered_all (js_keys (lm_records m')) ev m')
    (dropped_from (shapes (lm_records m)))"
proof -
  let ?R = "replay record_id (lm_store m)" and ?sh = "shapes (lm_records m)"
  let ?m = "m\<lparr>lm_records := ?R\<rparr>"
  have sh: "shapes ?R = ?sh" using assms by (simp add: lease_inv_def)
  then have inv: "lease_inv ?m" using assms by (simp add: lease_inv_def)
  have ids: "map record_id (js_values ?R) = js_keys ?R"
    using replay_keyed [of record_id "lm_store m"] by (auto simp: keyed_def list_all_iff)
  have keys: "js_keys (shapes r) = js_keys r" for r
    by (simp add: shapes_def comp_def case_prod_beta)
  have get: "js_get ?R (record_id r) = Some r" if "r \<in> set (js_values ?R)" for r
    using that keyed_value [OF replay_keyed [of record_id "lm_store m"], of r] by blast
  have known: "list_all (known_in ?sh) (js_values ?R)"
    using get known_in_record [of ?m] by (simp add: list_all_iff sh)
  have dist: "distinct (map record_id (js_values ?R))"
    unfolding ids using replay_keyed [of record_id "lm_store m"] by (simp add: keyed_def js_wf_def)
  have cur: "list_all (current ?m) (js_values ?R)"
    using get by (simp add: list_all_iff current_def)
  have "dropped_from ?sh ?m" using dropped_self [OF inv] by (simp add: sh)
  with cur have pre: "dropped_from ?sh ?m \<and> list_all (current ?m) (js_values ?R)
      \<and> outside (record_id ` set (js_values ?R)) (js_get ?R) ?m"
    by (simp add: outside_def)
  have "op_triple (\<lambda>t. t = ?m) (recover_loop (js_values ?R))
      (\<lambda>ev m'. dropped_from ?sh m' \<and> recovered_all (js_keys ?R) ev m') (dropped_from ?sh)"
    by (rule op_triple_weaken [OF recover_loop_triple [OF dist known, of "js_get ?R"]])
      (use pre in \<open>simp_all add: ids del: set_map map_map\<close>)
  then have "op_triple (\<lambda>t. t = m) lease_recover
      (\<lambda>ev m'. dropped_from ?sh m' \<and> recovered_all (js_keys ?R) ev m') (dropped_from ?sh)"
    by (simp add: op_triple_def lease_recover_exec)
  moreover have "js_keys (lm_records m') = js_keys ?R" if "dropped_from ?sh m'" for m'
    using drop_dom [of ?sh "shapes (lm_records m')"] that keys sh
    unfolding dropped_from_def by metis
  ultimately show ?thesis
    by (auto elim!: op_triple_weaken)
qed

subsection \<open>Acquisition\<close>

definition free_for :: "lease_access \<Rightarrow> string \<Rightarrow> lease_manager \<Rightarrow> bool" where
  "free_for access key m =
     (\<forall>r \<in> set (active_records key m). access = ReadOnly \<and> dl_access r = ReadOnly)"

definition admitted :: "lease_table \<Rightarrow> durable_lease_record \<Rightarrow> lease_manager \<Rightarrow> bool" where
  "admitted sh r m =
     (lease_inv m \<and> js_get (lm_records m) (record_id r) = Some r
      \<and> (\<exists>sh1. lease_drops sh sh1 \<and> admissible (shape r) sh1
               \<and> shapes (lm_records m) = js_set (record_id r) (shape r) sh1))"

lemma fold_max_ge: "x \<in> set xs \<Longrightarrow> x \<le> fold max xs (a :: nat)" "a \<le> fold max xs (a :: nat)"
proof -
  show base: "a \<le> fold max xs a" for a :: nat and xs
  proof (induction xs arbitrary: a)
    case (Cons y ys)
    have "a \<le> max y a" by simp
    also have "\<dots> \<le> fold max ys (max y a)" by (rule Cons.IH)
    finally show ?case by simp
  qed simp
  show "x \<in> set xs \<Longrightarrow> x \<le> fold max xs a"
  proof (induction xs arbitrary: a)
    case (Cons y ys)
    have "y \<le> fold max ys (max y a)" using base [of "max y a" ys] by simp
    with Cons show ?case by auto
  qed simp
qed

lemma fold_max_in: "fold max xs (a :: nat) \<in> insert a (set xs)"
proof (induction xs arbitrary: a)
  case (Cons y ys)
  from Cons [of "max y a"] show ?case by (auto simp: max_def split: if_splits)
qed simp

lemma newest_fence_ge: "r \<in> set (records_of_key key m) \<Longrightarrow> dl_fencingToken r \<le> newest_fence key m"
  unfolding newest_fence_def by (rule fold_max_ge(1)) simp

lemma shapes_record:
  assumes "lease_inv m" "js_get (shapes (lm_records m)) i = Some b"
  obtains r where "js_get (lm_records m) i = Some r" "b = shape r" "record_id r = i"
    "r \<in> set (records_of_key (ls_key b) m)"
proof -
  from assms(2) obtain r where r: "js_get (lm_records m) i = Some r" "b = shape r"
    by (auto simp: shapes_get)
  moreover have id: "record_id r = i" using inv_get_id [OF assms(1) r(1)] .
  moreover have "r \<in> set (js_values (lm_records m))" using inv_values [OF assms(1)] r id by blast
  ultimately show thesis
    using that by (simp add: records_of_key_def shape_def del: set_map)
qed

lemma admissible_new:
  assumes "lease_inv m" "free_for access key m" "dl_canonicalKey r = key" "dl_access r = access"
    and "dl_fencingToken r = newest_fence key m + 1"
  shows "admissible (shape r) (shapes (lm_records m))"
  unfolding admissible_def
proof (intro allI impI)
  fix i b
  assume b: "js_get (shapes (lm_records m)) i = Some b \<and> ls_key b = ls_key (shape r)"
  then obtain c where c: "b = shape c" "c \<in> set (records_of_key (ls_key b) m)"
    using shapes_record [OF assms(1)] by metis
  have key: "ls_key b = key" using b assms(3) by (simp add: shape_def)
  have "overlap_ok (shape r) b"
    using c assms(2,4) key
    by (auto simp: overlap_ok_def free_for_def active_records_def shape_def)
  moreover have "dl_fencingToken c \<le> newest_fence key m"
    using newest_fence_ge c(2) key by simp
  ultimately show "ls_token b < ls_token (shape r) \<and> overlap_ok (shape r) b"
    using assms(5) c(1) by (simp add: shape_def)
qed

lemma admit_record_triple:
  assumes "dl_canonicalKey r = key" "dl_access r = access" "dl_fencingToken r = n + 1"
  shows "op_triple (\<lambda>m. dropped_from sh m \<and> free_for access key m \<and> n = newest_fence key m)
     (admit_record r) (\<lambda>g m. admitted sh r m \<and> g = grant r) (dropped_from sh)"
proof (rule op_tripleI)
  fix m
  assume m: "dropped_from sh m \<and> free_for access key m \<and> n = newest_fence key m"
  then have inv: "lease_inv m" by (simp add: dropped_from_def)
  have adm: "admissible (shape r) (shapes (lm_records m))"
    by (rule admissible_new [OF inv]) (use m assms in auto)
  have "table_ok (js_set (record_id r) (shape r) (shapes (lm_records m)))"
    using table_ok_admit [OF inv_table_ok [OF inv] adm] by simp
  from write_inv [OF inv this] have "lease_inv (write_record r m)" .
  with adm m have "admitted sh r (write_record r m)"
    unfolding admitted_def dropped_from_def
    by (auto simp: write_record_def js_lookup shapes_set)
  with m show "case admit_record r m of (Inr x, t) \<Rightarrow> admitted sh r t \<and> x = grant r
      | (Inl e, t) \<Rightarrow> dropped_from sh t"
    by (simp add: admit_record_def write_exec)
qed

lemma check_conflict_triple:
  "op_triple (dropped_from sh) (check_conflict access key)
     (\<lambda>_ m. dropped_from sh m \<and> free_for access key m) (dropped_from sh)"
  by (auto simp: op_triple_def check_conflict_def free_for_def intro: lease_access.exhaust)

lemma counters_frame [simp]:
  "free_for access key (m\<lparr>lm_ticks := n\<rparr>) = free_for access key m"
  "newest_fence key (m\<lparr>lm_ticks := n\<rparr>) = newest_fence key m"
  by (simp_all add: free_for_def active_records_def records_of_key_def newest_fence_def)

lemma lease_owner_triple: "(\<And>m. P m \<Longrightarrow> E m) \<Longrightarrow> op_triple P (lease_owner env q) (\<lambda>_. P) E"
  by (auto simp: lease_owner_def split: option.split intro: op_triple_return op_triple_throw)

lemma canonicalize_triple: "(\<And>m. P m \<Longrightarrow> E m) \<Longrightarrow> op_triple P (canonicalize env p) (\<lambda>_. P) E"
  by (auto simp: canonicalize_def split: option.split intro: op_triple_return op_triple_throw)

lemma guard_triple: "(\<And>m. P m \<Longrightarrow> E m) \<Longrightarrow> op_triple P (op_when b (op_throw e)) (\<lambda>_. P) E"
  by (auto intro: op_triple_when op_triple_throw)

lemma expireKey_triple:
  assumes "lease_inv m"
  shows "op_triple (\<lambda>t. t = m) (expireKey key)
    (\<lambda>_. dropped_from (shapes (lm_records m))) (dropped_from (shapes (lm_records m)))"
  by (rule op_triple_run) (rule expireKey_dropped [OF assms])

lemma acquired_fields [simp]:
  "record_id (acquired_record (acquired_lease lid repo tree q now expires) access repo tree key n owner now) = lid"
  "held (acquired_record (acquired_lease lid repo tree q now expires) access repo tree key n owner now)"
  "dl_canonicalKey (acquired_record l access repo tree key n owner now) = key"
  "dl_access (acquired_record l access repo tree key n owner now) = access"
  "dl_fencingToken (acquired_record l access repo tree key n owner now) = n"
  "dl_orphanedAt (acquired_record l access repo tree key n owner now) = None"
  "dl_lease (acquired_record l access repo tree key n owner now) = l"
  by (simp_all add: record_id_def held_def acquired_record_def acquired_lease_def)

definition acquired_post :: "lease_table \<Rightarrow> ident \<Rightarrow> acquire_lease_request \<Rightarrow> lease_grant \<Rightarrow> lease_manager \<Rightarrow> bool" where
  "acquired_post sh lid q g m =
     (\<exists>r. admitted sh r m \<and> g = grant r \<and> record_id r = lid \<and> held r \<and> dl_access r = aq_access q
          \<and> dl_orphanedAt r = None)"

lemma acquire_triple:
  assumes "lease_inv m"
  shows "op_triple (\<lambda>t. t = m) (lease_acquire env lid q)
    (acquired_post (shapes (lm_records m)) lid q) (dropped_from (shapes (lm_records m)))"
proof -
  let ?sh = "shapes (lm_records m)" and ?a = "aq_access q"
  let ?D = "dropped_from ?sh"
  let ?F = "\<lambda>key n t. ?D t \<and> free_for ?a key t \<and> n = newest_fence key t"
  have start: "\<And>t. t = m \<Longrightarrow> ?D t" using dropped_self [OF assms] by simp
  have final: "op_triple (?F key n)
      (admit_record (acquired_record (acquired_lease lid repo tree q now expires) ?a repo tree key (n + 1) owner now))
      (acquired_post ?sh lid q) ?D" for key n repo tree now expires owner
    by (rule op_triple_weaken [OF admit_record_triple [of _ key ?a n]])
      (auto simp: acquired_post_def)
  have fenced: "op_triple (?F key n) (op_bind lease_now (\<lambda>now.
      op_bind (iso_date (now + ttl)) (\<lambda>expires.
        let l = acquired_lease lid repo tree q now expires in
        op_then (op_when (\<not> le_leaseValid env l) (op_throw LeaseSchemaRejected))
          (admit_record (acquired_record l ?a repo tree key (n + 1) owner now)))))
      (acquired_post ?sh lid q) ?D" for key n ttl repo tree owner
    unfolding Let_def
    by (rule op_triple_bind [OF lease_now_triple] op_triple_bind [OF iso_date_triple]
        op_triple_then [OF guard_triple] final | simp)+
  have "op_triple (\<lambda>t. t = m) (op_then (expireKey key)
     (op_then (check_conflict ?a key)
     (op_bind (op_gets (newest_fence key)) (\<lambda>newest.
     op_bind lease_now (\<lambda>now.
     op_bind (iso_date (now + ttl)) (\<lambda>expires.
     let l = acquired_lease lid repo tree q now expires in
     op_then (op_when (\<not> le_leaseValid env l) (op_throw LeaseSchemaRejected))
       (admit_record (acquired_record l ?a repo tree key (newest + 1) owner now))))))))
     (acquired_post ?sh lid q) ?D" for key ttl repo tree owner
    by (rule op_triple_then [OF expireKey_triple [OF assms]] op_triple_then [OF check_conflict_triple]
        op_triple_bind [OF op_triple_gets fenced] | simp)+
  then show ?thesis
    unfolding lease_acquire_def Let_def
    by (intro op_triple_bind [OF lease_owner_triple] op_triple_then [OF guard_triple]
        op_triple_bind [OF canonicalize_triple]) (auto intro: start)
qed

subsection \<open>Runs\<close>

lemma dropped_inv: "dropped_from sh m \<Longrightarrow> lease_inv m"
  by (simp add: dropped_from_def)

lemma acquired_inv: "acquired_post sh lid q g m \<Longrightarrow> lease_inv m"
  by (auto simp: acquired_post_def admitted_def)

lemma other_step_dropped:
  assumes "lease_inv m" "\<And>lid q. c \<noteq> CallAcquire lid q"
  shows "dropped_from (shapes (lm_records m)) (lease_step env c m)"
proof (cases c)
  case CallRecover
  have "op_triple (\<lambda>t. t = m) lease_recover
      (\<lambda>_. dropped_from (shapes (lm_records m))) (dropped_from (shapes (lm_records m)))"
    by (rule op_triple_weaken [OF recover_triple [OF assms(1)]]) simp_all
  from op_triple_snd [OF this] show ?thesis by (simp add: CallRecover)
qed (use assms in \<open>simp_all add: validate_dropped release_dropped resolveOrphan_dropped renew_dropped\<close>)

lemma acquire_cases:
  assumes "lease_inv m"
  obtains (refused) e where "fst (lease_acquire env lid q m) = Inl e"
      "dropped_from (shapes (lm_records m)) (snd (lease_acquire env lid q m))"
  | (granted) g where "fst (lease_acquire env lid q m) = Inr g"
      "acquired_post (shapes (lm_records m)) lid q g (snd (lease_acquire env lid q m))"
proof (cases "lease_acquire env lid q m")
  case (Pair res m')
  then show thesis
    using acquire_triple [OF assms, of env lid q] that
    by (cases res) (auto simp: op_triple_def)
qed

lemma lease_step_inv: "lease_inv m \<Longrightarrow> lease_inv (lease_step env c m)"
proof (cases "\<exists>lid q. c = CallAcquire lid q")
  case True
  then obtain lid q where c: "c = CallAcquire lid q" by blast
  assume "lease_inv m"
  then show ?thesis
    by (cases rule: acquire_cases [of m env lid q]) (auto simp: c dest: dropped_inv acquired_inv)
next
  case False
  then show "lease_inv m \<Longrightarrow> ?thesis" using other_step_dropped dropped_inv by blast
qed

interpretation leases: stepping "lease_step env" lease_inv for env
  by unfold_locales (rule lease_step_inv)

lemma new_manager_inv: "new_manager env [] clock up = Inr m \<Longrightarrow> lease_inv m"
  by (auto simp: new_manager_def lease_inv_def replay_def shapes_def table_ok_def split: if_splits)

lemma reachable_inv:
  "new_manager env [] clock up = Inr m0 \<Longrightarrow> lease_inv (fold (lease_step env) calls m0)"
  using leases.run_inv new_manager_inv by blast

text \<open>The tokens granted for one target along a run, and the ids its acquisitions use.\<close>

primrec fences_granted :: "lease_env \<Rightarrow> string \<Rightarrow> lease_call list \<Rightarrow> lease_manager \<Rightarrow> nat list" where
  "fences_granted env key [] m = []"
| "fences_granted env key (c # cs) m =
     (case c of
        CallAcquire lid q \<Rightarrow>
          (case fst (lease_acquire env lid q m) of
             Inr g \<Rightarrow> (if lg_canonicalKey g = key then [lg_fencingToken g] else [])
           | Inl e \<Rightarrow> [])
      | _ \<Rightarrow> [])
     @ fences_granted env key cs (lease_step env c m)"

fun acquire_ids :: "lease_call list \<Rightarrow> ident list" where
  "acquire_ids [] = []"
| "acquire_ids (CallAcquire lid q # cs) = lid # acquire_ids cs"
| "acquire_ids (_ # cs) = acquire_ids cs"

text \<open>Some lease of the target carries a token at least as large.\<close>

definition issued :: "string \<Rightarrow> lease_table \<Rightarrow> nat \<Rightarrow> bool" where
  "issued key sh t = (\<exists>i s. js_get sh i = Some s \<and> ls_key s = key \<and> t \<le> ls_token s)"

lemma shape_held_eq:
  "s\<lparr>ls_held := False\<rparr> = (s' :: lease_shape)\<lparr>ls_held := False\<rparr> \<Longrightarrow>
     ls_id s = ls_id s' \<and> ls_key s = ls_key s' \<and> ls_token s = ls_token s' \<and> ls_access s = ls_access s'"
  by (cases s; cases s') simp

lemma issued_drops: "lease_drops sh sh' \<Longrightarrow> issued key sh t \<Longrightarrow> issued key sh' t"
  unfolding issued_def using drop_get shape_held_eq by metis

lemma issued_admit:
  "issued key sh t \<Longrightarrow> js_get sh i = None \<Longrightarrow> issued key (js_set i s sh) t"
  unfolding issued_def by (metis js.get_put option.distinct(1))

lemma drops_fresh: "lease_drops sh sh' \<Longrightarrow> js_get sh' i = None \<longleftrightarrow> js_get sh i = None"
  using drop_dom js.keys_get by metis

lemma fences_increase:
  assumes "lease_inv m" "\<And>t. t \<in> set ts \<Longrightarrow> issued key (shapes (lm_records m)) t"
    and "distinct (acquire_ids cs)"
    and "\<And>i. i \<in> set (acquire_ids cs) \<Longrightarrow> js_get (shapes (lm_records m)) i = None"
  shows "sorted_wrt (<) (fences_granted env key cs m)
    \<and> (\<forall>t \<in> set ts. \<forall>u \<in> set (fences_granted env key cs m). t < u)"
  using assms
proof (induction cs arbitrary: m ts)
  case (Cons c cs)
  let ?m = "lease_step env c m"
  have inv: "lease_inv ?m" using lease_step_inv Cons.prems(1) .
  have sub: "distinct (acquire_ids cs)" "set (acquire_ids cs) \<subseteq> set (acquire_ids (c # cs))"
    using Cons.prems(3) by (cases c; auto)+
  have quiet: ?case
    if d: "dropped_from (shapes (lm_records m)) ?m"
      and none: "fences_granted env key (c # cs) m = fences_granted env key cs ?m"
  proof -
    have drops: "lease_drops (shapes (lm_records m)) (shapes (lm_records ?m))"
      using d by (simp add: dropped_from_def)
    show ?thesis
      unfolding none
      by (rule Cons.IH [OF inv _ sub(1)])
        (use Cons.prems sub(2) issued_drops [OF drops] drops_fresh [OF drops] in auto)
  qed
  show ?case
  proof (cases "\<exists>lid q. c = CallAcquire lid q")
    case False
    then have "fences_granted env key (c # cs) m = fences_granted env key cs ?m"
      by (cases c) auto
    with False show ?thesis using quiet other_step_dropped [OF Cons.prems(1)] by blast
  next
    case True
    then obtain lid q where c: "c = CallAcquire lid q" by blast
    show ?thesis
    proof (cases rule: acquire_cases [OF Cons.prems(1), of env lid q])
      case (1 e)
      then show ?thesis using quiet by (simp add: c)
    next
      case (2 g)
      then obtain r sh1 where g: "g = grant r" and id: "record_id r = lid"
        and drops: "lease_drops (shapes (lm_records m)) sh1" and adm: "admissible (shape r) sh1"
        and sh: "shapes (lm_records ?m) = js_set lid (shape r) sh1"
        by (auto simp: acquired_post_def admitted_def c)
      have fresh: "js_get sh1 lid = None"
        using Cons.prems(4) [of lid] drops_fresh [OF drops] by (simp add: c)
      let ?t = "if dl_canonicalKey r = key then [dl_fencingToken r] else []"
      have here: "fences_granted env key (c # cs) m = ?t @ fences_granted env key cs ?m"
        using 2(1) by (simp add: c g grant_def)
      have below: "t < u" if "t \<in> set ts" "u \<in> set ?t" for t u
        using issued_drops [OF drops Cons.prems(2) [OF that(1)]] adm that(2)
        by (fastforce simp: issued_def admissible_def shape_def split: if_splits)
      have "issued key (shapes (lm_records ?m)) t" if "t \<in> set (?t @ ts)" for t
      proof (cases "t \<in> set ts")
        case True
        then show ?thesis
          unfolding sh using issued_admit [OF issued_drops [OF drops Cons.prems(2)] fresh] by blast
      next
        case False
        with that show ?thesis
          unfolding sh issued_def by (auto simp: js_lookup shape_def split: if_splits)
      qed
      moreover have "js_get (shapes (lm_records ?m)) i = None" if "i \<in> set (acquire_ids cs)" for i
        using that Cons.prems(3) Cons.prems(4) [of i] drops_fresh [OF drops]
        unfolding sh by (auto simp: c js_lookup)
      ultimately have "sorted_wrt (<) (fences_granted env key cs ?m)
        \<and> (\<forall>t \<in> set (?t @ ts). \<forall>u \<in> set (fences_granted env key cs ?m). t < u)"
        by (intro Cons.IH [OF inv _ sub(1)])
      with below show ?thesis unfolding here by (auto simp: sorted_wrt_append split: if_splits)
    qed
  qed
qed simp

lemma validate_True:
  assumes "fst (lease_validate g m) = Inr True"
  obtains r where "js_get (lm_records m) (wl_leaseId (lg_lease g)) = Some r" "grant_matches r g" "held r"
    "dl_orphanedAt r = None" "newest_fence (dl_canonicalKey r) m = dl_fencingToken r"
    "\<And>t. wl_expiresAt (dl_lease r) = Some t \<Longrightarrow> lm_clock m (lm_ticks m) < t"
proof (cases "js_get (lm_records m) (wl_leaseId (lg_lease g))")
  case None
  with assms show thesis by (simp add: lease_validate_def op_defs)
next
  case (Some r)
  have live: "grant_matches r g \<and> held r \<and> dl_orphanedAt r = None"
    using assms Some by (auto simp: lease_validate_def op_defs split: if_splits)
  have run: "fst (op_bind (isExpired r) (\<lambda>expired.
      if expired then op_bind (persistReleased r ''expired during validation'') (\<lambda>_. op_return False)
      else op_gets (\<lambda>m. newest_fence (dl_canonicalKey r) m = dl_fencingToken r)) m) = Inr True"
    using assms live by (simp add: lease_validate_def Some)
  have late: "fst (op_bind (persistReleased r s) (\<lambda>_. op_return False) n) \<noteq> Inr True" for s n
    by (auto simp: op_bind_def op_return_def split: prod.splits sum.splits)
  show thesis
  proof (cases "wl_expiresAt (dl_lease r)")
    case None
    with run Some live show thesis
      by (intro that [of r]) (auto simp: isExpired_def op_defs)
  next
    case (Some t)
    with run late live \<open>js_get _ _ = Some r\<close> show thesis
      by (intro that [of r])
        (auto simp: isExpired_def op_bind_def [of lease_now] op_bind_def [of "op_bind lease_now _"]
          lease_now_def op_return_def op_gets_def split: if_splits)
  qed
qed

subsection \<open>Properties\<close>

text \<open>No two held leases of one target overlap unless both are read-only.\<close>

definition writers_exclusive :: "lease_manager \<Rightarrow> bool" where
  "writers_exclusive m =
     (let rs = filter held (js_values (lm_records m))
      in list_all (\<lambda>r. list_all (\<lambda>c. record_id r = record_id c \<or> dl_canonicalKey r \<noteq> dl_canonicalKey c
                                     \<or> dl_access r = ReadOnly \<and> dl_access c = ReadOnly) rs) rs)"

lemma inv_overlap:
  assumes "lease_inv m"
    and r: "r \<in> set (js_values (lm_records m))" "held r"
    and c: "c \<in> set (js_values (lm_records m))" "held c"
  shows "record_id r = record_id c \<or> dl_canonicalKey r \<noteq> dl_canonicalKey c
      \<or> dl_access r = ReadOnly \<and> dl_access c = ReadOnly"
proof -
  have "js_get (shapes (lm_records m)) (record_id r) = Some (shape r)"
    "js_get (shapes (lm_records m)) (record_id c) = Some (shape c)"
    using r(1) c(1) inv_values [OF assms(1)] by (simp_all add: shapes_get del: set_map)
  with table_okD [OF inv_table_ok [OF assms(1)] this] r c show ?thesis
    by (auto simp: overlap_ok_def shape_def)
qed

lemma inv_exclusive: "lease_inv m \<Longrightarrow> writers_exclusive m"
  using inv_overlap by (simp add: writers_exclusive_def Let_def list_all_iff del: set_map)

definition demo_env :: lease_env where
  "demo_env = \<lparr>le_canonicalize = Some, le_isWorktreeDirty = (\<lambda>_. True), le_isJobId = (\<lambda>_. True),
               le_leaseValid = (\<lambda>_. True), le_defaultTtlMs = None\<rparr>"

definition demo_request :: "lease_access \<Rightarrow> acquire_lease_request" where
  "demo_request access =
     \<lparr>aq_repositoryPath = ''/r'', aq_worktreePath = ''/r/w'', aq_access = access,
      aq_holderJobId = Some ''j'', aq_holderSessionId = None, aq_branch = None, aq_ttlMs = None\<rparr>"

definition demo_manager :: lease_manager where
  "demo_manager = \<lparr>lm_records = [], lm_store = [], lm_clock = (\<lambda>n. int n), lm_ticks = 0,
                   lm_storeUp = (\<lambda>_. True), lm_writes = 0\<rparr>"

lemma demo_manager_new: "new_manager demo_env [] (\<lambda>n. int n) (\<lambda>_. True) = Inr demo_manager"
  by (simp add: new_manager_def demo_env_def demo_manager_def default_ttl_def or_default_def
      isSafePositive_def)





text \<open>
  A successful validation is sound: the grant's lease is held, is not orphaned, has not
  expired at the clock reading taken, carries the newest token of its target, and if it is a
  writer's lease no other lease of the target is held.
\<close>

theorem validate_sound:
  assumes "new_manager env [] clock up = Inr m0"
    and "m = fold (lease_step env) calls m0"
    and "fst (lease_validate g m) = Inr True"
  shows "\<exists>r. js_get (lm_records m) (wl_leaseId (lg_lease g)) = Some r \<and> held r \<and> dl_orphanedAt r = None
    \<and> (case wl_expiresAt (dl_lease r) of None \<Rightarrow> True | Some t \<Rightarrow> lm_clock m (lm_ticks m) < t)
    \<and> lg_fencingToken g = newest_fence (lg_canonicalKey g) m
    \<and> (dl_access r = WorkspaceWrite \<longrightarrow> set (active_records (lg_canonicalKey g) m) = {r})"
proof -
  have inv: "lease_inv m" unfolding assms(2) by (rule reachable_inv [OF assms(1)])
  obtain r where r: "js_get (lm_records m) (wl_leaseId (lg_lease g)) = Some r" "grant_matches r g"
    "held r" "dl_orphanedAt r = None" "newest_fence (dl_canonicalKey r) m = dl_fencingToken r"
    "\<And>t. wl_expiresAt (dl_lease r) = Some t \<Longrightarrow> lm_clock m (lm_ticks m) < t"
    using validate_True [OF assms(3)] by blast
  have key: "dl_canonicalKey r = lg_canonicalKey g" "dl_fencingToken r = lg_fencingToken g"
    using r(2) by (simp_all add: grant_matches_def)
  have mem: "r \<in> set (js_values (lm_records m))"
    unfolding inv_values [OF inv] using r(1) inv_get_id [OF inv r(1)] by simp
  have "c = r" if "dl_access r = WorkspaceWrite" "c \<in> set (active_records (lg_canonicalKey g) m)" for c
  proof -
    have c: "c \<in> set (js_values (lm_records m))" "held c" "dl_canonicalKey c = dl_canonicalKey r"
      using that(2) key by (auto simp: active_records_def records_of_key_def)
    then have "record_id c = record_id r"
      using inv_overlap [OF inv mem r(3) c(1,2)] that(1) by simp
    then show ?thesis using c(1) mem inv_values [OF inv] by (metis option.inject)
  qed
  moreover have "r \<in> set (active_records (lg_canonicalKey g) m)"
    using mem r(3) key by (simp add: active_records_def records_of_key_def del: set_map)
  ultimately show ?thesis using r key by (auto split: option.split)
qed

definition demo_grant :: "lease_manager \<Rightarrow> ident \<Rightarrow> lease_grant" where
  "demo_grant m i = grant (the (js_get (lm_records m) i))"

theorem validate_sound_witness:
  "lg_fencingToken (demo_grant (fold (lease_step demo_env)
       [CallAcquire ''l1'' (demo_request WorkspaceWrite)] demo_manager) ''l1'') = 1
   \<and> newest_fence (lease_key ''/r'' ''/r/w'') (fold (lease_step demo_env)
       [CallAcquire ''l1'' (demo_request WorkspaceWrite)] demo_manager) = 1"
proof -
  let ?m = "fold (lease_step demo_env) [CallAcquire ''l1'' (demo_request WorkspaceWrite)] demo_manager"
  let ?g = "demo_grant ?m ''l1''"
  have "fst (lease_validate ?g ?m) = Inr True" by code_simp
  from validate_sound [OF demo_manager_new refl this] obtain r where
    "lg_fencingToken ?g = newest_fence (lg_canonicalKey ?g) ?m" by blast
  moreover have "lg_fencingToken ?g = 1" "lg_canonicalKey ?g = lease_key ''/r'' ''/r/w''"
    by code_simp+
  ultimately show ?thesis by simp
qed

text \<open>
  Recovery leaves no live lease: after a restart that completes, every lease that is still
  held is marked orphaned, and the evidence lists exactly those leases, in order.
\<close>

theorem recover_orphans_all:
  assumes "new_manager env [] clock up = Inr m0"
    and "lease_recover (fold (lease_step env) calls m0) = (Inr evidence, m)"
  shows "list_all (\<lambda>r. held r \<longrightarrow> dl_orphanedAt r \<noteq> None) (js_values (lm_records m))
    \<and> map oe_leaseId evidence = map record_id (filter held (js_values (lm_records m)))"
proof -
  note inv0 = reachable_inv [OF assms(1), of calls]
  have post: "dropped_from (shapes (lm_records (fold (lease_step env) calls m0))) m"
    "recovered_all (js_keys (lm_records m)) evidence m"
    using op_tripleD [OF recover_triple [OF inv0] refl assms(2)] by blast+
  have inv: "lease_inv m" using post(1) by (rule dropped_inv)
  have keyed: "keyed record_id (lm_records m)" by (rule inv_keyed [OF inv])
  have val: "held_at m k = held r" "no_live_at m k = (held r \<longrightarrow> dl_orphanedAt r \<noteq> None)" "record_id r = k"
    if "(k, r) \<in> set (lm_records m)" for k r
  proof -
    have "js_get (lm_records m) k = Some r"
      using that keyed by (auto simp: keyed_def js_wf_def intro: map_of_is_SomeI)
    then show "held_at m k = held r" "no_live_at m k = (held r \<longrightarrow> dl_orphanedAt r \<noteq> None)" "record_id r = k"
      using keyed_get [OF keyed] by (simp_all add: held_at_def no_live_at_def)
  qed
  have "filter (held_at m) (js_keys (lm_records m)) = map record_id (filter held (js_values (lm_records m)))"
    using val by (auto simp: filter_map comp_def intro!: map_cong filter_cong)
  with post(2) val show ?thesis
    by (fastforce simp: recovered_all_def list_all_iff)
qed

theorem recover_orphans_all_witness:
  "list_all (\<lambda>r. held r \<longrightarrow> dl_orphanedAt r \<noteq> None)
     (js_values (lm_records (snd (lease_recover (fold (lease_step demo_env)
        [CallAcquire ''l1'' (demo_request WorkspaceWrite)] demo_manager)))))"
proof -
  let ?m = "fold (lease_step demo_env) [CallAcquire ''l1'' (demo_request WorkspaceWrite)] demo_manager"
  have "map oe_leaseId (case fst (lease_recover ?m) of Inr e \<Rightarrow> e) = [''l1'']"
    "case fst (lease_recover ?m) of Inr e \<Rightarrow> True | Inl _ \<Rightarrow> False"
    by code_simp+
  then obtain ev where "fst (lease_recover ?m) = Inr ev" by (auto split: sum.splits)
  then have "lease_recover ?m = (Inr ev, snd (lease_recover ?m))" by (metis prod.collapse)
  from recover_orphans_all [OF demo_manager_new this] show ?thesis by blast
qed

text \<open>
  An acquisition fences every older lease out: once a lease is granted with a fresh id, a
  grant of any other lease of the same target no longer validates, and releasing it is refused
  with nothing changed. This holds for two read-only leases as well, although they may be held
  together.
\<close>

theorem acquire_fences_out:
  assumes "new_manager env [] clock up = Inr m0"
    and "m = fold (lease_step env) calls m0"
    and "lease_acquire env lid q m = (Inr g, m')"
    and "wl_leaseId (lg_lease old) \<noteq> lid" and "lg_canonicalKey old = lg_canonicalKey g"
  shows "fst (lease_validate old m') \<noteq> Inr True \<and> lease_release old m' = (Inl StaleLease, m')"
proof -
  have inv: "lease_inv m" unfolding assms(2) by (rule reachable_inv [OF assms(1)])
  from op_tripleD [OF acquire_triple [OF inv] refl assms(3)]
  obtain r sh1 where inv': "lease_inv m'" and g: "g = grant r" and id: "record_id r = lid"
    and adm: "admissible (shape r) sh1" and sh: "shapes (lm_records m') = js_set lid (shape r) sh1"
    and new: "js_get (lm_records m') lid = Some r"
    by (auto simp: acquired_post_def admitted_def)
  have rmem: "r \<in> set (records_of_key (dl_canonicalKey r) m')"
    using inv_values [OF inv'] new id by (simp add: records_of_key_def del: set_map)
  have newer: "dl_fencingToken c < dl_fencingToken r \<and> dl_canonicalKey c = dl_canonicalKey r"
    if "js_get (lm_records m') (wl_leaseId (lg_lease old)) = Some c" "grant_matches c old" for c
  proof -
    have "js_get sh1 (wl_leaseId (lg_lease old)) = Some (shape c)"
      using that(1) sh shapes_get [of "lm_records m'" "wl_leaseId (lg_lease old)"] assms(4)
      by (simp add: js_lookup)
    moreover have "dl_canonicalKey c = dl_canonicalKey r"
      using that(2) assms(5) by (simp add: grant_matches_def g grant_def)
    ultimately show ?thesis using adm by (fastforce simp: admissible_def shape_def)
  qed
  have "fst (lease_validate old m') \<noteq> Inr True"
  proof
    assume "fst (lease_validate old m') = Inr True"
    then obtain c where c: "js_get (lm_records m') (wl_leaseId (lg_lease old)) = Some c"
      "grant_matches c old" "newest_fence (dl_canonicalKey c) m' = dl_fencingToken c"
      using validate_True by blast
    then show False using newer [OF c(1,2)] newest_fence_ge [OF rmem] by simp
  qed
  moreover have "lease_release old m' = (Inl StaleLease, m')"
  proof (cases "js_get (lm_records m') (wl_leaseId (lg_lease old))")
    case None
    then show ?thesis by (simp add: lease_release_def op_throw_def)
  next
    case (Some c)
    show ?thesis
    proof (cases "grant_matches c old")
      case False
      with Some show ?thesis by (simp add: lease_release_def op_throw_def)
    next
      case True
      note n = newer [OF Some True]
      then have "\<exists>d \<in> set (records_of_key (dl_canonicalKey c) m'). dl_fencingToken c < dl_fencingToken d"
        using rmem by auto
      with True Some show ?thesis by (simp add: lease_release_def op_throw_def)
    qed
  qed
  ultimately show ?thesis ..
qed

theorem acquire_fences_out_witness:
  "let m = fold (lease_step demo_env) [CallAcquire ''l1'' (demo_request ReadOnly)] demo_manager;
       m' = snd (lease_acquire demo_env ''l2'' (demo_request ReadOnly) m)
   in length (active_records (lease_key ''/r'' ''/r/w'') m') = 2
      \<and> fst (lease_validate (demo_grant m ''l1'') m') \<noteq> Inr True"
proof -
  let ?m = "fold (lease_step demo_env) [CallAcquire ''l1'' (demo_request ReadOnly)] demo_manager"
  let ?r = "lease_acquire demo_env ''l2'' (demo_request ReadOnly) ?m"
  let ?g = "demo_grant (snd ?r) ''l2''"
  have "case fst ?r of Inr g \<Rightarrow> g = ?g | Inl _ \<Rightarrow> False" by code_simp
  then have "fst ?r = Inr ?g" by (auto split: sum.splits)
  then have run: "?r = (Inr ?g, snd ?r)" by (metis prod.collapse)
  have "wl_leaseId (lg_lease (demo_grant ?m ''l1'')) \<noteq> ''l2''"
    "lg_canonicalKey (demo_grant ?m ''l1'') = lg_canonicalKey ?g"
    "length (active_records (lease_key ''/r'' ''/r/w'') (snd ?r)) = 2"
    by code_simp+
  with acquire_fences_out [OF demo_manager_new refl run, of "demo_grant ?m ''l1''"]
  show ?thesis by (simp add: Let_def)
qed



end
