(* ===== verification/Job_Control_Plane.thy ===== *)
theory Job_Control_Plane
  imports Admission_Scheduler Budget_Ledger Snapshot_Store
begin

text \<open>
  The job control plane: \<^verbatim>\<open>src/src/control-plane/job-control-plane.ts\<close> over the job records
  of \<^verbatim>\<open>src/src/domain/job.ts\<close>, \<^verbatim>\<open>delegation.ts\<close> and \<^verbatim>\<open>dispatch.ts\<close>. The class is
  a record; a method is a throwing state transformer. The calls to a provider adapter
  (\<^verbatim>\<open>adapter.dispatch\<close> and \<^verbatim>\<open>adapter.cancel\<close>) take arbitrarily long and are points where
  other calls interleave: a method that awaits one leaves its continuation in
  \<open>cp_dispatching\<close> or \<open>cp_cancelling\<close>, and a later step resumes it. Writing to the
  store or the journal is one step that succeeds or throws. The clock, the id factory and the
  successes of the store and the journal are streams. Schema validators are parameters.

  A \<^verbatim>\<open>JobEntry\<close> object shared by reference is the entry the job map holds for its id; entries
  are replaced only by \<^verbatim>\<open>recover\<close>, which runs before any other call.
\<close>

subsection \<open>Data\<close>

record artifact_descriptor =
  ad_id :: ident
  ad_name :: string
  ad_byteLength :: "nat option"

datatype control_plane_error_code =
    JobNotFound
  | JobAlreadyTerminal
  | DispatchRejected
  | ProviderNotRegisteredCode
  | CancellationNotSupported
  | RuntimeInterrupted
  | LeaseConflictCode
  | BudgetExceededCode
  | SchemaVersionUnsupportedCode

datatype job_result =
    Completed "string option" "artifact_descriptor list"
  | Failed control_plane_error_code string "artifact_descriptor list"
  | Cancelled "string option"
  | TimedOut

datatype job_lifecycle =
    Queued instant
  | Dispatched instant
  | Running instant
  | Interrupted instant string
  | Settled instant job_result

record job_request =
  jr_provider :: string
  jr_cwd :: string
  jr_sandbox :: string
  jr_executor :: "string option"
  jr_executionProfile :: "string option"
  jr_instruction :: string
  jr_model :: "string option"
  jr_role :: "string option"
  jr_name :: "string option"
  jr_workerMode :: "string option"

record job_record =
  jb_id :: ident
  jb_correlationId :: ident
  jb_request :: job_request
  jb_lifecycle :: job_lifecycle
  jb_parentJobId :: "ident option"
  jb_sessionId :: "ident option"
  jb_createdAt :: instant
  jb_updatedAt :: instant

datatype report_back_state = RbPending | RbDelivered | RbFailed

record report_back_record =
  rb_jobId :: ident
  rb_correlationId :: ident
  rb_parentJobId :: "ident option"
  rb_parentSessionId :: "ident option"
  rb_result :: job_result
  rb_usage :: "usage_report option"
  rb_state :: report_back_state
  rb_attempts :: nat
  rb_createdAt :: instant
  rb_updatedAt :: instant
  rb_deliveredAt :: "instant option"
  rb_lastError :: "string option"

record job_entry =
  je_record :: job_record
  je_idempotencyKey :: string
  je_parentSessionId :: "ident option"
  je_usage :: "usage_report option"
  je_reportBack :: "report_back_record option"
  je_holdsSlot :: bool

record persisted_job_state =
  ps_record :: job_record
  ps_idempotencyKey :: string
  ps_parentSessionId :: "ident option"
  ps_usage :: "usage_report option"
  ps_reportBack :: "report_back_record option"

record job_snapshot =
  js_record :: job_record
  js_usage :: "usage_report option"
  js_reportBack :: "report_back_record option"

datatype broker_event_type =
    EvJobSubmitted
  | EvDelegationCreated
  | EvJobDispatched
  | EvJobInterrupted
  | EvJobSettled
  | EvJobReported
  | EvJobReportAcknowledged
  | EvJobReportFailed

record broker_event =
  ev_id :: ident
  ev_type :: broker_event_type
  ev_occurredAt :: instant
  ev_jobId :: ident

record submit_job_params =
  sp_request :: job_request
  sp_idempotencyKey :: string
  sp_correlationId :: "ident option"
  sp_sessionId :: "ident option"

record delegation_intent =
  di_delegationId :: ident
  di_correlationId :: ident
  di_parentJobId :: "ident option"
  di_parentSessionId :: "ident option"
  di_request :: job_request
  di_reason :: "string option"

record job_report =
  jp_jobId :: ident
  jp_correlationId :: ident
  jp_reportedAt :: instant
  jp_result :: job_result
  jp_usage :: "usage_report option"

record create_spec =
  cs_request :: job_request
  cs_idempotencyKey :: string
  cs_correlationId :: ident
  cs_parentJobId :: "ident option"
  cs_parentSessionId :: "ident option"
  cs_sessionId :: "ident option"
  cs_delegationId :: "ident option"

datatype plane_error =
    PlaneCode control_plane_error_code
  | FableRequiresExplicitHumanStart
  | ClaudeLaunchRequiresModel
  | MaxDelegationDepth
  | PlaneSchemaRejected
  | PlaneStoreFailed
  | PlaneJournalFailed

datatype ingest_result = IngestSettled | IngestInterrupted | IngestAlreadySettled | IngestUnknownJob

datatype cancellation_result = CancelAccepted | CancelRefused control_plane_error_code

text \<open>The constant options and the schema validators.\<close>

record plane_config =
  pc_maxDelegationDepth :: "nat option"
  pc_isUuid :: "string \<Rightarrow> bool"
  pc_requestValid :: "job_request \<Rightarrow> bool"
  pc_submitValid :: "submit_job_params \<Rightarrow> bool"
  pc_intentValid :: "delegation_intent \<Rightarrow> bool"
  pc_reportValid :: "job_report \<Rightarrow> bool"

text \<open>
  The surroundings: the readings of the clock and the id factory, and which writes to the store and
  the journal succeed, each with the number consumed so far.
\<close>

record plane_env =
  pe_clock :: "nat \<Rightarrow> instant"
  pe_ticks :: nat
  pe_ids :: "nat \<Rightarrow> ident"
  pe_idCount :: nat
  pe_storeUp :: "nat \<Rightarrow> bool"
  pe_writes :: nat
  pe_journalUp :: "nat \<Rightarrow> bool"
  pe_emits :: nat

record job_plane =
  cp_jobs :: "(ident, job_entry) js_map"
  cp_byIdempotencyKey :: "(string, ident) js_map"
  cp_adapters :: "string list"
  cp_pendingReportError :: "plane_error option"
  cp_pumping :: bool
  cp_registry :: provider_registry
  cp_scheduler :: "admission_scheduler option"
  cp_budgets :: "budget_ledger option"
  cp_store :: "persisted_job_state list option"
  cp_journal :: "broker_event list option"
  cp_dispatchCalls :: "ident list" \<comment> \<open>the calls made on the dispatch port, oldest first\<close>
  cp_cancelCalls :: "ident list" \<comment> \<open>the calls made on the cancel port\<close>
  cp_dispatching :: "(ident \<times> bool) list" \<comment> \<open>dispatches awaited; the flag says: by the pump loop\<close>
  cp_cancelling :: "(ident \<times> string option) list" \<comment> \<open>cancellations awaited\<close>
  cp_env :: plane_env

type_synonym 'a plane_op = "(job_plane, plane_error, 'a) op"

subsection \<open>Access to the surroundings\<close>

definition cp_now :: "instant plane_op" where
  "cp_now p =
     (let e = cp_env p
      in (Inr (pe_clock e (pe_ticks e)), p\<lparr>cp_env := e\<lparr>pe_ticks := pe_ticks e + 1\<rparr>\<rparr>))"

definition newId :: "ident plane_op" where
  "newId p =
     (let e = cp_env p
      in (Inr (pe_ids e (pe_idCount e)), p\<lparr>cp_env := e\<lparr>pe_idCount := pe_idCount e + 1\<rparr>\<rparr>))"

definition require_uuid :: "plane_config \<Rightarrow> ident \<Rightarrow> unit plane_op" where
  "require_uuid c i = op_when (\<not> pc_isUuid c i) (op_throw PlaneSchemaRejected)"

definition newCorrelationId :: "plane_config \<Rightarrow> ident plane_op" where
  "newCorrelationId c = op_bind newId (\<lambda>i. op_then (require_uuid c i) (op_return i))"

definition persisted_of :: "job_entry \<Rightarrow> persisted_job_state" where
  "persisted_of e =
     \<lparr>ps_record = je_record e, ps_idempotencyKey = je_idempotencyKey e,
      ps_parentSessionId = je_parentSessionId e, ps_usage = je_usage e,
      ps_reportBack = je_reportBack e\<rparr>"

definition persist :: "ident \<Rightarrow> unit plane_op" where
  "persist j p =
     (case (cp_store p, js_get (cp_jobs p) j) of
        (Some states, Some e) \<Rightarrow>
          (let v = cp_env p; q = p\<lparr>cp_env := v\<lparr>pe_writes := pe_writes v + 1\<rparr>\<rparr>
           in if pe_storeUp v (pe_writes v)
              then (Inr (), q\<lparr>cp_store := Some (log_append (persisted_of e) states)\<rparr>)
              else (Inl PlaneStoreFailed, q))
      | _ \<Rightarrow> (Inr (), p))"

definition append_event :: "broker_event \<Rightarrow> unit plane_op" where
  "append_event ev p =
     (case cp_journal p of
        None \<Rightarrow> (Inr (), p)
      | Some evs \<Rightarrow>
          (let v = cp_env p; q = p\<lparr>cp_env := v\<lparr>pe_emits := pe_emits v + 1\<rparr>\<rparr>
           in if pe_journalUp v (pe_emits v) then (Inr (), q\<lparr>cp_journal := Some (evs @ [ev])\<rparr>)
              else (Inl PlaneJournalFailed, q)))"

definition emit :: "broker_event_type \<Rightarrow> ident \<Rightarrow> unit plane_op" where
  "emit t j =
     op_bind (op_gets cp_journal) (\<lambda>journal.
       if journal = None then op_return ()
       else op_bind newId (\<lambda>i. op_bind cp_now (\<lambda>now.
              append_event \<lparr>ev_id = i, ev_type = t, ev_occurredAt = now, ev_jobId = j\<rparr>)))"

subsection \<open>Job entries\<close>

definition update_entry :: "ident \<Rightarrow> (job_entry \<Rightarrow> job_entry) \<Rightarrow> unit plane_op" where
  "update_entry j f =
     op_modify (\<lambda>p. case js_get (cp_jobs p) j of
                      None \<Rightarrow> p | Some e \<Rightarrow> p\<lparr>cp_jobs := js_set j (f e) (cp_jobs p)\<rparr>)"

definition with_lifecycle :: "job_lifecycle \<Rightarrow> instant \<Rightarrow> job_entry \<Rightarrow> job_entry" where
  "with_lifecycle l now e =
     e\<lparr>je_record := (je_record e)\<lparr>jb_lifecycle := l, jb_updatedAt := now\<rparr>\<rparr>"

definition lifecycle_of :: "job_entry \<Rightarrow> job_lifecycle" where
  "lifecycle_of e = jb_lifecycle (je_record e)"

fun is_settled :: "job_lifecycle \<Rightarrow> bool" where
  "is_settled (Settled t r) = True" | "is_settled _ = False"

fun is_queued :: "job_lifecycle \<Rightarrow> bool" where
  "is_queued (Queued t) = True" | "is_queued _ = False"

fun is_interrupted :: "job_lifecycle \<Rightarrow> bool" where
  "is_interrupted (Interrupted t r) = True" | "is_interrupted _ = False"

definition entry_parent :: "(ident, job_entry) js_map \<Rightarrow> ident \<Rightarrow> ident option" where
  "entry_parent jobs j =
     (case js_get jobs j of None \<Rightarrow> None | Some e \<Rightarrow> jb_parentJobId (je_record e))"

text \<open>
  The walk of \<^verbatim>\<open>lineage\<close>. It ends because every round adds a known job to the set of seen ids,
  or looks up an unknown one and stops.
\<close>

function lineage_walk ::
  "(ident, job_entry) js_map \<Rightarrow> ident list \<Rightarrow> ident option \<Rightarrow> ident list" where
  "lineage_walk jobs seen None = []"
| "lineage_walk jobs seen (Some cur) =
     (if cur \<in> set seen then []
      else cur # lineage_walk jobs (cur # seen) (entry_parent jobs cur))"
  by pat_completeness auto
termination
proof (relation "measures [\<lambda>(jobs, seen, cur). case cur of None \<Rightarrow> 0 | Some _ \<Rightarrow> 1,
    \<lambda>(jobs, seen, cur). card (set (js_keys jobs) - set seen)]")
  fix jobs :: "(ident, job_entry) js_map" and seen :: "ident list" and cur :: ident
  assume fresh: "cur \<notin> set seen"
  have "cur \<in> set (js_keys jobs)" if "entry_parent jobs cur = Some q" for q
    using that js.keys_get [of cur jobs] by (auto simp: entry_parent_def split: option.splits)
  then show "((jobs, cur # seen, entry_parent jobs cur), jobs, seen, Some cur)
      \<in> measures [\<lambda>(jobs, seen, cur). case cur of None \<Rightarrow> 0 | Some _ \<Rightarrow> 1,
            \<lambda>(jobs, seen, cur). card (set (js_keys jobs) - set seen)]"
    using fresh by (auto simp del: set_map simp: card_gt_0_iff intro!: diff_less split: option.split)
qed simp

definition lineage :: "ident \<Rightarrow> (ident, job_entry) js_map \<Rightarrow> ident list" where
  "lineage j jobs = lineage_walk jobs [j] (entry_parent jobs j)"

definition scopeOf :: "ident \<Rightarrow> (ident, job_entry) js_map \<Rightarrow> ident" where
  "scopeOf j jobs = (let chain = lineage j jobs in if chain = [] then j else last chain)"

subsection \<open>Settling\<close>

fun result_artifacts :: "job_result \<Rightarrow> artifact_descriptor list" where
  "result_artifacts (Completed s xs) = xs"
| "result_artifacts (Failed c m xs) = xs"
| "result_artifacts _ = []"

definition artifact_bytes :: "job_result \<Rightarrow> nat" where
  "artifact_bytes r = sum_list (map (\<lambda>a. or_zero (ad_byteLength a)) (result_artifacts r))"

definition debitBudget :: "ident \<Rightarrow> job_result \<Rightarrow> usage_report option \<Rightarrow> unit plane_op" where
  "debitBudget j r usage =
     op_modify (\<lambda>p. case cp_budgets p of
       None \<Rightarrow> p
     | Some l \<Rightarrow> p\<lparr>cp_budgets := Some (ledger_settle (scopeOf j (cp_jobs p)) j
                   \<lparr>sd_usage = usage, sd_artifactBytes = Some (artifact_bytes r)\<rparr> l)\<rparr>)"

definition has_parent :: "job_entry \<Rightarrow> bool" where
  "has_parent e = (jb_parentJobId (je_record e) \<noteq> None \<or> je_parentSessionId e \<noteq> None)"

definition report_back_of ::
  "instant \<Rightarrow> job_result \<Rightarrow> usage_report option \<Rightarrow> job_entry \<Rightarrow> report_back_record" where
  "report_back_of now r usage e =
     \<lparr>rb_jobId = jb_id (je_record e), rb_correlationId = jb_correlationId (je_record e),
      rb_parentJobId = jb_parentJobId (je_record e), rb_parentSessionId = je_parentSessionId e,
      rb_result = r, rb_usage = usage, rb_state = RbPending, rb_attempts = 0, rb_createdAt = now,
      rb_updatedAt = now, rb_deliveredAt = None, rb_lastError = None\<rparr>"

definition or_else :: "'a option \<Rightarrow> 'a option \<Rightarrow> 'a option" where
  "or_else x y = (case x of None \<Rightarrow> y | Some v \<Rightarrow> Some v)"

definition settled_entry ::
  "instant \<Rightarrow> job_result \<Rightarrow> usage_report option \<Rightarrow> job_entry \<Rightarrow> job_entry" where
  "settled_entry now r usage e =
     (with_lifecycle (Settled now r) now e)
       \<lparr>je_usage := or_else usage (je_usage e),
        je_reportBack := (if has_parent e then Some (report_back_of now r usage e)
                          else je_reportBack e)\<rparr>"

text \<open>
  \<^verbatim>\<open>releaseSlot\<close> up to the pump that re-offers the capacity. Inside the pump loop that pump
  returns at once, and without a scheduler there is none.
\<close>

definition free_slot :: "ident \<Rightarrow> unit plane_op" where
  "free_slot j =
     op_modify (\<lambda>p. case cp_scheduler p of
       None \<Rightarrow> p
     | Some s \<Rightarrow>
         (let s1 = snd (withdraw j s)
          in case js_get (cp_jobs p) j of
               Some e \<Rightarrow>
                 (if je_holdsSlot e
                  then p\<lparr>cp_jobs := js_set j (e\<lparr>je_holdsSlot := False\<rparr>) (cp_jobs p),
                         cp_scheduler := Some (snd (release j s1))\<rparr>
                  else p\<lparr>cp_scheduler := Some s1\<rparr>)
             | None \<Rightarrow> p\<lparr>cp_scheduler := Some s1\<rparr>))"

definition entry_has_parent :: "ident \<Rightarrow> job_plane \<Rightarrow> bool" where
  "entry_has_parent j p = (case js_get (cp_jobs p) j of None \<Rightarrow> False | Some e \<Rightarrow> has_parent e)"

definition settle_core :: "ident \<Rightarrow> job_result \<Rightarrow> usage_report option \<Rightarrow> unit plane_op" where
  "settle_core j r usage =
     op_bind cp_now (\<lambda>now.
     op_then (update_entry j (settled_entry now r usage))
     (op_then (persist j)
     (op_then (emit EvJobSettled j)
     (op_bind (op_gets (entry_has_parent j)) (\<lambda>delegated.
     op_then (op_when delegated (emit EvJobReported j))
     (op_then (debitBudget j r usage)
       (free_slot j)))))))"

subsection \<open>Dispatching and the pump loop\<close>

datatype dispatch_progress = DispatchFinished | DispatchAwaited

definition entry_provider :: "ident \<Rightarrow> job_plane \<Rightarrow> string" where
  "entry_provider j p =
     (case js_get (cp_jobs p) j of None \<Rightarrow> [] | Some e \<Rightarrow> jr_provider (jb_request (je_record e)))"

text \<open>\<^verbatim>\<open>dispatch\<close> up to the call of the adapter.\<close>

definition dispatch_start :: "ident \<Rightarrow> bool \<Rightarrow> dispatch_progress plane_op" where
  "dispatch_start j pumped =
     op_bind (op_gets (\<lambda>p. entry_provider j p \<in> set (cp_adapters p))) (\<lambda>served.
       if served
       then op_then (op_modify (\<lambda>p. p\<lparr>cp_dispatchCalls := cp_dispatchCalls p @ [j],
                                      cp_dispatching := cp_dispatching p @ [(j, pumped)]\<rparr>))
              (op_return DispatchAwaited)
       else op_bind (op_gets (entry_provider j)) (\<lambda>provider.
              op_then (settle_core j
                  (Failed DispatchRejected (''No adapter registered for provider '' @ provider) []) None)
                (op_return DispatchFinished)))"

text \<open>\<^verbatim>\<open>dispatch\<close> after the adapter answered: an error message, or acceptance.\<close>

definition dispatch_finish :: "ident \<Rightarrow> string option \<Rightarrow> unit plane_op" where
  "dispatch_finish j failure =
     (case failure of
        Some message \<Rightarrow> settle_core j (Failed DispatchRejected message []) None
      | None \<Rightarrow>
          op_bind (op_gets (\<lambda>p. case js_get (cp_jobs p) j of
                                  None \<Rightarrow> False | Some e \<Rightarrow> is_queued (lifecycle_of e))) (\<lambda>waiting.
            if \<not> waiting then op_return ()
            else op_bind cp_now (\<lambda>now.
                 op_then (update_entry j (with_lifecycle (Dispatched now) now))
                 (op_then (persist j) (emit EvJobDispatched j)))))"

definition queue_length :: "job_plane \<Rightarrow> nat" where
  "queue_length p = (case cp_scheduler p of None \<Rightarrow> 0 | Some s \<Rightarrow> length (as_queue s))"

definition hold_slot :: "ident \<Rightarrow> job_plane \<Rightarrow> job_plane" where
  "hold_slot j p =
     (case js_get (cp_jobs p) j of
        None \<Rightarrow> p | Some e \<Rightarrow> p\<lparr>cp_jobs := js_set j (e\<lparr>je_holdsSlot := True\<rparr>) (cp_jobs p)\<rparr>)"

text \<open>One admission of the loop: the reservation made, if any.\<close>

definition pump_admit :: "job_plane \<Rightarrow> slot_reservation option \<times> job_plane" where
  "pump_admit p =
     (case cp_scheduler p of
        None \<Rightarrow> (None, p)
      | Some s \<Rightarrow>
          (let v = cp_env p
           in case admitNext (pe_ids v (pe_idCount v)) (pe_clock v (pe_ticks v)) s of
                (None, s') \<Rightarrow> (None, p)
              | (Some r, s') \<Rightarrow>
                  (Some r, p\<lparr>cp_scheduler := Some s',
                     cp_env := v\<lparr>pe_idCount := pe_idCount v + 1, pe_ticks := pe_ticks v + 1\<rparr>\<rparr>)))"

definition drop_reservation :: "ident \<Rightarrow> job_plane \<Rightarrow> job_plane" where
  "drop_reservation j p = p\<lparr>cp_scheduler := map_option (\<lambda>s. snd (release j s)) (cp_scheduler p)\<rparr>"

definition stop_pump :: "job_plane \<Rightarrow> job_plane" where
  "stop_pump p = p\<lparr>cp_pumping := False\<rparr>"

text \<open>
  The loop of \<^verbatim>\<open>pump\<close>, entered with \<^verbatim>\<open>pumping\<close> set. Every round takes one entry off the
  waiting queue, so a fuel above the length of the queue is enough; the loop stops when nothing can
  be admitted, or is left at the call of an adapter with \<^verbatim>\<open>pumping\<close> still set.
\<close>

primrec pump_loop :: "nat \<Rightarrow> unit plane_op" where
  "pump_loop 0 p = (Inr (), p)"
| "pump_loop (Suc fuel) p =
     (case pump_admit p of
        (None, q) \<Rightarrow> (Inr (), stop_pump q)
      | (Some r, q) \<Rightarrow>
          (if (case js_get (cp_jobs q) (sr_jobId r) of
                 None \<Rightarrow> True | Some e \<Rightarrow> \<not> is_queued (lifecycle_of e))
           then pump_loop fuel (drop_reservation (sr_jobId r) q)
           else case dispatch_start (sr_jobId r) True (hold_slot (sr_jobId r) q) of
                  (Inl err, q') \<Rightarrow> (Inl err, stop_pump q')
                | (Inr DispatchAwaited, q') \<Rightarrow> (Inr (), q')
                | (Inr DispatchFinished, q') \<Rightarrow> pump_loop fuel q'))"

definition run_pump :: "unit plane_op" where
  "run_pump p = pump_loop (Suc (queue_length p)) p"

definition pump :: "unit plane_op" where
  "pump p =
     (if cp_scheduler p = None \<or> cp_pumping p then (Inr (), p)
      else run_pump (p\<lparr>cp_pumping := True\<rparr>))"

text \<open>The step in which an adapter answers a dispatch, with the rest of the pump loop.\<close>

definition dispatch_return :: "ident \<Rightarrow> bool \<Rightarrow> string option \<Rightarrow> unit plane_op" where
  "dispatch_return j pumped failure p =
     (if (j, pumped) \<notin> set (cp_dispatching p) then (Inr (), p)
      else case dispatch_finish j failure
                  (p\<lparr>cp_dispatching := remove1 (j, pumped) (cp_dispatching p)\<rparr>) of
             (Inl err, q) \<Rightarrow> (Inl err, if pumped then stop_pump q else q)
           | (Inr _, q) \<Rightarrow> (if pumped then run_pump q else (Inr (), q)))"

definition releaseSlot :: "ident \<Rightarrow> unit plane_op" where
  "releaseSlot j = op_then (free_slot j) pump"

definition settle :: "ident \<Rightarrow> job_result \<Rightarrow> usage_report option \<Rightarrow> unit plane_op" where
  "settle j r usage = op_then (settle_core j r usage) pump"

subsection \<open>Submission and delegation\<close>

definition registeredIds :: "job_plane \<Rightarrow> string list" where
  "registeredIds p = map pd_id (registry_list (cp_registry p))"

definition inherited_request :: "create_spec \<Rightarrow> job_plane \<Rightarrow> job_request" where
  "inherited_request spec p =
     (let parentWorkerMode =
            (case cs_parentJobId spec of
               None \<Rightarrow> None
             | Some q \<Rightarrow>
                 (case js_get (cp_jobs p) q of
                    None \<Rightarrow> None | Some e \<Rightarrow> jr_workerMode (jb_request (je_record e))))
      in if jr_workerMode (cs_request spec) = None \<and> parentWorkerMode \<noteq> None
         then (cs_request spec)\<lparr>jr_workerMode := parentWorkerMode\<rparr>
         else cs_request spec)"

definition spec_delegated :: "create_spec \<Rightarrow> bool" where
  "spec_delegated spec = (cs_parentJobId spec \<noteq> None \<or> cs_parentSessionId spec \<noteq> None)"

definition launch_refusal :: "create_spec \<Rightarrow> job_request \<Rightarrow> job_plane \<Rightarrow> plane_error option" where
  "launch_refusal spec rq p =
     (if validateRegisteredProvider (jr_provider rq) (registeredIds p) = ProviderNotRegistered
      then Some (PlaneCode ProviderNotRegisteredCode)
      else if spec_delegated spec \<and> isFableModel (jr_model rq)
      then Some FableRequiresExplicitHumanStart
      else if evaluateClaudeLaunchSafety (jr_provider rq) (jr_model rq) \<noteq> LaunchSafe
      then Some ClaudeLaunchRequiresModel
      else None)"

definition budget_gate :: "create_spec \<Rightarrow> ident \<Rightarrow> unit plane_op" where
  "budget_gate spec j =
     op_bind (op_gets cp_budgets) (\<lambda>budgets.
       case budgets of
         None \<Rightarrow> op_return ()
       | Some l \<Rightarrow>
           op_bind cp_now (\<lambda>now.
           op_bind (op_gets (\<lambda>p. case cs_parentJobId spec of
                                    None \<Rightarrow> j | Some q \<Rightarrow> scopeOf q (cp_jobs p))) (\<lambda>scope.
             op_then (op_modify (\<lambda>p. p\<lparr>cp_budgets := Some (snd (ledger_admit now scope j l))\<rparr>))
               (op_when (fst (ledger_admit now scope j l) \<noteq> BudgetOk)
                  (op_throw (PlaneCode BudgetExceededCode))))))"

definition new_entry :: "create_spec \<Rightarrow> job_request \<Rightarrow> ident \<Rightarrow> instant \<Rightarrow> job_entry" where
  "new_entry spec rq j now =
     \<lparr>je_record =
        \<lparr>jb_id = j, jb_correlationId = cs_correlationId spec, jb_request = rq,
         jb_lifecycle = Queued now, jb_parentJobId = cs_parentJobId spec,
         jb_sessionId = cs_sessionId spec, jb_createdAt = now, jb_updatedAt = now\<rparr>,
      je_idempotencyKey = cs_idempotencyKey spec, je_parentSessionId = cs_parentSessionId spec,
      je_usage = None, je_reportBack = None, je_holdsSlot = False\<rparr>"

definition enter_job :: "job_entry \<Rightarrow> job_plane \<Rightarrow> job_plane" where
  "enter_job e p =
     p\<lparr>cp_jobs := js_set (jb_id (je_record e)) e (cp_jobs p),
       cp_byIdempotencyKey := js_set (je_idempotencyKey e) (jb_id (je_record e)) (cp_byIdempotencyKey p)\<rparr>"

definition candidate_of :: "job_entry \<Rightarrow> admission_candidate" where
  "candidate_of e =
     \<lparr>ac_jobId = jb_id (je_record e), ac_provider = jr_provider (jb_request (je_record e)),
      ac_repositoryKey = jr_cwd (jb_request (je_record e)),
      ac_enqueuedAt = jb_createdAt (je_record e), ac_model = jr_model (jb_request (je_record e))\<rparr>"

definition offer_job :: "job_entry \<Rightarrow> unit plane_op" where
  "offer_job e =
     op_bind (op_gets cp_scheduler) (\<lambda>scheduler.
       case scheduler of
         None \<Rightarrow> op_bind (dispatch_start (jb_id (je_record e)) False) (\<lambda>_. op_return ())
       | Some s \<Rightarrow>
           op_then (op_modify (\<lambda>p. p\<lparr>cp_scheduler := Some (enqueue (candidate_of e) s)\<rparr>)) pump)"

definition existing_job :: "string \<Rightarrow> job_plane \<Rightarrow> ident option" where
  "existing_job key p =
     (case js_get (cp_byIdempotencyKey p) key of
        None \<Rightarrow> None | Some j \<Rightarrow> (if js_has (cp_jobs p) j then Some j else None))"

text \<open>
  The answer is the job id and whether the submission was deduplicated; the record the caller is
  sent is the one stored under that id when its promise resolves.
\<close>

definition create_fresh :: "plane_config \<Rightarrow> create_spec \<Rightarrow> job_request \<Rightarrow> (ident \<times> bool) plane_op" where
  "create_fresh c spec rq =
     op_bind newId (\<lambda>j.
     op_then (require_uuid c j)
     (op_then (budget_gate spec j)
     (op_bind cp_now (\<lambda>now.
     let e = new_entry spec rq j now in
     op_then (op_modify (enter_job e))
     (op_then (persist j)
     (op_then (emit EvJobSubmitted j)
     (op_then (op_when (cs_delegationId spec \<noteq> None) (emit EvDelegationCreated j))
     (op_then (offer_job e)
       (op_return (j, False))))))))))"

definition create :: "plane_config \<Rightarrow> create_spec \<Rightarrow> (ident \<times> bool) plane_op" where
  "create c spec =
     op_bind (op_gets (existing_job (cs_idempotencyKey spec))) (\<lambda>existing.
       case existing of
         Some j \<Rightarrow> op_return (j, True)
       | None \<Rightarrow>
           op_bind (op_gets (inherited_request spec)) (\<lambda>rq.
           op_then (op_when (\<not> pc_requestValid c rq) (op_throw PlaneSchemaRejected))
           (op_bind (op_gets (launch_refusal spec rq)) (\<lambda>refusal.
              case refusal of
                Some err \<Rightarrow> op_throw err
              | None \<Rightarrow> create_fresh c spec rq))))"

definition submit :: "plane_config \<Rightarrow> submit_job_params \<Rightarrow> (ident \<times> bool) plane_op" where
  "submit c params =
     op_then (op_when (\<not> pc_submitValid c params) (op_throw PlaneSchemaRejected))
     (op_bind (case sp_correlationId params of
                 Some i \<Rightarrow> op_return i | None \<Rightarrow> newCorrelationId c) (\<lambda>correlation.
        create c \<lparr>cs_request = sp_request params, cs_idempotencyKey = sp_idempotencyKey params,
                  cs_correlationId = correlation, cs_parentJobId = None, cs_parentSessionId = None,
                  cs_sessionId = sp_sessionId params, cs_delegationId = None\<rparr>))"

definition max_depth :: "plane_config \<Rightarrow> nat" where
  "max_depth c = (case pc_maxDelegationDepth c of None \<Rightarrow> 1 | Some d \<Rightarrow> d)"

definition delegation_refusal :: "plane_config \<Rightarrow> delegation_intent \<Rightarrow> job_plane \<Rightarrow> plane_error option" where
  "delegation_refusal c intent p =
     (case di_parentJobId intent of
        None \<Rightarrow> None
      | Some q \<Rightarrow>
          (if \<not> js_has (cp_jobs p) q then Some (PlaneCode JobNotFound)
           else if max_depth c \<le> length (lineage q (cp_jobs p)) then Some MaxDelegationDepth
           else None))"

definition delegate :: "plane_config \<Rightarrow> delegation_intent \<Rightarrow> (ident \<times> bool) plane_op" where
  "delegate c intent =
     op_then (op_when (\<not> pc_intentValid c intent) (op_throw PlaneSchemaRejected))
     (op_bind (op_gets (delegation_refusal c intent)) (\<lambda>refusal.
        case refusal of
          Some err \<Rightarrow> op_throw err
        | None \<Rightarrow>
            create c \<lparr>cs_request = di_request intent, cs_idempotencyKey = di_delegationId intent,
                      cs_correlationId = di_correlationId intent,
                      cs_parentJobId = di_parentJobId intent,
                      cs_parentSessionId = di_parentSessionId intent, cs_sessionId = None,
                      cs_delegationId = Some (di_delegationId intent)\<rparr>))"

subsection \<open>Reports, cancellation and quarantine\<close>

text \<open>\<^verbatim>\<open>ingestReport\<close> and \<^verbatim>\<open>quarantine\<close> mark a job interrupted in the same way.\<close>

definition interrupt :: "ident \<Rightarrow> string \<Rightarrow> usage_report option \<Rightarrow> unit plane_op" where
  "interrupt j reason usage =
     op_bind cp_now (\<lambda>now.
     op_then (update_entry j (\<lambda>e. (with_lifecycle (Interrupted now reason) now e)
                                     \<lparr>je_usage := or_else usage (je_usage e)\<rparr>))
     (op_then (persist j)
     (op_then (emit EvJobInterrupted j)
       (releaseSlot j))))"

definition ingestReport :: "plane_config \<Rightarrow> job_report \<Rightarrow> ingest_result plane_op" where
  "ingestReport c report =
     op_then (op_when (\<not> pc_reportValid c report) (op_throw PlaneSchemaRejected))
     (op_bind (op_gets (\<lambda>p. js_get (cp_jobs p) (jp_jobId report))) (\<lambda>found.
        case found of
          None \<Rightarrow> op_return IngestUnknownJob
        | Some e \<Rightarrow>
            (if is_settled (lifecycle_of e) then op_return IngestAlreadySettled
             else case jp_result report of
                    Failed RuntimeInterrupted message xs \<Rightarrow>
                      op_then (interrupt (jp_jobId report) message (jp_usage report))
                        (op_return IngestInterrupted)
                  | r \<Rightarrow>
                      op_then (settle (jp_jobId report) r (jp_usage report))
                        (op_return IngestSettled))))"

text \<open>
  \<^verbatim>\<open>cancel\<close> up to the call of the adapter; no answer means that the call is awaited.
\<close>

definition cancel :: "plane_config \<Rightarrow> ident \<Rightarrow> string option \<Rightarrow> (cancellation_result option) plane_op" where
  "cancel c j reason =
     op_then (require_uuid c j)
     (op_bind (op_gets (\<lambda>p. js_get (cp_jobs p) j)) (\<lambda>found.
        case found of
          None \<Rightarrow> op_throw (PlaneCode JobNotFound)
        | Some e \<Rightarrow>
            (if is_settled (lifecycle_of e) then op_throw (PlaneCode JobAlreadyTerminal)
             else op_bind (op_gets (\<lambda>p. jr_provider (jb_request (je_record e)) \<in> set (cp_adapters p)))
               (\<lambda>served.
                  if is_queued (lifecycle_of e) \<or> is_interrupted (lifecycle_of e) \<or> \<not> served
                  then op_then (settle j (Cancelled reason) None) (op_return (Some CancelAccepted))
                  else op_then (op_modify (\<lambda>p. p\<lparr>cp_cancelCalls := cp_cancelCalls p @ [j],
                                                 cp_cancelling := cp_cancelling p @ [(j, reason)]\<rparr>))
                         (op_return None)))))"

definition cancel_return ::
  "ident \<Rightarrow> string option \<Rightarrow> cancellation_result \<Rightarrow> cancellation_result plane_op" where
  "cancel_return j reason answer =
     op_bind (op_gets (\<lambda>p. (j, reason) \<in> set (cp_cancelling p))) (\<lambda>awaited.
       if \<not> awaited then op_return answer
       else op_then (op_modify (\<lambda>p. p\<lparr>cp_cancelling := remove1 (j, reason) (cp_cancelling p)\<rparr>))
              (op_then (op_when (answer = CancelAccepted) (settle j (Cancelled reason) None))
                 (op_return answer)))"

definition requireReportBack :: "plane_config \<Rightarrow> ident \<Rightarrow> report_back_record plane_op" where
  "requireReportBack c j =
     op_then (require_uuid c j)
     (op_bind (op_gets (\<lambda>p. js_get (cp_jobs p) j)) (\<lambda>found.
        case found of
          None \<Rightarrow> op_throw (PlaneCode JobNotFound)
        | Some e \<Rightarrow>
            (case je_reportBack e of
               None \<Rightarrow> op_throw (PlaneCode JobNotFound) | Some rb \<Rightarrow> op_return rb)))"

definition acknowledgeReport :: "plane_config \<Rightarrow> ident \<Rightarrow> report_back_record plane_op" where
  "acknowledgeReport c j =
     op_bind (requireReportBack c j) (\<lambda>rb.
       if rb_state rb = RbDelivered then op_return rb
       else op_bind cp_now (\<lambda>now.
            let rb' = rb\<lparr>rb_state := RbDelivered, rb_deliveredAt := Some now, rb_updatedAt := now\<rparr> in
            op_then (update_entry j (\<lambda>e. e\<lparr>je_reportBack := Some rb'\<rparr>))
            (op_then (persist j)
            (op_then (emit EvJobReportAcknowledged j)
              (op_return rb')))))"

definition failReport :: "plane_config \<Rightarrow> ident \<Rightarrow> string \<Rightarrow> report_back_record plane_op" where
  "failReport c j err =
     op_bind (requireReportBack c j) (\<lambda>rb.
     op_bind cp_now (\<lambda>now.
     let rb' = rb\<lparr>rb_state := RbFailed, rb_attempts := rb_attempts rb + 1, rb_lastError := Some err,
                  rb_updatedAt := now\<rparr> in
     op_then (update_entry j (\<lambda>e. e\<lparr>je_reportBack := Some rb'\<rparr>))
     (op_then (persist j)
     (op_then (emit EvJobReportFailed j)
       (op_return rb')))))"

definition quarantine :: "plane_config \<Rightarrow> ident \<Rightarrow> string \<Rightarrow> bool plane_op" where
  "quarantine c j reason =
     op_then (require_uuid c j)
     (op_bind (op_gets (\<lambda>p. js_get (cp_jobs p) j)) (\<lambda>found.
        case found of
          None \<Rightarrow> op_return False
        | Some e \<Rightarrow>
            (if is_settled (lifecycle_of e) \<or> is_interrupted (lifecycle_of e) then op_return False
             else op_then (interrupt j reason None) (op_return True))))"

definition snapshot_of :: "job_entry \<Rightarrow> job_snapshot" where
  "snapshot_of e =
     \<lparr>js_record = je_record e, js_usage = je_usage e, js_reportBack = je_reportBack e\<rparr>"

definition getJob :: "plane_config \<Rightarrow> ident \<Rightarrow> job_snapshot plane_op" where
  "getJob c j =
     op_then (require_uuid c j)
     (op_bind (op_gets (\<lambda>p. js_get (cp_jobs p) j)) (\<lambda>found.
        case found of
          None \<Rightarrow> op_throw (PlaneCode JobNotFound) | Some e \<Rightarrow> op_return (snapshot_of e)))"

definition listJobs :: "job_plane \<Rightarrow> job_snapshot list" where
  "listJobs p = map snapshot_of (js_values (cp_jobs p))"

definition listReportBacks :: "job_plane \<Rightarrow> report_back_record list" where
  "listReportBacks p = List.map_filter je_reportBack (js_values (cp_jobs p))"

definition queueSnapshot :: "job_plane \<Rightarrow> admission_snapshot" where
  "queueSnapshot p =
     (case cp_scheduler p of
        Some s \<Rightarrow> snapshot s
      | None \<Rightarrow>
          \<lparr>sn_limits = \<lparr>cd_schemaVersion = 1, maxConcurrentJobs = None,
             maxConcurrentPerProvider = None, maxConcurrentPerRepository = None\<rparr>,
           sn_admissionOpen = False, sn_reservations = [], sn_queued = []\<rparr>)"

definition budgetReport :: "instant \<Rightarrow> job_plane \<Rightarrow> budget_scope_report list" where
  "budgetReport now p = (case cp_budgets p of None \<Rightarrow> [] | Some l \<Rightarrow> ledger_report now l)"

subsection \<open>Adapters and recovery\<close>

definition registerAdapter :: "string \<Rightarrow> job_plane \<Rightarrow> job_plane" where
  "registerAdapter provider p = p\<lparr>cp_adapters := js_add provider (cp_adapters p)\<rparr>"

definition unregisterAdapter :: "string \<Rightarrow> job_plane \<Rightarrow> job_plane" where
  "unregisterAdapter provider p = p\<lparr>cp_adapters := removeAll provider (cp_adapters p)\<rparr>"

text \<open>The listener of a registered adapter: a failed ingest is remembered, not thrown.\<close>

definition onReport :: "plane_config \<Rightarrow> job_report \<Rightarrow> job_plane \<Rightarrow> job_plane" where
  "onReport c report p =
     (case ingestReport c report p of
        (Inl err, q) \<Rightarrow> q\<lparr>cp_pendingReportError := Some err\<rparr>
      | (Inr _, q) \<Rightarrow> q)"

definition whenIdle :: "unit plane_op" where
  "whenIdle p =
     (case cp_pendingReportError p of None \<Rightarrow> (Inr (), p) | Some err \<Rightarrow> (Inl err, p))"

definition restored_entry :: "persisted_job_state \<Rightarrow> job_entry" where
  "restored_entry st =
     \<lparr>je_record = ps_record st, je_idempotencyKey = ps_idempotencyKey st,
      je_parentSessionId = ps_parentSessionId st, je_usage = ps_usage st,
      je_reportBack = ps_reportBack st, je_holdsSlot = False\<rparr>"

definition state_id :: "persisted_job_state \<Rightarrow> ident" where
  "state_id st = jb_id (ps_record st)"

definition restart_reason :: string where
  "restart_reason =
     ''Broker restarted; previous runtime ownership is unverifiable and explicit recovery is required''"

definition recover_entry :: "ident \<Rightarrow> unit plane_op" where
  "recover_entry j =
     op_bind (op_gets (\<lambda>p. case js_get (cp_jobs p) j of
                             None \<Rightarrow> False
                           | Some e \<Rightarrow> \<not> is_settled (lifecycle_of e) \<and> \<not> is_interrupted (lifecycle_of e)))
       (\<lambda>live.
          op_when live
            (op_bind cp_now (\<lambda>now.
               op_then (update_entry j (with_lifecycle (Interrupted now restart_reason) now))
                 (persist j))))"

definition load_states :: "persisted_job_state list \<Rightarrow> job_plane \<Rightarrow> job_plane" where
  "load_states states p =
     fold (\<lambda>st. enter_job (restored_entry st)) states
       (p\<lparr>cp_jobs := [], cp_byIdempotencyKey := []\<rparr>)"

definition recover :: "unit plane_op" where
  "recover =
     op_bind (op_gets cp_store) (\<lambda>store.
       case store of
         None \<Rightarrow> op_return ()
       | Some written \<Rightarrow>
           op_then (op_modify (load_states (js_values (replay state_id written))))
             (op_bind (op_gets (\<lambda>p. js_keys (cp_jobs p))) (\<lambda>ids. op_for recover_entry ids)))"

subsection \<open>Runs\<close>

text \<open>What can happen to a plane after startup, in any order.\<close>

datatype plane_event =
    EvSubmit submit_job_params
  | EvDelegate delegation_intent
  | EvDispatchReturn ident bool "string option"
  | EvIngest job_report
  | EvOnReport job_report
  | EvCancel ident "string option"
  | EvCancelReturn ident "string option" cancellation_result
  | EvAcknowledge ident
  | EvFailReport ident string
  | EvQuarantine ident string
  | EvPump
  | EvOpenAdmission
  | EvCloseAdmission
  | EvRegisterAdapter string
  | EvUnregisterAdapter string

fun plane_step :: "plane_config \<Rightarrow> plane_event \<Rightarrow> job_plane \<Rightarrow> job_plane" where
  "plane_step c (EvSubmit params) p = snd (submit c params p)"
| "plane_step c (EvDelegate intent) p = snd (delegate c intent p)"
| "plane_step c (EvDispatchReturn j b f) p = snd (dispatch_return j b f p)"
| "plane_step c (EvIngest r) p = snd (ingestReport c r p)"
| "plane_step c (EvOnReport r) p = onReport c r p"
| "plane_step c (EvCancel j reason) p = snd (cancel c j reason p)"
| "plane_step c (EvCancelReturn j reason a) p = snd (cancel_return j reason a p)"
| "plane_step c (EvAcknowledge j) p = snd (acknowledgeReport c j p)"
| "plane_step c (EvFailReport j err) p = snd (failReport c j err p)"
| "plane_step c (EvQuarantine j reason) p = snd (quarantine c j reason p)"
| "plane_step c EvPump p = snd (pump p)"
| "plane_step c EvOpenAdmission p = p\<lparr>cp_scheduler := map_option openAdmission (cp_scheduler p)\<rparr>"
| "plane_step c EvCloseAdmission p = p\<lparr>cp_scheduler := map_option closeAdmission (cp_scheduler p)\<rparr>"
| "plane_step c (EvRegisterAdapter a) p = registerAdapter a p"
| "plane_step c (EvUnregisterAdapter a) p = unregisterAdapter a p"

definition new_plane ::
  "provider_registry \<Rightarrow> admission_scheduler option \<Rightarrow> budget_ledger option
     \<Rightarrow> persisted_job_state list option \<Rightarrow> broker_event list option \<Rightarrow> plane_env \<Rightarrow> job_plane" where
  "new_plane registry scheduler budgets store journal env =
     \<lparr>cp_jobs = [], cp_byIdempotencyKey = [], cp_adapters = [], cp_pendingReportError = None,
      cp_pumping = False, cp_registry = registry, cp_scheduler = scheduler, cp_budgets = budgets,
      cp_store = store, cp_journal = journal, cp_dispatchCalls = [], cp_cancelCalls = [],
      cp_dispatching = [], cp_cancelling = [], cp_env = env\<rparr>"

end
