(* ===== verification/Job_Plane_Invariants.thy ===== *)
theory Job_Plane_Invariants
  imports Job_Control_Plane
begin

text \<open>
  Invariants of the job control plane. The locale \<open>plane_invariant\<close> lists, per elementary change
  the plane makes to its state, what a predicate has to satisfy; inside it every method and every
  run of events is shown to keep the predicate, once. Its interpretations are the well-formedness
  of the plane, the stability of settled jobs and of idempotency keys, the soundness of job records
  and their lineage, slot custody, and at-most-once dispatch.
\<close>

subsection \<open>Well-formedness\<close>

definition entry_id :: "job_entry \<Rightarrow> ident" where
  "entry_id e = jb_id (je_record e)"

definition env_later :: "plane_env \<Rightarrow> plane_env \<Rightarrow> bool" where
  "env_later v w = (pe_ids w = pe_ids v \<and> pe_idCount v \<le> pe_idCount w)"

text \<open>The id factory never repeats itself, and no id still to come names a job.\<close>

definition fresh_ids :: "job_plane \<Rightarrow> bool" where
  "fresh_ids p =
     (inj (pe_ids (cp_env p))
      \<and> (\<forall>n. pe_idCount (cp_env p) \<le> n \<longrightarrow> js_get (cp_jobs p) (pe_ids (cp_env p) n) = None))"

definition scheduler_linked :: "ident set \<Rightarrow> admission_scheduler option \<Rightarrow> bool" where
  "scheduler_linked ids so =
     (case so of None \<Rightarrow> True
      | Some s \<Rightarrow> scheduler_inv s \<and> set (js_keys (as_queue s)) \<subseteq> ids
                 \<and> set (js_keys (as_reservations s)) \<subseteq> ids)"

definition linked :: "job_plane \<Rightarrow> bool" where
  "linked p =
     (keyed entry_id (cp_jobs p)
      \<and> set (cp_dispatchCalls p) \<subseteq> set (js_keys (cp_jobs p))
      \<and> fst ` set (cp_dispatching p) \<subseteq> set (js_keys (cp_jobs p))
      \<and> scheduler_linked (set (js_keys (cp_jobs p))) (cp_scheduler p))"

definition base :: "job_plane \<Rightarrow> bool" where
  "base p = (fresh_ids p \<and> linked p)"

text \<open>Nothing but the job map mentions the job.\<close>

definition untouched :: "ident \<Rightarrow> job_plane \<Rightarrow> bool" where
  "untouched j p =
     (j \<notin> set (cp_dispatchCalls p) \<and> j \<notin> fst ` set (cp_dispatching p)
      \<and> (case cp_scheduler p of None \<Rightarrow> True
         | Some s \<Rightarrow> j \<notin> set (js_keys (as_queue s)) \<and> j \<notin> set (js_keys (as_reservations s))))"

definition finished :: "ident \<Rightarrow> job_plane \<Rightarrow> bool" where
  "finished j p =
     (\<forall>e. js_get (cp_jobs p) j = Some e \<longrightarrow> is_settled (lifecycle_of e) \<or> is_interrupted (lifecycle_of e))"

definition set_entry :: "ident \<Rightarrow> job_entry \<Rightarrow> job_plane \<Rightarrow> job_plane" where
  "set_entry j e p = p\<lparr>cp_jobs := js_set j e (cp_jobs p)\<rparr>"

definition call_dispatch :: "ident \<Rightarrow> bool \<Rightarrow> job_plane \<Rightarrow> job_plane" where
  "call_dispatch j b p =
     p\<lparr>cp_dispatchCalls := cp_dispatchCalls p @ [j], cp_dispatching := cp_dispatching p @ [(j, b)]\<rparr>"

definition drop_dispatch :: "ident \<Rightarrow> bool \<Rightarrow> job_plane \<Rightarrow> job_plane" where
  "drop_dispatch j b p = p\<lparr>cp_dispatching := remove1 (j, b) (cp_dispatching p)\<rparr>"

definition interrupted_entry :: "instant \<Rightarrow> string \<Rightarrow> usage_report option \<Rightarrow> job_entry \<Rightarrow> job_entry" where
  "interrupted_entry now reason usage e =
     (with_lifecycle (Interrupted now reason) now e)\<lparr>je_usage := or_else usage (je_usage e)\<rparr>"

text \<open>The parent a new job names is known and may still delegate.\<close>

definition parent_ok :: "plane_config \<Rightarrow> create_spec \<Rightarrow> job_plane \<Rightarrow> bool" where
  "parent_ok c spec p =
     (case cs_parentJobId spec of None \<Rightarrow> True
      | Some q \<Rightarrow> js_has (cp_jobs p) q \<and> length (lineage q (cp_jobs p)) < max_depth c)"

definition launch_safe :: "create_spec \<Rightarrow> job_request \<Rightarrow> bool" where
  "launch_safe spec rq =
     (\<not> (spec_delegated spec \<and> isFableModel (jr_model rq))
      \<and> evaluateClaudeLaunchSafety (jr_provider rq) (jr_model rq) = LaunchSafe)"

lemma update_entry_exec:
  "update_entry j f p =
     (Inr (), case js_get (cp_jobs p) j of None \<Rightarrow> p | Some e \<Rightarrow> set_entry j (f e) p)"
  by (simp add: update_entry_def op_modify_def set_entry_def split: option.split)

lemma lifecycle_updates [simp]:
  "lifecycle_of (with_lifecycle l now e) = l"
  "lifecycle_of (settled_entry now r u e) = Settled now r"
  "lifecycle_of (interrupted_entry now reason u e) = Interrupted now reason"
  "lifecycle_of (e\<lparr>je_reportBack := rb\<rparr>) = lifecycle_of e"
  "lifecycle_of (e\<lparr>je_holdsSlot := b\<rparr>) = lifecycle_of e"
  by (simp_all add: lifecycle_of_def with_lifecycle_def settled_entry_def interrupted_entry_def)

lemma set_entry_jobs [simp]: "cp_jobs (set_entry j e p) = js_set j e (cp_jobs p)"
  by (simp add: set_entry_def)

lemma update_triple:
  assumes "\<And>p. P p \<Longrightarrow> js_get (cp_jobs p) j = None \<Longrightarrow> Q p"
    and "\<And>p e. P p \<Longrightarrow> js_get (cp_jobs p) j = Some e \<Longrightarrow> Q (set_entry j (f e) p)"
  shows "op_triple P (update_entry j f) (\<lambda>_. Q) E"
  using assms by (auto simp: op_triple_def update_entry_exec split: option.split)

definition unsettled :: "ident \<Rightarrow> job_plane \<Rightarrow> bool" where
  "unsettled j p = (\<forall>e. js_get (cp_jobs p) j = Some e \<longrightarrow> \<not> is_settled (lifecycle_of e))"

text \<open>An id taken from the factory that names no job yet.\<close>

definition drawn :: "ident \<Rightarrow> job_plane \<Rightarrow> bool" where
  "drawn j p =
     (js_get (cp_jobs p) j = None \<and> (\<exists>n < pe_idCount (cp_env p). j = pe_ids (cp_env p) n))"

definition may_create :: "plane_config \<Rightarrow> create_spec \<Rightarrow> job_plane \<Rightarrow> bool" where
  "may_create c spec p = (existing_job (cs_idempotencyKey spec) p = None \<and> parent_ok c spec p)"

lemma may_create_frame [simp]:
  "may_create c spec (p\<lparr>cp_env := v\<rparr>) = may_create c spec p"
  "may_create c spec (p\<lparr>cp_store := st\<rparr>) = may_create c spec p"
  "may_create c spec (p\<lparr>cp_journal := jn\<rparr>) = may_create c spec p"
  "may_create c spec (p\<lparr>cp_budgets := b\<rparr>) = may_create c spec p"
  by (simp_all add: may_create_def existing_job_def parent_ok_def cong: option.case_cong)

lemma drawn_frame [simp]:
  "drawn j (p\<lparr>cp_store := st\<rparr>) = drawn j p"
  "drawn j (p\<lparr>cp_journal := jn\<rparr>) = drawn j p"
  "drawn j (p\<lparr>cp_budgets := b\<rparr>) = drawn j p"
  by (simp_all add: drawn_def)

lemma drawn_later: "drawn j p \<Longrightarrow> env_later (cp_env p) v \<Longrightarrow> drawn j (p\<lparr>cp_env := v\<rparr>)"
proof -
  assume "drawn j p" "env_later (cp_env p) v"
  then obtain n where "n < pe_idCount v" "j = pe_ids v n" "js_get (cp_jobs p) j = None"
    by (auto simp: drawn_def env_later_def intro: order.strict_trans2)
  then show ?thesis by (auto simp: drawn_def)
qed

lemma untouched_frame [simp]:
  "untouched j (p\<lparr>cp_env := v\<rparr>) = untouched j p"
  "untouched j (p\<lparr>cp_store := st\<rparr>) = untouched j p"
  "untouched j (p\<lparr>cp_journal := jn\<rparr>) = untouched j p"
  "untouched j (p\<lparr>cp_budgets := b\<rparr>) = untouched j p"
  by (simp_all add: untouched_def)

lemma base_untouched: "base p \<Longrightarrow> js_get (cp_jobs p) j = None \<Longrightarrow> untouched j p"
proof -
  assume "base p" "js_get (cp_jobs p) j = None"
  then have "linked p" "j \<notin> set (js_keys (cp_jobs p))"
    using js.keys_get [of j "cp_jobs p"] by (simp_all add: base_def del: set_map)
  then show ?thesis
    unfolding linked_def untouched_def scheduler_linked_def
    by (auto simp del: set_map split: option.splits)
qed

subsection \<open>Frames\<close>

text \<open>
  A predicate of the plane that the surroundings, the store, the journal and the budgets do not
  affect is kept by the operations that touch only those.
\<close>

locale plane_frame =
  fixes P :: "job_plane \<Rightarrow> bool"
  assumes frame_env: "P p \<Longrightarrow> env_later (cp_env p) v \<Longrightarrow> P (p\<lparr>cp_env := v\<rparr>)"
    and frame_store: "P p \<Longrightarrow> P (p\<lparr>cp_store := st\<rparr>)"
    and frame_journal: "P p \<Longrightarrow> P (p\<lparr>cp_journal := jn\<rparr>)"
    and frame_budgets: "P p \<Longrightarrow> P (p\<lparr>cp_budgets := b\<rparr>)"
begin

lemma keeps_now: "op_keeps P cp_now"
  by (simp add: op_keeps_def cp_now_def Let_def frame_env env_later_def)

lemma keeps_newId: "op_keeps P newId"
  by (simp add: op_keeps_def newId_def Let_def frame_env env_later_def)

lemma keeps_uuid: "op_keeps P (require_uuid c i)"
  unfolding require_uuid_def by (intro op_rules)

lemma keeps_correlation: "op_keeps P (newCorrelationId c)"
  unfolding newCorrelationId_def by (intro op_rules keeps_newId keeps_uuid)

lemma keeps_persist: "op_keeps P (persist j)"
proof -
  have "P (p\<lparr>cp_env := (cp_env p)\<lparr>pe_writes := n\<rparr>\<rparr>)" if "P p" for p n
    using that by (rule frame_env) (simp add: env_later_def)
  then show ?thesis
    by (auto simp: op_keeps_def persist_def Let_def intro!: frame_store split: option.split)
qed

lemma keeps_append_event: "op_keeps P (append_event ev)"
proof -
  have "P (p\<lparr>cp_env := (cp_env p)\<lparr>pe_emits := n\<rparr>\<rparr>)" if "P p" for p n
    using that by (rule frame_env) (simp add: env_later_def)
  then show ?thesis
    by (auto simp: op_keeps_def append_event_def Let_def intro!: frame_journal split: option.split)
qed

lemma keeps_emit: "op_keeps P (emit t j)"
proof -
  have "op_keeps P (if jn = None then op_return ()
      else op_bind newId (\<lambda>i. op_bind cp_now (\<lambda>now.
        append_event \<lparr>ev_id = i, ev_type = t, ev_occurredAt = now, ev_jobId = j\<rparr>)))"
    for jn :: "broker_event list option"
    by (cases jn) (auto intro: op_rules keeps_newId keeps_now keeps_append_event)
  then show ?thesis unfolding emit_def by (intro op_rules)
qed

lemma keeps_debit: "op_keeps P (debitBudget j r usage)"
  unfolding debitBudget_def
  by (rule op_keeps_modify) (auto simp: frame_budgets split: option.split)

lemma keeps_budget_gate: "op_keeps P (budget_gate spec j)"
proof -
  have "op_keeps P (op_modify (\<lambda>p. p\<lparr>cp_budgets := b\<rparr>))" for b
    by (rule op_keeps_modify) (rule frame_budgets)
  then have "op_keeps P (case budgets of None \<Rightarrow> op_return ()
    | Some l \<Rightarrow> op_bind cp_now (\<lambda>now.
        op_bind (op_gets (\<lambda>p. case cs_parentJobId spec of None \<Rightarrow> j | Some q \<Rightarrow> scopeOf q (cp_jobs p))) (\<lambda>scope.
             op_then (op_modify (\<lambda>p. p\<lparr>cp_budgets := Some (snd (ledger_admit now scope j l))\<rparr>))
               (op_when (fst (ledger_admit now scope j l) \<noteq> BudgetOk)
                  (op_throw (PlaneCode BudgetExceededCode))))))" for budgets
    by (cases budgets) (auto intro!: op_rules keeps_now)
  then show ?thesis unfolding budget_gate_def by (intro op_rules)
qed

lemmas frame_rules = op_rules keeps_now keeps_newId keeps_uuid keeps_correlation keeps_persist
  keeps_emit keeps_debit keeps_budget_gate

end

text \<open>A new job from the moment its id is drawn to the offer of its slot.\<close>

definition ready_to_enter ::
  "(job_plane \<Rightarrow> bool) \<Rightarrow> plane_config \<Rightarrow> create_spec \<Rightarrow> ident \<Rightarrow> job_plane \<Rightarrow> bool" where
  "ready_to_enter P c spec j p = (P p \<and> may_create c spec p \<and> drawn j p)"

definition entered :: "(job_plane \<Rightarrow> bool) \<Rightarrow> ident \<Rightarrow> job_entry \<Rightarrow> job_plane \<Rightarrow> bool" where
  "entered P j e p = (P p \<and> js_get (cp_jobs p) j = Some e \<and> untouched j p)"

subsection \<open>The laws of an invariant\<close>

text \<open>
  The laws for everything that happens while the startup gate is not opened; a predicate that also
  survives the opening of the gate is an invariant of every run.
\<close>

locale gated_invariant = plane_frame P for P :: "job_plane \<Rightarrow> bool" +
  fixes c :: plane_config
  assumes is_base: "P p \<Longrightarrow> base p"
    and law_adapters: "P p \<Longrightarrow> P (p\<lparr>cp_adapters := a\<rparr>)"
    and law_error: "P p \<Longrightarrow> P (p\<lparr>cp_pendingReportError := pe\<rparr>)"
    and law_pumping: "P p \<Longrightarrow> P (p\<lparr>cp_pumping := b\<rparr>)"
    and law_cancelling: "P p \<Longrightarrow> P (p\<lparr>cp_cancelling := w\<rparr>)"
    and law_cancelCalls: "P p \<Longrightarrow> P (p\<lparr>cp_cancelCalls := cc\<rparr>)"
    and law_close: "P p \<Longrightarrow> P (p\<lparr>cp_scheduler := map_option closeAdmission (cp_scheduler p)\<rparr>)"
    and law_settled:
      "P p \<Longrightarrow> js_get (cp_jobs p) j = Some e \<Longrightarrow> P (set_entry j (settled_entry now res u e) p)"
    and law_interrupted:
      "P p \<Longrightarrow> js_get (cp_jobs p) j = Some e \<Longrightarrow> \<not> is_settled (lifecycle_of e) \<Longrightarrow>
         P (set_entry j (interrupted_entry now reason u e) p)"
    and law_report_back:
      "P p \<Longrightarrow> js_get (cp_jobs p) j = Some e \<Longrightarrow> je_reportBack e = Some rb \<Longrightarrow>
         P (set_entry j (e\<lparr>je_reportBack := Some rb'\<rparr>) p)"
    and law_undispatch: "P p \<Longrightarrow> P (drop_dispatch j b p)"
    and law_dispatched:
      "P p \<Longrightarrow> (j, b) \<in> set (cp_dispatching p) \<Longrightarrow> js_get (cp_jobs p) j = Some e \<Longrightarrow>
         is_queued (lifecycle_of e) \<Longrightarrow>
         P (set_entry j (with_lifecycle (Dispatched now) now e) (drop_dispatch j b p))"
    and law_free: "P p \<Longrightarrow> finished j p \<Longrightarrow> P (snd (free_slot j p))"
    and law_drop:
      "P p \<Longrightarrow> pump_admit p = (Some r, q) \<Longrightarrow>
         (\<And>e. js_get (cp_jobs q) (sr_jobId r) = Some e \<Longrightarrow> \<not> is_queued (lifecycle_of e)) \<Longrightarrow>
         P (drop_reservation (sr_jobId r) q)"
    and law_hold:
      "P p \<Longrightarrow> pump_admit p = (Some r, q) \<Longrightarrow> js_get (cp_jobs q) (sr_jobId r) = Some e \<Longrightarrow>
         is_queued (lifecycle_of e) \<Longrightarrow> P (hold_slot (sr_jobId r) q)"
    and law_call:
      "P p \<Longrightarrow> pump_admit p = (Some r, q) \<Longrightarrow> js_get (cp_jobs q) (sr_jobId r) = Some e \<Longrightarrow>
         is_queued (lifecycle_of e) \<Longrightarrow> P (call_dispatch (sr_jobId r) True (hold_slot (sr_jobId r) q))"
    and law_enter:
      "P p \<Longrightarrow> js_get (cp_jobs p) j = None \<Longrightarrow> n < pe_idCount (cp_env p) \<Longrightarrow> j = pe_ids (cp_env p) n \<Longrightarrow>
         existing_job (cs_idempotencyKey spec) p = None \<Longrightarrow> launch_safe spec rq \<Longrightarrow> parent_ok c spec p \<Longrightarrow>
         P (enter_job (new_entry spec rq j now) p)"
    and law_enqueue:
      "P p \<Longrightarrow> cp_scheduler p = Some s \<Longrightarrow> e = new_entry spec rq j now \<Longrightarrow>
         js_get (cp_jobs p) j = Some e \<Longrightarrow> untouched j p \<Longrightarrow>
         P (p\<lparr>cp_scheduler := Some (enqueue (candidate_of e) s)\<rparr>)"
    and law_direct:
      "P p \<Longrightarrow> cp_scheduler p = None \<Longrightarrow> js_get (cp_jobs p) j = Some e \<Longrightarrow> untouched j p \<Longrightarrow>
         P (call_dispatch j False p)"
begin

lemma keeps_modify_laws:
  "op_keeps P (op_modify (\<lambda>p. p\<lparr>cp_cancelling := f p\<rparr>))"
  "op_keeps P (op_modify (\<lambda>p. p\<lparr>cp_cancelCalls := g p, cp_cancelling := f p\<rparr>))"
  by (rule op_keeps_modify, simp add: law_cancelling law_cancelCalls)+

lemma update_settled:
  "op_triple P (update_entry j (settled_entry now r u)) (\<lambda>_ p. P p \<and> finished j p) P"
  by (rule update_triple) (auto simp: finished_def js_lookup law_settled)

lemma finished_frame: "plane_frame (\<lambda>p. P p \<and> finished j p)"
  by unfold_locales (auto simp: finished_def frame_env frame_store frame_journal frame_budgets)

lemmas finished_keeps = plane_frame.frame_rules [OF finished_frame]

lemma free_finished: "op_triple (\<lambda>p. P p \<and> finished j p) (free_slot j) (\<lambda>_. P) P"
proof (rule op_tripleI)
  fix p
  assume "P p \<and> finished j p"
  then have "P (snd (free_slot j p))" using law_free by blast
  then show "case free_slot j p of (Inr x, t) \<Rightarrow> P t | (Inl e, t) \<Rightarrow> P t"
    by (simp add: free_slot_def op_modify_def)
qed

lemma settle_core_keeps: "op_keeps P (settle_core j r u)"
proof -
  have rest: "op_triple (\<lambda>p. P p \<and> finished j p) m (\<lambda>_ p. P p \<and> finished j p) P"
    if "op_keeps (\<lambda>p. P p \<and> finished j p) m" for m :: "'b plane_op"
    by (rule op_triple_weaken [OF keeps_triple [OF that]]) auto
  have "op_triple P (settle_core j r u) (\<lambda>_. P) P"
    unfolding settle_core_def
    by (intro op_triple_bind [OF keeps_triple [OF keeps_now]] op_triple_then [OF update_settled]
        op_triple_then [OF rest] op_triple_bind [OF rest] finished_keeps free_finished)
  then show ?thesis by (rule triple_keeps)
qed

lemma dispatch_start_unserved:
  assumes "entry_provider j p \<notin> set (cp_adapters p)" "P p"
  shows "P (snd (dispatch_start j b p))"
proof -
  have "P (snd (op_then (settle_core j r None) (op_return DispatchFinished) p))" for r
    by (rule op_keepsD [OF op_keeps_then [OF settle_core_keeps op_keeps_return] assms(2)])
  with assms(1) show ?thesis by (simp add: dispatch_start_def)
qed

lemma dispatch_start_served:
  "entry_provider j p \<in> set (cp_adapters p) \<Longrightarrow>
     dispatch_start j b p = (Inr DispatchAwaited, call_dispatch j b p)"
  by (simp add: dispatch_start_def op_then_def op_return_def call_dispatch_def)

lemma pump_loop_keeps: "P p \<Longrightarrow> P (snd (pump_loop fuel p))"
proof (induction fuel arbitrary: p)
  case (Suc fuel)
  have stop: "P (stop_pump q)" if "P q" for q
    using that by (simp add: stop_pump_def law_pumping)
  obtain ro q where admit: "pump_admit p = (ro, q)" by fastforce
  show ?case
  proof (cases ro)
    case None
    have "q = p" using admit None by (auto simp: pump_admit_def Let_def split: option.splits prod.splits)
    with Suc.prems admit None show ?thesis by (simp add: stop)
  next
    case (Some rv)
    note admit' = admit [unfolded Some]
    let ?j = "sr_jobId rv" and ?held = "hold_slot (sr_jobId rv) q"
    show ?thesis
    proof (cases "case js_get (cp_jobs q) ?j of None \<Rightarrow> True | Some e \<Rightarrow> \<not> is_queued (lifecycle_of e)")
      case True
      have "P (drop_reservation ?j q)"
        by (rule law_drop [OF Suc.prems admit']) (use True in auto)
      with Suc.IH True show ?thesis by (simp add: admit')
    next
      case False
      then obtain e where e: "js_get (cp_jobs q) ?j = Some e" "is_queued (lifecycle_of e)"
        by (auto split: option.splits)
      have "P (snd (dispatch_start ?j True ?held))"
      proof (cases "entry_provider ?j ?held \<in> set (cp_adapters ?held)")
        case True
        then show ?thesis
          using law_call [OF Suc.prems admit' e] by (simp add: dispatch_start_served)
      next
        case False
        then show ?thesis
          using law_hold [OF Suc.prems admit' e] by (rule dispatch_start_unserved)
      qed
      then show ?thesis
        using e Suc.IH stop
        by (auto simp: admit' split: prod.splits sum.splits dispatch_progress.splits)
    qed
  qed
qed simp

lemma pump_keeps: "op_keeps P pump"
  by (auto simp: op_keeps_def pump_def run_pump_def simp del: pump_loop.simps
      intro!: pump_loop_keeps law_pumping)

lemma settle_keeps: "op_keeps P (settle j r u)"
  unfolding settle_def by (intro op_rules settle_core_keeps pump_keeps)

lemma dispatch_finish_keeps:
  assumes "P p" "(j, b) \<in> set (cp_dispatching p)"
  shows "P (snd (dispatch_finish j failure (drop_dispatch j b p)))"
proof (cases failure)
  case (Some message)
  then show ?thesis
    using op_keepsD [OF settle_core_keeps law_undispatch [OF assms(1)]] by (simp add: dispatch_finish_def)
next
  case None
  let ?p = "drop_dispatch j b p"
  have jobs: "cp_jobs ?p = cp_jobs p" by (simp add: drop_dispatch_def)
  show ?thesis
  proof (cases "\<exists>e. js_get (cp_jobs p) j = Some e \<and> is_queued (lifecycle_of e)")
    case False
    then have "case js_get (cp_jobs ?p) j of None \<Rightarrow> True | Some e \<Rightarrow> \<not> is_queued (lifecycle_of e)"
      by (auto simp: jobs split: option.split)
    then show ?thesis
      using law_undispatch [OF assms(1)]
      by (auto simp: dispatch_finish_def None op_return_def split: option.splits)
  next
    case True
    then obtain e where e: "js_get (cp_jobs p) j = Some e" "is_queued (lifecycle_of e)" by blast
    let ?v = "cp_env p"
    let ?now = "pe_clock ?v (pe_ticks ?v)" and ?w = "?v\<lparr>pe_ticks := pe_ticks ?v + 1\<rparr>"
    have swap: "drop_dispatch j b (p\<lparr>cp_env := ?w\<rparr>) = (drop_dispatch j b p)\<lparr>cp_env := ?w\<rparr>"
      by (cases p) (simp add: drop_dispatch_def)
    have env: "cp_env ?p = ?v" by (simp add: drop_dispatch_def)
    have "P (p\<lparr>cp_env := ?w\<rparr>)" using assms(1) by (rule frame_env) (simp add: env_later_def)
    then have "P (set_entry j (with_lifecycle (Dispatched ?now) ?now e) (drop_dispatch j b (p\<lparr>cp_env := ?w\<rparr>)))"
      by (rule law_dispatched) (use assms(2) e in simp_all)
    then have "P (snd (op_then (persist j) (emit EvJobDispatched j)
        (set_entry j (with_lifecycle (Dispatched ?now) ?now e) (drop_dispatch j b (p\<lparr>cp_env := ?w\<rparr>)))))"
      by (rule op_keepsD [OF op_keeps_then [OF keeps_persist keeps_emit]])
    moreover have "dispatch_finish j failure ?p = op_then (persist j) (emit EvJobDispatched j)
        (set_entry j (with_lifecycle (Dispatched ?now) ?now e) (drop_dispatch j b (p\<lparr>cp_env := ?w\<rparr>)))"
      using e unfolding swap
      by (simp add: dispatch_finish_def None op_bind_def [of cp_now] cp_now_def Let_def
          op_then_def op_bind_def [of "update_entry j _"] update_entry_exec jobs env)
    ultimately show ?thesis by simp
  qed
qed

lemma dispatch_return_keeps: "op_keeps P (dispatch_return j b failure)"
proof -
  have "P (snd (dispatch_return j b failure p))" if "P p" for p
  proof (cases "(j, b) \<in> set (cp_dispatching p)")
    case False
    with that show ?thesis by (simp add: dispatch_return_def)
  next
    case True
    have "P (snd (dispatch_finish j failure (drop_dispatch j b p)))"
      by (rule dispatch_finish_keeps [OF that True])
    with True show ?thesis
      by (auto simp: dispatch_return_def drop_dispatch_def run_pump_def stop_pump_def law_pumping
          pump_loop_keeps simp del: pump_loop.simps split: prod.splits sum.splits)
  qed
  then show ?thesis by (simp add: op_keeps_def)
qed

lemma interrupt_triple:
  "op_triple (\<lambda>p. P p \<and> unsettled j p) (interrupt j reason u) (\<lambda>_. P) P"
proof -
  have frame: "plane_frame (\<lambda>p. P p \<and> unsettled j p)"
    by unfold_locales (auto simp: unsettled_def frame_env frame_store frame_journal frame_budgets)
  have now: "op_triple (\<lambda>p. P p \<and> unsettled j p) cp_now (\<lambda>_ p. P p \<and> unsettled j p) P"
    by (rule op_triple_weaken [OF keeps_triple [OF plane_frame.keeps_now [OF frame]]]) auto
  have rest: "op_triple (\<lambda>p. P p \<and> finished j p) m (\<lambda>_ p. P p \<and> finished j p) P"
    if "op_keeps (\<lambda>p. P p \<and> finished j p) m" for m :: "unit plane_op"
    by (rule op_triple_weaken [OF keeps_triple [OF that]]) auto
  have update: "op_triple (\<lambda>p. P p \<and> unsettled j p)
      (update_entry j (\<lambda>e. (with_lifecycle (Interrupted now reason) now e)\<lparr>je_usage := or_else u (je_usage e)\<rparr>))
      (\<lambda>_ p. P p \<and> finished j p) P" for now
    by (rule update_triple)
      (auto simp: finished_def unsettled_def js_lookup law_interrupted
        simp flip: interrupted_entry_def)
  show ?thesis
    unfolding interrupt_def releaseSlot_def
    by (intro op_triple_bind [OF now] op_triple_then [OF update] op_triple_then [OF rest]
        op_triple_then [OF free_finished] finished_keeps keeps_triple [OF pump_keeps])
qed

lemma interrupt_keeps:
  "P p \<Longrightarrow> js_get (cp_jobs p) j = Some e \<Longrightarrow> \<not> is_settled (lifecycle_of e) \<Longrightarrow>
     P (snd (interrupt j reason u p))"
  by (rule op_triple_snd [OF interrupt_triple]) (simp add: unsettled_def)

lemma update_report_back:
  "op_triple (\<lambda>p. P p \<and> (\<exists>e rb. js_get (cp_jobs p) j = Some e \<and> je_reportBack e = Some rb))
     (update_entry j (\<lambda>e. e\<lparr>je_reportBack := Some rb'\<rparr>)) (\<lambda>_. P) P"
  by (rule update_triple) (auto intro: law_report_back)

lemma report_frame:
  "plane_frame (\<lambda>p. P p \<and> (\<exists>e rb. js_get (cp_jobs p) j = Some e \<and> je_reportBack e = Some rb))"
  by unfold_locales (auto simp: frame_env frame_store frame_journal frame_budgets)

lemma requireReportBack_triple:
  "op_triple P (requireReportBack c' j)
     (\<lambda>_ p. P p \<and> (\<exists>e rb. js_get (cp_jobs p) j = Some e \<and> je_reportBack e = Some rb)) P"
proof (rule op_tripleI)
  fix p
  assume p: "P p"
  show "case requireReportBack c' j p of
      (Inr x, t) \<Rightarrow> P t \<and> (\<exists>e rb. js_get (cp_jobs t) j = Some e \<and> je_reportBack e = Some rb)
    | (Inl e, t) \<Rightarrow> P t"
    using p
    by (cases "js_get (cp_jobs p) j"; cases "pc_isUuid c' j")
      (auto simp: requireReportBack_def require_uuid_def op_then_def op_when_def op_throw_def
        op_return_def split: option.split)
qed

lemma acknowledge_keeps: "op_keeps P (acknowledgeReport c' j)"
proof (rule triple_keeps)
  let ?R = "\<lambda>p. P p \<and> (\<exists>e rb. js_get (cp_jobs p) j = Some e \<and> je_reportBack e = Some rb)"
  have now: "op_triple ?R cp_now (\<lambda>_. ?R) P"
    by (rule op_triple_weaken [OF keeps_triple [OF plane_frame.keeps_now [OF report_frame]]]) auto
  have "op_triple ?R (if rb_state rb = RbDelivered then op_return rb
       else op_bind cp_now (\<lambda>now.
            let rb' = rb\<lparr>rb_state := RbDelivered, rb_deliveredAt := Some now, rb_updatedAt := now\<rparr> in
            op_then (update_entry j (\<lambda>e. e\<lparr>je_reportBack := Some rb'\<rparr>))
            (op_then (persist j) (op_then (emit EvJobReportAcknowledged j) (op_return rb'))))) (\<lambda>_. P) P" for rb
  proof (cases "rb_state rb = RbDelivered")
    case True
    then show ?thesis unfolding if_P [OF True] by (intro op_triple_return) blast
  next
    case False
    then show ?thesis
      unfolding Let_def if_not_P [OF False]
      by (intro op_triple_bind [OF now] op_triple_then [OF update_report_back] keeps_triple frame_rules)
  qed
  then show "op_triple P (acknowledgeReport c' j) (\<lambda>_. P) P"
    unfolding acknowledgeReport_def by (rule op_triple_bind [OF requireReportBack_triple])
qed

lemma failReport_keeps: "op_keeps P (failReport c' j err)"
proof (rule triple_keeps)
  let ?R = "\<lambda>p. P p \<and> (\<exists>e rb. js_get (cp_jobs p) j = Some e \<and> je_reportBack e = Some rb)"
  have now: "op_triple ?R cp_now (\<lambda>_. ?R) P"
    by (rule op_triple_weaken [OF keeps_triple [OF plane_frame.keeps_now [OF report_frame]]]) auto
  show "op_triple P (failReport c' j err) (\<lambda>_. P) P"
    unfolding failReport_def Let_def
    by (intro op_triple_bind [OF requireReportBack_triple] op_triple_bind [OF now]
        op_triple_then [OF update_report_back] keeps_triple frame_rules)
qed

lemma quarantine_keeps: "P p \<Longrightarrow> P (snd (quarantine c' j reason p))"
proof (cases "js_get (cp_jobs p) j")
  case None
  then show "P p \<Longrightarrow> ?thesis"
    by (auto simp: quarantine_def require_uuid_def op_return_def)
next
  case (Some e)
  assume p: "P p"
  have run: "P (snd (op_then (interrupt j reason None) (op_return True) p))" if "\<not> is_settled (lifecycle_of e)"
    using interrupt_keeps [OF p Some that, of reason None]
    by (auto simp: op_then_def op_bind_def op_return_def split: prod.split sum.split)
  show ?thesis
    using p run
    by (auto simp: quarantine_def require_uuid_def op_return_def Some)
qed

lemma ingest_keeps: "P p \<Longrightarrow> P (snd (ingestReport c' report p))"
proof (cases "js_get (cp_jobs p) (jp_jobId report)")
  case None
  then show "P p \<Longrightarrow> ?thesis"
    by (auto simp: ingestReport_def op_return_def)
next
  case (Some e)
  assume p: "P p"
  let ?j = "jp_jobId report" and ?u = "jp_usage report"
  have settled: "P (snd (op_then (settle ?j r ?u) (op_return IngestSettled) p))" for r
    by (rule op_keepsD [OF op_keeps_then [OF settle_keeps op_keeps_return] p])
  have run: "P (snd (op_then (interrupt ?j reason ?u) (op_return IngestInterrupted) p))"
    if "\<not> is_settled (lifecycle_of e)" for reason
    using interrupt_keeps [OF p Some that, of reason ?u]
    by (auto simp: op_then_def op_bind_def op_return_def split: prod.split sum.split)
  show ?thesis
    using p settled run
    by (auto simp: ingestReport_def op_return_def Some split: job_result.split control_plane_error_code.split)
qed

lemma onReport_keeps: "P p \<Longrightarrow> P (onReport c' report p)"
  using ingest_keeps [of p c' report] by (auto simp: onReport_def law_error split: prod.split sum.split)

lemma cancel_keeps: "op_keeps P (cancel c' j reason)"
proof -
  have "op_keeps P (if queued \<or> interrupted \<or> \<not> served
      then op_then (settle j (Cancelled reason) None) (op_return (Some CancelAccepted))
      else op_then (op_modify (\<lambda>p. p\<lparr>cp_cancelCalls := cp_cancelCalls p @ [j],
             cp_cancelling := cp_cancelling p @ [(j, reason)]\<rparr>)) (op_return None))" for queued interrupted served
    by (auto intro!: op_rules settle_keeps keeps_modify_laws)
  then show ?thesis
    unfolding cancel_def
    by (intro frame_rules) (auto split: option.split intro!: frame_rules)
qed

lemma cancel_return_keeps: "op_keeps P (cancel_return j reason answer)"
proof -
  have "op_keeps P (if \<not> awaited then op_return answer
       else op_then (op_modify (\<lambda>p. p\<lparr>cp_cancelling := remove1 (j, reason) (cp_cancelling p)\<rparr>))
              (op_then (op_when (answer = CancelAccepted) (settle j (Cancelled reason) None))
                 (op_return answer)))" for awaited
    by (auto intro!: op_rules settle_keeps keeps_modify_laws)
  then show ?thesis unfolding cancel_return_def by (intro op_rules)
qed

lemma ready_frame: "plane_frame (ready_to_enter P c spec j)"
  by unfold_locales
    (auto simp: ready_to_enter_def frame_env frame_store frame_journal frame_budgets drawn_later)

lemma entered_frame: "plane_frame (entered P j e)"
  by unfold_locales (auto simp: entered_def frame_env frame_store frame_journal frame_budgets)

lemma newId_triple:
  "op_triple (\<lambda>p. P p \<and> may_create c spec p) newId (\<lambda>j. ready_to_enter P c spec j) P"
proof (rule op_tripleI)
  fix p
  assume p: "P p \<and> may_create c spec p"
  let ?v = "cp_env p"
  let ?j = "pe_ids ?v (pe_idCount ?v)" and ?w = "?v\<lparr>pe_idCount := pe_idCount ?v + 1\<rparr>"
  have "P (p\<lparr>cp_env := ?w\<rparr>)" using p by (intro frame_env) (simp_all add: env_later_def)
  moreover have "js_get (cp_jobs p) ?j = None"
    using is_base p by (simp add: base_def fresh_ids_def)
  ultimately show "case newId p of (Inr x, t) \<Rightarrow> ready_to_enter P c spec x t | (Inl e, t) \<Rightarrow> P t"
    using p by (auto simp: newId_def Let_def ready_to_enter_def drawn_def)
qed

lemma enter_triple:
  assumes "launch_safe spec rq"
  shows "op_triple (ready_to_enter P c spec j) (op_modify (enter_job (new_entry spec rq j now)))
    (\<lambda>_. entered P j (new_entry spec rq j now)) P"
proof (rule op_triple_modify)
  fix p
  assume "ready_to_enter P c spec j p"
  then have p: "P p" "may_create c spec p" "drawn j p" by (simp_all add: ready_to_enter_def)
  then have "P (enter_job (new_entry spec rq j now) p)"
    using assms by (auto simp: may_create_def drawn_def intro: law_enter)
  moreover have "untouched j p"
    using base_untouched [OF is_base [OF p(1)]] p(3) by (simp add: drawn_def)
  ultimately show "entered P j (new_entry spec rq j now) (enter_job (new_entry spec rq j now) p)"
    by (simp add: entered_def enter_job_def new_entry_def js_lookup untouched_def)
qed

lemma offer_triple:
  assumes e: "e = new_entry spec rq j now"
  shows "op_triple (entered P j e) (offer_job e) (\<lambda>_. P) P"
proof (rule op_tripleI)
  fix p
  assume p: "entered P j e p"
  have j: "jb_id (je_record e) = j" by (simp add: e new_entry_def)
  have P: "P p" "js_get (cp_jobs p) j = Some e" "untouched j p"
    using p by (simp_all add: entered_def)
  have "P (snd (offer_job e p))"
  proof (cases "cp_scheduler p")
    case None
    have "P (snd (dispatch_start j False p))"
      using dispatch_start_unserved [OF _ P(1)] law_direct [OF P(1) None P(2,3)]
      by (cases "entry_provider j p \<in> set (cp_adapters p)") (simp_all add: dispatch_start_served)
    then show ?thesis
      by (auto simp: offer_job_def None j op_bind_def [of "dispatch_start _ _"] op_return_def
          split: prod.split sum.split)
  next
    case (Some s)
    have "P (p\<lparr>cp_scheduler := Some (enqueue (candidate_of e) s)\<rparr>)"
      by (rule law_enqueue [OF P(1) Some e P(2,3)])
    from op_keepsD [OF pump_keeps this] show ?thesis
      by (simp add: offer_job_def Some)
  qed
  then show "case offer_job e p of (Inr x, t) \<Rightarrow> P t | (Inl err, t) \<Rightarrow> P t"
    by (auto split: prod.split sum.split)
qed

lemma create_fresh_triple:
  assumes "launch_safe spec rq"
  shows "op_triple (\<lambda>p. P p \<and> may_create c spec p) (create_fresh c' spec rq) (\<lambda>_. P) P"
proof -
  have ready: "op_triple (ready_to_enter P c spec j) m (\<lambda>_. ready_to_enter P c spec j) P"
    if "op_keeps (ready_to_enter P c spec j) m" for j and m :: "'b plane_op"
    by (rule op_triple_weaken [OF keeps_triple [OF that]]) (auto simp: ready_to_enter_def)
  have ent: "op_triple (entered P j e) m (\<lambda>_. entered P j e) P"
    if "op_keeps (entered P j e) m" for j e and m :: "unit plane_op"
    by (rule op_triple_weaken [OF keeps_triple [OF that]]) (auto simp: entered_def)
  note r = plane_frame.keeps_uuid [OF ready_frame] plane_frame.keeps_budget_gate [OF ready_frame]
    plane_frame.keeps_now [OF ready_frame]
  note n = plane_frame.keeps_persist [OF entered_frame] plane_frame.keeps_emit [OF entered_frame]
  show ?thesis
    unfolding create_fresh_def Let_def
    by (rule op_triple_bind [OF newId_triple], rule op_triple_then [OF ready [OF r(1)]],
        rule op_triple_then [OF ready [OF r(2)]], rule op_triple_bind [OF ready [OF r(3)]],
        rule op_triple_then [OF enter_triple [OF assms]], rule op_triple_then [OF ent [OF n(1)]],
        rule op_triple_then [OF ent [OF n(2)]], rule op_triple_then [OF ent [OF op_keeps_when [OF n(2)]]],
        rule op_triple_then [OF offer_triple [OF refl]])
      (simp add: op_triple_return)
qed

lemma create_triple:
  "op_triple (\<lambda>p. P p \<and> parent_ok c spec p) (create c' spec) (\<lambda>_. P) P"
proof (rule op_tripleI)
  fix p
  assume p: "P p \<and> parent_ok c spec p"
  let ?rq = "inherited_request spec p"
  have "P (snd (create c' spec p))"
  proof (cases "existing_job (cs_idempotencyKey spec) p")
    case (Some j)
    with p show ?thesis by (simp add: create_def op_return_def)
  next
    case None
    have "P (snd (create_fresh c' spec ?rq p))" if "launch_refusal spec ?rq p = None"
    proof (rule op_triple_snd [OF create_fresh_triple])
      show "launch_safe spec ?rq" using that by (auto simp: launch_refusal_def launch_safe_def split: if_splits)
      show "P p \<and> may_create c spec p" using p None by (simp add: may_create_def)
    qed
    with p None show ?thesis
      by (auto simp: create_def op_throw_def split: option.split)
  qed
  then show "case create c' spec p of (Inr x, t) \<Rightarrow> P t | (Inl e, t) \<Rightarrow> P t"
    by (auto split: prod.split sum.split)
qed

lemma submit_keeps: "op_keeps P (submit c' params)"
proof (rule triple_keeps)
  have create: "op_triple P (create c' \<lparr>cs_request = rq, cs_idempotencyKey = k, cs_correlationId = i,
      cs_parentJobId = None, cs_parentSessionId = None, cs_sessionId = t, cs_delegationId = None\<rparr>) (\<lambda>_. P) P"
    for rq k i t
    by (rule op_triple_weaken [OF create_triple]) (simp_all add: parent_ok_def)
  have correlation: "op_triple P
      (case sp_correlationId params of Some i \<Rightarrow> op_return i | None \<Rightarrow> newCorrelationId c') (\<lambda>_. P) P"
    by (rule keeps_triple) (auto intro: frame_rules split: option.split)
  show "op_triple P (submit c' params) (\<lambda>_. P) P"
    unfolding submit_def
    by (rule op_triple_then [OF keeps_triple [OF op_keeps_when [OF op_keeps_throw]]],
        rule op_triple_bind [OF correlation], rule create)
qed

lemma delegate_keeps: "op_keeps P (delegate c intent)"
proof -
  have "P (snd (delegate c intent p))" if "P p" for p
  proof (cases "delegation_refusal c intent p")
    case (Some err)
    with that show ?thesis by (simp add: delegate_def op_throw_def)
  next
    case None
    let ?spec = "\<lparr>cs_request = di_request intent, cs_idempotencyKey = di_delegationId intent,
      cs_correlationId = di_correlationId intent, cs_parentJobId = di_parentJobId intent,
      cs_parentSessionId = di_parentSessionId intent, cs_sessionId = None,
      cs_delegationId = Some (di_delegationId intent)\<rparr>"
    have "parent_ok c ?spec p"
      using None by (auto simp: parent_ok_def delegation_refusal_def split: option.splits if_splits)
    then have "P (snd (create c ?spec p))"
      using that by (intro op_triple_snd [OF create_triple]) simp
    with that None show ?thesis by (simp add: delegate_def)
  qed
  then show ?thesis by (simp add: op_keeps_def)
qed

lemma gated_step_keeps: "P p \<Longrightarrow> ev \<noteq> EvOpenAdmission \<Longrightarrow> P (plane_step c ev p)"
  by (cases ev)
    (simp_all add: op_keepsD [OF submit_keeps] op_keepsD [OF delegate_keeps]
      op_keepsD [OF dispatch_return_keeps] ingest_keeps onReport_keeps op_keepsD [OF cancel_keeps]
      op_keepsD [OF cancel_return_keeps] op_keepsD [OF acknowledge_keeps] op_keepsD [OF failReport_keeps]
      quarantine_keeps op_keepsD [OF pump_keeps] law_close registerAdapter_def
      unregisterAdapter_def law_adapters)

lemma gated_run_keeps:
  "P p \<Longrightarrow> EvOpenAdmission \<notin> set evs \<Longrightarrow> P (fold (plane_step c) evs p)"
proof (induction evs arbitrary: p)
  case (Cons ev evs)
  have "P (plane_step c ev p)" by (rule gated_step_keeps [OF Cons.prems(1)]) (use Cons.prems(2) in auto)
  with Cons.IH Cons.prems(2) show ?case by simp
qed simp

end

locale plane_invariant = gated_invariant P c for P :: "job_plane \<Rightarrow> bool" and c :: plane_config +
  assumes law_open: "P p \<Longrightarrow> P (p\<lparr>cp_scheduler := map_option openAdmission (cp_scheduler p)\<rparr>)"
begin

lemma plane_step_keeps: "P p \<Longrightarrow> P (plane_step c ev p)"
proof (cases "ev = EvOpenAdmission")
  case True
  then show "P p \<Longrightarrow> ?thesis" by (simp add: law_open)
next
  case False
  then show "P p \<Longrightarrow> ?thesis" by (rule gated_step_keeps [rotated])
qed

end

sublocale plane_invariant \<subseteq> stepping "plane_step c" P
  by unfold_locales (rule plane_step_keeps)

subsection \<open>Elementary changes in detail\<close>

definition scheduler_after_admit ::
  "ident \<Rightarrow> slot_reservation \<Rightarrow> admission_scheduler \<Rightarrow> admission_scheduler" where
  "scheduler_after_admit j rv s =
     s\<lparr>as_queue := js_delete j (as_queue s), as_reservations := js_set j rv (as_reservations s)\<rparr>"

lemma pump_admit_Some:
  assumes "pump_admit p = (Some rv, q)"
  obtains s v cc where "cp_scheduler p = Some s" "next_eligible s = Some cc" "sr_jobId rv = ac_jobId cc"
    "q = p\<lparr>cp_scheduler := Some (scheduler_after_admit (sr_jobId rv) rv s), cp_env := v\<rparr>"
    "env_later (cp_env p) v"
    "scheduler_inv s \<Longrightarrow> scheduler_inv (scheduler_after_admit (sr_jobId rv) rv s)"
proof -
  from assms obtain s where s: "cp_scheduler p = Some s"
    by (auto simp: pump_admit_def split: option.splits)
  let ?v = "cp_env p"
  let ?i = "pe_ids ?v (pe_idCount ?v)" and ?t = "pe_clock ?v (pe_ticks ?v)"
  let ?w = "?v\<lparr>pe_idCount := pe_idCount ?v + 1, pe_ticks := pe_ticks ?v + 1\<rparr>"
  obtain s' where run: "admitNext ?i ?t s = (Some rv, s')"
    and q: "q = p\<lparr>cp_scheduler := Some s', cp_env := ?w\<rparr>"
    using assms by (auto simp: pump_admit_def s Let_def split: option.splits prod.splits)
  from run obtain cc where cc: "next_eligible s = Some cc" "rv = reservation_of ?i ?t cc"
      "s' = scheduler_after_admit (ac_jobId cc) rv s"
    by (cases rule: admitNext_cases [of ?i ?t s]) (auto simp: scheduler_after_admit_def)
  have id: "sr_jobId rv = ac_jobId cc" by (simp add: cc(2) reservation_of_def)
  have inv: "scheduler_inv s'" if "scheduler_inv s"
    using sched.step_inv [OF that, of "CallAdmit ?i ?t"] run by simp
  show thesis
    by (rule that [of s cc ?w]) (use s cc q inv id in \<open>simp_all add: env_later_def\<close>)
qed

lemma pump_admit_frame:
  assumes "pump_admit p = (Some rv, q)"
  shows "cp_jobs q = cp_jobs p" "cp_byIdempotencyKey q = cp_byIdempotencyKey p"
    "cp_dispatchCalls q = cp_dispatchCalls p" "cp_dispatching q = cp_dispatching p"
  using assms by (auto simp: pump_admit_def Let_def split: option.splits prod.splits)

lemma admitted_job:
  assumes "scheduler_inv s" "next_eligible s = Some cc"
  shows "ac_jobId cc \<in> set (js_keys (as_queue s))" "ac_jobId cc \<notin> set (js_keys (as_reservations s))"
proof -
  have wf: "scheduler_wf s" using assms(1) by (simp add: scheduler_inv_def)
  then have "keyed ac_jobId (as_queue s)" by (simp add: scheduler_wf_def)
  then have "js_get (as_queue s) (ac_jobId cc) = Some cc"
    using next_eligible_Some(1) [OF assms(2)] keyed_value by metis
  then show "ac_jobId cc \<in> set (js_keys (as_queue s))" by (metis js.keys_get option.distinct(1))
  show "ac_jobId cc \<notin> set (js_keys (as_reservations s))" by (rule admitNext_fresh [OF wf assms(2)])
qed

lemma hold_slot_set:
  "js_get (cp_jobs q) j = Some e \<Longrightarrow> hold_slot j q = set_entry j (e\<lparr>je_holdsSlot := True\<rparr>) q"
  by (simp add: hold_slot_def set_entry_def)

text \<open>The scheduler and the entry of a job after \<open>free_slot\<close>.\<close>

lemma free_slot_cases:
  obtains (none) "cp_scheduler p = None" "snd (free_slot j p) = p"
  | (withdrawn) s where "cp_scheduler p = Some s"
      "snd (free_slot j p) = p\<lparr>cp_scheduler := Some (snd (withdraw j s))\<rparr>"
  | (freed) s e where "cp_scheduler p = Some s" "js_get (cp_jobs p) j = Some e"
      "snd (free_slot j p) = (set_entry j (e\<lparr>je_holdsSlot := False\<rparr>) p)
         \<lparr>cp_scheduler := Some (snd (release j (snd (withdraw j s))))\<rparr>"
proof (cases "cp_scheduler p")
  case None
  then show thesis by (intro none) (simp_all add: free_slot_def op_modify_def)
next
  case (Some s)
  show thesis
  proof (cases "js_get (cp_jobs p) j")
    case None
    with Some show thesis
      by (intro withdrawn [of s]) (simp_all add: free_slot_def op_modify_def Let_def)
  next
    case e: (Some e)
    with Some show thesis
      by (cases "je_holdsSlot e"; intro freed [of s e] withdrawn [of s])
        (simp_all add: free_slot_def op_modify_def Let_def set_entry_def)
  qed
qed

lemma entry_id_updates [simp]:
  "entry_id (with_lifecycle l now e) = entry_id e"
  "entry_id (settled_entry now r u e) = entry_id e"
  "entry_id (interrupted_entry now reason u e) = entry_id e"
  "entry_id (e\<lparr>je_reportBack := rb\<rparr>) = entry_id e"
  "entry_id (e\<lparr>je_holdsSlot := b\<rparr>) = entry_id e"
  "entry_id (new_entry spec rq j now) = j"
  by (simp_all add: entry_id_def with_lifecycle_def settled_entry_def interrupted_entry_def new_entry_def)

subsection \<open>Well-formedness is kept\<close>

lemma base_keyed: "base p \<Longrightarrow> keyed entry_id (cp_jobs p)"
  by (simp add: base_def linked_def)

lemma base_sched_inv: "base p \<Longrightarrow> cp_scheduler p = Some s \<Longrightarrow> scheduler_inv s"
  by (simp add: base_def linked_def scheduler_linked_def)

lemma base_cong:
  assumes "base p" "cp_jobs q = cp_jobs p" "env_later (cp_env p) (cp_env q)"
    and "set (cp_dispatchCalls q) \<subseteq> set (js_keys (cp_jobs p))"
    and "fst ` set (cp_dispatching q) \<subseteq> set (js_keys (cp_jobs p))"
    and "scheduler_linked (set (js_keys (cp_jobs p))) (cp_scheduler q)"
  shows "base q"
  using assms by (auto simp: base_def fresh_ids_def linked_def env_later_def simp del: set_map)

lemma base_linked:
  assumes "base p"
  shows "set (cp_dispatchCalls p) \<subseteq> set (js_keys (cp_jobs p))"
    "fst ` set (cp_dispatching p) \<subseteq> set (js_keys (cp_jobs p))"
    "scheduler_linked (set (js_keys (cp_jobs p))) (cp_scheduler p)"
  using assms by (simp_all add: base_def linked_def del: set_map)

lemma env_later_refl [simp]: "env_later v v"
  by (simp add: env_later_def)

lemma base_frames:
  assumes "base p"
  shows "base (p\<lparr>cp_store := st\<rparr>)" "base (p\<lparr>cp_journal := jn\<rparr>)" "base (p\<lparr>cp_budgets := b\<rparr>)"
    "base (p\<lparr>cp_adapters := a\<rparr>)" "base (p\<lparr>cp_pendingReportError := pe\<rparr>)" "base (p\<lparr>cp_pumping := x\<rparr>)"
    "base (p\<lparr>cp_cancelling := w\<rparr>)" "base (p\<lparr>cp_cancelCalls := cc\<rparr>)"
    "env_later (cp_env p) v \<Longrightarrow> base (p\<lparr>cp_env := v\<rparr>)"
  by (rule base_cong [OF assms]; use base_linked [OF assms] in simp)+

lemma base_scheduler:
  assumes "base p" "scheduler_linked (set (js_keys (cp_jobs p))) so"
  shows "base (p\<lparr>cp_scheduler := so\<rparr>)"
  by (rule base_cong [OF assms(1)]) (use base_linked [OF assms(1)] assms(2) in simp_all)

lemma keys_known: "js_get m j = Some e \<Longrightarrow> js_keys (js_set j e' m) = js_keys m"
  by (rule js.keys_put_known) simp

lemma base_set_entry:
  assumes "base p" "js_get (cp_jobs p) j = Some e" "entry_id e' = entry_id e"
  shows "base (set_entry j e' p)"
proof -
  have keyed: "keyed entry_id (cp_jobs p)" by (rule base_keyed [OF assms(1)])
  have "entry_id e' = j" using keyed_get [OF keyed assms(2)] assms(3) by simp
  then have "keyed entry_id (js_set j e' (cp_jobs p))" using keyed by simp
  then show ?thesis
    using assms(1,2)
    by (auto simp: base_def fresh_ids_def linked_def set_entry_def keys_known [OF assms(2)] js_lookup
        simp del: set_map)
qed

lemma scheduler_linked_delete:
  assumes "scheduler_linked ids (Some s)"
  shows "scheduler_linked ids (Some (snd (withdraw j s)))" "scheduler_linked ids (Some (snd (release j s)))"
  using assms sched.step_inv [of s "CallWithdraw j"] sched.step_inv [of s "CallRelease j"]
  by (auto simp: scheduler_linked_def withdraw_def release_def js_key_order simp del: set_map)

lemma base_free: "base p \<Longrightarrow> base (snd (free_slot j p))"
proof (cases rule: free_slot_cases [of p j])
  case none
  then show "base p \<Longrightarrow> ?thesis" by simp
next
  case (withdrawn s)
  then show "base p \<Longrightarrow> ?thesis"
    using base_linked(3) [of p] by (simp add: base_scheduler scheduler_linked_delete)
next
  case (freed s e)
  assume p: "base p"
  have "base (set_entry j (e\<lparr>je_holdsSlot := False\<rparr>) p)"
    by (rule base_set_entry [OF p freed(2)]) simp
  then show ?thesis
    using base_linked(3) [OF p] freed
    by (simp add: base_scheduler scheduler_linked_delete keys_known [OF freed(2)] del: set_map)
qed

lemma base_admit:
  assumes "base p" "pump_admit p = (Some rv, q)"
  shows "base q" "cp_jobs q = cp_jobs p"
    and "\<exists>e. js_get (cp_jobs p) (sr_jobId rv) = Some e"
proof -
  obtain s v cc where a: "cp_scheduler p = Some s" "next_eligible s = Some cc" "sr_jobId rv = ac_jobId cc"
    "q = p\<lparr>cp_scheduler := Some (scheduler_after_admit (sr_jobId rv) rv s), cp_env := v\<rparr>"
    "env_later (cp_env p) v"
    "scheduler_inv s \<Longrightarrow> scheduler_inv (scheduler_after_admit (sr_jobId rv) rv s)"
    using pump_admit_Some [OF assms(2)] by metis
  have inv: "scheduler_inv s" by (rule base_sched_inv [OF assms(1) a(1)])
  have key: "sr_jobId rv \<in> set (js_keys (as_queue s))" using admitted_job(1) [OF inv a(2)] a(3) by simp
  have link: "set (js_keys (as_queue s)) \<subseteq> set (js_keys (cp_jobs p))"
    "set (js_keys (as_reservations s)) \<subseteq> set (js_keys (cp_jobs p))"
    using base_linked(3) [OF assms(1)] a(1) by (simp_all add: scheduler_linked_def del: set_map)
  show jobs: "cp_jobs q = cp_jobs p" by (simp add: a(4))
  have known: "sr_jobId rv \<in> set (js_keys (cp_jobs p))" using key link by blast
  then show "\<exists>e. js_get (cp_jobs p) (sr_jobId rv) = Some e"
    using js.keys_get [of "sr_jobId rv" "cp_jobs p"] by simp
  have "scheduler_linked (set (js_keys (cp_jobs p))) (cp_scheduler q)"
    using a(6) [OF inv] link known
    by (auto simp: a(4) scheduler_linked_def scheduler_after_admit_def js_key_order simp del: set_map)
  then show "base q"
    by (intro base_cong [OF assms(1)]) (use base_linked [OF assms(1)] a(5) in \<open>simp_all add: a(4)\<close>)
qed

lemma base_drop_dispatch:
  assumes "base p" shows "base (drop_dispatch j b p)"
proof (rule base_cong [OF assms])
  have "fst ` set (remove1 (j, b) (cp_dispatching p)) \<subseteq> fst ` set (cp_dispatching p)"
    by (rule image_mono) (rule set_remove1_subset)
  then show "fst ` set (cp_dispatching (drop_dispatch j b p)) \<subseteq> set (js_keys (cp_jobs p))"
    using base_linked(2) [OF assms] by (auto simp: drop_dispatch_def simp del: set_map)
qed (use base_linked [OF assms] in \<open>simp_all add: drop_dispatch_def\<close>)

lemma base_call:
  assumes "base p" "js_get (cp_jobs p) j = Some e"
  shows "base (call_dispatch j b p)"
proof -
  have "j \<in> set (js_keys (cp_jobs p))" using assms(2) js.keys_get [of j "cp_jobs p"] by simp
  then show ?thesis
    using base_linked [OF assms(1)]
    by (intro base_cong [OF assms(1)]) (auto simp: call_dispatch_def simp del: set_map)
qed

lemma base_drop:
  assumes "base p" shows "base (drop_reservation j p)"
proof (cases "cp_scheduler p")
  case None
  then have "drop_reservation j p = p" by (simp add: drop_reservation_def)
  with assms show ?thesis by simp
next
  case (Some s)
  then show ?thesis
    using base_linked(3) [OF assms] scheduler_linked_delete(2) [of _ s j]
    by (simp add: drop_reservation_def base_scheduler [OF assms] del: set_map)
qed

lemma base_hold:
  assumes "base p" "js_get (cp_jobs p) j = Some e" shows "base (hold_slot j p)"
  unfolding hold_slot_set [OF assms(2)] by (rule base_set_entry [OF assms]) simp

lemma base_enter:
  assumes "base p" "js_get (cp_jobs p) j = None" "n < pe_idCount (cp_env p)" "j = pe_ids (cp_env p) n"
  shows "base (enter_job (new_entry spec rq j now) p)"
proof -
  have keyed: "keyed entry_id (js_set j (new_entry spec rq j now) (cp_jobs p))"
    using base_keyed [OF assms(1)] by simp
  have inj: "inj (pe_ids (cp_env p))" using assms(1) by (simp add: base_def fresh_ids_def)
  have "pe_ids (cp_env p) k \<noteq> j" if "pe_idCount (cp_env p) \<le> k" for k
    using that assms(3,4) inj by (auto dest: injD)
  moreover have "scheduler_linked (insert j ids) so" if "scheduler_linked ids so" for ids so
    using that by (auto simp: scheduler_linked_def split: option.splits)
  ultimately show ?thesis
    using assms(1,2) keyed
    by (auto simp: base_def fresh_ids_def linked_def enter_job_def new_entry_def js_lookup js_key_order
        simp del: set_map)
qed

lemma base_enqueue:
  assumes "base p" "cp_scheduler p = Some s" "js_get (cp_jobs p) (ac_jobId cand) = Some e"
  shows "base (p\<lparr>cp_scheduler := Some (enqueue cand s)\<rparr>)"
proof (rule base_scheduler [OF assms(1)])
  have "ac_jobId cand \<in> set (js_keys (cp_jobs p))"
    using assms(3) js.keys_get [of "ac_jobId cand" "cp_jobs p"] by simp
  moreover have "scheduler_inv (enqueue cand s)"
    using sched.step_inv [OF base_sched_inv [OF assms(1,2)], of "CallEnqueue cand"] by simp
  ultimately show "scheduler_linked (set (js_keys (cp_jobs p))) (Some (enqueue cand s))"
    using base_linked(3) [OF assms(1)] assms(2)
    by (auto simp: scheduler_linked_def enqueue_def js_key_order simp del: set_map)
qed

lemma base_gate:
  assumes "base p"
  shows "base (p\<lparr>cp_scheduler := map_option openAdmission (cp_scheduler p)\<rparr>)"
    "base (p\<lparr>cp_scheduler := map_option closeAdmission (cp_scheduler p)\<rparr>)"
  using base_linked(3) [OF assms] sched.step_inv [of _ CallOpen] sched.step_inv [of _ CallClose]
  by (auto intro!: base_scheduler [OF assms]
      simp: scheduler_linked_def openAdmission_def closeAdmission_def simp del: set_map split: option.splits)

subsection \<open>Properties on top of well-formedness\<close>

text \<open>
  The laws again, for a predicate that holds beside well-formedness: each conclusion is about the
  predicate alone.
\<close>

locale plane_property =
  fixes X :: "job_plane \<Rightarrow> bool" and c :: plane_config
  assumes x_env: "X p \<Longrightarrow> env_later (cp_env p) v \<Longrightarrow> X (p\<lparr>cp_env := v\<rparr>)"
    and x_store: "X p \<Longrightarrow> X (p\<lparr>cp_store := st\<rparr>)"
    and x_journal: "X p \<Longrightarrow> X (p\<lparr>cp_journal := jn\<rparr>)"
    and x_budgets: "X p \<Longrightarrow> X (p\<lparr>cp_budgets := bl\<rparr>)"
    and x_adapters: "X p \<Longrightarrow> X (p\<lparr>cp_adapters := a\<rparr>)"
    and x_error: "X p \<Longrightarrow> X (p\<lparr>cp_pendingReportError := pe\<rparr>)"
    and x_pumping: "X p \<Longrightarrow> X (p\<lparr>cp_pumping := b\<rparr>)"
    and x_cancelling: "X p \<Longrightarrow> X (p\<lparr>cp_cancelling := w\<rparr>)"
    and x_cancelCalls: "X p \<Longrightarrow> X (p\<lparr>cp_cancelCalls := cc\<rparr>)"
    and x_open: "base p \<Longrightarrow> X p \<Longrightarrow> X (p\<lparr>cp_scheduler := map_option openAdmission (cp_scheduler p)\<rparr>)"
    and x_close: "base p \<Longrightarrow> X p \<Longrightarrow> X (p\<lparr>cp_scheduler := map_option closeAdmission (cp_scheduler p)\<rparr>)"
    and x_settled:
      "base p \<Longrightarrow> X p \<Longrightarrow> js_get (cp_jobs p) j = Some e \<Longrightarrow> X (set_entry j (settled_entry now res u e) p)"
    and x_interrupted:
      "base p \<Longrightarrow> X p \<Longrightarrow> js_get (cp_jobs p) j = Some e \<Longrightarrow> \<not> is_settled (lifecycle_of e) \<Longrightarrow>
         X (set_entry j (interrupted_entry now reason u e) p)"
    and x_report_back:
      "base p \<Longrightarrow> X p \<Longrightarrow> js_get (cp_jobs p) j = Some e \<Longrightarrow> je_reportBack e = Some rb \<Longrightarrow>
         X (set_entry j (e\<lparr>je_reportBack := Some rb'\<rparr>) p)"
    and x_undispatch: "base p \<Longrightarrow> X p \<Longrightarrow> X (drop_dispatch j b p)"
    and x_dispatched:
      "base p \<Longrightarrow> X p \<Longrightarrow> (j, b) \<in> set (cp_dispatching p) \<Longrightarrow> js_get (cp_jobs p) j = Some e \<Longrightarrow>
         is_queued (lifecycle_of e) \<Longrightarrow>
         X (set_entry j (with_lifecycle (Dispatched now) now e) (drop_dispatch j b p))"
    and x_free: "base p \<Longrightarrow> X p \<Longrightarrow> finished j p \<Longrightarrow> X (snd (free_slot j p))"
    and x_drop:
      "base p \<Longrightarrow> X p \<Longrightarrow> pump_admit p = (Some rv, q) \<Longrightarrow>
         (\<And>e. js_get (cp_jobs q) (sr_jobId rv) = Some e \<Longrightarrow> \<not> is_queued (lifecycle_of e)) \<Longrightarrow>
         X (drop_reservation (sr_jobId rv) q)"
    and x_hold:
      "base p \<Longrightarrow> X p \<Longrightarrow> pump_admit p = (Some rv, q) \<Longrightarrow> js_get (cp_jobs q) (sr_jobId rv) = Some e \<Longrightarrow>
         is_queued (lifecycle_of e) \<Longrightarrow> X (hold_slot (sr_jobId rv) q)"
    and x_call:
      "base p \<Longrightarrow> X p \<Longrightarrow> pump_admit p = (Some rv, q) \<Longrightarrow> js_get (cp_jobs q) (sr_jobId rv) = Some e \<Longrightarrow>
         is_queued (lifecycle_of e) \<Longrightarrow> X (call_dispatch (sr_jobId rv) True (hold_slot (sr_jobId rv) q))"
    and x_enter:
      "base p \<Longrightarrow> X p \<Longrightarrow> js_get (cp_jobs p) j = None \<Longrightarrow>
         existing_job (cs_idempotencyKey spec) p = None \<Longrightarrow> launch_safe spec rq \<Longrightarrow> parent_ok c spec p \<Longrightarrow>
         X (enter_job (new_entry spec rq j now) p)"
    and x_enqueue:
      "base p \<Longrightarrow> X p \<Longrightarrow> cp_scheduler p = Some s \<Longrightarrow> e = new_entry spec rq j now \<Longrightarrow>
         js_get (cp_jobs p) j = Some e \<Longrightarrow> untouched j p \<Longrightarrow>
         X (p\<lparr>cp_scheduler := Some (enqueue (candidate_of e) s)\<rparr>)"
    and x_direct:
      "base p \<Longrightarrow> X p \<Longrightarrow> cp_scheduler p = None \<Longrightarrow> js_get (cp_jobs p) j = Some e \<Longrightarrow> untouched j p \<Longrightarrow>
         X (call_dispatch j False p)"

lemma candidate_id [simp]: "ac_jobId (candidate_of e) = entry_id e"
  by (simp add: candidate_of_def entry_id_def)

sublocale plane_property \<subseteq> inv: plane_invariant "\<lambda>p. base p \<and> X p" c
proof
  fix p q j b e now reason u rb rb' v st jn bl a pe w cc res rv n spec rq s
  assume p: "base p \<and> X p"
  show "base p" using p ..
  show "env_later (cp_env p) v \<Longrightarrow> base (p\<lparr>cp_env := v\<rparr>) \<and> X (p\<lparr>cp_env := v\<rparr>)"
    using p by (simp add: base_frames x_env)
  show "base (p\<lparr>cp_store := st\<rparr>) \<and> X (p\<lparr>cp_store := st\<rparr>)" using p by (simp add: base_frames x_store)
  show "base (p\<lparr>cp_journal := jn\<rparr>) \<and> X (p\<lparr>cp_journal := jn\<rparr>)" using p by (simp add: base_frames x_journal)
  show "base (p\<lparr>cp_budgets := bl\<rparr>) \<and> X (p\<lparr>cp_budgets := bl\<rparr>)" using p by (simp add: base_frames x_budgets)
  show "base (p\<lparr>cp_adapters := a\<rparr>) \<and> X (p\<lparr>cp_adapters := a\<rparr>)" using p by (simp add: base_frames x_adapters)
  show "base (p\<lparr>cp_pendingReportError := pe\<rparr>) \<and> X (p\<lparr>cp_pendingReportError := pe\<rparr>)"
    using p by (simp add: base_frames x_error)
  show "base (p\<lparr>cp_pumping := b\<rparr>) \<and> X (p\<lparr>cp_pumping := b\<rparr>)" using p by (simp add: base_frames x_pumping)
  show "base (p\<lparr>cp_cancelling := w\<rparr>) \<and> X (p\<lparr>cp_cancelling := w\<rparr>)" using p by (simp add: base_frames x_cancelling)
  show "base (p\<lparr>cp_cancelCalls := cc\<rparr>) \<and> X (p\<lparr>cp_cancelCalls := cc\<rparr>)" using p by (simp add: base_frames x_cancelCalls)
  show "base (p\<lparr>cp_scheduler := map_option openAdmission (cp_scheduler p)\<rparr>)
      \<and> X (p\<lparr>cp_scheduler := map_option openAdmission (cp_scheduler p)\<rparr>)" using p by (simp add: base_gate x_open)
  show "base (p\<lparr>cp_scheduler := map_option closeAdmission (cp_scheduler p)\<rparr>)
      \<and> X (p\<lparr>cp_scheduler := map_option closeAdmission (cp_scheduler p)\<rparr>)" using p by (simp add: base_gate x_close)
  show "base (drop_dispatch j b p) \<and> X (drop_dispatch j b p)" using p by (simp add: base_drop_dispatch x_undispatch)
  show "finished j p \<Longrightarrow> base (snd (free_slot j p)) \<and> X (snd (free_slot j p))" using p by (simp add: base_free x_free)
  show "js_get (cp_jobs p) j = Some e \<Longrightarrow>
      base (set_entry j (settled_entry now res u e) p) \<and> X (set_entry j (settled_entry now res u e) p)"
    using p base_set_entry x_settled by simp
  show "js_get (cp_jobs p) j = Some e \<Longrightarrow> \<not> is_settled (lifecycle_of e) \<Longrightarrow>
      base (set_entry j (interrupted_entry now reason u e) p) \<and> X (set_entry j (interrupted_entry now reason u e) p)"
    using p base_set_entry x_interrupted by simp
  show "js_get (cp_jobs p) j = Some e \<Longrightarrow> je_reportBack e = Some rb \<Longrightarrow>
      base (set_entry j (e\<lparr>je_reportBack := Some rb'\<rparr>) p) \<and> X (set_entry j (e\<lparr>je_reportBack := Some rb'\<rparr>) p)"
    using p base_set_entry x_report_back by simp
  show "(j, b) \<in> set (cp_dispatching p) \<Longrightarrow> js_get (cp_jobs p) j = Some e \<Longrightarrow> is_queued (lifecycle_of e) \<Longrightarrow>
      base (set_entry j (with_lifecycle (Dispatched now) now e) (drop_dispatch j b p))
      \<and> X (set_entry j (with_lifecycle (Dispatched now) now e) (drop_dispatch j b p))"
    using p base_set_entry [OF base_drop_dispatch, of p j b j e] x_dispatched
    by (simp add: drop_dispatch_def)
  show "existing_job (cs_idempotencyKey spec) p = None \<Longrightarrow> launch_safe spec rq \<Longrightarrow> parent_ok c spec p \<Longrightarrow>
      js_get (cp_jobs p) j = None \<Longrightarrow> n < pe_idCount (cp_env p) \<Longrightarrow> j = pe_ids (cp_env p) n \<Longrightarrow>
      base (enter_job (new_entry spec rq j now) p) \<and> X (enter_job (new_entry spec rq j now) p)"
    using p base_enter x_enter by blast
  show "cp_scheduler p = Some s \<Longrightarrow> e = new_entry spec rq j now \<Longrightarrow> js_get (cp_jobs p) j = Some e \<Longrightarrow>
      untouched j p \<Longrightarrow> base (p\<lparr>cp_scheduler := Some (enqueue (candidate_of e) s)\<rparr>)
        \<and> X (p\<lparr>cp_scheduler := Some (enqueue (candidate_of e) s)\<rparr>)"
    using p base_enqueue [of p s "candidate_of e" e] x_enqueue [of p s e spec rq j now] by simp
  show "cp_scheduler p = None \<Longrightarrow> js_get (cp_jobs p) j = Some e \<Longrightarrow> untouched j p \<Longrightarrow>
      base (call_dispatch j False p) \<and> X (call_dispatch j False p)"
    using p base_call x_direct by blast
  assume admit: "pump_admit p = (Some rv, q)"
  have q: "base q" using base_admit(1) [OF _ admit] p by blast
  show "(\<And>e. js_get (cp_jobs q) (sr_jobId rv) = Some e \<Longrightarrow> \<not> is_queued (lifecycle_of e)) \<Longrightarrow>
      base (drop_reservation (sr_jobId rv) q) \<and> X (drop_reservation (sr_jobId rv) q)"
    using p base_drop [OF q] x_drop [OF _ _ admit] by blast
  assume e: "js_get (cp_jobs q) (sr_jobId rv) = Some e" "is_queued (lifecycle_of e)"
  show "base (hold_slot (sr_jobId rv) q) \<and> X (hold_slot (sr_jobId rv) q)"
    using p base_hold [OF q e(1)] x_hold [OF _ _ admit e] by blast
  have "js_get (cp_jobs (hold_slot (sr_jobId rv) q)) (sr_jobId rv) = Some (e\<lparr>je_holdsSlot := True\<rparr>)"
    by (simp add: hold_slot_set [OF e(1)] js_lookup)
  then show "base (call_dispatch (sr_jobId rv) True (hold_slot (sr_jobId rv) q))
      \<and> X (call_dispatch (sr_jobId rv) True (hold_slot (sr_jobId rv) q))"
    using p base_call [OF base_hold [OF q e(1)]] x_call [OF _ _ admit e] by blast
qed

text \<open>Predicates of the job map and the idempotency index alone.\<close>

locale jobs_property =
  fixes Y :: "(ident, job_entry) js_map \<Rightarrow> (string, ident) js_map \<Rightarrow> bool" and c :: plane_config
  assumes y_settled:
      "keyed entry_id m \<Longrightarrow> Y m k \<Longrightarrow> js_get m j = Some e \<Longrightarrow> Y (js_set j (settled_entry now res u e) m) k"
    and y_interrupted:
      "keyed entry_id m \<Longrightarrow> Y m k \<Longrightarrow> js_get m j = Some e \<Longrightarrow> \<not> is_settled (lifecycle_of e) \<Longrightarrow>
         Y (js_set j (interrupted_entry now reason u e) m) k"
    and y_report_back:
      "keyed entry_id m \<Longrightarrow> Y m k \<Longrightarrow> js_get m j = Some e \<Longrightarrow> je_reportBack e = Some rb \<Longrightarrow>
         Y (js_set j (e\<lparr>je_reportBack := Some rb'\<rparr>) m) k"
    and y_dispatched:
      "keyed entry_id m \<Longrightarrow> Y m k \<Longrightarrow> js_get m j = Some e \<Longrightarrow> is_queued (lifecycle_of e) \<Longrightarrow>
         Y (js_set j (with_lifecycle (Dispatched now) now e) m) k"
    and y_slot:
      "keyed entry_id m \<Longrightarrow> Y m k \<Longrightarrow> js_get m j = Some e \<Longrightarrow> Y (js_set j (e\<lparr>je_holdsSlot := b\<rparr>) m) k"
    and y_enter:
      "base p \<Longrightarrow> Y (cp_jobs p) (cp_byIdempotencyKey p) \<Longrightarrow> js_get (cp_jobs p) j = None \<Longrightarrow>
         existing_job (cs_idempotencyKey spec) p = None \<Longrightarrow> launch_safe spec rq \<Longrightarrow> parent_ok c spec p \<Longrightarrow>
         Y (js_set j (new_entry spec rq j now) (cp_jobs p))
           (js_set (cs_idempotencyKey spec) j (cp_byIdempotencyKey p))"
begin

lemma y_free:
  assumes "base p" "Y (cp_jobs p) (cp_byIdempotencyKey p)"
  shows "Y (cp_jobs (snd (free_slot j p))) (cp_byIdempotencyKey (snd (free_slot j p)))"
  using assms y_slot [OF base_keyed [OF assms(1)] assms(2)]
  by (cases rule: free_slot_cases [of p j]) (simp_all add: set_entry_def)

lemma y_hold:
  assumes "base p" "Y (cp_jobs p) (cp_byIdempotencyKey p)" "pump_admit p = (Some rv, q)"
    "js_get (cp_jobs q) (sr_jobId rv) = Some e"
  shows "Y (cp_jobs (hold_slot (sr_jobId rv) q)) (cp_byIdempotencyKey (hold_slot (sr_jobId rv) q))"
  using y_slot [OF base_keyed [OF assms(1)] assms(2)] assms(4)
  by (simp add: hold_slot_set [OF assms(4)] set_entry_def pump_admit_frame [OF assms(3)])

end

sublocale jobs_property \<subseteq> on_plane: plane_property "\<lambda>p. Y (cp_jobs p) (cp_byIdempotencyKey p)" c
proof
  fix p q j b e now reason u rb rb' res rv spec rq
  assume p: "base p" "Y (cp_jobs p) (cp_byIdempotencyKey p)"
  note keyed = base_keyed [OF p(1)]
  show "js_get (cp_jobs p) j = Some e \<Longrightarrow>
      Y (cp_jobs (set_entry j (settled_entry now res u e) p)) (cp_byIdempotencyKey (set_entry j (settled_entry now res u e) p))"
    using y_settled [OF keyed p(2)] by (simp add: set_entry_def)
  show "js_get (cp_jobs p) j = Some e \<Longrightarrow> \<not> is_settled (lifecycle_of e) \<Longrightarrow>
      Y (cp_jobs (set_entry j (interrupted_entry now reason u e) p)) (cp_byIdempotencyKey (set_entry j (interrupted_entry now reason u e) p))"
    using y_interrupted [OF keyed p(2)] by (simp add: set_entry_def)
  show "js_get (cp_jobs p) j = Some e \<Longrightarrow> je_reportBack e = Some rb \<Longrightarrow>
      Y (cp_jobs (set_entry j (e\<lparr>je_reportBack := Some rb'\<rparr>) p)) (cp_byIdempotencyKey (set_entry j (e\<lparr>je_reportBack := Some rb'\<rparr>) p))"
    using y_report_back [OF keyed p(2)] by (simp add: set_entry_def)
  show "js_get (cp_jobs p) j = Some e \<Longrightarrow> is_queued (lifecycle_of e) \<Longrightarrow>
      Y (cp_jobs (set_entry j (with_lifecycle (Dispatched now) now e) (drop_dispatch j b p)))
        (cp_byIdempotencyKey (set_entry j (with_lifecycle (Dispatched now) now e) (drop_dispatch j b p)))"
    using y_dispatched [OF keyed p(2)] by (simp add: set_entry_def drop_dispatch_def)
  show "Y (cp_jobs (snd (free_slot j p))) (cp_byIdempotencyKey (snd (free_slot j p)))"
    by (rule y_free [OF p])
  show "js_get (cp_jobs p) j = None \<Longrightarrow> existing_job (cs_idempotencyKey spec) p = None \<Longrightarrow>
      launch_safe spec rq \<Longrightarrow> parent_ok c spec p \<Longrightarrow>
      Y (cp_jobs (enter_job (new_entry spec rq j now) p)) (cp_byIdempotencyKey (enter_job (new_entry spec rq j now) p))"
    using y_enter [OF p, of j spec rq now] by (simp add: enter_job_def new_entry_def)
  assume admit: "pump_admit p = (Some rv, q)"
  show "Y (cp_jobs (drop_reservation (sr_jobId rv) q)) (cp_byIdempotencyKey (drop_reservation (sr_jobId rv) q))"
    using p(2) by (simp add: drop_reservation_def pump_admit_frame [OF admit])
  assume e: "js_get (cp_jobs q) (sr_jobId rv) = Some e"
  show "Y (cp_jobs (hold_slot (sr_jobId rv) q)) (cp_byIdempotencyKey (hold_slot (sr_jobId rv) q))"
    by (rule y_hold [OF p admit e])
  then show "Y (cp_jobs (call_dispatch (sr_jobId rv) True (hold_slot (sr_jobId rv) q)))
      (cp_byIdempotencyKey (call_dispatch (sr_jobId rv) True (hold_slot (sr_jobId rv) q)))"
    by (simp add: call_dispatch_def)
qed (simp_all add: drop_dispatch_def call_dispatch_def)

subsection \<open>Settled jobs and idempotency keys are stable\<close>

definition job_settled :: "ident \<Rightarrow> (ident, job_entry) js_map \<Rightarrow> bool" where
  "job_settled i m = (case js_get m i of None \<Rightarrow> False | Some e \<Rightarrow> is_settled (lifecycle_of e))"

lemma job_settled_set:
  "job_settled i (js_set j e m) = (if i = j then is_settled (lifecycle_of e) else job_settled i m)"
  by (simp add: job_settled_def js_lookup)

lemma job_settled_get: "js_get m i = Some e \<Longrightarrow> job_settled i m = is_settled (lifecycle_of e)"
  by (simp add: job_settled_def)

lemma job_settled_absent: "js_get m i = None \<Longrightarrow> \<not> job_settled i m"
  by (simp add: job_settled_def)

lemma queued_not_settled: "is_queued l \<Longrightarrow> \<not> is_settled l"
  by (cases l) simp_all

interpretation settled: jobs_property "\<lambda>m _. job_settled i m" c for i c
proof
  fix m k j e and p :: job_plane and spec rq now
  assume "job_settled i m" "js_get m j = Some e" "is_queued (lifecycle_of e)"
  then show "job_settled i (js_set j (with_lifecycle (Dispatched now) now e) m)"
    using queued_not_settled by (auto simp: job_settled_set job_settled_get)
qed (auto simp: job_settled_set job_settled_get job_settled_absent)

definition key_bound :: "string \<Rightarrow> ident \<Rightarrow> (ident, job_entry) js_map \<Rightarrow> (string, ident) js_map \<Rightarrow> bool" where
  "key_bound key i m k = (js_get k key = Some i \<and> js_get m i \<noteq> None)"

interpretation keys: jobs_property "key_bound key i" c for key i c
  by unfold_locales
    (auto simp: key_bound_def js_lookup existing_job_def js_has_def split: option.splits if_splits)

end
