(* ===== verification/Job_Plane_Properties.thy ===== *)
theory Job_Plane_Properties
  imports Job_Plane_Invariants
begin

text \<open>
  What the job control plane guarantees over every run of events, with every interleaving of
  adapter answers and every failure of the store and the journal: idempotent submission, one
  terminal state, delegation trees and their budgets, launch safety, slot custody under the
  concurrency ceilings, and at-most-once dispatch. The last part records what the plane does not
  guarantee.
\<close>

subsection \<open>Sound records\<close>

definition entry_sound :: "job_entry \<Rightarrow> bool" where
  "entry_sound e =
     ((je_reportBack e \<noteq> None) = (is_settled (lifecycle_of e) \<and> has_parent e)
      \<and> \<not> (has_parent e \<and> isFableModel (jr_model (jb_request (je_record e))))
      \<and> evaluateClaudeLaunchSafety (jr_provider (jb_request (je_record e)))
          (jr_model (jb_request (je_record e))) = LaunchSafe)"

definition records_sound :: "(ident, job_entry) js_map \<Rightarrow> bool" where
  "records_sound m = list_all entry_sound (js_values m)"

lemma entry_fields [simp]:
  "has_parent (with_lifecycle l now e) = has_parent e"
  "has_parent (settled_entry now r u e) = has_parent e"
  "has_parent (interrupted_entry now reason u e) = has_parent e"
  "has_parent (e\<lparr>je_reportBack := rb\<rparr>) = has_parent e"
  "has_parent (e\<lparr>je_holdsSlot := b\<rparr>) = has_parent e"
  "jb_request (je_record (with_lifecycle l now e)) = jb_request (je_record e)"
  "jb_request (je_record (settled_entry now r u e)) = jb_request (je_record e)"
  "jb_request (je_record (interrupted_entry now reason u e)) = jb_request (je_record e)"
  "jb_parentJobId (je_record (with_lifecycle l now e)) = jb_parentJobId (je_record e)"
  "jb_parentJobId (je_record (settled_entry now r u e)) = jb_parentJobId (je_record e)"
  "jb_parentJobId (je_record (interrupted_entry now reason u e)) = jb_parentJobId (je_record e)"
  "je_reportBack (with_lifecycle l now e) = je_reportBack e"
  "je_reportBack (interrupted_entry now reason u e) = je_reportBack e"
  by (simp_all add: has_parent_def with_lifecycle_def settled_entry_def interrupted_entry_def)

lemma records_sound_get: "records_sound m \<Longrightarrow> js_get m j = Some e \<Longrightarrow> entry_sound e"
  unfolding records_sound_def by (rule value_of_get)

lemma records_sound_set: "records_sound m \<Longrightarrow> entry_sound e \<Longrightarrow> records_sound (js_set j e m)"
  unfolding records_sound_def by (rule values_js_set)

lemma entry_sound_updates:
  assumes "entry_sound e"
  shows "entry_sound (settled_entry now r u e)"
    "\<not> is_settled (lifecycle_of e) \<Longrightarrow> entry_sound (interrupted_entry now reason u e)"
    "je_reportBack e = Some rb \<Longrightarrow> entry_sound (e\<lparr>je_reportBack := Some rb'\<rparr>)"
    "is_queued (lifecycle_of e) \<Longrightarrow> entry_sound (with_lifecycle (Dispatched now) now e)"
    "entry_sound (e\<lparr>je_holdsSlot := b\<rparr>)"
  using assms queued_not_settled [of "lifecycle_of e"]
  by (auto simp: entry_sound_def settled_entry_def interrupted_entry_def with_lifecycle_def
      has_parent_def lifecycle_of_def)

lemma entry_sound_new: "launch_safe spec rq \<Longrightarrow> entry_sound (new_entry spec rq j now)"
  by (auto simp: entry_sound_def launch_safe_def new_entry_def lifecycle_of_def has_parent_def spec_delegated_def)

interpretation records: jobs_property "\<lambda>m _. records_sound m" c for c
  by unfold_locales
    (blast intro: records_sound_set entry_sound_updates records_sound_get entry_sound_new)+

subsection \<open>Delegation trees\<close>

lemma lineage_walk_cong:
  "entry_parent m = entry_parent m' \<Longrightarrow> lineage_walk m seen cur = lineage_walk m' seen cur"
  by (induction m seen cur rule: lineage_walk.induct) simp_all

lemma lineage_cong: "entry_parent m = entry_parent m' \<Longrightarrow> lineage j m = lineage j m'"
  unfolding lineage_def using lineage_walk_cong [of m m'] by metis

lemma entry_parent_update:
  "js_get m j = Some e \<Longrightarrow> jb_parentJobId (je_record e') = jb_parentJobId (je_record e) \<Longrightarrow>
     entry_parent (js_set j e' m) = entry_parent m"
  by (rule ext) (simp add: entry_parent_def js_lookup)

lemma entry_parent_new:
  "entry_parent (js_set j e m) = (entry_parent m)(j := jb_parentJobId (je_record e))"
  by (rule ext) (simp add: entry_parent_def js_lookup)

definition parents_known :: "(ident, job_entry) js_map \<Rightarrow> bool" where
  "parents_known m = (\<forall>j q. entry_parent m j = Some q \<longrightarrow> js_get m q \<noteq> None)"

text \<open>A walk over known jobs neither meets a new job nor minds it among the seen ones.\<close>

lemma lineage_walk_new:
  assumes "parents_known m" "js_get m j = None"
    and "set seen \<subseteq> set seen'" "set seen' \<subseteq> insert j (set seen)"
    and "\<And>q. cur = Some q \<Longrightarrow> js_get m q \<noteq> None"
  shows "lineage_walk (js_set j e m) seen' cur = lineage_walk m seen cur"
  using assms
proof (induction m seen cur arbitrary: seen' rule: lineage_walk.induct)
  case (2 m seen cur)
  have cur: "cur \<noteq> j" using 2(3,6) by auto
  have same: "cur \<in> set seen' \<longleftrightarrow> cur \<in> set seen" using 2(4,5) cur by auto
  have parent: "entry_parent (js_set j e m) cur = entry_parent m cur" using cur by (simp add: entry_parent_new)
  show ?case
  proof (cases "cur \<in> set seen")
    case True
    with same show ?thesis by simp
  next
    case False
    have "lineage_walk (js_set j e m) (cur # seen') (entry_parent m cur)
        = lineage_walk m (cur # seen) (entry_parent m cur)"
    proof (rule 2(1) [OF False 2(2,3)])
      show "set (cur # seen) \<subseteq> set (cur # seen')" "set (cur # seen') \<subseteq> insert j (set (cur # seen))"
        using 2(4,5) by auto
      show "js_get m q \<noteq> None" if "entry_parent m cur = Some q" for q
        using that 2(2) by (simp add: parents_known_def)
    qed
    with False same parent show ?thesis by simp
  qed
qed simp

lemma lineage_old:
  assumes "parents_known m" "js_get m j = None" "js_get m i \<noteq> None"
  shows "lineage i (js_set j e m) = lineage i m"
proof -
  have "i \<noteq> j" using assms by auto
  then have "entry_parent (js_set j e m) i = entry_parent m i" by (simp add: entry_parent_new)
  then show ?thesis
    unfolding lineage_def using assms by (simp add: lineage_walk_new parents_known_def)
qed

lemma lineage_child:
  assumes "parents_known m" "js_get m j = None" "jb_parentJobId (je_record e) = Some q" "js_get m q \<noteq> None"
  shows "lineage j (js_set j e m) = q # lineage q m"
proof -
  have "q \<noteq> j" using assms by auto
  then have "lineage j (js_set j e m) = q # lineage_walk (js_set j e m) [q, j] (entry_parent m q)"
    by (simp add: lineage_def entry_parent_new assms(3))
  also have "lineage_walk (js_set j e m) [q, j] (entry_parent m q) = lineage q m"
    unfolding lineage_def using assms by (intro lineage_walk_new) (auto simp: parents_known_def)
  finally show ?thesis .
qed

definition family_sound :: "plane_config \<Rightarrow> (ident, job_entry) js_map \<Rightarrow> bool" where
  "family_sound c m =
     (parents_known m
      \<and> (\<forall>j q. entry_parent m j = Some q \<longrightarrow> lineage j m = q # lineage q m)
      \<and> (\<forall>j. js_get m j \<noteq> None \<longrightarrow> length (lineage j m) \<le> max_depth c))"

lemma family_sound_update:
  assumes "family_sound c m" "js_get m j = Some e" "jb_parentJobId (je_record e') = jb_parentJobId (je_record e)"
  shows "family_sound c (js_set j e' m)"
proof -
  have parent: "entry_parent (js_set j e' m) = entry_parent m" by (rule entry_parent_update [OF assms(2,3)])
  have "lineage i (js_set j e' m) = lineage i m" for i by (rule lineage_cong [OF parent])
  then show ?thesis
    using assms(1,2) unfolding family_sound_def parents_known_def parent by (auto simp: js_lookup)
qed

lemma family_sound_enter:
  assumes "family_sound c m" "js_get m j = None"
    and "\<And>q. jb_parentJobId (je_record e) = Some q \<Longrightarrow> js_get m q \<noteq> None \<and> length (lineage q m) < max_depth c"
  shows "family_sound c (js_set j e m)"
proof -
  have known: "parents_known m" using assms(1) by (simp add: family_sound_def)
  let ?m = "js_set j e m"
  have old: "lineage i ?m = lineage i m" if "js_get m i \<noteq> None" for i by (rule lineage_old [OF known assms(2) that])
  have root: "lineage j ?m = []" if "jb_parentJobId (je_record e) = None"
    using that by (simp add: lineage_def entry_parent_new)
  have child: "lineage j ?m = q # lineage q m" if "jb_parentJobId (je_record e) = Some q" for q
    using lineage_child [OF known assms(2) that] assms(3) [OF that] by blast
  have j: "i = j \<longleftrightarrow> js_get m i = None \<and> js_get ?m i \<noteq> None" for i using assms(2) by (auto simp: js_lookup)
  show ?thesis
    unfolding family_sound_def
  proof (intro conjI allI impI)
    show "parents_known ?m"
      using known assms(3) by (auto simp: parents_known_def entry_parent_new js_lookup split: if_splits)
  next
    fix i q
    assume p: "entry_parent ?m i = Some q"
    show "lineage i ?m = q # lineage q ?m"
    proof (cases "i = j")
      case True
      with p have "jb_parentJobId (je_record e) = Some q" by (simp add: entry_parent_new)
      with child assms(3) old True show ?thesis by simp
    next
      case False
      with p have e: "entry_parent m i = Some q" by (simp add: entry_parent_new)
      then have "js_get m i \<noteq> None" "js_get m q \<noteq> None"
        using known by (auto simp: entry_parent_def parents_known_def split: option.splits)
      with e assms(1) old show ?thesis by (simp add: family_sound_def)
    qed
  next
    fix i
    assume i: "js_get ?m i \<noteq> None"
    show "length (lineage i ?m) \<le> max_depth c"
    proof (cases "i = j")
      case True
      show ?thesis
      proof (cases "jb_parentJobId (je_record e)")
        case (Some q)
        then show ?thesis using child [OF Some] assms(3) [OF Some] True by simp
      qed (simp add: True root)
    next
      case False
      with i have "js_get m i \<noteq> None" by (simp add: js_lookup)
      with assms(1) old show ?thesis by (simp add: family_sound_def)
    qed
  qed
qed

interpretation family: jobs_property "\<lambda>m _. family_sound c m" c for c
proof
  fix p j spec rq now
  assume a: "family_sound c (cp_jobs p)" "js_get (cp_jobs p) j = None" "parent_ok c spec p"
  show "family_sound c (js_set j (new_entry spec rq j now) (cp_jobs p))"
    by (rule family_sound_enter [OF a(1,2)])
      (use a(3) in \<open>auto simp: new_entry_def parent_ok_def js_has_def split: option.splits\<close>)
qed (auto intro: family_sound_update)

subsection \<open>Slot custody\<close>

fun is_active :: "job_lifecycle \<Rightarrow> bool" where
  "is_active (Dispatched t) = True"
| "is_active (Running t) = True"
| "is_active _ = False"

text \<open>The jobs that run, or are being handed to an adapter.\<close>

definition needs_slot :: "job_plane \<Rightarrow> ident \<Rightarrow> bool" where
  "needs_slot p j =
     (\<exists>e. js_get (cp_jobs p) j = Some e
          \<and> (is_active (lifecycle_of e)
             \<or> is_queued (lifecycle_of e) \<and> j \<in> fst ` set (cp_dispatching p)))"

definition slots_held :: "job_plane \<Rightarrow> bool" where
  "slots_held p =
     (case cp_scheduler p of None \<Rightarrow> True
      | Some s \<Rightarrow> \<forall>j. needs_slot p j \<longrightarrow> j \<in> set (js_keys (as_reservations s)))"

lemma slots_held_mono:
  assumes "slots_held p" "\<And>j. needs_slot q j \<Longrightarrow> needs_slot p j"
    and "map_option as_reservations (cp_scheduler q) = map_option as_reservations (cp_scheduler p)"
  shows "slots_held q"
  using assms by (cases "cp_scheduler p"; cases "cp_scheduler q") (auto simp: slots_held_def simp del: set_map)

lemma needs_slot_cong:
  "cp_jobs q = cp_jobs p \<Longrightarrow> cp_dispatching q = cp_dispatching p \<Longrightarrow> needs_slot q = needs_slot p"
  by (rule ext) (simp add: needs_slot_def)

lemma needs_slot_set_entry:
  "needs_slot (set_entry i e p) j =
     (if j = i then is_active (lifecycle_of e) \<or> is_queued (lifecycle_of e) \<and> i \<in> fst ` set (cp_dispatching p)
      else needs_slot p j)"
  by (simp add: needs_slot_def set_entry_def js_lookup)

lemma not_active: "is_queued l \<Longrightarrow> \<not> is_active l" "is_settled l \<Longrightarrow> \<not> is_active l \<and> \<not> is_queued l"
  "is_interrupted l \<Longrightarrow> \<not> is_active l \<and> \<not> is_queued l"
  by (cases l; simp)+

lemma finished_needs_no_slot: "finished j p \<Longrightarrow> \<not> needs_slot p j"
  using not_active by (auto simp: finished_def needs_slot_def split: option.splits)

lemma slots_free:
  assumes "slots_held p" "finished j p" shows "slots_held (snd (free_slot j p))"
proof (cases rule: free_slot_cases [of p j])
  case none
  with assms show ?thesis by simp
next
  case (withdrawn s)
  show ?thesis
    by (rule slots_held_mono [OF assms(1)])
      (use withdrawn in \<open>simp_all add: needs_slot_def withdraw_def\<close>)
next
  case (freed s e)
  have same: "needs_slot (snd (free_slot j p)) i = needs_slot p i" for i
    using freed(2,3) needs_slot_set_entry [of j "e\<lparr>je_holdsSlot := False\<rparr>" p i]
    by (auto simp: needs_slot_def)
  have "i \<in> set (js_keys (as_reservations s))" "i \<noteq> j" if "needs_slot p i" for i
    using that assms(1) freed(1) finished_needs_no_slot [OF assms(2)]
    by (auto simp: slots_held_def simp del: set_map)
  then show ?thesis
    unfolding slots_held_def same
    by (auto simp: freed(3) release_def withdraw_def js_key_order simp del: set_map)
qed

lemma slots_admit:
  assumes "base p" "slots_held p" "pump_admit p = (Some rv, q)"
  shows "slots_held q" "slots_held (drop_reservation (sr_jobId rv) q)"
    and "case cp_scheduler q of None \<Rightarrow> False | Some s \<Rightarrow> sr_jobId rv \<in> set (js_keys (as_reservations s))"
proof -
  obtain s v cc where a: "cp_scheduler p = Some s" "next_eligible s = Some cc" "sr_jobId rv = ac_jobId cc"
    "q = p\<lparr>cp_scheduler := Some (scheduler_after_admit (sr_jobId rv) rv s), cp_env := v\<rparr>"
    using pump_admit_Some [OF assms(3)] by metis
  have fresh: "sr_jobId rv \<notin> set (js_keys (as_reservations s))"
    using admitted_job(2) [OF base_sched_inv [OF assms(1) a(1)] a(2)] a(3) by simp
  have held: "i \<in> set (js_keys (as_reservations s))" if "needs_slot p i" for i
    using that assms(2) a(1) by (simp add: slots_held_def)
  have same: "needs_slot q = needs_slot p" "needs_slot (drop_reservation (sr_jobId rv) q) = needs_slot p"
    by (rule needs_slot_cong; simp add: a(4) drop_reservation_def)+
  show "slots_held q"
    using held unfolding slots_held_def same
    by (auto simp: a(4) scheduler_after_admit_def js_key_order simp del: set_map)
  show "slots_held (drop_reservation (sr_jobId rv) q)"
    using held fresh unfolding slots_held_def same
    by (auto simp: a(4) drop_reservation_def release_def scheduler_after_admit_def js_key_order
        simp del: set_map)
  show "case cp_scheduler q of None \<Rightarrow> False | Some s \<Rightarrow> sr_jobId rv \<in> set (js_keys (as_reservations s))"
    by (simp add: a(4) scheduler_after_admit_def js_key_order del: set_map)
qed

lemma slots_set_entry:
  assumes "slots_held p"
    and "is_active (lifecycle_of e) \<or> is_queued (lifecycle_of e) \<and> j \<in> fst ` set (cp_dispatching p) \<Longrightarrow>
           needs_slot p j"
  shows "slots_held (set_entry j e p)"
proof (rule slots_held_mono [OF assms(1)])
  show "needs_slot (set_entry j e p) i \<Longrightarrow> needs_slot p i" for i
    using assms(2) by (simp add: needs_slot_set_entry split: if_splits)
qed (simp add: set_entry_def)

lemma slots_same_lifecycle:
  assumes "slots_held p" "js_get (cp_jobs p) j = Some e" "lifecycle_of e' = lifecycle_of e"
  shows "slots_held (set_entry j e' p)"
  by (rule slots_set_entry [OF assms(1)]) (use assms(2,3) in \<open>auto simp: needs_slot_def\<close>)

lemma slots_hold:
  "slots_held q \<Longrightarrow> js_get (cp_jobs q) j = Some e \<Longrightarrow> slots_held (hold_slot j q)"
  by (simp add: hold_slot_set slots_same_lifecycle)

lemma needs_slot_undispatch: "needs_slot (drop_dispatch j b p) i \<Longrightarrow> needs_slot p i"
  using set_remove1_subset [of "(j, b)" "cp_dispatching p"]
  by (auto simp: needs_slot_def drop_dispatch_def split: option.splits)

lemma slots_undispatch: "slots_held p \<Longrightarrow> slots_held (drop_dispatch j b p)"
  by (rule slots_held_mono) (auto intro: needs_slot_undispatch simp: drop_dispatch_def)

lemma slots_call:
  assumes "slots_held q"
    and "case cp_scheduler q of None \<Rightarrow> True | Some s \<Rightarrow> j \<in> set (js_keys (as_reservations s))"
  shows "slots_held (call_dispatch j b q)"
  using assms
  by (auto simp: slots_held_def needs_slot_def call_dispatch_def simp del: set_map split: option.splits)

lemma slots_dispatched:
  assumes "slots_held p" "(j, b) \<in> set (cp_dispatching p)" "js_get (cp_jobs p) j = Some e"
    "is_queued (lifecycle_of e)"
  shows "slots_held (set_entry j (with_lifecycle (Dispatched now) now e) (drop_dispatch j b p))"
proof (rule slots_held_mono [OF assms(1)])
  have "needs_slot p j" using assms(2-4) by (force simp: needs_slot_def)
  then show "needs_slot (set_entry j (with_lifecycle (Dispatched now) now e) (drop_dispatch j b p)) i \<Longrightarrow>
      needs_slot p i" for i
    using needs_slot_undispatch [of j b p i] by (auto simp: needs_slot_set_entry split: if_splits)
qed (simp add: set_entry_def drop_dispatch_def)

lemma slots_enter:
  assumes "base p" "slots_held p" "js_get (cp_jobs p) j = None"
  shows "slots_held (enter_job (new_entry spec rq j now) p)"
proof (rule slots_held_mono [OF assms(2)])
  have "j \<notin> fst ` set (cp_dispatching p)"
    using base_untouched [OF assms(1,3)] by (simp add: untouched_def)
  then show "needs_slot (enter_job (new_entry spec rq j now) p) i \<Longrightarrow> needs_slot p i" for i
    by (auto simp: needs_slot_def enter_job_def new_entry_def lifecycle_of_def js_lookup split: if_splits)
qed (simp add: enter_job_def)

lemma slots_scheduler:
  "slots_held p \<Longrightarrow> cp_scheduler p = Some s \<Longrightarrow> as_reservations s' = as_reservations s \<Longrightarrow>
     slots_held (p\<lparr>cp_scheduler := Some s'\<rparr>)"
  by (rule slots_held_mono [of p]) (simp_all add: needs_slot_def)

lemma slots_frames:
  assumes "slots_held p"
  shows "slots_held (p\<lparr>cp_env := v\<rparr>)" "slots_held (p\<lparr>cp_store := st\<rparr>)" "slots_held (p\<lparr>cp_journal := jn\<rparr>)"
    "slots_held (p\<lparr>cp_budgets := b\<rparr>)" "slots_held (p\<lparr>cp_adapters := a\<rparr>)"
    "slots_held (p\<lparr>cp_pendingReportError := pe\<rparr>)" "slots_held (p\<lparr>cp_pumping := x\<rparr>)"
    "slots_held (p\<lparr>cp_cancelling := w\<rparr>)" "slots_held (p\<lparr>cp_cancelCalls := cc\<rparr>)"
  by (rule slots_held_mono [OF assms]; simp add: needs_slot_def)+

lemma slots_gate:
  "slots_held p \<Longrightarrow> slots_held (p\<lparr>cp_scheduler := map_option openAdmission (cp_scheduler p)\<rparr>)"
  "slots_held p \<Longrightarrow> slots_held (p\<lparr>cp_scheduler := map_option closeAdmission (cp_scheduler p)\<rparr>)"
  by (rule slots_held_mono [of p]; cases "cp_scheduler p";
      simp add: needs_slot_def openAdmission_def closeAdmission_def)+

interpretation slots: plane_property slots_held c for c
proof
  fix p q j b e now reason u rb rb' res rv spec rq s
  assume p: "base p" "slots_held p"
  show "js_get (cp_jobs p) j = Some e \<Longrightarrow> je_reportBack e = Some rb \<Longrightarrow>
      slots_held (set_entry j (e\<lparr>je_reportBack := Some rb'\<rparr>) p)"
    using slots_same_lifecycle [OF p(2)] by simp
  show "js_get (cp_jobs p) j = None \<Longrightarrow> slots_held (enter_job (new_entry spec rq j now) p)"
    by (rule slots_enter [OF p])
  assume admit: "pump_admit p = (Some rv, q)"
  note a = slots_admit [OF p admit]
  show "slots_held (drop_reservation (sr_jobId rv) q)" by (rule a(2))
  assume e: "js_get (cp_jobs q) (sr_jobId rv) = Some e"
  show h: "slots_held (hold_slot (sr_jobId rv) q)" by (rule slots_hold [OF a(1) e])
  show "slots_held (call_dispatch (sr_jobId rv) True (hold_slot (sr_jobId rv) q))"
    by (rule slots_call [OF h]) (use a(3) in \<open>auto simp: hold_slot_set [OF e] set_entry_def split: option.splits\<close>)
qed (auto simp: slots_frames slots_gate slots_free slots_undispatch slots_dispatched
    slots_call enqueue_def intro: slots_scheduler slots_set_entry)

subsection \<open>At most one dispatch\<close>

definition dispatched_once :: "job_plane \<Rightarrow> bool" where
  "dispatched_once p =
     (distinct (cp_dispatchCalls p)
      \<and> (case cp_scheduler p of None \<Rightarrow> True
         | Some s \<Rightarrow> set (js_keys (as_queue s)) \<inter> set (cp_dispatchCalls p) = {}))"

lemma once_mono:
  assumes "dispatched_once p" "cp_dispatchCalls q = cp_dispatchCalls p"
    and "case cp_scheduler q of None \<Rightarrow> True | Some s' \<Rightarrow>
           (case cp_scheduler p of None \<Rightarrow> False | Some s \<Rightarrow> set (js_keys (as_queue s')) \<subseteq> set (js_keys (as_queue s)))"
  shows "dispatched_once q"
  using assms by (auto simp: dispatched_once_def simp del: set_map split: option.splits)

lemma once_same:
  "dispatched_once p \<Longrightarrow> cp_dispatchCalls q = cp_dispatchCalls p \<Longrightarrow> cp_scheduler q = cp_scheduler p \<Longrightarrow>
     dispatched_once q"
  by (simp add: dispatched_once_def cong: option.case_cong)

lemma once_admit:
  assumes "base p" "dispatched_once p" "pump_admit p = (Some rv, q)"
  shows "dispatched_once q" "sr_jobId rv \<notin> set (cp_dispatchCalls q)"
    and "case cp_scheduler q of None \<Rightarrow> False | Some s \<Rightarrow> sr_jobId rv \<notin> set (js_keys (as_queue s))"
proof -
  obtain s v cc where a: "cp_scheduler p = Some s" "next_eligible s = Some cc" "sr_jobId rv = ac_jobId cc"
    "q = p\<lparr>cp_scheduler := Some (scheduler_after_admit (sr_jobId rv) rv s), cp_env := v\<rparr>"
    using pump_admit_Some [OF assms(3)] by metis
  show "dispatched_once q"
    by (rule once_mono [OF assms(2)])
      (auto simp: a scheduler_after_admit_def js_key_order simp del: set_map)
  have "sr_jobId rv \<in> set (js_keys (as_queue s))"
    using admitted_job(1) [OF base_sched_inv [OF assms(1) a(1)] a(2)] a(3) by simp
  then show "sr_jobId rv \<notin> set (cp_dispatchCalls q)"
    using assms(2) a(1) by (auto simp: dispatched_once_def a(4) simp del: set_map)
  show "case cp_scheduler q of None \<Rightarrow> False | Some s \<Rightarrow> sr_jobId rv \<notin> set (js_keys (as_queue s))"
    by (simp add: a(4) scheduler_after_admit_def js_key_order del: set_map)
qed

lemma once_call:
  "dispatched_once q \<Longrightarrow> j \<notin> set (cp_dispatchCalls q) \<Longrightarrow>
     (case cp_scheduler q of None \<Rightarrow> True | Some s \<Rightarrow> j \<notin> set (js_keys (as_queue s))) \<Longrightarrow>
     dispatched_once (call_dispatch j b q)"
  by (auto simp: dispatched_once_def call_dispatch_def simp del: set_map split: option.splits)

lemma once_free: "dispatched_once p \<Longrightarrow> dispatched_once (snd (free_slot j p))"
  by (cases rule: free_slot_cases [of p j])
    (auto simp: dispatched_once_def set_entry_def withdraw_def release_def js_key_order simp del: set_map)

lemma once_drop: "dispatched_once p \<Longrightarrow> dispatched_once (drop_reservation j p)"
  by (cases "cp_scheduler p") (simp_all add: dispatched_once_def drop_reservation_def release_def)

lemma once_enqueue:
  assumes "dispatched_once p" "cp_scheduler p = Some s" "untouched j p" "ac_jobId cand = j"
  shows "dispatched_once (p\<lparr>cp_scheduler := Some (enqueue cand s)\<rparr>)"
  using assms
  by (auto simp: dispatched_once_def untouched_def enqueue_def js_key_order simp del: set_map)

interpretation once: plane_property dispatched_once c for c
proof
  fix p q j b e now reason u rb rb' res rv spec rq s
  assume p: "base p" "dispatched_once p"
  show "dispatched_once (p\<lparr>cp_scheduler := map_option openAdmission (cp_scheduler p)\<rparr>)"
    "dispatched_once (p\<lparr>cp_scheduler := map_option closeAdmission (cp_scheduler p)\<rparr>)"
    using p(2) by (cases "cp_scheduler p"; simp add: dispatched_once_def openAdmission_def closeAdmission_def)+
  show "cp_scheduler p = Some s \<Longrightarrow> e = new_entry spec rq j now \<Longrightarrow> untouched j p \<Longrightarrow>
      dispatched_once (p\<lparr>cp_scheduler := Some (enqueue (candidate_of e) s)\<rparr>)"
    using once_enqueue [OF p(2)] by simp
  show "cp_scheduler p = None \<Longrightarrow> untouched j p \<Longrightarrow> dispatched_once (call_dispatch j False p)"
    using once_call [OF p(2), of j] by (simp add: untouched_def)
  assume admit: "pump_admit p = (Some rv, q)"
  note a = once_admit [OF p admit]
  show "dispatched_once (drop_reservation (sr_jobId rv) q)" by (rule once_drop [OF a(1)])
  assume e: "js_get (cp_jobs q) (sr_jobId rv) = Some e"
  show h: "dispatched_once (hold_slot (sr_jobId rv) q)"
    by (rule once_same [OF a(1)]) (simp_all add: hold_slot_set [OF e] set_entry_def)
  show "dispatched_once (call_dispatch (sr_jobId rv) True (hold_slot (sr_jobId rv) q))"
    by (rule once_call [OF h])
      (use a(2,3) in \<open>auto simp: hold_slot_set [OF e] set_entry_def simp del: set_map split: option.splits\<close>)
qed (auto simp: once_free set_entry_def drop_dispatch_def enter_job_def elim: once_same)

subsection \<open>The declared ceilings\<close>

definition ceilings_are :: "concurrency_declaration option \<Rightarrow> job_plane \<Rightarrow> bool" where
  "ceilings_are l p = (map_option as_limits (cp_scheduler p) = l)"

lemma ceilings_free: "ceilings_are l p \<Longrightarrow> ceilings_are l (snd (free_slot j p))"
  by (cases rule: free_slot_cases [of p j])
    (auto simp: ceilings_are_def set_entry_def withdraw_def release_def)

lemma ceilings_admit:
  assumes "ceilings_are l p" "pump_admit p = (Some rv, q)"
  shows "ceilings_are l q" "ceilings_are l (drop_reservation (sr_jobId rv) q)"
proof -
  obtain s v where "cp_scheduler p = Some s"
    "q = p\<lparr>cp_scheduler := Some (scheduler_after_admit (sr_jobId rv) rv s), cp_env := v\<rparr>"
    using pump_admit_Some [OF assms(2)] by metis
  with assms(1) show "ceilings_are l q" "ceilings_are l (drop_reservation (sr_jobId rv) q)"
    by (simp_all add: ceilings_are_def drop_reservation_def scheduler_after_admit_def release_def)
qed

lemma ceilings_jobs:
  "ceilings_are l (set_entry j e p) = ceilings_are l p"
  "ceilings_are l (call_dispatch j b p) = ceilings_are l p"
  "ceilings_are l (drop_dispatch j b p) = ceilings_are l p"
  "ceilings_are l (enter_job e p) = ceilings_are l p"
  "ceilings_are l (hold_slot j p) = ceilings_are l p"
  by (simp_all add: ceilings_are_def set_entry_def call_dispatch_def drop_dispatch_def enter_job_def
      hold_slot_def split: option.split)

interpretation ceilings: plane_property "ceilings_are l" c for l c
proof
  fix p q rv
  assume p: "ceilings_are l p"
  show "ceilings_are l (p\<lparr>cp_scheduler := map_option openAdmission (cp_scheduler p)\<rparr>)"
    "ceilings_are l (p\<lparr>cp_scheduler := map_option closeAdmission (cp_scheduler p)\<rparr>)"
    using p by (simp_all add: ceilings_are_def openAdmission_def closeAdmission_def option.map_comp o_def)
  assume admit: "pump_admit p = (Some rv, q)"
  show "ceilings_are l (drop_reservation (sr_jobId rv) q)" "ceilings_are l (hold_slot (sr_jobId rv) q)"
    "ceilings_are l (call_dispatch (sr_jobId rv) True (hold_slot (sr_jobId rv) q))"
    using ceilings_admit [OF p admit] by (simp_all add: ceilings_jobs)
qed (simp_all add: ceilings_jobs ceilings_free, simp_all add: ceilings_are_def enqueue_def)

subsection \<open>Runs from a new plane\<close>

definition initial_plane ::
  "provider_registry \<Rightarrow> concurrency_declaration option \<Rightarrow> budget_declaration option
     \<Rightarrow> persisted_job_state list option \<Rightarrow> broker_event list option \<Rightarrow> plane_env \<Rightarrow> job_plane" where
  "initial_plane registry limits budget store journal env =
     new_plane registry (map_option new_scheduler limits) (map_option new_ledger budget) store journal env"

lemma initial_base:
  assumes "inj (pe_ids env)"
  shows "base (initial_plane registry limits budget store journal env)"
  using assms new_scheduler_inv
  by (auto simp: base_def fresh_ids_def linked_def scheduler_linked_def initial_plane_def new_plane_def
      new_scheduler_def split: option.split)

lemma initial_sound:
  "records_sound (cp_jobs (initial_plane registry limits budget store journal env))"
  "family_sound c (cp_jobs (initial_plane registry limits budget store journal env))"
  "slots_held (initial_plane registry limits budget store journal env)"
  "dispatched_once (initial_plane registry limits budget store journal env)"
  by (auto simp: initial_plane_def new_plane_def records_sound_def family_sound_def parents_known_def
      entry_parent_def slots_held_def needs_slot_def dispatched_once_def split: option.split)

text \<open>The state after a run of events from a new plane.\<close>

definition plane_run ::
  "plane_config \<Rightarrow> plane_event list \<Rightarrow> job_plane \<Rightarrow> job_plane" where
  "plane_run c evs p = fold (plane_step c) evs p"

interpretation plain: jobs_property "\<lambda>_ _. True" c for c
  by unfold_locales simp_all

lemma run_base: "base p \<Longrightarrow> base (plane_run c evs p)"
  unfolding plane_run_def using plain.on_plane.inv.run_inv [of p c evs] by simp

lemma run_settled:
  "base p \<Longrightarrow> job_settled i (cp_jobs p) \<Longrightarrow> job_settled i (cp_jobs (plane_run c evs p))"
  unfolding plane_run_def using settled.on_plane.inv.run_inv [of p i c evs] by simp

lemma run_key:
  "base p \<Longrightarrow> key_bound key i (cp_jobs p) (cp_byIdempotencyKey p) \<Longrightarrow>
     key_bound key i (cp_jobs (plane_run c evs p)) (cp_byIdempotencyKey (plane_run c evs p))"
  unfolding plane_run_def using keys.on_plane.inv.run_inv [of p key i c evs] by simp

lemma run_records: "base p \<Longrightarrow> records_sound (cp_jobs p) \<Longrightarrow> records_sound (cp_jobs (plane_run c evs p))"
  unfolding plane_run_def using records.on_plane.inv.run_inv [of p c evs] by simp

lemma run_family: "base p \<Longrightarrow> family_sound c (cp_jobs p) \<Longrightarrow> family_sound c (cp_jobs (plane_run c evs p))"
  unfolding plane_run_def using family.on_plane.inv.run_inv [of p c evs] by simp

lemma run_slots: "base p \<Longrightarrow> slots_held p \<Longrightarrow> slots_held (plane_run c evs p)"
  unfolding plane_run_def using slots.inv.run_inv [of p c evs] by simp

lemma run_once: "base p \<Longrightarrow> dispatched_once p \<Longrightarrow> dispatched_once (plane_run c evs p)"
  unfolding plane_run_def using once.inv.run_inv [of p c evs] by simp

subsection \<open>The key of a submitted job\<close>

text \<open>A successful creation leaves its key bound to the answered job.\<close>

abbreviation bound :: "string \<Rightarrow> ident \<Rightarrow> job_plane \<Rightarrow> bool" where
  "bound key i p \<equiv> base p \<and> key_bound key i (cp_jobs p) (cp_byIdempotencyKey p)"

lemma create_fresh_bound:
  assumes "launch_safe spec rq"
  shows "op_triple (\<lambda>p. base p \<and> may_create c spec p) (create_fresh c' spec rq)
    (\<lambda>r p. bound (cs_idempotencyKey spec) (fst r) p) (\<lambda>_. True)"
proof -
  let ?key = "cs_idempotencyKey spec"
  let ?ready = "ready_to_enter (\<lambda>p. base p \<and> True) c spec"
  let ?entered = "\<lambda>j. entered (bound ?key j) j"
  have weak: "op_triple P m (\<lambda>_. P) (\<lambda>_. True)" if "op_keeps P m" for P and m :: "'b plane_op"
    by (rule op_triple_weaken [OF keeps_triple [OF that]]) simp_all
  note r = plane_frame.keeps_uuid [OF plain.on_plane.inv.ready_frame]
    plane_frame.keeps_budget_gate [OF plain.on_plane.inv.ready_frame]
    plane_frame.keeps_now [OF plain.on_plane.inv.ready_frame]
  note n = plane_frame.keeps_persist [OF keys.on_plane.inv.entered_frame]
    plane_frame.keeps_emit [OF keys.on_plane.inv.entered_frame]
  have new: "op_triple (\<lambda>p. base p \<and> may_create c spec p) newId (\<lambda>j. ?ready j) (\<lambda>_. True)"
    by (rule op_triple_weaken [OF plain.on_plane.inv.newId_triple]) simp_all
  have enter: "op_triple (?ready j) (op_modify (enter_job (new_entry spec rq j now)))
      (\<lambda>_. ?entered j (new_entry spec rq j now)) (\<lambda>_. True)" for j now
  proof (rule op_triple_modify)
    fix p
    assume "?ready j p"
    then have "entered (\<lambda>p. base p \<and> True) j (new_entry spec rq j now) (enter_job (new_entry spec rq j now) p)"
      using plain.on_plane.inv.enter_triple [OF assms, of c j now]
      by (simp add: op_triple_def op_modify_def)
    then show "?entered j (new_entry spec rq j now) (enter_job (new_entry spec rq j now) p)"
      by (simp add: entered_def key_bound_def enter_job_def new_entry_def js_lookup)
  qed
  have offer: "op_triple (?entered j (new_entry spec rq j now)) (offer_job (new_entry spec rq j now))
      (\<lambda>_ p. bound ?key j p) (\<lambda>_. True)" for j now
    by (rule op_triple_weaken [OF keys.on_plane.inv.offer_triple [OF refl]]) simp_all
  show ?thesis
    unfolding create_fresh_def Let_def
    by (rule op_triple_bind [OF new], rule op_triple_then [OF weak [OF r(1)]],
        rule op_triple_then [OF weak [OF r(2)]], rule op_triple_bind [OF weak [OF r(3)]],
        rule op_triple_then [OF enter], rule op_triple_then [OF weak [OF n(1)]],
        rule op_triple_then [OF weak [OF n(2)]], rule op_triple_then [OF weak [OF op_keeps_when [OF n(2)]]],
        rule op_triple_then [OF offer], rule op_triple_return, simp)
qed

lemma run_ceilings: "base p \<Longrightarrow> ceilings_are l p \<Longrightarrow> ceilings_are l (plane_run c evs p)"
  unfolding plane_run_def using ceilings.inv.run_inv [of p l c evs] by simp

lemma create_bound:
  assumes "base p" "parent_ok c spec p" "create c' spec p = (Inr (j, d), q)"
  shows "bound (cs_idempotencyKey spec) j q"
proof (cases "existing_job (cs_idempotencyKey spec) p")
  case (Some i)
  with assms(1,3) show ?thesis
    by (auto simp: create_def op_return_def existing_job_def key_bound_def js_has_def
        split: option.splits if_splits)
next
  case None
  let ?rq = "inherited_request spec p"
  have run: "launch_refusal spec ?rq p = None" "create_fresh c' spec ?rq p = (Inr (j, d), q)"
    using assms(3) None by (auto simp: create_def op_throw_def split: option.splits if_splits)
  have "launch_safe spec ?rq"
    using run(1) by (auto simp: launch_refusal_def launch_safe_def split: if_splits)
  then have "bound (cs_idempotencyKey spec) (fst (j, d)) q"
    by (rule op_tripleD [OF create_fresh_bound _ run(2)])
      (use assms(1,2) None in \<open>simp add: may_create_def\<close>)
  then show ?thesis by simp
qed

lemma create_again:
  "key_bound (cs_idempotencyKey spec) j (cp_jobs p) (cp_byIdempotencyKey p) \<Longrightarrow>
     create c' spec p = (Inr (j, True), p)"
  by (simp add: create_def existing_job_def key_bound_def js_has_def op_return_def)

end
