(* ===== verification/Job_Plane_Guarantees.thy ===== *)
theory Job_Plane_Guarantees
  imports Job_Plane_Properties
begin

text \<open>
  The guarantees of the job control plane over every run of events, with every interleaving of
  adapter answers and every failure of the store and the journal: idempotent submission, one
  settlement per job, delegation trees that share a budget scope, launch safety, concurrency
  ceilings, at-most-once dispatch, termination of the pump and recovery after a restart. The last
  part records what the plane does not guarantee. A small concrete plane gives the witnesses.
\<close>

subsection \<open>A concrete plane\<close>

text \<open>Two jobs may run at once; ids are strings of growing length and every write succeeds.\<close>

definition demo_ids :: "nat \<Rightarrow> ident" where
  "demo_ids n = replicate n (CHR ''i'')"

definition demo_surroundings :: plane_env where
  "demo_surroundings =
     \<lparr>pe_clock = (\<lambda>n. int n), pe_ticks = 0, pe_ids = demo_ids, pe_idCount = 1,
      pe_storeUp = (\<lambda>_. True), pe_writes = 0, pe_journalUp = (\<lambda>_. True), pe_emits = 0\<rparr>"

definition demo_config :: plane_config where
  "demo_config =
     \<lparr>pc_maxDelegationDepth = None, pc_isUuid = (\<lambda>_. True), pc_requestValid = (\<lambda>_. True),
      pc_submitValid = (\<lambda>_. True), pc_intentValid = (\<lambda>_. True), pc_reportValid = (\<lambda>_. True)\<rparr>"

definition demo_limits :: concurrency_declaration where
  "demo_limits =
     \<lparr>cd_schemaVersion = 1, maxConcurrentJobs = Some 1, maxConcurrentPerProvider = None,
      maxConcurrentPerRepository = None\<rparr>"

definition demo_registry :: provider_registry where
  "demo_registry = (case defaultProviderRegistry of Inl _ \<Rightarrow> [] | Inr registry \<Rightarrow> registry)"

definition demo_plane :: job_plane where
  "demo_plane = initial_plane demo_registry (Some demo_limits) None (Some []) (Some []) demo_surroundings"

definition demo_job_request :: job_request where
  "demo_job_request =
     \<lparr>jr_provider = ''codex'', jr_cwd = ''/repo'', jr_sandbox = ''read-only'', jr_executor = None,
      jr_executionProfile = None, jr_instruction = ''work'', jr_model = None, jr_role = None,
      jr_name = None, jr_workerMode = None\<rparr>"

definition demo_submit :: "string \<Rightarrow> submit_job_params" where
  "demo_submit key =
     \<lparr>sp_request = demo_job_request, sp_idempotencyKey = key, sp_correlationId = Some ''c'',
      sp_sessionId = None\<rparr>"

definition demo_intent :: "ident \<Rightarrow> delegation_intent" where
  "demo_intent q =
     \<lparr>di_delegationId = ''d'', di_correlationId = ''c'', di_parentJobId = Some q,
      di_parentSessionId = None, di_request = demo_job_request, di_reason = None\<rparr>"

definition demo_report :: "ident \<Rightarrow> job_result \<Rightarrow> job_report" where
  "demo_report j r =
     \<lparr>jp_jobId = j, jp_correlationId = ''c'', jp_reportedAt = 5, jp_result = r, jp_usage = None\<rparr>"

lemma demo_ids_inj: "inj (pe_ids demo_surroundings)"
  by (auto simp: inj_def demo_surroundings_def demo_ids_def dest: arg_cong [of _ _ length])

lemma demo_base: "base demo_plane"
  unfolding demo_plane_def by (rule initial_base [OF demo_ids_inj])

lemmas demo_defs = demo_plane_def demo_config_def demo_surroundings_def demo_limits_def demo_submit_def
  demo_job_request_def demo_ids_def demo_intent_def demo_report_def

subsection \<open>Submission and settlement\<close>



text \<open>
  C16. One settlement: once a job is settled it stays settled through every run; a report for it is
  answered as already settled and a cancellation is refused, and neither changes anything.
\<close>

theorem settled_is_final_for_callers:
  assumes "base p" "job_settled j (cp_jobs p)" "pc_isUuid c j"
    and "jp_jobId report = j" "pc_reportValid c report"
  shows "job_settled j (cp_jobs (plane_run c evs p))
    \<and> ingestReport c report (plane_run c evs p) = (Inr IngestAlreadySettled, plane_run c evs p)
    \<and> cancel c j reason (plane_run c evs p) = (Inl (PlaneCode JobAlreadyTerminal), plane_run c evs p)"
proof -
  have settled: "job_settled j (cp_jobs (plane_run c evs p))" by (rule run_settled [OF assms(1,2)])
  then obtain e where "js_get (cp_jobs (plane_run c evs p)) j = Some e" "is_settled (lifecycle_of e)"
    by (auto simp: job_settled_def split: option.splits)
  with settled assms(3-5) show ?thesis
    by (simp add: ingestReport_def cancel_def require_uuid_def op_when_def op_return_def op_throw_def)
qed

definition demo_settled :: job_plane where
  "demo_settled =
     plane_run demo_config
       [EvRegisterAdapter ''codex'', EvOpenAdmission, EvSubmit (demo_submit ''k''),
        EvDispatchReturn ''i'' True None, EvIngest (demo_report ''i'' (Completed None []))] demo_plane"

theorem settled_is_final_for_callers_witness:
  "job_settled ''i'' (cp_jobs demo_settled)
   \<and> cancel demo_config ''i'' None (plane_run demo_config [EvCancel ''i'' None, EvPump] demo_settled)
     = (Inl (PlaneCode JobAlreadyTerminal), plane_run demo_config [EvCancel ''i'' None, EvPump] demo_settled)"
proof -
  have "job_settled ''i'' (cp_jobs demo_settled)" by code_simp
  then show ?thesis
    using settled_is_final_for_callers [of demo_settled "''i''" demo_config "demo_report ''i'' TimedOut"
        "[EvCancel ''i'' None, EvPump]" None] run_base [OF demo_base]
    by (simp add: demo_settled_def demo_config_def demo_report_def)
qed

subsection \<open>Records and delegation trees\<close>

text \<open>
  C17. Sound records: in every reachable plane a job carries a report-back exactly when it is settled
  and was delegated, no delegated job asks for a Fable model, and every Claude job names its model.
\<close>

theorem job_records_sound:
  assumes "inj (pe_ids env)"
  shows "list_all entry_sound
    (js_values (cp_jobs (plane_run c evs (initial_plane registry limits budget store journal env))))"
  using run_records [OF initial_base [OF assms] initial_sound(1)] by (simp add: records_sound_def)

theorem job_records_sound_witness:
  "list_all entry_sound (js_values (cp_jobs demo_settled))"
  using job_records_sound [OF demo_ids_inj] unfolding demo_settled_def demo_plane_def by blast


definition demo_delegated :: job_plane where
  "demo_delegated =
     plane_run demo_config
       [EvRegisterAdapter ''codex'', EvOpenAdmission, EvSubmit (demo_submit ''k''),
        EvDelegate (demo_intent ''i'')] demo_plane"


subsection \<open>Slots and dispatch\<close>

definition active_jobs :: "job_plane \<Rightarrow> job_entry list" where
  "active_jobs p = filter (\<lambda>e. is_active (lifecycle_of e)) (js_values (cp_jobs p))"

lemma active_jobs_reserved:
  assumes "base p" "slots_held p" "cp_scheduler p = Some s"
  shows "length (active_jobs p) \<le> length (as_reservations s)"
proof -
  have keyed: "keyed entry_id (cp_jobs p)" by (rule base_keyed [OF assms(1)])
  have ids: "map entry_id (js_values (cp_jobs p)) = js_keys (cp_jobs p)"
    using keyed by (auto simp: keyed_def list_all_iff)
  have "distinct (map entry_id (js_values (cp_jobs p)))"
    using keyed_wf [OF keyed] unfolding ids js_wf_def .
  then have "distinct (map entry_id (active_jobs p))"
    unfolding active_jobs_def by (rule distinct_map_filter)
  moreover have "set (map entry_id (active_jobs p)) \<subseteq> set (js_keys (as_reservations s))"
  proof
    fix j
    assume "j \<in> set (map entry_id (active_jobs p))"
    then obtain e where e: "e \<in> set (js_values (cp_jobs p))" "is_active (lifecycle_of e)" "j = entry_id e"
      by (auto simp: active_jobs_def)
    then have "js_get (cp_jobs p) j = Some e" using keyed_value [OF keyed] by simp
    with e(2) have "needs_slot p j" by (auto simp: needs_slot_def)
    with assms(2,3) show "j \<in> set (js_keys (as_reservations s))" by (simp add: slots_held_def)
  qed
  ultimately have "length (map entry_id (active_jobs p)) \<le> length (js_keys (as_reservations s))"
    by (metis card_length card_mono distinct_card finite_set order.trans)
  then show ?thesis by simp
qed

text \<open>
  C3. Concurrency: with a declared ceiling, at no moment of any run are more jobs dispatched or
  running than the ceiling allows.
\<close>

theorem active_jobs_within_ceiling:
  assumes "inj (pe_ids env)" "maxConcurrentJobs limits = Some n"
  shows "length (active_jobs (plane_run c evs
           (initial_plane registry (Some limits) budget store journal env))) \<le> n"
proof -
  let ?start = "initial_plane registry (Some limits) budget store journal env"
  let ?p = "plane_run c evs ?start"
  have start: "base ?start" by (rule initial_base [OF assms(1)])
  then have inv: "base ?p" by (rule run_base)
  have "ceilings_are (Some limits) ?start"
    by (simp add: ceilings_are_def initial_plane_def new_plane_def new_scheduler_def)
  then have "ceilings_are (Some limits) ?p" by (rule run_ceilings [OF start])
  then obtain s where s: "cp_scheduler ?p = Some s" "as_limits s = limits"
    by (auto simp: ceilings_are_def)
  have "within_limits s"
    using base_sched_inv [OF inv s(1)] by (simp add: scheduler_inv_def)
  then have "length (as_reservations s) \<le> n" using s(2) assms(2) by (simp add: within_limits_def)
  with active_jobs_reserved [OF inv run_slots [OF start initial_sound(3)] s(1)]
  show ?thesis by simp
qed

definition demo_busy_events :: "plane_event list" where
  "demo_busy_events =
     [EvRegisterAdapter ''codex'', EvOpenAdmission, EvSubmit (demo_submit ''a''),
      EvSubmit (demo_submit ''b''), EvDispatchReturn ''i'' True None, EvPump]"

theorem active_jobs_within_ceiling_witness:
  "length (active_jobs (plane_run demo_config demo_busy_events demo_plane)) \<le> 1
   \<and> map entry_id (active_jobs (plane_run demo_config demo_busy_events demo_plane)) = [''i'']"
proof
  show "length (active_jobs (plane_run demo_config demo_busy_events demo_plane)) \<le> 1"
    unfolding demo_plane_def
    by (rule active_jobs_within_ceiling [OF demo_ids_inj]) (simp add: demo_limits_def)
  show "map entry_id (active_jobs (plane_run demo_config demo_busy_events demo_plane)) = [''i'']"
    by code_simp
qed

text \<open>
  C15. At most one dispatch: over a whole run no job is handed to an adapter twice.
\<close>

theorem dispatch_at_most_once:
  assumes "inj (pe_ids env)"
  shows "distinct (cp_dispatchCalls (plane_run c evs
           (initial_plane registry limits budget store journal env)))"
  using run_once [OF initial_base [OF assms] initial_sound(4)] by (simp add: dispatched_once_def)

theorem dispatch_at_most_once_witness:
  "distinct (cp_dispatchCalls (plane_run demo_config demo_busy_events demo_plane))
   \<and> cp_dispatchCalls (plane_run demo_config demo_busy_events demo_plane) = [''i'']"
proof
  show "distinct (cp_dispatchCalls (plane_run demo_config demo_busy_events demo_plane))"
    unfolding demo_plane_def by (rule dispatch_at_most_once [OF demo_ids_inj])
  show "cp_dispatchCalls (plane_run demo_config demo_busy_events demo_plane) = [''i'']" by code_simp
qed

subsection \<open>The pump ends\<close>

text \<open>What the loop keeps while it settles a job it could not dispatch.\<close>

definition pumping_within :: "nat \<Rightarrow> job_plane \<Rightarrow> bool" where
  "pumping_within k p = (base p \<and> cp_pumping p \<and> queue_length p \<le> k)"

lemma queue_free: "queue_length (snd (free_slot j p)) \<le> queue_length p" "cp_pumping (snd (free_slot j p)) = cp_pumping p"
  by (cases rule: free_slot_cases [of p j];
      simp add: queue_length_def set_entry_def withdraw_def release_def length_js_delete_le)+

lemma pumping_frame: "plane_frame (pumping_within k)"
  by unfold_locales (simp_all add: pumping_within_def queue_length_def base_frames cong: option.case_cong)

lemma settle_core_pumping: "op_keeps (pumping_within k) (settle_core j r u)"
proof -
  have update: "op_keeps (pumping_within k) (update_entry j (settled_entry now r u))" for now
  proof (rule triple_keeps, rule update_triple)
    fix p e
    assume "pumping_within k p" "js_get (cp_jobs p) j = Some e"
    then show "pumping_within k (set_entry j (settled_entry now r u e) p)"
      using base_set_entry [of p j e] by (simp add: pumping_within_def set_entry_def queue_length_def)
  qed
  have free: "op_keeps (pumping_within k) (free_slot j)"
    using queue_free [of j] base_free [of _ j] unfolding op_keeps_def pumping_within_def
    by (meson order.trans)
  show ?thesis
    unfolding settle_core_def
    by (intro op_rules update free plane_frame.frame_rules [OF pumping_frame])
qed

lemma pump_admit_shrinks:
  assumes "base p" "pump_admit p = (Some rv, q)"
  shows "queue_length q < queue_length p" "cp_pumping q = cp_pumping p"
proof -
  obtain s v cc where a: "cp_scheduler p = Some s" "next_eligible s = Some cc" "sr_jobId rv = ac_jobId cc"
    "q = p\<lparr>cp_scheduler := Some (scheduler_after_admit (sr_jobId rv) rv s), cp_env := v\<rparr>"
    using pump_admit_Some [OF assms(2)] by metis
  have "sr_jobId rv \<in> set (js_keys (as_queue s))"
    using admitted_job(1) [OF base_sched_inv [OF assms(1) a(1)] a(2)] a(3) by simp
  then show "queue_length q < queue_length p" "cp_pumping q = cp_pumping p"
    by (simp_all add: a queue_length_def scheduler_after_admit_def length_js_delete_less del: set_map)
qed

text \<open>Where a pump that returned has stopped: at an adapter call, or with nothing to admit.\<close>

definition pump_stopped :: "job_plane \<Rightarrow> bool" where
  "pump_stopped q =
     (if cp_pumping q then \<exists>j. (j, True) \<in> set (cp_dispatching q) else fst (pump_admit q) = None)"

lemma pump_admit_idle: "pump_admit p = (None, q) \<Longrightarrow> q = p \<and> pump_stopped (stop_pump q)"
  by (auto simp: pump_admit_def pump_stopped_def stop_pump_def Let_def split: option.splits prod.splits)

lemma dispatch_start_pumping:
  assumes "pumping_within k p" "dispatch_start j True p = (Inr res, q)"
  shows "case res of DispatchAwaited \<Rightarrow> pump_stopped q | DispatchFinished \<Rightarrow> pumping_within k q"
proof (cases "entry_provider j p \<in> set (cp_adapters p)")
  case True
  then show ?thesis
    using assms by (auto simp: plain.on_plane.inv.dispatch_start_served pump_stopped_def pumping_within_def
        call_dispatch_def)
next
  case False
  let ?m = "settle_core j (Failed DispatchRejected (''No adapter registered for provider '' @ entry_provider j p) []) None"
  have "pumping_within k (snd (?m p))" by (rule op_keepsD [OF settle_core_pumping assms(1)])
  with False assms(2) show ?thesis
    by (auto simp: dispatch_start_def op_then_def op_bind_def op_return_def op_gets_def
        split: prod.splits sum.splits)
qed

lemma pump_loop_stops:
  assumes "pumping_within k p" "k < fuel" "pump_loop fuel p = (Inr (), q)"
  shows "pump_stopped q"
  using assms
proof (induction fuel arbitrary: p k)
  case (Suc fuel)
  obtain ro t where admit: "pump_admit p = (ro, t)" by fastforce
  show ?case
  proof (cases ro)
    case None
    with Suc.prems(3) pump_admit_idle [of p t] admit show ?thesis by auto
  next
    case (Some rv)
    note admit' = admit [unfolded Some]
    have p: "base p" "cp_pumping p" "queue_length p \<le> k" using Suc.prems(1) by (simp_all add: pumping_within_def)
    note shrink = pump_admit_shrinks [OF p(1) admit']
    have less: "queue_length t \<le> k - 1" "k - 1 < fuel" using shrink(1) p(3) Suc.prems(2) by auto
    have t: "base t" using base_admit(1) [OF p(1) admit'] .
    show ?thesis
    proof (cases "case js_get (cp_jobs t) (sr_jobId rv) of None \<Rightarrow> True | Some e \<Rightarrow> \<not> is_queued (lifecycle_of e)")
      case True
      have "pumping_within (k - 1) (drop_reservation (sr_jobId rv) t)"
        using base_drop [OF t] less(1) shrink(2) p(2)
        by (cases "cp_scheduler t")
          (simp_all add: pumping_within_def drop_reservation_def queue_length_def release_def)
      with Suc.IH less(2) Suc.prems(3) True admit' show ?thesis by simp
    next
      case False
      then obtain e where e: "js_get (cp_jobs t) (sr_jobId rv) = Some e" by (auto split: option.splits)
      have held: "pumping_within (k - 1) (hold_slot (sr_jobId rv) t)"
        using base_hold [OF t e] less(1) shrink(2) p(2)
        by (simp add: pumping_within_def hold_slot_set [OF e] set_entry_def queue_length_def)
      show ?thesis
        using Suc.prems(3) False dispatch_start_pumping [OF held, of "sr_jobId rv" DispatchAwaited]
          dispatch_start_pumping [OF held, of "sr_jobId rv" DispatchFinished] Suc.IH [OF _ less(2)]
        by (auto simp: admit' split: prod.splits sum.splits dispatch_progress.splits)
    qed
  qed
qed simp

text \<open>
  C19. The pump ends where it should: whenever the pump returns, either it is waiting for the answer
  of an adapter it called, or no waiting job can be admitted.
\<close>

theorem pump_exhausts_admission:
  assumes "base p" "\<not> cp_pumping p" "cp_scheduler p \<noteq> None" "pump p = (Inr (), q)"
  shows "if cp_pumping q then \<exists>j. (j, True) \<in> set (cp_dispatching q) else fst (pump_admit q) = None"
proof -
  let ?p = "p\<lparr>cp_pumping := True\<rparr>"
  have "pumping_within (queue_length ?p) ?p"
    using assms(1) by (simp add: pumping_within_def base_frames)
  moreover have "pump_loop (Suc (queue_length ?p)) ?p = (Inr (), q)"
    using assms(2-4) by (simp add: pump_def run_pump_def del: pump_loop.simps split: if_splits)
  ultimately have "pump_stopped q" by (rule pump_loop_stops [OF _ lessI])
  then show ?thesis unfolding pump_stopped_def .
qed

text \<open>The waiting job of a plane whose ceiling is used up stays in the queue.\<close>

definition demo_ready :: job_plane where
  "demo_ready =
     plane_run demo_config [EvRegisterAdapter ''codex'', EvSubmit (demo_submit ''a''), EvOpenAdmission] demo_plane"

theorem pump_exhausts_admission_witness:
  "cp_pumping (snd (pump demo_ready))
   \<and> (if cp_pumping (snd (pump demo_ready))
      then \<exists>j. (j, True) \<in> set (cp_dispatching (snd (pump demo_ready)))
      else fst (pump_admit (snd (pump demo_ready))) = None)"
proof
  show "cp_pumping (snd (pump demo_ready))" by code_simp
  have ok: "fst (pump demo_ready) = Inr ()" "\<not> cp_pumping demo_ready" "cp_scheduler demo_ready \<noteq> None"
    by code_simp+
  have "base demo_ready" unfolding demo_ready_def by (rule run_base [OF demo_base])
  then show "if cp_pumping (snd (pump demo_ready))
      then \<exists>j. (j, True) \<in> set (cp_dispatching (snd (pump demo_ready)))
      else fst (pump_admit (snd (pump demo_ready))) = None"
    by (rule pump_exhausts_admission [OF _ ok(2,3)]) (metis ok(1) prod.collapse)
qed

subsection \<open>Recovery\<close>

definition quiescent :: "job_entry \<Rightarrow> bool" where
  "quiescent e = (is_settled (lifecycle_of e) \<or> is_interrupted (lifecycle_of e))"

definition store_always_up :: "job_plane \<Rightarrow> bool" where
  "store_always_up p = (\<forall>n. pe_storeUp (cp_env p) n)"

text \<open>How recovery may change a map of jobs: nothing is lost, and a quiescent job is not touched.\<close>

definition quieted :: "ident set \<Rightarrow> (ident, job_entry) js_map \<Rightarrow> (ident, job_entry) js_map \<Rightarrow> bool" where
  "quieted ids m m' =
     (\<forall>i. case js_get m i of
            None \<Rightarrow> js_get m' i = None
          | Some e \<Rightarrow> \<exists>e'. js_get m' i = Some e' \<and> (quiescent e \<longrightarrow> e' = e) \<and> (i \<in> ids \<longrightarrow> quiescent e'))"

lemma recover_entry_exec:
  assumes "store_always_up p"
  shows "fst (recover_entry j p) = Inr () \<and> store_always_up (snd (recover_entry j p))
    \<and> quieted {j} (cp_jobs p) (cp_jobs (snd (recover_entry j p)))"
proof (cases "js_get (cp_jobs p) j")
  case None
  then show ?thesis
    using assms by (auto simp: recover_entry_def op_when_def op_return_def quieted_def split: option.split)
next
  case (Some e)
  show ?thesis
  proof (cases "quiescent e")
    case True
    with Some have "recover_entry j p = (Inr (), p)"
      by (auto simp: recover_entry_def op_when_def op_return_def quiescent_def)
    with Some True assms show ?thesis by (auto simp: quieted_def split: option.split)
  next
    case False
    let ?v = "cp_env p"
    let ?now = "pe_clock ?v (pe_ticks ?v)"
    let ?e = "with_lifecycle (Interrupted ?now restart_reason) ?now e"
    let ?q = "set_entry j ?e (p\<lparr>cp_env := ?v\<lparr>pe_ticks := pe_ticks ?v + 1\<rparr>\<rparr>)"
    have "recover_entry j p = persist j ?q"
      using Some False
      by (simp add: recover_entry_def op_when_def quiescent_def op_bind_def cp_now_def Let_def op_then_def
          op_gets_def update_entry_exec)
    moreover have "js_get (cp_jobs ?q) j = Some ?e" by (simp add: js_lookup)
    moreover have "quiescent ?e" by (simp add: quiescent_def)
    ultimately show ?thesis
      using assms Some False
      by (auto simp: persist_def store_always_up_def set_entry_def quieted_def js_lookup Let_def
          split: option.split)
  qed
qed

lemma quieted_trans:
  assumes "quieted A m m'" "quieted B m' m''" shows "quieted (A \<union> B) m m''"
  unfolding quieted_def
proof
  fix i
  show "case js_get m i of None \<Rightarrow> js_get m'' i = None
     | Some e \<Rightarrow> \<exists>e'. js_get m'' i = Some e' \<and> (quiescent e \<longrightarrow> e' = e) \<and> (i \<in> A \<union> B \<longrightarrow> quiescent e')"
    using assms [unfolded quieted_def, THEN spec, of i] by (auto split: option.splits)
qed

lemma recover_entries_exec:
  "store_always_up p \<Longrightarrow>
     fst (op_for recover_entry ids p) = Inr () \<and> store_always_up (snd (op_for recover_entry ids p))
     \<and> quieted (set ids) (cp_jobs p) (cp_jobs (snd (op_for recover_entry ids p)))"
proof (induction ids arbitrary: p)
  case Nil
  then show ?case by (auto simp: op_return_def quieted_def split: option.split)
next
  case (Cons j ids)
  obtain q where q: "recover_entry j p = (Inr (), q)" "store_always_up q" "quieted {j} (cp_jobs p) (cp_jobs q)"
    using recover_entry_exec [OF Cons.prems, of j] by (metis prod.collapse)
  with Cons.IH [OF q(2)] quieted_trans [OF q(3)] show ?case by (simp add: op_then_def op_bind_def)
qed

lemma load_states_get:
  assumes "distinct (map state_id states)" "st \<in> set states"
  shows "js_get (cp_jobs (load_states states p)) (state_id st) = Some (restored_entry st)"
proof -
  let ?kvs = "map (\<lambda>st. (state_id st, restored_entry st)) states"
  have fold: "cp_jobs (fold (\<lambda>st. enter_job (restored_entry st)) xs q)
      = fold (\<lambda>(k, v). js_set k v) (map (\<lambda>st. (state_id st, restored_entry st)) xs) (cp_jobs q)" for xs q
    by (induction xs arbitrary: q) (simp_all add: enter_job_def restored_entry_def state_id_def)
  have "map_of (rev ?kvs) (state_id st) = Some (restored_entry st)"
    by (rule map_of_is_SomeI) (use assms in \<open>simp_all add: comp_def flip: rev_map\<close>)
  then show ?thesis
    unfolding load_states_def fold js.fold_put_get by simp
qed

lemma replay_states: "distinct (map state_id (js_values (replay state_id written)))"
proof -
  have keyed: "keyed state_id (replay state_id written)" by (rule replay_keyed)
  then have "map state_id (js_values (replay state_id written)) = js_keys (replay state_id written)"
    by (auto simp: keyed_def list_all_iff)
  with keyed_wf [OF keyed] show ?thesis unfolding js_wf_def by metis
qed


definition demo_state :: "ident \<Rightarrow> job_lifecycle \<Rightarrow> persisted_job_state" where
  "demo_state j l =
     \<lparr>ps_record = \<lparr>jb_id = j, jb_correlationId = ''c'', jb_request = demo_job_request, jb_lifecycle = l,
        jb_parentJobId = None, jb_sessionId = None, jb_createdAt = 0, jb_updatedAt = 0\<rparr>,
      ps_idempotencyKey = j, ps_parentSessionId = None, ps_usage = None, ps_reportBack = None\<rparr>"

definition demo_written :: "persisted_job_state list" where
  "demo_written =
     [demo_state ''a'' (Queued 0), demo_state ''b'' (Queued 0), demo_state ''b'' (Settled 1 TimedOut)]"


subsection \<open>What the plane does not guarantee\<close>

definition outcome_of :: "ident \<Rightarrow> job_plane \<Rightarrow> job_result option" where
  "outcome_of j p =
     (case js_get (cp_jobs p) j of
        Some e \<Rightarrow> (case lifecycle_of e of Settled t r \<Rightarrow> Some r | _ \<Rightarrow> None) | None \<Rightarrow> None)"

definition demo_cancel_race :: "plane_event list" where
  "demo_cancel_race =
     [EvRegisterAdapter ''codex'', EvOpenAdmission, EvSubmit (demo_submit ''k''),
      EvDispatchReturn ''i'' True None, EvCancel ''i'' None,
      EvIngest (demo_report ''i'' (Completed (Some ''done'') []))]"


definition broken_store_env :: plane_env where
  "broken_store_env = demo_surroundings\<lparr>pe_storeUp := (\<lambda>n. n \<noteq> 3)\<rparr>"

definition demo_leak_events :: "plane_event list" where
  "demo_leak_events =
     [EvRegisterAdapter ''codex'', EvOpenAdmission, EvSubmit (demo_submit ''a''),
      EvSubmit (demo_submit ''b''), EvDispatchReturn ''i'' True None,
      EvOnReport (demo_report ''i'' (Completed None [])), EvOnReport (demo_report ''i'' (Completed None [])), EvPump]"

text \<open>
  A failed write leaks a slot: when the store rejects the write of a settlement, the job stays
  settled in memory, every repeated report is answered as already settled, and its slot is never
  returned, so a job waiting behind a ceiling of one is not admitted although nothing runs.
\<close>

theorem failed_settlement_leaks_slot:
  "(let p = plane_run demo_config demo_leak_events
              (initial_plane demo_registry (Some demo_limits) None (Some []) None broken_store_env)
    in outcome_of ''i'' p = Some (Completed None []) \<and> active_jobs p = []
       \<and> fst (pump_admit p) = None \<and> queue_length p = 1)"
  by code_simp

end
