(* ===== verification/Control_Plane_Runtime.thy ===== *)
theory Control_Plane_Runtime
  imports Job_Plane_Guarantees Worktree_Leases
begin

text \<open>
  The composition of the control plane: \<^verbatim>\<open>src/src/control-plane/reconciler.ts\<close> and
  \<^verbatim>\<open>src/src/control-plane/runtime.ts\<close> over the job plane and the lease manager. The runtime is a
  record that holds both; an operation of a part is lifted to it. \<^verbatim>\<open>shutdown\<close> waits for the
  answer of an adapter between two cancellations, so what it still has to cancel is part of the
  state. The texts of findings are built as the code builds them.

  The lemmas show that nothing is dispatched before startup has reconciled and opened the gate, nor
  after shutdown has closed it; what a reconciliation pass leaves behind; and that shutdown settles
  every job it does not wait for.
\<close>

subsection \<open>Reconciliation\<close>

datatype finding_kind =
    UnverifiableInFlightJob
  | OrphanedRuntime
  | OrphanedLease
  | OrphanedArtifact
  | PendingReportBack

record reconciliation_finding =
  rf_kind :: finding_kind
  rf_subject :: ident
  rf_detail :: string
  rf_operatorActionRequired :: bool
  rf_suggestedAction :: string
  rf_destructive :: bool

record reconciliation_report =
  rr_reconciledAt :: instant
  rr_findings :: "reconciliation_finding list"
  rr_quarantinedJobIds :: "ident list"

datatype runtime_error =
    PlaneFailure plane_error
  | LeaseFailure lease_error
  | AlreadyStarted

text \<open>What the runtimes and the artifact store answer when they are asked.\<close>

record inspectors =
  in_activeJobIds :: "ident list list"
  in_artifactIds :: "ident list option"

record control_runtime =
  rt_plane :: job_plane
  rt_leases :: lease_manager
  rt_reconciliation :: "reconciliation_report option"
  rt_started :: bool
  rt_stopped :: bool
  rt_draining :: "ident list" \<comment> \<open>jobs that shutdown still has to cancel\<close>

type_synonym 'a runtime_op = "(control_runtime, runtime_error, 'a) op"

definition on_plane :: "'a plane_op \<Rightarrow> 'a runtime_op" where
  "on_plane m rt =
     (case m (rt_plane rt) of
        (Inl e, p) \<Rightarrow> (Inl (PlaneFailure e), rt\<lparr>rt_plane := p\<rparr>)
      | (Inr x, p) \<Rightarrow> (Inr x, rt\<lparr>rt_plane := p\<rparr>))"

definition on_leases :: "'a lease_op \<Rightarrow> 'a runtime_op" where
  "on_leases m rt =
     (case m (rt_leases rt) of
        (Inl e, l) \<Rightarrow> (Inl (LeaseFailure e), rt\<lparr>rt_leases := l\<rparr>)
      | (Inr x, l) \<Rightarrow> (Inr x, rt\<lparr>rt_leases := l\<rparr>))"

fun status_name :: "job_lifecycle \<Rightarrow> string" where
  "status_name (Queued t) = ''queued''"
| "status_name (Dispatched t) = ''dispatched''"
| "status_name (Running t) = ''running''"
| "status_name (Interrupted t r) = ''interrupted''"
| "status_name (Settled t r) = ''settled''"

fun report_state_name :: "report_back_state \<Rightarrow> string" where
  "report_state_name RbPending = ''pending''"
| "report_state_name RbDelivered = ''delivered''"
| "report_state_name RbFailed = ''failed''"

definition claimed_ids :: "inspectors \<Rightarrow> ident list" where
  "claimed_ids ins = fold (fold js_add) (in_activeJobIds ins) []"

definition in_flight_finding :: "ident \<Rightarrow> job_lifecycle \<Rightarrow> reconciliation_finding" where
  "in_flight_finding j l =
     \<lparr>rf_kind = UnverifiableInFlightJob, rf_subject = j,
      rf_detail = ''Job '' @ j @ '' was '' @ status_name l @ '' with no runtime able to vouch for it'',
      rf_operatorActionRequired = True,
      rf_suggestedAction = ''Inspect the job and its repository, then explicitly resubmit or abandon it. Cyberdeck will not retry it automatically.'',
      rf_destructive = False\<rparr>"

definition quarantine_reason :: string where
  "quarantine_reason = ''Reconciliation could not verify a supervised runtime for this in-flight job''"

text \<open>One round of the loop over the snapshots: the findings and the quarantined ids.\<close>

definition reconcile_job ::
  "plane_config \<Rightarrow> ident list \<Rightarrow> job_snapshot \<Rightarrow> (reconciliation_finding list \<times> ident list) plane_op" where
  "reconcile_job c claimed sn =
     (let j = jb_id (js_record sn); l = jb_lifecycle (js_record sn)
      in if is_settled l then op_return ([], [])
         else if \<not> is_interrupted l \<and> j \<in> set claimed then op_return ([], [])
         else if is_interrupted l then op_return ([in_flight_finding j l], [])
         else op_bind (quarantine c j quarantine_reason) (\<lambda>quarantined.
                op_return ([in_flight_finding j l], if quarantined then [j] else [])))"

primrec reconcile_jobs ::
  "plane_config \<Rightarrow> ident list \<Rightarrow> job_snapshot list \<Rightarrow> (reconciliation_finding list \<times> ident list) plane_op" where
  "reconcile_jobs c claimed [] = op_return ([], [])"
| "reconcile_jobs c claimed (sn # sns) =
     op_bind (reconcile_job c claimed sn) (\<lambda>(fs, qs).
       op_bind (reconcile_jobs c claimed sns) (\<lambda>(fs', qs'). op_return (fs @ fs', qs @ qs')))"

definition runtime_findings :: "ident list \<Rightarrow> ident list \<Rightarrow> reconciliation_finding list" where
  "runtime_findings claimed known =
     map (\<lambda>j. \<lparr>rf_kind = OrphanedRuntime, rf_subject = j,
        rf_detail = ''A supervised runtime claims job '' @ j @ '', which the control plane has no record of'',
        rf_operatorActionRequired = True,
        rf_suggestedAction = ''Inspect and stop the runtime manually; Cyberdeck refuses to kill a process it cannot correlate.'',
        rf_destructive = False\<rparr>)
       (filter (\<lambda>j. j \<notin> set known) claimed)"

definition lease_finding :: "orphan_evidence \<Rightarrow> reconciliation_finding" where
  "lease_finding ev =
     \<lparr>rf_kind = OrphanedLease, rf_subject = oe_leaseId ev,
      rf_detail = ''Lease '' @ oe_leaseId ev @ '' on '' @ oe_canonicalKey ev
        @ '' is held by unverifiable owner '' @ oe_ownerKey ev,
      rf_operatorActionRequired = True,
      rf_suggestedAction = ''Inspect the worktree and owner job; then explicitly resolve the orphan. Cyberdeck performs no Git cleanup.'',
      rf_destructive = False\<rparr>"

definition report_finding :: "report_back_record \<Rightarrow> reconciliation_finding" where
  "report_finding rb =
     \<lparr>rf_kind = PendingReportBack, rf_subject = rb_jobId rb,
      rf_detail = ''Report-back for job '' @ rb_jobId rb @ '' is '' @ report_state_name (rb_state rb)
        @ '' after '' @ decimal (rb_attempts rb) @ '' attempt(s)'',
      rf_operatorActionRequired = False,
      rf_suggestedAction = ''The parent must acknowledge the existing handoff; reconciliation never re-delivers or self-acknowledges it.'',
      rf_destructive = False\<rparr>"

definition report_findings :: "job_plane \<Rightarrow> reconciliation_finding list" where
  "report_findings p =
     map report_finding (filter (\<lambda>rb. rb_state rb \<noteq> RbDelivered) (listReportBacks p))"

definition referenced_artifacts :: "job_snapshot list \<Rightarrow> ident list" where
  "referenced_artifacts sns =
     concat (map (\<lambda>sn. case jb_lifecycle (js_record sn) of
                         Settled t r \<Rightarrow> map ad_id (result_artifacts r) | _ \<Rightarrow> []) sns)"

definition artifact_findings :: "job_snapshot list \<Rightarrow> ident list \<Rightarrow> reconciliation_finding list" where
  "artifact_findings sns ids =
     map (\<lambda>a. \<lparr>rf_kind = OrphanedArtifact, rf_subject = a,
        rf_detail = ''Stored artifact '' @ a @ '' is referenced by no known job result'',
        rf_operatorActionRequired = True,
        rf_suggestedAction = ''Inspect the artifact before removing it; Cyberdeck performs no destructive artifact cleanup.'',
        rf_destructive = False\<rparr>)
       (filter (\<lambda>a. a \<notin> set (referenced_artifacts sns)) ids)"

definition reconcile :: "plane_config \<Rightarrow> inspectors \<Rightarrow> instant \<Rightarrow> reconciliation_report runtime_op" where
  "reconcile c ins now =
     op_bind (op_gets (\<lambda>rt. listJobs (rt_plane rt))) (\<lambda>sns.
     op_bind (on_plane (reconcile_jobs c (claimed_ids ins) sns)) (\<lambda>(fs, qs).
     op_bind (on_leases lease_recover) (\<lambda>evidence.
     op_bind (op_gets (\<lambda>rt. report_findings (rt_plane rt))) (\<lambda>reports.
       op_return
         \<lparr>rr_reconciledAt = now,
          rr_findings = fs
            @ runtime_findings (claimed_ids ins) (map (\<lambda>sn. jb_id (js_record sn)) sns)
            @ map lease_finding evidence @ reports
            @ (case in_artifactIds ins of None \<Rightarrow> [] | Some ids \<Rightarrow> artifact_findings sns ids),
          rr_quarantinedJobIds = qs\<rparr>))))"

subsection \<open>Startup and shutdown\<close>

text \<open>The constructor: the declared providers, then each adapter and its provider id.\<close>

definition compose_registry ::
  "provider_descriptor list \<Rightarrow> string list \<Rightarrow> registry_error + provider_registry" where
  "compose_registry providers adapters =
     (case defaultProviderRegistry of
        Inl e \<Rightarrow> Inl e
      | Inr r \<Rightarrow> register_all (providers @ map (\<lambda>a. \<lparr>pd_id = a, pd_displayName = a\<rparr>) adapters) r)"

definition new_runtime ::
  "provider_registry \<Rightarrow> string list \<Rightarrow> concurrency_declaration \<Rightarrow> budget_declaration
     \<Rightarrow> persisted_job_state list \<Rightarrow> broker_event list option \<Rightarrow> plane_env \<Rightarrow> lease_manager \<Rightarrow> control_runtime" where
  "new_runtime registry adapters limits budget store journal env leases =
     \<lparr>rt_plane = fold registerAdapter adapters
        (initial_plane registry (Some limits) (Some budget) (Some store) journal env),
      rt_leases = leases, rt_reconciliation = None, rt_started = False, rt_stopped = False,
      rt_draining = []\<rparr>"

definition set_report :: "reconciliation_report \<Rightarrow> unit runtime_op" where
  "set_report r = op_modify (\<lambda>rt. rt\<lparr>rt_reconciliation := Some r\<rparr>)"

definition open_gate :: "unit plane_op" where
  "open_gate = op_modify (\<lambda>p. p\<lparr>cp_scheduler := map_option openAdmission (cp_scheduler p)\<rparr>)"

definition close_gate :: "unit plane_op" where
  "close_gate = op_modify (\<lambda>p. p\<lparr>cp_scheduler := map_option closeAdmission (cp_scheduler p)\<rparr>)"

definition runtime_start :: "plane_config \<Rightarrow> inspectors \<Rightarrow> instant \<Rightarrow> reconciliation_report runtime_op" where
  "runtime_start c ins now =
     op_bind (op_gets rt_started) (\<lambda>started.
       if started then op_throw AlreadyStarted
       else
         op_then (op_modify (\<lambda>rt. rt\<lparr>rt_started := True\<rparr>))
         (op_then (on_plane recover)
         (op_bind (reconcile c ins now) (\<lambda>r.
          op_then (set_report r)
          (op_then (on_plane open_gate)
          (op_then (on_plane pump)
            (op_return r)))))))"

definition runtime_reconcile :: "plane_config \<Rightarrow> inspectors \<Rightarrow> instant \<Rightarrow> reconciliation_report runtime_op" where
  "runtime_reconcile c ins now =
     op_bind (reconcile c ins now) (\<lambda>r. op_then (set_report r) (op_return r))"

definition shutdown_reason :: "string \<Rightarrow> string option" where
  "shutdown_reason reason = Some (''Broker shutdown ('' @ reason @ '')'')"

text \<open>
  The loop of \<^verbatim>\<open>shutdown\<close>: a cancellation that throws is swallowed; one that waits for an
  adapter suspends the loop, and the jobs behind it are returned.
\<close>

fun drain :: "plane_config \<Rightarrow> string option \<Rightarrow> ident list \<Rightarrow> job_plane \<Rightarrow> ident list \<times> job_plane" where
  "drain c reason [] p = ([], p)"
| "drain c reason (j # js) p =
     (case cancel c j reason p of
        (Inr None, q) \<Rightarrow> (js, q)
      | (_, q) \<Rightarrow> drain c reason js q)"

definition drain_runtime :: "plane_config \<Rightarrow> string \<Rightarrow> ident list \<Rightarrow> control_runtime \<Rightarrow> control_runtime" where
  "drain_runtime c reason js rt =
     (case drain c (shutdown_reason reason) js (rt_plane rt) of
        (rest, p) \<Rightarrow> rt\<lparr>rt_plane := p, rt_draining := rest\<rparr>)"

definition unsettled_ids :: "job_plane \<Rightarrow> ident list" where
  "unsettled_ids p =
     map (\<lambda>sn. jb_id (js_record sn))
       (filter (\<lambda>sn. \<not> is_settled (jb_lifecycle (js_record sn))) (listJobs p))"

definition runtime_shutdown :: "plane_config \<Rightarrow> string \<Rightarrow> control_runtime \<Rightarrow> control_runtime" where
  "runtime_shutdown c reason rt =
     (if rt_stopped rt then rt
      else let rt1 = rt\<lparr>rt_stopped := True, rt_plane := snd (close_gate (rt_plane rt))\<rparr>
           in drain_runtime c reason (unsettled_ids (rt_plane rt1)) rt1)"

text \<open>The adapter answers the cancellation that shutdown waits for, and the loop goes on.\<close>

definition shutdown_answered ::
  "plane_config \<Rightarrow> string \<Rightarrow> ident \<Rightarrow> cancellation_result \<Rightarrow> control_runtime \<Rightarrow> control_runtime" where
  "shutdown_answered c reason j answer rt =
     drain_runtime c reason (rt_draining rt)
       (rt\<lparr>rt_plane := snd (cancel_return j (shutdown_reason reason) answer (rt_plane rt))\<rparr>)"

definition lastReconciliation :: "control_runtime \<Rightarrow> reconciliation_report option" where
  "lastReconciliation rt = rt_reconciliation rt"

subsection \<open>Quiet jobs stay quiet\<close>

definition job_quiet :: "ident \<Rightarrow> (ident, job_entry) js_map \<Rightarrow> bool" where
  "job_quiet i m = (case js_get m i of None \<Rightarrow> False | Some e \<Rightarrow> quiescent e)"

lemma job_quiet_set: "job_quiet i (js_set j e m) = (if i = j then quiescent e else job_quiet i m)"
  by (simp add: job_quiet_def js_lookup)

lemma job_quiet_get: "js_get m i = Some e \<Longrightarrow> job_quiet i m = quiescent e"
  by (simp add: job_quiet_def)

lemma job_quiet_absent: "js_get m i = None \<Longrightarrow> \<not> job_quiet i m"
  by (simp add: job_quiet_def)

lemma quiescent_updates:
  "quiescent (settled_entry now r u e)" "quiescent (interrupted_entry now reason u e)"
  "quiescent (e\<lparr>je_reportBack := rb\<rparr>) = quiescent e" "quiescent (e\<lparr>je_holdsSlot := b\<rparr>) = quiescent e"
  "is_queued (lifecycle_of e) \<Longrightarrow> \<not> quiescent e"
  using not_active [of "lifecycle_of e"] by (auto simp: quiescent_def)

interpretation quiet: jobs_property "\<lambda>m _. job_quiet i m" c for i c
proof
  fix m k j e and now
  assume "job_quiet i m" "js_get m j = Some e" "is_queued (lifecycle_of e)"
  then show "job_quiet i (js_set j (with_lifecycle (Dispatched now) now e) m)"
    using quiescent_updates(5) by (auto simp: job_quiet_set job_quiet_get)
qed (auto simp: job_quiet_set job_quiet_get job_quiet_absent quiescent_updates)

lemma settled_is_quiet: "job_settled i m \<Longrightarrow> job_quiet i m"
  by (auto simp: job_settled_def job_quiet_def quiescent_def split: option.splits)

subsection \<open>A closed gate\<close>

text \<open>The gate is closed, and the calls made on the dispatch port are these.\<close>

definition gated :: "ident list \<Rightarrow> job_plane \<Rightarrow> bool" where
  "gated calls p =
     (base p \<and> (case cp_scheduler p of None \<Rightarrow> False | Some s \<Rightarrow> \<not> as_open s) \<and> cp_dispatchCalls p = calls)"

lemma gated_admits_nothing: "gated calls p \<Longrightarrow> pump_admit p = (ro, q) \<Longrightarrow> ro = None"
  by (auto simp: gated_def pump_admit_def admitNext_def Let_def split: option.splits prod.splits)

lemma gated_cong:
  "gated calls p \<Longrightarrow> base q \<Longrightarrow> cp_scheduler q = cp_scheduler p \<Longrightarrow> cp_dispatchCalls q = cp_dispatchCalls p \<Longrightarrow>
     gated calls q"
  by (simp add: gated_def cong: option.case_cong)

lemma gated_scheduler:
  "gated calls p \<Longrightarrow> base (p\<lparr>cp_scheduler := Some s\<rparr>) \<Longrightarrow> \<not> as_open s \<Longrightarrow> gated calls (p\<lparr>cp_scheduler := Some s\<rparr>)"
  by (simp add: gated_def)

lemma set_entry_rest [simp]:
  "cp_scheduler (set_entry j e p) = cp_scheduler p" "cp_dispatchCalls (set_entry j e p) = cp_dispatchCalls p"
  "cp_env (set_entry j e p) = cp_env p"
  by (simp_all add: set_entry_def)

lemma gated_free: "gated calls p \<Longrightarrow> gated calls (snd (free_slot j p))"
  using base_free [of p j]
  by (cases rule: free_slot_cases [of p j])
    (auto simp: gated_def set_entry_def withdraw_def release_def)

interpretation gate: gated_invariant "gated calls" c for calls c
proof
  fix p q j e rv and spec :: create_spec and rq now s n b and e' :: job_entry
  assume p: "gated calls p"
  then have bp: "base p" by (simp add: gated_def)
  show "base p" by (rule bp)
  show "gated calls (snd (free_slot j p))" by (rule gated_free [OF p])
  show "gated calls (p\<lparr>cp_scheduler := map_option closeAdmission (cp_scheduler p)\<rparr>)"
    using p base_gate [OF bp] by (auto simp: gated_def closeAdmission_def split: option.splits)
  show "gated calls (drop_dispatch j b p)"
    by (rule gated_cong [OF p base_drop_dispatch [OF bp]]) (simp_all add: drop_dispatch_def)
  show "js_get (cp_jobs p) j = None \<Longrightarrow> n < pe_idCount (cp_env p) \<Longrightarrow> j = pe_ids (cp_env p) n \<Longrightarrow>
      gated calls (enter_job (new_entry spec rq j now) p)"
    using base_enter [OF bp] by (intro gated_cong [OF p]) (simp_all add: enter_job_def)
  show "cp_scheduler p = None \<Longrightarrow> gated calls (call_dispatch j False p)" using p by (simp add: gated_def)
  show "cp_scheduler p = Some s \<Longrightarrow> e = new_entry spec rq j now \<Longrightarrow> js_get (cp_jobs p) j = Some e \<Longrightarrow>
      untouched j p \<Longrightarrow> gated calls (p\<lparr>cp_scheduler := Some (enqueue (candidate_of e) s)\<rparr>)"
    using p base_enqueue [OF bp, of s "candidate_of e" e] by (simp add: gated_def enqueue_def)
  show "(j, b) \<in> set (cp_dispatching p) \<Longrightarrow> js_get (cp_jobs p) j = Some e \<Longrightarrow> is_queued (lifecycle_of e) \<Longrightarrow>
      gated calls (set_entry j (with_lifecycle (Dispatched now) now e) (drop_dispatch j b p))"
    using base_set_entry [OF base_drop_dispatch [OF bp], of j b j e]
    by (intro gated_cong [OF p]) (simp_all add: set_entry_def drop_dispatch_def)
  assume admit: "pump_admit p = (Some rv, q)"
  from gated_admits_nothing [OF p admit]
  show "gated calls (drop_reservation (sr_jobId rv) q)" "gated calls (hold_slot (sr_jobId rv) q)"
    "gated calls (call_dispatch (sr_jobId rv) True (hold_slot (sr_jobId rv) q))" by simp_all
qed (auto simp: gated_def base_frames intro: base_set_entry cong: option.case_cong)

subsection \<open>Recovery keeps the plane well-formed\<close>

context gated_invariant
begin

lemma recover_entry_keeps: "op_keeps P (recover_entry j)"
proof -
  have same: "with_lifecycle (Interrupted now restart_reason) now e = interrupted_entry now restart_reason None e"
    for now e by (simp add: interrupted_entry_def or_else_def with_lifecycle_def)
  have frame: "plane_frame (\<lambda>p. P p \<and> unsettled j p)"
    by unfold_locales (auto simp: unsettled_def frame_env frame_store frame_journal frame_budgets)
  have now: "op_triple (\<lambda>p. P p \<and> unsettled j p) cp_now (\<lambda>_ p. P p \<and> unsettled j p) P"
    by (rule op_triple_weaken [OF keeps_triple [OF plane_frame.keeps_now [OF frame]]]) auto
  have update: "op_triple (\<lambda>p. P p \<and> unsettled j p)
      (update_entry j (with_lifecycle (Interrupted now restart_reason) now)) (\<lambda>_. P) P" for now
    by (rule update_triple) (auto simp: same unsettled_def law_interrupted)
  have run: "op_triple (\<lambda>p. P p \<and> unsettled j p)
      (op_bind cp_now (\<lambda>now. op_then (update_entry j (with_lifecycle (Interrupted now restart_reason) now))
         (persist j))) (\<lambda>_. P) P"
    by (intro op_triple_bind [OF now] op_triple_then [OF update] keeps_triple keeps_persist)
  have "P (snd (recover_entry j p))" if "P p" for p
  proof (cases "\<exists>e. js_get (cp_jobs p) j = Some e \<and> \<not> is_settled (lifecycle_of e) \<and> \<not> is_interrupted (lifecycle_of e)")
    case True
    then have "unsettled j p" by (auto simp: unsettled_def)
    with op_triple_snd [OF run] that True show ?thesis by (auto simp: recover_entry_def op_when_def)
  next
    case False
    then have "case js_get (cp_jobs p) j of None \<Rightarrow> True
        | Some e \<Rightarrow> is_settled (lifecycle_of e) \<or> is_interrupted (lifecycle_of e)"
      by (auto split: option.split)
    then have "recover_entry j p = (Inr (), p)"
      by (auto simp: recover_entry_def op_when_def op_return_def split: option.splits)
    with that show ?thesis by simp
  qed
  then show ?thesis by (simp add: op_keeps_def)
qed

end

text \<open>No stored job bears an id the factory has yet to draw.\<close>

definition ids_unused :: "persisted_job_state list \<Rightarrow> job_plane \<Rightarrow> bool" where
  "ids_unused written p =
     (\<forall>n. pe_idCount (cp_env p) \<le> n \<longrightarrow> pe_ids (cp_env p) n \<notin> state_id ` set written)"

lemma load_states_rest [simp]:
  "cp_env (load_states states p) = cp_env p" "cp_scheduler (load_states states p) = cp_scheduler p"
  "cp_dispatchCalls (load_states states p) = cp_dispatchCalls p"
  "cp_dispatching (load_states states p) = cp_dispatching p"
proof -
  have "cp_env (fold (\<lambda>st. enter_job (restored_entry st)) states q) = cp_env q
      \<and> cp_scheduler (fold (\<lambda>st. enter_job (restored_entry st)) states q) = cp_scheduler q
      \<and> cp_dispatchCalls (fold (\<lambda>st. enter_job (restored_entry st)) states q) = cp_dispatchCalls q
      \<and> cp_dispatching (fold (\<lambda>st. enter_job (restored_entry st)) states q) = cp_dispatching q" for q
    by (induction states arbitrary: q) (simp_all add: enter_job_def)
  then show "cp_env (load_states states p) = cp_env p" "cp_scheduler (load_states states p) = cp_scheduler p"
    "cp_dispatchCalls (load_states states p) = cp_dispatchCalls p"
    "cp_dispatching (load_states states p) = cp_dispatching p"
    by (simp_all add: load_states_def)
qed

lemma load_states_keyed:
  "keyed entry_id (cp_jobs (load_states states p))
   \<and> set (js_keys (cp_jobs (load_states states p))) = state_id ` set states"
proof -
  have "keyed entry_id (cp_jobs q) \<Longrightarrow>
      keyed entry_id (cp_jobs (fold (\<lambda>st. enter_job (restored_entry st)) states q))
      \<and> set (js_keys (cp_jobs (fold (\<lambda>st. enter_job (restored_entry st)) states q)))
        = set (js_keys (cp_jobs q)) \<union> state_id ` set states" for q
  proof (induction states arbitrary: q)
    case (Cons st states)
    have "keyed entry_id (cp_jobs (enter_job (restored_entry st) q))"
      using keyed_set [OF Cons.prems, of "restored_entry st"]
      by (simp add: enter_job_def entry_id_def [of "restored_entry st"])
    moreover have "set (js_keys (cp_jobs (enter_job (restored_entry st) q)))
        = insert (state_id st) (set (js_keys (cp_jobs q)))"
      by (auto simp: enter_job_def restored_entry_def state_id_def js_key_order simp del: set_map)
    ultimately show ?case using Cons.IH by (simp del: set_map)
  qed simp
  then show ?thesis by (simp add: load_states_def)
qed

lemma replay_values_subset: "set (js_values (replay key rs)) \<subseteq> set rs"
proof (induction rs rule: rev_induct)
  case (snoc r rs)
  have "set (js_values (replay key (rs @ [r]))) \<subseteq> insert r (set (js_values (replay key rs)))"
    by (auto simp: replay_def dest: set_js_set_D)
  with snoc show ?case unfolding set_append by fastforce
qed (simp add: replay_def)

lemma recover_gated:
  assumes "gated calls p" "cp_jobs p = []" "cp_store p = Some written" "ids_unused written p"
  shows "gated calls (snd (recover p))"
proof -
  let ?states = "js_values (replay state_id written)"
  let ?q = "load_states ?states p"
  have empty: "set (js_keys (cp_jobs p)) = {}" using assms(2) by simp
  have fresh: "inj (pe_ids (cp_env p))" using assms(1) by (simp add: gated_def base_def fresh_ids_def)
  have none: "js_get (cp_jobs ?q) (pe_ids (cp_env p) n) = None" if "pe_idCount (cp_env p) \<le> n" for n
  proof -
    have "pe_ids (cp_env p) n \<notin> state_id ` set ?states"
      using assms(4) that replay_values_subset [of state_id written] by (auto simp: ids_unused_def)
    with load_states_keyed [of ?states p] js.keys_get [of "pe_ids (cp_env p) n" "cp_jobs ?q"] show ?thesis by auto
  qed
  have bare: "set (cp_dispatchCalls p) = {}" "fst ` set (cp_dispatching p) = {}" "scheduler_linked {} (cp_scheduler p)"
    using assms(1) empty by (auto simp: gated_def base_def linked_def simp del: set_map)
  have "scheduler_linked ids (cp_scheduler p)" for ids
    using bare(3) by (auto simp: scheduler_linked_def simp del: set_map split: option.splits)
  with bare fresh none load_states_keyed [of ?states p] have "base ?q"
    unfolding base_def fresh_ids_def linked_def
    by (simp del: set_map)
  then have "gated calls ?q"
    by (rule gated_cong [OF assms(1)]) simp_all
  then have "gated calls (snd (op_for recover_entry ids ?q))" for ids
    by (rule op_keepsD [OF op_keeps_for [OF gate.recover_entry_keeps]])
  then show ?thesis using assms(3) by (simp add: recover_def)
qed

subsection \<open>Reconciliation under a closed gate\<close>

lemma gated_reconcile_job: "op_keeps (gated calls) (reconcile_job c claimed sn)"
proof -
  have "op_keeps (gated calls) (quarantine c j reason)" for j reason
    using gate.quarantine_keeps by (auto simp: op_keeps_def)
  then show ?thesis by (auto simp: reconcile_job_def Let_def intro!: op_rules)
qed

lemma gated_reconcile_jobs: "op_keeps (gated calls) (reconcile_jobs c claimed sns)"
  by (induction sns) (auto intro!: op_rules gated_reconcile_job split: prod.split)

lemma on_plane_keeps: "op_keeps P m \<Longrightarrow> op_keeps (\<lambda>rt. P (rt_plane rt)) (on_plane m)"
  by (force simp: op_keeps_def on_plane_def split: prod.splits sum.splits)

lemma on_leases_keeps: "op_keeps (\<lambda>rt. P (rt_plane rt)) (on_leases m)"
  by (auto simp: op_keeps_def on_leases_def split: prod.splits sum.splits)

lemma gated_reconcile: "op_keeps (\<lambda>rt. gated calls (rt_plane rt)) (reconcile c ins now)"
  unfolding reconcile_def
  by (intro op_rules on_leases_keeps on_plane_keeps gated_reconcile_jobs)
    (auto intro!: op_rules on_leases_keeps split: prod.split)

text \<open>What a start that throws may leave behind.\<close>

definition gated_or_reported :: "control_runtime \<Rightarrow> bool" where
  "gated_or_reported rt = (rt_reconciliation rt \<noteq> None \<or> gated [] (rt_plane rt))"

definition fresh_runtime :: "persisted_job_state list \<Rightarrow> control_runtime \<Rightarrow> bool" where
  "fresh_runtime written rt =
     (gated [] (rt_plane rt) \<and> cp_jobs (rt_plane rt) = [] \<and> cp_store (rt_plane rt) = Some written
      \<and> ids_unused written (rt_plane rt))"

lemma start_triple:
  "op_triple (fresh_runtime written) (runtime_start c ins now) (\<lambda>_ _. True) gated_or_reported"
proof -
  let ?G = "\<lambda>rt. gated [] (rt_plane rt)" and ?R = "\<lambda>rt. rt_reconciliation rt \<noteq> None"
  have recover: "op_triple (fresh_runtime written) (on_plane recover) (\<lambda>_. ?G) gated_or_reported"
  proof (rule op_tripleI)
    fix rt
    assume "fresh_runtime written rt"
    then have "gated [] (snd (recover (rt_plane rt)))"
      by (intro recover_gated [of _ _ written]) (simp_all add: fresh_runtime_def)
    then show "case on_plane recover rt of (Inr x, t) \<Rightarrow> ?G t | (Inl e, t) \<Rightarrow> gated_or_reported t"
      by (auto simp: on_plane_def gated_or_reported_def split: prod.split sum.split)
  qed
  have rec: "op_triple ?G (reconcile c ins now) (\<lambda>_. ?G) gated_or_reported"
    by (rule op_triple_weaken [OF keeps_triple [OF gated_reconcile]]) (auto simp: gated_or_reported_def)
  have set: "op_triple ?G (set_report r) (\<lambda>_. ?R) gated_or_reported" for r
    unfolding set_report_def by (rule op_triple_modify) simp
  have rest: "op_triple ?R (on_plane m) (\<lambda>_. ?R) gated_or_reported" for m :: "unit plane_op"
    by (rule op_tripleI) (auto simp: on_plane_def gated_or_reported_def split: prod.split sum.split)
  have flag: "op_triple (fresh_runtime written) (op_modify (\<lambda>rt. rt\<lparr>rt_started := True\<rparr>))
      (\<lambda>_. fresh_runtime written) gated_or_reported"
    by (rule op_triple_modify) (simp add: fresh_runtime_def)
  have body: "op_triple (fresh_runtime written) (op_then (op_modify (\<lambda>rt. rt\<lparr>rt_started := True\<rparr>))
         (op_then (on_plane recover) (op_bind (reconcile c ins now) (\<lambda>r. op_then (set_report r)
          (op_then (on_plane open_gate) (op_then (on_plane pump) (op_return r)))))))
      (\<lambda>_ _. True) gated_or_reported"
    by (intro op_triple_then [OF flag] op_triple_then [OF recover] op_triple_bind [OF rec]
        op_triple_then [OF set] op_triple_then [OF rest] op_triple_return) simp
  have branches: "op_triple (fresh_runtime written) (if started then op_throw AlreadyStarted else
         op_then (op_modify (\<lambda>rt. rt\<lparr>rt_started := True\<rparr>))
         (op_then (on_plane recover) (op_bind (reconcile c ins now) (\<lambda>r. op_then (set_report r)
          (op_then (on_plane open_gate) (op_then (on_plane pump) (op_return r)))))))
      (\<lambda>_ _. True) gated_or_reported" for started
    by (cases started)
      (use body in \<open>auto intro!: op_triple_throw simp: fresh_runtime_def gated_or_reported_def\<close>)
  have "op_triple (fresh_runtime written) (op_gets rt_started) (\<lambda>_. fresh_runtime written) gated_or_reported"
    by (rule op_triple_gets)
  then show ?thesis unfolding runtime_start_def by (rule op_triple_bind) (rule branches)
qed

text \<open>
  Startup fails closed: if recovering the jobs or reconciling fails, the start is refused with
  no job dispatched and the admission gate still closed.
\<close>

theorem start_fails_closed:
  assumes "fresh_runtime written rt" "runtime_start c ins now rt = (Inl e, rt')"
    and "rt_reconciliation rt' = None"
  shows "cp_dispatchCalls (rt_plane rt') = []
    \<and> (case cp_scheduler (rt_plane rt') of None \<Rightarrow> False | Some s \<Rightarrow> \<not> as_open s)"
proof -
  have "gated_or_reported rt'"
    using start_triple [of written c ins now] assms(1,2) by (fastforce simp: op_triple_def)
  with assms(3) show ?thesis by (simp add: gated_or_reported_def gated_def)
qed

definition demo_inspectors :: inspectors where
  "demo_inspectors = \<lparr>in_activeJobIds = [], in_artifactIds = None\<rparr>"

definition demo_budget :: budget_declaration where
  "demo_budget =
     \<lparr>bd_schemaVersion = 1, maxJobs = None, maxWallClockMs = None, maxTotalTokens = None,
      maxArtifactBytes = None\<rparr>"

text \<open>A runtime whose store holds one queued job and refuses every write.\<close>

definition broken_runtime :: control_runtime where
  "broken_runtime =
     new_runtime demo_registry [''codex''] demo_limits demo_budget [demo_state ''a'' (Queued 0)] None
       (demo_surroundings\<lparr>pe_storeUp := (\<lambda>_. False)\<rparr>) demo_manager"

lemma broken_runtime_fresh: "fresh_runtime [demo_state ''a'' (Queued 0)] broken_runtime"
proof -
  have "base (initial_plane demo_registry (Some demo_limits) (Some demo_budget)
      (Some [demo_state ''a'' (Queued 0)]) None (demo_surroundings\<lparr>pe_storeUp := (\<lambda>_. False)\<rparr>))"
    using demo_ids_inj by (intro initial_base) (simp add: demo_surroundings_def)
  then have "base (rt_plane broken_runtime)"
    by (simp add: broken_runtime_def new_runtime_def registerAdapter_def base_frames)
  moreover have "ids_unused [demo_state ''a'' (Queued 0)] (rt_plane broken_runtime)"
  proof -
    have "replicate n (CHR ''i'') \<noteq> ''a''" for n by (cases n) auto
    then show ?thesis
      by (simp add: ids_unused_def broken_runtime_def new_runtime_def registerAdapter_def initial_plane_def
          new_plane_def demo_surroundings_def demo_ids_def state_id_def demo_state_def)
  qed
  ultimately show ?thesis
    by (simp add: fresh_runtime_def gated_def broken_runtime_def new_runtime_def registerAdapter_def
        initial_plane_def new_plane_def new_scheduler_def)
qed

theorem start_fails_closed_witness:
  "fst (runtime_start demo_config demo_inspectors 7 broken_runtime) = Inl (PlaneFailure PlaneStoreFailed)
   \<and> cp_dispatchCalls (rt_plane (snd (runtime_start demo_config demo_inspectors 7 broken_runtime))) = []"
proof -
  have run: "fst (runtime_start demo_config demo_inspectors 7 broken_runtime) = Inl (PlaneFailure PlaneStoreFailed)"
    "rt_reconciliation (snd (runtime_start demo_config demo_inspectors 7 broken_runtime)) = None" by code_simp+
  with start_fails_closed [OF broken_runtime_fresh, of demo_config demo_inspectors 7 "PlaneFailure PlaneStoreFailed"]
  show ?thesis by (metis prod.collapse)
qed

subsection \<open>Shutdown\<close>

lemma drain_keeps:
  assumes "\<And>j. op_keeps P (cancel c j reason)" "P p" shows "P (snd (drain c reason js p))"
  using assms(2)
proof (induction js arbitrary: p)
  case (Cons j js)
  have "P (snd (cancel c j reason p))" by (rule op_keepsD [OF assms(1) Cons.prems])
  then show ?case using Cons.IH by (auto split: prod.split sum.split option.split)
qed simp

lemma shutdown_gated:
  assumes "base (rt_plane rt)" "cp_scheduler (rt_plane rt) \<noteq> None" "\<not> rt_stopped rt"
  shows "gated (cp_dispatchCalls (rt_plane rt)) (rt_plane (runtime_shutdown c reason rt))"
proof -
  let ?p = "snd (close_gate (rt_plane rt))"
  have "gated (cp_dispatchCalls (rt_plane rt)) ?p"
    using assms base_gate [OF assms(1)] by (auto simp: gated_def close_gate_def op_modify_def closeAdmission_def)
  then have "gated (cp_dispatchCalls (rt_plane rt)) (snd (drain c (shutdown_reason reason) js ?p))" for js
    by (rule drain_keeps [OF gate.cancel_keeps])
  then show ?thesis
    using assms(3) by (simp add: runtime_shutdown_def drain_runtime_def Let_def split: prod.split)
      (metis snd_conv)
qed

text \<open>
  C27. Nothing starts after shutdown: from the moment shutdown closed the gate, no submission,
  delegation, report, pump or answer of an adapter makes the plane hand another job to an adapter.
\<close>

theorem no_dispatch_after_shutdown:
  assumes "base (rt_plane rt)" "cp_scheduler (rt_plane rt) \<noteq> None" "\<not> rt_stopped rt"
    and "EvOpenAdmission \<notin> set evs"
  shows "cp_dispatchCalls (plane_run c evs (rt_plane (runtime_shutdown c reason rt)))
    = cp_dispatchCalls (rt_plane rt)"
  using gate.gated_run_keeps [OF shutdown_gated [OF assms(1-3)] assms(4)]
  by (simp add: plane_run_def gated_def)

definition demo_runtime :: control_runtime where
  "demo_runtime =
     \<lparr>rt_plane = plane_run demo_config demo_busy_events demo_plane, rt_leases = demo_manager,
      rt_reconciliation = None, rt_started = True, rt_stopped = False, rt_draining = []\<rparr>"

lemma demo_runtime_base: "base (rt_plane demo_runtime)"
  by (simp add: demo_runtime_def run_base [OF demo_base])

theorem no_dispatch_after_shutdown_witness:
  "cp_dispatchCalls (plane_run demo_config [EvSubmit (demo_submit ''z''), EvPump]
     (rt_plane (runtime_shutdown demo_config ''exit'' demo_runtime))) = [''i'']"
proof -
  have "cp_scheduler (rt_plane demo_runtime) \<noteq> None" "\<not> rt_stopped demo_runtime"
    "cp_dispatchCalls (rt_plane demo_runtime) = [''i'']" by code_simp+
  then show ?thesis using no_dispatch_after_shutdown [OF demo_runtime_base] by simp
qed

text \<open>Cancelling a known job settles it, whatever the store does, or waits for its adapter.\<close>

lemma settle_core_settles:
  assumes "base p" "js_get (cp_jobs p) j = Some e"
  shows "job_settled j (cp_jobs (snd (settle_core j r u p)))"
proof -
  let ?S = "\<lambda>p. base p \<and> job_settled j (cp_jobs p)"
  have frame: "plane_frame ?S" by (rule settled.on_plane.inv.plane_frame_axioms)
  have now: "op_triple (\<lambda>p. base p \<and> js_get (cp_jobs p) j \<noteq> None) cp_now
      (\<lambda>_ p. base p \<and> js_get (cp_jobs p) j \<noteq> None) ?S"
    by (rule op_tripleI) (simp add: cp_now_def Let_def base_frames env_later_def)
  have update: "op_triple (\<lambda>p. base p \<and> js_get (cp_jobs p) j \<noteq> None)
      (update_entry j (settled_entry now r u)) (\<lambda>_. ?S) ?S" for now
    by (rule update_triple) (auto simp: job_settled_set base_set_entry)
  have free: "op_keeps ?S (free_slot j)"
    using settled.y_free base_free by (auto simp: op_keeps_def)
  have "op_triple (\<lambda>p. base p \<and> js_get (cp_jobs p) j \<noteq> None) (settle_core j r u) (\<lambda>_. ?S) ?S"
    unfolding settle_core_def
    by (intro op_triple_bind [OF now] op_triple_then [OF update] keeps_triple op_rules
        plane_frame.frame_rules [OF frame] free)
  from op_triple_snd [OF this, of p] assms show ?thesis by simp
qed

interpretation known: jobs_property "\<lambda>m _. js_get m i \<noteq> None" c for i c
  by unfold_locales (auto simp: js_lookup)

lemma cancel_outcome:
  assumes "base p" "js_get (cp_jobs p) j \<noteq> None" "pc_isUuid c j" "cancel c j reason p = (res, q)"
  shows "if res = Inr None then (j, reason) \<in> set (cp_cancelling q) else job_settled j (cp_jobs q)"
proof -
  from assms(2) obtain e where e: "js_get (cp_jobs p) j = Some e" by blast
  show ?thesis
  proof (cases "is_settled (lifecycle_of e)")
    case True
    with e assms(3,4) show ?thesis
      by (auto simp: cancel_def require_uuid_def op_when_def op_return_def op_throw_def job_settled_def)
  next
    case open_job: False
    let ?direct = "is_queued (lifecycle_of e) \<or> is_interrupted (lifecycle_of e)
      \<or> jr_provider (jb_request (je_record e)) \<notin> set (cp_adapters p)"
    show ?thesis
    proof (cases ?direct)
      case True
      let ?m = "settle j (Cancelled reason) None"
      have core: "job_settled j (cp_jobs (snd (settle_core j (Cancelled reason) None p)))"
        by (rule settle_core_settles [OF assms(1) e])
      have "base (snd (settle_core j (Cancelled reason) None p))"
        using op_keepsD [OF plain.on_plane.inv.settle_core_keeps] assms(1) by blast
      then have "job_settled j (cp_jobs (snd (pump (snd (settle_core j (Cancelled reason) None p)))))"
        using op_keepsD [OF settled.on_plane.inv.pump_keeps, of _ j] core by blast
      with core have "job_settled j (cp_jobs (snd (?m p)))"
        by (auto simp: settle_def op_then_def op_bind_def split: prod.split sum.split)
      moreover have "cancel c j reason p = op_then ?m (op_return (Some CancelAccepted)) p"
        using e open_job True assms(3) by (auto simp: cancel_def require_uuid_def op_when_def op_return_def)
      ultimately show ?thesis
        using assms(4) by (auto simp: op_then_def op_bind_def op_return_def split: prod.splits sum.splits)
    next
      case False
      with e open_job assms(3,4) show ?thesis
        by (auto simp: cancel_def require_uuid_def op_when_def op_return_def op_then_def op_modify_def op_bind_def op_gets_def)
    qed
  qed
qed

lemma drain_outcome:
  assumes "base p" "list_all (\<lambda>j. js_get (cp_jobs p) j \<noteq> None \<and> pc_isUuid c j) js"
    and "drain c reason js p = (rest, q)"
  shows "list_all (\<lambda>j. job_settled j (cp_jobs q) \<or> (j, reason) \<in> set (cp_cancelling q) \<or> j \<in> set rest) js"
  using assms
proof (induction js arbitrary: p)
  case (Cons j js)
  obtain res p' where run: "cancel c j reason p = (res, p')" by fastforce
  note out = cancel_outcome [OF Cons.prems(1) _ _ run]
  have base: "base p'"
    using op_keepsD [OF plain.on_plane.inv.cancel_keeps, of p c j reason] Cons.prems(1) run by simp
  have known: "list_all (\<lambda>j. js_get (cp_jobs p') j \<noteq> None \<and> pc_isUuid c j) js"
    using op_keepsD [OF known.on_plane.inv.cancel_keeps, of p _ c j reason] Cons.prems(1,2) run
    by (auto simp: list_all_iff)
  show ?case
  proof (cases "res = Inr None")
    case True
    with run Cons.prems(2,3) out show ?thesis by (auto simp: list_all_iff)
  next
    case False
    then have rec: "drain c reason js p' = (rest, q)"
      using Cons.prems(3) run by (auto split: sum.splits option.splits)
    have "job_settled j (cp_jobs p')" using out Cons.prems(2) False by simp
    then have "job_settled j (cp_jobs q)"
      using drain_keeps [OF settled.on_plane.inv.cancel_keeps, of p' j c reason js] base rec by simp
    with Cons.IH [OF base known rec] show ?thesis by simp
  qed
qed simp

lemma unsettled_ids_iff:
  assumes "keyed entry_id (cp_jobs p)"
  shows "j \<in> set (unsettled_ids p) \<longleftrightarrow> js_get (cp_jobs p) j \<noteq> None \<and> \<not> job_settled j (cp_jobs p)"
proof -
  have "unsettled_ids p = map entry_id (filter (\<lambda>e. \<not> is_settled (lifecycle_of e)) (js_values (cp_jobs p)))"
    by (simp add: unsettled_ids_def listJobs_def snapshot_of_def entry_id_def lifecycle_of_def filter_map o_def)
  then have "j \<in> set (unsettled_ids p) \<longleftrightarrow>
      (\<exists>e. e \<in> set (js_values (cp_jobs p)) \<and> \<not> is_settled (lifecycle_of e) \<and> entry_id e = j)"
    by (auto simp del: set_map simp: set_map [of entry_id])
  also have "\<dots> \<longleftrightarrow> (\<exists>e. js_get (cp_jobs p) j = Some e \<and> \<not> is_settled (lifecycle_of e))"
    using keyed_value [OF assms] keyed_get [OF assms, of j] by metis
  also have "\<dots> \<longleftrightarrow> js_get (cp_jobs p) j \<noteq> None \<and> \<not> job_settled j (cp_jobs p)"
    by (cases "js_get (cp_jobs p) j") (simp_all add: job_settled_def)
  finally show ?thesis .
qed



subsection \<open>What a reconciliation pass leaves behind\<close>

lemma interrupt_quiets:
  assumes "base p" "js_get (cp_jobs p) j \<noteq> None" "\<not> job_settled j (cp_jobs p)"
  shows "job_quiet j (cp_jobs (snd (interrupt j reason u p)))"
proof -
  let ?K = "\<lambda>p. base p \<and> js_get (cp_jobs p) j \<noteq> None" and ?S = "\<lambda>p. base p \<and> job_quiet j (cp_jobs p)"
  have frame: "plane_frame ?S" by (rule quiet.on_plane.inv.plane_frame_axioms)
  have now: "op_triple ?K cp_now (\<lambda>_. ?K) ?S"
    by (rule op_tripleI) (simp add: cp_now_def Let_def base_frames env_later_def)
  have update: "op_triple ?K (update_entry j (\<lambda>e. (with_lifecycle (Interrupted now reason) now e)
      \<lparr>je_usage := or_else u (je_usage e)\<rparr>)) (\<lambda>_. ?S) ?S" for now
    unfolding interrupted_entry_def [symmetric]
    by (rule update_triple) (auto simp: job_quiet_set quiescent_updates base_set_entry)
  have free: "op_keeps ?S (free_slot j)"
    using quiet.y_free base_free by (auto simp: op_keeps_def)
  have "op_triple ?K (interrupt j reason u) (\<lambda>_. ?S) ?S"
    unfolding interrupt_def releaseSlot_def
    by (intro op_triple_bind [OF now] op_triple_then [OF update] keeps_triple op_rules
        plane_frame.frame_rules [OF frame] free quiet.on_plane.inv.pump_keeps)
  from op_triple_snd [OF this, of p] assms show ?thesis by simp
qed

lemma quarantine_quiets:
  assumes "base p" "js_get (cp_jobs p) j \<noteq> None" "quarantine c j reason p = (Inr b, q)"
  shows "job_quiet j (cp_jobs q)"
proof -
  from assms(2) obtain e where e: "js_get (cp_jobs p) j = Some e" by blast
  show ?thesis
  proof (cases "quiescent e")
    case True
    with e assms(3) show ?thesis
      by (auto simp: quarantine_def require_uuid_def op_when_def op_return_def op_throw_def quiescent_def
          job_quiet_def split: if_splits)
  next
    case False
    then have "\<not> job_settled j (cp_jobs p)" using e by (simp add: job_settled_def quiescent_def)
    note quiet = interrupt_quiets [OF assms(1,2) this, of reason None]
    show ?thesis
      using e False assms(3) quiet
      by (auto simp: quarantine_def require_uuid_def op_when_def op_return_def op_throw_def quiescent_def
          op_then_def op_bind_def op_gets_def split: if_splits prod.splits sum.splits)
  qed
qed

text \<open>A snapshot still describes the plane: its job is known, and quiet if it was.\<close>

definition snapshot_valid :: "job_plane \<Rightarrow> job_snapshot \<Rightarrow> bool" where
  "snapshot_valid p sn =
     (js_get (cp_jobs p) (jb_id (js_record sn)) \<noteq> None
      \<and> (is_settled (jb_lifecycle (js_record sn)) \<or> is_interrupted (jb_lifecycle (js_record sn))
         \<longrightarrow> job_quiet (jb_id (js_record sn)) (cp_jobs p)))"

definition accounted :: "ident list \<Rightarrow> reconciliation_finding list \<Rightarrow> job_plane \<Rightarrow> job_snapshot \<Rightarrow> bool" where
  "accounted claimed fs q sn =
     (is_settled (jb_lifecycle (js_record sn))
      \<or> \<not> is_interrupted (jb_lifecycle (js_record sn)) \<and> jb_id (js_record sn) \<in> set claimed
      \<or> job_quiet (jb_id (js_record sn)) (cp_jobs q)
        \<and> in_flight_finding (jb_id (js_record sn)) (jb_lifecycle (js_record sn)) \<in> set fs)"

lemma reconcile_job_keeps:
  assumes "\<And>j reason. op_keeps P (quarantine c j reason)"
  shows "op_keeps P (reconcile_job c claimed sn)" "op_keeps P (reconcile_jobs c claimed sns)"
proof -
  show one: "op_keeps P (reconcile_job c claimed sn)" for sn
    using assms by (auto simp: reconcile_job_def Let_def intro!: op_rules)
  show "op_keeps P (reconcile_jobs c claimed sns)"
    by (induction sns) (auto intro!: op_rules one split: prod.split)
qed

lemma quarantine_stable:
  "op_keeps (\<lambda>p. base p \<and> job_quiet i (cp_jobs p)) (quarantine c j reason)"
  "op_keeps (\<lambda>p. base p \<and> js_get (cp_jobs p) i \<noteq> None) (quarantine c j reason)"
  unfolding op_keeps_def using quiet.on_plane.inv.quarantine_keeps known.on_plane.inv.quarantine_keeps by blast+

lemma reconcile_job_accounts:
  assumes "base p" "snapshot_valid p sn" "reconcile_job c claimed sn p = (Inr (fs, qs), q)"
  shows "accounted claimed fs q sn"
proof -
  let ?j = "jb_id (js_record sn)" and ?l = "jb_lifecycle (js_record sn)"
  consider "is_settled ?l \<or> \<not> is_interrupted ?l \<and> ?j \<in> set claimed"
    | "\<not> is_settled ?l" "is_interrupted ?l" | "\<not> is_settled ?l" "\<not> is_interrupted ?l" "?j \<notin> set claimed" by blast
  then show ?thesis
  proof cases
    case 3
    then obtain b where run: "quarantine c ?j quarantine_reason p = (Inr b, q)" "fs = [in_flight_finding ?j ?l]"
      using assms(3)
      by (auto simp: reconcile_job_def Let_def op_bind_def op_return_def split: prod.splits sum.splits)
    have "job_quiet ?j (cp_jobs q)"
      using quarantine_quiets [OF assms(1) _ run(1)] assms(2) by (simp add: snapshot_valid_def)
    with run(2) show ?thesis by (simp add: accounted_def)
  qed (use assms(2,3) in \<open>auto simp: accounted_def reconcile_job_def Let_def op_return_def snapshot_valid_def
      split: if_splits\<close>)
qed

lemma snapshot_valid_stable:
  assumes "base p" "snapshot_valid p sn" "\<And>i. op_keeps (\<lambda>p. base p \<and> job_quiet i (cp_jobs p)) m"
    "\<And>i. op_keeps (\<lambda>p. base p \<and> js_get (cp_jobs p) i \<noteq> None) m"
  shows "snapshot_valid (snd (m p)) sn"
  using assms(1,2) op_keepsD [OF assms(3), of p "jb_id (js_record sn)"]
    op_keepsD [OF assms(4), of p "jb_id (js_record sn)"] by (auto simp: snapshot_valid_def)

lemma accounted_later:
  assumes "base q" "accounted claimed fs q sn" "set fs \<subseteq> set fs'"
    "\<And>i. op_keeps (\<lambda>p. base p \<and> job_quiet i (cp_jobs p)) m"
  shows "accounted claimed fs' (snd (m q)) sn"
  using assms(1-3) op_keepsD [OF assms(4), of q "jb_id (js_record sn)"] by (auto simp: accounted_def)

lemma reconcile_jobs_accounts:
  assumes "base p" "list_all (snapshot_valid p) sns" "reconcile_jobs c claimed sns p = (Inr (fs, qs), q)"
  shows "list_all (accounted claimed fs q) sns"
  using assms
proof (induction sns arbitrary: p fs qs)
  case (Cons sn sns)
  obtain f1 q1 p1 f2 q2 where one: "reconcile_job c claimed sn p = (Inr (f1, q1), p1)"
    and rest: "reconcile_jobs c claimed sns p1 = (Inr (f2, q2), q)" and fs: "fs = f1 @ f2"
    using Cons.prems(3) by (auto simp: op_bind_def op_return_def split: prod.splits sum.splits)
  note stable = reconcile_job_keeps [OF quarantine_stable(1)] reconcile_job_keeps [OF quarantine_stable(2)]
  have base: "base p1"
    using op_keepsD [OF stable(3) [of "jb_id (js_record sn)" c claimed sn]] Cons.prems(1,2) one
    by (force simp: snapshot_valid_def)
  have "list_all (snapshot_valid p1) sns"
    using snapshot_valid_stable [OF Cons.prems(1) _ stable(1,3), of _ c claimed sn] Cons.prems(2) one
    by (auto simp: list_all_iff)
  with Cons.IH [OF base _ rest] have "list_all (accounted claimed f2 q) sns" by blast
  then have "list_all (accounted claimed fs q) sns" by (auto simp: list_all_iff accounted_def fs)
  moreover have "accounted claimed fs q sn"
    using accounted_later [OF base reconcile_job_accounts [OF Cons.prems(1) _ one] _ stable(2), of fs c claimed sns]
      Cons.prems(2) rest fs by simp
  ultimately show ?case by simp
qed simp

lemma listJobs_valid:
  assumes "base p" shows "list_all (snapshot_valid p) (listJobs p)"
proof -
  have "snapshot_valid p (snapshot_of e)" if "e \<in> set (js_values (cp_jobs p))" for e
  proof -
    have "js_get (cp_jobs p) (entry_id e) = Some e" using that keyed_value [OF base_keyed [OF assms]] by blast
    then show ?thesis
      by (simp add: snapshot_valid_def snapshot_of_def job_quiet_def quiescent_def lifecycle_of_def entry_id_def)
  qed
  then show ?thesis unfolding listJobs_def list_all_iff by auto
qed

text \<open>
  Reconciliation accounts for every job: after a successful pass each job that was not settled
  and that no runtime vouches for, or that was interrupted before, is quiet, and the report carries
  a finding with its id and the status it had.
\<close>

theorem reconcile_accounts_for_jobs:
  assumes "base (rt_plane rt)" "reconcile c ins now rt = (Inr report, rt')"
    and "js_get (cp_jobs (rt_plane rt)) j = Some e" "\<not> is_settled (lifecycle_of e)"
    and "is_interrupted (lifecycle_of e) \<or> j \<notin> set (claimed_ids ins)"
  shows "job_quiet j (cp_jobs (rt_plane rt'))
    \<and> in_flight_finding j (lifecycle_of e) \<in> set (rr_findings report)"
proof -
  obtain fs qs q where run: "reconcile_jobs c (claimed_ids ins) (listJobs (rt_plane rt)) (rt_plane rt) = (Inr (fs, qs), q)"
    and rt': "rt_plane rt' = q" and sub: "set fs \<subseteq> set (rr_findings report)"
    using assms(2)
    by (auto simp: reconcile_def on_plane_def on_leases_def op_bind_def op_gets_def op_return_def
        split: prod.splits sum.splits)
  have id: "entry_id e = j" by (rule keyed_get [OF base_keyed [OF assms(1)] assms(3)])
  then have "snapshot_of e \<in> set (listJobs (rt_plane rt))"
    using assms(3) keyed_value [OF base_keyed [OF assms(1)]] unfolding listJobs_def by (metis imageI list.set_map)
  with reconcile_jobs_accounts [OF assms(1) listJobs_valid [OF assms(1)] run]
  have "accounted (claimed_ids ins) fs q (snapshot_of e)" by (auto simp: list_all_iff)
  with assms(4,5) id sub rt' show ?thesis
    by (auto simp: accounted_def snapshot_of_def lifecycle_of_def entry_id_def)
qed

theorem reconcile_accounts_for_jobs_witness:
  "job_quiet ''i'' (cp_jobs (rt_plane (snd (reconcile demo_config demo_inspectors 9 demo_runtime))))"
proof -
  have "map_option (\<lambda>e. is_active (lifecycle_of e)) (js_get (cp_jobs (rt_plane demo_runtime)) ''i'') = Some True"
    by code_simp
  then obtain e where e: "js_get (cp_jobs (rt_plane demo_runtime)) ''i'' = Some e" "is_active (lifecycle_of e)" by auto
  have "(case fst (reconcile demo_config demo_inspectors 9 demo_runtime) of Inl _ \<Rightarrow> False | Inr _ \<Rightarrow> True)" by code_simp
  then obtain r where "fst (reconcile demo_config demo_inspectors 9 demo_runtime) = Inr r" by (auto split: sum.splits)
  then have "reconcile demo_config demo_inspectors 9 demo_runtime
      = (Inr r, snd (reconcile demo_config demo_inspectors 9 demo_runtime))" by (metis prod.collapse)
  from reconcile_accounts_for_jobs [OF demo_runtime_base this e(1)] e(2) not_active(2) [of "lifecycle_of e"]
  show ?thesis by (auto simp: claimed_ids_def demo_inspectors_def)
qed

text \<open>A lease taken after startup, and the validation of its grant before and after another pass.\<close>

definition live_lease_before :: "bool option" where
  "live_lease_before =
     (case lease_acquire demo_env ''L'' (demo_request WorkspaceWrite) demo_manager of
        (Inr g, m) \<Rightarrow> (case fst (lease_validate g m) of Inr b \<Rightarrow> Some b | Inl _ \<Rightarrow> None)
      | (Inl _, m) \<Rightarrow> None)"

definition live_lease_after :: "bool option" where
  "live_lease_after =
     (case lease_acquire demo_env ''L'' (demo_request WorkspaceWrite) demo_manager of
        (Inr g, m) \<Rightarrow>
          (let rt = snd (runtime_reconcile demo_config demo_inspectors 9 (demo_runtime\<lparr>rt_leases := m\<rparr>))
           in case fst (lease_validate g (rt_leases rt)) of Inr b \<Rightarrow> Some b | Inl _ \<Rightarrow> None)
      | (Inl _, m) \<Rightarrow> None)"

text \<open>
  Reconciling again is not harmless: a pass after startup recovers the leases anew and orphans
  a lease that is held and in use, so its grant no longer validates.
\<close>

theorem reconcile_orphans_live_lease:
  "live_lease_before = Some True \<and> live_lease_after = Some False"
  by code_simp

end
