(* ===== verification/Permission_Resolution.thy ===== *)
theory Permission_Resolution
  imports Policy
begin

text \<open>
  How a stored permission request becomes the native flags of one provider:
  \<^verbatim>\<open>src/src/domain/permission-resolution.ts\<close>, which the launch adapters call, and
  \<^verbatim>\<open>src/src/orchestration/permission-policy.ts\<close>, which turns an operator's preference into
  the mode the pickers show. Failures and shortfalls carry their codes; the English sentences
  beside the codes are left out. A provider is any string, since a registered provider is not
  limited to the four built-in ones.
\<close>

subsection \<open>Requests and their meaning\<close>

datatype sandbox = ReadOnly | WorkspaceWrite

datatype approval_mode = Prompt | Auto

datatype write_boundary = WritesDenied | WritesWorkspace

datatype prompt_boundary = PromptsInteractive | PromptsNever

record effective_permission =
  ep_writes :: write_boundary
  ep_prompts :: prompt_boundary

datatype shortfall = ApprovalPromptsRemain | McpApprovalPromptsRemain

datatype post_launch_step = CursorRunEverything

record permission_plan =
  pl_provider :: string
  pl_requested :: effective_permission
  pl_achieved :: effective_permission
  pl_args :: "string list"
  pl_postLaunch :: "post_launch_step list"
  pl_shortfalls :: "shortfall list"

datatype resolution_failure =
    ProviderSandboxUnsupported | ProviderApprovalModeUnsupported | WritableRootsRequireWorkspaceWrite

datatype cursor_read_only_mode = CursorPlan | CursorAsk

record permission_request =
  pr_sandbox :: sandbox
  pr_approvalMode :: "approval_mode option"
  pr_codexApproveForMe :: "bool option"
  pr_writableRoots :: "string list option"
  pr_mcpInjected :: "bool option"
  pr_cursorReadOnlyMode :: "cursor_read_only_mode option"

definition resolveEffectivePermission :: "sandbox \<Rightarrow> approval_mode option \<Rightarrow> effective_permission" where
  "resolveEffectivePermission sb mode =
     \<lparr>ep_writes = (if sb = WorkspaceWrite then WritesWorkspace else WritesDenied),
      ep_prompts = (if mode = Some Auto then PromptsNever else PromptsInteractive)\<rparr>"

definition describeEffectivePermission :: "effective_permission \<Rightarrow> string" where
  "describeEffectivePermission p =
     (if ep_writes p = WritesWorkspace then ''may write its workspace'' else ''cannot write'')
     @ '', '' @ (if ep_prompts p = PromptsNever then ''never asks'' else ''asks before acting'')"

subsection \<open>The plan of each provider\<close>

definition addDirArgs :: "string list \<Rightarrow> string list" where
  "addDirArgs roots = concat (map (\<lambda>r. [''--add-dir'', r]) roots)"

definition codex_flags :: "effective_permission \<Rightarrow> string list \<Rightarrow> string list" where
  "codex_flags req roots =
     [''-s'', if ep_writes req = WritesWorkspace then ''workspace-write'' else ''read-only'',
      ''-a'', if ep_prompts req = PromptsNever then ''never'' else ''on-request'']
     @ addDirArgs roots"

definition literal_plan :: "string \<Rightarrow> effective_permission \<Rightarrow> string list \<Rightarrow> permission_plan" where
  "literal_plan provider req args =
     \<lparr>pl_provider = provider, pl_requested = req, pl_achieved = req, pl_args = args,
      pl_postLaunch = [], pl_shortfalls = []\<rparr>"

definition codexPlan :: "effective_permission \<Rightarrow> string list \<Rightarrow> bool \<Rightarrow> permission_plan" where
  "codexPlan req roots approveForMe =
     (if approveForMe
      then if ep_writes req \<noteq> WritesWorkspace \<or> ep_prompts req \<noteq> PromptsNever
           then literal_plan ''codex'' req (codex_flags req roots)
           else literal_plan ''codex'' req (''--approve-for-me'' # addDirArgs roots)
      else literal_plan ''codex'' req (codex_flags req roots))"

text \<open>The plan of a read-only request to a provider whose only write-denying mode still asks.\<close>

definition asking_plan :: "string \<Rightarrow> effective_permission \<Rightarrow> string list \<Rightarrow> permission_plan" where
  "asking_plan provider req args =
     \<lparr>pl_provider = provider, pl_requested = req,
      pl_achieved = \<lparr>ep_writes = WritesDenied, ep_prompts = PromptsInteractive\<rparr>,
      pl_args = args, pl_postLaunch = [],
      pl_shortfalls = (if ep_prompts req = PromptsNever then [ApprovalPromptsRemain] else [])\<rparr>"

definition claudePlan :: "effective_permission \<Rightarrow> string list \<Rightarrow> permission_plan" where
  "claudePlan req roots =
     (if ep_writes req = WritesDenied
      then asking_plan ''claude'' req [''--permission-mode'', ''plan'']
      else literal_plan ''claude'' req
             ([''--permission-mode'', case ep_prompts req of PromptsInteractive \<Rightarrow> ''manual'' | PromptsNever \<Rightarrow> ''auto'']
              @ addDirArgs roots))"

definition cursorPlan :: "effective_permission \<Rightarrow> string list \<Rightarrow> cursor_read_only_mode \<Rightarrow> permission_plan" where
  "cursorPlan req roots mode =
     (if ep_writes req = WritesDenied
      then asking_plan ''cursor'' req
             [''--sandbox'', ''enabled'', ''--mode'', case mode of CursorPlan \<Rightarrow> ''plan'' | CursorAsk \<Rightarrow> ''ask'']
      else (literal_plan ''cursor'' req ([''--sandbox'', ''enabled''] @ addDirArgs roots))
             \<lparr>pl_postLaunch := (if ep_prompts req = PromptsNever then [CursorRunEverything] else [])\<rparr>)"

text \<open>
  \<^verbatim>\<open>MCP_APPROVAL_AUTOMATIC[provider]\<close> is a property read of an object literal, so the names that
  every object inherits read as truthy values too.
\<close>

definition object_prototype_names :: "string list" where
  "object_prototype_names =
     [''constructor'', ''hasOwnProperty'', ''isPrototypeOf'', ''propertyIsEnumerable'', ''toLocaleString'',
      ''toString'', ''valueOf'', ''__proto__'', ''__defineGetter__'', ''__defineSetter__'',
      ''__lookupGetter__'', ''__lookupSetter__'']"

definition mcp_approval_automatic :: "string \<Rightarrow> bool" where
  "mcp_approval_automatic provider =
     (provider \<in> set ([''claude'', ''cursor'', ''antigravity''] @ object_prototype_names))"

definition antigravity_plan :: "effective_permission \<Rightarrow> resolution_failure + permission_plan" where
  "antigravity_plan req =
     (if ep_writes req = WritesWorkspace then Inl ProviderSandboxUnsupported
      else if ep_prompts req = PromptsNever then Inl ProviderApprovalModeUnsupported
      else Inr (literal_plan ''antigravity'' req [''--mode'', ''plan'', ''--sandbox'']))"

definition native_plan :: "string \<Rightarrow> permission_request \<Rightarrow> permission_plan" where
  "native_plan provider rq =
     (let req = resolveEffectivePermission (pr_sandbox rq) (pr_approvalMode rq);
          roots = (case pr_writableRoots rq of None \<Rightarrow> [] | Some rs \<Rightarrow> rs)
      in if provider = ''codex'' then codexPlan req roots (pr_codexApproveForMe rq = Some True)
         else if provider = ''claude'' then claudePlan req roots
         else cursorPlan req roots
                (case pr_cursorReadOnlyMode rq of None \<Rightarrow> CursorPlan | Some m \<Rightarrow> m))"

definition mcp_shortfall :: "string \<Rightarrow> permission_request \<Rightarrow> permission_plan \<Rightarrow> bool" where
  "mcp_shortfall provider rq plan =
     (pr_mcpInjected rq = Some True
      \<and> ep_prompts (resolveEffectivePermission (pr_sandbox rq) (pr_approvalMode rq)) = PromptsNever
      \<and> \<not> (provider = ''codex'' \<and> ''--approve-for-me'' \<in> set (pl_args plan))
      \<and> \<not> mcp_approval_automatic provider)"

definition resolveProviderPermissionPlan ::
  "string \<Rightarrow> permission_request \<Rightarrow> resolution_failure + permission_plan" where
  "resolveProviderPermissionPlan provider rq =
     (let req = resolveEffectivePermission (pr_sandbox rq) (pr_approvalMode rq);
          roots = (case pr_writableRoots rq of None \<Rightarrow> [] | Some rs \<Rightarrow> rs)
      in if roots \<noteq> [] \<and> ep_writes req = WritesDenied then Inl WritableRootsRequireWorkspaceWrite
         else if provider = ''antigravity'' then antigravity_plan req
         else let plan = native_plan provider rq
              in Inr (plan\<lparr>pl_shortfalls := pl_shortfalls plan
                    @ (if mcp_shortfall provider rq plan then [McpApprovalPromptsRemain] else [])\<rparr>))"

subsection \<open>The preference table\<close>

datatype permission_policy = Permissioned | Automatic

datatype policy_application = ApplyApprovalMode approval_mode | PostLaunchRunEverything

record permission_resolution =
  rs_provider :: string
  rs_policy :: permission_policy
  rs_nativeMode :: string
  rs_launchArguments :: "string list"
  rs_application :: policy_application

datatype policy_failure = PolicyUnsupported

definition orchestratorSandbox :: "string \<Rightarrow> sandbox" where
  "orchestratorSandbox provider =
     (if provider = ''codex'' \<or> provider = ''claude'' then WorkspaceWrite else ReadOnly)"

definition approval_of :: "permission_policy \<Rightarrow> approval_mode" where
  "approval_of policy = (if policy = Automatic then Auto else Prompt)"

text \<open>Character 183 is the middle dot of the text the picker shows.\<close>

definition resolveProviderPermission ::
  "string \<Rightarrow> permission_policy \<Rightarrow> sandbox \<Rightarrow> policy_failure + permission_resolution" where
  "resolveProviderPermission provider policy sb =
     (if provider = ''codex'' then Inr
        \<lparr>rs_provider = provider, rs_policy = policy,
         rs_nativeMode = (if policy = Automatic then ''never asks '' @ [char_of (183::nat)] @ '' sandboxed''
                          else ''asks you to approve''),
         rs_launchArguments = [''-a'', if policy = Automatic then ''never'' else ''on-request''],
         rs_application = ApplyApprovalMode (approval_of policy)\<rparr>
      else if provider = ''claude'' then Inr
        \<lparr>rs_provider = provider, rs_policy = policy,
         rs_nativeMode = (if policy = Automatic then ''auto mode'' else ''normal permissioned mode''),
         rs_launchArguments = [''--permission-mode'',
            if policy = Automatic then ''auto'' else if sb = ReadOnly then ''plan'' else ''manual''],
         rs_application = ApplyApprovalMode (approval_of policy)\<rparr>
      else if provider = ''cursor'' then
        (if policy = Automatic then Inr
           \<lparr>rs_provider = provider, rs_policy = policy, rs_nativeMode = ''/run-everything'',
            rs_launchArguments = [], rs_application = PostLaunchRunEverything\<rparr>
         else Inr
           \<lparr>rs_provider = provider, rs_policy = policy, rs_nativeMode = ''normal'',
            rs_launchArguments = (if sb = ReadOnly then [''--mode'', ''plan''] else []),
            rs_application = ApplyApprovalMode Prompt\<rparr>)
      else if provider = ''antigravity'' \<and> policy = Permissioned then Inr
        \<lparr>rs_provider = provider, rs_policy = policy, rs_nativeMode = ''normal approvals'',
         rs_launchArguments = [], rs_application = ApplyApprovalMode Prompt\<rparr>
      else Inl PolicyUnsupported)"

text \<open>Provider ids are ASCII slugs, so upper case is ASCII upper case.\<close>

definition ascii_upper :: "char \<Rightarrow> char" where
  "ascii_upper c =
     (if 97 \<le> (of_char c :: nat) \<and> (of_char c :: nat) \<le> 122
      then char_of ((of_char c :: nat) - 32) else c)"

definition permissionProviderLabel :: "string \<Rightarrow> string" where
  "permissionProviderLabel provider =
     (if provider = ''cursor'' then ''Composer''
      else if provider = ''antigravity'' then ''Antigravity''
      else case provider of [] \<Rightarrow> provider | c # cs \<Rightarrow> ascii_upper c # cs)"

subsection \<open>What a plan delivers\<close>

lemmas plan_defs = literal_plan_def asking_plan_def codexPlan_def claudePlan_def cursorPlan_def
  antigravity_plan_def native_plan_def

lemmas permission_cases = sandbox.exhaust write_boundary.exhaust prompt_boundary.exhaust

abbreviation requested_permission :: "permission_request \<Rightarrow> effective_permission" where
  "requested_permission rq \<equiv> resolveEffectivePermission (pr_sandbox rq) (pr_approvalMode rq)"

abbreviation requested_roots :: "permission_request \<Rightarrow> string list" where
  "requested_roots rq \<equiv> (case pr_writableRoots rq of None \<Rightarrow> [] | Some rs \<Rightarrow> rs)"

lemma permission_eqI:
  "ep_writes p = ep_writes q \<Longrightarrow> ep_prompts p = ep_prompts q \<Longrightarrow> p = (q :: effective_permission)"
  by simp

text \<open>A plan is the antigravity one, or a native plan with at most the MCP shortfall added.\<close>

lemma resolve_cases:
  assumes "resolveProviderPermissionPlan provider rq = Inr plan"
  obtains (antigravity) "provider = ''antigravity''" "antigravity_plan (requested_permission rq) = Inr plan"
      "requested_roots rq = [] \<or> ep_writes (requested_permission rq) = WritesWorkspace"
    | (native) extra where "provider \<noteq> ''antigravity''"
      "plan = (native_plan provider rq)\<lparr>pl_shortfalls := pl_shortfalls (native_plan provider rq) @ extra\<rparr>"
      "set extra \<subseteq> {McpApprovalPromptsRemain}"
      "requested_roots rq = [] \<or> ep_writes (requested_permission rq) = WritesWorkspace"
proof -
  have roots: "requested_roots rq = [] \<or> ep_writes (requested_permission rq) = WritesWorkspace"
    using assms by (cases "ep_writes (requested_permission rq)")
      (auto simp: resolveProviderPermissionPlan_def Let_def split: if_splits)
  show thesis
  proof (cases "provider = ''antigravity''")
    case True
    with assms roots show thesis
      by (intro antigravity) (auto simp: resolveProviderPermissionPlan_def Let_def split: if_splits)
  next
    case False
    define extra where "extra = (if mcp_shortfall provider rq (native_plan provider rq)
      then [McpApprovalPromptsRemain] else [])"
    with False assms roots have "plan = (native_plan provider rq)
        \<lparr>pl_shortfalls := pl_shortfalls (native_plan provider rq) @ extra\<rparr>"
      unfolding resolveProviderPermissionPlan_def Let_def by (simp split: if_splits)
    with False roots show thesis
      by (intro native) (auto simp: extra_def)
  qed
qed

definition plan_honours :: "effective_permission \<Rightarrow> string list \<Rightarrow> permission_plan \<Rightarrow> bool" where
  "plan_honours req roots plan =
     (pl_requested plan = req
      \<and> ep_writes (pl_achieved plan) = ep_writes req
      \<and> (ep_prompts (pl_achieved plan) = PromptsInteractive \<or> ep_prompts req = PromptsNever)
      \<and> (ApprovalPromptsRemain \<in> set (pl_shortfalls plan) \<longleftrightarrow> pl_achieved plan \<noteq> req)
      \<and> (pl_postLaunch plan \<noteq> []
          \<longrightarrow> pl_achieved plan = \<lparr>ep_writes = WritesWorkspace, ep_prompts = PromptsNever\<rparr>)
      \<and> (ep_writes (pl_achieved plan) = WritesDenied \<longrightarrow> ''--add-dir'' \<notin> set (pl_args plan))
      \<and> (\<exists>fixed. pl_args plan = fixed @ addDirArgs roots))"

lemma literal_honours:
  "''--add-dir'' \<notin> set fixed \<Longrightarrow> roots = [] \<or> ep_writes p = WritesWorkspace \<Longrightarrow>
     plan_honours p roots (literal_plan provider p (fixed @ addDirArgs roots))"
  by (cases "ep_prompts p") (auto simp: plan_honours_def literal_plan_def addDirArgs_def)

lemma asking_honours:
  "''--add-dir'' \<notin> set fixed \<Longrightarrow> ep_writes p = WritesDenied \<Longrightarrow>
     plan_honours p [] (asking_plan provider p fixed)"
  by (cases p, cases "ep_prompts p") (auto simp: plan_honours_def asking_plan_def addDirArgs_def)

lemma codex_honours:
  assumes "roots = [] \<or> ep_writes p = WritesWorkspace"
  shows "plan_honours p roots (codexPlan p roots b)"
proof -
  have "codex_flags p roots = codex_flags p [] @ addDirArgs roots" "''--add-dir'' \<notin> set (codex_flags p [])"
    by (simp_all add: codex_flags_def addDirArgs_def)
  then have "plan_honours p roots (literal_plan ''codex'' p (codex_flags p roots))"
    using assms literal_honours by metis
  moreover have "plan_honours p roots (literal_plan ''codex'' p (''--approve-for-me'' # addDirArgs roots))"
    using literal_honours [of "[''--approve-for-me'']" roots p] assms by simp
  ultimately show ?thesis by (simp add: codexPlan_def)
qed

lemma claude_honours:
  assumes "roots = [] \<or> ep_writes p = WritesWorkspace"
  shows "plan_honours p roots (claudePlan p roots)"
proof (cases "ep_writes p = WritesDenied")
  case True
  with assms show ?thesis by (simp add: claudePlan_def asking_honours)
next
  case False
  with assms show ?thesis
    unfolding claudePlan_def by (simp del: append.simps add: literal_honours split: prompt_boundary.split)
qed

lemma cursor_honours:
  assumes "roots = [] \<or> ep_writes p = WritesWorkspace"
  shows "plan_honours p roots (cursorPlan p roots m)"
proof (cases "ep_writes p = WritesDenied")
  case True
  with assms show ?thesis by (cases m) (simp_all add: cursorPlan_def asking_honours)
next
  case False
  then have w: "ep_writes p = WritesWorkspace" by (cases "ep_writes p") auto
  then have "plan_honours p roots (literal_plan ''cursor'' p ([''--sandbox'', ''enabled''] @ addDirArgs roots))"
    by (intro literal_honours) auto
  with w show ?thesis
    by (cases p) (simp add: cursorPlan_def plan_honours_def literal_plan_def)
qed

lemma native_plan_honours:
  "requested_roots rq = [] \<or> ep_writes (requested_permission rq) = WritesWorkspace \<Longrightarrow>
     plan_honours (requested_permission rq) (requested_roots rq) (native_plan provider rq)"
  by (simp add: native_plan_def Let_def codex_honours claude_honours cursor_honours)

lemma antigravity_honours:
  assumes "antigravity_plan p = Inr plan"
  shows "plan_honours p [] plan"
proof -
  from assms have "plan = literal_plan ''antigravity'' p ([''--mode'', ''plan'', ''--sandbox''] @ addDirArgs [])"
    by (auto simp: antigravity_plan_def addDirArgs_def split: if_splits)
  then show ?thesis using literal_honours [of "[''--mode'', ''plan'', ''--sandbox'']" "[]" p] by simp
qed

lemma addDirArgs_Cons: "addDirArgs roots = x # xs \<Longrightarrow> x = ''--add-dir''"
  by (cases roots) (auto simp: addDirArgs_def)

text \<open>The meaning a native launch line has, read back from its first flags.\<close>

definition codex_reading :: "string list \<Rightarrow> effective_permission" where
  "codex_reading args =
     (if hd args = ''--approve-for-me'' then \<lparr>ep_writes = WritesWorkspace, ep_prompts = PromptsNever\<rparr>
      else \<lparr>ep_writes = (if args ! 1 = ''workspace-write'' then WritesWorkspace else WritesDenied),
            ep_prompts = (if args ! 3 = ''never'' then PromptsNever else PromptsInteractive)\<rparr>)"

definition claude_reading :: "string list \<Rightarrow> effective_permission" where
  "claude_reading args =
     \<lparr>ep_writes = (if args ! 1 = ''plan'' then WritesDenied else WritesWorkspace),
      ep_prompts = (if args ! 1 = ''auto'' then PromptsNever else PromptsInteractive)\<rparr>"

definition cursor_reading :: "string list \<Rightarrow> post_launch_step list \<Rightarrow> effective_permission" where
  "cursor_reading args steps =
     \<lparr>ep_writes = (if length args > 2 \<and> args ! 2 = ''--mode'' then WritesDenied else WritesWorkspace),
      ep_prompts = (if steps = [] then PromptsInteractive else PromptsNever)\<rparr>"

lemma codex_read: "pl_achieved (codexPlan p roots b) = codex_reading (pl_args (codexPlan p roots b))"
  by (cases p, cases "ep_writes p"; cases "ep_prompts p")
     (auto simp: codexPlan_def codex_flags_def literal_plan_def codex_reading_def)

lemma claude_read: "pl_achieved (claudePlan p roots) = claude_reading (pl_args (claudePlan p roots))"
  by (cases p, cases "ep_writes p"; cases "ep_prompts p")
     (auto simp: claudePlan_def literal_plan_def asking_plan_def claude_reading_def)

lemma cursor_read:
  "pl_achieved (cursorPlan p roots m)
     = cursor_reading (pl_args (cursorPlan p roots m)) (pl_postLaunch (cursorPlan p roots m))"
proof (cases "ep_writes p")
  case WritesDenied
  then show ?thesis by (simp add: cursorPlan_def asking_plan_def cursor_reading_def)
next
  case WritesWorkspace
  moreover have "\<not> (length ([''--sandbox'', ''enabled''] @ addDirArgs roots) > 2
      \<and> ([''--sandbox'', ''enabled''] @ addDirArgs roots) ! 2 = ''--mode'')"
    using addDirArgs_Cons [of roots] by (cases "addDirArgs roots") auto
  ultimately show ?thesis
    by (cases p, cases "ep_prompts p") (auto simp: cursorPlan_def literal_plan_def cursor_reading_def)
qed

lemma native_launch_meaning:
  assumes "pl_args (native_plan provider rq) = pl_args (native_plan provider rq')"
    and "pl_postLaunch (native_plan provider rq) = pl_postLaunch (native_plan provider rq')"
  shows "pl_achieved (native_plan provider rq) = pl_achieved (native_plan provider rq')"
  using assms unfolding native_plan_def Let_def
  by (auto simp: codex_read claude_read cursor_read split: if_splits)

subsection \<open>The properties\<close>

definition demo_permission_request :: permission_request where
  "demo_permission_request = \<lparr>pr_sandbox = ReadOnly, pr_approvalMode = Some Auto, pr_codexApproveForMe = None,
     pr_writableRoots = None, pr_mcpInjected = Some True, pr_cursorReadOnlyMode = None\<rparr>"

text \<open>
  Whatever provider and request, a resolved plan never widens the write boundary: it achieves
  exactly the requested writes. It asks more than requested only when it says so: prompts differ
  from the request exactly when the shortfall \<^verbatim>\<open>APPROVAL_PROMPTS_REMAIN\<close> is listed, and only
  towards asking. The post-launch step runs only in a session that may write and never asks; a
  read-only session gets no extra directory, and every writable root that was asked for is granted.
\<close>

theorem plan_honours_request:
  assumes "resolveProviderPermissionPlan provider rq = Inr plan"
  shows "pl_requested plan = requested_permission rq
    \<and> ep_writes (pl_achieved plan) = ep_writes (requested_permission rq)
    \<and> (ep_prompts (pl_achieved plan) = PromptsInteractive
        \<or> ep_prompts (requested_permission rq) = PromptsNever)
    \<and> (ApprovalPromptsRemain \<in> set (pl_shortfalls plan)
        \<longleftrightarrow> pl_achieved plan \<noteq> requested_permission rq)
    \<and> (pl_postLaunch plan \<noteq> []
        \<longrightarrow> pl_achieved plan = \<lparr>ep_writes = WritesWorkspace, ep_prompts = PromptsNever\<rparr>)
    \<and> (ep_writes (pl_achieved plan) = WritesDenied \<longrightarrow> ''--add-dir'' \<notin> set (pl_args plan))
    \<and> (\<exists>fixed. pl_args plan = fixed @ addDirArgs (requested_roots rq))"
proof -
  from assms have "plan_honours (requested_permission rq) (requested_roots rq) plan"
  proof (cases rule: resolve_cases)
    case antigravity
    then have "requested_roots rq = []" by (auto simp: antigravity_plan_def split: if_splits)
    with antigravity show ?thesis by (simp add: antigravity_honours)
  next
    case (native extra)
    then show ?thesis using native_plan_honours [of rq provider] by (auto simp: plan_honours_def)
  qed
  then show ?thesis by (simp add: plan_honours_def)
qed

theorem plan_honours_request_witness:
  "\<exists>plan. resolveProviderPermissionPlan ''cursor'' demo_permission_request = Inr plan
     \<and> ep_writes (pl_achieved plan) = WritesDenied \<and> ApprovalPromptsRemain \<in> set (pl_shortfalls plan)
     \<and> ''--add-dir'' \<notin> set (pl_args plan)"
proof -
  obtain plan where plan: "resolveProviderPermissionPlan ''cursor'' demo_permission_request = Inr plan"
    and ask: "ep_prompts (pl_achieved plan) = PromptsInteractive"
    by (simp add: resolveProviderPermissionPlan_def demo_permission_request_def resolveEffectivePermission_def
        native_plan_def cursorPlan_def asking_plan_def)
  moreover have "requested_permission demo_permission_request = \<lparr>ep_writes = WritesDenied, ep_prompts = PromptsNever\<rparr>"
    by (simp add: demo_permission_request_def resolveEffectivePermission_def)
  ultimately show ?thesis using plan_honours_request [OF plan] by auto
qed

text \<open>
  The flags and post-launch steps a provider is started with determine the permission the plan
  claims to achieve: two requests to one provider that lead to the same native launch achieve the
  same permission, so no launch line stands for two meanings.
\<close>

theorem flags_determine_permission:
  assumes "resolveProviderPermissionPlan provider rq = Inr plan"
    and "resolveProviderPermissionPlan provider rq' = Inr plan'"
    and "pl_args plan = pl_args plan'" and "pl_postLaunch plan = pl_postLaunch plan'"
  shows "pl_achieved plan = pl_achieved plan'"
proof (cases "provider = ''antigravity''")
  case True
  with assms(1,2) have "antigravity_plan (requested_permission rq) = Inr plan"
    "antigravity_plan (requested_permission rq') = Inr plan'"
    by (auto elim: resolve_cases)
  then have "ep_writes (pl_achieved plan) = ep_writes (pl_achieved plan')"
    "ep_prompts (pl_achieved plan) = ep_prompts (pl_achieved plan')"
    by (auto simp: antigravity_plan_def literal_plan_def split: if_splits)
       (metis write_boundary.exhaust prompt_boundary.exhaust)+
  then show ?thesis by simp
next
  case False
  with assms(1) obtain x where p: "plan = (native_plan provider rq)\<lparr>pl_shortfalls := x\<rparr>"
    by (auto elim: resolve_cases)
  from False assms(2) obtain x' where p': "plan' = (native_plan provider rq')\<lparr>pl_shortfalls := x'\<rparr>"
    by (auto elim: resolve_cases)
  show ?thesis
    using assms(3,4) by (simp add: p p' native_launch_meaning [of provider rq rq'])
qed

theorem flags_determine_permission_witness:
  "\<exists>plan plan'. resolveProviderPermissionPlan ''claude'' demo_permission_request = Inr plan
     \<and> resolveProviderPermissionPlan ''claude'' (demo_permission_request\<lparr>pr_approvalMode := None\<rparr>) = Inr plan'
     \<and> pl_args plan = pl_args plan' \<and> pl_requested plan \<noteq> pl_requested plan'
     \<and> pl_achieved plan = pl_achieved plan'"
proof -
  have defs: "\<exists>plan plan'. resolveProviderPermissionPlan ''claude'' demo_permission_request = Inr plan
     \<and> resolveProviderPermissionPlan ''claude'' (demo_permission_request\<lparr>pr_approvalMode := None\<rparr>) = Inr plan'
     \<and> pl_args plan = pl_args plan' \<and> pl_postLaunch plan = pl_postLaunch plan'
     \<and> pl_requested plan \<noteq> pl_requested plan'"
    by (simp add: Let_def resolveProviderPermissionPlan_def demo_permission_request_def resolveEffectivePermission_def
        native_plan_def claudePlan_def asking_plan_def)
  then show ?thesis using flags_determine_permission by blast
qed

text \<open>
  For Claude, the launch arguments the preference table shows are the ones a launch uses except for
  an automatic preference on a read-only session: the table says \<^verbatim>\<open>auto\<close>, which would grant writes,
  and the launch uses \<^verbatim>\<open>plan\<close>.
\<close>

lemma claude_tables_agree_iff:
  "(\<exists>shown plan. resolveProviderPermission ''claude'' policy sb = Inr shown
      \<and> resolveProviderPermissionPlan ''claude''
          \<lparr>pr_sandbox = sb, pr_approvalMode = Some (approval_of policy), pr_codexApproveForMe = None,
           pr_writableRoots = None, pr_mcpInjected = None, pr_cursorReadOnlyMode = None\<rparr> = Inr plan
      \<and> rs_launchArguments shown = pl_args plan)
    \<longleftrightarrow> (policy, sb) \<noteq> (Automatic, ReadOnly)"
  by (cases policy; cases sb)
     (simp_all add: Let_def resolveProviderPermission_def resolveProviderPermissionPlan_def approval_of_def
        resolveEffectivePermission_def native_plan_def claudePlan_def asking_plan_def literal_plan_def
        addDirArgs_def)

end
