(* ===== verification/Thread_Retention.thy ===== *)
theory Thread_Retention
  imports Complex_Main Prelude
begin

text \<open>
  Automatic retirement of finished threads, \<^verbatim>\<open>src/src/domain/thread-retention.ts\<close> and the
  startup pass of \<^verbatim>\<open>src/src/orchestration/startup-thread-retention.ts\<close>: which
  records may be retired, which of them are past the age or count bound, and the loop that keeps
  every ancestor of a surviving thread. A record has the fields this component reads. The age
  bound may be a fraction of a day, so it is a rational number.
\<close>

subsection \<open>Records and policy\<close>

datatype session_execution_state = Starting | Active | Errored | Exited | Failed | Cancelled

record thread_record =
  tr_id :: ident
  tr_executionState :: session_execution_state
  tr_exitCode :: "int option"
  tr_pinned :: "bool option"
  tr_updatedAt :: instant
  tr_meaningfulUpdatedAt :: "instant option"
  tr_childIds :: "ident list"
  tr_profile :: "string option"

record retention_policy =
  rp_maxAgeDays :: "rat option"
  rp_maxThreads :: "nat option"
  rp_keepPinned :: bool

definition default_retention_policy :: retention_policy where
  "default_retention_policy =
     \<lparr>rp_maxAgeDays = Some 7, rp_maxThreads = Some 200, rp_keepPinned = True\<rparr>"

definition isRetirableThread :: "thread_record \<Rightarrow> bool" where
  "isRetirableThread r =
     (if tr_exitCode r = None then False
      else tr_executionState r = Exited \<or> tr_executionState r = Failed \<or> tr_executionState r = Cancelled)"

definition retirementTimestamp :: "thread_record \<Rightarrow> instant" where
  "retirementTimestamp r = (case tr_meaningfulUpdatedAt r of None \<Rightarrow> tr_updatedAt r | Some t \<Rightarrow> t)"

subsection \<open>Selection\<close>

definition retirable_newest_first :: "thread_record list \<Rightarrow> retention_policy \<Rightarrow> thread_record list" where
  "retirable_newest_first records policy =
     js_sort (\<lambda>l r. js_compare (retirementTimestamp r) (retirementTimestamp l))
       (filter (\<lambda>r. \<not> (rp_keepPinned policy \<and> tr_pinned r = Some True))
          (filter isRetirableThread records))"

definition past_age :: "thread_record list \<Rightarrow> retention_policy \<Rightarrow> instant \<Rightarrow> ident list \<Rightarrow> ident list" where
  "past_age retirable policy now expired =
     (case rp_maxAgeDays policy of None \<Rightarrow> expired
      | Some days \<Rightarrow>
          let cutoff = of_int now - days * 24 * 60 * 60 * 1000
          in fold (\<lambda>r ex. if of_int (retirementTimestamp r) < cutoff then js_add (tr_id r) ex else ex)
               retirable expired)"

definition past_count :: "thread_record list \<Rightarrow> retention_policy \<Rightarrow> ident list \<Rightarrow> ident list" where
  "past_count retirable policy expired =
     (case rp_maxThreads policy of None \<Rightarrow> expired
      | Some n \<Rightarrow> fold (\<lambda>r. js_add (tr_id r)) (drop n retirable) expired)"

definition by_id :: "thread_record list \<Rightarrow> (ident, thread_record) js_map" where
  "by_id records = fold (\<lambda>(k, v). js_set k v) (map (\<lambda>r. (tr_id r, r)) records) []"

text \<open>The known children of an id, \<^verbatim>\<open>byId.get(id)?.childIds ?? []\<close> that \<^verbatim>\<open>byId\<close> has.\<close>

definition known_children :: "(ident, thread_record) js_map \<Rightarrow> ident \<Rightarrow> ident list" where
  "known_children byId i =
     filter (js_has byId) (case js_get byId i of None \<Rightarrow> [] | Some r \<Rightarrow> tr_childIds r)"

definition rescued :: "(ident, thread_record) js_map \<Rightarrow> ident list \<Rightarrow> ident list" where
  "rescued byId expired =
     filter (\<lambda>i. list_ex (\<lambda>c. c \<notin> set expired) (known_children byId i)) expired"

text \<open>Each pass of the loop removes an id or ends, so the number of expired ids decreases.\<close>

function rescue_loop :: "(ident, thread_record) js_map \<Rightarrow> ident list \<Rightarrow> ident list" where
  "rescue_loop byId expired =
     (let res = rescued byId expired
      in if res = [] then expired
         else rescue_loop byId (filter (\<lambda>i. i \<notin> set res) expired))"
  by pat_completeness auto

lemma rescue_shrinks:
  assumes "rescued byId expired \<noteq> []"
  shows "length (filter (\<lambda>i. i \<notin> set (rescued byId expired)) expired) < length expired"
proof -
  from assms obtain i where "i \<in> set (rescued byId expired)" by (meson list.set_sel(1))
  moreover from this have "i \<in> set expired" by (simp add: rescued_def)
  ultimately show ?thesis by (intro length_filter_less) auto
qed

termination rescue_loop
  by (relation "measure (\<lambda>(byId, expired). length expired)") (simp_all add: rescue_shrinks)

declare rescue_loop.simps [simp del]

definition expired_candidates :: "thread_record list \<Rightarrow> retention_policy \<Rightarrow> instant \<Rightarrow> ident list" where
  "expired_candidates records policy now =
     (let retirable = retirable_newest_first records policy
      in past_count retirable policy (past_age retirable policy now []))"

definition selectExpiredThreads :: "thread_record list \<Rightarrow> retention_policy \<Rightarrow> instant \<Rightarrow> ident list" where
  "selectExpiredThreads records policy now =
     rescue_loop (by_id records) (expired_candidates records policy now)"

subsection \<open>The startup pass\<close>

text \<open>
  The cleanups of one record run in order and stop at the first that rejects; \<open>ok\<close> says which
  calls succeed. Two of the ports are optional.
\<close>

datatype cleanup_call =
    RemoveScoutReport ident | DropClaudeBinding ident | DropCodexBinding ident | DropTurnLedger ident

record cleanup_ports =
  up_dropsCodexBinding :: bool
  up_dropsTurnLedger :: bool
  up_ok :: "cleanup_call \<Rightarrow> bool"

fun run_cleanups :: "(cleanup_call \<Rightarrow> bool) \<Rightarrow> cleanup_call list \<Rightarrow> cleanup_call list" where
  "run_cleanups ok [] = []"
| "run_cleanups ok (c # cs) = c # (if ok c then run_cleanups ok cs else [])"

definition cleanup_record :: "cleanup_ports \<Rightarrow> thread_record \<Rightarrow> cleanup_call list" where
  "cleanup_record ports r =
     run_cleanups (up_ok ports)
       ((if tr_profile r = Some ''scout'' then [RemoveScoutReport (tr_id r)] else [])
        @ [DropClaudeBinding (tr_id r)]
        @ (if up_dropsCodexBinding ports then [DropCodexBinding (tr_id r)] else [])
        @ (if up_dropsTurnLedger ports then [DropTurnLedger (tr_id r)] else []))"

record startup_retention =
  sr_retained :: "thread_record list"
  sr_cleanups :: "cleanup_call list list"
  sr_compacted :: "thread_record list option"

definition retainStartupThreads ::
  "cleanup_ports \<Rightarrow> thread_record list \<Rightarrow> retention_policy \<Rightarrow> instant \<Rightarrow> startup_retention" where
  "retainStartupThreads ports loaded policy now =
     (let expired = selectExpiredThreads loaded policy now
      in if expired = [] then \<lparr>sr_retained = loaded, sr_cleanups = [], sr_compacted = None\<rparr>
         else let retained = filter (\<lambda>r. tr_id r \<notin> set expired) loaded
              in \<lparr>sr_retained = retained,
                  sr_cleanups = map (cleanup_record ports) (filter (\<lambda>r. tr_id r \<in> set expired) loaded),
                  sr_compacted = Some retained\<rparr>)"

subsection \<open>The loop computes the greatest family-closed set\<close>

text \<open>A set of ids in which every known child of a member is a member.\<close>

definition family_closed :: "(ident, thread_record) js_map \<Rightarrow> ident set \<Rightarrow> bool" where
  "family_closed byId S = (\<forall>i\<in>S. set (known_children byId i) \<subseteq> S)"

lemma rescue_loop_subset: "set (rescue_loop byId expired) \<subseteq> set expired"
proof (induction byId expired rule: rescue_loop.induct)
  case (1 byId expired)
  then show ?case
    by (subst rescue_loop.simps) (auto simp: Let_def)
qed

lemma rescue_loop_distinct: "distinct expired \<Longrightarrow> distinct (rescue_loop byId expired)"
proof (induction byId expired rule: rescue_loop.induct)
  case (1 byId expired)
  then show ?case
    by (subst rescue_loop.simps) (auto simp: Let_def)
qed

lemma rescue_loop_closed: "family_closed byId (set (rescue_loop byId expired))"
proof (induction byId expired rule: rescue_loop.induct)
  case (1 byId expired)
  show ?case
  proof (cases "rescued byId expired = []")
    case True
    then have "rescue_loop byId expired = expired" by (subst rescue_loop.simps) simp
    with True show ?thesis
      by (auto simp: family_closed_def rescued_def filter_empty_conv list_ex_iff)
  next
    case False
    then have "rescue_loop byId expired
        = rescue_loop byId (filter (\<lambda>i. i \<notin> set (rescued byId expired)) expired)"
      by (subst rescue_loop.simps) (simp add: Let_def)
    with False show ?thesis using "1.IH" by simp
  qed
qed

lemma rescue_loop_greatest:
  "family_closed byId S \<Longrightarrow> S \<subseteq> set expired \<Longrightarrow> S \<subseteq> set (rescue_loop byId expired)"
proof (induction byId expired rule: rescue_loop.induct)
  case (1 byId expired)
  show ?case
  proof (cases "rescued byId expired = []")
    case True
    then show ?thesis using "1.prems" by (subst rescue_loop.simps) simp
  next
    case False
    have "i \<notin> set (rescued byId expired)" if "i \<in> S" for i
      using that "1.prems" by (auto simp: family_closed_def rescued_def list_ex_iff)
    with "1.prems" have "S \<subseteq> set (filter (\<lambda>i. i \<notin> set (rescued byId expired)) expired)" by auto
    with False 1 have "S \<subseteq> set (rescue_loop byId (filter (\<lambda>i. i \<notin> set (rescued byId expired)) expired))"
      by simp
    with False show ?thesis by (subst rescue_loop.simps) (simp add: Let_def)
  qed
qed

lemma rescue_loop_set:
  "set (rescue_loop byId expired) = \<Union> {S. S \<subseteq> set expired \<and> family_closed byId S}"
  using rescue_loop_closed [of byId expired] rescue_loop_subset [of byId expired]
    rescue_loop_greatest [of byId _ expired] by blast

subsection \<open>The candidates\<close>

lemma fold_js_add_if:
  "set (fold (\<lambda>r ex. if P r then js_add (f r) ex else ex) rs ex) = f ` {r \<in> set rs. P r} \<union> set ex"
  "distinct ex \<Longrightarrow> distinct (fold (\<lambda>r ex. if P r then js_add (f r) ex else ex) rs ex)"
  by (induction rs arbitrary: ex) auto

lemma fold_js_add_all:
  "set (fold (\<lambda>r. js_add (f r)) rs ex) = f ` set rs \<union> set ex"
  "distinct ex \<Longrightarrow> distinct (fold (\<lambda>r. js_add (f r)) rs ex)"
  by (induction rs arbitrary: ex) auto

lemma distinct_candidates: "distinct (expired_candidates records policy now)"
  unfolding expired_candidates_def past_count_def past_age_def Let_def
  by (auto split: option.split intro!: fold_js_add_if fold_js_add_all)

lemma set_retirable:
  "set (retirable_newest_first records policy)
     = {r \<in> set records. isRetirableThread r \<and> \<not> (rp_keepPinned policy \<and> tr_pinned r = Some True)}"
  by (auto simp: retirable_newest_first_def)

lemma candidates_retirable:
  "set (expired_candidates records policy now) \<subseteq> tr_id ` set (retirable_newest_first records policy)"
  unfolding expired_candidates_def past_count_def past_age_def Let_def
  by (auto split: option.splits simp: fold_js_add_if fold_js_add_all dest: in_set_dropD)

lemma retained_records:
  "sr_retained (retainStartupThreads ports loaded policy now)
     = filter (\<lambda>r. tr_id r \<notin> set (selectExpiredThreads loaded policy now)) loaded"
  by (simp add: retainStartupThreads_def Let_def)

lemma by_id_get:
  "distinct (map tr_id records) \<Longrightarrow> r \<in> set records \<Longrightarrow> js_get (by_id records) (tr_id r) = Some r"
  unfolding by_id_def js.fold_put_get
  by (subst map_of_is_SomeI [of _ _ r]) (auto simp: rev_map [symmetric] comp_def)

lemma by_id_known: "distinct (map tr_id records) \<Longrightarrow> r \<in> set records \<Longrightarrow> js_has (by_id records) (tr_id r)"
  by (simp add: js_has_def by_id_get)

subsection \<open>The properties\<close>

text \<open>
  C34. The selected threads are the largest set of candidates past a bound in which no member has a
  known child outside the set; they are listed once each, all of them have exited, failed or been
  cancelled with an exit code, and none is pinned while pins are kept. So the loop that rescues
  ancestors ends, rescues no more than it must, and covers every generation.
\<close>

theorem retention_selects_greatest:
  "set (selectExpiredThreads records policy now)
     = \<Union> {S. S \<subseteq> set (expired_candidates records policy now) \<and> family_closed (by_id records) S}
   \<and> distinct (selectExpiredThreads records policy now)
   \<and> set (selectExpiredThreads records policy now)
       \<subseteq> tr_id ` {r \<in> set records. isRetirableThread r \<and> \<not> (rp_keepPinned policy \<and> tr_pinned r = Some True)}"
  unfolding selectExpiredThreads_def set_retirable [symmetric]
  using rescue_loop_set rescue_loop_distinct [OF distinct_candidates]
    rescue_loop_subset candidates_retirable by blast

text \<open>
  The startup pass orphans no thread: when a retained record is a child of a loaded record, that
  parent is retained too, and what is written back to the catalog is what is returned.
\<close>

theorem startup_keeps_parents:
  assumes "distinct (map tr_id loaded)" and "parent \<in> set loaded"
    and "child \<in> set (sr_retained (retainStartupThreads ports loaded policy now))"
    and "tr_id child \<in> set (tr_childIds parent)"
  shows "parent \<in> set (sr_retained (retainStartupThreads ports loaded policy now))
    \<and> sr_compacted (retainStartupThreads ports loaded policy now)
        \<in> {None, Some (sr_retained (retainStartupThreads ports loaded policy now))}"
proof -
  let ?S = "set (selectExpiredThreads loaded policy now)"
  from assms(3) have child: "child \<in> set loaded" "tr_id child \<notin> ?S" by (simp_all add: retained_records)
  with assms have "tr_id child \<in> set (known_children (by_id loaded) (tr_id parent))"
    by (simp add: known_children_def by_id_get by_id_known)
  moreover have "family_closed (by_id loaded) ?S"
    unfolding selectExpiredThreads_def by (rule rescue_loop_closed)
  ultimately have "tr_id parent \<notin> ?S" using child by (auto simp: family_closed_def)
  with assms(2) show ?thesis by (simp add: retained_records) (simp add: retainStartupThreads_def Let_def)
qed

definition demo_thread :: "ident \<Rightarrow> instant \<Rightarrow> ident list \<Rightarrow> thread_record" where
  "demo_thread i t cs = \<lparr>tr_id = i, tr_executionState = Exited, tr_exitCode = Some 0, tr_pinned = None,
     tr_updatedAt = t, tr_meaningfulUpdatedAt = None, tr_childIds = cs, tr_profile = None\<rparr>"

definition demo_threads :: "thread_record list" where
  "demo_threads = [demo_thread ''parent'' 0 [''child''], demo_thread ''child'' 1000000000 [], demo_thread ''old'' 5 []]"

definition demo_ports :: cleanup_ports where
  "demo_ports = \<lparr>up_dropsCodexBinding = True, up_dropsTurnLedger = False, up_ok = (\<lambda>_. True)\<rparr>"

theorem startup_keeps_parents_witness:
  "map tr_id (sr_retained (retainStartupThreads demo_ports demo_threads default_retention_policy 1000000000))
     = [''parent'', ''child'']
   \<and> demo_thread ''parent'' 0 [''child'']
       \<in> set (sr_retained (retainStartupThreads demo_ports demo_threads default_retention_policy 1000000000))"
proof -
  have run: "sr_retained (retainStartupThreads demo_ports demo_threads default_retention_policy 1000000000)
      = [demo_thread ''parent'' 0 [''child''], demo_thread ''child'' 1000000000 []]"
    by code_simp
  have "distinct (map tr_id demo_threads)" by code_simp
  moreover have "demo_thread ''parent'' 0 [''child''] \<in> set demo_threads" by (simp add: demo_threads_def)
  ultimately have "demo_thread ''parent'' 0 [''child'']
      \<in> set (sr_retained (retainStartupThreads demo_ports demo_threads default_retention_policy 1000000000))"
    using startup_keeps_parents [of demo_threads "demo_thread ''parent'' 0 [''child'']"
        "demo_thread ''child'' 1000000000 []" demo_ports default_retention_policy 1000000000]
    by (simp add: run demo_thread_def)
  then show ?thesis by (simp add: run demo_thread_def)
qed

end
