(* ===== verification/Execution_Slots.thy ===== *)
theory Execution_Slots
  imports Prelude "HOL-Library.Sublist"
begin

text \<open>
  The physical capacity reservation of \<^verbatim>\<open>src/src/orchestration/execution-slot-scheduler.ts\<close>.
  \<^verbatim>\<open>held\<close> is a JavaScript set and \<^verbatim>\<open>pending\<close> a map whose keys keep their insertion order. A call
  answers by what happens to promises: a reservation starts to wait, a waiting one is granted or
  rejected, or the call throws. A granted reservation holds a release closure with its own
  \<^verbatim>\<open>released\<close> flag; closures are numbered in the order of the grants, and calling one is a step of
  its own. An abort signal fires \<^verbatim>\<open>cancel\<close> while its reservation waits, so it is a \<open>SlotCancel\<close>.
\<close>

subsection \<open>State and operations\<close>

datatype slot_error =
    ExecutionCapacityInvalid | ExecutionQueueCancelled | ExecutionSlotAlreadyReserved
  | ExecutionSchedulerAlreadyActive

record slot_scheduler =
  es_capacity :: nat
  es_held :: "ident list"
  es_pending :: "ident list"
  es_closures :: "(ident \<times> bool) list"

datatype slot_answer =
    SlotWaiting ident
  | SlotGranted ident
  | SlotRejected ident slot_error
  | SlotThrown slot_error

definition new_slots :: "int \<Rightarrow> slot_error + slot_scheduler" where
  "new_slots capacity =
     (if capacity < 1 then Inl ExecutionCapacityInvalid
      else Inr \<lparr>es_capacity = nat capacity, es_held = [], es_pending = [], es_closures = []\<rparr>)"

text \<open>The loop hands the oldest waiting reservation a slot while one is free.\<close>

function slots_drain :: "slot_scheduler \<Rightarrow> slot_answer list \<times> slot_scheduler" where
  "slots_drain s =
     (if length (es_held s) < es_capacity s
      then case es_pending s of
             [] \<Rightarrow> ([], s)
           | i # rest \<Rightarrow>
               (let (out, t) = slots_drain (s\<lparr>es_pending := rest, es_held := js_add i (es_held s),
                                              es_closures := es_closures s @ [(i, False)]\<rparr>)
                in (SlotGranted i # out, t))
      else ([], s))"
  by pat_completeness auto

termination slots_drain
  by (relation "measure (\<lambda>s. length (es_pending s))") simp_all

declare slots_drain.simps [simp del]

definition slots_reserve :: "ident \<Rightarrow> bool \<Rightarrow> slot_scheduler \<Rightarrow> slot_answer list \<times> slot_scheduler" where
  "slots_reserve i aborted s =
     (if aborted then ([SlotRejected i ExecutionQueueCancelled], s)
      else if i \<in> set (es_held s) \<or> i \<in> set (es_pending s)
           then ([SlotRejected i ExecutionSlotAlreadyReserved], s)
      else let (out, t) = slots_drain (s\<lparr>es_pending := es_pending s @ [i]\<rparr>)
           in (SlotWaiting i # out, t))"

definition slots_cancel :: "ident \<Rightarrow> slot_scheduler \<Rightarrow> slot_answer list \<times> slot_scheduler" where
  "slots_cancel i s =
     (if i \<in> set (es_pending s)
      then ([SlotRejected i ExecutionQueueCancelled], s\<lparr>es_pending := removeAll i (es_pending s)\<rparr>)
      else ([], s))"

definition slots_recover :: "ident list \<Rightarrow> slot_scheduler \<Rightarrow> slot_answer list \<times> slot_scheduler" where
  "slots_recover ids s =
     (if es_held s \<noteq> [] \<or> es_pending s \<noteq> [] then ([SlotThrown ExecutionSchedulerAlreadyActive], s)
      else ([], s\<lparr>es_held := fold js_add ids (es_held s)\<rparr>))"

definition slots_release :: "ident \<Rightarrow> slot_scheduler \<Rightarrow> slot_answer list \<times> slot_scheduler" where
  "slots_release i s =
     (if i \<in> set (es_held s) then slots_drain (s\<lparr>es_held := removeAll i (es_held s)\<rparr>) else ([], s))"

definition call_release :: "nat \<Rightarrow> slot_scheduler \<Rightarrow> slot_answer list \<times> slot_scheduler" where
  "call_release n s =
     (if n < length (es_closures s) \<and> \<not> snd (es_closures s ! n)
      then slots_release (fst (es_closures s ! n))
             (s\<lparr>es_closures := (es_closures s)[n := (fst (es_closures s ! n), True)]\<rparr>)
      else ([], s))"

definition slots_snapshot :: "slot_scheduler \<Rightarrow> ident list \<times> ident list \<times> nat" where
  "slots_snapshot s = (es_held s, es_pending s, es_capacity s)"

datatype slot_call =
    SlotReserve ident bool | SlotCancel ident | SlotRecover "ident list" | SlotRelease ident
  | SlotClosure nat

fun slot_step :: "slot_call \<Rightarrow> slot_scheduler \<Rightarrow> slot_answer list \<times> slot_scheduler" where
  "slot_step (SlotReserve i aborted) s = slots_reserve i aborted s"
| "slot_step (SlotCancel i) s = slots_cancel i s"
| "slot_step (SlotRecover ids) s = slots_recover ids s"
| "slot_step (SlotRelease i) s = slots_release i s"
| "slot_step (SlotClosure n) s = call_release n s"

fun slot_run :: "slot_call list \<Rightarrow> slot_scheduler \<Rightarrow> slot_answer list \<times> slot_scheduler" where
  "slot_run [] s = ([], s)"
| "slot_run (c # cs) s =
     (let (out, t) = slot_step c s; (outs, u) = slot_run cs t in (out @ outs, u))"

fun waited :: "slot_answer list \<Rightarrow> ident list" where
  "waited [] = []"
| "waited (SlotWaiting i # xs) = i # waited xs"
| "waited (_ # xs) = waited xs"

fun granted :: "slot_answer list \<Rightarrow> ident list" where
  "granted [] = []"
| "granted (SlotGranted i # xs) = i # granted xs"
| "granted (_ # xs) = granted xs"

text \<open>The largest set of running resources a call list recovers.\<close>

fun recovered_slots :: "slot_call list \<Rightarrow> nat" where
  "recovered_slots [] = 0"
| "recovered_slots (SlotRecover ids # cs) = max (length (fold js_add ids [])) (recovered_slots cs)"
| "recovered_slots (_ # cs) = recovered_slots cs"

subsection \<open>The invariant\<close>

text \<open>
  No id is held or waiting twice, the held slots stay within a bound, and a reservation waits only
  while every slot is taken.
\<close>

definition slots_ok :: "nat \<Rightarrow> slot_scheduler \<Rightarrow> bool" where
  "slots_ok b s =
     (distinct (es_held s @ es_pending s) \<and> es_capacity s \<le> b \<and> length (es_held s) \<le> b
      \<and> (es_pending s \<noteq> [] \<longrightarrow> es_capacity s \<le> length (es_held s)))"

text \<open>The same without the last part, which holds before the loop has run.\<close>

definition slots_pre :: "nat \<Rightarrow> slot_scheduler \<Rightarrow> bool" where
  "slots_pre b s =
     (distinct (es_held s @ es_pending s) \<and> es_capacity s \<le> b \<and> length (es_held s) \<le> b)"

lemma granted_append [simp]: "granted (xs @ ys) = granted xs @ granted ys"
  by (induction xs rule: granted.induct) auto

lemma waited_append [simp]: "waited (xs @ ys) = waited xs @ waited ys"
  by (induction xs rule: waited.induct) auto

lemma drain_facts:
  "slots_pre b s \<Longrightarrow>
     slots_ok b (snd (slots_drain s)) \<and> es_capacity (snd (slots_drain s)) = es_capacity s
     \<and> granted (fst (slots_drain s)) @ es_pending (snd (slots_drain s)) = es_pending s
     \<and> waited (fst (slots_drain s)) = []"
proof (induction s rule: slots_drain.induct)
  case (1 s)
  show ?case
  proof (cases "length (es_held s) < es_capacity s \<and> es_pending s \<noteq> []")
    case False
    then have "slots_drain s = ([], s)" by (subst slots_drain.simps) (auto split: list.split)
    with False "1.prems" show ?thesis by (auto simp: slots_ok_def slots_pre_def)
  next
    case True
    then obtain i rest where p: "es_pending s = i # rest" by (cases "es_pending s") auto
    define t where "t = s\<lparr>es_pending := rest, es_held := js_add i (es_held s),
      es_closures := es_closures s @ [(i, False)]\<rparr>"
    have fresh: "i \<notin> set (es_held s)" using "1.prems" p by (auto simp: slots_pre_def)
    with "1.prems" True p have "slots_pre b t" by (auto simp: slots_pre_def t_def js_add_def)
    moreover have "slots_drain s = (SlotGranted i # fst (slots_drain t), snd (slots_drain t))"
      using True p by (subst slots_drain.simps) (simp add: t_def split_beta Let_def)
    ultimately show ?thesis
      using True p "1.IH" [of i rest] by (auto simp: t_def)
  qed
qed

text \<open>
  Every call keeps the invariant, and what it grants comes from the head of the waiting line in
  order: what was granted or still waits is an ordered part of what waited before and now.
\<close>

lemma slot_step_facts:
  assumes "slots_ok b s" "recovered_slots [c] \<le> b"
  shows "slots_ok b (snd (slot_step c s)) \<and> es_capacity (snd (slot_step c s)) = es_capacity s
    \<and> subseq (granted (fst (slot_step c s)) @ es_pending (snd (slot_step c s)))
        (es_pending s @ waited (fst (slot_step c s)))"
proof -
  have release: "slots_ok b (snd (slots_release i t)) \<and> es_capacity (snd (slots_release i t)) = es_capacity t
      \<and> subseq (granted (fst (slots_release i t)) @ es_pending (snd (slots_release i t)))
          (es_pending t @ waited (fst (slots_release i t)))" if "slots_ok b t" for i t
  proof -
    have "slots_pre b (t\<lparr>es_held := removeAll i (es_held t)\<rparr>)"
      using that by (auto simp: slots_ok_def slots_pre_def distinct_removeAll
          intro: order_trans [OF length_removeAll_less_eq])
    from drain_facts [OF this] that show ?thesis by (simp add: slots_release_def)
  qed
  show ?thesis
  proof (cases c)
    case (SlotReserve i aborted)
    show ?thesis
    proof (cases "aborted \<or> i \<in> set (es_held s) \<or> i \<in> set (es_pending s)")
      case True
      then show ?thesis using assms by (auto simp: SlotReserve slots_reserve_def)
    next
      case False
      then have "slots_pre b (s\<lparr>es_pending := es_pending s @ [i]\<rparr>)"
        using assms(1) by (auto simp: slots_ok_def slots_pre_def)
      from drain_facts [OF this] False show ?thesis
        by (simp add: SlotReserve slots_reserve_def split_beta Let_def)
    qed
  next
    case (SlotCancel i)
    then show ?thesis
      using assms by (auto simp: slots_cancel_def slots_ok_def removeAll_filter_not_eq distinct_removeAll)
  next
    case (SlotRecover ids)
    moreover have "distinct (fold js_add ids [])"
      by (induction ids rule: rev_induct) auto
    ultimately show ?thesis using assms by (auto simp: slots_recover_def slots_ok_def)
  next
    case (SlotRelease i)
    then show ?thesis using release [OF assms(1)] by simp
  next
    case (SlotClosure n)
    have "slots_ok b (s\<lparr>es_closures := cl\<rparr>)" for cl using assms(1) by (simp add: slots_ok_def)
    from release [OF this] assms show ?thesis by (auto simp: SlotClosure call_release_def)
  qed
qed

lemma recovered_slots_Cons: "recovered_slots (c # cs) = max (recovered_slots [c]) (recovered_slots cs)"
  by (cases c) auto

lemma slot_run_facts:
  assumes "slots_ok b s" "recovered_slots cs \<le> b"
  shows "slots_ok b (snd (slot_run cs s)) \<and> es_capacity (snd (slot_run cs s)) = es_capacity s
    \<and> subseq (granted (fst (slot_run cs s)) @ es_pending (snd (slot_run cs s)))
        (es_pending s @ waited (fst (slot_run cs s)))"
  using assms
proof (induction cs arbitrary: s)
  case Nil
  then show ?case by simp
next
  case (Cons c cs)
  let ?o = "fst (slot_step c s)" and ?t = "snd (slot_step c s)"
  let ?p = "fst (slot_run cs ?t)" and ?u = "snd (slot_run cs ?t)"
  have run: "slot_run (c # cs) s = (?o @ ?p, ?u)" by (simp add: split_beta Let_def)
  have step: "slots_ok b ?t" "es_capacity ?t = es_capacity s"
    "subseq (granted ?o @ es_pending ?t) (es_pending s @ waited ?o)"
    using slot_step_facts [OF Cons.prems(1), of c] Cons.prems(2)
    by (auto simp: recovered_slots_Cons [of c cs])
  have rest: "slots_ok b ?u" "es_capacity ?u = es_capacity ?t"
    "subseq (granted ?p @ es_pending ?u) (es_pending ?t @ waited ?p)"
    using Cons.IH [OF step(1)] Cons.prems(2) by (auto simp: recovered_slots_Cons [of c cs])
  have "subseq (granted ?o @ granted ?p @ es_pending ?u) (granted ?o @ es_pending ?t @ waited ?p)"
    using list_emb_append_mono [OF subseq_order.refl rest(3)] .
  also have "subseq \<dots> (es_pending s @ waited ?o @ waited ?p)"
    using list_emb_append_mono [OF step(3) subseq_order.refl [of "waited ?p"]] by simp
  finally show ?case using step rest unfolding run by simp
qed

subsection \<open>The property\<close>

text \<open>
  C33. Along every sequence of calls from a fresh scheduler, at most the capacity is held, or the
  number of running resources recovered when that is more; no id is held or waiting twice; a
  reservation waits only while every slot is taken; and slots are granted first come, first served:
  the granted reservations followed by the waiting ones are, in order, among those that started to
  wait.
\<close>

theorem slots_bounded_and_fair:
  assumes "new_slots capacity = Inr s" and "slot_run calls s = (out, t)"
  shows "length (es_held t) \<le> max (nat capacity) (recovered_slots calls)
    \<and> distinct (es_held t @ es_pending t)
    \<and> (es_pending t \<noteq> [] \<longrightarrow> nat capacity \<le> length (es_held t))
    \<and> subseq (granted out @ es_pending t) (waited out)"
proof -
  let ?b = "max (nat capacity) (recovered_slots calls)"
  from assms(1) have "slots_ok ?b s" "es_capacity s = nat capacity" "es_pending s = []"
    by (auto simp: new_slots_def slots_ok_def split: if_splits)
  with slot_run_facts [of ?b s calls] assms(2) show ?thesis by (auto simp: slots_ok_def)
qed

definition demo_slots :: slot_scheduler where
  "demo_slots = \<lparr>es_capacity = 1, es_held = [], es_pending = [], es_closures = []\<rparr>"

definition demo_calls :: "slot_call list" where
  "demo_calls = [SlotReserve ''a'' False, SlotReserve ''b'' False, SlotReserve ''c'' False, SlotCancel ''b'',
     SlotClosure 0, SlotClosure 0, SlotReserve ''d'' False]"

theorem slots_bounded_and_fair_witness:
  "granted (fst (slot_run demo_calls demo_slots)) = [''a'', ''c'']
   \<and> length (es_held (snd (slot_run demo_calls demo_slots))) \<le> 1
   \<and> subseq ([''a'', ''c''] @ es_pending (snd (slot_run demo_calls demo_slots)))
       (waited (fst (slot_run demo_calls demo_slots)))"
proof -
  have "new_slots 1 = Inr demo_slots" by (simp add: new_slots_def demo_slots_def)
  moreover have "granted (fst (slot_run demo_calls demo_slots)) = [''a'', ''c'']" by code_simp
  moreover have "recovered_slots demo_calls = 0" by (simp add: demo_calls_def)
  ultimately show ?thesis
    using slots_bounded_and_fair [of 1 demo_slots demo_calls "fst (slot_run demo_calls demo_slots)"
        "snd (slot_run demo_calls demo_slots)"] by simp
qed

end
