(* ===== verification/Worker_Truth.thy ===== *)
theory Worker_Truth
  imports Thread_Retention
begin

text \<open>
  The verdict on a worker and the life of an instruction,
  \<^verbatim>\<open>src/src/domain/worker-truth.ts\<close>: \<open>projectWorkerTruth\<close> decides one state from everything
  observed, highest authority first, and the transition table of an instruction names the moves
  each observation may make. The modal descriptor is only carried along, so it is a type parameter.
  Counters and seconds are integers, as their schemas and producers have them.
\<close>

subsection \<open>Vocabulary\<close>

datatype worker_truth_state =
    TruthStarting | TruthWorking | BlockedModal | BlockedComposer | TruthIdle | TruthStalled
  | TruthUnknown | TruthStopping | TruthInterrupted | TruthProviderLimit | TruthErrored
  | TruthStopped | TruthExited | TruthFailed

definition isTerminalWorkerTruth :: "worker_truth_state \<Rightarrow> bool" where
  "isTerminalWorkerTruth st =
     (st \<in> set [TruthProviderLimit, TruthErrored, TruthStopped, TruthExited, TruthFailed, TruthInterrupted])"

datatype provider_limit_kind = SessionLimit | PromptTooLong

record provider_limit =
  lim_kind :: provider_limit_kind
  lim_reason :: string
  lim_detail :: string

datatype termination_kind = TermSessionLimit | TermPromptTooLong | TermProviderFault | TermStartupExit

record session_termination =
  term_kind :: termination_kind
  term_reason :: string
  term_detail :: string
  term_at :: instant

definition providerLimitFromTermination :: "session_termination option \<Rightarrow> provider_limit option" where
  "providerLimitFromTermination termination =
     (case termination of None \<Rightarrow> None
      | Some t \<Rightarrow>
          (case term_kind t of
             TermProviderFault \<Rightarrow> None
           | TermStartupExit \<Rightarrow> None
           | TermSessionLimit \<Rightarrow>
               Some \<lparr>lim_kind = SessionLimit, lim_reason = term_reason t, lim_detail = term_detail t\<rparr>
           | TermPromptTooLong \<Rightarrow>
               Some \<lparr>lim_kind = PromptTooLong, lim_reason = term_reason t, lim_detail = term_detail t\<rparr>))"

datatype attention_state =
    AttWorking | AttNeedsInput | AttDone | AttStopping | AttStopped | AttInterrupted | AttFailed

datatype terminal_activity = ActWorking | ActAwaitingInput | ActNeedsInput | ActUnknown

datatype scout_terminal = ScoutComplete | ScoutFailed | ScoutBudgetExhausted

datatype task_outcome = OutcomeUnknown | OutcomeSucceeded

record composer_observation =
  co_inputReady :: "bool option"
  co_modalOpen :: bool
  co_occupied :: bool
  co_evidence :: "string option"
  co_content :: "string option"

record 'm worker_truth_input =
  ti_executionState :: session_execution_state
  ti_exitCode :: "int option"
  ti_attentionState :: "attention_state option"
  ti_activity :: terminal_activity
  ti_composer :: composer_observation
  ti_awaitingInputReady :: "bool option"
  ti_startupStalledForSeconds :: "int option"
  ti_startupEvidence :: "string option"
  ti_terminationReason :: "string option"
  ti_completedTurns :: int
  ti_canonicalTurns :: int
  ti_pendingInstructions :: int
  ti_providerLimit :: "provider_limit option"
  ti_termination :: "session_termination option"
  ti_stalledForSeconds :: "int option"
  ti_scoutTerminalState :: "scout_terminal option"
  ti_scoutTaskSucceeded :: "bool option"
  ti_stopRequested :: "bool option"
  ti_modal :: "'m option"

record 'm worker_truth =
  wt_state :: worker_truth_state
  wt_terminal :: bool
  wt_completedTurns :: int
  wt_canonicalTurns :: int
  wt_pendingInstructions :: int
  wt_composerOccupied :: bool
  wt_modalOpen :: bool
  wt_taskOutcome :: task_outcome
  wt_modal :: "'m option"
  wt_providerLimit :: "provider_limit option"
  wt_stalledForSeconds :: "int option"
  wt_detail :: string

subsection \<open>The projection\<close>

definition int_text :: "int \<Rightarrow> string" where
  "int_text i = (if i < 0 then ''-'' @ decimal (nat (- i)) else decimal (nat i))"

definition truth_settle :: "'m worker_truth_input \<Rightarrow> worker_truth_state \<Rightarrow> string \<Rightarrow> 'm worker_truth" where
  "truth_settle inp st detail =
     \<lparr>wt_state = st, wt_terminal = isTerminalWorkerTruth st,
      wt_completedTurns = ti_completedTurns inp, wt_canonicalTurns = ti_canonicalTurns inp,
      wt_pendingInstructions = ti_pendingInstructions inp,
      wt_composerOccupied = co_occupied (ti_composer inp), wt_modalOpen = co_modalOpen (ti_composer inp),
      wt_taskOutcome = (if ti_scoutTerminalState inp = Some ScoutComplete \<and> ti_scoutTaskSucceeded inp = Some True
                        then OutcomeSucceeded else OutcomeUnknown),
      wt_modal = None, wt_providerLimit = ti_providerLimit inp, wt_stalledForSeconds = None,
      wt_detail = detail\<rparr>"

text \<open>The verdicts that need no look at the screen: limits, Scout verdicts, faults and process states.\<close>

definition process_truth :: "'m worker_truth_input \<Rightarrow> 'm worker_truth option" where
  "process_truth inp =
     (if ti_providerLimit inp \<noteq> None
      then Some (truth_settle inp TruthProviderLimit (lim_reason (the (ti_providerLimit inp))))
      else if ti_scoutTerminalState inp = Some ScoutBudgetExhausted
      then Some (truth_settle inp TruthStopped ''Scout budget exhausted before a decision card was verified'')
      else if ti_scoutTerminalState inp = Some ScoutFailed
      then Some (truth_settle inp TruthFailed ''Scout failed without a verified decision card'')
      else if ti_executionState inp = Errored
      then Some (truth_settle inp TruthErrored ''Provider session took an unrecoverable fault'')
      else if map_option term_kind (ti_termination inp) = Some TermProviderFault
      then Some (truth_settle inp TruthErrored (term_reason (the (ti_termination inp))))
      else if ti_executionState inp = Cancelled
      then Some
        (if ti_attentionState inp = Some AttInterrupted
         then truth_settle inp TruthInterrupted
           ''Broker lost the previous process generation; its exit was not observed''
         else if ti_exitCode inp = None
             \<and> (ti_stopRequested inp = Some True \<or> ti_attentionState inp = Some AttStopping)
         then truth_settle inp TruthStopping ''Stop requested; waiting for the provider process to exit''
         else truth_settle inp TruthStopped ''Stopped on request'')
      else if ti_executionState inp = Failed
      then Some (truth_settle inp TruthFailed
        (''Provider process exited '' @ (case ti_exitCode inp of None \<Rightarrow> ''abnormally'' | Some c \<Rightarrow> int_text c)))
      else if ti_executionState inp = Exited
      then (let stopped = (ti_stopRequested inp = Some True \<or> ti_attentionState inp = Some AttStopped)
            in Some (truth_settle inp (if stopped then TruthStopped else TruthExited)
                 (if stopped then ''Stopped on request''
                  else case ti_terminationReason inp of None \<Rightarrow> ''Provider process exited cleanly'' | Some r \<Rightarrow> r)))
      else if ti_executionState inp = Starting
      then Some (truth_settle inp TruthStarting ''Provider process launching'')
      else if ti_stopRequested inp = Some True \<and> ti_exitCode inp = None
      then Some (truth_settle inp TruthStopping ''Stop requested; waiting for the provider process to exit'')
      else None)"

definition startup_truth :: "'m worker_truth_input \<Rightarrow> 'm worker_truth" where
  "startup_truth inp =
     (case ti_startupStalledForSeconds inp of
        Some n \<Rightarrow>
          (truth_settle inp TruthStalled
             (''Provider startup needs attention after '' @ int_text n @ ''s: no recognized input surface''
              @ (case ti_startupEvidence inp of None \<Rightarrow> [] | Some ev \<Rightarrow> if ev = [] then [] else ''; '' @ ev)))
            \<lparr>wt_stalledForSeconds := Some n\<rparr>
      | None \<Rightarrow> truth_settle inp TruthStarting
          ''Waiting for a recognized provider input surface; automated instructions remain queued'')"

text \<open>The verdicts read from the screen of a live process.\<close>

definition screen_truth :: "'m worker_truth_input \<Rightarrow> 'm worker_truth" where
  "screen_truth inp =
     (if co_modalOpen (ti_composer inp) \<or> ti_activity inp = ActNeedsInput
      then (truth_settle inp BlockedModal
              (if co_occupied (ti_composer inp)
               then ''Blocked on a provider prompt with unsent text in the composer''
               else ''Blocked on a provider prompt; no turn will run until it is answered''))
             \<lparr>wt_modal := ti_modal inp\<rparr>
      else if co_occupied (ti_composer inp) \<and> ti_activity inp \<noteq> ActWorking
      then truth_settle inp BlockedComposer ''Unsent text is sitting in the provider composer; no turn is running''
      else if ti_awaitingInputReady inp = Some True \<and> ti_activity inp \<noteq> ActWorking
      then startup_truth inp
      else case ti_stalledForSeconds inp of
        Some n \<Rightarrow>
          (truth_settle inp TruthStalled
             (''No observed turn progress for '' @ int_text n @ ''s; this does not prove a deadlock''))
            \<lparr>wt_stalledForSeconds := Some n\<rparr>
      | None \<Rightarrow>
          if ti_activity inp = ActWorking then truth_settle inp TruthWorking ''Provider turn in flight''
          else if ti_activity inp \<noteq> ActAwaitingInput \<and> co_inputReady (ti_composer inp) \<noteq> Some True
          then truth_settle inp TruthUnknown
            ''Current provider activity is unrecognized; no idle or completion claim is available''
          else truth_settle inp TruthIdle
            (if ti_pendingInstructions inp > 0
             then ''Idle with '' @ int_text (ti_pendingInstructions inp)
               @ '' instruction(s) accepted but not yet submitted''
             else ''Idle after '' @ int_text (ti_completedTurns inp) @ '' settled turn(s)''))"

definition projectWorkerTruth :: "'m worker_truth_input \<Rightarrow> 'm worker_truth" where
  "projectWorkerTruth inp = (case process_truth inp of Some t \<Rightarrow> t | None \<Rightarrow> screen_truth inp)"

subsection \<open>The instruction lifecycle\<close>

datatype instruction_state =
    Accepted | Queued | Rendered | Submitted | Acknowledged | Completed | Undelivered | InstructionCancelled

fun instruction_transitions :: "instruction_state \<Rightarrow> instruction_state list" where
  "instruction_transitions Accepted = [Queued, Rendered, Undelivered, InstructionCancelled]"
| "instruction_transitions Queued = [Rendered, Undelivered, InstructionCancelled]"
| "instruction_transitions Rendered = [Submitted, Undelivered, InstructionCancelled]"
| "instruction_transitions Submitted = [Acknowledged, Completed, Undelivered, InstructionCancelled]"
| "instruction_transitions Acknowledged = [Completed, Undelivered, InstructionCancelled]"
| "instruction_transitions Completed = []"
| "instruction_transitions Undelivered = []"
| "instruction_transitions InstructionCancelled = []"

definition instructionTransitionAllowed :: "instruction_state \<Rightarrow> instruction_state \<Rightarrow> bool" where
  "instructionTransitionAllowed a b = (b \<in> set (instruction_transitions a))"

definition advanceInstruction :: "instruction_state \<Rightarrow> instruction_state \<Rightarrow> instruction_state" where
  "advanceInstruction a b = (if instructionTransitionAllowed a b then b else a)"

definition instructionReachedProvider :: "instruction_state \<Rightarrow> bool" where
  "instructionReachedProvider st = (st = Submitted \<or> st = Acknowledged \<or> st = Completed)"

datatype delivery_hold =
    HoldHumanController | HoldProviderModal | HoldComposerOccupied | HoldProviderStarting
  | HoldProviderBusy | HoldWorkerTerminal

fun hold_name :: "delivery_hold \<Rightarrow> string" where
  "hold_name HoldHumanController = ''human-controller''"
| "hold_name HoldProviderModal = ''provider-modal''"
| "hold_name HoldComposerOccupied = ''composer-occupied''"
| "hold_name HoldProviderStarting = ''provider-starting''"
| "hold_name HoldProviderBusy = ''provider-busy''"
| "hold_name HoldWorkerTerminal = ''worker-terminal''"

subsection \<open>What a verdict says\<close>

lemma settle_fields [simp]:
  "wt_state (truth_settle inp st d) = st" "wt_terminal (truth_settle inp st d) = isTerminalWorkerTruth st"
  "wt_modal (truth_settle inp st d) = None" "wt_providerLimit (truth_settle inp st d) = ti_providerLimit inp"
  by (simp_all add: truth_settle_def)

text \<open>The evidence that makes a worker terminal.\<close>

definition terminal_evidence :: "'m worker_truth_input \<Rightarrow> bool" where
  "terminal_evidence inp =
     (ti_providerLimit inp \<noteq> None
      \<or> ti_scoutTerminalState inp \<in> {Some ScoutBudgetExhausted, Some ScoutFailed}
      \<or> ti_executionState inp \<in> {Errored, Failed, Exited}
      \<or> map_option term_kind (ti_termination inp) = Some TermProviderFault
      \<or> (ti_executionState inp = Cancelled
          \<and> (ti_attentionState inp = Some AttInterrupted \<or> ti_exitCode inp \<noteq> None
              \<or> (ti_stopRequested inp \<noteq> Some True \<and> ti_attentionState inp \<noteq> Some AttStopping))))"

lemma process_truth_terminal:
  "process_truth inp = Some t \<Longrightarrow> wt_terminal t \<longleftrightarrow> terminal_evidence inp"
  by (auto simp: process_truth_def terminal_evidence_def isTerminalWorkerTruth_def Let_def split: if_splits)

lemma process_truth_None:
  assumes "process_truth inp = None"
  shows "ti_executionState inp = Active" "ti_providerLimit inp = None"
    "\<not> (ti_stopRequested inp = Some True \<and> ti_exitCode inp = None)"
    "\<not> terminal_evidence inp"
proof -
  show exec: "ti_executionState inp = Active"
    using assms by (cases "ti_executionState inp") (auto simp: process_truth_def Let_def split: if_splits)
  show "ti_providerLimit inp = None" "\<not> (ti_stopRequested inp = Some True \<and> ti_exitCode inp = None)"
    using assms by (auto simp: process_truth_def Let_def split: if_splits)
  show "\<not> terminal_evidence inp"
    using assms exec by (auto simp: process_truth_def terminal_evidence_def Let_def split: if_splits)
qed

lemma startup_truth_live: "\<not> wt_terminal (startup_truth inp)" "wt_state (startup_truth inp) \<noteq> TruthIdle"
  by (auto simp: startup_truth_def isTerminalWorkerTruth_def truth_settle_def split: option.splits)

lemma screen_truth_live: "\<not> wt_terminal (screen_truth inp)"
  by (auto simp: screen_truth_def startup_truth_live isTerminalWorkerTruth_def split: option.splits)

lemma screen_truth_modal:
  "wt_state (screen_truth inp) = BlockedModal
     \<longleftrightarrow> co_modalOpen (ti_composer inp) \<or> ti_activity inp = ActNeedsInput"
  by (auto simp: screen_truth_def startup_truth_def split: option.splits)

lemma screen_truth_idle:
  assumes "wt_state (screen_truth inp) = TruthIdle"
  shows "\<not> co_modalOpen (ti_composer inp) \<and> \<not> co_occupied (ti_composer inp)
    \<and> (ti_activity inp = ActAwaitingInput \<or> ti_activity inp = ActUnknown \<and> co_inputReady (ti_composer inp) = Some True)
    \<and> ti_stalledForSeconds inp = None"
  using assms by (cases "ti_activity inp")
    (auto simp: screen_truth_def startup_truth_live split: if_splits option.splits)

lemma process_truth_states:
  "process_truth inp = Some t \<Longrightarrow> wt_state t \<notin> {TruthIdle, BlockedModal, TruthWorking}"
  by (auto simp: process_truth_def Let_def split: if_splits)

text \<open>
  C32. A worker is terminal exactly on terminal evidence: a provider limit, a failed or exhausted
  Scout, a fault, a process that exited or failed, or a cancelled one unless its stop is still being
  waited for. It is called idle only when its process is active with no stop pending, no prompt owns
  the screen, the composer is empty, no turn is stalled and the provider awaits input. It is blocked
  on a prompt exactly when its process is active, nothing of higher authority applies and a prompt
  owns the screen.
\<close>

theorem worker_truth_verdict:
  "(wt_terminal (projectWorkerTruth inp) \<longleftrightarrow> terminal_evidence inp)
   \<and> (wt_state (projectWorkerTruth inp) = TruthIdle \<longrightarrow>
        ti_executionState inp = Active \<and> \<not> terminal_evidence inp
        \<and> \<not> (ti_stopRequested inp = Some True \<and> ti_exitCode inp = None)
        \<and> \<not> co_modalOpen (ti_composer inp) \<and> \<not> co_occupied (ti_composer inp)
        \<and> (ti_activity inp = ActAwaitingInput
            \<or> ti_activity inp = ActUnknown \<and> co_inputReady (ti_composer inp) = Some True)
        \<and> ti_stalledForSeconds inp = None)
   \<and> (wt_state (projectWorkerTruth inp) = BlockedModal
        \<longleftrightarrow> ti_executionState inp = Active \<and> \<not> terminal_evidence inp
            \<and> \<not> (ti_stopRequested inp = Some True \<and> ti_exitCode inp = None)
            \<and> (co_modalOpen (ti_composer inp) \<or> ti_activity inp = ActNeedsInput))"
proof (cases "process_truth inp")
  case None
  note live = process_truth_None [OF None]
  have "projectWorkerTruth inp = screen_truth inp" by (simp add: projectWorkerTruth_def None)
  with live show ?thesis
    using screen_truth_live screen_truth_idle screen_truth_modal by (metis (no_types, lifting))
next
  case (Some t)
  then have p: "projectWorkerTruth inp = t" by (simp add: projectWorkerTruth_def)
  have "ti_executionState inp = Active \<Longrightarrow> \<not> terminal_evidence inp \<Longrightarrow>
      ti_stopRequested inp = Some True \<and> ti_exitCode inp = None"
    using Some by (auto simp: process_truth_def terminal_evidence_def Let_def split: if_splits)
  then show ?thesis
    using process_truth_terminal [OF Some] process_truth_states [OF Some] unfolding p by auto
qed

definition demo_worker :: "unit worker_truth_input" where
  "demo_worker = \<lparr>ti_executionState = Active, ti_exitCode = None, ti_attentionState = Some AttDone,
     ti_activity = ActAwaitingInput,
     ti_composer = \<lparr>co_inputReady = Some True, co_modalOpen = False, co_occupied = False,
       co_evidence = None, co_content = None\<rparr>,
     ti_awaitingInputReady = None, ti_startupStalledForSeconds = None, ti_startupEvidence = None,
     ti_terminationReason = None, ti_completedTurns = 2, ti_canonicalTurns = 2, ti_pendingInstructions = 0,
     ti_providerLimit = None, ti_termination = None, ti_stalledForSeconds = None,
     ti_scoutTerminalState = None, ti_scoutTaskSucceeded = None, ti_stopRequested = None, ti_modal = None\<rparr>"

theorem worker_truth_verdict_witness:
  "wt_state (projectWorkerTruth demo_worker) = TruthIdle \<and> \<not> wt_terminal (projectWorkerTruth demo_worker)
   \<and> \<not> co_occupied (ti_composer demo_worker)
   \<and> wt_detail (projectWorkerTruth demo_worker) = ''Idle after 2 settled turn(s)''"
proof -
  have "wt_state (projectWorkerTruth demo_worker) = TruthIdle"
    "wt_detail (projectWorkerTruth demo_worker) = ''Idle after 2 settled turn(s)''"
    by code_simp+
  then show ?thesis using worker_truth_verdict [of demo_worker] by simp
qed

subsection \<open>Instructions only move forward\<close>

text \<open>The place of a state on the way to completion; the terminal states come last.\<close>

fun instruction_rank :: "instruction_state \<Rightarrow> nat" where
  "instruction_rank Accepted = 0"
| "instruction_rank Queued = 1"
| "instruction_rank Rendered = 2"
| "instruction_rank Submitted = 3"
| "instruction_rank Acknowledged = 4"
| "instruction_rank Completed = 5"
| "instruction_rank Undelivered = 5"
| "instruction_rank InstructionCancelled = 5"

definition instruction_terminal :: "instruction_state \<Rightarrow> bool" where
  "instruction_terminal st = (st \<in> set [Completed, Undelivered, InstructionCancelled])"

lemma rank_terminal: "instruction_terminal st \<longleftrightarrow> instruction_rank st = 5"
  by (cases st) (auto simp: instruction_terminal_def)

lemma transition_rank: "instructionTransitionAllowed a b \<Longrightarrow> instruction_rank a < instruction_rank b"
  by (cases a; cases b) (auto simp: instructionTransitionAllowed_def)

lemma advance_rank: "instruction_rank a \<le> instruction_rank (advanceInstruction a b)"
  using transition_rank [of a b] by (auto simp: advanceInstruction_def)

lemma advance_terminal: "instruction_terminal a \<Longrightarrow> advanceInstruction a b = a"
  by (cases a; cases b)
     (auto simp: instruction_terminal_def advanceInstruction_def instructionTransitionAllowed_def)

end
