(* ===== verification/Instruction_Queue.thy ===== *)
theory Instruction_Queue
  imports Worker_Truth
begin

text \<open>
  The durable instruction mailbox: \<^verbatim>\<open>src/src/orchestration/instruction-queue.ts\<close> with the record
  and grant types of \<^verbatim>\<open>src/src/domain/instruction.ts\<close> and \<^verbatim>\<open>src/src/domain/capability.ts\<close>.

  The store is the replay of its append-only file: records by id in the order of their first write.
  A write can fail. Whatever the queue asks of the rest of the broker is asked of the environment,
  which may answer differently at every moment: each question is numbered by a tick. The answers are
  the session catalog, the orchestrator bindings, the outcome of \<^verbatim>\<open>submitInstruction\<close>, the clock and
  fresh ids. The calls the queue makes on the session registry are logged in order.

  \<^verbatim>\<open>serialize\<close> runs one block per target at a time, so a block is one operation here.
  \<^verbatim>\<open>enqueue\<close> reads and writes outside \<^verbatim>\<open>serialize\<close>; it is two operations, between which others
  may run.
\<close>

subsection \<open>Capability grants\<close>

datatype capability =
    ThreadList | ThreadRead | ThreadEnqueue | WorkerStart | WorkerStartFable | OrchestratorInspect
  | OrchestratorStop | OrchestratorCreate | WorkflowRun

definition capability_names :: "(string \<times> capability) list" where
  "capability_names =
     [(''thread.list'', ThreadList), (''thread.read'', ThreadRead), (''thread.enqueue'', ThreadEnqueue),
      (''worker.start'', WorkerStart), (''worker.start.fable'', WorkerStartFable),
      (''orchestrator.inspect'', OrchestratorInspect), (''orchestrator.stop'', OrchestratorStop),
      (''orchestrator.create'', OrchestratorCreate), (''workflow.run'', WorkflowRun)]"

text \<open>Retired names are dropped on read, unknown ones refuse the grant.\<close>

definition parse_capabilities :: "string list \<Rightarrow> capability list option" where
  "parse_capabilities names =
     (let kept = map (map_of capability_names) (filter (\<lambda>n. n \<noteq> ''worker.start.cursor'') names)
      in if None \<in> set kept then None else Some (map the kept))"

datatype grant_scope = WorkspaceScope string | FleetScope | SelfScope

record capability_grant =
  cg_subjectSessionId :: ident
  cg_capabilities :: "capability list"
  cg_scope :: grant_scope

definition grantAllows :: "capability_grant \<Rightarrow> capability \<Rightarrow> ident option \<Rightarrow> string option \<Rightarrow> bool" where
  "grantAllows g cap sessionId cwd =
     (if cap \<notin> set (cg_capabilities g) then False
      else case cg_scope g of
        FleetScope \<Rightarrow> True
      | SelfScope \<Rightarrow> sessionId = Some (cg_subjectSessionId g)
      | WorkspaceScope dir \<Rightarrow> cwd = Some dir)"

subsection \<open>Records, requests and the environment\<close>

record wake_context =
  wc_controllerId :: string
  wc_cursor :: nat
  wc_notificationIds :: "ident list"
  wc_attentionEpoch :: "ident option"

record instruction_record =
  ir_id :: ident
  ir_actorSessionId :: ident
  ir_senderSessionId :: "ident option"
  ir_targetSessionId :: ident
  ir_message :: string
  ir_status :: instruction_state
  ir_createdAt :: instant
  ir_updatedAt :: instant
  ir_renderedAt :: "instant option"
  ir_submittedAt :: "instant option"
  ir_completedAt :: "instant option"
  ir_expectedTurn :: "nat option"
  ir_holdReason :: "string option"
  ir_workflowRunId :: "ident option"
  ir_messageId :: ident
  ir_causationId :: "ident option"
  ir_hop :: nat
  ir_brokerOwned :: "bool option"
  ir_launch :: "bool option"
  ir_isWake :: bool
  ir_wake :: "wake_context option"

text \<open>What the queue reads of a session record.\<close>

record target_session =
  ts_executionState :: session_execution_state
  ts_cwd :: string
  ts_pid :: nat
  ts_initialInstructionId :: "ident option"
  ts_updatedAt :: instant

datatype delivery_state = DeliveryQueued | DeliveryRendered | DeliveryUndelivered

record instruction_delivery =
  dl_state :: delivery_state
  dl_hold :: "delivery_hold option"
  dl_expectedTurn :: "nat option"
  dl_at :: instant

datatype wake_hold = WakeTurnInFlight | WakeComposerOccupied | WakeOperatorActive

fun wake_hold_name :: "wake_hold \<Rightarrow> string" where
  "wake_hold_name WakeTurnInFlight = ''wake-turn-in-flight''"
| "wake_hold_name WakeComposerOccupied = ''wake-composer-occupied''"
| "wake_hold_name WakeOperatorActive = ''wake-operator-active''"

text \<open>What \<^verbatim>\<open>submitInstruction\<close> throws, by the classes and codes the queue tells apart.\<close>

datatype submit_error =
    AttentionWakeHeld string bool
  | AttentionFault string
  | WakeHeld wake_hold
  | CodedFault "string option"

datatype queue_error =
    RequestInvalid | ActorNotAuthorized | CapabilityDenied | SessionNotFound | StoreWriteFailed
  | SubmitFault submit_error

record queue_env =
  qe_isUuid :: "string \<Rightarrow> bool"
  qe_uuid :: "nat \<Rightarrow> ident"
  qe_clock :: "nat \<Rightarrow> instant"
  qe_session :: "nat \<Rightarrow> ident \<Rightarrow> target_session option"
  qe_grant :: "nat \<Rightarrow> ident \<Rightarrow> capability_grant option"
  qe_submit :: "nat \<Rightarrow> instruction_record \<Rightarrow> submit_error + instruction_delivery"
  qe_writeOk :: "nat \<Rightarrow> bool"
  qe_hasWakeAdmission :: bool

datatype registry_call = CallSubmit instruction_record string | CallVerify ident ident

record instruction_queue =
  iq_store :: "(ident, instruction_record) js_map"
  iq_tick :: nat
  iq_calls :: "registry_call list"
  iq_subscribed :: bool

type_synonym 'a queue_op = "(instruction_queue, queue_error, 'a) op"

text \<open>Ask the environment; every answer belongs to one tick.\<close>

definition ask :: "(nat \<Rightarrow> 'a) \<Rightarrow> 'a queue_op" where
  "ask f s = (Inr (f (iq_tick s)), s\<lparr>iq_tick := Suc (iq_tick s)\<rparr>)"

definition log_call :: "registry_call \<Rightarrow> unit queue_op" where
  "log_call c = op_modify (\<lambda>s. s\<lparr>iq_calls := iq_calls s @ [c]\<rparr>)"

definition istore_put :: "queue_env \<Rightarrow> instruction_record \<Rightarrow> unit queue_op" where
  "istore_put env r =
     op_bind (ask (qe_writeOk env)) (\<lambda>ok.
       if ok then op_modify (\<lambda>s. s\<lparr>iq_store := js_set (ir_id r) r (iq_store s)\<rparr>)
       else op_throw StoreWriteFailed)"

definition istore_list :: "ident \<Rightarrow> (instruction_record list) queue_op" where
  "istore_list target = op_gets (\<lambda>s. filter (\<lambda>r. ir_targetSessionId r = target) (js_values (iq_store s)))"

subsection \<open>Progress of a receipt\<close>

definition progress_line :: "instruction_state list" where
  "progress_line = [Accepted, Queued, Rendered, Submitted, Acknowledged, Completed]"

text \<open>\<^verbatim>\<open>progress.indexOf\<close>, with \<open>-1\<close> for a state that is not on the line.\<close>

fun index_of :: "'a \<Rightarrow> 'a list \<Rightarrow> int" where
  "index_of x [] = - 1"
| "index_of x (y # ys) =
     (if x = y then 0 else let i = index_of x ys in if i < 0 then - 1 else i + 1)"

definition instructionProgress :: "instruction_state \<Rightarrow> instruction_state \<Rightarrow> instruction_state" where
  "instructionProgress current next =
     (if current \<in> set [Completed, Undelivered, InstructionCancelled]
         \<or> (index_of next progress_line \<ge> 0 \<and> index_of next progress_line < index_of current progress_line)
      then current else next)"

text \<open>
  The fields a caller of \<^verbatim>\<open>persistState\<close> spreads over the record are applied by \<open>f\<close>; the status and
  the time are written after them.
\<close>

definition persistState ::
  "queue_env \<Rightarrow> instruction_record \<Rightarrow> instruction_state \<Rightarrow> (instruction_record \<Rightarrow> instruction_record)
     \<Rightarrow> instruction_record queue_op" where
  "persistState env r status f =
     op_bind (ask (qe_clock env)) (\<lambda>now.
       let updated = (f r)\<lparr>ir_status := instructionProgress (ir_status r) status, ir_updatedAt := now\<rparr>
       in op_then (istore_put env updated) (op_return updated))"

definition set_hold :: "string option \<Rightarrow> instruction_record \<Rightarrow> instruction_record" where
  "set_hold h r = r\<lparr>ir_holdReason := h\<rparr>"

subsection \<open>Delivery\<close>

definition live_target :: "target_session option \<Rightarrow> bool" where
  "live_target t = (case t of None \<Rightarrow> False
     | Some s \<Rightarrow> ts_executionState s = Starting \<or> ts_executionState s = Active)"

definition deliver_launch :: "queue_env \<Rightarrow> instruction_record \<Rightarrow> instruction_record queue_op" where
  "deliver_launch env r =
     op_bind (ask (\<lambda>n. qe_session env n (ir_targetSessionId r))) (\<lambda>target.
       if \<not> live_target target
       then if ir_holdReason r = Some ''native-recovery-unavailable'' then op_return r
            else persistState env r Undelivered (set_hold (Some ''worker-terminal''))
       else let s = the target in
         if ts_initialInstructionId s = Some (ir_id r) \<and> ts_pid s > 0 \<and> ts_executionState s = Active
         then persistState env r Rendered
                (\<lambda>r. r\<lparr>ir_renderedAt := Some (ts_updatedAt s), ir_expectedTurn := Some 1, ir_holdReason := None\<rparr>)
         else persistState env r Queued (set_hold (Some ''provider-starting'')))"

definition delivery_source :: "instruction_record \<Rightarrow> string" where
  "delivery_source r =
     (if ir_brokerOwned r = Some True then ''broker''
      else if ir_senderSessionId r \<noteq> None \<and> ir_senderSessionId r \<noteq> Some (ir_actorSessionId r) then ''worker''
      else ''orchestrator'')"

definition wake_epoch :: "instruction_record \<Rightarrow> ident option" where
  "wake_epoch r = (case ir_wake r of None \<Rightarrow> None | Some w \<Rightarrow> wc_attentionEpoch w)"

definition submit_record :: "queue_env \<Rightarrow> instruction_record \<Rightarrow> (submit_error + instruction_delivery) queue_op" where
  "submit_record env r =
     (if wake_epoch r \<noteq> None \<and> \<not> qe_hasWakeAdmission env
      then op_return (Inl (AttentionWakeHeld ''attention-admission-unavailable'' False))
      else op_then (log_call (CallSubmit r (delivery_source r)))
             (ask (\<lambda>n. qe_submit env n r)))"

definition error_code :: "submit_error \<Rightarrow> string option" where
  "error_code e = (case e of AttentionWakeHeld _ _ \<Rightarrow> Some ''ATTENTION_WAKE_HELD''
     | AttentionFault c \<Rightarrow> Some c | WakeHeld _ \<Rightarrow> None | CodedFault c \<Rightarrow> c)"

definition coded_refusal :: "queue_env \<Rightarrow> instruction_record \<Rightarrow> submit_error \<Rightarrow> instruction_record queue_op" where
  "coded_refusal env r e =
     (if error_code e = Some ''SESSION_BUSY''
      then persistState env r Queued (set_hold (Some ''human-controller''))
      else if error_code e = Some ''SESSION_NOT_FOUND''
      then persistState env r Undelivered (set_hold (Some ''worker-terminal''))
      else if error_code e = Some ''WORKER_BUDGET_EXHAUSTED''
      then persistState env r Undelivered (set_hold (Some ''worker-budget-exhausted''))
      else op_throw (SubmitFault e))"

definition handle_refusal :: "queue_env \<Rightarrow> instruction_record \<Rightarrow> submit_error \<Rightarrow> instruction_record queue_op" where
  "handle_refusal env r e =
     (case e of
        AttentionWakeHeld hold obsolete \<Rightarrow>
          persistState env r (if obsolete then InstructionCancelled else Queued) (set_hold (Some hold))
      | AttentionFault code \<Rightarrow>
          if wake_epoch r \<noteq> None then persistState env r InstructionCancelled (set_hold (Some code))
          else coded_refusal env r e
      | WakeHeld hold \<Rightarrow> persistState env r Queued (set_hold (Some (wake_hold_name hold)))
      | CodedFault _ \<Rightarrow> coded_refusal env r e)"

text \<open>The hold of a delivery, kept as it was when the delivery names none.\<close>

definition delivery_hold_of :: "instruction_record \<Rightarrow> instruction_delivery \<Rightarrow> instruction_record \<Rightarrow> instruction_record" where
  "delivery_hold_of r d =
     (case dl_hold d of None \<Rightarrow> id
      | Some h \<Rightarrow> set_hold (Some (if ir_isWake r then ''wake-'' @ hold_name h else hold_name h)))"

definition accept_delivery :: "queue_env \<Rightarrow> instruction_record \<Rightarrow> instruction_delivery \<Rightarrow> instruction_record queue_op" where
  "accept_delivery env r d =
     (case dl_state d of
        DeliveryUndelivered \<Rightarrow> persistState env r Undelivered (delivery_hold_of r d)
      | DeliveryQueued \<Rightarrow> persistState env r Queued (delivery_hold_of r d)
      | DeliveryRendered \<Rightarrow> persistState env r Rendered
          (\<lambda>r. r\<lparr>ir_holdReason := None, ir_renderedAt := Some (dl_at d),
                 ir_expectedTurn := (case dl_expectedTurn d of None \<Rightarrow> ir_expectedTurn r | Some n \<Rightarrow> Some n)\<rparr>))"

definition tryDeliver :: "queue_env \<Rightarrow> instruction_record \<Rightarrow> instruction_record queue_op" where
  "tryDeliver env r =
     (if ir_launch r = Some True then deliver_launch env r
      else op_bind (submit_record env r) (\<lambda>res.
        case res of Inl e \<Rightarrow> handle_refusal env r e | Inr d \<Rightarrow> accept_delivery env r d))"

subsection \<open>The flush of one target\<close>

definition starts_with_wake :: "string \<Rightarrow> bool" where
  "starts_with_wake s = (take 5 s = ''wake-'')"

fun hold_behind :: "queue_env \<Rightarrow> string \<Rightarrow> instruction_record list \<Rightarrow> (instruction_record list) queue_op" where
  "hold_behind env hold [] = op_return []"
| "hold_behind env hold (b # bs) =
     op_bind
       (if ir_isWake b \<and> hold = ''human-controller'' then tryDeliver env b
        else persistState env b Queued
               (set_hold (Some (if ir_isWake b \<and> \<not> starts_with_wake hold then ''wake-'' @ hold else hold))))
       (\<lambda>r. op_bind (hold_behind env hold bs) (\<lambda>rs. op_return (r # rs)))"

fun flush_loop :: "queue_env \<Rightarrow> instruction_record list \<Rightarrow> (instruction_record list) queue_op" where
  "flush_loop env [] = op_return []"
| "flush_loop env (r # rs) =
     op_bind (tryDeliver env r) (\<lambda>attempted.
       if instructionReachedProvider (ir_status attempted)
           \<or> ir_status attempted = Undelivered \<or> ir_status attempted = InstructionCancelled
       then op_bind (flush_loop env rs) (\<lambda>rest. op_return (attempted # rest))
       else op_bind
         (hold_behind env
            (if ir_status attempted = Rendered then ''composer-occupied''
             else case ir_holdReason attempted of None \<Rightarrow> ''composer-occupied'' | Some h \<Rightarrow> h) rs)
         (\<lambda>rest. op_return (attempted # rest)))"

definition pending_records :: "instruction_record list \<Rightarrow> instruction_record list" where
  "pending_records rs = filter (\<lambda>r. ir_status r = Accepted \<or> ir_status r = Queued) rs"

definition flush :: "queue_env \<Rightarrow> ident \<Rightarrow> ident option \<Rightarrow> (instruction_record list) queue_op" where
  "flush env target verifyMessageId =
     op_bind (istore_list target) (\<lambda>records.
       op_then
         (case find (\<lambda>r. Some (ir_messageId r) = verifyMessageId \<and> ir_status r = Rendered
                       \<and> ir_brokerOwned r = Some True \<and> wake_epoch r \<noteq> None) records of
            None \<Rightarrow> op_return ()
          | Some r \<Rightarrow> log_call (CallVerify target (ir_id r)))
         (flush_loop env (pending_records records)))"

subsection \<open>Requests\<close>

text \<open>\<^verbatim>\<open>String.prototype.trim\<close> on the code units below 256.\<close>

definition is_js_space :: "char \<Rightarrow> bool" where
  "is_js_space c = (let n = (of_char c :: nat) in (9 \<le> n \<and> n \<le> 13) \<or> n = 32 \<or> n = 160)"

definition js_trim :: "string \<Rightarrow> string" where
  "js_trim s = rev (dropWhile is_js_space (rev (dropWhile is_js_space s)))"

record enqueue_params =
  ep_actorSessionId :: ident
  ep_targetSessionId :: ident
  ep_senderSessionId :: "ident option"
  ep_message :: string
  ep_workflowRunId :: "ident option"
  ep_messageId :: "ident option"
  ep_causationId :: "ident option"
  ep_hop :: nat

definition optional_uuid :: "queue_env \<Rightarrow> ident option \<Rightarrow> bool" where
  "optional_uuid env x = (case x of None \<Rightarrow> True | Some i \<Rightarrow> qe_isUuid env i)"

definition parse_enqueue :: "queue_env \<Rightarrow> enqueue_params \<Rightarrow> enqueue_params option" where
  "parse_enqueue env p =
     (if qe_isUuid env (ep_actorSessionId p) \<and> qe_isUuid env (ep_targetSessionId p)
         \<and> optional_uuid env (ep_senderSessionId p) \<and> js_trim (ep_message p) \<noteq> []
         \<and> optional_uuid env (ep_workflowRunId p) \<and> optional_uuid env (ep_messageId p)
         \<and> optional_uuid env (ep_causationId p)
      then Some (p\<lparr>ep_message := js_trim (ep_message p)\<rparr>) else None)"

record broker_params =
  bp_actorSessionId :: ident
  bp_targetSessionId :: ident
  bp_message :: string
  bp_messageId :: ident
  bp_isWake :: bool
  bp_wake :: "wake_context option"

definition wake_context_ok :: "queue_env \<Rightarrow> wake_context \<Rightarrow> bool" where
  "wake_context_ok env w =
     (wc_controllerId w \<noteq> [] \<and> list_all (qe_isUuid env) (wc_notificationIds w)
      \<and> optional_uuid env (wc_attentionEpoch w)
      \<and> (wc_attentionEpoch w \<noteq> None \<or> wc_cursor w > 0))"

definition parse_broker :: "queue_env \<Rightarrow> broker_params \<Rightarrow> broker_params option" where
  "parse_broker env p =
     (if qe_isUuid env (bp_actorSessionId p) \<and> qe_isUuid env (bp_targetSessionId p)
         \<and> js_trim (bp_message p) \<noteq> [] \<and> qe_isUuid env (bp_messageId p)
         \<and> (case bp_wake p of None \<Rightarrow> True | Some w \<Rightarrow> wake_context_ok env w)
         \<and> bp_isWake p = (bp_wake p \<noteq> None)
         \<and> (\<not> bp_isWake p \<or> bp_actorSessionId p = bp_targetSessionId p)
      then Some (p\<lparr>bp_message := js_trim (bp_message p)\<rparr>) else None)"

text \<open>A record as it is first written.\<close>

definition accepted_record :: "ident \<Rightarrow> enqueue_params \<Rightarrow> ident \<Rightarrow> instant \<Rightarrow> instruction_record" where
  "accepted_record i p mid now =
     \<lparr>ir_id = i, ir_actorSessionId = ep_actorSessionId p, ir_senderSessionId = ep_senderSessionId p,
      ir_targetSessionId = ep_targetSessionId p, ir_message = ep_message p, ir_status = Accepted,
      ir_createdAt = now, ir_updatedAt = now, ir_renderedAt = None, ir_submittedAt = None,
      ir_completedAt = None, ir_expectedTurn = None, ir_holdReason = None,
      ir_workflowRunId = ep_workflowRunId p, ir_messageId = mid, ir_causationId = ep_causationId p,
      ir_hop = ep_hop p, ir_brokerOwned = None, ir_launch = None, ir_isWake = False, ir_wake = None\<rparr>"

subsection \<open>Operations\<close>

definition find_message :: "ident \<Rightarrow> instruction_record list \<Rightarrow> instruction_record option" where
  "find_message mid rs = find (\<lambda>r. ir_messageId r = mid) rs"

definition find_record :: "ident \<Rightarrow> instruction_record list \<Rightarrow> instruction_record option" where
  "find_record i rs = find (\<lambda>r. ir_id r = i) rs"

text \<open>
  \<^verbatim>\<open>grantAllows\<close> is given the target's session record, which has a directory and no field
  \<^verbatim>\<open>sessionId\<close>.
\<close>

definition authorize :: "queue_env \<Rightarrow> ident \<Rightarrow> string \<Rightarrow> capability_grant option \<Rightarrow> unit queue_op" where
  "authorize env actor cwd binding =
     (case binding of None \<Rightarrow> op_throw ActorNotAuthorized
      | Some g \<Rightarrow> if grantAllows g ThreadEnqueue None (Some cwd) then op_return () else op_throw CapabilityDenied)"

record launch_input =
  li_actorSessionId :: ident
  li_targetId :: ident
  li_targetCwd :: string
  li_message :: string
  li_instructionId :: ident
  li_native :: "bool option"

definition launch_params :: "launch_input \<Rightarrow> enqueue_params" where
  "launch_params inp =
     \<lparr>ep_actorSessionId = li_actorSessionId inp, ep_targetSessionId = li_targetId inp,
      ep_senderSessionId = None, ep_message = li_message inp, ep_workflowRunId = None,
      ep_messageId = Some (li_instructionId inp), ep_causationId = None, ep_hop = 0\<rparr>"

definition launch_record :: "launch_input \<Rightarrow> enqueue_params \<Rightarrow> instant \<Rightarrow> instruction_record" where
  "launch_record inp p moment =
     (let r = accepted_record (li_instructionId inp) p (li_instructionId inp) moment
      in if li_native inp = Some False then r\<lparr>ir_launch := Some False\<rparr>
         else r\<lparr>ir_expectedTurn := Some 1, ir_launch := Some True\<rparr>)"

definition prepareLaunch :: "queue_env \<Rightarrow> launch_input \<Rightarrow> instruction_record queue_op" where
  "prepareLaunch env inp =
     (case parse_enqueue env (launch_params inp) of None \<Rightarrow> op_throw RequestInvalid
      | Some p \<Rightarrow>
          op_bind (ask (\<lambda>n. qe_grant env n (ep_actorSessionId p))) (\<lambda>binding.
          op_then (authorize env (ep_actorSessionId p) (li_targetCwd inp) binding)
          (op_bind (istore_list (li_targetId inp)) (\<lambda>rs.
             case find_message (li_instructionId inp) rs of
               Some existing \<Rightarrow> op_return existing
             | None \<Rightarrow>
                 op_bind (ask (qe_clock env)) (\<lambda>moment.
                   let r = launch_record inp p moment in op_then (istore_put env r) (op_return r))))))"

text \<open>
  The first half of \<^verbatim>\<open>enqueue\<close> ends when the list is read and answers a duplicate or the record to
  write; the second half writes it, flushes and reads it back.
\<close>

definition build_record ::
  "queue_env \<Rightarrow> enqueue_params \<Rightarrow> instruction_record list \<Rightarrow> (instruction_record + instruction_record) queue_op" where
  "build_record env p existing =
     op_bind (case ep_messageId p of Some m \<Rightarrow> op_return m | None \<Rightarrow> ask (qe_uuid env)) (\<lambda>mid.
       case find_message mid existing of
         Some dup \<Rightarrow> op_return (Inl dup)
       | None \<Rightarrow>
           op_bind (ask (qe_clock env)) (\<lambda>now.
           op_bind (ask (qe_uuid env)) (\<lambda>i. op_return (Inr (accepted_record i p mid now)))))"

definition enqueue_for ::
  "queue_env \<Rightarrow> enqueue_params \<Rightarrow> capability_grant option \<Rightarrow> target_session option
     \<Rightarrow> (instruction_record + instruction_record) queue_op" where
  "enqueue_for env p binding target =
     (case target of None \<Rightarrow> op_throw SessionNotFound
      | Some t \<Rightarrow>
          op_then (authorize env (ep_actorSessionId p) (ts_cwd t) binding)
            (op_bind (istore_list (ep_targetSessionId p)) (build_record env p)))"

definition enqueue_read :: "queue_env \<Rightarrow> enqueue_params \<Rightarrow> (instruction_record + instruction_record) queue_op" where
  "enqueue_read env input =
     (case parse_enqueue env input of None \<Rightarrow> op_throw RequestInvalid
      | Some p \<Rightarrow>
          op_bind (ask (\<lambda>n. qe_grant env n (ep_actorSessionId p))) (\<lambda>binding.
            if binding = None then op_throw ActorNotAuthorized
            else op_bind (ask (\<lambda>n. qe_session env n (ep_targetSessionId p))) (enqueue_for env p binding)))"

definition read_back :: "instruction_record \<Rightarrow> instruction_record queue_op" where
  "read_back r =
     op_bind (istore_list (ir_targetSessionId r)) (\<lambda>rs.
       op_return (case find_record (ir_id r) rs of None \<Rightarrow> r | Some now \<Rightarrow> now))"

definition enqueue_write :: "queue_env \<Rightarrow> instruction_record \<Rightarrow> instruction_record queue_op" where
  "enqueue_write env r =
     op_then (istore_put env r)
     (op_bind (flush env (ir_targetSessionId r) None) (\<lambda>_. read_back r))"

definition queue_enqueue :: "queue_env \<Rightarrow> enqueue_params \<Rightarrow> instruction_record queue_op" where
  "queue_enqueue env input =
     op_bind (enqueue_read env input) (\<lambda>found.
       case found of Inl dup \<Rightarrow> op_return dup | Inr r \<Rightarrow> enqueue_write env r)"

definition broker_record :: "ident \<Rightarrow> broker_params \<Rightarrow> instant \<Rightarrow> instruction_record" where
  "broker_record i p now =
     \<lparr>ir_id = i, ir_actorSessionId = bp_actorSessionId p, ir_senderSessionId = None,
      ir_targetSessionId = bp_targetSessionId p, ir_message = bp_message p, ir_status = Accepted,
      ir_createdAt = now, ir_updatedAt = now, ir_renderedAt = None, ir_submittedAt = None,
      ir_completedAt = None, ir_expectedTurn = None, ir_holdReason = None,
      ir_workflowRunId = None, ir_messageId = bp_messageId p, ir_causationId = None,
      ir_hop = 0, ir_brokerOwned = Some True, ir_launch = None, ir_isWake = bp_isWake p,
      ir_wake = (if bp_isWake p then bp_wake p else None)\<rparr>"

text \<open>The serialized half of \<^verbatim>\<open>enqueueBroker\<close> answers the record and whether it was created.\<close>

definition broker_record_op :: "queue_env \<Rightarrow> broker_params \<Rightarrow> (bool \<times> instruction_record) queue_op" where
  "broker_record_op env p =
     op_bind (istore_list (bp_targetSessionId p)) (\<lambda>existing.
       case find_message (bp_messageId p) existing of
         Some dup \<Rightarrow> op_return (False, dup)
       | None \<Rightarrow>
           op_bind (ask (qe_clock env)) (\<lambda>now.
           op_bind (ask (qe_uuid env)) (\<lambda>i.
             let r = broker_record i p now in op_then (istore_put env r) (op_return (True, r)))))"

definition enqueueBroker :: "queue_env \<Rightarrow> broker_params \<Rightarrow> instruction_record queue_op" where
  "enqueueBroker env input =
     (case parse_broker env input of None \<Rightarrow> op_throw RequestInvalid
      | Some p \<Rightarrow>
          op_bind (ask (\<lambda>n. qe_session env n (bp_targetSessionId p))) (\<lambda>target.
            if target = None then op_throw SessionNotFound
            else op_bind (broker_record_op env p) (\<lambda>(created, r).
              if \<not> created \<and> \<not> ir_isWake r then op_return r
              else if \<not> (ir_status r = Accepted \<or> ir_status r = Queued) then op_return r
              else op_bind (flush env (ir_targetSessionId r) None) (\<lambda>_. read_back r))))"

definition queue_withdraw :: "queue_env \<Rightarrow> ident \<Rightarrow> ident \<Rightarrow> (instruction_record option) queue_op" where
  "queue_withdraw env target mid =
     op_bind (istore_list target) (\<lambda>rs.
       case find_message mid rs of
         None \<Rightarrow> op_return None
       | Some r \<Rightarrow>
           if ir_status r \<noteq> Accepted \<and> ir_status r \<noteq> Queued then op_return (Some r)
           else op_bind (persistState env r InstructionCancelled id) (\<lambda>u. op_return (Some u)))"

record state_update =
  su_sessionId :: ident
  su_instructionId :: ident
  su_state :: instruction_state
  su_at :: instant

definition observed_record :: "state_update \<Rightarrow> instruction_record \<Rightarrow> instruction_record" where
  "observed_record u r =
     (let r1 = r\<lparr>ir_status := su_state u, ir_updatedAt := su_at u\<rparr>;
          r2 = (if su_state u = Rendered
                then r1\<lparr>ir_renderedAt := (case ir_renderedAt r of None \<Rightarrow> Some (su_at u) | Some t \<Rightarrow> Some t),
                        ir_holdReason := None\<rparr>
                else r1);
          r3 = (if ir_submittedAt r = None \<and> instructionReachedProvider (su_state u)
                then r2\<lparr>ir_submittedAt := Some (su_at u)\<rparr> else r2)
      in if su_state u = Completed then r3\<lparr>ir_completedAt := Some (su_at u)\<rparr> else r3)"

definition observe_state :: "queue_env \<Rightarrow> state_update \<Rightarrow> unit queue_op" where
  "observe_state env u =
     op_bind (istore_list (su_sessionId u)) (\<lambda>rs.
       case find_record (su_instructionId u) rs of
         None \<Rightarrow> op_return ()
       | Some r \<Rightarrow>
           if ir_status r = su_state u \<or> ir_status r \<in> set [Completed, Undelivered, InstructionCancelled]
           then op_return ()
           else if instructionProgress (ir_status r) (su_state u) \<noteq> su_state u then op_return ()
           else istore_put env (observed_record u r))"

definition applyState :: "queue_env \<Rightarrow> state_update \<Rightarrow> unit queue_op" where
  "applyState env u =
     op_then (observe_state env u)
       (if instructionReachedProvider (su_state u)
        then op_bind (flush env (su_sessionId u) None) (\<lambda>_. op_return ()) else op_return ())"

subsection \<open>Recovery of launch instructions\<close>

datatype turn_recovery = TurnsOnly nat | TurnsDetailed nat "bool option" "string option"

definition recovered_turns :: "turn_recovery \<Rightarrow> nat" where
  "recovered_turns rec = (case rec of TurnsOnly n \<Rightarrow> n | TurnsDetailed n _ _ \<Rightarrow> n)"

definition recovery_cancelled :: "turn_recovery \<Rightarrow> bool" where
  "recovery_cancelled rec = (case rec of TurnsOnly _ \<Rightarrow> False | TurnsDetailed _ c _ \<Rightarrow> c = Some True)"

definition recovery_pending :: "turn_recovery \<Rightarrow> bool" where
  "recovery_pending rec = (case rec of TurnsOnly _ \<Rightarrow> False | TurnsDetailed _ _ p \<Rightarrow> p \<noteq> None)"

definition deliver_or_retire :: "queue_env \<Rightarrow> instruction_record \<Rightarrow> unit queue_op" where
  "deliver_or_retire env r =
     op_bind (ask (\<lambda>n. qe_session env n (ir_targetSessionId r))) (\<lambda>target.
       if \<not> live_target target
       then op_bind (persistState env r Undelivered (set_hold (Some ''worker-terminal''))) (\<lambda>_. op_return ())
       else if ir_status r = Accepted \<or> ir_status r = Queued
       then op_bind (tryDeliver env r) (\<lambda>_. op_return ())
       else op_return ())"

definition recover_native :: "queue_env \<Rightarrow> instruction_record \<Rightarrow> turn_recovery \<Rightarrow> unit queue_op" where
  "recover_native env r rec =
     (if recovery_cancelled rec
      then op_bind (persistState env r InstructionCancelled (set_hold None)) (\<lambda>_. op_return ())
      else if recovered_turns rec \<ge> (case ir_expectedTurn r of None \<Rightarrow> 1 | Some n \<Rightarrow> n)
      then op_bind (ask (qe_clock env)) (\<lambda>moment.
             op_bind (persistState env r Completed
                (\<lambda>r. r\<lparr>ir_submittedAt := (case ir_submittedAt r of None \<Rightarrow> Some moment | Some t \<Rightarrow> Some t),
                       ir_completedAt := Some moment, ir_holdReason := None\<rparr>)) (\<lambda>_. op_return ()))
      else if recovery_pending rec
      then op_bind (persistState env r Queued (set_hold (Some ''native-recovery-unavailable''))) (\<lambda>_. op_return ())
      else deliver_or_retire env r)"

text \<open>A record of the store stays there under its id, so the second read finds it.\<close>

definition recover_launch :: "queue_env \<Rightarrow> (ident \<Rightarrow> turn_recovery) \<Rightarrow> instruction_record \<Rightarrow> unit queue_op" where
  "recover_launch env readTurns listed =
     op_when (ir_launch listed \<noteq> None \<and> \<not> instruction_terminal (ir_status listed))
       (op_bind (istore_list (ir_targetSessionId listed)) (\<lambda>rs.
          case find_record (ir_id listed) rs of
            None \<Rightarrow> op_return ()
          | Some current \<Rightarrow>
              if instruction_terminal (ir_status current) then op_return ()
              else if ir_launch listed = Some True
              then recover_native env current (readTurns (ir_targetSessionId listed))
              else deliver_or_retire env current))"

definition recoverLaunchInstructions :: "queue_env \<Rightarrow> (ident \<Rightarrow> turn_recovery) \<Rightarrow> unit queue_op" where
  "recoverLaunchInstructions env readTurns =
     op_bind (op_gets (\<lambda>s. js_values (iq_store s))) (\<lambda>rs. op_for (recover_launch env readTurns) rs)"

subsection \<open>Subscriptions\<close>

definition queue_start :: "unit queue_op" where
  "queue_start = op_modify (\<lambda>s. s\<lparr>iq_subscribed := True\<rparr>)"

definition queue_stop :: "unit queue_op" where
  "queue_stop = op_modify (\<lambda>s. s\<lparr>iq_subscribed := False\<rparr>)"

text \<open>A released controller and an opened delivery boundary flush the target while subscribed.\<close>

definition on_boundary :: "queue_env \<Rightarrow> ident \<Rightarrow> unit queue_op" where
  "on_boundary env target =
     op_bind (op_gets iq_subscribed) (\<lambda>on.
       if on then op_bind (flush env target None) (\<lambda>_. op_return ()) else op_return ())"

definition on_instruction_state :: "queue_env \<Rightarrow> state_update \<Rightarrow> unit queue_op" where
  "on_instruction_state env u =
     op_bind (op_gets iq_subscribed) (\<lambda>on. if on then applyState env u else op_return ())"

end
