(* ===== verification/Instruction_Delivery.thy ===== *)
theory Instruction_Delivery
  imports Instruction_Queue "HOL-Library.Sublist"
begin

text \<open>
  What the instruction mailbox guarantees: every receipt only moves forward and its stamps back its
  status, whatever interleaving of calls; a flush answers the pending instructions in order and
  submits nothing behind an instruction that is still unsettled, wakes that pass a human controller
  apart; and two racing calls of \<^verbatim>\<open>enqueue\<close> defeat the deduplication by message id.
\<close>

subsection \<open>Receipts\<close>

text \<open>A later version of a receipt: the same instruction, no earlier state, terminal states final.\<close>

definition receipt_later :: "instruction_record \<Rightarrow> instruction_record \<Rightarrow> bool" where
  "receipt_later r r' =
     (ir_id r' = ir_id r \<and> ir_targetSessionId r' = ir_targetSessionId r \<and> ir_message r' = ir_message r
      \<and> ir_messageId r' = ir_messageId r \<and> ir_actorSessionId r' = ir_actorSessionId r
      \<and> instruction_rank (ir_status r) \<le> instruction_rank (ir_status r')
      \<and> (instruction_terminal (ir_status r) \<longrightarrow> ir_status r' = ir_status r))"

text \<open>The stamps of a receipt back its status.\<close>

definition receipt_sound :: "instruction_record \<Rightarrow> bool" where
  "receipt_sound r =
     ((instructionReachedProvider (ir_status r) \<longrightarrow> ir_submittedAt r \<noteq> None)
      \<and> (ir_status r = Completed \<longrightarrow> ir_completedAt r \<noteq> None)
      \<and> (ir_status r = Accepted \<longrightarrow> ir_holdReason r = None))"

text \<open>A write that replaces one version of a receipt by the next.\<close>

definition receipt_admissible :: "instruction_record \<Rightarrow> instruction_record \<Rightarrow> bool" where
  "receipt_admissible r r' = (receipt_later r r' \<and> (receipt_sound r \<longrightarrow> receipt_sound r'))"

type_synonym receipts = "(ident, instruction_record) js_map"

definition evolves :: "receipts \<Rightarrow> receipts \<Rightarrow> bool" where
  "evolves S T = (\<forall>i r. js_get S i = Some r \<longrightarrow> (\<exists>r'. js_get T i = Some r' \<and> receipt_admissible r r'))"

lemma receipt_later_refl [simp]: "receipt_later r r"
  by (simp add: receipt_later_def)

lemma receipt_later_trans: "receipt_later r r' \<Longrightarrow> receipt_later r' r'' \<Longrightarrow> receipt_later r r''"
  by (auto simp: receipt_later_def)

lemma receipt_admissible_refl [simp]: "receipt_admissible r r"
  by (simp add: receipt_admissible_def)

lemma evolves_refl [simp]: "evolves S S"
  by (auto simp: evolves_def)

lemma evolves_trans: "evolves S T \<Longrightarrow> evolves T U \<Longrightarrow> evolves S U"
  unfolding evolves_def receipt_admissible_def by (meson receipt_later_trans)

lemma evolvesD: "evolves S T \<Longrightarrow> js_get S i = Some r \<Longrightarrow> js_get T i = Some r' \<Longrightarrow> receipt_admissible r r'"
  unfolding evolves_def by (metis option.inject)

lemma evolves_update: "js_get S (ir_id r) = Some r \<Longrightarrow> receipt_admissible r r' \<Longrightarrow> evolves S (js_set (ir_id r) r' S)"
  by (auto simp: evolves_def js_simps)

lemma evolves_create: "js_get S i = None \<Longrightarrow> evolves S (js_set i r S)"
  by (auto simp: evolves_def js_simps)

subsection \<open>Progress\<close>

lemma progress_rank: "instruction_rank a \<le> instruction_rank (instructionProgress a b)"
  by (cases a; cases b) (auto simp: instructionProgress_def progress_line_def)

lemma progress_terminal: "instruction_terminal a \<Longrightarrow> instructionProgress a b = a"
  by (auto simp: instructionProgress_def instruction_terminal_def)

lemma progress_cases: "instructionProgress a b = a \<or> instructionProgress a b = b"
  by (simp add: instructionProgress_def)

lemma progress_leaves: "b \<noteq> Accepted \<Longrightarrow> instructionProgress a b \<noteq> Accepted"
  by (cases a; cases b) (auto simp: instructionProgress_def progress_line_def)

text \<open>The receipts' progress allows every move of the transition table.\<close>

lemma progress_extends_table: "instructionTransitionAllowed a b \<Longrightarrow> instructionProgress a b = b"
  by (cases a; cases b) (auto simp: instructionTransitionAllowed_def instructionProgress_def progress_line_def)

text \<open>The field updates a caller of \<^const>\<open>persistState\<close> makes.\<close>

definition keeps_identity :: "(instruction_record \<Rightarrow> instruction_record) \<Rightarrow> bool" where
  "keeps_identity f = (\<forall>r. ir_id (f r) = ir_id r \<and> ir_targetSessionId (f r) = ir_targetSessionId r
     \<and> ir_message (f r) = ir_message r \<and> ir_messageId (f r) = ir_messageId r
     \<and> ir_actorSessionId (f r) = ir_actorSessionId r
     \<and> (ir_submittedAt r \<noteq> None \<longrightarrow> ir_submittedAt (f r) \<noteq> None)
     \<and> (ir_completedAt r \<noteq> None \<longrightarrow> ir_completedAt (f r) \<noteq> None))"

definition stamps_for :: "instruction_state \<Rightarrow> (instruction_record \<Rightarrow> instruction_record) \<Rightarrow> bool" where
  "stamps_for st f = (keeps_identity f \<and> st \<noteq> Accepted
     \<and> (instructionReachedProvider st \<longrightarrow> (\<forall>r. ir_submittedAt (f r) \<noteq> None \<and> ir_completedAt (f r) \<noteq> None)))"

lemma persisted_admissible:
  assumes "stamps_for st f"
  shows "receipt_admissible r ((f r)\<lparr>ir_status := instructionProgress (ir_status r) st, ir_updatedAt := now\<rparr>)"
proof -
  have "receipt_later r ((f r)\<lparr>ir_status := instructionProgress (ir_status r) st, ir_updatedAt := now\<rparr>)"
    using assms progress_rank progress_terminal
    by (auto simp: receipt_later_def stamps_for_def keeps_identity_def)
  moreover have "instructionProgress (ir_status r) st \<noteq> Accepted"
    using assms by (intro progress_leaves) (simp add: stamps_for_def)
  ultimately show ?thesis
    using assms progress_cases [of "ir_status r" st]
    by (auto simp: receipt_admissible_def receipt_sound_def stamps_for_def keeps_identity_def)
      (auto simp: instructionReachedProvider_def)
qed

lemma stamps_updates:
  "st \<in> {Queued, Rendered, Undelivered, InstructionCancelled} \<Longrightarrow> stamps_for st (set_hold h)"
  "st \<in> {Queued, Rendered, Undelivered, InstructionCancelled} \<Longrightarrow> stamps_for st id"
  "st \<in> {Queued, Rendered, Undelivered, InstructionCancelled} \<Longrightarrow> stamps_for st (delivery_hold_of q d)"
  "stamps_for Rendered (\<lambda>r. r\<lparr>ir_renderedAt := a, ir_expectedTurn := b, ir_holdReason := None\<rparr>)"
  "stamps_for Rendered (\<lambda>r. r\<lparr>ir_holdReason := None, ir_renderedAt := a,
     ir_expectedTurn := (case e of None \<Rightarrow> ir_expectedTurn r | Some n \<Rightarrow> Some n)\<rparr>)"
  "stamps_for Completed (\<lambda>r. r\<lparr>ir_submittedAt := (case ir_submittedAt r of None \<Rightarrow> Some m | Some t \<Rightarrow> Some t),
     ir_completedAt := Some m, ir_holdReason := None\<rparr>)"
  by (auto simp: stamps_for_def keeps_identity_def set_hold_def instructionReachedProvider_def
      delivery_hold_of_def split: option.split)

subsection \<open>Operations that advance receipts\<close>

text \<open>An operation that leaves the store alone.\<close>

definition quiet_op :: "'a queue_op \<Rightarrow> bool" where
  "quiet_op m = (\<forall>s. iq_store (snd (m s)) = iq_store s)"

text \<open>The receipts at hand are the ones in the store.\<close>

definition current_in :: "instruction_record list \<Rightarrow> receipts \<Rightarrow> bool" where
  "current_in rs S = (distinct (map ir_id rs) \<and> (\<forall>r\<in>set rs. js_get S (ir_id r) = Some r))"

text \<open>An operation on current receipts: it moves them forward and touches no other.\<close>

definition works_on :: "instruction_record list \<Rightarrow> 'a queue_op \<Rightarrow> bool" where
  "works_on rs m = (\<forall>s. current_in rs (iq_store s) \<longrightarrow>
     evolves (iq_store s) (iq_store (snd (m s)))
     \<and> (\<forall>i. i \<notin> ir_id ` set rs \<longrightarrow> js_get (iq_store (snd (m s))) i = js_get (iq_store s) i))"

named_theorems quiet_rules \<open>operations that leave the store alone\<close>
named_theorems works_rules \<open>operations that advance the receipts at hand\<close>

lemma quiet_basic [quiet_rules]:
  "quiet_op (op_return x)" "quiet_op (op_throw e)" "quiet_op (op_gets f)" "quiet_op (ask g)"
  "quiet_op (log_call c)" "quiet_op (istore_list t)"
  by (simp_all add: quiet_op_def op_defs ask_def log_call_def istore_list_def)

lemma quiet_bind [quiet_rules]: "quiet_op m \<Longrightarrow> (\<And>x. quiet_op (f x)) \<Longrightarrow> quiet_op (op_bind m f)"
  unfolding quiet_op_def op_bind_def by (auto split: prod.split sum.split) (metis snd_conv)+

lemma quiet_then [quiet_rules]: "quiet_op m \<Longrightarrow> quiet_op k \<Longrightarrow> quiet_op (op_then m k)"
  unfolding op_then_def by (rule quiet_bind)

lemma works_quiet: "quiet_op m \<Longrightarrow> works_on rs m"
  by (simp add: works_on_def quiet_op_def)

lemma works_onD:
  assumes "works_on rs m" "current_in rs (iq_store s)" "m s = (res, t)"
  shows "evolves (iq_store s) (iq_store t)"
    and "i \<notin> ir_id ` set rs \<Longrightarrow> js_get (iq_store t) i = js_get (iq_store s) i"
  using assms unfolding works_on_def by (metis snd_conv)+

lemma works_onI:
  assumes "\<And>s res t. current_in rs (iq_store s) \<Longrightarrow> m s = (res, t) \<Longrightarrow>
      evolves (iq_store s) (iq_store t)
      \<and> (\<forall>i. i \<notin> ir_id ` set rs \<longrightarrow> js_get (iq_store t) i = js_get (iq_store s) i)"
  shows "works_on rs m"
  unfolding works_on_def using assms by (metis prod.collapse)

lemma works_after_quiet [works_rules]:
  assumes "quiet_op m" "\<And>x. works_on rs (f x)"
  shows "works_on rs (op_bind m f)"
proof (rule works_onI)
  fix s res t
  assume cur: "current_in rs (iq_store s)" and run: "op_bind m f s = (res, t)"
  obtain a u where m: "m s = (a, u)" by fastforce
  with assms(1) have "iq_store u = iq_store s" unfolding quiet_op_def by (metis snd_conv)
  with cur run m show "evolves (iq_store s) (iq_store t)
      \<and> (\<forall>i. i \<notin> ir_id ` set rs \<longrightarrow> js_get (iq_store t) i = js_get (iq_store s) i)"
    using works_onD [OF assms(2), of u] by (cases a) (auto simp: op_bind_def)
qed

lemma works_then_quiet [works_rules]:
  "quiet_op m \<Longrightarrow> works_on rs k \<Longrightarrow> works_on rs (op_then m k)"
  unfolding op_then_def by (rule works_after_quiet)

text \<open>Working on some receipts and then on others works on both.\<close>

lemma works_bind:
  assumes "works_on rs m" "\<And>x. works_on qs (f x)"
  shows "works_on (rs @ qs) (op_bind m f)"
proof (rule works_onI)
  fix s res t
  assume cur: "current_in (rs @ qs) (iq_store s)" and run: "op_bind m f s = (res, t)"
  obtain a u where m: "m s = (a, u)" by fastforce
  from cur have rs: "current_in rs (iq_store s)" by (auto simp: current_in_def)
  note step = works_onD [OF assms(1) rs m]
  have "js_get (iq_store u) (ir_id q) = Some q" if "q \<in> set qs" for q
  proof -
    from cur that have "ir_id q \<notin> ir_id ` set rs" by (auto simp: current_in_def)
    with cur that show ?thesis by (simp add: step(2) current_in_def)
  qed
  with cur have qs: "current_in qs (iq_store u)" by (auto simp: current_in_def)
  show "evolves (iq_store s) (iq_store t)
      \<and> (\<forall>i. i \<notin> ir_id ` set (rs @ qs) \<longrightarrow> js_get (iq_store t) i = js_get (iq_store s) i)"
  proof (cases a)
    case (Inl e)
    with run m step show ?thesis by (auto simp: op_bind_def)
  next
    case (Inr x)
    with run m have "f x u = (res, t)" by (simp add: op_bind_def)
    note next_step = works_onD [OF assms(2) qs this]
    from step next_step show ?thesis by (auto simp: image_Un intro: evolves_trans)
  qed
qed

lemma works_bind_last [works_rules]:
  "works_on rs m \<Longrightarrow> (\<And>x. quiet_op (f x)) \<Longrightarrow> works_on rs (op_bind m f)"
  using works_bind [of rs m "[]" f] works_quiet by fastforce

lemma works_discard: "works_on rs m \<Longrightarrow> works_on rs (op_bind m (\<lambda>x. op_return (g x)))"
  by (intro works_bind_last quiet_rules)

lemma works_return: "works_on rs (op_return x)"
  by (intro works_quiet quiet_rules)

lemma works_ask: "(\<And>x. works_on rs (f x)) \<Longrightarrow> works_on rs (op_bind (ask g) f)"
  by (intro works_after_quiet quiet_rules)

lemma works_put:
  "receipt_admissible r r' \<Longrightarrow> works_on [r] (istore_put env r')"
  unfolding works_on_def istore_put_def
  by (auto simp: op_bind_def ask_def op_modify_def op_throw_def current_in_def js_simps
      receipt_admissible_def receipt_later_def intro: evolves_update)

lemma works_persist [works_rules]: "stamps_for st f \<Longrightarrow> works_on [r] (persistState env r st f)"
  unfolding persistState_def Let_def op_then_def
  by (intro works_rules quiet_rules works_put persisted_admissible)

lemma works_deliver_launch [works_rules]: "works_on [r] (deliver_launch env r)"
  unfolding deliver_launch_def Let_def
  by (intro works_rules quiet_rules)
     (auto intro!: works_persist stamps_updates intro: works_quiet quiet_rules)

lemma quiet_submit [quiet_rules]: "quiet_op (submit_record env r)"
  unfolding submit_record_def by (auto intro!: quiet_rules)

lemma works_coded_refusal: "works_on [r] (coded_refusal env r e)"
  unfolding coded_refusal_def
  by (auto intro!: works_persist stamps_updates intro: works_quiet quiet_rules)

lemma works_refusal: "works_on [r] (handle_refusal env r e)"
  unfolding handle_refusal_def
  by (auto intro!: works_persist stamps_updates works_coded_refusal split: submit_error.split)

lemma works_accept: "works_on [r] (accept_delivery env r d)"
  unfolding accept_delivery_def
  by (auto intro!: works_persist stamps_updates split: delivery_state.split)

lemma works_tryDeliver [works_rules]: "works_on [r] (tryDeliver env r)"
  unfolding tryDeliver_def
  by (auto intro!: works_deliver_launch works_after_quiet quiet_submit works_refusal works_accept
      split: sum.split)

lemma works_hold_behind [works_rules]: "works_on bs (hold_behind env hold bs)"
proof (induction bs)
  case Nil
  show ?case by (auto intro: works_quiet quiet_rules)
next
  case (Cons b bs)
  have head: "works_on [b] (if ir_isWake b \<and> hold = ''human-controller'' then tryDeliver env b
      else persistState env b Queued
        (set_hold (Some (if ir_isWake b \<and> \<not> starts_with_wake hold then ''wake-'' @ hold else hold))))"
    by (auto intro!: works_tryDeliver works_persist stamps_updates)
  have "works_on bs (op_bind (hold_behind env hold bs) (\<lambda>rs. op_return (r # rs)))" for r
    by (intro works_bind_last Cons.IH quiet_rules)
  from works_bind [OF head this] show ?case by simp
qed

lemma works_flush_loop [works_rules]: "works_on rs (flush_loop env rs)"
proof (induction rs)
  case Nil
  show ?case by (auto intro: works_quiet quiet_rules)
next
  case (Cons r rs)
  have "works_on ([r] @ rs) (flush_loop env (r # rs))"
    unfolding flush_loop.simps
  proof (rule works_bind [OF works_tryDeliver])
    fix a
    show "works_on rs (if instructionReachedProvider (ir_status a) \<or> ir_status a = Undelivered
          \<or> ir_status a = InstructionCancelled
        then op_bind (flush_loop env rs) (\<lambda>rest. op_return (a # rest))
        else op_bind (hold_behind env (if ir_status a = Rendered then ''composer-occupied''
             else case ir_holdReason a of None \<Rightarrow> ''composer-occupied'' | Some h \<Rightarrow> h) rs)
          (\<lambda>rest. op_return (a # rest)))"
      by (auto intro!: works_bind_last Cons.IH works_hold_behind quiet_rules)
  qed
  then show ?case by simp
qed

subsection \<open>The store stays keyed and ticks only grow\<close>

definition steady :: "nat \<Rightarrow> instruction_queue \<Rightarrow> bool" where
  "steady n s = (keyed ir_id (iq_store s) \<and> n \<le> iq_tick s)"

named_theorems steady_rules \<open>operations that keep the store keyed and never turn back the ticks\<close>

lemma steady_basic [steady_rules]:
  "op_keeps (steady n) (ask f)" "op_keeps (steady n) (log_call c)" "op_keeps (steady n) (istore_list t)"
  by (simp_all add: op_keeps_def ask_def log_call_def istore_list_def steady_def op_modify_def op_gets_def)

lemma steady_put [steady_rules]: "op_keeps (steady n) (istore_put env r)"
  unfolding istore_put_def
  by (auto intro!: op_rules steady_rules op_keeps_modify split: if_split) (auto simp: steady_def)

lemma steady_persist [steady_rules]: "op_keeps (steady n) (persistState env r st f)"
  unfolding persistState_def Let_def by (intro op_rules steady_rules)

lemma steady_tryDeliver [steady_rules]: "op_keeps (steady n) (tryDeliver env r)"
  unfolding tryDeliver_def deliver_launch_def submit_record_def handle_refusal_def coded_refusal_def
    accept_delivery_def Let_def
  by (auto intro!: op_rules steady_rules split: sum.split submit_error.split delivery_state.split)

lemma steady_hold_behind [steady_rules]: "op_keeps (steady n) (hold_behind env hold bs)"
  by (induction bs) (auto intro!: op_rules steady_rules)

lemma steady_flush_loop [steady_rules]: "op_keeps (steady n) (flush_loop env rs)"
  by (induction rs) (auto intro!: op_rules steady_rules)

lemma steady_flush [steady_rules]: "op_keeps (steady n) (flush env t v)"
  unfolding flush_def by (auto intro!: op_rules steady_rules split: option.split)

subsection \<open>Operations that create nothing\<close>

text \<open>An operation under which every receipt evolves and none appears.\<close>

definition evolving :: "'a queue_op \<Rightarrow> bool" where
  "evolving m = (\<forall>s. keyed ir_id (iq_store s) \<longrightarrow>
     evolves (iq_store s) (iq_store (snd (m s)))
     \<and> dom (js_get (iq_store (snd (m s)))) = dom (js_get (iq_store s)))"

named_theorems evolving_rules \<open>operations under which receipts evolve and none appears\<close>

lemma evolving_quiet: "quiet_op m \<Longrightarrow> evolving m"
  by (simp add: evolving_def quiet_op_def)

lemma evolving_bind:
  assumes "evolving m" "op_keeps (steady 0) m" "\<And>x. evolving (f x)"
  shows "evolving (op_bind m f)"
  unfolding evolving_def
proof (intro allI impI)
  fix s :: instruction_queue
  assume ok: "keyed ir_id (iq_store s)"
  obtain a u where m: "m s = (a, u)" by fastforce
  with ok assms(1) have step: "evolves (iq_store s) (iq_store u)"
    "dom (js_get (iq_store u)) = dom (js_get (iq_store s))"
    unfolding evolving_def by (metis snd_conv)+
  have "steady 0 u" using op_keepsD [OF assms(2), of s] ok m by (simp add: steady_def)
  then have "keyed ir_id (iq_store u)" by (simp add: steady_def)
  with assms(3) have "evolves (iq_store u) (iq_store (snd (f x u)))
      \<and> dom (js_get (iq_store (snd (f x u)))) = dom (js_get (iq_store u))" for x
    by (simp add: evolving_def)
  with step show "evolves (iq_store s) (iq_store (snd (op_bind m f s)))
      \<and> dom (js_get (iq_store (snd (op_bind m f s)))) = dom (js_get (iq_store s))"
    by (cases a) (auto simp: op_bind_def m intro: evolves_trans)
qed

lemma works_evolves:
  assumes "works_on rs m" "current_in rs (iq_store s)"
  shows "evolves (iq_store s) (iq_store (snd (m s)))"
    and "dom (js_get (iq_store (snd (m s)))) = dom (js_get (iq_store s))"
proof -
  obtain res t where m: "m s = (res, t)" by fastforce
  note facts = works_onD [OF assms m]
  show "evolves (iq_store s) (iq_store (snd (m s)))" using facts(1) m by simp
  have "js_get (iq_store t) i = None \<longleftrightarrow> js_get (iq_store s) i = None" for i
  proof (cases "i \<in> ir_id ` set rs")
    case True
    then have "js_get (iq_store s) i \<noteq> None" using assms(2) by (auto simp: current_in_def)
    with facts(1) show ?thesis by (fastforce simp: evolves_def)
  next
    case False
    then show ?thesis by (simp add: facts(2))
  qed
  then show "dom (js_get (iq_store (snd (m s)))) = dom (js_get (iq_store s))" by (auto simp: dom_def m)
qed

lemma current_listed:
  assumes "keyed ir_id S"
  shows "current_in (filter P (filter Q (js_values S))) S"
proof -
  have "map ir_id (js_values S) = js_keys S"
    using assms by (auto simp: keyed_def list_all_iff)
  moreover have "distinct (js_keys S)" using assms by (simp add: keyed_def js_wf_def)
  ultimately have "distinct (map ir_id (js_values S))" by metis
  then show ?thesis
    using keyed_value [OF assms] by (auto simp: current_in_def intro!: distinct_map_filter)
qed

lemma current_found:
  assumes "keyed ir_id S" "find P (filter Q (js_values S)) = Some r"
  shows "current_in [r] S"
proof -
  from assms(2) have "r \<in> set (js_values S)" by (metis filter_is_subset find_Some_iff nth_mem subsetD)
  then show ?thesis using keyed_value [OF assms(1), of r] by (simp add: current_in_def)
qed

text \<open>Read the list of a target, find one receipt, work on it.\<close>

lemma evolving_lookup [evolving_rules]:
  assumes "\<And>r. works_on [r] (g r)" "quiet_op k"
  shows "evolving (op_bind (istore_list t) (\<lambda>rs. case find P rs of None \<Rightarrow> k | Some r \<Rightarrow> g r))"
  unfolding evolving_def
proof (intro allI impI)
  fix s :: instruction_queue
  assume ok: "keyed ir_id (iq_store s)"
  let ?m = "op_bind (istore_list t) (\<lambda>rs. case find P rs of None \<Rightarrow> k | Some r \<Rightarrow> g r)"
  let ?rs = "filter (\<lambda>r. ir_targetSessionId r = t) (js_values (iq_store s))"
  show "evolves (iq_store s) (iq_store (snd (?m s)))
      \<and> dom (js_get (iq_store (snd (?m s)))) = dom (js_get (iq_store s))"
  proof (cases "find P ?rs")
    case None
    then show ?thesis using assms(2) by (simp add: istore_list_def quiet_op_def)
  next
    case (Some r)
    then have "?m s = g r s" by (simp add: istore_list_def)
    with works_evolves [OF assms(1) current_found [OF ok Some]] show ?thesis by simp
  qed
qed

lemma evolving_flush [evolving_rules]: "evolving (flush env t v)"
  unfolding evolving_def
proof (intro allI impI)
  fix s :: instruction_queue
  assume ok: "keyed ir_id (iq_store s)"
  let ?rs = "filter (\<lambda>r. ir_targetSessionId r = t) (js_values (iq_store s))"
  let ?verify = "case find (\<lambda>r. Some (ir_messageId r) = v \<and> ir_status r = Rendered
      \<and> ir_brokerOwned r = Some True \<and> wake_epoch r \<noteq> None) ?rs of
    None \<Rightarrow> op_return () | Some r \<Rightarrow> log_call (CallVerify t (ir_id r))"
  have "quiet_op ?verify" by (auto intro: quiet_rules split: option.split)
  then have works: "works_on (pending_records ?rs) (op_then ?verify (flush_loop env (pending_records ?rs)))"
    by (intro works_rules)
  have cur: "current_in (pending_records ?rs) (iq_store s)"
    unfolding pending_records_def by (rule current_listed [OF ok])
  have run: "flush env t v s = op_then ?verify (flush_loop env (pending_records ?rs)) s"
    by (simp add: flush_def istore_list_def)
  show "evolves (iq_store s) (iq_store (snd (flush env t v s)))
      \<and> dom (js_get (iq_store (snd (flush env t v s)))) = dom (js_get (iq_store s))"
    unfolding run using works_evolves [OF works cur] by (intro conjI)
qed

lemma evolving_withdraw [evolving_rules]: "evolving (queue_withdraw env t mid)"
  unfolding queue_withdraw_def find_message_def
  by (intro evolving_rules)
     (auto intro!: works_discard works_persist stamps_updates intro: works_quiet quiet_rules)

lemma observed_admissible:
  assumes "\<not> instruction_terminal (ir_status r)" "instructionProgress (ir_status r) (su_state u) = su_state u"
    "ir_status r \<noteq> su_state u"
  shows "receipt_admissible r (observed_record u r)"
proof -
  have fields: "ir_status (observed_record u r) = su_state u" "ir_id (observed_record u r) = ir_id r"
    "ir_targetSessionId (observed_record u r) = ir_targetSessionId r" "ir_message (observed_record u r) = ir_message r"
    "ir_messageId (observed_record u r) = ir_messageId r" "ir_actorSessionId (observed_record u r) = ir_actorSessionId r"
    by (simp_all add: observed_record_def Let_def)
  have "instructionReachedProvider (su_state u) \<Longrightarrow> ir_submittedAt (observed_record u r) \<noteq> None"
    "su_state u = Completed \<Longrightarrow> ir_completedAt (observed_record u r) \<noteq> None"
    by (auto simp: observed_record_def Let_def instructionReachedProvider_def)
  moreover have "su_state u \<noteq> Accepted"
    using assms by (cases "ir_status r") (auto simp: instructionProgress_def progress_line_def)
  moreover have "receipt_later r (observed_record u r)"
    using assms(1) progress_rank [of "ir_status r" "su_state u"] assms(2) by (simp add: receipt_later_def fields)
  ultimately show ?thesis by (simp add: receipt_admissible_def receipt_sound_def fields)
qed

lemma evolving_observe [evolving_rules]: "evolving (observe_state env u)"
  unfolding observe_state_def find_record_def
proof (intro evolving_rules quiet_rules)
  fix r
  show "works_on [r]
      (if ir_status r = su_state u \<or> ir_status r \<in> set [Completed, Undelivered, InstructionCancelled]
       then op_return ()
       else if instructionProgress (ir_status r) (su_state u) \<noteq> su_state u then op_return ()
       else istore_put env (observed_record u r))"
    by (auto intro: works_quiet quiet_rules intro!: works_put observed_admissible simp: instruction_terminal_def)
qed

lemma works_deliver_or_retire [works_rules]: "works_on [r] (deliver_or_retire env r)"
  unfolding deliver_or_retire_def
  by (auto intro!: works_ask works_discard works_persist works_tryDeliver stamps_updates
      works_return)

lemma works_recover_native [works_rules]: "works_on [r] (recover_native env r rec)"
  unfolding recover_native_def
  by (auto intro!: works_ask works_discard works_persist works_deliver_or_retire stamps_updates)

lemma evolving_recover_launch: "evolving (recover_launch env readTurns r)"
proof (cases "ir_launch r \<noteq> None \<and> \<not> instruction_terminal (ir_status r)")
  case True
  then show ?thesis
    unfolding recover_launch_def find_record_def op_when_def
    by (simp, intro evolving_rules) (auto intro: works_quiet quiet_rules works_rules)
next
  case False
  then show ?thesis unfolding recover_launch_def op_when_def by (auto intro: evolving_quiet quiet_rules)
qed

lemma steady_observe [steady_rules]: "op_keeps (steady n) (observe_state env u)"
  unfolding observe_state_def by (auto intro!: op_rules steady_rules split: option.split)

lemma steady_withdraw [steady_rules]: "op_keeps (steady n) (queue_withdraw env t mid)"
  unfolding queue_withdraw_def by (auto intro!: op_rules steady_rules split: option.split)

lemma steady_deliver_or_retire [steady_rules]: "op_keeps (steady n) (deliver_or_retire env r)"
  unfolding deliver_or_retire_def by (auto intro!: op_rules steady_rules)

lemma steady_recover_launch [steady_rules]: "op_keeps (steady n) (recover_launch env readTurns r)"
  unfolding recover_launch_def recover_native_def by (auto intro!: op_rules steady_rules split: option.split)

lemma evolving_recover [evolving_rules]: "evolving (recoverLaunchInstructions env readTurns)"
proof -
  have "evolving (op_for (recover_launch env readTurns) rs)" for rs
    by (induction rs)
       (auto simp: op_then_def intro!: evolving_bind evolving_recover_launch steady_rules
         intro: evolving_quiet quiet_rules)
  then show ?thesis
    unfolding recoverLaunchInstructions_def
    by (rule evolving_bind [OF evolving_quiet [OF quiet_basic(3)] op_keeps_gets])
qed

lemma steady_recover [steady_rules]: "op_keeps (steady n) (recoverLaunchInstructions env readTurns)"
  unfolding recoverLaunchInstructions_def by (intro op_rules steady_rules)

lemma evolving_applyState [evolving_rules]: "evolving (applyState env u)"
  unfolding applyState_def op_then_def
  by (auto intro!: evolving_bind evolving_observe evolving_flush steady_rules intro: evolving_quiet quiet_rules)

lemma steady_applyState [steady_rules]: "op_keeps (steady n) (applyState env u)"
  unfolding applyState_def by (auto intro!: op_rules steady_rules)

subsection \<open>Operations that create a receipt\<close>

lemma ask_triple:
  "(\<And>s. P s \<Longrightarrow> Q (f (iq_tick s)) (s\<lparr>iq_tick := Suc (iq_tick s)\<rparr>)) \<Longrightarrow> op_triple P (ask f) Q E"
  by (simp add: op_triple_def ask_def)

lemma list_triple: "op_triple P (istore_list t) (\<lambda>_. P) E"
  by (simp add: op_triple_def istore_list_def op_gets_def)

text \<open>The store is untouched and at least so many ticks have passed.\<close>

definition idle_since :: "nat \<Rightarrow> receipts \<Rightarrow> instruction_queue \<Rightarrow> bool" where
  "idle_since n S s = (iq_store s = S \<and> n \<le> iq_tick s)"

lemma idle_ask: "op_triple (idle_since n S) (ask f) (\<lambda>_. idle_since n S) E"
  by (rule ask_triple) (simp add: idle_since_def)

lemma idle_authorize: "op_triple (idle_since n S) (authorize env a c b) (\<lambda>_. idle_since n S) (idle_since n S)"
  unfolding authorize_def
  by (auto intro: op_triple_return op_triple_throw split: option.split)

text \<open>An id drawn from the environment no earlier than at the given tick.\<close>

definition drawn_since :: "queue_env \<Rightarrow> nat \<Rightarrow> receipts \<Rightarrow> ident \<Rightarrow> instruction_queue \<Rightarrow> bool" where
  "drawn_since env n S i s = (iq_store s = S \<and> (\<exists>k. n \<le> k \<and> k < iq_tick s \<and> i = qe_uuid env k))"

lemma draw_id: "op_triple (idle_since n S) (ask (qe_uuid env)) (drawn_since env n S) E"
  by (rule ask_triple) (auto simp: idle_since_def drawn_since_def)

lemma new_receipts [simp]:
  "receipt_sound (accepted_record i p m t)" "ir_id (accepted_record i p m t) = i"
  "receipt_sound (launch_record inp p t)" "ir_id (launch_record inp p t) = li_instructionId inp"
  "receipt_sound (broker_record i q t)" "ir_id (broker_record i q t) = i"
  by (simp_all add: accepted_record_def launch_record_def broker_record_def receipt_sound_def
      instructionReachedProvider_def Let_def)

definition read_answer :: "queue_env \<Rightarrow> nat \<Rightarrow> receipts \<Rightarrow> instruction_record + instruction_record
    \<Rightarrow> instruction_queue \<Rightarrow> bool" where
  "read_answer env n S found s =
     (case found of Inl _ \<Rightarrow> idle_since n S s
      | Inr r \<Rightarrow> receipt_sound r \<and> idle_since n S s \<and> drawn_since env n S (ir_id r) s)"

lemma build_record_triple:
  "op_triple (idle_since n S) (build_record env p rs) (read_answer env n S) (idle_since n S)"
proof -
  have new: "op_triple (idle_since n S)
      (op_bind (ask (qe_clock env)) (\<lambda>now. op_bind (ask (qe_uuid env)) (\<lambda>i.
         op_return (Inr (accepted_record i p mid now))))) (read_answer env n S) (idle_since n S)" for mid
    by (rule op_triple_bind [OF idle_ask], rule op_triple_bind [OF draw_id], rule op_triple_return)
       (auto simp: read_answer_def idle_since_def drawn_since_def)
  have mid: "op_triple (idle_since n S) (case ep_messageId p of Some m \<Rightarrow> op_return m | None \<Rightarrow> ask (qe_uuid env))
      (\<lambda>_. idle_since n S) (idle_since n S)"
    by (auto intro: idle_ask op_triple_return split: option.split)
  show ?thesis
    unfolding build_record_def
    by (rule op_triple_bind [OF mid])
       (auto intro: new op_triple_return simp: read_answer_def split: option.split)
qed

lemma enqueue_for_triple:
  "op_triple (idle_since n S) (enqueue_for env p b t) (read_answer env n S) (idle_since n S)"
  unfolding enqueue_for_def
  by (auto intro: op_triple_throw op_triple_then [OF idle_authorize]
      op_triple_bind [OF list_triple build_record_triple] split: option.split)

lemma enqueue_read_triple:
  "op_triple (idle_since n S) (enqueue_read env p) (read_answer env n S) (idle_since n S)"
  unfolding enqueue_read_def
  by (auto intro: op_triple_throw intro!: op_triple_bind [OF idle_ask] enqueue_for_triple split: option.split)

text \<open>Writing a receipt under a fresh id.\<close>

definition created :: "receipts \<Rightarrow> ident \<Rightarrow> nat \<Rightarrow> instruction_queue \<Rightarrow> bool" where
  "created S i n s =
     (keyed ir_id (iq_store s) \<and> n \<le> iq_tick s \<and> evolves S (iq_store s)
      \<and> (\<forall>j. j \<noteq> i \<longrightarrow> (js_get (iq_store s) j = None \<longleftrightarrow> js_get S j = None))
      \<and> (\<forall>r. js_get S i = None \<and> js_get (iq_store s) i = Some r \<longrightarrow> receipt_sound r))"

lemma created_start: "keyed ir_id S \<Longrightarrow> js_get S i = None \<Longrightarrow> idle_since n S s \<Longrightarrow> created S i n s"
  by (auto simp: created_def idle_since_def)

lemma put_created:
  assumes "keyed ir_id S" "js_get S (ir_id r) = None" "receipt_sound r"
  shows "op_triple (idle_since n S) (istore_put env r) (\<lambda>_. created S (ir_id r) n) (created S (ir_id r) n)"
  unfolding istore_put_def
  by (rule op_triple_bind [OF idle_ask])
     (use assms in \<open>auto intro!: op_triple_modify op_triple_throw evolves_create
        simp: created_def idle_since_def js_simps\<close>)

lemma created_evolving:
  assumes "evolving m" "op_keeps (steady n) m"
  shows "op_triple (created S i n) m (\<lambda>_. created S i n) (created S i n)"
proof (rule op_triple_pointwise)
  fix s
  assume c: "created S i n s"
  let ?t = "snd (m s)"
  from c assms(1) have ev: "evolves (iq_store s) (iq_store ?t)"
    "dom (js_get (iq_store ?t)) = dom (js_get (iq_store s))"
    by (simp_all add: created_def evolving_def)
  from c op_keepsD [OF assms(2)] have st: "steady n ?t" by (simp add: created_def steady_def)
  have none: "js_get (iq_store ?t) j = None \<longleftrightarrow> js_get (iq_store s) j = None" for j
    using ev(2) by (metis domIff)
  have sound: "receipt_sound r'" if "js_get S i = None" "js_get (iq_store ?t) i = Some r'" for r'
  proof -
    from that none [of i] obtain r where r: "js_get (iq_store s) i = Some r" by fastforce
    with c that(1) have "receipt_sound r" by (simp add: created_def)
    moreover from ev(1) r that(2) have "receipt_admissible r r'" by (rule evolvesD)
    ultimately show ?thesis by (simp add: receipt_admissible_def)
  qed
  have "created S i n ?t"
    using c ev(1) st none sound by (auto simp: created_def steady_def intro: evolves_trans)
  then show "op_triple (\<lambda>t. t = s) m (\<lambda>_. created S i n) (created S i n)"
    by (rule op_triple_run)
qed

lemma authorize_created:
  "(\<And>s. idle_since n S s \<Longrightarrow> E s) \<Longrightarrow>
     op_triple (idle_since n S) (authorize env a c b) (\<lambda>_. idle_since n S) E"
  by (rule op_triple_weaken [OF idle_authorize])

lemma prepareLaunch_created:
  assumes "keyed ir_id S" "js_get S (li_instructionId inp) = None"
  shows "op_triple (idle_since n S) (prepareLaunch env inp)
    (\<lambda>_. created S (li_instructionId inp) n) (created S (li_instructionId inp) n)"
proof -
  let ?c = "created S (li_instructionId inp) n"
  note start = created_start [OF assms]
  have put: "op_triple (idle_since n S) (op_bind (ask (qe_clock env)) (\<lambda>moment.
      let r = launch_record inp p moment in op_then (istore_put env r) (op_return r))) (\<lambda>_. ?c) ?c" for p
  proof (rule op_triple_bind [OF idle_ask])
    fix moment
    have "op_triple (idle_since n S) (istore_put env (launch_record inp p moment)) (\<lambda>_. ?c) ?c"
      using put_created [of S "launch_record inp p moment" n env] assms by simp
    then show "op_triple (idle_since n S)
        (let r = launch_record inp p moment in op_then (istore_put env r) (op_return r)) (\<lambda>_. ?c) ?c"
      unfolding Let_def by (rule op_triple_then) (rule op_triple_return)
  qed
  have find: "op_triple (idle_since n S) (case find_message m rs of Some existing \<Rightarrow> op_return existing
      | None \<Rightarrow> op_bind (ask (qe_clock env)) (\<lambda>moment.
          let r = launch_record inp p moment in op_then (istore_put env r) (op_return r))) (\<lambda>_. ?c) ?c" for p m rs
    by (cases "find_message m rs") (simp_all add: put op_triple_return start)
  show ?thesis
    unfolding prepareLaunch_def
    by (cases "parse_enqueue env (launch_params inp)")
       (simp_all add: op_triple_throw start op_triple_bind [OF idle_ask op_triple_then [OF authorize_created
          op_triple_bind [OF list_triple find]]])
qed

lemma steady_read_back [steady_rules]: "op_keeps (steady n) (read_back r)"
  unfolding read_back_def by (intro op_rules steady_rules)

lemma evolving_flush_read [evolving_rules]: "evolving (op_bind (flush env t v) (\<lambda>_. read_back r))"
  unfolding read_back_def
  by (intro evolving_bind evolving_flush steady_flush evolving_quiet quiet_rules)

lemma steady_flush_read [steady_rules]: "op_keeps (steady n) (op_bind (flush env t v) (\<lambda>_. read_back r))"
  by (intro op_rules steady_rules)

lemma enqueue_write_created:
  assumes "keyed ir_id S" "js_get S (ir_id r) = None" "receipt_sound r"
  shows "op_triple (idle_since n S) (enqueue_write env r) (\<lambda>_. created S (ir_id r) n) (created S (ir_id r) n)"
  unfolding enqueue_write_def
  by (rule op_triple_then [OF put_created [OF assms] created_evolving [OF evolving_flush_read steady_flush_read]])

text \<open>A receipt may have been created under one of the ids drawn meanwhile.\<close>

definition made :: "queue_env \<Rightarrow> nat \<Rightarrow> receipts \<Rightarrow> instruction_queue \<Rightarrow> bool" where
  "made env n S s =
     (\<exists>k. n \<le> k \<and> created S (qe_uuid env k) n s
        \<and> (js_get (iq_store s) (qe_uuid env k) = None \<or> k < iq_tick s))"

lemma made_evolving:
  assumes "evolving m" "\<And>n. op_keeps (steady n) m"
  shows "op_triple (made env n S) m (\<lambda>_. made env n S) (made env n S)"
proof (rule op_triple_pointwise)
  fix s
  assume "made env n S s"
  then obtain k where k: "n \<le> k" "created S (qe_uuid env k) n s"
    "js_get (iq_store s) (qe_uuid env k) = None \<or> k < iq_tick s" by (auto simp: made_def)
  let ?t = "snd (m s)"
  from op_triple_snd [OF created_evolving [OF assms] k(2)] have c: "created S (qe_uuid env k) n ?t" .
  from k(2) have keyed: "keyed ir_id (iq_store s)" by (simp add: created_def)
  with assms(1) have "dom (js_get (iq_store ?t)) = dom (js_get (iq_store s))" by (simp add: evolving_def)
  moreover have "iq_tick s \<le> iq_tick ?t"
    using op_keepsD [OF assms(2) [of "iq_tick s"], of s] keyed by (simp add: steady_def)
  ultimately have "js_get (iq_store ?t) (qe_uuid env k) = None \<or> k < iq_tick ?t"
    using k(3) by (metis domIff order_less_le_trans)
  with c k(1) have "made env n S ?t" by (auto simp: made_def)
  then show "op_triple (\<lambda>t. t = s) m (\<lambda>_. made env n S) (made env n S)" by (rule op_triple_run)
qed

lemma idle_made:
  "keyed ir_id S \<Longrightarrow> js_get S (qe_uuid env n) = None \<Longrightarrow> idle_since n S s \<Longrightarrow> made env n S s"
  unfolding made_def by (intro exI [of _ n]) (auto intro: created_start simp: idle_since_def)

lemma put_made:
  assumes "keyed ir_id S" "\<And>k. n \<le> k \<Longrightarrow> js_get S (qe_uuid env k) = None"
  shows "op_triple (drawn_since env n S i)
    (op_then (istore_put env (broker_record i p now)) (op_return x)) (\<lambda>_. made env n S) (made env n S)"
proof (rule op_triple_pointwise)
  fix s
  assume "drawn_since env n S i s"
  then obtain k where k: "iq_store s = S" "n \<le> k" "k < iq_tick s" "i = qe_uuid env k"
    by (auto simp: drawn_since_def)
  have "op_triple (idle_since (Suc k) S) (istore_put env (broker_record i p now))
      (\<lambda>_. created S i (Suc k)) (created S i (Suc k))"
    using put_created [of S "broker_record i p now"] assms k by simp
  moreover have "made env n S t" if "created S i (Suc k) t" for t
    using that k unfolding made_def by (intro exI [of _ k]) (auto simp: created_def)
  ultimately have "op_triple (idle_since (Suc k) S) (istore_put env (broker_record i p now))
      (\<lambda>_. made env n S) (made env n S)" by (blast intro: op_triple_weaken)
  then have "op_triple (idle_since (Suc k) S)
      (op_then (istore_put env (broker_record i p now)) (op_return x)) (\<lambda>_. made env n S) (made env n S)"
    by (rule op_triple_then) (rule op_triple_return)
  then show "op_triple (\<lambda>t. t = s)
      (op_then (istore_put env (broker_record i p now)) (op_return x)) (\<lambda>_. made env n S) (made env n S)"
    by (rule op_triple_weaken) (use k in \<open>auto simp: idle_since_def\<close>)
qed

lemma enqueueBroker_made:
  assumes "keyed ir_id S" "\<And>k. n \<le> k \<Longrightarrow> js_get S (qe_uuid env k) = None"
  shows "op_triple (idle_since n S) (enqueueBroker env p) (\<lambda>_. made env n S) (made env n S)"
proof -
  note start = idle_made [OF assms(1) assms(2) [OF order_refl]]
  have new: "op_triple (idle_since n S) (op_bind (ask (qe_clock env)) (\<lambda>now. op_bind (ask (qe_uuid env)) (\<lambda>i.
      let r = broker_record i q now in op_then (istore_put env r) (op_return (True, r)))))
      (\<lambda>_. made env n S) (made env n S)" for q
    unfolding Let_def
    by (rule op_triple_bind [OF idle_ask], rule op_triple_bind [OF draw_id], rule put_made [OF assms])
  have block: "op_triple (idle_since n S) (broker_record_op env q) (\<lambda>_. made env n S) (made env n S)" for q
    unfolding broker_record_op_def
  proof (rule op_triple_bind [OF list_triple])
    fix rs
    show "op_triple (idle_since n S) (case find_message (bp_messageId q) rs of
        Some dup \<Rightarrow> op_return (False, dup)
      | None \<Rightarrow> op_bind (ask (qe_clock env)) (\<lambda>now. op_bind (ask (qe_uuid env)) (\<lambda>i.
          let r = broker_record i q now in op_then (istore_put env r) (op_return (True, r)))))
      (\<lambda>_. made env n S) (made env n S)"
      by (cases "find_message (bp_messageId q) rs") (simp_all add: new op_triple_return start)
  qed
  note flushed = made_evolving [OF evolving_flush_read steady_flush_read]
  have rest: "op_triple (idle_since n S) (op_bind (broker_record_op env q) (\<lambda>(created, r).
      if \<not> created \<and> \<not> ir_isWake r then op_return r
      else if \<not> (ir_status r = Accepted \<or> ir_status r = Queued) then op_return r
      else op_bind (flush env (ir_targetSessionId r) None) (\<lambda>_. read_back r)))
      (\<lambda>_. made env n S) (made env n S)" for q
    by (rule op_triple_bind [OF block]) (auto intro: op_triple_return flushed)
  show ?thesis
    unfolding enqueueBroker_def
  proof (cases "parse_broker env p")
    case (Some q)
    show "op_triple (idle_since n S) (case parse_broker env p of None \<Rightarrow> op_throw RequestInvalid
        | Some p \<Rightarrow> op_bind (ask (\<lambda>n. qe_session env n (bp_targetSessionId p))) (\<lambda>target.
            if target = None then op_throw SessionNotFound
            else op_bind (broker_record_op env p) (\<lambda>(created, r).
              if \<not> created \<and> \<not> ir_isWake r then op_return r
              else if \<not> (ir_status r = Accepted \<or> ir_status r = Queued) then op_return r
              else op_bind (flush env (ir_targetSessionId r) None) (\<lambda>_. read_back r))))
        (\<lambda>_. made env n S) (made env n S)"
      unfolding Some option.case
      by (rule op_triple_bind [OF idle_ask]) (simp add: rest op_triple_throw start)
  qed (simp add: op_triple_throw start)
qed

subsection \<open>The mailbox as a machine\<close>

text \<open>
  The receipts that a first half of \<^verbatim>\<open>enqueue\<close> built and its second half has not written yet wait
  beside the queue. Every other call is one step.
\<close>

type_synonym mailbox = "instruction_queue \<times> instruction_record list"

datatype queue_event =
    QPrepareLaunch launch_input
  | QEnqueueRead enqueue_params
  | QEnqueueWrite nat
  | QEnqueueBroker broker_params
  | QFlush ident "ident option"
  | QWithdraw ident ident
  | QApplyState state_update
  | QRecover "ident \<Rightarrow> turn_recovery"
  | QStart
  | QStop
  | QBoundary ident
  | QInstructionState state_update

fun mailbox_step :: "queue_env \<Rightarrow> queue_event \<Rightarrow> mailbox \<Rightarrow> mailbox" where
  "mailbox_step env (QPrepareLaunch inp) (s, w) = (snd (prepareLaunch env inp s), w)"
| "mailbox_step env (QEnqueueRead p) (s, w) =
     (case enqueue_read env p s of (Inr (Inr r), t) \<Rightarrow> (t, w @ [r]) | (_, t) \<Rightarrow> (t, w))"
| "mailbox_step env (QEnqueueWrite n) (s, w) =
     (if n < length w then (snd (enqueue_write env (w ! n) s), take n w @ drop (Suc n) w) else (s, w))"
| "mailbox_step env (QEnqueueBroker p) (s, w) = (snd (enqueueBroker env p s), w)"
| "mailbox_step env (QFlush t v) (s, w) = (snd (flush env t v s), w)"
| "mailbox_step env (QWithdraw t m) (s, w) = (snd (queue_withdraw env t m s), w)"
| "mailbox_step env (QApplyState u) (s, w) = (snd (applyState env u s), w)"
| "mailbox_step env (QRecover f) (s, w) = (snd (recoverLaunchInstructions env f s), w)"
| "mailbox_step env QStart (s, w) = (snd (queue_start s), w)"
| "mailbox_step env QStop (s, w) = (snd (queue_stop s), w)"
| "mailbox_step env (QBoundary t) (s, w) = (snd (on_boundary env t s), w)"
| "mailbox_step env (QInstructionState u) (s, w) = (snd (on_instruction_state env u s), w)"

abbreviation mailbox_run :: "queue_env \<Rightarrow> queue_event list \<Rightarrow> mailbox \<Rightarrow> mailbox" where
  "mailbox_run env es \<equiv> fold (mailbox_step env) es"

fun launch_ids :: "queue_event list \<Rightarrow> ident list" where
  "launch_ids [] = []"
| "launch_ids (QPrepareLaunch inp # es) = li_instructionId inp # launch_ids es"
| "launch_ids (_ # es) = launch_ids es"

definition empty_mailbox :: mailbox where
  "empty_mailbox = (\<lparr>iq_store = [], iq_tick = 0, iq_calls = [], iq_subscribed = False\<rparr>, [])"

text \<open>
  Ids in the store or waiting were drawn from the environment or named by a launch; waiting ids are
  distinct and not yet in the store; every receipt is sound.
\<close>

definition mailbox_ok :: "queue_env \<Rightarrow> ident set \<Rightarrow> mailbox \<Rightarrow> bool" where
  "mailbox_ok env L m =
     (keyed ir_id (iq_store (fst m))
      \<and> (\<forall>i r. js_get (iq_store (fst m)) i = Some r \<longrightarrow> receipt_sound r)
      \<and> dom (js_get (iq_store (fst m))) \<subseteq> qe_uuid env ` {..<iq_tick (fst m)} \<union> L
      \<and> distinct (map ir_id (snd m))
      \<and> (\<forall>r\<in>set (snd m). receipt_sound r \<and> ir_id r \<in> qe_uuid env ` {..<iq_tick (fst m)}
            \<and> js_get (iq_store (fst m)) (ir_id r) = None))"

text \<open>Fresh ids never repeat and never coincide with a launch id.\<close>

definition ids_apart :: "queue_env \<Rightarrow> ident set \<Rightarrow> bool" where
  "ids_apart env L = (inj (qe_uuid env) \<and> range (qe_uuid env) \<inter> L = {})"

lemma evolves_sound:
  assumes "evolves S T" "\<And>i r. js_get S i = Some r \<Longrightarrow> receipt_sound r" "dom (js_get T) = dom (js_get S)"
    "js_get T i = Some r"
  shows "receipt_sound r"
proof -
  from assms(3,4) obtain q where "js_get S i = Some q" by (metis domD domI)
  with evolvesD [OF assms(1) _ assms(4)] assms(2) show ?thesis by (simp add: receipt_admissible_def)
qed

lemma evolving_step:
  assumes "mailbox_ok env L (s, w)" "evolving m" "\<And>n. op_keeps (steady n) m"
  shows "mailbox_ok env L (snd (m s), w)" and "evolves (iq_store s) (iq_store (snd (m s)))"
proof -
  let ?t = "snd (m s)"
  from assms(1) have keyed: "keyed ir_id (iq_store s)" by (simp add: mailbox_ok_def)
  with assms(2) show ev: "evolves (iq_store s) (iq_store ?t)" by (simp add: evolving_def)
  from keyed assms(2) have dom: "dom (js_get (iq_store ?t)) = dom (js_get (iq_store s))"
    by (simp add: evolving_def)
  have "steady (iq_tick s) ?t"
    using op_keepsD [OF assms(3) [of "iq_tick s"], of s] keyed by (simp add: steady_def)
  then have st: "keyed ir_id (iq_store ?t)" "iq_tick s \<le> iq_tick ?t" by (simp_all add: steady_def)
  have ticks: "qe_uuid env ` {..<iq_tick s} \<subseteq> qe_uuid env ` {..<iq_tick ?t}" using st(2) by auto
  have "js_get (iq_store ?t) i = None \<longleftrightarrow> js_get (iq_store s) i = None" for i using dom by (metis domIff)
  moreover have "receipt_sound r" if "js_get (iq_store ?t) i = Some r" for i r
    using evolves_sound [OF ev _ dom that] assms(1) by (simp add: mailbox_ok_def)
  ultimately show "mailbox_ok env L (?t, w)"
    using assms(1) st ticks dom unfolding mailbox_ok_def by (simp, blast)
qed

text \<open>A step that creates one receipt under an id that is neither in the store nor waiting.\<close>

lemma created_step:
  assumes "mailbox_ok env L (s, w)" "created (iq_store s) i (iq_tick s) t"
    and "js_get (iq_store s) i = None" "i \<notin> ir_id ` set w"
    and "js_get (iq_store t) i \<noteq> None \<Longrightarrow> i \<in> qe_uuid env ` {..<iq_tick t} \<union> L'"
    and "L \<subseteq> L'"
  shows "mailbox_ok env L' (t, w)"
proof -
  from assms(2) have c: "keyed ir_id (iq_store t)" "iq_tick s \<le> iq_tick t" "evolves (iq_store s) (iq_store t)"
    "\<And>j. j \<noteq> i \<Longrightarrow> js_get (iq_store t) j = None \<longleftrightarrow> js_get (iq_store s) j = None"
    "\<And>r. js_get (iq_store t) i = Some r \<Longrightarrow> receipt_sound r"
    using assms(3) by (simp_all add: created_def)
  have ticks: "qe_uuid env ` {..<iq_tick s} \<subseteq> qe_uuid env ` {..<iq_tick t}" using c(2) by auto
  have sound: "receipt_sound r" if r: "js_get (iq_store t) j = Some r" for j r
  proof (cases "j = i")
    case True
    with c(5) r show ?thesis by simp
  next
    case False
    with c(4) r obtain q where q: "js_get (iq_store s) j = Some q" by fastforce
    with assms(1) have "receipt_sound q" by (simp add: mailbox_ok_def)
    with evolvesD [OF c(3) q r] show ?thesis by (simp add: receipt_admissible_def)
  qed
  have "dom (js_get (iq_store t)) \<subseteq> qe_uuid env ` {..<iq_tick t} \<union> L'"
  proof
    fix j
    assume j: "j \<in> dom (js_get (iq_store t))"
    show "j \<in> qe_uuid env ` {..<iq_tick t} \<union> L'"
    proof (cases "j = i")
      case True
      with j show ?thesis using assms(5) by (simp add: domIff)
    next
      case False
      with j c(4) have "j \<in> dom (js_get (iq_store s))" by (simp add: domIff)
      then have "j \<in> qe_uuid env ` {..<iq_tick s} \<union> L"
        using assms(1) by (auto simp: mailbox_ok_def)
      with ticks assms(6) show ?thesis by auto
    qed
  qed
  moreover have "js_get (iq_store t) (ir_id r) = None" if "r \<in> set w" for r
    using that assms(1,4) c(4) [of "ir_id r"] by (auto simp: mailbox_ok_def)
  ultimately show ?thesis
    using assms(1) c(1) sound ticks unfolding mailbox_ok_def by (simp, blast)
qed

lemma uuid_fresh:
  assumes "mailbox_ok env L (s, w)" "ids_apart env L" "iq_tick s \<le> k"
  shows "js_get (iq_store s) (qe_uuid env k) = None" and "qe_uuid env k \<notin> ir_id ` set w"
proof -
  have new: "qe_uuid env k \<notin> qe_uuid env ` {..<iq_tick s}"
    using assms(2,3) by (auto simp: ids_apart_def inj_eq)
  moreover have "qe_uuid env k \<notin> L" using assms(2) by (auto simp: ids_apart_def)
  ultimately show "js_get (iq_store s) (qe_uuid env k) = None"
    using assms(1) by (auto simp: mailbox_ok_def domIff [symmetric])
  show "qe_uuid env k \<notin> ir_id ` set w"
    using new assms(1) by (auto simp: mailbox_ok_def)
qed

lemma launch_step:
  assumes "mailbox_ok env L (s, w)" "ids_apart env (insert (li_instructionId inp) L)" "li_instructionId inp \<notin> L"
  shows "mailbox_ok env (insert (li_instructionId inp) L) (snd (prepareLaunch env inp s), w)
    \<and> evolves (iq_store s) (iq_store (snd (prepareLaunch env inp s)))"
proof -
  let ?i = "li_instructionId inp" and ?t = "snd (prepareLaunch env inp s)"
  have keyed: "keyed ir_id (iq_store s)" using assms(1) by (simp add: mailbox_ok_def)
  have apart: "?i \<notin> range (qe_uuid env)" using assms(2) by (auto simp: ids_apart_def)
  then have fresh: "js_get (iq_store s) ?i = None" "?i \<notin> ir_id ` set w"
    using assms(1,3) by (auto simp: mailbox_ok_def domIff [symmetric])
  have c: "created (iq_store s) ?i (iq_tick s) ?t"
    by (rule op_triple_snd [OF prepareLaunch_created [OF keyed fresh(1)]]) (simp add: idle_since_def)
  then show ?thesis using created_step [OF assms(1) c fresh] by (auto simp: created_def)
qed

lemma read_step:
  assumes "mailbox_ok env L (s, w)" "ids_apart env L"
  shows "mailbox_ok env L (mailbox_step env (QEnqueueRead p) (s, w))
    \<and> evolves (iq_store s) (iq_store (fst (mailbox_step env (QEnqueueRead p) (s, w))))"
proof -
  obtain res t where run: "enqueue_read env p s = (res, t)" by fastforce
  let ?n = "iq_tick s" and ?S = "iq_store s"
  have idle: "idle_since ?n ?S t \<and> (\<forall>r. res = Inr (Inr r) \<longrightarrow> receipt_sound r \<and> drawn_since env ?n ?S (ir_id r) t)"
  proof -
    have "case res of Inl _ \<Rightarrow> idle_since ?n ?S t | Inr found \<Rightarrow> read_answer env ?n ?S found t"
      using enqueue_read_triple [of ?n ?S env p] run
      by (auto simp: op_triple_def dest!: spec [of _ s] split: sum.splits) (simp_all add: idle_since_def)
    then show ?thesis by (auto simp: read_answer_def split: sum.splits)
  qed
  then have t: "iq_store t = ?S" "?n \<le> iq_tick t" by (simp_all add: idle_since_def)
  have keep: "mailbox_ok env L (t, w)"
    using assms(1) t by (fastforce simp: mailbox_ok_def)
  show ?thesis
  proof (cases "\<exists>r. res = Inr (Inr r)")
    case True
    then obtain r where r: "res = Inr (Inr r)" by blast
    with idle obtain k where k: "receipt_sound r" "?n \<le> k" "k < iq_tick t" "ir_id r = qe_uuid env k"
      by (auto simp: drawn_since_def)
    have "mailbox_ok env L (t, w @ [r])"
      using keep k uuid_fresh [OF assms k(2)] t(1) by (auto simp: mailbox_ok_def)
    then show ?thesis by (simp add: run r t)
  next
    case False
    then have "mailbox_step env (QEnqueueRead p) (s, w) = (t, w)"
      by (auto simp: run split: sum.split)
    with keep show ?thesis by (simp add: t)
  qed
qed

lemma set_take_drop: "n < length w \<Longrightarrow> set (take n w @ drop (Suc n) w) \<subseteq> set w"
  by (auto dest: in_set_takeD in_set_dropD)

lemma write_step:
  assumes "mailbox_ok env L (s, w)"
  shows "mailbox_ok env L (mailbox_step env (QEnqueueWrite n) (s, w))
    \<and> evolves (iq_store s) (iq_store (fst (mailbox_step env (QEnqueueWrite n) (s, w))))"
proof (cases "n < length w")
  case True
  let ?r = "w ! n" and ?w = "take n w @ drop (Suc n) w"
  let ?t = "snd (enqueue_write env ?r s)"
  have w: "w = take n w @ ?r # drop (Suc n) w" using True by (rule id_take_nth_drop)
  have keyed: "keyed ir_id (iq_store s)" using assms by (simp add: mailbox_ok_def)
  have r: "receipt_sound ?r" "js_get (iq_store s) (ir_id ?r) = None" "ir_id ?r \<in> qe_uuid env ` {..<iq_tick s}"
    using assms nth_mem [OF True] by (auto simp: mailbox_ok_def)
  have "distinct (map ir_id (take n w @ ?r # drop (Suc n) w))"
    using assms w by (simp add: mailbox_ok_def)
  then have apart: "distinct (map ir_id ?w)" "ir_id ?r \<notin> ir_id ` set ?w" by auto
  have less: "mailbox_ok env L (s, ?w)"
    using assms apart(1) set_take_drop [OF True] unfolding mailbox_ok_def by (simp, blast)
  have c: "created (iq_store s) (ir_id ?r) (iq_tick s) ?t"
    by (rule op_triple_snd [OF enqueue_write_created [OF keyed r(2,1)]]) (simp add: idle_since_def)
  then have "iq_tick s \<le> iq_tick ?t" "evolves (iq_store s) (iq_store ?t)" by (simp_all add: created_def)
  with True r(3) show ?thesis using created_step [OF less c r(2) apart(2)] by auto
next
  case False
  then show ?thesis using assms by simp
qed

lemma broker_step:
  assumes "mailbox_ok env L (s, w)" "ids_apart env L"
  shows "mailbox_ok env L (snd (enqueueBroker env p s), w)
    \<and> evolves (iq_store s) (iq_store (snd (enqueueBroker env p s)))"
proof -
  let ?t = "snd (enqueueBroker env p s)"
  have keyed: "keyed ir_id (iq_store s)" using assms(1) by (simp add: mailbox_ok_def)
  have "made env (iq_tick s) (iq_store s) ?t"
    by (rule op_triple_snd [OF enqueueBroker_made [OF keyed uuid_fresh(1) [OF assms]]])
       (simp_all add: idle_since_def)
  then obtain k where k: "iq_tick s \<le> k" "created (iq_store s) (qe_uuid env k) (iq_tick s) ?t"
    "js_get (iq_store ?t) (qe_uuid env k) = None \<or> k < iq_tick ?t" by (auto simp: made_def)
  from created_step [OF assms(1) k(2) uuid_fresh [OF assms k(1)]] k(2,3) show ?thesis
    by (auto simp: created_def)
qed

lemmas queue_subscription_defs = queue_start_def queue_stop_def on_boundary_def on_instruction_state_def

lemma subscription_rules [evolving_rules, steady_rules]:
  "evolving queue_start" "evolving queue_stop" "evolving (on_boundary env t)" "evolving (on_instruction_state env u)"
  "op_keeps (steady n) queue_start" "op_keeps (steady n) queue_stop" "op_keeps (steady n) (on_boundary env t)"
  "op_keeps (steady n) (on_instruction_state env u)"
proof -
  show "evolving queue_start" "evolving queue_stop"
    "op_keeps (steady n) queue_start" "op_keeps (steady n) queue_stop"
    by (simp_all add: evolving_def queue_subscription_defs op_modify_def op_keeps_def steady_def)
  show "op_keeps (steady n) (on_boundary env t)" "op_keeps (steady n) (on_instruction_state env u)"
    unfolding queue_subscription_defs by (auto intro!: op_rules steady_rules)
  have "evolving (if b then op_bind (flush env t None) (\<lambda>_. op_return ()) else op_return ())" for b
    by (auto intro!: evolving_bind evolving_flush steady_flush intro: evolving_quiet quiet_rules)
  then show "evolving (on_boundary env t)"
    unfolding on_boundary_def by (intro evolving_bind [OF evolving_quiet [OF quiet_basic(3)] op_keeps_gets])
  have "evolving (if b then applyState env u else op_return ())" for b
    by (auto intro: evolving_applyState evolving_quiet quiet_rules)
  then show "evolving (on_instruction_state env u)"
    unfolding on_instruction_state_def by (intro evolving_bind [OF evolving_quiet [OF quiet_basic(3)] op_keeps_gets])
qed

lemma mailbox_step_evolves:
  assumes "mailbox_ok env L (s, w)" "ids_apart env (set (launch_ids [e]) \<union> L)"
    and "set (launch_ids [e]) \<inter> L = {}"
  shows "mailbox_ok env (set (launch_ids [e]) \<union> L) (mailbox_step env e (s, w))
    \<and> evolves (iq_store s) (iq_store (fst (mailbox_step env e (s, w))))"
proof (cases e)
  case (QPrepareLaunch inp)
  with assms launch_step [of env L s w inp] show ?thesis by simp
next
  case (QEnqueueRead p)
  with assms read_step [of env L s w p] show ?thesis by simp
next
  case (QEnqueueWrite n)
  with assms write_step [of env L s w n] show ?thesis by simp
next
  case (QEnqueueBroker p)
  with assms broker_step [of env L s w p] show ?thesis by simp
qed (simp_all add: evolving_step [OF assms(1)] evolving_rules steady_rules)

lemma launch_ids_Cons: "launch_ids (e # es) = launch_ids [e] @ launch_ids es"
  by (cases e) auto

lemma launch_ids_append [simp]: "launch_ids (es @ es') = launch_ids es @ launch_ids es'"
proof (induction es)
  case (Cons e es)
  then show ?case by (cases e) auto
qed simp

lemma ids_apart_mono: "ids_apart env L \<Longrightarrow> L' \<subseteq> L \<Longrightarrow> ids_apart env L'"
  by (auto simp: ids_apart_def)

lemma mailbox_run_evolves:
  assumes "mailbox_ok env L m" "ids_apart env (set (launch_ids es) \<union> L)"
    and "distinct (launch_ids es)" "set (launch_ids es) \<inter> L = {}"
  shows "mailbox_ok env (set (launch_ids es) \<union> L) (mailbox_run env es m)
    \<and> evolves (iq_store (fst m)) (iq_store (fst (mailbox_run env es m)))"
  using assms
proof (induction es arbitrary: m L)
  case Nil
  then show ?case by simp
next
  case (Cons e es)
  obtain s w where m: "m = (s, w)" by fastforce
  let ?m = "mailbox_step env e m" and ?L = "set (launch_ids [e]) \<union> L"
  have ids: "set (launch_ids (e # es)) \<union> L = set (launch_ids es) \<union> ?L"
    unfolding launch_ids_Cons [of e es] by auto
  have dis: "distinct (launch_ids es)" "set (launch_ids es) \<inter> ?L = {}" "set (launch_ids [e]) \<inter> L = {}"
    using Cons.prems(3,4) unfolding launch_ids_Cons [of e es] by auto
  have apart: "ids_apart env ?L" "ids_apart env (set (launch_ids es) \<union> ?L)"
    using Cons.prems(2) unfolding ids by (auto intro: ids_apart_mono)
  have step: "mailbox_ok env ?L ?m" "evolves (iq_store (fst m)) (iq_store (fst ?m))"
    using mailbox_step_evolves [of env L s w e] Cons.prems(1) apart(1) dis(3) by (simp_all add: m)
  from Cons.IH [OF step(1) apart(2) dis(1,2)] step(2) show ?case
    unfolding ids by (auto intro: evolves_trans)
qed

lemma empty_mailbox_ok: "mailbox_ok env {} empty_mailbox"
  by (simp add: mailbox_ok_def empty_mailbox_def)

subsection \<open>The order of a flush\<close>

definition submitted_ids :: "instruction_queue \<Rightarrow> ident list" where
  "submitted_ids s = concat (map (\<lambda>c. case c of CallSubmit r _ \<Rightarrow> [ir_id r] | CallVerify _ _ \<Rightarrow> []) (iq_calls s))"

text \<open>An attempted instruction that holds nothing back.\<close>

definition settled_receipt :: "instruction_record \<Rightarrow> bool" where
  "settled_receipt r = (instructionReachedProvider (ir_status r)
     \<or> ir_status r = Undelivered \<or> ir_status r = InstructionCancelled)"

lemma submits_ask: "op_triple (\<lambda>s. submitted_ids s = X) (ask f) (\<lambda>_ s. submitted_ids s = X) E"
  by (rule ask_triple) (simp add: submitted_ids_def)

lemma submits_put: "op_triple (\<lambda>s. submitted_ids s = X) (istore_put env r) (\<lambda>_ s. submitted_ids s = X) (\<lambda>_. True)"
  unfolding istore_put_def
  by (rule op_triple_bind [OF submits_ask])
     (auto intro!: op_triple_modify op_triple_throw simp: submitted_ids_def)

lemma submits_persist:
  assumes "ir_id (f r) = ir_id r"
  shows "op_triple (\<lambda>s. submitted_ids s = X) (persistState env r st f)
    (\<lambda>a s. submitted_ids s = X \<and> ir_id a = ir_id r \<and> ir_status a = instructionProgress (ir_status r) st) (\<lambda>_. True)"
  unfolding persistState_def Let_def
  by (rule op_triple_bind [OF submits_ask], rule op_triple_then [OF submits_put], rule op_triple_return)
     (simp add: assms)

text \<open>The outcome of one attempt: at most this instruction is submitted, and it is no longer accepted.\<close>

definition attempted :: "ident list \<Rightarrow> instruction_record \<Rightarrow> instruction_record \<Rightarrow> instruction_queue \<Rightarrow> bool" where
  "attempted X r a s =
     (submitted_ids s \<in> {X, X @ [ir_id r]} \<and> ir_id a = ir_id r \<and> (receipt_sound r \<longrightarrow> ir_status a \<noteq> Accepted))"

lemma attempt_persist:
  assumes "ir_id (f r) = ir_id r" "st \<noteq> Accepted" "Y \<in> {X, X @ [ir_id r]}"
  shows "op_triple (\<lambda>s. submitted_ids s = Y) (persistState env r st f) (attempted X r) (\<lambda>_. True)"
  by (rule op_triple_weaken [OF submits_persist [of f r Y env st, OF assms(1)]])
     (use assms progress_leaves [OF assms(2)] in \<open>auto simp: attempted_def\<close>)

lemma update_ids: "ir_id (set_hold h r) = ir_id r" "ir_id (delivery_hold_of q d r) = ir_id r"
  by (simp_all add: set_hold_def delivery_hold_of_def split: option.split)

lemma attempt_launch:
  "op_triple (\<lambda>s. submitted_ids s = X) (deliver_launch env r) (attempted X r) (\<lambda>_. True)"
  unfolding deliver_launch_def Let_def
  by (rule op_triple_bind [OF submits_ask])
     (auto intro!: attempt_persist op_triple_return simp: update_ids attempted_def receipt_sound_def)

lemma attempt_refusal:
  "Y \<in> {X, X @ [ir_id r]} \<Longrightarrow>
     op_triple (\<lambda>s. submitted_ids s = Y) (handle_refusal env r e) (attempted X r) (\<lambda>_. True)"
  unfolding handle_refusal_def coded_refusal_def
  by (auto intro!: attempt_persist op_triple_throw simp: update_ids split: submit_error.split)

lemma attempt_accept:
  "Y \<in> {X, X @ [ir_id r]} \<Longrightarrow>
     op_triple (\<lambda>s. submitted_ids s = Y) (accept_delivery env r d) (attempted X r) (\<lambda>_. True)"
  unfolding accept_delivery_def
  by (auto intro!: attempt_persist simp: update_ids split: delivery_state.split)

lemma attempt_submit:
  "op_triple (\<lambda>s. submitted_ids s = X) (submit_record env r)
     (\<lambda>_ s. submitted_ids s \<in> {X, X @ [ir_id r]}) (\<lambda>_. True)"
proof -
  have "op_triple (\<lambda>s. submitted_ids s = X) (log_call (CallSubmit r src))
      (\<lambda>_ s. submitted_ids s = X @ [ir_id r]) (\<lambda>_. True)" for src
    unfolding log_call_def by (rule op_triple_modify) (simp add: submitted_ids_def)
  from op_triple_then [OF this submits_ask]
  have "op_triple (\<lambda>s. submitted_ids s = X) (op_then (log_call (CallSubmit r src)) (ask f))
      (\<lambda>_ s. submitted_ids s = X @ [ir_id r]) (\<lambda>_. True)" for src f .
  then have "op_triple (\<lambda>s. submitted_ids s = X) (op_then (log_call (CallSubmit r src)) (ask f))
      (\<lambda>_ s. submitted_ids s \<in> {X, X @ [ir_id r]}) (\<lambda>_. True)" for src f
    by (rule op_triple_weaken) auto
  then show ?thesis
    unfolding submit_record_def by (auto intro: op_triple_return)
qed

lemma attempt_tryDeliver:
  "op_triple (\<lambda>s. submitted_ids s = X) (tryDeliver env r) (attempted X r) (\<lambda>_. True)"
proof -
  have "op_triple (\<lambda>s. submitted_ids s \<in> {X, X @ [ir_id r]})
      (case res of Inl e \<Rightarrow> handle_refusal env r e | Inr d \<Rightarrow> accept_delivery env r d) (attempted X r) (\<lambda>_. True)" for res
  proof (rule op_triple_pointwise)
    fix s
    assume Y: "submitted_ids s \<in> {X, X @ [ir_id r]}"
    have "op_triple (\<lambda>t. submitted_ids t = submitted_ids s)
        (case res of Inl e \<Rightarrow> handle_refusal env r e | Inr d \<Rightarrow> accept_delivery env r d) (attempted X r) (\<lambda>_. True)"
      using attempt_refusal [OF Y] attempt_accept [OF Y] by (simp split: sum.split)
    then show "op_triple (\<lambda>t. t = s)
        (case res of Inl e \<Rightarrow> handle_refusal env r e | Inr d \<Rightarrow> accept_delivery env r d) (attempted X r) (\<lambda>_. True)"
      by (rule op_triple_weaken) auto
  qed
  from op_triple_bind [OF attempt_submit this] show ?thesis
    unfolding tryDeliver_def by (simp add: attempt_launch)
qed

lemma tryDeliver_attempted:
  "tryDeliver env r s = (Inr a, t) \<Longrightarrow> attempted (submitted_ids s) r a t"
  by (rule op_tripleD [OF attempt_tryDeliver]) simp

text \<open>
  What a flush does to the pending instructions \<open>bs\<close>, answering \<open>out\<close> and submitting \<open>xs\<close>: a
  prefix is settled, one instruction after it is not, and behind that one every ordinary instruction
  is queued without being submitted.
\<close>

definition in_order :: "instruction_record list \<Rightarrow> instruction_record list \<Rightarrow> ident list \<Rightarrow> bool" where
  "in_order bs out xs =
     (map ir_id out = map ir_id bs
      \<and> (\<exists>n. list_all settled_receipt (take n out)
           \<and> (n < length out \<longrightarrow> \<not> settled_receipt (out ! n))
           \<and> list_all2 (\<lambda>b r. ir_isWake b \<or> ir_status r = Queued) (drop (Suc n) bs) (drop (Suc n) out)
           \<and> subseq xs (map ir_id (take (Suc n) bs @ filter ir_isWake (drop (Suc n) bs)))))"

definition pending_sound :: "instruction_record \<Rightarrow> bool" where
  "pending_sound r = (receipt_sound r \<and> (ir_status r = Accepted \<or> ir_status r = Queued))"

lemma op_bind_returns:
  assumes "op_bind m f s = (Inr x, t)"
  obtains a u where "m s = (Inr a, u)" "f a u = (Inr x, t)"
  using assms by (auto simp: op_bind_def split: prod.splits sum.splits)

lemma persist_result:
  "ir_id (f r) = ir_id r \<Longrightarrow> persistState env r st f s = (Inr a, t) \<Longrightarrow>
     submitted_ids t = submitted_ids s \<and> ir_id a = ir_id r \<and> ir_status a = instructionProgress (ir_status r) st"
  using op_tripleD [OF submits_persist [of f r "submitted_ids s" env st]] by blast

lemma pending_progress: "pending_sound b \<Longrightarrow> instructionProgress (ir_status b) Queued = Queued"
  by (auto simp: pending_sound_def instructionProgress_def progress_line_def)

lemma hold_behind_shape:
  assumes "hold_behind env hold bs s = (Inr out, t)" "list_all pending_sound bs"
  shows "map ir_id out = map ir_id bs \<and> list_all (\<lambda>r. ir_status r \<noteq> Accepted) out
    \<and> list_all2 (\<lambda>b r. ir_isWake b \<or> ir_status r = Queued) bs out
    \<and> (\<exists>xs. submitted_ids t = submitted_ids s @ xs \<and> subseq xs (map ir_id (filter ir_isWake bs)))"
  using assms
proof (induction bs arbitrary: s out)
  case Nil
  then show ?case by (simp add: op_return_def)
next
  case (Cons b bs)
  let ?op = "if ir_isWake b \<and> hold = ''human-controller'' then tryDeliver env b
      else persistState env b Queued
        (set_hold (Some (if ir_isWake b \<and> \<not> starts_with_wake hold then ''wake-'' @ hold else hold)))"
  from Cons.prems(1) obtain a u rs where a: "?op s = (Inr a, u)"
    and rs: "hold_behind env hold bs u = (Inr rs, t)" and out: "out = a # rs"
    by (auto elim!: op_bind_returns simp: op_return_def)
  from Cons.prems(2) have b: "pending_sound b" and bs: "list_all pending_sound bs" by simp_all
  have head: "ir_id a = ir_id b \<and> ir_status a \<noteq> Accepted \<and> (ir_isWake b \<or> ir_status a = Queued)
      \<and> (\<exists>xs. submitted_ids u = submitted_ids s @ xs \<and> subseq xs (map ir_id (filter ir_isWake [b])))"
  proof (cases "ir_isWake b \<and> hold = ''human-controller''")
    case True
    with a have "attempted (submitted_ids s) b a u" by (auto intro: tryDeliver_attempted)
    with True b show ?thesis by (auto simp: attempted_def pending_sound_def)
  next
    case False
    with a have "submitted_ids u = submitted_ids s \<and> ir_id a = ir_id b
        \<and> ir_status a = instructionProgress (ir_status b) Queued"
      by (intro persist_result) (auto simp: update_ids split: if_splits)
    with pending_progress [OF b] show ?thesis by simp
  qed
  then obtain ys where ys: "submitted_ids u = submitted_ids s @ ys" "subseq ys (map ir_id (filter ir_isWake [b]))"
    by blast
  from Cons.IH [OF rs bs] obtain xs where ih: "map ir_id rs = map ir_id bs"
    "list_all (\<lambda>r. ir_status r \<noteq> Accepted) rs" "list_all2 (\<lambda>b r. ir_isWake b \<or> ir_status r = Queued) bs rs"
    "submitted_ids t = submitted_ids u @ xs" "subseq xs (map ir_id (filter ir_isWake bs))" by blast
  have "subseq (ys @ xs) (map ir_id (filter ir_isWake (b # bs)))"
    using list_emb_append_mono [OF ys(2) ih(5)] by (simp split: if_splits)
  with head ih ys show ?case by (simp add: out)
qed

lemma flush_loop_shape:
  assumes "flush_loop env bs s = (Inr out, t)" "list_all pending_sound bs"
  shows "list_all (\<lambda>r. ir_status r \<noteq> Accepted) out
    \<and> (\<exists>xs. submitted_ids t = submitted_ids s @ xs \<and> in_order bs out xs)"
  using assms
proof (induction bs arbitrary: s out)
  case Nil
  then show ?case by (auto simp: op_return_def in_order_def intro: exI [of _ 0])
next
  case (Cons b bs)
  from Cons.prems(2) have b: "pending_sound b" and bs: "list_all pending_sound bs" by simp_all
  from Cons.prems(1) obtain a u where a: "tryDeliver env b s = (Inr a, u)"
    and cont: "(if settled_receipt a then op_bind (flush_loop env bs) (\<lambda>rest. op_return (a # rest))
       else op_bind (hold_behind env (if ir_status a = Rendered then ''composer-occupied''
             else case ir_holdReason a of None \<Rightarrow> ''composer-occupied'' | Some h \<Rightarrow> h) bs)
         (\<lambda>rest. op_return (a # rest))) u = (Inr out, t)"
    unfolding flush_loop.simps settled_receipt_def by (elim op_bind_returns) blast
  have att: "ir_id a = ir_id b" "ir_status a \<noteq> Accepted"
    and X: "submitted_ids u = submitted_ids s \<or> submitted_ids u = submitted_ids s @ [ir_id b]"
    using tryDeliver_attempted [OF a] b by (auto simp: attempted_def pending_sound_def)
  show ?case
  proof (cases "settled_receipt a")
    case True
    with cont obtain rest where r: "flush_loop env bs u = (Inr rest, t)" and out: "out = a # rest"
      by (auto elim!: op_bind_returns simp: op_return_def)
    from Cons.IH [OF r bs] obtain xs n where ih: "list_all (\<lambda>r. ir_status r \<noteq> Accepted) rest"
      "submitted_ids t = submitted_ids u @ xs" "map ir_id rest = map ir_id bs"
      "list_all settled_receipt (take n rest)" "n < length rest \<longrightarrow> \<not> settled_receipt (rest ! n)"
      "list_all2 (\<lambda>b r. ir_isWake b \<or> ir_status r = Queued) (drop (Suc n) bs) (drop (Suc n) rest)"
      "subseq xs (map ir_id (take (Suc n) bs @ filter ir_isWake (drop (Suc n) bs)))"
      by (auto simp: in_order_def)
    from X obtain y where y: "submitted_ids u = submitted_ids s @ y" "subseq y [ir_id b]" by auto
    have "subseq (y @ xs) ([ir_id b] @ map ir_id (take (Suc n) bs @ filter ir_isWake (drop (Suc n) bs)))"
      by (rule list_emb_append_mono [OF y(2) ih(7)])
    then have "in_order (b # bs) out (y @ xs)"
      unfolding in_order_def using ih True att by (auto simp: out intro!: exI [of _ "Suc n"])
    with ih y att show ?thesis by (auto simp: out)
  next
    case False
    with cont obtain rest where r: "hold_behind env (if ir_status a = Rendered then ''composer-occupied''
             else case ir_holdReason a of None \<Rightarrow> ''composer-occupied'' | Some h \<Rightarrow> h) bs u = (Inr rest, t)"
      and out: "out = a # rest"
      by (auto elim!: op_bind_returns simp: op_return_def)
    from hold_behind_shape [OF r bs] obtain xs where hb: "map ir_id rest = map ir_id bs"
      "list_all (\<lambda>r. ir_status r \<noteq> Accepted) rest"
      "list_all2 (\<lambda>b r. ir_isWake b \<or> ir_status r = Queued) bs rest"
      "submitted_ids t = submitted_ids u @ xs" "subseq xs (map ir_id (filter ir_isWake bs))" by auto
    from X obtain y where y: "submitted_ids u = submitted_ids s @ y" "subseq y [ir_id b]" by auto
    have "subseq (y @ xs) ([ir_id b] @ map ir_id (filter ir_isWake bs))"
      by (rule list_emb_append_mono [OF y(2) hb(5)])
    then have "in_order (b # bs) out (y @ xs)"
      unfolding in_order_def using hb False att by (auto simp: out intro!: exI [of _ 0])
    with hb y att show ?thesis by (auto simp: out)
  qed
qed

subsection \<open>The properties\<close>

text \<open>
  C29. Whatever calls, restarts and observations follow, in any interleaving of the two halves of
  \<^verbatim>\<open>enqueue\<close> and with writes failing at any moment, a stored instruction stays stored, keeps its
  target, message and ids, never moves back on its way from accepted to completed and never leaves a
  terminal state; and a receipt that claims the provider took the payload carries the time it did,
  a completed one the time of completion. Fresh ids must not repeat or coincide with launch ids.
\<close>

theorem receipts_only_advance:
  assumes "ids_apart env (set (launch_ids (es @ es')))" and "distinct (launch_ids (es @ es'))"
    and "js_get (iq_store (fst (mailbox_run env es empty_mailbox))) i = Some r"
  shows "\<exists>r'. js_get (iq_store (fst (mailbox_run env (es @ es') empty_mailbox))) i = Some r'
    \<and> receipt_later r r' \<and> receipt_sound r'"
proof -
  let ?m = "mailbox_run env es empty_mailbox"
  have "ids_apart env (set (launch_ids es) \<union> {})" using assms(1) by (auto intro: ids_apart_mono)
  then have ok: "mailbox_ok env (set (launch_ids es)) ?m"
    using mailbox_run_evolves [OF empty_mailbox_ok, of env es] assms(2) by simp
  have "set (launch_ids es') \<inter> set (launch_ids es) = {}" using assms(2) by auto
  then have "mailbox_ok env (set (launch_ids es') \<union> set (launch_ids es)) (mailbox_run env es' ?m)
      \<and> evolves (iq_store (fst ?m)) (iq_store (fst (mailbox_run env es' ?m)))"
    using mailbox_run_evolves [OF ok, of es'] assms(1,2) by (simp add: Un_commute)
  then show ?thesis using assms(3) by (force simp: evolves_def receipt_admissible_def mailbox_ok_def)
qed

definition mailbox_env :: queue_env where
  "mailbox_env = \<lparr>qe_isUuid = (\<lambda>_. True), qe_uuid = (\<lambda>n. replicate n (CHR ''u'')), qe_clock = int,
     qe_session = (\<lambda>_ _. Some \<lparr>ts_executionState = Active, ts_cwd = ''/repo'', ts_pid = 7,
       ts_initialInstructionId = None, ts_updatedAt = 0\<rparr>),
     qe_grant = (\<lambda>_ _. Some \<lparr>cg_subjectSessionId = ''boss'', cg_capabilities = [ThreadEnqueue], cg_scope = FleetScope\<rparr>),
     qe_submit = (\<lambda>n _. Inr \<lparr>dl_state = DeliveryRendered, dl_hold = None, dl_expectedTurn = Some 1, dl_at = int n\<rparr>),
     qe_writeOk = (\<lambda>_. True), qe_hasWakeAdmission = False\<rparr>"

definition demo_params :: enqueue_params where
  "demo_params = \<lparr>ep_actorSessionId = ''boss'', ep_targetSessionId = ''worker'', ep_senderSessionId = None,
     ep_message = ''go'', ep_workflowRunId = None, ep_messageId = Some ''m1'', ep_causationId = None, ep_hop = 0\<rparr>"

definition demo_enqueued :: "queue_event list" where
  "demo_enqueued = [QEnqueueRead demo_params, QEnqueueWrite 0]"

definition demo_observed :: "queue_event list" where
  "demo_observed = [QApplyState \<lparr>su_sessionId = ''worker'', su_instructionId = ''uuu'', su_state = Submitted, su_at = 50\<rparr>,
     QWithdraw ''worker'' ''m1'']"

text \<open>A busy worker, and two instructions for it.\<close>

definition demo_busy_env :: queue_env where
  "demo_busy_env = mailbox_env\<lparr>qe_submit := (\<lambda>n _. Inr \<lparr>dl_state = DeliveryQueued, dl_hold = Some HoldProviderBusy,
     dl_expectedTurn = None, dl_at = int n\<rparr>)\<rparr>"

definition demo_two :: "queue_event list" where
  "demo_two = [QEnqueueRead demo_params, QEnqueueWrite 0,
     QEnqueueRead (demo_params\<lparr>ep_messageId := Some ''m2''\<rparr>), QEnqueueWrite 0]"

lemma demo_ids_apart: "ids_apart mailbox_env (set (launch_ids (demo_enqueued @ demo_observed)))"
proof -
  have "inj (\<lambda>n. replicate n (CHR ''u''))" by (rule injI) (metis length_replicate)
  then show ?thesis by (simp add: ids_apart_def mailbox_env_def demo_enqueued_def demo_observed_def)
qed

theorem receipts_only_advance_witness:
  "\<exists>r r'. js_get (iq_store (fst (mailbox_run mailbox_env demo_enqueued empty_mailbox))) ''uuu'' = Some r
     \<and> ir_status r = Rendered
     \<and> js_get (iq_store (fst (mailbox_run mailbox_env (demo_enqueued @ demo_observed) empty_mailbox))) ''uuu'' = Some r'
     \<and> receipt_later r r' \<and> receipt_sound r'"
proof -
  have "map_option ir_status (js_get (iq_store (fst (mailbox_run mailbox_env demo_enqueued empty_mailbox))) ''uuu'')
      = Some Rendered"
    by code_simp
  then obtain r where r: "js_get (iq_store (fst (mailbox_run mailbox_env demo_enqueued empty_mailbox))) ''uuu'' = Some r"
    "ir_status r = Rendered" by auto
  have "distinct (launch_ids (demo_enqueued @ demo_observed))"
    by (simp add: demo_enqueued_def demo_observed_def)
  from receipts_only_advance [OF demo_ids_apart this r(1)] r show ?thesis by blast
qed

text \<open>
  A flush that returns answers every pending instruction of the target, in the order they were
  first written, and leaves none merely accepted. It submits them in order: it goes past an
  instruction only when that one is undelivered, cancelled or already with the provider, and behind
  the first that is none of these every ordinary instruction is queued without being submitted; only
  wakes may still be submitted there. This holds in every state the mailbox can reach.
\<close>

theorem flush_in_order:
  assumes "ids_apart env (set (launch_ids es))" and "distinct (launch_ids es)"
    and "s = fst (mailbox_run env es empty_mailbox)"
    and "flush env target v s = (Inr out, t)"
  shows "list_all (\<lambda>r. ir_status r \<noteq> Accepted) out
    \<and> (\<exists>xs. submitted_ids t = submitted_ids s @ xs
        \<and> in_order (pending_records (filter (\<lambda>r. ir_targetSessionId r = target) (js_values (iq_store s)))) out xs)"
proof -
  let ?rs = "filter (\<lambda>r. ir_targetSessionId r = target) (js_values (iq_store s))"
  have ok: "mailbox_ok env (set (launch_ids es)) (mailbox_run env es empty_mailbox)"
    using mailbox_run_evolves [OF empty_mailbox_ok, of env es] assms(1,2) by simp
  then have "keyed ir_id (iq_store s)" "\<And>i r. js_get (iq_store s) i = Some r \<Longrightarrow> receipt_sound r"
    by (auto simp: mailbox_ok_def assms(3))
  then have sound: "list_all pending_sound (pending_records ?rs)"
    using keyed_value [of ir_id "iq_store s"]
    by (auto simp: list_all_iff pending_sound_def pending_records_def)
  obtain u where u: "flush_loop env (pending_records ?rs) u = (Inr out, t)" "submitted_ids u = submitted_ids s"
    using assms(4) unfolding flush_def istore_list_def log_call_def
    by (auto simp: submitted_ids_def split: option.splits)
  from flush_loop_shape [OF u(1) sound] u(2) show ?thesis by simp
qed

theorem flush_in_order_witness:
  "\<exists>out t. flush demo_busy_env ''worker'' None (fst (mailbox_run demo_busy_env demo_two empty_mailbox)) = (Inr out, t)
     \<and> map ir_messageId out = [''m1'', ''m2''] \<and> list_all (\<lambda>r. ir_status r \<noteq> Accepted) out"
proof -
  let ?s = "fst (mailbox_run demo_busy_env demo_two empty_mailbox)"
  have res: "map_sum id (map ir_messageId) (fst (flush demo_busy_env ''worker'' None ?s)) = Inr [''m1'', ''m2'']"
    by code_simp
  then obtain out where out: "fst (flush demo_busy_env ''worker'' None ?s) = Inr out" "map ir_messageId out = [''m1'', ''m2'']"
    by (cases "fst (flush demo_busy_env ''worker'' None ?s)") auto
  then obtain t where run: "flush demo_busy_env ''worker'' None ?s = (Inr out, t)"
    by (metis prod.collapse)
  have apart: "ids_apart demo_busy_env (set (launch_ids demo_two))"
    using demo_ids_apart by (simp add: ids_apart_def demo_busy_env_def demo_two_def)
  have "distinct (launch_ids demo_two)" by (simp add: demo_two_def)
  from flush_in_order [OF apart this refl run] have "list_all (\<lambda>r. ir_status r \<noteq> Accepted) out" by (rule conjunct1)
  with run out(2) show ?thesis by (intro exI conjI)
qed

text \<open>
  Deduplication by message id does not survive a race: two calls of \<^verbatim>\<open>enqueue\<close> with one message
  id, each reading the mailbox before the other has written, leave two instructions with that id,
  while the same calls one after the other leave one.
\<close>

theorem racing_enqueues_duplicate:
  "length (filter (\<lambda>r. ir_messageId r = ''m1'') (js_values (iq_store (fst (mailbox_run mailbox_env
      [QEnqueueRead demo_params, QEnqueueRead demo_params, QEnqueueWrite 0, QEnqueueWrite 0] empty_mailbox))))) = 2
   \<and> length (filter (\<lambda>r. ir_messageId r = ''m1'') (js_values (iq_store (fst (mailbox_run mailbox_env
      [QEnqueueRead demo_params, QEnqueueWrite 0, QEnqueueRead demo_params, QEnqueueWrite 0] empty_mailbox))))) = 1"
  by code_simp

text \<open>A grant scoped to its own subject never allows an enqueue, not even to that subject.\<close>

lemma self_grant_never_enqueues:
  "cg_scope g = SelfScope \<Longrightarrow> fst (authorize env actor cwd (Some g) s) = Inl CapabilityDenied"
  by (simp add: authorize_def grantAllows_def op_throw_def)

end
