(* ===== verification/Worker_Budget.thy ===== *)
theory Worker_Budget
  imports Instruction_Queue
begin

text \<open>
  Scoped worker budgets: the records and arithmetic of \<^verbatim>\<open>src/src/domain/worker-budget.ts\<close>, the
  budget calls of \<^verbatim>\<open>src/src/broker/worker-coordination.ts\<close> (declare, observe, adjust, advance, with
  their idempotency receipts) and the measuring and enforcing loop of
  \<^verbatim>\<open>src/src/broker/worker-budget-enforcer.ts\<close>, which sends its wrap-up instruction through the
  queue of \<open>Instruction_Queue\<close>.

  Amounts and ratios are rational numbers: the rounding of floating-point division is left out.
  A request hash is the request itself, that is, two different requests are taken to have different
  SHA-256 hashes. The coordination service serializes its calls, so each is one operation. Of a
  subject the fields used here are kept: its kind and its budget. Audit records are left out.
\<close>

subsection \<open>Budget records\<close>

datatype budget_resource = WeeklyWindow | SessionWindow

datatype budget_unit = Percent | Tokens | WallClockMs

datatype adjustment_direction = Extend | Reduce

record budget_allocation =
  al_unit :: budget_unit
  al_amount :: rat

record worker_budget_declaration =
  bd_resource :: budget_resource
  bd_allocation :: budget_allocation
  bd_softLimitRatio :: rat

datatype measurement_source = ProviderTelemetry | TerminalTokenCounter | WallClock

datatype reading_quality = Exact | Approximate

record known_measurement =
  km_unit :: budget_unit
  km_amount :: rat
  km_source :: measurement_source
  km_quality :: reading_quality
  km_observedAt :: instant
  km_staleAfterMs :: int
  km_generation :: "int option"
  km_generationBaseline :: "rat option"

datatype budget_measurement = MeasureUnknown string "instant option" | MeasureKnown known_measurement

record available_remaining =
  ar_unit :: budget_unit
  ar_amount :: rat
  ar_quality :: reading_quality
  ar_observedAt :: instant
  ar_staleAfterMs :: int

datatype provider_remaining = RemainingUnavailable "string option" | RemainingAvailable available_remaining

datatype budget_enforcement =
    EnfActive
  | SoftPending int instant
  | SoftNotified int instant instant
  | HardReached int instant
  | HardStopRequested int instant instant

record budget_record =
  br_declaration :: worker_budget_declaration
  br_revision :: int
  br_measurement :: budget_measurement
  br_providerRemaining :: provider_remaining
  br_enforcement :: budget_enforcement
  br_createdAt :: instant
  br_updatedAt :: instant

subsection \<open>Schemas\<close>

definition allocation_valid :: "budget_allocation \<Rightarrow> bool" where
  "allocation_valid a = (al_amount a > 0 \<and> (al_unit a = Percent \<longrightarrow> al_amount a \<le> 100))"

definition declaration_valid :: "worker_budget_declaration \<Rightarrow> bool" where
  "declaration_valid d = (allocation_valid (bd_allocation d) \<and> 0 < bd_softLimitRatio d \<and> bd_softLimitRatio d < 1)"

definition reason_valid :: "string \<Rightarrow> bool" where
  "reason_valid r = (js_trim r \<noteq> [] \<and> length (js_trim r) \<le> 512)"

definition parse_measurement :: "budget_measurement \<Rightarrow> budget_measurement option" where
  "parse_measurement m =
     (case m of
        MeasureUnknown r t \<Rightarrow> if reason_valid r then Some (MeasureUnknown (js_trim r) t) else None
      | MeasureKnown k \<Rightarrow>
          if km_amount k \<ge> 0 \<and> km_staleAfterMs k > 0
             \<and> (case km_generation k of None \<Rightarrow> True | Some g \<Rightarrow> g > 0)
             \<and> (case km_generationBaseline k of None \<Rightarrow> True | Some b \<Rightarrow> b \<ge> 0)
          then Some (MeasureKnown k) else None)"

definition parse_remaining :: "provider_remaining \<Rightarrow> provider_remaining option" where
  "parse_remaining p =
     (case p of
        RemainingUnavailable None \<Rightarrow> Some p
      | RemainingUnavailable (Some r) \<Rightarrow>
          if reason_valid r then Some (RemainingUnavailable (Some (js_trim r))) else None
      | RemainingAvailable a \<Rightarrow> if ar_amount a \<ge> 0 \<and> ar_staleAfterMs a > 0 then Some p else None)"

definition createWorkerBudgetRecord :: "worker_budget_declaration \<Rightarrow> instant \<Rightarrow> budget_record" where
  "createWorkerBudgetRecord d now =
     \<lparr>br_declaration = d, br_revision = 1,
      br_measurement = MeasureUnknown ''No compatible broker measurement has been observed'' None,
      br_providerRemaining = RemainingUnavailable (Some ''Provider-wide remaining usage is unavailable''),
      br_enforcement = EnfActive, br_createdAt = now, br_updatedAt = now\<rparr>"

subsection \<open>Readings and thresholds\<close>

record known_reading =
  kr_allocatedAmount :: rat
  kr_consumedAmount :: rat
  kr_remainingAmount :: rat
  kr_unit :: budget_unit
  kr_ratio :: rat
  kr_softLimitReached :: bool
  kr_hardLimitReached :: bool

datatype budget_reading = ReadingUnknown rat budget_unit string | ReadingKnown known_reading

fun unit_name :: "budget_unit \<Rightarrow> string" where
  "unit_name Percent = ''percent''"
| "unit_name Tokens = ''tokens''"
| "unit_name WallClockMs = ''wall-clock-ms''"

definition workerBudgetReading :: "budget_record \<Rightarrow> budget_reading" where
  "workerBudgetReading b =
     (let a = bd_allocation (br_declaration b)
      in case br_measurement b of
        MeasureUnknown r _ \<Rightarrow> ReadingUnknown (al_amount a) (al_unit a) r
      | MeasureKnown m \<Rightarrow>
          if km_unit m \<noteq> al_unit a
          then ReadingUnknown (al_amount a) (al_unit a)
                 (''Measurement unit '' @ unit_name (km_unit m) @ '' does not match allocation unit ''
                  @ unit_name (al_unit a))
          else let ratio = km_amount m / al_amount a
               in ReadingKnown
                 \<lparr>kr_allocatedAmount = al_amount a, kr_consumedAmount = km_amount m,
                  kr_remainingAmount = max 0 (al_amount a - km_amount m), kr_unit = al_unit a,
                  kr_ratio = ratio,
                  kr_softLimitReached = (ratio \<ge> bd_softLimitRatio (br_declaration b)),
                  kr_hardLimitReached = (ratio \<ge> 1)\<rparr>)"

datatype enforcement_state = StActive | StSoftPending | StSoftNotified | StHardReached | StHardStopRequested

fun enforcement_state_of :: "budget_enforcement \<Rightarrow> enforcement_state" where
  "enforcement_state_of EnfActive = StActive"
| "enforcement_state_of (SoftPending _ _) = StSoftPending"
| "enforcement_state_of (SoftNotified _ _ _) = StSoftNotified"
| "enforcement_state_of (HardReached _ _) = StHardReached"
| "enforcement_state_of (HardStopRequested _ _ _) = StHardStopRequested"

fun enforcement_moves :: "enforcement_state \<Rightarrow> enforcement_state list" where
  "enforcement_moves StActive = [StSoftPending, StHardReached]"
| "enforcement_moves StSoftPending = [StSoftNotified, StHardReached]"
| "enforcement_moves StSoftNotified = [StHardReached]"
| "enforcement_moves StHardReached = [StHardStopRequested]"
| "enforcement_moves StHardStopRequested = []"

definition workerBudgetEnforcementTransitionAllowed :: "enforcement_state \<Rightarrow> enforcement_state \<Rightarrow> bool" where
  "workerBudgetEnforcementTransitionAllowed a b = (b \<in> set (enforcement_moves a))"

definition workerBudgetThresholdEnforcement :: "budget_record \<Rightarrow> instant \<Rightarrow> budget_enforcement" where
  "workerBudgetThresholdEnforcement b reachedAt =
     (case workerBudgetReading b of
        ReadingUnknown _ _ _ \<Rightarrow> EnfActive
      | ReadingKnown r \<Rightarrow>
          if kr_hardLimitReached r then HardReached (br_revision b) reachedAt
          else if kr_softLimitReached r then SoftPending (br_revision b) reachedAt
          else EnfActive)"

subsection \<open>The monotone merges of the coordination service\<close>

definition monotonicBudgetMeasurement :: "budget_measurement \<Rightarrow> budget_measurement \<Rightarrow> budget_measurement" where
  "monotonicBudgetMeasurement current observed =
     (case observed of
        MeasureUnknown _ seen \<Rightarrow>
          (case current of
             MeasureKnown _ \<Rightarrow> current
           | MeasureUnknown _ before \<Rightarrow>
               (case (before, seen) of
                  (Some t, Some t') \<Rightarrow> if t' < t then current else observed
                | _ \<Rightarrow> observed))
      | MeasureKnown m' \<Rightarrow>
          (case current of
             MeasureUnknown _ _ \<Rightarrow> observed
           | MeasureKnown m \<Rightarrow>
               if km_unit m' \<noteq> km_unit m \<or> km_observedAt m' < km_observedAt m \<or> km_amount m' < km_amount m
               then current else observed))"

definition monotonicProviderRemaining :: "provider_remaining \<Rightarrow> provider_remaining option \<Rightarrow> provider_remaining" where
  "monotonicProviderRemaining current observed =
     (case observed of None \<Rightarrow> current
      | Some p \<Rightarrow>
          (case (current, p) of
             (RemainingAvailable a, RemainingAvailable a') \<Rightarrow>
               if ar_observedAt a' < ar_observedAt a then current else p
           | _ \<Rightarrow> p))"

definition observedBudgetEnforcement :: "budget_record \<Rightarrow> instant \<Rightarrow> budget_enforcement" where
  "observedBudgetEnforcement b reachedAt =
     (let threshold = workerBudgetThresholdEnforcement b reachedAt; current = br_enforcement b
      in if enforcement_state_of current = StActive then threshold
         else if enforcement_state_of threshold = StHardReached
             \<and> (enforcement_state_of current = StSoftPending \<or> enforcement_state_of current = StSoftNotified)
         then threshold else current)"

fun enforcementReachedAt :: "budget_enforcement \<Rightarrow> instant option" where
  "enforcementReachedAt EnfActive = None"
| "enforcementReachedAt (SoftPending _ t) = Some t"
| "enforcementReachedAt (SoftNotified _ t _) = Some t"
| "enforcementReachedAt (HardReached _ t) = Some t"
| "enforcementReachedAt (HardStopRequested _ t _) = Some t"

subsection \<open>The book of budgets\<close>

datatype budget_error =
    CoordinationNotReady | BudgetRequestInvalid | MutationIdCollision | SubjectNotFound
  | BudgetUnsupportedSubject | BudgetNotDeclared | BudgetUnitMismatch | BudgetRevisionConflict
  | BudgetAlreadyDeclared | BudgetAdjustmentInvalid | BudgetEnforcementInvalid | CoordinationStoreFailed
  | ThresholdTimestampMissing

datatype advance_target = AdvanceSoftNotified | AdvanceHardStopRequested

text \<open>A request with the fields its hash covers; other operations of the service use the same receipts.\<close>

datatype budget_request =
    ReqDeclare ident worker_budget_declaration string
  | ReqObserve ident budget_measurement "provider_remaining option" string
  | ReqAdjust ident int adjustment_direction rat string
  | ReqAdvance ident int advance_target string

datatype budget_operation = OpDeclare | OpObserve | OpAdjust | OpEnforce | OpOther string

record mutation_result =
  mr_mutationId :: ident
  mr_operation :: budget_operation
  mr_subjectId :: ident
  mr_revision :: int
  mr_changed :: bool
  mr_idempotentReplay :: bool
  mr_budget :: budget_record

record mutation_receipt =
  rc_operation :: budget_operation
  rc_request :: "budget_request option"
  rc_result :: "mutation_result option"

record budget_subject =
  sb_isWorker :: bool
  sb_budget :: "budget_record option"

record book_env =
  be_clock :: "nat \<Rightarrow> instant"
  be_writeOk :: "nat \<Rightarrow> bool"

record budget_book =
  bb_initialized :: bool
  bb_subjects :: "(ident, budget_subject) js_map"
  bb_receipts :: "(ident, mutation_receipt) js_map"
  bb_notified :: "(ident \<times> budget_record) list"
  bb_tick :: nat

type_synonym 'a book_op = "(budget_book, budget_error, 'a) op"

definition book_ask :: "(nat \<Rightarrow> 'a) \<Rightarrow> 'a book_op" where
  "book_ask f s = (Inr (f (bb_tick s)), s\<lparr>bb_tick := Suc (bb_tick s)\<rparr>)"

definition getBudget :: "budget_book \<Rightarrow> ident \<Rightarrow> budget_record option" where
  "getBudget s i = (case js_get (bb_subjects s) i of None \<Rightarrow> None | Some sub \<Rightarrow> sb_budget sub)"

definition book_assertReady :: "unit book_op" where
  "book_assertReady = op_bind (op_gets bb_initialized) (\<lambda>ok. if ok then op_return () else op_throw CoordinationNotReady)"

definition replayBudget :: "ident \<Rightarrow> budget_operation \<Rightarrow> budget_request \<Rightarrow> (mutation_result option) book_op" where
  "replayBudget mid operation request =
     op_bind (op_gets (\<lambda>s. js_get (bb_receipts s) mid)) (\<lambda>receipt.
       case receipt of None \<Rightarrow> op_return None
       | Some r \<Rightarrow>
           if rc_operation r \<noteq> operation \<or> rc_request r \<noteq> Some request then op_throw MutationIdCollision
           else case rc_result r of None \<Rightarrow> op_throw BudgetRequestInvalid
                | Some res \<Rightarrow> op_return (Some (res\<lparr>mr_idempotentReplay := True\<rparr>)))"

definition requireBudgetableSubject :: "ident \<Rightarrow> budget_subject book_op" where
  "requireBudgetableSubject i =
     op_bind (op_gets (\<lambda>s. js_get (bb_subjects s) i)) (\<lambda>sub.
       case sub of None \<Rightarrow> op_throw SubjectNotFound
       | Some sb \<Rightarrow> if sb_isWorker sb then op_return sb else op_throw BudgetUnsupportedSubject)"

definition requireBudget :: "budget_subject \<Rightarrow> budget_record book_op" where
  "requireBudget sub = (case sb_budget sub of None \<Rightarrow> op_throw BudgetNotDeclared | Some b \<Rightarrow> op_return b)"

definition assertBudgetRevision :: "budget_record \<Rightarrow> int \<Rightarrow> unit book_op" where
  "assertBudgetRevision b n = (if br_revision b \<noteq> n then op_throw BudgetRevisionConflict else op_return ())"

definition budgetResult :: "ident \<Rightarrow> budget_operation \<Rightarrow> ident \<Rightarrow> budget_record \<Rightarrow> bool \<Rightarrow> mutation_result book_op" where
  "budgetResult mid operation i b changed =
     (if mid = [] \<or> length mid > 256 then op_throw BudgetRequestInvalid
      else op_return \<lparr>mr_mutationId = mid, mr_operation = operation, mr_subjectId = i,
        mr_revision = br_revision b, mr_changed = changed, mr_idempotentReplay = False, mr_budget = b\<rparr>)"

text \<open>The store is written first; only then the subject, if it changed, and the receipt change.\<close>

definition persistBudgetReceipt ::
  "book_env \<Rightarrow> mutation_result \<Rightarrow> budget_request \<Rightarrow> budget_subject option \<Rightarrow> unit book_op" where
  "persistBudgetReceipt env res request updated =
     op_bind (book_ask (be_writeOk env)) (\<lambda>ok.
       if \<not> ok then op_throw CoordinationStoreFailed
       else op_modify (\<lambda>s. s\<lparr>
         bb_subjects := (case updated of None \<Rightarrow> bb_subjects s
                         | Some sub \<Rightarrow> js_set (mr_subjectId res) sub (bb_subjects s)),
         bb_receipts := js_set (mr_mutationId res)
           \<lparr>rc_operation = mr_operation res, rc_request = Some request, rc_result = Some res\<rparr> (bb_receipts s)\<rparr>))"

definition notifyBudgetUpdate :: "ident \<Rightarrow> budget_record \<Rightarrow> unit book_op" where
  "notifyBudgetUpdate i b = op_modify (\<lambda>s. s\<lparr>bb_notified := bb_notified s @ [(i, b)]\<rparr>)"

text \<open>The two ways a budget call ends: a receipt alone, or a changed budget with its receipt.\<close>

definition record_unchanged ::
  "book_env \<Rightarrow> ident \<Rightarrow> budget_operation \<Rightarrow> ident \<Rightarrow> budget_request \<Rightarrow> budget_record \<Rightarrow> mutation_result book_op" where
  "record_unchanged env mid operation i request b =
     op_bind (budgetResult mid operation i b False) (\<lambda>res.
       op_then (persistBudgetReceipt env res request None) (op_return res))"

definition record_changed ::
  "book_env \<Rightarrow> ident \<Rightarrow> budget_operation \<Rightarrow> ident \<Rightarrow> budget_request \<Rightarrow> budget_subject \<Rightarrow> budget_record
     \<Rightarrow> mutation_result book_op" where
  "record_changed env mid operation i request sub b =
     op_bind (budgetResult mid operation i b True) (\<lambda>res.
       op_then (persistBudgetReceipt env res request (Some (sub\<lparr>sb_budget := Some b\<rparr>)))
         (op_then (notifyBudgetUpdate i b) (op_return res)))"

text \<open>The start every budget call shares: readiness, then a replay of the receipt, then the work.\<close>

definition with_replay ::
  "ident \<Rightarrow> budget_operation \<Rightarrow> budget_request \<Rightarrow> mutation_result book_op \<Rightarrow> mutation_result book_op" where
  "with_replay mid operation request work =
     op_bind (replayBudget mid operation request) (\<lambda>replay.
       case replay of Some res \<Rightarrow> op_return res | None \<Rightarrow> work)"

definition declareBudget :: "book_env \<Rightarrow> ident \<Rightarrow> ident \<Rightarrow> worker_budget_declaration \<Rightarrow> string \<Rightarrow> mutation_result book_op" where
  "declareBudget env mid i d reason =
     op_then book_assertReady
       (if \<not> declaration_valid d then op_throw BudgetRequestInvalid
        else with_replay mid OpDeclare (ReqDeclare i d reason)
          (op_bind (requireBudgetableSubject i) (\<lambda>sub.
             case sb_budget sub of
               Some current \<Rightarrow>
                 if br_declaration current \<noteq> d then op_throw BudgetAlreadyDeclared
                 else record_unchanged env mid OpDeclare i (ReqDeclare i d reason) current
             | None \<Rightarrow>
                 op_bind (book_ask (be_clock env)) (\<lambda>now.
                   record_changed env mid OpDeclare i (ReqDeclare i d reason) sub
                     (createWorkerBudgetRecord d now)))))"

definition observed_budget :: "budget_record \<Rightarrow> budget_measurement \<Rightarrow> provider_remaining option \<Rightarrow> budget_record" where
  "observed_budget current m p =
     current\<lparr>br_measurement := monotonicBudgetMeasurement (br_measurement current) m,
             br_providerRemaining := monotonicProviderRemaining (br_providerRemaining current) p\<rparr>"

definition observe_work ::
  "book_env \<Rightarrow> ident \<Rightarrow> ident \<Rightarrow> budget_measurement \<Rightarrow> provider_remaining option \<Rightarrow> budget_request
     \<Rightarrow> mutation_result book_op" where
  "observe_work env mid i m p request =
     op_bind (requireBudgetableSubject i) (\<lambda>sub.
     op_bind (requireBudget sub) (\<lambda>current.
       if (case m of MeasureUnknown _ _ \<Rightarrow> False
           | MeasureKnown k \<Rightarrow> km_unit k \<noteq> al_unit (bd_allocation (br_declaration current)))
       then op_throw BudgetUnitMismatch
       else op_bind (book_ask (be_clock env)) (\<lambda>now.
         let candidate = observed_budget current m p;
             nextEnforcement = observedBudgetEnforcement candidate now
         in if br_measurement candidate = br_measurement current
               \<and> br_providerRemaining candidate = br_providerRemaining current
               \<and> nextEnforcement = br_enforcement current
            then record_unchanged env mid OpObserve i request current
            else record_changed env mid OpObserve i request sub
                   (candidate\<lparr>br_enforcement := nextEnforcement, br_updatedAt := now\<rparr>))))"

definition observeBudget ::
  "book_env \<Rightarrow> ident \<Rightarrow> ident \<Rightarrow> budget_measurement \<Rightarrow> provider_remaining option \<Rightarrow> string
     \<Rightarrow> mutation_result book_op" where
  "observeBudget env mid i measurement remaining reason =
     op_then book_assertReady
       (case (parse_measurement measurement, map_option parse_remaining remaining) of
          (None, _) \<Rightarrow> op_throw BudgetRequestInvalid
        | (_, Some None) \<Rightarrow> op_throw BudgetRequestInvalid
        | (Some m, p) \<Rightarrow>
            let request = ReqObserve i m (Option.bind p id) reason
            in with_replay mid OpObserve request (observe_work env mid i m (Option.bind p id) request))"

definition adjusted_allocation :: "budget_allocation \<Rightarrow> adjustment_direction \<Rightarrow> rat \<Rightarrow> budget_allocation" where
  "adjusted_allocation a dir amount =
     a\<lparr>al_amount := (if dir = Extend then al_amount a + amount else al_amount a - amount)\<rparr>"

definition adjusted_budget :: "budget_record \<Rightarrow> budget_allocation \<Rightarrow> instant \<Rightarrow> budget_record" where
  "adjusted_budget b a now =
     b\<lparr>br_declaration := (br_declaration b)\<lparr>bd_allocation := a\<rparr>, br_revision := br_revision b + 1,
       br_enforcement := EnfActive, br_updatedAt := now\<rparr>"

definition adjust_work ::
  "book_env \<Rightarrow> ident \<Rightarrow> ident \<Rightarrow> int \<Rightarrow> adjustment_direction \<Rightarrow> rat \<Rightarrow> budget_request \<Rightarrow> mutation_result book_op" where
  "adjust_work env mid i expected dir amount request =
     op_bind (requireBudgetableSubject i) (\<lambda>sub.
     op_bind (requireBudget sub) (\<lambda>current.
     op_then (assertBudgetRevision current expected)
       (let a = adjusted_allocation (bd_allocation (br_declaration current)) dir amount
        in if \<not> allocation_valid a then op_throw BudgetAdjustmentInvalid
           else op_bind (book_ask (be_clock env)) (\<lambda>now.
             let candidate = adjusted_budget current a now
             in record_changed env mid OpAdjust i request sub
                  (candidate\<lparr>br_enforcement := workerBudgetThresholdEnforcement candidate now\<rparr>)))))"

definition adjustBudget ::
  "book_env \<Rightarrow> ident \<Rightarrow> ident \<Rightarrow> int \<Rightarrow> adjustment_direction \<Rightarrow> rat \<Rightarrow> string \<Rightarrow> mutation_result book_op" where
  "adjustBudget env mid i expected dir amount reason =
     op_then book_assertReady
       (if expected \<le> 0 \<or> amount \<le> 0 then op_throw BudgetRequestInvalid
        else let request = ReqAdjust i expected dir amount reason
             in with_replay mid OpAdjust request (adjust_work env mid i expected dir amount request))"

fun advance_state :: "advance_target \<Rightarrow> enforcement_state" where
  "advance_state AdvanceSoftNotified = StSoftNotified"
| "advance_state AdvanceHardStopRequested = StHardStopRequested"

definition advanced_enforcement :: "advance_target \<Rightarrow> int \<Rightarrow> instant \<Rightarrow> instant \<Rightarrow> budget_enforcement" where
  "advanced_enforcement target revision reached now =
     (case target of
        AdvanceSoftNotified \<Rightarrow> SoftNotified revision reached now
      | AdvanceHardStopRequested \<Rightarrow> HardStopRequested revision reached now)"

definition advance_current ::
  "book_env \<Rightarrow> ident \<Rightarrow> ident \<Rightarrow> advance_target \<Rightarrow> budget_request \<Rightarrow> budget_subject \<Rightarrow> budget_record
     \<Rightarrow> mutation_result book_op" where
  "advance_current env mid i target request sub current =
     (if enforcement_state_of (br_enforcement current) = advance_state target
      then record_unchanged env mid OpEnforce i request current
      else if \<not> workerBudgetEnforcementTransitionAllowed
                  (enforcement_state_of (br_enforcement current)) (advance_state target)
      then op_throw BudgetEnforcementInvalid
      else op_bind (book_ask (be_clock env)) (\<lambda>now.
        case enforcementReachedAt (br_enforcement current) of
          None \<Rightarrow> op_throw ThresholdTimestampMissing
        | Some reached \<Rightarrow>
            record_changed env mid OpEnforce i request sub
              (current\<lparr>br_enforcement := advanced_enforcement target (br_revision current) reached now,
                       br_updatedAt := now\<rparr>)))"

definition advance_work ::
  "book_env \<Rightarrow> ident \<Rightarrow> ident \<Rightarrow> int \<Rightarrow> advance_target \<Rightarrow> budget_request \<Rightarrow> mutation_result book_op" where
  "advance_work env mid i expected target request =
     op_bind (requireBudgetableSubject i) (\<lambda>sub.
     op_bind (requireBudget sub) (\<lambda>current.
     op_then (assertBudgetRevision current expected) (advance_current env mid i target request sub current)))"

definition advanceBudgetEnforcement ::
  "book_env \<Rightarrow> ident \<Rightarrow> ident \<Rightarrow> int \<Rightarrow> advance_target \<Rightarrow> string \<Rightarrow> mutation_result book_op" where
  "advanceBudgetEnforcement env mid i expected target reason =
     op_then book_assertReady
       (if expected \<le> 0 then op_throw BudgetRequestInvalid
        else let request = ReqAdvance i expected target reason
             in with_replay mid OpEnforce request (advance_work env mid i expected target request))"

text \<open>The consumption gate of the enforcer: the budget of a worker past its hard limit refuses.\<close>

definition mayConsume :: "budget_book \<Rightarrow> ident \<Rightarrow> bool" where
  "mayConsume s i =
     (case getBudget s i of None \<Rightarrow> True
      | Some b \<Rightarrow> enforcement_state_of (br_enforcement b) \<noteq> StHardReached
                \<and> enforcement_state_of (br_enforcement b) \<noteq> StHardStopRequested)"

subsection \<open>Enforcement agrees with the reading\<close>

fun enforcement_level :: "budget_enforcement \<Rightarrow> nat" where
  "enforcement_level EnfActive = 0"
| "enforcement_level (SoftPending _ _) = 1"
| "enforcement_level (SoftNotified _ _ _) = 1"
| "enforcement_level (HardReached _ _) = 2"
| "enforcement_level (HardStopRequested _ _ _) = 2"

fun reading_level :: "budget_reading \<Rightarrow> nat" where
  "reading_level (ReadingUnknown _ _ _) = 0"
| "reading_level (ReadingKnown r) = (if kr_hardLimitReached r then 2 else if kr_softLimitReached r then 1 else 0)"

definition budget_consistent :: "budget_record \<Rightarrow> bool" where
  "budget_consistent b =
     (declaration_valid (br_declaration b)
      \<and> (\<forall>m. br_measurement b = MeasureKnown m \<longrightarrow> km_unit m = al_unit (bd_allocation (br_declaration b)))
      \<and> enforcement_level (br_enforcement b) = reading_level (workerBudgetReading b))"

lemma reading_of:
  "workerBudgetReading (b\<lparr>br_enforcement := e\<rparr>) = workerBudgetReading b"
  "workerBudgetReading (b\<lparr>br_updatedAt := t\<rparr>) = workerBudgetReading b"
  "workerBudgetReading (b\<lparr>br_revision := n\<rparr>) = workerBudgetReading b"
  by (simp_all add: workerBudgetReading_def Let_def split: budget_measurement.split)

lemma threshold_level: "enforcement_level (workerBudgetThresholdEnforcement b t) = reading_level (workerBudgetReading b)"
  by (cases "workerBudgetReading b") (auto simp: workerBudgetThresholdEnforcement_def)

text \<open>The level is how far the measured amount has come.\<close>

lemma level_known:
  assumes "declaration_valid (br_declaration b)" "br_measurement b = MeasureKnown m"
    "km_unit m = al_unit (bd_allocation (br_declaration b))"
  shows "reading_level (workerBudgetReading b)
    = (if al_amount (bd_allocation (br_declaration b)) \<le> km_amount m then 2
       else if bd_softLimitRatio (br_declaration b) * al_amount (bd_allocation (br_declaration b)) \<le> km_amount m
       then 1 else 0)"
proof -
  have "0 < al_amount (bd_allocation (br_declaration b))"
    using assms(1) by (simp add: declaration_valid_def allocation_valid_def)
  then show ?thesis
    using assms(2,3) by (simp add: workerBudgetReading_def Let_def pos_le_divide_eq)
qed

lemma level_unknown: "br_measurement b = MeasureUnknown r t \<Longrightarrow> reading_level (workerBudgetReading b) = 0"
  by (simp add: workerBudgetReading_def Let_def)

lemma observed_fields [simp]:
  "br_declaration (observed_budget b m p) = br_declaration b"
  "br_enforcement (observed_budget b m p) = br_enforcement b"
  "br_measurement (observed_budget b m p) = monotonicBudgetMeasurement (br_measurement b) m"
  by (simp_all add: observed_budget_def)

lemma monotonic_known:
  "\<exists>k'. monotonicBudgetMeasurement (MeasureKnown k) m = MeasureKnown k' \<and> km_unit k' = km_unit k
     \<and> km_amount k \<le> km_amount k'"
  by (cases m) (auto simp: monotonicBudgetMeasurement_def split: if_split)

text \<open>An observation never lowers the level.\<close>

lemma observed_level_mono:
  assumes "budget_consistent b"
    "\<And>k. m = MeasureKnown k \<Longrightarrow> km_unit k = al_unit (bd_allocation (br_declaration b))"
  shows "reading_level (workerBudgetReading b) \<le> reading_level (workerBudgetReading (observed_budget b m p))"
proof (cases "br_measurement b")
  case (MeasureUnknown r t)
  then show ?thesis by (simp add: level_unknown)
next
  case (MeasureKnown k)
  then have unit: "km_unit k = al_unit (bd_allocation (br_declaration b))"
    and valid: "declaration_valid (br_declaration b)" using assms(1) by (simp_all add: budget_consistent_def)
  obtain k' where k': "monotonicBudgetMeasurement (br_measurement b) m = MeasureKnown k'"
    "km_unit k' = km_unit k" "km_amount k \<le> km_amount k'"
    using monotonic_known [of k m] MeasureKnown by auto
  show ?thesis
    using level_known [OF valid MeasureKnown unit] level_known [of "observed_budget b m p" k'] valid unit k'
    by auto
qed

lemma observed_enforcement_level:
  assumes "enforcement_level (br_enforcement b) \<le> reading_level (workerBudgetReading b)"
  shows "enforcement_level (observedBudgetEnforcement b t) = reading_level (workerBudgetReading b)"
proof -
  have le: "reading_level (workerBudgetReading b) \<le> 2" by (cases "workerBudgetReading b") auto
  have thr: "enforcement_state_of (workerBudgetThresholdEnforcement b t) = StHardReached
      \<longleftrightarrow> reading_level (workerBudgetReading b) = 2"
    by (cases "workerBudgetReading b") (auto simp: workerBudgetThresholdEnforcement_def)
  show ?thesis
    using assms le thr threshold_level [of b t]
    by (cases "br_enforcement b") (auto simp: observedBudgetEnforcement_def Let_def)
qed

lemma consistent_created: "declaration_valid d \<Longrightarrow> budget_consistent (createWorkerBudgetRecord d now)"
  by (simp add: budget_consistent_def createWorkerBudgetRecord_def workerBudgetReading_def Let_def)

lemma consistent_observed:
  assumes "budget_consistent b" "\<And>k. m = MeasureKnown k \<Longrightarrow> km_unit k = al_unit (bd_allocation (br_declaration b))"
  shows "budget_consistent ((observed_budget b m p)
    \<lparr>br_enforcement := observedBudgetEnforcement (observed_budget b m p) now, br_updatedAt := now\<rparr>)"
proof -
  let ?c = "observed_budget b m p"
  have "enforcement_level (br_enforcement ?c) \<le> reading_level (workerBudgetReading ?c)"
    using observed_level_mono [where p = p, OF assms] assms(1) by (simp add: budget_consistent_def)
  then have "enforcement_level (observedBudgetEnforcement ?c now) = reading_level (workerBudgetReading ?c)"
    by (rule observed_enforcement_level)
  moreover have "km_unit k = al_unit (bd_allocation (br_declaration b))"
    if "monotonicBudgetMeasurement (br_measurement b) m = MeasureKnown k" for k
    using that assms by (cases m; cases "br_measurement b")
      (auto simp: monotonicBudgetMeasurement_def budget_consistent_def split: if_splits option.splits)
  ultimately show ?thesis
    using assms(1) by (simp add: budget_consistent_def reading_of)
qed

lemma consistent_adjusted:
  assumes "budget_consistent b" "allocation_valid (adjusted_allocation (bd_allocation (br_declaration b)) dir x)"
  shows "budget_consistent ((adjusted_budget b (adjusted_allocation (bd_allocation (br_declaration b)) dir x) now)
    \<lparr>br_enforcement := workerBudgetThresholdEnforcement
       (adjusted_budget b (adjusted_allocation (bd_allocation (br_declaration b)) dir x) now) now\<rparr>)"
  using assms
  by (auto simp: budget_consistent_def reading_of threshold_level declaration_valid_def adjusted_budget_def
      adjusted_allocation_def)

lemma consistent_advanced:
  assumes "budget_consistent b" "enforcement_level e = enforcement_level (br_enforcement b)"
  shows "budget_consistent (b\<lparr>br_enforcement := e, br_updatedAt := now\<rparr>)"
  using assms by (simp add: budget_consistent_def reading_of)

subsection \<open>Every call keeps the book consistent\<close>

definition book_ok :: "budget_book \<Rightarrow> bool" where
  "book_ok s = (\<forall>i b. getBudget s i = Some b \<longrightarrow> budget_consistent b)"

definition subject_ok :: "budget_subject \<Rightarrow> bool" where
  "subject_ok sub = (\<forall>b. sb_budget sub = Some b \<longrightarrow> budget_consistent b)"

lemma book_ok_frames [simp]:
  "book_ok (s\<lparr>bb_tick := n\<rparr>) = book_ok s" "book_ok (s\<lparr>bb_notified := l\<rparr>) = book_ok s"
  "book_ok (s\<lparr>bb_receipts := r\<rparr>) = book_ok s"
  by (simp_all add: book_ok_def getBudget_def)

lemma book_ok_set:
  "book_ok s \<Longrightarrow> subject_ok sub \<Longrightarrow> book_ok (s\<lparr>bb_subjects := js_set i sub (bb_subjects s)\<rparr>)"
  by (auto simp: book_ok_def getBudget_def subject_ok_def js_simps split: option.splits if_splits)

lemma book_ask_triple: "op_triple book_ok (book_ask f) (\<lambda>_. book_ok) book_ok"
  by (simp add: op_triple_def book_ask_def)

lemma ready_triple: "op_triple book_ok book_assertReady (\<lambda>_. book_ok) book_ok"
  unfolding book_assertReady_def op_triple_def by (simp add: op_return_def op_throw_def)

lemma result_triple: "op_triple book_ok (budgetResult mid operation i b ch) (\<lambda>_. book_ok) book_ok"
  unfolding budgetResult_def by (auto intro: op_triple_return op_triple_throw)

lemma receipt_triple:
  assumes "\<And>sub. updated = Some sub \<Longrightarrow> subject_ok sub"
  shows "op_triple book_ok (persistBudgetReceipt env res request updated) (\<lambda>_. book_ok) book_ok"
  unfolding persistBudgetReceipt_def
proof (rule op_triple_bind [OF book_ask_triple])
  fix ok
  have "book_ok (s\<lparr>bb_subjects := (case updated of None \<Rightarrow> bb_subjects s
      | Some sub \<Rightarrow> js_set (mr_subjectId res) sub (bb_subjects s)), bb_receipts := r\<rparr>)" if "book_ok s" for s r
    using that assms book_ok_set [OF that] by (cases updated) (auto simp: book_ok_def getBudget_def)
  then show "op_triple book_ok (if \<not> ok then op_throw CoordinationStoreFailed
      else op_modify (\<lambda>s. s\<lparr>bb_subjects := (case updated of None \<Rightarrow> bb_subjects s
          | Some sub \<Rightarrow> js_set (mr_subjectId res) sub (bb_subjects s)),
        bb_receipts := js_set (mr_mutationId res)
          \<lparr>rc_operation = mr_operation res, rc_request = Some request, rc_result = Some res\<rparr> (bb_receipts s)\<rparr>))
      (\<lambda>_. book_ok) book_ok"
    by (auto intro: op_triple_throw op_triple_modify)
qed

lemma unchanged_triple: "op_triple book_ok (record_unchanged env mid operation i request b) (\<lambda>_. book_ok) book_ok"
  unfolding record_unchanged_def
  by (rule op_triple_bind [OF result_triple])
     (auto intro!: op_triple_then [OF receipt_triple] op_triple_return)

lemma changed_triple:
  assumes "budget_consistent b"
  shows "op_triple book_ok (record_changed env mid operation i request sub b) (\<lambda>_. book_ok) book_ok"
proof -
  have "op_triple book_ok (notifyBudgetUpdate i b) (\<lambda>_. book_ok) book_ok"
    unfolding notifyBudgetUpdate_def by (rule op_triple_modify) simp
  then have tail: "op_triple book_ok (op_then (notifyBudgetUpdate i b) (op_return res)) (\<lambda>_. book_ok) book_ok" for res
    by (rule op_triple_then) (rule op_triple_return)
  have "subject_ok (sub\<lparr>sb_budget := Some b\<rparr>)" using assms by (simp add: subject_ok_def)
  then have "op_triple book_ok (persistBudgetReceipt env res request (Some (sub\<lparr>sb_budget := Some b\<rparr>)))
      (\<lambda>_. book_ok) book_ok" for res
    by (intro receipt_triple) simp
  from op_triple_then [OF this tail] show ?thesis
    unfolding record_changed_def
    by (rule op_triple_bind [OF result_triple])
qed

text \<open>A fact about the value found that does not depend on the state can be assumed outright.\<close>

lemma op_triple_given:
  "(A \<Longrightarrow> op_triple P m Q E) \<Longrightarrow> (\<And>s. \<not> A \<Longrightarrow> \<not> P s) \<Longrightarrow> op_triple P m Q E"
  by (cases A) (auto simp: op_triple_def)

lemma subject_triple:
  "op_triple book_ok (requireBudgetableSubject i) (\<lambda>sub s. book_ok s \<and> subject_ok sub) book_ok"
  unfolding requireBudgetableSubject_def op_triple_def
  by (auto simp: op_return_def op_throw_def subject_ok_def book_ok_def getBudget_def split: option.split)

lemma with_subject:
  assumes "\<And>sub. subject_ok sub \<Longrightarrow> op_triple book_ok (f sub) (\<lambda>_. book_ok) book_ok"
  shows "op_triple book_ok (op_bind (requireBudgetableSubject i) f) (\<lambda>_. book_ok) book_ok"
  by (rule op_triple_bind [OF subject_triple], rule op_triple_given [of "subject_ok _"])
     (auto intro: op_triple_weaken [OF assms])

lemma with_budget:
  assumes "subject_ok sub" "\<And>b. budget_consistent b \<Longrightarrow> op_triple book_ok (f b) (\<lambda>_. book_ok) book_ok"
  shows "op_triple book_ok (op_bind (requireBudget sub) f) (\<lambda>_. book_ok) book_ok"
  using assms by (cases "sb_budget sub") (auto simp: requireBudget_def subject_ok_def op_triple_def)

lemma with_revision:
  "op_triple book_ok m (\<lambda>_. book_ok) book_ok \<Longrightarrow>
     op_triple book_ok (op_then (assertBudgetRevision b n) m) (\<lambda>_. book_ok) book_ok"
  by (auto simp: assertBudgetRevision_def op_triple_def)

lemma with_replay_triple:
  assumes "op_triple book_ok work (\<lambda>_. book_ok) book_ok"
  shows "op_triple book_ok (with_replay mid operation request work) (\<lambda>_. book_ok) book_ok"
  unfolding with_replay_def
proof (rule op_triple_bind)
  show "op_triple book_ok (replayBudget mid operation request) (\<lambda>_. book_ok) book_ok"
    unfolding replayBudget_def op_triple_def
    by (auto simp: op_return_def op_throw_def split: option.split)
qed (auto intro: op_triple_return assms split: option.split)

text \<open>Each budget call keeps the book consistent, whether it returns or throws.\<close>

lemma declare_keeps: "op_keeps book_ok (declareBudget env mid i d reason)"
  unfolding declareBudget_def
  by (rule triple_keeps, rule op_triple_then [OF ready_triple])
     (auto intro!: with_replay_triple with_subject unchanged_triple op_triple_throw
        op_triple_bind [OF book_ask_triple] changed_triple consistent_created split: option.split)

lemma observe_work_triple: "op_triple book_ok (observe_work env mid i m p request) (\<lambda>_. book_ok) book_ok"
  unfolding observe_work_def
proof (rule with_subject, rule with_budget)
  fix sub current
  assume "subject_ok sub" and b: "budget_consistent current"
  show "op_triple book_ok
      (if (case m of MeasureUnknown _ _ \<Rightarrow> False
           | MeasureKnown k \<Rightarrow> km_unit k \<noteq> al_unit (bd_allocation (br_declaration current)))
       then op_throw BudgetUnitMismatch
       else op_bind (book_ask (be_clock env)) (\<lambda>now.
         let candidate = observed_budget current m p;
             nextEnforcement = observedBudgetEnforcement candidate now
         in if br_measurement candidate = br_measurement current
               \<and> br_providerRemaining candidate = br_providerRemaining current
               \<and> nextEnforcement = br_enforcement current
            then record_unchanged env mid OpObserve i request current
            else record_changed env mid OpObserve i request sub
                   (candidate\<lparr>br_enforcement := nextEnforcement, br_updatedAt := now\<rparr>)))
      (\<lambda>_. book_ok) book_ok"
    unfolding Let_def
    by (auto intro!: op_triple_throw op_triple_bind [OF book_ask_triple] unchanged_triple changed_triple
        consistent_observed [OF b] split: budget_measurement.splits)
qed simp

lemma observe_keeps: "op_keeps book_ok (observeBudget env mid i m p reason)"
  unfolding observeBudget_def Let_def
  by (rule triple_keeps, rule op_triple_then [OF ready_triple])
     (auto intro!: with_replay_triple observe_work_triple op_triple_throw split: option.split)

lemma adjust_keeps: "op_keeps book_ok (adjustBudget env mid i n dir x reason)"
proof -
  have "op_triple book_ok (adjust_work env mid i n dir x request) (\<lambda>_. book_ok) book_ok" for request
    unfolding adjust_work_def Let_def
    by (rule with_subject, rule with_budget, assumption, rule with_revision)
       (auto intro!: op_triple_throw op_triple_bind [OF book_ask_triple] changed_triple
          consistent_adjusted)
  then show ?thesis
    unfolding adjustBudget_def Let_def
    by (intro triple_keeps op_triple_then [OF ready_triple])
       (auto intro!: with_replay_triple op_triple_throw)
qed

lemma advance_keeps: "op_keeps book_ok (advanceBudgetEnforcement env mid i n target reason)"
proof -
  have level: "enforcement_level (advanced_enforcement target r reached now) = enforcement_level e"
    if "workerBudgetEnforcementTransitionAllowed (enforcement_state_of e) (advance_state target)" for e r reached now
    using that by (cases target; cases e)
      (auto simp: workerBudgetEnforcementTransitionAllowed_def advanced_enforcement_def)
  have "op_triple book_ok (advance_work env mid i n target request) (\<lambda>_. book_ok) book_ok" for request
    unfolding advance_work_def advance_current_def
    by (rule with_subject, rule with_budget, assumption, rule with_revision)
       (auto intro!: op_triple_throw op_triple_bind [OF book_ask_triple] unchanged_triple changed_triple
          consistent_advanced level split: option.split)
  then show ?thesis
    unfolding advanceBudgetEnforcement_def Let_def
    by (intro triple_keeps op_triple_then [OF ready_triple])
       (auto intro!: with_replay_triple op_triple_throw)
qed

datatype book_call =
    CallDeclare ident ident worker_budget_declaration string
  | CallObserve ident ident budget_measurement "provider_remaining option" string
  | CallAdjust ident ident int adjustment_direction rat string
  | CallAdvance ident ident int advance_target string

fun book_step :: "book_env \<Rightarrow> book_call \<Rightarrow> budget_book \<Rightarrow> budget_book" where
  "book_step env (CallDeclare mid i d r) s = snd (declareBudget env mid i d r s)"
| "book_step env (CallObserve mid i m p r) s = snd (observeBudget env mid i m p r s)"
| "book_step env (CallAdjust mid i n dir x r) s = snd (adjustBudget env mid i n dir x r s)"
| "book_step env (CallAdvance mid i n t r) s = snd (advanceBudgetEnforcement env mid i n t r s)"

interpretation book: stepping "book_step env" book_ok for env
proof
  fix e s
  assume "book_ok s"
  then show "book_ok (book_step env e s)"
    by (cases e) (simp_all add: op_keepsD [OF declare_keeps] op_keepsD [OF observe_keeps]
        op_keepsD [OF adjust_keeps] op_keepsD [OF advance_keeps])
qed

lemma gate_level: "enforcement_level e = 2 \<longleftrightarrow> enforcement_state_of e \<in> {StHardReached, StHardStopRequested}"
  by (cases e) auto

lemma consistent_spent:
  assumes "budget_consistent b"
  shows "enforcement_level (br_enforcement b) = 2
    \<longleftrightarrow> (\<exists>m. br_measurement b = MeasureKnown m \<and> al_amount (bd_allocation (br_declaration b)) \<le> km_amount m)"
proof (cases "br_measurement b")
  case (MeasureUnknown r t)
  then show ?thesis using assms by (simp add: budget_consistent_def level_unknown)
next
  case (MeasureKnown m)
  then show ?thesis using assms level_known [of b m] by (auto simp: budget_consistent_def)
qed

lemma gate_refuses_spent:
  assumes "book_ok s"
  shows "\<not> mayConsume s i \<longleftrightarrow>
    (\<exists>b m. getBudget s i = Some b \<and> br_measurement b = MeasureKnown m
       \<and> al_amount (bd_allocation (br_declaration b)) \<le> km_amount m)"
proof (cases "getBudget s i")
  case None
  then show ?thesis by (simp add: mayConsume_def)
next
  case (Some b)
  with assms have "budget_consistent b" by (simp add: book_ok_def)
  from consistent_spent [OF this] gate_level [of "br_enforcement b"] Some show ?thesis
    by (auto simp: mayConsume_def)
qed


definition demo_book_env :: book_env where
  "demo_book_env = \<lparr>be_clock = int, be_writeOk = (\<lambda>_. True)\<rparr>"

definition demo_book :: budget_book where
  "demo_book = \<lparr>bb_initialized = True, bb_subjects = [(''w'', \<lparr>sb_isWorker = True, sb_budget = None\<rparr>)],
     bb_receipts = [], bb_notified = [], bb_tick = 0\<rparr>"

definition demo_measure :: "rat \<Rightarrow> instant \<Rightarrow> budget_measurement" where
  "demo_measure x t = MeasureKnown \<lparr>km_unit = Tokens, km_amount = x, km_source = ProviderTelemetry, km_quality = Exact,
     km_observedAt = t, km_staleAfterMs = 1, km_generation = Some 1, km_generationBaseline = Some 0\<rparr>"

definition demo_budget_calls :: "book_call list" where
  "demo_budget_calls =
     [CallDeclare ''d'' ''w'' \<lparr>bd_resource = SessionWindow, bd_allocation = \<lparr>al_unit = Tokens, al_amount = 100\<rparr>,
        bd_softLimitRatio = 4 / 5\<rparr> ''start'',
      CallObserve ''o1'' ''w'' (demo_measure 120 10) None ''usage'',
      CallObserve ''o2'' ''w'' (demo_measure 40 20) None ''usage'']"


end
