(* ===== verification/Budget_Enforcer.thy ===== *)
theory Budget_Enforcer
  imports Worker_Budget
begin

text \<open>
  The measuring and enforcing loop of \<^verbatim>\<open>src/src/broker/worker-budget-enforcer.ts\<close> over the book of
  \<open>Worker_Budget\<close> and the queue of \<open>Instruction_Queue\<close>. What it asks of the session registry
  and of the transcript reader is answered by the environment, once per tick; a transcript reader
  that fails answers no telemetry. The two SHA-256 based names, the fingerprint of an observation
  and the message id of a wrap-up instruction, are parameters. A refresh of one worker is one
  operation, since refreshes of a worker wait for each other; timers and subscriptions only decide
  when refreshes happen and are left out.
\<close>

subsection \<open>Environment and state\<close>

record enforced_session =
  es_createdAt :: instant
  es_parentSessionId :: "ident option"

record runtime_observation =
  ro_generation :: int
  ro_tokenCount :: "rat option"

record provider_usage =
  pu_remainingPercent :: rat
  pu_observedAt :: instant

record budget_telemetry =
  tm_totalTokens :: "rat option"
  tm_tokenObservedAt :: "instant option"
  tm_providerUsage :: "provider_usage option"

record enforcer_env =
  ee_book :: book_env
  ee_queue :: queue_env
  ee_clock :: "nat \<Rightarrow> instant"
  ee_session :: "nat \<Rightarrow> ident \<Rightarrow> enforced_session option"
  ee_terminal :: "nat \<Rightarrow> ident \<Rightarrow> bool"
  ee_runtime :: "nat \<Rightarrow> ident \<Rightarrow> runtime_observation"
  ee_telemetry :: "nat \<Rightarrow> ident \<Rightarrow> budget_resource \<Rightarrow> budget_telemetry"
  ee_stopOk :: "nat \<Rightarrow> ident \<Rightarrow> bool"
  ee_fingerprint :: "budget_measurement \<Rightarrow> provider_remaining option \<Rightarrow> string"
  ee_softMessageId :: "ident \<Rightarrow> int \<Rightarrow> ident"
  ee_intervalMs :: int
  ee_telemetryStaleMs :: int

definition enforcer_interval :: "int option \<Rightarrow> int" where
  "enforcer_interval requested = max 100 (case requested of None \<Rightarrow> 1000 | Some ms \<Rightarrow> ms)"

definition enforcer_telemetry_stale :: "int \<Rightarrow> int option \<Rightarrow> int" where
  "enforcer_telemetry_stale interval requested =
     max (interval * 3) (case requested of None \<Rightarrow> 60000 | Some ms \<Rightarrow> ms)"

record budget_enforcer =
  en_book :: budget_book
  en_queue :: instruction_queue
  en_stopped :: "ident list"
  en_lastCheckedAt :: "(ident, instant) js_map"
  en_tick :: nat

datatype enforcer_error = EnforcerBudget budget_error | EnforcerQueue queue_error | StopFailed

type_synonym 'a enforcer_op = "(budget_enforcer, enforcer_error, 'a) op"

definition en_ask :: "(nat \<Rightarrow> 'a) \<Rightarrow> 'a enforcer_op" where
  "en_ask f s = (Inr (f (en_tick s)), s\<lparr>en_tick := Suc (en_tick s)\<rparr>)"

definition on_book :: "'a book_op \<Rightarrow> 'a enforcer_op" where
  "on_book m s = (case m (en_book s) of
       (Inl e, b) \<Rightarrow> (Inl (EnforcerBudget e), s\<lparr>en_book := b\<rparr>)
     | (Inr x, b) \<Rightarrow> (Inr x, s\<lparr>en_book := b\<rparr>))"

definition on_queue :: "'a queue_op \<Rightarrow> 'a enforcer_op" where
  "on_queue m s = (case m (en_queue s) of
       (Inl e, q) \<Rightarrow> (Inl (EnforcerQueue e), s\<lparr>en_queue := q\<rparr>)
     | (Inr x, q) \<Rightarrow> (Inr x, s\<lparr>en_queue := q\<rparr>))"

subsection \<open>Measuring\<close>

definition MIN_STALE_AFTER_MS :: int where
  "MIN_STALE_AFTER_MS = 10000"

text \<open>
  A token counter belongs to one process generation. The amount accumulated when a generation is
  first seen becomes its baseline.
\<close>

definition token_baseline :: "budget_measurement \<Rightarrow> int \<Rightarrow> rat" where
  "token_baseline prior generation =
     (case prior of MeasureUnknown _ _ \<Rightarrow> 0
      | MeasureKnown k \<Rightarrow>
          if km_generation k \<noteq> Some generation then km_amount k
          else case km_generationBaseline k of None \<Rightarrow> 0 | Some b \<Rightarrow> b)"

definition prior_amount :: "budget_measurement \<Rightarrow> rat" where
  "prior_amount m = (case m of MeasureUnknown _ _ \<Rightarrow> 0 | MeasureKnown k \<Rightarrow> km_amount k)"

definition token_measurement ::
  "enforcer_env \<Rightarrow> budget_measurement \<Rightarrow> runtime_observation \<Rightarrow> budget_telemetry \<Rightarrow> instant \<Rightarrow> budget_measurement option" where
  "token_measurement env prior runtime telemetry observedAt =
     (let baseline = token_baseline prior (ro_generation runtime)
      in case tm_totalTokens telemetry of
        Some spent \<Rightarrow> Some (MeasureKnown
          \<lparr>km_unit = Tokens, km_amount = max (prior_amount prior) (baseline + spent),
           km_source = ProviderTelemetry, km_quality = Exact,
           km_observedAt = (case tm_tokenObservedAt telemetry of None \<Rightarrow> observedAt | Some t \<Rightarrow> t),
           km_staleAfterMs = ee_telemetryStaleMs env, km_generation = Some (ro_generation runtime),
           km_generationBaseline = Some baseline\<rparr>)
      | None \<Rightarrow>
          (case ro_tokenCount runtime of
             None \<Rightarrow> None
           | Some count \<Rightarrow> Some (MeasureKnown
               \<lparr>km_unit = Tokens, km_amount = max (prior_amount prior) (baseline + count),
                km_source = TerminalTokenCounter, km_quality = Approximate, km_observedAt = observedAt,
                km_staleAfterMs = max MIN_STALE_AFTER_MS (ee_intervalMs env * 3),
                km_generation = Some (ro_generation runtime), km_generationBaseline = Some baseline\<rparr>)))"

definition percent_measurement ::
  "enforcer_env \<Rightarrow> budget_record \<Rightarrow> runtime_observation \<Rightarrow> budget_telemetry \<Rightarrow> budget_measurement option" where
  "percent_measurement env b runtime telemetry =
     (case tm_providerUsage telemetry of
        None \<Rightarrow> None
      | Some usage \<Rightarrow>
          let priorRemaining = (case br_providerRemaining b of
                RemainingAvailable a \<Rightarrow> if ar_unit a = Percent then Some (ar_amount a) else None
              | RemainingUnavailable _ \<Rightarrow> None);
              delta = (case priorRemaining of None \<Rightarrow> 0 | Some p \<Rightarrow> max 0 (p - pu_remainingPercent usage))
          in Some (MeasureKnown
            \<lparr>km_unit = Percent, km_amount = prior_amount (br_measurement b) + delta,
             km_source = ProviderTelemetry, km_quality = Approximate, km_observedAt = pu_observedAt usage,
             km_staleAfterMs = ee_telemetryStaleMs env, km_generation = Some (ro_generation runtime),
             km_generationBaseline = None\<rparr>))"

definition en_measurement ::
  "enforcer_env \<Rightarrow> enforced_session \<Rightarrow> budget_record \<Rightarrow> runtime_observation \<Rightarrow> budget_telemetry \<Rightarrow> instant \<Rightarrow> instant
     \<Rightarrow> budget_measurement option" where
  "en_measurement env record b runtime telemetry observedAt now =
     (case al_unit (bd_allocation (br_declaration b)) of
        WallClockMs \<Rightarrow> Some (MeasureKnown
          \<lparr>km_unit = WallClockMs, km_amount = of_int (max 0 (now - es_createdAt record)),
           km_source = WallClock, km_quality = Approximate, km_observedAt = observedAt,
           km_staleAfterMs = max MIN_STALE_AFTER_MS (ee_intervalMs env * 3),
           km_generation = None, km_generationBaseline = None\<rparr>)
      | Tokens \<Rightarrow> token_measurement env (br_measurement b) runtime telemetry observedAt
      | Percent \<Rightarrow> percent_measurement env b runtime telemetry)"

definition en_providerRemaining :: "enforcer_env \<Rightarrow> budget_telemetry \<Rightarrow> provider_remaining option" where
  "en_providerRemaining env telemetry =
     (case tm_providerUsage telemetry of None \<Rightarrow> None
      | Some usage \<Rightarrow> Some (RemainingAvailable
          \<lparr>ar_unit = Percent, ar_amount = pu_remainingPercent usage, ar_quality = Approximate,
           ar_observedAt = pu_observedAt usage, ar_staleAfterMs = ee_telemetryStaleMs env\<rparr>))"

record budget_observation =
  bo_mutationId :: ident
  bo_measurement :: budget_measurement
  bo_providerRemaining :: "provider_remaining option"

definition en_observe :: "enforcer_env \<Rightarrow> ident \<Rightarrow> enforced_session \<Rightarrow> budget_record \<Rightarrow> (budget_observation option) enforcer_op" where
  "en_observe env i record b =
     op_bind (en_ask (ee_clock env)) (\<lambda>observedAt.
     op_bind (en_ask (\<lambda>n. ee_runtime env n i)) (\<lambda>runtime.
     op_bind (en_ask (\<lambda>n. ee_telemetry env n i (bd_resource (br_declaration b)))) (\<lambda>telemetry.
     op_bind (en_ask (ee_clock env)) (\<lambda>now.
       let remaining = en_providerRemaining env telemetry;
           measured = en_measurement env record b runtime telemetry observedAt now
       in if measured = None \<and> remaining = None then op_return None
          else let m = (case measured of None \<Rightarrow> br_measurement b | Some m \<Rightarrow> m)
               in op_return (Some
                 \<lparr>bo_mutationId = ''worker-budget:observe:'' @ i @ '':'' @ ee_fingerprint env m remaining,
                  bo_measurement = m, bo_providerRemaining = remaining\<rparr>)))))"

subsection \<open>Enforcing\<close>

definition WRAP_UP_MESSAGE :: string where
  "WRAP_UP_MESSAGE =
     ''Scoped worker budget reached its soft limit. ''
     @ ''Wrap up current work now, preserve results, and summarize remaining work before the hard cap stops further work.''"

definition wrap_up_params :: "enforcer_env \<Rightarrow> ident \<Rightarrow> enforced_session \<Rightarrow> budget_record \<Rightarrow> broker_params" where
  "wrap_up_params env i record b =
     \<lparr>bp_actorSessionId = (case es_parentSessionId record of None \<Rightarrow> i | Some p \<Rightarrow> p),
      bp_targetSessionId = i, bp_message = WRAP_UP_MESSAGE,
      bp_messageId = ee_softMessageId env i (br_revision b), bp_isWake = False, bp_wake = None\<rparr>"

definition revision_mutation :: "string \<Rightarrow> ident \<Rightarrow> budget_record \<Rightarrow> ident" where
  "revision_mutation prefix i b = prefix @ i @ '':r'' @ int_text (br_revision b)"

definition en_stop :: "enforcer_env \<Rightarrow> ident \<Rightarrow> unit enforcer_op" where
  "en_stop env i =
     op_then (op_modify (\<lambda>s. s\<lparr>en_stopped := en_stopped s @ [i]\<rparr>))
       (op_bind (en_ask (\<lambda>n. ee_stopOk env n i)) (\<lambda>ok. if ok then op_return () else op_throw StopFailed))"

definition enforcePending :: "enforcer_env \<Rightarrow> ident \<Rightarrow> enforced_session \<Rightarrow> budget_record \<Rightarrow> unit enforcer_op" where
  "enforcePending env i record b =
     (if enforcement_state_of (br_enforcement b) = StSoftPending
      then op_bind (en_ask (\<lambda>n. ee_terminal env n i)) (\<lambda>terminal.
        if terminal then op_return ()
        else op_bind (on_queue (enqueueBroker (ee_queue env) (wrap_up_params env i record b))) (\<lambda>_.
             op_bind (on_book (advanceBudgetEnforcement (ee_book env)
               (revision_mutation ''worker-budget:soft-notified:'' i b) i (br_revision b)
               AdvanceSoftNotified ''broker persisted wrap-up instruction'')) (\<lambda>_. op_return ())))
      else if enforcement_state_of (br_enforcement b) \<noteq> StHardReached then op_return ()
      else op_bind (en_ask (\<lambda>n. ee_terminal env n i)) (\<lambda>terminal.
        if terminal then op_return ()
        else op_then (en_stop env i)
             (op_bind (on_book (advanceBudgetEnforcement (ee_book env)
               (revision_mutation ''worker-budget:hard-stop-requested:'' i b) i (br_revision b)
               AdvanceHardStopRequested ''broker stopped worker at hard budget cap'')) (\<lambda>_. op_return ()))))"

definition current_budget :: "ident \<Rightarrow> budget_record \<Rightarrow> budget_record enforcer_op" where
  "current_budget i fallback =
     op_gets (\<lambda>s. case getBudget (en_book s) i of None \<Rightarrow> fallback | Some b \<Rightarrow> b)"

definition observe_and_enforce :: "enforcer_env \<Rightarrow> ident \<Rightarrow> enforced_session \<Rightarrow> budget_record \<Rightarrow> unit enforcer_op" where
  "observe_and_enforce env i record b =
     op_bind (en_observe env i record b) (\<lambda>observation.
       case observation of None \<Rightarrow> op_return ()
       | Some ob \<Rightarrow>
           op_bind (on_book (observeBudget (ee_book env) (bo_mutationId ob) i (bo_measurement ob)
             (bo_providerRemaining ob) ''broker usage observation'')) (\<lambda>result.
           op_bind (current_budget i (mr_budget result)) (enforcePending env i record)))"

definition refresh_session :: "enforcer_env \<Rightarrow> ident \<Rightarrow> budget_record \<Rightarrow> enforced_session option \<Rightarrow> unit enforcer_op" where
  "refresh_session env i b0 session =
     (case session of None \<Rightarrow> op_return ()
      | Some record \<Rightarrow>
          op_then (enforcePending env i record b0)
          (op_bind (current_budget i b0) (\<lambda>b.
           op_bind (en_ask (\<lambda>n. ee_terminal env n i)) (\<lambda>terminal.
             if terminal \<or> enforcement_state_of (br_enforcement b) \<in> {StHardReached, StHardStopRequested}
             then op_return ()
             else observe_and_enforce env i record b))))"

definition refresh_found :: "enforcer_env \<Rightarrow> ident \<Rightarrow> budget_record option \<Rightarrow> unit enforcer_op" where
  "refresh_found env i found =
     (case found of None \<Rightarrow> op_return ()
      | Some b0 \<Rightarrow> op_bind (en_ask (\<lambda>n. ee_session env n i)) (refresh_session env i b0))"

definition refreshWorker :: "enforcer_env \<Rightarrow> ident \<Rightarrow> unit enforcer_op" where
  "refreshWorker env i =
     op_bind (en_ask (ee_clock env)) (\<lambda>now.
     op_then (op_modify (\<lambda>s. s\<lparr>en_lastCheckedAt := js_set i now (en_lastCheckedAt s)\<rparr>))
     (op_bind (op_gets (\<lambda>s. getBudget (en_book s) i)) (refresh_found env i)))"

text \<open>
  \<^verbatim>\<open>refreshAll\<close> starts the refreshes of all budgeted workers together and rejects when one of them
  does; a refusal of one does not stop the others. The refreshes run here one after the other.
\<close>

fun refresh_each :: "enforcer_env \<Rightarrow> ident list \<Rightarrow> unit enforcer_op" where
  "refresh_each env [] s = (Inr (), s)"
| "refresh_each env (i # is) s =
     (let (r, t) = refreshWorker env i s; (rest, u) = refresh_each env is t
      in (case r of Inl e \<Rightarrow> Inl e | Inr _ \<Rightarrow> rest, u))"

definition refreshAll :: "enforcer_env \<Rightarrow> unit enforcer_op" where
  "refreshAll env =
     op_bind (op_gets (\<lambda>s. map fst (filter (\<lambda>(i, sub). sb_isWorker sub \<and> sb_budget sub \<noteq> None)
                                     (bb_subjects (en_book s)))))
       (refresh_each env)"

subsection \<open>Budgets stay, and a closed gate stays closed while enforcement advances\<close>

definition has_budget :: "ident \<Rightarrow> budget_book \<Rightarrow> bool" where
  "has_budget i s = (getBudget s i \<noteq> None)"

definition gate_closed :: "ident \<Rightarrow> budget_book \<Rightarrow> bool" where
  "gate_closed i s = (\<not> mayConsume s i)"

definition hard_budget :: "budget_record \<Rightarrow> bool" where
  "hard_budget b = (enforcement_state_of (br_enforcement b) \<in> {StHardReached, StHardStopRequested})"

lemma gate_closed_iff: "gate_closed i s \<longleftrightarrow> (\<exists>b. getBudget s i = Some b \<and> hard_budget b)"
  by (auto simp: gate_closed_def mayConsume_def hard_budget_def split: option.split)

text \<open>A property of books that only the budgets matter to.\<close>

definition budgets_only :: "(budget_book \<Rightarrow> bool) \<Rightarrow> bool" where
  "budgets_only P = (\<forall>s t. bb_subjects s = bb_subjects t \<longrightarrow> P s = P t)"

lemma budgets_onlyI: "budgets_only (has_budget i)" "budgets_only (gate_closed i)"
  by (auto simp: budgets_only_def has_budget_def gate_closed_iff getBudget_def)

lemma quiet_keeps: "budgets_only P \<Longrightarrow> (\<And>s. bb_subjects (snd (m s)) = bb_subjects s) \<Longrightarrow> op_keeps P m"
  unfolding op_keeps_def budgets_only_def by metis

lemma book_quiet:
  "bb_subjects (snd (book_ask f s)) = bb_subjects s" "bb_subjects (snd (book_assertReady s)) = bb_subjects s"
  "bb_subjects (snd (requireBudgetableSubject i s)) = bb_subjects s"
  "bb_subjects (snd (requireBudget sub s)) = bb_subjects s"
  "bb_subjects (snd (assertBudgetRevision b n s)) = bb_subjects s"
  "bb_subjects (snd (budgetResult mid operation i b ch s)) = bb_subjects s"
  "bb_subjects (snd (replayBudget mid operation request s)) = bb_subjects s"
  "bb_subjects (snd (notifyBudgetUpdate i b s)) = bb_subjects s"
  "bb_subjects (snd (persistBudgetReceipt env res request None s)) = bb_subjects s"
proof -
  show "bb_subjects (snd (book_ask f s)) = bb_subjects s" by (simp add: book_ask_def)
  show "bb_subjects (snd (book_assertReady s)) = bb_subjects s" by (simp add: book_assertReady_def op_defs)
  show "bb_subjects (snd (requireBudgetableSubject i s)) = bb_subjects s"
    by (simp add: requireBudgetableSubject_def op_defs split: option.split)
  show "bb_subjects (snd (requireBudget sub s)) = bb_subjects s"
    by (simp add: requireBudget_def op_defs split: option.split)
  show "bb_subjects (snd (assertBudgetRevision b n s)) = bb_subjects s"
    by (simp add: assertBudgetRevision_def op_defs)
  show "bb_subjects (snd (budgetResult mid operation i b ch s)) = bb_subjects s"
    by (simp add: budgetResult_def op_defs)
  show "bb_subjects (snd (replayBudget mid operation request s)) = bb_subjects s"
    by (simp add: replayBudget_def op_defs split: option.split)
  show "bb_subjects (snd (notifyBudgetUpdate i b s)) = bb_subjects s"
    by (simp add: notifyBudgetUpdate_def op_defs)
  show "bb_subjects (snd (persistBudgetReceipt env res request None s)) = bb_subjects s"
    by (simp add: persistBudgetReceipt_def book_ask_def op_defs)
qed

lemma quiet_book_keeps:
  assumes "budgets_only P"
  shows "op_keeps P (book_ask f)" "op_keeps P book_assertReady" "op_keeps P (requireBudgetableSubject i)"
    "op_keeps P (requireBudget sub)" "op_keeps P (assertBudgetRevision b n)"
    "op_keeps P (budgetResult mid operation i b ch)" "op_keeps P (replayBudget mid operation request)"
    "op_keeps P (notifyBudgetUpdate i b)" "op_keeps P (persistBudgetReceipt env res request None)"
  by (rule quiet_keeps [OF assms], rule book_quiet)+

lemma enforcer_keeps_persist:
  assumes "budgets_only P" "\<And>s. P s \<Longrightarrow> P (s\<lparr>bb_subjects := js_set (mr_subjectId res) sub (bb_subjects s)\<rparr>)"
  shows "op_keeps P (persistBudgetReceipt env res request (Some sub))"
proof -
  have "P (s\<lparr>bb_subjects := js_set (mr_subjectId res) sub (bb_subjects s), bb_receipts := r\<rparr>)" if "P s" for s r
  proof -
    have "P (s\<lparr>bb_subjects := js_set (mr_subjectId res) sub (bb_subjects s), bb_receipts := r\<rparr>)
        = P (s\<lparr>bb_subjects := js_set (mr_subjectId res) sub (bb_subjects s)\<rparr>)"
      using assms(1) by (simp add: budgets_only_def)
    with assms(2) [OF that] show ?thesis by simp
  qed
  then show ?thesis
    unfolding persistBudgetReceipt_def
    by (auto intro!: op_rules op_keeps_modify quiet_book_keeps assms(1))
qed

lemma keeps_changed:
  assumes "budgets_only P"
    and "\<And>j s. P s \<Longrightarrow> P (s\<lparr>bb_subjects := js_set j (sub\<lparr>sb_budget := Some b\<rparr>) (bb_subjects s)\<rparr>)"
  shows "op_keeps P (record_changed env mid operation i request sub b)"
  unfolding record_changed_def
  by (intro op_rules enforcer_keeps_persist [OF assms] quiet_book_keeps [OF assms(1)])

lemma keeps_unchanged: "budgets_only P \<Longrightarrow> op_keeps P (record_unchanged env mid operation i request b)"
  unfolding record_unchanged_def by (intro op_rules quiet_book_keeps)

lemma has_changed: "op_keeps (has_budget j) (record_changed env mid operation i request sub b)"
  by (rule keeps_changed [OF budgets_onlyI(1)]) (auto simp: has_budget_def getBudget_def js_simps)

lemma gate_changed: "hard_budget b \<Longrightarrow> op_keeps (gate_closed j) (record_changed env mid operation i request sub b)"
  by (rule keeps_changed [OF budgets_onlyI(2)]) (auto simp: gate_closed_iff getBudget_def js_simps)

lemma with_replay_keeps:
  "budgets_only P \<Longrightarrow> op_keeps P work \<Longrightarrow> op_keeps P (with_replay mid operation request work)"
  unfolding with_replay_def by (auto intro!: op_rules quiet_book_keeps split: option.split)

lemma has_observe_work: "op_keeps (has_budget j) (observe_work env mid i m p request)"
  unfolding observe_work_def Let_def
  by (intro op_rules quiet_book_keeps budgets_onlyI)
     (auto intro!: op_rules has_changed keeps_unchanged quiet_book_keeps budgets_onlyI)

lemma has_advance_work: "op_keeps (has_budget j) (advance_work env mid i n target request)"
  unfolding advance_work_def advance_current_def
  by (intro op_rules quiet_book_keeps budgets_onlyI)
     (auto intro!: op_rules has_changed keeps_unchanged quiet_book_keeps budgets_onlyI split: option.split)

lemma has_observe: "op_keeps (has_budget j) (observeBudget env mid i m p reason)"
  unfolding observeBudget_def Let_def
  by (intro op_rules quiet_book_keeps budgets_onlyI)
     (auto intro!: op_rules with_replay_keeps has_observe_work budgets_onlyI split: option.split)

lemma has_advance: "op_keeps (has_budget j) (advanceBudgetEnforcement env mid i n target reason)"
  unfolding advanceBudgetEnforcement_def Let_def
  by (intro op_rules quiet_book_keeps budgets_onlyI)
     (auto intro!: op_rules with_replay_keeps has_advance_work budgets_onlyI)

lemma closed_subject:
  "op_triple (gate_closed i) (requireBudgetableSubject i)
     (\<lambda>sub s. gate_closed i s \<and> (\<exists>b. sb_budget sub = Some b \<and> hard_budget b)) (gate_closed i)"
  unfolding requireBudgetableSubject_def op_triple_def
  by (auto simp: op_return_def op_throw_def gate_closed_iff getBudget_def split: option.split)

lemma gate_advance_current:
  assumes "hard_budget b"
  shows "op_keeps (gate_closed i) (advance_current env mid i target request sub b)"
proof -
  have hard: "hard_budget (b\<lparr>br_enforcement := advanced_enforcement target r reached now, br_updatedAt := u\<rparr>)"
    if "workerBudgetEnforcementTransitionAllowed (enforcement_state_of (br_enforcement b)) (advance_state target)"
    for r reached now u
    using that assms by (cases target)
      (auto simp: hard_budget_def workerBudgetEnforcementTransitionAllowed_def advanced_enforcement_def)
  then show ?thesis
    unfolding advance_current_def
    by (auto intro!: op_rules gate_changed keeps_unchanged quiet_book_keeps budgets_onlyI split: option.split)
qed

lemma gate_advance_work: "op_keeps (gate_closed i) (advance_work env mid i n target request)"
  unfolding advance_work_def
proof (rule triple_keeps, rule op_triple_bind [OF closed_subject], rule op_triple_given)
  fix sub :: budget_subject
  assume "\<exists>b. sb_budget sub = Some b \<and> hard_budget b"
  then obtain b where b: "sb_budget sub = Some b" "hard_budget b" by blast
  have "op_keeps (gate_closed i)
      (op_then (assertBudgetRevision b n) (advance_current env mid i target request sub b))"
    by (intro op_rules quiet_book_keeps budgets_onlyI gate_advance_current b)
  then show "op_triple (\<lambda>s. gate_closed i s \<and> (\<exists>b. sb_budget sub = Some b \<and> hard_budget b))
      (op_bind (requireBudget sub) (\<lambda>current.
         op_then (assertBudgetRevision current n) (advance_current env mid i target request sub current)))
      (\<lambda>_. gate_closed i) (gate_closed i)"
    by (intro op_triple_weaken [OF keeps_triple]) (auto simp: requireBudget_def b op_keeps_def)
qed auto

lemma gate_advance: "op_keeps (gate_closed i) (advanceBudgetEnforcement env mid i n target reason)"
  unfolding advanceBudgetEnforcement_def Let_def
  by (intro op_rules quiet_book_keeps budgets_onlyI)
     (auto intro!: op_rules with_replay_keeps gate_advance_work budgets_onlyI)

subsection \<open>A refresh\<close>

definition before_stop :: "ident \<Rightarrow> ident list \<Rightarrow> budget_enforcer \<Rightarrow> bool" where
  "before_stop i X s = (book_ok (en_book s) \<and> has_budget i (en_book s) \<and> en_stopped s = X)"

text \<open>The worker was not stopped, or it was stopped once and its gate is closed.\<close>

definition after_stop :: "ident \<Rightarrow> ident list \<Rightarrow> budget_enforcer \<Rightarrow> bool" where
  "after_stop i X s =
     (before_stop i X s \<or> (before_stop i (X @ [i]) s \<and> gate_closed i (en_book s)))"

lemma before_after: "before_stop i X s \<Longrightarrow> after_stop i X s"
  by (simp add: after_stop_def)

lemma en_ask_triple:
  assumes "\<And>s n. P s \<Longrightarrow> P (s\<lparr>en_tick := n\<rparr>)"
  shows "op_triple P (en_ask f) (\<lambda>_. P) E"
  by (simp add: op_triple_def en_ask_def assms)

lemma stop_frames [simp]:
  "before_stop i X (s\<lparr>en_tick := n\<rparr>) = before_stop i X s" "after_stop i X (s\<lparr>en_tick := n\<rparr>) = after_stop i X s"
  "before_stop i X (s\<lparr>en_queue := q\<rparr>) = before_stop i X s"
  "before_stop i X (s\<lparr>en_lastCheckedAt := l\<rparr>) = before_stop i X s"
  by (simp_all add: before_stop_def after_stop_def)

lemma on_queue_triple: "op_triple (before_stop i X) (on_queue m) (\<lambda>_. before_stop i X) (before_stop i X)"
  by (auto simp: op_triple_def on_queue_def split: prod.split sum.split)

lemma on_book_triple:
  assumes "op_keeps P m"
  shows "op_triple (\<lambda>s. P (en_book s) \<and> en_stopped s = X) (on_book m)
    (\<lambda>_ s. P (en_book s) \<and> en_stopped s = X) (\<lambda>s. P (en_book s) \<and> en_stopped s = X)"
  unfolding op_triple_def on_book_def
  using op_keepsD [OF assms] by (auto split: prod.split sum.split) (metis snd_conv)+

lemma keeps_conj: "op_keeps P m \<Longrightarrow> op_keeps Q m \<Longrightarrow> op_keeps (\<lambda>s. P s \<and> Q s) m"
  by (simp add: op_keeps_def)

lemma on_book_before:
  assumes "op_keeps book_ok m" "op_keeps (has_budget i) m"
  shows "op_triple (before_stop i X) (on_book m) (\<lambda>_. before_stop i X) (before_stop i X)"
  by (rule op_triple_weaken [OF on_book_triple [OF keeps_conj [OF assms], of X]])
     (auto simp: before_stop_def)

lemma on_book_closed:
  assumes "op_keeps book_ok m" "op_keeps (has_budget i) m" "op_keeps (gate_closed i) m"
  shows "op_triple (\<lambda>s. before_stop i X s \<and> gate_closed i (en_book s)) (on_book m)
    (\<lambda>_ s. before_stop i X s \<and> gate_closed i (en_book s)) (\<lambda>s. before_stop i X s \<and> gate_closed i (en_book s))"
  by (rule op_triple_weaken [OF on_book_triple [OF keeps_conj [OF keeps_conj [OF assms(1,2)] assms(3)], of X]])
     (auto simp: before_stop_def)

lemma stop_triple:
  "op_triple (\<lambda>s. before_stop i X s \<and> gate_closed i (en_book s)) (en_stop env i)
     (\<lambda>_ s. before_stop i (X @ [i]) s \<and> gate_closed i (en_book s))
     (\<lambda>s. before_stop i (X @ [i]) s \<and> gate_closed i (en_book s))"
  unfolding en_stop_def op_triple_def by (auto simp: before_stop_def en_ask_def op_defs split: if_splits)

lemma enforcePending_triple:
  "op_triple (\<lambda>s. before_stop i X s \<and> getBudget (en_book s) i = Some b) (enforcePending env i record b)
     (\<lambda>_. after_stop i X) (after_stop i X)"
proof -
  let ?pre = "\<lambda>s. before_stop i X s \<and> getBudget (en_book s) i = Some b"
  have ask: "op_triple ?pre (en_ask f) (\<lambda>_. ?pre) E" for f :: "nat \<Rightarrow> bool" and E
    by (rule en_ask_triple) simp
  have stay: "op_triple ?pre (op_return ()) (\<lambda>_. after_stop i X) (after_stop i X)"
    by (rule op_triple_return) (simp add: before_after)
  have soft: "op_triple ?pre
      (op_bind (on_queue q) (\<lambda>_. op_bind (on_book (advanceBudgetEnforcement e m i n t r)) (\<lambda>_. op_return ())))
      (\<lambda>_. after_stop i X) (after_stop i X)" for q :: "instruction_record queue_op" and e m n t r
    by (rule op_triple_weaken [OF op_triple_bind [OF on_queue_triple op_triple_bind [OF
          on_book_before [OF advance_keeps has_advance] op_triple_return]]])
       (auto intro: before_after)
  have hard: "op_triple ?pre
      (op_then (en_stop env i) (op_bind (on_book (advanceBudgetEnforcement e m i n t r)) (\<lambda>_. op_return ())))
      (\<lambda>_. after_stop i X) (after_stop i X)"
    if "enforcement_state_of (br_enforcement b) = StHardReached" for e m n t r
  proof -
    have "op_triple (\<lambda>s. before_stop i X s \<and> gate_closed i (en_book s))
        (op_then (en_stop env i) (op_bind (on_book (advanceBudgetEnforcement e m i n t r)) (\<lambda>_. op_return ())))
        (\<lambda>_ s. before_stop i (X @ [i]) s \<and> gate_closed i (en_book s))
        (\<lambda>s. before_stop i (X @ [i]) s \<and> gate_closed i (en_book s))"
      by (rule op_triple_then [OF stop_triple], rule op_triple_bind [OF on_book_closed
            [OF advance_keeps has_advance gate_advance]], rule op_triple_return)
    then show ?thesis
      by (rule op_triple_weaken) (use that in \<open>auto simp: gate_closed_iff hard_budget_def after_stop_def\<close>)
  qed
  show ?thesis
    unfolding enforcePending_def
    by (auto intro!: stay op_triple_bind [OF ask] soft hard)
qed

lemma current_budget_triple:
  assumes "\<And>s. P s \<Longrightarrow> has_budget i (en_book s)"
  shows "op_triple P (current_budget i fallback) (\<lambda>b s. P s \<and> getBudget (en_book s) i = Some b) E"
  unfolding current_budget_def op_triple_def op_gets_def
  by (auto simp: has_budget_def dest!: assms split: option.split)

lemma observe_triple: "op_triple (before_stop i X) (en_observe env i record b) (\<lambda>_. before_stop i X) E"
proof -
  have ask: "op_triple (before_stop i X) (en_ask f) (\<lambda>_. before_stop i X) E" for f :: "nat \<Rightarrow> 'x"
    by (rule en_ask_triple) simp
  show ?thesis
    unfolding en_observe_def Let_def
    by (intro op_triple_bind [OF en_ask_triple]) (auto intro: op_triple_return)
qed

lemma observe_and_enforce_triple:
  "op_triple (before_stop i X) (observe_and_enforce env i record b) (\<lambda>_. after_stop i X) (after_stop i X)"
proof -
  have work: "op_triple (before_stop i X)
      (op_bind (on_book (observeBudget e m i x p r)) (\<lambda>result.
         op_bind (current_budget i (mr_budget result)) (enforcePending env i record)))
      (\<lambda>_. after_stop i X) (after_stop i X)" for e m x p r
  proof (rule op_triple_bind)
    show "op_triple (before_stop i X) (on_book (observeBudget e m i x p r)) (\<lambda>_. before_stop i X) (after_stop i X)"
      by (rule op_triple_weaken [OF on_book_before [OF observe_keeps has_observe]]) (auto intro: before_after)
    show "op_triple (before_stop i X) (op_bind (current_budget i (mr_budget result)) (enforcePending env i record))
        (\<lambda>_. after_stop i X) (after_stop i X)" for result
      by (rule op_triple_bind [OF current_budget_triple enforcePending_triple]) (simp add: before_stop_def)
  qed
  show ?thesis
    unfolding observe_and_enforce_def
    by (rule op_triple_bind [OF observe_triple])
       (auto intro!: work op_triple_return before_after split: option.split)
qed

text \<open>What a refresh leaves: a consistent book, and a stop only of a worker whose gate is closed.\<close>

definition refreshed :: "ident \<Rightarrow> ident list \<Rightarrow> budget_enforcer \<Rightarrow> bool" where
  "refreshed i X s =
     (book_ok (en_book s) \<and> (en_stopped s = X \<or> (en_stopped s = X @ [i] \<and> gate_closed i (en_book s))))"

lemma after_refreshed: "after_stop i X s \<Longrightarrow> refreshed i X s"
  by (auto simp: after_stop_def before_stop_def refreshed_def)

lemma second_half:
  "op_triple (after_stop i X)
     (op_bind (current_budget i b0) (\<lambda>b. op_bind (en_ask f) (\<lambda>terminal.
        if terminal \<or> enforcement_state_of (br_enforcement b) \<in> {StHardReached, StHardStopRequested}
        then op_return () else observe_and_enforce env i record b)))
     (\<lambda>_. after_stop i X) (after_stop i X)"
proof (rule op_triple_bind [OF current_budget_triple])
  fix s
  assume "after_stop i X s"
  then show "has_budget i (en_book s)" by (auto simp: after_stop_def before_stop_def)
next
  fix b
  let ?P = "\<lambda>s. after_stop i X s \<and> getBudget (en_book s) i = Some b"
  show "op_triple ?P (op_bind (en_ask f) (\<lambda>terminal.
      if terminal \<or> enforcement_state_of (br_enforcement b) \<in> {StHardReached, StHardStopRequested}
      then op_return () else observe_and_enforce env i record b)) (\<lambda>_. after_stop i X) (after_stop i X)"
  proof (rule op_triple_bind [OF en_ask_triple])
    fix terminal
    have "before_stop i X s" if "?P s" "\<not> hard_budget b" for s
      using that by (auto simp: after_stop_def gate_closed_iff)
    then have "op_triple ?P (observe_and_enforce env i record b) (\<lambda>_. after_stop i X) (after_stop i X)"
      if "\<not> hard_budget b"
      by (rule op_triple_weaken [OF observe_and_enforce_triple]) (use that in auto)
    then show "op_triple ?P
        (if terminal \<or> enforcement_state_of (br_enforcement b) \<in> {StHardReached, StHardStopRequested}
         then op_return () else observe_and_enforce env i record b) (\<lambda>_. after_stop i X) (after_stop i X)"
      by (auto intro!: op_triple_return simp: hard_budget_def)
  qed simp
qed

lemma refresh_budgeted:
  "op_triple (\<lambda>s. before_stop i X s \<and> getBudget (en_book s) i = Some b0) (refresh_found env i (Some b0))
     (\<lambda>_. after_stop i X) (after_stop i X)"
proof -
  have "op_triple (\<lambda>s. before_stop i X s \<and> getBudget (en_book s) i = Some b0) (refresh_session env i b0 session)
      (\<lambda>_. after_stop i X) (after_stop i X)" for session
  proof (cases session)
    case None
    then show ?thesis by (auto simp: refresh_session_def intro: op_triple_return before_after)
  next
    case (Some r)
    show ?thesis
      unfolding Some refresh_session_def option.case by (rule op_triple_then [OF enforcePending_triple second_half])
  qed
  then show ?thesis
    unfolding refresh_found_def option.case by (rule op_triple_bind [OF en_ask_triple, rotated]) simp
qed

lemma refresh_found_triple:
  "op_triple (\<lambda>s. book_ok (en_book s) \<and> en_stopped s = X \<and> getBudget (en_book s) i = found) (refresh_found env i found)
     (\<lambda>_. refreshed i X) (refreshed i X)"
proof (cases found)
  case None
  then show ?thesis by (auto simp: refresh_found_def refreshed_def intro: op_triple_return)
next
  case (Some b0)
  show ?thesis
    unfolding Some
    by (rule op_triple_weaken [OF refresh_budgeted])
       (auto simp: before_stop_def has_budget_def intro: after_refreshed)
qed

lemma refresh_triple:
  "op_triple (\<lambda>s. book_ok (en_book s) \<and> en_stopped s = X) (refreshWorker env i)
     (\<lambda>_. refreshed i X) (refreshed i X)"
proof -
  let ?P = "\<lambda>s. book_ok (en_book s) \<and> en_stopped s = X"
  have "op_triple ?P (op_bind (op_gets (\<lambda>s. getBudget (en_book s) i)) (refresh_found env i))
      (\<lambda>_. refreshed i X) (refreshed i X)"
    by (rule op_triple_bind [OF op_triple_gets refresh_found_triple]) simp
  then have "op_triple ?P (op_then (op_modify (\<lambda>s. s\<lparr>en_lastCheckedAt := js_set i now (en_lastCheckedAt s)\<rparr>))
      (op_bind (op_gets (\<lambda>s. getBudget (en_book s) i)) (refresh_found env i)))
      (\<lambda>_. refreshed i X) (refreshed i X)" for now
    by (rule op_triple_then [OF op_triple_modify, rotated]) simp
  then show ?thesis
    unfolding refreshWorker_def by (rule op_triple_bind [OF en_ask_triple, rotated]) simp
qed

lemma refresh_each_kept:
  "book_ok (en_book s) \<Longrightarrow> refresh_each env is s = (res, t) \<Longrightarrow> book_ok (en_book t)"
proof (induction "is" arbitrary: s res)
  case (Cons i "is")
  obtain r u where r: "refreshWorker env i s = (r, u)" by fastforce
  have "refreshed i (en_stopped s) u"
    using op_triple_snd [OF refresh_triple [of "en_stopped s" env i], of s] Cons.prems(1) r by simp
  then show ?case
    using Cons.IH [of u] Cons.prems(2) by (auto simp: r refreshed_def split: prod.splits)
qed simp

subsection \<open>The properties\<close>


definition demo_enforcer_env :: enforcer_env where
  "demo_enforcer_env =
     \<lparr>ee_book = demo_book_env,
      ee_queue = \<lparr>qe_isUuid = (\<lambda>_. True), qe_uuid = (\<lambda>n. replicate n (CHR ''u'')), qe_clock = int,
        qe_session = (\<lambda>_ _. None), qe_grant = (\<lambda>_ _. None), qe_submit = (\<lambda>_ _. Inl (CodedFault None)),
        qe_writeOk = (\<lambda>_. True), qe_hasWakeAdmission = False\<rparr>,
      ee_clock = int, ee_session = (\<lambda>_ _. Some \<lparr>es_createdAt = 0, es_parentSessionId = None\<rparr>),
      ee_terminal = (\<lambda>_ _. False), ee_runtime = (\<lambda>_ _. \<lparr>ro_generation = 1, ro_tokenCount = Some 150\<rparr>),
      ee_telemetry = (\<lambda>_ _ _. \<lparr>tm_totalTokens = None, tm_tokenObservedAt = None, tm_providerUsage = None\<rparr>),
      ee_stopOk = (\<lambda>_ _. True), ee_fingerprint = (\<lambda>_ _. ''f''), ee_softMessageId = (\<lambda>i _. i),
      ee_intervalMs = enforcer_interval None,
      ee_telemetryStaleMs = enforcer_telemetry_stale (enforcer_interval None) None\<rparr>"

definition demo_enforcer :: budget_enforcer where
  "demo_enforcer =
     \<lparr>en_book = fold (book_step demo_book_env) (take 1 demo_budget_calls) demo_book,
      en_queue = \<lparr>iq_store = [], iq_tick = 0, iq_calls = [], iq_subscribed = True\<rparr>,
      en_stopped = [], en_lastCheckedAt = [], en_tick = 0\<rparr>"


text \<open>Tokens spent before a resume still count: a new generation starts at what was accumulated.\<close>

lemma resume_keeps_tokens:
  assumes "km_generation k \<noteq> Some (ro_generation runtime)" "tm_totalTokens telemetry = Some spent" "0 \<le> spent"
  shows "\<exists>m. token_measurement env (MeasureKnown k) runtime telemetry now = Some (MeasureKnown m)
    \<and> km_amount m = km_amount k + spent"
  using assms by (simp add: token_measurement_def token_baseline_def prior_amount_def Let_def)

end
