(* ===== verification/Coordination_Journal.thy ===== *)
theory Coordination_Journal
  imports Worker_Budget
begin

text \<open>
  The records of \<^verbatim>\<open>src/src/domain/worker-coordination.ts\<close> and
  \<^verbatim>\<open>src/src/domain/worker-handoff.ts\<close>, and the transaction journal of
  \<^verbatim>\<open>src/src/persistence/worker-coordination-store.ts\<close>: one line per transaction, a replay that
  keeps the latest snapshot of every key in the order of first writes, and a checkpoint that drops
  the snapshots between the first and the last of a key. The main theorem says that a checkpoint
  is lossless: the compacted journal replays to the same state, order included.

  The text of a line is abstract: a line is a transaction, or unreadable, or of a foreign schema
  version. Free-text messages and the facts of an event are strings.
\<close>

subsection \<open>Controllers, leases and subjects\<close>

datatype controller_scope = ScopeFleet ident | ScopeWorktree ident string | ScopeFamily ident

record controller_identity =
  ci_controllerId :: ident
  ci_familyId :: ident
  ci_scope :: controller_scope

datatype worker_lifecycle = LcQueued | LcLaunching | LcWorking | LcWaiting | LcDone | LcFailed | LcStopped

definition terminal_lifecycle :: "worker_lifecycle \<Rightarrow> bool" where
  "terminal_lifecycle l = (l \<in> set [LcDone, LcFailed, LcStopped])"

datatype controller_lease_state = ClActive | ClExpired | ClReleased | ClOrphaned | ClContested

record worker_origin =
  wo_creatorControllerId :: ident
  wo_creatorSessionId :: "ident option"
  wo_taskId :: ident
  wo_waveId :: "ident option"
  wo_threadId :: ident
  wo_createdAt :: instant

record resource_refs =
  rr_sessionId :: "ident option"
  rr_worktreePath :: "string option"
  rr_taskPayloadRef :: "string option"
  rr_transcriptRef :: "string option"
  rr_resultStateRef :: "string option"
  rr_eventStreamId :: ident

record lease_contest =
  lc_actor :: controller_identity
  lc_contestedAt :: instant
  lc_reason :: string

record controller_lease =
  cl_leaseId :: ident
  cl_version :: nat
  cl_state :: controller_lease_state
  cl_controller :: "controller_identity option"
  cl_tokenHash :: "string option"
  cl_issuedAt :: instant
  cl_renewedAt :: instant
  cl_expiresAt :: instant
  cl_orphanedAt :: "instant option"
  cl_releasedAt :: "instant option"
  cl_reason :: "string option"
  cl_contest :: "lease_contest option"

datatype decision_gate = GateOpen | GatePaused ident instant

record ownership_subject =
  ow_subjectId :: ident
  ow_isWorker :: bool
  ow_origin :: worker_origin
  ow_lifecycle :: worker_lifecycle
  ow_resources :: resource_refs
  ow_budget :: "budget_record option"
  ow_lease :: controller_lease
  ow_decisionGate :: decision_gate
  ow_updatedAt :: instant

record controller_liveness =
  lv_controller :: controller_identity
  lv_connected :: bool
  lv_observedAt :: instant
  lv_reason :: string
  lv_session :: "(ident \<times> nat) option"

subsection \<open>Outcomes, audits, handoffs and receipts\<close>

datatype outcome_code =
    OcAcquired | OcAlreadyControlled | OcLeaseConflict | OcOrphaned | OcNotEligible | OcWorkerTerminal
  | OcOwnershipLost | OcReleased | OcTransferred

record ownership_outcome =
  oo_subjectId :: ident
  oo_code :: outcome_code
  oo_leaseVersion :: nat
  oo_leaseToken :: "string option"
  oo_currentController :: "controller_identity option"
  oo_leaseExpiresAt :: instant

datatype ownership_operation =
    OwRegister | OwAcquire | OwRenew | OwRelease | OwTransfer | OwAdopt | OwHandoff | OwExpire | OwLifecycle
  | OwLiveness | OwEventSubmit | OwEventResolve | OwCheckpointRequest | OwAnswerModal | OwBudgetDeclare
  | OwBudgetObserve | OwBudgetAdjust | OwBudgetEnforce

text \<open>The outcome of an audit is an outcome code or one of a few fixed words.\<close>

datatype audit_outcome = AuditCode outcome_code | AuditNote string

record ownership_audit =
  oa_auditId :: ident
  oa_mutationId :: ident
  oa_operation :: ownership_operation
  oa_subjectId :: ident
  oa_actor :: controller_identity
  oa_occurredAt :: instant
  oa_priorController :: "controller_identity option"
  oa_newController :: "controller_identity option"
  oa_priorLeaseState :: "controller_lease_state option"
  oa_newLeaseState :: "controller_lease_state option"
  oa_reason :: string
  oa_outcome :: audit_outcome

record handoff_entry =
  he_workerId :: ident
  he_taskId :: ident
  he_waveId :: "ident option"
  he_name :: "string option"
  he_worktreePath :: "string option"
  he_lifecycle :: worker_lifecycle
  he_priorControllerId :: "ident option"

datatype handoff_state = HandoffPending | HandoffAcknowledged | HandoffConsumed

record worker_handoff =
  wh_handoffId :: ident
  wh_recipient :: controller_identity
  wh_recipientSessionId :: ident
  wh_issuedBy :: controller_identity
  wh_directive :: string
  wh_manifest :: "handoff_entry list"
  wh_issuedAt :: instant
  wh_state :: handoff_state
  wh_acknowledgedAt :: "instant option"

text \<open>
  A result of a lease call. The two batch calls add whether they committed, and the directed handoff
  also the record it wrote.
\<close>

record ownership_result =
  or_mutationId :: ident
  or_operation :: ownership_operation
  or_idempotentReplay :: bool
  or_outcomes :: "ownership_outcome list"
  or_committed :: "bool option"
  or_handoff :: "worker_handoff option"

subsection \<open>Worker events and checkpoint requests\<close>

datatype event_kind = EvException | EvProgress | EvCheckpoint | EvRisk | EvDecisionRequest

datatype event_severity = SevInfo | SevWarning | SevError | SevCritical

datatype event_continuation = Continuing | ContBlocked | ContPaused | AwaitingResponse

datatype event_state = EventActive | EventSuperseded | EventAcknowledged | EventAnswered | EventClosed

datatype fact_scalar = FactText string | FactNumber rat | FactFlag bool | FactNull

datatype fact_value = FactScalar fact_scalar | FactList "fact_scalar list"

record worker_event =
  se_eventId :: ident
  se_sequence :: nat
  se_workerId :: ident
  se_taskId :: ident
  se_waveId :: "ident option"
  se_controllerLeaseVersion :: nat
  se_kind :: event_kind
  se_severity :: event_severity
  se_interventionRequired :: bool
  se_summary :: string
  se_structuredFacts :: "(string \<times> fact_value) list option"
  se_evidenceRefs :: "string list"
  se_changedAssumptions :: "string list"
  se_recommendedAction :: "string option"
  se_continuation :: event_continuation
  se_checkpointCorrelationId :: "ident option"
  se_timestamp :: instant

record stored_event = worker_event +
  se_ordinal :: nat
  se_receivedAt :: instant
  se_submissionHash :: string
  se_state :: event_state
  se_supersededBy :: "ident option"
  se_resolvedAt :: "instant option"
  se_resolvedBy :: "controller_identity option"

datatype checkpoint_state = CheckpointPending | CheckpointAnswered | CheckpointClosed

record checkpoint_request =
  ck_correlationId :: ident
  ck_workerId :: ident
  ck_requestHash :: "string option"
  ck_controllerLeaseVersion :: nat
  ck_requestedBy :: controller_identity
  ck_focus :: "string option"
  ck_question :: "string option"
  ck_decisionGate :: bool
  ck_state :: checkpoint_state
  ck_requestedAt :: instant
  ck_answeredByEventId :: "ident option"
  ck_answeredAt :: "instant option"

datatype ack_code = AckAccepted | AckRejected | AckDuplicate | AckSuperseded

datatype auth_refusal = AuthOwnershipLost | AuthTokenInvalid | AuthLeaseExpired

datatype ack_error =
    InvalidEvent | PayloadLimitExceeded | FieldLimitExceeded | EventIdCollision | AckSubjectNotFound
  | TaskIdentityMismatch | AckRefused auth_refusal | RateLimited | SequenceOutOfOrder | QueueLimitExceeded
  | CheckpointCorrelationInvalid

record event_ack =
  ea_code :: ack_code
  ea_eventId :: ident
  ea_sequence :: "nat option"
  ea_expectedSequence :: "nat option"
  ea_sequenceGap :: "(nat \<times> nat) option"
  ea_supersededEventIds :: "(ident list) option"
  ea_errorCode :: "ack_error option"

text \<open>What a receipt keeps of its mutation; the budget calls keep results of their own.\<close>

datatype receipt_result =
    OwnershipReceipt ownership_result | AckReceipt event_ack | CheckpointReceipt checkpoint_request | OtherReceipt string

record coordination_receipt =
  rt_mutationId :: ident
  rt_operation :: ownership_operation
  rt_recordedAt :: instant
  rt_requestHash :: "string option"
  rt_result :: receipt_result

subsection \<open>Transactions and their replay\<close>

record coordination_transaction =
  tx_id :: ident
  tx_subjects :: "ownership_subject list"
  tx_events :: "stored_event list"
  tx_checkpoints :: "checkpoint_request list"
  tx_audits :: "ownership_audit list"
  tx_liveness :: "controller_liveness list"
  tx_handoffs :: "worker_handoff list"
  tx_receipts :: "coordination_receipt list"

definition no_changes :: coordination_transaction where
  "no_changes = \<lparr>tx_id = [], tx_subjects = [], tx_events = [], tx_checkpoints = [], tx_audits = [],
     tx_liveness = [], tx_handoffs = [], tx_receipts = []\<rparr>"

text \<open>The key of a checkpoint request joins the worker and the correlation with a NUL character.\<close>

definition checkpointKey :: "ident \<Rightarrow> ident \<Rightarrow> string" where
  "checkpointKey workerId correlationId = workerId @ [CHR 0x00] @ correlationId"

definition checkpoint_key :: "checkpoint_request \<Rightarrow> string" where
  "checkpoint_key c = checkpointKey (ck_workerId c) (ck_correlationId c)"

definition liveness_key :: "controller_liveness \<Rightarrow> ident" where
  "liveness_key l = ci_controllerId (lv_controller l)"

record coordination_state =
  cs_subjects :: "(ident, ownership_subject) js_map"
  cs_events :: "(ident, stored_event) js_map"
  cs_checkpoints :: "(string, checkpoint_request) js_map"
  cs_audits :: "ownership_audit list"
  cs_liveness :: "(ident, controller_liveness) js_map"
  cs_handoffs :: "(ident, worker_handoff) js_map"
  cs_receipts :: "(ident, coordination_receipt) js_map"

definition empty_state :: coordination_state where
  "empty_state = \<lparr>cs_subjects = [], cs_events = [], cs_checkpoints = [], cs_audits = [], cs_liveness = [],
     cs_handoffs = [], cs_receipts = []\<rparr>"

text \<open>\<^verbatim>\<open>for (const entry of entries) map.set(key(entry), entry)\<close>\<close>

definition set_all :: "('v \<Rightarrow> 'k) \<Rightarrow> 'v list \<Rightarrow> ('k, 'v) js_map \<Rightarrow> ('k, 'v) js_map" where
  "set_all key vs m = fold (\<lambda>v. js_set (key v) v) vs m"

definition apply_transaction :: "coordination_transaction \<Rightarrow> coordination_state \<Rightarrow> coordination_state" where
  "apply_transaction tx s =
     \<lparr>cs_subjects = set_all ow_subjectId (tx_subjects tx) (cs_subjects s),
      cs_events = set_all se_eventId (tx_events tx) (cs_events s),
      cs_checkpoints = set_all checkpoint_key (tx_checkpoints tx) (cs_checkpoints s),
      cs_audits = cs_audits s @ tx_audits tx,
      cs_liveness = set_all liveness_key (tx_liveness tx) (cs_liveness s),
      cs_handoffs = set_all wh_handoffId (tx_handoffs tx) (cs_handoffs s),
      cs_receipts = set_all rt_mutationId (tx_receipts tx) (cs_receipts s)\<rparr>"

datatype journal_line = UnreadableLine | ForeignVersionLine | TransactionLine coordination_transaction

datatype journal_error = JournalCorrupt | JournalVersionUnsupported | DuplicateTransactionId

text \<open>\<^verbatim>\<open>parseCoordinationLine\<close> with the ids seen so far.\<close>

definition parseCoordinationLine ::
  "ident list \<Rightarrow> journal_line \<Rightarrow> journal_error + coordination_transaction" where
  "parseCoordinationLine seen line =
     (case line of
        UnreadableLine \<Rightarrow> Inl JournalCorrupt
      | ForeignVersionLine \<Rightarrow> Inl JournalVersionUnsupported
      | TransactionLine tx \<Rightarrow> if tx_id tx \<in> set seen then Inl DuplicateTransactionId else Inr tx)"

fun parse_lines :: "ident list \<Rightarrow> journal_line list \<Rightarrow> journal_error + coordination_transaction list" where
  "parse_lines seen [] = Inr []"
| "parse_lines seen (l # ls) =
     (case parseCoordinationLine seen l of
        Inl e \<Rightarrow> Inl e
      | Inr tx \<Rightarrow> (case parse_lines (tx_id tx # seen) ls of Inl e \<Rightarrow> Inl e | Inr txs \<Rightarrow> Inr (tx # txs)))"

definition replay_transactions :: "coordination_transaction list \<Rightarrow> coordination_state" where
  "replay_transactions txs = fold apply_transaction txs empty_state"

definition journal_replay :: "journal_line list \<Rightarrow> journal_error + coordination_state" where
  "journal_replay ls = (case parse_lines [] ls of Inl e \<Rightarrow> Inl e | Inr txs \<Rightarrow> Inr (replay_transactions txs))"

definition event_order :: "stored_event \<Rightarrow> stored_event \<Rightarrow> int" where
  "event_order l r = int (se_ordinal l) - int (se_ordinal r)"

text \<open>What \<^verbatim>\<open>load\<close> hands to the service: the values of the maps, events by ordinal.\<close>

definition sorted_events :: "coordination_state \<Rightarrow> stored_event list" where
  "sorted_events s = js_sort event_order (js_values (cs_events s))"

subsection \<open>The checkpoint\<close>

text \<open>For every key the first and the latest transaction that wrote it.\<close>

definition note_entry :: "ident \<Rightarrow> 'k \<Rightarrow> ('k, ident \<times> ident) js_map \<Rightarrow> ('k, ident \<times> ident) js_map" where
  "note_entry t k m = js_set k (case js_get m k of None \<Rightarrow> (t, t) | Some (f, _) \<Rightarrow> (f, t)) m"

definition note_all ::
  "('v \<Rightarrow> 'k) \<Rightarrow> (coordination_transaction \<Rightarrow> 'v list) \<Rightarrow> coordination_transaction list \<Rightarrow> ('k, ident \<times> ident) js_map" where
  "note_all key field txs = fold (\<lambda>tx. fold (\<lambda>v. note_entry (tx_id tx) (key v)) (field tx)) txs []"

definition retained :: "('k, ident \<times> ident) js_map \<Rightarrow> ident \<Rightarrow> 'k \<Rightarrow> bool" where
  "retained m t k = (case js_get m k of None \<Rightarrow> False | Some (f, l) \<Rightarrow> f = t \<or> l = t)"

definition retain_entries ::
  "('v \<Rightarrow> 'k) \<Rightarrow> (coordination_transaction \<Rightarrow> 'v list) \<Rightarrow> coordination_transaction list
     \<Rightarrow> coordination_transaction \<Rightarrow> 'v list" where
  "retain_entries key field txs tx = filter (\<lambda>v. retained (note_all key field txs) (tx_id tx) (key v)) (field tx)"

definition checkpoint_transaction ::
  "coordination_transaction list \<Rightarrow> coordination_transaction \<Rightarrow> coordination_transaction" where
  "checkpoint_transaction txs tx =
     tx\<lparr>tx_subjects := retain_entries ow_subjectId tx_subjects txs tx,
        tx_events := retain_entries se_eventId tx_events txs tx,
        tx_checkpoints := retain_entries checkpoint_key tx_checkpoints txs tx,
        tx_liveness := retain_entries liveness_key tx_liveness txs tx,
        tx_handoffs := retain_entries wh_handoffId tx_handoffs txs tx\<rparr>"

text \<open>A journal that cannot be read is left as it is; the error is reported.\<close>

definition journal_checkpoint :: "journal_line list \<Rightarrow> journal_error + journal_line list" where
  "journal_checkpoint ls =
     (case parse_lines [] ls of
        Inl e \<Rightarrow> Inl e
      | Inr txs \<Rightarrow> Inr (map (\<lambda>tx. TransactionLine (checkpoint_transaction txs tx)) txs))"

subsection \<open>Replaying one field\<close>

lemma alist_eqI: "js_keys m = js_keys m' \<Longrightarrow> js_wf m \<Longrightarrow> map_of m = map_of m' \<Longrightarrow> m = m'"
proof (induction m arbitrary: m')
  case Nil
  then show ?case by simp
next
  case (Cons p m)
  obtain k v where p: "p = (k, v)" by fastforce
  with Cons.prems(1) obtain w n where m': "m' = (k, w) # n" by (cases m') auto
  have all: "map_of (p # m) x = map_of m' x" for x using Cons.prems(3) by (rule fun_cong)
  from all [of k] have w: "w = v" by (simp add: p m')
  from Cons.prems have keys: "js_keys m = js_keys n" "js_wf m" "k \<notin> set (js_keys m)" by (auto simp: p m' js_wf_def)
  have "map_of m x = map_of n x" for x
  proof (cases "x = k")
    case True
    with keys have "x \<notin> set (js_keys m)" "x \<notin> set (js_keys n)" by simp_all
    then show ?thesis by (simp add: map_of_eq_None_iff [THEN iffD2])
  next
    case False
    with all [of x] show ?thesis by (simp add: p m')
  qed
  with Cons.IH keys have "m = n" by blast
  then show ?case by (simp add: p m' w)
qed

lemma set_all_Nil [simp]: "set_all key [] m = m"
  by (simp add: set_all_def)

lemma set_all_Cons [simp]: "set_all key (v # vs) m = set_all key vs (js_set (key v) v m)"
  by (simp add: set_all_def)

lemma set_all_wf [simp]: "js_wf m \<Longrightarrow> js_wf (set_all key vs m)"
  by (induction vs arbitrary: m) auto

lemma set_all_other: "k \<notin> key ` set vs \<Longrightarrow> js_get (set_all key vs m) k = js_get m k"
  by (induction vs arbitrary: m) (auto simp: js_simps)

lemma set_all_keys: "set (js_keys (set_all key vs m)) = set (js_keys m) \<union> key ` set vs"
proof (induction vs arbitrary: m)
  case (Cons v vs)
  have "set (js_keys (js_set (key v) v m)) = insert (key v) (set (js_keys m))"
    by (auto simp: js.keys_put simp del: set_map)
  with Cons show ?case by (auto simp del: set_map)
qed simp

text \<open>Entries whose key the map already has may be dropped as far as the order is concerned.\<close>

lemma set_all_filter_keys:
  "js_keys m' = js_keys m \<Longrightarrow> (\<And>v. v \<in> set vs \<Longrightarrow> \<not> P v \<Longrightarrow> key v \<in> set (js_keys m)) \<Longrightarrow>
     js_keys (set_all key (filter P vs) m') = js_keys (set_all key vs m)"
proof (induction vs arbitrary: m m')
  case Nil
  then show ?case by simp
next
  case (Cons v vs)
  show ?case
  proof (cases "P v")
    case True
    with Cons.prems have "js_keys (set_all key (filter P vs) (js_set (key v) v m'))
        = js_keys (set_all key vs (js_set (key v) v m))"
      by (intro Cons.IH) (auto simp: js.keys_put)
    with True show ?thesis by simp
  next
    case False
    with Cons.prems have "js_keys (set_all key (filter P vs) m') = js_keys (set_all key vs (js_set (key v) v m))"
      by (intro Cons.IH) (auto simp: js.keys_put)
    with False show ?thesis by simp
  qed
qed

text \<open>Entries of other keys may be dropped as far as one lookup is concerned.\<close>

lemma set_all_filter_get:
  "(k \<in> key ` set vs \<or> js_get m' k = js_get m k) \<Longrightarrow> (\<And>v. v \<in> set vs \<Longrightarrow> key v = k \<Longrightarrow> P v) \<Longrightarrow>
     js_get (set_all key (filter P vs) m') k = js_get (set_all key vs m) k"
proof (induction vs arbitrary: m m')
  case Nil
  then show ?case by simp
next
  case (Cons v vs)
  have keep: "P u" if "u \<in> set vs" "key u = k" for u using that Cons.prems(2) by simp
  show ?case
  proof (cases "P v")
    case True
    have "js_get (set_all key (filter P vs) (js_set (key v) v m')) k = js_get (set_all key vs (js_set (key v) v m)) k"
      using Cons.prems(1) keep by (intro Cons.IH) (auto simp: js.get_put)
    with True show ?thesis by simp
  next
    case False
    with Cons.prems(2) have "key v \<noteq> k" by auto
    then have "js_get (set_all key (filter P vs) m') k = js_get (set_all key vs (js_set (key v) v m)) k"
      using Cons.prems(1) keep by (intro Cons.IH) (auto simp: js.get_put)
    with False show ?thesis by simp
  qed
qed

definition replay_field ::
  "('v \<Rightarrow> 'k) \<Rightarrow> ('t \<Rightarrow> 'v list) \<Rightarrow> 't list \<Rightarrow> ('k, 'v) js_map \<Rightarrow> ('k, 'v) js_map" where
  "replay_field key field txs m = fold (\<lambda>tx. set_all key (field tx)) txs m"

lemma replay_field_simps [simp]:
  "replay_field key field [] m = m"
  "replay_field key field (tx # txs) m = replay_field key field txs (set_all key (field tx) m)"
  "replay_field key field (txs @ ts) m = replay_field key field ts (replay_field key field txs m)"
  by (simp_all add: replay_field_def)

lemma replay_field_wf: "js_wf m \<Longrightarrow> js_wf (replay_field key field txs m)"
  by (induction txs arbitrary: m) auto

lemma replay_field_other:
  "(\<And>tx. tx \<in> set txs \<Longrightarrow> k \<notin> key ` set (field tx)) \<Longrightarrow> js_get (replay_field key field txs m) k = js_get m k"
  by (induction txs arbitrary: m) (auto simp: set_all_other)

lemma replay_field_keys:
  "set (js_keys (replay_field key field txs m)) = set (js_keys m) \<union> (\<Union>tx\<in>set txs. key ` set (field tx))"
  by (induction txs arbitrary: m) (auto simp: set_all_keys simp del: set_map)

subsection \<open>First and last writers\<close>

definition noted ::
  "('v \<Rightarrow> 'k) \<Rightarrow> (coordination_transaction \<Rightarrow> 'v list) \<Rightarrow> coordination_transaction list
     \<Rightarrow> ('k, ident \<times> ident) js_map \<Rightarrow> ('k, ident \<times> ident) js_map" where
  "noted key field txs m = fold (\<lambda>tx. fold (\<lambda>v. note_entry (tx_id tx) (key v)) (field tx)) txs m"

lemma noted_simps [simp]:
  "noted key field [] m = m"
  "noted key field (tx # txs) m = noted key field txs (fold (\<lambda>v. note_entry (tx_id tx) (key v)) (field tx) m)"
  "noted key field (txs @ ts) m = noted key field ts (noted key field txs m)"
  by (simp_all add: noted_def)

lemma note_tx_get:
  "js_get (fold (\<lambda>v. note_entry t (key v)) vs m) k =
     (if k \<in> key ` set vs then Some (case js_get m k of None \<Rightarrow> t | Some (f, _) \<Rightarrow> f, t) else js_get m k)"
  by (induction vs arbitrary: m) (auto simp: note_entry_def js.get_put split: option.splits)

lemma noted_first_stable: "js_get m k = Some (f, l) \<Longrightarrow> \<exists>l'. js_get (noted key field txs m) k = Some (f, l')"
proof (induction txs arbitrary: m l)
  case (Cons tx txs)
  from Cons.prems have "\<exists>l'. js_get (fold (\<lambda>v. note_entry (tx_id tx) (key v)) (field tx) m) k = Some (f, l')"
    by (auto simp: note_tx_get)
  then obtain l' where "js_get (fold (\<lambda>v. note_entry (tx_id tx) (key v)) (field tx) m) k = Some (f, l')" ..
  then show ?case unfolding noted_simps by (rule Cons.IH)
qed simp

lemma noted_untouched:
  "(\<And>tx. tx \<in> set txs \<Longrightarrow> k \<notin> key ` set (field tx)) \<Longrightarrow> js_get (noted key field txs m) k = js_get m k"
  by (induction txs arbitrary: m) (auto simp: note_tx_get)

text \<open>A writer that is not the first has one before it; a writer with none after it is the last.\<close>

lemma not_first_earlier:
  assumes "k \<in> key ` set (field tx)" "js_get (noted key field (p @ tx # q) []) k = Some (f, l)" "f \<noteq> tx_id tx"
  shows "\<exists>u\<in>set p. k \<in> key ` set (field u)"
proof (rule ccontr)
  assume "\<not> ?thesis"
  then have "js_get (noted key field p []) k = None" by (subst noted_untouched) auto
  with assms(1) have "js_get (noted key field (p @ [tx]) []) k = Some (tx_id tx, tx_id tx)"
    by (simp add: note_tx_get)
  from noted_first_stable [OF this] have "\<exists>l'. js_get (noted key field (p @ tx # q) []) k = Some (tx_id tx, l')"
    by fastforce
  with assms(2,3) show False by auto
qed

lemma last_writer:
  assumes "k \<in> key ` set (field tx)" "\<And>u. u \<in> set q \<Longrightarrow> k \<notin> key ` set (field u)"
  shows "\<exists>f. js_get (noted key field (p @ tx # q) []) k = Some (f, tx_id tx)"
  using noted_untouched [of q k key field, OF assms(2)] assms(1) by (simp add: note_tx_get)

lemma note_all_noted: "note_all key field txs = noted key field txs []"
  by (simp add: note_all_def noted_def)

lemma retained_last:
  assumes "k \<in> key ` set (field tx)" "\<And>u. u \<in> set q \<Longrightarrow> k \<notin> key ` set (field u)"
  shows "retained (note_all key field (p @ tx # q)) (tx_id tx) k"
  using last_writer [of k key field tx q p, OF assms] by (auto simp: note_all_noted retained_def)

lemma dropped_earlier:
  assumes "v \<in> set (field tx)" "\<not> retained (note_all key field (p @ tx # q)) (tx_id tx) (key v)"
  shows "\<exists>u\<in>set p. key v \<in> key ` set (field u)"
proof -
  let ?n = "noted key field (p @ tx # q) []"
  have "js_get ?n (key v) \<noteq> None"
  proof -
    from assms(1) obtain w where "js_get (noted key field (p @ [tx]) []) (key v) = Some w"
      by (simp add: note_tx_get)
    moreover obtain a b where "w = (a, b)" by fastforce
    ultimately have "\<exists>l. js_get (noted key field q (noted key field (p @ [tx]) [])) (key v) = Some (a, l)"
      by (intro noted_first_stable) simp
    then show ?thesis by auto
  qed
  then obtain f l where fl: "js_get ?n (key v) = Some (f, l)" by auto
  with assms(2) have "f \<noteq> tx_id tx" by (auto simp: note_all_noted retained_def)
  with assms(1) fl show ?thesis by (intro not_first_earlier) auto
qed

subsection \<open>The checkpoint loses nothing\<close>

lemma compact_keys:
  "txs = p @ q \<Longrightarrow> js_keys (replay_field key (retain_entries key field txs) p [])
     = js_keys (replay_field key field p [])"
proof (induction p arbitrary: q rule: rev_induct)
  case Nil
  then show ?case by simp
next
  case (snoc tx p)
  then have txs: "txs = p @ tx # q" by simp
  then have IH: "js_keys (replay_field key (retain_entries key field txs) p []) = js_keys (replay_field key field p [])"
    by (rule snoc.IH)
  have "key v \<in> set (js_keys (replay_field key field p []))"
    if "v \<in> set (field tx)" "\<not> retained (note_all key field txs) (tx_id tx) (key v)" for v
    using dropped_earlier [OF that [unfolded txs]] by (simp add: replay_field_keys del: set_map)
  with IH have "js_keys (set_all key (retain_entries key field txs tx)
        (replay_field key (retain_entries key field txs) p []))
      = js_keys (set_all key (field tx) (replay_field key field p []))"
    unfolding retain_entries_def [of key field txs tx] by (rule set_all_filter_keys)
  then show ?case by simp
qed

lemma compact_get:
  "js_get (replay_field key (retain_entries key field txs) txs []) k = js_get (replay_field key field txs []) k"
proof (cases "\<exists>tx\<in>set txs. k \<in> key ` set (field tx)")
  case False
  then show ?thesis by (subst (1 2) replay_field_other) (auto simp: retain_entries_def)
next
  case True
  then obtain p tx q where txs: "txs = p @ tx # q" and tx: "k \<in> key ` set (field tx)"
    and q: "\<And>u. u \<in> set q \<Longrightarrow> k \<notin> key ` set (field u)"
    using split_list_last_prop [OF True] by blast
  have q': "\<And>u. u \<in> set q \<Longrightarrow> k \<notin> key ` set (retain_entries key field txs u)"
    using q by (auto simp: retain_entries_def)
  have "js_get (set_all key (retain_entries key field txs tx) m') k = js_get (set_all key (field tx) m) k" for m m'
    unfolding retain_entries_def
  proof (rule set_all_filter_get)
    show "retained (note_all key field txs) (tx_id tx) (key v)" if "v \<in> set (field tx)" "key v = k" for v
      using retained_last [of k key field tx q p] tx q that(2) by (simp add: txs)
  qed (use tx in simp)
  then show ?thesis
    using replay_field_other [of q k key "retain_entries key field txs"] q' replay_field_other [of q k key field] q
    by (simp add: txs)
qed

lemma compact_field: "replay_field key (retain_entries key field txs) txs [] = replay_field key field txs []"
proof (rule alist_eqI)
  show "js_keys (replay_field key (retain_entries key field txs) txs []) = js_keys (replay_field key field txs [])"
    by (rule compact_keys [of _ _ "[]"]) simp
qed (auto simp: replay_field_wf compact_get)

lemma fold_transactions:
  "fold apply_transaction txs s =
     \<lparr>cs_subjects = replay_field ow_subjectId tx_subjects txs (cs_subjects s),
      cs_events = replay_field se_eventId tx_events txs (cs_events s),
      cs_checkpoints = replay_field checkpoint_key tx_checkpoints txs (cs_checkpoints s),
      cs_audits = cs_audits s @ concat (map tx_audits txs),
      cs_liveness = replay_field liveness_key tx_liveness txs (cs_liveness s),
      cs_handoffs = replay_field wh_handoffId tx_handoffs txs (cs_handoffs s),
      cs_receipts = replay_field rt_mutationId tx_receipts txs (cs_receipts s)\<rparr>"
  by (induction txs arbitrary: s) (simp_all add: apply_transaction_def)

lemma replay_field_map:
  "replay_field key field (map f txs) m = replay_field key (\<lambda>tx. field (f tx)) txs m"
  by (induction txs arbitrary: m) auto

lemma compact_replay: "replay_transactions (map (checkpoint_transaction txs) txs) = replay_transactions txs"
  unfolding replay_transactions_def fold_transactions
  by (simp add: replay_field_map checkpoint_transaction_def compact_field empty_state_def comp_def)

lemma checkpoint_keeps_id [simp]: "tx_id (checkpoint_transaction txs tx) = tx_id tx"
  by (simp add: checkpoint_transaction_def)

lemma parse_lines_txs:
  "parse_lines seen ls = Inr txs \<Longrightarrow>
     ls = map TransactionLine txs \<and> distinct (map tx_id txs) \<and> set (map tx_id txs) \<inter> set seen = {}"
proof (induction ls arbitrary: seen txs)
  case (Cons l ls)
  from Cons.prems obtain tx rest where l: "l = TransactionLine tx" "tx_id tx \<notin> set seen" "txs = tx # rest"
    and rest: "parse_lines (tx_id tx # seen) ls = Inr rest"
    by (auto simp: parseCoordinationLine_def split: journal_line.splits if_splits sum.splits)
  from Cons.IH [OF rest] l show ?case by auto
qed simp

lemma parse_lines_written:
  "distinct (map tx_id txs) \<Longrightarrow> set (map tx_id txs) \<inter> set seen = {} \<Longrightarrow>
     parse_lines seen (map TransactionLine txs) = Inr txs"
  by (induction txs arbitrary: seen) (auto simp: parseCoordinationLine_def)

lemma checkpoint_replays:
  assumes "parse_lines [] ls = Inr txs"
  shows "journal_replay (map (\<lambda>tx. TransactionLine (checkpoint_transaction txs tx)) txs) = journal_replay ls"
proof -
  have "parse_lines [] (map TransactionLine (map (checkpoint_transaction txs) txs))
      = Inr (map (checkpoint_transaction txs) txs)"
    using parse_lines_txs [OF assms] by (intro parse_lines_written) (auto simp: comp_def)
  with assms show ?thesis by (simp add: journal_replay_def comp_def compact_replay)
qed

text \<open>
  C37. A checkpoint of the coordination journal is lossless: it refuses exactly the journals a replay
  refuses, with the same error, and the journal it writes has no more lines and replays to the same
  state, with every map in the same order and the audits and receipts complete.
\<close>

theorem checkpoint_lossless:
  "case journal_checkpoint ls of
     Inl e \<Rightarrow> journal_replay ls = Inl e
   | Inr ls' \<Rightarrow> length ls' \<le> length ls \<and> (\<exists>s. journal_replay ls = Inr s \<and> journal_replay ls' = Inr s)"
proof (cases "parse_lines [] ls")
  case (Inl e)
  then show ?thesis by (simp add: journal_checkpoint_def journal_replay_def)
next
  case (Inr txs)
  have "ls = map TransactionLine txs" using parse_lines_txs [OF Inr] by blast
  with checkpoint_replays [OF Inr] Inr show ?thesis
    by (simp add: journal_checkpoint_def journal_replay_def)
qed

end
