(* ===== verification/Worker_Ownership.thy ===== *)
theory Worker_Ownership
  imports Coordination_Journal
begin

text \<open>
  The ownership half of \<^verbatim>\<open>src/src/broker/worker-coordination.ts\<close>: registration, controller leases
  (acquire, renew, release, transfer, adopt), the two batch calls, liveness, expiry and lifecycles,
  with the lease projections of \<^verbatim>\<open>src/src/broker/worker-lease-liveness.ts\<close>.

  The service runs its calls one after the other (\<^verbatim>\<open>exclusive\<close>), so a call is one operation. What
  it asks of the outside, the clock, fresh ids and tokens and whether the journal can be written, is
  answered by the environment, once per tick. SHA-256 is a parameter. The schema checks of a record
  that is about to be stored fail the same way as the append that repeats them: as a failing write.
  The check of a controller identity, which the calls make on their own, is written out. Messages
  for people are left out, as are the budget calls, which have a theory of their own.
\<close>

subsection \<open>Environment and state\<close>

datatype handoff_members = MemberIds "ident list" | NamedMembers "(ident \<times> string option) list"

text \<open>The fields a directed handoff is keyed by.\<close>

record handoff_payload =
  hp_actor :: controller_identity
  hp_recipient :: controller_identity
  hp_recipientSessionId :: ident
  hp_directive :: string
  hp_members :: handoff_members
  hp_reason :: string
  hp_handoffId :: "ident option"

text \<open>The fields a checkpoint request is keyed by.\<close>

record checkpoint_payload =
  kp_correlationId :: ident
  kp_workerId :: ident
  kp_requestedBy :: controller_identity
  kp_focus :: "string option"
  kp_question :: "string option"
  kp_decisionGate :: bool

record coordination_env =
  ce_clock :: "nat \<Rightarrow> instant"
  ce_uuid :: "nat \<Rightarrow> ident"
  ce_token :: "nat \<Rightarrow> string"
  ce_writeOk :: "nat \<Rightarrow> bool"
  ce_hashToken :: "string \<Rightarrow> string"
  ce_isUuid :: "string \<Rightarrow> bool"
  ce_registerHash :: "ident \<Rightarrow> worker_budget_declaration option \<Rightarrow> string"
  ce_handoffHash :: "handoff_payload \<Rightarrow> string"
  ce_leaseDurationMs :: int
  ce_gracePeriodMs :: int
  ce_hashEvent :: "worker_event \<Rightarrow> string"
  ce_hashCheckpoint :: "checkpoint_payload \<Rightarrow> string"
  ce_eventRateLimit :: nat
  ce_eventRateWindowMs :: int
  ce_maxQueuedEventsPerWorker :: nat
  ce_maxProjectionPageSize :: nat

record event_summary =
  ws_unresolvedCount :: int
  ws_lastOrdinal :: nat

record coordination =
  co_initialized :: bool
  co_state :: coordination_state
  co_journal :: "coordination_transaction list"
  co_notified :: "(ident \<times> budget_record) list"
  co_nextOrdinal :: nat
  co_clock_tick :: nat
  co_summaries :: "(ident, event_summary) js_map"

datatype coordination_error =
    CoNotReady | CoInvalidRequest | CoStoreFailed | CoSubjectNotFound | CoMutationIdCollision
  | CoOriginMismatch | CoBudgetUnsupported | CoBudgetAlreadyDeclared | CoHandoffNotFound | CoDuplicateMember
  | CoInternal | CoEventNotFound | CoCheckpointCollision | CoRefused auth_refusal

type_synonym 'a co_op = "(coordination, coordination_error, 'a) op"

definition co_ask :: "(nat \<Rightarrow> 'a) \<Rightarrow> 'a co_op" where
  "co_ask f s = (Inr (f (co_clock_tick s)), s\<lparr>co_clock_tick := Suc (co_clock_tick s)\<rparr>)"

abbreviation co_subjects :: "coordination \<Rightarrow> (ident, ownership_subject) js_map" where
  "co_subjects s \<equiv> cs_subjects (co_state s)"

abbreviation co_liveness :: "coordination \<Rightarrow> (ident, controller_liveness) js_map" where
  "co_liveness s \<equiv> cs_liveness (co_state s)"

definition co_assertReady :: "unit co_op" where
  "co_assertReady = op_bind (op_gets co_initialized) (\<lambda>ok. if ok then op_return () else op_throw CoNotReady)"

text \<open>
  \<^verbatim>\<open>initialize\<close> takes what the journal replays to, with the events in the order of their ordinals.
\<close>

definition next_ordinal :: "stored_event list \<Rightarrow> nat \<Rightarrow> nat" where
  "next_ordinal es n = fold (\<lambda>e k. max k (se_ordinal e + 1)) es n"

definition loaded_state :: "coordination_state \<Rightarrow> coordination_state" where
  "loaded_state st = st\<lparr>cs_events := set_all se_eventId (sorted_events st) []\<rparr>"

text \<open>Recording an event keeps the summary of its worker up to date.\<close>

definition isPinned :: "stored_event \<Rightarrow> bool" where
  "isPinned e = (se_kind e = EvException \<or> se_kind e = EvDecisionRequest \<or> se_interventionRequired e)"

definition isUnresolved :: "stored_event \<Rightarrow> bool" where
  "isUnresolved e = (isPinned e \<and> se_state e = EventActive)"

definition rebuildEventSummary :: "stored_event list \<Rightarrow> ident \<Rightarrow> event_summary" where
  "rebuildEventSummary es w =
     fold (\<lambda>e acc. \<lparr>ws_unresolvedCount = ws_unresolvedCount acc + (if isUnresolved e then 1 else 0),
                    ws_lastOrdinal = max (ws_lastOrdinal acc) (se_ordinal e)\<rparr>)
       (filter (\<lambda>e. se_workerId e = w) es) \<lparr>ws_unresolvedCount = 0, ws_lastOrdinal = 0\<rparr>"

definition summary_of :: "(ident, event_summary) js_map \<Rightarrow> ident \<Rightarrow> event_summary" where
  "summary_of sm w =
     (case js_get sm w of Some x \<Rightarrow> x | None \<Rightarrow> \<lparr>ws_unresolvedCount = 0, ws_lastOrdinal = 0\<rparr>)"

fun recordEvent ::
  "stored_event \<Rightarrow> (ident, stored_event) js_map \<times> (ident, event_summary) js_map
     \<Rightarrow> (ident, stored_event) js_map \<times> (ident, event_summary) js_map" where
  "recordEvent e (evs, sm) =
     (let previous = js_get evs (se_eventId e);
          evs' = js_set (se_eventId e) e evs;
          sm' = (case previous of None \<Rightarrow> sm
                   | Some p \<Rightarrow> if se_workerId p \<noteq> se_workerId e
                       then js_set (se_workerId p) (rebuildEventSummary (js_values evs') (se_workerId p)) sm
                       else sm);
          summary = summary_of sm' (se_workerId e);
          dropped = (case previous of None \<Rightarrow> 0
                     | Some p \<Rightarrow> if se_workerId p = se_workerId e \<and> isUnresolved p then 1 else 0)
      in (evs', js_set (se_workerId e)
           \<lparr>ws_unresolvedCount = ws_unresolvedCount summary - dropped + (if isUnresolved e then 1 else 0),
            ws_lastOrdinal = max (ws_lastOrdinal summary) (se_ordinal e)\<rparr> sm'))"

definition record_events ::
  "stored_event list \<Rightarrow> (ident, stored_event) js_map \<Rightarrow> (ident, event_summary) js_map \<Rightarrow> (ident, event_summary) js_map" where
  "record_events es evs sm = snd (fold recordEvent es (evs, sm))"

definition co_initialize :: "unit co_op" where
  "co_initialize =
     op_bind (op_gets co_initialized) (\<lambda>ready.
       if ready then op_return ()
       else op_bind (op_gets (\<lambda>s. journal_replay (map TransactionLine (co_journal s)))) (\<lambda>loaded.
         case loaded of Inl e \<Rightarrow> op_throw CoStoreFailed
         | Inr st \<Rightarrow> op_modify (\<lambda>s. s\<lparr>co_initialized := True, co_state := loaded_state st,
                       co_nextOrdinal := next_ordinal (sorted_events st) (co_nextOrdinal s),
                       co_summaries := record_events (sorted_events st) [] (co_summaries s)\<rparr>)))"

subsection \<open>Lease projections\<close>

definition controllerLiveness ::
  "ownership_subject \<Rightarrow> (ident, controller_liveness) js_map \<Rightarrow> controller_liveness option" where
  "controllerLiveness sub observations =
     (case cl_controller (ow_lease sub) of None \<Rightarrow> None
      | Some c \<Rightarrow> js_get observations (ci_controllerId c))"

definition heartbeatObservation ::
  "controller_identity \<Rightarrow> controller_liveness option \<Rightarrow> instant \<Rightarrow> string \<Rightarrow> controller_liveness" where
  "heartbeatObservation c observed observedAt reason =
     (case observed of
        Some l \<Rightarrow> if lv_session l = None
          then \<lparr>lv_controller = c, lv_connected = True, lv_observedAt = observedAt, lv_reason = reason, lv_session = None\<rparr>
          else l
      | None \<Rightarrow> \<lparr>lv_controller = c, lv_connected = True, lv_observedAt = observedAt, lv_reason = reason, lv_session = None\<rparr>)"

definition isControlled :: "ownership_subject \<Rightarrow> bool" where
  "isControlled sub =
     ((cl_state (ow_lease sub) = ClActive \<or> cl_state (ow_lease sub) = ClContested)
      \<and> cl_controller (ow_lease sub) \<noteq> None)"

definition disconnected_past_grace :: "controller_liveness option \<Rightarrow> instant \<Rightarrow> int \<Rightarrow> bool" where
  "disconnected_past_grace observed now grace =
     (case observed of None \<Rightarrow> False | Some l \<Rightarrow> \<not> lv_connected l \<and> now \<ge> lv_observedAt l + grace)"

definition vouched :: "controller_liveness option \<Rightarrow> bool" where
  "vouched observed = (case observed of None \<Rightarrow> False | Some l \<Rightarrow> lv_session l \<noteq> None)"

definition leaseHasExpired ::
  "ownership_subject \<Rightarrow> controller_liveness option \<Rightarrow> instant \<Rightarrow> int \<Rightarrow> bool" where
  "leaseHasExpired sub observed now grace =
     (if \<not> isControlled sub then False
      else if vouched observed then disconnected_past_grace observed now grace
      else now \<ge> cl_expiresAt (ow_lease sub) \<or> disconnected_past_grace observed now grace)"

text \<open>A living session has no heartbeat deadline; a dead one has a fixed one.\<close>

definition projected_horizon :: "ownership_subject \<Rightarrow> controller_liveness option \<Rightarrow> instant \<Rightarrow> int \<Rightarrow> int \<Rightarrow> ownership_subject" where
  "projected_horizon sub observed now duration grace =
     (case observed of None \<Rightarrow> sub
      | Some l \<Rightarrow>
          if isControlled sub \<and> lv_session l \<noteq> None
          then sub\<lparr>ow_lease := (ow_lease sub)\<lparr>cl_expiresAt :=
                 (if lv_connected l then now + duration else lv_observedAt l + grace)\<rparr>\<rparr>
          else sub)"

definition observedLeaseCopy ::
  "ownership_subject \<Rightarrow> controller_liveness option \<Rightarrow> instant \<Rightarrow> int \<Rightarrow> int \<Rightarrow> ownership_subject" where
  "observedLeaseCopy sub0 observed now duration grace =
     (let sub = projected_horizon sub0 observed now duration grace
      in if \<not> leaseHasExpired sub observed now grace then sub
         else sub\<lparr>ow_lease := (ow_lease sub)\<lparr>cl_state := ClOrphaned, cl_tokenHash := None,
                cl_orphanedAt := Some now,
                cl_reason := Some ''lease expired after broker-observed liveness/heartbeat deadline'',
                cl_contest := None\<rparr>,
              ow_updatedAt := now\<rparr>)"

definition expiredCopy :: "coordination_env \<Rightarrow> coordination \<Rightarrow> ownership_subject \<Rightarrow> instant \<Rightarrow> ownership_subject" where
  "expiredCopy env s sub now =
     observedLeaseCopy sub (controllerLiveness sub (co_liveness s)) now (ce_leaseDurationMs env) (ce_gracePeriodMs env)"

definition lease_isExpired :: "coordination_env \<Rightarrow> coordination \<Rightarrow> ownership_subject \<Rightarrow> instant \<Rightarrow> bool" where
  "lease_isExpired env s sub now =
     leaseHasExpired sub (controllerLiveness sub (co_liveness s)) now (ce_gracePeriodMs env)"

record lease_observation =
  lo_sessionId :: ident
  lo_leaseVersion :: nat
  lo_leaseExpiresAt :: instant
  lo_controllerId :: ident

definition storedLeaseMatches :: "ownership_subject option \<Rightarrow> lease_observation \<Rightarrow> instant \<Rightarrow> bool" where
  "storedLeaseMatches found inp now =
     (case found of None \<Rightarrow> False
      | Some sub \<Rightarrow>
          let l = ow_lease sub
          in cl_state l = ClActive \<and> cl_version l = lo_leaseVersion inp \<and> cl_expiresAt l = lo_leaseExpiresAt inp
             \<and> map_option ci_controllerId (cl_controller l) = Some (lo_controllerId inp) \<and> cl_expiresAt l > now)"

definition hasCurrentLease :: "coordination_env \<Rightarrow> lease_observation \<Rightarrow> bool co_op" where
  "hasCurrentLease env inp =
     op_bind (co_ask (ce_clock env)) (\<lambda>now.
     op_bind (op_gets (\<lambda>s. storedLeaseMatches (js_get (co_subjects s) (lo_sessionId inp)) inp now)) (\<lambda>matches.
       if \<not> matches then op_return False
       else op_bind (co_ask (ce_clock env)) (\<lambda>later.
         op_gets (\<lambda>s. \<not> lease_isExpired env s (the (js_get (co_subjects s) (lo_sessionId inp))) later))))"

definition getSubject :: "coordination_env \<Rightarrow> ident \<Rightarrow> (ownership_subject option) co_op" where
  "getSubject env i =
     op_bind (op_gets (\<lambda>s. js_get (co_subjects s) i)) (\<lambda>found.
       case found of None \<Rightarrow> op_return None
       | Some sub \<Rightarrow> op_bind (co_ask (ce_clock env)) (\<lambda>now. op_gets (\<lambda>s. Some (expiredCopy env s sub now))))"

subsection \<open>Authentication, grants and outcomes\<close>

definition bounded_text :: "nat \<Rightarrow> string \<Rightarrow> bool" where
  "bounded_text n t = (t \<noteq> [] \<and> length t \<le> n)"

fun scope_valid :: "controller_scope \<Rightarrow> bool" where
  "scope_valid (ScopeFleet i) = bounded_text 256 i"
| "scope_valid (ScopeWorktree i path) = (bounded_text 256 i \<and> take 1 path = ''/'')"
| "scope_valid (ScopeFamily i) = bounded_text 256 i"

definition controller_valid :: "coordination_env \<Rightarrow> controller_identity \<Rightarrow> bool" where
  "controller_valid env c =
     (bounded_text 256 (ci_controllerId c) \<and> \<not> ce_isUuid env (ci_controllerId c)
      \<and> bounded_text 256 (ci_familyId c) \<and> scope_valid (ci_scope c))"

definition parse_controller :: "coordination_env \<Rightarrow> controller_identity \<Rightarrow> controller_identity co_op" where
  "parse_controller env c = (if controller_valid env c then op_return c else op_throw CoInvalidRequest)"

definition authCode ::
  "coordination_env \<Rightarrow> coordination \<Rightarrow> ownership_subject \<Rightarrow> controller_identity \<Rightarrow> string \<Rightarrow> nat option \<Rightarrow> instant
     \<Rightarrow> auth_refusal option" where
  "authCode env s sub c token version now =
     (if lease_isExpired env s sub now \<or> cl_state (ow_lease sub) = ClOrphaned then Some AuthLeaseExpired
      else if \<not> isControlled sub
        \<or> map_option ci_controllerId (cl_controller (ow_lease sub)) \<noteq> Some (ci_controllerId c)
        \<or> (version \<noteq> None \<and> Some (cl_version (ow_lease sub)) \<noteq> version) then Some AuthOwnershipLost
      else if cl_tokenHash (ow_lease sub) \<noteq> Some (ce_hashToken env token) then Some AuthTokenInvalid
      else None)"

definition lease_outcome :: "ownership_subject \<Rightarrow> outcome_code \<Rightarrow> ownership_outcome" where
  "lease_outcome sub code =
     \<lparr>oo_subjectId = ow_subjectId sub, oo_code = code, oo_leaseVersion = cl_version (ow_lease sub),
      oo_leaseToken = None, oo_currentController = cl_controller (ow_lease sub),
      oo_leaseExpiresAt = cl_expiresAt (ow_lease sub)\<rparr>"

definition renewed :: "coordination_env \<Rightarrow> ownership_subject \<Rightarrow> instant \<Rightarrow> ownership_subject" where
  "renewed env sub now =
     sub\<lparr>ow_lease := (ow_lease sub)\<lparr>cl_state := ClActive, cl_renewedAt := now,
            cl_expiresAt := now + ce_leaseDurationMs env, cl_contest := None\<rparr>,
         ow_updatedAt := now\<rparr>"

text \<open>The lease of a new controller starts afresh under the same id, one version on.\<close>

definition granted_lease ::
  "coordination_env \<Rightarrow> controller_lease \<Rightarrow> controller_identity \<Rightarrow> string \<Rightarrow> instant \<Rightarrow> controller_lease" where
  "granted_lease env l c token now =
     \<lparr>cl_leaseId = cl_leaseId l, cl_version = cl_version l + 1, cl_state = ClActive, cl_controller = Some c,
      cl_tokenHash = Some (ce_hashToken env token), cl_issuedAt = now, cl_renewedAt = now,
      cl_expiresAt = now + ce_leaseDurationMs env, cl_orphanedAt = None, cl_releasedAt = None,
      cl_reason = None, cl_contest = None\<rparr>"

definition withNewController ::
  "coordination_env \<Rightarrow> ownership_subject \<Rightarrow> controller_identity \<Rightarrow> instant \<Rightarrow> outcome_code
     \<Rightarrow> (ownership_subject \<times> ownership_outcome) co_op" where
  "withNewController env sub c now code =
     op_bind (co_ask (ce_token env)) (\<lambda>token.
     op_bind (parse_controller env c) (\<lambda>c.
       let updated = sub\<lparr>ow_lease := granted_lease env (ow_lease sub) c token now, ow_updatedAt := now\<rparr>
       in op_return (updated, (lease_outcome updated code)\<lparr>oo_leaseToken := Some token\<rparr>)))"

definition contested ::
  "ownership_subject \<Rightarrow> controller_identity \<Rightarrow> string \<Rightarrow> instant \<Rightarrow> ownership_subject \<times> ownership_outcome" where
  "contested sub actor reason now =
     (let c = sub\<lparr>ow_lease := (ow_lease sub)\<lparr>cl_state := ClContested,
                    cl_contest := Some \<lparr>lc_actor = actor, lc_contestedAt = now, lc_reason = reason\<rparr>\<rparr>,
                 ow_updatedAt := now\<rparr>
      in (c, lease_outcome c OcLeaseConflict))"

definition ownership_audit_of ::
  "coordination_env \<Rightarrow> ident \<Rightarrow> ownership_operation \<Rightarrow> ident \<Rightarrow> controller_identity \<Rightarrow> string
     \<Rightarrow> controller_lease option \<Rightarrow> controller_lease option \<Rightarrow> audit_outcome \<Rightarrow> ownership_audit co_op" where
  "ownership_audit_of env mid operation i actor reason prior new outcome =
     op_bind (co_ask (ce_uuid env)) (\<lambda>auditId.
     op_bind (parse_controller env actor) (\<lambda>actor.
     op_bind (co_ask (ce_clock env)) (\<lambda>occurredAt.
       op_return \<lparr>oa_auditId = auditId, oa_mutationId = mid, oa_operation = operation, oa_subjectId = i,
         oa_actor = actor, oa_occurredAt = occurredAt,
         oa_priorController = (case prior of None \<Rightarrow> None | Some l \<Rightarrow> cl_controller l),
         oa_newController = (case new of None \<Rightarrow> None | Some l \<Rightarrow> cl_controller l),
         oa_priorLeaseState = map_option cl_state prior, oa_newLeaseState = map_option cl_state new,
         oa_reason = reason, oa_outcome = outcome\<rparr>)))"

definition BROKER_ACTOR :: controller_identity where
  "BROKER_ACTOR = \<lparr>ci_controllerId = ''cyberdeck-broker'', ci_familyId = ''cyberdeck-broker'',
     ci_scope = ScopeFleet ''local-broker''\<rparr>"

definition ownership_result_of ::
  "ident \<Rightarrow> ownership_operation \<Rightarrow> ownership_outcome list \<Rightarrow> ownership_result co_op" where
  "ownership_result_of mid operation outcomes =
     (if bounded_text 256 mid \<and> list_all (\<lambda>o'. case oo_leaseToken o' of None \<Rightarrow> True | Some t \<Rightarrow> 32 \<le> length t) outcomes
      then op_return \<lparr>or_mutationId = mid, or_operation = operation, or_idempotentReplay = False,
             or_outcomes = outcomes, or_committed = None, or_handoff = None\<rparr>
      else op_throw CoInvalidRequest)"

subsection \<open>Committing\<close>

text \<open>The journal is written first; the maps change only when the append succeeded.\<close>

definition commit_applied :: "coordination_transaction \<Rightarrow> coordination \<Rightarrow> coordination" where
  "commit_applied tx s =
     s\<lparr>co_state := apply_transaction tx (co_state s), co_journal := co_journal s @ [tx],
       co_summaries := record_events (tx_events tx) (cs_events (co_state s)) (co_summaries s)\<rparr>"

definition commit :: "coordination_env \<Rightarrow> coordination_transaction \<Rightarrow> unit co_op" where
  "commit env tx0 =
     op_bind (co_ask (ce_uuid env)) (\<lambda>i.
     op_bind (co_ask (ce_writeOk env)) (\<lambda>ok.
       if \<not> ok then op_throw CoStoreFailed
       else let tx = tx0\<lparr>tx_id := i\<rparr>
            in op_modify (commit_applied tx)))"

definition persist_result ::
  "coordination_env \<Rightarrow> ident \<Rightarrow> ownership_operation \<Rightarrow> receipt_result \<Rightarrow> coordination_transaction \<Rightarrow> string option
     \<Rightarrow> unit co_op" where
  "persist_result env mid operation result tx hash =
     op_bind (co_ask (ce_clock env)) (\<lambda>recordedAt.
       commit env (tx\<lparr>tx_receipts := tx_receipts tx @
         [\<lparr>rt_mutationId = mid, rt_operation = operation, rt_recordedAt = recordedAt,
           rt_requestHash = hash, rt_result = result\<rparr>]\<rparr>))"

definition persistReceipt ::
  "coordination_env \<Rightarrow> ownership_result \<Rightarrow> coordination_transaction \<Rightarrow> string option \<Rightarrow> unit co_op" where
  "persistReceipt env res tx hash =
     persist_result env (or_mutationId res) (or_operation res) (OwnershipReceipt res) tx hash"

definition connectedObservation ::
  "controller_identity \<Rightarrow> instant \<Rightarrow> string \<Rightarrow> controller_liveness co_op" where
  "connectedObservation c observedAt reason =
     op_gets (\<lambda>s. heartbeatObservation c (js_get (co_liveness s) (ci_controllerId c)) observedAt reason)"

definition requireSubject :: "ident \<Rightarrow> ownership_subject co_op" where
  "requireSubject i =
     op_bind (op_gets (\<lambda>s. js_get (co_subjects s) i)) (\<lambda>found.
       case found of None \<Rightarrow> op_throw CoSubjectNotFound | Some sub \<Rightarrow> op_return sub)"

text \<open>The receipt of an earlier call with this mutation id, marked as a replay.\<close>

definition replayOwnership :: "ident \<Rightarrow> ownership_operation \<Rightarrow> (ownership_result option) co_op" where
  "replayOwnership mid operation =
     op_bind (op_gets (\<lambda>s. js_get (cs_receipts (co_state s)) mid)) (\<lambda>receipt.
       case receipt of None \<Rightarrow> op_return None
       | Some r \<Rightarrow>
           if rt_operation r \<noteq> operation then op_throw CoMutationIdCollision
           else case rt_result r of
             OwnershipReceipt res \<Rightarrow>
               op_return (Some (res\<lparr>or_idempotentReplay := True, or_committed := None, or_handoff := None\<rparr>))
           | _ \<Rightarrow> op_throw CoInvalidRequest)"

subsection \<open>Selectors\<close>

datatype ownership_selector =
  SelectSingle ident | SelectGroup "ident option" "ident option" | SelectInactive ident

definition optional_text :: "ident option \<Rightarrow> bool" where
  "optional_text x = (case x of None \<Rightarrow> True | Some t \<Rightarrow> bounded_text 256 t)"

fun selector_valid :: "coordination_env \<Rightarrow> ownership_selector \<Rightarrow> bool" where
  "selector_valid env (SelectSingle i) = ce_isUuid env i"
| "selector_valid env (SelectGroup task wave) =
     (optional_text task \<and> optional_text wave \<and> (task \<noteq> None \<or> wave \<noteq> None))"
| "selector_valid env (SelectInactive c) = bounded_text 256 c"

definition in_group :: "ident option \<Rightarrow> ident option \<Rightarrow> ownership_subject \<Rightarrow> bool" where
  "in_group task wave sub =
     ((task = None \<or> Some (wo_taskId (ow_origin sub)) = task)
      \<and> (wave = None \<or> wo_waveId (ow_origin sub) = wave))"

definition of_inactive :: "coordination_env \<Rightarrow> coordination \<Rightarrow> ident \<Rightarrow> instant \<Rightarrow> ownership_subject \<Rightarrow> bool" where
  "of_inactive env s c now sub =
     (let l = ow_lease sub
      in map_option ci_controllerId (cl_controller l) = Some c
         \<and> (disconnected_past_grace (js_get (co_liveness s) c) now (ce_gracePeriodMs env)
            \<or> ((cl_state l = ClOrphaned \<or> cl_state l = ClExpired) \<and> now \<ge> cl_expiresAt l)))"

definition select :: "coordination_env \<Rightarrow> ownership_selector \<Rightarrow> instant \<Rightarrow> (ownership_subject list) co_op" where
  "select env selector now =
     (case selector of
        SelectSingle i \<Rightarrow> op_bind (requireSubject i) (\<lambda>sub. op_return [sub])
      | SelectGroup task wave \<Rightarrow> op_gets (\<lambda>s. filter (in_group task wave) (js_values (co_subjects s)))
      | SelectInactive c \<Rightarrow> op_gets (\<lambda>s. filter (of_inactive env s c now) (js_values (co_subjects s))))"

definition parse_selector :: "coordination_env \<Rightarrow> ownership_selector \<Rightarrow> ownership_selector co_op" where
  "parse_selector env selector = (if selector_valid env selector then op_return selector else op_throw CoInvalidRequest)"

subsection \<open>Lease calls\<close>

record lease_mutation =
  mi_mutationId :: ident
  mi_actor :: controller_identity
  mi_selector :: ownership_selector
  mi_reason :: string

record lease_credentials =
  lk_controller :: controller_identity
  lk_leaseToken :: "string option"
  lk_leaseTokens :: "(ident \<times> string) list"
  lk_leaseVersion :: "nat option"

definition tokenFor :: "lease_credentials \<Rightarrow> ident \<Rightarrow> string" where
  "tokenFor cred i =
     (case map_of (lk_leaseTokens cred) i of Some t \<Rightarrow> t
      | None \<Rightarrow> (case lk_leaseToken cred of Some t \<Rightarrow> t | None \<Rightarrow> []))"

text \<open>A changed subject with its outcome and audit.\<close>

type_synonym lease_change = "ownership_subject \<times> ownership_outcome \<times> ownership_audit"

definition change_subject ::
  "coordination_env \<Rightarrow> ownership_operation \<Rightarrow> lease_mutation \<Rightarrow> instant
     \<Rightarrow> (ownership_subject \<Rightarrow> (ownership_subject \<times> ownership_outcome) co_op)
     \<Rightarrow> ownership_subject \<Rightarrow> lease_change co_op" where
  "change_subject env operation m now f original =
     op_bind (op_gets (\<lambda>s. expiredCopy env s original now)) (\<lambda>prior.
     op_bind (f prior) (\<lambda>(new, outcome).
     op_bind (ownership_audit_of env (mi_mutationId m) operation (ow_subjectId new) (mi_actor m) (mi_reason m)
                (Some (ow_lease original)) (Some (ow_lease new)) (AuditCode (oo_code outcome))) (\<lambda>audit.
       op_return (new, outcome, audit))))"

fun change_each :: "('b \<Rightarrow> 'c co_op) \<Rightarrow> 'b list \<Rightarrow> ('c list) co_op" where
  "change_each f [] = op_return []"
| "change_each f (x # xs) = op_bind (f x) (\<lambda>y. op_bind (change_each f xs) (\<lambda>ys. op_return (y # ys)))"

definition changes_transaction :: "lease_change list \<Rightarrow> controller_liveness list \<Rightarrow> coordination_transaction" where
  "changes_transaction cs live =
     no_changes\<lparr>tx_subjects := map fst cs, tx_audits := map (\<lambda>(_, _, a). a) cs, tx_liveness := live\<rparr>"

definition operation_call :: "ownership_operation \<Rightarrow> string" where
  "operation_call operation =
     (case operation of OwAcquire \<Rightarrow> ''acquire call'' | OwAdopt \<Rightarrow> ''adopt call'' | OwRenew \<Rightarrow> ''renew call''
      | OwRelease \<Rightarrow> ''release call'' | OwTransfer \<Rightarrow> ''transfer call'' | OwLifecycle \<Rightarrow> ''lifecycle call''
      | _ \<Rightarrow> [])"

text \<open>The end both kinds of lease calls share: the result, then one transaction with the receipt.\<close>

definition conclude ::
  "coordination_env \<Rightarrow> ownership_operation \<Rightarrow> lease_mutation \<Rightarrow> controller_identity \<Rightarrow> instant
     \<Rightarrow> (ownership_outcome \<Rightarrow> bool) \<Rightarrow> lease_change list \<Rightarrow> ownership_result co_op" where
  "conclude env operation m c now alive cs =
     op_bind (ownership_result_of (mi_mutationId m) operation (map (\<lambda>(_, o', _). o') cs)) (\<lambda>res.
     op_bind (if list_ex (\<lambda>(_, o', _). alive o') cs
              then op_bind (connectedObservation c now (operation_call operation)) (\<lambda>l. op_return [l])
              else op_return []) (\<lambda>live.
     op_then (persistReceipt env res (changes_transaction cs live) None) (op_return res)))"

definition with_receipt ::
  "ident \<Rightarrow> ownership_operation \<Rightarrow> ownership_result co_op \<Rightarrow> ownership_result co_op" where
  "with_receipt mid operation work =
     op_then co_assertReady
     (op_bind (replayOwnership mid operation) (\<lambda>replay.
        case replay of Some res \<Rightarrow> op_return res | None \<Rightarrow> work))"

definition ownershipMutation ::
  "coordination_env \<Rightarrow> ownership_operation \<Rightarrow> lease_mutation \<Rightarrow> controller_identity
     \<Rightarrow> (ownership_subject \<Rightarrow> instant \<Rightarrow> (ownership_subject \<times> ownership_outcome) co_op) \<Rightarrow> ownership_result co_op" where
  "ownershipMutation env operation m c mutate =
     with_receipt (mi_mutationId m) operation
       (op_bind (parse_selector env (mi_selector m)) (\<lambda>selector.
        op_bind (co_ask (ce_clock env)) (\<lambda>now.
        op_bind (select env selector now) (\<lambda>selected.
        op_bind (change_each (change_subject env operation m now (\<lambda>sub. mutate sub now)) selected)
          (conclude env operation m c now (\<lambda>o'. oo_code o' = OcAcquired \<or> oo_code o' = OcAlreadyControlled))))))"

definition acquire_subject ::
  "coordination_env \<Rightarrow> lease_mutation \<Rightarrow> controller_identity \<Rightarrow> ownership_subject \<Rightarrow> instant
     \<Rightarrow> (ownership_subject \<times> ownership_outcome) co_op" where
  "acquire_subject env m c sub now =
     (if terminal_lifecycle (ow_lifecycle sub) then op_return (sub, lease_outcome sub OcWorkerTerminal)
      else if isControlled sub then
        if map_option ci_controllerId (cl_controller (ow_lease sub)) = Some (ci_controllerId c)
        then withNewController env sub c now OcAlreadyControlled
        else op_return (contested sub (mi_actor m) (mi_reason m) now)
      else if cl_state (ow_lease sub) = ClOrphaned \<or> cl_state (ow_lease sub) = ClExpired
        then op_return (sub, lease_outcome sub OcNotEligible)
      else withNewController env sub c now OcAcquired)"

definition acquire_lease :: "coordination_env \<Rightarrow> lease_mutation \<Rightarrow> controller_identity \<Rightarrow> ownership_result co_op" where
  "acquire_lease env m c = ownershipMutation env OwAcquire m c (acquire_subject env m c)"

definition adopt_subject ::
  "coordination_env \<Rightarrow> lease_mutation \<Rightarrow> controller_identity \<Rightarrow> ownership_subject \<Rightarrow> instant
     \<Rightarrow> (ownership_subject \<times> ownership_outcome) co_op" where
  "adopt_subject env m c sub now =
     (if terminal_lifecycle (ow_lifecycle sub) then op_return (sub, lease_outcome sub OcWorkerTerminal)
      else if isControlled sub then op_return (contested sub (mi_actor m) (mi_reason m) now)
      else if cl_state (ow_lease sub) \<noteq> ClOrphaned \<and> cl_state (ow_lease sub) \<noteq> ClExpired
        then op_return (sub, lease_outcome sub OcNotEligible)
      else withNewController env sub c now OcAcquired)"

definition adopt :: "coordination_env \<Rightarrow> lease_mutation \<Rightarrow> controller_identity \<Rightarrow> ownership_result co_op" where
  "adopt env m c = ownershipMutation env OwAdopt m c (adopt_subject env m c)"

definition authenticated_change ::
  "coordination_env \<Rightarrow> lease_credentials \<Rightarrow> instant
     \<Rightarrow> (ownership_subject \<Rightarrow> instant \<Rightarrow> (ownership_subject \<times> ownership_outcome) co_op)
     \<Rightarrow> ownership_subject \<Rightarrow> (ownership_subject \<times> ownership_outcome) co_op" where
  "authenticated_change env cred now mutate sub =
     op_bind (op_gets (\<lambda>s. authCode env s sub (lk_controller cred) (tokenFor cred (ow_subjectId sub))
                (lk_leaseVersion cred) now)) (\<lambda>auth.
       case auth of
         Some AuthLeaseExpired \<Rightarrow> op_return (sub, lease_outcome sub OcOrphaned)
       | Some _ \<Rightarrow> op_return (sub, lease_outcome sub OcOwnershipLost)
       | None \<Rightarrow> mutate sub now)"

definition authenticatedOwnershipMutation ::
  "coordination_env \<Rightarrow> ownership_operation \<Rightarrow> lease_mutation \<Rightarrow> lease_credentials
     \<Rightarrow> (ownership_subject \<Rightarrow> instant \<Rightarrow> (ownership_subject \<times> ownership_outcome) co_op) \<Rightarrow> ownership_result co_op" where
  "authenticatedOwnershipMutation env operation m cred mutate =
     with_receipt (mi_mutationId m) operation
       (op_bind (co_ask (ce_clock env)) (\<lambda>now.
        op_bind (parse_selector env (mi_selector m)) (\<lambda>selector.
        op_bind (select env selector now) (\<lambda>selected.
        op_bind (change_each (change_subject env operation m now (authenticated_change env cred now mutate)) selected)
          (conclude env operation m (lk_controller cred) now
             (\<lambda>o'. oo_code o' \<noteq> OcOwnershipLost \<and> oo_code o' \<noteq> OcOrphaned))))))"

definition renew_lease :: "coordination_env \<Rightarrow> lease_mutation \<Rightarrow> lease_credentials \<Rightarrow> ownership_result co_op" where
  "renew_lease env m cred =
     authenticatedOwnershipMutation env OwRenew m cred (\<lambda>sub now.
       op_return (renewed env sub now, lease_outcome (renewed env sub now) OcAlreadyControlled))"

definition released_subject :: "ownership_subject \<Rightarrow> string \<Rightarrow> instant \<Rightarrow> ownership_subject" where
  "released_subject sub reason now =
     sub\<lparr>ow_lease := (ow_lease sub)\<lparr>cl_state := ClReleased, cl_tokenHash := None, cl_releasedAt := Some now,
            cl_reason := Some reason, cl_contest := None\<rparr>,
         ow_updatedAt := now\<rparr>"

definition release_lease :: "coordination_env \<Rightarrow> lease_mutation \<Rightarrow> lease_credentials \<Rightarrow> ownership_result co_op" where
  "release_lease env m cred =
     authenticatedOwnershipMutation env OwRelease m cred (\<lambda>sub now.
       op_return (released_subject sub (mi_reason m) now,
                  lease_outcome (released_subject sub (mi_reason m) now) OcReleased))"

definition transfer_lease ::
  "coordination_env \<Rightarrow> lease_mutation \<Rightarrow> lease_credentials \<Rightarrow> controller_identity \<Rightarrow> ownership_result co_op" where
  "transfer_lease env m cred c =
     authenticatedOwnershipMutation env OwTransfer m cred (\<lambda>sub now. withNewController env sub c now OcTransferred)"

definition updateLifecycle ::
  "coordination_env \<Rightarrow> lease_mutation \<Rightarrow> lease_credentials \<Rightarrow> ident \<Rightarrow> worker_lifecycle \<Rightarrow> ownership_result co_op" where
  "updateLifecycle env m cred i lifecycle =
     authenticatedOwnershipMutation env OwLifecycle (m\<lparr>mi_selector := SelectSingle i\<rparr>) cred (\<lambda>sub now.
       let updated = sub\<lparr>ow_lifecycle := lifecycle, ow_updatedAt := now\<rparr>
       in op_return (updated, lease_outcome updated OcAlreadyControlled))"

subsection \<open>Registration\<close>

record register_input =
  rg_mutationId :: ident
  rg_actor :: controller_identity
  rg_subjectId :: ident
  rg_isWorker :: bool
  rg_origin :: worker_origin
  rg_lifecycle :: worker_lifecycle
  rg_resources :: resource_refs
  rg_controller :: "controller_identity option"
  rg_budget :: "worker_budget_declaration option"
  rg_reason :: string

definition parse_optional_controller ::
  "coordination_env \<Rightarrow> controller_identity option \<Rightarrow> (controller_identity option) co_op" where
  "parse_optional_controller env c =
     (case c of None \<Rightarrow> op_return None | Some c \<Rightarrow> op_bind (parse_controller env c) (\<lambda>c. op_return (Some c)))"

text \<open>Registration binds its mutation id to the subject and the budget only.\<close>

definition replayRegistration :: "ident \<Rightarrow> string \<Rightarrow> (ownership_result option) co_op" where
  "replayRegistration mid hash =
     op_bind (op_gets (\<lambda>s. js_get (cs_receipts (co_state s)) mid)) (\<lambda>receipt.
       case receipt of None \<Rightarrow> op_return None
       | Some r \<Rightarrow>
           if rt_operation r \<noteq> OwRegister \<or> (rt_requestHash r \<noteq> None \<and> rt_requestHash r \<noteq> Some hash)
           then op_throw CoMutationIdCollision
           else case rt_result r of
             OwnershipReceipt res \<Rightarrow>
               op_return (Some (res\<lparr>or_idempotentReplay := True, or_committed := None, or_handoff := None\<rparr>))
           | _ \<Rightarrow> op_throw CoInvalidRequest)"

definition budgetAudit ::
  "coordination_env \<Rightarrow> ident \<Rightarrow> string \<Rightarrow> ownership_subject \<Rightarrow> string \<Rightarrow> ownership_audit co_op" where
  "budgetAudit env mid reason sub note =
     ownership_audit_of env mid OwBudgetDeclare (ow_subjectId sub) BROKER_ACTOR reason
       (Some (ow_lease sub)) (Some (ow_lease sub)) (AuditNote note)"

definition co_notify :: "ident \<Rightarrow> budget_record option \<Rightarrow> unit co_op" where
  "co_notify i b =
     (case b of None \<Rightarrow> op_return ()
      | Some b \<Rightarrow> op_modify (\<lambda>s. s\<lparr>co_notified := co_notified s @ [(i, b)]\<rparr>))"

definition budget_audits ::
  "coordination_env \<Rightarrow> register_input \<Rightarrow> ownership_subject \<Rightarrow> budget_record option \<Rightarrow> (ownership_audit list) co_op" where
  "budget_audits env inp sub b =
     (case b of None \<Rightarrow> op_return []
      | Some _ \<Rightarrow> op_bind (budgetAudit env (rg_mutationId inp) (rg_reason inp) sub ''DECLARED_DURING_REGISTRATION'')
                   (\<lambda>a. op_return [a]))"

text \<open>A known subject keeps its lease; at most a first budget is attached.\<close>

definition register_refusal :: "register_input \<Rightarrow> ownership_subject \<Rightarrow> coordination_error option" where
  "register_refusal inp existing =
     (if ow_origin existing \<noteq> rg_origin inp then Some CoOriginMismatch
      else if rg_budget inp \<noteq> None \<and> \<not> ow_isWorker existing then Some CoBudgetUnsupported
      else if rg_budget inp \<noteq> None \<and> ow_budget existing \<noteq> None
        \<and> map_option br_declaration (ow_budget existing) \<noteq> rg_budget inp then Some CoBudgetAlreadyDeclared
      else None)"

definition attached_budget :: "register_input \<Rightarrow> ownership_subject \<Rightarrow> instant \<Rightarrow> budget_record option" where
  "attached_budget inp existing now =
     (if ow_budget existing = None then map_option (\<lambda>d. createWorkerBudgetRecord d now) (rg_budget inp) else None)"

definition record_existing ::
  "coordination_env \<Rightarrow> register_input \<Rightarrow> controller_identity option \<Rightarrow> string \<Rightarrow> ownership_subject
     \<Rightarrow> ownership_subject list \<Rightarrow> budget_record option \<Rightarrow> ownership_result co_op" where
  "record_existing env inp controller hash existing updated attached =
     op_bind (ownership_result_of (rg_mutationId inp) OwRegister
         [lease_outcome existing
            (if map_option ci_controllerId (cl_controller (ow_lease existing)) = map_option ci_controllerId controller
             then OcAlreadyControlled else OcNotEligible)]) (\<lambda>res.
     op_bind (budget_audits env inp (existing\<lparr>ow_budget := attached\<rparr>) attached) (\<lambda>audits.
     op_then (persistReceipt env res (no_changes\<lparr>tx_subjects := updated, tx_audits := audits\<rparr>) (Some hash))
     (op_then (co_notify (rg_subjectId inp) attached) (op_return res))))"

definition register_existing ::
  "coordination_env \<Rightarrow> register_input \<Rightarrow> controller_identity option \<Rightarrow> string \<Rightarrow> ownership_subject \<Rightarrow> ownership_result co_op" where
  "register_existing env inp controller hash existing =
     (case register_refusal inp existing of Some e \<Rightarrow> op_throw e
      | None \<Rightarrow> op_bind (co_ask (ce_clock env)) (\<lambda>now.
          let attached = attached_budget inp existing now
          in record_existing env inp controller hash existing
               (if attached = None then [] else [existing\<lparr>ow_budget := attached, ow_updatedAt := now\<rparr>]) attached))"

definition first_lease ::
  "coordination_env \<Rightarrow> ident \<Rightarrow> controller_identity option \<Rightarrow> string option \<Rightarrow> string \<Rightarrow> instant \<Rightarrow> controller_lease" where
  "first_lease env i controller token reason now =
     \<lparr>cl_leaseId = i, cl_version = 1, cl_state = (if controller = None then ClOrphaned else ClActive),
      cl_controller = controller, cl_tokenHash = map_option (ce_hashToken env) token, cl_issuedAt = now,
      cl_renewedAt = now, cl_expiresAt = (if controller = None then now else now + ce_leaseDurationMs env),
      cl_orphanedAt = (if controller = None then Some now else None), cl_releasedAt = None,
      cl_reason = (if controller = None then Some reason else None), cl_contest = None\<rparr>"

definition registered_subject ::
  "coordination_env \<Rightarrow> register_input \<Rightarrow> controller_identity option \<Rightarrow> string option \<Rightarrow> ident \<Rightarrow> instant \<Rightarrow> ownership_subject" where
  "registered_subject env inp controller token leaseId now =
     \<lparr>ow_subjectId = rg_subjectId inp, ow_isWorker = rg_isWorker inp, ow_origin = rg_origin inp,
      ow_lifecycle = rg_lifecycle inp, ow_resources = rg_resources inp,
      ow_budget = map_option (\<lambda>d. createWorkerBudgetRecord d now) (rg_budget inp),
      ow_lease = first_lease env leaseId controller token (rg_reason inp) now,
      ow_decisionGate = GateOpen, ow_updatedAt = now\<rparr>"

definition record_registration ::
  "coordination_env \<Rightarrow> register_input \<Rightarrow> controller_identity option \<Rightarrow> string \<Rightarrow> instant \<Rightarrow> ownership_subject
     \<Rightarrow> ownership_outcome \<Rightarrow> ownership_result co_op" where
  "record_registration env inp controller hash now sub outcome =
     op_bind (ownership_audit_of env (rg_mutationId inp) OwRegister (rg_subjectId inp) (rg_actor inp)
       (rg_reason inp) None (Some (ow_lease sub)) (AuditCode (oo_code outcome))) (\<lambda>audit.
     op_bind (ownership_result_of (rg_mutationId inp) OwRegister [outcome]) (\<lambda>res.
     op_bind (budget_audits env inp sub (ow_budget sub)) (\<lambda>audits.
     op_bind (case controller of None \<Rightarrow> op_return []
              | Some c \<Rightarrow> op_bind (connectedObservation c now ''subject registration'') (\<lambda>l. op_return [l])) (\<lambda>live.
     op_then (persistReceipt env res
                (no_changes\<lparr>tx_subjects := [sub], tx_audits := audit # audits, tx_liveness := live\<rparr>) (Some hash))
     (op_then (co_notify (rg_subjectId inp) (ow_budget sub)) (op_return res))))))"

definition first_token :: "coordination_env \<Rightarrow> controller_identity option \<Rightarrow> (string option) co_op" where
  "first_token env controller =
     (case controller of None \<Rightarrow> op_return None
      | Some _ \<Rightarrow> op_bind (co_ask (ce_token env)) (\<lambda>t. op_return (Some t)))"

definition register_fresh ::
  "coordination_env \<Rightarrow> register_input \<Rightarrow> controller_identity option \<Rightarrow> string \<Rightarrow> ownership_result co_op" where
  "register_fresh env inp controller hash =
     op_bind (co_ask (ce_clock env)) (\<lambda>now.
     op_bind (first_token env controller) (\<lambda>token.
     op_bind (co_ask (ce_uuid env)) (\<lambda>leaseId.
       let sub = registered_subject env inp controller token leaseId now
       in record_registration env inp controller hash now sub
            ((lease_outcome sub (if controller = None then OcOrphaned else OcAcquired))\<lparr>oo_leaseToken := token\<rparr>))))"

definition register_work ::
  "coordination_env \<Rightarrow> register_input \<Rightarrow> controller_identity option \<Rightarrow> string \<Rightarrow> ownership_result co_op" where
  "register_work env inp controller hash =
     op_bind (op_gets (\<lambda>s. js_get (co_subjects s) (rg_subjectId inp))) (\<lambda>found.
       case found of Some existing \<Rightarrow> register_existing env inp controller hash existing
       | None \<Rightarrow> register_fresh env inp controller hash)"

definition registerSubject :: "coordination_env \<Rightarrow> register_input \<Rightarrow> ownership_result co_op" where
  "registerSubject env inp =
     op_then co_assertReady
     (op_bind (parse_controller env (rg_actor inp)) (\<lambda>_.
      op_bind (parse_optional_controller env (rg_controller inp)) (\<lambda>controller.
        if (case rg_budget inp of None \<Rightarrow> False | Some d \<Rightarrow> \<not> declaration_valid d) then op_throw CoInvalidRequest
        else if rg_budget inp \<noteq> None \<and> \<not> rg_isWorker inp then op_throw CoBudgetUnsupported
        else let hash = ce_registerHash env (rg_subjectId inp) (rg_budget inp)
          in op_bind (replayRegistration (rg_mutationId inp) hash) (\<lambda>replay.
             case replay of Some res \<Rightarrow> op_return res | None \<Rightarrow> register_work env inp controller hash))))"

subsection \<open>Liveness, expiry and reconciled lifecycles\<close>

record liveness_input =
  ln_mutationId :: ident
  ln_controller :: controller_identity
  ln_connected :: bool
  ln_reason :: string
  ln_session :: "(ident \<times> nat) option"

text \<open>The outgoing observation is evaluated before it is replaced.\<close>

definition outgoing_copy ::
  "coordination_env \<Rightarrow> coordination \<Rightarrow> liveness_input \<Rightarrow> instant \<Rightarrow> ownership_subject \<Rightarrow> ownership_subject" where
  "outgoing_copy env s inp now sub =
     (if ln_session inp \<noteq> None \<and> \<not> vouched (controllerLiveness sub (co_liveness s))
      then sub else expiredCopy env s sub now)"

definition controlled_by :: "ident \<Rightarrow> ownership_subject \<Rightarrow> bool" where
  "controlled_by c sub = (map_option ci_controllerId (cl_controller (ow_lease sub)) = Some c)"

definition liveness_entry :: "liveness_input \<Rightarrow> controller_identity \<Rightarrow> instant \<Rightarrow> controller_liveness" where
  "liveness_entry inp c now =
     \<lparr>lv_controller = c, lv_connected = ln_connected inp, lv_observedAt = now, lv_reason = ln_reason inp,
      lv_session = ln_session inp\<rparr>"

definition liveness_outcome ::
  "coordination_env \<Rightarrow> controller_liveness \<Rightarrow> instant \<Rightarrow> ownership_subject \<Rightarrow> ownership_outcome" where
  "liveness_outcome env entry now sub =
     (let projected = observedLeaseCopy sub (Some entry) now (ce_leaseDurationMs env) (ce_gracePeriodMs env)
      in lease_outcome projected (if isControlled projected then OcAlreadyControlled else OcOrphaned))"

definition record_liveness ::
  "coordination_env \<Rightarrow> ident \<Rightarrow> controller_liveness \<Rightarrow> instant \<Rightarrow> ownership_subject list \<Rightarrow> ownership_result co_op" where
  "record_liveness env mid entry now subs =
     op_bind (ownership_result_of mid OwLiveness (map (liveness_outcome env entry now) subs)) (\<lambda>res.
       op_then (persistReceipt env res
          (no_changes\<lparr>tx_liveness := [entry],
             tx_subjects := filter (\<lambda>sub. cl_state (ow_lease sub) = ClOrphaned) subs\<rparr>) None)
         (op_return res))"

definition observeControllerLiveness :: "coordination_env \<Rightarrow> liveness_input \<Rightarrow> ownership_result co_op" where
  "observeControllerLiveness env inp =
     with_receipt (ln_mutationId inp) OwLiveness
       (op_bind (co_ask (ce_clock env)) (\<lambda>now.
        op_bind (parse_controller env (ln_controller inp)) (\<lambda>c.
        op_bind (op_gets (\<lambda>s. map (outgoing_copy env s inp now)
            (filter (controlled_by (ci_controllerId c)) (js_values (co_subjects s)))))
          (record_liveness env (ln_mutationId inp) (liveness_entry inp c now) now))))"

definition expired_lease :: "ownership_subject \<Rightarrow> string \<Rightarrow> instant \<Rightarrow> ownership_subject" where
  "expired_lease sub reason now =
     sub\<lparr>ow_lease := (ow_lease sub)\<lparr>cl_state := ClExpired, cl_tokenHash := None, cl_reason := Some reason,
            cl_contest := None\<rparr>,
         ow_updatedAt := now\<rparr>"

definition orphaned_lease :: "ownership_subject \<Rightarrow> instant \<Rightarrow> ownership_subject" where
  "orphaned_lease sub now = sub\<lparr>ow_lease := (ow_lease sub)\<lparr>cl_state := ClOrphaned, cl_orphanedAt := Some now\<rparr>\<rparr>"

definition expire_subject ::
  "coordination_env \<Rightarrow> ident \<Rightarrow> controller_identity \<Rightarrow> string \<Rightarrow> instant \<Rightarrow> ownership_subject
     \<Rightarrow> (ownership_subject \<times> ownership_outcome \<times> ownership_audit list) co_op" where
  "expire_subject env mid actor reason now sub =
     (let expired = expired_lease sub reason now; orphaned = orphaned_lease expired now
      in op_bind (ownership_audit_of env mid OwExpire (ow_subjectId sub) actor reason
           (Some (ow_lease sub)) (Some (ow_lease expired)) (AuditNote ''LEASE_EXPIRED'')) (\<lambda>a1.
         op_bind (ownership_audit_of env mid OwExpire (ow_subjectId sub) actor reason
           (Some (ow_lease expired)) (Some (ow_lease orphaned)) (AuditCode OcOrphaned)) (\<lambda>a2.
           op_return (orphaned, lease_outcome orphaned OcOrphaned, [a1, a2]))))"

definition record_expiry ::
  "coordination_env \<Rightarrow> ident \<Rightarrow> (ownership_subject \<times> ownership_outcome \<times> ownership_audit list) list
     \<Rightarrow> ownership_result co_op" where
  "record_expiry env mid cs =
     op_bind (ownership_result_of mid OwExpire (map (\<lambda>(_, o', _). o') cs)) (\<lambda>res.
       op_then (persistReceipt env res
          (no_changes\<lparr>tx_subjects := map fst cs, tx_audits := concat (map (\<lambda>(_, _, as). as) cs)\<rparr>) None)
         (op_return res))"

definition expireLeases :: "coordination_env \<Rightarrow> ident \<Rightarrow> controller_identity option \<Rightarrow> string \<Rightarrow> ownership_result co_op" where
  "expireLeases env mid actor reason =
     with_receipt mid OwExpire
       (op_bind (co_ask (ce_clock env)) (\<lambda>now.
        op_bind (op_gets (\<lambda>s. filter (\<lambda>sub. lease_isExpired env s sub now) (js_values (co_subjects s)))) (\<lambda>due.
        op_bind (change_each (expire_subject env mid (case actor of None \<Rightarrow> BROKER_ACTOR | Some a \<Rightarrow> a) reason now) due)
          (record_expiry env mid))))"

definition reconcileLifecycle ::
  "coordination_env \<Rightarrow> ident \<Rightarrow> ident \<Rightarrow> worker_lifecycle \<Rightarrow> string \<Rightarrow> ownership_subject co_op" where
  "reconcileLifecycle env mid i lifecycle reason =
     op_then co_assertReady
     (op_bind (requireSubject i) (\<lambda>sub.
        if ow_lifecycle sub = lifecycle
        then op_bind (co_ask (ce_clock env)) (\<lambda>now. op_gets (\<lambda>s. expiredCopy env s sub now))
        else op_bind (co_ask (ce_clock env)) (\<lambda>now.
          let updated = sub\<lparr>ow_lifecycle := lifecycle, ow_updatedAt := now\<rparr>
          in op_bind (ownership_audit_of env mid OwLifecycle i BROKER_ACTOR reason
               (Some (ow_lease sub)) (Some (ow_lease sub)) (AuditNote ''RECONCILED'')) (\<lambda>audit.
             op_then (commit env (no_changes\<lparr>tx_subjects := [updated], tx_audits := [audit]\<rparr>))
             (op_bind (co_ask (ce_clock env)) (\<lambda>later. op_gets (\<lambda>s. expiredCopy env s updated later)))))))"

subsection \<open>Batch adoption\<close>

definition adopt_failure :: "bool \<Rightarrow> ownership_subject \<Rightarrow> ownership_outcome option" where
  "adopt_failure adopting current =
     (if terminal_lifecycle (ow_lifecycle current) then Some (lease_outcome current OcWorkerTerminal)
      else if isControlled current then Some (lease_outcome current OcLeaseConflict)
      else let state = cl_state (ow_lease current)
        in if (if adopting then state = ClOrphaned \<or> state = ClExpired else state = ClReleased) then None
           else Some (lease_outcome current OcNotEligible))"

text \<open>A candidate is the stored subject, its projection and why it cannot be taken, if so.\<close>

type_synonym candidate = "ownership_subject option \<times> ownership_subject \<times> ownership_outcome option"

fun adopt_candidates ::
  "coordination_env \<Rightarrow> instant \<Rightarrow> ident list \<Rightarrow> (ident \<times> bool) list \<Rightarrow> (candidate list) co_op" where
  "adopt_candidates env now seen [] = op_return []"
| "adopt_candidates env now seen ((i, adopting) # ms) =
     (if i \<in> set seen then op_throw CoDuplicateMember
      else op_bind (requireSubject i) (\<lambda>original.
           op_bind (op_gets (\<lambda>s. expiredCopy env s original now)) (\<lambda>current.
           op_bind (adopt_candidates env now (i # seen) ms) (\<lambda>rest.
             op_return ((Some original, current, adopt_failure adopting current) # rest)))))"

definition aborted_outcome :: "candidate \<Rightarrow> ownership_outcome" where
  "aborted_outcome c =
     (case c of (_, current, failure) \<Rightarrow> (case failure of Some f \<Rightarrow> f | None \<Rightarrow> lease_outcome current OcNotEligible))"

definition batch_failed :: "candidate list \<Rightarrow> bool" where
  "batch_failed cs = list_ex (\<lambda>(_, _, failure). failure \<noteq> None) cs"

definition batch_change ::
  "coordination_env \<Rightarrow> ownership_operation \<Rightarrow> ident \<Rightarrow> controller_identity \<Rightarrow> string \<Rightarrow> instant \<Rightarrow> controller_identity
     \<Rightarrow> (candidate \<Rightarrow> outcome_code) \<Rightarrow> candidate \<Rightarrow> lease_change co_op" where
  "batch_change env operation mid actor reason now c code cand =
     (case cand of (prior, current, _) \<Rightarrow>
        op_bind (withNewController env current c now (code cand)) (\<lambda>(new, outcome).
        op_bind (ownership_audit_of env mid operation (ow_subjectId new) actor reason
                   (map_option ow_lease prior) (Some (ow_lease new)) (AuditCode (oo_code outcome))) (\<lambda>audit.
          op_return (new, outcome, audit))))"

definition batch_result ::
  "ident \<Rightarrow> ownership_operation \<Rightarrow> bool \<Rightarrow> ownership_outcome list \<Rightarrow> worker_handoff option \<Rightarrow> ownership_result co_op" where
  "batch_result mid operation committed outcomes handoff =
     op_bind (ownership_result_of mid operation outcomes) (\<lambda>res.
       op_return (res\<lparr>or_committed := Some committed, or_handoff := handoff\<rparr>))"

definition batch_abort ::
  "coordination_env \<Rightarrow> ident \<Rightarrow> ownership_operation \<Rightarrow> candidate list \<Rightarrow> string option \<Rightarrow> ownership_result co_op" where
  "batch_abort env mid operation cs hash =
     op_bind (batch_result mid operation False (map aborted_outcome cs) None) (\<lambda>res.
       op_then (persistReceipt env res no_changes hash) (op_return res))"

definition replayAdoptBatch :: "ident \<Rightarrow> (ownership_result option) co_op" where
  "replayAdoptBatch mid =
     op_bind (op_gets (\<lambda>s. js_get (cs_receipts (co_state s)) mid)) (\<lambda>receipt.
       case receipt of None \<Rightarrow> op_return None
       | Some r \<Rightarrow>
           if rt_operation r \<noteq> OwAdopt then op_throw CoMutationIdCollision
           else case rt_result r of
             OwnershipReceipt res \<Rightarrow>
               if or_committed res = None then op_throw CoMutationIdCollision
               else op_return (Some (res\<lparr>or_idempotentReplay := True, or_handoff := None\<rparr>))
           | _ \<Rightarrow> op_throw CoMutationIdCollision)"

record adopt_batch_input =
  ab_mutationId :: ident
  ab_actor :: controller_identity
  ab_newController :: controller_identity
  ab_members :: "(ident \<times> bool) list"
  ab_reason :: string

definition adopt_batch_commit ::
  "coordination_env \<Rightarrow> adopt_batch_input \<Rightarrow> instant \<Rightarrow> candidate list \<Rightarrow> ownership_result co_op" where
  "adopt_batch_commit env inp now cs =
     op_bind (change_each (batch_change env OwAdopt (ab_mutationId inp) (ab_actor inp) (ab_reason inp) now
                (ab_newController inp) (\<lambda>_. OcAcquired)) cs) (\<lambda>changes.
     op_bind (batch_result (ab_mutationId inp) OwAdopt True (map (\<lambda>(_, o', _). o') changes) None) (\<lambda>res.
     op_bind (if changes = [] then op_return []
              else op_bind (connectedObservation (ab_newController inp) now ''atomic adopt call'')
                     (\<lambda>l. op_return [l])) (\<lambda>live.
     op_then (persistReceipt env res (changes_transaction changes live) None) (op_return res))))"

definition adoptBatch :: "coordination_env \<Rightarrow> adopt_batch_input \<Rightarrow> ownership_result co_op" where
  "adoptBatch env inp =
     op_then co_assertReady
     (op_bind (replayAdoptBatch (ab_mutationId inp)) (\<lambda>replay.
        case replay of Some res \<Rightarrow> op_return res
        | None \<Rightarrow>
            op_bind (parse_controller env (ab_actor inp)) (\<lambda>_.
            op_bind (parse_controller env (ab_newController inp)) (\<lambda>_.
            op_bind (co_ask (ce_clock env)) (\<lambda>now.
            op_bind (adopt_candidates env now [] (ab_members inp)) (\<lambda>cs.
              if batch_failed cs then batch_abort env (ab_mutationId inp) OwAdopt cs None
              else adopt_batch_commit env inp now cs))))))"

subsection \<open>Directed handoff\<close>

record handoff_member =
  hb_subjectId :: ident
  hb_name :: "string option"
  hb_register :: "(worker_origin \<times> worker_lifecycle \<times> resource_refs) option"

record handoff_input =
  hi_mutationId :: ident
  hi_actor :: controller_identity
  hi_recipient :: controller_identity
  hi_recipientSessionId :: ident
  hi_directive :: string
  hi_members :: "handoff_member list"
  hi_reason :: string
  hi_handoffId :: "ident option"
  hi_observeLifecycle :: "ident \<Rightarrow> worker_lifecycle option"

definition handoff_payload_of :: "handoff_input \<Rightarrow> handoff_members \<Rightarrow> handoff_payload" where
  "handoff_payload_of inp members =
     \<lparr>hp_actor = hi_actor inp, hp_recipient = hi_recipient inp, hp_recipientSessionId = hi_recipientSessionId inp,
      hp_directive = hi_directive inp, hp_members = members, hp_reason = hi_reason inp, hp_handoffId = hi_handoffId inp\<rparr>"

definition hashHandoffRequest :: "coordination_env \<Rightarrow> handoff_input \<Rightarrow> string" where
  "hashHandoffRequest env inp = ce_handoffHash env (handoff_payload_of inp (MemberIds (map hb_subjectId (hi_members inp))))"

definition legacyHashHandoffRequest :: "coordination_env \<Rightarrow> handoff_input \<Rightarrow> string" where
  "legacyHashHandoffRequest env inp =
     ce_handoffHash env (handoff_payload_of inp (NamedMembers (map (\<lambda>m. (hb_subjectId m, hb_name m)) (hi_members inp))))"

definition replayHandoffBatch :: "ident \<Rightarrow> string \<Rightarrow> string \<Rightarrow> (ownership_result option) co_op" where
  "replayHandoffBatch mid hash legacy =
     op_bind (op_gets (\<lambda>s. js_get (cs_receipts (co_state s)) mid)) (\<lambda>receipt.
       case receipt of None \<Rightarrow> op_return None
       | Some r \<Rightarrow>
           if rt_operation r \<noteq> OwHandoff \<or> (rt_requestHash r \<noteq> Some hash \<and> rt_requestHash r \<noteq> Some legacy)
           then op_throw CoMutationIdCollision
           else case rt_result r of
             OwnershipReceipt res \<Rightarrow>
               if or_committed res = None then op_throw CoMutationIdCollision
               else op_return (Some (res\<lparr>or_idempotentReplay := True\<rparr>))
           | _ \<Rightarrow> op_throw CoMutationIdCollision)"

definition unownedSubject ::
  "coordination_env \<Rightarrow> ident \<Rightarrow> worker_origin \<times> worker_lifecycle \<times> resource_refs \<Rightarrow> instant \<Rightarrow> ownership_subject co_op" where
  "unownedSubject env i reg now =
     (case reg of (origin, lifecycle, resources) \<Rightarrow>
        op_bind (co_ask (ce_uuid env)) (\<lambda>leaseId.
          op_return \<lparr>ow_subjectId = i, ow_isWorker = True, ow_origin = origin, ow_lifecycle = lifecycle,
            ow_resources = resources, ow_budget = None,
            ow_lease = first_lease env leaseId None None ''registered by directed handoff'' now,
            ow_decisionGate = GateOpen, ow_updatedAt = now\<rparr>))"

definition handoff_current ::
  "coordination_env \<Rightarrow> instant \<Rightarrow> handoff_member \<Rightarrow> (ownership_subject option \<times> ownership_subject) co_op" where
  "handoff_current env now m =
     op_bind (op_gets (\<lambda>s. js_get (co_subjects s) (hb_subjectId m))) (\<lambda>found.
       case found of
         Some existing \<Rightarrow> op_bind (op_gets (\<lambda>s. expiredCopy env s existing now)) (\<lambda>c. op_return (Some existing, c))
       | None \<Rightarrow>
           (case hb_register m of None \<Rightarrow> op_throw CoSubjectNotFound
            | Some reg \<Rightarrow> op_bind (unownedSubject env (hb_subjectId m) reg now) (\<lambda>c. op_return (None, c))))"

definition handoff_failure :: "worker_lifecycle option \<Rightarrow> ownership_subject \<Rightarrow> ownership_outcome option" where
  "handoff_failure observed current =
     (if \<not> ow_isWorker current then Some (lease_outcome current OcNotEligible)
      else if terminal_lifecycle (ow_lifecycle current)
        \<or> (case observed of None \<Rightarrow> False | Some l \<Rightarrow> terminal_lifecycle l)
      then Some (lease_outcome current OcWorkerTerminal) else None)"

fun handoff_candidates ::
  "coordination_env \<Rightarrow> instant \<Rightarrow> (ident \<Rightarrow> worker_lifecycle option) \<Rightarrow> ident list \<Rightarrow> handoff_member list \<Rightarrow> (candidate list) co_op" where
  "handoff_candidates env now observe seen [] = op_return []"
| "handoff_candidates env now observe seen (m # ms) =
     (if hb_subjectId m \<in> set seen then op_throw CoDuplicateMember
      else op_bind (handoff_current env now m) (\<lambda>(prior, current).
           op_bind (handoff_candidates env now observe (hb_subjectId m # seen) ms) (\<lambda>rest.
             op_return ((prior, current, handoff_failure (observe (hb_subjectId m)) current) # rest))))"

definition handoff_code :: "controller_identity \<Rightarrow> candidate \<Rightarrow> outcome_code" where
  "handoff_code recipient cand =
     (case cand of (prior, current, _) \<Rightarrow>
        if prior = None then OcAcquired
        else if controlled_by (ci_controllerId recipient) current then OcAlreadyControlled else OcTransferred)"

definition manifest_entry :: "handoff_member \<Rightarrow> candidate \<Rightarrow> handoff_entry" where
  "manifest_entry m cand =
     (case cand of (prior, current, _) \<Rightarrow>
        \<lparr>he_workerId = ow_subjectId current, he_taskId = wo_taskId (ow_origin current),
         he_waveId = wo_waveId (ow_origin current), he_name = hb_name m,
         he_worktreePath = rr_worktreePath (ow_resources current), he_lifecycle = ow_lifecycle current,
         he_priorControllerId = (case prior of None \<Rightarrow> None
            | Some p \<Rightarrow> map_option ci_controllerId (cl_controller (ow_lease p)))\<rparr>)"

definition parse_handoff :: "worker_handoff \<Rightarrow> worker_handoff co_op" where
  "parse_handoff h =
     (if bounded_text 2048 (js_trim (wh_directive h)) \<and> wh_manifest h \<noteq> [] \<and> length (wh_manifest h) \<le> 64
      then op_return (h\<lparr>wh_directive := js_trim (wh_directive h)\<rparr>) else op_throw CoInvalidRequest)"

definition handoff_record :: "coordination_env \<Rightarrow> handoff_input \<Rightarrow> instant \<Rightarrow> candidate list \<Rightarrow> worker_handoff co_op" where
  "handoff_record env inp now cs =
     op_bind (case hi_handoffId inp of Some i \<Rightarrow> op_return i | None \<Rightarrow> co_ask (ce_uuid env)) (\<lambda>i.
       parse_handoff \<lparr>wh_handoffId = i, wh_recipient = hi_recipient inp,
         wh_recipientSessionId = hi_recipientSessionId inp, wh_issuedBy = hi_actor inp,
         wh_directive = hi_directive inp, wh_manifest = map2 manifest_entry (hi_members inp) cs,
         wh_issuedAt = now, wh_state = HandoffPending, wh_acknowledgedAt = None\<rparr>)"

definition handoff_commit ::
  "coordination_env \<Rightarrow> handoff_input \<Rightarrow> instant \<Rightarrow> candidate list \<Rightarrow> string \<Rightarrow> ownership_result co_op" where
  "handoff_commit env inp now cs hash =
     op_bind (change_each (batch_change env OwHandoff (hi_mutationId inp) (hi_actor inp) (hi_reason inp) now
                (hi_recipient inp) (handoff_code (hi_recipient inp))) cs) (\<lambda>changes.
     op_bind (handoff_record env inp now cs) (\<lambda>handoff.
     op_bind (batch_result (hi_mutationId inp) OwHandoff True (map (\<lambda>(_, o', _). o') changes) (Some handoff)) (\<lambda>res.
     op_bind (connectedObservation (hi_recipient inp) now ''directed worker handoff'') (\<lambda>live.
     op_then (persistReceipt env res ((changes_transaction changes [live])\<lparr>tx_handoffs := [handoff]\<rparr>) (Some hash))
       (op_return res)))))"

definition handoffBatch :: "coordination_env \<Rightarrow> handoff_input \<Rightarrow> ownership_result co_op" where
  "handoffBatch env inp =
     op_then co_assertReady
     (op_bind (parse_controller env (hi_actor inp)) (\<lambda>_.
      op_bind (parse_controller env (hi_recipient inp)) (\<lambda>_.
        let hash = hashHandoffRequest env inp
        in op_bind (replayHandoffBatch (hi_mutationId inp) hash (legacyHashHandoffRequest env inp)) (\<lambda>replay.
           case replay of Some res \<Rightarrow> op_return res
           | None \<Rightarrow>
               op_bind (co_ask (ce_clock env)) (\<lambda>now.
               op_bind (handoff_candidates env now (hi_observeLifecycle inp) [] (hi_members inp)) (\<lambda>cs.
                 if batch_failed cs then batch_abort env (hi_mutationId inp) OwHandoff cs (Some hash)
                 else handoff_commit env inp now cs hash))))))"

definition listHandoffs ::
  "coordination \<Rightarrow> ident option \<Rightarrow> handoff_state option \<Rightarrow> worker_handoff list" where
  "listHandoffs s controllerId state =
     js_sort (\<lambda>l r. js_compare (wh_issuedAt l) (wh_issuedAt r))
       (filter (\<lambda>h. (controllerId = None \<or> Some (ci_controllerId (wh_recipient h)) = controllerId)
                   \<and> (state = None \<or> Some (wh_state h) = state)) (js_values (cs_handoffs (co_state s))))"

definition pendingHandoffs :: "ident \<Rightarrow> nat \<Rightarrow> (worker_handoff list) co_op" where
  "pendingHandoffs controllerId limit =
     op_then co_assertReady
       (if limit < 1 then op_throw CoInvalidRequest
        else op_gets (\<lambda>s. take limit (listHandoffs s (Some controllerId) (Some HandoffPending))))"

definition owned_handoff :: "ident \<Rightarrow> ident \<Rightarrow> worker_handoff co_op" where
  "owned_handoff controllerId i =
     op_bind (op_gets (\<lambda>s. js_get (cs_handoffs (co_state s)) i)) (\<lambda>found.
       case found of None \<Rightarrow> op_throw CoHandoffNotFound
       | Some h \<Rightarrow> if ci_controllerId (wh_recipient h) = controllerId then op_return h else op_throw CoHandoffNotFound)"

definition acknowledged :: "instant \<Rightarrow> worker_handoff \<Rightarrow> worker_handoff" where
  "acknowledged now h =
     (if wh_state h = HandoffPending then h\<lparr>wh_state := HandoffAcknowledged, wh_acknowledgedAt := Some now\<rparr> else h)"

text \<open>\<^verbatim>\<open>new Set\<close> keeps the first of equal ids.\<close>

definition acknowledgeHandoffs :: "coordination_env \<Rightarrow> ident \<Rightarrow> ident list \<Rightarrow> (worker_handoff list) co_op" where
  "acknowledgeHandoffs env controllerId ids =
     op_then co_assertReady
       (let unique = fold js_add ids []
        in if unique = [] then op_return []
           else op_bind (change_each (owned_handoff controllerId) unique) (\<lambda>records.
                op_bind (co_ask (ce_clock env)) (\<lambda>now.
                  let changed = map (acknowledged now) (filter (\<lambda>h. wh_state h = HandoffPending) records)
                  in op_then (op_when (changed \<noteq> []) (commit env (no_changes\<lparr>tx_handoffs := changed\<rparr>)))
                       (op_return (map (acknowledged now) records)))))"

end
