(* ===== verification/Worker_Events.thy ===== *)
theory Worker_Events
  imports Worker_Ownership
begin

text \<open>
  The event half of \<^verbatim>\<open>src/src/broker/worker-coordination.ts\<close>: submission of worker events with its
  limits and acknowledgements, resolution, the paged projection, checkpoint requests and the record of
  modal answers, with the event schema of \<^verbatim>\<open>src/src/domain/worker-coordination.ts\<close>.

  A submitted payload is given by what the service reads of it: the raw \<^verbatim>\<open>eventId\<close>, the length of its
  JSON, and its fields or the first complaint about its shape. The limits of the schema are written out
  on the fields, in the order in which the parser reports them.
\<close>

subsection \<open>The event schema\<close>

datatype event_issue = IssueTooBig | IssueOther

record event_limits =
  lim_payloadBytes :: nat
  lim_summaryChars :: nat
  lim_facts :: nat
  lim_evidenceRefs :: nat
  lim_changedAssumptions :: nat
  lim_recommendationChars :: nat
  lim_fieldChars :: nat

definition WORKER_EVENT_LIMITS :: event_limits where
  "WORKER_EVENT_LIMITS = \<lparr>lim_payloadBytes = 16384, lim_summaryChars = 1024, lim_facts = 32, lim_evidenceRefs = 16,
     lim_changedAssumptions = 16, lim_recommendationChars = 1024, lim_fieldChars = 512\<rparr>"

definition text_issue :: "nat \<Rightarrow> string \<Rightarrow> event_issue option" where
  "text_issue n t = (if t = [] then Some IssueOther else if n < length t then Some IssueTooBig else None)"

definition optional_issue :: "nat \<Rightarrow> string option \<Rightarrow> event_issue option" where
  "optional_issue n t = (case t of None \<Rightarrow> None | Some t \<Rightarrow> text_issue n t)"

text \<open>\<^verbatim>\<open>z.number().int().positive()\<close> refuses integers beyond \<^verbatim>\<open>Number.MAX_SAFE_INTEGER\<close> as too big.\<close>

definition integer_issue :: "nat \<Rightarrow> event_issue option" where
  "integer_issue n = (if 9007199254740991 < n then Some IssueTooBig else if n = 0 then Some IssueOther else None)"

fun first_issue :: "event_issue option list \<Rightarrow> event_issue option" where
  "first_issue [] = None"
| "first_issue (None # is) = first_issue is"
| "first_issue (Some i # is) = Some i"

definition array_issue :: "nat \<Rightarrow> string list \<Rightarrow> event_issue option" where
  "array_issue n xs =
     first_issue (map (text_issue (lim_fieldChars WORKER_EVENT_LIMITS)) xs
       @ [if n < length xs then Some IssueTooBig else None])"

fun scalar_valid :: "nat \<Rightarrow> fact_scalar \<Rightarrow> bool" where
  "scalar_valid n (FactText t) = (length t \<le> n)"
| "scalar_valid n (FactNumber _) = True"
| "scalar_valid n (FactFlag _) = True"
| "scalar_valid n FactNull = True"

fun fact_valid :: "fact_value \<Rightarrow> bool" where
  "fact_valid (FactScalar x) = scalar_valid 1024 x"
| "fact_valid (FactList xs) = (length xs \<le> 32 \<and> list_all (scalar_valid 512) xs)"

definition facts_issue :: "(string \<times> fact_value) list option \<Rightarrow> event_issue option" where
  "facts_issue facts =
     (case facts of None \<Rightarrow> None
      | Some fs \<Rightarrow> if list_all (\<lambda>(k, v). bounded_text 128 k \<and> fact_valid v) fs
            \<and> length fs \<le> lim_facts WORKER_EVENT_LIMITS then None else Some IssueOther)"

definition event_issue_of :: "coordination_env \<Rightarrow> worker_event \<Rightarrow> event_issue option" where
  "event_issue_of env e =
     first_issue [text_issue 256 (se_eventId e), integer_issue (se_sequence e),
       if ce_isUuid env (se_workerId e) then None else Some IssueOther,
       text_issue 256 (se_taskId e), optional_issue 256 (se_waveId e),
       integer_issue (se_controllerLeaseVersion e),
       text_issue (lim_summaryChars WORKER_EVENT_LIMITS) (se_summary e),
       facts_issue (se_structuredFacts e),
       array_issue (lim_evidenceRefs WORKER_EVENT_LIMITS) (se_evidenceRefs e),
       array_issue (lim_changedAssumptions WORKER_EVENT_LIMITS) (se_changedAssumptions e),
       optional_issue (lim_recommendationChars WORKER_EVENT_LIMITS) (se_recommendedAction e),
       optional_issue 256 (se_checkpointCorrelationId e)]"

record submitted_event =
  sv_rawId :: "string option"
  sv_bytes :: "nat option"
  sv_shape :: "event_issue + worker_event"

definition eventIdOf :: "submitted_event \<Rightarrow> ident" where
  "eventIdOf v =
     (case sv_rawId v of None \<Rightarrow> ''invalid-event''
      | Some t \<Rightarrow> if take 256 t = [] then ''invalid-event'' else take 256 t)"

definition parsed_event :: "coordination_env \<Rightarrow> submitted_event \<Rightarrow> event_issue + worker_event" where
  "parsed_event env v =
     (case sv_shape v of Inl i \<Rightarrow> Inl i
      | Inr e \<Rightarrow> (case event_issue_of env e of Some i \<Rightarrow> Inl i | None \<Rightarrow> Inr e))"

subsection \<open>Coalescing progress\<close>

definition js_slice_last :: "nat \<Rightarrow> 'a list \<Rightarrow> 'a list" where
  "js_slice_last n xs = drop (length xs - n) xs"

text \<open>
  The entries of a JavaScript object: keys that are array indices first, by value, then the others in
  the order in which they were set.
\<close>

definition digit_value :: "char \<Rightarrow> nat" where
  "digit_value c = of_char c - 48"

definition index_value :: "string \<Rightarrow> nat" where
  "index_value k = fold (\<lambda>c n. 10 * n + digit_value c) k 0"

definition array_index :: "string \<Rightarrow> bool" where
  "array_index k =
     (k \<noteq> [] \<and> list_all (\<lambda>c. 48 \<le> (of_char c :: nat) \<and> (of_char c :: nat) \<le> 57) k
      \<and> (k = ''0'' \<or> hd k \<noteq> CHR ''0'') \<and> index_value k < 4294967295)"

definition object_entries :: "(string, 'v) js_map \<Rightarrow> (string \<times> 'v) list" where
  "object_entries m =
     sort_key (\<lambda>(k, _). index_value k) (filter (\<lambda>(k, _). array_index k) m) @ filter (\<lambda>(k, _). \<not> array_index k) m"

definition spread :: "(string \<times> 'v) list \<Rightarrow> (string, 'v) js_map \<Rightarrow> (string, 'v) js_map" where
  "spread kvs m = fold (\<lambda>(k, v). js_set k v) kvs m"

definition facts_of :: "(string \<times> fact_value) list option \<Rightarrow> (string \<times> fact_value) list" where
  "facts_of fs = (case fs of None \<Rightarrow> [] | Some fs \<Rightarrow> fs)"

definition merged_progress :: "stored_event \<Rightarrow> worker_event \<Rightarrow> worker_event" where
  "merged_progress previous e =
     e\<lparr>se_evidenceRefs := js_slice_last (lim_evidenceRefs WORKER_EVENT_LIMITS)
          (fold js_add (se_evidenceRefs previous @ se_evidenceRefs e) []),
       se_changedAssumptions := js_slice_last (lim_changedAssumptions WORKER_EVENT_LIMITS)
          (fold js_add (se_changedAssumptions previous @ se_changedAssumptions e) []),
       se_structuredFacts := Some (js_slice_last (lim_facts WORKER_EVENT_LIMITS) (object_entries
          (spread (facts_of (se_structuredFacts e)) (spread (facts_of (se_structuredFacts previous)) []))))\<rparr>"

definition mergeProgress :: "coordination_env \<Rightarrow> stored_event \<Rightarrow> worker_event \<Rightarrow> worker_event co_op" where
  "mergeProgress env previous e =
     (let m = merged_progress previous e
      in if event_issue_of env m = None then op_return m else op_throw CoInvalidRequest)"

subsection \<open>Acknowledgements\<close>

definition plain_ack :: "ack_code \<Rightarrow> ident \<Rightarrow> event_ack" where
  "plain_ack code i = \<lparr>ea_code = code, ea_eventId = i, ea_sequence = None, ea_expectedSequence = None,
     ea_sequenceGap = None, ea_supersededEventIds = None, ea_errorCode = None\<rparr>"

definition recordAck ::
  "coordination_env \<Rightarrow> ident \<Rightarrow> ownership_operation \<Rightarrow> event_ack \<Rightarrow> coordination_transaction \<Rightarrow> event_ack co_op" where
  "recordAck env mid operation ack tx =
     op_then (persist_result env mid operation (AckReceipt ack) tx None) (op_return ack)"

definition rejectEvent ::
  "coordination_env \<Rightarrow> ident \<Rightarrow> ident \<Rightarrow> ack_error \<Rightarrow> (nat \<times> nat) option \<Rightarrow> coordination_transaction
     \<Rightarrow> ownership_operation \<Rightarrow> event_ack co_op" where
  "rejectEvent env mid i code sequences tx operation =
     recordAck env mid operation
       ((plain_ack AckRejected i)\<lparr>ea_sequence := map_option fst sequences,
          ea_expectedSequence := map_option snd sequences, ea_errorCode := Some code\<rparr>) tx"

definition replayAck :: "ident \<Rightarrow> ownership_operation \<Rightarrow> (event_ack option) co_op" where
  "replayAck mid operation =
     op_bind (op_gets (\<lambda>s. js_get (cs_receipts (co_state s)) mid)) (\<lambda>receipt.
       case receipt of None \<Rightarrow> op_return None
       | Some r \<Rightarrow>
           if rt_operation r \<noteq> operation then op_throw CoMutationIdCollision
           else case rt_result r of AckReceipt ack \<Rightarrow> op_return (Some ack) | _ \<Rightarrow> op_throw CoInvalidRequest)"

text \<open>Whether the projection of a subject is a new object, which is then stored with a refusal.\<close>

definition lease_copied :: "coordination_env \<Rightarrow> coordination \<Rightarrow> ownership_subject \<Rightarrow> instant \<Rightarrow> bool" where
  "lease_copied env s sub now =
     (isControlled sub \<and> vouched (controllerLiveness sub (co_liveness s)) \<or> lease_isExpired env s sub now)"

definition copied_subject :: "coordination_env \<Rightarrow> coordination \<Rightarrow> ownership_subject \<Rightarrow> instant \<Rightarrow> coordination_transaction" where
  "copied_subject env s sub now =
     (if lease_copied env s sub now then no_changes\<lparr>tx_subjects := [expiredCopy env s sub now]\<rparr> else no_changes)"

subsection \<open>Submission\<close>

record event_submission =
  eb_mutationId :: ident
  eb_controller :: controller_identity
  eb_leaseToken :: string
  eb_event :: submitted_event

abbreviation co_events :: "coordination \<Rightarrow> (ident, stored_event) js_map" where
  "co_events s \<equiv> cs_events (co_state s)"

definition rateCount :: "coordination_env \<Rightarrow> coordination \<Rightarrow> ident \<Rightarrow> instant \<Rightarrow> nat" where
  "rateCount env s w now =
     length (filter (\<lambda>e. se_workerId e = w \<and> se_receivedAt e > now - ce_eventRateWindowMs env) (js_values (co_events s)))"

definition worker_events :: "coordination \<Rightarrow> ident \<Rightarrow> stored_event list" where
  "worker_events s w = filter (\<lambda>e. se_workerId e = w) (js_values (co_events s))"

definition last_sequence :: "stored_event list \<Rightarrow> nat" where
  "last_sequence es = fold (\<lambda>e highest. max highest (se_sequence e)) es 0"

definition co_ordinal :: "nat co_op" where
  "co_ordinal =
     op_bind (op_gets co_nextOrdinal) (\<lambda>n.
       op_then (op_modify (\<lambda>s. s\<lparr>co_nextOrdinal := co_nextOrdinal s + 1\<rparr>)) (op_return n))"

definition first_by :: "('a \<Rightarrow> 'a \<Rightarrow> int) \<Rightarrow> 'a list \<Rightarrow> 'a option" where
  "first_by cmp xs = (case js_sort cmp xs of [] \<Rightarrow> None | x # _ \<Rightarrow> Some x)"

definition active_progress :: "stored_event list \<Rightarrow> stored_event option" where
  "active_progress es =
     first_by (\<lambda>l r. int (se_sequence r) - int (se_sequence l))
       (filter (\<lambda>e. se_kind e = EvProgress \<and> se_state e = EventActive) es)"

text \<open>Progress replaces the active progress of its worker and takes over its material.\<close>

definition supersede_previous ::
  "coordination_env \<Rightarrow> worker_event \<Rightarrow> instant \<Rightarrow> stored_event list \<Rightarrow> (worker_event \<times> stored_event list) co_op" where
  "supersede_previous env e now es =
     (if se_kind e \<noteq> EvProgress then op_return (e, [])
      else case active_progress es of None \<Rightarrow> op_return (e, [])
        | Some previous \<Rightarrow>
            op_bind (mergeProgress env previous e) (\<lambda>m.
            op_bind co_ordinal (\<lambda>n.
              op_return (m, [previous\<lparr>se_ordinal := n, se_state := EventSuperseded,
                se_supersededBy := Some (se_eventId e), se_resolvedAt := Some now\<rparr>]))))"

definition active_events :: "stored_event list \<Rightarrow> stored_event list" where
  "active_events es = filter (\<lambda>e. se_state e = EventActive) es"

definition evictable_event :: "stored_event list \<Rightarrow> stored_event option" where
  "evictable_event es = first_by event_order (filter (\<lambda>e. \<not> isPinned e) (active_events es))"

text \<open>A full queue closes its oldest event that is not pinned; without one, nothing fits.\<close>

definition make_room ::
  "coordination_env \<Rightarrow> worker_event \<Rightarrow> instant \<Rightarrow> stored_event list \<Rightarrow> stored_event list \<Rightarrow> (stored_event list option) co_op" where
  "make_room env e now es superseded =
     (if length (active_events es) + (if se_kind e = EvProgress \<and> superseded \<noteq> [] then 0 else 1)
           \<le> ce_maxQueuedEventsPerWorker env then op_return (Some [])
      else case evictable_event es of None \<Rightarrow> op_return None
        | Some v \<Rightarrow> op_bind co_ordinal (\<lambda>n.
            op_return (Some [v\<lparr>se_ordinal := n, se_state := EventClosed, se_resolvedAt := Some now,
              se_resolvedBy := Some BROKER_ACTOR\<rparr>])))"

definition stored_of :: "coordination_env \<Rightarrow> worker_event \<Rightarrow> worker_event \<Rightarrow> nat \<Rightarrow> instant \<Rightarrow> stored_event" where
  "stored_of env e material n now =
     worker_event.extend material (stored_event.fields n now (ce_hashEvent env e) EventActive None None None)"

definition getCheckpoint :: "coordination \<Rightarrow> ident \<Rightarrow> ident \<Rightarrow> checkpoint_request option" where
  "getCheckpoint s w c = js_get (cs_checkpoints (co_state s)) (checkpointKey w c)"

text \<open>A correlated checkpoint event answers its pending request and lifts the gate of that request.\<close>

definition lift_gate :: "checkpoint_request \<Rightarrow> ownership_subject \<Rightarrow> ownership_subject" where
  "lift_gate c sub =
     (case ow_decisionGate sub of
        GatePaused i _ \<Rightarrow> if ck_decisionGate c \<and> i = ck_correlationId c then sub\<lparr>ow_decisionGate := GateOpen\<rparr> else sub
      | GateOpen \<Rightarrow> sub)"

definition answer_checkpoint ::
  "coordination \<Rightarrow> worker_event \<Rightarrow> ownership_subject \<Rightarrow> instant \<Rightarrow> (ownership_subject \<times> checkpoint_request list) option" where
  "answer_checkpoint s e sub now =
     (case se_checkpointCorrelationId e of None \<Rightarrow> Some (sub, [])
      | Some i \<Rightarrow>
          (case getCheckpoint s (se_workerId e) i of None \<Rightarrow> None
           | Some c \<Rightarrow>
               if se_kind e \<noteq> EvCheckpoint \<or> ck_workerId c \<noteq> se_workerId e \<or> ck_state c \<noteq> CheckpointPending then None
               else Some (lift_gate c sub,
                 [c\<lparr>ck_state := CheckpointAnswered, ck_answeredByEventId := Some (se_eventId e), ck_answeredAt := Some now\<rparr>])))"

definition accepted_ack :: "worker_event \<Rightarrow> nat \<Rightarrow> stored_event list \<Rightarrow> event_ack" where
  "accepted_ack e expected superseded =
     (plain_ack AckAccepted (se_eventId e))\<lparr>ea_sequence := Some (se_sequence e),
        ea_expectedSequence := (if expected < se_sequence e then Some expected else None),
        ea_sequenceGap := (if expected < se_sequence e then Some (expected, se_sequence e) else None),
        ea_supersededEventIds := (if superseded = [] then None else Some (map se_eventId superseded))\<rparr>"

definition store_event ::
  "coordination_env \<Rightarrow> event_submission \<Rightarrow> worker_event \<Rightarrow> ownership_subject \<Rightarrow> instant \<Rightarrow> nat
     \<Rightarrow> worker_event \<Rightarrow> stored_event list \<Rightarrow> stored_event list \<Rightarrow> event_ack co_op" where
  "store_event env inp e current now expected material superseded evicted =
     op_bind co_ordinal (\<lambda>n.
     op_bind (op_gets (\<lambda>s. answer_checkpoint s e (renewed env current now) now)) (\<lambda>answer.
       case answer of
         None \<Rightarrow> rejectEvent env (eb_mutationId inp) (se_eventId e) CheckpointCorrelationInvalid None no_changes OwEventSubmit
       | Some (sub, checkpoints) \<Rightarrow>
           op_bind (connectedObservation (eb_controller inp) now ''authenticated event submission'') (\<lambda>live.
             recordAck env (eb_mutationId inp) OwEventSubmit (accepted_ack e expected superseded)
               (no_changes\<lparr>tx_subjects := [sub], tx_events := superseded @ evicted @ [stored_of env e material n now],
                  tx_checkpoints := checkpoints, tx_liveness := [live]\<rparr>))))"

definition enqueue_event ::
  "coordination_env \<Rightarrow> event_submission \<Rightarrow> worker_event \<Rightarrow> ownership_subject \<Rightarrow> instant \<Rightarrow> stored_event list \<Rightarrow> nat
     \<Rightarrow> event_ack co_op" where
  "enqueue_event env inp e current now es expected =
     op_bind (supersede_previous env e now es) (\<lambda>(material, superseded).
     op_bind (make_room env e now es superseded) (\<lambda>room.
       case room of
         None \<Rightarrow> rejectEvent env (eb_mutationId inp) (se_eventId e) QueueLimitExceeded None no_changes OwEventSubmit
       | Some evicted \<Rightarrow> store_event env inp e current now expected material superseded evicted))"

definition sequence_event ::
  "coordination_env \<Rightarrow> event_submission \<Rightarrow> worker_event \<Rightarrow> ownership_subject \<Rightarrow> instant \<Rightarrow> event_ack co_op" where
  "sequence_event env inp e current now =
     op_bind (op_gets (\<lambda>s. worker_events s (se_workerId e))) (\<lambda>es.
       let expected = last_sequence es + 1
       in if se_sequence e < expected then
            if se_kind e = EvProgress
            then recordAck env (eb_mutationId inp) OwEventSubmit
              ((plain_ack AckSuperseded (se_eventId e))\<lparr>ea_sequence := Some (se_sequence e), ea_expectedSequence := Some expected\<rparr>)
              no_changes
            else rejectEvent env (eb_mutationId inp) (se_eventId e) SequenceOutOfOrder
              (Some (se_sequence e, expected)) no_changes OwEventSubmit
          else enqueue_event env inp e current now es expected)"

definition admit_event ::
  "coordination_env \<Rightarrow> event_submission \<Rightarrow> worker_event \<Rightarrow> ownership_subject \<Rightarrow> event_ack co_op" where
  "admit_event env inp e sub =
     op_bind (co_ask (ce_clock env)) (\<lambda>now.
     op_bind (op_gets (\<lambda>s. authCode env s (expiredCopy env s sub now) (eb_controller inp) (eb_leaseToken inp)
                (Some (se_controllerLeaseVersion e)) now)) (\<lambda>auth.
       case auth of
         Some refusal \<Rightarrow>
           op_bind (op_gets (\<lambda>s. copied_subject env s sub now)) (\<lambda>tx.
             rejectEvent env (eb_mutationId inp) (se_eventId e) (AckRefused refusal) None tx OwEventSubmit)
       | None \<Rightarrow>
           op_bind (op_gets (\<lambda>s. rateCount env s (se_workerId e) now)) (\<lambda>count.
             if ce_eventRateLimit env \<le> count
             then rejectEvent env (eb_mutationId inp) (se_eventId e) RateLimited None no_changes OwEventSubmit
             else op_bind (op_gets (\<lambda>s. expiredCopy env s sub now)) (\<lambda>current.
               sequence_event env inp e current now))))"

definition submit_parsed :: "coordination_env \<Rightarrow> event_submission \<Rightarrow> worker_event \<Rightarrow> event_ack co_op" where
  "submit_parsed env inp e =
     op_bind (op_gets (\<lambda>s. js_get (co_events s) (se_eventId e))) (\<lambda>prior.
       case prior of
         Some p \<Rightarrow>
           if se_submissionHash p = ce_hashEvent env e
           then recordAck env (eb_mutationId inp) OwEventSubmit
             ((plain_ack AckDuplicate (se_eventId e))\<lparr>ea_sequence := Some (se_sequence e)\<rparr>) no_changes
           else recordAck env (eb_mutationId inp) OwEventSubmit
             ((plain_ack AckRejected (se_eventId e))\<lparr>ea_sequence := Some (se_sequence e),
                ea_errorCode := Some EventIdCollision\<rparr>) no_changes
       | None \<Rightarrow>
           op_bind (op_gets (\<lambda>s. js_get (co_subjects s) (se_workerId e))) (\<lambda>found.
             case found of
               None \<Rightarrow> rejectEvent env (eb_mutationId inp) (se_eventId e) AckSubjectNotFound None no_changes OwEventSubmit
             | Some sub \<Rightarrow>
                 if se_taskId e \<noteq> wo_taskId (ow_origin sub) \<or> se_waveId e \<noteq> wo_waveId (ow_origin sub)
                 then rejectEvent env (eb_mutationId inp) (se_eventId e) TaskIdentityMismatch None no_changes OwEventSubmit
                 else admit_event env inp e sub))"

definition submit_raw :: "coordination_env \<Rightarrow> event_submission \<Rightarrow> event_ack co_op" where
  "submit_raw env inp =
     (let refuse = (\<lambda>code. rejectEvent env (eb_mutationId inp) (eventIdOf (eb_event inp)) code None no_changes OwEventSubmit)
      in case sv_bytes (eb_event inp) of
           None \<Rightarrow> refuse InvalidEvent
         | Some bytes \<Rightarrow>
             if lim_payloadBytes WORKER_EVENT_LIMITS < bytes then refuse PayloadLimitExceeded
             else (case parsed_event env (eb_event inp) of
                     Inl issue \<Rightarrow> refuse (if issue = IssueTooBig then FieldLimitExceeded else InvalidEvent)
                   | Inr e \<Rightarrow> submit_parsed env inp e))"

definition submitEvent :: "coordination_env \<Rightarrow> event_submission \<Rightarrow> event_ack co_op" where
  "submitEvent env inp =
     op_then co_assertReady
       (op_bind (replayAck (eb_mutationId inp) OwEventSubmit) (\<lambda>replay.
          case replay of Some ack \<Rightarrow> op_return ack | None \<Rightarrow> submit_raw env inp))"

subsection \<open>Resolution\<close>

datatype event_resolution = ResolveAcknowledged | ResolveAnswered | ResolveSuperseded | ResolveClosed

fun resolved_state :: "event_resolution \<Rightarrow> event_state" where
  "resolved_state ResolveAcknowledged = EventAcknowledged"
| "resolved_state ResolveAnswered = EventAnswered"
| "resolved_state ResolveSuperseded = EventSuperseded"
| "resolved_state ResolveClosed = EventClosed"

fun resolution_note :: "event_resolution \<Rightarrow> string" where
  "resolution_note ResolveAcknowledged = ''acknowledged''"
| "resolution_note ResolveAnswered = ''answered''"
| "resolution_note ResolveSuperseded = ''superseded''"
| "resolution_note ResolveClosed = ''closed''"

record resolution_input =
  ri_mutationId :: ident
  ri_controller :: controller_identity
  ri_leaseToken :: string
  ri_eventId :: ident
  ri_resolution :: event_resolution
  ri_reason :: string

definition resolved_event :: "resolution_input \<Rightarrow> stored_event \<Rightarrow> nat \<Rightarrow> instant \<Rightarrow> stored_event" where
  "resolved_event inp e n now =
     e\<lparr>se_ordinal := n, se_state := resolved_state (ri_resolution inp), se_resolvedAt := Some now,
       se_resolvedBy := Some (ri_controller inp)\<rparr>"

definition record_resolution ::
  "coordination_env \<Rightarrow> resolution_input \<Rightarrow> stored_event \<Rightarrow> ownership_subject \<Rightarrow> ownership_subject \<Rightarrow> instant \<Rightarrow> event_ack co_op" where
  "record_resolution env inp e sub current now =
     op_bind co_ordinal (\<lambda>n.
     op_bind (connectedObservation (ri_controller inp) now ''authenticated event resolution'') (\<lambda>live.
     op_bind (ownership_audit_of env (ri_mutationId inp) OwEventResolve (ow_subjectId sub) (ri_controller inp)
                (ri_reason inp) (Some (ow_lease sub))
                (Some ((ow_lease (renewed env current now))\<lparr>cl_controller := cl_controller (ow_lease sub)\<rparr>))
                (AuditNote (resolution_note (ri_resolution inp)))) (\<lambda>audit.
       recordAck env (ri_mutationId inp) OwEventResolve
         ((plain_ack AckAccepted (se_eventId e))\<lparr>ea_sequence := Some (se_sequence e)\<rparr>)
         (no_changes\<lparr>tx_subjects := [renewed env current now], tx_events := [resolved_event inp e n now],
            tx_liveness := [live], tx_audits := [audit]\<rparr>))))"

definition resolve_known :: "coordination_env \<Rightarrow> resolution_input \<Rightarrow> stored_event \<Rightarrow> event_ack co_op" where
  "resolve_known env inp e =
     op_bind (requireSubject (se_workerId e)) (\<lambda>sub.
     op_bind (co_ask (ce_clock env)) (\<lambda>now.
     op_bind (op_gets (\<lambda>s. expiredCopy env s sub now)) (\<lambda>current.
     op_bind (op_gets (\<lambda>s. authCode env s current (ri_controller inp) (ri_leaseToken inp)
                (Some (cl_version (ow_lease current))) now)) (\<lambda>auth.
       case auth of
         Some refusal \<Rightarrow>
           op_bind (op_gets (\<lambda>s. copied_subject env s sub now)) (\<lambda>tx.
             rejectEvent env (ri_mutationId inp) (ri_eventId inp) (AckRefused refusal) None tx OwEventResolve)
       | None \<Rightarrow> record_resolution env inp e sub current now))))"

definition resolveEvent :: "coordination_env \<Rightarrow> resolution_input \<Rightarrow> event_ack co_op" where
  "resolveEvent env inp =
     op_then co_assertReady
       (op_bind (replayAck (ri_mutationId inp) OwEventResolve) (\<lambda>replay.
          case replay of Some ack \<Rightarrow> op_return ack
          | None \<Rightarrow>
              op_bind (op_gets (\<lambda>s. js_get (co_events s) (ri_eventId inp))) (\<lambda>found.
                case found of None \<Rightarrow> op_throw CoEventNotFound | Some e \<Rightarrow> resolve_known env inp e)))"

subsection \<open>Projection\<close>

datatype intervention_filter = OnlyUnresolved | OnlyResolved | AnyIntervention

record projection_filter =
  pf_workerIds :: "(ident list) option"
  pf_taskId :: "ident option"
  pf_waveId :: "ident option"
  pf_severities :: "(event_severity list) option"
  pf_kinds :: "(event_kind list) option"
  pf_intervention :: "intervention_filter option"

record event_projection =
  ep_events :: "stored_event list"
  ep_nextCursor :: nat
  ep_hasMore :: bool

definition listed :: "('a list) option \<Rightarrow> 'a \<Rightarrow> bool" where
  "listed xs x = (case xs of None \<Rightarrow> True | Some xs \<Rightarrow> x \<in> set xs)"

definition intervention_match :: "intervention_filter option \<Rightarrow> stored_event \<Rightarrow> bool" where
  "intervention_match f e =
     (case f of
        Some AnyIntervention \<Rightarrow> True
      | Some OnlyResolved \<Rightarrow> isPinned e \<and> \<not> isUnresolved e
      | Some OnlyUnresolved \<Rightarrow> isUnresolved e
      | None \<Rightarrow> se_state e = EventActive)"

definition projection_match :: "projection_filter \<Rightarrow> stored_event \<Rightarrow> bool" where
  "projection_match f e =
     (listed (pf_workerIds f) (se_workerId e)
      \<and> (pf_taskId f = None \<or> Some (se_taskId e) = pf_taskId f)
      \<and> (pf_waveId f = None \<or> se_waveId e = pf_waveId f)
      \<and> listed (pf_severities f) (se_severity e) \<and> listed (pf_kinds f) (se_kind e)
      \<and> intervention_match (pf_intervention f) e)"

definition projection_limit :: "coordination_env \<Rightarrow> nat option \<Rightarrow> nat" where
  "projection_limit env limit =
     min (max (case limit of None \<Rightarrow> ce_maxProjectionPageSize env | Some n \<Rightarrow> n) 1) (ce_maxProjectionPageSize env)"

definition projection_candidates :: "coordination \<Rightarrow> nat \<Rightarrow> stored_event list" where
  "projection_candidates s cursor = js_sort event_order (filter (\<lambda>e. cursor < se_ordinal e) (js_values (co_events s)))"

definition projection_page :: "nat \<Rightarrow> nat \<Rightarrow> projection_filter \<Rightarrow> stored_event list \<Rightarrow> event_projection" where
  "projection_page cursor limit f candidates =
     (let matches = filter (projection_match f) candidates;
          page = take limit matches;
          hasMore = length page < length matches
      in \<lparr>ep_events = page,
          ep_nextCursor = (if hasMore then se_ordinal (last page)
                           else if candidates = [] then cursor else se_ordinal (last candidates)),
          ep_hasMore = hasMore\<rparr>)"

text \<open>A page size of zero leaves an empty page without a last event, and reading its ordinal fails.\<close>

definition projectEvents ::
  "coordination_env \<Rightarrow> nat option \<Rightarrow> nat option \<Rightarrow> projection_filter \<Rightarrow> event_projection co_op" where
  "projectEvents env cursor limit f =
     op_then co_assertReady
       (op_bind (op_gets (\<lambda>s. projection_page (case cursor of None \<Rightarrow> 0 | Some c \<Rightarrow> c) (projection_limit env limit) f
          (projection_candidates s (case cursor of None \<Rightarrow> 0 | Some c \<Rightarrow> c)))) (\<lambda>p.
          if ep_hasMore p \<and> ep_events p = [] then op_throw CoInternal else op_return p))"

subsection \<open>Modal answers and checkpoint requests\<close>

record modal_answer =
  ma_workerId :: ident
  ma_controller :: controller_identity
  ma_provider :: string
  ma_kind :: string
  ma_fingerprint :: string
  ma_answer :: string
  ma_reason :: string

definition modal_reason :: "modal_answer \<Rightarrow> string" where
  "modal_reason inp =
     ''provider='' @ ma_provider inp @ '' kind='' @ ma_kind inp @ '' fingerprint='' @ ma_fingerprint inp
     @ '' answer='' @ ma_answer inp @ '': '' @ ma_reason inp"

definition recordModalAnswer :: "coordination_env \<Rightarrow> modal_answer \<Rightarrow> unit co_op" where
  "recordModalAnswer env inp =
     op_then co_assertReady
       (op_bind (requireSubject (ma_workerId inp)) (\<lambda>sub.
        op_bind (co_ask (ce_uuid env)) (\<lambda>i.
        op_bind (ownership_audit_of env (''modal-answer:'' @ ma_workerId inp @ '':'' @ i) OwAnswerModal (ow_subjectId sub)
                   (ma_controller inp) (modal_reason inp) None None (AuditNote ''ANSWERED'')) (\<lambda>audit.
          commit env (no_changes\<lparr>tx_audits := [audit]\<rparr>)))))"

record checkpoint_input =
  ki_mutationId :: ident
  ki_controller :: controller_identity
  ki_leaseToken :: string
  ki_correlationId :: ident
  ki_workerId :: ident
  ki_focus :: "string option"
  ki_question :: "string option"
  ki_decisionGate :: bool

definition hashCheckpointRequest :: "coordination_env \<Rightarrow> checkpoint_request \<Rightarrow> string" where
  "hashCheckpointRequest env c =
     ce_hashCheckpoint env \<lparr>kp_correlationId = ck_correlationId c, kp_workerId = ck_workerId c,
       kp_requestedBy = ck_requestedBy c, kp_focus = ck_focus c, kp_question = ck_question c,
       kp_decisionGate = ck_decisionGate c\<rparr>"

definition checkpoint_of :: "checkpoint_input \<Rightarrow> nat \<Rightarrow> instant \<Rightarrow> checkpoint_request" where
  "checkpoint_of inp version now =
     \<lparr>ck_correlationId = ki_correlationId inp, ck_workerId = ki_workerId inp, ck_requestHash = None,
      ck_controllerLeaseVersion = version, ck_requestedBy = ki_controller inp, ck_focus = ki_focus inp,
      ck_question = ki_question inp, ck_decisionGate = ki_decisionGate inp, ck_state = CheckpointPending,
      ck_requestedAt = now, ck_answeredByEventId = None, ck_answeredAt = None\<rparr>"

definition request_hash :: "coordination_env \<Rightarrow> checkpoint_input \<Rightarrow> string" where
  "request_hash env inp = hashCheckpointRequest env (checkpoint_of inp 0 0)"

definition assertCheckpointReplay ::
  "coordination_env \<Rightarrow> checkpoint_request \<Rightarrow> checkpoint_input \<Rightarrow> unit co_op" where
  "assertCheckpointReplay env prior inp =
     (if ck_workerId prior \<noteq> ki_workerId inp \<or> ck_correlationId prior \<noteq> ki_correlationId inp
        \<or> (case ck_requestHash prior of Some h \<Rightarrow> h | None \<Rightarrow> hashCheckpointRequest env prior) \<noteq> request_hash env inp
      then op_throw CoCheckpointCollision else op_return ())"

definition checkpoint_valid :: "coordination_env \<Rightarrow> checkpoint_request \<Rightarrow> bool" where
  "checkpoint_valid env c =
     (bounded_text 256 (ck_correlationId c) \<and> ce_isUuid env (ck_workerId c)
      \<and> (case ck_focus c of None \<Rightarrow> True | Some t \<Rightarrow> bounded_text 1024 t)
      \<and> (case ck_question c of None \<Rightarrow> True | Some t \<Rightarrow> bounded_text 1024 t))"

definition gated_subject :: "checkpoint_input \<Rightarrow> ownership_subject \<Rightarrow> instant \<Rightarrow> ownership_subject" where
  "gated_subject inp sub now =
     (if ki_decisionGate inp then sub\<lparr>ow_decisionGate := GatePaused (ki_correlationId inp) now\<rparr> else sub)"

definition record_checkpoint ::
  "coordination_env \<Rightarrow> checkpoint_input \<Rightarrow> ownership_subject \<Rightarrow> ownership_subject \<Rightarrow> instant \<Rightarrow> checkpoint_request co_op" where
  "record_checkpoint env inp sub current now =
     (let c = (checkpoint_of inp (cl_version (ow_lease sub)) now)\<lparr>ck_requestHash := Some (request_hash env inp)\<rparr>;
          updated = gated_subject inp (renewed env current now) now
      in if \<not> checkpoint_valid env c then op_throw CoInvalidRequest
         else op_bind (connectedObservation (ki_controller inp) now ''authenticated checkpoint request'') (\<lambda>live.
              op_bind (ownership_audit_of env (ki_mutationId inp) OwCheckpointRequest (ow_subjectId sub) (ki_controller inp)
                (if ki_decisionGate inp then ''decision-gate'' else ''non-blocking'') (Some (ow_lease sub))
                (Some ((ow_lease updated)\<lparr>cl_controller := cl_controller (ow_lease sub)\<rparr>)) (AuditNote ''REQUESTED'')) (\<lambda>audit.
              op_then (persist_result env (ki_mutationId inp) OwCheckpointRequest (CheckpointReceipt c)
                (no_changes\<lparr>tx_subjects := [updated], tx_checkpoints := [c], tx_liveness := [live], tx_audits := [audit]\<rparr>) None)
                (op_return c))))"

definition repeat_checkpoint ::
  "coordination_env \<Rightarrow> checkpoint_input \<Rightarrow> ownership_subject \<Rightarrow> instant \<Rightarrow> checkpoint_request \<Rightarrow> checkpoint_request co_op" where
  "repeat_checkpoint env inp current now prior =
     op_then (assertCheckpointReplay env prior inp)
     (op_bind (connectedObservation (ki_controller inp) now ''idempotent checkpoint request'') (\<lambda>live.
      op_then (persist_result env (ki_mutationId inp) OwCheckpointRequest (CheckpointReceipt prior)
        (no_changes\<lparr>tx_subjects := [renewed env current now], tx_liveness := [live]\<rparr>) None) (op_return prior)))"

definition checkpoint_work :: "coordination_env \<Rightarrow> checkpoint_input \<Rightarrow> checkpoint_request co_op" where
  "checkpoint_work env inp =
     op_bind (requireSubject (ki_workerId inp)) (\<lambda>sub.
     op_bind (co_ask (ce_clock env)) (\<lambda>now.
     op_bind (op_gets (\<lambda>s. expiredCopy env s sub now)) (\<lambda>current.
     op_bind (op_gets (\<lambda>s. authCode env s current (ki_controller inp) (ki_leaseToken inp)
                (Some (cl_version (ow_lease current))) now)) (\<lambda>auth.
       case auth of
         Some refusal \<Rightarrow>
           op_bind (op_gets (\<lambda>s. lease_copied env s sub now)) (\<lambda>copied.
             op_then (op_when copied (commit env (no_changes\<lparr>tx_subjects := [current]\<rparr>))) (op_throw (CoRefused refusal)))
       | None \<Rightarrow>
           op_bind (op_gets (\<lambda>s. getCheckpoint s (ki_workerId inp) (ki_correlationId inp))) (\<lambda>found.
             case found of Some prior \<Rightarrow> repeat_checkpoint env inp current now prior
             | None \<Rightarrow> record_checkpoint env inp sub current now)))))"

definition replay_checkpoint :: "coordination_env \<Rightarrow> checkpoint_input \<Rightarrow> (checkpoint_request option) co_op" where
  "replay_checkpoint env inp =
     op_bind (op_gets (\<lambda>s. js_get (cs_receipts (co_state s)) (ki_mutationId inp))) (\<lambda>receipt.
       case receipt of None \<Rightarrow> op_return None
       | Some r \<Rightarrow>
           if rt_operation r \<noteq> OwCheckpointRequest then op_throw CoMutationIdCollision
           else case rt_result r of
             CheckpointReceipt c \<Rightarrow> op_then (assertCheckpointReplay env c inp) (op_return (Some c))
           | _ \<Rightarrow> op_throw CoInvalidRequest)"

definition requestCheckpoint :: "coordination_env \<Rightarrow> checkpoint_input \<Rightarrow> checkpoint_request co_op" where
  "requestCheckpoint env inp =
     op_then co_assertReady
       (op_bind (parse_controller env (ki_controller inp)) (\<lambda>_.
        op_bind (replay_checkpoint env inp) (\<lambda>replay.
          case replay of Some c \<Rightarrow> op_return c | None \<Rightarrow> checkpoint_work env inp)))"

subsection \<open>Listings\<close>

definition listSubjects :: "coordination_env \<Rightarrow> (ownership_subject list) co_op" where
  "listSubjects env =
     op_bind (co_ask (ce_clock env)) (\<lambda>now. op_gets (\<lambda>s. map (\<lambda>sub. expiredCopy env s sub now) (js_values (co_subjects s))))"

definition listAudits :: "coordination \<Rightarrow> ident option \<Rightarrow> ownership_audit list" where
  "listAudits s i = filter (\<lambda>a. i = None \<or> Some (oa_subjectId a) = i) (cs_audits (co_state s))"

definition listCheckpoints :: "coordination \<Rightarrow> ident option \<Rightarrow> checkpoint_state option \<Rightarrow> checkpoint_request list" where
  "listCheckpoints s w state =
     filter (\<lambda>c. (w = None \<or> Some (ck_workerId c) = w) \<and> (state = None \<or> Some (ck_state c) = state))
       (js_values (cs_checkpoints (co_state s)))"

definition workerEventSummary :: "coordination \<Rightarrow> ident \<Rightarrow> event_summary" where
  "workerEventSummary s w = summary_of (co_summaries s) w"

end
