(* ===== verification/Lease_Authority.thy ===== *)
theory Lease_Authority
  imports Worker_Ownership
begin

text \<open>
  What the lease calls guarantee. A call plans its changes without touching the maps and then
  commits one transaction; \<open>planning\<close> states describe the first half and \<open>lease_evolves\<close> relates the
  states before and after a call: versions never fall, and a token hash only disappears or is
  replaced by the hash of a token issued by the call, under a higher version.
\<close>

named_theorems plan_rules \<open>triples of operations that only ask the environment\<close>

subsection \<open>Leases that move forward\<close>

definition token_issued :: "coordination_env \<Rightarrow> nat \<Rightarrow> nat \<Rightarrow> string \<Rightarrow> bool" where
  "token_issued env lo hi h = (\<exists>n. lo \<le> n \<and> n < hi \<and> h = ce_hashToken env (ce_token env n))"

definition lease_moved :: "coordination_env \<Rightarrow> nat \<Rightarrow> nat \<Rightarrow> controller_lease \<Rightarrow> controller_lease \<Rightarrow> bool" where
  "lease_moved env lo hi a b =
     (cl_version b = cl_version a \<and> (cl_tokenHash b = cl_tokenHash a \<or> cl_tokenHash b = None)
      \<or> cl_version a < cl_version b \<and> (\<forall>h. cl_tokenHash b = Some h \<longrightarrow> token_issued env lo hi h))"

definition lease_begun :: "coordination_env \<Rightarrow> nat \<Rightarrow> nat \<Rightarrow> controller_lease \<Rightarrow> bool" where
  "lease_begun env lo hi b = (\<forall>h. cl_tokenHash b = Some h \<longrightarrow> token_issued env lo hi h)"

text \<open>A subject that may be stored over the one known under its id.\<close>

definition subject_moved :: "coordination_env \<Rightarrow> nat \<Rightarrow> nat \<Rightarrow> ownership_subject option \<Rightarrow> ownership_subject \<Rightarrow> bool" where
  "subject_moved env lo hi known b =
     (case known of None \<Rightarrow> lease_begun env lo hi (ow_lease b)
      | Some a \<Rightarrow> lease_moved env lo hi (ow_lease a) (ow_lease b))"

definition lease_evolves :: "coordination_env \<Rightarrow> coordination \<Rightarrow> coordination \<Rightarrow> bool" where
  "lease_evolves env s t =
     (co_clock_tick s \<le> co_clock_tick t
      \<and> (\<forall>i. case js_get (co_subjects t) i of
           None \<Rightarrow> js_get (co_subjects s) i = None
         | Some b \<Rightarrow> subject_moved env (co_clock_tick s) (co_clock_tick t) (js_get (co_subjects s) i) b
             \<or> js_get (co_subjects s) i = Some b))"

lemma issued_mono: "token_issued env lo hi h \<Longrightarrow> lo' \<le> lo \<Longrightarrow> hi \<le> hi' \<Longrightarrow> token_issued env lo' hi' h"
  unfolding token_issued_def using le_trans less_le_trans by blast

lemma lease_moved_refl [simp]: "lease_moved env lo hi a a"
  by (simp add: lease_moved_def)

lemma lease_moved_mono: "lease_moved env lo hi a b \<Longrightarrow> lo' \<le> lo \<Longrightarrow> hi \<le> hi' \<Longrightarrow> lease_moved env lo' hi' a b"
  unfolding lease_moved_def using issued_mono by metis

lemma lease_begun_mono: "lease_begun env lo hi b \<Longrightarrow> lo' \<le> lo \<Longrightarrow> hi \<le> hi' \<Longrightarrow> lease_begun env lo' hi' b"
  unfolding lease_begun_def using issued_mono by metis

lemma subject_moved_mono:
  "subject_moved env lo hi k b \<Longrightarrow> lo' \<le> lo \<Longrightarrow> hi \<le> hi' \<Longrightarrow> subject_moved env lo' hi' k b"
  unfolding subject_moved_def using lease_moved_mono lease_begun_mono by (auto split: option.splits)

lemma lease_moved_trans:
  assumes ab: "lease_moved env lo mid a b" and bc: "lease_moved env mid hi b c" and le: "lo \<le> mid" "mid \<le> hi"
  shows "lease_moved env lo hi a c"
proof -
  from le have up: "token_issued env mid hi h \<Longrightarrow> token_issued env lo hi h" "token_issued env lo mid h \<Longrightarrow> token_issued env lo hi h" for h
    by (auto elim: issued_mono)
  show ?thesis
  proof (cases "cl_version b < cl_version c")
    case True
    with bc have "\<forall>h. cl_tokenHash c = Some h \<longrightarrow> token_issued env mid hi h" by (auto simp: lease_moved_def)
    moreover from ab have "cl_version a \<le> cl_version b" by (auto simp: lease_moved_def)
    ultimately show ?thesis using True up by (auto simp: lease_moved_def)
  next
    case False
    with bc have "cl_version c = cl_version b" "cl_tokenHash c = cl_tokenHash b \<or> cl_tokenHash c = None"
      by (auto simp: lease_moved_def)
    with ab up show ?thesis unfolding lease_moved_def by auto
  qed
qed

lemma lease_begun_moved:
  assumes "lease_begun env lo mid b" "lease_moved env mid hi b c" "lo \<le> mid" "mid \<le> hi"
  shows "lease_begun env lo hi c"
proof -
  from assms(3,4) have up: "token_issued env mid hi h \<Longrightarrow> token_issued env lo hi h" "token_issued env lo mid h \<Longrightarrow> token_issued env lo hi h" for h
    by (auto elim: issued_mono)
  from assms(1,2) show ?thesis unfolding lease_begun_def lease_moved_def by (auto dest: up)
qed

lemma subject_moved_trans:
  assumes "subject_moved env lo mid k b" "subject_moved env mid hi (Some b) c" "lo \<le> mid" "mid \<le> hi"
  shows "subject_moved env lo hi k c"
  using assms by (auto simp: subject_moved_def intro: lease_moved_trans lease_begun_moved split: option.splits)

lemma lease_evolves_refl [simp]: "lease_evolves env s s"
  by (simp add: lease_evolves_def split: option.split)

lemma lease_evolvesI:
  assumes "co_clock_tick s \<le> co_clock_tick t"
    and "\<And>i. js_get (co_subjects t) i = None \<Longrightarrow> js_get (co_subjects s) i = None"
    and "\<And>i b. js_get (co_subjects t) i = Some b \<Longrightarrow>
      subject_moved env (co_clock_tick s) (co_clock_tick t) (js_get (co_subjects s) i) b
      \<or> js_get (co_subjects s) i = Some b"
  shows "lease_evolves env s t"
  using assms by (simp add: lease_evolves_def split: option.split)

lemma lease_evolves_trans:
  assumes st: "lease_evolves env s t" and tu: "lease_evolves env t u"
  shows "lease_evolves env s u"
proof (rule lease_evolvesI)
  let ?s = "co_clock_tick s" and ?t = "co_clock_tick t" and ?u = "co_clock_tick u"
  from st tu have le: "?s \<le> ?t" "?t \<le> ?u" by (auto simp: lease_evolves_def)
  then show "?s \<le> ?u" by simp
  fix i
  from st have s: "case js_get (co_subjects t) i of None \<Rightarrow> js_get (co_subjects s) i = None
      | Some b \<Rightarrow> subject_moved env ?s ?t (js_get (co_subjects s) i) b \<or> js_get (co_subjects s) i = Some b"
    by (simp add: lease_evolves_def)
  from tu have t: "case js_get (co_subjects u) i of None \<Rightarrow> js_get (co_subjects t) i = None
      | Some b \<Rightarrow> subject_moved env ?t ?u (js_get (co_subjects t) i) b \<or> js_get (co_subjects t) i = Some b"
    by (simp add: lease_evolves_def)
  show "js_get (co_subjects s) i = None" if "js_get (co_subjects u) i = None"
    using that s t by simp
  show "subject_moved env ?s ?u (js_get (co_subjects s) i) c \<or> js_get (co_subjects s) i = Some c"
    if c: "js_get (co_subjects u) i = Some c" for c
  proof (cases "js_get (co_subjects t) i")
    case None
    with s t c have "subject_moved env ?t ?u None c" "js_get (co_subjects s) i = None" by auto
    with le show ?thesis by (auto intro: subject_moved_mono)
  next
    case (Some b)
    with t c have bc: "subject_moved env ?t ?u (Some b) c" by (auto simp: subject_moved_def)
    from s Some have "subject_moved env ?s ?t (js_get (co_subjects s) i) b \<or> js_get (co_subjects s) i = Some b" by simp
    then show ?thesis
      using subject_moved_trans [OF _ bc le] subject_moved_mono [OF bc le(1) order_refl] by auto
  qed
qed

subsection \<open>Planning\<close>

text \<open>The start state with a later tick, at which \<open>P\<close> holds.\<close>

definition plan :: "coordination \<Rightarrow> (nat \<Rightarrow> bool) \<Rightarrow> coordination \<Rightarrow> bool" where
  "plan s P t = (\<exists>n. co_clock_tick s \<le> n \<and> t = s\<lparr>co_clock_tick := n\<rparr> \<and> P n)"

abbreviation planned :: "coordination \<Rightarrow> coordination \<Rightarrow> bool" where
  "planned s \<equiv> plan s (\<lambda>_. True)"

definition plan_triple ::
  "coordination \<Rightarrow> (nat \<Rightarrow> bool) \<Rightarrow> 'a co_op \<Rightarrow> ('a \<Rightarrow> nat \<Rightarrow> bool) \<Rightarrow> bool" where
  "plan_triple s P m Q = op_triple (plan s P) m (\<lambda>x. plan s (Q x)) (planned s)"

lemma plan_start: "plan s P s \<longleftrightarrow> P (co_clock_tick s)"
proof
  assume "P (co_clock_tick s)"
  then show "plan s P s" unfolding plan_def by (intro exI [of _ "co_clock_tick s"]) simp
next
  assume "plan s P s"
  then obtain n where "s = s\<lparr>co_clock_tick := n\<rparr>" "P n" by (auto simp: plan_def)
  then have "n = co_clock_tick s" by (metis coordination.simps(6) coordination.surjective coordination.update_convs(6))
  with \<open>P n\<close> show "P (co_clock_tick s)" by simp
qed

lemma plan_return [plan_rules]: "(\<And>n. P n \<Longrightarrow> Q x n) \<Longrightarrow> plan_triple s P (op_return x) Q"
  unfolding plan_triple_def by (rule op_triple_return) (auto simp: plan_def)

lemma plan_throw [plan_rules]: "plan_triple s P (op_throw e) Q"
  unfolding plan_triple_def by (rule op_triple_throw) (auto simp: plan_def)

lemma plan_gets:
  "(\<And>n. f (s\<lparr>co_clock_tick := n\<rparr>) = f s) \<Longrightarrow> (\<And>n. P n \<Longrightarrow> Q (f s) n) \<Longrightarrow> plan_triple s P (op_gets f) Q"
  unfolding plan_triple_def by (rule op_triple_gets) (auto simp: plan_def)

lemma plan_ask:
  assumes "\<And>n. P n \<Longrightarrow> co_clock_tick s \<le> n \<Longrightarrow> Q (f n) (Suc n)"
  shows "plan_triple s P (co_ask f) Q"
  unfolding plan_triple_def
proof (rule op_tripleI)
  fix t
  assume "plan s P t"
  then obtain n where n: "co_clock_tick s \<le> n" "t = s\<lparr>co_clock_tick := n\<rparr>" "P n" by (auto simp: plan_def)
  from assms [OF n(3,1)] n(1) have "plan s (Q (f n)) (s\<lparr>co_clock_tick := Suc n\<rparr>)"
    unfolding plan_def by (intro exI [of _ "Suc n"]) simp
  then show "case co_ask f t of (Inr x, u) \<Rightarrow> plan s (Q x) u | (Inl e, u) \<Rightarrow> planned s u"
    by (simp add: co_ask_def n(2))
qed

lemma plan_bind:
  "plan_triple s P m R \<Longrightarrow> (\<And>x. plan_triple s (R x) (f x) Q) \<Longrightarrow> plan_triple s P (op_bind m f) Q"
  unfolding plan_triple_def by (rule op_triple_bind)

lemma plan_then: "plan_triple s P m (\<lambda>_. R) \<Longrightarrow> plan_triple s R k Q \<Longrightarrow> plan_triple s P (op_then m k) Q"
  unfolding plan_triple_def by (rule op_triple_then)

lemma plan_weaken:
  "plan_triple s P m Q \<Longrightarrow> (\<And>n. P' n \<Longrightarrow> P n) \<Longrightarrow> (\<And>x n. Q x n \<Longrightarrow> Q' x n) \<Longrightarrow> plan_triple s P' m Q'"
  unfolding plan_triple_def by (erule op_triple_weaken) (auto simp: plan_def)

text \<open>An operation that only asks, whatever it answers.\<close>

definition asking :: "'a co_op \<Rightarrow> bool" where
  "asking m = (\<forall>s. \<exists>n. co_clock_tick s \<le> n \<and> snd (m s) = s\<lparr>co_clock_tick := n\<rparr>)"

text \<open>A fact that survives the passing of ticks.\<close>

definition lasting :: "(nat \<Rightarrow> bool) \<Rightarrow> bool" where
  "lasting P = (\<forall>m n. m \<le> n \<longrightarrow> P m \<longrightarrow> P n)"

lemma asking_plan:
  assumes "asking m" "lasting P"
  shows "plan_triple s P m (\<lambda>_. P)"
  unfolding plan_triple_def
proof (rule op_tripleI)
  fix t
  assume "plan s P t"
  then obtain k where k: "co_clock_tick s \<le> k" "t = s\<lparr>co_clock_tick := k\<rparr>" "P k" by (auto simp: plan_def)
  from assms(1) obtain n where n: "co_clock_tick t \<le> n" "snd (m t) = t\<lparr>co_clock_tick := n\<rparr>"
    unfolding asking_def by blast
  then have "k \<le> n" "snd (m t) = s\<lparr>co_clock_tick := n\<rparr>" by (auto simp: k(2))
  with k(1,3) assms(2) have "plan s P (snd (m t))" "planned s (snd (m t))"
    unfolding plan_def lasting_def by (auto intro: order_trans)
  then show "case m t of (Inr x, u) \<Rightarrow> plan s P u | (Inl e, u) \<Rightarrow> planned s u"
    by (cases "m t") (auto split: sum.split)
qed

lemma asking_bind: "asking m \<Longrightarrow> (\<And>x. asking (f x)) \<Longrightarrow> asking (op_bind m f)"
proof -
  assume m: "asking m" and f: "\<And>x. asking (f x)"
  have "\<exists>n\<ge>co_clock_tick s. snd (op_bind m f s) = s\<lparr>co_clock_tick := n\<rparr>" for s
  proof -
    from m obtain n where n: "co_clock_tick s \<le> n" "snd (m s) = s\<lparr>co_clock_tick := n\<rparr>" unfolding asking_def by blast
    show ?thesis
    proof (cases "fst (m s)")
      case (Inl e)
      with n show ?thesis by (auto simp: op_bind_def split: prod.split)
    next
      case (Inr x)
      from f [of x] obtain k where
        k: "n \<le> k" "snd (f x (s\<lparr>co_clock_tick := n\<rparr>)) = s\<lparr>co_clock_tick := n\<rparr>\<lparr>co_clock_tick := k\<rparr>"
        unfolding asking_def by (metis coordination.select_convs(6) coordination.surjective coordination.update_convs(6))
      from Inr n have "op_bind m f s = f x (s\<lparr>co_clock_tick := n\<rparr>)"
        by (cases "m s") (simp add: op_bind_def)
      with k n(1) show ?thesis by (intro exI [of _ k]) simp
    qed
  qed
  then show "asking (op_bind m f)" by (simp add: asking_def)
qed

lemma asking_simps [simp]:
  "asking (op_return x)" "asking (op_throw e)" "asking (op_gets f)" "asking (co_ask g)"
proof -
  have "\<exists>n. co_clock_tick s \<le> n \<and> s = s\<lparr>co_clock_tick := n\<rparr>" for s :: coordination
    by (intro exI [of _ "co_clock_tick s"]) simp
  then show "asking (op_return x)" "asking (op_throw e)" "asking (op_gets f)"
    by (auto simp: asking_def op_defs)
  have "\<exists>n. co_clock_tick s \<le> n \<and> s\<lparr>co_clock_tick := Suc (co_clock_tick s)\<rparr> = s\<lparr>co_clock_tick := n\<rparr>"
    for s :: coordination by (intro exI [of _ "Suc (co_clock_tick s)"]) simp
  then show "asking (co_ask g)" by (simp add: asking_def co_ask_def)
qed

lemma asking_then: "asking m \<Longrightarrow> asking k \<Longrightarrow> asking (op_then m k)"
  unfolding op_then_def by (rule asking_bind)

lemma asking_parse [simp]:
  "asking (parse_controller env c)" "asking (parse_selector env sel)" "asking (parse_optional_controller env oc)"
  by (auto simp: parse_controller_def parse_selector_def parse_optional_controller_def
        intro!: asking_bind split: option.split)

lemma asking_audit [simp]: "asking (ownership_audit_of env mid operation i actor reason a b out)"
  unfolding ownership_audit_of_def by (intro asking_bind) simp_all

lemma asking_budget_audits [simp]: "asking (budget_audits env inp sub b)"
  unfolding budget_audits_def budgetAudit_def by (auto intro!: asking_bind split: option.split)

lemma asking_more [simp]:
  "asking (ownership_result_of mid operation outs)" "asking (connectedObservation c now reason)"
  "asking co_assertReady" "asking (batch_result mid operation cm outs h)" "asking (parse_handoff hh)"
  "asking (requireSubject i)"
  by (auto simp: ownership_result_of_def connectedObservation_def co_assertReady_def batch_result_def
      parse_handoff_def requireSubject_def intro!: asking_bind split: option.split)

lemma lasting_simps [simp]:
  "lasting (\<lambda>n. b)" "lasting P \<Longrightarrow> lasting Q \<Longrightarrow> lasting (\<lambda>n. P n \<and> Q n)"
  "(\<And>x. lasting (R x)) \<Longrightarrow> lasting (\<lambda>n. \<forall>x. R x n)" "(\<And>x. lasting (R x)) \<Longrightarrow> lasting (\<lambda>n. \<forall>x\<in>A. R x n)"
  "(\<And>x. lasting (R x)) \<Longrightarrow> lasting (\<lambda>n. \<exists>x. R x n)"
  unfolding lasting_def by (blast, blast, blast, blast, blast)

lemma lasting_moved [simp]: "lasting (\<lambda>n. subject_moved env lo n k b)"
  by (auto simp: lasting_def intro: subject_moved_mono)

subsection \<open>Changes of single subjects\<close>

abbreviation known :: "coordination \<Rightarrow> ident \<Rightarrow> ownership_subject option" where
  "known s i \<equiv> js_get (co_subjects s) i"

definition token_of :: "coordination_env \<Rightarrow> nat \<Rightarrow> nat \<Rightarrow> string \<Rightarrow> bool" where
  "token_of env lo hi t = (\<exists>k. lo \<le> k \<and> k < hi \<and> t = ce_token env k)"

lemma token_of_mono: "token_of env lo hi t \<Longrightarrow> hi \<le> hi' \<Longrightarrow> token_of env lo hi' t"
  unfolding token_of_def using less_le_trans by blast

text \<open>A change to be stored, and what its outcome says about it.\<close>

definition good_change :: "coordination_env \<Rightarrow> coordination \<Rightarrow> nat \<Rightarrow> ownership_subject \<Rightarrow> ownership_outcome \<Rightarrow> bool" where
  "good_change env s n b out =
     (subject_moved env (co_clock_tick s) n (known s (ow_subjectId b)) b
      \<and> oo_subjectId out = ow_subjectId b \<and> oo_leaseVersion out = cl_version (ow_lease b)
      \<and> (\<forall>t. oo_leaseToken out = Some t \<longrightarrow>
           token_of env (co_clock_tick s) n t \<and> cl_tokenHash (ow_lease b) = Some (ce_hashToken env t)
           \<and> (\<forall>a. known s (ow_subjectId b) = Some a \<longrightarrow> cl_version (ow_lease a) < cl_version (ow_lease b))))"

lemma lasting_good [simp]: "lasting (\<lambda>n. good_change env s n b out)"
  unfolding good_change_def lasting_def using subject_moved_mono token_of_mono by blast

text \<open>A projection of a known subject: its version, and its token unless it lost it.\<close>

definition derived :: "coordination \<Rightarrow> ownership_subject \<Rightarrow> bool" where
  "derived s sub =
     (\<exists>a. known s (ow_subjectId sub) = Some a \<and> cl_version (ow_lease sub) = cl_version (ow_lease a)
        \<and> (cl_tokenHash (ow_lease sub) = cl_tokenHash (ow_lease a) \<or> cl_tokenHash (ow_lease sub) = None))"

lemma derived_moved: "derived s sub \<Longrightarrow> subject_moved env lo hi (known s (ow_subjectId sub)) sub"
  by (auto simp: derived_def subject_moved_def lease_moved_def)

lemma derived_self: "known s (ow_subjectId sub) = Some sub \<Longrightarrow> derived s sub"
  by (simp add: derived_def)

text \<open>Changes that leave the version alone and at most drop the token.\<close>

lemma derived_update:
  assumes "derived s sub" "ow_subjectId b = ow_subjectId sub" "cl_version (ow_lease b) = cl_version (ow_lease sub)"
    and "cl_tokenHash (ow_lease b) = cl_tokenHash (ow_lease sub) \<or> cl_tokenHash (ow_lease b) = None"
  shows "derived s b"
  using assms by (auto simp: derived_def)

lemma projection_fields [simp]:
  "ow_subjectId (observedLeaseCopy sub ob now d g) = ow_subjectId sub"
  "ow_subjectId (expiredCopy env s sub now) = ow_subjectId sub"
  "cl_version (ow_lease (observedLeaseCopy sub ob now d g)) = cl_version (ow_lease sub)"
  "cl_tokenHash (ow_lease (observedLeaseCopy sub ob now d g)) = cl_tokenHash (ow_lease sub)
     \<or> cl_tokenHash (ow_lease (observedLeaseCopy sub ob now d g)) = None"
  by (auto simp: observedLeaseCopy_def projected_horizon_def expiredCopy_def Let_def split: option.split)

lemma derived_expiredCopy: "derived s sub \<Longrightarrow> derived s (expiredCopy env s' sub now)"
  by (erule derived_update) (auto simp: expiredCopy_def)

lemma expiredCopy_tick [simp]: "expiredCopy env (s\<lparr>co_clock_tick := n\<rparr>) sub now = expiredCopy env s sub now"
  by (simp add: expiredCopy_def)

lemma authCode_tick [simp]: "authCode env (s\<lparr>co_clock_tick := n\<rparr>) sub c t v now = authCode env s sub c t v now"
  by (simp add: authCode_def lease_isExpired_def)

lemma derived_good: "derived s sub \<Longrightarrow> good_change env s n sub (lease_outcome sub code)"
  by (simp add: good_change_def derived_moved lease_outcome_def)

definition good_step ::
  "coordination_env \<Rightarrow> coordination \<Rightarrow> (ownership_subject \<times> ownership_outcome) co_op \<Rightarrow> ident \<Rightarrow> bool" where
  "good_step env s m i =
     (\<forall>P. lasting P \<longrightarrow> plan_triple s P m (\<lambda>(b, out) n. good_change env s n b out \<and> ow_subjectId b = i \<and> P n))"

lemma good_return:
  "derived s b \<Longrightarrow> ow_subjectId b = i \<Longrightarrow> good_step env s (op_return (b, lease_outcome b code)) i"
  by (auto simp: good_step_def derived_good intro!: plan_return)

lemma good_grant:
  assumes "derived s sub \<or> known s (ow_subjectId sub) = None"
  shows "good_step env s (withNewController env sub c now code) (ow_subjectId sub)"
  unfolding good_step_def
proof (intro allI impI)
  fix P :: "nat \<Rightarrow> bool"
  assume P: "lasting P"
  let ?lo = "co_clock_tick s"
  let ?T = "\<lambda>t n. token_of env ?lo n t \<and> P n"
  have "lasting (?T t)" for t using P token_of_mono by (auto simp: lasting_def)
  then have parse: "plan_triple s (?T t) (parse_controller env c) (\<lambda>_. ?T t)" for t
    by (intro asking_plan) simp_all
  have ask: "plan_triple s P (co_ask (ce_token env)) ?T"
  proof (rule plan_ask)
    fix n assume "P n" "?lo \<le> n"
    then have "token_of env ?lo (Suc n) (ce_token env n)" unfolding token_of_def by (intro exI [of _ n]) simp
    moreover from P \<open>P n\<close> have "P (Suc n)" unfolding lasting_def using le_SucI by blast
    ultimately show "?T (ce_token env n) (Suc n)" ..
  qed
  have "good_change env s n b ((lease_outcome b code)\<lparr>oo_leaseToken := Some t\<rparr>)"
    if "token_of env ?lo n t" "b = sub\<lparr>ow_lease := granted_lease env (ow_lease sub) c' t now, ow_updatedAt := now\<rparr>"
    for n t b c'
  proof -
    from that(1) have "token_issued env ?lo n (ce_hashToken env t)" by (auto simp: token_of_def token_issued_def)
    with that assms show ?thesis
      by (auto simp: good_change_def subject_moved_def lease_moved_def lease_begun_def derived_def
          lease_outcome_def granted_lease_def)
  qed
  then show "plan_triple s P (withNewController env sub c now code)
      (\<lambda>(b, out) n. good_change env s n b out \<and> ow_subjectId b = ow_subjectId sub \<and> P n)"
    unfolding withNewController_def Let_def
    by (intro plan_bind [OF ask] plan_bind [OF parse] plan_return) auto
qed

lemma good_contested: "derived s sub \<Longrightarrow> good_step env s (op_return (contested sub actor reason now)) (ow_subjectId sub)"
  unfolding contested_def Let_def by (rule good_return) (auto elim: derived_update)

lemmas good_steps = good_return good_grant good_contested

subsection \<open>Commits\<close>

definition stored :: "coordination_env \<Rightarrow> coordination \<Rightarrow> ownership_subject list \<Rightarrow> coordination \<Rightarrow> bool" where
  "stored env s bs t =
     (co_clock_tick s \<le> co_clock_tick t \<and> co_subjects t = set_all ow_subjectId bs (co_subjects s)
      \<and> (\<forall>b\<in>set bs. subject_moved env (co_clock_tick s) (co_clock_tick t) (known s (ow_subjectId b)) b))"

definition movable :: "coordination_env \<Rightarrow> coordination \<Rightarrow> ownership_subject list \<Rightarrow> nat \<Rightarrow> bool" where
  "movable env s bs n = (\<forall>b\<in>set bs. subject_moved env (co_clock_tick s) n (known s (ow_subjectId b)) b)"

lemma lasting_movable [simp]: "lasting (movable env s bs)"
  unfolding movable_def by simp

lemma commit_triple:
  assumes "lasting P"
  shows "op_triple (plan s (\<lambda>n. movable env s (tx_subjects tx) n \<and> P n)) (commit env tx)
    (\<lambda>_ t. stored env s (tx_subjects tx) t \<and> P (co_clock_tick t)) (planned s)"
proof -
  let ?Q = "\<lambda>n. movable env s (tx_subjects tx) n \<and> P n"
  have "lasting ?Q" using assms by simp
  then have ask: "op_triple (plan s ?Q) (co_ask f) (\<lambda>_. plan s ?Q) (planned s)" for f :: "nat \<Rightarrow> 'b"
    using asking_plan [of "co_ask f" ?Q s] by (simp add: plan_triple_def)
  have "op_triple (plan s ?Q)
      (if \<not> ok then op_throw CoStoreFailed
       else op_modify (commit_applied (tx\<lparr>tx_id := i\<rparr>)))
      (\<lambda>_ t. stored env s (tx_subjects tx) t \<and> P (co_clock_tick t)) (planned s)" for ok i
    by (auto intro!: op_triple_throw op_triple_modify simp: plan_def stored_def movable_def commit_applied_def apply_transaction_def)
  then show ?thesis
    unfolding commit_def Let_def
    by (intro op_triple_bind [OF ask]) auto
qed

lemma receipt_recorded:
  assumes "lasting P"
  shows "op_triple (plan s (\<lambda>n. movable env s (tx_subjects tx) n \<and> P n)) (persistReceipt env res tx h)
    (\<lambda>_ t. stored env s (tx_subjects tx) t \<and> P (co_clock_tick t)) (planned s)"
proof -
  let ?Q = "\<lambda>n. movable env s (tx_subjects tx) n \<and> P n"
  have "lasting ?Q" using assms by simp
  then have ask: "op_triple (plan s ?Q) (co_ask f) (\<lambda>_. plan s ?Q) (planned s)" for f :: "nat \<Rightarrow> 'b"
    using asking_plan [of "co_ask f" ?Q s] by (simp add: plan_triple_def)
  have "op_triple (plan s ?Q) (commit env (tx\<lparr>tx_receipts := rs\<rparr>))
      (\<lambda>_ t. stored env s (tx_subjects tx) t \<and> P (co_clock_tick t)) (planned s)" for rs
    using commit_triple [OF assms, of s env "tx\<lparr>tx_receipts := rs\<rparr>"] by simp
  then show ?thesis unfolding persistReceipt_def persist_result_def by (intro op_triple_bind [OF ask])
qed

lemma set_all_cases:
  "js_get (set_all key vs m) k = Some v \<Longrightarrow> v \<in> set vs \<and> key v = k \<or> js_get m k = Some v"
proof (induction vs arbitrary: m)
  case (Cons u vs)
  then have "v \<in> set vs \<and> key v = k \<or> js_get (js_set (key u) u m) k = Some v" by simp
  then show ?case by (auto simp: js.get_put split: if_splits)
qed simp

lemma set_all_None: "js_get (set_all key vs m) k = None \<Longrightarrow> js_get m k = None"
proof (induction vs arbitrary: m)
  case (Cons u vs)
  then have "js_get (js_set (key u) u m) k = None" by simp
  then show ?case by (simp add: js.get_put split: if_splits)
qed simp

lemma set_all_distinct:
  "distinct (map key vs) \<Longrightarrow> v \<in> set vs \<Longrightarrow> js_get (set_all key vs m) (key v) = Some v"
  by (induction vs arbitrary: m) (auto simp: js.get_put set_all_other)

lemma set_all_keyed: "keyed key m \<Longrightarrow> keyed key (set_all key vs m)"
  by (induction vs arbitrary: m) auto

lemma stored_evolves: "stored env s bs t \<Longrightarrow> lease_evolves env s t"
proof (rule lease_evolvesI)
  assume st: "stored env s bs t"
  then show "co_clock_tick s \<le> co_clock_tick t" by (simp add: stored_def)
  fix i
  show "known s i = None" if "known t i = None"
    using that st by (auto simp: stored_def dest: set_all_None)
  show "subject_moved env (co_clock_tick s) (co_clock_tick t) (known s i) b \<or> known s i = Some b"
    if "known t i = Some b" for b
    using that st by (auto simp: stored_def dest!: set_all_cases)
qed

lemma planned_evolves: "planned s t \<Longrightarrow> lease_evolves env s t"
  by (auto simp: plan_def lease_evolves_def split: option.split)

subsection \<open>Calls\<close>

text \<open>A grant: a token issued by the call, its hash on the lease, and a higher version than before.\<close>

definition token_granted :: "coordination_env \<Rightarrow> coordination \<Rightarrow> coordination \<Rightarrow> ident \<Rightarrow> nat \<Rightarrow> string \<Rightarrow> bool" where
  "token_granted env s t i v tok =
     (token_of env (co_clock_tick s) (co_clock_tick t) tok
      \<and> (\<exists>b. known t i = Some b \<and> cl_version (ow_lease b) = v
             \<and> cl_tokenHash (ow_lease b) = Some (ce_hashToken env tok))
      \<and> (\<forall>a. known s i = Some a \<longrightarrow> cl_version (ow_lease a) < v))"

definition call_kept :: "coordination_env \<Rightarrow> coordination \<Rightarrow> coordination \<Rightarrow> bool" where
  "call_kept env s t = (lease_evolves env s t \<and> keyed ow_subjectId (co_subjects t))"

text \<open>A call that fails has changed nothing.\<close>

definition call_error :: "coordination_env \<Rightarrow> coordination \<Rightarrow> coordination \<Rightarrow> bool" where
  "call_error env s t = planned s t"

definition call_post :: "coordination_env \<Rightarrow> coordination \<Rightarrow> ownership_result \<Rightarrow> coordination \<Rightarrow> bool" where
  "call_post env s res t =
     (call_kept env s t
      \<and> (\<not> or_idempotentReplay res \<longrightarrow>
          (\<forall>out\<in>set (or_outcomes res). \<forall>tok. oo_leaseToken out = Some tok \<longrightarrow>
             token_granted env s t (oo_subjectId out) (oo_leaseVersion out) tok)))"

definition sound_call :: "coordination_env \<Rightarrow> ownership_result co_op \<Rightarrow> bool" where
  "sound_call env m =
     (\<forall>s. keyed ow_subjectId (co_subjects s) \<longrightarrow>
        op_triple (\<lambda>t. t = s) m (call_post env s) (call_error env s))"

lemma planned_kept: "keyed ow_subjectId (co_subjects s) \<Longrightarrow> planned s t \<Longrightarrow> call_kept env s t"
  unfolding call_kept_def using planned_evolves by (auto simp: plan_def)

lemma planned_error: "keyed ow_subjectId (co_subjects s) \<Longrightarrow> planned s t \<Longrightarrow> call_error env s t"
  by (simp add: call_error_def)

lemma plan_mono: "plan s P t \<Longrightarrow> (\<And>n. P n \<Longrightarrow> Q n) \<Longrightarrow> plan s Q t"
  by (auto simp: plan_def)

lemma plan_error: "keyed ow_subjectId (co_subjects s) \<Longrightarrow> plan s P t \<Longrightarrow> call_error env s t"
  by (erule planned_error) (erule plan_mono, simp)

lemma stored_kept: "keyed ow_subjectId (co_subjects s) \<Longrightarrow> stored env s bs t \<Longrightarrow> call_kept env s t"
  unfolding call_kept_def using stored_evolves by (auto simp: stored_def set_all_keyed)

text \<open>Changes as a plan leaves them: each good, and one per subject.\<close>

definition good_changes ::
  "coordination_env \<Rightarrow> coordination \<Rightarrow> (ownership_subject \<times> ownership_outcome) list \<Rightarrow> nat \<Rightarrow> bool" where
  "good_changes env s cs n =
     (distinct (map (\<lambda>(b, _). ow_subjectId b) cs) \<and> (\<forall>(b, out)\<in>set cs. good_change env s n b out))"

lemma lasting_changes [simp]: "lasting (good_changes env s cs)"
  unfolding good_changes_def by (auto simp: split_def)

lemma good_movable: "good_changes env s cs n \<Longrightarrow> movable env s (map fst cs) n"
  by (auto simp: good_changes_def movable_def good_change_def)

lemma stored_granted:
  assumes "stored env s (map fst cs) t" "good_changes env s cs (co_clock_tick t)"
    and "(b, out) \<in> set cs" "oo_leaseToken out = Some tok"
  shows "token_granted env s t (oo_subjectId out) (oo_leaseVersion out) tok"
proof -
  from assms(2) have "distinct (map ow_subjectId (map fst cs))" by (simp add: good_changes_def split_def comp_def)
  with assms(1,3) have "known t (ow_subjectId b) = Some b"
    unfolding stored_def by (metis set_all_distinct image_eqI fst_conv set_map)
  moreover from assms(2,3) have "good_change env s (co_clock_tick t) b out" by (auto simp: good_changes_def)
  ultimately show ?thesis using assms(4) by (auto simp: token_granted_def good_change_def)
qed

text \<open>The outcomes with a token are among those of the changes.\<close>

definition covers :: "(ownership_subject \<times> ownership_outcome) list \<Rightarrow> ownership_result \<Rightarrow> bool" where
  "covers cs res = (\<forall>out\<in>set (or_outcomes res). oo_leaseToken out = None \<or> out \<in> snd ` set cs)"

lemma covers_all [simp]: "or_outcomes res = map snd cs \<Longrightarrow> covers cs res"
  by (auto simp: covers_def)

lemma stored_post:
  assumes "keyed ow_subjectId (co_subjects s)" "stored env s (map fst cs) t" "good_changes env s cs (co_clock_tick t)"
    and "covers cs res"
  shows "call_post env s res t"
proof -
  have "token_granted env s t (oo_subjectId out) (oo_leaseVersion out) tok"
    if "out \<in> set (or_outcomes res)" "oo_leaseToken out = Some tok" for out tok
    using that assms(4) stored_granted [OF assms(2,3) _ that(2)] by (fastforce simp: covers_def)
  then show ?thesis using stored_kept [OF assms(1,2)] by (auto simp: call_post_def)
qed

lemma replay_post: "keyed ow_subjectId (co_subjects s) \<Longrightarrow> or_idempotentReplay res \<Longrightarrow> planned s t \<Longrightarrow> call_post env s res t"
  by (simp add: call_post_def planned_kept)

lemma plan_each:
  assumes each: "\<And>x P. x \<in> set xs \<Longrightarrow> lasting P \<Longrightarrow> plan_triple s P (f x) (\<lambda>y n. R x y n \<and> P n)"
    and R: "\<And>x y. lasting (R x y)" and P: "lasting P"
  shows "plan_triple s P (change_each f xs) (\<lambda>ys n. list_all2 (\<lambda>x y. R x y n) xs ys \<and> P n)"
  using each P
proof (induction xs arbitrary: P)
  case Nil
  then show ?case by (simp add: plan_return)
next
  case (Cons x xs)
  have "plan_triple s (\<lambda>n. R x y n \<and> P n) (change_each f xs)
      (\<lambda>ys n. list_all2 (\<lambda>x y. R x y n) xs ys \<and> R x y n \<and> P n)" for y
    using Cons.prems R by (intro Cons.IH) auto
  moreover have "plan_triple s P (f x) (\<lambda>y n. R x y n \<and> P n)" using Cons.prems by simp
  ultimately show ?case by (auto intro!: plan_bind plan_return)
qed

definition pairs :: "('a \<times> 'b \<times> 'c) list \<Rightarrow> ('a \<times> 'b) list" where
  "pairs cs = map (\<lambda>(b, out, _). (b, out)) cs"

lemma pairs_simps [simp]:
  "map fst (pairs cs) = map fst cs" "map snd (pairs cs) = map (\<lambda>(_, out, _). out) cs"
  by (auto simp: pairs_def)

text \<open>A change whose audit, or whatever comes third, does not matter.\<close>

definition good_entry ::
  "coordination_env \<Rightarrow> coordination \<Rightarrow> ident \<Rightarrow> ownership_subject \<times> ownership_outcome \<times> 'a \<Rightarrow> nat \<Rightarrow> bool" where
  "good_entry env s i c n = (case c of (b, out, _) \<Rightarrow> good_change env s n b out \<and> ow_subjectId b = i)"

lemma lasting_entry [simp]: "lasting (good_entry env s i c)"
  unfolding good_entry_def by (cases c) simp

lemma entries_changes:
  assumes "list_all2 (\<lambda>x c. good_entry env s (g x) c n) xs cs" "distinct (map g xs)"
  shows "good_changes env s (pairs cs) n"
proof -
  from assms(1) have ids: "map (\<lambda>(b, _). ow_subjectId b) (pairs cs) = map g xs"
    by (induction rule: list_all2_induct) (auto simp: pairs_def good_entry_def)
  from assms(1) have "\<forall>(b, out)\<in>set (pairs cs). good_change env s n b out"
    by (induction rule: list_all2_induct) (auto simp: pairs_def good_entry_def)
  with ids assms(2) show ?thesis by (simp add: good_changes_def)
qed

lemma plan_entry:
  assumes step: "good_step env s m i" and keeps: "\<And>b out P. lasting P \<Longrightarrow> plan_triple s P (k (b, out)) (\<lambda>c n. fst c = b \<and> fst (snd c) = out \<and> P n)"
    and P: "lasting P"
  shows "plan_triple s P (op_bind m k) (\<lambda>c n. good_entry env s i c n \<and> P n)"
proof (rule plan_bind)
  show "plan_triple s P m (\<lambda>(b, out) n. good_change env s n b out \<and> ow_subjectId b = i \<and> P n)"
    using step P by (simp add: good_step_def)
  fix x :: "ownership_subject \<times> ownership_outcome"
  obtain b out where x: "x = (b, out)" by fastforce
  have "lasting (\<lambda>n. good_change env s n b out \<and> ow_subjectId b = i \<and> P n)" using P by simp
  from keeps [OF this, of b out]
  show "plan_triple s (case x of (b, out) \<Rightarrow> \<lambda>n. good_change env s n b out \<and> ow_subjectId b = i \<and> P n) (k x)
      (\<lambda>c n. good_entry env s i c n \<and> P n)"
    unfolding x by (auto simp: good_entry_def elim!: plan_weaken)
qed

text \<open>What follows a change only asks for its audit.\<close>

lemma plan_audited:
  "lasting P \<Longrightarrow> plan_triple s P
     (op_bind (ownership_audit_of env mid operation i actor reason la lb oc) (\<lambda>audit. op_return (b, out, audit)))
     (\<lambda>c n. fst c = b \<and> fst (snd c) = out \<and> P n)"
  by (rule plan_bind [OF asking_plan]) (auto intro: plan_return)

lemma plan_change_subject:
  assumes "good_step env s (f (expiredCopy env s original now)) (ow_subjectId original)" "lasting P"
  shows "plan_triple s P (change_subject env operation m now f original)
    (\<lambda>c n. good_entry env s (ow_subjectId original) c n \<and> P n)"
  unfolding change_subject_def
proof (rule plan_bind)
  show "plan_triple s P (op_gets (\<lambda>s. expiredCopy env s original now))
      (\<lambda>x n. x = expiredCopy env s original now \<and> P n)"
    by (rule plan_gets) simp_all
  show "plan_triple s (\<lambda>n. x = expiredCopy env s original now \<and> P n)
      (op_bind (f x) (\<lambda>(new, outcome).
         op_bind (ownership_audit_of env (mi_mutationId m) operation (ow_subjectId new) (mi_actor m) (mi_reason m)
           (Some (ow_lease original)) (Some (ow_lease new)) (AuditCode (oo_code outcome)))
           (\<lambda>audit. op_return (new, outcome, audit))))
      (\<lambda>c n. good_entry env s (ow_subjectId original) c n \<and> P n)" for x
  proof (cases "x = expiredCopy env s original now")
    case True
    with assms(1) have "good_step env s (f x) (ow_subjectId original)" by simp
    then show ?thesis using assms(2) True
      by (intro plan_weaken [OF plan_entry]) (auto intro!: plan_audited)
  next
    case False
    then show ?thesis by (auto simp: plan_triple_def op_triple_def plan_def)
  qed
qed

definition good_selection :: "coordination \<Rightarrow> ownership_subject list \<Rightarrow> bool" where
  "good_selection s xs =
     (distinct (map ow_subjectId xs) \<and> (\<forall>x\<in>set xs. known s (ow_subjectId x) = Some x))"

lemma good_filter:
  assumes "keyed ow_subjectId (co_subjects s)"
  shows "good_selection s (filter P (js_values (co_subjects s)))"
proof -
  have "distinct (map ow_subjectId (js_values (co_subjects s)))"
    unfolding keyed_values [OF assms] using keyed_wf [OF assms] by (simp add: js_wf_def)
  then have "distinct (map ow_subjectId (filter P (js_values (co_subjects s))))" by (rule distinct_map_filter)
  with assms show ?thesis by (auto simp: good_selection_def keyed_value [symmetric])
qed

lemma plan_select:
  assumes "keyed ow_subjectId (co_subjects s)"
  shows "plan_triple s P (select env sel now) (\<lambda>xs n. good_selection s xs \<and> P n)"
proof (cases sel)
  case (SelectSingle i)
  have "plan_triple s P (op_gets (\<lambda>s. js_get (co_subjects s) i)) (\<lambda>x n. x = known s i \<and> P n)"
    by (rule plan_gets) simp_all
  moreover have "plan_triple s (\<lambda>n. x = known s i \<and> P n)
      (case x of None \<Rightarrow> op_throw CoSubjectNotFound | Some sub \<Rightarrow> op_return sub)
      (\<lambda>sub n. known s i = Some sub \<and> P n)" for x
    by (cases x) (auto intro: plan_return plan_throw)
  ultimately have "plan_triple s P (requireSubject i) (\<lambda>sub n. known s i = Some sub \<and> P n)"
    unfolding requireSubject_def by (rule plan_bind)
  then show ?thesis
    unfolding select_def SelectSingle using keyed_get [OF assms, of i]
    by (auto simp: good_selection_def intro!: plan_bind plan_return)
next
  case (SelectGroup task wave)
  show ?thesis unfolding select_def SelectGroup using good_filter [OF assms] by (auto intro: plan_gets)
next
  case (SelectInactive c)
  have "of_inactive env (s\<lparr>co_clock_tick := n\<rparr>) c now = of_inactive env s c now" for n
    by (rule ext) (simp add: of_inactive_def)
  then show ?thesis unfolding select_def SelectInactive using good_filter [OF assms] by (auto intro: plan_gets)
qed

subsection \<open>Every call is sound\<close>

text \<open>A plan followed by a commit.\<close>

lemma plan_op_bind:
  assumes "plan_triple s P m R" "\<And>x. op_triple (plan s (R x)) (f x) Q (call_error env s)"
    and "keyed ow_subjectId (co_subjects s)"
  shows "op_triple (plan s P) (op_bind m f) Q (call_error env s)"
proof (rule op_triple_bind)
  show "op_triple (plan s P) m (\<lambda>x. plan s (R x)) (call_error env s)"
    using assms(1) unfolding plan_triple_def by (rule op_triple_weaken) (auto intro: planned_error [OF assms(3)])
qed (rule assms(2))

lemmas asking_op_bind = plan_op_bind [OF asking_plan]

lemma plan_op_throw:
  "keyed ow_subjectId (co_subjects s) \<Longrightarrow> op_triple (plan s P) (op_throw e) Q (call_error env s)"
  by (rule op_triple_throw) (rule plan_error)

text \<open>A fact of the plan that is not about the ticks.\<close>

lemma plan_given: "(b \<Longrightarrow> op_triple (plan s P) m Q E) \<Longrightarrow> op_triple (plan s (\<lambda>n. b \<and> P n)) m Q E"
  by (cases b) (auto simp: op_triple_def plan_def)

lemma result_outcomes:
  "plan_triple s P (ownership_result_of mid operation outs)
     (\<lambda>res n. or_outcomes res = outs \<and> P n)"
  unfolding ownership_result_of_def by (auto intro: plan_return plan_throw)

lemma receipt_post:
  assumes "keyed ow_subjectId (co_subjects s)" "tx_subjects tx = map fst cs" "covers cs res"
    and "\<And>u. op_triple (\<lambda>t. stored env s (map fst cs) t \<and> good_changes env s cs (co_clock_tick t)) (k u)
      (\<lambda>r t. r = res \<and> stored env s (map fst cs) t \<and> good_changes env s cs (co_clock_tick t)) (call_error env s)"
  shows "op_triple (plan s (good_changes env s cs)) (op_bind (persistReceipt env res tx h) k)
    (call_post env s) (call_error env s)"
proof (rule op_triple_bind)
  show "op_triple (plan s (good_changes env s cs)) (persistReceipt env res tx h)
      (\<lambda>_ t. stored env s (map fst cs) t \<and> good_changes env s cs (co_clock_tick t)) (call_error env s)"
    using receipt_recorded [OF lasting_changes, of s env tx env s cs res h, unfolded assms(2)]
    by (rule op_triple_weaken) (auto elim!: plan_mono simp: good_movable intro: plan_error [OF assms(1)])
  show "op_triple (\<lambda>t. stored env s (map fst cs) t \<and> good_changes env s cs (co_clock_tick t)) (k u)
      (call_post env s) (call_error env s)" for u
    by (rule op_triple_weaken [OF assms(4)]) (auto intro: stored_post [OF assms(1) _ _ assms(3)])
qed

lemma receipt_return:
  assumes "keyed ow_subjectId (co_subjects s)" "tx_subjects tx = map fst cs" "covers cs res"
  shows "op_triple (plan s (good_changes env s cs)) (op_then (persistReceipt env res tx h) (op_return res))
    (call_post env s) (call_error env s)"
  unfolding op_then_def by (rule receipt_post [OF assms]) (simp add: op_triple_return)

lemma changes_transaction_subjects [simp]: "tx_subjects (changes_transaction cs live) = map fst cs"
  by (simp add: changes_transaction_def)

lemma conclude_sound:
  assumes "keyed ow_subjectId (co_subjects s)"
  shows "op_triple (plan s (good_changes env s (pairs cs))) (conclude env operation m c now alive cs)
    (call_post env s) (call_error env s)"
  unfolding conclude_def
proof (rule plan_op_bind [OF result_outcomes _ assms])
  fix res
  show "op_triple (plan s (\<lambda>n. or_outcomes res = map (\<lambda>(_, o', _). o') cs \<and> good_changes env s (pairs cs) n))
      (op_bind (if list_ex (\<lambda>(_, o', _). alive o') cs
                then op_bind (connectedObservation c now (operation_call operation)) (\<lambda>l. op_return [l])
                else op_return [])
         (\<lambda>live. op_then (persistReceipt env res (changes_transaction cs live) None) (op_return res)))
      (call_post env s) (call_error env s)"
    by (rule plan_given, rule asking_op_bind) (auto intro!: asking_bind receipt_return simp: assms)
qed

text \<open>The calls over a selection, by what they do to one subject.\<close>

lemma selection_sound:
  assumes keyed: "keyed ow_subjectId (co_subjects s)"
    and step: "\<And>x. derived s x \<Longrightarrow> good_step env s (f x) (ow_subjectId x)"
  shows "op_triple (planned s)
    (op_bind (select env sel now) (\<lambda>xs.
       op_bind (change_each (change_subject env operation m now f) xs) (conclude env operation m c now alive)))
    (call_post env s) (call_error env s)"
proof (rule plan_op_bind [OF plan_select [OF keyed] _ keyed])
  fix xs
  show "op_triple (plan s (\<lambda>n. good_selection s xs \<and> True))
      (op_bind (change_each (change_subject env operation m now f) xs) (conclude env operation m c now alive))
      (call_post env s) (call_error env s)"
  proof (cases "good_selection s xs")
    case False
    then show ?thesis by (auto simp: op_triple_def plan_def)
  next
    case True
    have each: "plan_triple s P (change_subject env operation m now f x)
        (\<lambda>c n. good_entry env s (ow_subjectId x) c n \<and> P n)" if "x \<in> set xs" "lasting P" for x P
    proof (rule plan_change_subject [OF _ that(2)])
      from True that(1) have "derived s x" by (auto simp: good_selection_def intro: derived_self)
      then show "good_step env s (f (expiredCopy env s x now)) (ow_subjectId x)"
        using step [of "expiredCopy env s x now"] by (simp add: derived_expiredCopy)
    qed
    have "plan_triple s (\<lambda>_. True) (change_each (change_subject env operation m now f) xs)
        (\<lambda>cs n. good_changes env s (pairs cs) n)"
    proof (rule plan_weaken)
      show "plan_triple s (\<lambda>_. True) (change_each (change_subject env operation m now f) xs)
          (\<lambda>cs n. list_all2 (\<lambda>x c. good_entry env s (ow_subjectId x) c n) xs cs \<and> True)"
        by (rule plan_each) (auto intro: each)
      show "good_changes env s (pairs cs) n"
        if "list_all2 (\<lambda>x c. good_entry env s (ow_subjectId x) c n) xs cs \<and> True" for cs n
        using that True by (auto simp: good_selection_def intro: entries_changes)
    qed simp
    from plan_op_bind [OF this conclude_sound [OF keyed] keyed] True show ?thesis by simp
  qed
qed

lemma with_receipt_sound:
  assumes "\<And>s. keyed ow_subjectId (co_subjects s) \<Longrightarrow> op_triple (planned s) work (call_post env s) (call_error env s)"
  shows "sound_call env (with_receipt mid operation work)"
  unfolding sound_call_def
proof (intro allI impI)
  fix s :: coordination
  assume keyed: "keyed ow_subjectId (co_subjects s)"
  have "op_triple (planned s) (with_receipt mid operation work) (call_post env s) (call_error env s)"
    unfolding with_receipt_def op_then_def
  proof (rule asking_op_bind)
    have replay: "plan_triple s (\<lambda>_. True) (replayOwnership mid operation)
        (\<lambda>r n. \<forall>res. r = Some res \<longrightarrow> or_idempotentReplay res)"
      unfolding replayOwnership_def
      by (rule plan_bind [OF asking_plan])
         (auto intro!: plan_return plan_throw split: option.split receipt_result.split)
    show "op_triple (planned s)
        (op_bind (replayOwnership mid operation)
           (\<lambda>replay. case replay of None \<Rightarrow> work | Some res \<Rightarrow> op_return res))
        (call_post env s) (call_error env s)"
    proof (rule plan_op_bind [OF replay _ keyed])
      fix r :: "ownership_result option"
      show "op_triple (plan s (\<lambda>n. \<forall>res. r = Some res \<longrightarrow> or_idempotentReplay res))
          (case r of None \<Rightarrow> work | Some res \<Rightarrow> op_return res) (call_post env s) (call_error env s)"
        using assms [OF keyed]
        by (cases r) (auto intro!: op_triple_return replay_post [OF keyed] simp: plan_def)
    qed
  qed (simp_all add: keyed)
  then show "op_triple (\<lambda>t. t = s) (with_receipt mid operation work) (call_post env s) (call_error env s)"
    by (rule op_triple_weaken) (simp_all add: plan_start)
qed

subsection \<open>The calls over a selection\<close>

lemma mutation_sound:
  assumes "\<And>s x now. derived s x \<Longrightarrow> good_step env s (mutate x now) (ow_subjectId x)"
  shows "sound_call env (ownershipMutation env operation m c mutate)"
  unfolding ownershipMutation_def
  by (rule with_receipt_sound) (intro asking_op_bind selection_sound assms; simp)

lemma good_asks:
  assumes "\<And>n. f (s\<lparr>co_clock_tick := n\<rparr>) = f s" "good_step env s (k (f s)) i"
  shows "good_step env s (op_bind (op_gets f) k) i"
  unfolding good_step_def
proof (intro allI impI)
  fix P :: "nat \<Rightarrow> bool"
  assume P: "lasting P"
  have "plan_triple s P (op_gets f) (\<lambda>x n. x = f s \<and> P n)" by (rule plan_gets) (simp_all add: assms(1))
  moreover have "plan_triple s (\<lambda>n. x = f s \<and> P n) (k x)
      (\<lambda>(b, out) n. good_change env s n b out \<and> ow_subjectId b = i \<and> P n)" for x
    using assms(2) P by (cases "x = f s") (auto simp: good_step_def plan_triple_def op_triple_def plan_def)
  ultimately show "plan_triple s P (op_bind (op_gets f) k)
      (\<lambda>(b, out) n. good_change env s n b out \<and> ow_subjectId b = i \<and> P n)" by (rule plan_bind)
qed

lemma authenticated_sound:
  assumes step: "\<And>s x now. derived s x \<Longrightarrow> good_step env s (mutate x now) (ow_subjectId x)"
  shows "sound_call env (authenticatedOwnershipMutation env operation m cred mutate)"
proof -
  have "good_step env s (authenticated_change env cred now mutate x) (ow_subjectId x)" if "derived s x" for s x now
    unfolding authenticated_change_def
    by (rule good_asks) (auto intro!: good_return step that split: option.split auth_refusal.split)
  then show ?thesis
    unfolding authenticatedOwnershipMutation_def
    by (intro with_receipt_sound asking_op_bind selection_sound; simp)
qed

lemma acquire_sound: "sound_call env (acquire_lease env m c)"
  unfolding acquire_lease_def
  by (rule mutation_sound) (auto simp: acquire_subject_def intro!: good_steps)

lemma adopt_sound: "sound_call env (adopt env m c)"
  unfolding adopt_def
  by (rule mutation_sound) (auto simp: adopt_subject_def intro!: good_steps)

lemma renew_sound: "sound_call env (renew_lease env m cred)"
  unfolding renew_lease_def
  by (rule authenticated_sound) (auto simp: renewed_def intro!: good_return elim: derived_update)

lemma release_sound: "sound_call env (release_lease env m cred)"
  unfolding release_lease_def
  by (rule authenticated_sound) (auto simp: released_subject_def intro!: good_return elim: derived_update)

lemma transfer_sound: "sound_call env (transfer_lease env m cred c)"
  unfolding transfer_lease_def by (rule authenticated_sound) (auto intro!: good_grant)

lemma lifecycle_sound: "sound_call env (updateLifecycle env m cred i l)"
  unfolding updateLifecycle_def Let_def
  by (rule authenticated_sound) (auto intro!: good_return elim: derived_update)

subsection \<open>Expiry and liveness\<close>

lemma derived_changes:
  assumes "distinct (map ow_subjectId bs)" "\<And>b. b \<in> set bs \<Longrightarrow> derived s b"
  shows "good_changes env s (map (\<lambda>b. (b, lease_outcome b (code b))) bs) n"
  using assms by (auto simp: good_changes_def comp_def intro: derived_good)

lemma record_liveness_sound:
  assumes "keyed ow_subjectId (co_subjects s)" "distinct (map ow_subjectId subs)" "\<And>b. b \<in> set subs \<Longrightarrow> derived s b"
  shows "op_triple (planned s) (record_liveness env mid entry now subs) (call_post env s) (call_error env s)"
  unfolding record_liveness_def
proof (rule plan_op_bind [OF result_outcomes _ assms(1)])
  fix res
  let ?bs = "filter (\<lambda>sub. cl_state (ow_lease sub) = ClOrphaned) subs"
  let ?cs = "map (\<lambda>b. (b, lease_outcome b OcOrphaned)) ?bs"
  have good: "good_changes env s ?cs n" for n
    using distinct_map_filter [OF assms(2)] assms(3) by (intro derived_changes) auto
  show "op_triple (plan s (\<lambda>n. or_outcomes res = map (liveness_outcome env entry now) subs \<and> True))
      (op_then (persistReceipt env res (no_changes\<lparr>tx_liveness := [entry], tx_subjects := ?bs\<rparr>) None) (op_return res))
      (call_post env s) (call_error env s)"
  proof (rule plan_given)
    assume "or_outcomes res = map (liveness_outcome env entry now) subs"
    then have "covers ?cs res" by (auto simp: covers_def lease_outcome_def liveness_outcome_def Let_def)
    then have "op_triple (plan s (good_changes env s ?cs))
        (op_then (persistReceipt env res (no_changes\<lparr>tx_liveness := [entry], tx_subjects := ?bs\<rparr>) None) (op_return res))
        (call_post env s) (call_error env s)"
      by (intro receipt_return [OF assms(1)]) (simp_all add: comp_def)
    then show "op_triple (planned s)
        (op_then (persistReceipt env res (no_changes\<lparr>tx_liveness := [entry], tx_subjects := ?bs\<rparr>) None) (op_return res))
        (call_post env s) (call_error env s)"
      by (rule op_triple_weaken) (auto elim!: plan_mono simp: good)
  qed
qed

text \<open>A bind on a reading of the state, for the value it has there.\<close>

lemma gets_op_bind:
  assumes "\<And>n. f (s\<lparr>co_clock_tick := n\<rparr>) = f s" "op_triple (planned s) (k (f s)) Q E"
  shows "op_triple (planned s) (op_bind (op_gets f) k) Q E"
  using assms by (auto simp: op_triple_def plan_def op_bind_def op_gets_def)

lemma outgoing_copies:
  assumes "good_selection s xs"
  shows "distinct (map ow_subjectId (map (outgoing_copy env s inp now) xs))"
    and "b \<in> set (map (outgoing_copy env s inp now) xs) \<Longrightarrow> derived s b"
proof -
  have "ow_subjectId (outgoing_copy env s inp now x) = ow_subjectId x" for x by (simp add: outgoing_copy_def)
  then have "map ow_subjectId (map (outgoing_copy env s inp now) xs) = map ow_subjectId xs" by simp
  with assms show "distinct (map ow_subjectId (map (outgoing_copy env s inp now) xs))"
    by (simp only: good_selection_def)
  show "derived s b" if "b \<in> set (map (outgoing_copy env s inp now) xs)"
    using that assms by (auto simp: good_selection_def outgoing_copy_def intro: derived_expiredCopy derived_self)
qed

lemma liveness_sound: "sound_call env (observeControllerLiveness env inp)"
  unfolding observeControllerLiveness_def
proof (rule with_receipt_sound)
  fix s :: coordination
  assume keyed: "keyed ow_subjectId (co_subjects s)"
  have tick: "outgoing_copy env (s\<lparr>co_clock_tick := n\<rparr>) inp now = outgoing_copy env s inp now" for n now
    by (rule ext) (simp add: outgoing_copy_def)
  note outgoing_copies [OF good_filter [OF keyed]]
  then show "op_triple (planned s) (op_bind (co_ask (ce_clock env)) (\<lambda>now.
        op_bind (parse_controller env (ln_controller inp)) (\<lambda>c.
        op_bind (op_gets (\<lambda>s. map (outgoing_copy env s inp now)
            (filter (controlled_by (ci_controllerId c)) (js_values (co_subjects s)))))
          (record_liveness env (ln_mutationId inp) (liveness_entry inp c now) now))))
      (call_post env s) (call_error env s)"
    by (intro asking_op_bind gets_op_bind record_liveness_sound) (simp_all add: keyed tick)
qed

lemma plan_expire:
  assumes "known s (ow_subjectId x) = Some x" "lasting P"
  shows "plan_triple s P (expire_subject env mid actor reason now x)
    (\<lambda>c n. good_entry env s (ow_subjectId x) c n \<and> P n)"
proof -
  let ?b = "orphaned_lease (expired_lease x reason now) now"
  have "derived s ?b" using derived_self [OF assms(1)]
    by (rule derived_update) (simp_all add: orphaned_lease_def expired_lease_def)
  then have "good_change env s n ?b (lease_outcome ?b OcOrphaned)" for n by (rule derived_good)
  moreover have "ow_subjectId ?b = ow_subjectId x" by (simp add: orphaned_lease_def expired_lease_def)
  ultimately show ?thesis
    unfolding expire_subject_def Let_def using assms(2)
    by (intro plan_bind [OF asking_plan] plan_return) (auto simp: good_entry_def)
qed

lemma record_expiry_sound:
  assumes "keyed ow_subjectId (co_subjects s)"
  shows "op_triple (plan s (good_changes env s (pairs cs))) (record_expiry env mid cs) (call_post env s) (call_error env s)"
  unfolding record_expiry_def
proof (rule plan_op_bind [OF result_outcomes _ assms])
  fix res
  show "op_triple (plan s (\<lambda>n. or_outcomes res = map (\<lambda>(_, o', _). o') cs \<and> good_changes env s (pairs cs) n))
      (op_then (persistReceipt env res (no_changes\<lparr>tx_subjects := map fst cs,
          tx_audits := concat (map (\<lambda>(_, _, as). as) cs)\<rparr>) None) (op_return res))
      (call_post env s) (call_error env s)"
    by (rule plan_given, rule receipt_return [OF assms]) simp_all
qed

lemma expire_sound: "sound_call env (expireLeases env mid actor reason)"
  unfolding expireLeases_def
proof (rule with_receipt_sound)
  fix s :: coordination
  assume keyed: "keyed ow_subjectId (co_subjects s)"
  have tick: "lease_isExpired env (s\<lparr>co_clock_tick := n\<rparr>) sub now = lease_isExpired env s sub now" for n sub now
    by (simp add: lease_isExpired_def)
  have each: "plan_triple s (\<lambda>_. True) (change_each (expire_subject env mid a reason now) xs)
      (\<lambda>cs n. good_changes env s (pairs cs) n)" if "good_selection s xs" for xs a now
  proof (rule plan_weaken)
    show "plan_triple s (\<lambda>_. True) (change_each (expire_subject env mid a reason now) xs)
        (\<lambda>cs n. list_all2 (\<lambda>x c. good_entry env s (ow_subjectId x) c n) xs cs \<and> True)"
      using that by (intro plan_each) (auto simp: good_selection_def intro: plan_expire)
    show "good_changes env s (pairs cs) n"
      if "list_all2 (\<lambda>x c. good_entry env s (ow_subjectId x) c n) xs cs \<and> True" for cs n
      using that \<open>good_selection s xs\<close> by (auto simp: good_selection_def intro: entries_changes)
  qed simp
  show "op_triple (planned s) (op_bind (co_ask (ce_clock env)) (\<lambda>now.
        op_bind (op_gets (\<lambda>s. filter (\<lambda>sub. lease_isExpired env s sub now) (js_values (co_subjects s)))) (\<lambda>due.
        op_bind (change_each (expire_subject env mid (case actor of None \<Rightarrow> BROKER_ACTOR | Some a \<Rightarrow> a) reason now) due)
          (record_expiry env mid)))) (call_post env s) (call_error env s)"
    by (intro asking_op_bind gets_op_bind plan_op_bind [OF each] record_expiry_sound good_filter) (simp_all add: keyed tick)
qed

subsection \<open>Registration\<close>

lemma receipt_notify:
  assumes "keyed ow_subjectId (co_subjects s)" "tx_subjects tx = map fst cs" "covers cs res"
  shows "op_triple (plan s (good_changes env s cs))
    (op_then (persistReceipt env res tx h) (op_then (co_notify i b) (op_return res))) (call_post env s) (call_error env s)"
  unfolding op_then_def [of "persistReceipt env res tx h"]
  by (rule receipt_post [OF assms])
     (auto simp: op_triple_def co_notify_def op_defs stored_def good_changes_def good_change_def split: option.split)

text \<open>The guards every call starts with: readiness, then a recorded receipt.\<close>

lemma planned_replay:
  assumes "keyed ow_subjectId (co_subjects s)"
    and "plan_triple s (\<lambda>_. True) replay (\<lambda>r n. \<forall>res. r = Some res \<longrightarrow> or_idempotentReplay res)"
    and "op_triple (planned s) work (call_post env s) (call_error env s)"
  shows "op_triple (planned s) (op_bind replay (\<lambda>r. case r of Some res \<Rightarrow> op_return res | None \<Rightarrow> work))
    (call_post env s) (call_error env s)"
proof (rule plan_op_bind [OF assms(2) _ assms(1)])
  fix r :: "ownership_result option"
  show "op_triple (plan s (\<lambda>n. \<forall>res. r = Some res \<longrightarrow> or_idempotentReplay res))
      (case r of None \<Rightarrow> work | Some res \<Rightarrow> op_return res) (call_post env s) (call_error env s)"
    using assms(3) by (cases r) (auto intro!: op_triple_return replay_post [OF assms(1)] simp: plan_def)
qed

lemma sound_callI:
  "(\<And>s. keyed ow_subjectId (co_subjects s) \<Longrightarrow> op_triple (planned s) m (call_post env s) (call_error env s)) \<Longrightarrow>
     sound_call env m"
  unfolding sound_call_def by (intro allI impI) (rule op_triple_weaken [of "planned _" m], auto simp: plan_start)

lemma existing_sound:
  assumes keyed: "keyed ow_subjectId (co_subjects s)" and known: "known s (ow_subjectId existing) = Some existing"
  shows "op_triple (planned s) (register_existing env inp controller hash existing) (call_post env s) (call_error env s)"
proof -
  have "op_triple (planned s) (record_existing env inp controller hash existing
      (if b then [] else [existing\<lparr>ow_budget := attached, ow_updatedAt := now\<rparr>]) attached)
      (call_post env s) (call_error env s)" for b attached now
    unfolding record_existing_def
  proof (rule plan_op_bind [OF result_outcomes _ keyed], rule plan_given, rule asking_op_bind)
    fix res :: ownership_result and audits
    let ?b = "existing\<lparr>ow_budget := attached, ow_updatedAt := now\<rparr>"
    let ?cs = "if b then [] else [(?b, lease_outcome ?b OcOrphaned)]"
    assume res: "or_outcomes res = [lease_outcome existing
        (if map_option ci_controllerId (cl_controller (ow_lease existing)) = map_option ci_controllerId controller
         then OcAlreadyControlled else OcNotEligible)]"
    have "derived s ?b" using derived_self [OF known] by (rule derived_update) simp_all
    then have good: "good_changes env s ?cs n" for n using derived_good by (auto simp: good_changes_def)
    have "op_triple (plan s (good_changes env s ?cs))
        (op_then (persistReceipt env res
           (no_changes\<lparr>tx_subjects := (if b then [] else [?b]), tx_audits := audits\<rparr>) (Some hash))
          (op_then (co_notify (rg_subjectId inp) attached) (op_return res))) (call_post env s) (call_error env s)"
      by (rule receipt_notify [OF keyed]) (auto simp: covers_def res lease_outcome_def)
    then show "op_triple (planned s)
        (op_then (persistReceipt env res
           (no_changes\<lparr>tx_subjects := (if b then [] else [?b]), tx_audits := audits\<rparr>) (Some hash))
          (op_then (co_notify (rg_subjectId inp) attached) (op_return res))) (call_post env s) (call_error env s)"
      by (rule op_triple_weaken) (erule plan_mono, rule good, assumption+)
  qed (simp_all add: keyed)
  then show ?thesis
    unfolding register_existing_def Let_def
    by (auto intro!: plan_op_throw asking_op_bind simp: keyed split: option.split)
qed

definition maybe_token :: "coordination_env \<Rightarrow> coordination \<Rightarrow> string option \<Rightarrow> nat \<Rightarrow> bool" where
  "maybe_token env s token n = (\<forall>t. token = Some t \<longrightarrow> token_of env (co_clock_tick s) n t)"

lemma lasting_maybe [simp]: "lasting (maybe_token env s token)"
  unfolding maybe_token_def lasting_def using token_of_mono by blast

lemma plan_first_token: "plan_triple s (\<lambda>_. True) (first_token env controller) (maybe_token env s)"
proof (cases controller)
  case None
  then show ?thesis by (auto simp: first_token_def maybe_token_def intro: plan_return)
next
  case (Some c)
  have "plan_triple s (\<lambda>_. True) (co_ask (ce_token env)) (\<lambda>t n. maybe_token env s (Some t) n)"
    by (rule plan_ask) (auto simp: maybe_token_def token_of_def intro: exI)
  then show ?thesis unfolding first_token_def Some by (auto intro!: plan_bind plan_return)
qed

lemma record_registration_sound:
  assumes keyed: "keyed ow_subjectId (co_subjects s)"
  shows "op_triple (plan s (good_changes env s [(sub, outcome)]))
    (record_registration env inp controller hash now sub outcome) (call_post env s) (call_error env s)"
  unfolding record_registration_def
proof (rule asking_op_bind, goal_cases)
  case (3 audit)
  show ?case
    by (rule plan_op_bind [OF result_outcomes _ keyed], rule plan_given, intro asking_op_bind receipt_notify)
       (auto simp: keyed covers_def intro!: asking_bind split: option.split)
qed (simp_all add: keyed)

lemma fresh_sound:
  assumes keyed: "keyed ow_subjectId (co_subjects s)" and unknown: "known s (rg_subjectId inp) = None"
  shows "op_triple (planned s) (register_fresh env inp controller hash) (call_post env s) (call_error env s)"
proof -
  have good: "good_changes env s [(sub, (lease_outcome sub code)\<lparr>oo_leaseToken := token\<rparr>)] n"
    if "maybe_token env s token n" "sub = registered_subject env inp controller token leaseId now"
    for token leaseId now n sub code
    using that unknown
    by (auto simp: good_changes_def good_change_def subject_moved_def lease_begun_def registered_subject_def
        first_lease_def lease_outcome_def maybe_token_def token_issued_def token_of_def)
  have "op_triple (plan s (maybe_token env s token)) (record_registration env inp controller hash now sub
      ((lease_outcome sub code)\<lparr>oo_leaseToken := token\<rparr>)) (call_post env s) (call_error env s)"
    if "sub = registered_subject env inp controller token leaseId now" for sub code token leaseId now
    by (rule op_triple_weaken [OF record_registration_sound [OF keyed]]) (auto elim!: plan_mono intro: good that)
  then show ?thesis
    unfolding register_fresh_def Let_def
    by (intro asking_op_bind plan_op_bind [OF plan_first_token]) (simp_all add: keyed)
qed

lemma register_sound: "sound_call env (registerSubject env inp)"
proof (rule sound_callI)
  fix s :: coordination
  assume keyed: "keyed ow_subjectId (co_subjects s)"
  have work: "op_triple (planned s) (register_work env inp controller hash) (call_post env s) (call_error env s)"
    for controller hash
    unfolding register_work_def
  proof (rule gets_op_bind)
    show "op_triple (planned s)
        (case known s (rg_subjectId inp) of None \<Rightarrow> register_fresh env inp controller hash
         | Some existing \<Rightarrow> register_existing env inp controller hash existing) (call_post env s) (call_error env s)"
      using keyed_get [OF keyed, of "rg_subjectId inp"]
      by (auto intro: fresh_sound existing_sound keyed split: option.split)
  qed simp
  have "plan_triple s (\<lambda>_. True) (replayRegistration mid hash) (\<lambda>r n. \<forall>res. r = Some res \<longrightarrow> or_idempotentReplay res)"
    for mid hash
    unfolding replayRegistration_def
    by (rule plan_bind [OF asking_plan])
       (auto intro!: plan_return plan_throw split: option.split receipt_result.split)
  note replay = planned_replay [OF keyed this work]
  show "op_triple (planned s) (registerSubject env inp) (call_post env s) (call_error env s)"
    unfolding registerSubject_def op_then_def Let_def
    by (intro asking_op_bind) (auto simp: keyed intro!: plan_op_throw replay)
qed

subsection \<open>Batches\<close>

text \<open>The projection a batch works on: of a known subject, or one about to be registered.\<close>

definition good_current :: "coordination \<Rightarrow> ident \<Rightarrow> ownership_subject \<Rightarrow> bool" where
  "good_current s i current =
     (ow_subjectId current = i
      \<and> (case known s i of None \<Rightarrow> cl_version (ow_lease current) = 1 | Some _ \<Rightarrow> derived s current))"

definition good_candidate :: "coordination \<Rightarrow> ident \<Rightarrow> candidate \<Rightarrow> bool" where
  "good_candidate s i c =
     (case c of (prior, current, failure) \<Rightarrow>
        prior = known s i \<and> good_current s i current
        \<and> (\<forall>f. failure = Some f \<longrightarrow> oo_leaseToken f = None))"

definition good_candidates :: "coordination \<Rightarrow> ident list \<Rightarrow> ident list \<Rightarrow> candidate list \<Rightarrow> bool" where
  "good_candidates s seen is cs =
     (list_all2 (good_candidate s) is cs \<and> distinct is \<and> set is \<inter> set seen = {})"

lemma plan_requireSubject: "plan_triple s P (requireSubject i) (\<lambda>sub n. known s i = Some sub \<and> P n)"
  unfolding requireSubject_def
proof (rule plan_bind)
  show "plan_triple s P (op_gets (\<lambda>s. js_get (co_subjects s) i)) (\<lambda>x n. x = known s i \<and> P n)"
    by (rule plan_gets) simp_all
  show "plan_triple s (\<lambda>n. x = known s i \<and> P n)
      (case x of None \<Rightarrow> op_throw CoSubjectNotFound | Some sub \<Rightarrow> op_return sub)
      (\<lambda>sub n. known s i = Some sub \<and> P n)" for x
    by (cases x) (auto intro: plan_return plan_throw)
qed

lemma plan_fact: "(b \<Longrightarrow> plan_triple s P m Q) \<Longrightarrow> plan_triple s (\<lambda>n. b \<and> P n) m Q"
  by (cases b) (auto simp: plan_triple_def op_triple_def plan_def)

lemma adopt_failure_token: "adopt_failure a current = Some f \<Longrightarrow> oo_leaseToken f = None"
  by (auto simp: adopt_failure_def lease_outcome_def Let_def split: if_splits)

lemma handoff_failure_token: "handoff_failure obs current = Some f \<Longrightarrow> oo_leaseToken f = None"
  by (auto simp: handoff_failure_def lease_outcome_def split: if_splits)

text \<open>A fact that is not about the ticks passes over an operation.\<close>

lemma plan_constant: "plan_triple s P m Q \<Longrightarrow> plan_triple s (\<lambda>n. b \<and> P n) m (\<lambda>x n. Q x n \<and> b)"
  by (rule plan_fact) (erule plan_weaken, auto)

lemma current_copy:
  assumes "keyed ow_subjectId (co_subjects s)" "known s i = Some a"
  shows "good_current s i (expiredCopy env s a now)"
  using assms keyed_get [OF assms] by (auto simp: good_current_def intro!: derived_expiredCopy intro: derived_self)

lemma plan_adopt_candidates:
  assumes keyed: "keyed ow_subjectId (co_subjects s)"
  shows "plan_triple s (\<lambda>_. True) (adopt_candidates env now seen ms) (\<lambda>cs n. good_candidates s seen (map fst ms) cs)"
proof (induction ms arbitrary: seen)
  case Nil
  show ?case by (auto simp: good_candidates_def intro: plan_return)
next
  case (Cons m ms)
  obtain i a where m: "m = (i, a)" by fastforce
  have copy: "plan_triple s (\<lambda>_. True) (op_gets (\<lambda>s. expiredCopy env s sub now))
      (\<lambda>x n. known s i = Some sub \<and> good_current s i x)" if "known s i = Some sub" for sub
    by (rule plan_gets) (use that current_copy [OF keyed that] in auto)
  have rest: "plan_triple s (\<lambda>n. known s i = Some sub \<and> good_current s i x)
      (op_bind (adopt_candidates env now (i # seen) ms) (\<lambda>rest. op_return ((Some sub, x, adopt_failure a x) # rest)))
      (\<lambda>cs n. good_candidates s seen (map fst (m # ms)) cs)" if "i \<notin> set seen" for sub x
  proof (rule plan_bind)
    show "plan_triple s (\<lambda>n. known s i = Some sub \<and> good_current s i x) (adopt_candidates env now (i # seen) ms)
        (\<lambda>cs n. good_candidates s (i # seen) (map fst ms) cs \<and> known s i = Some sub \<and> good_current s i x)"
      using plan_constant [OF Cons.IH] by (rule plan_weaken) auto
  qed (auto intro!: plan_return simp: good_candidates_def good_candidate_def m that intro: adopt_failure_token)
  have "plan_triple s (\<lambda>_. True)
      (op_bind (requireSubject i) (\<lambda>sub. op_bind (op_gets (\<lambda>s. expiredCopy env s sub now)) (\<lambda>x.
         op_bind (adopt_candidates env now (i # seen) ms) (\<lambda>rest. op_return ((Some sub, x, adopt_failure a x) # rest)))))
      (\<lambda>cs n. good_candidates s seen (map fst (m # ms)) cs)" if "i \<notin> set seen"
    by (rule plan_bind [OF plan_requireSubject], rule plan_fact, rule plan_bind [OF copy rest [OF that]])
  then show ?case unfolding m by (auto intro: plan_throw)
qed

lemma plan_unowned:
  assumes "known s i = None"
  shows "plan_triple s (\<lambda>_. True) (unownedSubject env i reg now) (\<lambda>current n. good_current s i current)"
proof -
  have "plan_triple s (\<lambda>_. True) (co_ask (ce_uuid env)) (\<lambda>_ _. True)" by (rule plan_ask) simp
  then show ?thesis
    unfolding unownedSubject_def using assms
    by (cases reg) (auto intro!: plan_bind [where R = "\<lambda>_ _. True"] plan_return simp: first_lease_def good_current_def)
qed

lemma plan_handoff_current:
  assumes keyed: "keyed ow_subjectId (co_subjects s)"
  shows "plan_triple s (\<lambda>_. True) (handoff_current env now m)
    (\<lambda>(prior, current) n. prior = known s (hb_subjectId m) \<and> good_current s (hb_subjectId m) current)"
    (is "plan_triple s _ _ ?Q")
  unfolding handoff_current_def
proof (rule plan_bind)
  let ?i = "hb_subjectId m"
  show "plan_triple s (\<lambda>_. True) (op_gets (\<lambda>s. js_get (co_subjects s) ?i)) (\<lambda>x n. x = known s ?i \<and> True)"
    by (rule plan_gets) simp_all
  fix found
  have "plan_triple s (\<lambda>_. True) (op_bind (op_gets (\<lambda>s. expiredCopy env s a now)) (\<lambda>c. op_return (Some a, c))) ?Q"
    if a: "known s ?i = Some a" for a
  proof (rule plan_bind)
    show "plan_triple s (\<lambda>_. True) (op_gets (\<lambda>s. expiredCopy env s a now)) (\<lambda>x n. x = expiredCopy env s a now)"
      by (rule plan_gets) simp_all
  qed (use a current_copy [OF keyed a] in \<open>auto intro!: plan_return\<close>)
  moreover have "plan_triple s (\<lambda>_. True) (op_bind (unownedSubject env ?i reg now) (\<lambda>c. op_return (None, c))) ?Q"
    if "known s ?i = None" for reg
    using that by (auto intro!: plan_bind [OF plan_unowned] plan_return)
  ultimately show "plan_triple s (\<lambda>n. found = known s ?i \<and> True)
      (case found of
         Some existing \<Rightarrow> op_bind (op_gets (\<lambda>s. expiredCopy env s existing now)) (\<lambda>c. op_return (Some existing, c))
       | None \<Rightarrow> (case hb_register m of None \<Rightarrow> op_throw CoSubjectNotFound
            | Some reg \<Rightarrow> op_bind (unownedSubject env ?i reg now) (\<lambda>c. op_return (None, c)))) ?Q"
    by (intro plan_fact) (auto intro: plan_throw split: option.split)
qed

lemma plan_handoff_candidates:
  assumes keyed: "keyed ow_subjectId (co_subjects s)"
  shows "plan_triple s (\<lambda>_. True) (handoff_candidates env now observe seen ms)
    (\<lambda>cs n. good_candidates s seen (map hb_subjectId ms) cs)"
proof (induction ms arbitrary: seen)
  case Nil
  show ?case by (auto simp: good_candidates_def intro: plan_return)
next
  case (Cons m ms)
  let ?i = "hb_subjectId m"
  have rest: "plan_triple s (\<lambda>n. p = known s ?i \<and> good_current s ?i x)
      (op_bind (handoff_candidates env now observe (?i # seen) ms) (\<lambda>rest.
         op_return ((p, x, handoff_failure (observe ?i) x) # rest)))
      (\<lambda>cs n. good_candidates s seen (map hb_subjectId (m # ms)) cs)" if "?i \<notin> set seen" for p x
  proof (rule plan_bind)
    show "plan_triple s (\<lambda>n. p = known s ?i \<and> good_current s ?i x) (handoff_candidates env now observe (?i # seen) ms)
        (\<lambda>cs n. good_candidates s (?i # seen) (map hb_subjectId ms) cs \<and> p = known s ?i \<and> good_current s ?i x)"
      using plan_constant [OF Cons.IH] by (rule plan_weaken) auto
  qed (auto intro!: plan_return simp: good_candidates_def good_candidate_def that intro: handoff_failure_token)
  have "plan_triple s (case x of (p, c) \<Rightarrow> \<lambda>n. p = known s ?i \<and> good_current s ?i c)
      (case x of (p, c) \<Rightarrow> op_bind (handoff_candidates env now observe (?i # seen) ms) (\<lambda>rest.
         op_return ((p, c, handoff_failure (observe ?i) c) # rest)))
      (\<lambda>cs n. good_candidates s seen (map hb_subjectId (m # ms)) cs)" if "?i \<notin> set seen" for x
    using rest [OF that] by (cases x) auto
  from plan_bind [OF plan_handoff_current [OF keyed, of env now m] this]
  show ?case by (auto intro: plan_throw)
qed

text \<open>What a batch stores for a candidate: the new controller, active, one version on.\<close>

definition taken :: "controller_identity \<Rightarrow> candidate \<Rightarrow> ownership_subject \<times> ownership_outcome \<times> 'a \<Rightarrow> bool" where
  "taken c cand change =
     (case cand of (_, current, _) \<Rightarrow> case change of (b, out, _) \<Rightarrow>
        cl_controller (ow_lease b) = Some c \<and> cl_state (ow_lease b) = ClActive
        \<and> cl_version (ow_lease b) = Suc (cl_version (ow_lease current)) \<and> oo_leaseToken out \<noteq> None)"

lemma plan_iff:
  "plan s P t \<longleftrightarrow> co_clock_tick s \<le> co_clock_tick t \<and> t = s\<lparr>co_clock_tick := co_clock_tick t\<rparr> \<and> P (co_clock_tick t)"
  unfolding plan_def by (metis coordination.simps(6) coordination.surjective coordination.update_convs(6))

lemma plan_conj:
  assumes "plan_triple s P m Q" "plan_triple s P m R"
  shows "plan_triple s P m (\<lambda>x n. Q x n \<and> R x n)"
  unfolding plan_triple_def
proof (rule op_tripleI)
  fix t
  assume t: "plan s P t"
  have both: "plan s (\<lambda>n. A n \<and> B n) u" if "plan s A u" "plan s B u" for A B u
    using that by (simp add: plan_iff)
  from assms t show "case m t of (Inr x, u) \<Rightarrow> plan s (\<lambda>n. Q x n \<and> R x n) u | (Inl e, u) \<Rightarrow> planned s u"
    unfolding plan_triple_def op_triple_def by (fastforce intro: both split: prod.splits sum.splits)
qed

lemma plan_parse: "plan_triple s P (parse_controller env c) (\<lambda>x n. x = c \<and> P n)"
  unfolding parse_controller_def by (auto intro: plan_return plan_throw)

lemma plan_taken:
  "plan_triple s (\<lambda>_. True) (batch_change env operation mid actor reason now c code cand) (\<lambda>change n. taken c cand change)"
proof -
  obtain prior current failure where cand: "cand = (prior, current, failure)" by (cases cand)
  have grant: "plan_triple s (\<lambda>_. True) (withNewController env current c now k)
      (\<lambda>(b, out) n. taken c cand (b, out, ()))" for k
    unfolding withNewController_def Let_def
    by (intro plan_bind [OF asking_plan] plan_bind [OF plan_parse] plan_fact plan_return)
       (auto simp: taken_def cand granted_lease_def)
  have "plan_triple s (case x of (b, out) \<Rightarrow> \<lambda>n. taken c cand (b, out, ()))
      (case x of (new, outcome) \<Rightarrow>
         op_bind (ownership_audit_of env mid operation (ow_subjectId new) actor reason
            (map_option ow_lease prior) (Some (ow_lease new)) (AuditCode (oo_code outcome))) (\<lambda>audit.
           op_return (new, outcome, audit))) (\<lambda>change n. taken c cand change)" for x
    by (cases x) (auto intro!: plan_bind [OF asking_plan] plan_return simp: taken_def cand)
  from plan_bind [OF grant this] show ?thesis by (simp add: batch_change_def cand)
qed

lemma plan_batch_change:
  assumes "good_candidate s i cand" "lasting P"
  shows "plan_triple s P (batch_change env operation mid actor reason now c code cand)
    (\<lambda>change n. (good_entry env s i change n \<and> taken c cand change) \<and> P n)"
proof -
  obtain prior current failure where cand: "cand = (prior, current, failure)" by (cases cand)
  with assms(1) have "good_step env s (withNewController env current c now (code cand)) i"
    using good_grant [of s current] by (auto simp: good_candidate_def good_current_def split: option.splits)
  then have "plan_triple s P (batch_change env operation mid actor reason now c code cand)
      (\<lambda>change n. good_entry env s i change n \<and> P n)"
    unfolding batch_change_def cand using assms(2) by (auto intro!: plan_entry plan_audited)
  moreover have "plan_triple s P (batch_change env operation mid actor reason now c code cand)
      (\<lambda>change n. taken c cand change)"
    by (rule plan_weaken [OF plan_taken]) auto
  ultimately show ?thesis by (rule plan_weaken [OF plan_conj]) auto
qed

definition lease_taken :: "coordination \<Rightarrow> controller_identity \<Rightarrow> ident \<Rightarrow> controller_lease \<Rightarrow> bool" where
  "lease_taken s c i l =
     (cl_controller l = Some c \<and> cl_state l = ClActive
      \<and> cl_version l = (case known s i of None \<Rightarrow> 2 | Some a \<Rightarrow> Suc (cl_version (ow_lease a))))"

definition member_taken :: "coordination \<Rightarrow> controller_identity \<Rightarrow> ident \<Rightarrow> lease_change \<Rightarrow> bool" where
  "member_taken s c i change =
     (case change of (b, out, _) \<Rightarrow>
        ow_subjectId b = i \<and> lease_taken s c i (ow_lease b) \<and> oo_leaseToken out \<noteq> None)"

definition batch_changes ::
  "coordination_env \<Rightarrow> coordination \<Rightarrow> controller_identity \<Rightarrow> ident list \<Rightarrow> lease_change list \<Rightarrow> nat \<Rightarrow> bool" where
  "batch_changes env s c is changes n =
     (good_changes env s (pairs changes) n \<and> list_all2 (member_taken s c) is changes)"

lemma plan_batch_changes:
  assumes "good_candidates s [] is cs"
  shows "plan_triple s (\<lambda>_. True) (change_each (batch_change env operation mid actor reason now c code) cs)
    (\<lambda>changes n. batch_changes env s c is changes n)"
proof (rule plan_weaken)
  from assms have cands: "list_all2 (good_candidate s) is cs" "distinct is" by (auto simp: good_candidates_def)
  let ?id = "\<lambda>cand :: candidate. ow_subjectId (fst (snd cand))"
  have id: "good_candidate s i cand \<Longrightarrow> ?id cand = i" for i cand by (auto simp: good_candidate_def good_current_def)
  with cands(1) have ids: "map ?id cs = is"
    by (induction rule: list_all2_induct) auto
  from cands(1) have good: "good_candidate s (?id cand) cand" if "cand \<in> set cs" for cand
    using that id by (induction rule: list_all2_induct) auto
  let ?R = "\<lambda>cand change n. good_entry env s (?id cand) change n \<and> taken c cand change"
  show "plan_triple s (\<lambda>_. True) (change_each (batch_change env operation mid actor reason now c code) cs)
      (\<lambda>changes n. list_all2 (\<lambda>cand change. ?R cand change n) cs changes \<and> True)"
    by (rule plan_each) (use plan_batch_change good in blast, simp_all)
  fix changes :: "lease_change list" and n
  assume all: "list_all2 (\<lambda>cand change. ?R cand change n) cs changes \<and> True"
  have "list_all2 (\<lambda>cand change. good_entry env s (?id cand) change n) cs changes"
    using all by (auto elim: list_all2_mono)
  from entries_changes [OF this] ids cands(2) have "good_changes env s (pairs changes) n" by simp
  moreover have "list_all2 (member_taken s c) is changes"
    by (rule list_all2_trans [OF _ cands(1) conjunct1 [OF all]])
       (auto simp: good_candidate_def good_current_def good_entry_def taken_def member_taken_def lease_taken_def
          derived_def split: option.splits)
  ultimately show "batch_changes env s c is changes n" by (simp add: batch_changes_def)
qed simp

text \<open>
  A batch takes every member or none: committed, all members are under the new controller one
  version on and nothing else moved; otherwise, and on a replay, no subject moved.
\<close>

definition batch_taken ::
  "coordination \<Rightarrow> controller_identity \<Rightarrow> ident list \<Rightarrow> coordination \<Rightarrow> bool" where
  "batch_taken s c is t =
     ((\<forall>i\<in>set is. \<exists>b. known t i = Some b \<and> lease_taken s c i (ow_lease b))
      \<and> (\<forall>i. i \<notin> set is \<longrightarrow> known t i = known s i))"

definition batch_post ::
  "coordination_env \<Rightarrow> coordination \<Rightarrow> controller_identity \<Rightarrow> ident list \<Rightarrow> ownership_result \<Rightarrow> coordination \<Rightarrow> bool" where
  "batch_post env s c is res t =
     (call_post env s res t
      \<and> (if \<not> or_idempotentReplay res \<and> or_committed res = Some True
         then batch_taken s c is t \<and> map oo_subjectId (or_outcomes res) = is
           \<and> (\<forall>out\<in>set (or_outcomes res). oo_leaseToken out \<noteq> None)
         else co_subjects t = co_subjects s))"

lemma stored_taken:
  assumes "stored env s (map fst changes) t" "batch_changes env s c is changes n"
  shows "batch_taken s c is t"
proof -
  from assms(2) have all: "list_all2 (member_taken s c) is changes"
    and "distinct (map ow_subjectId (map fst changes))"
    by (simp_all add: batch_changes_def good_changes_def split_def comp_def pairs_def)
  with assms(1) have get: "known t (ow_subjectId b) = Some b" if "b \<in> set (map fst changes)" for b
    using that unfolding stored_def by (metis set_all_distinct)
  from all have "\<exists>b\<in>set (map fst changes). ow_subjectId b = i \<and> lease_taken s c i (ow_lease b)" if "i \<in> set is" for i
    using that by (induction rule: list_all2_induct) (auto simp: member_taken_def)
  with get have members: "\<exists>b. known t i = Some b \<and> lease_taken s c i (ow_lease b)" if "i \<in> set is" for i
    using that by blast
  from all have "set is = ow_subjectId ` set (map fst changes)"
    by (induction rule: list_all2_induct) (auto simp: member_taken_def)
  then have "known t i = known s i" if "i \<notin> set is" for i
    using assms(1) that by (simp add: stored_def set_all_other)
  with members show ?thesis by (simp add: batch_taken_def)
qed

lemma taken_outcomes:
  assumes "batch_changes env s c is changes n"
  shows "map (\<lambda>(_, out, _). oo_subjectId out) changes = is"
    and "\<forall>(_, out, _)\<in>set changes. oo_leaseToken out \<noteq> None"
proof -
  from assms have all: "list_all2 (member_taken s c) is changes"
    and good: "\<forall>(b, out, x)\<in>set changes. oo_subjectId out = ow_subjectId b"
    by (auto simp: batch_changes_def good_changes_def pairs_def good_change_def)
  from all good show "map (\<lambda>(_, out, _). oo_subjectId out) changes = is"
    by (induction rule: list_all2_induct) (auto simp: member_taken_def)
  from all show "\<forall>(_, out, _)\<in>set changes. oo_leaseToken out \<noteq> None"
    by (induction rule: list_all2_induct) (auto simp: member_taken_def)
qed

lemma batch_result_plan:
  "plan_triple s P (batch_result mid operation cm outs h)
     (\<lambda>res n. (or_outcomes res = outs \<and> or_committed res = Some cm \<and> \<not> or_idempotentReplay res) \<and> P n)"
  unfolding batch_result_def ownership_result_of_def
  by (auto intro!: plan_bind [where R = "\<lambda>res n. (or_outcomes res = outs \<and> \<not> or_idempotentReplay res) \<and> P n"]
        plan_return plan_throw)

lemma lasting_batch [simp]: "lasting (batch_changes env s c is changes)"
  unfolding batch_changes_def by simp

lemma batch_receipt:
  assumes keyed: "keyed ow_subjectId (co_subjects s)" and tx: "tx_subjects tx = map fst changes"
    and res: "or_outcomes res = map (\<lambda>(_, o', _). o') changes" "or_committed res = Some True" "\<not> or_idempotentReplay res"
  shows "op_triple (plan s (batch_changes env s c is changes)) (op_then (persistReceipt env res tx h) (op_return res))
    (batch_post env s c is) (call_error env s)"
proof (rule op_triple_then)
  let ?R = "\<lambda>t. stored env s (map fst changes) t \<and> batch_changes env s c is changes (co_clock_tick t)"
  have "op_triple (plan s (\<lambda>n. movable env s (tx_subjects tx) n \<and> batch_changes env s c is changes n)) (persistReceipt env res tx h)
      (\<lambda>_ t. stored env s (tx_subjects tx) t \<and> batch_changes env s c is changes (co_clock_tick t)) (planned s)"
    by (rule receipt_recorded) simp
  then show "op_triple (plan s (batch_changes env s c is changes)) (persistReceipt env res tx h) (\<lambda>_. ?R) (call_error env s)"
    by (rule op_triple_weaken)
       (auto simp: tx call_error_def batch_changes_def good_movable [of env s "pairs changes", simplified] elim!: plan_mono)
  show "op_triple ?R (op_return res) (batch_post env s c is) (call_error env s)"
  proof (rule op_triple_return)
    fix t
    assume t: "?R t"
    then have "call_post env s res t"
      by (intro stored_post [OF keyed, of env "pairs changes"] covers_all) (auto simp: batch_changes_def res)
    moreover have "batch_taken s c is t" using t stored_taken by blast
    ultimately show "batch_post env s c is res t"
      using taken_outcomes [of env s c "is" changes "co_clock_tick t"] t res
      by (auto simp: batch_post_def comp_def split_def)
  qed
qed

lemma batch_abort_post:
  assumes keyed: "keyed ow_subjectId (co_subjects s)" and cands: "good_candidates s [] is cs"
  shows "op_triple (planned s) (batch_abort env mid operation cs h) (batch_post env s c is) (call_error env s)"
  unfolding batch_abort_def
proof (rule plan_op_bind [OF batch_result_plan _ keyed], rule plan_given)
  fix res :: ownership_result
  assume res: "or_outcomes res = map aborted_outcome cs \<and> or_committed res = Some False \<and> \<not> or_idempotentReplay res"
  from cands have "\<forall>cand\<in>set cs. oo_leaseToken (aborted_outcome cand) = None"
    unfolding good_candidates_def
    by (elim conjE) (induction rule: list_all2_induct, auto simp: good_candidate_def aborted_outcome_def lease_outcome_def split: option.splits)
  then have covers: "covers [] res" using res by (simp add: covers_def)
  show "op_triple (planned s) (op_then (persistReceipt env res no_changes h) (op_return res)) (batch_post env s c is) (call_error env s)"
  proof (rule op_triple_then)
    have "op_triple (plan s (\<lambda>n. movable env s (tx_subjects no_changes) n \<and> True)) (persistReceipt env res no_changes h)
        (\<lambda>_ t. stored env s (tx_subjects no_changes) t \<and> True) (planned s)"
      by (rule receipt_recorded) simp
    then show "op_triple (planned s) (persistReceipt env res no_changes h) (\<lambda>_. stored env s []) (call_error env s)"
      by (rule op_triple_weaken) (auto simp: movable_def no_changes_def call_error_def)
    show "op_triple (stored env s []) (op_return res) (batch_post env s c is) (call_error env s)"
      using res covers stored_post [OF keyed, of env "[]"]
      by (intro op_triple_return) (auto simp: batch_post_def stored_def good_changes_def)
  qed
qed

text \<open>The replay guard of a batch.\<close>

lemma batch_replay:
  assumes keyed: "keyed ow_subjectId (co_subjects s)"
    and replay: "plan_triple s (\<lambda>_. True) replay (\<lambda>r n. \<forall>res. r = Some res \<longrightarrow> or_idempotentReplay res)"
    and work: "op_triple (planned s) work (batch_post env s c is) (call_error env s)"
  shows "op_triple (planned s) (op_bind replay (\<lambda>r. case r of Some res \<Rightarrow> op_return res | None \<Rightarrow> work))
    (batch_post env s c is) (call_error env s)"
proof (rule plan_op_bind [OF replay _ keyed])
  fix r :: "ownership_result option"
  have "batch_post env s c is res t" if "plan s (\<lambda>n. or_idempotentReplay res) t" for res t
    using that replay_post [OF keyed, of res t env] by (auto simp: batch_post_def plan_def)
  then show "op_triple (plan s (\<lambda>n. \<forall>res. r = Some res \<longrightarrow> or_idempotentReplay res))
      (case r of None \<Rightarrow> work | Some res \<Rightarrow> op_return res) (batch_post env s c is) (call_error env s)"
    using work by (cases r) (auto intro!: op_triple_return)
qed

lemma plan_replay_batch:
  "plan_triple s (\<lambda>_. True) (replayAdoptBatch mid) (\<lambda>r n. \<forall>res. r = Some res \<longrightarrow> or_idempotentReplay res)"
  "plan_triple s (\<lambda>_. True) (replayHandoffBatch mid hash legacy) (\<lambda>r n. \<forall>res. r = Some res \<longrightarrow> or_idempotentReplay res)"
  unfolding replayAdoptBatch_def replayHandoffBatch_def
  by (auto intro!: plan_bind [OF asking_plan] plan_return plan_throw split: option.split receipt_result.split)

lemma adopt_commit_post:
  assumes "keyed ow_subjectId (co_subjects s)" "good_candidates s [] is cs"
  shows "op_triple (planned s) (adopt_batch_commit env inp now cs)
    (batch_post env s (ab_newController inp) is) (call_error env s)"
  unfolding adopt_batch_commit_def
  by (rule plan_op_bind [OF plan_batch_changes [OF assms(2)] _ assms(1)],
      rule plan_op_bind [OF batch_result_plan _ assms(1)], rule plan_given, rule asking_op_bind)
     (auto intro!: asking_bind batch_receipt simp: assms)

lemma asking_handoff_record [simp]: "asking (handoff_record env inp now cs)"
  unfolding handoff_record_def by (auto intro!: asking_bind split: option.split)

lemma handoff_commit_post:
  assumes "keyed ow_subjectId (co_subjects s)" "good_candidates s [] is cs"
  shows "op_triple (planned s) (handoff_commit env inp now cs hash)
    (batch_post env s (hi_recipient inp) is) (call_error env s)"
  unfolding handoff_commit_def
  by (rule plan_op_bind [OF plan_batch_changes [OF assms(2)] _ assms(1)], rule asking_op_bind)
     (auto intro!: plan_op_bind [OF batch_result_plan _ assms(1)] plan_given asking_op_bind batch_receipt simp: assms)

lemma plan_alone: "(b \<Longrightarrow> op_triple (planned s) m Q E) \<Longrightarrow> op_triple (plan s (\<lambda>n. b)) m Q E"
  by (cases b) (auto simp: op_triple_def plan_def)

lemma adoptBatch_post:
  assumes keyed: "keyed ow_subjectId (co_subjects s)"
  shows "op_triple (planned s) (adoptBatch env inp)
    (batch_post env s (ab_newController inp) (map fst (ab_members inp))) (call_error env s)"
proof -
  have "op_triple (plan s (\<lambda>n. good_candidates s [] (map fst (ab_members inp)) cs))
      (if batch_failed cs then batch_abort env (ab_mutationId inp) OwAdopt cs None else adopt_batch_commit env inp now cs)
      (batch_post env s (ab_newController inp) (map fst (ab_members inp))) (call_error env s)" for cs now
    by (rule plan_alone) (simp add: batch_abort_post [OF keyed] adopt_commit_post [OF keyed])
  then show ?thesis
    unfolding adoptBatch_def op_then_def
    by (intro asking_op_bind batch_replay plan_replay_batch plan_op_bind [OF plan_adopt_candidates]) (simp_all add: keyed)
qed

lemma handoffBatch_post:
  assumes keyed: "keyed ow_subjectId (co_subjects s)"
  shows "op_triple (planned s) (handoffBatch env inp)
    (batch_post env s (hi_recipient inp) (map hb_subjectId (hi_members inp))) (call_error env s)"
proof -
  have "op_triple (plan s (\<lambda>n. good_candidates s [] (map hb_subjectId (hi_members inp)) cs))
      (if batch_failed cs then batch_abort env (hi_mutationId inp) OwHandoff cs (Some hash)
       else handoff_commit env inp now cs hash)
      (batch_post env s (hi_recipient inp) (map hb_subjectId (hi_members inp))) (call_error env s)" for cs now hash
    by (rule plan_alone) (simp add: batch_abort_post [OF keyed] handoff_commit_post [OF keyed])
  then show ?thesis
    unfolding handoffBatch_def op_then_def Let_def
    by (intro asking_op_bind batch_replay plan_replay_batch plan_op_bind [OF plan_handoff_candidates]) (simp_all add: keyed)
qed

lemma batch_sound:
  "sound_call env (adoptBatch env inp1)" "sound_call env (handoffBatch env inp2)"
  by (rule sound_callI, rule op_triple_weaken [OF adoptBatch_post] op_triple_weaken [OF handoffBatch_post];
      simp add: batch_post_def)+

end
