(* ===== verification/Coordination_Frame.thy ===== *)
theory Coordination_Frame
  imports Lease_Authority Worker_Events
begin

text \<open>
  What the calls of the coordination service can change, stated once as locales. A predicate that
  survives the passing of ticks, budget notifications and transactions without events is kept by every
  ownership call, every checkpoint request and every modal answer; one that also survives taking an
  ordinal and any transaction is kept by the event calls too.
\<close>

subsection \<open>Predicates kept by transactions without events\<close>

lemma events_of_changes [simp]: "tx_events no_changes = []" "tx_events (changes_transaction cs live) = []"
  by (simp_all add: no_changes_def changes_transaction_def)

locale co_frame =
  fixes env :: coordination_env
    and P :: "coordination \<Rightarrow> bool"
  assumes frame_ask: "P s \<Longrightarrow> P (s\<lparr>co_clock_tick := Suc (co_clock_tick s)\<rparr>)"
    and frame_notify: "P s \<Longrightarrow> P (s\<lparr>co_notified := ns\<rparr>)"
    and frame_commit: "P s \<Longrightarrow> tx_events tx = [] \<Longrightarrow>
      P (commit_applied (tx\<lparr>tx_id := ce_uuid env (co_clock_tick s)\<rparr>) (s\<lparr>co_clock_tick := Suc (Suc (co_clock_tick s))\<rparr>))"
begin

lemma keeps_ask: "op_keeps P (co_ask f)"
  by (simp add: op_keeps_def co_ask_def frame_ask)

lemma keeps_ticks: "P s \<Longrightarrow> co_clock_tick s \<le> n \<Longrightarrow> P (s\<lparr>co_clock_tick := n\<rparr>)"
proof (induction "n - co_clock_tick s" arbitrary: s)
  case 0
  then have "n = co_clock_tick s" by simp
  with 0 show ?case by simp
next
  case (Suc d)
  have "P (s\<lparr>co_clock_tick := Suc (co_clock_tick s)\<rparr>\<lparr>co_clock_tick := n\<rparr>)"
    using Suc by (intro Suc.hyps(1) frame_ask) auto
  then show ?case by simp
qed

lemma keeps_asking: "asking m \<Longrightarrow> op_keeps P m"
  unfolding asking_def op_keeps_def using keeps_ticks by metis

lemma keeps_commit: "tx_events tx = [] \<Longrightarrow> op_keeps P (commit env tx)"
  using frame_ask [THEN frame_ask] frame_commit
  by (auto simp: op_keeps_def commit_def Let_def op_defs co_ask_def split: prod.split sum.split)

lemma keeps_notify: "op_keeps P (co_notify i b)"
  unfolding co_notify_def by (cases b) (auto intro: op_rules op_keeps_modify frame_notify)

lemma keeps_persist_result: "tx_events tx = [] \<Longrightarrow> op_keeps P (persist_result env mid operation r tx h)"
  unfolding persist_result_def by (intro op_keeps_bind keeps_ask keeps_commit) simp

lemma keeps_receipt: "tx_events tx = [] \<Longrightarrow> op_keeps P (persistReceipt env res tx h)"
  unfolding persistReceipt_def by (rule keeps_persist_result)

lemma keeps_each: "(\<And>x. op_keeps P (f x)) \<Longrightarrow> op_keeps P (change_each f xs)"
  by (induction xs) (auto intro: op_rules)

lemmas keeps_rules = op_keeps_bind op_keeps_then op_keeps_return op_keeps_throw op_keeps_gets op_keeps_when
  keeps_ask keeps_commit keeps_notify keeps_persist_result keeps_receipt keeps_each

lemma keeps_parts:
  "op_keeps P (parse_controller env c)" "op_keeps P (parse_selector env sel)" "op_keeps P (parse_optional_controller env oc)"
  "op_keeps P (ownership_audit_of env mid operation i actor reason a b out)" "op_keeps P (budget_audits env inp sub bb)"
  "op_keeps P (ownership_result_of mid operation outs)" "op_keeps P (connectedObservation c now reason)"
  "op_keeps P co_assertReady" "op_keeps P (batch_result mid operation cm outs hh)" "op_keeps P (requireSubject i)"
  "op_keeps P (handoff_record env hinp now cs)"
  by (auto intro: keeps_asking)

lemma keeps_grant: "op_keeps P (withNewController env sub c now code)"
  unfolding withNewController_def Let_def by (intro keeps_rules keeps_parts)

lemma keeps_change:
  "(\<And>x. op_keeps P (f x)) \<Longrightarrow> op_keeps P (change_subject env operation m now f sub)"
  unfolding change_subject_def split_def by (intro keeps_rules keeps_parts)

lemma keeps_conclude: "op_keeps P (conclude env operation m c now alive cs)"
  unfolding conclude_def by (auto intro!: keeps_rules keeps_parts)

lemma keeps_select: "op_keeps P (select env sel now)"
  unfolding select_def by (cases sel) (auto intro!: keeps_rules keeps_parts)

lemma keeps_with_receipt: "op_keeps P work \<Longrightarrow> op_keeps P (with_receipt mid operation work)"
  unfolding with_receipt_def replayOwnership_def
  by (auto intro!: keeps_rules keeps_parts split: option.split receipt_result.split)

lemma keeps_mutation:
  "(\<And>x now. op_keeps P (mutate x now)) \<Longrightarrow> op_keeps P (ownershipMutation env operation m c mutate)"
  unfolding ownershipMutation_def
  by (intro keeps_with_receipt keeps_rules keeps_parts keeps_select keeps_change keeps_conclude)

lemma keeps_authenticated:
  assumes "\<And>x now. op_keeps P (mutate x now)"
  shows "op_keeps P (authenticatedOwnershipMutation env operation m cred mutate)"
proof -
  have "op_keeps P (authenticated_change env cred now mutate x)" for now x
    unfolding authenticated_change_def using assms
    by (auto intro!: op_keeps_bind op_keeps_gets op_keeps_return split: option.split auth_refusal.split)
  then show ?thesis
    unfolding authenticatedOwnershipMutation_def
    by (intro keeps_with_receipt keeps_rules keeps_parts keeps_select keeps_change keeps_conclude)
qed

lemma keeps_lease_calls:
  "op_keeps P (acquire_lease env m c)" "op_keeps P (adopt env m c)" "op_keeps P (renew_lease env m cred)"
  "op_keeps P (release_lease env m cred)" "op_keeps P (transfer_lease env m cred c)"
  "op_keeps P (updateLifecycle env m cred i l)"
  unfolding acquire_lease_def adopt_def renew_lease_def release_lease_def transfer_lease_def updateLifecycle_def Let_def
  by (auto intro!: keeps_mutation keeps_authenticated keeps_grant op_keeps_return
      simp: acquire_subject_def adopt_subject_def)

lemma keeps_register: "op_keeps P (registerSubject env inp)"
proof -
  have "op_keeps P (record_existing env inp controller hash existing (if b then [] else xs) attached)"
    for controller hash existing b xs attached
    unfolding record_existing_def by (auto intro!: keeps_rules keeps_parts)
  then have "op_keeps P (register_existing env inp controller hash existing)" for controller hash existing
    unfolding register_existing_def Let_def by (auto intro!: keeps_rules split: option.split)
  moreover have "op_keeps P (first_token env controller)" for controller
    unfolding first_token_def by (auto intro!: keeps_rules split: option.split)
  moreover have "op_keeps P (record_registration env inp controller hash now sub outcome)" for controller hash now sub outcome
    unfolding record_registration_def by (auto intro!: keeps_rules keeps_parts split: option.split)
  ultimately show ?thesis
    unfolding registerSubject_def replayRegistration_def register_work_def register_fresh_def Let_def
    by (auto intro!: keeps_rules keeps_parts split: option.split receipt_result.split)
qed

lemma keeps_liveness: "op_keeps P (observeControllerLiveness env inp)"
  unfolding observeControllerLiveness_def record_liveness_def
  by (intro keeps_with_receipt keeps_rules keeps_parts) simp

lemma keeps_expire: "op_keeps P (expireLeases env mid actor reason)"
  unfolding expireLeases_def expire_subject_def record_expiry_def Let_def
  by (intro keeps_with_receipt keeps_rules keeps_parts) simp

lemma keeps_reconcile: "op_keeps P (reconcileLifecycle env mid i l reason)"
  unfolding reconcileLifecycle_def Let_def by (auto intro!: keeps_rules keeps_parts)

lemma keeps_abort: "op_keeps P (batch_abort env mid operation cs h)"
  unfolding batch_abort_def by (auto intro!: keeps_rules keeps_parts)

lemma keeps_batch_change: "op_keeps P (batch_change env operation mid actor reason now c code cand)"
  unfolding batch_change_def split_def by (intro keeps_rules keeps_parts keeps_grant)

lemma keeps_adopt_batch: "op_keeps P (adoptBatch env inp)"
proof -
  have "op_keeps P (adopt_candidates env now seen ms)" for now seen ms
    by (induction env now seen ms rule: adopt_candidates.induct) (auto intro!: keeps_rules keeps_parts)
  then show ?thesis
    unfolding adoptBatch_def replayAdoptBatch_def adopt_batch_commit_def
    by (auto intro!: keeps_rules keeps_parts keeps_abort keeps_batch_change split: option.split receipt_result.split)
qed

lemma keeps_handoff: "op_keeps P (handoffBatch env inp)"
proof -
  have current: "op_keeps P (handoff_current env now m)" for now m
    unfolding handoff_current_def unownedSubject_def split_def by (auto intro!: keeps_rules split: option.split)
  have "op_keeps P (handoff_candidates env now obs seen ms)" for now obs seen ms
    by (induction ms arbitrary: seen) (auto intro!: keeps_rules current)
  then show ?thesis
    unfolding handoffBatch_def replayHandoffBatch_def handoff_commit_def Let_def
    by (auto intro!: keeps_rules keeps_parts keeps_abort keeps_batch_change split: option.split receipt_result.split)
qed

lemma keeps_acknowledge: "op_keeps P (acknowledgeHandoffs env c ids)"
  unfolding acknowledgeHandoffs_def owned_handoff_def Let_def
  by (auto intro!: keeps_rules keeps_parts split: option.split)

lemma keeps_modal: "op_keeps P (recordModalAnswer env inp)"
  unfolding recordModalAnswer_def by (auto intro!: keeps_rules keeps_parts)

lemma keeps_checkpoint: "op_keeps P (requestCheckpoint env inp)"
proof -
  have assert: "op_keeps P (assertCheckpointReplay env c inp)" for c
    unfolding assertCheckpointReplay_def by (auto intro: op_rules)
  then have "op_keeps P (repeat_checkpoint env inp current now prior)" for current now prior
    unfolding repeat_checkpoint_def by (auto intro!: keeps_rules keeps_parts)
  moreover have "op_keeps P (record_checkpoint env inp sub current now)" for sub current now
    unfolding record_checkpoint_def Let_def by (auto intro!: keeps_rules keeps_parts)
  ultimately show ?thesis
    using assert unfolding requestCheckpoint_def replay_checkpoint_def checkpoint_work_def
    by (auto intro!: keeps_rules keeps_parts split: option.split receipt_result.split)
qed

end

subsection \<open>Predicates kept by every transaction\<close>

locale co_journaled = co_frame +
  assumes frame_ordinal: "P s \<Longrightarrow> P (s\<lparr>co_nextOrdinal := Suc (co_nextOrdinal s)\<rparr>)"
    and frame_any: "P s \<Longrightarrow>
      P (commit_applied (tx\<lparr>tx_id := ce_uuid env (co_clock_tick s)\<rparr>) (s\<lparr>co_clock_tick := Suc (Suc (co_clock_tick s))\<rparr>))"
begin

lemma keeps_any_commit: "op_keeps P (commit env tx)"
  using frame_ask [THEN frame_ask] frame_any
  by (auto simp: op_keeps_def commit_def Let_def op_defs co_ask_def split: prod.split sum.split)

lemma keeps_any_persist: "op_keeps P (persist_result env mid operation r tx h)"
  unfolding persist_result_def by (intro op_keeps_bind keeps_ask keeps_any_commit)

lemma keeps_ack: "op_keeps P (recordAck env mid operation ack tx)" "op_keeps P (rejectEvent env mid i code sq tx operation)"
  unfolding recordAck_def rejectEvent_def by (intro op_rules keeps_any_persist)+

lemma keeps_ordinal: "op_keeps P co_ordinal"
  unfolding co_ordinal_def by (intro op_rules op_keeps_modify) (simp add: frame_ordinal)

lemmas keeps_event_rules = keeps_rules keeps_parts keeps_ack keeps_ordinal

lemma keeps_store_event: "op_keeps P (store_event env inp e current now expected material superseded evicted)"
  unfolding store_event_def by (auto intro!: keeps_event_rules split: option.split prod.split)

lemma keeps_queue_event: "op_keeps P (enqueue_event env inp e current now es expected)"
  unfolding enqueue_event_def supersede_previous_def make_room_def mergeProgress_def Let_def
  by (auto intro!: keeps_event_rules keeps_store_event split: option.split prod.split)

lemma keeps_replay_ack: "op_keeps P (replayAck mid operation)"
  unfolding replayAck_def by (auto intro!: op_rules split: option.split receipt_result.split)

lemma keeps_admit: "op_keeps P (admit_event env inp e sub)"
  unfolding admit_event_def sequence_event_def Let_def
  by (auto intro!: keeps_event_rules keeps_queue_event split: option.split)

lemma keeps_submit: "op_keeps P (submitEvent env inp)"
  unfolding submitEvent_def submit_raw_def submit_parsed_def Let_def
  by (auto intro!: keeps_event_rules keeps_replay_ack keeps_admit split: option.split sum.split)

lemma keeps_resolve: "op_keeps P (resolveEvent env inp)"
  unfolding resolveEvent_def resolve_known_def record_resolution_def
  by (auto intro!: keeps_event_rules keeps_replay_ack split: option.split)

end

end
