(* ===== verification/Coordination_Runs.thy ===== *)
theory Coordination_Runs
  imports Coordination_Frame
begin

text \<open>
  The coordination service as a machine: its calls and restarts of the broker, one after the other.
  Along every run the journal determines the maps in memory, whatever writes fail, so a restart loads
  without an error and comes back to the same state.
\<close>

subsection \<open>The machine\<close>

datatype coordination_call =
    CallRegister register_input
  | CallAcquire lease_mutation controller_identity
  | CallRenew lease_mutation lease_credentials
  | CallRelease lease_mutation lease_credentials
  | CallTransfer lease_mutation lease_credentials controller_identity
  | CallAdopt lease_mutation controller_identity
  | CallLifecycle lease_mutation lease_credentials ident worker_lifecycle
  | CallAdoptBatch adopt_batch_input
  | CallHandoff handoff_input
  | CallLiveness liveness_input
  | CallExpire ident "controller_identity option" string
  | CallReconcile ident ident worker_lifecycle string
  | CallAcknowledge ident "ident list"
  | CallSubmit event_submission
  | CallResolve resolution_input
  | CallCheckpoint checkpoint_input
  | CallModal modal_answer
  | BrokerRestart

datatype call_answer =
    AnswerOwnership ownership_result | AnswerAck event_ack | AnswerCheckpoint checkpoint_request | AnswerOther

text \<open>A new process has only the journal.\<close>

definition co_restart :: "unit co_op" where
  "co_restart =
     op_then (op_modify (\<lambda>s. s\<lparr>co_initialized := False, co_state := empty_state, co_nextOrdinal := 1, co_summaries := []\<rparr>))
       co_initialize"

definition answering :: "('a \<Rightarrow> call_answer) \<Rightarrow> 'a co_op \<Rightarrow> call_answer co_op" where
  "answering f m = op_bind m (\<lambda>x. op_return (f x))"

fun co_call :: "coordination_env \<Rightarrow> coordination_call \<Rightarrow> call_answer co_op" where
  "co_call env (CallRegister inp) = answering AnswerOwnership (registerSubject env inp)"
| "co_call env (CallAcquire m c) = answering AnswerOwnership (acquire_lease env m c)"
| "co_call env (CallRenew m cred) = answering AnswerOwnership (renew_lease env m cred)"
| "co_call env (CallRelease m cred) = answering AnswerOwnership (release_lease env m cred)"
| "co_call env (CallTransfer m cred c) = answering AnswerOwnership (transfer_lease env m cred c)"
| "co_call env (CallAdopt m c) = answering AnswerOwnership (adopt env m c)"
| "co_call env (CallLifecycle m cred i l) = answering AnswerOwnership (updateLifecycle env m cred i l)"
| "co_call env (CallAdoptBatch inp) = answering AnswerOwnership (adoptBatch env inp)"
| "co_call env (CallHandoff inp) = answering AnswerOwnership (handoffBatch env inp)"
| "co_call env (CallLiveness inp) = answering AnswerOwnership (observeControllerLiveness env inp)"
| "co_call env (CallExpire mid actor reason) = answering AnswerOwnership (expireLeases env mid actor reason)"
| "co_call env (CallReconcile mid i l reason) = answering (\<lambda>_. AnswerOther) (reconcileLifecycle env mid i l reason)"
| "co_call env (CallAcknowledge c ids) = answering (\<lambda>_. AnswerOther) (acknowledgeHandoffs env c ids)"
| "co_call env (CallSubmit inp) = answering AnswerAck (submitEvent env inp)"
| "co_call env (CallResolve inp) = answering AnswerAck (resolveEvent env inp)"
| "co_call env (CallCheckpoint inp) = answering AnswerCheckpoint (requestCheckpoint env inp)"
| "co_call env (CallModal inp) = answering (\<lambda>_. AnswerOther) (recordModalAnswer env inp)"
| "co_call env BrokerRestart = answering (\<lambda>_. AnswerOther) co_restart"

definition co_step :: "coordination_env \<Rightarrow> coordination_call \<Rightarrow> coordination \<Rightarrow> coordination" where
  "co_step env c s = snd (co_call env c s)"

definition co_run :: "coordination_env \<Rightarrow> coordination_call list \<Rightarrow> coordination \<Rightarrow> coordination" where
  "co_run env cs s = fold (co_step env) cs s"

definition co_start :: coordination where
  "co_start = \<lparr>co_initialized = False, co_state = empty_state, co_journal = [], co_notified = [], co_nextOrdinal = 1,
     co_clock_tick = 0, co_summaries = []\<rparr>"

lemma keeps_answering: "op_keeps P m \<Longrightarrow> op_keeps P (answering f m)"
  unfolding answering_def by (intro op_rules)

lemma answering_snd [simp]: "snd (answering f m s) = snd (m s)"
  by (auto simp: answering_def op_defs split: prod.split sum.split)

lemma answering_result:
  "answering f m s = (Inr a, t) \<longleftrightarrow> (\<exists>x. m s = (Inr x, t) \<and> a = f x)"
  by (auto simp: answering_def op_defs split: prod.splits sum.splits)

text \<open>A kept predicate is kept by every step but a restart.\<close>

context co_journaled
begin

lemma keeps_call: "c \<noteq> BrokerRestart \<Longrightarrow> P s \<Longrightarrow> P (co_step env c s)"
  unfolding co_step_def
  by (rule op_keepsD [of P]; cases c)
     (auto intro!: keeps_answering keeps_register keeps_lease_calls keeps_adopt_batch keeps_handoff keeps_liveness
        keeps_expire keeps_reconcile keeps_acknowledge keeps_submit keeps_resolve keeps_checkpoint keeps_modal)

end

subsection \<open>The journal determines the state\<close>

text \<open>Equal states, but for the order of the events.\<close>

definition same_state :: "coordination_state \<Rightarrow> coordination_state \<Rightarrow> bool" where
  "same_state a b = (a\<lparr>cs_events := []\<rparr> = b\<lparr>cs_events := []\<rparr> \<and> (\<forall>k. js_get (cs_events a) k = js_get (cs_events b) k))"

lemma same_state_refl [simp]: "same_state a a"
  by (simp add: same_state_def)

lemma same_state_trans: "same_state a b \<Longrightarrow> same_state b c \<Longrightarrow> same_state a c"
  by (simp add: same_state_def)

lemma same_state_sym: "same_state a b \<Longrightarrow> same_state b a"
  by (simp add: same_state_def)

lemma set_all_cong: "(\<And>k. js_get m k = js_get m' k) \<Longrightarrow> js_get (set_all key vs m) k = js_get (set_all key vs m') k"
proof (induction vs arbitrary: m m')
  case (Cons v vs)
  have "js_get (js_set (key v) v m) k = js_get (js_set (key v) v m') k" for k
    unfolding js.get_put using Cons.prems by simp
  from Cons.IH [OF this] show ?case by (simp only: set_all_Cons)
qed simp

lemma apply_same: "same_state a b \<Longrightarrow> same_state (apply_transaction tx a) (apply_transaction tx b)"
proof -
  assume same: "same_state a b"
  then have "js_get (set_all se_eventId (tx_events tx) (cs_events a)) k = js_get (set_all se_eventId (tx_events tx) (cs_events b)) k" for k
    by (intro set_all_cong) (simp add: same_state_def)
  moreover from same have "(apply_transaction tx a)\<lparr>cs_events := []\<rparr> = (apply_transaction tx b)\<lparr>cs_events := []\<rparr>"
    by (cases a; cases b) (simp add: same_state_def apply_transaction_def)
  ultimately show ?thesis by (simp add: same_state_def apply_transaction_def)
qed

lemma apply_events: "cs_events (apply_transaction tx st) = set_all se_eventId (tx_events tx) (cs_events st)"
  by (simp add: apply_transaction_def)

lemma commit_applied_fields [simp]:
  "co_state (commit_applied tx s) = apply_transaction tx (co_state s)"
  "co_journal (commit_applied tx s) = co_journal s @ [tx]" "co_clock_tick (commit_applied tx s) = co_clock_tick s"
  "co_initialized (commit_applied tx s) = co_initialized s" "co_nextOrdinal (commit_applied tx s) = co_nextOrdinal s"
  "co_summaries (commit_applied tx s) = record_events (tx_events tx) (co_events s) (co_summaries s)"
  by (simp_all add: commit_applied_def)

definition journal_ids :: "coordination_env \<Rightarrow> coordination \<Rightarrow> bool" where
  "journal_ids env s =
     (\<exists>ns. map tx_id (co_journal s) = map (ce_uuid env) ns \<and> sorted_wrt (<) ns \<and> (\<forall>n\<in>set ns. n < co_clock_tick s))"

definition coherent :: "coordination_env \<Rightarrow> coordination \<Rightarrow> bool" where
  "coherent env s =
     (same_state (co_state s) (replay_transactions (co_journal s)) \<and> keyed se_eventId (cs_events (co_state s))
      \<and> journal_ids env s)"

lemma journal_ids_later: "journal_ids env s \<Longrightarrow> co_journal t = co_journal s \<Longrightarrow> co_clock_tick s \<le> co_clock_tick t \<Longrightarrow> journal_ids env t"
  unfolding journal_ids_def using less_le_trans by metis

lemma journal_ids_append:
  assumes "journal_ids env s"
  shows "journal_ids env (commit_applied (tx\<lparr>tx_id := ce_uuid env (co_clock_tick s)\<rparr>)
    (s\<lparr>co_clock_tick := Suc (Suc (co_clock_tick s))\<rparr>))"
proof -
  from assms obtain ns where "map tx_id (co_journal s) = map (ce_uuid env) ns" "sorted_wrt (<) ns"
    "\<forall>n\<in>set ns. n < co_clock_tick s" by (auto simp: journal_ids_def)
  then show ?thesis
    unfolding journal_ids_def commit_applied_def
    by (intro exI [of _ "ns @ [co_clock_tick s]"]) (auto simp: sorted_wrt_append)
qed

lemma coherent_commit:
  assumes "coherent env s"
  shows "coherent env (commit_applied (tx\<lparr>tx_id := ce_uuid env (co_clock_tick s)\<rparr>)
    (s\<lparr>co_clock_tick := Suc (Suc (co_clock_tick s))\<rparr>))"
proof -
  let ?tx = "tx\<lparr>tx_id := ce_uuid env (co_clock_tick s)\<rparr>"
  from assms have "same_state (co_state s) (replay_transactions (co_journal s))" "keyed se_eventId (co_events s)"
    and ids: "journal_ids env s" by (auto simp: coherent_def)
  then have "same_state (apply_transaction ?tx (co_state s)) (replay_transactions (co_journal s @ [?tx]))"
    "keyed se_eventId (cs_events (apply_transaction ?tx (co_state s)))"
    by (simp_all add: replay_transactions_def apply_same set_all_keyed apply_events)
  then show ?thesis using journal_ids_append [OF ids] by (simp add: coherent_def)
qed

interpretation journal: co_journaled env "coherent env" for env
proof unfold_locales
  fix s :: coordination and ns
  assume "coherent env s"
  then show "coherent env (s\<lparr>co_clock_tick := Suc (co_clock_tick s)\<rparr>)" "coherent env (s\<lparr>co_notified := ns\<rparr>)"
    "coherent env (s\<lparr>co_nextOrdinal := Suc (co_nextOrdinal s)\<rparr>)"
    by (auto simp: coherent_def elim!: journal_ids_later)
qed (rule coherent_commit, assumption)+

subsection \<open>Restarts\<close>

lemma sorted_events_key: "sorted_events st = sort_key se_ordinal (js_values (cs_events st))"
  unfolding sorted_events_def by (rule js_sort_key) (auto simp: event_order_def)

lemma sorted_events_ids:
  assumes "keyed se_eventId (cs_events st)"
  shows "distinct (map se_eventId (sorted_events st))" "set (sorted_events st) = set (js_values (cs_events st))"
proof -
  have "distinct (map se_eventId (js_values (cs_events st)))"
    unfolding keyed_values [OF assms] using keyed_wf [OF assms] by (simp add: js_wf_def)
  then have "distinct (js_values (cs_events st))" "inj_on se_eventId (set (js_values (cs_events st)))"
    by (simp_all only: distinct_map)
  then show "distinct (map se_eventId (sorted_events st))"
    by (simp only: sorted_events_key distinct_map set_sort distinct_sort simp_thms)
  show "set (sorted_events st) = set (js_values (cs_events st))"
    by (simp only: sorted_events_key set_sort)
qed

lemma loaded_events:
  assumes "keyed se_eventId (cs_events st)"
  shows "js_get (set_all se_eventId (sorted_events st) []) k = js_get (cs_events st) k"
proof (cases "js_get (cs_events st) k")
  case None
  have "k \<notin> se_eventId ` set (sorted_events st)"
    using None keyed_value [OF assms] by (auto simp only: sorted_events_ids(2) [OF assms] image_iff)
  with None show ?thesis by (simp add: set_all_other)
next
  case (Some e)
  then have "e \<in> set (sorted_events st)" "se_eventId e = k"
    using keyed_get [OF assms Some] keyed_value [OF assms, of e] by (auto simp only: sorted_events_ids(2) [OF assms])
  with set_all_distinct [OF sorted_events_ids(1) [OF assms], of e "[]"] Some show ?thesis by simp
qed

lemma loaded_same:
  assumes "keyed se_eventId (cs_events st)"
  shows "same_state (loaded_state st) st" "keyed se_eventId (cs_events (loaded_state st))"
  using loaded_events [OF assms] by (simp_all add: same_state_def loaded_state_def set_all_keyed)

lemma events_keyed: "keyed se_eventId (cs_events (replay_transactions txs))"
proof -
  have "keyed se_eventId (cs_events st) \<Longrightarrow> keyed se_eventId (cs_events (fold apply_transaction txs st))" for st
    by (induction txs arbitrary: st) (auto simp: apply_events set_all_keyed)
  then show ?thesis by (simp add: replay_transactions_def empty_state_def)
qed

lemma journal_readable:
  assumes "journal_ids env s" "inj (ce_uuid env)"
  shows "journal_replay (map TransactionLine (co_journal s)) = Inr (replay_transactions (co_journal s))"
proof -
  from assms(1) obtain ns where ns: "map tx_id (co_journal s) = map (ce_uuid env) ns" "sorted_wrt (<) ns"
    by (auto simp: journal_ids_def)
  from ns(2) have "distinct ns" by (induction ns) auto
  with assms(2) have "distinct (map (ce_uuid env) ns)" by (auto simp: distinct_map intro: inj_on_subset)
  with ns(1) have "distinct (map tx_id (co_journal s))" by simp
  then show ?thesis by (simp add: journal_replay_def parse_lines_written)
qed

text \<open>The state of a new process.\<close>

definition reloaded :: "coordination \<Rightarrow> coordination" where
  "reloaded s =
     (let st = replay_transactions (co_journal s)
      in s\<lparr>co_initialized := True, co_state := loaded_state st, co_nextOrdinal := next_ordinal (sorted_events st) 1,
           co_summaries := record_events (sorted_events st) [] []\<rparr>)"

lemma restart_reloads:
  assumes "journal_ids env s" "inj (ce_uuid env)"
  shows "co_restart s = (Inr (), reloaded s)"
  using journal_readable [OF assms] by (simp add: co_restart_def co_initialize_def op_defs reloaded_def Let_def)

lemma coherent_reloaded:
  assumes "coherent env s"
  shows "coherent env (reloaded s)" "same_state (co_state (reloaded s)) (co_state s)"
proof -
  let ?st = "replay_transactions (co_journal s)"
  note loaded = loaded_same [OF events_keyed, of "co_journal s"]
  from assms have "same_state (co_state s) ?st" "journal_ids env s" by (auto simp: coherent_def)
  moreover have "co_state (reloaded s) = loaded_state ?st" "co_journal (reloaded s) = co_journal s"
    "co_clock_tick (reloaded s) = co_clock_tick s" by (simp_all add: reloaded_def Let_def)
  ultimately show "coherent env (reloaded s)" "same_state (co_state (reloaded s)) (co_state s)"
    using loaded same_state_trans [OF loaded(1) same_state_sym] by (auto simp: coherent_def elim: journal_ids_later)
qed

lemma coherent_step:
  assumes "inj (ce_uuid env)" "coherent env s"
  shows "coherent env (co_step env c s)"
proof (cases "c = BrokerRestart")
  case True
  from assms(2) have "journal_ids env s" by (simp add: coherent_def)
  with True restart_reloads [OF _ assms(1), of s] have "co_step env c s = reloaded s" by (simp add: co_step_def)
  with coherent_reloaded(1) [OF assms(2)] show ?thesis by simp
next
  case False
  then show ?thesis using assms(2) by (rule journal.keeps_call)
qed

lemma coherent_start: "coherent env co_start"
  by (simp add: coherent_def co_start_def replay_transactions_def empty_state_def journal_ids_def)

lemma coherent_run: "inj (ce_uuid env) \<Longrightarrow> coherent env s \<Longrightarrow> coherent env (co_run env cs s)"
  unfolding co_run_def by (induction cs arbitrary: s) (auto simp: coherent_step)

end
