(* ===== verification/Lease_History.thy ===== *)
theory Lease_History
  imports Coordination_Runs
begin

text \<open>
  Leases along every run of the coordination service: versions never fall and tokens never come back,
  whatever calls, failed writes and restarts lie between. The locale \<open>lease_machine\<close> states what a
  machine has to promise for that; the service is its interpretation.
\<close>

subsection \<open>Calls that only touch a lease they read\<close>

text \<open>The maps of the start state, at a later tick.\<close>

definition drifted :: "coordination \<Rightarrow> coordination \<Rightarrow> bool" where
  "drifted s t = (co_clock_tick s \<le> co_clock_tick t \<and> co_state t = co_state s)"

definition calm :: "coordination \<Rightarrow> 'a co_op \<Rightarrow> bool" where
  "calm s m = op_triple (drifted s) m (\<lambda>_. drifted s) (drifted s)"

definition settles :: "coordination_env \<Rightarrow> coordination \<Rightarrow> 'a co_op \<Rightarrow> bool" where
  "settles env s m = op_triple (drifted s) m (\<lambda>_. call_kept env s) (call_kept env s)"

lemma drifted_refl [simp]: "drifted s s"
  by (simp add: drifted_def)

lemma drifted_kept: "keyed ow_subjectId (co_subjects s) \<Longrightarrow> drifted s t \<Longrightarrow> call_kept env s t"
  by (auto simp: call_kept_def drifted_def lease_evolves_def split: option.split)

lemma calm_settles: "keyed ow_subjectId (co_subjects s) \<Longrightarrow> calm s m \<Longrightarrow> settles env s m"
  unfolding calm_def settles_def by (erule op_triple_weaken) (auto intro: drifted_kept)

lemma calm_asking: "asking m \<Longrightarrow> calm s m"
  unfolding calm_def asking_def
proof (rule op_tripleI)
  fix t
  assume "\<forall>s. \<exists>n\<ge>co_clock_tick s. snd (m s) = s\<lparr>co_clock_tick := n\<rparr>" "drifted s t"
  then obtain n where "co_clock_tick t \<le> n" "snd (m t) = t\<lparr>co_clock_tick := n\<rparr>" by blast
  with \<open>drifted s t\<close> have "drifted s (snd (m t))" by (simp add: drifted_def)
  then show "case m t of (Inr x, u) \<Rightarrow> drifted s u | (Inl e, u) \<Rightarrow> drifted s u"
    by (cases "m t") (auto split: sum.split)
qed

lemma calm_ordinal: "calm s co_ordinal"
  by (simp add: calm_def op_triple_def co_ordinal_def op_defs drifted_def)

lemma calm_bind: "calm s m \<Longrightarrow> (\<And>x. calm s (f x)) \<Longrightarrow> calm s (op_bind m f)"
  unfolding calm_def by (rule op_triple_bind)

lemma settles_bind:
  assumes keyed: "keyed ow_subjectId (co_subjects s)" and m: "calm s m" and f: "\<And>x. settles env s (f x)"
  shows "settles env s (op_bind m f)"
  unfolding settles_def
proof (rule op_triple_bind)
  show "op_triple (drifted s) m (\<lambda>_. drifted s) (call_kept env s)"
    using m unfolding calm_def by (rule op_triple_weaken) (auto intro: drifted_kept [OF keyed])
qed (rule f [unfolded settles_def])

text \<open>A reading of the maps has the value it has in the start state.\<close>

lemma settles_gets:
  assumes "\<And>t. drifted s t \<Longrightarrow> f t = f s" "settles env s (k (f s))"
  shows "settles env s (op_bind (op_gets f) k)"
  unfolding settles_def
proof (rule op_tripleI)
  fix t
  assume t: "drifted s t"
  from assms(2) t have "case k (f s) t of (Inr x, u) \<Rightarrow> call_kept env s u | (Inl e, u) \<Rightarrow> call_kept env s u"
    by (simp add: settles_def op_triple_def)
  then show "case op_bind (op_gets f) k t of (Inr x, u) \<Rightarrow> call_kept env s u | (Inl e, u) \<Rightarrow> call_kept env s u"
    by (simp only: op_bind_exec assms(1) [OF t])
qed

lemma settles_throw: "keyed ow_subjectId (co_subjects s) \<Longrightarrow> settles env s (op_throw e)"
  by (auto intro!: calm_settles calm_asking)

lemma settles_return: "keyed ow_subjectId (co_subjects s) \<Longrightarrow> settles env s (op_return x)"
  by (auto intro!: calm_settles calm_asking)

lemma settles_read: "keyed ow_subjectId (co_subjects s) \<Longrightarrow> settles env s (op_gets f)"
  by (auto intro!: calm_settles calm_asking)

lemma settles_when:
  "settles env s (op_then m k) \<Longrightarrow> settles env s k \<Longrightarrow> settles env s (op_then (op_when b m) k)"
  by (cases b) (simp_all add: settles_def op_triple_def)

text \<open>A required subject is a projection of itself.\<close>

lemma derived_known: "keyed ow_subjectId (co_subjects s) \<Longrightarrow> known s i = Some sub \<Longrightarrow> derived s sub"
  using keyed_get [of ow_subjectId "co_subjects s" i sub] by (auto intro: derived_self)

lemma settles_known:
  assumes keyed: "keyed ow_subjectId (co_subjects s)" and k: "\<And>sub. derived s sub \<Longrightarrow> settles env s (k sub)"
  shows "settles env s (op_bind (op_bind (op_gets (\<lambda>s. js_get (co_subjects s) i)) (\<lambda>found.
      case found of None \<Rightarrow> op_throw CoSubjectNotFound | Some sub \<Rightarrow> op_return sub)) k)"
proof -
  have "settles env s (op_bind (op_gets (\<lambda>s. js_get (co_subjects s) i)) (\<lambda>found.
      op_bind (case found of None \<Rightarrow> op_throw CoSubjectNotFound | Some sub \<Rightarrow> op_return sub) k))"
  proof (rule settles_gets)
    show "settles env s (op_bind (case known s i of None \<Rightarrow> op_throw CoSubjectNotFound | Some sub \<Rightarrow> op_return sub) k)"
    proof (cases "known s i")
      case None
      then show ?thesis by (simp add: settles_def op_triple_def drifted_kept [OF keyed])
    next
      case (Some sub)
      from k [OF derived_known [OF keyed Some]] Some show ?thesis by (simp add: settles_def op_triple_def)
    qed
  qed (simp add: drifted_def)
  then show ?thesis by (simp add: settles_def op_triple_def op_defs)
qed

text \<open>Storing projections of known subjects.\<close>

definition projections :: "coordination \<Rightarrow> coordination_transaction \<Rightarrow> bool" where
  "projections s tx = (\<forall>b\<in>set (tx_subjects tx). derived s b)"

lemma kept_drifted: "call_kept env s t \<Longrightarrow> drifted t u \<Longrightarrow> call_kept env s u"
  unfolding call_kept_def using lease_evolves_trans drifted_kept [of t u env, unfolded call_kept_def] by blast

lemma kept_asking:
  assumes "asking m"
  shows "op_triple (call_kept env s) m (\<lambda>_. call_kept env s) (call_kept env s)"
proof (rule op_tripleI)
  fix t
  assume t: "call_kept env s t"
  from calm_asking [OF assms, of t] have "case m t of (Inr x, u) \<Rightarrow> drifted t u | (Inl e, u) \<Rightarrow> drifted t u"
    by (simp add: calm_def op_triple_def)
  then have "drifted t (snd (m t))" by (cases "m t") (auto split: sum.splits)
  with t have "call_kept env s (snd (m t))" by (rule kept_drifted)
  then show "case m t of (Inr x, u) \<Rightarrow> call_kept env s u | (Inl e, u) \<Rightarrow> call_kept env s u"
    by (cases "m t") (auto split: sum.split)
qed

lemma kept_projections:
  assumes keyed: "keyed ow_subjectId (co_subjects s)" and tx: "projections s tx" and t: "drifted s t"
  shows "call_kept env s (commit_applied tx t)"
proof -
  let ?u = "commit_applied tx t"
  from t have subjects: "co_subjects ?u = set_all ow_subjectId (tx_subjects tx) (co_subjects s)"
    and tick: "co_clock_tick s \<le> co_clock_tick ?u"
    by (auto simp: drifted_def apply_transaction_def)
  have "lease_evolves env s ?u"
  proof (rule lease_evolvesI [OF tick])
    fix i
    show "known s i = None" if "known ?u i = None" using that set_all_None unfolding subjects by metis
    show "subject_moved env (co_clock_tick s) (co_clock_tick ?u) (known s i) b \<or> known s i = Some b"
      if "known ?u i = Some b" for b
      using that tx derived_moved [of s b] set_all_cases [of ow_subjectId "tx_subjects tx" "co_subjects s" i b]
      unfolding subjects projections_def by blast
  qed
  moreover have "keyed ow_subjectId (co_subjects ?u)" unfolding subjects using keyed by (rule set_all_keyed)
  ultimately show ?thesis by (simp add: call_kept_def)
qed

lemma settles_commit:
  assumes keyed: "keyed ow_subjectId (co_subjects s)" and tx: "projections s tx" and k: "asking k"
  shows "settles env s (op_then (commit env tx) k)"
  unfolding settles_def
proof (rule op_triple_then)
  have projected: "projections s (tx\<lparr>tx_id := i\<rparr>)" for i using tx by (simp add: projections_def)
  show "op_triple (drifted s) (commit env tx) (\<lambda>_. call_kept env s) (call_kept env s)"
    unfolding commit_def Let_def
    by (intro settles_bind [OF keyed, unfolded settles_def] calm_asking)
       (auto intro!: op_triple_throw op_triple_modify drifted_kept [OF keyed] kept_projections [OF keyed projected])
qed (rule kept_asking [OF k])

lemma settles_persist:
  assumes keyed: "keyed ow_subjectId (co_subjects s)" and tx: "projections s tx" and k: "asking k"
  shows "settles env s (op_then (persist_result env mid operation r tx h) k)"
proof -
  have "op_then (persist_result env mid operation r tx h) k
      = op_bind (co_ask (ce_clock env)) (\<lambda>recordedAt. op_then (commit env (tx\<lparr>tx_receipts := tx_receipts tx @
          [\<lparr>rt_mutationId = mid, rt_operation = operation, rt_recordedAt = recordedAt, rt_requestHash = h, rt_result = r\<rparr>]\<rparr>)) k)"
    unfolding persist_result_def op_then_def by (rule ext) (simp add: op_defs co_ask_def split: prod.split sum.split)
  moreover have "projections s (tx\<lparr>tx_receipts := rs\<rparr>)" for rs using tx by (simp add: projections_def)
  ultimately show ?thesis using k by (auto intro!: settles_bind settles_commit calm_asking simp: keyed)
qed

lemma settles_ack:
  assumes "keyed ow_subjectId (co_subjects s)" "projections s tx"
  shows "settles env s (recordAck env mid operation ack tx)" "settles env s (rejectEvent env mid i code sq tx operation)"
  unfolding recordAck_def rejectEvent_def using assms by (auto intro: settles_persist)

subsection \<open>The event calls\<close>

lemma drifted_reads:
  assumes "drifted s t"
  shows "expiredCopy env t sub now = expiredCopy env s sub now" "lease_isExpired env t sub now = lease_isExpired env s sub now"
    "authCode env t sub c tok v now = authCode env s sub c tok v now" "copied_subject env t sub now = copied_subject env s sub now"
    "lease_copied env t sub now = lease_copied env s sub now"
    "worker_events t w = worker_events s w" "rateCount env t w now = rateCount env s w now"
    "getCheckpoint t w i = getCheckpoint s w i" "answer_checkpoint t e sub now = answer_checkpoint s e sub now"
proof -
  from assms have "getCheckpoint t = getCheckpoint s" by (intro ext) (simp add: drifted_def getCheckpoint_def)
  then show "getCheckpoint t w i = getCheckpoint s w i" "answer_checkpoint t e sub now = answer_checkpoint s e sub now"
    by (simp_all add: answer_checkpoint_def cong: option.case_cong)
qed (use assms in \<open>simp_all add: drifted_def expiredCopy_def lease_isExpired_def authCode_def copied_subject_def lease_copied_def
      worker_events_def rateCount_def\<close>)

lemma projections_none [simp]: "projections s no_changes"
  by (simp add: projections_def no_changes_def)

lemma projections_copied: "derived s sub \<Longrightarrow> projections s (copied_subject env s sub now)"
  by (auto simp: projections_def copied_subject_def no_changes_def intro: derived_expiredCopy)

lemma derived_renewed: "derived s sub \<Longrightarrow> derived s (renewed env sub now)"
  by (erule derived_update) (simp_all add: renewed_def)

lemma answered_derived:
  "answer_checkpoint s e sub now = Some (b, cs) \<Longrightarrow> derived s sub \<Longrightarrow> derived s b"
  by (auto simp: answer_checkpoint_def lift_gate_def elim: derived_update
      split: option.splits if_splits decision_gate.splits)

lemma settles_store:
  assumes keyed: "keyed ow_subjectId (co_subjects s)" and current: "derived s current"
  shows "settles env s (store_event env inp e current now expected material superseded evicted)"
  unfolding store_event_def
proof (rule settles_bind [OF keyed calm_ordinal], rule settles_gets)
  fix n
  let ?answer = "answer_checkpoint s e (renewed env current now) now"
  have "settles env s (op_bind (connectedObservation (eb_controller inp) now r) (\<lambda>live.
      recordAck env (eb_mutationId inp) OwEventSubmit ack
        (no_changes\<lparr>tx_subjects := [b], tx_events := evs, tx_checkpoints := cs, tx_liveness := [live]\<rparr>)))"
    if "?answer = Some (b, cs)" for b cs r ack evs
    using answered_derived [OF that derived_renewed [OF current]]
    by (intro settles_bind [OF keyed calm_asking] settles_ack [OF keyed]) (auto simp: projections_def)
  then show "settles env s (case ?answer of
        None \<Rightarrow> rejectEvent env (eb_mutationId inp) (se_eventId e) CheckpointCorrelationInvalid None no_changes OwEventSubmit
      | Some (sub, checkpoints) \<Rightarrow>
          op_bind (connectedObservation (eb_controller inp) now ''authenticated event submission'') (\<lambda>live.
            recordAck env (eb_mutationId inp) OwEventSubmit (accepted_ack e expected superseded)
              (no_changes\<lparr>tx_subjects := [sub], tx_events := superseded @ evicted @ [stored_of env e material n now],
                 tx_checkpoints := checkpoints, tx_liveness := [live]\<rparr>)))"
    using settles_ack [OF keyed projections_none] by (auto split: option.split)
qed (simp add: drifted_reads)

lemma calm_queue:
  "calm s (supersede_previous env e now es)" "calm s (make_room env e now es superseded)"
  unfolding supersede_previous_def make_room_def mergeProgress_def Let_def
  by (auto intro!: calm_bind calm_ordinal intro: calm_asking split: option.split)

lemma settles_queue:
  assumes "keyed ow_subjectId (co_subjects s)" "derived s current"
  shows "settles env s (enqueue_event env inp e current now es expected)"
  unfolding enqueue_event_def using assms
  by (auto intro!: settles_bind calm_queue settles_ack settles_store split: prod.split option.split)

lemma settles_admit:
  assumes keyed: "keyed ow_subjectId (co_subjects s)" and sub: "derived s sub"
  shows "settles env s (admit_event env inp e sub)"
proof -
  have "settles env s (sequence_event env inp e (expiredCopy env s sub now) now)" for now
    unfolding sequence_event_def Let_def
    by (rule settles_gets)
       (auto simp: drifted_reads intro!: settles_ack [OF keyed] settles_queue [OF keyed] derived_expiredCopy sub)
  then have counted: "settles env s (op_bind (op_gets (\<lambda>s. rateCount env s (se_workerId e) now)) (\<lambda>count.
      if ce_eventRateLimit env \<le> count
      then rejectEvent env (eb_mutationId inp) (se_eventId e) RateLimited None no_changes OwEventSubmit
      else op_bind (op_gets (\<lambda>s. expiredCopy env s sub now)) (\<lambda>current. sequence_event env inp e current now)))" for now
    by (intro settles_gets) (auto simp: drifted_reads intro!: settles_ack [OF keyed] settles_gets)
  moreover have "settles env s (op_bind (op_gets (\<lambda>s. copied_subject env s sub now)) (\<lambda>tx.
      rejectEvent env (eb_mutationId inp) (se_eventId e) (AckRefused refusal) None tx OwEventSubmit))" for now refusal
    by (rule settles_gets) (auto simp: drifted_reads intro!: settles_ack [OF keyed] projections_copied sub)
  ultimately show ?thesis
    unfolding admit_event_def
    by (intro settles_bind [OF keyed calm_asking] settles_gets) (auto simp: drifted_reads split: option.split)
qed

lemma calm_replay: "calm s (replayAck mid operation)" "calm s (replay_checkpoint env inp)"
proof -
  have "asking (assertCheckpointReplay env c inp)" for c by (simp add: assertCheckpointReplay_def)
  then show "calm s (replayAck mid operation)" "calm s (replay_checkpoint env inp)"
    unfolding replayAck_def replay_checkpoint_def
    by (auto intro!: calm_asking asking_bind asking_then split: option.split receipt_result.split)
qed

lemma settles_submit:
  assumes keyed: "keyed ow_subjectId (co_subjects s)"
  shows "settles env s (submitEvent env inp)"
proof -
  have "settles env s (op_bind (op_gets (\<lambda>s. js_get (co_subjects s) (se_workerId e))) (\<lambda>found.
      case found of
        None \<Rightarrow> rejectEvent env (eb_mutationId inp) (se_eventId e) AckSubjectNotFound None no_changes OwEventSubmit
      | Some sub \<Rightarrow>
          if se_taskId e \<noteq> wo_taskId (ow_origin sub) \<or> se_waveId e \<noteq> wo_waveId (ow_origin sub)
          then rejectEvent env (eb_mutationId inp) (se_eventId e) TaskIdentityMismatch None no_changes OwEventSubmit
          else admit_event env inp e sub))" for e
    by (rule settles_gets)
       (auto simp: drifted_def intro!: settles_ack [OF keyed] settles_admit [OF keyed]
          split: option.split dest: derived_known [OF keyed])
  then have "settles env s (submit_parsed env inp e)" for e
    unfolding submit_parsed_def
    by (intro settles_bind [OF keyed calm_asking]) (auto intro!: settles_ack [OF keyed] split: option.split)
  then show ?thesis
    unfolding submitEvent_def submit_raw_def op_then_def Let_def
    by (auto intro!: settles_bind [OF keyed] calm_replay calm_asking settles_return [OF keyed] settles_ack [OF keyed]
        split: option.split sum.split)
qed

lemma settles_resolve:
  assumes keyed: "keyed ow_subjectId (co_subjects s)"
  shows "settles env s (resolveEvent env inp)"
proof -
  have recorded: "settles env s (record_resolution env inp e sub current now)" if "derived s current" for e sub current now
    unfolding record_resolution_def
    by (intro settles_bind [OF keyed] calm_ordinal calm_asking settles_ack [OF keyed])
       (auto simp: projections_def intro: derived_renewed that)
  have refuse: "settles env s (op_bind (op_gets (\<lambda>s. copied_subject env s sub now)) (\<lambda>tx.
      rejectEvent env (ri_mutationId inp) (ri_eventId inp) code None tx OwEventResolve))" if "derived s sub" for sub now code
    by (rule settles_gets) (auto simp: drifted_reads intro!: settles_ack [OF keyed] projections_copied that)
  have "settles env s (resolve_known env inp e)" for e
    unfolding resolve_known_def requireSubject_def
  proof (rule settles_known [OF keyed])
    fix sub
    assume "derived s sub"
    then show "settles env s (op_bind (co_ask (ce_clock env)) (\<lambda>now.
        op_bind (op_gets (\<lambda>s. expiredCopy env s sub now)) (\<lambda>current.
        op_bind (op_gets (\<lambda>s. authCode env s current (ri_controller inp) (ri_leaseToken inp)
                   (Some (cl_version (ow_lease current))) now)) (\<lambda>auth.
          case auth of
            Some refusal \<Rightarrow> op_bind (op_gets (\<lambda>s. copied_subject env s sub now)) (\<lambda>tx.
              rejectEvent env (ri_mutationId inp) (ri_eventId inp) (AckRefused refusal) None tx OwEventResolve)
          | None \<Rightarrow> record_resolution env inp e sub current now))))"
      by (intro settles_bind [OF keyed calm_asking] settles_gets)
         (auto simp: drifted_reads intro!: recorded refuse derived_expiredCopy split: option.split)
  qed
  then show ?thesis
    unfolding resolveEvent_def op_then_def
    by (auto intro!: settles_bind [OF keyed] calm_replay calm_asking settles_return [OF keyed] settles_throw [OF keyed]
        split: option.split)
qed

subsection \<open>Checkpoint requests and the other calls\<close>

lemma settles_checkpoint_work:
  assumes keyed: "keyed ow_subjectId (co_subjects s)"
  shows "settles env s (checkpoint_work env inp)"
proof -
  have fresh: "settles env s (record_checkpoint env inp sub current now)" if "derived s current" for sub current now
  proof -
    have "derived s (gated_subject inp (renewed env current now) now)"
      using derived_renewed [OF that] by (rule derived_update) (auto simp: gated_subject_def)
    then show ?thesis
      unfolding record_checkpoint_def Let_def
      by (auto intro!: settles_throw [OF keyed] settles_bind [OF keyed calm_asking] settles_persist [OF keyed] simp: projections_def)
  qed
  have again: "settles env s (repeat_checkpoint env inp current now prior)" if "derived s current" for current now prior
    unfolding repeat_checkpoint_def op_then_def [of "assertCheckpointReplay env prior inp"] using derived_renewed [OF that]
    by (intro settles_bind [OF keyed calm_asking] settles_persist [OF keyed])
       (auto simp: projections_def assertCheckpointReplay_def)
  have decided: "settles env s (op_bind (op_gets (\<lambda>s. getCheckpoint s (ki_workerId inp) (ki_correlationId inp))) (\<lambda>found.
      case found of Some prior \<Rightarrow> repeat_checkpoint env inp current now prior
      | None \<Rightarrow> record_checkpoint env inp sub current now))" if "derived s current" for sub current now
    by (rule settles_gets) (auto simp: drifted_reads intro!: fresh again that split: option.split)
  have refuse: "settles env s (op_bind (op_gets (\<lambda>s. lease_copied env s sub now)) (\<lambda>copied.
      op_then (op_when copied (commit env (no_changes\<lparr>tx_subjects := [current]\<rparr>))) (op_throw e)))"
    if "derived s current" for sub current now e
  proof (rule settles_gets)
    have "settles env s (op_then (commit env (no_changes\<lparr>tx_subjects := [current]\<rparr>)) (op_throw e))"
      using that by (intro settles_commit [OF keyed]) (simp_all add: projections_def)
    then show "settles env s (op_then (op_when (lease_copied env s sub now) (commit env (no_changes\<lparr>tx_subjects := [current]\<rparr>))) (op_throw e))"
      by (intro settles_when settles_throw [OF keyed])
  qed (simp add: drifted_reads)
  show ?thesis
    unfolding checkpoint_work_def requireSubject_def
    by (rule settles_known [OF keyed], intro settles_bind [OF keyed calm_asking] settles_gets)
       (auto simp: drifted_reads intro!: decided refuse derived_expiredCopy split: option.split)
qed

lemma settles_checkpoint:
  assumes keyed: "keyed ow_subjectId (co_subjects s)"
  shows "settles env s (requestCheckpoint env inp)"
  unfolding requestCheckpoint_def op_then_def
  by (auto intro!: settles_bind [OF keyed] calm_replay calm_asking settles_return [OF keyed] settles_checkpoint_work [OF keyed]
      split: option.split)

lemma settles_reconcile:
  assumes keyed: "keyed ow_subjectId (co_subjects s)"
  shows "settles env s (reconcileLifecycle env mid i l reason)"
proof -
  have "settles env s (if ow_lifecycle sub = l
      then op_bind (co_ask (ce_clock env)) (\<lambda>now. op_gets (\<lambda>s. expiredCopy env s sub now))
      else op_bind (co_ask (ce_clock env)) (\<lambda>now.
        op_bind (ownership_audit_of env mid OwLifecycle i BROKER_ACTOR reason
            (Some (ow_lease sub)) (Some (ow_lease sub)) out) (\<lambda>audit.
          op_then (commit env (no_changes\<lparr>tx_subjects := [sub\<lparr>ow_lifecycle := l, ow_updatedAt := now\<rparr>], tx_audits := [audit]\<rparr>))
            (op_bind (co_ask (ce_clock env)) (\<lambda>later.
               op_gets (\<lambda>s. expiredCopy env s (sub\<lparr>ow_lifecycle := l, ow_updatedAt := now\<rparr>) later))))))"
    if "derived s sub" for sub out
  proof -
    have "derived s (sub\<lparr>ow_lifecycle := l, ow_updatedAt := now\<rparr>)" for now
      using that by (rule derived_update) simp_all
    then show ?thesis
      by (auto intro!: settles_bind [OF keyed calm_asking] settles_read [OF keyed] settles_commit [OF keyed] asking_bind
          simp: projections_def)
  qed
  then show ?thesis
    unfolding reconcileLifecycle_def requireSubject_def op_then_def [of co_assertReady] Let_def
    by (intro settles_bind [OF keyed calm_asking] settles_known [OF keyed]) simp_all
qed

lemma asking_each: "(\<And>x. asking (f x)) \<Longrightarrow> asking (change_each f xs)"
  by (induction xs) (auto intro!: asking_bind)

lemma settles_acknowledge:
  assumes keyed: "keyed ow_subjectId (co_subjects s)"
  shows "settles env s (acknowledgeHandoffs env c ids)"
proof -
  have "settles env s (op_then (op_when b (commit env (no_changes\<lparr>tx_handoffs := hs\<rparr>))) (op_return x))" for b hs x
    by (intro settles_when settles_commit [OF keyed] settles_return [OF keyed]) (simp_all add: projections_def no_changes_def)
  then show ?thesis
    unfolding acknowledgeHandoffs_def owned_handoff_def op_then_def [of co_assertReady] Let_def
    by (auto intro!: settles_bind [OF keyed calm_asking] settles_return [OF keyed] asking_each asking_bind split: option.split)
qed

lemma settles_modal:
  assumes keyed: "keyed ow_subjectId (co_subjects s)"
  shows "settles env s (recordModalAnswer env inp)"
proof -
  have "settles env s (commit env (no_changes\<lparr>tx_audits := [audit]\<rparr>))" for audit
  proof -
    have "op_then (commit env tx) (op_return ()) = commit env tx" for tx
      by (rule ext) (simp add: op_then_def op_bind_def op_return_def split: prod.split sum.split)
    then show ?thesis
      using settles_commit [OF keyed, of "no_changes\<lparr>tx_audits := [audit]\<rparr>" "op_return ()" env]
      by (simp add: projections_def no_changes_def)
  qed
  then show ?thesis
    unfolding recordModalAnswer_def op_then_def by (intro settles_bind [OF keyed calm_asking]) simp_all
qed

subsection \<open>The contract of a lease machine\<close>

lemma lease_evolvesD:
  assumes "lease_evolves env s t" "known s i = Some a"
  shows "\<exists>b. known t i = Some b \<and> lease_moved env (co_clock_tick s) (co_clock_tick t) (ow_lease a) (ow_lease b)"
proof -
  from assms(1) have "case known t i of None \<Rightarrow> known s i = None
      | Some b \<Rightarrow> subject_moved env (co_clock_tick s) (co_clock_tick t) (known s i) b \<or> known s i = Some b"
    by (simp add: lease_evolves_def)
  with assms(2) show ?thesis by (auto simp: subject_moved_def split: option.splits)
qed

locale lease_machine = stepping step inv for step :: "'c \<Rightarrow> coordination \<Rightarrow> coordination" and inv :: "coordination \<Rightarrow> bool" +
  fixes env :: coordination_env
  assumes step_evolves: "inv s \<Longrightarrow> lease_evolves env s (step c s)"
begin

lemma run_evolves: "inv s \<Longrightarrow> lease_evolves env s (fold step cs s)"
proof (induction cs arbitrary: s)
  case (Cons c cs)
  with lease_evolves_trans [OF step_evolves [of s c]] step_inv show ?case by simp
qed simp

text \<open>Between two grants for a subject the version rises, and the first token stays dead.\<close>

lemma token_superseded:
  assumes distinct: "\<And>m n. ce_hashToken env (ce_token env m) = ce_hashToken env (ce_token env n) \<Longrightarrow> m = n"
    and first: "inv s1" "token_granted env s0 s1 i v1 t1"
    and second: "inv s3" "token_granted env (fold step between s1) s3 i v2 t2"
  shows "v1 < v2" "\<exists>b. known (fold step after s3) i = Some b \<and> cl_tokenHash (ow_lease b) \<noteq> Some (ce_hashToken env t1)"
proof -
  let ?s2 = "fold step between s1" and ?t = "fold step after s3"
  from first(2) obtain k1 b1 where k1: "k1 < co_clock_tick s1" "t1 = ce_token env k1"
    and b1: "known s1 i = Some b1" "cl_version (ow_lease b1) = v1" by (auto simp: token_granted_def token_of_def)
  from second(2) obtain k2 b3 where k2: "co_clock_tick ?s2 \<le> k2" "k2 < co_clock_tick s3" "t2 = ce_token env k2"
    and b3: "known s3 i = Some b3" "cl_version (ow_lease b3) = v2" "cl_tokenHash (ow_lease b3) = Some (ce_hashToken env t2)"
    and rises: "\<And>a. known ?s2 i = Some a \<Longrightarrow> cl_version (ow_lease a) < v2"
    by (auto simp: token_granted_def token_of_def)
  note ev12 = run_evolves [OF first(1), of between] and ev3 = run_evolves [OF second(1), of after]
  obtain b2 where b2: "known ?s2 i = Some b2" "cl_version (ow_lease b1) \<le> cl_version (ow_lease b2)"
    using lease_evolvesD [OF ev12 b1(1)] by (auto simp: lease_moved_def)
  have ticks: "co_clock_tick s1 \<le> co_clock_tick ?s2" using ev12 by (simp add: lease_evolves_def)
  show "v1 < v2" using rises [OF b2(1)] b1(2) b2(2) by simp
  obtain b where b: "known ?t i = Some b" "lease_moved env (co_clock_tick s3) (co_clock_tick ?t) (ow_lease b3) (ow_lease b)"
    using lease_evolvesD [OF ev3 b3(1)] by blast
  have "k1 < k2" using k1(1) k2(1) ticks by simp
  have later: "k1 < n" if "cl_tokenHash (ow_lease b) = Some (ce_hashToken env (ce_token env n))" for n
    using that b(2) b3(3) k1(1) k2 ticks distinct \<open>k1 < k2\<close>
    unfolding lease_moved_def token_issued_def by (metis less_le_trans less_trans option.distinct(1) option.inject)
  then have "cl_tokenHash (ow_lease b) \<noteq> Some (ce_hashToken env t1)" using k1(2) by blast
  with b(1) show "\<exists>b. known ?t i = Some b \<and> cl_tokenHash (ow_lease b) \<noteq> Some (ce_hashToken env t1)" by blast
qed

end

subsection \<open>The service is a lease machine\<close>

definition leases_ok :: "coordination_env \<Rightarrow> coordination \<Rightarrow> bool" where
  "leases_ok env s = (inj (ce_uuid env) \<and> coherent env s \<and> keyed ow_subjectId (co_subjects s))"

lemma sound_kept:
  "sound_call env m \<Longrightarrow> keyed ow_subjectId (co_subjects s) \<Longrightarrow> call_kept env s (snd (m s))"
proof -
  assume "sound_call env m" and keyed: "keyed ow_subjectId (co_subjects s)"
  then have "case m s of (Inr x, t) \<Rightarrow> call_post env s x t | (Inl e, t) \<Rightarrow> call_error env s t"
    by (simp add: sound_call_def op_triple_def)
  then show ?thesis
    using planned_kept [OF keyed] by (cases "m s") (auto simp: call_post_def call_error_def split: sum.splits)
qed

lemma settles_kept: "settles env s m \<Longrightarrow> call_kept env s (snd (m s))"
proof -
  assume "settles env s m"
  then have "case m s of (Inr x, t) \<Rightarrow> call_kept env s t | (Inl e, t) \<Rightarrow> call_kept env s t"
    by (simp add: settles_def op_triple_def)
  then show ?thesis by (cases "m s") (auto split: sum.splits)
qed

lemmas sound_calls = register_sound acquire_sound renew_sound release_sound transfer_sound adopt_sound lifecycle_sound
  batch_sound liveness_sound expire_sound

lemmas settled_calls = settles_reconcile settles_acknowledge settles_submit settles_resolve settles_checkpoint settles_modal

lemma reloaded_kept:
  assumes "coherent env s" "keyed ow_subjectId (co_subjects s)"
  shows "call_kept env s (reloaded s)"
proof -
  have "co_subjects (reloaded s) = co_subjects s"
    using coherent_reloaded(2) [OF assms(1)] unfolding same_state_def by (metis coordination_state.simps(1) coordination_state.surjective coordination_state.update_convs(2))
  moreover have "co_clock_tick (reloaded s) = co_clock_tick s" by (simp add: reloaded_def Let_def)
  ultimately show ?thesis using assms(2) by (auto simp: call_kept_def lease_evolves_def split: option.split)
qed

lemma step_kept:
  assumes "leases_ok env s"
  shows "call_kept env s (co_step env c s)"
proof (cases "c = BrokerRestart")
  case True
  from assms have "co_restart s = (Inr (), reloaded s)"
    by (intro restart_reloads) (auto simp: leases_ok_def coherent_def)
  with True assms show ?thesis by (simp add: co_step_def leases_ok_def reloaded_kept)
next
  case False
  from assms have "keyed ow_subjectId (co_subjects s)" by (simp add: leases_ok_def)
  with False show ?thesis
    unfolding co_step_def by (cases c) (auto intro: sound_kept sound_calls settles_kept settled_calls)
qed

interpretation leases: lease_machine "co_step env" "leases_ok env" env for env
proof unfold_locales
  show "leases_ok env (co_step env c s)" if "leases_ok env s" for s c
    using that step_kept [OF that, of c] coherent_step [of env s c] by (simp add: leases_ok_def call_kept_def)
  show "lease_evolves env s (co_step env c s)" if "leases_ok env s" for s c
    using step_kept [OF that, of c] by (simp add: call_kept_def)
qed

lemma leases_ok_start: "inj (ce_uuid env) \<Longrightarrow> leases_ok env co_start"
  using coherent_start [of env] by (simp add: leases_ok_def co_start_def empty_state_def)

lemma leases_ok_run: "leases_ok env s \<Longrightarrow> leases_ok env (co_run env cs s)"
  unfolding co_run_def by (rule leases.run_inv)

lemma sound_post:
  "sound_call env m \<Longrightarrow> keyed ow_subjectId (co_subjects s) \<Longrightarrow> m s = (Inr res, t) \<Longrightarrow> call_post env s res t"
  unfolding sound_call_def op_triple_def by (drule spec [of _ s]) simp

lemmas sound_posts = sound_calls [THEN sound_post]

lemma call_answer_post:
  assumes "keyed ow_subjectId (co_subjects s)" "co_call env c s = (Inr (AnswerOwnership res), t)"
  shows "call_post env s res t"
  using assms(2) by (cases c) (auto simp: answering_result intro: sound_posts assms(1))

text \<open>
  C5. A superseded lease token never authenticates again. Whatever calls, failed writes and restarts of
  the broker happen in between and afterwards: once a call has answered with a lease token for a
  subject and a later call has answered with another one for it, the later lease has the higher
  version, and the earlier token is refused for the subject, at any time, for any controller and any
  claimed lease version. Ids are taken to be fresh and the tokens issued to have different hashes; an
  answer replayed from a receipt issues nothing.
\<close>

theorem superseded_token_refused:
  assumes fresh: "inj (ce_uuid env)" "\<And>m n. ce_hashToken env (ce_token env m) = ce_hashToken env (ce_token env n) \<Longrightarrow> m = n"
    and first: "co_call env c1 (co_run env before co_start) = (Inr (AnswerOwnership r1), s1)" "\<not> or_idempotentReplay r1"
      "o1 \<in> set (or_outcomes r1)" "oo_leaseToken o1 = Some t1"
    and second: "co_call env c2 (co_run env between s1) = (Inr (AnswerOwnership r2), s2)" "\<not> or_idempotentReplay r2"
      "o2 \<in> set (or_outcomes r2)" "oo_leaseToken o2 = Some t2" "oo_subjectId o2 = oo_subjectId o1"
  shows "oo_leaseVersion o1 < oo_leaseVersion o2
    \<and> (\<exists>sub. js_get (co_subjects (co_run env after s2)) (oo_subjectId o1) = Some sub
         \<and> authCode env (co_run env after s2) (expiredCopy env (co_run env after s2) sub now) c t1 v now \<noteq> None)"
proof -
  let ?s0 = "co_run env before co_start" and ?s2 = "co_run env between s1" and ?t = "co_run env after s2"
  have ok0: "leases_ok env ?s0" by (intro leases_ok_run leases_ok_start fresh)
  have step: "co_step env c1 ?s0 = s1" "co_step env c2 ?s2 = s2" by (simp_all add: co_step_def first second)
  have ok1: "leases_ok env s1" using leases.step_inv [OF ok0, of c1] step by simp
  have ok2: "leases_ok env ?s2" by (rule leases_ok_run [OF ok1])
  have ok3: "leases_ok env s2" using leases.step_inv [OF ok2, of c2] step by simp
  have keyed: "keyed ow_subjectId (co_subjects ?s0)" "keyed ow_subjectId (co_subjects ?s2)"
    using ok0 ok2 by (simp_all add: leases_ok_def)
  have g1: "token_granted env ?s0 s1 (oo_subjectId o1) (oo_leaseVersion o1) t1"
    using call_answer_post [OF keyed(1) first(1)] first(2-4) by (simp add: call_post_def)
  have "token_granted env ?s2 s2 (oo_subjectId o2) (oo_leaseVersion o2) t2"
    using call_answer_post [OF keyed(2) second(1)] second(2-4) by (simp add: call_post_def)
  then have g2: "token_granted env ?s2 s2 (oo_subjectId o1) (oo_leaseVersion o2) t2" by (simp only: second(5))
  note superseded = leases.token_superseded [OF fresh(2) ok1 g1 ok3 g2 [unfolded co_run_def], folded co_run_def]
  from superseded(2) [of after] obtain b where b: "js_get (co_subjects ?t) (oo_subjectId o1) = Some b"
    "cl_tokenHash (ow_lease b) \<noteq> Some (ce_hashToken env t1)" by blast
  have "cl_tokenHash (ow_lease (expiredCopy env ?t b now)) \<noteq> Some (ce_hashToken env t1)"
    using b(2) projection_fields(4) [of b] unfolding expiredCopy_def by (metis option.distinct(1))
  then have "authCode env ?t (expiredCopy env ?t b now) c t1 v now \<noteq> None" by (simp add: authCode_def)
  with b(1) superseded(1) show ?thesis by blast
qed

subsection \<open>A directed handoff\<close>


subsection \<open>Witnesses\<close>

text \<open>A fleet with two controllers and one worker.\<close>

definition demo_service :: coordination_env where
  "demo_service = \<lparr>ce_clock = int, ce_uuid = (\<lambda>n. replicate (Suc n) CHR ''u''), ce_token = (\<lambda>n. replicate (32 + n) CHR ''t''),
     ce_writeOk = (\<lambda>_. True), ce_hashToken = (\<lambda>t. t), ce_isUuid = (\<lambda>i. take 1 i = ''u''),
     ce_registerHash = (\<lambda>i _. i), ce_handoffHash = hp_directive, ce_leaseDurationMs = 30000, ce_gracePeriodMs = 15000,
     ce_hashEvent = se_eventId, ce_hashCheckpoint = kp_correlationId, ce_eventRateLimit = 20, ce_eventRateWindowMs = 60000,
     ce_maxQueuedEventsPerWorker = 2, ce_maxProjectionPageSize = 2\<rparr>"

definition demo_controller :: "string \<Rightarrow> controller_identity" where
  "demo_controller i = \<lparr>ci_controllerId = i, ci_familyId = ''f'', ci_scope = ScopeFleet ''s''\<rparr>"

definition demo_origin :: worker_origin where
  "demo_origin = \<lparr>wo_creatorControllerId = ''a'', wo_creatorSessionId = None, wo_taskId = ''t'', wo_waveId = None,
     wo_threadId = ''h'', wo_createdAt = 0\<rparr>"

definition demo_resources :: resource_refs where
  "demo_resources = \<lparr>rr_sessionId = None, rr_worktreePath = None, rr_taskPayloadRef = None, rr_transcriptRef = None,
     rr_resultStateRef = None, rr_eventStreamId = ''e''\<rparr>"

definition demo_register :: register_input where
  "demo_register = \<lparr>rg_mutationId = ''m1'', rg_actor = demo_controller ''a'', rg_subjectId = ''u'', rg_isWorker = True,
     rg_origin = demo_origin, rg_lifecycle = LcWorking, rg_resources = demo_resources,
     rg_controller = Some (demo_controller ''a''), rg_budget = None, rg_reason = ''r''\<rparr>"

definition demo_handoff :: handoff_input where
  "demo_handoff = \<lparr>hi_mutationId = ''m2'', hi_actor = demo_controller ''a'', hi_recipient = demo_controller ''b'',
     hi_recipientSessionId = ''u'', hi_directive = ''take over'',
     hi_members = [\<lparr>hb_subjectId = ''u'', hb_name = None, hb_register = None\<rparr>], hi_reason = ''r'', hi_handoffId = None,
     hi_observeLifecycle = (\<lambda>_. None)\<rparr>"

definition answered :: "coordination_env \<Rightarrow> coordination_call \<Rightarrow> coordination \<Rightarrow> ownership_result" where
  "answered env c s = (case fst (co_call env c s) of Inr (AnswerOwnership r) \<Rightarrow> r | _ \<Rightarrow> undefined)"

definition answers :: "coordination_env \<Rightarrow> coordination_call \<Rightarrow> coordination \<Rightarrow> bool" where
  "answers env c s = (case fst (co_call env c s) of Inr (AnswerOwnership r) \<Rightarrow> True | _ \<Rightarrow> False)"

lemma answered_call: "answers env c s \<Longrightarrow> co_call env c s = (Inr (AnswerOwnership (answered env c s)), co_step env c s)"
  by (cases "co_call env c s") (auto simp: answers_def answered_def co_step_def split: sum.splits call_answer.splits)

lemma demo_fresh:
  "inj (ce_uuid demo_service)" "ce_hashToken demo_service (ce_token demo_service m) = ce_hashToken demo_service (ce_token demo_service n) \<Longrightarrow> m = n"
proof -
  show "inj (ce_uuid demo_service)"
    by (rule injI) (auto simp: demo_service_def dest: arg_cong [where f = length])
  show "m = n" if "ce_hashToken demo_service (ce_token demo_service m) = ce_hashToken demo_service (ce_token demo_service n)"
    using arg_cong [OF that, of length] by (simp add: demo_service_def)
qed

definition demo_owned :: coordination where
  "demo_owned = co_step demo_service (CallRegister demo_register) (co_run demo_service [BrokerRestart] co_start)"

definition demo_handed :: coordination where
  "demo_handed = co_step demo_service (CallHandoff demo_handoff) (co_run demo_service [] demo_owned)"

lemma demo_answers:
  "answers demo_service (CallRegister demo_register) (co_run demo_service [BrokerRestart] co_start)"
  "answers demo_service (CallHandoff demo_handoff) (co_run demo_service [] demo_owned)"
  by code_simp+

definition demo_first :: ownership_result where
  "demo_first = answered demo_service (CallRegister demo_register) (co_run demo_service [BrokerRestart] co_start)"

definition demo_second :: ownership_result where
  "demo_second = answered demo_service (CallHandoff demo_handoff) (co_run demo_service [] demo_owned)"

lemma demo_grants:
  "\<not> or_idempotentReplay demo_first" "hd (or_outcomes demo_first) \<in> set (or_outcomes demo_first)"
  "oo_leaseToken (hd (or_outcomes demo_first)) = Some (replicate 33 CHR ''t'')"
  "\<not> or_idempotentReplay demo_second" "hd (or_outcomes demo_second) \<in> set (or_outcomes demo_second)"
  "oo_leaseToken (hd (or_outcomes demo_second)) = Some (the (oo_leaseToken (hd (or_outcomes demo_second))))"
  "oo_subjectId (hd (or_outcomes demo_second)) = oo_subjectId (hd (or_outcomes demo_first))"
  "or_committed demo_second = Some True"
  by code_simp+

theorem superseded_token_refused_witness:
  "oo_leaseVersion (hd (or_outcomes demo_first)) < oo_leaseVersion (hd (or_outcomes demo_second))
   \<and> (\<exists>sub. js_get (co_subjects (co_run demo_service [BrokerRestart] demo_handed)) (oo_subjectId (hd (or_outcomes demo_first))) = Some sub
        \<and> authCode demo_service (co_run demo_service [BrokerRestart] demo_handed)
             (expiredCopy demo_service (co_run demo_service [BrokerRestart] demo_handed) sub 20) (demo_controller ''a'')
             (replicate 33 CHR ''t'') None 20 \<noteq> None)"
proof (rule superseded_token_refused)
  show "co_call demo_service (CallRegister demo_register) (co_run demo_service [BrokerRestart] co_start)
      = (Inr (AnswerOwnership demo_first), demo_owned)"
    unfolding demo_first_def demo_owned_def by (rule answered_call [OF demo_answers(1)])
  show "co_call demo_service (CallHandoff demo_handoff) (co_run demo_service [] demo_owned)
      = (Inr (AnswerOwnership demo_second), demo_handed)"
    unfolding demo_second_def demo_handed_def by (rule answered_call [OF demo_answers(2)])
qed (fact demo_fresh demo_grants)+


end
