(* ===== verification/Event_Queue.thy ===== *)
theory Event_Queue
  imports Lease_History
begin

text \<open>
  The event queues of the workers. An abstract queue takes ordinals, retires events and admits new
  ones under the limit; its invariant bounds the active events of every worker, keeps ordinals and
  sequences unique and the counted summaries equal to a recount. Every call of the service is a
  sequence of such steps, so the invariant holds along every run, across restarts.
\<close>

subsection \<open>Counting\<close>

lemma count_js_set:
  assumes "js_wf m"
  shows "length (filter P (js_values (js_set k v m))) + (case js_get m k of None \<Rightarrow> 0 | Some w \<Rightarrow> if P w then 1 else 0)
    = length (filter P (js_values m)) + (if P v then 1 else 0)"
proof (cases "js_get m k")
  case None
  then have "js_set k v m = m @ [(k, v)]" by (intro js_set_fresh) (simp add: map_of_eq_None_iff)
  with None show ?thesis by simp
next
  case (Some w)
  from js_set_split [OF assms Some, of v] obtain m1 m2
    where "m = m1 @ (k, w) # m2" "js_set k v m = m1 @ (k, v) # m2" by blast
  with Some show ?thesis by simp
qed

definition active_of :: "ident \<Rightarrow> stored_event \<Rightarrow> bool" where
  "active_of w e = (se_workerId e = w \<and> se_state e = EventActive)"

definition unresolved_of :: "ident \<Rightarrow> stored_event \<Rightarrow> bool" where
  "unresolved_of w e = (se_workerId e = w \<and> isUnresolved e)"

definition count_events :: "(stored_event \<Rightarrow> bool) \<Rightarrow> (ident, stored_event) js_map \<Rightarrow> nat" where
  "count_events P m = length (filter P (js_values m))"

lemma count_events_set:
  "js_wf m \<Longrightarrow> count_events P (js_set k v m) + (case js_get m k of None \<Rightarrow> 0 | Some w \<Rightarrow> if P w then 1 else 0)
     = count_events P m + (if P v then 1 else 0)"
  unfolding count_events_def by (rule count_js_set)

text \<open>The highest ordinal of a worker.\<close>

definition highest :: "ident \<Rightarrow> stored_event list \<Rightarrow> nat" where
  "highest w es = fold (\<lambda>e k. max k (if se_workerId e = w then se_ordinal e else 0)) es 0"

lemma fold_max: "fold (\<lambda>e k. max k (f e)) es (max a b) = max (fold (\<lambda>e k. max k (f e)) es a) b" for b :: nat
proof (induction es arbitrary: a)
  case (Cons e es)
  have "max (max a b) (f e) = max (max a (f e)) b" by simp
  with Cons.IH [of "max a (f e)"] show ?case by (simp only: fold.simps comp_def)
qed simp

lemma rebuild_counts:
  "rebuildEventSummary es w = \<lparr>ws_unresolvedCount = int (length (filter (unresolved_of w) es)), ws_lastOrdinal = highest w es\<rparr>"
proof -
  have "fold (\<lambda>e acc. \<lparr>ws_unresolvedCount = ws_unresolvedCount acc + (if isUnresolved e then 1 else 0),
            ws_lastOrdinal = max (ws_lastOrdinal acc) (se_ordinal e)\<rparr>) (filter (\<lambda>e. se_workerId e = w) es)
          \<lparr>ws_unresolvedCount = c, ws_lastOrdinal = k\<rparr>
      = \<lparr>ws_unresolvedCount = c + int (length (filter (unresolved_of w) es)),
         ws_lastOrdinal = fold (\<lambda>e k. max k (if se_workerId e = w then se_ordinal e else 0)) es k\<rparr>" for c k
    by (induction es arbitrary: c k) (auto simp: unresolved_of_def)
  then show ?thesis by (simp add: rebuildEventSummary_def highest_def)
qed

lemma highest_set:
  assumes "js_wf m" "\<And>p. js_get m k = Some p \<Longrightarrow> se_workerId p = se_workerId e \<and> se_ordinal p \<le> se_ordinal e"
  shows "highest w (js_values (js_set k e m)) = (if se_workerId e = w then max (highest w (js_values m)) (se_ordinal e)
     else highest w (js_values m))"
proof (cases "js_get m k")
  case None
  then have "js_set k e m = m @ [(k, e)]" by (intro js_set_fresh) (simp add: map_of_eq_None_iff)
  then show ?thesis by (simp add: highest_def)
next
  case (Some p)
  from js_set_split [OF assms(1) Some, of e] obtain m1 m2
    where "m = m1 @ (k, p) # m2" "js_set k e m = m1 @ (k, e) # m2" by blast
  then show ?thesis using assms(2) [OF Some] by (auto simp: highest_def fold_max)
qed

subsection \<open>The abstract queue\<close>

type_synonym event_queue = "((ident, stored_event) js_map \<times> (ident, event_summary) js_map) \<times> nat"

definition queue_of :: "coordination \<Rightarrow> event_queue" where
  "queue_of s = ((co_events s, co_summaries s), co_nextOrdinal s)"

text \<open>The submitted part of an event, which nothing changes later.\<close>

definition same_event :: "stored_event \<Rightarrow> stored_event \<Rightarrow> bool" where
  "same_event p e = (worker_event.truncate p = worker_event.truncate e)"

lemma same_event_refl [simp]: "same_event e e"
  by (simp add: same_event_def)

lemma same_event_trans: "same_event a b \<Longrightarrow> same_event b c \<Longrightarrow> same_event a c"
  by (simp add: same_event_def)

lemma same_event_fields:
  assumes "same_event p e"
  shows "se_eventId e = se_eventId p" "se_workerId e = se_workerId p" "se_sequence e = se_sequence p"
    "se_kind e = se_kind p" "se_interventionRequired e = se_interventionRequired p" "isPinned e = isPinned p"
  using assms by (cases p; cases e; simp add: same_event_def worker_event.defs isPinned_def)+

lemma same_event_update [simp]:
  "same_event p (p\<lparr>se_ordinal := n, se_state := st, se_supersededBy := b, se_resolvedAt := r\<rparr>)"
  "same_event p (p\<lparr>se_ordinal := n, se_state := st, se_resolvedAt := r, se_resolvedBy := c\<rparr>)"
  by (simp_all add: same_event_def worker_event.defs)

text \<open>Only the resolved ids \<open>R\<close>, progress and events that are not pinned may be retired.\<close>

definition retirable :: "ident set \<Rightarrow> stored_event \<Rightarrow> bool" where
  "retirable R e = (se_eventId e \<in> R \<or> se_kind e = EvProgress \<or> \<not> isPinned e)"

definition active_progress_of :: "ident \<Rightarrow> stored_event \<Rightarrow> bool" where
  "active_progress_of w e = (se_workerId e = w \<and> se_kind e = EvProgress \<and> se_state e = EventActive)"

definition queue_admits :: "nat \<Rightarrow> (ident, stored_event) js_map \<Rightarrow> stored_event \<Rightarrow> bool" where
  "queue_admits limit m e =
     (js_get m (se_eventId e) = None \<and> se_state e = EventActive
      \<and> count_events (active_of (se_workerId e)) m < limit
      \<and> (\<forall>k p. js_get m k = Some p \<longrightarrow> se_workerId p = se_workerId e \<longrightarrow> se_sequence p < se_sequence e)
      \<and> (se_kind e = EvProgress \<longrightarrow> (\<forall>k p. js_get m k = Some p \<longrightarrow> \<not> active_progress_of (se_workerId e) p)))"

inductive queue_step :: "nat \<Rightarrow> ident set \<Rightarrow> event_queue \<Rightarrow> event_queue \<Rightarrow> bool" for limit R where
  skip_ordinal: "queue_step limit R (q, n) (q, Suc n)"
| retire_event: "js_get (fst q) (se_eventId e) = Some p \<Longrightarrow> same_event p e \<Longrightarrow> se_state e \<noteq> EventActive \<Longrightarrow>
    se_ordinal e = n \<Longrightarrow> retirable R p \<Longrightarrow> queue_step limit R (q, n) (recordEvent e q, Suc n)"
| admit_event: "queue_admits limit (fst q) e \<Longrightarrow> se_ordinal e = n \<Longrightarrow> queue_step limit R (q, n) (recordEvent e q, Suc n)"

inductive_cases queue_stepE: "queue_step limit R qn qn'"

abbreviation queue_reaches :: "nat \<Rightarrow> ident set \<Rightarrow> event_queue \<Rightarrow> event_queue \<Rightarrow> bool" where
  "queue_reaches limit R \<equiv> (queue_step limit R)\<^sup>*\<^sup>*"

subsection \<open>The invariant of the queue\<close>

definition one_key :: "(ident, stored_event) js_map \<Rightarrow> (stored_event \<Rightarrow> stored_event \<Rightarrow> bool) \<Rightarrow> bool" where
  "one_key m r = (\<forall>k p k' p'. js_get m k = Some p \<longrightarrow> js_get m k' = Some p' \<longrightarrow> r p p' \<longrightarrow> k = k')"

definition queue_ok :: "nat \<Rightarrow> event_queue \<Rightarrow> bool" where
  "queue_ok limit qn =
     (case qn of ((m, sm), n) \<Rightarrow>
        keyed se_eventId m
        \<and> (\<forall>k p. js_get m k = Some p \<longrightarrow> se_ordinal p < n)
        \<and> one_key m (\<lambda>p p'. se_ordinal p = se_ordinal p')
        \<and> one_key m (\<lambda>p p'. se_workerId p = se_workerId p' \<and> se_sequence p = se_sequence p')
        \<and> one_key m (\<lambda>p p'. se_workerId p = se_workerId p' \<and> active_progress_of (se_workerId p) p
             \<and> active_progress_of (se_workerId p) p')
        \<and> (\<forall>w. count_events (active_of w) m \<le> limit)
        \<and> (\<forall>w. summary_of sm w = rebuildEventSummary (js_values m) w))"

lemma recordEvent_fst [simp]: "fst (recordEvent e q) = js_set (se_eventId e) e (fst q)"
  by (cases q) (simp add: Let_def)

lemma summary_of_set: "summary_of (js_set w x sm) w' = (if w' = w then x else summary_of sm w')"
  by (simp add: summary_of_def js.get_put)

lemma record_summaries:
  assumes "keyed se_eventId m" "\<And>w. summary_of sm w = rebuildEventSummary (js_values m) w"
    and prior: "\<And>p. js_get m (se_eventId e) = Some p \<Longrightarrow> se_workerId p = se_workerId e \<and> se_ordinal p \<le> se_ordinal e"
  shows "summary_of (snd (recordEvent e (m, sm))) w = rebuildEventSummary (js_values (js_set (se_eventId e) e m)) w"
proof -
  let ?k = "se_eventId e" and ?w = "se_workerId e"
  note wf = keyed_wf [OF assms(1)]
  note counts = count_events_set [OF wf, of "unresolved_of w" ?k e]
  have high: "highest w (js_values (js_set ?k e m))
      = (if ?w = w then max (highest w (js_values m)) (se_ordinal e) else highest w (js_values m))"
    by (rule highest_set [OF wf]) (rule prior)
  have "snd (recordEvent e (m, sm)) = js_set ?w
      \<lparr>ws_unresolvedCount = ws_unresolvedCount (summary_of sm ?w)
          - (case js_get m ?k of None \<Rightarrow> 0 | Some p \<Rightarrow> if isUnresolved p then 1 else 0) + (if isUnresolved e then 1 else 0),
       ws_lastOrdinal = max (ws_lastOrdinal (summary_of sm ?w)) (se_ordinal e)\<rparr> sm"
    using prior by (auto simp: Let_def split: option.split)
  then show ?thesis
    using counts high prior
    by (cases "js_get m ?k") (auto simp: summary_of_set assms(2) rebuild_counts unresolved_of_def count_events_def)
qed

lemma one_key_set:
  assumes "one_key m r" "\<And>k p. js_get m k = Some p \<Longrightarrow> k \<noteq> i \<Longrightarrow> \<not> r e p \<and> \<not> r p e"
  shows "one_key (js_set i e m) r"
  using assms unfolding one_key_def js.get_put by (metis option.inject)

lemma skip_ok: "queue_ok limit (q, n) \<Longrightarrow> queue_ok limit (q, Suc n)"
  by (cases q) (auto simp: queue_ok_def intro: less_SucI)

lemma queue_okD:
  assumes "queue_ok limit ((m, sm), n)"
  shows "keyed se_eventId m" "js_get m k = Some p \<Longrightarrow> se_ordinal p < n"
    "one_key m (\<lambda>p p'. se_ordinal p = se_ordinal p')"
    "one_key m (\<lambda>p p'. se_workerId p = se_workerId p' \<and> se_sequence p = se_sequence p')"
    "one_key m (\<lambda>p p'. se_workerId p = se_workerId p' \<and> active_progress_of (se_workerId p) p
       \<and> active_progress_of (se_workerId p) p')"
    "count_events (active_of w) m \<le> limit" "summary_of sm w = rebuildEventSummary (js_values m) w"
  using assms by (auto simp: queue_ok_def)

text \<open>Recording an event under the next ordinal, when it clashes with no other event of its worker.\<close>

lemma record_ok:
  assumes ok: "queue_ok limit ((m, sm), n)" and ordinal: "se_ordinal e = n"
    and prior: "\<And>p. js_get m (se_eventId e) = Some p \<Longrightarrow> se_workerId p = se_workerId e"
    and sequences: "\<And>k p. js_get m k = Some p \<Longrightarrow> k \<noteq> se_eventId e \<Longrightarrow> se_workerId p = se_workerId e \<Longrightarrow> se_sequence p \<noteq> se_sequence e"
    and progress: "\<And>k p. js_get m k = Some p \<Longrightarrow> k \<noteq> se_eventId e \<Longrightarrow> active_progress_of (se_workerId e) e \<Longrightarrow>
      \<not> active_progress_of (se_workerId e) p"
    and active: "count_events (active_of (se_workerId e)) (js_set (se_eventId e) e m) \<le> limit"
  shows "queue_ok limit (recordEvent e (m, sm), Suc n)"
proof -
  let ?m = "js_set (se_eventId e) e m"
  note ok = queue_okD [OF ok]
  have "one_key ?m (\<lambda>p p'. se_ordinal p = se_ordinal p')"
    by (rule one_key_set [OF ok(3)]) (auto simp: ordinal dest: ok(2))
  moreover have "one_key ?m (\<lambda>p p'. se_workerId p = se_workerId p' \<and> se_sequence p = se_sequence p')"
    by (rule one_key_set [OF ok(4)]) (auto dest: sequences)
  moreover have "one_key ?m (\<lambda>p p'. se_workerId p = se_workerId p' \<and> active_progress_of (se_workerId p) p
      \<and> active_progress_of (se_workerId p) p')"
    by (rule one_key_set [OF ok(5)]) (auto dest: progress)
  moreover have "count_events (active_of w) ?m \<le> limit" for w
    using count_events_set [OF keyed_wf [OF ok(1)], of "active_of w" "se_eventId e" e] ok(6) [of w] active
    by (cases "w = se_workerId e") (auto simp: active_of_def split: option.splits)
  moreover have "summary_of (snd (recordEvent e (m, sm))) w = rebuildEventSummary (js_values ?m) w" for w
    by (rule record_summaries [OF ok(1,7)]) (auto simp: ordinal prior dest: ok(2))
  moreover have "se_ordinal x < Suc n" if "js_get ?m k = Some x" for k x
    using that ok(2) [of k x] ordinal by (auto simp: js.get_put split: if_splits)
  ultimately show ?thesis
    using ok(1) recordEvent_fst [of e "(m, sm)"] by (simp add: queue_ok_def split_beta del: recordEvent.simps)
qed

lemma retire_ok:
  assumes ok: "queue_ok limit ((m, sm), n)" and p: "js_get m (se_eventId e) = Some p" and same: "same_event p e"
    and closed: "se_state e \<noteq> EventActive" and ordinal: "se_ordinal e = n"
  shows "queue_ok limit (recordEvent e (m, sm), Suc n)"
proof (rule record_ok [OF ok ordinal])
  note same = same_event_fields [OF same] and ok = queue_okD [OF ok]
  show "se_sequence x \<noteq> se_sequence e" if "js_get m k = Some x" "k \<noteq> se_eventId e" "se_workerId x = se_workerId e" for k x
    using that ok(4) p same by (auto simp: one_key_def)
  show "count_events (active_of (se_workerId e)) (js_set (se_eventId e) e m) \<le> limit"
    using count_events_set [OF keyed_wf [OF ok(1)], of "active_of (se_workerId e)" "se_eventId e" e] ok(6) [of "se_workerId e"] closed
    by (auto simp: active_of_def split: option.splits)
qed (use p same_event_fields [OF same] closed in \<open>auto simp: active_progress_of_def\<close>)

lemma admit_ok:
  assumes ok: "queue_ok limit ((m, sm), n)" and e: "queue_admits limit m e" and ordinal: "se_ordinal e = n"
  shows "queue_ok limit (recordEvent e (m, sm), Suc n)"
proof (rule record_ok [OF ok ordinal])
  show "count_events (active_of (se_workerId e)) (js_set (se_eventId e) e m) \<le> limit"
    using count_events_set [OF keyed_wf [OF queue_okD(1) [OF ok]], of "active_of (se_workerId e)" "se_eventId e" e] e
    by (auto simp: queue_admits_def)
  show "se_sequence x \<noteq> se_sequence e" if "js_get m k = Some x" "k \<noteq> se_eventId e" "se_workerId x = se_workerId e" for k x
    using that e by (fastforce simp: queue_admits_def)
qed (use e in \<open>auto simp: queue_admits_def active_progress_of_def\<close>)

lemma queue_step_ok: "queue_step limit R qn qn' \<Longrightarrow> queue_ok limit qn \<Longrightarrow> queue_ok limit qn'"
  by (induction rule: queue_step.induct) (metis skip_ok retire_ok admit_ok prod.collapse)+

lemma queue_reaches_ok: "queue_reaches limit R qn qn' \<Longrightarrow> queue_ok limit qn \<Longrightarrow> queue_ok limit qn'"
  by (induction rule: rtranclp_induct) (auto intro: queue_step_ok)

text \<open>A pinned event other than progress keeps its entry until its id is resolved.\<close>

lemma queue_step_pinned:
  assumes "queue_step limit R qn qn'" "js_get (fst (fst qn)) i = Some e" "keyed se_eventId (fst (fst qn))"
    and "i \<notin> R" "isPinned e" "se_kind e \<noteq> EvProgress"
  shows "js_get (fst (fst qn')) i = Some e"
  using assms
proof (induction rule: queue_step.induct)
  case (retire_event q x p n)
  have "i \<noteq> se_eventId x"
  proof
    assume "i = se_eventId x"
    with retire_event have "p = e" "se_eventId e = i" by (auto dest: keyed_get)
    with retire_event show False by (auto simp: retirable_def)
  qed
  with retire_event show ?case by (simp add: js.get_put del: recordEvent.simps)
next
  case (admit_event q x n)
  then show ?case by (auto simp: queue_admits_def js.get_put simp del: recordEvent.simps)
qed simp

lemma queue_reaches_pinned:
  assumes "queue_reaches limit R qn qn'" "queue_ok limit qn" "js_get (fst (fst qn)) i = Some e"
    and "i \<notin> R" "isPinned e" "se_kind e \<noteq> EvProgress"
  shows "js_get (fst (fst qn')) i = Some e"
  using assms
proof (induction rule: rtranclp_induct)
  case (step y z)
  obtain m sm n where y: "y = ((m, sm), n)" by (metis prod.collapse)
  from queue_reaches_ok [OF step.hyps(1) step.prems(1)] have "keyed se_eventId m" by (simp add: y queue_okD(1))
  with step y show ?case by (intro queue_step_pinned [OF step.hyps(2)]) auto
qed simp

subsection \<open>Calls and the queue\<close>

text \<open>From a state with queue \<open>qn\<close>, an operation ends, however it ends, with a queue in \<open>Q\<close>.\<close>

definition queue_ends :: "event_queue \<Rightarrow> 'a co_op \<Rightarrow> (event_queue \<Rightarrow> bool) \<Rightarrow> bool" where
  "queue_ends qn m Q = op_triple (\<lambda>t. queue_of t = qn) m (\<lambda>_ t. Q (queue_of t)) (\<lambda>t. Q (queue_of t))"

lemma queue_endsD: "queue_ends qn m Q \<Longrightarrow> queue_of s = qn \<Longrightarrow> Q (queue_of (snd (m s)))"
  by (cases "m s") (auto simp: queue_ends_def op_triple_def split: sum.splits)

lemma record_events_Nil [simp]: "record_events [] m sm = sm"
  by (simp add: record_events_def)

interpretation untouched: co_frame env "\<lambda>t. queue_of t = qn" for env qn
  by unfold_locales (auto simp: queue_of_def apply_events)

lemma queue_ends_keep: "op_keeps (\<lambda>t. queue_of t = qn) m \<Longrightarrow> Q qn \<Longrightarrow> queue_ends qn m Q"
  unfolding queue_ends_def op_keeps_def op_triple_def by (fastforce split: prod.split sum.split)

lemma queue_ends_bind:
  assumes m: "op_keeps (\<lambda>t. queue_of t = qn) m" and f: "\<And>x. queue_ends qn (f x) Q" and qn: "Q qn"
  shows "queue_ends qn (op_bind m f) Q"
  unfolding queue_ends_def
proof (rule op_triple_bind)
  show "op_triple (\<lambda>t. queue_of t = qn) m (\<lambda>_ t. queue_of t = qn) (\<lambda>t. Q (queue_of t))"
    using m qn unfolding op_keeps_def op_triple_def by (fastforce split: prod.split sum.split)
qed (rule f [unfolded queue_ends_def])

lemma queue_ends_asking:
  "asking m \<Longrightarrow> (\<And>x. queue_ends qn (f x) Q) \<Longrightarrow> Q qn \<Longrightarrow> queue_ends qn (op_bind m f) Q"
  by (rule queue_ends_bind [OF untouched.keeps_asking])

lemma queue_ends_gets: "queue_ends qn (op_bind (op_gets f) k) Q" if "\<And>x. queue_ends qn (k x) Q"
  using that by (simp add: queue_ends_def op_triple_def)

lemma queue_ends_read:
  assumes "\<And>t. queue_of t = qn \<Longrightarrow> f t = x" "queue_ends qn (k x) Q"
  shows "queue_ends qn (op_bind (op_gets f) k) Q"
  using assms by (simp add: queue_ends_def op_triple_def)

lemma queue_ends_ordinal: "queue_ends (q, Suc n) (k n) Q \<Longrightarrow> queue_ends (q, n) (op_bind co_ordinal k) Q"
  unfolding queue_ends_def op_triple_def co_ordinal_def
  by (auto simp: op_defs queue_of_def)

lemma queue_ends_return: "Q qn \<Longrightarrow> queue_ends qn (op_return x) Q" "Q qn \<Longrightarrow> queue_ends qn (op_throw e) Q"
  by (simp_all add: queue_ends_keep op_keeps_return op_keeps_throw)

lemma asking_replayAck [simp]: "asking (replayAck mid operation)"
  unfolding replayAck_def by (auto intro!: asking_bind split: option.split receipt_result.split)

lemma fold_recordEvent: "fold recordEvent es (m, sm) = (set_all se_eventId es m, record_events es m sm)"
proof -
  have "fst (fold recordEvent es q) = set_all se_eventId es (fst q)" for q
    by (induction es arbitrary: q) (simp_all del: recordEvent.simps)
  from this [of "(m, sm)"] show ?thesis by (simp add: record_events_def prod_eq_iff)
qed

lemma queue_ends_commit:
  assumes "Q (q, n)" "Q (fold recordEvent (tx_events tx) q, n)"
  shows "queue_ends (q, n) (commit env tx) Q"
proof -
  obtain m sm where q: "q = (m, sm)" by fastforce
  have "queue_of (commit_applied tx' t) = (fold recordEvent (tx_events tx') q, n)" if "queue_of t = (q, n)" for tx' t
    using that by (auto simp: queue_of_def q fold_recordEvent apply_events)
  then show ?thesis
    unfolding commit_def Let_def using assms
    by (intro queue_ends_asking) (auto simp: queue_ends_def op_triple_def op_defs)
qed

lemma queue_ends_ack:
  assumes "Q (q, n)" "Q (fold recordEvent (tx_events tx) q, n)"
  shows "queue_ends (q, n) (recordAck env mid operation ack tx) Q" "queue_ends (q, n) (rejectEvent env mid i code sq tx operation) Q"
proof -
  have "queue_ends (q, n) (commit env (tx\<lparr>tx_receipts := rs\<rparr>)) Q" for rs
    using assms by (intro queue_ends_commit) simp_all
  then have "queue_ends (q, n) (persist_result env mid operation r tx h) Q" for r h mid operation
    unfolding persist_result_def using assms(1) by (intro queue_ends_asking) simp_all
  then have "queue_ends (q, n) (recordAck env mid operation ack tx) Q" for mid operation ack
    unfolding recordAck_def op_then_def queue_ends_def
    by (rule op_triple_bind) (auto intro: op_triple_return)
  then show "queue_ends (q, n) (recordAck env mid operation ack tx) Q" "queue_ends (q, n) (rejectEvent env mid i code sq tx operation) Q"
    by (simp_all add: rejectEvent_def)
qed

lemma queue_ends_reject:
  "Q (q, n) \<Longrightarrow> tx_events tx = [] \<Longrightarrow> queue_ends (q, n) (recordAck env mid operation ack tx) Q"
  "Q (q, n) \<Longrightarrow> tx_events tx = [] \<Longrightarrow> queue_ends (q, n) (rejectEvent env mid i code sq tx operation) Q"
  by (simp_all add: queue_ends_ack)

lemma queue_skips: "queue_reaches limit R (q, n) (q, n + j)"
  by (induction j) (auto intro: rtranclp.rtrancl_into_rtrancl skip_ordinal)

subsection \<open>Submission and resolution\<close>

lemma stored_of_fields [simp]:
  "se_eventId (stored_of env e x n now) = se_eventId x" "se_workerId (stored_of env e x n now) = se_workerId x"
  "se_sequence (stored_of env e x n now) = se_sequence x" "se_kind (stored_of env e x n now) = se_kind x"
  "se_state (stored_of env e x n now) = EventActive" "se_ordinal (stored_of env e x n now) = n"
  by (simp_all add: stored_of_def worker_event.defs stored_event.defs)

definition same_submission :: "worker_event \<Rightarrow> worker_event \<Rightarrow> bool" where
  "same_submission e x =
     (se_eventId x = se_eventId e \<and> se_workerId x = se_workerId e \<and> se_sequence x = se_sequence e \<and> se_kind x = se_kind e)"

text \<open>Retirements waiting for the commit of a submission, and an event that fits once they are done.\<close>

definition ready :: "coordination_env \<Rightarrow> (ident, stored_event) js_map \<times> (ident, event_summary) js_map \<Rightarrow> nat \<Rightarrow> worker_event
     \<Rightarrow> stored_event list \<Rightarrow> bool" where
  "ready env q n e rs =
     (queue_reaches (ce_maxQueuedEventsPerWorker env) {} (q, n) (fold recordEvent rs q, n + length rs)
      \<and> (\<forall>x. same_submission e (worker_event.truncate x) \<longrightarrow> se_state x = EventActive \<longrightarrow>
           queue_admits (ce_maxQueuedEventsPerWorker env) (fst (fold recordEvent rs q)) x))"

lemma queue_ends_store:
  assumes ready: "ready env q n e (superseded @ evicted)" and material: "same_submission e material"
  shows "queue_ends (q, n + length (superseded @ evicted)) (store_event env inp e current now expected material superseded evicted)
    (queue_reaches (ce_maxQueuedEventsPerWorker env) {} (q, n))"
proof -
  let ?Q = "queue_reaches (ce_maxQueuedEventsPerWorker env) {} (q, n)"
  let ?rs = "superseded @ evicted" and ?k = "n + length (superseded @ evicted)"
  have skipped: "?Q (q, Suc ?k)" using queue_skips [of _ _ q n "Suc (length ?rs)"] by simp
  have "same_submission e (worker_event.truncate (stored_of env e material ?k now))"
    using material by (simp add: same_submission_def stored_of_def worker_event.defs)
  with ready have reached: "?Q (fold recordEvent ?rs q, ?k)"
    and fits: "queue_admits (ce_maxQueuedEventsPerWorker env) (fst (fold recordEvent ?rs q)) (stored_of env e material ?k now)"
    by (simp_all add: ready_def)
  have admitted: "?Q (fold recordEvent (?rs @ [stored_of env e material ?k now]) q, Suc ?k)"
    using rtranclp.rtrancl_into_rtrancl [OF reached queue_step.admit_event [OF fits]] by simp
  show ?thesis
    unfolding store_event_def
    by (rule queue_ends_ordinal, rule queue_ends_gets)
       (use skipped admitted in \<open>auto intro!: queue_ends_reject queue_ends_ack queue_ends_asking
          simp del: fold_append recordEvent.simps split: option.split prod.split\<close>)
qed

lemma first_by_member: "first_by cmp xs = Some x \<Longrightarrow> x \<in> set xs"
  using set_js_sort [of cmp xs] by (auto simp: first_by_def simp del: set_js_sort split: list.splits)

lemma first_by_None: "first_by cmp xs = None \<Longrightarrow> xs = []"
  using set_js_sort [of cmp xs] by (auto simp: first_by_def simp del: set_js_sort split: list.splits)

lemma active_events_count:
  "length (active_events (filter (\<lambda>e. se_workerId e = w) (js_values m))) = count_events (active_of w) m"
proof -
  have "active_of w = (\<lambda>e. se_workerId e = w \<and> se_state e = EventActive)" by (rule ext) (simp add: active_of_def)
  then show ?thesis unfolding active_events_def count_events_def filter_filter by (simp add: conj_commute)
qed

lemma truncate_fields [simp]:
  "se_eventId (worker_event.truncate x) = se_eventId x" "se_workerId (worker_event.truncate x) = se_workerId x"
  "se_sequence (worker_event.truncate x) = se_sequence x" "se_kind (worker_event.truncate x) = se_kind x"
  by (simp_all add: worker_event.defs)

text \<open>A submission the queue has not seen: a new id, and a sequence above those of its worker.\<close>

definition unseen :: "(ident, stored_event) js_map \<Rightarrow> worker_event \<Rightarrow> bool" where
  "unseen m e =
     (js_get m (se_eventId e) = None
      \<and> (\<forall>k p. js_get m k = Some p \<longrightarrow> se_workerId p = se_workerId e \<longrightarrow> se_sequence p < se_sequence e))"

lemma ready_room:
  assumes "unseen m e" "count_events (active_of (se_workerId e)) m < ce_maxQueuedEventsPerWorker env"
    and "\<And>k p. se_kind e = EvProgress \<Longrightarrow> js_get m k = Some p \<Longrightarrow> \<not> active_progress_of (se_workerId e) p"
  shows "ready env (m, sm) n e []"
  using assms by (auto simp: ready_def same_submission_def queue_admits_def unseen_def)

lemma ready_retire:
  assumes ok: "queue_ok (ce_maxQueuedEventsPerWorker env) ((m, sm), n)" and new: "unseen m e"
    and p: "js_get m (se_eventId r) = Some p" "active_of (se_workerId e) p" "retirable {} p"
    and r: "same_event p r" "se_state r \<noteq> EventActive" "se_ordinal r = n"
    and progress: "\<And>k x. se_kind e = EvProgress \<Longrightarrow> js_get m k = Some x \<Longrightarrow> active_progress_of (se_workerId e) x \<Longrightarrow> k = se_eventId r"
  shows "ready env (m, sm) n e [r]"
proof -
  let ?m = "js_set (se_eventId r) r m" and ?limit = "ce_maxQueuedEventsPerWorker env"
  have reached: "queue_reaches ?limit {} ((m, sm), n) (recordEvent r (m, sm), Suc n)"
    by (rule r_into_rtranclp, rule queue_step.retire_event [OF _ r(1,2,3) p(3)]) (simp add: p(1))
  have "count_events (active_of (se_workerId e)) ?m < ?limit"
    using count_events_set [OF keyed_wf [OF queue_okD(1) [OF ok]], of "active_of (se_workerId e)" "se_eventId r" r]
      queue_okD(6) [OF ok, of "se_workerId e"] p(1,2) r(2) by (simp add: active_of_def)
  moreover have "js_get ?m (se_eventId e) = None" using new p(1) by (auto simp: unseen_def js.get_put)
  moreover have "se_sequence x < se_sequence e" if "js_get ?m k = Some x" "se_workerId x = se_workerId e" for k x
    using that new p(1) same_event_fields [OF r(1)] by (auto simp: unseen_def js.get_put split: if_splits)
  moreover have "\<not> active_progress_of (se_workerId e) x" if "se_kind e = EvProgress" "js_get ?m k = Some x" for k x
    using that progress [of k x] r(2) by (auto simp: js.get_put active_progress_of_def split: if_splits)
  ultimately show ?thesis
    using reached recordEvent_fst [of r "(m, sm)"]
    by (simp add: ready_def same_submission_def queue_admits_def del: recordEvent.simps)
qed

lemma merged_same: "same_submission e (merged_progress p e)" "same_submission e e"
  by (simp_all add: same_submission_def merged_progress_def)

lemma op_bind_flat: "op_bind (op_bind m f) g = op_bind m (\<lambda>x. op_bind (f x) g)" "op_bind (op_return x) k = k x"
  "op_bind (op_throw e) k' = op_throw e"
  by (rule ext, simp add: op_bind_def op_return_def op_throw_def split: prod.split sum.split)+

lemma queue_member:
  assumes "keyed se_eventId m" "x \<in> set (filter (\<lambda>x. se_workerId x = w) (js_values m))"
  shows "js_get m (se_eventId x) = Some x" "se_workerId x = w"
  using assms keyed_value [OF assms(1), of x] by (auto simp del: set_map)

text \<open>Nothing superseded: the event fits, or the oldest event that is not pinned makes room.\<close>

lemma queue_ends_room:
  assumes ok: "queue_ok (ce_maxQueuedEventsPerWorker env) ((m, sm), n)" and new: "unseen m e"
    and es: "es = filter (\<lambda>x. se_workerId x = se_workerId e) (js_values m)"
    and calm: "\<And>k x. se_kind e = EvProgress \<Longrightarrow> js_get m k = Some x \<Longrightarrow> \<not> active_progress_of (se_workerId e) x"
  shows "queue_ends ((m, sm), n) (op_bind (make_room env e now es []) (\<lambda>room.
      case room of None \<Rightarrow> rejectEvent env (eb_mutationId inp) (se_eventId e) QueueLimitExceeded None no_changes OwEventSubmit
      | Some evicted \<Rightarrow> store_event env inp e current now expected e [] evicted))
    (queue_reaches (ce_maxQueuedEventsPerWorker env) {} ((m, sm), n))" (is "queue_ends _ _ ?Q")
proof -
  have reject: "queue_ends ((m, sm), n) (rejectEvent env mid i code sq no_changes operation) ?Q" for mid i code sq operation
    by (rule queue_ends_reject) simp_all
  have fits: "queue_ends ((m, sm), n) (store_event env inp e current now expected e [] []) ?Q"
    if "Suc (length (active_events es)) \<le> ce_maxQueuedEventsPerWorker env"
    using queue_ends_store [of env "(m, sm)" n e "[]" "[]"] ready_room [OF new _ calm] that merged_same
    by (simp add: es active_events_count)
  have evicts: "queue_ends ((m, sm), n) (op_bind co_ordinal (\<lambda>k. store_event env inp e current now expected e []
      [v\<lparr>se_ordinal := k, se_state := EventClosed, se_resolvedAt := Some now, se_resolvedBy := Some BROKER_ACTOR\<rparr>])) ?Q"
    if "evictable_event es = Some v" for v
  proof (rule queue_ends_ordinal)
    let ?r = "v\<lparr>se_ordinal := n, se_state := EventClosed, se_resolvedAt := Some now, se_resolvedBy := Some BROKER_ACTOR\<rparr>"
    from first_by_member [OF that [unfolded evictable_event_def]]
    have v: "v \<in> set es" "se_state v = EventActive" "\<not> isPinned v" by (auto simp: active_events_def)
    note known = queue_member [OF queue_okD(1) [OF ok] v(1) [unfolded es]]
    have "ready env (m, sm) n e [?r]"
      by (rule ready_retire [OF ok new, of ?r v])
         (use v known calm in \<open>auto simp: active_of_def retirable_def\<close>)
    from queue_ends_store [of env "(m, sm)" n e "[]" "[?r]" e, OF _ merged_same(2)] this
    show "queue_ends ((m, sm), Suc n) (store_event env inp e current now expected e [] [?r]) ?Q" by simp
  qed
  show ?thesis
    unfolding make_room_def using fits evicts reject by (auto simp: op_bind_flat split: option.split)
qed

text \<open>Progress replaces the active progress of its worker, so it always fits.\<close>

lemma queue_ends_supersede:
  assumes ok: "queue_ok (ce_maxQueuedEventsPerWorker env) ((m, sm), n)" and new: "unseen m e"
    and es: "es = filter (\<lambda>x. se_workerId x = se_workerId e) (js_values m)"
    and kind: "se_kind e = EvProgress" and p: "active_progress es = Some p"
    and r: "r = p\<lparr>se_ordinal := n, se_state := EventSuperseded, se_supersededBy := Some (se_eventId e), se_resolvedAt := Some now\<rparr>"
  shows "queue_ends ((m, sm), Suc n) (op_bind (make_room env e now es [r]) (\<lambda>room.
      case room of None \<Rightarrow> rejectEvent env (eb_mutationId inp) (se_eventId e) QueueLimitExceeded None no_changes OwEventSubmit
      | Some evicted \<Rightarrow> store_event env inp e current now expected (merged_progress p e) [r] evicted))
    (queue_reaches (ce_maxQueuedEventsPerWorker env) {} ((m, sm), n))"
proof -
  from first_by_member [OF p [unfolded active_progress_def]]
  have p: "p \<in> set es" "se_kind p = EvProgress" "se_state p = EventActive" by auto
  note known = queue_member [OF queue_okD(1) [OF ok] p(1) [unfolded es]]
  have "length (active_events es) \<le> ce_maxQueuedEventsPerWorker env"
    using queue_okD(6) [OF ok] by (simp add: es active_events_count)
  then have room: "make_room env e now es [r] = op_return (Some [])" by (simp add: make_room_def kind)
  have unique: "k = se_eventId p" if "js_get m k = Some x" "active_progress_of (se_workerId e) x" for k x
    using that queue_okD(5) [OF ok] known p unfolding one_key_def by (auto simp: active_progress_of_def)
  have "ready env (m, sm) n e [r]"
    by (rule ready_retire [OF ok new, of r p]) (use p known unique in \<open>auto simp: r active_of_def retirable_def\<close>)
  from queue_ends_store [of env "(m, sm)" n e "[r]" "[]" "merged_progress p e", OF _ merged_same(1)] this
  show ?thesis by (simp add: room op_bind_flat)
qed

lemma queue_ends_queue:
  assumes ok: "queue_ok (ce_maxQueuedEventsPerWorker env) ((m, sm), n)" and new: "unseen m e"
    and es: "es = filter (\<lambda>x. se_workerId x = se_workerId e) (js_values m)"
  shows "queue_ends ((m, sm), n) (enqueue_event env inp e current now es expected)
    (queue_reaches (ce_maxQueuedEventsPerWorker env) {} ((m, sm), n))" (is "queue_ends _ _ ?Q")
proof (cases "se_kind e = EvProgress \<and> active_progress es \<noteq> None")
  case True
  then obtain p where p: "active_progress es = Some p" "se_kind e = EvProgress" by auto
  have "queue_ends ((m, sm), n) (op_throw x) ?Q" for x :: coordination_error
    by (rule queue_ends_return) simp
  then show ?thesis
    unfolding enqueue_event_def supersede_previous_def mergeProgress_def Let_def
    using queue_ends_supersede [OF ok new es p(2,1)] p
    by (auto simp: op_bind_flat intro!: queue_ends_ordinal)
next
  case False
  have calm: "\<not> active_progress_of (se_workerId e) x" if "se_kind e = EvProgress" "js_get m k = Some x" for k x
  proof
    assume x: "active_progress_of (se_workerId e) x"
    from False that(1) have "filter (\<lambda>e. se_kind e = EvProgress \<and> se_state e = EventActive) es = []"
      by (intro first_by_None) (simp add: active_progress_def)
    moreover have "x \<in> set es"
      using that(2) x keyed_value [OF queue_okD(1) [OF ok], of x] keyed_get [OF queue_okD(1) [OF ok] that(2)]
      by (auto simp: es active_progress_of_def simp del: set_map)
    ultimately show False using x by (auto simp: filter_empty_conv active_progress_of_def)
  qed
  from False have "supersede_previous env e now es = op_return (e, [])" by (auto simp: supersede_previous_def)
  with queue_ends_room [OF ok new es calm] show ?thesis by (simp add: enqueue_event_def op_bind_flat)
qed

lemma last_sequence_bound:
  assumes "x \<in> set es"
  shows "se_sequence x \<le> last_sequence es"
proof -
  have "n \<le> fold (\<lambda>e highest. max highest (se_sequence e)) es n
      \<and> (\<forall>x\<in>set es. se_sequence x \<le> fold (\<lambda>e highest. max highest (se_sequence e)) es n)" for es :: "stored_event list" and n
    by (induction es arbitrary: n) (auto simp: fold_max max.coboundedI1)
  with assms show ?thesis by (simp add: last_sequence_def)
qed

lemma queue_ends_admit:
  assumes ok: "queue_ok (ce_maxQueuedEventsPerWorker env) ((m, sm), n)" and fresh: "js_get m (se_eventId e) = None"
  shows "queue_ends ((m, sm), n) (admit_event env inp e sub)
    (queue_reaches (ce_maxQueuedEventsPerWorker env) {} ((m, sm), n))" (is "queue_ends ?qn _ ?Q")
proof -
  let ?es = "filter (\<lambda>x. se_workerId x = se_workerId e) (js_values m)"
  have "unseen m e" if "last_sequence ?es < se_sequence e"
    unfolding unseen_def
  proof (intro conjI allI impI fresh)
    fix k p
    assume p: "js_get m k = Some p" "se_workerId p = se_workerId e"
    then have "p \<in> set ?es"
      using keyed_value [OF queue_okD(1) [OF ok], of p] keyed_get [OF queue_okD(1) [OF ok] p(1)] by (simp del: set_map)
    from last_sequence_bound [OF this] that show "se_sequence p < se_sequence e" by simp
  qed
  then have queued: "queue_ends ?qn (enqueue_event env inp e current now ?es expected) ?Q"
    if "\<not> se_sequence e < Suc (last_sequence ?es)" for current now expected
    using that queue_ends_queue [OF ok _ refl] by simp
  have "queue_ends ?qn (sequence_event env inp e current now) ?Q" for current now
    unfolding sequence_event_def Let_def
    by (rule queue_ends_read [where x = ?es])
       (auto simp: worker_events_def queue_of_def intro!: queue_ends_reject queued)
  moreover have "tx_events (copied_subject env s sub now) = []" for s now
    by (simp add: copied_subject_def)
  then have "queue_ends ?qn (op_bind (op_gets (\<lambda>s. copied_subject env s sub now)) (\<lambda>tx.
      rejectEvent env (eb_mutationId inp) (se_eventId e) code None tx OwEventSubmit)) ?Q" for now code
    using queue_ends_reject(2) [of ?Q "(m, sm)" n] by (simp add: queue_ends_def op_triple_def)
  ultimately show ?thesis
    unfolding admit_event_def
    by (auto intro!: queue_ends_asking queue_ends_gets queue_ends_reject split: option.split)
qed

text \<open>A submission refines to steps of the queue, and resolves nothing.\<close>

lemma submit_reaches:
  assumes ok: "queue_ok (ce_maxQueuedEventsPerWorker env) (queue_of s)"
  shows "queue_reaches (ce_maxQueuedEventsPerWorker env) {} (queue_of s) (queue_of (snd (submitEvent env inp s)))"
proof -
  obtain m sm n where qn: "queue_of s = ((m, sm), n)" by (metis prod.collapse)
  let ?Q = "queue_reaches (ce_maxQueuedEventsPerWorker env) {} ((m, sm), n)"
  have "queue_ends ((m, sm), n) (submit_parsed env inp e) ?Q" for e
    unfolding submit_parsed_def
  proof (rule queue_ends_read)
    show "js_get (co_events t) (se_eventId e) = js_get m (se_eventId e)" if "queue_of t = ((m, sm), n)" for t
      using that by (simp add: queue_of_def)
  qed (use ok qn in \<open>auto intro!: queue_ends_reject queue_ends_gets queue_ends_admit split: option.split\<close>)
  then have "queue_ends ((m, sm), n) (submitEvent env inp) ?Q"
    unfolding submitEvent_def submit_raw_def op_then_def Let_def
    by (auto intro!: queue_ends_asking queue_ends_reject queue_ends_return split: option.split sum.split)
  from queue_endsD [OF this qn] show ?thesis by (simp add: qn)
qed

lemma resolve_reaches:
  assumes ok: "queue_ok limit (queue_of s)"
  shows "queue_reaches limit {ri_eventId inp} (queue_of s) (queue_of (snd (resolveEvent env inp s)))"
proof -
  obtain m sm n where qn: "queue_of s = ((m, sm), n)" by (metis prod.collapse)
  let ?Q = "queue_reaches limit {ri_eventId inp} ((m, sm), n)"
  have skip: "?Q ((m, sm), Suc n)" using queue_skips [of limit _ "(m, sm)" n 1] by simp
  have recorded: "queue_ends ((m, sm), n) (record_resolution env inp e sub current now) ?Q"
    if e: "js_get m (ri_eventId inp) = Some e" for e sub current now
  proof -
    from e have i: "se_eventId e = ri_eventId inp" using keyed_get [OF queue_okD(1) [OF ok [unfolded qn]]] by blast
    let ?r = "resolved_event inp e n now"
    have r: "same_event e ?r" "se_state ?r \<noteq> EventActive" "se_ordinal ?r = n" "se_eventId ?r = ri_eventId inp"
      using i by (cases "ri_resolution inp"; simp add: resolved_event_def)+
    have "queue_step limit {ri_eventId inp} ((m, sm), n) (recordEvent ?r (m, sm), Suc n)"
      by (rule queue_step.retire_event [OF _ r(1,2,3)]) (simp_all add: e r(4) retirable_def i)
    then have "?Q (fold recordEvent [?r] (m, sm), Suc n)" by (simp add: r_into_rtranclp del: recordEvent.simps)
    with skip show ?thesis
      unfolding record_resolution_def
      by (intro queue_ends_ordinal queue_ends_asking queue_ends_ack) (simp_all del: recordEvent.simps)
  qed
  have "tx_events (copied_subject env t sub now) = []" for t sub now by (simp add: copied_subject_def)
  then have refuse: "queue_ends ((m, sm), n) (op_bind (op_gets (\<lambda>s. copied_subject env s sub now)) (\<lambda>tx.
      rejectEvent env mid i code None tx operation)) ?Q" for sub now mid i code operation
    using queue_ends_reject(2) [of ?Q "(m, sm)" n] by (simp add: queue_ends_def op_triple_def)
  have "queue_ends ((m, sm), n) (resolve_known env inp e) ?Q" if "js_get m (ri_eventId inp) = Some e" for e
    unfolding resolve_known_def
    by (auto intro!: queue_ends_asking recorded [OF that] refuse split: option.split)
  then have "queue_ends ((m, sm), n) (op_bind (op_gets (\<lambda>s. js_get (co_events s) (ri_eventId inp))) (\<lambda>found.
      case found of None \<Rightarrow> op_throw CoEventNotFound | Some e \<Rightarrow> resolve_known env inp e)) ?Q"
    by (intro queue_ends_read [where x = "js_get m (ri_eventId inp)"])
       (auto simp: queue_of_def intro!: queue_ends_return split: option.split)
  then have "queue_ends ((m, sm), n) (resolveEvent env inp) ?Q"
    unfolding resolveEvent_def op_then_def
    by (auto intro!: queue_ends_asking queue_ends_return split: option.split)
  from queue_endsD [OF this qn] show ?thesis by (simp add: qn)
qed

subsection \<open>Runs\<close>

definition resolved_ids :: "coordination_call \<Rightarrow> ident set" where
  "resolved_ids c = (case c of CallResolve inp \<Rightarrow> {ri_eventId inp} | _ \<Rightarrow> {})"

abbreviation queue_limit :: "coordination_env \<Rightarrow> nat" where
  "queue_limit env \<equiv> ce_maxQueuedEventsPerWorker env"

lemma step_reaches:
  assumes "queue_ok (queue_limit env) (queue_of s)" "c \<noteq> BrokerRestart"
  shows "queue_reaches (queue_limit env) (resolved_ids c) (queue_of s) (queue_of (co_step env c s))"
proof -
  have "queue_of (snd (m s)) = queue_of s" if "op_keeps (\<lambda>t. queue_of t = queue_of s) m" for m :: "'a co_op"
    using that by (simp add: op_keeps_def)
  note kept = this
  show ?thesis
  proof (cases c)
    case (CallSubmit inp)
    then show ?thesis using submit_reaches [OF assms(1)] by (simp add: co_step_def resolved_ids_def)
  next
    case (CallResolve inp)
    then show ?thesis using resolve_reaches [OF assms(1)] by (simp add: co_step_def resolved_ids_def)
  qed (use assms(2) in \<open>simp_all add: co_step_def kept untouched.keeps_register untouched.keeps_lease_calls
      untouched.keeps_adopt_batch untouched.keeps_handoff untouched.keeps_liveness untouched.keeps_expire
      untouched.keeps_reconcile untouched.keeps_acknowledge untouched.keeps_checkpoint untouched.keeps_modal\<close>)
qed

text \<open>What a reload keeps: the same events under the same ids, counted the same way.\<close>

lemma count_by_lookup:
  assumes "keyed se_eventId m" "keyed se_eventId m'" "\<And>k. js_get m' k = js_get m k"
  shows "count_events P m' = count_events P m"
proof -
  have card: "count_events P x = card {e. js_get x (se_eventId e) = Some e \<and> P e}" if "keyed se_eventId x" for x
  proof -
    have "distinct (map se_eventId (js_values x))"
      unfolding keyed_values [OF that] using keyed_wf [OF that] by (simp add: js_wf_def)
    then have "distinct (js_values x)" by (simp only: distinct_map)
    then have "count_events P x = card (set (filter P (js_values x)))"
      by (simp only: count_events_def distinct_card distinct_filter)
    also have "set (filter P (js_values x)) = {e. js_get x (se_eventId e) = Some e \<and> P e}"
      using keyed_value [OF that] by (auto simp del: set_map)
    finally show ?thesis .
  qed
  show ?thesis by (simp only: card [OF assms(1)] card [OF assms(2)] assms(3))
qed

lemma record_fresh_summaries:
  assumes "keyed se_eventId m" "\<And>w. summary_of sm w = rebuildEventSummary (js_values m) w"
    and "distinct (map se_eventId es)" "\<And>e. e \<in> set es \<Longrightarrow> js_get m (se_eventId e) = None"
  shows "summary_of (record_events es m sm) w = rebuildEventSummary (js_values (set_all se_eventId es m)) w"
  using assms
proof (induction es arbitrary: m sm)
  case (Cons e es)
  let ?m = "js_set (se_eventId e) e m" and ?sm = "snd (recordEvent e (m, sm))"
  have "recordEvent e (m, sm) = (?m, ?sm)" by (metis fst_conv prod.collapse recordEvent_fst)
  then have step: "record_events (e # es) m sm = record_events es ?m ?sm"
    by (simp add: record_events_def del: recordEvent.simps)
  have "summary_of (record_events es ?m ?sm) w = rebuildEventSummary (js_values (set_all se_eventId es ?m)) w"
  proof (rule Cons.IH)
    show "summary_of ?sm w = rebuildEventSummary (js_values ?m) w" for w
      by (rule record_summaries) (use Cons.prems in auto)
    show "js_get ?m (se_eventId x) = None" if "x \<in> set es" for x
    proof -
      from that Cons.prems(3) have "se_eventId x \<noteq> se_eventId e" by (metis distinct.simps(2) image_eqI image_set list.simps(9))
      with that Cons.prems(4) show ?thesis by (simp add: js.get_put)
    qed
  qed (use Cons.prems in auto)
  then show ?case by (simp only: step set_all_Cons)
qed simp

lemma next_ordinal_bound: "e \<in> set es \<Longrightarrow> se_ordinal e < next_ordinal es n"
  unfolding next_ordinal_def by (induction es arbitrary: n) (auto simp: fold_max less_max_iff_disj)

lemma reloaded_ok:
  assumes ok: "queue_ok limit (queue_of s)" and coherent: "coherent env s"
  shows "queue_ok limit (queue_of (reloaded s))" "js_get (co_events (reloaded s)) = js_get (co_events s)"
proof -
  let ?st = "replay_transactions (co_journal s)" and ?t = "reloaded s"
  obtain n where qn: "queue_of s = ((co_events s, co_summaries s), n)" by (simp add: queue_of_def)
  note ok = queue_okD [OF ok [unfolded qn]]
  have same: "js_get (co_events ?t) k = js_get (co_events s) k" for k
    using coherent_reloaded(2) [OF coherent] by (simp add: same_state_def)
  then show lookups: "js_get (co_events ?t) = js_get (co_events s)" by (rule ext)
  have keyed: "keyed se_eventId (co_events ?t)" using coherent_reloaded(1) [OF coherent] by (simp add: coherent_def)
  have events: "co_events ?t = set_all se_eventId (sorted_events ?st) []" by (simp add: reloaded_def Let_def loaded_state_def)
  have "se_ordinal p < co_nextOrdinal ?t" if "js_get (co_events ?t) k = Some p" for k p
  proof -
    from that have "p \<in> set (sorted_events ?st)"
      using set_all_cases [of se_eventId "sorted_events ?st" "[]" k p] by (simp add: events)
    from next_ordinal_bound [OF this, of 1] show ?thesis by (simp add: reloaded_def Let_def)
  qed
  moreover have "summary_of (co_summaries ?t) w = rebuildEventSummary (js_values (co_events ?t)) w" for w
  proof -
    have "summary_of [] w = rebuildEventSummary (js_values []) w" for w
      by (simp add: summary_of_def rebuild_counts highest_def)
    moreover have "co_summaries ?t = record_events (sorted_events ?st) [] []" by (simp add: reloaded_def Let_def)
    ultimately show ?thesis
      unfolding events using record_fresh_summaries [OF keyed_Nil _ sorted_events_ids(1) [OF events_keyed]] by simp
  qed
  moreover have "one_key (co_events ?t) r = one_key (co_events s) r" for r by (simp add: one_key_def same)
  moreover have "count_events (active_of w) (co_events ?t) \<le> limit" for w
    using count_by_lookup [OF ok(1) keyed same] ok(6) by simp
  ultimately show "queue_ok limit (queue_of ?t)"
    unfolding queue_ok_def queue_of_def using keyed ok(3-5) by simp
qed

definition service_ok :: "coordination_env \<Rightarrow> coordination \<Rightarrow> bool" where
  "service_ok env s = (inj (ce_uuid env) \<and> coherent env s \<and> queue_ok (queue_limit env) (queue_of s))"

lemma service_ok_start: "inj (ce_uuid env) \<Longrightarrow> service_ok env co_start"
  using coherent_start [of env]
  by (simp add: service_ok_def queue_ok_def queue_of_def co_start_def empty_state_def one_key_def count_events_def
      summary_of_def rebuild_counts highest_def)

lemma service_restarts: "service_ok env s \<Longrightarrow> co_step env BrokerRestart s = reloaded s"
  using restart_reloads [of env s] by (simp add: co_step_def service_ok_def coherent_def)

lemma service_ok_step:
  assumes "service_ok env s"
  shows "service_ok env (co_step env c s)"
proof -
  from assms have ok: "queue_ok (queue_limit env) (queue_of s)" "coherent env s" "inj (ce_uuid env)"
    by (simp_all add: service_ok_def)
  have "queue_ok (queue_limit env) (queue_of (co_step env c s))"
  proof (cases "c = BrokerRestart")
    case True
    then show ?thesis using reloaded_ok(1) [OF ok(1,2)] service_restarts [OF assms] by simp
  next
    case False
    from queue_reaches_ok [OF step_reaches [OF ok(1) False] ok(1)] show ?thesis .
  qed
  with ok coherent_step show ?thesis by (simp add: service_ok_def)
qed

interpretation service: stepping "co_step env" "service_ok env" for env
  by unfold_locales (rule service_ok_step)

lemma service_ok_run: "inj (ce_uuid env) \<Longrightarrow> service_ok env (co_run env cs co_start)"
  unfolding co_run_def by (rule service.run_inv [OF service_ok_start])

end
