(* ===== verification/Event_Guarantees.thy ===== *)
theory Event_Guarantees
  imports Event_Queue "HOL-Library.Code_Target_Nat"
begin

text \<open>
  What a controller can rely on when it reads worker events: queues stay bounded and well numbered,
  pinned events stay until they are resolved, summaries are exact, pages miss nothing, and a restart of
  the broker forgets nothing. The last section shows a pinned event that is lost without a resolution.
\<close>

subsection \<open>Bounded, well-numbered queues\<close>

lemma distinct_by_key:
  assumes "keyed se_eventId m" "one_key m (\<lambda>p p'. P p \<and> P p' \<and> f p = f p')"
  shows "distinct (map f (filter P (js_values m)))"
proof -
  have "distinct (map se_eventId (js_values m))"
    unfolding keyed_values [OF assms(1)] using keyed_wf [OF assms(1)] by (simp add: js_wf_def)
  then have "distinct (filter P (js_values m))" by (simp only: distinct_map distinct_filter)
  moreover have "inj_on f (set (filter P (js_values m)))"
  proof (rule inj_onI)
    fix x y
    assume xy: "x \<in> set (filter P (js_values m))" "y \<in> set (filter P (js_values m))" "f x = f y"
    then have "x \<in> set (js_values m)" "y \<in> set (js_values m)" "P x" "P y" by (simp_all only: set_filter mem_Collect_eq)
    then have gets: "js_get m (se_eventId x) = Some x" "js_get m (se_eventId y) = Some y" and P: "P x" "P y"
      by (simp_all only: keyed_value [OF assms(1)])
    have "se_eventId x = se_eventId y"
      by (rule assms(2) [unfolded one_key_def, rule_format, OF gets]) (intro conjI P xy(3))
    with gets show "x = y" by (metis option.inject)
  qed
  ultimately show ?thesis by (simp only: distinct_map)
qed

lemma one_key_mono: "one_key m r \<Longrightarrow> (\<And>p p'. r' p p' \<Longrightarrow> r p p') \<Longrightarrow> one_key m r'"
  unfolding one_key_def by blast

lemma queue_ok_ordinals:
  assumes "queue_ok limit ((m, sm), n)"
  shows "\<forall>e\<in>set (js_values m). se_ordinal e < n"
proof
  fix e
  assume "e \<in> set (js_values m)"
  then have "js_get m (se_eventId e) = Some e" by (simp only: keyed_value [OF queue_okD(1) [OF assms]])
  then show "se_ordinal e < n" by (rule queue_okD(2) [OF assms])
qed


lemma fold_Max: "fold (\<lambda>e k. max k (f e)) es n = Max (insert n (f ` set es))" for n :: nat
proof (induction es arbitrary: n)
  case (Cons a es)
  have "fold (\<lambda>e k. max k (f e)) (a # es) n = max (Max (insert n (f ` set es))) (f a)" by (simp add: fold_max Cons.IH)
  also have "\<dots> = Max (insert (f a) (insert n (f ` set es)))" by (subst (2) Max_insert) (auto simp: max.commute)
  finally show ?case by (simp only: list.set image_insert insert_commute)
qed simp

text \<open>
  The event summary of a worker, which is counted up and down as events are recorded, always equals
  a recount of the stored events: the number of unresolved pinned events and the highest ordinal of the
  worker, after any run with failed writes and restarts.
\<close>

theorem event_summaries_exact:
  assumes "inj (ce_uuid env)" and s: "s = co_run env cs co_start"
  shows "workerEventSummary s w
    = \<lparr>ws_unresolvedCount = int (length (filter isUnresolved (worker_events s w))),
       ws_lastOrdinal = Max (insert 0 (se_ordinal ` set (worker_events s w)))\<rparr>"
proof -
  have "queue_ok (queue_limit env) ((co_events s, co_summaries s), co_nextOrdinal s)"
    using service_ok_run [OF assms(1), of cs] by (simp add: service_ok_def s queue_of_def)
  then have "workerEventSummary s w = rebuildEventSummary (js_values (co_events s)) w"
    unfolding workerEventSummary_def by (rule queue_okD(7))
  moreover have "filter (unresolved_of w) (js_values (co_events s)) = filter isUnresolved (worker_events s w)"
    unfolding worker_events_def filter_filter by (rule filter_cong) (auto simp: unresolved_of_def)
  moreover have "insert 0 ((\<lambda>e. if se_workerId e = w then se_ordinal e else 0) ` set (js_values (co_events s)))
      = insert 0 (se_ordinal ` set (worker_events s w))"
    by (auto simp: worker_events_def)
  ultimately show ?thesis by (simp only: rebuild_counts highest_def fold_Max)
qed

subsection \<open>Pinned events\<close>

lemma run_keeps_pinned:
  assumes "service_ok env s" "js_get (co_events s) i = Some e" "isPinned e" "se_kind e \<noteq> EvProgress"
    and "\<And>c. c \<in> set cs \<Longrightarrow> i \<notin> resolved_ids c"
  shows "js_get (co_events (co_run env cs s)) i = Some e"
  using assms
proof (induction cs arbitrary: s)
  case (Cons c cs)
  from Cons.prems(1) have ok: "queue_ok (queue_limit env) (queue_of s)" "coherent env s" by (simp_all add: service_ok_def)
  have "js_get (co_events (co_step env c s)) i = Some e"
  proof (cases "c = BrokerRestart")
    case True
    with reloaded_ok(2) [OF ok] Cons.prems(2) show ?thesis by (simp add: service_restarts [OF Cons.prems(1)])
  next
    case False
    from queue_reaches_pinned [OF step_reaches [OF ok(1) False] ok(1)] Cons.prems show ?thesis
      by (simp add: queue_of_def)
  qed
  with Cons.IH [OF service_ok_step [OF Cons.prems(1)]] Cons.prems show ?case by (simp add: co_run_def)
qed (simp add: co_run_def)

text \<open>
  C8. A pinned worker event other than progress, that is an exception, a decision request or another
  event that requires intervention, stays in the queue exactly as it was stored, active and unresolved,
  until a call resolves it by its id: no submission, however full the queue, no lease change, no
  checkpoint, no failed write and no restart of the broker retires or alters it.
\<close>

theorem pinned_until_resolved:
  assumes "inj (ce_uuid env)" and s: "s = co_run env before co_start"
    and "js_get (co_events s) i = Some e" "isPinned e" "se_kind e \<noteq> EvProgress"
    and "\<forall>c\<in>set cs. i \<notin> resolved_ids c"
  shows "js_get (co_events (co_run env cs s)) i = Some e"
  using run_keeps_pinned [OF service_ok_run [OF assms(1), of before, folded s] assms(3-5)] assms(6) by blast

subsection \<open>Restarts\<close>

lemma rebuild_by_lookup:
  assumes "keyed se_eventId m" "keyed se_eventId m'" "js_get m' = js_get m"
  shows "rebuildEventSummary (js_values m') w = rebuildEventSummary (js_values m) w"
proof -
  have "set (js_values m') = set (js_values m)"
    using keyed_value [OF assms(1)] keyed_value [OF assms(2)] by (simp only: assms(3) set_eq_iff) simp
  then show ?thesis
    using count_by_lookup [OF assms(1,2), of "unresolved_of w"] assms(3)
    by (simp only: rebuild_counts highest_def fold_Max count_events_def)
qed


subsection \<open>Reading page by page\<close>

text \<open>A reader that follows \<^verbatim>\<open>nextCursor\<close> while there is more; the fuel bounds the number of pages.\<close>

fun read_pages ::
  "coordination_env \<Rightarrow> nat option \<Rightarrow> projection_filter \<Rightarrow> coordination \<Rightarrow> nat \<Rightarrow> nat \<Rightarrow> stored_event list option" where
  "read_pages env limit f s 0 cursor = None"
| "read_pages env limit f s (Suc fuel) cursor =
     (case fst (projectEvents env (Some cursor) limit f s) of
        Inl _ \<Rightarrow> None
      | Inr p \<Rightarrow> if ep_hasMore p then map_option ((@) (ep_events p)) (read_pages env limit f s fuel (ep_nextCursor p))
          else Some (ep_events p))"

lemma drop_after:
  assumes "sorted_wrt (\<lambda>x y. g x < (g y :: nat)) xs" "0 < l" "l \<le> length xs"
  shows "filter (\<lambda>x. g (last (take l xs)) < g x) xs = drop l xs"
proof -
  have last: "last (take l xs) = xs ! (l - 1)" using assms(2,3) by (cases l) (auto simp: take_Suc_conv_app_nth)
  have "filter (\<lambda>x. g (xs ! (l - 1)) < g x) (take l xs @ drop l xs) = drop l xs"
    unfolding filter_append
  proof -
    have "filter (\<lambda>x. g (xs ! (l - 1)) < g x) (take l xs) = []"
    proof (rule filter_False, intro ballI)
      fix x
      assume "x \<in> set (take l xs)"
      then obtain j where j: "x = xs ! j" "j < l" "j < length xs" by (auto simp: in_set_conv_nth)
      show "\<not> g (xs ! (l - 1)) < g x"
      proof (cases "j = l - 1")
        case False
        then have "j < l - 1" "l - 1 < length xs" using j(2) assms(2,3) by linarith+
        from sorted_wrt_nth_less [OF assms(1) this] show ?thesis using j(1) by simp
      qed (use j(1) in simp)
    qed
    moreover have "filter (\<lambda>x. g (xs ! (l - 1)) < g x) (drop l xs) = drop l xs"
    proof (rule filter_True, intro ballI)
      fix x
      assume "x \<in> set (drop l xs)"
      then obtain j where j: "x = xs ! (l + j)" "l + j < length xs" by (auto simp: in_set_conv_nth)
      then show "g (xs ! (l - 1)) < g x" using sorted_wrt_nth_less [OF assms(1), of "l - 1" "l + j"] assms(2) by simp
    qed
    ultimately show "filter (\<lambda>x. g (xs ! (l - 1)) < g x) (take l xs) @ filter (\<lambda>x. g (xs ! (l - 1)) < g x) (drop l xs) = drop l xs"
      by simp
  qed
  then show ?thesis by (simp add: last)
qed

lemma candidates_sorted:
  assumes "distinct (map se_ordinal (js_values (co_events s)))"
  shows "sorted_wrt (\<lambda>x y. se_ordinal x < se_ordinal y) (projection_candidates s cursor)"
proof -
  have key: "projection_candidates s cursor = sort_key se_ordinal (filter (\<lambda>e. cursor < se_ordinal e) (js_values (co_events s)))"
    unfolding projection_candidates_def by (rule js_sort_key) (auto simp: event_order_def)
  have "sorted (map se_ordinal (projection_candidates s cursor))" by (simp add: key)
  moreover have "distinct (map se_ordinal (filter (\<lambda>e. cursor < se_ordinal e) (js_values (co_events s))))"
    using assms by (rule distinct_map_filter)
  then have "distinct (map se_ordinal (projection_candidates s cursor))"
    unfolding key by (simp only: distinct_map set_sort distinct_sort)
  ultimately have "sorted_wrt (<) (map se_ordinal (projection_candidates s cursor))"
    by (simp add: strict_sorted_iff)
  then show ?thesis by (simp add: sorted_wrt_map)
qed

lemma candidates_after:
  assumes "cursor \<le> next"
  shows "projection_candidates s next = filter (\<lambda>e. next < se_ordinal e) (projection_candidates s cursor)"
proof -
  have key: "projection_candidates s c = sort_key se_ordinal (filter (\<lambda>e. c < se_ordinal e) (js_values (co_events s)))" for c
    unfolding projection_candidates_def by (rule js_sort_key) (auto simp: event_order_def)
  have "filter (\<lambda>e. next < se_ordinal e) (js_values (co_events s))
      = filter (\<lambda>e. next < se_ordinal e) (filter (\<lambda>e. cursor < se_ordinal e) (js_values (co_events s)))"
    unfolding filter_filter by (rule filter_cong) (use assms in auto)
  then show ?thesis unfolding key by (simp only: filter_sort)
qed

lemma pages_from:
  assumes sorted: "distinct (map se_ordinal (js_values (co_events s)))" and init: "co_initialized s"
    and l: "0 < projection_limit env limit"
    and fuel: "length (filter (projection_match f) (projection_candidates s cursor)) < fuel"
  shows "read_pages env limit f s fuel cursor = Some (filter (projection_match f) (projection_candidates s cursor))"
  using fuel
proof (induction fuel arbitrary: cursor)
  case (Suc fuel)
  let ?l = "projection_limit env limit" and ?cs = "projection_candidates s cursor"
  let ?ms = "filter (projection_match f) ?cs"
  let ?p = "projection_page cursor ?l f ?cs"
  have page: "ep_events ?p = take ?l ?ms" "ep_hasMore ?p = (?l < length ?ms)"
    "ep_hasMore ?p \<Longrightarrow> ep_nextCursor ?p = se_ordinal (last (take ?l ?ms))"
    by (auto simp: projection_page_def Let_def)
  have "fst (projectEvents env (Some cursor) limit f s) = Inr ?p"
    using init l page(1,2) by (auto simp: projectEvents_def co_assertReady_def op_defs)
  moreover have "read_pages env limit f s fuel (ep_nextCursor ?p) = Some (drop ?l ?ms)" if more: "ep_hasMore ?p"
  proof -
    let ?next = "se_ordinal (last (take ?l ?ms))"
    have ms: "sorted_wrt (\<lambda>x y. se_ordinal x < se_ordinal y) ?ms"
      using candidates_sorted [OF sorted, of cursor] by (rule sorted_wrt_filter)
    have "last (take ?l ?ms) \<in> set (take ?l ?ms)" using l more page(2) by (intro last_in_set) auto
    then have "last (take ?l ?ms) \<in> set ?cs" by (auto dest: in_set_takeD)
    then have "cursor \<le> ?next" by (auto simp: projection_candidates_def)
    then have "filter (projection_match f) (projection_candidates s ?next) = filter (\<lambda>e. ?next < se_ordinal e) ?ms"
      by (simp only: candidates_after filter_filter conj_commute)
    also have "\<dots> = drop ?l ?ms" by (rule drop_after [OF ms l]) (use more page(2) in simp)
    finally show ?thesis using Suc.IH [of ?next] Suc.prems l more page(2,3) by simp
  qed
  ultimately show ?case using page(1,2) by auto
qed simp

text \<open>
  C36. Reading worker events page by page misses nothing and repeats nothing: in any state the service
  can reach, a reader that starts at a cursor and follows the next cursor of each page while there is
  more ends, after at most one page more than there are stored events, with exactly the events above
  the cursor that match its filter, in the order of their ordinals, whatever page size it asks for.
\<close>

theorem event_pages_complete:
  assumes "inj (ce_uuid env)" and s: "s = co_run env cs co_start" and "co_initialized s"
    and "0 < ce_maxProjectionPageSize env"
  shows "read_pages env limit f s (Suc (length (co_events s))) cursor
      = Some (filter (projection_match f) (projection_candidates s cursor))
    \<and> sorted_wrt (\<lambda>x y. se_ordinal x < se_ordinal y) (projection_candidates s cursor)
    \<and> set (projection_candidates s cursor) = {e \<in> set (js_values (co_events s)). cursor < se_ordinal e}"
proof -
  have queue: "queue_ok (queue_limit env) ((co_events s, co_summaries s), co_nextOrdinal s)"
    using service_ok_run [OF assms(1), of cs] by (simp add: service_ok_def s queue_of_def)
  have ordinals: "distinct (map se_ordinal (js_values (co_events s)))"
    using distinct_by_key [OF queue_okD(1) [OF queue], of "\<lambda>_. True" se_ordinal] queue_okD(3) [OF queue] by simp
  have members: "set (projection_candidates s cursor) = {e \<in> set (js_values (co_events s)). cursor < se_ordinal e}"
    by (simp only: projection_candidates_def set_js_sort set_filter)
  have "length (filter (projection_match f) (projection_candidates s cursor)) \<le> length (co_events s)"
  proof -
    have "length (projection_candidates s cursor) = length (filter (\<lambda>e. cursor < se_ordinal e) (js_values (co_events s)))"
      unfolding projection_candidates_def by (subst js_sort_key [where k = se_ordinal]) (auto simp: event_order_def)
    also have "\<dots> \<le> length (js_values (co_events s))" by (rule length_filter_le)
    finally show ?thesis using order_trans [OF length_filter_le] by simp
  qed
  moreover have "0 < projection_limit env limit" using assms(4) by (simp add: projection_limit_def split: option.split)
  ultimately have "read_pages env limit f s (Suc (length (co_events s))) cursor
      = Some (filter (projection_match f) (projection_candidates s cursor))"
    by (intro pages_from [OF ordinals assms(3)]) (auto simp: less_Suc_eq_le)
  with candidates_sorted [OF ordinals] members show ?thesis by blast
qed

subsection \<open>A worker that reports\<close>

definition demo_event_call :: "nat \<Rightarrow> event_kind \<Rightarrow> bool \<Rightarrow> coordination_call" where
  "demo_event_call n kind pinned =
     CallSubmit \<lparr>eb_mutationId = replicate n CHR ''m'', eb_controller = demo_controller ''a'', eb_leaseToken = replicate 33 CHR ''t'',
       eb_event = \<lparr>sv_rawId = Some (replicate n CHR ''e''), sv_bytes = Some 10,
         sv_shape = Inr \<lparr>se_eventId = replicate n CHR ''e'', se_sequence = n, se_workerId = ''u'', se_taskId = ''t'',
           se_waveId = None, se_controllerLeaseVersion = 1, se_kind = kind, se_severity = SevInfo,
           se_interventionRequired = pinned, se_summary = ''s'', se_structuredFacts = None, se_evidenceRefs = [],
           se_changedAssumptions = [], se_recommendedAction = None, se_continuation = Continuing,
           se_checkpointCorrelationId = None, se_timestamp = 0\<rparr>\<rparr>\<rparr>"

definition demo_open :: "coordination_call list" where
  "demo_open = [BrokerRestart, CallRegister demo_register]"

definition demo_unfiltered :: projection_filter where
  "demo_unfiltered = \<lparr>pf_workerIds = None, pf_taskId = None, pf_waveId = None, pf_severities = None, pf_kinds = None,
     pf_intervention = Some AnyIntervention\<rparr>"

text \<open>An exception, a risk and progress against a queue of two: the risk is closed to make room, the exception is not.\<close>

definition demo_busy :: coordination where
  "demo_busy = co_run demo_service
     (demo_open @ [demo_event_call 1 EvException False, demo_event_call 2 EvRisk False, demo_event_call 3 EvProgress False]) co_start"

definition demo_view :: "coordination \<Rightarrow> (bool \<times> event_state list) \<times> int \<times> ident list" where
  "demo_view s = ((co_initialized s, map se_state (worker_events s ''u'')),
     ws_unresolvedCount (workerEventSummary s ''u''), map se_eventId (projection_candidates s 0))"

lemma demo_busy_view:
  "demo_view demo_busy = ((True, [EventActive, EventClosed, EventActive]), 1, [''e'', ''ee'', ''eee''])"
  by code_simp

lemmas demo_busy_facts = demo_busy_view [unfolded demo_view_def prod.inject, simplified]


theorem event_summaries_exact_witness:
  "workerEventSummary demo_busy ''u''
    = \<lparr>ws_unresolvedCount = int (length (filter isUnresolved (worker_events demo_busy ''u''))),
       ws_lastOrdinal = Max (insert 0 (se_ordinal ` set (worker_events demo_busy ''u'')))\<rparr>
   \<and> ws_unresolvedCount (workerEventSummary demo_busy ''u'') = 1"
  using event_summaries_exact [OF demo_fresh(1) demo_busy_def, of "''u''"] demo_busy_facts by blast


definition demo_raised :: coordination where
  "demo_raised = co_run demo_service (demo_open @ [demo_event_call 1 EvException False]) co_start"

theorem pinned_until_resolved_witness:
  "js_get (co_events (co_run demo_service [demo_event_call 2 EvRisk False, BrokerRestart, demo_event_call 3 EvProgress False] demo_raised)) ''e''
     = js_get (co_events demo_raised) ''e'' \<and> js_get (co_events demo_raised) ''e'' \<noteq> None"
proof -
  obtain e where e: "js_get (co_events demo_raised) ''e'' = Some e" and pinned: "isPinned e" "se_kind e \<noteq> EvProgress"
  proof -
    have "case js_get (co_events demo_raised) ''e'' of None \<Rightarrow> False | Some e \<Rightarrow> isPinned e \<and> se_kind e \<noteq> EvProgress"
      by code_simp
    with that show thesis by (cases "js_get (co_events demo_raised) ''e''") auto
  qed
  have "\<forall>c\<in>set [demo_event_call 2 EvRisk False, BrokerRestart, demo_event_call 3 EvProgress False]. ''e'' \<notin> resolved_ids c"
    by (simp add: demo_event_call_def resolved_ids_def)
  from pinned_until_resolved [OF demo_fresh(1) demo_raised_def e pinned this] e show ?thesis by simp
qed

theorem event_pages_complete_witness:
  "read_pages demo_service (Some 1) demo_unfiltered demo_busy (Suc (length (co_events demo_busy))) 0
     = Some (filter (projection_match demo_unfiltered) (projection_candidates demo_busy 0))
   \<and> map se_eventId (projection_candidates demo_busy 0) = [''e'', ''ee'', ''eee'']"
proof -
  have "0 < ce_maxProjectionPageSize demo_service" by (simp add: demo_service_def)
  with event_pages_complete [OF demo_fresh(1) demo_busy_def, of "Some 1" demo_unfiltered 0] demo_busy_facts
  show ?thesis by blast
qed

subsection \<open>Pinned progress\<close>

text \<open>
  Progress that requires intervention is pinned like the events above, but the next progress event of the
  worker supersedes it: it leaves the unresolved events although no call has resolved it.
\<close>

definition demo_stuck :: coordination where
  "demo_stuck = co_run demo_service (demo_open @ [demo_event_call 1 EvProgress True]) co_start"

theorem pinned_progress_lost:
  "demo_view demo_stuck = ((True, [EventActive]), 1, [''e''])
   \<and> demo_view (co_step demo_service (demo_event_call 2 EvProgress False) demo_stuck)
     = ((True, [EventSuperseded, EventActive]), 0, [''e'', ''ee''])"
  by code_simp

end
