(* ===== verification/Notification_Inbox.thy ===== *)
theory Notification_Inbox
  imports Worker_Ownership
begin

text \<open>
  The notification inbox of the orchestrators: the records of
  \<^verbatim>\<open>src/src/domain/orchestrator-notification.ts\<close>, the log of
  \<^verbatim>\<open>src/src/persistence/orchestrator-notification-log.ts\<close> and the store of
  \<^verbatim>\<open>src/src/persistence/orchestrator-notification-store.ts\<close>.

  The store serializes its mutations, so each is one operation; between the two records an operation may
  write, readers see the state after the first. A write may fail before the file changes, after the
  torn tail was cut off, in the middle of the line, or after the line was committed. A record that does
  not apply leaves the store unloaded, and every read is refused until it is loaded again, so what such
  a record has changed in memory is not kept.
\<close>

subsection \<open>Notifications and policy\<close>

datatype notification_kind =
  NkSettled | NkIntervention | NkAttention | NkDelivery | NkRisk | NkProgress | NkBudget | NkHandoff

datatype delivery_channel = ViaToolResult | ViaHook | ViaWake | ViaWait

record notification =
  on_id :: ident
  on_cursor :: nat
  on_controllerId :: ident
  on_kind :: notification_kind
  on_severity :: event_severity
  on_sessionId :: ident
  on_workerId :: "string option"
  on_taskId :: "string option"
  on_waveId :: "string option"
  on_completionTarget :: "nat option"
  on_summary :: string
  on_refs :: "string list"
  on_wakeEligible :: bool
  on_createdAt :: instant
  on_noticedAt :: "instant option"
  on_deliveredVia :: "delivery_channel list"
  on_acknowledgedAt :: "instant option"
  on_dedupeKey :: "string option"

datatype wake_mode = WakeAll | WakeSteeringOnly | WakeOff

record notification_policy =
  np_wake :: wake_mode
  np_quietMinutes :: nat
  np_maxWakesPerHour :: nat
  np_coalesceMs :: nat

definition DEFAULT_NOTIFICATION_POLICY :: notification_policy where
  "DEFAULT_NOTIFICATION_POLICY =
     \<lparr>np_wake = WakeSteeringOnly, np_quietMinutes = 10, np_maxWakesPerHour = 12, np_coalesceMs = 3000\<rparr>"

definition policy_valid :: "notification_policy \<Rightarrow> bool" where
  "policy_valid p =
     (1 \<le> np_quietMinutes p \<and> np_quietMinutes p \<le> 120 \<and> np_maxWakesPerHour p \<le> 120 \<and> np_coalesceMs p \<le> 60000)"

definition maxUnacknowledgedPerController :: nat where
  "maxUnacknowledgedPerController = 200"

definition drainPageMax :: int where
  "drainPageMax = 50"

definition wakeEligible :: "notification_kind \<Rightarrow> event_severity \<Rightarrow> notification_policy \<Rightarrow> bool \<Rightarrow> bool" where
  "wakeEligible kind severity policy modal =
     (np_wake policy \<noteq> WakeOff
      \<and> (np_wake policy = WakeAll \<or> severity = SevCritical
         \<or> kind \<in> {NkSettled, NkIntervention, NkDelivery, NkHandoff} \<or> kind = NkAttention \<and> modal))"

text \<open>What a producer hands in; the store adds id, cursor and marks.\<close>

record new_notification =
  nn_controllerId :: ident
  nn_kind :: notification_kind
  nn_severity :: event_severity
  nn_sessionId :: ident
  nn_workerId :: "string option"
  nn_taskId :: "string option"
  nn_waveId :: "string option"
  nn_completionTarget :: "nat option"
  nn_summary :: string
  nn_refs :: "string list"
  nn_wakeEligible :: bool
  nn_createdAt :: "instant option"
  nn_dedupeKey :: "string option"

subsection \<open>The log\<close>

datatype log_payload =
    LogAppend notification
  | LogReplace notification ident
  | LogAcknowledge ident nat instant "(ident list) option"
  | LogDeliver ident "ident list" delivery_channel instant
  | LogDrop ident "ident list" instant
  | LogNotice ident nat instant
  | LogPolicy ident notification_policy

record log_record =
  lr_recordId :: ident
  lr_persistedAt :: instant
  lr_payload :: log_payload

datatype log_line = LineUnreadable | LineForeign | LineRecord log_record

text \<open>The complete lines of the file, and whether an unterminated fragment follows them.\<close>

record log_file =
  lf_lines :: "log_line list"
  lf_tail :: bool

datatype inbox_error =
  InboxNotLoaded | InboxInvalid | InboxCorrupt | InboxVersionUnsupported | InboxDuplicateRecord | InboxIo | InboxNoticeBeyondHead

fun read_lines :: "ident list \<Rightarrow> log_line list \<Rightarrow> inbox_error + log_record list" where
  "read_lines seen [] = Inr []"
| "read_lines seen (LineUnreadable # ls) = Inl InboxCorrupt"
| "read_lines seen (LineForeign # ls) = Inl InboxVersionUnsupported"
| "read_lines seen (LineRecord r # ls) =
     (if lr_recordId r \<in> set seen then Inl InboxDuplicateRecord
      else case read_lines (lr_recordId r # seen) ls of Inl e \<Rightarrow> Inl e | Inr rs \<Rightarrow> Inr (r # rs))"

definition readNotificationLog :: "log_file \<Rightarrow> inbox_error + log_record list" where
  "readNotificationLog f = read_lines [] (lf_lines f)"

subsection \<open>One controller's inbox\<close>

record controller_inbox =
  nc_records :: "(ident, notification) js_map"
  nc_dedupeKeys :: "string list"
  nc_headCursor :: nat
  nc_lastNoticedCursor :: nat
  nc_lastNoticedAt :: "instant option"
  nc_totalDropped :: nat
  nc_droppedSinceAcknowledged :: nat
  nc_policy :: notification_policy

definition new_inbox :: controller_inbox where
  "new_inbox = \<lparr>nc_records = [], nc_dedupeKeys = [], nc_headCursor = 0, nc_lastNoticedCursor = 0,
     nc_lastNoticedAt = None, nc_totalDropped = 0, nc_droppedSinceAcknowledged = 0,
     nc_policy = DEFAULT_NOTIFICATION_POLICY\<rparr>"

definition unacknowledged :: "notification \<Rightarrow> bool" where
  "unacknowledged n = (on_acknowledgedAt n = None)"

definition by_cursor :: "notification \<Rightarrow> notification \<Rightarrow> int" where
  "by_cursor a b = int (on_cursor a) - int (on_cursor b)"

definition pending :: "controller_inbox \<Rightarrow> notification list" where
  "pending st = js_sort by_cursor (filter unacknowledged (js_values (nc_records st)))"

text \<open>Applying a record to a list of ids, one after the other; the first that does not apply refuses all.\<close>

fun apply_each :: "('i \<Rightarrow> 's \<Rightarrow> 's option) \<Rightarrow> 'i list \<Rightarrow> 's \<Rightarrow> 's option" where
  "apply_each f [] s = Some s"
| "apply_each f (i # is) s = (case f i s of None \<Rightarrow> None | Some t \<Rightarrow> apply_each f is t)"

definition records_without :: "notification \<Rightarrow> ident option \<Rightarrow> controller_inbox \<Rightarrow> (ident, notification) js_map option" where
  "records_without n replaces st =
     (case replaces of None \<Rightarrow> Some (nc_records st)
      | Some i \<Rightarrow>
          (case js_get (nc_records st) i of None \<Rightarrow> None
           | Some prior \<Rightarrow>
               if \<not> unacknowledged prior \<or> on_dedupeKey prior = None \<or> on_dedupeKey prior \<noteq> on_dedupeKey n then None
               else Some (js_delete (on_id prior) (nc_records st))))"

definition apply_added :: "notification \<Rightarrow> ident option \<Rightarrow> controller_inbox \<Rightarrow> controller_inbox option" where
  "apply_added n replaces st =
     (if on_cursor n \<noteq> nc_headCursor st + 1 \<or> js_has (nc_records st) (on_id n)
        \<or> on_acknowledgedAt n \<noteq> None \<or> on_noticedAt n \<noteq> None \<or> on_deliveredVia n \<noteq> [] then None
      else case records_without n replaces st of None \<Rightarrow> None
        | Some recs \<Rightarrow>
            if maxUnacknowledgedPerController \<le> length (pending (st\<lparr>nc_records := recs\<rparr>)) then None
            else Some (st\<lparr>nc_records := js_set (on_id n) n recs,
              nc_dedupeKeys := (case on_dedupeKey n of None \<Rightarrow> nc_dedupeKeys st | Some k \<Rightarrow> js_add k (nc_dedupeKeys st)),
              nc_headCursor := on_cursor n\<rparr>))"

definition acknowledge_one :: "instant \<Rightarrow> (notification \<Rightarrow> bool) \<Rightarrow> notification \<Rightarrow> notification" where
  "acknowledge_one stamp selected n = (if unacknowledged n \<and> selected n then n\<lparr>on_acknowledgedAt := Some stamp\<rparr> else n)"

definition acknowledged_by :: "nat \<Rightarrow> (ident list) option \<Rightarrow> notification \<Rightarrow> bool" where
  "acknowledged_by through ids n = (case ids of None \<Rightarrow> on_cursor n \<le> through | Some is \<Rightarrow> on_id n \<in> set is)"

definition apply_acknowledge :: "nat \<Rightarrow> instant \<Rightarrow> (ident list) option \<Rightarrow> controller_inbox \<Rightarrow> controller_inbox option" where
  "apply_acknowledge through stamp ids st =
     (if (case ids of None \<Rightarrow> True
          | Some is \<Rightarrow> list_all (\<lambda>i. case js_get (nc_records st) i of None \<Rightarrow> False | Some n \<Rightarrow> on_cursor n \<le> through) is)
      then Some (st\<lparr>nc_records := map (\<lambda>(k, n). (k, acknowledge_one stamp (acknowledged_by through ids) n)) (nc_records st),
             nc_droppedSinceAcknowledged := 0\<rparr>)
      else None)"

definition deliver_one :: "delivery_channel \<Rightarrow> instant \<Rightarrow> ident \<Rightarrow> controller_inbox \<Rightarrow> controller_inbox option" where
  "deliver_one via stamp i st =
     (case js_get (nc_records st) i of None \<Rightarrow> None
      | Some n \<Rightarrow>
          Some (st\<lparr>nc_records := js_set i
            (n\<lparr>on_deliveredVia := (if via \<in> set (on_deliveredVia n) then on_deliveredVia n else on_deliveredVia n @ [via]),
               on_noticedAt := (case on_noticedAt n of None \<Rightarrow> Some stamp | Some t \<Rightarrow> Some t)\<rparr>) (nc_records st)\<rparr>))"

definition drop_one :: "ident \<Rightarrow> controller_inbox \<Rightarrow> controller_inbox option" where
  "drop_one i st =
     (case js_get (nc_records st) i of None \<Rightarrow> None
      | Some n \<Rightarrow>
          if \<not> unacknowledged n then None
          else Some (st\<lparr>nc_records := js_delete i (nc_records st), nc_totalDropped := nc_totalDropped st + 1,
                 nc_droppedSinceAcknowledged := nc_droppedSinceAcknowledged st + 1\<rparr>))"

definition apply_change :: "log_payload \<Rightarrow> controller_inbox \<Rightarrow> controller_inbox option" where
  "apply_change p st =
     (case p of
        LogAppend n \<Rightarrow> apply_added n None st
      | LogReplace n i \<Rightarrow> apply_added n (Some i) st
      | LogAcknowledge _ through stamp ids \<Rightarrow> apply_acknowledge through stamp ids st
      | LogDeliver _ ids via stamp \<Rightarrow> apply_each (deliver_one via stamp) ids st
      | LogDrop _ ids _ \<Rightarrow> apply_each drop_one ids st
      | LogNotice _ cursor stamp \<Rightarrow>
          if nc_headCursor st < cursor then None
          else Some (st\<lparr>nc_lastNoticedCursor := cursor, nc_lastNoticedAt := Some stamp\<rparr>)
      | LogPolicy _ policy \<Rightarrow> Some (st\<lparr>nc_policy := policy\<rparr>))"

text \<open>Only the latest hundred acknowledged notifications are kept.\<close>

definition retire_old :: "controller_inbox \<Rightarrow> controller_inbox" where
  "retire_old st =
     st\<lparr>nc_records := fold js_delete
       (map on_id (drop 100 (js_sort (\<lambda>a b. by_cursor b a) (filter (\<lambda>n. \<not> unacknowledged n) (js_values (nc_records st))))))
       (nc_records st)\<rparr>"

definition apply_payload :: "log_payload \<Rightarrow> controller_inbox \<Rightarrow> controller_inbox option" where
  "apply_payload p st = map_option retire_old (apply_change p st)"

fun payload_controller :: "log_payload \<Rightarrow> ident" where
  "payload_controller (LogAppend n) = on_controllerId n"
| "payload_controller (LogReplace n _) = on_controllerId n"
| "payload_controller (LogAcknowledge c _ _ _) = c"
| "payload_controller (LogDeliver c _ _ _) = c"
| "payload_controller (LogDrop c _ _) = c"
| "payload_controller (LogNotice c _ _) = c"
| "payload_controller (LogPolicy c _) = c"

type_synonym inbox_states = "(ident, controller_inbox) js_map"

definition inbox_of :: "inbox_states \<Rightarrow> ident \<Rightarrow> controller_inbox" where
  "inbox_of states c = (case js_get states c of None \<Rightarrow> new_inbox | Some st \<Rightarrow> st)"

definition apply_record :: "log_record \<Rightarrow> inbox_states \<Rightarrow> inbox_states option" where
  "apply_record r states =
     (let c = payload_controller (lr_payload r)
      in map_option (\<lambda>st. js_set c st states) (apply_payload (lr_payload r) (inbox_of states c)))"

definition replay_log :: "log_record list \<Rightarrow> inbox_states option" where
  "replay_log rs = apply_each apply_record rs []"

subsection \<open>The store\<close>

datatype write_outcome = Written | FailedUnwritten | FailedTruncated | FailedTorn | FailedCommitted

record inbox_env =
  ne_clock :: "nat \<Rightarrow> instant"
  ne_uuid :: "nat \<Rightarrow> ident"
  ne_readable :: "nat \<Rightarrow> bool"
  ne_write :: "nat \<Rightarrow> write_outcome"
  ne_isUuid :: "string \<Rightarrow> bool"

record notification_store =
  ns_states :: inbox_states
  ns_recordIds :: "ident list"
  ns_loaded :: bool
  ns_crashTail :: "nat option"
  ns_file :: log_file
  ns_announced :: "ident list"
  ns_tick :: nat

type_synonym 'a inbox_op = "(notification_store, inbox_error, 'a) op"

definition inbox_ask :: "(nat \<Rightarrow> 'a) \<Rightarrow> 'a inbox_op" where
  "inbox_ask f s = (Inr (f (ns_tick s)), s\<lparr>ns_tick := Suc (ns_tick s)\<rparr>)"

definition requireLoaded :: "unit inbox_op" where
  "requireLoaded = op_bind (op_gets ns_loaded) (\<lambda>ok. if ok then op_return () else op_throw InboxNotLoaded)"

definition load_inbox :: "inbox_env \<Rightarrow> unit inbox_op" where
  "load_inbox env =
     op_then (op_modify (\<lambda>s. s\<lparr>ns_loaded := False\<rparr>))
     (op_bind (inbox_ask (ne_readable env)) (\<lambda>ok.
        if \<not> ok then op_throw InboxIo
        else op_bind (op_gets (\<lambda>s. readNotificationLog (ns_file s))) (\<lambda>log.
          case log of Inl e \<Rightarrow> op_throw e
          | Inr rs \<Rightarrow>
              (case replay_log rs of None \<Rightarrow> op_throw InboxCorrupt
               | Some states \<Rightarrow>
                   op_modify (\<lambda>s. s\<lparr>ns_states := states, ns_recordIds := map lr_recordId rs,
                     ns_crashTail := (if lf_tail (ns_file s) then Some (length (lf_lines (ns_file s))) else None),
                     ns_loaded := True\<rparr>)))))"

text \<open>Cutting a torn tail off, appending a line, and what a write leaves behind.\<close>

definition truncated :: "nat option \<Rightarrow> log_file \<Rightarrow> log_file" where
  "truncated crash f = (case crash of None \<Rightarrow> f | Some n \<Rightarrow> \<lparr>lf_lines = take n (lf_lines f), lf_tail = False\<rparr>)"

definition line_appended :: "log_record \<Rightarrow> log_file \<Rightarrow> log_file" where
  "line_appended r f =
     \<lparr>lf_lines = lf_lines f @ [if lf_tail f then LineUnreadable else LineRecord r], lf_tail = False\<rparr>"

fun after_write :: "write_outcome \<Rightarrow> nat option \<Rightarrow> log_record \<Rightarrow> log_file \<Rightarrow> log_file" where
  "after_write Written crash r f = line_appended r (truncated crash f)"
| "after_write FailedUnwritten crash r f = f"
| "after_write FailedTruncated crash r f = truncated crash f"
| "after_write FailedTorn crash r f = (truncated crash f)\<lparr>lf_tail := True\<rparr>"
| "after_write FailedCommitted crash r f = line_appended r (truncated crash f)"

definition install_record :: "log_record \<Rightarrow> unit inbox_op" where
  "install_record r =
     op_bind (op_gets (\<lambda>s. apply_record r (ns_states s))) (\<lambda>applied.
       case applied of
         None \<Rightarrow> op_then (op_modify (\<lambda>s. s\<lparr>ns_loaded := False\<rparr>)) (op_throw InboxCorrupt)
       | Some states \<Rightarrow> op_modify (\<lambda>s. s\<lparr>ns_states := states,
           ns_announced := ns_announced s @ [payload_controller (lr_payload r)]\<rparr>))"

definition log_commit :: "inbox_env \<Rightarrow> log_record \<Rightarrow> unit inbox_op" where
  "log_commit env r =
     op_bind (inbox_ask (ne_write env)) (\<lambda>outcome.
       op_then (op_modify (\<lambda>s. s\<lparr>ns_file := after_write outcome (ns_crashTail s) r (ns_file s)\<rparr>))
         (if outcome = Written
          then op_then (op_modify (\<lambda>s. s\<lparr>ns_crashTail := None, ns_recordIds := js_add (lr_recordId r) (ns_recordIds s)\<rparr>))
            (install_record r)
          else op_then (op_modify (\<lambda>s. s\<lparr>ns_loaded := False\<rparr>)) (op_throw InboxIo)))"

definition persist_payload :: "inbox_env \<Rightarrow> log_payload \<Rightarrow> unit inbox_op" where
  "persist_payload env p =
     op_bind (inbox_ask (ne_uuid env)) (\<lambda>i.
     op_bind (inbox_ask (ne_clock env)) (\<lambda>t.
       if \<not> ne_isUuid env i then op_throw InboxInvalid
       else op_bind (op_gets (\<lambda>s. i \<in> set (ns_recordIds s))) (\<lambda>known.
         if known then op_throw InboxDuplicateRecord
         else log_commit env \<lparr>lr_recordId = i, lr_persistedAt = t, lr_payload = p\<rparr>)))"

subsection \<open>Appending\<close>

datatype dedupe_mode = DedupeNone | DedupeOnce | DedupeReplace

datatype append_result = Appended | Replaced | Duplicate

record append_outcome =
  ao_outcome :: append_result
  ao_record :: "notification option"
  ao_dropped :: nat

definition new_valid :: "inbox_env \<Rightarrow> new_notification \<Rightarrow> bool" where
  "new_valid env inp =
     (nn_controllerId inp \<noteq> [] \<and> ne_isUuid env (nn_sessionId inp) \<and> nn_completionTarget inp \<noteq> Some 0
      \<and> bounded_text 512 (nn_summary inp) \<and> length (nn_refs inp) \<le> 8
      \<and> (case nn_dedupeKey inp of None \<Rightarrow> True | Some k \<Rightarrow> bounded_text 256 k))"

definition notification_of :: "new_notification \<Rightarrow> ident \<Rightarrow> nat \<Rightarrow> instant \<Rightarrow> notification" where
  "notification_of inp i cursor stamp =
     \<lparr>on_id = i, on_cursor = cursor, on_controllerId = nn_controllerId inp, on_kind = nn_kind inp,
      on_severity = nn_severity inp, on_sessionId = nn_sessionId inp, on_workerId = nn_workerId inp,
      on_taskId = nn_taskId inp, on_waveId = nn_waveId inp, on_completionTarget = nn_completionTarget inp,
      on_summary = nn_summary inp, on_refs = nn_refs inp, on_wakeEligible = nn_wakeEligible inp, on_createdAt = stamp,
      on_noticedAt = None, on_deliveredVia = [], on_acknowledgedAt = None, on_dedupeKey = nn_dedupeKey inp\<rparr>"

definition has_key :: "string option \<Rightarrow> notification \<Rightarrow> bool" where
  "has_key key n = (key \<noteq> None \<and> on_dedupeKey n = key)"

definition matching :: "string option \<Rightarrow> controller_inbox option \<Rightarrow> notification option" where
  "matching key st =
     (case st of None \<Rightarrow> None
      | Some st \<Rightarrow> find (\<lambda>n. has_key key n \<and> unacknowledged n) (js_values (nc_records st)))"

definition known_key :: "string option \<Rightarrow> controller_inbox option \<Rightarrow> bool" where
  "known_key key st = (case (st, key) of (Some st, Some k) \<Rightarrow> k \<in> set (nc_dedupeKeys st) | _ \<Rightarrow> False)"

definition retained_record :: "string option \<Rightarrow> controller_inbox option \<Rightarrow> notification option" where
  "retained_record key st =
     (case matching key st of Some n \<Rightarrow> Some n
      | None \<Rightarrow> (case st of None \<Rightarrow> None | Some st \<Rightarrow> find (has_key key) (js_values (nc_records st))))"

fun drop_rank :: "notification_kind \<Rightarrow> int" where
  "drop_rank NkProgress = 0"
| "drop_rank NkBudget = 1"
| "drop_rank NkRisk = 2"
| "drop_rank NkAttention = 3"
| "drop_rank NkHandoff = 4"
| "drop_rank NkSettled = 5"
| "drop_rank NkDelivery = 6"
| "drop_rank NkIntervention = 7"

definition drop_order :: "notification \<Rightarrow> notification \<Rightarrow> int" where
  "drop_order a b =
     (if drop_rank (on_kind a) \<noteq> drop_rank (on_kind b) then drop_rank (on_kind a) - drop_rank (on_kind b) else by_cursor a b)"

text \<open>The records to drop so that one more fits.\<close>

definition drop_candidates :: "controller_inbox \<Rightarrow> notification list" where
  "drop_candidates st =
     (let candidates = js_sort drop_order (pending st)
      in take (length candidates + 1 - maxUnacknowledgedPerController) candidates)"

definition make_space :: "inbox_env \<Rightarrow> ident \<Rightarrow> controller_inbox option \<Rightarrow> ident option \<Rightarrow> nat inbox_op" where
  "make_space env c st replaces =
     (case (st, replaces) of
        (Some st, None) \<Rightarrow>
          (let ids = map on_id (drop_candidates st)
           in if ids = [] then op_return 0
              else op_bind (inbox_ask (ne_clock env)) (\<lambda>stamp.
                op_then (persist_payload env (LogDrop c ids stamp)) (op_return (length ids))))
      | _ \<Rightarrow> op_return 0)"

definition add_notification ::
  "inbox_env \<Rightarrow> new_notification \<Rightarrow> ident option \<Rightarrow> controller_inbox option \<Rightarrow> append_outcome inbox_op" where
  "add_notification env inp replaces st =
     op_bind (inbox_ask (ne_uuid env)) (\<lambda>i.
     op_bind (case nn_createdAt inp of Some t \<Rightarrow> op_return t | None \<Rightarrow> inbox_ask (ne_clock env)) (\<lambda>stamp.
       let n = notification_of inp i ((case st of None \<Rightarrow> 0 | Some st \<Rightarrow> nc_headCursor st) + 1) stamp
       in if \<not> ne_isUuid env i then op_throw InboxInvalid
          else if (case st of None \<Rightarrow> False | Some st \<Rightarrow> js_has (nc_records st) i) then op_throw InboxCorrupt
          else op_bind (make_space env (nn_controllerId inp) st replaces) (\<lambda>dropped.
            op_then (persist_payload env (case replaces of None \<Rightarrow> LogAppend n | Some r \<Rightarrow> LogReplace n r))
              (op_return \<lparr>ao_outcome = (if replaces = None then Appended else Replaced), ao_record = Some n,
                 ao_dropped = dropped\<rparr>))))"

definition append_notification :: "inbox_env \<Rightarrow> new_notification \<Rightarrow> dedupe_mode \<Rightarrow> append_outcome inbox_op" where
  "append_notification env inp dedupe =
     (if \<not> new_valid env inp then op_throw InboxInvalid
      else op_then requireLoaded
        (op_bind (op_gets (\<lambda>s. js_get (ns_states s) (nn_controllerId inp))) (\<lambda>st.
           if dedupe = DedupeOnce \<and> known_key (nn_dedupeKey inp) st
           then op_return \<lparr>ao_outcome = Duplicate, ao_record = retained_record (nn_dedupeKey inp) st, ao_dropped = 0\<rparr>
           else add_notification env inp
             (if dedupe = DedupeReplace then map_option on_id (matching (nn_dedupeKey inp) st) else None) st)))"

subsection \<open>Reading, acknowledging and marking\<close>

record pending_filter =
  qf_kinds :: "(notification_kind list) option"
  qf_severities :: "(event_severity list) option"

definition page_match :: "pending_filter \<Rightarrow> nat \<Rightarrow> notification \<Rightarrow> bool" where
  "page_match f after n =
     (after < on_cursor n \<and> (case qf_kinds f of None \<Rightarrow> True | Some ks \<Rightarrow> on_kind n \<in> set ks)
      \<and> (case qf_severities f of None \<Rightarrow> True | Some vs \<Rightarrow> on_severity n \<in> set vs))"

definition pending_page :: "controller_inbox option \<Rightarrow> nat \<Rightarrow> int \<Rightarrow> pending_filter \<Rightarrow> notification list" where
  "pending_page st after limit f =
     (case st of None \<Rightarrow> []
      | Some st \<Rightarrow> take (nat (min drainPageMax limit)) (filter (page_match f after) (pending st)))"

definition listPending :: "ident \<Rightarrow> nat \<Rightarrow> int \<Rightarrow> pending_filter \<Rightarrow> (notification list) inbox_op" where
  "listPending c after limit f =
     op_then requireLoaded (op_gets (\<lambda>s. pending_page (js_get (ns_states s) c) after limit f))"

definition pendingCount :: "ident \<Rightarrow> nat inbox_op" where
  "pendingCount c =
     op_then requireLoaded (op_gets (\<lambda>s. case js_get (ns_states s) c of None \<Rightarrow> 0 | Some st \<Rightarrow> length (pending st)))"

definition headCursor :: "ident \<Rightarrow> nat inbox_op" where
  "headCursor c = op_then requireLoaded (op_gets (\<lambda>s. nc_headCursor (inbox_of (ns_states s) c)))"

definition acknowledgeThrough :: "inbox_env \<Rightarrow> ident \<Rightarrow> nat \<Rightarrow> nat inbox_op" where
  "acknowledgeThrough env c cursor =
     (if c = [] then op_throw InboxInvalid
      else op_then requireLoaded
        (op_bind (op_gets (\<lambda>s. inbox_of (ns_states s) c)) (\<lambda>st.
           let changed = length (filter (\<lambda>n. on_cursor n \<le> cursor) (pending st))
           in op_then (op_when (0 < changed \<or> 0 < nc_droppedSinceAcknowledged st)
                (op_bind (inbox_ask (ne_clock env)) (\<lambda>stamp. persist_payload env (LogAcknowledge c cursor stamp None))))
                (op_return changed))))"

definition acknowledgeIds :: "inbox_env \<Rightarrow> ident \<Rightarrow> ident list \<Rightarrow> nat inbox_op" where
  "acknowledgeIds env c ids =
     (if \<not> list_all (ne_isUuid env) ids then op_throw InboxInvalid
      else op_then requireLoaded
        (op_bind (op_gets (\<lambda>s. filter (\<lambda>n. on_id n \<in> set ids) (pending (inbox_of (ns_states s) c)))) (\<lambda>ns.
           op_then (op_when (ns \<noteq> [])
             (op_bind (inbox_ask (ne_clock env)) (\<lambda>stamp.
                persist_payload env (LogAcknowledge c (Max (set (map on_cursor ns))) stamp (Some (map on_id ns))))))
             (op_return (length ns)))))"

definition acknowledge_found :: "inbox_env \<Rightarrow> ident \<Rightarrow> notification \<Rightarrow> (notification option) inbox_op" where
  "acknowledge_found env c n =
     op_bind (inbox_ask (ne_clock env)) (\<lambda>stamp.
     op_bind (op_gets (\<lambda>s. js_get (nc_records (inbox_of (ns_states s) c)) (on_id n))) (\<lambda>current.
       op_then (persist_payload env (LogAcknowledge c (on_cursor n) stamp (Some [on_id n])))
         (op_return (map_option (\<lambda>m. m\<lparr>on_acknowledgedAt := Some stamp\<rparr>) current))))"

definition acknowledgeByDedupeKey ::
  "inbox_env \<Rightarrow> ident \<Rightarrow> string \<Rightarrow> delivery_channel \<Rightarrow> (notification option) inbox_op" where
  "acknowledgeByDedupeKey env c key via =
     op_then requireLoaded
       (op_bind (op_gets (\<lambda>s. find (\<lambda>n. on_dedupeKey n = Some key) (pending (inbox_of (ns_states s) c)))) (\<lambda>found.
          case found of None \<Rightarrow> op_return None
          | Some n \<Rightarrow>
              op_bind (inbox_ask (ne_clock env)) (\<lambda>stamp.
                op_then (persist_payload env (LogDeliver c [on_id n] via stamp)) (acknowledge_found env c n))))"

definition markDelivered :: "inbox_env \<Rightarrow> ident \<Rightarrow> ident list \<Rightarrow> delivery_channel \<Rightarrow> unit inbox_op" where
  "markDelivered env c ids via =
     op_then requireLoaded
       (op_bind (op_gets (\<lambda>s. map on_id (filter (\<lambda>n. on_id n \<in> set ids
            \<and> (via \<notin> set (on_deliveredVia n) \<or> on_noticedAt n = None)) (js_values (nc_records (inbox_of (ns_states s) c)))))) (\<lambda>changed.
          op_when (changed \<noteq> [])
            (op_bind (inbox_ask (ne_clock env)) (\<lambda>stamp. persist_payload env (LogDeliver c changed via stamp)))))"

definition markNoticed :: "inbox_env \<Rightarrow> ident \<Rightarrow> nat \<Rightarrow> unit inbox_op" where
  "markNoticed env c cursor =
     (if c = [] then op_throw InboxInvalid
      else op_then requireLoaded
        (op_bind (headCursor c) (\<lambda>head.
           if head < cursor then op_throw InboxNoticeBeyondHead
           else op_bind (inbox_ask (ne_clock env)) (\<lambda>stamp. persist_payload env (LogNotice c cursor stamp)))))"

definition noticeState :: "ident \<Rightarrow> (nat \<times> instant option \<times> nat) inbox_op" where
  "noticeState c = op_then requireLoaded (op_gets (\<lambda>s. let st = inbox_of (ns_states s) c
     in (nc_lastNoticedCursor st, nc_lastNoticedAt st, nc_headCursor st)))"

definition dropped_counts :: "ident \<Rightarrow> (nat \<times> nat) inbox_op" where
  "dropped_counts c = op_then requireLoaded (op_gets (\<lambda>s. let st = inbox_of (ns_states s) c
     in (nc_totalDropped st, nc_droppedSinceAcknowledged st)))"

definition inbox_policy :: "ident \<Rightarrow> notification_policy inbox_op" where
  "inbox_policy c = op_then requireLoaded (op_gets (\<lambda>s. nc_policy (inbox_of (ns_states s) c)))"

definition setPolicy :: "inbox_env \<Rightarrow> ident \<Rightarrow> notification_policy \<Rightarrow> notification_policy inbox_op" where
  "setPolicy env c policy =
     (if c = [] \<or> \<not> policy_valid policy then op_throw InboxInvalid
      else op_then requireLoaded (op_then (persist_payload env (LogPolicy c policy)) (op_return policy)))"

definition controllers :: "(ident list) inbox_op" where
  "controllers = op_then requireLoaded (op_gets (\<lambda>s. sort (js_keys (ns_states s))))"

end
