(* ===== verification/Inbox_Invariants.thy ===== *)
theory Inbox_Invariants
  imports Notification_Inbox
begin

text \<open>
  Invariants of the notification inbox. \<open>inbox_wf\<close> bounds one controller's inbox and numbers its
  notifications; every record of the log keeps it. \<open>store_over\<close> says that the file holds records that
  replay, after given ones, and that a loaded store has their replay in memory; every call keeps it,
  wherever its writes fail. \<open>still_pending\<close> follows one notification through the records of the log.
\<close>

subsection \<open>One inbox\<close>

abbreviation inbox_values :: "controller_inbox \<Rightarrow> notification list" where
  "inbox_values st \<equiv> js_values (nc_records st)"

definition acknowledged_count :: "controller_inbox \<Rightarrow> nat" where
  "acknowledged_count st = length (filter (\<lambda>n. \<not> unacknowledged n) (inbox_values st))"

definition sound_message :: "ident \<Rightarrow> controller_inbox \<Rightarrow> notification \<Rightarrow> bool" where
  "sound_message c st n =
     (0 < on_cursor n \<and> on_cursor n \<le> nc_headCursor st \<and> on_controllerId n = c
      \<and> (\<forall>k. on_dedupeKey n = Some k \<longrightarrow> k \<in> set (nc_dedupeKeys st)))"

definition inbox_core :: "ident \<Rightarrow> controller_inbox \<Rightarrow> bool" where
  "inbox_core c st =
     (keyed on_id (nc_records st) \<and> distinct (map on_cursor (inbox_values st))
      \<and> list_all (sound_message c st) (inbox_values st)
      \<and> length (filter unacknowledged (inbox_values st)) \<le> maxUnacknowledgedPerController
      \<and> nc_lastNoticedCursor st \<le> nc_headCursor st)"

lemma inbox_coreD:
  assumes "inbox_core c st"
  shows "keyed on_id (nc_records st)" "distinct (map on_cursor (inbox_values st))"
    "list_all (sound_message c st) (inbox_values st)"
    "length (filter unacknowledged (inbox_values st)) \<le> maxUnacknowledgedPerController"
    "nc_lastNoticedCursor st \<le> nc_headCursor st"
  using assms by (simp_all add: inbox_core_def)

definition inbox_wf :: "ident \<Rightarrow> controller_inbox \<Rightarrow> bool" where
  "inbox_wf c st = (inbox_core c st \<and> acknowledged_count st \<le> 100)"

lemma new_inbox_wf [simp]: "inbox_wf c new_inbox"
  by (simp add: inbox_wf_def inbox_core_def new_inbox_def acknowledged_count_def)

lemma pending_sorted: "pending st = sort_key on_cursor (filter unacknowledged (inbox_values st))"
  unfolding pending_def by (rule js_sort_key) (auto simp: by_cursor_def)

lemma set_pending: "set (pending st) = {n \<in> set (inbox_values st). unacknowledged n}"
  by (simp only: pending_sorted set_sort set_filter)

lemma length_pending [simp]: "length (pending st) = length (filter unacknowledged (inbox_values st))"
  by (simp add: pending_sorted)

lemma core_pending_ids:
  assumes "inbox_core c st"
  shows "distinct (map on_id (pending st))"
proof -
  have "distinct (map on_id (inbox_values st))"
    using assms unfolding inbox_core_def by (metis keyed_values keyed_wf js_wf_def)
  then have "distinct (map on_id (filter unacknowledged (inbox_values st)))" by (rule distinct_map_filter)
  then show ?thesis unfolding pending_sorted by (simp only: distinct_map set_sort distinct_sort)
qed

text \<open>Every change keeps some records, alters marks of some, or adds one with the next cursor.\<close>

definition same_message :: "notification \<Rightarrow> notification \<Rightarrow> bool" where
  "same_message m n =
     (m\<lparr>on_noticedAt := None, on_deliveredVia := [], on_acknowledgedAt := None\<rparr>
      = n\<lparr>on_noticedAt := None, on_deliveredVia := [], on_acknowledgedAt := None\<rparr>)"

lemma same_messageD:
  assumes "same_message m n"
  shows "on_id m = on_id n" "on_cursor m = on_cursor n" "on_controllerId m = on_controllerId n"
    "on_dedupeKey m = on_dedupeKey n"
proof -
  let ?f = "\<lambda>n. n\<lparr>on_noticedAt := None, on_deliveredVia := [], on_acknowledgedAt := None\<rparr>"
  have eq: "?f m = ?f n" using assms by (simp add: same_message_def)
  show "on_id m = on_id n" using arg_cong [OF eq, of on_id] by simp
  show "on_cursor m = on_cursor n" using arg_cong [OF eq, of on_cursor] by simp
  show "on_controllerId m = on_controllerId n" using arg_cong [OF eq, of on_controllerId] by simp
  show "on_dedupeKey m = on_dedupeKey n" using arg_cong [OF eq, of on_dedupeKey] by simp
qed

lemma same_message_refl [simp]: "same_message n n"
  by (simp add: same_message_def)

lemma same_message_trans: "same_message l m \<Longrightarrow> same_message m n \<Longrightarrow> same_message l n"
  by (simp add: same_message_def)

definition marks_only :: "(notification \<Rightarrow> notification) \<Rightarrow> bool" where
  "marks_only f = (\<forall>n. same_message (f n) n \<and> (unacknowledged (f n) \<longrightarrow> unacknowledged n))"

definition mark_records :: "(notification \<Rightarrow> notification) \<Rightarrow> (ident, notification) js_map \<Rightarrow> (ident, notification) js_map" where
  "mark_records f recs = map (\<lambda>(k, n). (k, f n)) recs"

lemma mark_records_values: "js_values (mark_records f recs) = map f (js_values recs)"
  by (simp add: mark_records_def split_def)

lemma mark_records_keys: "js_keys (mark_records f recs) = js_keys recs"
  by (simp add: mark_records_def split_def)

lemma mark_records_get: "js_get (mark_records f recs) i = map_option f (js_get recs i)"
  by (induction recs) (auto simp: mark_records_def)

lemma core_marked:
  assumes "inbox_core c st" "marks_only f"
  shows "inbox_core c (st\<lparr>nc_records := mark_records f (nc_records st)\<rparr>)"
  unfolding inbox_core_def
proof (intro conjI)
  let ?st = "st\<lparr>nc_records := mark_records f (nc_records st)\<rparr>"
  note core = inbox_coreD [OF assms(1)]
  have f: "on_id (f n) = on_id n" "on_cursor (f n) = on_cursor n" "on_controllerId (f n) = on_controllerId n"
    "on_dedupeKey (f n) = on_dedupeKey n" "unacknowledged (f n) \<Longrightarrow> unacknowledged n" for n
    using assms(2) same_messageD [of "f n" n] by (auto simp: marks_only_def)
  have vals: "inbox_values ?st = map f (inbox_values st)" 
    using mark_records_values [of f "nc_records st"] by simp
  have "list_all (\<lambda>(k, v). on_id v = k) (mark_records f (nc_records st))"
    using core(1) by (auto simp: keyed_def list_all_iff mark_records_def f)
  then show "keyed on_id (nc_records ?st)"
    using core(1) mark_records_keys [of f "nc_records st"] by (simp only: keyed_def js_wf_def) simp
  show "distinct (map on_cursor (inbox_values ?st))" using core(2) unfolding vals by (simp add: comp_def f)
  show "list_all (sound_message c ?st) (inbox_values ?st)"
    using core(3) unfolding vals by (auto simp: list_all_iff sound_message_def f)
  have "length (filter unacknowledged (map f ns)) \<le> length (filter unacknowledged ns)" for ns
    by (induction ns) (auto dest: f(5))
  with core(4) show "length (filter unacknowledged (inbox_values ?st)) \<le> maxUnacknowledgedPerController"
    unfolding vals by (rule order_trans [rotated])
  show "nc_lastNoticedCursor ?st \<le> nc_headCursor ?st" using core(5) by simp
qed

lemma filter_count_le: "length (filter Q (js_values (filter P m))) \<le> length (filter Q (js_values m))"
  by (induction m) auto

lemma core_filtered:
  assumes "inbox_core c st"
  shows "inbox_core c (st\<lparr>nc_records := filter P (nc_records st)\<rparr>)"
  unfolding inbox_core_def
proof (intro conjI)
  let ?st = "st\<lparr>nc_records := filter P (nc_records st)\<rparr>"
  note core = inbox_coreD [OF assms(1)]
  show "keyed on_id (nc_records ?st)"
    using core(1) by (auto simp: keyed_def js_wf_def list_all_iff distinct_map_filter)
  have "map on_cursor (js_values (filter P m)) = map (on_cursor \<circ> snd) (filter P m)" for m by simp
  then show "distinct (map on_cursor (inbox_values ?st))" using core(2) by (simp add: distinct_map_filter)
  show "list_all (sound_message c ?st) (inbox_values ?st)"
    using core(3) by (auto simp: list_all_iff sound_message_def)
  show "length (filter unacknowledged (inbox_values ?st)) \<le> maxUnacknowledgedPerController"
    using order_trans [OF filter_count_le core(4)] by simp
  show "nc_lastNoticedCursor ?st \<le> nc_headCursor ?st" using core(5) by simp
qed

lemma acknowledged_filtered: "acknowledged_count (st\<lparr>nc_records := filter P (nc_records st)\<rparr>) \<le> acknowledged_count st"
  using filter_count_le [of "\<lambda>n. \<not> unacknowledged n" P "nc_records st"] by (simp add: acknowledged_count_def)

subsection \<open>Retiring acknowledged notifications\<close>

lemma fold_delete: "fold js_delete is m = filter (\<lambda>p. fst p \<notin> set is) m"
  by (induction "is" arbitrary: m) (auto simp: AList.delete_eq intro!: filter_cong)

definition newest_first :: "controller_inbox \<Rightarrow> notification list" where
  "newest_first st = js_sort (\<lambda>a b. by_cursor b a) (filter (\<lambda>n. \<not> unacknowledged n) (inbox_values st))"

lemma newest_first_sorted:
  "newest_first st = sort_key (\<lambda>n. - int (on_cursor n)) (filter (\<lambda>n. \<not> unacknowledged n) (inbox_values st))"
  unfolding newest_first_def by (rule js_sort_key) (auto simp: by_cursor_def)

lemma retire_old_filter:
  "retire_old st = st\<lparr>nc_records := filter (\<lambda>p. fst p \<notin> on_id ` set (drop 100 (newest_first st))) (nc_records st)\<rparr>"
  by (simp add: retire_old_def fold_delete newest_first_def)

lemma retire_old_same [simp]: "acknowledged_count st \<le> 100 \<Longrightarrow> retire_old st = st"
  by (simp add: retire_old_filter newest_first_sorted acknowledged_count_def)

lemma filter_values:
  "keyed on_id recs \<Longrightarrow> js_values (filter (\<lambda>p. Q (fst p)) recs) = filter (\<lambda>n. Q (on_id n)) (js_values recs)"
  by (induction recs) (auto simp: keyed_def js_wf_def)

lemma retire_old_wf:
  assumes "inbox_core c st"
  shows "inbox_wf c (retire_old st)"
proof -
  let ?gone = "on_id ` set (drop 100 (newest_first st))"
  let ?acked = "filter (\<lambda>n. \<not> unacknowledged n) (inbox_values st)"
  have "filter (\<lambda>n. \<not> unacknowledged n) (inbox_values (retire_old st)) = filter (\<lambda>n. on_id n \<notin> ?gone) ?acked"
    using filter_values [OF inbox_coreD(1) [OF assms], of "\<lambda>i. i \<notin> ?gone"]
    by (simp add: retire_old_filter filter_filter conj_commute)
  also have "length \<dots> = length (filter (\<lambda>n. on_id n \<notin> ?gone) (newest_first st))"
    by (simp add: newest_first_sorted filter_sort)
  also have "\<dots> = length (filter (\<lambda>n. on_id n \<notin> ?gone) (take 100 (newest_first st) @ drop 100 (newest_first st)))"
    by (simp only: append_take_drop_id)
  also have "\<dots> \<le> 100"
  proof -
    have "filter (\<lambda>n. on_id n \<notin> ?gone) (drop 100 (newest_first st)) = []" by (auto simp: filter_empty_conv)
    moreover have "length (filter (\<lambda>n. on_id n \<notin> ?gone) (take 100 (newest_first st))) \<le> 100"
      using length_filter_le [of _ "take 100 (newest_first st)"] order_trans by fastforce
    ultimately show ?thesis by (simp only: filter_append append_Nil2)
  qed
  finally have "acknowledged_count (retire_old st) \<le> 100" by (simp add: acknowledged_count_def)
  moreover have "inbox_core c (retire_old st)" unfolding retire_old_filter by (rule core_filtered [OF assms])
  ultimately show ?thesis by (simp add: inbox_wf_def)
qed

subsection \<open>Applying a record\<close>

lemma apply_each_inv:
  assumes "\<And>i s t. I s \<Longrightarrow> f i s = Some t \<Longrightarrow> I t" "apply_each f is s = Some t" "I s"
  shows "I t"
  using assms(2,3)
proof (induction "is" arbitrary: s)
  case (Cons i "is")
  then obtain u where "f i s = Some u" "apply_each f is u = Some t" by (auto split: option.splits)
  with Cons.IH assms(1) Cons.prems(2) show ?case by blast
qed simp

lemma apply_each_append:
  "apply_each f (is @ js) s = (case apply_each f is s of None \<Rightarrow> None | Some t \<Rightarrow> apply_each f js t)"
  by (induction "is" arbitrary: s) (auto split: option.splits)

lemma set_marks:
  assumes "keyed on_id recs" "js_get recs i = Some n"
  shows "js_set i (f n) recs = mark_records (\<lambda>m. if on_id m = i then f m else m) recs"
  using assms
proof (induction recs)
  case (Cons p recs)
  obtain k m where p: "p = (k, m)" by fastforce
  from Cons.prems(1) have k: "keyed on_id recs" "on_id m = k" "k \<notin> set (js_keys recs)"
    by (auto simp: keyed_def js_wf_def p)
  show ?case
  proof (cases "k = i")
    case True
    with Cons.prems k have n: "n = m" by (simp add: p)
    have "mark_records (\<lambda>m. if on_id m = i then f m else m) recs = recs"
      unfolding mark_records_def by (rule map_idI) (use k True in \<open>force simp: keyed_def list_all_iff\<close>)
    with True k n show ?thesis by (simp add: p mark_records_def)
  next
    case False
    with Cons k show ?thesis by (simp add: p mark_records_def)
  qed
qed simp

definition deliver_mark :: "delivery_channel \<Rightarrow> instant \<Rightarrow> notification \<Rightarrow> notification" where
  "deliver_mark via t n =
     n\<lparr>on_deliveredVia := (if via \<in> set (on_deliveredVia n) then on_deliveredVia n else on_deliveredVia n @ [via]),
       on_noticedAt := (case on_noticedAt n of None \<Rightarrow> Some t | Some u \<Rightarrow> Some u)\<rparr>"

lemma marks_only_deliver: "marks_only (\<lambda>m. if on_id m = i then deliver_mark via t m else m)"
  by (auto simp: marks_only_def same_message_def deliver_mark_def unacknowledged_def)

lemma marks_only_acknowledge: "marks_only (acknowledge_one t P)"
  by (auto simp: marks_only_def same_message_def acknowledge_one_def unacknowledged_def)

lemma deliver_one_marks:
  assumes "inbox_core c st" "deliver_one via t i st = Some st'"
  shows "st' = st\<lparr>nc_records := mark_records (\<lambda>m. if on_id m = i then deliver_mark via t m else m) (nc_records st)\<rparr>"
proof -
  from assms(2) obtain n where n: "js_get (nc_records st) i = Some n"
    and st': "st' = st\<lparr>nc_records := js_set i (deliver_mark via t n) (nc_records st)\<rparr>"
    by (auto simp: deliver_one_def deliver_mark_def split: option.splits)
  show ?thesis unfolding st' set_marks [OF inbox_coreD(1) [OF assms(1)] n] ..
qed

lemma core_same:
  assumes "inbox_core c st" "nc_records st' = nc_records st" "nc_dedupeKeys st' = nc_dedupeKeys st"
    "nc_headCursor st' = nc_headCursor st" "nc_lastNoticedCursor st' \<le> nc_headCursor st'"
  shows "inbox_core c st'"
proof -
  have "sound_message c st' = sound_message c st" by (rule ext) (simp add: sound_message_def assms)
  then show ?thesis using assms by (simp add: inbox_core_def)
qed

lemma js_delete_filter: "js_delete i m = filter (\<lambda>p. fst p \<noteq> i) m"
  unfolding AList.delete_eq by (rule filter_cong) auto

lemma core_deliver:
  assumes "inbox_core c st" "deliver_one via t i st = Some st'"
  shows "inbox_core c st'"
  unfolding deliver_one_marks [OF assms] by (rule core_marked [OF assms(1) marks_only_deliver])

lemma drop_one_filter:
  assumes "drop_one i st = Some st'"
  shows "nc_records st' = filter (\<lambda>p. fst p \<noteq> i) (nc_records st)" "nc_dedupeKeys st' = nc_dedupeKeys st"
    "nc_headCursor st' = nc_headCursor st" "nc_lastNoticedCursor st' = nc_lastNoticedCursor st"
proof -
  from assms obtain n where "js_get (nc_records st) i = Some n" "unacknowledged n"
    by (cases "js_get (nc_records st) i") (simp_all add: drop_one_def split: if_splits)
  with assms have "st' = st\<lparr>nc_records := filter (\<lambda>p. fst p \<noteq> i) (nc_records st), nc_totalDropped := nc_totalDropped st + 1,
      nc_droppedSinceAcknowledged := nc_droppedSinceAcknowledged st + 1\<rparr>"
    by (simp add: drop_one_def js_delete_filter)
  then show "nc_records st' = filter (\<lambda>p. fst p \<noteq> i) (nc_records st)" "nc_dedupeKeys st' = nc_dedupeKeys st"
    "nc_headCursor st' = nc_headCursor st" "nc_lastNoticedCursor st' = nc_lastNoticedCursor st"
    by simp_all
qed

lemma core_drop:
  assumes "inbox_core c st" "drop_one i st = Some st'"
  shows "inbox_core c st'"
  by (rule core_same [OF core_filtered [OF assms(1), of "\<lambda>p. fst p \<noteq> i"]])
    (use inbox_coreD(5) [OF assms(1)] in \<open>simp_all add: drop_one_filter [OF assms(2)]\<close>)

lemma acknowledge_marks:
  assumes "apply_acknowledge through t ids st = Some st'"
  shows "nc_records st' = mark_records (acknowledge_one t (acknowledged_by through ids)) (nc_records st)"
    "nc_dedupeKeys st' = nc_dedupeKeys st" "nc_headCursor st' = nc_headCursor st"
    "nc_lastNoticedCursor st' = nc_lastNoticedCursor st"
  using assms unfolding apply_acknowledge_def mark_records_def by (simp_all split: if_splits) auto

lemma core_acknowledge:
  assumes "inbox_core c st" "apply_acknowledge through t ids st = Some st'"
  shows "inbox_core c st'"
  by (rule core_same [OF core_marked [OF assms(1) marks_only_acknowledge]])
    (use inbox_coreD(5) [OF assms(1)] in \<open>simp_all add: acknowledge_marks [OF assms(2)]\<close>)

lemma records_without_filter:
  "records_without n replaces st = Some recs \<Longrightarrow>
     recs = filter (\<lambda>p. Some (fst p) \<noteq> map_option (\<lambda>i. on_id (the (js_get (nc_records st) i))) replaces) (nc_records st)"
  by (auto simp: records_without_def js_delete_filter split: option.splits if_splits)

lemma core_added:
  assumes "inbox_core c st" "apply_added n replaces st = Some st'" "on_controllerId n = c"
  shows "inbox_core c st'"
proof -
  from assms(2) obtain recs where recs: "records_without n replaces st = Some recs"
    and n: "on_cursor n = nc_headCursor st + 1" "\<not> js_has (nc_records st) (on_id n)"
    and room: "length (pending (st\<lparr>nc_records := recs\<rparr>)) < maxUnacknowledgedPerController"
    and st': "st' = st\<lparr>nc_records := js_set (on_id n) n recs,
      nc_dedupeKeys := (case on_dedupeKey n of None \<Rightarrow> nc_dedupeKeys st | Some k \<Rightarrow> js_add k (nc_dedupeKeys st)),
      nc_headCursor := on_cursor n\<rparr>"
    by (auto simp: apply_added_def not_le simp del: length_pending split: if_splits option.splits)
  obtain P where P: "recs = filter P (nc_records st)" using records_without_filter [OF recs] by blast
  note core = inbox_coreD [OF core_filtered [OF assms(1), of P, folded P]]
  have fresh: "on_id n \<notin> set (js_keys recs)" using n(2) by (auto simp: P js_has_iff)
  have set: "js_set (on_id n) n recs = recs @ [(on_id n, n)]" by (rule js_set_fresh [OF fresh])
  have old: "list_all (sound_message c st) (js_values recs)" using core(3) by (auto simp: list_all_iff sound_message_def)
  have keys: "set (nc_dedupeKeys st) \<subseteq> set (nc_dedupeKeys st')" by (auto simp: st' split: option.splits)
  have sound: "sound_message c st' n" using assms(3) n(1) by (auto simp: sound_message_def st')
  have later: "sound_message c st' m" if "sound_message c st m" for m
    using that keys n(1) by (auto simp: sound_message_def st')
  have vals: "inbox_values st' = js_values recs @ [n]" by (simp add: st' set)
  show ?thesis unfolding inbox_core_def
  proof (intro conjI)
    show "keyed on_id (nc_records st')" using core(1) by (simp add: st')
    have "on_cursor n \<notin> set (map on_cursor (js_values recs))" using old n(1) by (auto simp: list_all_iff sound_message_def)
    then show "distinct (map on_cursor (inbox_values st'))" using core(2) unfolding vals by simp
    show "list_all (sound_message c st') (inbox_values st')" using old later sound unfolding vals list_all_iff by auto
    show "length (filter unacknowledged (inbox_values st')) \<le> maxUnacknowledgedPerController"
      using room unfolding vals by simp
    show "nc_lastNoticedCursor st' \<le> nc_headCursor st'" using core(5) n(1) by (simp add: st')
  qed
qed

lemma core_applied:
  assumes "inbox_core (payload_controller p) st" "apply_change p st = Some st'"
  shows "inbox_core (payload_controller p) st'"
proof (cases p)
  case (LogDeliver c ids via t)
  with assms apply_each_inv [where I = "inbox_core c" and f = "deliver_one via t", OF core_deliver]
  show ?thesis by (auto simp: apply_change_def)
next
  case (LogDrop c ids t)
  with assms apply_each_inv [where I = "inbox_core c" and f = drop_one, OF core_drop]
  show ?thesis by (auto simp: apply_change_def)
next
  case (LogNotice c cursor t)
  with assms have "inbox_core c st" "\<not> nc_headCursor st < cursor"
    "st' = st\<lparr>nc_lastNoticedCursor := cursor, nc_lastNoticedAt := Some t\<rparr>"
    by (simp_all add: apply_change_def split: if_splits)
  then show ?thesis using LogNotice by (auto intro: core_same)
next
  case (LogPolicy c policy)
  with assms inbox_coreD(5) have "inbox_core c st" "st' = st\<lparr>nc_policy := policy\<rparr>"
    "nc_lastNoticedCursor st \<le> nc_headCursor st"
    by (auto simp: apply_change_def)
  then show ?thesis using LogPolicy by (auto intro: core_same)
next
  case (LogAppend n)
  with assms show ?thesis by (intro core_added [OF assms(1), of n None]) (simp_all add: apply_change_def)
next
  case (LogReplace n i)
  with assms show ?thesis by (intro core_added [OF assms(1), of n "Some i"]) (simp_all add: apply_change_def)
next
  case (LogAcknowledge c through t ids)
  with assms show ?thesis by (intro core_acknowledge [OF assms(1), of through t ids]) (simp_all add: apply_change_def)
qed

lemma payload_wf: "inbox_wf (payload_controller p) st \<Longrightarrow> apply_payload p st = Some st' \<Longrightarrow> inbox_wf (payload_controller p) st'"
  unfolding apply_payload_def inbox_wf_def map_option_eq_Some using core_applied retire_old_wf [unfolded inbox_wf_def] by blast

definition states_wf :: "inbox_states \<Rightarrow> bool" where
  "states_wf states = (js_wf states \<and> (\<forall>c st. js_get states c = Some st \<longrightarrow> inbox_wf c st))"

lemma inbox_of_wf [simp]: "states_wf states \<Longrightarrow> inbox_wf c (inbox_of states c)"
  by (auto simp: states_wf_def inbox_of_def split: option.split)

lemma record_wf: "states_wf states \<Longrightarrow> apply_record r states = Some states' \<Longrightarrow> states_wf states'"
  using payload_wf [of "lr_payload r" "inbox_of states (payload_controller (lr_payload r))"]
  by (auto simp: apply_record_def Let_def states_wf_def js_simps split: if_splits)

lemma replay_wf: "replay_log rs = Some states \<Longrightarrow> states_wf states"
  unfolding replay_log_def
  by (rule apply_each_inv [where I = states_wf and f = apply_record and s = "[]", OF record_wf]) (auto simp: states_wf_def)

subsection \<open>The store\<close>

text \<open>
  The complete lines of the file are records that replay, after the lines \<open>xs\<close>; a loaded store has that
  replay in memory, knows the ids of its records and the torn tail there is.
\<close>

definition log_records :: "notification_store \<Rightarrow> log_record list \<Rightarrow> bool" where
  "log_records s rs =
     (lf_lines (ns_file s) = map LineRecord rs \<and> distinct (map lr_recordId rs) \<and> replay_log rs \<noteq> None
      \<and> (ns_loaded s \<longrightarrow> replay_log rs = Some (ns_states s) \<and> set (ns_recordIds s) = lr_recordId ` set rs
           \<and> ns_crashTail s = (if lf_tail (ns_file s) then Some (length rs) else None)))"

definition store_over :: "log_record list \<Rightarrow> notification_store \<Rightarrow> bool" where
  "store_over xs s = (\<exists>ys. log_records s (xs @ ys))"

lemma read_records:
  assumes "distinct (map lr_recordId rs)" "set seen \<inter> lr_recordId ` set rs = {}"
  shows "read_lines seen (map LineRecord rs) = Inr rs"
  using assms by (induction rs arbitrary: seen) auto

lemma log_records_read: "log_records s rs \<Longrightarrow> readNotificationLog (ns_file s) = Inr rs"
  by (simp add: log_records_def readNotificationLog_def read_records)

lemma log_records_unique: "log_records s rs \<Longrightarrow> log_records s rs' \<Longrightarrow> rs = rs'"
  using log_records_read [of s rs] log_records_read [of s rs'] by simp

lemma log_records_tick [simp]: "log_records (s\<lparr>ns_tick := k\<rparr>) rs = log_records s rs"
  by (simp add: log_records_def)

lemma store_over_tick [simp]: "store_over xs (s\<lparr>ns_tick := k\<rparr>) = store_over xs s"
  by (simp add: store_over_def)

lemma unloaded_records: "log_records s rs \<Longrightarrow> log_records (s\<lparr>ns_loaded := False\<rparr>) rs"
  by (simp add: log_records_def)

lemma store_over_unloaded: "store_over xs s \<Longrightarrow> store_over xs (s\<lparr>ns_loaded := False\<rparr>)"
  using unloaded_records by (auto simp: store_over_def)

text \<open>A loaded store with given states; the form in which the calls are stepped through.\<close>

definition loaded_with :: "log_record list \<Rightarrow> inbox_states \<Rightarrow> notification_store \<Rightarrow> bool" where
  "loaded_with xs states s = (store_over xs s \<and> ns_loaded s \<and> ns_states s = states)"

lemma loaded_with_tick [simp]: "loaded_with xs states (s\<lparr>ns_tick := k\<rparr>) = loaded_with xs states s"
  by (simp add: loaded_with_def)

lemma loaded_with_wf: "loaded_with xs states s \<Longrightarrow> states_wf states"
  by (auto simp: loaded_with_def store_over_def log_records_def intro: replay_wf)

lemma loaded_with_over: "loaded_with xs states s \<Longrightarrow> store_over xs s"
  by (simp add: loaded_with_def)

lemma inbox_ask_triple: "op_triple (loaded_with xs states) (inbox_ask f) (\<lambda>_. loaded_with xs states) E"
  by (simp add: op_triple_def inbox_ask_def)

lemma truncated_tail:
  assumes "log_records s rs" "ns_loaded s"
  shows "truncated (ns_crashTail s) (ns_file s) = \<lparr>lf_lines = map LineRecord rs, lf_tail = False\<rparr>"
proof (cases "ns_file s")
  case (fields "lines" tail)
  with assms show ?thesis by (simp add: log_records_def truncated_def)
qed

lemma replay_snoc: "replay_log rs = Some states \<Longrightarrow> replay_log (rs @ [r]) = apply_record r states"
  by (simp add: replay_log_def apply_each_append split: option.split)

lemma write_records:
  assumes log: "log_records s rs" and loaded: "ns_loaded s" and fresh: "lr_recordId r \<notin> set (ns_recordIds s)"
    and applies: "apply_record r (ns_states s) = Some states"
  shows "log_records (s\<lparr>ns_file := after_write w (ns_crashTail s) r (ns_file s), ns_loaded := False\<rparr>)
      (if w = Written \<or> w = FailedCommitted then rs @ [r] else rs)"
    "log_records (s\<lparr>ns_file := after_write Written (ns_crashTail s) r (ns_file s), ns_crashTail := None,
        ns_recordIds := js_add (lr_recordId r) (ns_recordIds s), ns_states := states, ns_announced := a\<rparr>) (rs @ [r])"
proof -
  note f = truncated_tail [OF log loaded]
  have replay: "replay_log (rs @ [r]) = Some states"
    using log loaded applies replay_snoc [of rs "ns_states s" r] by (simp add: log_records_def)
  have "lr_recordId r \<notin> lr_recordId ` set rs" using log loaded fresh by (simp add: log_records_def)
  then have ids: "distinct (map lr_recordId (rs @ [r]))" using log by (simp add: log_records_def)
  show "log_records (s\<lparr>ns_file := after_write w (ns_crashTail s) r (ns_file s), ns_loaded := False\<rparr>)
      (if w = Written \<or> w = FailedCommitted then rs @ [r] else rs)"
    using log ids replay by (cases w) (simp_all add: log_records_def f line_appended_def)
  show "log_records (s\<lparr>ns_file := after_write Written (ns_crashTail s) r (ns_file s), ns_crashTail := None,
        ns_recordIds := js_add (lr_recordId r) (ns_recordIds s), ns_states := states, ns_announced := a\<rparr>) (rs @ [r])"
  proof -
    have written: "after_write Written (ns_crashTail s) r (ns_file s) = \<lparr>lf_lines = map LineRecord (rs @ [r]), lf_tail = False\<rparr>"
      by (simp add: f line_appended_def)
    show ?thesis unfolding written using log loaded ids replay by (simp add: log_records_def)
  qed
qed

text \<open>The states after a payload was written.\<close>

definition states_after :: "log_payload \<Rightarrow> inbox_states \<Rightarrow> inbox_states \<Rightarrow> bool" where
  "states_after p states states' =
     (\<exists>st. apply_payload p (inbox_of states (payload_controller p)) = Some st
        \<and> states' = js_set (payload_controller p) st states)"

lemma write_record_triple:
  assumes "states_after (lr_payload r) states states'"
  shows "op_triple (\<lambda>s. loaded_with xs states s \<and> lr_recordId r \<notin> set (ns_recordIds s)) (log_commit env r)
      (\<lambda>_. loaded_with xs states') (store_over xs)"
proof (rule op_tripleI)
  fix s
  assume s: "loaded_with xs states s \<and> lr_recordId r \<notin> set (ns_recordIds s)"
  then obtain ys where log: "log_records s (xs @ ys)" and loaded: "ns_loaded s" and states: "ns_states s = states"
    by (auto simp: loaded_with_def store_over_def)
  have applies: "apply_record r (ns_states s) = Some states'"
    using assms by (auto simp: states_after_def apply_record_def states)
  let ?s = "s\<lparr>ns_tick := Suc (ns_tick s)\<rparr>"
  have log': "log_records ?s (xs @ ys)" and pre: "ns_loaded ?s" "lr_recordId r \<notin> set (ns_recordIds ?s)"
    "apply_record r (ns_states ?s) = Some states'"
    using log loaded s applies by simp_all
  note W = write_records [OF log' pre]
  show "case log_commit env r s of (Inr x, t) \<Rightarrow> loaded_with xs states' t | (Inl e, t) \<Rightarrow> store_over xs t"
  proof (cases "ne_write env (ns_tick s) = Written")
    case True
    with W(2) [of "ns_announced s @ [payload_controller (lr_payload r)]"] loaded applies show ?thesis
      by (simp add: log_commit_def install_record_def inbox_ask_def op_defs loaded_with_def store_over_def) (metis append_assoc)
  next
    case False
    have "store_over xs (s\<lparr>ns_tick := Suc (ns_tick s),
        ns_file := after_write (ne_write env (ns_tick s)) (ns_crashTail s) r (ns_file s), ns_loaded := False\<rparr>)"
      using W(1) [of "ne_write env (ns_tick s)"] unfolding store_over_def
      by (cases "ne_write env (ns_tick s)") (auto intro: exI [of _ ys] exI [of _ "ys @ [r]"])
    with False show ?thesis by (simp add: log_commit_def inbox_ask_def op_defs)
  qed
qed

lemma persist_triple:
  assumes "states_after p states states'"
  shows "op_triple (loaded_with xs states) (persist_payload env p) (\<lambda>_. loaded_with xs states') (store_over xs)"
  unfolding persist_payload_def
proof (intro op_triple_bind [OF inbox_ask_triple])
  fix i t
  show "op_triple (loaded_with xs states)
      (if \<not> ne_isUuid env i then op_throw InboxInvalid
       else op_bind (op_gets (\<lambda>s. i \<in> set (ns_recordIds s))) (\<lambda>known.
         if known then op_throw InboxDuplicateRecord
         else log_commit env \<lparr>lr_recordId = i, lr_persistedAt = t, lr_payload = p\<rparr>))
      (\<lambda>_. loaded_with xs states') (store_over xs)"
    using write_record_triple [of "\<lparr>lr_recordId = i, lr_persistedAt = t, lr_payload = p\<rparr>" states states' xs env] assms
    by (auto simp: op_triple_def op_defs loaded_with_over)
qed

subsection \<open>Calls that write one record\<close>

lemma triple_of_states:
  assumes "op_triple (loaded_with xs states) (k (g states)) Q E"
  shows "op_triple (loaded_with xs states) (op_bind (op_gets (\<lambda>s. g (ns_states s))) k) Q E"
  using assms by (auto simp: op_triple_def loaded_with_def)

lemma triple_loaded:
  assumes "\<And>states. op_triple (loaded_with xs states) m Q (store_over xs)"
  shows "op_triple (store_over xs) (op_then requireLoaded m) Q (store_over xs)"
proof (rule op_tripleI)
  fix s
  assume s: "store_over xs s"
  show "case op_then requireLoaded m s of (Inr x, t) \<Rightarrow> Q x t | (Inl e, t) \<Rightarrow> store_over xs t"
  proof (cases "ns_loaded s")
    case True
    then have "op_then requireLoaded m s = m s" by (simp add: requireLoaded_def op_defs)
    with assms [of "ns_states s"] s True show ?thesis by (auto simp: op_triple_def loaded_with_def)
  qed (use s in \<open>simp add: requireLoaded_def op_defs\<close>)
qed

lemma triple_guarded:
  assumes "\<And>states. op_triple (loaded_with xs states) m Q (store_over xs)"
  shows "op_triple (store_over xs) (if b then op_throw e else op_then requireLoaded m) Q (store_over xs)"
  using triple_loaded [OF assms] by (simp add: op_triple_throw)

lemma stamped_persist:
  assumes "\<And>t. \<exists>states'. states_after (p t) states states'"
  shows "op_triple (loaded_with xs states) (op_bind (inbox_ask f) (\<lambda>t. persist_payload env (p t))) (\<lambda>_. store_over xs) (store_over xs)"
proof (rule op_triple_bind [OF inbox_ask_triple])
  fix t
  obtain states' where "states_after (p t) states states'" using assms by blast
  from persist_triple [OF this] show "op_triple (loaded_with xs states) (persist_payload env (p t)) (\<lambda>_. store_over xs) (store_over xs)"
    by (rule op_triple_weaken) (auto intro: loaded_with_over)
qed

lemma states_afterI:
  "apply_change p (inbox_of states (payload_controller p)) \<noteq> None \<Longrightarrow> \<exists>states'. states_after p states states'"
  by (auto simp: states_after_def apply_payload_def)

lemma deliver_applies:
  assumes "list_all (\<lambda>i. js_has (nc_records st) i) ids"
  shows "apply_each (deliver_one via t) ids st \<noteq> None"
  using assms
proof (induction ids arbitrary: st)
  case (Cons i ids)
  then obtain n where n: "js_get (nc_records st) i = Some n" by (auto simp: js_has_def)
  then obtain st' where st': "deliver_one via t i st = Some st'" and keys: "js_keys (nc_records st') = js_keys (nc_records st)"
    by (auto simp: deliver_one_def js.keys_put_known)
  have "list_all (\<lambda>i. js_has (nc_records st') i) ids" using Cons.prems by (simp add: js_has_iff keys)
  from Cons.IH [OF this] st' show ?case by simp
qed simp

lemma pending_get:
  assumes "inbox_core c st" "n \<in> set (pending st)"
  shows "js_get (nc_records st) (on_id n) = Some n" "unacknowledged n" "js_has (nc_records st) (on_id n)"
  using assms(2) keyed_value [OF inbox_coreD(1) [OF assms(1)]] unfolding set_pending js_has_def by (auto simp del: set_map)

lemma wf_core: "inbox_wf c st \<Longrightarrow> inbox_core c st"
  by (simp add: inbox_wf_def)

lemmas core_of = wf_core [OF inbox_of_wf [OF loaded_with_wf]]

lemma when_triple: "(b \<Longrightarrow> op_triple P m (\<lambda>_. Q) E) \<Longrightarrow> (\<And>s. P s \<Longrightarrow> Q s) \<Longrightarrow> op_triple P (op_when b m) (\<lambda>_. Q) E"
  by (rule op_triple_when) auto

lemma stamped_when:
  assumes "b \<Longrightarrow> (\<And>t. \<exists>states'. states_after (p t) states states')"
  shows "op_triple (loaded_with xs states) (op_when b (op_bind (inbox_ask f) (\<lambda>t. persist_payload env (p t))))
      (\<lambda>_. store_over xs) (store_over xs)"
    "op_triple (loaded_with xs states) (op_then (op_when b (op_bind (inbox_ask f) (\<lambda>t. persist_payload env (p t)))) (op_return k))
      (\<lambda>_. store_over xs) (store_over xs)"
proof -
  show "op_triple (loaded_with xs states) (op_when b (op_bind (inbox_ask f) (\<lambda>t. persist_payload env (p t))))
      (\<lambda>_. store_over xs) (store_over xs)"
    by (rule when_triple [OF stamped_persist loaded_with_over]) (use assms in auto)
  then show "op_triple (loaded_with xs states) (op_then (op_when b (op_bind (inbox_ask f) (\<lambda>t. persist_payload env (p t)))) (op_return k))
      (\<lambda>_. store_over xs) (store_over xs)"
    by (rule op_triple_then) (rule op_triple_return)
qed

lemma wf_triple: "(states_wf states \<Longrightarrow> op_triple (loaded_with xs states) m Q E) \<Longrightarrow> op_triple (loaded_with xs states) m Q E"
  using loaded_with_wf by (fastforce simp: op_triple_def)

lemma acknowledgeThrough_over:
  "op_triple (store_over xs) (acknowledgeThrough env c cursor) (\<lambda>_. store_over xs) (store_over xs)"
proof -
  have "op_triple (loaded_with xs states)
      (op_then (op_when b (op_bind (inbox_ask (ne_clock env)) (\<lambda>t. persist_payload env (LogAcknowledge c cursor t None))))
        (op_return k)) (\<lambda>_. store_over xs) (store_over xs)" for states b k
    by (intro stamped_when(2) states_afterI) (simp add: apply_change_def apply_acknowledge_def)
  then show ?thesis unfolding acknowledgeThrough_def Let_def by (intro triple_guarded triple_of_states)
qed

lemma acknowledgeIds_over: "op_triple (store_over xs) (acknowledgeIds env c ids) (\<lambda>_. store_over xs) (store_over xs)"
proof -
  have "op_triple (loaded_with xs states)
      (op_then (op_when (ns \<noteq> []) (op_bind (inbox_ask (ne_clock env)) (\<lambda>t.
         persist_payload env (LogAcknowledge c (Max (set (map on_cursor ns))) t (Some (map on_id ns))))))
        (op_return (length ns))) (\<lambda>_. store_over xs) (store_over xs)"
    if ns: "ns = filter (\<lambda>n. on_id n \<in> set ids) (pending (inbox_of states c))" for states ns
  proof (rule wf_triple)
    assume "states_wf states"
    then have core: "inbox_core c (inbox_of states c)" by (simp add: wf_core)
    have "\<exists>states'. states_after (LogAcknowledge c (Max (set (map on_cursor ns))) t (Some (map on_id ns))) states states'" for t
      by (rule states_afterI) (use pending_get [OF core] in \<open>auto simp: apply_change_def apply_acknowledge_def list_all_iff ns\<close>)
    then show ?thesis by (rule stamped_when(2))
  qed
  note work = this
  show ?thesis unfolding acknowledgeIds_def by (intro triple_guarded triple_of_states work) (rule refl)
qed

lemma markDelivered_over: "op_triple (store_over xs) (markDelivered env c ids via) (\<lambda>_. store_over xs) (store_over xs)"
proof -
  have "op_triple (loaded_with xs states) (op_when b (op_bind (inbox_ask (ne_clock env)) (\<lambda>t.
      persist_payload env (LogDeliver c (map on_id (filter P (inbox_values (inbox_of states c)))) via t))))
      (\<lambda>_. store_over xs) (store_over xs)" for states b P
  proof (rule wf_triple)
    assume "states_wf states"
    then have keyed: "keyed on_id (nc_records (inbox_of states c))" using inbox_coreD(1) [OF wf_core [OF inbox_of_wf]] by blast
    have "list_all (\<lambda>i. js_has (nc_records (inbox_of states c)) i) (map on_id (filter P (inbox_values (inbox_of states c))))"
      using keyed_value [OF keyed] unfolding list_all_iff js_has_def by (auto simp del: set_map simp: set_map)
    then have "\<exists>states'. states_after (LogDeliver c (map on_id (filter P (inbox_values (inbox_of states c)))) via t) states states'" for t
      using deliver_applies by (intro states_afterI) (simp add: apply_change_def)
    then show ?thesis by (rule stamped_when(1))
  qed
  then show ?thesis unfolding markDelivered_def by (intro triple_loaded triple_of_states)
qed

lemma markNoticed_over: "op_triple (store_over xs) (markNoticed env c cursor) (\<lambda>_. store_over xs) (store_over xs)"
proof -
  have "op_triple (loaded_with xs states)
      (op_bind (headCursor c) (\<lambda>head. if head < cursor then op_throw InboxNoticeBeyondHead
         else op_bind (inbox_ask (ne_clock env)) (\<lambda>t. persist_payload env (LogNotice c cursor t))))
      (\<lambda>_. store_over xs) (store_over xs)" for states
  proof (cases "nc_headCursor (inbox_of states c) < cursor")
    case True
    then show ?thesis by (auto simp: op_triple_def headCursor_def requireLoaded_def op_defs loaded_with_def)
  next
    case False
    then have "\<exists>states'. states_after (LogNotice c cursor t) states states'" for t
      by (intro states_afterI) (simp add: apply_change_def)
    then have "op_triple (loaded_with xs states) (op_bind (inbox_ask (ne_clock env)) (\<lambda>t. persist_payload env (LogNotice c cursor t)))
        (\<lambda>_. store_over xs) (store_over xs)" by (rule stamped_persist)
    with False show ?thesis by (auto simp: op_triple_def headCursor_def requireLoaded_def op_defs loaded_with_def)
  qed
  then show ?thesis unfolding markNoticed_def by (rule triple_guarded)
qed

lemma setPolicy_over: "op_triple (store_over xs) (setPolicy env c policy) (\<lambda>_. store_over xs) (store_over xs)"
proof -
  have "op_triple (loaded_with xs states) (op_then (persist_payload env (LogPolicy c policy)) (op_return policy))
      (\<lambda>_. store_over xs) (store_over xs)" for states
  proof -
    obtain states' where "states_after (LogPolicy c policy) states states'"
      using states_afterI [of "LogPolicy c policy" states] by (auto simp: apply_change_def)
    from persist_triple [OF this] show ?thesis
      by (rule op_triple_then) (rule op_triple_return, rule loaded_with_over)
  qed
  then show ?thesis unfolding setPolicy_def by (rule triple_guarded)
qed

lemma load_over: "op_triple (store_over xs) (load_inbox env) (\<lambda>_ t. store_over xs t \<and> ns_loaded t) (store_over xs)"
proof (rule op_tripleI)
  fix s
  assume "store_over xs s"
  then obtain ys where log: "log_records s (xs @ ys)" by (auto simp: store_over_def)
  let ?s = "s\<lparr>ns_loaded := False, ns_tick := Suc (ns_tick s)\<rparr>"
  have unloaded: "log_records ?s (xs @ ys)" using unloaded_records [OF log] by simp
  then obtain states where "replay_log (xs @ ys) = Some states" by (auto simp: log_records_def)
  with unloaded log_records_read [OF unloaded]
  show "case load_inbox env s of (Inr x, t) \<Rightarrow> store_over xs t \<and> ns_loaded t | (Inl e, t) \<Rightarrow> store_over xs t"
    by (auto simp: load_inbox_def inbox_ask_def op_defs store_over_def) (auto simp: log_records_def)
qed

subsection \<open>Survival of pending notifications\<close>

lemma get_filter_keys: "P i \<Longrightarrow> js_get (filter (\<lambda>p. P (fst p)) m) i = js_get m i"
  by (induction m) auto

lemma retire_old_keeps:
  assumes "inbox_core c st" "js_get (nc_records st) i = Some n" "unacknowledged n"
  shows "js_get (nc_records (retire_old st)) i = Some n"
proof -
  note keyed = inbox_coreD(1) [OF assms(1)]
  have "i \<notin> on_id ` set (drop 100 (newest_first st))"
  proof
    assume "i \<in> on_id ` set (drop 100 (newest_first st))"
    then obtain m where "i = on_id m" "m \<in> set (newest_first st)" by (auto dest: in_set_dropD)
    then have "m \<in> set (inbox_values st)" "\<not> unacknowledged m" "on_id m = i"
      by (auto simp: newest_first_sorted simp del: set_map)
    then show False using keyed_value [OF keyed, of m] assms(2,3) by simp
  qed
  then show ?thesis
    using assms(2) get_filter_keys [of "\<lambda>k. k \<notin> on_id ` set (drop 100 (newest_first st))" i "nc_records st"]
    by (simp add: retire_old_filter)
qed

text \<open>A pending notification is named by a record that acknowledges, drops or replaces it.\<close>

definition retires :: "log_payload \<Rightarrow> notification \<Rightarrow> bool" where
  "retires p n =
     (payload_controller p = on_controllerId n
      \<and> (case p of
           LogAcknowledge _ through _ ids \<Rightarrow> acknowledged_by through ids n
         | LogDrop _ ids _ \<Rightarrow> on_id n \<in> set ids
         | LogReplace _ i \<Rightarrow> i = on_id n
         | _ \<Rightarrow> False))"

definition still_pending :: "controller_inbox \<Rightarrow> notification \<Rightarrow> bool" where
  "still_pending st n =
     (\<exists>m. js_get (nc_records st) (on_id n) = Some m \<and> unacknowledged m \<and> same_message m n)"

lemma survives_deliver:
  assumes "inbox_core c st" "deliver_one via t i st = Some st'" "still_pending st n"
  shows "still_pending st' n"
proof -
  from assms(3) obtain m where m: "js_get (nc_records st) (on_id n) = Some m" "unacknowledged m" "same_message m n"
    by (auto simp: still_pending_def)
  let ?f = "\<lambda>m. if on_id m = i then deliver_mark via t m else m"
  have "js_get (nc_records st') (on_id n) = Some (?f m)"
    unfolding deliver_one_marks [OF assms(1,2)] using mark_records_get [of ?f "nc_records st" "on_id n"] m(1) by simp
  moreover have "unacknowledged (?f m)" using m(2) by (simp add: deliver_mark_def unacknowledged_def)
  moreover have "same_message (?f m) n"
    by (rule same_message_trans [OF _ m(3)]) (rule conjunct1 [OF marks_only_deliver [unfolded marks_only_def, THEN spec]])
  ultimately show ?thesis unfolding still_pending_def by blast
qed

lemma survives_delivers:
  assumes "apply_each (deliver_one via t) ids st = Some st'" "inbox_core c st" "still_pending st n"
  shows "still_pending st' n"
  using apply_each_inv [where I = "\<lambda>st. inbox_core c st \<and> still_pending st n", OF _ assms(1)] assms(2,3)
    core_deliver survives_deliver by blast

lemma survives_drops:
  assumes "apply_each drop_one ids st = Some st'" "on_id n \<notin> set ids" "still_pending st n"
  shows "still_pending st' n"
  using assms
proof (induction ids arbitrary: st)
  case (Cons i ids)
  then obtain u where u: "drop_one i st = Some u" "apply_each drop_one ids u = Some st'" by (auto split: option.splits)
  have "js_get (nc_records u) (on_id n) = js_get (nc_records st) (on_id n)"
    unfolding drop_one_filter(1) [OF u(1)]
    by (rule get_filter_keys [where P = "\<lambda>k. k \<noteq> i"]) (use Cons.prems(2) in simp)
  with Cons.IH [OF u(2)] Cons.prems show ?case by (simp add: still_pending_def)
qed simp

lemma added_records:
  assumes "apply_added n replaces st = Some st'" "keyed on_id (nc_records st)"
  shows "\<exists>recs. recs = filter (\<lambda>p. Some (fst p) \<noteq> replaces) (nc_records st) \<and> nc_records st' = recs @ [(on_id n, n)]
    \<and> on_id n \<notin> set (js_keys recs) \<and> on_cursor n = nc_headCursor st + 1 \<and> nc_headCursor st' = on_cursor n
    \<and> unacknowledged n \<and> on_id n \<notin> set (js_keys (nc_records st))"
proof -
  from assms(1) obtain recs where recs: "records_without n replaces st = Some recs"
    and n: "on_cursor n = nc_headCursor st + 1" "\<not> js_has (nc_records st) (on_id n)" "on_acknowledgedAt n = None"
    and st': "nc_records st' = js_set (on_id n) n recs" "nc_headCursor st' = on_cursor n"
    by (auto simp: apply_added_def simp del: length_pending split: if_splits option.splits)
  have same: "on_id m = i" if "js_get (nc_records st) i = Some m" for i m using keyed_get [OF assms(2) that] .
  have recs: "recs = filter (\<lambda>p. Some (fst p) \<noteq> replaces) (nc_records st)"
  proof (cases replaces)
    case (Some i)
    with recs obtain m where "js_get (nc_records st) i = Some m" by (auto simp: records_without_def split: option.splits)
    with records_without_filter [OF recs] same Some show ?thesis by simp
  qed (use recs in \<open>simp add: records_without_def\<close>)
  have "on_id n \<notin> set (js_keys recs)" using n(2) by (auto simp: recs js_has_iff)
  with js_set_fresh [OF this] recs n st' show ?thesis by (simp add: unacknowledged_def js_has_iff)
qed

lemma survives_added:
  assumes "apply_added a replaces st = Some st'" "keyed on_id (nc_records st)" "still_pending st n"
    and "replaces \<noteq> Some (on_id n)"
  shows "still_pending st' n"
proof -
  from added_records [OF assms(1,2)] obtain recs where recs: "recs = filter (\<lambda>p. Some (fst p) \<noteq> replaces) (nc_records st)"
    "nc_records st' = recs @ [(on_id a, a)]" by blast
  have "js_get recs (on_id n) = js_get (nc_records st) (on_id n)"
    unfolding recs(1) by (rule get_filter_keys [where P = "\<lambda>k. Some k \<noteq> replaces"]) (use assms(4) in blast)
  with assms(3) recs(2) show ?thesis by (auto simp: still_pending_def map_add_def)
qed

lemma survives_change:
  assumes "inbox_core (payload_controller p) st" "apply_change p st = Some st'" "still_pending st n"
    and "on_controllerId n = payload_controller p" "\<not> retires p n"
  shows "still_pending st' n"
proof (cases p)
  case (LogAcknowledge c through t ids)
  with assms(3) obtain m where m: "js_get (nc_records st) (on_id n) = Some m" "unacknowledged m" "same_message m n"
    by (auto simp: still_pending_def)
  have "\<not> acknowledged_by through ids m"
    using assms(4,5) LogAcknowledge same_messageD [OF m(3)] by (auto simp: retires_def acknowledged_by_def split: option.splits)
  then have "acknowledge_one t (acknowledged_by through ids) m = m" by (simp add: acknowledge_one_def)
  moreover have "nc_records st' = mark_records (acknowledge_one t (acknowledged_by through ids)) (nc_records st)"
    using assms(2) LogAcknowledge by (intro acknowledge_marks(1)) (simp add: apply_change_def)
  ultimately have "js_get (nc_records st') (on_id n) = Some m" using m(1) mark_records_get by simp
  with m show ?thesis by (auto simp: still_pending_def)
next
  case (LogDeliver c ids via t)
  with assms survives_delivers [of via t ids st st' c n] show ?thesis by (simp add: apply_change_def)
next
  case (LogDrop c ids t)
  with assms survives_drops [of ids st st' n] show ?thesis by (simp add: apply_change_def retires_def)
next
  case (LogAppend a)
  with assms survives_added [of a None st st' n] inbox_coreD(1) show ?thesis by (simp add: apply_change_def)
next
  case (LogReplace a i)
  with assms survives_added [of a "Some i" st st' n] inbox_coreD(1) show ?thesis
    by (auto simp: apply_change_def retires_def)
next
  case (LogNotice c cursor t)
  with assms(2,3) show ?thesis by (auto simp: apply_change_def still_pending_def split: if_splits)
next
  case (LogPolicy c policy)
  with assms(2,3) show ?thesis by (auto simp: apply_change_def still_pending_def)
qed

lemma survives_payload:
  assumes "inbox_wf (payload_controller p) st" "apply_payload p st = Some st'" "still_pending st n"
    and "on_controllerId n = payload_controller p" "\<not> retires p n"
  shows "still_pending st' n"
proof -
  from assms(2) obtain u where u: "apply_change p st = Some u" "st' = retire_old u" by (auto simp: apply_payload_def)
  note core = wf_core [OF assms(1)]
  from survives_change [OF core u(1) assms(3-5)] show ?thesis
    using retire_old_keeps [OF core_applied [OF core u(1)]] by (auto simp: still_pending_def u(2))
qed

end
