(* ===== verification/Inbox_Guarantees.thy ===== *)
theory Inbox_Guarantees
  imports Inbox_Invariants "HOL-Library.Code_Target_Nat"
begin

text \<open>
  What the notification inbox guarantees along every run of its calls, with writes that fail at any
  moment, restarts and reloads: its own log always loads and memory agrees with it, inboxes stay within
  their bounds, a notification leaves the pending ones only by an acknowledgement, a replacement or a
  counted drop, and a key appended once is never appended again.
\<close>

subsection \<open>Appending\<close>

lemma insort_key_snoc: "f x \<le> f y \<Longrightarrow> insort_key f x (zs @ [y]) = insort_key f x zs @ [y]"
  by (induction zs) auto

lemma sort_key_snoc: "(\<And>x. x \<in> set xs \<Longrightarrow> f x \<le> f y) \<Longrightarrow> sort_key f (xs @ [y]) = sort_key f xs @ [y]"
  by (induction xs) (simp_all add: insort_key_snoc)

lemma pending_added:
  assumes "apply_added n replaces st = Some st'" "inbox_core c st"
  shows "pending st' = filter (\<lambda>m. Some (on_id m) \<noteq> replaces) (pending st) @ [n]"
proof -
  note core = inbox_coreD [OF assms(2)]
  from added_records [OF assms(1) core(1)] obtain recs where
    recs: "recs = filter (\<lambda>p. Some (fst p) \<noteq> replaces) (nc_records st)" "nc_records st' = recs @ [(on_id n, n)]"
    and n: "on_cursor n = nc_headCursor st + 1" "unacknowledged n" by blast
  have vals: "inbox_values st' = filter (\<lambda>m. Some (on_id m) \<noteq> replaces) (inbox_values st) @ [n]"
    unfolding recs using filter_values [OF core(1), of "\<lambda>k. Some k \<noteq> replaces"] by simp
  have later: "on_cursor m \<le> on_cursor n" if "m \<in> set (inbox_values st)" for m
    using core(3) that n(1) by (auto simp: list_all_iff sound_message_def simp del: set_map)
  have "pending st' = sort_key on_cursor (filter unacknowledged (filter (\<lambda>m. Some (on_id m) \<noteq> replaces) (inbox_values st)) @ [n])"
    unfolding pending_sorted vals using n(2) by simp
  also have "\<dots> = sort_key on_cursor (filter unacknowledged (filter (\<lambda>m. Some (on_id m) \<noteq> replaces) (inbox_values st))) @ [n]"
    by (rule sort_key_snoc) (use later in \<open>auto simp del: set_map\<close>)
  also have "filter unacknowledged (filter (\<lambda>m. Some (on_id m) \<noteq> replaces) (inbox_values st))
      = filter (\<lambda>m. Some (on_id m) \<noteq> replaces) (filter unacknowledged (inbox_values st))"
    by (simp only: filter_filter conj_commute)
  finally show ?thesis by (simp only: pending_sorted filter_sort)
qed

lemma added_totals:
  "apply_added n replaces st = Some st' \<Longrightarrow> nc_totalDropped st' = nc_totalDropped st \<and> nc_headCursor st' = nc_headCursor st + 1
     \<and> set (nc_dedupeKeys st') = set (nc_dedupeKeys st) \<union> set_option (on_dedupeKey n)
     \<and> acknowledged_count st' \<le> acknowledged_count st"
proof -
  assume added: "apply_added n replaces st = Some st'"
  then obtain recs where recs: "records_without n replaces st = Some recs"
    and n: "\<not> js_has (nc_records st) (on_id n)" "unacknowledged n" "on_cursor n = nc_headCursor st + 1"
    and st': "st' = st\<lparr>nc_records := js_set (on_id n) n recs,
      nc_dedupeKeys := (case on_dedupeKey n of None \<Rightarrow> nc_dedupeKeys st | Some k \<Rightarrow> js_add k (nc_dedupeKeys st)),
      nc_headCursor := on_cursor n\<rparr>"
    by (auto simp: apply_added_def unacknowledged_def simp del: length_pending split: if_splits option.splits)
  obtain P where P: "recs = filter P (nc_records st)" using records_without_filter [OF recs] by blast
  have "on_id n \<notin> set (js_keys recs)" using n(1) by (auto simp: P js_has_iff)
  from js_set_fresh [OF this] have "nc_records st' = filter P (nc_records st) @ [(on_id n, n)]" by (simp add: st' P)
  then have "acknowledged_count st' \<le> acknowledged_count st"
    using filter_count_le [of "\<lambda>n. \<not> unacknowledged n" P "nc_records st"] n(2) by (simp add: acknowledged_count_def)
  then show ?thesis using n(3) by (auto simp: st' split: option.split)
qed

lemma drops_explicit:
  assumes "distinct ids" "\<forall>i\<in>set ids. \<exists>n. js_get (nc_records st) i = Some n \<and> unacknowledged n"
  shows "apply_each drop_one ids st = Some (st\<lparr>nc_records := filter (\<lambda>p. fst p \<notin> set ids) (nc_records st),
      nc_totalDropped := nc_totalDropped st + length ids,
      nc_droppedSinceAcknowledged := nc_droppedSinceAcknowledged st + length ids\<rparr>)"
  using assms
proof (induction ids arbitrary: st)
  case (Cons i ids)
  then obtain n where n: "js_get (nc_records st) i = Some n" "unacknowledged n" by auto
  let ?u = "st\<lparr>nc_records := filter (\<lambda>p. fst p \<noteq> i) (nc_records st), nc_totalDropped := nc_totalDropped st + 1,
    nc_droppedSinceAcknowledged := nc_droppedSinceAcknowledged st + 1\<rparr>"
  have u: "drop_one i st = Some ?u" using n by (simp add: drop_one_def js_delete_filter)
  have "\<exists>m. js_get (nc_records ?u) j = Some m \<and> unacknowledged m" if "j \<in> set ids" for j
  proof -
    have "js_get (filter (\<lambda>p. fst p \<noteq> i) (nc_records st)) j = js_get (nc_records st) j"
      by (rule get_filter_keys [where P = "\<lambda>k. k \<noteq> i"]) (use Cons.prems(1) that in auto)
    with Cons.prems(2) that show ?thesis by simp
  qed
  with Cons.IH [of ?u] Cons.prems(1) u show ?case by (simp add: filter_filter conj_commute)
qed simp

text \<open>The lowest kind first, then the oldest; at most one record has to go.\<close>

definition drop_key :: "notification \<Rightarrow> int \<times> nat" where
  "drop_key n = (drop_rank (on_kind n), on_cursor n)"

lemma drop_order_key: "drop_order a b \<le> 0 \<longleftrightarrow> drop_key a \<le> drop_key b"
  by (auto simp: drop_order_def drop_key_def by_cursor_def less_eq_prod_def)

lemma drop_candidates_least:
  assumes "inbox_core c st"
  shows "if length (pending st) < maxUnacknowledgedPerController then drop_candidates st = []
    else length (pending st) = maxUnacknowledgedPerController
      \<and> (\<exists>v. drop_candidates st = [v] \<and> v \<in> set (pending st) \<and> (\<forall>m\<in>set (pending st). drop_order v m \<le> 0))"
proof -
  let ?cs = "js_sort drop_order (pending st)"
  have sorted: "?cs = sort_key drop_key (pending st)" by (rule js_sort_key) (rule drop_order_key)
  have len: "length ?cs = length (pending st)" by (simp only: sorted length_sort)
  have le: "length (pending st) \<le> maxUnacknowledgedPerController" using inbox_coreD(4) [OF assms] by simp
  show ?thesis
  proof (cases "length (pending st) < maxUnacknowledgedPerController")
    case True
    then show ?thesis by (simp add: drop_candidates_def len del: length_pending)
  next
    case False
    with le have full: "length (pending st) = maxUnacknowledgedPerController" by simp
    then obtain v vs where vs: "?cs = v # vs" using len by (cases ?cs) (auto simp: maxUnacknowledgedPerController_def)
    have "v \<in> set (pending st)" using set_js_sort [of drop_order "pending st"] by (auto simp: vs)
    moreover have "drop_order v m \<le> 0" if "m \<in> set (pending st)" for m
    proof -
      have "sorted (map drop_key (v # vs))" unfolding vs [symmetric] sorted by simp
      moreover have "m \<in> set (v # vs)" using that set_js_sort [of drop_order "pending st"] by (simp only: vs)
      ultimately show ?thesis unfolding drop_order_key by auto
    qed
    ultimately show ?thesis using full vs len by (simp add: drop_candidates_def del: length_pending)
  qed
qed

definition space_made :: "controller_inbox \<Rightarrow> nat \<Rightarrow> controller_inbox \<Rightarrow> bool" where
  "space_made st k st1 =
     (length (pending st1) < maxUnacknowledgedPerController \<and> nc_headCursor st1 = nc_headCursor st
      \<and> set (js_keys (nc_records st1)) \<subseteq> set (js_keys (nc_records st)) \<and> nc_totalDropped st1 = nc_totalDropped st + k
      \<and> (if k = 0 then pending st1 = pending st
         else k = 1 \<and> length (pending st) = maxUnacknowledgedPerController
           \<and> (\<exists>v\<in>set (pending st). (\<forall>m\<in>set (pending st). drop_order v m \<le> 0)
                \<and> pending st1 = filter (\<lambda>m. on_id m \<noteq> on_id v) (pending st))))"

lemma dropped_space:
  assumes wf: "inbox_wf c st" and ids: "drop_candidates st \<noteq> []"
  shows "\<exists>st1. apply_payload (LogDrop c (map on_id (drop_candidates st)) t) st = Some st1
    \<and> space_made st (length (drop_candidates st)) st1"
proof -
  note core = wf_core [OF wf]
  have full: "length (pending st) = maxUnacknowledgedPerController"
    and "\<exists>v. drop_candidates st = [v] \<and> v \<in> set (pending st) \<and> (\<forall>m\<in>set (pending st). drop_order v m \<le> 0)"
    using drop_candidates_least [OF core] ids by (auto simp del: length_pending split: if_splits)
  then obtain v where v: "drop_candidates st = [v]" "v \<in> set (pending st)" "\<forall>m\<in>set (pending st). drop_order v m \<le> 0" by blast
  note got = pending_get [OF core v(2)]
  let ?st = "st\<lparr>nc_records := filter (\<lambda>p. fst p \<noteq> on_id v) (nc_records st), nc_totalDropped := nc_totalDropped st + 1,
    nc_droppedSinceAcknowledged := nc_droppedSinceAcknowledged st + 1\<rparr>"
  have change: "apply_change (LogDrop c [on_id v] t) st = Some ?st"
    using drops_explicit [of "[on_id v]" st] got by (simp add: apply_change_def)
  have "acknowledged_count ?st \<le> 100"
    using acknowledged_filtered [of "\<lambda>p. fst p \<noteq> on_id v" st] wf by (simp add: acknowledged_count_def inbox_wf_def)
  then have applied: "apply_payload (LogDrop c [on_id v] t) st = Some ?st" using change by (simp add: apply_payload_def)
  have pend: "pending ?st = filter (\<lambda>m. on_id m \<noteq> on_id v) (pending st)"
    using filter_values [OF inbox_coreD(1) [OF core], of "\<lambda>k. k \<noteq> on_id v"]
    by (simp add: pending_sorted filter_sort filter_filter conj_commute)
  have "length (pending ?st) < length (pending st)"
    unfolding pend by (rule length_filter_less [OF v(2)]) simp
  then have "space_made st 1 ?st"
    unfolding space_made_def using full v(2,3) pend by (auto simp del: length_pending)
  with applied show ?thesis by (simp add: v(1))
qed

lemma make_space_triple:
  "op_triple (loaded_with xs states) (make_space env c (js_get states c) None)
     (\<lambda>k s. \<exists>states1. loaded_with xs states1 s \<and> space_made (inbox_of states c) k (inbox_of states1 c)) (store_over xs)"
proof (rule wf_triple)
  assume wf: "states_wf states"
  show ?thesis
  proof (cases "js_get states c")
    case None
    then show ?thesis
      by (auto simp: make_space_def inbox_of_def space_made_def new_inbox_def maxUnacknowledgedPerController_def
          intro!: op_triple_return)
  next
    case (Some st)
    then have st: "inbox_of states c = st" by (simp add: inbox_of_def)
    with wf have wf': "inbox_wf c st" using inbox_of_wf by metis
    show ?thesis
    proof (cases "drop_candidates st = []")
      case True
      then have "length (pending st) < maxUnacknowledgedPerController"
        using drop_candidates_least [OF wf_core [OF wf']] by (auto simp del: length_pending split: if_splits)
      then have "space_made st 0 st" by (simp add: space_made_def del: length_pending)
      with True Some st show ?thesis by (auto simp: make_space_def intro!: op_triple_return)
    next
      case False
      have "op_triple (loaded_with xs states)
          (op_then (persist_payload env (LogDrop c (map on_id (drop_candidates st)) t)) (op_return (length (drop_candidates st))))
          (\<lambda>k s. \<exists>states1. loaded_with xs states1 s \<and> space_made (inbox_of states c) k (inbox_of states1 c)) (store_over xs)" for t
      proof -
        obtain st1 where st1: "apply_payload (LogDrop c (map on_id (drop_candidates st)) t) st = Some st1"
          "space_made st (length (drop_candidates st)) st1" using dropped_space [OF wf' False] by blast
        have "states_after (LogDrop c (map on_id (drop_candidates st)) t) states (js_set c st1 states)"
          using st1(1) by (simp add: states_after_def st)
        from persist_triple [OF this] show ?thesis
          by (rule op_triple_then) (rule op_triple_return, use st1(2) st in \<open>auto simp: inbox_of_def js_simps\<close>)
      qed
      then show ?thesis using False Some by (auto simp: make_space_def Let_def intro: op_triple_bind [OF inbox_ask_triple])
    qed
  qed
qed

text \<open>What an append does to the inbox of its controller, with or without a drop or a replacement.\<close>

definition append_spec :: "controller_inbox \<Rightarrow> append_outcome \<Rightarrow> controller_inbox \<Rightarrow> bool" where
  "append_spec st r st' =
     (\<exists>n. ao_record r = Some n \<and> unacknowledged n \<and> on_cursor n = nc_headCursor st + 1 \<and> nc_headCursor st' = on_cursor n
      \<and> nc_totalDropped st' = nc_totalDropped st + ao_dropped r
      \<and> (if ao_outcome r = Appended \<and> ao_dropped r = 0 then pending st' = pending st @ [n]
         else \<exists>v\<in>set (pending st). pending st' = filter (\<lambda>m. on_id m \<noteq> on_id v) (pending st) @ [n]
           \<and> (if ao_outcome r = Replaced then ao_dropped r = 0 \<and> on_dedupeKey v \<noteq> None \<and> on_dedupeKey v = on_dedupeKey n
              else ao_outcome r = Appended \<and> ao_dropped r = 1 \<and> length (pending st) = maxUnacknowledgedPerController
                \<and> (\<forall>m\<in>set (pending st). drop_order v m \<le> 0))))"

lemma triple_conj: "(b \<Longrightarrow> op_triple P m Q E) \<Longrightarrow> op_triple (\<lambda>s. P s \<and> b) m Q E"
  by (auto simp: op_triple_def)

lemma added_payload:
  assumes "inbox_wf c st" "apply_added n replaces st = Some st'"
  shows "apply_payload (case replaces of None \<Rightarrow> LogAppend n | Some i \<Rightarrow> LogReplace n i) st = Some st'"
proof -
  have "acknowledged_count st' \<le> 100" using added_totals [OF assms(2)] assms(1) by (simp add: inbox_wf_def)
  moreover have "apply_change (case replaces of None \<Rightarrow> LogAppend n | Some i \<Rightarrow> LogReplace n i) st = Some st'"
    using assms(2) by (cases replaces) (simp_all add: apply_change_def)
  ultimately show ?thesis by (simp add: apply_payload_def)
qed

lemma added_persisted:
  assumes "states_wf states" "on_controllerId n = c" "apply_added n replaces (inbox_of states c) = Some st'"
  shows "op_triple (loaded_with xs states) (persist_payload env (case replaces of None \<Rightarrow> LogAppend n | Some i \<Rightarrow> LogReplace n i))
      (\<lambda>_ s. \<exists>states'. loaded_with xs states' s \<and> inbox_of states' c = st') (store_over xs)"
proof -
  let ?p = "case replaces of None \<Rightarrow> LogAppend n | Some i \<Rightarrow> LogReplace n i"
  have "payload_controller ?p = c" using assms(2) by (simp split: option.split)
  with added_payload [OF inbox_of_wf [OF assms(1)] assms(3)] have "states_after ?p states (js_set c st' states)"
    by (simp add: states_after_def)
  from persist_triple [OF this] show ?thesis
    by (rule op_triple_weaken) (auto simp: inbox_of_def js_simps)
qed

definition append_post :: "log_record list \<Rightarrow> new_notification \<Rightarrow> inbox_states \<Rightarrow> append_outcome \<Rightarrow> notification_store \<Rightarrow> bool" where
  "append_post xs inp states r s =
     (\<exists>states'. loaded_with xs states' s
        \<and> append_spec (inbox_of states (nn_controllerId inp)) r (inbox_of states' (nn_controllerId inp))
        \<and> set_option (nn_dedupeKey inp) \<subseteq> set (nc_dedupeKeys (inbox_of states' (nn_controllerId inp))))"

lemma append_answer:
  assumes "op_triple P m (\<lambda>_ s. \<exists>states'. loaded_with xs states' s \<and> inbox_of states' (nn_controllerId inp) = st') (store_over xs)"
    and "append_spec (inbox_of states (nn_controllerId inp)) r st'" "set_option (nn_dedupeKey inp) \<subseteq> set (nc_dedupeKeys st')"
  shows "op_triple P (op_then m (op_return r)) (append_post xs inp states) (store_over xs)"
proof (rule op_triple_then [OF assms(1)], rule op_triple_return)
  fix s
  assume "\<exists>states'. loaded_with xs states' s \<and> inbox_of states' (nn_controllerId inp) = st'"
  then show "append_post xs inp states r s" using assms(2,3) unfolding append_post_def by blast
qed

lemma find_found: "find P xs = Some x \<Longrightarrow> x \<in> set xs \<and> P x"
  by (induction xs) (auto split: if_splits)

lemma append_new:
  assumes n: "n = notification_of inp i (nc_headCursor (inbox_of states c) + 1) t" and c: "c = nn_controllerId inp"
    and fresh: "\<not> js_has (nc_records (inbox_of states c)) i"
  shows "op_triple (loaded_with xs states)
    (op_bind (make_space env c (js_get states c) None) (\<lambda>k. op_then (persist_payload env (LogAppend n))
      (op_return \<lparr>ao_outcome = Appended, ao_record = Some n, ao_dropped = k\<rparr>))) (append_post xs inp states) (store_over xs)"
proof (rule op_triple_bind [OF make_space_triple], rule op_triple_ex, rule triple_conj)
  fix k states1
  let ?st = "inbox_of states c" and ?st1 = "inbox_of states1 c"
  assume space: "space_made ?st k ?st1"
  let ?r = "\<lparr>ao_outcome = Appended, ao_record = Some n, ao_dropped = k\<rparr>"
  have n': "on_cursor n = nc_headCursor ?st1 + 1" "on_id n = i" "on_acknowledgedAt n = None" "on_noticedAt n = None"
    "on_deliveredVia n = []" "on_controllerId n = c" "on_dedupeKey n = nn_dedupeKey inp"
    using space by (simp_all add: n notification_of_def space_made_def c)
  have "\<not> js_has (nc_records ?st1) i" using space fresh unfolding js_has_iff space_made_def by blast
  with n' space obtain st' where st': "apply_added n None ?st1 = Some st'"
    by (auto simp: apply_added_def records_without_def space_made_def simp del: length_pending)
  have "append_spec ?st ?r st'" if "states_wf states1"
  proof -
    have pend: "pending st' = pending ?st1 @ [n]" using pending_added [OF st' wf_core [OF inbox_of_wf [OF that]]] by simp
    have basics: "unacknowledged n \<and> on_cursor n = nc_headCursor ?st + 1 \<and> nc_headCursor st' = on_cursor n
        \<and> nc_totalDropped st' = nc_totalDropped ?st + k"
      using space added_totals [OF st'] n'(1,3) by (simp add: unacknowledged_def space_made_def)
    show ?thesis
    proof (cases "k = 0")
      case True
      with basics pend space show ?thesis by (simp add: append_spec_def space_made_def)
    next
      case False
      with space obtain v where "v \<in> set (pending ?st)" "\<forall>m\<in>set (pending ?st). drop_order v m \<le> 0"
        "pending ?st1 = filter (\<lambda>m. on_id m \<noteq> on_id v) (pending ?st)" "k = 1"
        "length (pending ?st) = maxUnacknowledgedPerController"
        unfolding space_made_def by (metis (no_types, lifting))
      with basics pend show ?thesis
        unfolding append_spec_def by (intro exI [of _ n]) (simp del: length_pending, blast)
    qed
  qed
  note spec = this
  have keys: "set_option (nn_dedupeKey inp) \<subseteq> set (nc_dedupeKeys st')" using added_totals [OF st'] n'(7) by simp
  show "op_triple (loaded_with xs states1)
      (op_then (persist_payload env (LogAppend n)) (op_return ?r)) (append_post xs inp states) (store_over xs)"
  proof (rule wf_triple)
    assume wf: "states_wf states1"
    show ?thesis
      by (rule append_answer [OF added_persisted [OF wf n'(6) st', of xs env, unfolded c option.case] spec [OF wf, unfolded c] keys])
  qed
qed

lemma append_replacing:
  assumes n: "n = notification_of inp i (nc_headCursor (inbox_of states c) + 1) t" and c: "c = nn_controllerId inp"
    and fresh: "\<not> js_has (nc_records (inbox_of states c)) i" and v: "matching (nn_dedupeKey inp) (js_get states c) = Some v"
  shows "op_triple (loaded_with xs states)
    (op_bind (make_space env c (js_get states c) (Some (on_id v))) (\<lambda>k. op_then (persist_payload env (LogReplace n (on_id v)))
      (op_return \<lparr>ao_outcome = Replaced, ao_record = Some n, ao_dropped = k\<rparr>))) (append_post xs inp states) (store_over xs)"
proof (rule wf_triple)
  let ?st = "inbox_of states c"
  let ?r = "\<lparr>ao_outcome = Replaced, ao_record = Some n, ao_dropped = 0\<rparr>"
  assume wf: "states_wf states"
  note core = wf_core [OF inbox_of_wf [OF wf, of c]]
  have v': "v \<in> set (pending ?st)" "has_key (nn_dedupeKey inp) v"
    using v by (auto simp: matching_def inbox_of_def set_pending simp del: set_map dest!: find_found split: option.splits)
  note got = pending_get [OF core v'(1)]
  have n': "on_cursor n = nc_headCursor ?st + 1" "on_id n = i" "on_acknowledgedAt n = None" "on_noticedAt n = None"
    "on_deliveredVia n = []" "on_controllerId n = c" "on_dedupeKey n = nn_dedupeKey inp"
    by (simp_all add: n notification_of_def c)
  have recs: "records_without n (Some (on_id v)) ?st = Some (filter (\<lambda>p. fst p \<noteq> on_id v) (nc_records ?st))"
    using got(1,2) v'(2) n'(7) by (auto simp: records_without_def js_delete_filter has_key_def)
  have "pending (?st\<lparr>nc_records := filter (\<lambda>p. fst p \<noteq> on_id v) (nc_records ?st)\<rparr>) = filter (\<lambda>m. on_id m \<noteq> on_id v) (pending ?st)"
    using filter_values [OF inbox_coreD(1) [OF core], of "\<lambda>k. k \<noteq> on_id v"]
    by (simp add: pending_sorted filter_sort filter_filter conj_commute)
  moreover have "length (filter (\<lambda>m. on_id m \<noteq> on_id v) (pending ?st)) < length (pending ?st)"
    by (rule length_filter_less [OF v'(1)]) simp
  ultimately have "length (pending (?st\<lparr>nc_records := filter (\<lambda>p. fst p \<noteq> on_id v) (nc_records ?st)\<rparr>)) < maxUnacknowledgedPerController"
    using inbox_coreD(4) [OF core] by simp
  with n' fresh recs obtain st' where st': "apply_added n (Some (on_id v)) ?st = Some st'"
    by (auto simp: apply_added_def simp del: length_pending)
  have "append_spec ?st ?r st'"
    using pending_added [OF st' core] added_totals [OF st'] n' v' unfolding append_spec_def
    by (auto simp: unacknowledged_def has_key_def simp del: length_pending intro!: bexI [of _ v])
  moreover have "set_option (nn_dedupeKey inp) \<subseteq> set (nc_dedupeKeys st')" using added_totals [OF st'] n'(7) by simp
  ultimately have "op_triple (loaded_with xs states)
      (op_then (persist_payload env (LogReplace n (on_id v))) (op_return ?r)) (append_post xs inp states) (store_over xs)"
    using added_persisted [OF wf n'(6) st', of xs env] unfolding c by (intro append_answer [where st' = st']) simp_all
  moreover have "make_space env c (js_get states c) (Some (on_id v)) = op_return 0"
    by (simp add: make_space_def split: option.split)
  moreover have "op_bind (op_return 0) f = f (0 :: nat)" for f :: "nat \<Rightarrow> append_outcome inbox_op"
    by (rule ext) simp
  ultimately show ?thesis by (simp only:)
qed

definition append_answered ::
  "log_record list \<Rightarrow> new_notification \<Rightarrow> inbox_states \<Rightarrow> append_outcome \<Rightarrow> notification_store \<Rightarrow> bool" where
  "append_answered xs inp states r s =
     (if ao_outcome r = Duplicate
      then loaded_with xs states s \<and> ao_dropped r = 0 \<and> known_key (nn_dedupeKey inp) (js_get states (nn_controllerId inp))
      else append_post xs inp states r s)"

lemma append_post_answered: "append_post xs inp states r s \<Longrightarrow> append_answered xs inp states r s"
  by (auto simp: append_answered_def append_post_def append_spec_def split: if_splits)

lemma add_triple:
  assumes "replaces = None \<or> (\<exists>v. replaces = Some (on_id v) \<and> matching (nn_dedupeKey inp) (js_get states (nn_controllerId inp)) = Some v)"
  shows "op_triple (loaded_with xs states) (add_notification env inp replaces (js_get states (nn_controllerId inp)))
    (append_post xs inp states) (store_over xs)"
proof -
  let ?c = "nn_controllerId inp"
  have created: "op_triple (loaded_with xs states) (case nn_createdAt inp of Some t \<Rightarrow> op_return t | None \<Rightarrow> inbox_ask (ne_clock env))
      (\<lambda>_. loaded_with xs states) (store_over xs)"
    using inbox_ask_triple by (auto intro: op_triple_return split: option.split)
  have head: "(case js_get states ?c of None \<Rightarrow> 0 | Some st \<Rightarrow> nc_headCursor st) = nc_headCursor (inbox_of states ?c)"
    and has: "(case js_get states ?c of None \<Rightarrow> False | Some st \<Rightarrow> js_has (nc_records st) i) = js_has (nc_records (inbox_of states ?c)) i" for i
    by (simp_all add: inbox_of_def new_inbox_def js_has_def split: option.split)
  show ?thesis unfolding add_notification_def head has Let_def
  proof (intro op_triple_bind [OF inbox_ask_triple] op_triple_bind [OF created])
    fix i t
    let ?n = "notification_of inp i (nc_headCursor (inbox_of states ?c) + 1) t"
    let ?work = "op_bind (make_space env ?c (js_get states ?c) replaces) (\<lambda>k.
      op_then (persist_payload env (case replaces of None \<Rightarrow> LogAppend ?n | Some r \<Rightarrow> LogReplace ?n r))
        (op_return \<lparr>ao_outcome = (if replaces = None then Appended else Replaced), ao_record = Some ?n, ao_dropped = k\<rparr>))"
    have work: "op_triple (loaded_with xs states) ?work (append_post xs inp states) (store_over xs)"
      if "\<not> js_has (nc_records (inbox_of states ?c)) i"
      using assms
    proof
      assume "replaces = None"
      with append_new [OF refl refl that, of xs env t] show ?thesis by (simp only: option.case if_True simp_thms)
    next
      assume "\<exists>v. replaces = Some (on_id v) \<and> matching (nn_dedupeKey inp) (js_get states ?c) = Some v"
      then obtain v where v: "replaces = Some (on_id v)" "matching (nn_dedupeKey inp) (js_get states ?c) = Some v" by blast
      with append_replacing [OF refl refl that v(2), of xs env t] show ?thesis
        by (simp only: option.case option.distinct if_False)
    qed
    show "op_triple (loaded_with xs states)
       (if \<not> ne_isUuid env i then op_throw InboxInvalid
        else if js_has (nc_records (inbox_of states ?c)) i then op_throw InboxCorrupt else ?work)
       (append_post xs inp states) (store_over xs)"
      using work by (cases "ne_isUuid env i"; cases "js_has (nc_records (inbox_of states ?c)) i")
        (simp_all only: if_True if_False not_True_eq_False not_False_eq_True op_triple_throw [OF loaded_with_over] simp_thms)
  qed
qed

lemma append_triple:
  "op_triple (loaded_with xs states) (append_notification env inp dedupe) (append_answered xs inp states) (store_over xs)"
proof (cases "new_valid env inp")
  case False
  then show ?thesis by (simp add: append_notification_def op_triple_throw loaded_with_over)
next
  case True
  let ?c = "nn_controllerId inp"
  let ?work = "\<lambda>st. if dedupe = DedupeOnce \<and> known_key (nn_dedupeKey inp) st
     then op_return \<lparr>ao_outcome = Duplicate, ao_record = retained_record (nn_dedupeKey inp) st, ao_dropped = 0\<rparr>
     else add_notification env inp (if dedupe = DedupeReplace then map_option on_id (matching (nn_dedupeKey inp) st) else None) st"
  have "op_triple (loaded_with xs states) (?work (js_get states ?c)) (append_answered xs inp states) (store_over xs)"
  proof (cases "dedupe = DedupeOnce \<and> known_key (nn_dedupeKey inp) (js_get states ?c)")
    case True
    then show ?thesis by (auto intro!: op_triple_return simp: append_answered_def)
  next
    case False
    let ?r = "if dedupe = DedupeReplace then map_option on_id (matching (nn_dedupeKey inp) (js_get states ?c)) else None"
    have "?r = None \<or> (\<exists>v. ?r = Some (on_id v) \<and> matching (nn_dedupeKey inp) (js_get states ?c) = Some v)"
      by (cases "matching (nn_dedupeKey inp) (js_get states ?c)") auto
    from op_triple_weaken [OF add_triple [OF this]] append_post_answered False show ?thesis
      by (simp only: if_False)
  qed
  then have "op_triple (loaded_with xs states) (op_bind (op_gets (\<lambda>s. js_get (ns_states s) ?c)) ?work)
      (append_answered xs inp states) (store_over xs)"
    by (rule triple_of_states [where g = "\<lambda>states. js_get states ?c"])
  moreover have "append_notification env inp dedupe s = op_bind (op_gets (\<lambda>s. js_get (ns_states s) ?c)) ?work s"
    if "loaded_with xs states s" for s
    using that True by (simp add: append_notification_def requireLoaded_def op_defs loaded_with_def)
  ultimately show ?thesis unfolding op_triple_def by simp
qed

lemma append_over: "op_triple (store_over xs) (append_notification env inp dedupe) (\<lambda>_. store_over xs) (store_over xs)"
proof (rule op_triple_pointwise)
  fix s
  assume s: "store_over xs s"
  show "op_triple (\<lambda>t. t = s) (append_notification env inp dedupe) (\<lambda>_. store_over xs) (store_over xs)"
  proof (cases "ns_loaded s")
    case True
    with s have pre: "loaded_with xs (ns_states s) s" by (simp add: loaded_with_def)
    have post: "store_over xs t" if "append_answered xs inp states r t" for states r t
      using that by (auto simp: append_answered_def append_post_def loaded_with_over split: if_splits)
    show ?thesis
      by (rule op_triple_weaken [OF append_triple [of xs "ns_states s" env inp dedupe]]) (simp_all add: pre post)
  next
    case False
    then show ?thesis using s
      by (auto simp: op_triple_def append_notification_def requireLoaded_def op_defs)
  qed
qed

subsection \<open>Acknowledging by key\<close>

lemma delivered_then_acknowledged:
  assumes wf: "inbox_wf c st" and n: "n \<in> set (pending st)"
  shows "\<exists>st1. apply_payload (LogDeliver c [on_id n] via t) st = Some st1
    \<and> apply_change (LogAcknowledge c (on_cursor n) t' (Some [on_id n])) st1 \<noteq> None"
proof -
  note core = wf_core [OF wf] and got = pending_get [OF wf_core [OF wf] n]
  obtain u where u: "apply_each (deliver_one via t) [on_id n] st = Some u"
    using deliver_applies [of st "[on_id n]" via t] got(3) by auto
  then have st1: "apply_payload (LogDeliver c [on_id n] via t) st = Some (retire_old u)"
    by (simp add: apply_payload_def apply_change_def)
  have "still_pending st n" using got by (auto simp: still_pending_def)
  from survives_delivers [OF u core this] obtain m where m: "js_get (nc_records u) (on_id n) = Some m"
    "unacknowledged m" "same_message m n" by (auto simp: still_pending_def)
  have "inbox_core c u" by (rule apply_each_inv [where I = "inbox_core c", OF core_deliver u core])
  from retire_old_keeps [OF this m(1,2)] same_messageD(2) [OF m(3)] st1 show ?thesis
    by (simp add: apply_change_def apply_acknowledge_def)
qed

lemma acknowledge_found_over:
  assumes "\<And>t. apply_change (LogAcknowledge c (on_cursor n) t (Some [on_id n])) st1 \<noteq> None"
  shows "op_triple (loaded_with xs (js_set c st1 states)) (acknowledge_found env c n) (\<lambda>_. store_over xs) (store_over xs)"
  unfolding acknowledge_found_def
proof (intro op_triple_bind [OF inbox_ask_triple] triple_of_states [where g = "\<lambda>states. js_get (nc_records (inbox_of states c)) (on_id n)"])
  fix t
  have "\<exists>states'. states_after (LogAcknowledge c (on_cursor n) t (Some [on_id n])) (js_set c st1 states) states'"
    by (rule states_afterI) (use assms in \<open>simp add: inbox_of_def js_simps\<close>)
  then obtain states' where "states_after (LogAcknowledge c (on_cursor n) t (Some [on_id n])) (js_set c st1 states) states'" ..
  from persist_triple [OF this] show "op_triple (loaded_with xs (js_set c st1 states))
      (op_then (persist_payload env (LogAcknowledge c (on_cursor n) t (Some [on_id n]))) (op_return r))
      (\<lambda>_. store_over xs) (store_over xs)" for r
    by (rule op_triple_then) (rule op_triple_return, rule loaded_with_over)
qed

lemma acknowledgeByDedupeKey_over:
  "op_triple (store_over xs) (acknowledgeByDedupeKey env c key via) (\<lambda>_. store_over xs) (store_over xs)"
proof -
  have deliver: "op_triple (loaded_with xs states) (op_then (persist_payload env (LogDeliver c [on_id n] via t)) (acknowledge_found env c n))
      (\<lambda>_. store_over xs) (store_over xs)"
    if wf: "states_wf states" and n: "n \<in> set (pending (inbox_of states c))" for states n t
  proof -
    obtain st1 where st1: "apply_payload (LogDeliver c [on_id n] via t) (inbox_of states c) = Some st1"
      using delivered_then_acknowledged [OF inbox_of_wf [OF wf] n] by blast
    then have ack: "apply_change (LogAcknowledge c (on_cursor n) t' (Some [on_id n])) st1 \<noteq> None" for t'
      using delivered_then_acknowledged [OF inbox_of_wf [OF wf] n, of via t t'] by auto
    have "states_after (LogDeliver c [on_id n] via t) states (js_set c st1 states)"
      using st1 by (simp add: states_after_def)
    from op_triple_then [OF persist_triple [OF this] acknowledge_found_over [OF ack]] show ?thesis .
  qed
  have "op_triple (loaded_with xs states)
      (case find (\<lambda>n. on_dedupeKey n = Some key) (pending (inbox_of states c)) of None \<Rightarrow> op_return None
       | Some n \<Rightarrow> op_bind (inbox_ask (ne_clock env)) (\<lambda>t.
           op_then (persist_payload env (LogDeliver c [on_id n] via t)) (acknowledge_found env c n)))
      (\<lambda>_. store_over xs) (store_over xs)" for states
  proof (rule wf_triple)
    assume wf: "states_wf states"
    show ?thesis
    proof (cases "find (\<lambda>n. on_dedupeKey n = Some key) (pending (inbox_of states c))")
      case None
      then show ?thesis by (simp add: op_triple_return loaded_with_over)
    next
      case (Some n)
      with find_found have "n \<in> set (pending (inbox_of states c))" by fastforce
      from op_triple_bind [OF inbox_ask_triple deliver [OF wf this]] Some show ?thesis by simp
    qed
  qed
  then show ?thesis unfolding acknowledgeByDedupeKey_def by (intro triple_loaded triple_of_states)
qed

subsection \<open>The inbox as a machine\<close>

datatype inbox_call =
    InboxLoad
  | InboxAppend new_notification dedupe_mode
  | InboxAckThrough ident nat
  | InboxAckIds ident "ident list"
  | InboxAckKey ident string delivery_channel
  | InboxDelivered ident "ident list" delivery_channel
  | InboxNoticed ident nat
  | InboxSetPolicy ident notification_policy
  | InboxRestart

text \<open>A new process has only the file.\<close>

definition fresh_store :: "log_file \<Rightarrow> nat \<Rightarrow> notification_store" where
  "fresh_store f k = \<lparr>ns_states = [], ns_recordIds = [], ns_loaded = False, ns_crashTail = None, ns_file = f,
     ns_announced = [], ns_tick = k\<rparr>"

definition inbox_start :: notification_store where
  "inbox_start = fresh_store \<lparr>lf_lines = [], lf_tail = False\<rparr> 0"

fun inbox_step :: "inbox_env \<Rightarrow> inbox_call \<Rightarrow> notification_store \<Rightarrow> notification_store" where
  "inbox_step env InboxLoad s = snd (load_inbox env s)"
| "inbox_step env (InboxAppend inp dedupe) s = snd (append_notification env inp dedupe s)"
| "inbox_step env (InboxAckThrough c cursor) s = snd (acknowledgeThrough env c cursor s)"
| "inbox_step env (InboxAckIds c ids) s = snd (acknowledgeIds env c ids s)"
| "inbox_step env (InboxAckKey c key via) s = snd (acknowledgeByDedupeKey env c key via s)"
| "inbox_step env (InboxDelivered c ids via) s = snd (markDelivered env c ids via s)"
| "inbox_step env (InboxNoticed c cursor) s = snd (markNoticed env c cursor s)"
| "inbox_step env (InboxSetPolicy c policy) s = snd (setPolicy env c policy s)"
| "inbox_step env InboxRestart s = fresh_store (ns_file s) (ns_tick s)"

definition inbox_run :: "inbox_env \<Rightarrow> inbox_call list \<Rightarrow> notification_store \<Rightarrow> notification_store" where
  "inbox_run env cs s = fold (inbox_step env) cs s"

lemma restart_over: "store_over xs s \<Longrightarrow> store_over xs (fresh_store (ns_file s) k)"
  by (auto simp: store_over_def log_records_def fresh_store_def)

lemma step_over: "store_over xs s \<Longrightarrow> store_over xs (inbox_step env c s)"
proof (cases c)
  case InboxLoad
  moreover assume "store_over xs s"
  moreover have "op_triple (store_over xs) (load_inbox env) (\<lambda>_. store_over xs) (store_over xs)"
    by (rule op_triple_weaken [OF load_over]) simp_all
  ultimately show ?thesis using op_triple_snd by fastforce
qed (auto intro: restart_over op_triple_snd [OF append_over] op_triple_snd [OF acknowledgeThrough_over]
  op_triple_snd [OF acknowledgeIds_over] op_triple_snd [OF acknowledgeByDedupeKey_over] op_triple_snd [OF markDelivered_over]
  op_triple_snd [OF markNoticed_over] op_triple_snd [OF setPolicy_over])

interpretation inbox: stepping "inbox_step env" "store_over xs" for env xs
  by unfold_locales (rule step_over)

lemma start_over: "store_over [] inbox_start"
  by (auto simp: store_over_def log_records_def inbox_start_def fresh_store_def replay_log_def intro!: exI [of _ "[]"])

lemma run_over: "store_over xs s \<Longrightarrow> store_over xs (inbox_run env cs s)"
  unfolding inbox_run_def by (rule inbox.run_inv)

lemma run_logged: "\<exists>rs. log_records (inbox_run env cs inbox_start) rs"
  using run_over [OF start_over] by (auto simp: store_over_def)

subsection \<open>The log always loads\<close>

text \<open>
  C9. The inbox never corrupts its own log and never loses a committed record. After any run of calls,
  reloads and restarts, with writes that fail before, in the middle of or after the line, the complete
  lines of the file are records, a load of a readable file succeeds, and a loaded store has exactly the
  replay of the file in memory; the lines the file had stay its first lines through any further run.
\<close>

theorem inbox_log_always_loads:
  assumes s: "s = inbox_run env cs inbox_start"
  shows "\<exists>rs. lf_lines (ns_file s) = map LineRecord rs
    \<and> (ns_loaded s \<longrightarrow> replay_log rs = Some (ns_states s))
    \<and> (ne_readable env (ns_tick s) \<longrightarrow>
         (\<exists>t. load_inbox env s = (Inr (), t) \<and> ns_loaded t \<and> replay_log rs = Some (ns_states t) \<and> ns_file t = ns_file s))
    \<and> (\<exists>later. lf_lines (ns_file (inbox_run env cs' s)) = map LineRecord (rs @ later))"
proof -
  obtain rs where rs: "log_records s rs" using run_logged s by blast
  then obtain states where states: "replay_log rs = Some states" by (auto simp: log_records_def)
  have unloaded: "log_records (s\<lparr>ns_loaded := False\<rparr>) rs" by (rule unloaded_records [OF rs])
  have "\<exists>t. load_inbox env s = (Inr (), t) \<and> ns_loaded t \<and> replay_log rs = Some (ns_states t) \<and> ns_file t = ns_file s"
    if "ne_readable env (ns_tick s)"
    using that states log_records_read [OF unloaded] by (simp add: load_inbox_def inbox_ask_def op_defs)
  moreover have "store_over rs s" using rs unfolding store_over_def by (intro exI [of _ "[]"]) simp
  then have "store_over rs (inbox_run env cs' s)" by (rule run_over)
  then have "\<exists>later. lf_lines (ns_file (inbox_run env cs' s)) = map LineRecord (rs @ later)"
    by (auto simp: store_over_def log_records_def)
  ultimately show ?thesis using rs by (intro exI [of _ rs]) (auto simp: log_records_def)
qed

subsection \<open>Bounds\<close>

definition adds :: "log_payload \<Rightarrow> bool" where
  "adds p = (case p of LogAppend _ \<Rightarrow> True | LogReplace _ _ \<Rightarrow> True | _ \<Rightarrow> False)"

lemma deliver_head: "deliver_one via t i st = Some st' \<Longrightarrow> nc_headCursor st' = nc_headCursor st"
  by (auto simp: deliver_one_def split: option.splits)

lemma change_head: "apply_change p st = Some st' \<Longrightarrow> nc_headCursor st' = nc_headCursor st + (if adds p then 1 else 0)"
proof (cases p)
  case (LogDeliver c ids via t)
  moreover assume "apply_change p st = Some st'"
  ultimately have "apply_each (deliver_one via t) ids st = Some st'" by (simp add: apply_change_def)
  from apply_each_inv [where I = "\<lambda>u. nc_headCursor u = nc_headCursor st", OF _ this] LogDeliver show ?thesis
    by (simp add: adds_def deliver_head)
next
  case (LogDrop c ids t)
  moreover assume "apply_change p st = Some st'"
  ultimately have "apply_each drop_one ids st = Some st'" by (simp add: apply_change_def)
  from apply_each_inv [where I = "\<lambda>u. nc_headCursor u = nc_headCursor st", OF _ this] LogDrop show ?thesis
    by (simp add: adds_def drop_one_filter(3))
qed (auto simp: apply_change_def adds_def dest: added_totals acknowledge_marks(3) split: if_splits)

lemma payload_head: "apply_payload p st = Some st' \<Longrightarrow> nc_headCursor st' = nc_headCursor st + (if adds p then 1 else 0)"
  using change_head by (auto simp: apply_payload_def retire_old_def)

definition added_to :: "ident \<Rightarrow> log_record list \<Rightarrow> nat" where
  "added_to c rs = length (filter (\<lambda>r. adds (lr_payload r) \<and> payload_controller (lr_payload r) = c) rs)"

lemma inbox_of_record:
  "apply_record r states = Some states' \<Longrightarrow>
     if payload_controller (lr_payload r) = c then apply_payload (lr_payload r) (inbox_of states c) = Some (inbox_of states' c)
     else inbox_of states' c = inbox_of states c"
  by (auto simp: apply_record_def Let_def inbox_of_def js_simps)

lemma replay_snocD:
  assumes "replay_log (rs @ [r]) = Some states'"
  obtains states where "replay_log rs = Some states" "apply_record r states = Some states'"
  using assms by (auto simp: replay_log_def apply_each_append split: option.splits)

lemma replay_head: "replay_log rs = Some states \<Longrightarrow> nc_headCursor (inbox_of states c) = added_to c rs"
proof (induction rs arbitrary: states rule: rev_induct)
  case Nil
  then show ?case by (simp add: replay_log_def inbox_of_def new_inbox_def added_to_def)
next
  case (snoc r rs)
  from snoc.prems obtain states0 where s0: "replay_log rs = Some states0" "apply_record r states0 = Some states"
    by (rule replay_snocD)
  from snoc.IH [OF s0(1)] inbox_of_record [OF s0(2), of c] show ?case
    by (auto simp: added_to_def payload_head split: if_splits)
qed

text \<open>
  Inboxes stay within their bounds along every run with failing writes, reloads and restarts: a
  controller never has more than 200 unacknowledged and 100 acknowledged notifications in memory, no
  two of its notifications share a cursor, and its head cursor counts every notification ever written
  for it, so cursors are given out without a gap and none lies beyond the head.
\<close>

theorem inbox_bounded:
  assumes s: "s = inbox_run env cs inbox_start" and "ns_loaded s"
  shows "length (pending (inbox_of (ns_states s) c)) \<le> maxUnacknowledgedPerController
    \<and> acknowledged_count (inbox_of (ns_states s) c) \<le> 100
    \<and> distinct (map on_cursor (inbox_values (inbox_of (ns_states s) c)))
    \<and> (\<forall>n\<in>set (inbox_values (inbox_of (ns_states s) c)). on_cursor n \<le> nc_headCursor (inbox_of (ns_states s) c))
    \<and> nc_lastNoticedCursor (inbox_of (ns_states s) c) \<le> nc_headCursor (inbox_of (ns_states s) c)
    \<and> (\<exists>rs. lf_lines (ns_file s) = map LineRecord rs \<and> nc_headCursor (inbox_of (ns_states s) c) = added_to c rs)"
proof -
  obtain rs where rs: "log_records s rs" using run_logged s by blast
  with assms(2) have replay: "replay_log rs = Some (ns_states s)" and "lines": "lf_lines (ns_file s) = map LineRecord rs"
    by (simp_all add: log_records_def)
  note wf = inbox_of_wf [OF replay_wf [OF replay], of c]
  note core = inbox_coreD [OF wf_core [OF wf]]
  have "\<forall>n\<in>set (inbox_values (inbox_of (ns_states s) c)). on_cursor n \<le> nc_headCursor (inbox_of (ns_states s) c)"
    using core(3) unfolding list_all_iff sound_message_def by blast
  with core(2,4,5) wf "lines" replay_head [OF replay, of c] show ?thesis
    unfolding length_pending inbox_wf_def by blast
qed

subsection \<open>No notification is lost silently\<close>

definition added_notification :: "log_payload \<Rightarrow> notification option" where
  "added_notification p = (case p of LogAppend n \<Rightarrow> Some n | LogReplace n _ \<Rightarrow> Some n | _ \<Rightarrow> None)"

lemma added_is_pending:
  assumes "inbox_wf (payload_controller p) st" "apply_payload p st = Some st'" "added_notification p = Some n"
  shows "still_pending st' n"
proof -
  note core = wf_core [OF assms(1)]
  from assms(2) obtain u where u: "apply_change p st = Some u" "st' = retire_old u" by (auto simp: apply_payload_def)
  from u(1) assms(3) obtain replaces where added: "apply_added n replaces st = Some u"
    by (cases p) (auto simp: apply_change_def added_notification_def)
  from added_records [OF added inbox_coreD(1) [OF core]] obtain recs where
    "nc_records u = recs @ [(on_id n, n)]" "on_id n \<notin> set (js_keys recs)" "unacknowledged n" by blast
  then have "js_get (nc_records u) (on_id n) = Some n" "unacknowledged n"
    by (simp_all add: map_add_def map_of_eq_None_iff [THEN iffD2])
  from retire_old_keeps [OF core_applied [OF core u(1)] this] this(2) show ?thesis
    by (simp add: still_pending_def u(2))
qed

lemma added_controller: "added_notification p = Some n \<Longrightarrow> payload_controller p = on_controllerId n"
  by (cases p) (auto simp: added_notification_def)

lemma replay_accounts:
  assumes "replay_log rs = Some states" "i < length rs" "added_notification (lr_payload (rs ! i)) = Some n"
  shows "still_pending (inbox_of states (on_controllerId n)) n \<or> (\<exists>j>i. j < length rs \<and> retires (lr_payload (rs ! j)) n)"
  using assms
proof (induction rs arbitrary: states rule: rev_induct)
  case (snoc r rs)
  from snoc.prems(1) obtain states0 where s0: "replay_log rs = Some states0" "apply_record r states0 = Some states"
    by (rule replay_snocD)
  let ?c = "on_controllerId n" and ?p = "lr_payload r"
  note wf = inbox_of_wf [OF replay_wf [OF s0(1)], of ?c] and step = inbox_of_record [OF s0(2), of ?c]
  show ?case
  proof (cases "i = length rs")
    case True
    with snoc.prems(3) have added: "added_notification ?p = Some n" by simp
    from added_controller [OF added] step wf added_is_pending [OF _ _ added] show ?thesis by simp
  next
    case False
    with snoc.prems have i: "i < length rs" "added_notification (lr_payload (rs ! i)) = Some n"
      by (simp_all add: nth_append)
    consider (kept) "still_pending (inbox_of states0 ?c) n" | (gone) j where "j > i" "j < length rs" "retires (lr_payload (rs ! j)) n"
      using snoc.IH [OF s0(1) i] by blast
    then show ?thesis
    proof cases
      case kept
      show ?thesis
      proof (cases "retires ?p n")
        case True
        then show ?thesis using i(1) by (intro disjI2 exI [of _ "length rs"]) simp
      next
        case False
        have "still_pending (inbox_of states ?c) n"
        proof (cases "payload_controller ?p = ?c")
          case c: True
          show ?thesis
            by (rule survives_payload [OF _ _ kept _ False]) (use c step wf in simp_all)
        next
          case other: False
          with step kept show ?thesis by (simp only: if_False)
        qed
        then show ?thesis ..
      qed
    next
      case gone
      then show ?thesis by (intro disjI2 exI [of _ j]) (simp add: nth_append)
    qed
  qed
qed simp

lemma still_pending_in: "inbox_core c st \<Longrightarrow> still_pending st n \<Longrightarrow> \<exists>m\<in>set (pending st). same_message m n"
proof -
  assume core: "inbox_core c st" and "still_pending st n"
  then obtain m where m: "js_get (nc_records st) (on_id n) = Some m" "unacknowledged m" "same_message m n"
    by (auto simp: still_pending_def)
  then have "m \<in> set (inbox_values st)" using in_js_values [OF keyed_wf [OF inbox_coreD(1) [OF core]]] by blast
  with m show ?thesis unfolding set_pending by blast
qed

text \<open>
  C10. No notification is lost silently. Every notification the log ever recorded for a controller is
  among its pending ones, with the content it was written with, or a later record of the log names it:
  an acknowledgement that covers it, a drop, or a replacement by one with the same key. This holds in
  every loaded store, whatever writes failed and however often the process was restarted.
\<close>

theorem notification_accounted:
  assumes s: "s = inbox_run env cs inbox_start" and "ns_loaded s" and "lines": "lf_lines (ns_file s) = map LineRecord rs"
    and "i < length rs" "added_notification (lr_payload (rs ! i)) = Some n"
  shows "(\<exists>m\<in>set (pending (inbox_of (ns_states s) (on_controllerId n))). same_message m n)
    \<or> (\<exists>j>i. j < length rs \<and> retires (lr_payload (rs ! j)) n)"
proof -
  obtain rs' where rs': "log_records s rs'" using run_logged s by blast
  with "lines" have "map LineRecord rs' = map LineRecord rs" by (simp add: log_records_def)
  then have "rs' = rs" by (metis log_line.inject inj_map_eq_map injI)
  with rs' assms(2) have replay: "replay_log rs = Some (ns_states s)" by (simp add: log_records_def)
  from replay_accounts [OF replay assms(4,5)] still_pending_in [OF wf_core [OF inbox_of_wf [OF replay_wf [OF replay]]]]
  show ?thesis by blast
qed

subsection \<open>What an append does\<close>

lemma loaded_start:
  assumes "s = inbox_run env cs inbox_start" "ns_loaded s"
  obtains xs where "loaded_with xs (ns_states s) s" "replay_log xs = Some (ns_states s)"
proof -
  obtain rs where rs: "log_records s rs" using run_logged assms(1) by blast
  then have "store_over rs s" unfolding store_over_def by (intro exI [of _ "[]"]) simp
  with rs assms(2) that [of rs] show thesis by (simp add: loaded_with_def log_records_def)
qed

lemma append_needs_load: "append_notification env inp dedupe s = (Inr r, t) \<Longrightarrow> ns_loaded s"
  by (cases "ns_loaded s") (auto simp: append_notification_def requireLoaded_def op_defs split: if_splits)

text \<open>
  C11. What an answered append does, from any state the inbox can reach. It gives the notification the next cursor
  and puts it behind the pending ones. Nothing is dropped while there is room; a full inbox drops
  exactly one notification, the oldest of the lowest kind present, and counts it; a replacement removes
  the pending notification of the same key and drops nothing; a duplicate changes nothing.
\<close>

theorem append_effect:
  assumes s: "s = inbox_run env cs inbox_start" and call: "append_notification env inp dedupe s = (Inr r, t)"
  shows "ns_loaded t
    \<and> (if ao_outcome r = Duplicate
       then ns_states t = ns_states s \<and> ao_dropped r = 0 \<and> known_key (nn_dedupeKey inp) (js_get (ns_states s) (nn_controllerId inp))
       else append_spec (inbox_of (ns_states s) (nn_controllerId inp)) r (inbox_of (ns_states t) (nn_controllerId inp)))"
proof -
  obtain xs where "loaded_with xs (ns_states s) s" using loaded_start [OF s append_needs_load [OF call]] by blast
  from op_tripleD [OF append_triple this call] show ?thesis
    by (auto simp: append_answered_def append_post_def loaded_with_def split: if_splits)
qed

subsection \<open>Keys are used once\<close>

lemma deliver_keys: "deliver_one via t i st = Some st' \<Longrightarrow> nc_dedupeKeys st' = nc_dedupeKeys st"
  by (auto simp: deliver_one_def split: option.splits)

lemma payload_keys: "apply_payload p st = Some st' \<Longrightarrow> set (nc_dedupeKeys st) \<subseteq> set (nc_dedupeKeys st')"
proof -
  assume "apply_payload p st = Some st'"
  then obtain u where u: "apply_change p st = Some u" "st' = retire_old u" by (auto simp: apply_payload_def)
  have "set (nc_dedupeKeys st) \<subseteq> set (nc_dedupeKeys u)"
  proof (cases p)
    case (LogDeliver c ids via t)
    with u(1) have "apply_each (deliver_one via t) ids st = Some u" by (simp add: apply_change_def)
    from apply_each_inv [where I = "\<lambda>v. nc_dedupeKeys v = nc_dedupeKeys st", OF _ this] show ?thesis
      by (simp add: deliver_keys)
  next
    case (LogDrop c ids t)
    with u(1) have "apply_each drop_one ids st = Some u" by (simp add: apply_change_def)
    from apply_each_inv [where I = "\<lambda>v. nc_dedupeKeys v = nc_dedupeKeys st", OF _ this] show ?thesis
      by (simp add: drop_one_filter(2))
  qed (use u(1) in \<open>auto simp: apply_change_def dest: added_totals acknowledge_marks(2) split: if_splits\<close>)
  then show ?thesis by (simp add: u(2) retire_old_def)
qed

lemma replay_keys:
  "replay_log (xs @ ys) = Some states' \<Longrightarrow> replay_log xs = Some states \<Longrightarrow>
     set (nc_dedupeKeys (inbox_of states c)) \<subseteq> set (nc_dedupeKeys (inbox_of states' c))"
proof (induction ys arbitrary: states' rule: rev_induct)
  case (snoc r ys)
  from snoc.prems(1) have "replay_log ((xs @ ys) @ [r]) = Some states'" by simp
  then obtain states0 where s0: "replay_log (xs @ ys) = Some states0" "apply_record r states0 = Some states'"
    by (rule replay_snocD)
  have "set (nc_dedupeKeys (inbox_of states0 c)) \<subseteq> set (nc_dedupeKeys (inbox_of states' c))"
    using inbox_of_record [OF s0(2), of c] by (cases "payload_controller (lr_payload r) = c") (simp_all add: payload_keys)
  with snoc.IH [OF s0(1) snoc.prems(2)] show ?case by (rule order_trans)
qed simp

lemma known_key_iff: "known_key (Some k) (js_get states c) \<longleftrightarrow> k \<in> set (nc_dedupeKeys (inbox_of states c))"
  by (auto simp: known_key_def inbox_of_def new_inbox_def split: option.split)

text \<open>
  C38. A key is used once and for all. After an append with a key was answered, every later append that
  asks for that key once, for the same controller, is answered as a duplicate and changes nothing: after
  acknowledgements, drops and replacements, after failed writes, reloads and restarts of the process.
\<close>

theorem append_once_forever:
  assumes s: "s = inbox_run env cs inbox_start" and call: "append_notification env inp dedupe s = (Inr r, t)"
    and key: "nn_dedupeKey inp = Some k" and u: "u = inbox_run env cs' t" "ns_loaded u"
    and inp': "nn_controllerId inp' = nn_controllerId inp" "nn_dedupeKey inp' = Some k" "new_valid env inp'"
  shows "\<exists>found. append_notification env inp' DedupeOnce u
    = (Inr \<lparr>ao_outcome = Duplicate, ao_record = found, ao_dropped = 0\<rparr>, u)"
proof -
  let ?c = "nn_controllerId inp"
  obtain xs where loaded: "loaded_with xs (ns_states s) s" using loaded_start [OF s append_needs_load [OF call]] by blast
  from op_tripleD [OF append_triple loaded call]
  have t: "loaded_with xs (ns_states t) t" "k \<in> set (nc_dedupeKeys (inbox_of (ns_states t) ?c))"
    using key by (auto simp: append_answered_def append_post_def loaded_with_def known_key_iff split: if_splits)
  from t(1) obtain ys where log: "log_records t (xs @ ys)" "ns_loaded t" by (auto simp: loaded_with_def store_over_def)
  then have replay: "replay_log (xs @ ys) = Some (ns_states t)" by (simp add: log_records_def)
  have "store_over (xs @ ys) t" using log(1) unfolding store_over_def by (intro exI [of _ "[]"]) simp
  then have "store_over (xs @ ys) u" unfolding u(1) by (rule run_over)
  then obtain zs where "replay_log ((xs @ ys) @ zs) = Some (ns_states u)"
    using u(2) by (auto simp: store_over_def log_records_def)
  from replay_keys [OF this replay, of ?c] t(2) have "known_key (nn_dedupeKey inp') (js_get (ns_states u) (nn_controllerId inp'))"
    by (auto simp: inp' known_key_iff)
  with u(2) inp'(3) show ?thesis by (simp add: append_notification_def requireLoaded_def op_defs)
qed

subsection \<open>An inbox with a torn write\<close>

text \<open>The second append is torn in the middle of its line; the store is loaded again and the append repeated.\<close>

definition demo_inbox :: inbox_env where
  "demo_inbox = \<lparr>ne_clock = int, ne_uuid = (\<lambda>n. replicate (Suc n) CHR ''u''), ne_readable = (\<lambda>_. True),
     ne_write = (\<lambda>n. if n = 8 then FailedTorn else Written), ne_isUuid = (\<lambda>i. take 1 i = ''u'')\<rparr>"

definition demo_note :: "string \<Rightarrow> new_notification" where
  "demo_note key = \<lparr>nn_controllerId = ''a'', nn_kind = NkSettled, nn_severity = SevInfo, nn_sessionId = ''u'', nn_workerId = None,
     nn_taskId = None, nn_waveId = None, nn_completionTarget = None, nn_summary = ''s'', nn_refs = [], nn_wakeEligible = True,
     nn_createdAt = Some 0, nn_dedupeKey = Some key\<rparr>"

definition demo_notes :: notification_store where
  "demo_notes = inbox_run demo_inbox [InboxLoad, InboxAppend (demo_note ''k'') DedupeOnce, InboxAppend (demo_note ''l'') DedupeOnce,
     InboxLoad, InboxAppend (demo_note ''l'') DedupeOnce] inbox_start"

definition demo_noted :: "notification_store \<Rightarrow> (bool \<times> bool) \<times> nat list \<times> nat" where
  "demo_noted s = ((ns_loaded s, lf_tail (ns_file s)), map on_cursor (pending (inbox_of (ns_states s) ''a'')), length (lf_lines (ns_file s)))"

lemma demo_notes_view: "demo_noted demo_notes = ((True, False), [1, 2], 2)"
  by code_simp

lemma demo_notes_facts:
  "ns_loaded demo_notes" "map on_cursor (pending (inbox_of (ns_states demo_notes) ''a'')) = [1, 2]"
  "length (lf_lines (ns_file demo_notes)) = 2"
  using demo_notes_view by (simp_all add: demo_noted_def)

lemma demo_read: "ne_readable demo_inbox k"
  by (simp add: demo_inbox_def)

theorem inbox_log_always_loads_witness:
  "\<exists>rs. lf_lines (ns_file demo_notes) = map LineRecord rs \<and> length rs = 2 \<and> replay_log rs = Some (ns_states demo_notes)
    \<and> (\<exists>t. load_inbox demo_inbox demo_notes = (Inr (), t) \<and> ns_loaded t)
    \<and> (\<exists>later. lf_lines (ns_file (inbox_run demo_inbox [InboxRestart] demo_notes)) = map LineRecord (rs @ later))"
proof -
  obtain rs where rs: "lf_lines (ns_file demo_notes) = map LineRecord rs" "replay_log rs = Some (ns_states demo_notes)"
    "\<exists>t. load_inbox demo_inbox demo_notes = (Inr (), t) \<and> ns_loaded t"
    "\<exists>later. lf_lines (ns_file (inbox_run demo_inbox [InboxRestart] demo_notes)) = map LineRecord (rs @ later)"
    using inbox_log_always_loads [OF demo_notes_def, of "[InboxRestart]"] demo_notes_facts demo_read by blast
  then have "length rs = 2" using demo_notes_facts by (metis length_map)
  with rs show ?thesis by blast
qed

theorem inbox_bounded_witness:
  "length (pending (inbox_of (ns_states demo_notes) ''a'')) \<le> maxUnacknowledgedPerController
   \<and> acknowledged_count (inbox_of (ns_states demo_notes) ''a'') \<le> 100
   \<and> map on_cursor (pending (inbox_of (ns_states demo_notes) ''a'')) = [1, 2]"
  using inbox_bounded [OF demo_notes_def, of "''a''"] demo_notes_facts by blast

definition demo_acknowledged :: notification_store where
  "demo_acknowledged = inbox_run demo_inbox [InboxLoad, InboxAppend (demo_note ''k'') DedupeOnce, InboxLoad] inbox_start"

lemma demo_acknowledged_log:
  "ns_loaded demo_acknowledged \<and> (case lf_lines (ns_file demo_acknowledged) of
     [LineRecord r] \<Rightarrow> added_notification (lr_payload r) \<noteq> None | _ \<Rightarrow> False)"
  by code_simp

theorem notification_accounted_witness:
  "\<exists>r n. lf_lines (ns_file demo_acknowledged) = map LineRecord [r] \<and> added_notification (lr_payload r) = Some n
    \<and> (\<exists>m\<in>set (pending (inbox_of (ns_states demo_acknowledged) (on_controllerId n))). same_message m n)"
proof -
  obtain r n where rn: "lf_lines (ns_file demo_acknowledged) = map LineRecord [r]" "added_notification (lr_payload r) = Some n"
    using demo_acknowledged_log
    by (cases "lf_lines (ns_file demo_acknowledged)"; cases "tl (lf_lines (ns_file demo_acknowledged))")
      (auto split: log_line.splits)
  then have "added_notification (lr_payload ([r] ! 0)) = Some n" "0 < length [r]" by simp_all
  with notification_accounted [OF demo_acknowledged_def _ rn(1), of 0 n] demo_acknowledged_log rn show ?thesis by auto
qed

definition demo_empty :: notification_store where
  "demo_empty = inbox_run demo_inbox [InboxLoad] inbox_start"

definition demo_answer :: append_outcome where
  "demo_answer = (case fst (append_notification demo_inbox (demo_note ''k'') DedupeOnce demo_empty) of
     Inr r \<Rightarrow> r | Inl _ \<Rightarrow> \<lparr>ao_outcome = Duplicate, ao_record = None, ao_dropped = 0\<rparr>)"

lemma demo_append:
  "append_notification demo_inbox (demo_note ''k'') DedupeOnce demo_empty
     = (Inr demo_answer, inbox_step demo_inbox (InboxAppend (demo_note ''k'') DedupeOnce) demo_empty)"
  "ao_outcome demo_answer = Appended"
proof -
  have "(case fst (append_notification demo_inbox (demo_note ''k'') DedupeOnce demo_empty) of
      Inr r \<Rightarrow> ao_outcome r = Appended | Inl _ \<Rightarrow> False)" by code_simp
  then show "append_notification demo_inbox (demo_note ''k'') DedupeOnce demo_empty
     = (Inr demo_answer, inbox_step demo_inbox (InboxAppend (demo_note ''k'') DedupeOnce) demo_empty)"
    "ao_outcome demo_answer = Appended"
    by (cases "append_notification demo_inbox (demo_note ''k'') DedupeOnce demo_empty", auto simp: demo_answer_def split: sum.splits)+
qed

theorem append_effect_witness:
  "append_spec (inbox_of (ns_states demo_empty) ''a'') demo_answer
     (inbox_of (ns_states (inbox_step demo_inbox (InboxAppend (demo_note ''k'') DedupeOnce) demo_empty)) ''a'')"
  using append_effect [OF demo_empty_def demo_append(1)] demo_append(2) by (simp add: demo_note_def)

theorem append_once_forever_witness:
  "\<exists>found. append_notification demo_inbox (demo_note ''k'') DedupeOnce
      (inbox_run demo_inbox [InboxAckThrough ''a'' 1, InboxRestart, InboxLoad]
        (inbox_step demo_inbox (InboxAppend (demo_note ''k'') DedupeOnce) demo_empty))
    = (Inr \<lparr>ao_outcome = Duplicate, ao_record = found, ao_dropped = 0\<rparr>,
       inbox_run demo_inbox [InboxAckThrough ''a'' 1, InboxRestart, InboxLoad]
        (inbox_step demo_inbox (InboxAppend (demo_note ''k'') DedupeOnce) demo_empty))"
proof (rule append_once_forever [OF demo_empty_def demo_append(1) _ refl])
  show "ns_loaded (inbox_run demo_inbox [InboxAckThrough ''a'' 1, InboxRestart, InboxLoad]
      (inbox_step demo_inbox (InboxAppend (demo_note ''k'') DedupeOnce) demo_empty))" by code_simp
  show "new_valid demo_inbox (demo_note ''k'')" by code_simp
qed (simp_all add: demo_note_def)

end
