(* ===== verification/Notification_Delivery.thy ===== *)
theory Notification_Delivery
  imports Inbox_Guarantees
begin

text \<open>
  When and how an orchestrator is told of its inbox: the wake budget of
  \<^verbatim>\<open>src/src/broker/orchestrator-notification-wake-budget.ts\<close>, the notice text of
  \<^verbatim>\<open>src/src/domain/orchestrator-notification.ts\<close>, and from
  \<^verbatim>\<open>src/src/broker/orchestrator-notification-delivery.ts\<close> the snapshot of the inbox, the search for an
  eligible record, the test for a notice and the part of \<^verbatim>\<open>wake\<close> that decides, which the
  code runs without an await. The wake itself is an instruction of the queue.
\<close>

subsection \<open>The wake budget\<close>

definition HOUR_MS :: int where
  "HOUR_MS = 60 * 60 * 1000"

record wake_window =
  ww_enqueuedAt :: "instant list"
  ww_zeroWindowStart :: "instant option"

type_synonym wake_windows = "(ident, wake_window) js_map"

definition window_of :: "wake_windows \<Rightarrow> ident \<Rightarrow> wake_window" where
  "window_of ws c =
     (case js_get ws c of None \<Rightarrow> \<lparr>ww_enqueuedAt = [], ww_zeroWindowStart = None\<rparr> | Some w \<Rightarrow> w)"

record wake_allowance =
  al_allowed :: bool
  al_windowStart :: "instant option"
  al_resumeAt :: "instant option"

definition recent_wakes :: "instant \<Rightarrow> wake_window \<Rightarrow> instant list" where
  "recent_wakes now w = filter (\<lambda>t. now - HOUR_MS < t) (ww_enqueuedAt w)"

definition zero_window :: "nat \<Rightarrow> instant \<Rightarrow> instant option \<Rightarrow> instant option" where
  "zero_window maximum now zero =
     (if maximum = 0 \<and> (case zero of None \<Rightarrow> True | Some z \<Rightarrow> z + HOUR_MS \<le> now) then Some now else zero)"

definition hold_start :: "nat \<Rightarrow> wake_window \<Rightarrow> instant option" where
  "hold_start maximum w =
     (if maximum = 0 then ww_zeroWindowStart w
      else Some (ww_enqueuedAt w ! (length (ww_enqueuedAt w) - maximum)))"

definition budget_check :: "ident \<Rightarrow> nat \<Rightarrow> instant \<Rightarrow> wake_windows \<Rightarrow> wake_allowance \<times> wake_windows" where
  "budget_check c maximum now ws =
     (let w = (window_of ws c)\<lparr>ww_enqueuedAt := recent_wakes now (window_of ws c)\<rparr>
      in if 0 < maximum \<and> length (ww_enqueuedAt w) < maximum
         then (\<lparr>al_allowed = True, al_windowStart = None, al_resumeAt = None\<rparr>, js_set c w ws)
         else let w = w\<lparr>ww_zeroWindowStart := zero_window maximum now (ww_zeroWindowStart w)\<rparr>;
                  start = hold_start maximum w
              in (\<lparr>al_allowed = False, al_windowStart = start, al_resumeAt = map_option (\<lambda>t. t + HOUR_MS) start\<rparr>,
                  js_set c w ws))"

definition budget_add :: "ident \<Rightarrow> instant \<Rightarrow> wake_windows \<Rightarrow> wake_windows" where
  "budget_add c now ws =
     js_set c ((window_of ws c)\<lparr>ww_enqueuedAt := ww_enqueuedAt (window_of ws c) @ [now]\<rparr>) ws"

text \<open>
  One wake: the ceiling is asked, and when it allows and the queue took the instruction the wake is
  recorded at the time the queue answered. Tasks of one controller are serialized, so no other wake of
  that controller comes between the two.
\<close>

record wake_attempt =
  wt_controller :: ident
  wt_maximum :: nat
  wt_checkedAt :: instant
  wt_enqueuedAt :: "instant option"

definition attempt_wake :: "wake_attempt \<Rightarrow> (ident \<times> instant) list \<times> wake_windows \<Rightarrow> (ident \<times> instant) list \<times> wake_windows" where
  "attempt_wake a = (\<lambda>(wakes, ws).
     let (allowance, ws') = budget_check (wt_controller a) (wt_maximum a) (wt_checkedAt a) ws
     in case wt_enqueuedAt a of
          None \<Rightarrow> (wakes, ws')
        | Some t \<Rightarrow>
            if al_allowed allowance then (wakes @ [(wt_controller a, t)], budget_add (wt_controller a) t ws')
            else (wakes, ws'))"

definition wake_history :: "wake_attempt list \<Rightarrow> (ident \<times> instant) list \<times> wake_windows" where
  "wake_history as = fold attempt_wake as ([], [])"

subsection \<open>Notices\<close>

text \<open>A text is the list of its UTF-16 code units; the summaries of the model have characters below 256.\<close>

type_synonym text16 = "nat list"

definition units :: "string \<Rightarrow> text16" where
  "units s = map of_char s"

definition line_break :: "nat \<Rightarrow> bool" where
  "line_break u = (u \<in> {10, 13, 8232, 8233})"

function oneLine :: "text16 \<Rightarrow> text16" where
  "oneLine [] = []"
| "oneLine (u # us) = (if line_break u then 32 # oneLine (dropWhile line_break us) else u # oneLine us)"
  by pat_completeness auto
termination
  by (relation "measure length") (auto simp: le_imp_less_Suc length_dropWhile_le)

definition shorten :: "text16 \<Rightarrow> int \<Rightarrow> text16" where
  "shorten v len =
     (if int (length v) \<le> len then v else if len \<le> 0 then [] else take (nat (len - 1)) v @ [8230])"

definition count_text :: "nat \<Rightarrow> text16" where
  "count_text n = units (decimal n)"

fun kind_name :: "notification_kind \<Rightarrow> string" where
  "kind_name NkSettled = ''settled''"
| "kind_name NkIntervention = ''intervention''"
| "kind_name NkAttention = ''attention''"
| "kind_name NkDelivery = ''delivery''"
| "kind_name NkRisk = ''risk''"
| "kind_name NkProgress = ''progress''"
| "kind_name NkBudget = ''budget''"
| "kind_name NkHandoff = ''handoff''"

record notice_inline =
  ni_kind :: notification_kind
  ni_severity :: event_severity
  ni_summary :: text16

record inbox_notice =
  nt_pending :: nat
  nt_byKind :: "(notification_kind, nat) js_map"
  nt_oldestAgeSeconds :: nat
  nt_dropped :: nat
  nt_inline :: "notice_inline option"

definition NOTICE_ORDER :: "notification_kind list" where
  "NOTICE_ORDER = [NkIntervention, NkDelivery, NkAttention, NkSettled, NkHandoff, NkRisk, NkBudget, NkProgress]"

definition DRAIN :: text16 where
  "DRAIN = units ''cyberdeck_notifications_read''"

definition noticeChars :: int where
  "noticeChars = 200"

definition noticeInlineChars :: int where
  "noticeInlineChars = 400"

fun joined :: "text16 list \<Rightarrow> text16" where
  "joined [] = []"
| "joined [t] = t"
| "joined (t # ts) = t @ units '', '' @ joined ts"

definition kind_count :: "inbox_notice \<Rightarrow> notification_kind \<Rightarrow> nat" where
  "kind_count n k = (case js_get (nt_byKind n) k of None \<Rightarrow> 0 | Some i \<Rightarrow> i)"

definition notice_prefix :: "inbox_notice \<Rightarrow> text16" where
  "notice_prefix n = units ''cyberdeck: '' @ count_text (nt_pending n) @ units '' notifications pending (''"

definition notice_suffix :: "inbox_notice \<Rightarrow> text16" where
  "notice_suffix n =
     (if list_ex (\<lambda>i. 0 < i) (js_values (nt_byKind n)) then units ''; '' else [])
     @ units ''oldest '' @ count_text (nt_oldestAgeSeconds n) @ units ''s) '' @ [8594] @ units '' '' @ DRAIN
     @ (if 0 < nt_dropped n then units '' '' @ [183] @ units '' '' @ count_text (nt_dropped n) @ units '' dropped'' else [])"

definition notice_kinds :: "inbox_notice \<Rightarrow> text16" where
  "notice_kinds n =
     joined (map (\<lambda>k. count_text (kind_count n k) @ units '' '' @ units (kind_name k))
       (filter (\<lambda>k. 0 < kind_count n k) NOTICE_ORDER))"

definition notice_base :: "inbox_notice \<Rightarrow> text16" where
  "notice_base n =
     notice_prefix n
     @ shorten (notice_kinds n) (max 0 (noticeChars - int (length (notice_prefix n)) - int (length (notice_suffix n))))
     @ notice_suffix n"

definition critical_label :: text16 where
  "critical_label = units '' '' @ [183] @ units '' critical: ''"

definition renderNotice :: "inbox_notice \<Rightarrow> text16" where
  "renderNotice n =
     (case nt_inline n of None \<Rightarrow> notice_base n
      | Some i \<Rightarrow> notice_base n @ critical_label
          @ shorten (oneLine (ni_summary i))
              (noticeInlineChars - int (length (notice_base n)) - int (length critical_label)))"

definition notice_order :: "notification \<Rightarrow> notification \<Rightarrow> int" where
  "notice_order a b =
     (if on_createdAt a \<noteq> on_createdAt b then on_createdAt a - on_createdAt b
      else if on_cursor a \<noteq> on_cursor b then int (on_cursor a) - int (on_cursor b)
      else js_compare (on_id a) (on_id b))"

definition count_kind :: "notification \<Rightarrow> (notification_kind, nat) js_map \<Rightarrow> (notification_kind, nat) js_map" where
  "count_kind n m = js_set (on_kind n) ((case js_get m (on_kind n) of None \<Rightarrow> 0 | Some i \<Rightarrow> i) + 1) m"

definition urgent :: "notification \<Rightarrow> bool" where
  "urgent n = (on_kind n = NkIntervention \<or> on_severity n = SevCritical)"

definition with_inline :: "inbox_notice \<Rightarrow> notification option \<Rightarrow> inbox_notice" where
  "with_inline n found =
     (case found of None \<Rightarrow> n
      | Some r \<Rightarrow>
          let i = \<lparr>ni_kind = on_kind r, ni_severity = on_severity r, ni_summary = []\<rparr>;
              available = noticeInlineChars - int (length (renderNotice (n\<lparr>nt_inline := Some i\<rparr>)))
          in n\<lparr>nt_inline := Some (i\<lparr>ni_summary := shorten (oneLine (units (on_summary r))) available\<rparr>)\<rparr>)"

definition buildNotice :: "notification list \<Rightarrow> instant \<Rightarrow> nat \<Rightarrow> inbox_notice option" where
  "buildNotice page now dropped =
     (if page = [] \<and> dropped = 0 then None
      else let ordered = js_sort notice_order page
           in Some (with_inline
                \<lparr>nt_pending = length page, nt_byKind = fold count_kind page [],
                 nt_oldestAgeSeconds = (case ordered of [] \<Rightarrow> 0 | r # _ \<Rightarrow> nat ((now - on_createdAt r) div 1000)),
                 nt_dropped = dropped, nt_inline = None\<rparr>
                (find urgent ordered)))"

record notice_snapshot =
  sn_result :: "(inbox_notice \<times> text16) option"
  sn_head :: nat
  sn_ids :: "ident list"

definition no_filter :: pending_filter where
  "no_filter = \<lparr>qf_kinds = None, qf_severities = None\<rparr>"

definition inbox_snapshot :: "instant \<Rightarrow> ident \<Rightarrow> notice_snapshot inbox_op" where
  "inbox_snapshot now c =
     op_bind (listPending c 0 50 no_filter) (\<lambda>page.
     op_bind (dropped_counts c) (\<lambda>(_, sinceAcknowledged).
     op_bind (pendingCount c) (\<lambda>total.
     op_bind (headCursor c) (\<lambda>head.
       op_return \<lparr>sn_result = map_option (\<lambda>n. let n = n\<lparr>nt_pending := total\<rparr> in (n, renderNotice n))
             (buildNotice page now sinceAcknowledged),
           sn_head = head, sn_ids = map on_id page\<rparr>))))"

subsection \<open>Deciding about a wake\<close>

text \<open>The search over the pages; nothing changes the inbox while it runs.\<close>

partial_function (option) eligible_scan :: "controller_inbox option \<Rightarrow> nat \<Rightarrow> bool option" where
  [code]: "eligible_scan st after =
     (let page = pending_page st after 50 no_filter
      in if list_ex on_wakeEligible page then Some True
         else if length page < 50 then Some False
         else eligible_scan st (on_cursor (last page)))"

definition hasEligible :: "ident \<Rightarrow> (bool option) inbox_op" where
  "hasEligible c =
     op_bind (inbox_policy c) (\<lambda>policy.
       if np_wake policy = WakeOff then op_return (Some False)
       else op_bind (noticeState c) (\<lambda>(lastNoticed, _, _).
         op_gets (\<lambda>s. eligible_scan (js_get (ns_states s) c) lastNoticed)))"

text \<open>The test for a notice once the sidecar file has been read; \<open>shown\<close> is the cursor it holds.\<close>

definition notice_due :: "instant \<Rightarrow> ident \<Rightarrow> nat option \<Rightarrow> bool inbox_op" where
  "notice_due now c shown =
     op_bind (inbox_snapshot now c) (\<lambda>shot.
       if sn_result shot = None then op_return False
       else op_bind (noticeState c) (\<lambda>(lastNoticed, noticedAt, head).
         op_bind (inbox_policy c) (\<lambda>policy.
           op_return (max lastNoticed (case shown of None \<Rightarrow> 0 | Some k \<Rightarrow> k) < head
             \<or> (case noticedAt of None \<Rightarrow> False | Some t \<Rightarrow> int (np_quietMinutes policy) * 60000 \<le> now - t)))))"

datatype wake_decision =
    WakeSkip
  | WakeSuppressed "instant option" "instant option"
  | WakeEnqueue nat "ident list" text16

text \<open>
  The decision once the sidecar file has been read: \<open>started\<close> tells whether delivery runs and
  \<open>working\<close> whether the session has a turn in flight. A scan that does not end decides nothing.
\<close>

definition decide_wake ::
  "bool \<Rightarrow> bool \<Rightarrow> nat option \<Rightarrow> instant \<Rightarrow> ident \<Rightarrow> wake_windows \<Rightarrow> (wake_decision \<times> wake_windows) inbox_op" where
  "decide_wake started working shown now c ws =
     (if \<not> started then op_return (WakeSkip, ws)
      else op_bind (hasEligible c) (\<lambda>eligible.
       if eligible \<noteq> Some True \<or> working then op_return (WakeSkip, ws)
       else op_bind (headCursor c) (\<lambda>head.
         if head \<le> (case shown of None \<Rightarrow> 0 | Some k \<Rightarrow> k) then op_return (WakeSkip, ws)
         else op_bind (inbox_policy c) (\<lambda>policy.
           let (allowance, ws') = budget_check c (np_maxWakesPerHour policy) now ws
           in if \<not> al_allowed allowance then op_return (WakeSuppressed (al_windowStart allowance) (al_resumeAt allowance), ws')
              else op_bind (inbox_snapshot now c) (\<lambda>shot.
                case sn_result shot of
                  None \<Rightarrow> op_return (WakeSkip, ws')
                | Some (_, txt) \<Rightarrow> op_return (WakeEnqueue (sn_head shot) (sn_ids shot) txt, ws'))))))"

subsection \<open>The ceiling of wakes per hour\<close>

definition wake_times :: "ident \<Rightarrow> (ident \<times> instant) list \<Rightarrow> instant list" where
  "wake_times c wakes = map snd (filter (\<lambda>p. fst p = c) wakes)"

lemma wake_times_simps [simp]:
  "wake_times c [] = []"
  "wake_times c (wakes @ [(d, t)]) = wake_times c wakes @ (if d = c then [t] else [])"
  by (simp_all add: wake_times_def)

definition clock_readings :: "wake_attempt \<Rightarrow> instant list" where
  "clock_readings a = wt_checkedAt a # (case wt_enqueuedAt a of None \<Rightarrow> [] | Some t \<Rightarrow> [t])"

definition clock_runs_on :: "wake_attempt list \<Rightarrow> bool" where
  "clock_runs_on as = sorted (concat (map clock_readings as))"

lemma HOUR_MS_pos [simp]: "0 < HOUR_MS"
  by (simp add: HOUR_MS_def)

lemma window_of_set [simp]: "window_of (js_set c w ws) d = (if d = c then w else window_of ws d)"
  by (simp add: window_of_def update_conv')

text \<open>
  What the budget knows at time \<open>now\<close>: of each controller the wakes since an hour before its last
  check, in order, and a zero window that has begun.
\<close>

definition window_over :: "instant \<Rightarrow> instant list \<Rightarrow> wake_window \<Rightarrow> bool" where
  "window_over now ts w =
     ((\<exists>h\<le>now. ww_enqueuedAt w = filter (\<lambda>t. h - HOUR_MS < t) ts) \<and> sorted ts
      \<and> (\<forall>t\<in>set ts. t \<le> now) \<and> (\<forall>z. ww_zeroWindowStart w = Some z \<longrightarrow> z \<le> now))"

definition budget_over :: "instant \<Rightarrow> (ident \<times> instant) list \<times> wake_windows \<Rightarrow> bool" where
  "budget_over now = (\<lambda>(wakes, ws). \<forall>c. window_over now (wake_times c wakes) (window_of ws c))"

lemma budget_over_later: "budget_over now s \<Longrightarrow> now \<le> t \<Longrightarrow> budget_over t s"
  unfolding budget_over_def window_over_def by (auto split: prod.splits; meson order_trans)

lemma length_filter_mono: "(\<And>u. P u \<Longrightarrow> Q u) \<Longrightarrow> length (filter P us) \<le> length (filter Q us)"
  by (induction us) (auto simp: le_SucI)

lemma filter_since: "h \<le> (now::int) \<Longrightarrow> filter (\<lambda>t. now - d < t) (filter (\<lambda>t. h - d < t) ts) = filter (\<lambda>t. now - d < t) ts"
  by (simp, rule filter_cong) auto

lemma window_recent:
  "window_over before ts w \<Longrightarrow> before \<le> now \<Longrightarrow> recent_wakes now w = filter (\<lambda>t. now - HOUR_MS < t) ts"
  by (auto simp: window_over_def recent_wakes_def filter_since simp del: filter_filter)

lemma check_window:
  assumes "budget_check c maximum now ws = (al, ws')"
  shows "window_of ws' d = (if d = c then (window_of ws c)\<lparr>ww_enqueuedAt := recent_wakes now (window_of ws c),
      ww_zeroWindowStart := (if al_allowed al then ww_zeroWindowStart (window_of ws c)
        else zero_window maximum now (ww_zeroWindowStart (window_of ws c)))\<rparr> else window_of ws d)"
    and "al_allowed al \<longleftrightarrow> length (recent_wakes now (window_of ws c)) < maximum"
  using assms by (auto simp: budget_check_def Let_def split: if_splits)

lemma zero_window_begun: "(\<forall>z. zero = Some z \<longrightarrow> z \<le> now) \<Longrightarrow> zero_window m now zero = Some z \<Longrightarrow> z \<le> now"
  by (auto simp: zero_window_def split: if_splits)

lemma check_over:
  assumes "budget_over before (wakes, ws)" "before \<le> now" "budget_check c maximum now ws = (al, ws')"
  shows "budget_over now (wakes, ws')"
proof -
  have over: "window_over now (wake_times d wakes) (window_of ws d)" for d
    using budget_over_later [OF assms(1,2)] by (simp add: budget_over_def)
  have "window_over now (wake_times c wakes) (window_of ws' c)"
    using over [of c] window_recent [OF over order_refl, of c] zero_window_begun
    by (auto simp: check_window(1) [OF assms(3)] window_over_def intro: exI [of _ now])
  then have "window_over now (wake_times d wakes) (window_of ws' d)" for d
    using over [of d] check_window(1) [OF assms(3), of d] by (cases "d = c") auto
  then show ?thesis by (simp add: budget_over_def)
qed

lemma record_over:
  assumes "budget_over now (wakes, ws)" "now \<le> t"
  shows "budget_over t (wakes @ [(c, t)], budget_add c t ws)"
proof -
  have over: "window_over t (wake_times d wakes) (window_of ws d)" for d
    using budget_over_later [OF assms] by (simp add: budget_over_def)
  obtain h where h: "h \<le> t" "ww_enqueuedAt (window_of ws c) = filter (\<lambda>t. h - HOUR_MS < t) (wake_times c wakes)"
    using over [of c] by (auto simp: window_over_def)
  have "h - HOUR_MS < t" using h(1) HOUR_MS_pos by linarith
  then have "window_over t (wake_times c wakes @ [t]) ((window_of ws c)\<lparr>ww_enqueuedAt := ww_enqueuedAt (window_of ws c) @ [t]\<rparr>)"
    using over [of c] h by (auto simp: window_over_def sorted_append intro!: exI [of _ h])
  then show ?thesis using over by (simp add: budget_over_def budget_add_def)
qed

lemma attempt_over:
  assumes "budget_over before s" "sorted (before # clock_readings a)"
  shows "budget_over (last (clock_readings a)) (attempt_wake a s)"
proof -
  obtain wakes ws where s: "s = (wakes, ws)" by fastforce
  obtain al ws' where check: "budget_check (wt_controller a) (wt_maximum a) (wt_checkedAt a) ws = (al, ws')" by fastforce
  have over: "budget_over (wt_checkedAt a) (wakes, ws')"
    using assms s check by (auto simp: clock_readings_def intro: check_over)
  then show ?thesis
    using assms(2) s check
    by (auto simp: attempt_wake_def clock_readings_def intro: record_over budget_over_later split: option.splits)
qed

lemma clock_runs_on_snoc:
  "clock_runs_on (as @ [a]) \<Longrightarrow> clock_runs_on as \<and> sorted (clock_readings a)
     \<and> (\<forall>b\<in>set as. \<forall>t\<in>set (clock_readings b). t \<le> wt_checkedAt a)"
  by (auto simp: clock_runs_on_def sorted_append clock_readings_def)

definition latest :: "wake_attempt list \<Rightarrow> instant \<Rightarrow> bool" where
  "latest as now = (\<forall>a\<in>set as. \<forall>t\<in>set (clock_readings a). t \<le> now)"

lemma start_budget_over: "budget_over now ([], [])"
  by (auto simp: budget_over_def window_over_def window_of_def)

lemma history_over:
  assumes "clock_runs_on as" "latest as now"
  shows "budget_over now (wake_history as)"
  using assms
proof (induction as arbitrary: now rule: rev_induct)
  case Nil
  then show ?case by (simp add: wake_history_def start_budget_over)
next
  case (snoc a as)
  note run = clock_runs_on_snoc [OF snoc.prems(1)]
  have "budget_over (wt_checkedAt a) (wake_history as)" using run by (intro snoc.IH) (auto simp: latest_def)
  then have "budget_over (last (clock_readings a)) (wake_history (as @ [a]))"
    using run attempt_over [of "wt_checkedAt a" "wake_history as" a]
    by (simp add: wake_history_def) (auto simp: clock_readings_def)
  moreover have "last (clock_readings a) \<le> now" using snoc.prems(2) by (auto simp: latest_def clock_readings_def split: option.splits)
  ultimately show ?case by (rule budget_over_later)
qed

text \<open>A wake recorded after a check that allowed it is among the last hour's, and they are below the ceiling.\<close>

lemma attempt_ceiling:
  assumes over: "budget_over before s" and clock: "sorted (before # clock_readings a)" and maximum: "wt_maximum a \<le> M"
    and old: "length (filter (\<lambda>t. x < t \<and> t \<le> x + HOUR_MS) (wake_times c (fst s))) \<le> M"
  shows "length (filter (\<lambda>t. x < t \<and> t \<le> x + HOUR_MS) (wake_times c (fst (attempt_wake a s)))) \<le> M"
proof -
  obtain wakes ws where s: "s = (wakes, ws)" by fastforce
  obtain al ws' where check: "budget_check (wt_controller a) (wt_maximum a) (wt_checkedAt a) ws = (al, ws')" by fastforce
  let ?now = "wt_checkedAt a"
  have "length (filter (\<lambda>u. x < u \<and> u \<le> x + HOUR_MS) (wake_times c wakes)) < M"
    if "wt_controller a = c" "al_allowed al" "wt_enqueuedAt a = Some t" "x < t" "t \<le> x + HOUR_MS" for t
  proof -
    have "length (recent_wakes ?now (window_of ws c)) < wt_maximum a" using check_window(2) [OF check] that by simp
    moreover have "recent_wakes ?now (window_of ws c) = filter (\<lambda>u. ?now - HOUR_MS < u) (wake_times c wakes)"
      using over clock s by (intro window_recent [of before]) (auto simp: budget_over_def clock_readings_def)
    moreover have "?now - HOUR_MS \<le> x" using that clock by (auto simp: clock_readings_def)
    then have "length (filter (\<lambda>u. x < u \<and> u \<le> x + HOUR_MS) (wake_times c wakes))
        \<le> length (filter (\<lambda>u. ?now - HOUR_MS < u) (wake_times c wakes))"
      by (intro length_filter_mono) auto
    ultimately show ?thesis using maximum by (metis le_less_trans less_le_trans)
  qed
  then show ?thesis using old s check
    by (auto simp: attempt_wake_def Suc_le_eq split: option.splits)
qed

text \<open>
  C40. The ceiling on wakes holds over every hour. For any sequence of wake attempts of any controllers,
  with the clock not running backwards and every attempt checked against a ceiling of at most \<open>M\<close>,
  no interval of one hour contains more than \<open>M\<close> recorded wakes of one controller, although the budget
  forgets every wake that has left its own window.
\<close>

theorem wake_ceiling:
  assumes "clock_runs_on as" and "\<forall>a\<in>set as. wt_maximum a \<le> M"
  shows "length (filter (\<lambda>(d, t). d = c \<and> x < t \<and> t \<le> x + HOUR_MS) (fst (wake_history as))) \<le> M"
proof -
  have "length (filter (\<lambda>t. x < t \<and> t \<le> x + HOUR_MS) (wake_times c (fst (wake_history as)))) \<le> M"
    using assms
  proof (induction as rule: rev_induct)
    case Nil
    then show ?case by (simp add: wake_history_def)
  next
    case (snoc a as)
    note run = clock_runs_on_snoc [OF snoc.prems(1)]
    have over: "budget_over (wt_checkedAt a) (wake_history as)" using run by (intro history_over) (auto simp: latest_def)
    have "length (filter (\<lambda>t. x < t \<and> t \<le> x + HOUR_MS) (wake_times c (fst (attempt_wake a (wake_history as))))) \<le> M"
      using run snoc by (intro attempt_ceiling [OF over]) (auto simp: clock_readings_def)
    then show ?case by (simp add: wake_history_def)
  qed
  then show ?thesis by (simp add: wake_times_def filter_map o_def case_prod_unfold conj_ac)
qed

text \<open>How long a wake is held.\<close>

lemma sorted_above_count:
  fixes xs :: "int list"
  assumes "sorted xs" "k < length xs"
  shows "length (filter (\<lambda>t. b < t) xs) < length xs - k \<longleftrightarrow> xs ! k \<le> b"
proof -
  have split: "filter (\<lambda>t. b < t) xs = filter (\<lambda>t. b < t) (take j xs) @ filter (\<lambda>t. b < t) (drop j xs)" for j
    by (metis append_take_drop_id filter_append)
  have up: "xs ! i \<le> xs ! j" if "i \<le> j" "j < length xs" for i j using assms(1) that by (rule sorted_nth_mono)
  show ?thesis
  proof (cases "xs ! k \<le> b")
    case True
    have "t \<le> xs ! k" if "t \<in> set (take (Suc k) xs)" for t
      using that assms(2) up [of _ k] by (auto simp: in_set_conv_nth)
    then have "filter (\<lambda>t. b < t) (take (Suc k) xs) = []" using True by (fastforce simp: filter_empty_conv)
    moreover have "length (filter (\<lambda>t. b < t) (drop (Suc k) xs)) \<le> length (drop (Suc k) xs)" by (rule length_filter_le)
    ultimately have "length (filter (\<lambda>t. b < t) xs) \<le> length xs - Suc k" unfolding split [of "Suc k"] by simp
    with True assms(2) show ?thesis by linarith
  next
    case False
    have "xs ! k \<le> t" if "t \<in> set (drop k xs)" for t
      using that up [of k] by (auto simp: in_set_conv_nth)
    then have "filter (\<lambda>t. b < t) (drop k xs) = drop k xs" using False by (intro filter_True) fastforce
    then have "length xs - k \<le> length (filter (\<lambda>t. b < t) xs)" unfolding split [of k] by simp
    with False show ?thesis by linarith
  qed
qed

text \<open>
  A held wake is released exactly when the budget says. When a check at \<open>now\<close> refuses, the time it
  gives for resuming is after \<open>now\<close> and within an hour of it; and with a ceiling above zero, while no
  other wake is recorded, a later check with the same ceiling allows exactly from that time on.
\<close>

theorem wake_hold_exact:
  assumes "clock_runs_on as" and "latest as now"
    and check: "budget_check c maximum now (snd (wake_history as)) = (al, ws)" and refused: "\<not> al_allowed al"
  shows "\<exists>resume. al_resumeAt al = Some resume \<and> now < resume \<and> resume \<le> now + HOUR_MS
    \<and> (0 < maximum \<longrightarrow> (\<forall>later\<ge>now. al_allowed (fst (budget_check c maximum later ws)) \<longleftrightarrow> resume \<le> later))"
proof -
  define w where "w = window_of (snd (wake_history as)) c"
  define recent where "recent = recent_wakes now w"
  obtain ts where over: "window_over now ts w"
    using history_over [OF assms(1,2)] by (auto simp: budget_over_def w_def split: prod.splits)
  have recent: "recent = filter (\<lambda>t. now - HOUR_MS < t) ts" unfolding recent_def by (rule window_recent [OF over order_refl])
  have srt: "sorted recent" using over by (simp add: recent window_over_def sorted_wrt_filter)
  have full: "maximum \<le> length recent" using check_window(2) [OF check] refused by (simp add: recent_def w_def)
  show ?thesis
  proof (cases "maximum = 0")
    case True
    then have resume: "al_resumeAt al = map_option (\<lambda>t. t + HOUR_MS) (zero_window 0 now (ww_zeroWindowStart w))"
      using check by (auto simp: budget_check_def hold_start_def w_def Let_def)
    have "\<forall>z. ww_zeroWindowStart w = Some z \<longrightarrow> z \<le> now" using over by (simp add: window_over_def)
    then show ?thesis using resume True HOUR_MS_pos by (auto simp: zero_window_def split: option.splits if_splits)
  next
    case False
    define start where "start = recent ! (length recent - maximum)"
    have resume: "al_resumeAt al = Some (start + HOUR_MS)"
      using check refused False by (auto simp: budget_check_def hold_start_def w_def start_def recent_def Let_def split: if_splits)
    have "start \<in> set recent" using False full by (simp add: start_def)
    then have "now - HOUR_MS < start" "start \<le> now" using over by (auto simp: recent window_over_def)
    moreover have "al_allowed (fst (budget_check c maximum later ws)) \<longleftrightarrow> start + HOUR_MS \<le> later" if "now \<le> later" for later
    proof -
      obtain al' ws' where again: "budget_check c maximum later ws = (al', ws')" by fastforce
      have "ww_enqueuedAt (window_of ws c) = recent" using check_window(1) [OF check, of c] by (simp add: recent_def w_def)
      then have "recent_wakes later (window_of ws c) = filter (\<lambda>t. later - HOUR_MS < t) recent"
        by (simp add: recent_wakes_def)
      then have "al_allowed al' \<longleftrightarrow> length (filter (\<lambda>t. later - HOUR_MS < t) recent) < maximum"
        using check_window(2) [OF again] by simp
      also have "\<dots> \<longleftrightarrow> start \<le> later - HOUR_MS"
        using sorted_above_count [OF srt, of "length recent - maximum" "later - HOUR_MS"] False full by (simp add: start_def)
      finally show ?thesis using again by auto
    qed
    ultimately show ?thesis using resume by auto
  qed
qed

subsection \<open>The search for an eligible record\<close>

lemma pending_increasing:
  assumes "inbox_core c st"
  shows "sorted_wrt (<) (map on_cursor (pending st))"
proof -
  have "distinct (map on_cursor (filter unacknowledged (inbox_values st)))"
    using inbox_coreD(2) [OF assms] by (rule distinct_map_filter)
  then have "distinct (map on_cursor (pending st))" by (simp add: pending_sorted distinct_map)
  moreover have "sorted (map on_cursor (pending st))" by (simp add: pending_sorted)
  ultimately show ?thesis by (simp add: strict_sorted_iff)
qed

lemma filter_past:
  fixes f :: "'a \<Rightarrow> nat"
  assumes "sorted_wrt (<) (map f ns)" "k < length ns"
  shows "filter (\<lambda>n. f (ns ! k) < f n) ns = drop (Suc k) ns"
proof -
  have lt: "f (ns ! i) < f (ns ! j)" if "i < j" "j < length ns" for i j
    using sorted_wrt_nth_less [OF assms(1), of i j] that by simp
  have "filter (\<lambda>n. f (ns ! k) < f n) (take (Suc k) ns) = []"
    using lt [of _ k] assms(2) by (fastforce simp: filter_empty_conv in_set_conv_nth less_Suc_eq)
  moreover have "filter (\<lambda>n. f (ns ! k) < f n) (drop (Suc k) ns) = drop (Suc k) ns"
    using lt [of k] by (intro filter_True) (auto simp: in_set_conv_nth)
  ultimately show ?thesis by (metis append_Nil append_take_drop_id filter_append)
qed

abbreviation after_cursor :: "nat \<Rightarrow> controller_inbox \<Rightarrow> notification list" where
  "after_cursor k st \<equiv> filter (\<lambda>n. k < on_cursor n) (pending st)"

lemma no_filter_match: "page_match no_filter k = (\<lambda>n. k < on_cursor n)"
  by (rule ext) (simp add: no_filter_def page_match_def)

lemma no_filter_page: "pending_page (Some st) k 50 no_filter = take 50 (after_cursor k st)"
  by (simp add: pending_page_def no_filter_match drainPageMax_def)

lemma next_page:
  assumes "inbox_core c st" "50 \<le> length (after_cursor k st)"
  shows "after_cursor (on_cursor (last (take 50 (after_cursor k st)))) st = drop 50 (after_cursor k st)"
proof -
  let ?ns = "after_cursor k st"
  have "last (take 50 ?ns) = ?ns ! 49" using assms(2) take_Suc_conv_app_nth [of 49 ?ns] by simp
  moreover have "k < on_cursor (?ns ! 49)" using assms(2) nth_mem [of 49 ?ns] by auto
  then have "after_cursor (on_cursor (?ns ! 49)) st = filter (\<lambda>n. on_cursor (?ns ! 49) < on_cursor n) ?ns"
    by (auto intro: filter_cong)
  moreover have "sorted_wrt (<) (map on_cursor ?ns)"
    using pending_increasing [OF assms(1)] by (simp add: sorted_wrt_map sorted_wrt_filter)
  ultimately show ?thesis using filter_past [of on_cursor ?ns 49] assms(2) by simp
qed

lemma eligible_scan_exact:
  assumes "inbox_core c st"
  shows "eligible_scan (Some st) k = Some (\<exists>n\<in>set (after_cursor k st). on_wakeEligible n)"
proof (induction "length (after_cursor k st)" arbitrary: k rule: less_induct)
  case less
  let ?ns = "after_cursor k st"
  note page = eligible_scan.simps [of "Some st" k, unfolded no_filter_page Let_def]
  show ?case
  proof (cases "length ?ns < 50 \<or> list_ex on_wakeEligible (take 50 ?ns)")
    case True
    then consider "list_ex on_wakeEligible (take 50 ?ns)" | "length ?ns < 50" "\<not> list_ex on_wakeEligible (take 50 ?ns)" by blast
    then show ?thesis
    proof cases
      case 1
      then have "\<exists>n\<in>set ?ns. on_wakeEligible n" by (meson list_ex_iff in_set_takeD)
      with 1 show ?thesis by (subst page) simp
    next
      case 2
      then have "\<not> (\<exists>n\<in>set ?ns. on_wakeEligible n)" by (simp add: list_ex_iff)
      with 2 show ?thesis by (subst page) simp
    qed
  next
    case False
    then have more: "50 \<le> length ?ns" by simp
    note rest = next_page [OF assms more]
    have "eligible_scan (Some st) (on_cursor (last (take 50 ?ns))) = Some (\<exists>n\<in>set (drop 50 ?ns). on_wakeEligible n)"
      using less(1) [of "on_cursor (last (take 50 ?ns))"] more unfolding rest by simp
    moreover have "set ?ns = set (take 50 ?ns) \<union> set (drop 50 ?ns)" by (metis append_take_drop_id set_append)
    ultimately show ?thesis using False more by (subst page) (auto simp: list_ex_iff)
  qed
qed

definition wake_due :: "controller_inbox \<Rightarrow> bool" where
  "wake_due st =
     (np_wake (nc_policy st) \<noteq> WakeOff
      \<and> (\<exists>n\<in>set (pending st). nc_lastNoticedCursor st < on_cursor n \<and> on_wakeEligible n))"

lemma reachable_core:
  assumes "s = inbox_run env cs inbox_start" "ns_loaded s"
  shows "inbox_core c (inbox_of (ns_states s) c)"
proof -
  obtain rs where "log_records s rs" using run_logged assms(1) by blast
  then have "replay_log rs = Some (ns_states s)" using assms(2) by (auto simp: log_records_def)
  then show ?thesis by (intro wf_core inbox_of_wf replay_wf)
qed

lemma scan_absent [simp]: "eligible_scan None k = Some False"
  by (subst eligible_scan.simps) (simp add: pending_page_def)

lemma pending_new_inbox [simp]: "pending new_inbox = []"
  by (simp add: pending_def new_inbox_def js_sort_def)

lemma hasEligible_exact:
  assumes "inbox_core c (inbox_of (ns_states s) c)" "ns_loaded s"
  shows "hasEligible c s = (Inr (Some (wake_due (inbox_of (ns_states s) c))), s)"
proof (cases "js_get (ns_states s) c")
  case None
  then show ?thesis using assms(2)
    by (simp add: hasEligible_def inbox_policy_def noticeState_def requireLoaded_def op_defs inbox_of_def wake_due_def Let_def)
next
  case (Some st)
  then show ?thesis using assms eligible_scan_exact [of c st]
    by (auto simp: hasEligible_def inbox_policy_def noticeState_def requireLoaded_def op_defs inbox_of_def wake_due_def Let_def)
qed

subsection \<open>The size of a notice\<close>

lemma length_units [simp]: "length (units s) = length s"
  by (simp add: units_def)

lemma length_decimal: "n < 10 ^ Suc k \<Longrightarrow> length (decimal n) \<le> Suc k"
proof (induction k arbitrary: n)
  case 0
  then show ?case by (simp add: decimal.simps [of n])
next
  case (Suc k)
  then have "length (decimal (n div 10)) \<le> Suc k" by (intro Suc.IH) (simp add: less_mult_imp_div_less)
  then show ?case by (simp add: decimal.simps [of n])
qed

text \<open>Below this bound a number prints as its digits.\<close>

definition plain_number :: "nat \<Rightarrow> bool" where
  "plain_number n = (n < 10 ^ 21)"

lemma length_count: "plain_number n \<Longrightarrow> length (count_text n) \<le> 21"
  using length_decimal [of n 20] by (simp add: count_text_def plain_number_def)

lemma length_shorten: "int (length (shorten v len)) \<le> max 0 len"
  by (auto simp: shorten_def)

definition plain_notice :: "inbox_notice \<Rightarrow> bool" where
  "plain_notice n = (plain_number (nt_pending n) \<and> plain_number (nt_oldestAgeSeconds n) \<and> plain_number (nt_dropped n))"

lemma length_base:
  assumes "plain_notice n"
  shows "int (length (notice_base n)) \<le> noticeChars"
proof -
  have "length (notice_prefix n) \<le> 56"
    using assms length_count [of "nt_pending n"] by (simp add: notice_prefix_def plain_notice_def)
  moreover have "length (notice_suffix n) \<le> 98"
    using assms length_count [of "nt_oldestAgeSeconds n"] length_count [of "nt_dropped n"]
    by (simp add: notice_suffix_def plain_notice_def DRAIN_def)
  ultimately show ?thesis
    using length_shorten [of "notice_kinds n" "max 0 (noticeChars - int (length (notice_prefix n)) - int (length (notice_suffix n)))"]
    by (simp add: notice_base_def noticeChars_def)
qed

lemma length_render:
  assumes "plain_notice n"
  shows "int (length (renderNotice n)) \<le> (if nt_inline n = None then noticeChars else noticeInlineChars)"
proof (cases "nt_inline n")
  case None
  then show ?thesis using length_base [OF assms] by (simp add: renderNotice_def)
next
  case (Some i)
  have "length critical_label = 13" by (simp add: critical_label_def)
  then show ?thesis
    using Some length_base [OF assms]
      length_shorten [of "oneLine (ni_summary i)" "noticeInlineChars - int (length (notice_base n)) - int (length critical_label)"]
    by (simp add: renderNotice_def noticeInlineChars_def noticeChars_def)
qed

lemma render_drain: "\<exists>before rest. renderNotice n = before @ DRAIN @ rest"
proof -
  have "\<exists>before rest. notice_suffix n = before @ DRAIN @ rest" unfolding notice_suffix_def by (metis append_assoc)
  then have "\<exists>before rest. notice_base n = before @ DRAIN @ rest" unfolding notice_base_def by (metis append_assoc)
  then show ?thesis unfolding renderNotice_def by (cases "nt_inline n") (simp, metis (no_types) append_assoc option.simps(5))
qed

lemma with_inline_fields [simp]:
  "nt_pending (with_inline n found) = nt_pending n" "nt_dropped (with_inline n found) = nt_dropped n"
  "nt_oldestAgeSeconds (with_inline n found) = nt_oldestAgeSeconds n"
  "nt_inline n = None \<Longrightarrow> nt_inline (with_inline n found) = None \<longleftrightarrow> found = None"
  by (simp_all add: with_inline_def Let_def split: option.split)

lemma find_None_all: "find P xs = None \<longleftrightarrow> (\<forall>x\<in>set xs. \<not> P x)"
  by (auto simp: find_None_iff)

lemma buildNotice_fields:
  assumes "buildNotice page now dropped = Some n"
  shows "nt_dropped n = dropped" "nt_inline n = None \<longleftrightarrow> (\<forall>m\<in>set page. \<not> urgent m)"
    "nt_oldestAgeSeconds n = 0 \<or> (\<exists>m\<in>set page. nt_oldestAgeSeconds n = nat ((now - on_createdAt m) div 1000))"
proof -
  let ?ordered = "js_sort notice_order page"
  have n: "n = with_inline \<lparr>nt_pending = length page, nt_byKind = fold count_kind page [],
      nt_oldestAgeSeconds = (case ?ordered of [] \<Rightarrow> 0 | r # _ \<Rightarrow> nat ((now - on_createdAt r) div 1000)),
      nt_dropped = dropped, nt_inline = None\<rparr> (find urgent ?ordered)"
    using assms by (auto simp: buildNotice_def Let_def split: if_splits)
  show "nt_dropped n = dropped" "nt_inline n = None \<longleftrightarrow> (\<forall>m\<in>set page. \<not> urgent m)"
    by (simp_all add: n find_None_all)
  have "set ?ordered = set page" by simp
  then show "nt_oldestAgeSeconds n = 0 \<or> (\<exists>m\<in>set page. nt_oldestAgeSeconds n = nat ((now - on_createdAt m) div 1000))"
    by (cases ?ordered) (auto simp: n simp del: set_js_sort)
qed

lemma first_page:
  assumes "inbox_core c st"
  shows "after_cursor 0 st = pending st"
  using inbox_coreD(3) [OF assms] by (auto simp: filter_id_conv set_pending list_all_iff sound_message_def)

lemma snapshot_value:
  assumes "ns_loaded s" "st = inbox_of (ns_states s) c" "inbox_core c st"
  shows "inbox_snapshot now c s = (Inr
    \<lparr>sn_result = map_option (\<lambda>n. (n\<lparr>nt_pending := length (pending st)\<rparr>, renderNotice (n\<lparr>nt_pending := length (pending st)\<rparr>)))
        (buildNotice (take 50 (pending st)) now (nc_droppedSinceAcknowledged st)),
     sn_head = nc_headCursor st, sn_ids = map on_id (take 50 (pending st))\<rparr>, s)"
proof (cases "js_get (ns_states s) c")
  case None
  then have "st = new_inbox" using assms(2) by (simp add: inbox_of_def)
  with None show ?thesis using assms(1)
    by (simp add: inbox_snapshot_def listPending_def dropped_counts_def pendingCount_def headCursor_def requireLoaded_def
        op_defs pending_page_def inbox_of_def Let_def del: length_pending)
next
  case (Some st')
  then have "st = st'" using assms(2) by (simp add: inbox_of_def)
  have all: "after_cursor 0 st' = pending st'" using first_page [OF assms(3)] unfolding \<open>st = st'\<close> .
  from Some \<open>st = st'\<close> show ?thesis using assms(1)
    by (simp add: inbox_snapshot_def listPending_def dropped_counts_def pendingCount_def headCursor_def requireLoaded_def
        op_defs no_filter_page all inbox_of_def Let_def del: length_pending)
qed

text \<open>
  What an orchestrator is told of its inbox is short and says everything that matters. After any run
  of the inbox, the notice is silent exactly when nothing is pending and nothing was
  dropped since the last acknowledgement. Otherwise its text has at most 200 code units, or 400 when it
  quotes an urgent notification, it always names the tool that drains the inbox, it counts everything
  pending and dropped, and it quotes a notification exactly when the page has an intervention or a
  critical one. The counts and the age of the oldest are below the bound up to which JavaScript
  prints digits.
\<close>

theorem notice_bounded:
  assumes "s = inbox_run env cs inbox_start" "ns_loaded s" and st: "st = inbox_of (ns_states s) c"
    and "plain_number (nc_droppedSinceAcknowledged st)"
    and "\<forall>m\<in>set (pending st). plain_number (nat ((now - on_createdAt m) div 1000))"
  shows "\<exists>shot. inbox_snapshot now c s = (Inr shot, s)
    \<and> (sn_result shot = None \<longleftrightarrow> pending st = [] \<and> nc_droppedSinceAcknowledged st = 0)
    \<and> (\<forall>n text. sn_result shot = Some (n, text) \<longrightarrow>
         int (length text) \<le> (if nt_inline n = None then 200 else 400)
         \<and> (\<exists>before rest. text = before @ DRAIN @ rest)
         \<and> nt_pending n = length (pending st) \<and> nt_dropped n = nc_droppedSinceAcknowledged st
         \<and> (nt_inline n = None \<longleftrightarrow> (\<forall>m\<in>set (take 50 (pending st)). \<not> urgent m)))"
proof -
  let ?page = "take 50 (pending st)" and ?dropped = "nc_droppedSinceAcknowledged st"
  have core: "inbox_core c st" unfolding st by (rule reachable_core [OF assms(1,2)])
  have few: "plain_number (length (pending st))"
    using inbox_coreD(4) [OF core] by (simp add: plain_number_def maxUnacknowledgedPerController_def)
  have built: "plain_notice (n\<lparr>nt_pending := length (pending st)\<rparr>)"
    "nt_dropped n = ?dropped" "nt_inline n = None \<longleftrightarrow> (\<forall>m\<in>set ?page. \<not> urgent m)"
    if n: "buildNotice ?page now ?dropped = Some n" for n
  proof -
    show fields: "nt_dropped n = ?dropped" "nt_inline n = None \<longleftrightarrow> (\<forall>m\<in>set ?page. \<not> urgent m)"
      by (rule buildNotice_fields [OF n])+
    have "plain_number (nt_oldestAgeSeconds n)"
      using buildNotice_fields(3) [OF n] assms(5) in_set_takeD [of _ 50 "pending st"]
      by (fastforce simp: plain_number_def)
    then show "plain_notice (n\<lparr>nt_pending := length (pending st)\<rparr>)"
      using few fields(1) assms(4) by (simp add: plain_notice_def del: length_pending)
  qed
  have silent: "buildNotice ?page now ?dropped = None \<longleftrightarrow> pending st = [] \<and> ?dropped = 0"
    by (simp add: buildNotice_def Let_def)
  have short: "int (length (renderNotice m)) \<le> (if nt_inline m = None then 200 else 400)" if "plain_notice m" for m
    using length_render [OF that] unfolding noticeChars_def noticeInlineChars_def .
  show ?thesis
  proof (cases "buildNotice ?page now ?dropped")
    case None
    then show ?thesis using silent unfolding snapshot_value [OF assms(2) st core] by simp
  next
    case (Some n)
    note facts = built [OF Some] short [OF built(1) [OF Some]] render_drain [of "n\<lparr>nt_pending := length (pending st)\<rparr>"]
    show ?thesis unfolding snapshot_value [OF assms(2) st core] Some
      using silent facts Some by (simp del: length_pending)
  qed
qed

subsection \<open>When a wake is sent\<close>


subsection \<open>A controller with a ceiling of one wake\<close>

definition demo_attempts :: "wake_attempt list" where
  "demo_attempts =
     [\<lparr>wt_controller = ''a'', wt_maximum = 1, wt_checkedAt = 0, wt_enqueuedAt = Some 5\<rparr>,
      \<lparr>wt_controller = ''a'', wt_maximum = 1, wt_checkedAt = 7, wt_enqueuedAt = Some 8\<rparr>]"

lemma demo_attempts_clock: "clock_runs_on demo_attempts" "latest demo_attempts 10" "\<forall>a\<in>set demo_attempts. wt_maximum a \<le> 1"
  by code_simp+

lemma demo_wakes: "fst (wake_history demo_attempts) = [(''a'', 5)]"
  by code_simp

theorem wake_ceiling_witness:
  "clock_runs_on demo_attempts
   \<and> length (filter (\<lambda>(d, t). d = ''a'' \<and> 0 < t \<and> t \<le> 0 + HOUR_MS) (fst (wake_history demo_attempts))) \<le> 1
   \<and> fst (wake_history demo_attempts) = [(''a'', 5)]"
  using wake_ceiling [OF demo_attempts_clock(1,3), of "''a''" 0] demo_attempts_clock(1) demo_wakes by blast

definition demo_hold :: "wake_allowance \<times> wake_windows" where
  "demo_hold = budget_check ''a'' 1 10 (snd (wake_history demo_attempts))"

lemma demo_hold_refused: "\<not> al_allowed (fst demo_hold) \<and> al_resumeAt (fst demo_hold) = Some 3600005"
  by code_simp

theorem wake_hold_exact_witness:
  "\<not> al_allowed (fst demo_hold)
   \<and> (\<forall>later\<ge>10. al_allowed (fst (budget_check ''a'' 1 later (snd demo_hold))) \<longleftrightarrow> 3600005 \<le> later)"
proof -
  have "budget_check ''a'' 1 10 (snd (wake_history demo_attempts)) = (fst demo_hold, snd demo_hold)"
    by (simp add: demo_hold_def)
  from wake_hold_exact [OF demo_attempts_clock(1,2) this] demo_hold_refused show ?thesis by auto
qed

definition demo_inbox_view :: "bool \<times> bool \<times> bool" where
  "demo_inbox_view = (let st = inbox_of (ns_states demo_notes) ''a'' in
     (plain_number (nc_droppedSinceAcknowledged st)
       \<and> list_all (\<lambda>m. plain_number (nat ((10 - on_createdAt m) div 1000))) (pending st),
      wake_due st \<and> 0 < nc_headCursor st, 0 < np_maxWakesPerHour (nc_policy st) \<and> 1 < np_maxWakesPerHour (nc_policy st)))"

lemma demo_inbox_views: "demo_inbox_view = (True, True, True)"
  by code_simp

theorem notice_bounded_witness:
  "\<exists>shot n txt. inbox_snapshot 10 ''a'' demo_notes = (Inr shot, demo_notes) \<and> sn_result shot = Some (n, txt)
    \<and> nt_pending n = 2 \<and> length txt \<le> 400"
proof -
  define st where "st = inbox_of (ns_states demo_notes) ''a''"
  have plain: "plain_number (nc_droppedSinceAcknowledged st)"
    "\<forall>m\<in>set (pending st). plain_number (nat ((10 - on_createdAt m) div 1000))"
    using demo_inbox_views by (simp_all add: demo_inbox_view_def st_def list_all_iff Let_def)
  have two: "length (pending st) = 2" using demo_notes_facts(2) unfolding st_def by (metis length_map length_Cons list.size(3) numeral_2_eq_2)
  obtain shot where shot: "inbox_snapshot 10 ''a'' demo_notes = (Inr shot, demo_notes)"
    "sn_result shot = None \<longleftrightarrow> pending st = [] \<and> nc_droppedSinceAcknowledged st = 0"
    "\<forall>n txt. sn_result shot = Some (n, txt) \<longrightarrow>
       int (length txt) \<le> (if nt_inline n = None then 200 else 400) \<and> nt_pending n = length (pending st)"
    using notice_bounded [OF demo_notes_def demo_notes_facts(1) st_def plain] by metis
  have "pending st \<noteq> []" using two by (metis list.size(3) zero_neq_numeral)
  then obtain n v where told: "sn_result shot = Some (n, v)" using shot(2) by auto
  then have "int (length v) \<le> (if nt_inline n = None then 200 else 400)" "nt_pending n = 2"
    using shot(3) two by (auto simp del: length_pending)
  then have "length v \<le> 400" by (simp split: if_splits)
  with shot(1) told \<open>nt_pending n = 2\<close> show ?thesis by blast
qed


end
