(* ===== verification/Attention_Sources.thy ===== *)
theory Attention_Sources
  imports Event_Guarantees Instruction_Queue
begin

text \<open>
  The waits of orchestrators: the records of \<^verbatim>\<open>src/src/domain/orchestrator-attention.ts\<close>, the reading of
  their sources in \<^verbatim>\<open>src/src/orchestration/orchestrator-attention-source.ts\<close> and the wake policy of
  \<^verbatim>\<open>src/src/orchestration/orchestrator-attention-policy.ts\<close>. Reports and leases are read from the
  coordination service through its own calls; the state of the service when one target's turn comes, the
  completion ledger and the truth about a session are an environment. Digests are functions of what
  they are computed from.
\<close>

subsection \<open>Records\<close>

record attention_target =
  at_sessionId :: ident
  at_completionTarget :: nat

record attention_statement =
  am_objective :: string
  am_targets :: "attention_target list"
  am_nextAction :: string
  am_reviewAt :: "instant option"

record source_point =
  ap_sessionId :: ident
  ap_eventOrdinal :: nat
  ap_completionTurn :: nat
  ap_truthKey :: string

type_synonym coverage = "source_point list"

record read_receipt =
  ax_id :: ident
  ax_epoch :: ident
  ax_sequence :: nat
  ax_coverage :: coverage
  ax_notificationIds :: "ident list"
  ax_createdAt :: instant
  ax_acknowledgedAt :: "instant option"

record wait_authority =
  au_sessionId :: ident
  au_leaseVersion :: nat
  au_cwd :: string

datatype gap_reason = GapSupervisionLost | GapWorkerMissing | GapCompletionUnavailable

record attention_gap =
  ag_sessionId :: ident
  ag_reason :: gap_reason

datatype wake_outcome = OutcomeWake | OutcomeDoNotWake | OutcomeFallbackWake

record banked_decision =
  bd_snapshotId :: string
  bd_outcome :: wake_outcome
  bd_coverage :: coverage
  bd_at :: instant
  bd_inputId :: "string option"
  bd_reason :: "string option"

record wake_intent =
  wi_epoch :: ident
  wi_messageId :: ident
  wi_coverage :: coverage
  wi_createdAt :: instant
  wi_instructionId :: "ident option"
  wi_readSequenceFloor :: "nat option"

record last_wake =
  lw_epoch :: ident
  lw_messageId :: ident
  lw_instructionId :: "ident option"
  lw_intendedAt :: instant
  lw_scheduledAt :: "instant option"
  lw_renderedAt :: "instant option"
  lw_submittedAt :: "instant option"
  lw_initiatedAt :: "instant option"
  lw_expectedTurn :: "nat option"
  lw_consumedAt :: "instant option"
  lw_progressAt :: "instant option"
  lw_dormantAt :: "instant option"
  lw_holdReason :: "string option"

record consumption =
  cn_receiptId :: ident
  cn_sequence :: nat
  cn_coverage :: coverage
  cn_at :: instant

record wait_coverage =
  cv_captured :: coverage
  cv_evaluated :: coverage
  cv_noticed :: coverage
  cv_submitted :: coverage
  cv_consumed :: coverage
  cv_scheduled :: "coverage option"
  cv_rendered :: "coverage option"
  cv_initiated :: "coverage option"

datatype wait_recovery = RecoveryReady | RecoveryHeldMissingProcess

record attention =
  an_controllerId :: ident
  an_actorSessionId :: ident
  an_bindingKey :: string
  an_epoch :: ident
  an_armMutationId :: ident
  an_armRequestHash :: string
  an_statement :: attention_statement
  an_authorities :: "wait_authority list"
  an_armed :: bool
  an_recovery :: wait_recovery
  an_armedAt :: instant
  an_updatedAt :: instant
  an_actorTurnFloor :: nat
  an_cancelledAt :: "instant option"
  an_cancelReason :: "string option"
  an_snapshotId :: string
  an_coverage :: wait_coverage
  an_gaps :: "attention_gap list"
  an_decision :: "banked_decision option"
  an_pendingIntent :: "wake_intent option"
  an_reviewNotifiedAt :: "instant option"
  an_lastWake :: "last_wake option"
  an_readSequence :: nat
  an_receipts :: "read_receipt list"
  an_consumption :: "consumption option"

definition point_of :: "coverage \<Rightarrow> ident \<Rightarrow> source_point option" where
  "point_of cov i = find (\<lambda>p. ap_sessionId p = i) cov"

definition ordinal_of :: "source_point option \<Rightarrow> nat" where
  "ordinal_of p = (case p of None \<Rightarrow> 0 | Some p \<Rightarrow> ap_eventOrdinal p)"

definition turn_of :: "source_point option \<Rightarrow> nat" where
  "turn_of p = (case p of None \<Rightarrow> 0 | Some p \<Rightarrow> ap_completionTurn p)"

subsection \<open>Reading the sources\<close>

record ledger_turn =
  lt_turnNumber :: "nat option"
  lt_cancelled :: bool
  lt_text :: "string option"
  lt_data :: "((string \<times> string) list) option"

record completion_ledger =
  lg_completedTurns :: nat
  lg_turns :: "ledger_turn list"

datatype 'm session_answer = SessionKnown "'m worker_truth" | SessionMissing | SessionFault

datatype supervision = SupervisionHeld | SupervisionLost | SupervisionMissing

record truth_view =
  tv_supervision :: supervision
  tv_state :: "worker_truth_state option"
  tv_terminal :: "bool option"
  tv_completedTurns :: "int option"
  tv_pendingInstructions :: "int option"
  tv_modal :: "string option"
  tv_providerLimit :: "provider_limit option"

record attention_signal =
  sg_sessionId :: ident
  sg_intervention :: bool
  sg_blocked :: bool
  sg_backlog :: bool

record snapshot_view =
  sq_epoch :: ident
  sq_captured :: coverage
  sq_gaps :: "attention_gap list"
  sq_signals :: "attention_signal list"

record 'm source_env =
  av_coordination :: coordination_env
  av_service :: "ident \<Rightarrow> coordination"
  av_ledger :: "ident \<Rightarrow> completion_ledger"
  av_session :: "ident \<Rightarrow> 'm session_answer"
  av_fingerprint :: "'m \<Rightarrow> string"
  av_truthDigest :: "truth_view \<Rightarrow> string"
  av_snapshotDigest :: "snapshot_view \<Rightarrow> string"

datatype source_error = SourceService coordination_error | SourceSession | SourceType

record attention_report =
  rp_eventId :: ident
  rp_ordinal :: nat
  rp_workerId :: ident
  rp_kind :: event_kind
  rp_severity :: event_severity
  rp_interventionRequired :: bool
  rp_summary :: string
  rp_continuation :: event_continuation
  rp_state :: event_state

record completion_view =
  cw_turn :: nat
  cw_text :: string
  cw_data :: "((string \<times> string) list) option"

record 'm worker_view =
  vw_sessionId :: ident
  vw_completionTarget :: nat
  vw_supervision :: supervision
  vw_truth :: "'m worker_truth option"
  vw_reports :: "attention_report list"
  vw_completion :: "completion_view option"
  vw_completionUnavailable :: bool
  vw_moreReports :: bool

record 'm target_capture =
  tc_captured :: source_point
  tc_received :: source_point
  tc_view :: "'m worker_view"
  tc_gaps :: "attention_gap list"
  tc_signal :: attention_signal
  tc_reports :: nat

definition boundedCompletion :: "ledger_turn \<Rightarrow> nat \<Rightarrow> nat \<Rightarrow> completion_view" where
  "boundedCompletion turn number maxChars =
     \<lparr>cw_turn = number, cw_text = take maxChars (case lt_text turn of None \<Rightarrow> '''' | Some t \<Rightarrow> t),
      cw_data = map_option (\<lambda>d. concat (map (\<lambda>k. case map_of d k of None \<Rightarrow> [] | Some v \<Rightarrow> [(k, v)])
        [''semanticTurnId'', ''transport'', ''outcome'', ''provider'', ''providerTurnId''])) (lt_data turn)\<rparr>"

text \<open>The events of one worker after a cursor, as the service answers.\<close>

definition reports_filter :: "ident \<Rightarrow> projection_filter" where
  "reports_filter w = \<lparr>pf_workerIds = Some [w], pf_taskId = None, pf_waveId = None, pf_severities = None,
     pf_kinds = None, pf_intervention = Some AnyIntervention\<rparr>"

definition worker_reports ::
  "coordination_env \<Rightarrow> coordination \<Rightarrow> ident \<Rightarrow> nat \<Rightarrow> nat \<Rightarrow> source_error + stored_event list" where
  "worker_reports env s w cursor limit =
     (case fst (projectEvents env (Some cursor) (Some limit) (reports_filter w) s) of
        Inl e \<Rightarrow> Inl (SourceService e) | Inr page \<Rightarrow> Inr (ep_events page))"

definition asks_intervention :: "stored_event \<Rightarrow> bool" where
  "asks_intervention e = (se_state e = EventActive \<and> (se_interventionRequired e \<or> se_kind e = EvDecisionRequest))"

definition reports_blocked :: "stored_event \<Rightarrow> bool" where
  "reports_blocked e = (se_state e = EventActive \<and> se_continuation e \<noteq> Continuing)"

text \<open>The scan for signals reads at most twenty pages of fifty.\<close>

fun scan_signals ::
  "coordination_env \<Rightarrow> coordination \<Rightarrow> ident \<Rightarrow> nat \<Rightarrow> nat \<Rightarrow> nat \<times> bool \<times> bool \<Rightarrow> source_error + (nat \<times> bool \<times> bool)" where
  "scan_signals env s w 0 head acc = Inr acc"
| "scan_signals env s w (Suc pages) head (cursor, intervention, blocked) =
     (if head \<le> cursor then Inr (cursor, intervention, blocked)
      else case worker_reports env s w cursor 50 of
             Inl e \<Rightarrow> Inl e
           | Inr page \<Rightarrow>
               if page = [] then Inr (head, intervention, blocked)
               else scan_signals env s w pages head
                      (se_ordinal (last page), intervention \<or> list_ex asks_intervention page,
                       blocked \<or> list_ex reports_blocked page))"

definition session_truth :: "'m source_env \<Rightarrow> ident \<Rightarrow> source_error + 'm worker_truth option" where
  "session_truth env i =
     (case av_session env i of SessionKnown t \<Rightarrow> Inr (Some t) | SessionMissing \<Rightarrow> Inr None | SessionFault \<Rightarrow> Inl SourceSession)"

definition leased_to :: "ident \<Rightarrow> ownership_subject option \<Rightarrow> bool" where
  "leased_to c subject =
     (case subject of None \<Rightarrow> False
      | Some sub \<Rightarrow> cl_state (ow_lease sub) = ClActive \<and> map_option ci_controllerId (cl_controller (ow_lease sub)) = Some c)"

definition subject_of :: "coordination_env \<Rightarrow> coordination \<Rightarrow> ident \<Rightarrow> source_error + ownership_subject option" where
  "subject_of env s i = (case fst (getSubject env i s) of Inl e \<Rightarrow> Inl (SourceService e) | Inr sub \<Rightarrow> Inr sub)"

definition supervision_of ::
  "ident \<Rightarrow> wait_authority option \<Rightarrow> ownership_subject option \<Rightarrow> bool \<Rightarrow> source_error + supervision" where
  "supervision_of c authority subject missing =
     (if missing then Inr SupervisionMissing
      else if \<not> leased_to c subject then Inr SupervisionLost
      else case authority of None \<Rightarrow> Inl SourceType
        | Some a \<Rightarrow> Inr (if map_option (\<lambda>sub. cl_version (ow_lease sub)) subject = Some (au_leaseVersion a)
                        then SupervisionHeld else SupervisionLost))"

definition truth_view_of :: "'m source_env \<Rightarrow> supervision \<Rightarrow> 'm worker_truth option \<Rightarrow> truth_view" where
  "truth_view_of env how truth =
     \<lparr>tv_supervision = how, tv_state = map_option wt_state truth, tv_terminal = map_option wt_terminal truth,
      tv_completedTurns = map_option wt_completedTurns truth, tv_pendingInstructions = map_option wt_pendingInstructions truth,
      tv_modal = Option.bind truth (\<lambda>t. map_option (av_fingerprint env) (wt_modal t)),
      tv_providerLimit = Option.bind truth wt_providerLimit\<rparr>"

definition report_of :: "stored_event \<Rightarrow> attention_report" where
  "report_of e = \<lparr>rp_eventId = se_eventId e, rp_ordinal = se_ordinal e, rp_workerId = se_workerId e, rp_kind = se_kind e,
     rp_severity = se_severity e, rp_interventionRequired = se_interventionRequired e, rp_summary = take 512 (se_summary e),
     rp_continuation = se_continuation e, rp_state = se_state e\<rparr>"

text \<open>What is known once supervision, reports and signals of a target have been read.\<close>

definition captured_target ::
  "'m source_env \<Rightarrow> attention \<Rightarrow> nat \<Rightarrow> attention_target \<Rightarrow> 'm worker_truth option \<Rightarrow> supervision
    \<Rightarrow> stored_event list \<Rightarrow> nat \<Rightarrow> nat \<times> bool \<times> bool \<Rightarrow> 'm target_capture" where
  "captured_target env att maxChars target truth how reports head = (\<lambda>(cursor, intervention, blocked).
     let i = at_sessionId target;
         consumed = point_of (cv_consumed (an_coverage att)) i;
         prior = point_of (cv_captured (an_coverage att)) i;
         ledger = av_ledger env i;
         completion = find (\<lambda>t. lt_turnNumber t = Some (at_completionTarget target)) (lg_turns ledger);
         completionTurn = max (turn_of prior)
           (if at_completionTarget target \<le> lg_completedTurns ledger then at_completionTarget target else 0);
         unavailable = (turn_of consumed < completionTurn \<and> completion = None);
         key = av_truthDigest env (truth_view_of env how truth);
         receivedOrdinal = (if reports = [] then ordinal_of consumed else se_ordinal (last reports));
         shown = (case completion of None \<Rightarrow> None
           | Some t \<Rightarrow> if completionTurn \<le> turn_of consumed then None
                       else Some (boundedCompletion t (at_completionTarget target) maxChars))
     in \<lparr>tc_captured = \<lparr>ap_sessionId = i, ap_eventOrdinal = head, ap_completionTurn = completionTurn, ap_truthKey = key\<rparr>,
         tc_received = \<lparr>ap_sessionId = i, ap_eventOrdinal = receivedOrdinal,
           ap_completionTurn = (if shown = None then turn_of consumed else completionTurn), ap_truthKey = key\<rparr>,
         tc_view = \<lparr>vw_sessionId = i, vw_completionTarget = at_completionTarget target, vw_supervision = how,
           vw_truth = map_option (\<lambda>t. t\<lparr>wt_detail := take 1024 (wt_detail t)\<rparr>) truth,
           vw_reports = map report_of reports, vw_completion = shown, vw_completionUnavailable = unavailable,
           vw_moreReports = (receivedOrdinal < head)\<rparr>,
         tc_gaps = (case how of SupervisionHeld \<Rightarrow> []
             | SupervisionLost \<Rightarrow> [\<lparr>ag_sessionId = i, ag_reason = GapSupervisionLost\<rparr>]
             | SupervisionMissing \<Rightarrow> [\<lparr>ag_sessionId = i, ag_reason = GapWorkerMissing\<rparr>])
           @ (if unavailable then [\<lparr>ag_sessionId = i, ag_reason = GapCompletionUnavailable\<rparr>] else []),
         tc_signal = \<lparr>sg_sessionId = i, sg_intervention = intervention, sg_blocked = blocked,
           sg_backlog = (how = SupervisionHeld \<and> cursor < head)\<rparr>,
         tc_reports = length reports\<rparr>)"

definition capture_target ::
  "'m source_env \<Rightarrow> attention \<Rightarrow> nat \<Rightarrow> nat \<Rightarrow> attention_target \<Rightarrow> source_error + 'm target_capture" where
  "capture_target env att maxChars budget target =
     (let i = at_sessionId target; s = av_service env i; cenv = av_coordination env;
          consumed = point_of (cv_consumed (an_coverage att)) i;
          prior = point_of (cv_captured (an_coverage att)) i;
          authority = find (\<lambda>a. au_sessionId a = i) (an_authorities att)
      in case subject_of cenv s i of Inl e \<Rightarrow> Inl e | Inr subject \<Rightarrow>
         (case session_truth env i of Inl e \<Rightarrow> Inl e | Inr truth \<Rightarrow>
         (case supervision_of (an_controllerId att) authority subject (truth = None) of Inl e \<Rightarrow> Inl e | Inr how \<Rightarrow>
         (case (if how = SupervisionHeld \<and> 0 < budget then worker_reports cenv s i (ordinal_of consumed) budget else Inr []) of
            Inl e \<Rightarrow> Inl e
          | Inr reports \<Rightarrow>
              let head = max (case prior of Some p \<Rightarrow> ap_eventOrdinal p | None \<Rightarrow> ordinal_of consumed)
                    (if how = SupervisionHeld then ws_lastOrdinal (workerEventSummary s i) else 0)
              in case (if how = SupervisionHeld then scan_signals cenv s i 20 head (ordinal_of consumed, False, False)
                       else Inr (ordinal_of consumed, False, False)) of
                   Inl e \<Rightarrow> Inl e
                 | Inr scan \<Rightarrow> Inr (captured_target env att maxChars target truth how reports head scan)))))"

fun capture_targets ::
  "'m source_env \<Rightarrow> attention \<Rightarrow> nat \<Rightarrow> nat \<Rightarrow> attention_target list \<Rightarrow> source_error + 'm target_capture list" where
  "capture_targets env att maxChars budget [] = Inr []"
| "capture_targets env att maxChars budget (t # ts) =
     (case capture_target env att maxChars budget t of
        Inl e \<Rightarrow> Inl e
      | Inr c \<Rightarrow> (case capture_targets env att maxChars (budget - tc_reports c) ts of Inl e \<Rightarrow> Inl e | Inr cs \<Rightarrow> Inr (c # cs)))"

record 'm source_snapshot =
  ss_captured :: coverage
  ss_received :: coverage
  ss_workers :: "'m worker_view list"
  ss_gaps :: "attention_gap list"
  ss_snapshotId :: string
  ss_signals :: "attention_signal list"

definition captureAttentionSources :: "'m source_env \<Rightarrow> attention \<Rightarrow> nat \<Rightarrow> source_error + 'm source_snapshot" where
  "captureAttentionSources env att maxChars =
     (case capture_targets env att maxChars 50 (am_targets (an_statement att)) of
        Inl e \<Rightarrow> Inl e
      | Inr cs \<Rightarrow>
          let captured = map tc_captured cs; gaps = concat (map tc_gaps cs); signals = map tc_signal cs
          in Inr \<lparr>ss_captured = captured, ss_received = map tc_received cs, ss_workers = map tc_view cs, ss_gaps = gaps,
               ss_snapshotId = av_snapshotDigest env \<lparr>sq_epoch = an_epoch att, sq_captured = captured, sq_gaps = gaps, sq_signals = signals\<rparr>,
               ss_signals = signals\<rparr>)"

subsection \<open>The wake policy\<close>

definition covers_point :: "bool \<Rightarrow> source_point \<Rightarrow> source_point \<Rightarrow> bool" where
  "covers_point truth seen p =
     (ap_sessionId seen = ap_sessionId p \<and> ap_eventOrdinal p \<le> ap_eventOrdinal seen
      \<and> ap_completionTurn p \<le> ap_completionTurn seen \<and> (\<not> truth \<or> ap_truthKey seen = ap_truthKey p))"

definition coverageContains :: "coverage \<Rightarrow> coverage \<Rightarrow> bool \<Rightarrow> bool" where
  "coverageContains covered requested truth =
     list_all (\<lambda>p. list_ex (\<lambda>seen. covers_point truth seen p) covered) requested"

definition reviewDue :: "attention \<Rightarrow> instant \<Rightarrow> bool" where
  "reviewDue att now =
     (case am_reviewAt (an_statement att) of None \<Rightarrow> False | Some t \<Rightarrow> an_reviewNotifiedAt att = None \<and> t \<le> now)"

type_synonym attention_answer = "wake_outcome \<times> string"

definition worker_stopped :: "attention \<Rightarrow> 'm worker_view \<Rightarrow> bool" where
  "worker_stopped att w =
     (vw_completion w \<noteq> None
      \<or> list_ex (\<lambda>p. ap_sessionId p = vw_sessionId w \<and> vw_completionTarget w \<le> ap_completionTurn p) (cv_captured (an_coverage att))
      \<or> (case vw_truth w of None \<Rightarrow> False
         | Some t \<Rightarrow> wt_state t \<notin> {TruthWorking, TruthStarting, TruthStalled, TruthUnknown}
             \<and> \<not> (wt_state t = TruthIdle \<and> 0 < wt_pendingInstructions t)))"

definition attentionLivenessFloor :: "attention \<Rightarrow> 'm source_snapshot \<Rightarrow> instant \<Rightarrow> attention_answer option" where
  "attentionLivenessFloor att sources now =
     (if reviewDue att now then Some (OutcomeFallbackWake, ''review-deadline'')
      else if coverageContains (cv_consumed (an_coverage att)) (cv_captured (an_coverage att)) True then None
      else if ss_gaps sources \<noteq> [] then Some (OutcomeFallbackWake, ''source-or-supervision-gap'')
      else if list_ex sg_intervention (ss_signals sources) then Some (OutcomeFallbackWake, ''explicit-intervention'')
      else if list_ex sg_backlog (ss_signals sources) then Some (OutcomeFallbackWake, ''unresolved-backlog'')
      else if list_all (worker_stopped att) (ss_workers sources) then Some (OutcomeFallbackWake, ''awaited-group-stopped'')
      else None)"

definition groupWaitDecision :: "attention \<Rightarrow> 'm source_snapshot \<Rightarrow> instant \<Rightarrow> attention_answer" where
  "groupWaitDecision att sources now =
     (case attentionLivenessFloor att sources now of
        Some answer \<Rightarrow> answer
      | None \<Rightarrow>
          if \<not> coverageContains (cv_consumed (an_coverage att)) (cv_captured (an_coverage att)) True
             \<and> list_ex sg_blocked (ss_signals sources)
          then (OutcomeWake, ''blocked-report'') else (OutcomeDoNotWake, ''group-can-progress''))"

text \<open>A capture put into the record, as every reading of the sources for a decision does.\<close>

definition with_sources :: "attention \<Rightarrow> 'm source_snapshot \<Rightarrow> attention" where
  "with_sources att sources =
     att\<lparr>an_snapshotId := ss_snapshotId sources, an_gaps := ss_gaps sources,
         an_coverage := (an_coverage att)\<lparr>cv_captured := ss_captured sources\<rparr>\<rparr>"

subsection \<open>What the pages of a worker hold\<close>

text \<open>A service that has run: its events have their own ordinals and their summaries are exact.\<close>

definition service_reachable :: "coordination_env \<Rightarrow> coordination \<Rightarrow> bool" where
  "service_reachable env s = (inj (ce_uuid env) \<and> 0 < ce_maxProjectionPageSize env \<and> co_initialized s
     \<and> (\<exists>cs. s = co_run env cs co_start))"

lemma reachable_queue:
  "service_reachable env s \<Longrightarrow> queue_ok (queue_limit env) ((co_events s, co_summaries s), co_nextOrdinal s)"
  using service_ok_run by (auto simp: service_reachable_def service_ok_def queue_of_def)

lemma reachable_ordinals: "service_reachable env s \<Longrightarrow> distinct (map se_ordinal (js_values (co_events s)))"
  using distinct_by_key [OF queue_okD(1) [OF reachable_queue], of env s "\<lambda>_. True" se_ordinal] queue_okD(3) [OF reachable_queue]
  by simp

lemma summary_above:
  assumes "service_reachable env s" "e \<in> set (worker_events s w)"
  shows "se_ordinal e \<le> ws_lastOrdinal (workerEventSummary s w)"
proof -
  have "workerEventSummary s w = rebuildEventSummary (js_values (co_events s)) w"
    unfolding workerEventSummary_def by (rule queue_okD(7) [OF reachable_queue [OF assms(1)]])
  then have "ws_lastOrdinal (workerEventSummary s w) = highest w (js_values (co_events s))" by (simp add: rebuild_counts)
  moreover have "se_ordinal e \<le> highest w (js_values (co_events s))"
    using assms(2) unfolding highest_def fold_Max by (intro Max_ge) (auto simp: worker_events_def intro!: image_eqI [of _ _ e])
  ultimately show ?thesis by simp
qed

abbreviation events_after :: "coordination \<Rightarrow> ident \<Rightarrow> nat \<Rightarrow> stored_event list" where
  "events_after s w cursor \<equiv> filter (\<lambda>e. se_workerId e = w) (projection_candidates s cursor)"

lemma reports_match: "projection_match (reports_filter w) = (\<lambda>e. se_workerId e = w)"
  by (rule ext) (auto simp: projection_match_def reports_filter_def listed_def intervention_match_def)

lemma worker_reports_page:
  assumes "service_reachable env s"
  shows "worker_reports env s w cursor limit = Inr (take (projection_limit env (Some limit)) (events_after s w cursor))"
    "0 < projection_limit env (Some limit)"
proof -
  show limit: "0 < projection_limit env (Some limit)"
    using assms by (simp add: service_reachable_def projection_limit_def)
  have "co_initialized s" using assms by (simp add: service_reachable_def)
  with limit show "worker_reports env s w cursor limit = Inr (take (projection_limit env (Some limit)) (events_after s w cursor))"
    by (auto simp: worker_reports_def projectEvents_def co_assertReady_def op_defs projection_page_def reports_match Let_def)
qed

lemma in_events_after: "e \<in> set (events_after s w cursor) \<longleftrightarrow> e \<in> set (worker_events s w) \<and> cursor < se_ordinal e"
  by (auto simp: projection_candidates_def worker_events_def)

lemma page_prefix:
  assumes "service_reachable env s" "e \<in> set (events_after s w cursor)" "0 < k"
    and "take k (events_after s w cursor) \<noteq> []" "se_ordinal e \<le> se_ordinal (last (take k (events_after s w cursor)))"
  shows "e \<in> set (take k (events_after s w cursor))"
proof -
  let ?es = "events_after s w cursor"
  have "sorted_wrt (\<lambda>x y. se_ordinal x < se_ordinal y) ?es"
    by (rule sorted_wrt_filter) (rule candidates_sorted [OF reachable_ordinals [OF assms(1)]])
  then have "sorted_wrt (\<lambda>x y. se_ordinal x < se_ordinal y) (take k ?es @ drop k ?es)" by simp
  then have cross: "\<forall>x\<in>set (take k ?es). \<forall>y\<in>set (drop k ?es). se_ordinal x < se_ordinal y"
    unfolding sorted_wrt_append by blast
  have "e \<notin> set (drop k ?es)" using cross last_in_set [OF assms(4)] assms(5) by force
  moreover have "e \<in> set (take k ?es) \<union> set (drop k ?es)" using assms(2) by (metis append_take_drop_id set_append)
  ultimately show ?thesis by blast
qed

lemma scan_finds:
  assumes "service_reachable env s"
    and "scan_signals env s w pages head (cursor, intervention, blocked) = Inr (cursor', intervention', blocked')"
  shows "(intervention \<longrightarrow> intervention')
    \<and> (\<forall>e\<in>set (worker_events s w). cursor < se_ordinal e \<and> se_ordinal e \<le> cursor' \<and> asks_intervention e \<longrightarrow> intervention')"
  using assms(2)
proof (induction pages arbitrary: cursor intervention blocked)
  case 0
  then show ?case by auto
next
  case (Suc pages)
  let ?k = "projection_limit env (Some 50)"
  let ?page = "take ?k (events_after s w cursor)"
  note reports = worker_reports_page(1) [OF assms(1), of w cursor 50] worker_reports_page(2) [OF assms(1), of 50]
  show ?case
  proof (cases "head \<le> cursor \<or> ?page = []")
    case True
    then show ?thesis
    proof
      assume "head \<le> cursor"
      then show ?thesis using Suc.prems by auto
    next
      assume "?page = []"
      then have "events_after s w cursor = []" using reports(2) by simp
      then have "\<not> cursor < se_ordinal e" if "e \<in> set (worker_events s w)" for e
        using in_events_after [of e w s cursor] that by simp
      then show ?thesis using Suc.prems \<open>?page = []\<close> reports(1) by (auto split: if_splits)
    qed
  next
    case False
    then have rest: "scan_signals env s w pages head (se_ordinal (last ?page), intervention \<or> list_ex asks_intervention ?page,
        blocked \<or> list_ex reports_blocked ?page) = Inr (cursor', intervention', blocked')"
      using Suc.prems reports(1) by simp
    note found = Suc.IH [OF rest]
    have "intervention'" if e: "e \<in> set (worker_events s w)" "cursor < se_ordinal e" "se_ordinal e \<le> cursor'" "asks_intervention e" for e
    proof (cases "se_ordinal e \<le> se_ordinal (last ?page)")
      case True
      have "e \<in> set ?page"
        using False True e by (intro page_prefix [OF assms(1) _ reports(2)]) (simp_all only: in_events_after, auto)
      then show ?thesis using found e(4) unfolding list_ex_iff by blast
    next
      case False
      then show ?thesis using found e by auto
    qed
    then show ?thesis using found by blast
  qed
qed

subsection \<open>No intervention is hidden\<close>

lemma scan_signals_code [code]:
  "scan_signals env s w pages head acc =
     (if pages = 0 then Inr acc
      else let (cursor, intervention, blocked) = acc
           in if head \<le> cursor then Inr (cursor, intervention, blocked)
              else case worker_reports env s w cursor 50 of
                Inl e \<Rightarrow> Inl e
              | Inr page \<Rightarrow>
                  if page = [] then Inr (head, intervention, blocked)
                  else scan_signals env s w (pages - 1) head
                         (se_ordinal (last page), intervention \<or> list_ex asks_intervention page,
                          blocked \<or> list_ex reports_blocked page))"
  by (cases pages; cases acc) (simp_all split: sum.split)

lemma captures_in:
  assumes "capture_targets env att chars budget ts = Inr cs" "c \<in> set cs"
  shows "\<exists>t b. t \<in> set ts \<and> capture_target env att chars b t = Inr c"
  using assms
proof (induction ts arbitrary: budget cs)
  case (Cons t ts)
  then show ?case by (fastforce split: sum.splits)
qed simp

lemma captured_fields [simp]:
  "ap_sessionId (tc_captured (captured_target env att chars t truth how reports head scan)) = at_sessionId t"
  "ap_eventOrdinal (tc_captured (captured_target env att chars t truth how reports head scan)) = head"
  "vw_sessionId (tc_view (captured_target env att chars t truth how reports head scan)) = at_sessionId t"
  "vw_supervision (tc_view (captured_target env att chars t truth how reports head scan)) = how"
  "sg_intervention (tc_signal (captured_target env att chars t truth how reports head scan)) = fst (snd scan)"
  "sg_backlog (tc_signal (captured_target env att chars t truth how reports head scan)) = (how = SupervisionHeld \<and> fst scan < head)"
  by (simp_all add: captured_target_def Let_def split: prod.split)

lemma capture_held:
  assumes "capture_target env att chars b t = Inr c" "vw_supervision (tc_view c) = SupervisionHeld"
    and "i = at_sessionId t" "s = av_service env i" "base = ordinal_of (point_of (cv_consumed (an_coverage att)) i)"
  shows "ws_lastOrdinal (workerEventSummary s i) \<le> ap_eventOrdinal (tc_captured c)"
    "\<exists>cursor blocked. scan_signals (av_coordination env) s i 20 (ap_eventOrdinal (tc_captured c)) (base, False, False)
       = Inr (cursor, sg_intervention (tc_signal c), blocked)
     \<and> sg_backlog (tc_signal c) = (cursor < ap_eventOrdinal (tc_captured c))"
    "ap_sessionId (tc_captured c) = i" "vw_sessionId (tc_view c) = i"
  using assms by (auto simp: capture_target_def Let_def split: sum.splits if_splits)

text \<open>
  C12. No request for help is left waiting. When the sources of a wait have been read, a worker is still
  supervised by the waiting orchestrator, and an active event of that worker asks for an intervention or
  a decision beyond what the orchestrator has consumed, then the liveness floor wakes the orchestrator,
  whatever a decision function would say, however many events of progress lie before it: either the scan
  of the pages finds it, or the events it did not reach count as a backlog.
\<close>

theorem attention_never_hides:
  assumes capture: "captureAttentionSources env att chars = Inr sources"
    and view: "view \<in> set (ss_workers sources)" and held: "vw_supervision view = SupervisionHeld"
    and service: "service_reachable (av_coordination env) (av_service env (vw_sessionId view))"
    and e: "e \<in> set (worker_events (av_service env (vw_sessionId view)) (vw_sessionId view))" "asks_intervention e"
    and unread: "\<forall>p\<in>set (cv_consumed (an_coverage att)). ap_sessionId p = vw_sessionId view \<longrightarrow> ap_eventOrdinal p < se_ordinal e"
    and numbered: "0 < se_ordinal e"
  shows "\<exists>reason. attentionLivenessFloor (with_sources att sources) sources now = Some (OutcomeFallbackWake, reason)
    \<and> groupWaitDecision (with_sources att sources) sources now = (OutcomeFallbackWake, reason)"
proof -
  obtain cs where cs: "capture_targets env att chars 50 (am_targets (an_statement att)) = Inr cs"
    and sources: "ss_captured sources = map tc_captured cs" "ss_workers sources = map tc_view cs" "ss_signals sources = map tc_signal cs"
    using capture by (auto simp: captureAttentionSources_def Let_def split: sum.splits)
  obtain c where c: "c \<in> set cs" "view = tc_view c" using view sources(2) by auto
  obtain t b where t: "capture_target env att chars b t = Inr c" using captures_in [OF cs c(1)] by blast
  define i where "i = at_sessionId t"
  define base where "base = ordinal_of (point_of (cv_consumed (an_coverage att)) i)"
  note read = capture_held [OF t held [unfolded c(2)] i_def refl base_def]
  have i: "vw_sessionId view = i" using read(4) c(2) by simp
  have start: "base < se_ordinal e"
  proof (cases "point_of (cv_consumed (an_coverage att)) i")
    case None
    then show ?thesis using numbered by (simp add: base_def ordinal_of_def)
  next
    case (Some p)
    then have "p \<in> set (cv_consumed (an_coverage att))" "ap_sessionId p = i"
      unfolding point_of_def by (auto simp: find_Some_iff)
    then show ?thesis using unread Some by (simp add: base_def ordinal_of_def i)
  qed
  have head: "se_ordinal e \<le> ap_eventOrdinal (tc_captured c)"
    using summary_above [OF service e(1)] read(1) unfolding i by linarith
  obtain cursor blocked where scan: "scan_signals (av_coordination env) (av_service env i) i 20 (ap_eventOrdinal (tc_captured c)) (base, False, False)
      = Inr (cursor, sg_intervention (tc_signal c), blocked)" and backlog: "sg_backlog (tc_signal c) = (cursor < ap_eventOrdinal (tc_captured c))"
    using read(2) by blast
  have "sg_intervention (tc_signal c) \<or> sg_backlog (tc_signal c)"
    using scan_finds [OF service [unfolded i] scan] e start head backlog unfolding i by force
  then have signal: "list_ex sg_intervention (ss_signals sources) \<or> list_ex sg_backlog (ss_signals sources)"
    using c(1) unfolding sources(3) list_ex_iff by auto
  have "\<not> list_ex (\<lambda>seen. covers_point True seen (tc_captured c)) (cv_consumed (an_coverage att))"
    using unread head read(3) unfolding i covers_point_def list_ex_iff by force
  then have "\<not> coverageContains (cv_consumed (an_coverage att)) (ss_captured sources) True"
    using c(1) unfolding sources(1) coverageContains_def list_all_iff by auto
  then show ?thesis
    using signal by (auto simp: attentionLivenessFloor_def groupWaitDecision_def with_sources_def)
qed

subsection \<open>A wait for one worker\<close>

definition demo_asking :: coordination where
  "demo_asking = co_run demo_service (demo_open @ [demo_event_call 1 EvDecisionRequest False]) co_start"

definition demo_sources :: "unit source_env" where
  "demo_sources = \<lparr>av_coordination = demo_service, av_service = (\<lambda>_. demo_asking),
     av_ledger = (\<lambda>_. \<lparr>lg_completedTurns = 0, lg_turns = []\<rparr>),
     av_session = (\<lambda>_. SessionKnown \<lparr>wt_state = TruthWorking, wt_terminal = False, wt_completedTurns = 0, wt_canonicalTurns = 0,
       wt_pendingInstructions = 0, wt_composerOccupied = False, wt_modalOpen = False, wt_taskOutcome = OutcomeUnknown,
       wt_modal = None, wt_providerLimit = None, wt_stalledForSeconds = None, wt_detail = ''d''\<rparr>),
     av_fingerprint = (\<lambda>_. ''f''), av_truthDigest = (\<lambda>_. ''k''), av_snapshotDigest = (\<lambda>_. ''s'')\<rparr>"

definition demo_wait :: attention where
  "demo_wait = \<lparr>an_controllerId = ''a'', an_actorSessionId = ''u1'', an_bindingKey = ''b'', an_epoch = ''u2'', an_armMutationId = ''u3'',
     an_armRequestHash = ''h'', an_statement = \<lparr>am_objective = ''o'', am_targets = [\<lparr>at_sessionId = ''u'', at_completionTarget = 1\<rparr>],
       am_nextAction = ''n'', am_reviewAt = None\<rparr>,
     an_authorities = [\<lparr>au_sessionId = ''u'', au_leaseVersion = 1, au_cwd = ''/''\<rparr>], an_armed = True, an_recovery = RecoveryReady,
     an_armedAt = 0, an_updatedAt = 0, an_actorTurnFloor = 0, an_cancelledAt = None, an_cancelReason = None, an_snapshotId = ''s'',
     an_coverage = \<lparr>cv_captured = [], cv_evaluated = [], cv_noticed = [], cv_submitted = [], cv_consumed = [], cv_scheduled = None,
       cv_rendered = None, cv_initiated = None\<rparr>,
     an_gaps = [], an_decision = None, an_pendingIntent = None, an_reviewNotifiedAt = None, an_lastWake = None, an_readSequence = 0,
     an_receipts = [], an_consumption = None\<rparr>"

definition demo_capture :: "unit source_snapshot option" where
  "demo_capture = (case captureAttentionSources demo_sources demo_wait 1200 of Inl _ \<Rightarrow> None | Inr x \<Rightarrow> Some x)"

lemma demo_capture_view:
  "(case demo_capture of None \<Rightarrow> False
    | Some x \<Rightarrow> list_ex (\<lambda>w. vw_sessionId w = ''u'' \<and> vw_supervision w = SupervisionHeld) (ss_workers x))
   \<and> list_ex (\<lambda>e. asks_intervention e \<and> 0 < se_ordinal e) (worker_events demo_asking ''u'') \<and> co_initialized demo_asking"
  by code_simp

lemma demo_sources_reachable: "service_reachable (av_coordination demo_sources) (av_service demo_sources i)"
proof -
  have "0 < ce_maxProjectionPageSize demo_service" by (simp add: demo_service_def)
  then show ?thesis using demo_fresh(1) demo_capture_view
    unfolding service_reachable_def by (auto simp: demo_asking_def demo_sources_def)
qed

theorem attention_never_hides_witness:
  "\<exists>sources reason. captureAttentionSources demo_sources demo_wait 1200 = Inr sources
    \<and> attentionLivenessFloor (with_sources demo_wait sources) sources 0 = Some (OutcomeFallbackWake, reason)"
proof -
  obtain sources where sources: "captureAttentionSources demo_sources demo_wait 1200 = Inr sources" "demo_capture = Some sources"
    using demo_capture_view by (auto simp: demo_capture_def split: sum.splits option.splits)
  obtain w where w: "w \<in> set (ss_workers sources)" "vw_sessionId w = ''u''" "vw_supervision w = SupervisionHeld"
    using demo_capture_view unfolding sources(2) by (auto simp: list_ex_iff)
  obtain e where e: "e \<in> set (worker_events demo_asking ''u'')" "asks_intervention e" "0 < se_ordinal e"
    using demo_capture_view by (auto simp: list_ex_iff)
  have env: "av_coordination demo_sources = demo_service" "av_service demo_sources i = demo_asking" for i
    by (simp_all add: demo_sources_def)
  from attention_never_hides [OF sources(1) w(1,3) demo_sources_reachable, of e] e w(2) sources(1)
  show ?thesis by (auto simp: env demo_wait_def)
qed

end
