(* ===== verification/Attention_Waits.thy ===== *)
theory Attention_Waits
  imports Attention_Sources
begin

text \<open>
  The control plane of the waits, \<^verbatim>\<open>src/src/orchestration/orchestrator-attention-control.ts\<close>, over the store of
  \<^verbatim>\<open>src/src/persistence/orchestrator-attention-store.ts\<close>, and the changes the scheduler of
  \<^verbatim>\<open>src/src/broker/orchestrator-attention-scheduling.ts\<close> makes to a record.

  The store runs the updates of one controller one after the other, so an update is one operation; what it
  asks of bindings, sessions, ledgers and the coordination service is answered anew at every tick, because
  all of them go on while it waits. Formats of single fields (uuids, digests, timestamps, lengths of texts)
  are checked on requests only; the limits and refinements of the record schema are \<open>attention_valid\<close>.
\<close>

subsection \<open>The record schema\<close>

definition within_captured :: "coverage \<Rightarrow> source_point \<Rightarrow> bool" where
  "within_captured captured p =
     (case point_of captured (ap_sessionId p) of None \<Rightarrow> False
      | Some h \<Rightarrow> ap_eventOrdinal p \<le> ap_eventOrdinal h \<and> ap_completionTurn p \<le> ap_completionTurn h)"

definition all_coverages :: "attention \<Rightarrow> coverage list" where
  "all_coverages att =
     (let cov = an_coverage att
      in [cv_captured cov, cv_evaluated cov, cv_noticed cov, cv_submitted cov, cv_consumed cov]
         @ concat (map (\<lambda>c. case c of None \<Rightarrow> [] | Some c \<Rightarrow> [c]) [cv_scheduled cov, cv_rendered cov, cv_initiated cov])
         @ map ax_coverage (an_receipts att)
         @ (case an_decision att of None \<Rightarrow> [] | Some d \<Rightarrow> [bd_coverage d])
         @ (case an_pendingIntent att of None \<Rightarrow> [] | Some i \<Rightarrow> [wi_coverage i])
         @ (case an_consumption att of None \<Rightarrow> [] | Some c \<Rightarrow> [cn_coverage c]))"

definition target_ids :: "attention \<Rightarrow> ident list" where
  "target_ids att = map at_sessionId (am_targets (an_statement att))"

definition coverage_valid :: "coverage \<Rightarrow> bool" where
  "coverage_valid cov = (length cov \<le> 32 \<and> distinct (map ap_sessionId cov))"

definition statement_valid :: "attention_statement \<Rightarrow> bool" where
  "statement_valid st =
     (am_targets st \<noteq> [] \<and> length (am_targets st) \<le> 32 \<and> distinct (map at_sessionId (am_targets st))
      \<and> list_all (\<lambda>t. 0 < at_completionTarget t) (am_targets st))"

definition receipts_valid :: "attention \<Rightarrow> bool" where
  "receipts_valid att =
     (length (an_receipts att) \<le> 8 \<and> distinct (map ax_id (an_receipts att))
      \<and> list_all (\<lambda>r. ax_epoch r = an_epoch att \<and> ax_sequence r \<le> an_readSequence att \<and> 0 < ax_sequence r
           \<and> length (ax_notificationIds r) \<le> 50) (an_receipts att))"

definition attention_valid :: "attention \<Rightarrow> bool" where
  "attention_valid att =
     (statement_valid (an_statement att)
      \<and> length (an_authorities att) = length (target_ids att)
      \<and> card (set (map au_sessionId (an_authorities att))) = length (target_ids att)
      \<and> list_all (\<lambda>a. au_sessionId a \<in> set (target_ids att)) (an_authorities att)
      \<and> list_all coverage_valid (all_coverages att)
      \<and> list_all (list_all (\<lambda>p. ap_sessionId p \<in> set (target_ids att))) (all_coverages att)
      \<and> card (set (map ap_sessionId (cv_captured (an_coverage att)))) = length (target_ids att)
      \<and> list_all (list_all (within_captured (cv_captured (an_coverage att)))) (all_coverages att)
      \<and> length (an_gaps att) \<le> 64 \<and> list_all (\<lambda>g. ag_sessionId g \<in> set (target_ids att)) (an_gaps att)
      \<and> receipts_valid att
      \<and> (case an_consumption att of None \<Rightarrow> True | Some c \<Rightarrow> 0 < cn_sequence c)
      \<and> (case an_pendingIntent att of None \<Rightarrow> True | Some i \<Rightarrow> wi_epoch i = an_epoch att \<and> an_armed att)
      \<and> (an_armed att \<or> an_cancelledAt att \<noteq> None \<and> an_cancelReason att \<noteq> None))"

subsection \<open>The plane and what it asks\<close>

record orchestrator_binding =
  ob_key :: string
  ob_sessionId :: ident
  ob_cwd :: string
  ob_grant :: capability_grant

record actor_session =
  xs_orchestrator :: bool
  xs_cwd :: string
  xs_executionState :: session_execution_state
  xs_attentionState :: "attention_state option"
  xs_exitCode :: "int option"

datatype actor_reading = ActorKnown actor_session | ActorMissing | ActorFault

datatype attention_write = AttentionWritten | AttentionUnwritten | AttentionCommitted

record 'm attention_world =
  wd_sources :: "'m source_env"
  wd_binding :: "ident \<Rightarrow> orchestrator_binding option"
  wd_actor :: "ident \<Rightarrow> actor_reading"
  wd_stopRequested :: "ident \<Rightarrow> bool"
  wd_now :: instant
  wd_uuid :: ident
  wd_readable :: bool
  wd_write :: attention_write
  wd_wakeOff :: bool
  wd_applied :: bool

record arm_request =
  rq_statement :: attention_statement
  rq_actorSessionId :: ident
  rq_mutationId :: ident
  rq_previousEpoch :: "ident option"

record 'm attention_env =
  ae_world :: "nat \<Rightarrow> 'm attention_world"
  ae_keyDigest :: "string \<Rightarrow> string"
  ae_requestDigest :: "arm_request \<Rightarrow> string"
  ae_inputDigest :: "string \<times> coverage \<times> bool \<Rightarrow> string"
  ae_emptyDigest :: string
  ae_stableUuid :: "string \<Rightarrow> ident"

record attention_plane =
  pl_stored :: "(ident, attention) js_map"
  pl_active :: "(ident, attention) js_map"
  pl_tick :: nat

datatype attention_error =
    ActorUnauthorized | CapabilityRefused | BindingOrphaned | StaleEpoch | MutationConflict | AlreadyArmed
  | OwnershipLost | WaitCancelled | StaleReceipt | RecordCorrupt | RecordInvalid | StoreIo | SessionUnknown
  | SourceFailed source_error | WakeHeldBack string bool | ApplyFailed | TypeFault

type_synonym 'a wait_op = "(attention_plane, attention_error, 'a) op"

definition wait_ask :: "'m attention_env \<Rightarrow> ('m attention_world \<Rightarrow> 'a) \<Rightarrow> 'a wait_op" where
  "wait_ask env f s = (Inr (f (ae_world env (pl_tick s))), s\<lparr>pl_tick := Suc (pl_tick s)\<rparr>)"

definition boundedControllerKey :: "(string \<Rightarrow> string) \<Rightarrow> string \<Rightarrow> string" where
  "boundedControllerKey digest key =
     (if length key \<le> 243 then key else take 171 key @ '':sha256:'' @ digest key)"

definition orchestratorControllerId :: "(string \<Rightarrow> string) \<Rightarrow> string \<Rightarrow> ident" where
  "orchestratorControllerId digest key = ''orchestrator:'' @ boundedControllerKey digest key"

definition controller_of :: "'m attention_env \<Rightarrow> orchestrator_binding \<Rightarrow> ident" where
  "controller_of env b = orchestratorControllerId (ae_keyDigest env) (ob_key b)"

definition read_attention :: "'m attention_env \<Rightarrow> ident \<Rightarrow> (attention option) wait_op" where
  "read_attention env c =
     op_bind (wait_ask env wd_readable) (\<lambda>ok.
       if \<not> ok then op_throw StoreIo
       else op_bind (op_gets (\<lambda>s. js_get (pl_stored s) c)) (\<lambda>found.
         case found of None \<Rightarrow> op_return None
         | Some att \<Rightarrow> if attention_valid att \<and> an_controllerId att = c then op_return (Some att) else op_throw RecordCorrupt))"

definition write_attention :: "'m attention_env \<Rightarrow> ident \<Rightarrow> attention \<Rightarrow> unit wait_op" where
  "write_attention env c att =
     op_bind (wait_ask env wd_write) (\<lambda>outcome.
       case outcome of
         AttentionWritten \<Rightarrow> op_modify (\<lambda>s. s\<lparr>pl_stored := js_set c att (pl_stored s)\<rparr>)
       | AttentionUnwritten \<Rightarrow> op_throw StoreIo
       | AttentionCommitted \<Rightarrow> op_then (op_modify (\<lambda>s. s\<lparr>pl_stored := js_set c att (pl_stored s)\<rparr>)) (op_throw StoreIo))"

text \<open>An update, with what its change answers besides the record.\<close>

definition attention_update ::
  "'m attention_env \<Rightarrow> ident \<Rightarrow> (attention option \<Rightarrow> ('x \<times> attention option) wait_op) \<Rightarrow> ('x \<times> attention option) wait_op" where
  "attention_update env c change =
     op_bind (read_attention env c) (\<lambda>current.
     op_bind (change current) (\<lambda>(x, nxt).
       case nxt of None \<Rightarrow> op_return (x, current)
       | Some att \<Rightarrow>
           if \<not> attention_valid att then op_throw RecordInvalid
           else if an_controllerId att \<noteq> c then op_throw RecordCorrupt
           else op_then (op_when (current \<noteq> Some att) (write_attention env c att)) (op_return (x, Some att))))"

definition remember :: "attention \<Rightarrow> unit wait_op" where
  "remember att = op_modify (\<lambda>s. s\<lparr>pl_active :=
     (if an_armed att then js_set (an_controllerId att) att (pl_active s) else js_delete (an_controllerId att) (pl_active s))\<rparr>)"

subsection \<open>Authority\<close>

definition requireBinding :: "'m attention_env \<Rightarrow> ident \<Rightarrow> capability \<Rightarrow> orchestrator_binding wait_op" where
  "requireBinding env actor cap =
     op_bind (wait_ask env (\<lambda>w. wd_binding w actor)) (\<lambda>found.
       case found of None \<Rightarrow> op_throw ActorUnauthorized
       | Some b \<Rightarrow> if grantAllows (ob_grant b) cap (Some actor) (Some (ob_cwd b)) then op_return b else op_throw CapabilityRefused)"

definition revalidate :: "'m attention_env \<Rightarrow> orchestrator_binding \<Rightarrow> capability \<Rightarrow> unit wait_op" where
  "revalidate env b cap =
     op_bind (requireBinding env (ob_sessionId b) cap) (\<lambda>current.
       if ob_key current \<noteq> ob_key b then op_throw BindingOrphaned
       else if ob_grant current \<noteq> ob_grant b then op_throw CapabilityRefused
       else op_return ())"

fun check_readable :: "'m attention_world \<Rightarrow> orchestrator_binding \<Rightarrow> wait_authority list \<Rightarrow> attention_error option" where
  "check_readable w b [] = None"
| "check_readable w b (a # as) =
     (case wd_actor w (au_sessionId a) of
        ActorFault \<Rightarrow> Some SessionUnknown
      | reading \<Rightarrow>
          let cwd = (case reading of ActorKnown x \<Rightarrow> xs_cwd x | _ \<Rightarrow> au_cwd a)
          in if grantAllows (ob_grant b) ThreadRead (Some (au_sessionId a)) (Some cwd) then check_readable w b as
             else Some CapabilityRefused)"

definition requireReadable :: "'m attention_env \<Rightarrow> orchestrator_binding \<Rightarrow> attention \<Rightarrow> unit wait_op" where
  "requireReadable env b att =
     op_bind (wait_ask env (\<lambda>w. check_readable w b (an_authorities att))) (\<lambda>problem.
       case problem of None \<Rightarrow> op_return () | Some e \<Rightarrow> op_throw e)"

definition hasSourceAuthority :: "'m attention_env \<Rightarrow> orchestrator_binding \<Rightarrow> attention \<Rightarrow> bool wait_op" where
  "hasSourceAuthority env b att =
     (if \<not> grantAllows (ob_grant b) ThreadEnqueue (Some (ob_sessionId b)) (Some (ob_cwd b))
         \<or> \<not> grantAllows (ob_grant b) ThreadRead (Some (ob_sessionId b)) (Some (ob_cwd b)) then op_return False
      else op_bind (wait_ask env (\<lambda>w. check_readable w b (an_authorities att))) (\<lambda>problem.
        case problem of None \<Rightarrow> op_return True
        | Some e \<Rightarrow> if e = CapabilityRefused then op_return False else op_throw e))"

definition requireEpoch :: "attention option \<Rightarrow> orchestrator_binding \<Rightarrow> ident \<Rightarrow> attention wait_op" where
  "requireEpoch current b epoch =
     (case current of None \<Rightarrow> op_throw StaleEpoch
      | Some att \<Rightarrow>
          if an_epoch att \<noteq> epoch then op_throw StaleEpoch
          else if an_actorSessionId att \<noteq> ob_sessionId b \<or> an_bindingKey att \<noteq> ob_key b then op_throw BindingOrphaned
          else op_return att)"

definition requireArmed :: "attention \<Rightarrow> unit wait_op" where
  "requireArmed att = (if an_armed att then op_return () else op_throw WaitCancelled)"

subsection \<open>Cancelling and refreshing\<close>

definition held_for :: "string \<Rightarrow> attention \<Rightarrow> attention" where
  "held_for reason att = att\<lparr>an_lastWake := map_option (\<lambda>l. l\<lparr>lw_holdReason := Some reason\<rparr>) (an_lastWake att)\<rparr>"

definition cancelled_record :: "instant \<Rightarrow> instant \<Rightarrow> string \<Rightarrow> attention \<Rightarrow> attention" where
  "cancelled_record cancelledAt updatedAt reason att =
     held_for ''attention-cancelled'' (att\<lparr>an_pendingIntent := None, an_armed := False, an_cancelledAt := Some cancelledAt,
       an_cancelReason := Some reason, an_updatedAt := updatedAt\<rparr>)"

definition cancel_wait :: "'m attention_env \<Rightarrow> attention \<Rightarrow> string \<Rightarrow> attention wait_op" where
  "cancel_wait env att reason =
     op_bind (wait_ask env wd_now) (\<lambda>cancelledAt.
     op_bind (wait_ask env wd_now) (\<lambda>updatedAt. op_return (cancelled_record cancelledAt updatedAt reason att)))"

definition binds :: "'m attention_env \<Rightarrow> string \<Rightarrow> attention \<Rightarrow> orchestrator_binding option \<Rightarrow> bool" where
  "binds env key att found =
     (case found of None \<Rightarrow> False | Some b \<Rightarrow> ob_key b = key \<and> controller_of env b = an_controllerId att)"

text \<open>Whether the actor is stopped, and otherwise whether its process is there.\<close>

definition actor_recovery :: "'m attention_world \<Rightarrow> ident \<Rightarrow> attention_error + wait_recovery option" where
  "actor_recovery w actor =
     (case wd_actor w actor of
        ActorFault \<Rightarrow> Inl SessionUnknown
      | ActorMissing \<Rightarrow> Inr (Some RecoveryHeldMissingProcess)
      | ActorKnown x \<Rightarrow>
          if wd_stopRequested w actor \<or> xs_executionState x = Cancelled \<and> xs_attentionState x \<noteq> Some AttInterrupted then Inr None
          else Inr (Some (if xs_exitCode x \<noteq> None \<or> xs_attentionState x = Some AttInterrupted
                          then RecoveryHeldMissingProcess else RecoveryReady)))"

definition turn_cancelled :: "attention \<Rightarrow> completion_ledger \<Rightarrow> bool" where
  "turn_cancelled att ledger =
     list_ex (\<lambda>t. case lt_turnNumber t of None \<Rightarrow> False | Some k \<Rightarrow> an_actorTurnFloor att < k \<and> lt_cancelled t) (lg_turns ledger)"

definition capture_sources :: "'m attention_env \<Rightarrow> attention \<Rightarrow> nat \<Rightarrow> 'm source_snapshot wait_op" where
  "capture_sources env att maxChars =
     op_bind (wait_ask env (\<lambda>w. captureAttentionSources (wd_sources w) att maxChars)) (\<lambda>read.
       case read of Inl e \<Rightarrow> op_throw (SourceFailed e) | Inr sources \<Rightarrow> op_return sources)"

definition refresh_sources :: "'m attention_env \<Rightarrow> attention \<Rightarrow> orchestrator_binding \<Rightarrow> wait_recovery \<Rightarrow> attention wait_op" where
  "refresh_sources env att b recovery =
     op_bind (capture_sources env att 1200) (\<lambda>sources.
     op_bind (wait_ask env (\<lambda>w. wd_binding w (an_actorSessionId att))) (\<lambda>found.
       if \<not> binds env (ob_key b) att found then cancel_wait env att ''Orchestrator binding changed during capture''
       else op_bind (hasSourceAuthority env (the found) att) (\<lambda>ok.
         if \<not> ok then cancel_wait env att ''Orchestrator source authority lost''
         else if an_snapshotId att = ss_snapshotId sources \<and> an_recovery att = recovery then op_return att
         else op_bind (wait_ask env wd_now) (\<lambda>now.
           op_return ((with_sources att sources)\<lparr>an_recovery := recovery, an_updatedAt := now\<rparr>)))))"

definition refresh :: "'m attention_env \<Rightarrow> attention \<Rightarrow> attention wait_op" where
  "refresh env att =
     op_bind (wait_ask env (\<lambda>w. wd_binding w (an_actorSessionId att))) (\<lambda>found.
       if \<not> binds env (an_bindingKey att) att found then cancel_wait env att ''Orchestrator binding unavailable or replaced''
       else op_bind (wait_ask env (\<lambda>w. actor_recovery w (an_actorSessionId att))) (\<lambda>reading.
         case reading of
           Inl e \<Rightarrow> op_throw e
         | Inr None \<Rightarrow> cancel_wait env att ''Orchestrator stopped or cancelled''
         | Inr (Some recovery) \<Rightarrow>
             op_bind (hasSourceAuthority env (the found) att) (\<lambda>ok.
               if \<not> ok then cancel_wait env att ''Orchestrator source authority lost''
               else op_bind (wait_ask env (\<lambda>w. av_ledger (wd_sources w) (an_actorSessionId att))) (\<lambda>ledger.
                 if turn_cancelled att ledger then cancel_wait env att ''Orchestrator turn cancelled after arming''
                 else refresh_sources env att (the found) recovery))))"

definition refresh_armed :: "'m attention_env \<Rightarrow> ident option \<Rightarrow> attention option \<Rightarrow> (unit \<times> attention option) wait_op" where
  "refresh_armed env epoch current =
     (case current of None \<Rightarrow> op_return ((), None)
      | Some att \<Rightarrow>
          if \<not> an_armed att \<or> (epoch \<noteq> None \<and> epoch \<noteq> Some (an_epoch att)) then op_return ((), Some att)
          else op_bind (refresh env att) (\<lambda>att'. op_return ((), Some att')))"

definition reconcile_wait :: "'m attention_env \<Rightarrow> ident \<Rightarrow> ident option \<Rightarrow> (attention option) wait_op" where
  "reconcile_wait env c epoch =
     op_bind (attention_update env c (refresh_armed env epoch)) (\<lambda>(_, found).
       case found of None \<Rightarrow> op_return None | Some att \<Rightarrow> op_then (remember att) (op_return (Some att)))"

subsection \<open>Arming and cancelling\<close>

definition parse_statement :: "attention_statement \<Rightarrow> attention_statement option" where
  "parse_statement st =
     (let st' = st\<lparr>am_objective := js_trim (am_objective st), am_nextAction := js_trim (am_nextAction st)\<rparr>
      in if statement_valid st' \<and> bounded_text 1024 (am_objective st') \<and> bounded_text 1024 (am_nextAction st') then Some st' else None)"

definition target_turn :: "attention_statement \<Rightarrow> ident \<Rightarrow> nat option" where
  "target_turn st i = map_option at_completionTarget (find (\<lambda>t. at_sessionId t = i) (am_targets st))"

definition inheritedCoverage :: "attention option \<Rightarrow> attention_statement \<Rightarrow> (wait_coverage \<Rightarrow> coverage) \<Rightarrow> coverage" where
  "inheritedCoverage current st kind =
     (case current of None \<Rightarrow> []
      | Some att \<Rightarrow>
          map (\<lambda>p. p\<lparr>ap_completionTurn :=
                (if target_turn (an_statement att) (ap_sessionId p) = target_turn st (ap_sessionId p) then ap_completionTurn p else 0)\<rparr>)
            (filter (\<lambda>p. list_ex (\<lambda>t. at_sessionId t = ap_sessionId p) (am_targets st)) (kind (an_coverage att))))"

fun arm_authorities ::
  "'m attention_world \<Rightarrow> orchestrator_binding \<Rightarrow> ident \<Rightarrow> attention_target list \<Rightarrow> attention_error + wait_authority list" where
  "arm_authorities w b c [] = Inr []"
| "arm_authorities w b c (t # ts) =
     (case wd_actor w (at_sessionId t) of
        ActorKnown x \<Rightarrow>
          if xs_orchestrator x \<or> \<not> grantAllows (ob_grant b) ThreadRead None (Some (xs_cwd x))
             \<or> \<not> grantAllows (ob_grant b) ThreadEnqueue None (Some (xs_cwd x)) then Inl CapabilityRefused
          else (case subject_of (av_coordination (wd_sources w)) (av_service (wd_sources w) (at_sessionId t)) (at_sessionId t) of
                  Inl e \<Rightarrow> Inl (SourceFailed e)
                | Inr subject \<Rightarrow>
                    (case subject of
                       None \<Rightarrow> Inl OwnershipLost
                     | Some sub \<Rightarrow>
                         if \<not> leased_to c subject then Inl OwnershipLost
                         else case arm_authorities w b c ts of
                                Inl e \<Rightarrow> Inl e
                              | Inr as \<Rightarrow> Inr (\<lparr>au_sessionId = at_sessionId t, au_leaseVersion = cl_version (ow_lease sub), au_cwd = xs_cwd x\<rparr> # as)))
      | _ \<Rightarrow> Inl SessionUnknown)"

definition authority_kept :: "'m attention_world \<Rightarrow> ident \<Rightarrow> wait_authority \<Rightarrow> bool" where
  "authority_kept w c a =
     (case subject_of (av_coordination (wd_sources w)) (av_service (wd_sources w) (au_sessionId a)) (au_sessionId a) of
        Inr (Some sub) \<Rightarrow> leased_to c (Some sub) \<and> cl_version (ow_lease sub) = au_leaseVersion a
      | _ \<Rightarrow> False)"

definition armed_wait ::
  "'m attention_env \<Rightarrow> arm_request \<Rightarrow> orchestrator_binding \<Rightarrow> attention option \<Rightarrow> wait_authority list \<Rightarrow> instant
    \<Rightarrow> completion_ledger \<Rightarrow> ident \<Rightarrow> attention" where
  "armed_wait env rq b current authorities now ledger epoch =
     \<lparr>an_controllerId = controller_of env b, an_actorSessionId = rq_actorSessionId rq, an_bindingKey = ob_key b, an_epoch = epoch,
      an_armMutationId = rq_mutationId rq, an_armRequestHash = ae_requestDigest env rq, an_statement = rq_statement rq,
      an_authorities = authorities, an_armed = True, an_recovery = RecoveryReady, an_armedAt = now, an_updatedAt = now,
      an_actorTurnFloor = lg_completedTurns ledger, an_cancelledAt = None, an_cancelReason = None, an_snapshotId = ae_emptyDigest env,
      an_coverage = \<lparr>cv_captured = inheritedCoverage current (rq_statement rq) cv_captured, cv_evaluated = [], cv_noticed = [],
        cv_submitted = [], cv_consumed = inheritedCoverage current (rq_statement rq) cv_consumed,
        cv_scheduled = None, cv_rendered = None, cv_initiated = None\<rparr>,
      an_gaps = [], an_decision = None, an_pendingIntent = None, an_reviewNotifiedAt = None,
      an_lastWake = (case current of None \<Rightarrow> None | Some att \<Rightarrow> an_lastWake att), an_readSequence = 0, an_receipts = [],
      an_consumption = None\<rparr>"

definition open_wait ::
  "'m attention_env \<Rightarrow> arm_request \<Rightarrow> orchestrator_binding \<Rightarrow> attention option \<Rightarrow> (unit \<times> attention option) wait_op" where
  "open_wait env rq b current =
     op_bind (wait_ask env (\<lambda>w. arm_authorities w b (controller_of env b) (am_targets (rq_statement rq)))) (\<lambda>found.
       case found of
         Inl e \<Rightarrow> op_throw e
       | Inr authorities \<Rightarrow>
           op_bind (wait_ask env wd_now) (\<lambda>now.
           op_bind (wait_ask env (\<lambda>w. av_ledger (wd_sources w) (rq_actorSessionId rq))) (\<lambda>ledger.
           op_bind (wait_ask env wd_uuid) (\<lambda>epoch.
           op_bind (refresh env (armed_wait env rq b current authorities now ledger epoch)) (\<lambda>att.
           op_then (revalidate env b ThreadEnqueue)
             (op_bind (wait_ask env (\<lambda>w. list_all (authority_kept w (controller_of env b)) authorities)) (\<lambda>kept.
                if kept then op_return ((), Some att) else op_throw OwnershipLost)))))))"

definition arm_change ::
  "'m attention_env \<Rightarrow> arm_request \<Rightarrow> orchestrator_binding \<Rightarrow> attention option \<Rightarrow> (unit \<times> attention option) wait_op" where
  "arm_change env rq b current =
     op_then (revalidate env b ThreadEnqueue)
       (if map_option an_armMutationId current = Some (rq_mutationId rq)
        then (if map_option an_armRequestHash current \<noteq> Some (ae_requestDigest env rq) then op_throw MutationConflict
              else op_return ((), current))
        else if current \<noteq> None \<and> map_option an_epoch current \<noteq> rq_previousEpoch rq then op_throw AlreadyArmed
        else if rq_previousEpoch rq \<noteq> None \<and> map_option an_epoch current \<noteq> rq_previousEpoch rq then op_throw StaleEpoch
        else open_wait env rq b current)"

definition arm_update :: "'m attention_env \<Rightarrow> arm_request \<Rightarrow> orchestrator_binding \<Rightarrow> attention wait_op" where
  "arm_update env rq b =
     op_bind (attention_update env (controller_of env b) (arm_change env rq b)) (\<lambda>(_, found).
       case found of None \<Rightarrow> op_throw TypeFault | Some att \<Rightarrow> op_then (remember att) (op_return att))"

definition arm :: "'m attention_env \<Rightarrow> arm_request \<Rightarrow> attention wait_op" where
  "arm env rq =
     (case parse_statement (rq_statement rq) of
        None \<Rightarrow> op_throw RecordInvalid
      | Some st \<Rightarrow>
          let rq = rq\<lparr>rq_statement := st\<rparr>
          in op_bind (requireBinding env (rq_actorSessionId rq) ThreadEnqueue) (\<lambda>b.
             op_bind (arm_update env rq b) (\<lambda>att.
             op_bind (reconcile_wait env (controller_of env b) (Some (an_epoch att))) (\<lambda>reconciled.
               case reconciled of
                 None \<Rightarrow> op_throw TypeFault
               | Some att' \<Rightarrow> if an_epoch att' \<noteq> an_epoch att then op_throw StaleEpoch else op_return att'))))"

definition cancel_change ::
  "'m attention_env \<Rightarrow> orchestrator_binding \<Rightarrow> ident \<Rightarrow> string \<Rightarrow> attention option \<Rightarrow> (unit \<times> attention option) wait_op" where
  "cancel_change env b epoch reason current =
     op_then (revalidate env b ThreadEnqueue)
       (op_bind (requireEpoch current b epoch) (\<lambda>att.
          if \<not> an_armed att then op_return ((), Some att)
          else op_bind (cancel_wait env att reason) (\<lambda>att'. op_return ((), Some att'))))"

definition cancel_attention :: "'m attention_env \<Rightarrow> ident \<Rightarrow> ident \<Rightarrow> string \<Rightarrow> attention wait_op" where
  "cancel_attention env actor epoch reason =
     (if \<not> bounded_text 1024 (js_trim reason) then op_throw RecordInvalid
      else op_bind (requireBinding env actor ThreadEnqueue) (\<lambda>b.
        op_bind (attention_update env (controller_of env b) (cancel_change env b epoch (js_trim reason))) (\<lambda>(_, found).
          case found of None \<Rightarrow> op_throw TypeFault | Some att \<Rightarrow> op_then (remember att) (op_return att))))"

definition cancel_if :: "'m attention_env \<Rightarrow> (attention \<Rightarrow> bool) \<Rightarrow> string \<Rightarrow> attention option \<Rightarrow> (unit \<times> attention option) wait_op" where
  "cancel_if env doomed reason current =
     (case current of None \<Rightarrow> op_return ((), None)
      | Some att \<Rightarrow>
          if doomed att \<and> an_armed att then op_bind (cancel_wait env att reason) (\<lambda>att'. op_return ((), Some att'))
          else op_return ((), Some att))"

definition remembering :: "(unit \<times> attention option) wait_op \<Rightarrow> unit wait_op" where
  "remembering m = op_bind m (\<lambda>(_, found). case found of None \<Rightarrow> op_return () | Some att \<Rightarrow> remember att)"

definition bindingRemoved :: "'m attention_env \<Rightarrow> orchestrator_binding \<Rightarrow> unit wait_op" where
  "bindingRemoved env b =
     remembering (attention_update env (controller_of env b)
       (cancel_if env (\<lambda>att. an_actorSessionId att = ob_sessionId b) ''Orchestrator binding reset''))"

definition bindingChanged :: "'m attention_env \<Rightarrow> orchestrator_binding \<Rightarrow> unit wait_op" where
  "bindingChanged env b =
     remembering (attention_update env (controller_of env b)
       (cancel_if env (\<lambda>att. an_actorSessionId att \<noteq> ob_sessionId b) ''Orchestrator binding replaced''))"

subsection \<open>Reading and acknowledging\<close>

record 'm attention_page =
  pg_epoch :: ident
  pg_receiptId :: ident
  pg_snapshotId :: string
  pg_statement :: attention_statement
  pg_recovery :: wait_recovery
  pg_captured :: coverage
  pg_consumed :: coverage
  pg_workers :: "'m worker_view list"
  pg_gaps :: "attention_gap list"
  pg_decision :: "banked_decision option"
  pg_pendingIntent :: "wake_intent option"
  pg_lastWake :: "last_wake option"

definition with_read_receipt :: "attention \<Rightarrow> read_receipt \<Rightarrow> instant \<Rightarrow> attention" where
  "with_read_receipt att r now =
     att\<lparr>an_updatedAt := now, an_readSequence := an_readSequence att + 1,
         an_receipts := js_slice_last 8 (an_receipts att @ [r])\<rparr>"

definition read_change ::
  "'m attention_env \<Rightarrow> orchestrator_binding \<Rightarrow> ident \<Rightarrow> ident list \<Rightarrow> nat \<Rightarrow> attention option
    \<Rightarrow> ('m attention_page option \<times> attention option) wait_op" where
  "read_change env b epoch ids maxChars current =
     op_bind (requireEpoch current b epoch) (\<lambda>att.
     op_then (requireArmed att)
     (op_then (revalidate env b ThreadRead)
     (op_then (requireReadable env b att)
     (op_bind (capture_sources env att maxChars) (\<lambda>sources.
      op_then (revalidate env b ThreadRead)
     (op_then (requireReadable env b att)
     (op_bind (wait_ask env wd_uuid) (\<lambda>i.
      op_bind (wait_ask env wd_now) (\<lambda>updated.
      op_bind (wait_ask env wd_now) (\<lambda>created.
        op_return (Some \<lparr>pg_epoch = epoch, pg_receiptId = i, pg_snapshotId = ss_snapshotId sources, pg_statement = an_statement att,
            pg_recovery = an_recovery att, pg_captured = ss_captured sources, pg_consumed = cv_consumed (an_coverage att),
            pg_workers = ss_workers sources, pg_gaps = ss_gaps sources, pg_decision = an_decision att,
            pg_pendingIntent = an_pendingIntent att, pg_lastWake = an_lastWake att\<rparr>,
          Some (with_read_receipt (with_sources att sources)
            \<lparr>ax_id = i, ax_epoch = epoch, ax_sequence = an_readSequence att + 1, ax_coverage = ss_received sources,
             ax_notificationIds = ids, ax_createdAt = created, ax_acknowledgedAt = None\<rparr> updated))))))))))))"

definition recheck_read :: "'m attention_env \<Rightarrow> orchestrator_binding \<Rightarrow> ident \<Rightarrow> attention option \<Rightarrow> (unit \<times> attention option) wait_op" where
  "recheck_read env b epoch current =
     op_then (revalidate env b ThreadRead)
       (op_bind (requireEpoch current b epoch) (\<lambda>att.
        op_then (requireArmed att)
       (op_then (requireReadable env b att)
       (op_then (remember att) (op_return ((), Some att))))))"

definition readPage :: "'m attention_env \<Rightarrow> ident \<Rightarrow> ident \<Rightarrow> ident list \<Rightarrow> nat \<Rightarrow> ('m attention_page) wait_op" where
  "readPage env actor epoch ids maxChars =
     op_bind (requireBinding env actor ThreadRead) (\<lambda>b.
     op_bind (reconcile_wait env (controller_of env b) (Some epoch)) (\<lambda>_.
     op_bind (attention_update env (controller_of env b) (read_change env b epoch ids maxChars)) (\<lambda>(page, _).
     op_bind (attention_update env (controller_of env b) (recheck_read env b epoch)) (\<lambda>_.
       case page of None \<Rightarrow> op_throw TypeFault | Some p \<Rightarrow> op_return p))))"

definition mergeConsumed :: "coverage \<Rightarrow> coverage \<Rightarrow> bool \<Rightarrow> coverage" where
  "mergeConsumed prior received newer =
     js_values (fold (\<lambda>p m. let previous = js_get m (ap_sessionId p)
         in js_set (ap_sessionId p) (p\<lparr>ap_eventOrdinal := max (ordinal_of previous) (ap_eventOrdinal p),
              ap_completionTurn := max (turn_of previous) (ap_completionTurn p),
              ap_truthKey := (case previous of None \<Rightarrow> ap_truthKey p | Some q \<Rightarrow> if newer then ap_truthKey p else ap_truthKey q)\<rparr>) m)
       received (fold (\<lambda>p m. js_set (ap_sessionId p) p m) prior []))"

definition acknowledged_read :: "attention \<Rightarrow> read_receipt \<Rightarrow> instant \<Rightarrow> attention" where
  "acknowledged_read att r now =
     (let newer = (case an_consumption att of None \<Rightarrow> 0 | Some c \<Rightarrow> cn_sequence c) < ax_sequence r
      in att\<lparr>an_updatedAt := now,
             an_coverage := (an_coverage att)\<lparr>cv_consumed := mergeConsumed (cv_consumed (an_coverage att)) (ax_coverage r) newer\<rparr>,
             an_receipts := map (\<lambda>e. if ax_id e = ax_id r then e\<lparr>ax_acknowledgedAt := Some now\<rparr> else e) (an_receipts att),
             an_consumption := (if newer then Some \<lparr>cn_receiptId = ax_id r, cn_sequence = ax_sequence r, cn_coverage = ax_coverage r, cn_at = now\<rparr>
               else an_consumption att)\<rparr>)"

definition acknowledge_change ::
  "'m attention_env \<Rightarrow> orchestrator_binding \<Rightarrow> ident \<Rightarrow> ident \<Rightarrow> attention option \<Rightarrow> (ident list \<times> attention option) wait_op" where
  "acknowledge_change env b epoch receiptId current =
     op_bind (requireEpoch current b epoch) (\<lambda>att.
     op_then (requireArmed att)
     (op_then (revalidate env b ThreadRead)
     (op_then (requireReadable env b att)
       (case find (\<lambda>r. ax_id r = receiptId) (an_receipts att) of
          None \<Rightarrow> op_throw StaleReceipt
        | Some r \<Rightarrow>
            if ax_acknowledgedAt r \<noteq> None then op_return (ax_notificationIds r, Some att)
            else op_bind (wait_ask env wd_now) (\<lambda>now. op_return (ax_notificationIds r, Some (acknowledged_read att r now)))))))"

definition acknowledge_wait :: "'m attention_env \<Rightarrow> ident \<Rightarrow> ident \<Rightarrow> ident \<Rightarrow> (ident list) wait_op" where
  "acknowledge_wait env actor epoch receiptId =
     op_bind (requireBinding env actor ThreadRead) (\<lambda>b.
     op_bind (attention_update env (controller_of env b) (acknowledge_change env b epoch receiptId)) (\<lambda>(ids, found).
       case found of None \<Rightarrow> op_throw TypeFault | Some att \<Rightarrow> op_then (remember att) (op_return ids)))"

subsection \<open>Scheduling\<close>

definition snapshot_change ::
  "'m attention_env \<Rightarrow> attention option \<Rightarrow> ((attention \<times> 'm source_snapshot) option \<times> attention option) wait_op" where
  "snapshot_change env current =
     (case current of None \<Rightarrow> op_return (None, None)
      | Some att \<Rightarrow>
          if \<not> an_armed att then op_return (None, Some att)
          else op_bind (refresh env att) (\<lambda>att'.
            if \<not> an_armed att' then op_return (None, Some att')
            else op_bind (capture_sources env att' 1200) (\<lambda>sources.
              op_return (Some (with_sources att' sources, sources), Some (with_sources att' sources)))))"

definition schedulingSnapshot :: "'m attention_env \<Rightarrow> ident \<Rightarrow> ((attention \<times> 'm source_snapshot) option) wait_op" where
  "schedulingSnapshot env c = op_bind (attention_update env c (snapshot_change env)) (\<lambda>(snap, _). op_return snap)"

definition scheduling_change ::
  "'m attention_env \<Rightarrow> (attention \<Rightarrow> attention wait_op) \<Rightarrow> attention option \<Rightarrow> (unit \<times> attention option) wait_op" where
  "scheduling_change env change current =
     (case current of None \<Rightarrow> op_return ((), None)
      | Some att \<Rightarrow>
          op_bind (if an_armed att then refresh env att else op_return att) (\<lambda>att'.
            if \<not> an_armed att' then op_return ((), Some att')
            else op_bind (wait_ask env (\<lambda>w. wd_binding w (an_actorSessionId att'))) (\<lambda>found.
              op_bind (if binds env (an_bindingKey att') att' found then hasSourceAuthority env (the found) att' else op_return False) (\<lambda>ok.
                op_bind (if ok then change att' else cancel_wait env att' ''Orchestrator scheduling authority lost'') (\<lambda>nxt.
                  op_return ((), Some nxt))))))"

definition schedulingUpdate :: "'m attention_env \<Rightarrow> ident \<Rightarrow> (attention \<Rightarrow> attention wait_op) \<Rightarrow> (attention option) wait_op" where
  "schedulingUpdate env c change =
     op_bind (attention_update env c (scheduling_change env change)) (\<lambda>(_, found). op_return found)"

text \<open>The changes the scheduler makes: banking a decision, clearing a consumed intent, holding and observing a wake.\<close>

definition attentionInputId :: "'m attention_env \<Rightarrow> attention \<Rightarrow> instant \<Rightarrow> string" where
  "attentionInputId env att now = ae_inputDigest env (an_snapshotId att, cv_consumed (an_coverage att), reviewDue att now)"

definition intended_wake :: "ident \<Rightarrow> ident \<Rightarrow> instant \<Rightarrow> last_wake" where
  "intended_wake epoch messageId now =
     \<lparr>lw_epoch = epoch, lw_messageId = messageId, lw_instructionId = None, lw_intendedAt = now, lw_scheduledAt = None,
      lw_renderedAt = None, lw_submittedAt = None, lw_initiatedAt = None, lw_expectedTurn = None, lw_consumedAt = None,
      lw_progressAt = None, lw_dormantAt = None, lw_holdReason = None\<rparr>"

definition banked :: "'m attention_env \<Rightarrow> string \<Rightarrow> attention_answer \<Rightarrow> instant \<Rightarrow> attention \<Rightarrow> attention" where
  "banked env inputId answer now att =
     (let captured = cv_captured (an_coverage att);
          nxt = att\<lparr>an_updatedAt := now, an_coverage := (an_coverage att)\<lparr>cv_evaluated := captured\<rparr>,
            an_decision := Some \<lparr>bd_snapshotId = an_snapshotId att, bd_outcome = fst answer, bd_coverage = captured, bd_at = now,
              bd_inputId = Some inputId, bd_reason = Some (snd answer)\<rparr>\<rparr>;
          messageId = ae_stableUuid env (''attention:'' @ an_controllerId att @ '':'' @ an_epoch att @ '':'' @ inputId)
      in if fst answer = OutcomeDoNotWake then nxt
         else nxt\<lparr>an_reviewNotifiedAt := (if snd answer = ''review-deadline'' then Some now else an_reviewNotifiedAt att),
           an_pendingIntent := Some \<lparr>wi_epoch = an_epoch att, wi_messageId = messageId, wi_coverage = captured, wi_createdAt = now,
             wi_instructionId = None, wi_readSequenceFloor = Some (an_readSequence att)\<rparr>,
           an_lastWake := Some (intended_wake (an_epoch att) messageId now)\<rparr>)"

definition bank_decision ::
  "'m attention_env \<Rightarrow> bool \<Rightarrow> ident \<Rightarrow> string \<Rightarrow> attention_answer \<Rightarrow> attention \<Rightarrow> attention wait_op" where
  "bank_decision env live epoch inputId answer att =
     op_bind (wait_ask env wd_now) (\<lambda>checked.
       if \<not> live \<or> an_epoch att \<noteq> epoch \<or> an_pendingIntent att \<noteq> None \<or> attentionInputId env att checked \<noteq> inputId then op_return att
       else op_bind (wait_ask env wd_now) (\<lambda>now. op_return (banked env inputId answer now att)))"

definition clear_intent :: "'m attention_env \<Rightarrow> ident \<Rightarrow> consumption \<Rightarrow> attention \<Rightarrow> attention wait_op" where
  "clear_intent env messageId receipt att =
     (if map_option wi_messageId (an_pendingIntent att) \<noteq> Some messageId then op_return att
      else op_bind (wait_ask env wd_now) (\<lambda>now.
        op_return (att\<lparr>an_pendingIntent := None, an_updatedAt := now,
          an_reviewNotifiedAt := (case am_reviewAt (an_statement att) of None \<Rightarrow> an_reviewNotifiedAt att
            | Some t \<Rightarrow> if t \<le> cn_at receipt then Some (cn_at receipt) else an_reviewNotifiedAt att),
          an_lastWake := map_option (\<lambda>l. l\<lparr>lw_consumedAt := Some (cn_at receipt)\<rparr>) (an_lastWake att)\<rparr>)))"

definition hold_wake :: "ident \<Rightarrow> string \<Rightarrow> attention \<Rightarrow> attention wait_op" where
  "hold_wake messageId reason att =
     op_return (if map_option lw_messageId (an_lastWake att) \<noteq> Some messageId then att else held_for reason att)"

definition or_given :: "'a option \<Rightarrow> 'a option \<Rightarrow> 'a option" where
  "or_given x y = (case x of None \<Rightarrow> y | Some v \<Rightarrow> Some v)"

definition wake_reached :: "instruction_record \<Rightarrow> bool" where
  "wake_reached r = (ir_status r \<in> {Submitted, Acknowledged, Completed})"

definition initiated :: "instruction_record \<Rightarrow> bool" where
  "initiated r = (ir_status r \<in> {Acknowledged, Completed})"

definition wake_evidence :: "instruction_record \<Rightarrow> (bool \<times> string) \<Rightarrow> bool \<Rightarrow> instant \<Rightarrow> last_wake \<Rightarrow> last_wake" where
  "wake_evidence r truth idle now prior =
     (let progress = (if ir_status r = Completed
            then or_given (lw_progressAt prior) (or_given (ir_completedAt r) (Some (ir_updatedAt r))) else lw_progressAt prior)
      in prior\<lparr>lw_instructionId := Some (ir_id r), lw_scheduledAt := Some (ir_createdAt r),
         lw_renderedAt := or_given (ir_renderedAt r) (lw_renderedAt prior),
         lw_submittedAt := or_given (ir_submittedAt r) (lw_submittedAt prior),
         lw_expectedTurn := or_given (ir_expectedTurn r) (lw_expectedTurn prior),
         lw_initiatedAt := (if initiated r then or_given (lw_initiatedAt prior) (Some (ir_updatedAt r)) else lw_initiatedAt prior),
         lw_progressAt := progress,
         lw_holdReason := (if \<not> wake_reached r \<and> fst truth then Some (''attention-provider-'' @ snd truth) else ir_holdReason r),
         lw_dormantAt := (if lw_consumedAt prior \<noteq> None \<and> progress \<noteq> None \<and> idle then or_given (lw_dormantAt prior) (Some now)
           else lw_dormantAt prior)\<rparr>)"

text \<open>The truth about the actor: whether it is terminal, the name of its state, and whether that is idle.\<close>

definition observe_wake :: "'m attention_env \<Rightarrow> instruction_record \<Rightarrow> bool \<times> string \<Rightarrow> bool \<Rightarrow> attention \<Rightarrow> attention wait_op" where
  "observe_wake env r truth idle att =
     (case an_lastWake att of
        None \<Rightarrow> op_return att
      | Some l \<Rightarrow>
          if lw_messageId l \<noteq> ir_messageId r then op_return att
          else op_bind (wait_ask env wd_now) (\<lambda>now.
            let att' = att\<lparr>an_lastWake := Some (wake_evidence r truth idle now l)\<rparr>
            in op_return (case an_pendingIntent att of
                 None \<Rightarrow> att'
               | Some i \<Rightarrow>
                   if wi_messageId i \<noteq> ir_messageId r then att'
                   else att'\<lparr>an_pendingIntent := Some (i\<lparr>wi_instructionId := Some (ir_id r)\<rparr>),
                     an_coverage := (let cov = (an_coverage att)\<lparr>cv_scheduled := Some (wi_coverage i)\<rparr>;
                         cov = (if ir_renderedAt r = None then cov else cov\<lparr>cv_rendered := Some (wi_coverage i), cv_noticed := wi_coverage i\<rparr>);
                         cov = (if wake_reached r then cov\<lparr>cv_submitted := wi_coverage i\<rparr> else cov)
                       in if initiated r then cov\<lparr>cv_initiated := Some (wi_coverage i)\<rparr> else cov)\<rparr>)))"

subsection \<open>Admitting a wake\<close>

definition run_apply :: "'m attention_env \<Rightarrow> unit wait_op" where
  "run_apply env = op_bind (wait_ask env wd_applied) (\<lambda>ok. if ok then op_return () else op_throw ApplyFailed)"

definition actor_ready :: "'m attention_world \<Rightarrow> attention \<Rightarrow> attention_error option" where
  "actor_ready w att =
     (case wd_actor w (an_actorSessionId att) of
        ActorKnown x \<Rightarrow>
          if an_recovery att \<noteq> RecoveryReady \<or> xs_exitCode x \<noteq> None \<or> xs_attentionState x = Some AttInterrupted
          then Some (WakeHeldBack ''attention-missing-process'' False)
          else if wd_stopRequested w (an_actorSessionId att) then Some (WakeHeldBack ''attention-stopped'' True)
          else None
      | _ \<Rightarrow> Some SessionUnknown)"

definition authority_as_recorded :: "'m attention_world \<Rightarrow> attention \<Rightarrow> wait_authority \<Rightarrow> bool" where
  "authority_as_recorded w att a =
     (authority_kept w (an_controllerId att) a \<noteq>
      list_ex (\<lambda>g. ag_sessionId g = au_sessionId a \<and> ag_reason g \<in> {GapSupervisionLost, GapWorkerMissing}) (an_gaps att))"

definition admit_epoch :: "'m attention_env \<Rightarrow> instruction_record \<Rightarrow> ident \<Rightarrow> attention \<Rightarrow> (bool \<times> attention option) wait_op" where
  "admit_epoch env r epoch att =
     op_bind (requireBinding env (an_actorSessionId att) ThreadEnqueue) (\<lambda>b.
     op_bind (requireEpoch (Some att) b epoch) (\<lambda>_.
     op_bind (hasSourceAuthority env b att) (\<lambda>ok.
       if \<not> ok then op_throw (WakeHeldBack ''attention-authority-lost'' True)
       else op_bind (wait_ask env (\<lambda>w. actor_ready w att)) (\<lambda>problem.
         case problem of
           Some e \<Rightarrow> op_throw e
         | None \<Rightarrow>
             op_bind (wait_ask env (\<lambda>w. list_all (authority_as_recorded w att) (an_authorities att))) (\<lambda>kept.
               if \<not> kept then op_throw (WakeHeldBack ''attention-source-changed'' False)
               else op_bind (wait_ask env wd_wakeOff) (\<lambda>off.
                 if off then op_bind (wait_ask env wd_now) (\<lambda>now.
                   op_return (True, Some (held_for ''notification-wake-off'' (att\<lparr>an_updatedAt := now\<rparr>))))
                 else op_then (run_apply env) (op_return (False, Some att))))))))"

definition admit_change :: "'m attention_env \<Rightarrow> instruction_record \<Rightarrow> wake_context \<Rightarrow> attention option \<Rightarrow> (bool \<times> attention option) wait_op" where
  "admit_change env r wake current =
     (case wc_attentionEpoch wake of
        None \<Rightarrow> if current \<noteq> None then op_throw (WakeHeldBack ''attention-owns-wake-policy'' True)
                else op_then (run_apply env) (op_return (False, None))
      | Some epoch \<Rightarrow>
          (case current of
             None \<Rightarrow> op_throw (WakeHeldBack ''attention-obsolete'' True)
           | Some att \<Rightarrow>
               if \<not> an_armed att \<or> an_epoch att \<noteq> epoch \<or> map_option wi_messageId (an_pendingIntent att) \<noteq> Some (ir_messageId r)
                  \<or> an_actorSessionId att \<noteq> ir_targetSessionId r
               then op_throw (WakeHeldBack ''attention-obsolete'' True)
               else admit_epoch env r epoch att))"

definition admitWake :: "'m attention_env \<Rightarrow> instruction_record \<Rightarrow> wake_context \<Rightarrow> unit wait_op" where
  "admitWake env r wake =
     op_bind (reconcile_wait env (wc_controllerId wake) (wc_attentionEpoch wake)) (\<lambda>_.
     op_bind (attention_update env (wc_controllerId wake) (admit_change env r wake)) (\<lambda>(off, _).
       if off then op_throw (WakeHeldBack ''notification-wake-off'' False) else op_return ()))"

end
