(* ===== verification/Attention_Invariants.thy ===== *)
theory Attention_Invariants
  imports Attention_Waits
begin

text \<open>
  The record of a wait and the ways it changes. \<open>wait_inv\<close> is the record schema in the form the proofs use,
  equivalent to \<open>attention_valid\<close>; \<open>wait_next\<close> says how one update may change a record; a reading of the
  sources of a reachable coordination service, and every change of the plane and of the scheduler, keeps both.
\<close>

subsection \<open>Coverage\<close>

text \<open>The points of one coverage lie at or below those of another, which has all their sessions.\<close>

definition below :: "coverage \<Rightarrow> coverage \<Rightarrow> bool" where
  "below cov upper = (\<forall>p\<in>set cov. \<exists>h\<in>set upper. ap_sessionId h = ap_sessionId p
     \<and> ap_eventOrdinal p \<le> ap_eventOrdinal h \<and> ap_completionTurn p \<le> ap_completionTurn h)"

abbreviation sessions :: "coverage \<Rightarrow> ident list" where
  "sessions cov \<equiv> map ap_sessionId cov"

lemma below_refl [simp]: "below cov cov"
  by (auto simp: below_def)

lemma below_trans: "below a b \<Longrightarrow> below b c \<Longrightarrow> below a c"
  unfolding below_def by (metis order_trans)

lemma below_Nil [simp]: "below [] cov"
  by (simp add: below_def)

lemma below_sessions: "below cov upper \<Longrightarrow> set (sessions cov) \<subseteq> set (sessions upper)"
  unfolding below_def by (auto simp: image_iff) metis

lemma find_by_session: "distinct (sessions cov) \<Longrightarrow> p \<in> set cov \<Longrightarrow> point_of cov (ap_sessionId p) = Some p"
  unfolding point_of_def by (induction cov) auto

lemma point_of_SomeD: "point_of cov i = Some p \<Longrightarrow> p \<in> set cov \<and> ap_sessionId p = i"
  unfolding point_of_def by (auto simp: find_Some_iff)

lemma point_of_None: "point_of cov i = None \<longleftrightarrow> i \<notin> set (sessions cov)"
  unfolding point_of_def by (auto simp: find_None_iff)

lemma within_below:
  assumes "distinct (sessions upper)"
  shows "list_all (within_captured upper) cov \<longleftrightarrow> below cov upper"
proof -
  have "within_captured upper p \<longleftrightarrow> (\<exists>h\<in>set upper. ap_sessionId h = ap_sessionId p
      \<and> ap_eventOrdinal p \<le> ap_eventOrdinal h \<and> ap_completionTurn p \<le> ap_completionTurn h)" for p
  proof (cases "point_of upper (ap_sessionId p)")
    case None
    then have "ap_sessionId h \<noteq> ap_sessionId p" if "h \<in> set upper" for h
      using that unfolding point_of_None set_map by (metis imageI)
    then show ?thesis using None by (auto simp: within_captured_def)
  next
    case (Some h)
    have "k = h" if "k \<in> set upper" "ap_sessionId k = ap_sessionId p" for k
      using find_by_session [OF assms that(1)] Some that(2) by simp
    then show ?thesis using Some point_of_SomeD [OF Some] by (auto simp: within_captured_def)
  qed
  then show ?thesis by (simp add: below_def list_all_iff)
qed

subsection \<open>The schema as an invariant\<close>

definition wait_inv :: "attention \<Rightarrow> bool" where
  "wait_inv att =
     (statement_valid (an_statement att)
      \<and> distinct (map au_sessionId (an_authorities att)) \<and> set (map au_sessionId (an_authorities att)) = set (target_ids att)
      \<and> distinct (sessions (cv_captured (an_coverage att))) \<and> set (sessions (cv_captured (an_coverage att))) = set (target_ids att)
      \<and> (\<forall>cov\<in>set (all_coverages att). distinct (sessions cov) \<and> below cov (cv_captured (an_coverage att)))
      \<and> length (an_gaps att) \<le> 64 \<and> (\<forall>g\<in>set (an_gaps att). ag_sessionId g \<in> set (target_ids att))
      \<and> receipts_valid att
      \<and> (\<forall>c. an_consumption att = Some c \<longrightarrow> 0 < cn_sequence c)
      \<and> (\<forall>i. an_pendingIntent att = Some i \<longrightarrow> wi_epoch i = an_epoch att \<and> an_armed att)
      \<and> (an_armed att \<or> an_cancelledAt att \<noteq> None \<and> an_cancelReason att \<noteq> None))"

lemma captured_listed: "cv_captured (an_coverage att) \<in> set (all_coverages att)"
  by (simp add: all_coverages_def Let_def)

lemma valid_iff_inv: "attention_valid att \<longleftrightarrow> wait_inv att"
proof -
  have ids: "length (target_ids att) = card (set (target_ids att))" if "statement_valid (an_statement att)"
    using that distinct_card [of "target_ids att"] by (simp add: statement_valid_def target_ids_def)
  have few: "length cov \<le> 32"
    if "distinct (sessions cov)" "set (sessions cov) \<subseteq> set (target_ids att)" "statement_valid (an_statement att)" for cov
  proof -
    have "length cov = card (set (sessions cov))" using distinct_card [OF that(1)] by simp
    also have "\<dots> \<le> card (set (target_ids att))" by (rule card_mono) (use that(2) in auto)
    also have "\<dots> \<le> length (target_ids att)" by (rule card_length)
    finally show ?thesis using that(3) by (simp add: statement_valid_def target_ids_def)
  qed
  show ?thesis
  proof
    assume v: "attention_valid att"
    have st: "statement_valid (an_statement att)" using v by (simp add: attention_valid_def)
    have auth: "card (set (map au_sessionId (an_authorities att))) = length (map au_sessionId (an_authorities att))"
      "set (map au_sessionId (an_authorities att)) \<subseteq> set (target_ids att)"
      using v by (auto simp: attention_valid_def list_all_iff)
    have auths: "distinct (map au_sessionId (an_authorities att))" using auth(1) by (rule card_distinct)
    have covs: "distinct (sessions cov)" "set (sessions cov) \<subseteq> set (target_ids att)"
      "list_all (within_captured (cv_captured (an_coverage att))) cov" if "cov \<in> set (all_coverages att)" for cov
      using v that by (auto simp: attention_valid_def coverage_valid_def list_all_iff)
    have upper: "distinct (sessions (cv_captured (an_coverage att)))" by (rule covs(1) [OF captured_listed])
    have same: "A = set (target_ids att)" if "A \<subseteq> set (target_ids att)" "card A = length (target_ids att)" for A
      using that ids [OF st] by (intro card_subset_eq) auto
    have "set (map au_sessionId (an_authorities att)) = set (target_ids att)"
      using auth v by (intro same) (auto simp: attention_valid_def)
    moreover have "set (sessions (cv_captured (an_coverage att))) = set (target_ids att)"
      using covs(2) [OF captured_listed] v by (intro same) (auto simp: attention_valid_def)
    ultimately show "wait_inv att"
      using v covs within_below [OF upper] auths upper
      by (auto simp: wait_inv_def attention_valid_def list_all_iff split: option.splits)
  next
    assume inv: "wait_inv att"
    have st: "statement_valid (an_statement att)" using inv by (simp add: wait_inv_def)
    have upper: "distinct (sessions (cv_captured (an_coverage att)))"
      "set (sessions (cv_captured (an_coverage att))) = set (target_ids att)" using inv by (simp_all add: wait_inv_def)
    have covs: "distinct (sessions cov)" "below cov (cv_captured (an_coverage att))" if "cov \<in> set (all_coverages att)" for cov
      using inv that by (auto simp: wait_inv_def)
    have sub: "set (sessions cov) \<subseteq> set (target_ids att)" if "cov \<in> set (all_coverages att)" for cov
      using below_sessions [OF covs(2) [OF that]] upper(2) by simp
    have auths: "distinct (map au_sessionId (an_authorities att))" "set (map au_sessionId (an_authorities att)) = set (target_ids att)"
      using inv by (simp_all add: wait_inv_def)
    have "card (set (map au_sessionId (an_authorities att))) = length (target_ids att)"
      "card (set (sessions (cv_captured (an_coverage att)))) = length (target_ids att)"
      unfolding auths(2) upper(2) using ids [OF st] by simp_all
    moreover have "length (an_authorities att) = length (target_ids att)"
      using distinct_card [OF auths(1)] ids [OF st] unfolding auths(2) by simp
    moreover have "list_all coverage_valid (all_coverages att)"
      using covs(1) few sub st by (auto simp: list_all_iff coverage_valid_def)
    moreover have "list_all (list_all (\<lambda>p. ap_sessionId p \<in> set (target_ids att))) (all_coverages att)"
      using sub by (fastforce simp: list_all_iff)
    moreover have "list_all (list_all (within_captured (cv_captured (an_coverage att)))) (all_coverages att)"
      unfolding list_all_iff [of "list_all _"] within_below [OF upper(1)] using covs(2) by blast
    ultimately show "attention_valid att"
      using inv auths(2) by (auto simp: wait_inv_def attention_valid_def list_all_iff [of _ "an_authorities att"]
          list_all_iff [of _ "an_gaps att"] split: option.split)
  qed
qed

subsection \<open>What a reading of the sources returns\<close>

definition capture_base :: "attention \<Rightarrow> bool" where
  "capture_base att =
     (distinct (target_ids att) \<and> length (target_ids att) \<le> 32 \<and> distinct (sessions (cv_captured (an_coverage att)))
      \<and> set (sessions (cv_captured (an_coverage att))) \<subseteq> set (target_ids att)
      \<and> distinct (sessions (cv_consumed (an_coverage att)))
      \<and> below (cv_consumed (an_coverage att)) (cv_captured (an_coverage att)))"

lemma inv_base: "wait_inv att \<Longrightarrow> capture_base att"
  by (auto simp: wait_inv_def capture_base_def statement_valid_def target_ids_def all_coverages_def Let_def)

lemma consumed_prior:
  assumes "capture_base att" "point_of (cv_consumed (an_coverage att)) i = Some q"
  shows "\<exists>p. point_of (cv_captured (an_coverage att)) i = Some p \<and> ap_eventOrdinal q \<le> ap_eventOrdinal p \<and> ap_completionTurn q \<le> ap_completionTurn p"
proof -
  have "q \<in> set (cv_consumed (an_coverage att))" "ap_sessionId q = i" using point_of_SomeD [OF assms(2)] by auto
  then obtain p where p: "p \<in> set (cv_captured (an_coverage att))" "ap_sessionId p = i"
    "ap_eventOrdinal q \<le> ap_eventOrdinal p" "ap_completionTurn q \<le> ap_completionTurn p"
    using assms(1) by (auto simp: capture_base_def below_def)
  have "distinct (sessions (cv_captured (an_coverage att)))" using assms(1) by (simp add: capture_base_def)
  from find_by_session [OF this p(1)] p show ?thesis by auto
qed

lemma consumed_le_prior:
  assumes "capture_base att"
  shows "ordinal_of (point_of (cv_consumed (an_coverage att)) i) \<le> ordinal_of (point_of (cv_captured (an_coverage att)) i)"
    "turn_of (point_of (cv_consumed (an_coverage att)) i) \<le> turn_of (point_of (cv_captured (an_coverage att)) i)"
  using consumed_prior [OF assms] by (cases "point_of (cv_consumed (an_coverage att)) i"; force simp: ordinal_of_def turn_of_def)+

definition reports_from :: "'m source_env \<Rightarrow> ident \<Rightarrow> stored_event list \<Rightarrow> bool" where
  "reports_from env i reports = (set reports \<subseteq> set (worker_events (av_service env i) i))"

lemma capture_result:
  assumes "capture_target env att chars b t = Inr c"
    and service: "service_reachable (av_coordination env) (av_service env (at_sessionId t))"
  shows "\<exists>truth how reports head scan. c = captured_target env att chars t truth how reports head scan
    \<and> reports_from env (at_sessionId t) reports
    \<and> (case point_of (cv_captured (an_coverage att)) (at_sessionId t) of Some p \<Rightarrow> ap_eventOrdinal p
         | None \<Rightarrow> ordinal_of (point_of (cv_consumed (an_coverage att)) (at_sessionId t))) \<le> head
    \<and> (reports \<noteq> [] \<longrightarrow> ws_lastOrdinal (workerEventSummary (av_service env (at_sessionId t)) (at_sessionId t)) \<le> head)"
proof -
  let ?i = "at_sessionId t"
  have reports: "reports_from env ?i rs" if "worker_reports (av_coordination env) (av_service env ?i) ?i k n = Inr rs" for rs k n
  proof -
    have "rs = take (projection_limit (av_coordination env) (Some n)) (events_after (av_service env ?i) ?i k)"
      using worker_reports_page(1) [OF service, of ?i k n] that by simp
    then show ?thesis unfolding reports_from_def using in_events_after by (auto dest!: in_set_takeD)
  qed
  let ?prior = "case point_of (cv_captured (an_coverage att)) ?i of Some p \<Rightarrow> ap_eventOrdinal p
      | None \<Rightarrow> ordinal_of (point_of (cv_consumed (an_coverage att)) ?i)"
  let ?last = "\<lambda>how. if how = SupervisionHeld then ws_lastOrdinal (workerEventSummary (av_service env ?i) ?i) else 0"
  obtain truth how rs scan where
    rs: "(if how = SupervisionHeld \<and> 0 < b then worker_reports (av_coordination env) (av_service env ?i) ?i
        (ordinal_of (point_of (cv_consumed (an_coverage att)) ?i)) b else Inr []) = Inr rs"
    and c: "c = captured_target env att chars t truth how rs (max ?prior (?last how)) scan"
    using assms(1) unfolding capture_target_def Let_def by (auto split: sum.splits)
  have "reports_from env ?i rs" using rs reports by (auto simp: reports_from_def split: if_splits)
  moreover have "how = SupervisionHeld" if "rs \<noteq> []" using rs that by (auto split: if_splits)
  ultimately show ?thesis using c
    by (intro exI [of _ truth] exI [of _ how] exI [of _ rs] exI [of _ "max ?prior (?last how)"] exI [of _ scan] conjI) auto
qed

lemma captured_target_facts:
  fixes env :: "'m source_env"
  assumes base: "capture_base att" and service: "service_reachable (av_coordination env) (av_service env (at_sessionId t))"
    and c: "capture_target env att chars b t = Inr c"
  shows "ap_sessionId (tc_captured c) = at_sessionId t" "ap_sessionId (tc_received c) = at_sessionId t"
    "point_of (cv_captured (an_coverage att)) (at_sessionId t) = Some p \<Longrightarrow>
       ap_eventOrdinal p \<le> ap_eventOrdinal (tc_captured c) \<and> ap_completionTurn p \<le> ap_completionTurn (tc_captured c)"
    "ap_eventOrdinal (tc_received c) \<le> ap_eventOrdinal (tc_captured c)"
    "ap_completionTurn (tc_received c) \<le> ap_completionTurn (tc_captured c)"
    "length (tc_gaps c) \<le> 2" "g \<in> set (tc_gaps c) \<Longrightarrow> ag_sessionId g = at_sessionId t"
proof -
  let ?i = "at_sessionId t"
  obtain truth how reports head scan where c': "c = captured_target env att chars t truth how reports head scan"
    and from_worker: "reports_from env ?i reports"
    and head: "(case point_of (cv_captured (an_coverage att)) ?i of Some p \<Rightarrow> ap_eventOrdinal p
         | None \<Rightarrow> ordinal_of (point_of (cv_consumed (an_coverage att)) ?i)) \<le> head"
      "reports \<noteq> [] \<longrightarrow> ws_lastOrdinal (workerEventSummary (av_service env ?i) ?i) \<le> head"
    using capture_result [OF c service] by blast
  note unfold = c' captured_target_def Let_def case_prod_beta
  show "ap_sessionId (tc_captured c) = at_sessionId t" "ap_sessionId (tc_received c) = at_sessionId t"
    "length (tc_gaps c) \<le> 2" "g \<in> set (tc_gaps c) \<Longrightarrow> ag_sessionId g = at_sessionId t"
    by (auto simp: unfold split: supervision.splits if_splits)
  show "point_of (cv_captured (an_coverage att)) (at_sessionId t) = Some p \<Longrightarrow>
      ap_eventOrdinal p \<le> ap_eventOrdinal (tc_captured c) \<and> ap_completionTurn p \<le> ap_completionTurn (tc_captured c)"
    using head(1) by (simp add: unfold turn_of_def)
  have consumed: "ordinal_of (point_of (cv_consumed (an_coverage att)) ?i) \<le> head"
    using head(1) consumed_le_prior(1) [OF base, of ?i]
    by (cases "point_of (cv_captured (an_coverage att)) ?i") (auto simp: ordinal_of_def)
  have "se_ordinal (last reports) \<le> head" if "reports \<noteq> []"
  proof -
    have "last reports \<in> set (worker_events (av_service env ?i) ?i)"
      using from_worker last_in_set [OF that] unfolding reports_from_def by blast
    then show ?thesis using summary_above [OF service] head(2) that by (meson order_trans)
  qed
  then show "ap_eventOrdinal (tc_received c) \<le> ap_eventOrdinal (tc_captured c)"
    using consumed by (simp add: unfold)
  show "ap_completionTurn (tc_received c) \<le> ap_completionTurn (tc_captured c)"
    using consumed_le_prior(2) [OF base, of ?i] by (auto simp: unfold)
qed

lemma captures_each:
  assumes "capture_targets env att chars budget ts = Inr cs"
  shows "list_all2 (\<lambda>t c. \<exists>b. capture_target env att chars b t = Inr c) ts cs"
  using assms
proof (induction ts arbitrary: budget cs)
  case (Cons t ts)
  then show ?case by (auto split: sum.splits)
qed simp

definition sources_reachable :: "'m source_env \<Rightarrow> bool" where
  "sources_reachable env = (\<forall>i. service_reachable (av_coordination env) (av_service env i))"

definition good_sources :: "attention \<Rightarrow> 'm source_snapshot \<Rightarrow> bool" where
  "good_sources att sources =
     (sessions (ss_captured sources) = target_ids att \<and> sessions (ss_received sources) = target_ids att
      \<and> below (cv_captured (an_coverage att)) (ss_captured sources) \<and> below (ss_received sources) (ss_captured sources)
      \<and> length (ss_gaps sources) \<le> 64 \<and> (\<forall>g\<in>set (ss_gaps sources). ag_sessionId g \<in> set (target_ids att)))"

lemma list_all2_map: "list_all2 R xs ys \<Longrightarrow> (\<And>x y. R x y \<Longrightarrow> f y = g x) \<Longrightarrow> map f ys = map g xs"
  by (induction rule: list_all2_induct) auto

lemma list_all2_right: "list_all2 R xs ys \<Longrightarrow> y \<in> set ys \<Longrightarrow> \<exists>x\<in>set xs. R x y"
  by (induction rule: list_all2_induct) auto

lemma list_all2_left: "list_all2 R xs ys \<Longrightarrow> x \<in> set xs \<Longrightarrow> \<exists>y\<in>set ys. R x y"
  by (induction rule: list_all2_induct) auto

lemma concat_bound: "(\<And>c. c \<in> set cs \<Longrightarrow> length (f c) \<le> 2) \<Longrightarrow> length (concat (map f cs)) \<le> 2 * length cs"
proof (induction cs)
  case (Cons c cs)
  have "length (concat (map f cs)) \<le> 2 * length cs" by (rule Cons.IH) (simp add: Cons.prems)
  moreover have "length (f c) \<le> 2" by (rule Cons.prems) simp
  ultimately show ?case by simp
qed simp

lemma capture_good:
  assumes base: "capture_base att" and service: "sources_reachable env"
    and capture: "captureAttentionSources env att chars = Inr sources"
  shows "good_sources att sources"
proof -
  obtain cs where cs: "capture_targets env att chars 50 (am_targets (an_statement att)) = Inr cs"
    and src: "ss_captured sources = map tc_captured cs" "ss_received sources = map tc_received cs"
      "ss_gaps sources = concat (map tc_gaps cs)"
    using capture by (auto simp: captureAttentionSources_def Let_def split: sum.splits)
  note all = captures_each [OF cs]
  have reach: "service_reachable (av_coordination env) (av_service env i)" for i using service by (simp add: sources_reachable_def)
  note facts = captured_target_facts [OF base reach]
  have ids: "map (\<lambda>c. ap_sessionId (tc_captured c)) cs = target_ids att" "map (\<lambda>c. ap_sessionId (tc_received c)) cs = target_ids att"
    unfolding target_ids_def by (rule list_all2_map [OF all]; use facts(1,2) in blast)+
  have grown: "below (cv_captured (an_coverage att)) (map tc_captured cs)"
    unfolding below_def
  proof
    fix p assume p: "p \<in> set (cv_captured (an_coverage att))"
    then have "ap_sessionId p \<in> set (target_ids att)" using base by (auto simp: capture_base_def)
    then obtain t where t: "t \<in> set (am_targets (an_statement att))" "at_sessionId t = ap_sessionId p"
      by (auto simp: target_ids_def)
    obtain c b where c: "c \<in> set cs" "capture_target env att chars b t = Inr c" using list_all2_left [OF all t(1)] by blast
    have "point_of (cv_captured (an_coverage att)) (at_sessionId t) = Some p"
      using find_by_session [OF _ p] base t(2) by (simp add: capture_base_def)
    from facts(3) [OF c(2) this] facts(1) [OF c(2)] t(2) c(1)
    show "\<exists>h\<in>set (map tc_captured cs). ap_sessionId h = ap_sessionId p
        \<and> ap_eventOrdinal p \<le> ap_eventOrdinal h \<and> ap_completionTurn p \<le> ap_completionTurn h" by auto
  qed
  have received: "below (map tc_received cs) (map tc_captured cs)"
    unfolding below_def
  proof
    fix p assume "p \<in> set (map tc_received cs)"
    then obtain c where c: "c \<in> set cs" "p = tc_received c" by auto
    obtain t b where "capture_target env att chars b t = Inr c" using list_all2_right [OF all c(1)] by blast
    from facts(1,2,4,5) [OF this] c
    show "\<exists>h\<in>set (map tc_captured cs). ap_sessionId h = ap_sessionId p
        \<and> ap_eventOrdinal p \<le> ap_eventOrdinal h \<and> ap_completionTurn p \<le> ap_completionTurn h" by auto
  qed
  have gap: "length (tc_gaps c) \<le> 2 \<and> (\<forall>g\<in>set (tc_gaps c). ag_sessionId g \<in> set (target_ids att))" if c: "c \<in> set cs" for c
  proof -
    obtain t b where t: "t \<in> set (am_targets (an_statement att))" "capture_target env att chars b t = Inr c"
      using list_all2_right [OF all c] by blast
    from facts(6,7) [OF t(2)] t(1) show ?thesis by (auto simp: target_ids_def)
  qed
  have "length cs \<le> 32" using base arg_cong [OF ids(1), of length] by (simp add: capture_base_def)
  moreover have "length (ss_gaps sources) \<le> 2 * length cs" unfolding src(3) by (rule concat_bound) (use gap in blast)
  ultimately have "length (ss_gaps sources) \<le> 64" by linarith
  moreover have "\<forall>g\<in>set (ss_gaps sources). ag_sessionId g \<in> set (target_ids att)" using gap by (auto simp: src(3))
  ultimately show ?thesis using ids grown received by (simp add: good_sources_def src o_def)
qed

subsection \<open>How a record may change\<close>

text \<open>
  One update keeps the wait it finds: its identity, what it waits for, what was captured and what was
  consumed. A cancelled wait does not change at all.
\<close>

definition wait_next :: "ident set \<Rightarrow> attention \<Rightarrow> attention \<Rightarrow> bool" where
  "wait_next fresh att att' =
     (wait_inv att' \<and> an_controllerId att' = an_controllerId att \<and> an_epoch att' = an_epoch att
      \<and> an_statement att' = an_statement att \<and> an_authorities att' = an_authorities att
      \<and> below (cv_captured (an_coverage att)) (cv_captured (an_coverage att'))
      \<and> below (cv_consumed (an_coverage att)) (cv_consumed (an_coverage att'))
      \<and> an_readSequence att \<le> an_readSequence att'
      \<and> ax_id ` set (an_receipts att') \<subseteq> ax_id ` set (an_receipts att) \<union> fresh
      \<and> (\<not> an_armed att \<longrightarrow> att' = att))"

lemma wait_next_refl: "wait_inv att \<Longrightarrow> wait_next N att att"
  by (simp add: wait_next_def)

lemma wait_next_trans: "wait_next N a b \<Longrightarrow> wait_next N b c \<Longrightarrow> wait_next N a c"
  unfolding wait_next_def by (elim conjE, intro conjI) (simp_all, (blast intro: below_trans)+)

lemma wait_next_mono: "wait_next N a b \<Longrightarrow> N \<subseteq> N' \<Longrightarrow> wait_next N' a b"
  unfolding wait_next_def by blast

definition good_coverages :: "coverage \<Rightarrow> attention \<Rightarrow> bool" where
  "good_coverages upper att = (\<forall>cov\<in>set (all_coverages att). distinct (sessions cov) \<and> below cov upper)"

lemma coverage_elems:
  "set (all_coverages att) = {cv_captured (an_coverage att), cv_evaluated (an_coverage att), cv_noticed (an_coverage att),
      cv_submitted (an_coverage att), cv_consumed (an_coverage att)}
    \<union> set_option (cv_scheduled (an_coverage att)) \<union> set_option (cv_rendered (an_coverage att))
    \<union> set_option (cv_initiated (an_coverage att)) \<union> ax_coverage ` set (an_receipts att)
    \<union> bd_coverage ` set_option (an_decision att) \<union> wi_coverage ` set_option (an_pendingIntent att)
    \<union> cn_coverage ` set_option (an_consumption att)"
  by (auto simp: all_coverages_def Let_def split: option.splits)

lemma good_raise: "good_coverages upper att \<Longrightarrow> below upper upper' \<Longrightarrow> good_coverages upper' att"
  unfolding good_coverages_def by (blast intro: below_trans)

lemma inv_good: "wait_inv att \<Longrightarrow> good_coverages (cv_captured (an_coverage att)) att"
  by (simp add: wait_inv_def good_coverages_def)

lemma good_subset: "good_coverages upper att \<Longrightarrow> set (all_coverages att') \<subseteq> set (all_coverages att) \<Longrightarrow> good_coverages upper att'"
  unfolding good_coverages_def by blast

lemma good_insert:
  "good_coverages upper att \<Longrightarrow> set (all_coverages att') \<subseteq> insert cov (set (all_coverages att))
    \<Longrightarrow> distinct (sessions cov) \<Longrightarrow> below cov upper \<Longrightarrow> good_coverages upper att'"
  unfolding good_coverages_def by blast

text \<open>A change that keeps what identifies a wait and what it captured.\<close>

lemma wait_nextI:
  assumes inv: "wait_inv att" and armed: "an_armed att"
    and same: "an_controllerId att' = an_controllerId att" "an_epoch att' = an_epoch att" "an_statement att' = an_statement att"
      "an_authorities att' = an_authorities att" "cv_captured (an_coverage att') = cv_captured (an_coverage att)"
      "an_gaps att' = an_gaps att"
    and good: "good_coverages (cv_captured (an_coverage att)) att'" and receipts: "receipts_valid att'"
    and others: "\<forall>c. an_consumption att' = Some c \<longrightarrow> 0 < cn_sequence c"
      "\<forall>i. an_pendingIntent att' = Some i \<longrightarrow> wi_epoch i = an_epoch att' \<and> an_armed att'"
      "an_armed att' \<or> an_cancelledAt att' \<noteq> None \<and> an_cancelReason att' \<noteq> None"
    and consumed: "below (cv_consumed (an_coverage att)) (cv_consumed (an_coverage att'))"
    and reads: "an_readSequence att \<le> an_readSequence att'"
    and ids: "ax_id ` set (an_receipts att') \<subseteq> ax_id ` set (an_receipts att) \<union> N"
  shows "wait_next N att att'"
proof -
  have "target_ids att' = target_ids att" by (simp add: target_ids_def same)
  then show ?thesis using assms by (simp add: wait_next_def wait_inv_def good_coverages_def)
qed

lemma inv_parts:
  assumes "wait_inv att"
  shows "receipts_valid att" "\<forall>c. an_consumption att = Some c \<longrightarrow> 0 < cn_sequence c"
    "\<forall>i. an_pendingIntent att = Some i \<longrightarrow> wi_epoch i = an_epoch att \<and> an_armed att"
    "good_coverages (cv_captured (an_coverage att)) att"
  using assms by (simp_all add: wait_inv_def good_coverages_def)

lemma receipts_cong:
  "an_receipts att' = an_receipts att \<Longrightarrow> an_epoch att' = an_epoch att \<Longrightarrow> an_readSequence att' = an_readSequence att
    \<Longrightarrow> receipts_valid att \<Longrightarrow> receipts_valid att'"
  by (simp add: receipts_valid_def)

lemma cancelled_next:
  assumes "wait_inv att" "an_armed att"
  shows "wait_next N att (cancelled_record cancelledAt updatedAt reason att)"
  by (rule wait_nextI [OF assms])
    (auto simp: cancelled_record_def held_for_def coverage_elems
      intro: receipts_cong [OF _ _ _ inv_parts(1) [OF assms(1)]] good_subset [OF inv_parts(4) [OF assms(1)]]
      simp: inv_parts(2) [OF assms(1), rule_format])

lemma held_next:
  assumes "wait_inv att" "an_armed att"
  shows "wait_next N att (held_for reason (att\<lparr>an_updatedAt := now\<rparr>))" "wait_next N att (held_for reason att)"
  by (rule wait_nextI [OF assms], auto simp: held_for_def coverage_elems assms
      intro: receipts_cong [OF _ _ _ inv_parts(1) [OF assms(1)]] good_subset [OF inv_parts(4) [OF assms(1)]]
      simp: inv_parts(2,3) [OF assms(1), rule_format])+

lemma sources_next:
  assumes inv: "wait_inv att" and armed: "an_armed att" and good: "good_sources att sources"
  shows "wait_next N att ((with_sources att sources)\<lparr>an_recovery := recovery, an_updatedAt := now\<rparr>)" (is "wait_next N _ ?new")
    and "wait_next N att (with_sources att sources)"
proof -
  let ?upper = "ss_captured sources"
  have grown: "below (cv_captured (an_coverage att)) ?upper" and upper: "sessions ?upper = target_ids att"
    using good by (simp_all add: good_sources_def)
  have ids: "distinct (target_ids att)" using inv by (simp add: wait_inv_def statement_valid_def target_ids_def)
  have old: "good_coverages ?upper att" by (rule good_raise [OF inv_parts(4) [OF inv] grown])
  have covs: "good_coverages ?upper att'" if "set (all_coverages att') \<subseteq> insert ?upper (set (all_coverages att))" for att'
    by (rule good_insert [OF old that]) (simp_all add: upper ids)
  have step: "wait_next N att att'"
    if "att' = (with_sources att sources)\<lparr>an_recovery := r, an_updatedAt := u\<rparr>" for att' r u
  proof -
    have fields: "target_ids att' = target_ids att" "an_statement att' = an_statement att" "an_authorities att' = an_authorities att"
      "cv_captured (an_coverage att') = ?upper" "an_gaps att' = ss_gaps sources" "an_receipts att' = an_receipts att"
      "an_epoch att' = an_epoch att" "an_readSequence att' = an_readSequence att" "an_consumption att' = an_consumption att"
      "an_pendingIntent att' = an_pendingIntent att" "an_armed att'" "cv_consumed (an_coverage att') = cv_consumed (an_coverage att)"
      "an_controllerId att' = an_controllerId att"
      by (simp_all add: that with_sources_def target_ids_def armed)
    have "good_coverages ?upper att'" by (rule covs) (auto simp: coverage_elems that with_sources_def)
    moreover have "receipts_valid att'" using inv_parts(1) [OF inv] by (rule receipts_cong [rotated 3]) (simp_all add: fields)
    ultimately show ?thesis
      using inv good ids grown upper unfolding wait_next_def wait_inv_def good_coverages_def good_sources_def fields
      by (simp add: armed fields(11))
  qed
  show "wait_next N att ?new" by (rule step) simp
  show "wait_next N att (with_sources att sources)" by (rule step [of _ "an_updatedAt att" "an_recovery att"]) (simp add: with_sources_def)
qed

lemma slice_receipts:
  assumes "length xs \<le> 8"
  shows "length (js_slice_last 8 (xs @ [x])) \<le> 8" "set (js_slice_last 8 (xs @ [x])) \<subseteq> insert x (set xs)"
    "distinct (map g (xs @ [x])) \<Longrightarrow> distinct (map g (js_slice_last 8 (xs @ [x])))"
proof -
  show "length (js_slice_last 8 (xs @ [x])) \<le> 8" using assms by (simp add: js_slice_last_def)
  have "set (js_slice_last 8 (xs @ [x])) \<subseteq> set (xs @ [x])" unfolding js_slice_last_def by (rule set_drop_subset)
  then show "set (js_slice_last 8 (xs @ [x])) \<subseteq> insert x (set xs)" by simp
  show "distinct (map g (js_slice_last 8 (xs @ [x])))" if "distinct (map g (xs @ [x]))"
    unfolding js_slice_last_def drop_map [symmetric] by (rule distinct_drop [OF that])
qed

lemma receipt_next:
  assumes inv: "wait_inv att" and armed: "an_armed att"
    and r: "ax_epoch r = an_epoch att" "ax_sequence r = an_readSequence att + 1" "length (ax_notificationIds r) \<le> 50"
      "ax_id r \<notin> set (map ax_id (an_receipts att))" "ax_id r \<in> N" "distinct (sessions (ax_coverage r))"
      "below (ax_coverage r) (cv_captured (an_coverage att))"
  shows "wait_next N att (with_read_receipt att r now)"
proof (rule wait_nextI [OF inv armed])
  note rs = inv_parts(1) [OF inv, unfolded receipts_valid_def]
  have eight: "length (an_receipts att) \<le> 8" using rs by blast
  note slice = slice_receipts(1,2) [OF eight, of r] slice_receipts(3) [OF eight, of ax_id r]
  show "ax_id ` set (an_receipts (with_read_receipt att r now)) \<subseteq> ax_id ` set (an_receipts att) \<union> N"
    using image_mono [OF slice(2), of ax_id] r(5) by (auto simp: with_read_receipt_def)
  show "good_coverages (cv_captured (an_coverage att)) (with_read_receipt att r now)"
    using slice(2) by (intro good_insert [OF inv_parts(4) [OF inv] _ r(6,7)]) (auto simp: coverage_elems with_read_receipt_def)
  have each: "ax_epoch e = an_epoch att \<and> ax_sequence e \<le> Suc (an_readSequence att) \<and> 0 < ax_sequence e
      \<and> length (ax_notificationIds e) \<le> 50" if "e \<in> set (js_slice_last 8 (an_receipts att @ [r]))" for e
    using slice(2) that rs r(1-3) by (cases "e = r") (auto simp: list_all_iff le_SucI)
  have "distinct (map ax_id (an_receipts att @ [r]))" using rs r(4) by simp
  then show "receipts_valid (with_read_receipt att r now)"
    using slice(1,3) each by (simp add: receipts_valid_def with_read_receipt_def list_all_iff)
qed (use inv_parts(2,3) [OF inv] armed in \<open>auto simp: with_read_receipt_def\<close>)

text \<open>What the scheduler does to a record.\<close>

lemma good_member: "good_coverages upper att \<Longrightarrow> cov \<in> set (all_coverages att) \<Longrightarrow> distinct (sessions cov) \<and> below cov upper"
  by (simp add: good_coverages_def)

lemma captured_good: "wait_inv att \<Longrightarrow> distinct (sessions (cv_captured (an_coverage att)))"
  by (simp add: wait_inv_def)

lemma banked_next:
  assumes inv: "wait_inv att" and armed: "an_armed att"
  shows "wait_next N att (banked env inputId answer now att)"
proof (rule wait_nextI [OF inv armed])
  show "good_coverages (cv_captured (an_coverage att)) (banked env inputId answer now att)"
    by (rule good_insert [OF inv_parts(4) [OF inv] _ captured_good [OF inv] below_refl])
      (auto simp: coverage_elems banked_def Let_def)
  show "receipts_valid (banked env inputId answer now att)"
    using inv_parts(1) [OF inv] by (rule receipts_cong [rotated 3]) (simp_all add: banked_def Let_def)
qed (use inv_parts(2,3) [OF inv] armed in \<open>auto simp: banked_def Let_def\<close>)

lemma clear_next:
  assumes inv: "wait_inv att" and armed: "an_armed att"
  shows "wait_next N att (att\<lparr>an_pendingIntent := None, an_updatedAt := now, an_reviewNotifiedAt := x, an_lastWake := y\<rparr>)"
proof (rule wait_nextI [OF inv armed])
  show "good_coverages (cv_captured (an_coverage att))
      (att\<lparr>an_pendingIntent := None, an_updatedAt := now, an_reviewNotifiedAt := x, an_lastWake := y\<rparr>)"
    by (rule good_subset [OF inv_parts(4) [OF inv]]) (auto simp: coverage_elems)
  show "receipts_valid (att\<lparr>an_pendingIntent := None, an_updatedAt := now, an_reviewNotifiedAt := x, an_lastWake := y\<rparr>)"
    using inv_parts(1) [OF inv] by (rule receipts_cong [rotated 3]) simp_all
qed (use inv_parts(2) [OF inv] armed in auto)

text \<open>Marking a coverage that the record already has as scheduled, rendered, submitted or initiated.\<close>

lemma marked_next:
  assumes inv: "wait_inv att" and armed: "an_armed att" and i: "an_pendingIntent att = Some i"
    and cov: "cv_captured cov = cv_captured (an_coverage att)" "cv_consumed cov = cv_consumed (an_coverage att)"
      "{cv_evaluated cov, cv_noticed cov, cv_submitted cov} \<union> set_option (cv_scheduled cov) \<union> set_option (cv_rendered cov)
        \<union> set_option (cv_initiated cov) \<subseteq> insert (wi_coverage i) (set (all_coverages att))"
  shows "wait_next N att (att\<lparr>an_lastWake := l, an_pendingIntent := Some (i\<lparr>wi_instructionId := x\<rparr>), an_coverage := cov\<rparr>)" (is "wait_next N att ?new")
proof (rule wait_nextI [OF inv armed])
  define A where "A = set (all_coverages att)"
  have parts: "{cv_captured (an_coverage att), cv_consumed (an_coverage att), wi_coverage i} \<union> ax_coverage ` set (an_receipts att)
      \<union> bd_coverage ` set_option (an_decision att) \<union> cn_coverage ` set_option (an_consumption att) \<subseteq> A"
    unfolding A_def coverage_elems by (auto simp: i)
  then have "insert (wi_coverage i) A = A" by (simp add: insert_absorb)
  then have "set (all_coverages ?new) \<subseteq> A"
    unfolding coverage_elems [of ?new] using parts cov(3) [folded A_def] by (simp add: cov(1,2))
  then have "set (all_coverages ?new) \<subseteq> set (all_coverages att)" by (simp only: A_def)
  then show "good_coverages (cv_captured (an_coverage att)) ?new" by (rule good_subset [OF inv_parts(4) [OF inv]])
  show "receipts_valid ?new" using inv_parts(1) [OF inv] by (rule receipts_cong [rotated 3]) simp_all
  show "\<forall>j. an_pendingIntent ?new = Some j \<longrightarrow> wi_epoch j = an_epoch ?new \<and> an_armed ?new"
    using inv_parts(3) [OF inv] i by auto
qed (use inv_parts(2) [OF inv] armed cov in auto)

lemma last_wake_next:
  assumes inv: "wait_inv att" and armed: "an_armed att"
  shows "wait_next N att (att\<lparr>an_lastWake := l\<rparr>)"
proof (rule wait_nextI [OF inv armed])
  show "good_coverages (cv_captured (an_coverage att)) (att\<lparr>an_lastWake := l\<rparr>)"
    by (rule good_subset [OF inv_parts(4) [OF inv]]) (auto simp: coverage_elems)
  show "receipts_valid (att\<lparr>an_lastWake := l\<rparr>)" using inv_parts(1) [OF inv] by (rule receipts_cong [rotated 3]) simp_all
qed (use inv_parts(2,3) [OF inv] armed in auto)

text \<open>Consuming what a receipt covers.\<close>

definition merged_point :: "bool \<Rightarrow> source_point \<Rightarrow> source_point option \<Rightarrow> source_point" where
  "merged_point newer p previous =
     p\<lparr>ap_eventOrdinal := max (ordinal_of previous) (ap_eventOrdinal p),
       ap_completionTurn := max (turn_of previous) (ap_completionTurn p),
       ap_truthKey := (case previous of None \<Rightarrow> ap_truthKey p | Some q \<Rightarrow> if newer then ap_truthKey p else ap_truthKey q)\<rparr>"

lemma below_unique:
  assumes "distinct (sessions upper)" "below cov upper" "below cov' upper" "p \<in> set cov" "q \<in> set cov'" "ap_sessionId p = ap_sessionId q"
  shows "\<exists>h\<in>set upper. ap_sessionId h = ap_sessionId p \<and> ap_eventOrdinal p \<le> ap_eventOrdinal h \<and> ap_completionTurn p \<le> ap_completionTurn h
    \<and> ap_eventOrdinal q \<le> ap_eventOrdinal h \<and> ap_completionTurn q \<le> ap_completionTurn h"
proof -
  obtain h where h: "h \<in> set upper" "ap_sessionId h = ap_sessionId p" "ap_eventOrdinal p \<le> ap_eventOrdinal h" "ap_completionTurn p \<le> ap_completionTurn h"
    using assms(2,4) unfolding below_def by blast
  obtain k where k: "k \<in> set upper" "ap_sessionId k = ap_sessionId p" "ap_eventOrdinal q \<le> ap_eventOrdinal k" "ap_completionTurn q \<le> ap_completionTurn k"
    using assms(3,5,6) unfolding below_def by metis
  have "k = h" using find_by_session [OF assms(1) h(1)] find_by_session [OF assms(1) k(1)] h(2) k(2) by simp
  with h k show ?thesis by blast
qed

lemma js_set_values:
  assumes "keyed ap_sessionId m" "ap_sessionId q = k"
  shows "v \<in> set (js_values (js_set k q m)) \<longleftrightarrow> v = q \<or> v \<in> set (js_values m) \<and> ap_sessionId v \<noteq> k"
  unfolding keyed_value [OF keyed_set [OF assms]] keyed_value [OF assms(1)] using assms(2) by (auto simp: update_conv')

lemma merge_one:
  assumes m: "keyed ap_sessionId m" "below (js_values m) upper" and p: "below received upper" "p \<in> set received"
    and upper: "distinct (sessions upper)" and m': "m' = js_set (ap_sessionId p) (merged_point newer p (js_get m (ap_sessionId p))) m"
  shows "keyed ap_sessionId m'" "below (js_values m') upper" "below (js_values m) (js_values m')"
proof -
  let ?q = "merged_point newer p (js_get m (ap_sessionId p))"
  have q: "ap_sessionId ?q = ap_sessionId p" by (simp add: merged_point_def)
  note vals = js_set_values [OF m(1) q, folded m']
  show "keyed ap_sessionId m'" using m(1) q by (simp add: m')
  have old: "v \<in> set (js_values m)" "ap_sessionId v = ap_sessionId p" if "js_get m (ap_sessionId p) = Some v" for v
    using that keyed_get [OF m(1) that] keyed_value [OF m(1), of v] by simp_all
  have top_q: "\<exists>h\<in>set upper. ap_sessionId h = ap_sessionId ?q \<and> ap_eventOrdinal ?q \<le> ap_eventOrdinal h \<and> ap_completionTurn ?q \<le> ap_completionTurn h"
  proof (cases "js_get m (ap_sessionId p)")
    case None
    then show ?thesis using p unfolding below_def by (fastforce simp: merged_point_def ordinal_of_def turn_of_def)
  next
    case (Some v)
    from below_unique [OF upper p(1) m(2) p(2) old(1) [OF Some]] old(2) [OF Some] Some
    show ?thesis by (auto simp: merged_point_def ordinal_of_def turn_of_def)
  qed
  then show "below (js_values m') upper" using m(2) unfolding below_def Ball_def vals by auto
  show "below (js_values m) (js_values m')" unfolding below_def
  proof
    fix v assume v: "v \<in> set (js_values m)"
    show "\<exists>h\<in>set (js_values m'). ap_sessionId h = ap_sessionId v \<and> ap_eventOrdinal v \<le> ap_eventOrdinal h \<and> ap_completionTurn v \<le> ap_completionTurn h"
    proof (cases "ap_sessionId v = ap_sessionId p")
      case True
      then have "js_get m (ap_sessionId p) = Some v" using v keyed_value [OF m(1), of v] by simp
      then show ?thesis using True q by (intro bexI [of _ ?q]) (simp_all only: vals, auto simp: merged_point_def ordinal_of_def turn_of_def)
    next
      case False
      then show ?thesis using v by (intro bexI [of _ v]) (simp_all only: vals, auto)
    qed
  qed
qed

lemma merge_all:
  assumes "keyed ap_sessionId m" "below (js_values m) upper" "below received upper" "distinct (sessions upper)"
    and "m' = fold (\<lambda>p m. js_set (ap_sessionId p) (merged_point newer p (js_get m (ap_sessionId p))) m) received m"
  shows "keyed ap_sessionId m' \<and> below (js_values m') upper \<and> below (js_values m) (js_values m')"
  using assms
proof (induction received arbitrary: m)
  case (Cons p received)
  let ?m = "js_set (ap_sessionId p) (merged_point newer p (js_get m (ap_sessionId p))) m"
  note one = merge_one [OF Cons.prems(1-3) _ Cons.prems(4) refl, of p newer]
  have "below received upper" using Cons.prems(3) by (simp add: below_def)
  with Cons.IH [of ?m] one Cons.prems(4,5) show ?case by (auto intro: below_trans)
qed simp

lemma prior_map:
  assumes "distinct (sessions prior)"
  shows "js_values (fold (\<lambda>p m. js_set (ap_sessionId p) p m) prior []) = prior
    \<and> keyed ap_sessionId (fold (\<lambda>p m. js_set (ap_sessionId p) p m) prior [])"
  using assms
proof (induction prior rule: rev_induct)
  case (snoc p prior)
  let ?m = "fold (\<lambda>p m. js_set (ap_sessionId p) p m) prior []"
  have m: "js_values ?m = prior" "keyed ap_sessionId ?m" using snoc by auto
  have "ap_sessionId p \<notin> set (js_keys ?m)" using keyed_values [OF m(2)] m(1) snoc.prems by auto
  then have "js_set (ap_sessionId p) p ?m = ?m @ [(ap_sessionId p, p)]" by (rule js_set_fresh)
  moreover have "keyed ap_sessionId (js_set (ap_sessionId p) p ?m)" using m(2) by (rule keyed_set) simp
  ultimately show ?case using m(1) by simp
qed (simp add: keyed_def js_wf_def)

lemma mergeConsumed_good:
  assumes "distinct (sessions prior)" "below prior upper" "below received upper" "distinct (sessions upper)"
  shows "distinct (sessions (mergeConsumed prior received newer))" "below (mergeConsumed prior received newer) upper"
    "below prior (mergeConsumed prior received newer)"
proof -
  let ?m = "fold (\<lambda>p m. js_set (ap_sessionId p) p m) prior []"
  define m' where "m' = fold (\<lambda>p m. js_set (ap_sessionId p) (merged_point newer p (js_get m (ap_sessionId p))) m) received ?m"
  have merged: "mergeConsumed prior received newer = js_values m'"
    by (simp add: mergeConsumed_def m'_def merged_point_def Let_def)
  note prior = prior_map [OF assms(1)]
  have all: "keyed ap_sessionId m' \<and> below (js_values m') upper \<and> below (js_values ?m) (js_values m')"
    by (rule merge_all [OF _ _ assms(3,4) m'_def]) (use prior assms(2) in simp_all)
  then show "below (mergeConsumed prior received newer) upper" "below prior (mergeConsumed prior received newer)"
    using prior merged by simp_all
  show "distinct (sessions (mergeConsumed prior received newer))"
    using conjunct1 [OF all] unfolding merged by (simp only: keyed_values) (metis keyed_wf js_wf_def)
qed

lemma acknowledged_next:
  assumes inv: "wait_inv att" and armed: "an_armed att" and r: "r \<in> set (an_receipts att)"
  shows "wait_next N att (acknowledged_read att r now)" (is "wait_next N att ?new")
proof (rule wait_nextI [OF inv armed])
  define newer where "newer = ((case an_consumption att of None \<Rightarrow> 0 | Some c \<Rightarrow> cn_sequence c) < ax_sequence r)"
  note good = inv_parts(4) [OF inv]
  have r_cov: "ax_coverage r \<in> set (all_coverages att)" using r by (simp add: coverage_elems)
  have c_cov: "cv_consumed (an_coverage att) \<in> set (all_coverages att)" by (simp add: coverage_elems)
  let ?merged = "mergeConsumed (cv_consumed (an_coverage att)) (ax_coverage r) newer"
  have merge: "distinct (sessions ?merged)" "below ?merged (cv_captured (an_coverage att))" "below (cv_consumed (an_coverage att)) ?merged"
    by (rule mergeConsumed_good [where upper = "cv_captured (an_coverage att)"];
        use good_member [OF good r_cov] good_member [OF good c_cov] captured_good [OF inv] in blast)+
  have new: "?new = att\<lparr>an_updatedAt := now, an_coverage := (an_coverage att)\<lparr>cv_consumed := ?merged\<rparr>,
      an_receipts := map (\<lambda>e. if ax_id e = ax_id r then e\<lparr>ax_acknowledgedAt := Some now\<rparr> else e) (an_receipts att),
      an_consumption := (if newer then Some \<lparr>cn_receiptId = ax_id r, cn_sequence = ax_sequence r, cn_coverage = ax_coverage r, cn_at = now\<rparr>
        else an_consumption att)\<rparr>" by (simp add: acknowledged_read_def newer_def Let_def)
  have ids: "map ax_id (an_receipts ?new) = map ax_id (an_receipts att)" by (simp add: new)
  show "good_coverages (cv_captured (an_coverage att)) ?new"
    using r_cov by (intro good_insert [OF good _ merge(1,2)]) (auto simp: coverage_elems new split: if_splits)
  show "ax_id ` set (an_receipts ?new) \<subseteq> ax_id ` set (an_receipts att) \<union> N"
    using arg_cong [OF ids, of set] unfolding set_map by simp
  have "distinct (map ax_id (an_receipts ?new))" unfolding ids using inv_parts(1) [OF inv] by (simp add: receipts_valid_def)
  moreover have "length (an_receipts ?new) = length (an_receipts att)" by (simp add: new)
  moreover have "list_all (\<lambda>e. ax_epoch e = an_epoch ?new \<and> ax_sequence e \<le> an_readSequence ?new \<and> 0 < ax_sequence e
      \<and> length (ax_notificationIds e) \<le> 50) (an_receipts ?new)"
    using inv_parts(1) [OF inv] by (auto simp: new receipts_valid_def list_all_iff)
  ultimately show "receipts_valid ?new" using inv_parts(1) [OF inv] unfolding receipts_valid_def by (simp only:)
  show "\<forall>c. an_consumption ?new = Some c \<longrightarrow> 0 < cn_sequence c"
    using inv_parts(2) [OF inv] inv_parts(1) [OF inv] r by (auto simp: new receipts_valid_def list_all_iff)
  show "below (cv_consumed (an_coverage att)) (cv_consumed (an_coverage ?new))" using merge(3) by (simp add: new)
qed (use inv_parts(3) [OF inv] armed in \<open>auto simp: acknowledged_read_def Let_def\<close>)

end
