(* ===== verification/Attention_Guarantees.thy ===== *)
theory Attention_Guarantees
  imports Attention_Invariants
begin

text \<open>
  What the waits of orchestrators guarantee: the updates of the plane and of the scheduler, one after the
  other in any order, and that over every run a wait is never refused by its own schema and is kept until
  it is replaced by name.
\<close>

subsection \<open>Rules for the operations\<close>

text \<open>
  An operation that starts with the stored records \<open>M\<close> at a tick from \<open>T\<close> on leaves the records, and
  answers something of which \<open>Q\<close> holds or throws one of the errors \<open>E\<close>.
\<close>

definition wait_ok ::
  "(attention_error \<Rightarrow> bool) \<Rightarrow> nat \<Rightarrow> (ident, attention) js_map \<Rightarrow> 'a wait_op \<Rightarrow> ('a \<Rightarrow> bool) \<Rightarrow> bool" where
  "wait_ok E T M m Q = (\<forall>s. pl_stored s = M \<longrightarrow> T \<le> pl_tick s \<longrightarrow>
     pl_stored (snd (m s)) = M \<and> T \<le> pl_tick (snd (m s)) \<and> (case fst (m s) of Inr x \<Rightarrow> Q x | Inl e \<Rightarrow> E e))"

definition proper :: "attention_error \<Rightarrow> bool" where
  "proper e = (e \<noteq> RecordInvalid \<and> e \<noteq> RecordCorrupt)"

definition lenient :: "(attention_error \<Rightarrow> bool) \<Rightarrow> bool" where
  "lenient E = (\<forall>e. proper e \<longrightarrow> E e)"

lemma lenient_simps [simp]: "lenient proper" "lenient (\<lambda>_. True)"
  by (simp_all add: lenient_def)

lemma wait_return: "Q x \<Longrightarrow> wait_ok E T M (op_return x) Q"
  by (simp add: wait_ok_def op_defs)

lemma wait_throw: "E e \<Longrightarrow> wait_ok E T M (op_throw e) Q"
  by (simp add: wait_ok_def op_defs)

lemma wait_proper: "lenient E \<Longrightarrow> proper e \<Longrightarrow> wait_ok E T M (op_throw e) Q"
  by (simp add: wait_throw lenient_def)

lemma wait_okD:
  assumes "wait_ok E T M m Q" "pl_stored s = M" "T \<le> pl_tick s"
  shows "pl_stored (snd (m s)) = M" "T \<le> pl_tick (snd (m s))" "fst (m s) = Inr x \<Longrightarrow> Q x" "fst (m s) = Inl e \<Longrightarrow> E e"
  using assms unfolding wait_ok_def by (simp_all split: sum.splits)

lemma wait_bind:
  assumes m: "wait_ok E T M m P" and k: "\<And>x. P x \<Longrightarrow> wait_ok E T M (k x) Q"
  shows "wait_ok E T M (op_bind m k) Q"
  unfolding wait_ok_def
proof (intro allI impI)
  fix s :: attention_plane assume s: "pl_stored s = M" "T \<le> pl_tick s"
  note first = wait_okD [OF m s]
  show "pl_stored (snd (op_bind m k s)) = M \<and> T \<le> pl_tick (snd (op_bind m k s))
      \<and> (case fst (op_bind m k s) of Inr x \<Rightarrow> Q x | Inl e \<Rightarrow> E e)"
  proof (cases "fst (m s)")
    case (Inl e)
    then show ?thesis using first by (cases "m s") (simp add: op_bind_def)
  next
    case (Inr x)
    have bind: "op_bind m k s = k x (snd (m s))" using Inr by (cases "m s") (simp add: op_bind_def)
    note second = wait_okD [OF k [OF first(3) [OF Inr]] first(1,2)]
    show ?thesis unfolding bind using second by (simp split: sum.split)
  qed
qed

lemma wait_then: "wait_ok E T M m P \<Longrightarrow> (\<And>x. P x \<Longrightarrow> wait_ok E T M k Q) \<Longrightarrow> wait_ok E T M (op_then m k) Q"
  unfolding op_then_def by (rule wait_bind)

lemma wait_asked: "(\<And>k. T \<le> k \<Longrightarrow> wait_ok E T M (g (f (ae_world env k))) Q) \<Longrightarrow> wait_ok E T M (op_bind (wait_ask env f) g) Q"
  unfolding wait_ok_def op_bind_def wait_ask_def by simp

lemma wait_if: "(b \<Longrightarrow> wait_ok E T M m Q) \<Longrightarrow> (\<not> b \<Longrightarrow> wait_ok E T M k Q) \<Longrightarrow> wait_ok E T M (if b then m else k) Q"
  by simp

lemma wait_weaken: "wait_ok E T M m P \<Longrightarrow> (\<And>x. P x \<Longrightarrow> Q x) \<Longrightarrow> wait_ok E T M m Q"
  unfolding wait_ok_def by (simp split: sum.splits)

lemma remember_ok: "wait_ok E T M (remember att) (\<lambda>_. True)"
  by (simp add: wait_ok_def remember_def op_defs)

lemma requireBinding_ok: "lenient E \<Longrightarrow> wait_ok E T M (requireBinding env actor cap) (\<lambda>_. True)"
  unfolding requireBinding_def by (rule wait_asked) (auto intro: wait_return wait_proper simp: proper_def split: option.split)

lemma revalidate_ok: "lenient E \<Longrightarrow> wait_ok E T M (revalidate env b cap) (\<lambda>_. True)"
  unfolding revalidate_def
  by (rule wait_bind [OF requireBinding_ok]) (auto intro: wait_return wait_proper simp: proper_def)

lemma check_readable_proper: "check_readable w b as = Some e \<Longrightarrow> proper e"
  by (induction as) (auto simp: proper_def Let_def split: actor_reading.splits if_splits)

lemma requireReadable_ok: "lenient E \<Longrightarrow> wait_ok E T M (requireReadable env b att) (\<lambda>_. True)"
  unfolding requireReadable_def
  by (rule wait_asked) (auto intro: wait_return wait_proper dest: check_readable_proper split: option.split)

lemma hasSourceAuthority_ok: "lenient E \<Longrightarrow> wait_ok E T M (hasSourceAuthority env b att) (\<lambda>_. True)"
  unfolding hasSourceAuthority_def
  by (intro wait_if wait_return wait_asked) (auto intro: wait_return wait_proper dest: check_readable_proper split: option.split)

lemma requireEpoch_ok: "lenient E \<Longrightarrow> wait_ok E T M (requireEpoch current b epoch) (\<lambda>att. current = Some att \<and> an_epoch att = epoch)"
  unfolding requireEpoch_def by (auto intro: wait_return wait_proper simp: proper_def split: option.split)

lemma requireArmed_ok: "lenient E \<Longrightarrow> wait_ok E T M (requireArmed att) (\<lambda>_. an_armed att)"
  unfolding requireArmed_def by (auto intro: wait_return wait_proper simp: proper_def)

lemma cancel_wait_kept: "wait_ok E T M (cancel_wait env att reason) (\<lambda>att'. \<exists>c u. att' = cancelled_record c u reason att)"
  unfolding cancel_wait_def by (intro wait_asked wait_return) blast

lemma cancel_wait_ok: "wait_inv att \<Longrightarrow> an_armed att \<Longrightarrow> wait_ok E T M (cancel_wait env att reason) (wait_next N att)"
  by (rule wait_weaken [OF cancel_wait_kept]) (auto intro: cancelled_next)

text \<open>Everything the environment shows of the coordination service is a state it reached.\<close>

definition world_ok :: "'m attention_env \<Rightarrow> bool" where
  "world_ok env = (\<forall>k. sources_reachable (wd_sources (ae_world env k)))"

lemma capture_ok:
  assumes "world_ok env" "capture_base att" "lenient E"
  shows "wait_ok E T M (capture_sources env att n) (good_sources att)"
  unfolding capture_sources_def
proof (rule wait_asked)
  fix k
  have reach: "sources_reachable (wd_sources (ae_world env k))" using assms(1) by (simp add: world_ok_def)
  show "wait_ok E T M (case captureAttentionSources (wd_sources (ae_world env k)) att n of
      Inl e \<Rightarrow> op_throw (SourceFailed e) | Inr sources \<Rightarrow> op_return sources) (good_sources att)"
    using assms(3) capture_good [OF assms(2) reach]
    by (auto intro: wait_return wait_proper simp: proper_def split: sum.split)
qed

lemma actor_recovery_proper: "actor_recovery w actor = Inl e \<Longrightarrow> proper e"
  by (auto simp: actor_recovery_def proper_def split: actor_reading.splits if_splits)

lemma refresh_sources_ok:
  assumes "world_ok env" "wait_inv att" "an_armed att" "lenient E"
  shows "wait_ok E T M (refresh_sources env att b recovery) (wait_next N att)"
  unfolding refresh_sources_def
  by (rule wait_bind [OF capture_ok [OF assms(1) inv_base [OF assms(2)] assms(4)]], rule wait_asked,
      intro wait_if cancel_wait_ok assms(2,3), rule wait_bind [OF hasSourceAuthority_ok [OF assms(4)]],
      intro wait_if cancel_wait_ok assms(2,3) wait_return wait_asked wait_next_refl)
    (simp_all add: sources_next [OF assms(2,3)])

lemma refresh_ok:
  assumes "world_ok env" "wait_inv att" "an_armed att" "lenient E"
  shows "wait_ok E T M (refresh env att) (wait_next N att)"
proof -
  have "wait_ok E T M (case reading of Inl e \<Rightarrow> op_throw e
      | Inr None \<Rightarrow> cancel_wait env att ''Orchestrator stopped or cancelled''
      | Inr (Some recovery) \<Rightarrow>
          op_bind (hasSourceAuthority env b att) (\<lambda>ok.
            if \<not> ok then cancel_wait env att ''Orchestrator source authority lost''
            else op_bind (wait_ask env (\<lambda>w. av_ledger (wd_sources w) (an_actorSessionId att))) (\<lambda>ledger.
              if turn_cancelled att ledger then cancel_wait env att ''Orchestrator turn cancelled after arming''
              else refresh_sources env att b recovery))) (wait_next N att)"
    if "\<And>e. reading = Inl e \<Longrightarrow> proper e" for reading b
    using that assms(4)
    by (auto intro!: wait_proper cancel_wait_ok wait_bind [OF hasSourceAuthority_ok] wait_asked refresh_sources_ok assms split: sum.split option.split)
  then show ?thesis unfolding refresh_def
    by (intro wait_asked wait_if cancel_wait_ok assms(2,3)) (blast dest: actor_recovery_proper)
qed

subsection \<open>The changes\<close>

text \<open>What a change answers for the record it found: none for none, otherwise one the record may become.\<close>

definition keeps :: "ident set \<Rightarrow> attention option \<Rightarrow> 'x \<times> attention option \<Rightarrow> bool" where
  "keeps fresh current = (\<lambda>(x, nxt). rel_option (wait_next fresh) current nxt)"

lemma keeps_simps [simp]:
  "keeps N None (x, nxt) \<longleftrightarrow> nxt = None" "keeps N (Some att) (x, Some att') \<longleftrightarrow> wait_next N att att'"
  by (cases nxt; simp add: keeps_def)+

lemma wait_answer: "wait_ok E T M m (wait_next N att) \<Longrightarrow> wait_ok E T M (op_bind m (\<lambda>att'. op_return (x, Some att'))) (keeps N (Some att))"
  by (erule wait_bind) (simp add: wait_return)

lemma refresh_armed_ok:
  assumes "world_ok env" "lenient E" "\<And>att. current = Some att \<Longrightarrow> wait_inv att"
  shows "wait_ok E T M (refresh_armed env epoch current) (keeps N current)"
proof (cases current)
  case (Some att)
  have inv: "wait_inv att" by (rule assms(3) [OF Some])
  show ?thesis unfolding refresh_armed_def Some option.case
    by (intro wait_if wait_return wait_answer refresh_ok assms(1,2) inv) (simp_all add: wait_next_refl inv)
qed (simp add: refresh_armed_def wait_return)

lemma cancel_change_ok:
  assumes "lenient E" "\<And>att. current = Some att \<Longrightarrow> wait_inv att"
  shows "wait_ok E T M (cancel_change env b epoch reason current) (keeps N current)"
  unfolding cancel_change_def
proof (rule wait_then [OF revalidate_ok [OF assms(1)]], rule wait_bind [OF requireEpoch_ok [OF assms(1)]])
  fix att assume att: "current = Some att \<and> an_epoch att = epoch"
  then have inv: "wait_inv att" using assms(2) by blast
  show "wait_ok E T M (if \<not> an_armed att then op_return ((), Some att)
      else op_bind (cancel_wait env att reason) (\<lambda>att'. op_return ((), Some att'))) (keeps N current)"
    unfolding conjunct1 [OF att]
    by (intro wait_if wait_return wait_answer cancel_wait_ok inv) (simp_all add: wait_next_refl inv)
qed

lemma cancel_if_ok:
  assumes "\<And>att. current = Some att \<Longrightarrow> wait_inv att"
  shows "wait_ok E T M (cancel_if env doomed reason current) (keeps N current)"
proof (cases current)
  case (Some att)
  have inv: "wait_inv att" by (rule assms [OF Some])
  show ?thesis unfolding cancel_if_def Some option.case
    by (intro wait_if wait_return wait_answer cancel_wait_ok inv) (simp_all add: wait_next_refl inv)
qed (simp add: cancel_if_def wait_return)

text \<open>Reading draws the id of its receipt.\<close>

definition drawn_ids :: "'m attention_env \<Rightarrow> nat set \<Rightarrow> ident set" where
  "drawn_ids env ticks = (\<lambda>k. wd_uuid (ae_world env k)) ` ticks"

lemma read_record_next:
  assumes inv: "wait_inv att" "an_armed att" and good: "good_sources att sources"
    and new: "length ids \<le> 50" "i \<in> N" "i \<notin> ax_id ` set (an_receipts att)"
  shows "wait_next N att (with_read_receipt (with_sources att sources)
    \<lparr>ax_id = i, ax_epoch = an_epoch att, ax_sequence = an_readSequence att + 1, ax_coverage = ss_received sources,
     ax_notificationIds = ids, ax_createdAt = created, ax_acknowledgedAt = None\<rparr> updated)" (is "wait_next N att (with_read_receipt ?att ?r updated)")
proof -
  have fields: "an_epoch ?att = an_epoch att" "an_readSequence ?att = an_readSequence att" "an_armed ?att"
    "an_receipts ?att = an_receipts att" "cv_captured (an_coverage ?att) = ss_captured sources"
    by (simp_all add: with_sources_def inv)
  have first: "wait_next N att ?att" by (rule sources_next(2) [OF inv good])
  have ids: "distinct (target_ids att)" using inv by (simp add: wait_inv_def statement_valid_def target_ids_def)
  have "wait_next N ?att (with_read_receipt ?att ?r updated)"
    by (rule receipt_next) (use first good new ids in \<open>simp_all add: fields wait_next_def good_sources_def\<close>)
  with first show ?thesis by (rule wait_next_trans)
qed

lemma read_change_ok:
  assumes "world_ok env" "lenient E" and inv: "\<And>att. current = Some att \<Longrightarrow> wait_inv att" and few: "length ids \<le> 50"
    and fresh: "\<And>att. current = Some att \<Longrightarrow> ax_id ` set (an_receipts att) \<inter> drawn_ids env {T..} = {}"
  shows "wait_ok E T M (read_change env b epoch ids n current) (keeps (drawn_ids env {T..}) current)"
  unfolding read_change_def
proof (rule wait_bind [OF requireEpoch_ok [OF assms(2)]], rule wait_then [OF requireArmed_ok [OF assms(2)]],
    rule wait_then [OF revalidate_ok [OF assms(2)]], rule wait_then [OF requireReadable_ok [OF assms(2)]])
  fix att assume att: "current = Some att \<and> an_epoch att = epoch" and armed: "an_armed att"
  have wi: "wait_inv att" and new: "ax_id ` set (an_receipts att) \<inter> drawn_ids env {T..} = {}" using att inv fresh by blast+
  have draw: "wd_uuid (ae_world env k) \<in> drawn_ids env {T..}" if "T \<le> k" for k using that by (simp add: drawn_ids_def)
  show "wait_ok E T M (op_bind (capture_sources env att n) (\<lambda>sources.
      op_then (revalidate env b ThreadRead)
     (op_then (requireReadable env b att)
     (op_bind (wait_ask env wd_uuid) (\<lambda>i.
      op_bind (wait_ask env wd_now) (\<lambda>updated.
      op_bind (wait_ask env wd_now) (\<lambda>created.
        op_return (Some \<lparr>pg_epoch = epoch, pg_receiptId = i, pg_snapshotId = ss_snapshotId sources, pg_statement = an_statement att,
            pg_recovery = an_recovery att, pg_captured = ss_captured sources, pg_consumed = cv_consumed (an_coverage att),
            pg_workers = ss_workers sources, pg_gaps = ss_gaps sources, pg_decision = an_decision att,
            pg_pendingIntent = an_pendingIntent att, pg_lastWake = an_lastWake att\<rparr>,
          Some (with_read_receipt (with_sources att sources)
            \<lparr>ax_id = i, ax_epoch = epoch, ax_sequence = an_readSequence att + 1, ax_coverage = ss_received sources,
             ax_notificationIds = ids, ax_createdAt = created, ax_acknowledgedAt = None\<rparr> updated)))))))))
      (keeps (drawn_ids env {T..}) current)"
    unfolding conjunct1 [OF att] conjunct2 [OF att, symmetric]
    by (rule wait_bind [OF capture_ok [OF assms(1) inv_base [OF wi] assms(2)]], rule wait_then [OF revalidate_ok [OF assms(2)]],
        rule wait_then [OF requireReadable_ok [OF assms(2)]], intro wait_asked wait_return,
        unfold keeps_simps, rule read_record_next [OF wi armed _ few], assumption)
      (use new draw in blast)+
qed

lemma recheck_read_ok:
  assumes "lenient E" "\<And>att. current = Some att \<Longrightarrow> wait_inv att"
  shows "wait_ok E T M (recheck_read env b epoch current) (keeps N current)"
  unfolding recheck_read_def
  by (rule wait_then [OF revalidate_ok [OF assms(1)]], rule wait_bind [OF requireEpoch_ok [OF assms(1)]],
      rule wait_then [OF requireArmed_ok [OF assms(1)]], rule wait_then [OF requireReadable_ok [OF assms(1)]],
      rule wait_then [OF remember_ok], rule wait_return)
    (use assms(2) in \<open>auto simp: wait_next_refl\<close>)

lemma acknowledge_change_ok:
  assumes "lenient E" "\<And>att. current = Some att \<Longrightarrow> wait_inv att"
  shows "wait_ok E T M (acknowledge_change env b epoch receiptId current) (keeps N current)"
  unfolding acknowledge_change_def
proof (rule wait_bind [OF requireEpoch_ok [OF assms(1)]], rule wait_then [OF requireArmed_ok [OF assms(1)]],
    rule wait_then [OF revalidate_ok [OF assms(1)]], rule wait_then [OF requireReadable_ok [OF assms(1)]])
  fix att assume att: "current = Some att \<and> an_epoch att = epoch" and armed: "an_armed att"
  have inv: "wait_inv att" using att assms(2) by blast
  show "wait_ok E T M (case find (\<lambda>r. ax_id r = receiptId) (an_receipts att) of
      None \<Rightarrow> op_throw StaleReceipt
    | Some r \<Rightarrow> if ax_acknowledgedAt r \<noteq> None then op_return (ax_notificationIds r, Some att)
        else op_bind (wait_ask env wd_now) (\<lambda>now. op_return (ax_notificationIds r, Some (acknowledged_read att r now))))
      (keeps N current)"
  proof (cases "find (\<lambda>r. ax_id r = receiptId) (an_receipts att)")
    case None
    then show ?thesis by (simp add: wait_proper [OF assms(1)] proper_def)
  next
    case (Some r)
    then have r: "r \<in> set (an_receipts att)" by (auto simp: find_Some_iff)
    show ?thesis unfolding Some option.case conjunct1 [OF att]
      by (intro wait_if wait_asked wait_return) (simp_all add: wait_next_refl inv acknowledged_next [OF inv armed r])
  qed
qed

lemma snapshot_change_ok:
  assumes "world_ok env" "lenient E" "\<And>att. current = Some att \<Longrightarrow> wait_inv att"
  shows "wait_ok E T M (snapshot_change env current) (keeps N current)"
proof (cases current)
  case (Some att)
  have inv: "wait_inv att" by (rule assms(3) [OF Some])
  have rest: "wait_ok E T M (if \<not> an_armed att' then op_return (None, Some att')
      else op_bind (capture_sources env att' 1200) (\<lambda>sources.
        op_return (Some (with_sources att' sources, sources), Some (with_sources att' sources)))) (keeps N (Some att))"
    if step: "wait_next N att att'" for att'
  proof -
    have inv': "wait_inv att'" using step by (simp add: wait_next_def)
    show ?thesis
      by (intro wait_if wait_return, simp add: step, rule wait_bind [OF capture_ok [OF assms(1) inv_base [OF inv'] assms(2)]],
          rule wait_return) (use inv' in \<open>auto intro: wait_next_trans [OF step] sources_next(2)\<close>)
  qed
  show ?thesis unfolding snapshot_change_def Some option.case
    by (intro wait_if wait_return, simp add: wait_next_refl inv, rule wait_bind [OF refresh_ok [OF assms(1) inv _ assms(2), where N = N]])
      (simp, erule rest)
qed (simp add: snapshot_change_def wait_return)

text \<open>The changes of the scheduler.\<close>

datatype wake_change =
    BankDecision bool ident string attention_answer
  | ClearIntent ident consumption
  | HoldWake ident string
  | ObserveWake instruction_record "bool \<times> string" bool

fun wake_change_op :: "'m attention_env \<Rightarrow> wake_change \<Rightarrow> attention \<Rightarrow> attention wait_op" where
  "wake_change_op env (BankDecision live epoch inputId answer) = bank_decision env live epoch inputId answer"
| "wake_change_op env (ClearIntent messageId receipt) = clear_intent env messageId receipt"
| "wake_change_op env (HoldWake messageId reason) = hold_wake messageId reason"
| "wake_change_op env (ObserveWake r truth idle) = observe_wake env r truth idle"

lemma observe_wake_ok:
  assumes "wait_inv att" "an_armed att"
  shows "wait_ok E T M (observe_wake env r truth idle att) (wait_next N att)"
proof -
  have mark: "wait_next N att (att\<lparr>an_lastWake := l, an_pendingIntent := Some (i\<lparr>wi_instructionId := x\<rparr>), an_coverage :=
      (let cov = (an_coverage att)\<lparr>cv_scheduled := Some (wi_coverage i)\<rparr>;
           cov = (if ir_renderedAt r = None then cov else cov\<lparr>cv_rendered := Some (wi_coverage i), cv_noticed := wi_coverage i\<rparr>);
           cov = (if wake_reached r then cov\<lparr>cv_submitted := wi_coverage i\<rparr> else cov)
       in if initiated r then cov\<lparr>cv_initiated := Some (wi_coverage i)\<rparr> else cov)\<rparr>)"
    if "an_pendingIntent att = Some i" for i l x
    by (rule marked_next [OF assms that]) (auto simp: Let_def coverage_elems)
  show ?thesis unfolding observe_wake_def Let_def [of "att\<lparr>an_lastWake := _\<rparr>"]
    by (auto intro!: wait_return wait_asked wait_next_refl assms last_wake_next mark split: option.split)
qed

lemma wake_change_ok:
  assumes "wait_inv att" "an_armed att"
  shows "wait_ok E T M (wake_change_op env change att) (wait_next N att)"
proof (cases change)
  case (BankDecision live epoch inputId answer)
  then show ?thesis
    by (auto simp: bank_decision_def intro!: wait_asked wait_if wait_return wait_next_refl banked_next assms)
next
  case (ClearIntent messageId receipt)
  then show ?thesis
    by (auto simp: clear_intent_def intro!: wait_asked wait_if wait_return wait_next_refl clear_next assms)
next
  case (HoldWake messageId reason)
  then show ?thesis by (auto simp: hold_wake_def intro!: wait_return wait_next_refl held_next assms)
qed (simp add: observe_wake_ok assms)

lemma scheduling_change_ok:
  assumes "world_ok env" "lenient E" "\<And>att. current = Some att \<Longrightarrow> wait_inv att"
  shows "wait_ok E T M (scheduling_change env (wake_change_op env change) current) (keeps N current)"
proof (cases current)
  case (Some att)
  have inv: "wait_inv att" by (rule assms(3) [OF Some])
  have first: "wait_ok E T M (if an_armed att then refresh env att else op_return att) (wait_next N att)"
    by (intro wait_if refresh_ok assms(1,2) inv wait_return wait_next_refl)
  have chosen: "wait_ok E T M (if ok then wake_change_op env change att' else cancel_wait env att' reason) (wait_next N att)"
    if "wait_next N att att'" "an_armed att'" for ok att' reason
  proof -
    have "wait_inv att'" using that(1) by (simp add: wait_next_def)
    then show ?thesis
      by (intro wait_if wait_weaken [OF wake_change_ok] wait_weaken [OF cancel_wait_ok] wait_next_trans [OF that(1)] that(2))
  qed
  show ?thesis unfolding scheduling_change_def Some option.case
  proof (rule wait_bind [OF first], intro wait_if wait_return wait_asked)
    fix att' k assume step: "wait_next N att att'" and armed: "\<not> \<not> an_armed att'"
    let ?found = "wd_binding (ae_world env k) (an_actorSessionId att')"
    have "wait_ok E T M (if binds env (an_bindingKey att') att' ?found then hasSourceAuthority env (the ?found) att' else op_return False) (\<lambda>_. True)"
      by (intro wait_if hasSourceAuthority_ok assms(2) wait_return) simp
    then show "wait_ok E T M (op_bind (if binds env (an_bindingKey att') att' ?found then hasSourceAuthority env (the ?found) att' else op_return False)
        (\<lambda>ok. op_bind (if ok then wake_change_op env change att' else cancel_wait env att' ''Orchestrator scheduling authority lost'')
          (\<lambda>nxt. op_return ((), Some nxt)))) (keeps N (Some att))"
      using step armed by (elim wait_bind) (intro wait_answer chosen, simp_all)
  qed simp
qed (simp add: scheduling_change_def wait_return)

lemma run_apply_ok: "lenient E \<Longrightarrow> wait_ok E T M (run_apply env) (\<lambda>_. True)"
  unfolding run_apply_def by (auto intro!: wait_asked wait_return wait_proper simp: proper_def)

lemma actor_ready_proper: "actor_ready w att = Some e \<Longrightarrow> proper e"
  by (auto simp: actor_ready_def proper_def split: actor_reading.splits if_splits)

lemma admit_epoch_ok:
  assumes "lenient E" "wait_inv att" "an_armed att"
  shows "wait_ok E T M (admit_epoch env r epoch att) (keeps N (Some att))"
proof -
  have held: "proper (WakeHeldBack reason final)" for reason final by (simp add: proper_def)
  have after: "wait_ok E T M (case problem of Some e \<Rightarrow> op_throw e
      | None \<Rightarrow>
          op_bind (wait_ask env (\<lambda>w. list_all (authority_as_recorded w att) (an_authorities att))) (\<lambda>kept.
            if \<not> kept then op_throw (WakeHeldBack ''attention-source-changed'' False)
            else op_bind (wait_ask env wd_wakeOff) (\<lambda>off.
              if off then op_bind (wait_ask env wd_now) (\<lambda>now.
                op_return (True, Some (held_for ''notification-wake-off'' (att\<lparr>an_updatedAt := now\<rparr>))))
              else op_then (run_apply env) (op_return (False, Some att))))) (keeps N (Some att))"
    if "\<And>e. problem = Some e \<Longrightarrow> proper e" for problem
  proof (cases problem)
    case None
    show ?thesis unfolding None option.case
      by (intro wait_asked wait_if wait_proper [OF assms(1) held] wait_return wait_then [OF run_apply_ok [OF assms(1)]])
        (simp_all add: held_next(1) [OF assms(2,3)] wait_next_refl assms(2))
  qed (simp add: wait_proper [OF assms(1)] that)
  show ?thesis unfolding admit_epoch_def
    by (rule wait_bind [OF requireBinding_ok [OF assms(1)]], rule wait_bind [OF requireEpoch_ok [OF assms(1)]],
        rule wait_bind [OF hasSourceAuthority_ok [OF assms(1)]], intro wait_if wait_proper [OF assms(1) held] wait_asked,
        rule after, erule actor_ready_proper)
qed

lemma admit_change_ok:
  assumes "lenient E" "\<And>att. current = Some att \<Longrightarrow> wait_inv att"
  shows "wait_ok E T M (admit_change env r wake current) (keeps N current)"
proof -
  have held: "proper (WakeHeldBack reason final)" for reason final by (simp add: proper_def)
  show ?thesis unfolding admit_change_def
    using assms(2)
    by (auto intro!: wait_proper [OF assms(1) held] wait_then [OF run_apply_ok [OF assms(1)]] wait_return admit_epoch_ok assms(1)
        split: option.split)
qed

text \<open>Arming leaves the record it finds unless the request names its epoch.\<close>

lemma cancelled_receipts: "an_receipts (cancelled_record c u reason att) = an_receipts att"
    "an_controllerId (cancelled_record c u reason att) = an_controllerId att"
  by (simp_all add: cancelled_record_def held_for_def)

definition same_receipts :: "attention \<Rightarrow> attention \<Rightarrow> bool" where
  "same_receipts att att' = (an_receipts att' = an_receipts att \<and> an_controllerId att' = an_controllerId att)"

lemma cancel_receipts: "wait_ok E T M (cancel_wait env att reason) (same_receipts att)"
  by (rule wait_weaken [OF cancel_wait_kept]) (auto simp: same_receipts_def cancelled_receipts)

lemma capture_any: "lenient E \<Longrightarrow> wait_ok E T M (capture_sources env att n) (\<lambda>_. True)"
  unfolding capture_sources_def by (rule wait_asked) (auto intro: wait_return wait_proper simp: proper_def split: sum.split)

lemma refresh_sources_receipts:
  assumes "lenient E"
  shows "wait_ok E T M (refresh_sources env att b recovery) (same_receipts att)"
  unfolding refresh_sources_def
  by (rule wait_bind [OF capture_any [OF assms]], intro wait_asked wait_if cancel_receipts wait_bind [OF hasSourceAuthority_ok [OF assms]] wait_return)
    (simp_all add: same_receipts_def with_sources_def)

lemma refresh_receipts:
  assumes "lenient E"
  shows "wait_ok E T M (refresh env att) (same_receipts att)"
proof -
  have "wait_ok E T M (case reading of Inl e \<Rightarrow> op_throw e
      | Inr None \<Rightarrow> cancel_wait env att ''Orchestrator stopped or cancelled''
      | Inr (Some recovery) \<Rightarrow>
          op_bind (hasSourceAuthority env b att) (\<lambda>ok.
            if \<not> ok then cancel_wait env att ''Orchestrator source authority lost''
            else op_bind (wait_ask env (\<lambda>w. av_ledger (wd_sources w) (an_actorSessionId att))) (\<lambda>ledger.
              if turn_cancelled att ledger then cancel_wait env att ''Orchestrator turn cancelled after arming''
              else refresh_sources env att b recovery))) (same_receipts att)"
    if "\<And>e. reading = Inl e \<Longrightarrow> proper e" for reading b
    using that assms
    by (auto intro!: wait_proper cancel_receipts wait_bind [OF hasSourceAuthority_ok] wait_asked refresh_sources_receipts split: sum.split option.split)
  then show ?thesis unfolding refresh_def
    by (intro wait_asked wait_if cancel_receipts) (blast dest: actor_recovery_proper)
qed

definition arm_answers :: "attention option \<Rightarrow> ident \<Rightarrow> ident option \<Rightarrow> unit \<times> attention option \<Rightarrow> bool" where
  "arm_answers current c previous = (\<lambda>(_, nxt). nxt = current
     \<or> (current = None \<or> map_option an_epoch current = previous)
       \<and> (\<exists>att. nxt = Some att \<and> an_receipts att = [] \<and> an_controllerId att = c))"

lemma arm_authorities_proper: "arm_authorities w b c ts = Inl e \<Longrightarrow> proper e"
  by (induction ts arbitrary: e) (auto simp: proper_def split: actor_reading.splits if_splits sum.splits option.splits)

lemma open_wait_ok:
  assumes "lenient E"
  shows "wait_ok E T M (open_wait env rq b current)
    (\<lambda>(_, nxt). \<exists>att. nxt = Some att \<and> an_receipts att = [] \<and> an_controllerId att = controller_of env b)"
    (is "wait_ok E T M _ ?Q")
proof -
  have opened: "wait_ok E T M (refresh env (armed_wait env rq b current as now ledger epoch))
      (\<lambda>att. an_receipts att = [] \<and> an_controllerId att = controller_of env b)" for as now ledger epoch
    by (rule wait_weaken [OF refresh_receipts [OF assms]]) (simp add: same_receipts_def armed_wait_def)
  show ?thesis unfolding open_wait_def
  proof (rule wait_asked)
    fix k
    show "wait_ok E T M (case arm_authorities (ae_world env k) b (controller_of env b) (am_targets (rq_statement rq)) of
        Inl e \<Rightarrow> op_throw e
      | Inr authorities \<Rightarrow>
          op_bind (wait_ask env wd_now) (\<lambda>now.
          op_bind (wait_ask env (\<lambda>w. av_ledger (wd_sources w) (rq_actorSessionId rq))) (\<lambda>ledger.
          op_bind (wait_ask env wd_uuid) (\<lambda>epoch.
          op_bind (refresh env (armed_wait env rq b current authorities now ledger epoch)) (\<lambda>att.
          op_then (revalidate env b ThreadEnqueue)
            (op_bind (wait_ask env (\<lambda>w. list_all (authority_kept w (controller_of env b)) authorities)) (\<lambda>kept.
               if kept then op_return ((), Some att) else op_throw OwnershipLost))))))) ?Q"
    proof (cases "arm_authorities (ae_world env k) b (controller_of env b) (am_targets (rq_statement rq))")
      case (Inl e)
      then show ?thesis by (simp add: wait_proper [OF assms] arm_authorities_proper)
    next
      case (Inr authorities)
      show ?thesis unfolding Inr sum.case
        by (intro wait_asked wait_bind [OF opened] wait_then [OF revalidate_ok [OF assms]] wait_if wait_return wait_proper [OF assms])
          (simp_all add: proper_def)
    qed
  qed
qed

lemma arm_change_ok:
  assumes "lenient E"
  shows "wait_ok E T M (arm_change env rq b current) (arm_answers current (controller_of env b) (rq_previousEpoch rq))"
  unfolding arm_change_def
  by (intro wait_then [OF revalidate_ok [OF assms]] wait_if wait_proper [OF assms] wait_return wait_weaken [OF open_wait_ok [OF assms]])
    (auto simp: arm_answers_def proper_def)

text \<open>A receipt's id is drawn before the reading ends.\<close>

definition ends :: "'a wait_op \<Rightarrow> ('a \<Rightarrow> nat \<Rightarrow> bool) \<Rightarrow> bool" where
  "ends m R = (\<forall>s x. fst (m s) = Inr x \<longrightarrow> R x (pl_tick (snd (m s))))"

lemma ends_bind:
  assumes "\<And>s x. fst (m s) = Inr x \<Longrightarrow> P x" "\<And>x. P x \<Longrightarrow> ends (k x) R"
  shows "ends (op_bind m k) R"
  unfolding ends_def
proof (intro allI impI)
  fix s y assume y: "fst (op_bind m k s) = Inr y"
  obtain x where x: "fst (m s) = Inr x" using y by (cases "fst (m s)"; cases "m s") (auto simp: op_bind_def)
  then have bind: "op_bind m k s = k x (snd (m s))" by (cases "m s") (simp add: op_bind_def)
  show "R y (pl_tick (snd (op_bind m k s)))" using y assms(2) [OF assms(1) [OF x]] unfolding bind ends_def by blast
qed

lemma ends_then: "ends k R \<Longrightarrow> ends (op_then m k) R"
  unfolding op_then_def by (rule ends_bind [where P = "\<lambda>_. True"]) simp_all

lemma ends_draw:
  assumes "\<And>k u c t. k < t \<Longrightarrow> R (f (wd_uuid (ae_world env k)) u c) t"
  shows "ends (op_bind (wait_ask env wd_uuid) (\<lambda>i. op_bind (wait_ask env wd_now) (\<lambda>u.
    op_bind (wait_ask env wd_now) (\<lambda>c. op_return (f i u c))))) R"
  by (auto simp: ends_def op_bind_def wait_ask_def op_return_def intro: assms)

definition ids_until :: "'m attention_env \<Rightarrow> attention option \<Rightarrow> 'x \<times> attention option \<Rightarrow> nat \<Rightarrow> bool" where
  "ids_until env current = (\<lambda>(_, nxt) t. \<forall>att att'. current = Some att \<longrightarrow> nxt = Some att' \<longrightarrow>
     ax_id ` set (an_receipts att') \<subseteq> ax_id ` set (an_receipts att) \<union> drawn_ids env {..<t})"

lemma read_receipt_ids:
  "k < t \<Longrightarrow> ids_until env (Some att) (page, Some (with_read_receipt (with_sources att sources)
    \<lparr>ax_id = wd_uuid (ae_world env k), ax_epoch = e, ax_sequence = n, ax_coverage = cov, ax_notificationIds = ids,
     ax_createdAt = c, ax_acknowledgedAt = None\<rparr> u)) t"
  using set_drop_subset
  by (fastforce simp: ids_until_def with_read_receipt_def with_sources_def js_slice_last_def drawn_ids_def dest: in_set_dropD)

lemma read_ends: "ends (read_change env b epoch ids n current) (ids_until env current)"
  unfolding read_change_def
  by (rule ends_bind [where P = "\<lambda>att. current = Some att"], force simp: requireEpoch_def op_defs split: option.splits if_splits,
      intro ends_then, rule ends_bind [where P = "\<lambda>_. True"], simp, intro ends_then, rule ends_draw)
    (simp add: read_receipt_ids)

subsection \<open>An update\<close>

text \<open>
  An update of controller \<open>c\<close> from \<open>s\<close> leaves the stored records, or stores for \<open>c\<close> one valid record
  of which \<open>Q\<close> holds at the tick it ends; it throws only errors of \<open>E\<close>.
\<close>

definition update_ok ::
  "(attention_error \<Rightarrow> bool) \<Rightarrow> attention_plane \<Rightarrow> ident \<Rightarrow> (nat \<Rightarrow> attention \<Rightarrow> bool) \<Rightarrow> 'a wait_op \<Rightarrow> bool" where
  "update_ok E s c Q m =
     (pl_tick s \<le> pl_tick (snd (m s))
      \<and> (pl_stored (snd (m s)) = pl_stored s
         \<or> (\<exists>att. Q (pl_tick (snd (m s))) att \<and> attention_valid att \<and> an_controllerId att = c
              \<and> pl_stored (snd (m s)) = js_set c att (pl_stored s)))
      \<and> (\<forall>e. fst (m s) = Inl e \<longrightarrow> E e))"

lemma read_attention_eq:
  assumes "\<And>att. js_get (pl_stored s) c = Some att \<Longrightarrow> attention_valid att \<and> an_controllerId att = c"
  shows "read_attention env c s =
    (if wd_readable (ae_world env (pl_tick s)) then Inr (js_get (pl_stored s) c) else Inl StoreIo, s\<lparr>pl_tick := Suc (pl_tick s)\<rparr>)"
  using assms by (cases "js_get (pl_stored s) c") (simp_all add: read_attention_def wait_ask_def op_defs)

lemma write_attention_facts:
  "pl_tick (snd (write_attention env c att s)) = Suc (pl_tick s)"
  "pl_stored (snd (write_attention env c att s)) \<in> {pl_stored s, js_set c att (pl_stored s)}"
  "fst (write_attention env c att s) = Inl e \<Longrightarrow> e = StoreIo"
  by (cases "wd_write (ae_world env (pl_tick s))"; auto simp: write_attention_def wait_ask_def op_defs)+

lemma attention_update_ok:
  assumes stored: "\<And>att. js_get (pl_stored s) c = Some att \<Longrightarrow> attention_valid att \<and> an_controllerId att = c"
    and change: "wait_ok E (pl_tick s) (pl_stored s) (change (js_get (pl_stored s) c)) A"
    and tick: "ends (change (js_get (pl_stored s) c)) B"
    and answer: "\<And>x att t t'. A (x, Some att) \<Longrightarrow> B (x, Some att) t \<Longrightarrow> t \<le> t' \<Longrightarrow> js_get (pl_stored s) c = Some att \<or> Q t' att"
    and refused: "\<And>t att. Q t att \<Longrightarrow> (attention_valid att \<or> E RecordInvalid) \<and> (an_controllerId att = c \<or> E RecordCorrupt)"
    and lenient: "lenient E"
  shows "update_ok E s c Q (attention_update env c change)"
proof (cases "wd_readable (ae_world env (pl_tick s))")
  case False
  then show ?thesis using lenient
    by (simp add: update_ok_def attention_update_def op_bind_def read_attention_eq [OF stored] lenient_def proper_def)
next
  case True
  define current where "current = js_get (pl_stored s) c"
  define s1 where "s1 = s\<lparr>pl_tick := Suc (pl_tick s)\<rparr>"
  obtain r s2 where run: "change current s1 = (r, s2)" by fastforce
  have s1: "pl_stored s1 = pl_stored s" "pl_tick s \<le> pl_tick s1" by (simp_all add: s1_def)
  note ok = wait_okD [OF change s1, folded current_def, unfolded run fst_conv snd_conv]
  have read: "read_attention env c s = (Inr current, s1)"
    unfolding current_def s1_def using True by (subst read_attention_eq [OF stored]) simp_all
  have whole: "attention_update env c change s = (case r of Inl e \<Rightarrow> (Inl e, s2)
      | Inr (x, nxt) \<Rightarrow> (case nxt of None \<Rightarrow> op_return (x, current)
         | Some att \<Rightarrow>
             if \<not> attention_valid att then op_throw RecordInvalid
             else if an_controllerId att \<noteq> c then op_throw RecordCorrupt
             else op_then (op_when (current \<noteq> Some att) (write_attention env c att)) (op_return (x, Some att))) s2)"
    by (cases r) (simp_all add: attention_update_def op_bind_def read run split: prod.split)
  note finish = update_ok_def whole
  have storeIo: "E StoreIo" using lenient by (simp add: lenient_def proper_def)
  show ?thesis
  proof (cases r)
    case (Inl e)
    then show ?thesis using ok by (simp add: finish)
  next
    case (Inr y)
    obtain x nxt where y: "y = (x, nxt)" by fastforce
    show ?thesis
    proof (cases nxt)
      case None
      then show ?thesis using ok Inr y by (simp add: finish op_defs)
    next
      case (Some att)
      have "A (x, Some att)" using ok(3) [OF Inr] y Some by simp
      moreover have "B (x, Some att) (pl_tick s2)" using tick run Inr y Some unfolding ends_def current_def by (metis fst_conv snd_conv)
      ultimately have Q: "current = Some att \<or> Q t' att" if "pl_tick s2 \<le> t'" for t' using answer that unfolding current_def by blast
      note w = write_attention_facts [of env c att s2]
      show ?thesis
      proof (cases "current = Some att")
        case True
        then show ?thesis using ok Inr y Some stored [OF True [unfolded current_def]] by (simp add: finish op_defs)
      next
        case False
        have Q': "Q t' att" if "pl_tick s2 \<le> t'" for t' using Q [OF that] False by blast
        have "Q (Suc (pl_tick s2)) att" by (rule Q') simp
        then show ?thesis using ok Inr y Some False w refused [OF Q' [OF order_refl]] storeIo
          by (cases "write_attention env c att s2"; cases "fst (write_attention env c att s2)") (auto simp: finish op_defs)
      qed
    qed
  qed
qed

text \<open>What follows an update touches neither the records nor the tick.\<close>

definition untouching :: "(attention_error \<Rightarrow> bool) \<Rightarrow> 'a wait_op \<Rightarrow> bool" where
  "untouching E m = (\<forall>s. pl_stored (snd (m s)) = pl_stored s \<and> pl_tick (snd (m s)) = pl_tick s \<and> (\<forall>e. fst (m s) = Inl e \<longrightarrow> E e))"

lemma update_bind:
  assumes "update_ok E s c Q m" "\<And>x. untouching E (k x)"
  shows "update_ok E s c Q (op_bind m k)"
proof -
  obtain r t where m: "m s = (r, t)" by fastforce
  show ?thesis using assms(1) assms(2) [unfolded untouching_def, rule_format]
    by (cases r) (simp_all add: update_ok_def op_bind_def m)
qed

lemma untouching_rules [simp]:
  "untouching E (op_return x)" "untouching E (remember att)" "lenient E \<Longrightarrow> untouching E (op_throw TypeFault)"
  "untouching E m \<Longrightarrow> untouching E k \<Longrightarrow> untouching E (op_then m k)"
  by (auto simp: untouching_def remember_def op_defs lenient_def proper_def split: prod.splits sum.splits)
    (metis fst_conv snd_conv)+

subsection \<open>Runs\<close>

text \<open>
  The updates of the plane, in any order and for any controllers: those of the operations of an orchestrator,
  of a removed or replaced binding, of the reconciler, of the scheduler and of the admission of a wake.
\<close>

datatype wait_call =
    WaitArm arm_request orchestrator_binding
  | WaitReconcile ident "ident option"
  | WaitCancel orchestrator_binding ident string
  | WaitRemoved orchestrator_binding
  | WaitChanged orchestrator_binding
  | WaitRead orchestrator_binding ident "ident list" nat
  | WaitRecheck orchestrator_binding ident
  | WaitAcknowledge orchestrator_binding ident ident
  | WaitSnapshot ident
  | WaitSchedule ident wake_change
  | WaitAdmit instruction_record wake_context

definition replied_update :: "('x \<times> attention option) wait_op \<Rightarrow> unit wait_op" where
  "replied_update m = op_bind m (\<lambda>(_, found). case found of None \<Rightarrow> op_throw TypeFault | Some att \<Rightarrow> remember att)"

fun wait_call_op :: "'m attention_env \<Rightarrow> wait_call \<Rightarrow> unit wait_op" where
  "wait_call_op env (WaitArm rq b) = op_bind (arm_update env rq b) (\<lambda>_. op_return ())"
| "wait_call_op env (WaitReconcile c epoch) = op_bind (reconcile_wait env c epoch) (\<lambda>_. op_return ())"
| "wait_call_op env (WaitCancel b epoch reason) = replied_update (attention_update env (controller_of env b) (cancel_change env b epoch reason))"
| "wait_call_op env (WaitRemoved b) = bindingRemoved env b"
| "wait_call_op env (WaitChanged b) = bindingChanged env b"
| "wait_call_op env (WaitRead b epoch ids n) =
     op_bind (attention_update env (controller_of env b) (read_change env b epoch ids n)) (\<lambda>_. op_return ())"
| "wait_call_op env (WaitRecheck b epoch) = op_bind (attention_update env (controller_of env b) (recheck_read env b epoch)) (\<lambda>_. op_return ())"
| "wait_call_op env (WaitAcknowledge b epoch receiptId) =
     replied_update (attention_update env (controller_of env b) (acknowledge_change env b epoch receiptId))"
| "wait_call_op env (WaitSnapshot c) = op_bind (schedulingSnapshot env c) (\<lambda>_. op_return ())"
| "wait_call_op env (WaitSchedule c change) = op_bind (schedulingUpdate env c (wake_change_op env change)) (\<lambda>_. op_return ())"
| "wait_call_op env (WaitAdmit r wake) =
     op_bind (attention_update env (wc_controllerId wake) (admit_change env r wake)) (\<lambda>(off, _).
       if off then op_throw (WakeHeldBack ''notification-wake-off'' False) else op_return ())"

fun call_controller :: "'m attention_env \<Rightarrow> wait_call \<Rightarrow> ident" where
  "call_controller env (WaitArm rq b) = controller_of env b"
| "call_controller env (WaitReconcile c epoch) = c"
| "call_controller env (WaitCancel b epoch reason) = controller_of env b"
| "call_controller env (WaitRemoved b) = controller_of env b"
| "call_controller env (WaitChanged b) = controller_of env b"
| "call_controller env (WaitRead b epoch ids n) = controller_of env b"
| "call_controller env (WaitRecheck b epoch) = controller_of env b"
| "call_controller env (WaitAcknowledge b epoch receiptId) = controller_of env b"
| "call_controller env (WaitSnapshot c) = c"
| "call_controller env (WaitSchedule c change) = c"
| "call_controller env (WaitAdmit r wake) = wc_controllerId wake"

text \<open>A reading lists at most the notifications of one page.\<close>

fun one_page :: "wait_call \<Rightarrow> bool" where
  "one_page (WaitRead b epoch ids n) = (length ids \<le> 50)"
| "one_page _ = True"

fun arms :: "wait_call \<Rightarrow> bool" where
  "arms (WaitArm rq b) = True"
| "arms _ = False"

fun replaces :: "'m attention_env \<Rightarrow> ident \<Rightarrow> ident \<Rightarrow> wait_call \<Rightarrow> bool" where
  "replaces env c epoch (WaitArm rq b) = (controller_of env b = c \<and> rq_previousEpoch rq = Some epoch)"
| "replaces env c epoch _ = False"

definition run_waits :: "'m attention_env \<Rightarrow> wait_call list \<Rightarrow> attention_plane \<Rightarrow> attention_plane" where
  "run_waits env calls s = fold (\<lambda>call s. snd (wait_call_op env call s)) calls s"

definition plane_valid :: "'m attention_env \<Rightarrow> attention_plane \<Rightarrow> bool" where
  "plane_valid env s = (\<forall>c att. js_get (pl_stored s) c = Some att \<longrightarrow>
     attention_valid att \<and> an_controllerId att = c \<and> ax_id ` set (an_receipts att) \<subseteq> drawn_ids env {..<pl_tick s})"

definition fresh_uuids :: "'m attention_env \<Rightarrow> bool" where
  "fresh_uuids env = inj (\<lambda>k. wd_uuid (ae_world env k))"

definition kept_record :: "'m attention_env \<Rightarrow> attention option \<Rightarrow> nat \<Rightarrow> attention \<Rightarrow> bool" where
  "kept_record env current t att' = (\<exists>att. current = Some att \<and> wait_next UNIV att att'
     \<and> ax_id ` set (an_receipts att') \<subseteq> ax_id ` set (an_receipts att) \<union> drawn_ids env {..<t})"

lemma plane_valid_get:
  assumes "plane_valid env s" "js_get (pl_stored s) c = Some att"
  shows "wait_inv att" "attention_valid att" "an_controllerId att = c" "ax_id ` set (an_receipts att) \<subseteq> drawn_ids env {..<pl_tick s}"
  using assms unfolding plane_valid_def valid_iff_inv [symmetric] by blast+

lemma kept_refused:
  assumes "plane_valid env s" "kept_record env (js_get (pl_stored s) c) t att"
  shows "(attention_valid att \<or> E RecordInvalid) \<and> (an_controllerId att = c \<or> E RecordCorrupt)"
  using assms by (auto simp: kept_record_def wait_next_def valid_iff_inv dest: plane_valid_get(3))

text \<open>An update by a change that keeps the record and draws no receipt.\<close>

lemma kept_update:
  assumes valid: "plane_valid env s" and E: "lenient E"
    and change: "wait_ok E (pl_tick s) (pl_stored s) (change (js_get (pl_stored s) c)) (keeps {} (js_get (pl_stored s) c))"
  shows "update_ok E s c (kept_record env (js_get (pl_stored s) c)) (attention_update env c change)"
proof (rule attention_update_ok [where A = "keeps {} (js_get (pl_stored s) c)" and B = "\<lambda>_ _. True"])
  fix x att
  assume k: "keeps {} (js_get (pl_stored s) c) (x, Some att)"
  then show "js_get (pl_stored s) c = Some att \<or> kept_record env (js_get (pl_stored s) c) t att" for t
    by (cases "js_get (pl_stored s) c") (auto simp: kept_record_def wait_next_def)
qed (use valid E change kept_refused [OF valid] in \<open>auto simp: ends_def plane_valid_get\<close>)

lemma read_update:
  assumes valid: "plane_valid env s" and world: "world_ok env" "fresh_uuids env" and few: "length ids \<le> 50" and E: "lenient E"
  shows "update_ok E s c (kept_record env (js_get (pl_stored s) c)) (attention_update env c (read_change env b epoch ids n))"
proof (rule attention_update_ok [where A = "keeps (drawn_ids env {pl_tick s..}) (js_get (pl_stored s) c)"
      and B = "ids_until env (js_get (pl_stored s) c)"])
  show "ends (read_change env b epoch ids n (js_get (pl_stored s) c)) (ids_until env (js_get (pl_stored s) c))"
    by (rule read_ends)
  have "drawn_ids env {..<pl_tick s} \<inter> drawn_ids env {pl_tick s..} = {}"
    using world(2) by (auto simp: drawn_ids_def fresh_uuids_def dest: injD)
  then have "ax_id ` set (an_receipts att) \<inter> drawn_ids env {pl_tick s..} = {}" if "js_get (pl_stored s) c = Some att" for att
    using plane_valid_get(4) [OF valid that] by blast
  then show "wait_ok E (pl_tick s) (pl_stored s) (read_change env b epoch ids n (js_get (pl_stored s) c))
      (keeps (drawn_ids env {pl_tick s..}) (js_get (pl_stored s) c))"
    by (intro read_change_ok world few E plane_valid_get(1) [OF valid])
  fix x :: "'a attention_page option" and att t t'
  assume "keeps (drawn_ids env {pl_tick s..}) (js_get (pl_stored s) c) (x, Some att)"
    "ids_until env (js_get (pl_stored s) c) (x, Some att) t" "t \<le> t'"
  moreover have "drawn_ids env {..<t} \<subseteq> drawn_ids env {..<t'}" using \<open>t \<le> t'\<close> by (auto simp: drawn_ids_def)
  ultimately show "js_get (pl_stored s) c = Some att \<or> kept_record env (js_get (pl_stored s) c) t' att"
    by (cases "js_get (pl_stored s) c") (auto simp: kept_record_def ids_until_def intro: wait_next_mono)
qed (use valid world few E kept_refused [OF valid] in \<open>auto simp: plane_valid_get\<close>)

definition armed_record :: "attention option \<Rightarrow> ident option \<Rightarrow> nat \<Rightarrow> attention \<Rightarrow> bool" where
  "armed_record current previous t att = ((current = None \<or> map_option an_epoch current = previous) \<and> an_receipts att = [])"

definition not_corrupt :: "attention_error \<Rightarrow> bool" where
  "not_corrupt e = (e \<noteq> RecordCorrupt)"

lemma lenient_not_corrupt [simp]: "lenient not_corrupt"
  by (simp add: lenient_def proper_def not_corrupt_def)

lemma arm_update_ok:
  assumes valid: "plane_valid env s"
  shows "update_ok not_corrupt s (controller_of env b)
    (\<lambda>t att. armed_record (js_get (pl_stored s) (controller_of env b)) (rq_previousEpoch rq) t att \<and> an_controllerId att = controller_of env b)
    (attention_update env (controller_of env b) (arm_change env rq b))"
    (is "update_ok ?E s ?c ?Q _")
proof (rule attention_update_ok [where A = "arm_answers (js_get (pl_stored s) ?c) ?c (rq_previousEpoch rq)" and B = "\<lambda>_ _. True"])
  show "lenient ?E" by simp
  show "wait_ok ?E (pl_tick s) (pl_stored s) (arm_change env rq b (js_get (pl_stored s) ?c))
      (arm_answers (js_get (pl_stored s) ?c) ?c (rq_previousEpoch rq))"
    by (rule arm_change_ok) simp
  fix x att t'
  assume "arm_answers (js_get (pl_stored s) ?c) ?c (rq_previousEpoch rq) (x, Some att)"
  then show "js_get (pl_stored s) ?c = Some att \<or> ?Q t' att" by (auto simp: arm_answers_def armed_record_def)
qed (use valid in \<open>auto simp: ends_def plane_valid_get not_corrupt_def\<close>)

lemma replied_update_ok: "update_ok E s c Q m \<Longrightarrow> lenient E \<Longrightarrow> update_ok E s c Q (replied_update m)"
  unfolding replied_update_def by (rule update_bind) (auto split: option.split)

lemma remembering_ok: "update_ok E s c Q m \<Longrightarrow> update_ok E s c Q (remembering m)"
  unfolding remembering_def by (rule update_bind) (auto split: option.split)

lemma update_done: "update_ok E s c Q m \<Longrightarrow> update_ok E s c Q (op_bind m (\<lambda>_. op_return ()))"
  by (erule update_bind) simp

lemma held_untouching: "lenient E \<Longrightarrow> untouching E (op_throw (WakeHeldBack reason final))"
  by (simp add: untouching_def op_defs lenient_def proper_def)

lemma kept_calls:
  assumes "plane_valid env s" "world_ok env" "fresh_uuids env" "one_page call" "\<not> arms call"
  shows "update_ok proper s (call_controller env call) (kept_record env (js_get (pl_stored s) (call_controller env call))) (wait_call_op env call)"
proof -
  note get = plane_valid_get(1) [OF assms(1)]
  note kept = kept_update [OF assms(1), of proper, OF lenient_simps(1)]
  show ?thesis
  proof (cases call)
    case (WaitReconcile c epoch)
    have "update_ok proper s c (kept_record env (js_get (pl_stored s) c)) (reconcile_wait env c epoch)"
      unfolding reconcile_wait_def
      by (rule update_bind, rule kept, rule refresh_armed_ok [OF assms(2) lenient_simps(1)], erule get) (simp split: prod.split option.split)
    then show ?thesis using WaitReconcile by (simp add: update_done)
  next
    case (WaitSnapshot c)
    have "update_ok proper s c (kept_record env (js_get (pl_stored s) c)) (schedulingSnapshot env c)"
      unfolding schedulingSnapshot_def
      by (rule update_bind, rule kept, rule snapshot_change_ok [OF assms(2) lenient_simps(1)], erule get) (simp split: prod.split)
    then show ?thesis using WaitSnapshot by (simp add: update_done)
  next
    case (WaitSchedule c change)
    have "update_ok proper s c (kept_record env (js_get (pl_stored s) c)) (schedulingUpdate env c (wake_change_op env change))"
      unfolding schedulingUpdate_def
      by (rule update_bind, rule kept, rule scheduling_change_ok [OF assms(2) lenient_simps(1)], erule get) (simp split: prod.split)
    then show ?thesis using WaitSchedule by (simp add: update_done)
  next
    case (WaitAdmit r wake)
    show ?thesis unfolding WaitAdmit wait_call_op.simps call_controller.simps
      by (rule update_bind, rule kept, rule admit_change_ok [OF lenient_simps(1)], erule get) (simp add: held_untouching split: prod.split)
  next
    case (WaitRead b epoch ids n)
    then show ?thesis using assms by (simp add: update_done read_update)
  qed (use assms(5) in \<open>simp_all add: bindingRemoved_def bindingChanged_def\<close>,
      (intro update_done replied_update_ok remembering_ok kept cancel_change_ok cancel_if_ok recheck_read_ok acknowledge_change_ok lenient_simps get; assumption)+)
qed

lemma arm_call:
  assumes "plane_valid env s"
  shows "update_ok not_corrupt s (controller_of env b)
    (\<lambda>t att. armed_record (js_get (pl_stored s) (controller_of env b)) (rq_previousEpoch rq) t att \<and> an_controllerId att = controller_of env b)
    (wait_call_op env (WaitArm rq b))"
  unfolding wait_call_op.simps arm_update_def
  by (intro update_done update_bind [OF arm_update_ok [OF assms]]) (simp split: prod.split option.split)

text \<open>What one call does to the records.\<close>

lemma call_effect:
  assumes "plane_valid env s" "world_ok env" "fresh_uuids env" "one_page call"
  defines "c \<equiv> call_controller env call" and "t \<equiv> snd (wait_call_op env call s)"
  shows "pl_tick s \<le> pl_tick t \<and> (pl_stored t = pl_stored s
    \<or> (\<exists>att. attention_valid att \<and> an_controllerId att = c \<and> pl_stored t = js_set c att (pl_stored s)
         \<and> (kept_record env (js_get (pl_stored s) c) (pl_tick t) att
            \<or> an_receipts att = [] \<and> (\<forall>old. js_get (pl_stored s) c = Some old \<longrightarrow> replaces env c (an_epoch old) call))))"
proof (cases "arms call")
  case False
  from kept_calls [OF assms(1-4) this] show ?thesis unfolding update_ok_def c_def t_def by blast
next
  case True
  then obtain rq b where call: "call = WaitArm rq b" by (cases call) auto
  from arm_call [OF assms(1), of b rq] show ?thesis
    unfolding update_ok_def c_def t_def call armed_record_def call_controller.simps replaces.simps by fastforce
qed

lemma valid_kept:
  assumes "plane_valid env s" "world_ok env" "fresh_uuids env" "one_page call"
  shows "plane_valid env (snd (wait_call_op env call s))"
proof -
  let ?c = "call_controller env call" and ?t = "snd (wait_call_op env call s)"
  note effect = call_effect [OF assms]
  have grow: "drawn_ids env {..<pl_tick s} \<subseteq> drawn_ids env {..<pl_tick ?t}" using conjunct1 [OF effect] by (auto simp: drawn_ids_def)
  have old: "attention_valid att \<and> an_controllerId att = c \<and> ax_id ` set (an_receipts att) \<subseteq> drawn_ids env {..<pl_tick ?t}"
    if "js_get (pl_stored s) c = Some att" for c att
    using plane_valid_get(2-4) [OF assms(1) that] grow by blast
  show ?thesis
  proof (cases "pl_stored ?t = pl_stored s")
    case True
    then show ?thesis using old by (simp add: plane_valid_def)
  next
    case False
    then obtain att where att: "attention_valid att" "an_controllerId att = ?c" "pl_stored ?t = js_set ?c att (pl_stored s)"
      "kept_record env (js_get (pl_stored s) ?c) (pl_tick ?t) att \<or> an_receipts att = []" using effect by blast
    have "ax_id ` set (an_receipts att) \<subseteq> drawn_ids env {..<pl_tick ?t}"
      using att(4)
    proof
      assume "kept_record env (js_get (pl_stored s) ?c) (pl_tick ?t) att"
      then obtain prior where "js_get (pl_stored s) ?c = Some prior"
        "ax_id ` set (an_receipts att) \<subseteq> ax_id ` set (an_receipts prior) \<union> drawn_ids env {..<pl_tick ?t}"
        unfolding kept_record_def by blast
      then show ?thesis using old [of ?c prior] by blast
    qed simp
    then show ?thesis unfolding plane_valid_def att(3) using att(1,2) old by (simp add: update_conv)
  qed
qed

lemma valid_run:
  assumes "plane_valid env s" "world_ok env" "fresh_uuids env" "list_all one_page calls"
  shows "plane_valid env (run_waits env calls s)"
  using assms(1,4) unfolding run_waits_def by (induction calls arbitrary: s) (auto intro: valid_kept assms(2,3))

lemma kept_once:
  assumes valid: "plane_valid env s" and world: "world_ok env" "fresh_uuids env" "one_page call"
    and att: "js_get (pl_stored s) c = Some att" and other: "\<not> replaces env c (an_epoch att) call"
  shows "\<exists>att'. js_get (pl_stored (snd (wait_call_op env call s))) c = Some att' \<and> wait_next UNIV att att'"
proof -
  let ?t = "snd (wait_call_op env call s)"
  have same: "wait_next UNIV att att" by (rule wait_next_refl [OF plane_valid_get(1) [OF valid att]])
  show ?thesis
  proof (cases "pl_stored ?t = pl_stored s \<or> call_controller env call \<noteq> c")
    case True
    then have "js_get (pl_stored ?t) c = Some att" using call_effect [OF valid world] att by (auto simp: update_conv)
    with same show ?thesis by blast
  next
    case False
    then obtain att' where att': "pl_stored ?t = js_set c att' (pl_stored s)"
      "kept_record env (Some att) (pl_tick ?t) att' \<or> replaces env c (an_epoch att) call"
      using call_effect [OF valid world] att by auto
    then have "wait_next UNIV att att'" using other by (auto simp: kept_record_def)
    with att'(1) show ?thesis by (simp add: update_conv)
  qed
qed

lemma kept_over_run:
  assumes "plane_valid env s" "world_ok env" "fresh_uuids env" "list_all one_page calls" "js_get (pl_stored s) c = Some att"
    and "list_all (\<lambda>call. \<not> replaces env c (an_epoch att) call) calls"
  shows "\<exists>att'. js_get (pl_stored (run_waits env calls s)) c = Some att' \<and> wait_next UNIV att att'"
  using assms(1,4-6)
proof (induction calls arbitrary: s att)
  case Nil
  then show ?case by (simp add: run_waits_def wait_next_refl [OF plane_valid_get(1) [OF Nil.prems(1,3)]])
next
  case (Cons call calls)
  let ?t = "snd (wait_call_op env call s)"
  have call: "one_page call" "\<not> replaces env c (an_epoch att) call" "list_all one_page calls" using Cons.prems(2,4) by simp_all
  obtain att1 where first: "js_get (pl_stored ?t) c = Some att1" "wait_next UNIV att att1"
    using kept_once [OF Cons.prems(1) assms(2,3) call(1) Cons.prems(3) call(2)] by blast
  have "an_epoch att1 = an_epoch att" using first(2) by (simp add: wait_next_def)
  then have "list_all (\<lambda>call. \<not> replaces env c (an_epoch att1) call) calls" using Cons.prems(4) by simp
  from Cons.IH [OF valid_kept [OF Cons.prems(1) assms(2,3) call(1)] call(3) first(1) this] first(2)
  show ?case unfolding run_waits_def by (auto intro: wait_next_trans)
qed

text \<open>
  Why an arming is the exception: the first wait of a controller starts with nothing captured, so when its
  refresh cancels it before the sources are read, the record has no point for any of its targets and the
  schema refuses it.
\<close>

lemma first_wait_cancelled_invalid:
  "\<not> attention_valid (cancelled_record c u reason (armed_wait env rq b None authorities now ledger epoch))"
  by (auto simp: attention_valid_def statement_valid_def target_ids_def cancelled_record_def held_for_def armed_wait_def inheritedCoverage_def)

text \<open>A plane with one wait, for the worker that asks.\<close>

definition waiting_binding :: orchestrator_binding where
  "waiting_binding = \<lparr>ob_key = ''b'', ob_sessionId = ''u1'', ob_cwd = ''/'', ob_grant = \<lparr>cg_subjectSessionId = ''u1'', cg_capabilities = [ThreadRead, ThreadEnqueue], cg_scope = FleetScope\<rparr>\<rparr>"

definition waiting_env :: "unit attention_env" where
  "waiting_env = \<lparr>ae_world = (\<lambda>k. \<lparr>wd_sources = demo_sources, wd_binding = (\<lambda>_. Some waiting_binding), wd_actor = (\<lambda>_. ActorMissing),
       wd_stopRequested = (\<lambda>_. False), wd_now = 0, wd_uuid = replicate k (CHR ''u''), wd_readable = True, wd_write = AttentionWritten,
       wd_wakeOff = False, wd_applied = True\<rparr>),
     ae_keyDigest = (\<lambda>_. ''d''), ae_requestDigest = (\<lambda>_. ''h''), ae_inputDigest = (\<lambda>_. ''i''), ae_emptyDigest = ''e'',
     ae_stableUuid = (\<lambda>_. ''m'')\<rparr>"

definition waiting_controller :: ident where
  "waiting_controller = controller_of waiting_env waiting_binding"

definition waiting_record :: attention where
  "waiting_record = demo_wait\<lparr>an_controllerId := waiting_controller, an_coverage := (an_coverage demo_wait)\<lparr>cv_captured :=
     [\<lparr>ap_sessionId = ''u'', ap_eventOrdinal = 0, ap_completionTurn = 0, ap_truthKey = ''k''\<rparr>]\<rparr>\<rparr>"

definition waiting_plane :: attention_plane where
  "waiting_plane = \<lparr>pl_stored = [(waiting_controller, waiting_record)], pl_active = [], pl_tick = 0\<rparr>"

lemma waiting_world_ok: "world_ok waiting_env"
  unfolding world_ok_def sources_reachable_def using demo_sources_reachable by (simp add: waiting_env_def)

lemma waiting_fresh_uuids: "fresh_uuids waiting_env"
  unfolding fresh_uuids_def inj_def by (auto simp: waiting_env_def)

lemma waiting_record_valid: "attention_valid waiting_record"
  by (simp add: attention_valid_def statement_valid_def target_ids_def all_coverages_def coverage_valid_def within_captured_def
      receipts_valid_def point_of_def waiting_record_def demo_wait_def)

lemma waiting_plane_valid: "plane_valid waiting_env waiting_plane"
  using waiting_record_valid by (simp add: plane_valid_def waiting_plane_def waiting_record_def demo_wait_def)

subsection \<open>The guarantees\<close>

text \<open>
  C14. The record of a wait always satisfies its own schema: started from valid records, after any
  sequence of updates of the control plane, of the scheduler and of the admission of wakes, no further update
  finds a corrupt record, and none but an arming can end in a record the schema refuses. The sources are
  states the coordination service can reach, uuids do not repeat, and a reading lists at most one page of 50
  notifications.
\<close>

theorem attention_never_refused:
  assumes "plane_valid env s" "world_ok env" "fresh_uuids env" "list_all one_page calls" "one_page call"
  shows "fst (wait_call_op env call (run_waits env calls s)) \<noteq> Inl RecordCorrupt
    \<and> (\<not> arms call \<longrightarrow> fst (wait_call_op env call (run_waits env calls s)) \<noteq> Inl RecordInvalid)"
proof
  note valid = valid_run [OF assms(1-4)]
  show "\<not> arms call \<longrightarrow> fst (wait_call_op env call (run_waits env calls s)) \<noteq> Inl RecordInvalid"
    using kept_calls [OF valid assms(2,3,5)] by (auto simp: update_ok_def proper_def)
  show "fst (wait_call_op env call (run_waits env calls s)) \<noteq> Inl RecordCorrupt"
  proof (cases "arms call")
    case True
    then obtain rq b where "call = WaitArm rq b" by (cases call) auto
    then show ?thesis using arm_call [OF valid, of b rq] by (auto simp: update_ok_def not_corrupt_def)
  next
    case False
    then show ?thesis using kept_calls [OF valid assms(2,3,5)] by (auto simp: update_ok_def proper_def)
  qed
qed

theorem attention_never_refused_witness:
  "fst (wait_call_op waiting_env (WaitRead waiting_binding ''u2'' [] 1200) (run_waits waiting_env [WaitReconcile waiting_controller None] waiting_plane))
    \<noteq> Inl RecordInvalid"
  using attention_never_refused [OF waiting_plane_valid waiting_world_ok waiting_fresh_uuids,
      of "[WaitReconcile waiting_controller None]" "WaitRead waiting_binding ''u2'' [] 1200"] by simp

text \<open>
  C13. A wait is kept until an arming replaces it by name: whatever updates run, of any controller and in
  any order, as long as none arms the controller again naming the epoch of its wait, the controller still has
  a wait of that epoch, with the same statement and authorities; what was captured and what was consumed for
  each worker has not gone back, and a wait that was cancelled has not changed at all.
\<close>

theorem wait_kept_until_replaced:
  assumes "plane_valid env s" "world_ok env" "fresh_uuids env" "list_all one_page calls" "js_get (pl_stored s) c = Some att"
    and "list_all (\<lambda>call. \<not> replaces env c (an_epoch att) call) calls"
  shows "\<exists>att'. js_get (pl_stored (run_waits env calls s)) c = Some att' \<and> attention_valid att'
    \<and> an_epoch att' = an_epoch att \<and> an_statement att' = an_statement att \<and> an_authorities att' = an_authorities att
    \<and> below (cv_captured (an_coverage att)) (cv_captured (an_coverage att'))
    \<and> below (cv_consumed (an_coverage att)) (cv_consumed (an_coverage att'))
    \<and> (\<not> an_armed att \<longrightarrow> att' = att)"
proof -
  obtain att' where "js_get (pl_stored (run_waits env calls s)) c = Some att'" "wait_next UNIV att att'"
    using kept_over_run [OF assms] by blast
  then show ?thesis unfolding wait_next_def valid_iff_inv [symmetric] by blast
qed

theorem wait_kept_until_replaced_witness:
  "\<exists>att'. js_get (pl_stored (run_waits waiting_env
       [WaitReconcile waiting_controller None, WaitCancel waiting_binding ''u2'' ''r'', WaitRead waiting_binding ''u2'' [] 1200] waiting_plane))
     waiting_controller = Some att' \<and> an_epoch att' = ''u2''"
proof -
  have "js_get (pl_stored waiting_plane) waiting_controller = Some waiting_record" by (simp add: waiting_plane_def)
  from wait_kept_until_replaced [OF waiting_plane_valid waiting_world_ok waiting_fresh_uuids _ this,
      of "[WaitReconcile waiting_controller None, WaitCancel waiting_binding ''u2'' ''r'', WaitRead waiting_binding ''u2'' [] 1200]"]
  obtain att' where "js_get (pl_stored (run_waits waiting_env
       [WaitReconcile waiting_controller None, WaitCancel waiting_binding ''u2'' ''r'', WaitRead waiting_binding ''u2'' [] 1200] waiting_plane))
     waiting_controller = Some att'" "an_epoch att' = an_epoch waiting_record" by auto
  moreover have "an_epoch waiting_record = ''u2''" by (simp add: waiting_record_def demo_wait_def)
  ultimately show ?thesis by auto
qed

end
