(* ===== verification/Spec2Isabelle.thy ===== *)
theory Spec2Isabelle
  imports Prelude Policy Admission_Scheduler Budget_Ledger Snapshot_Store Worktree_Leases
    Job_Control_Plane Job_Plane_Invariants Job_Plane_Properties Job_Plane_Guarantees
    Control_Plane_Runtime Permission_Resolution Thread_Retention Execution_Slots Worker_Truth
    Instruction_Queue Instruction_Delivery Worker_Budget Budget_Enforcer
    Coordination_Journal Worker_Ownership Worker_Events Lease_Authority Coordination_Frame
    Coordination_Runs Lease_History Event_Queue Event_Guarantees Notification_Inbox
    Inbox_Invariants Inbox_Guarantees Notification_Delivery
    Attention_Sources Attention_Waits Attention_Invariants Attention_Guarantees
begin

text \<open>
  A verification library of Cyberdeck, a local broker that runs coding agents.

  \<^bold>\<open>The program.\<close> The broker has two halves. The control plane (\<^verbatim>\<open>src/src/control-plane\<close>) takes jobs, admits
  them under concurrency ceilings and budgets, hands them to provider adapters, settles them once, and
  protects worktrees by leases with fencing tokens. The worker side (\<^verbatim>\<open>src/src/broker\<close>, \<^verbatim>\<open>src/src/orchestration\<close>)
  keeps long-lived workers: who controls them, what they report, what they are told, what they may
  spend and what is known about them. Both write append-only files and rebuild their memory from them
  after a crash. Domain rules that both use are in \<^verbatim>\<open>src/src/domain\<close>.

  \<^bold>\<open>Conventions.\<close> \<^verbatim>\<open>Prelude\<close> holds what the theories share: a JavaScript \<^verbatim>\<open>Map\<close> as an insertion-ordered
  association list with \<^verbatim>\<open>js_get\<close>, \<^verbatim>\<open>js_set\<close> and \<^verbatim>\<open>js_delete\<close>, the stable sort of arrays, an error-and-state
  monad \<^verbatim>\<open>op\<close> in which every \<^verbatim>\<open>throw\<close> and early return is a branch, the rules \<^verbatim>\<open>op_keeps\<close> and \<^verbatim>\<open>op_triple\<close>
  for it, and the locales \<^verbatim>\<open>stepping\<close> (an invariant of a step holds along every run) and \<^verbatim>\<open>once_only\<close>. A class
  is a record of its fields, a method an operation on it. What a method asks of the outside (clock,
  fresh ids, tokens, whether a write succeeds, what an adapter answers) is answered by an environment
  record, per tick where the answer may differ from call to call, and the theorems quantify over it.

  \<^bold>\<open>The control plane.\<close>
  \<^item> \<^verbatim>\<open>Policy\<close>: \<^verbatim>\<open>src/src/domain/policy.ts\<close>, \<^verbatim>\<open>src/src/domain/provider-registration.ts\<close> and \<^verbatim>\<open>src/src/control-plane/provider-registry.ts\<close>:
    the recogniser of Fable models and its language, launch safety, start policy, registered providers.
  \<^item> \<^verbatim>\<open>Admission_Scheduler\<close>: \<^verbatim>\<open>src/src/control-plane/admission-scheduler.ts\<close>: ceilings hold after every sequence
    of calls, buckets are served first in first out, nothing waits while it could be admitted.
  \<^item> \<^verbatim>\<open>Budget_Ledger\<close>: \<^verbatim>\<open>src/src/control-plane/budget-ledger.ts\<close>: jobs of a tree are debited once, ceilings hold,
    unknown usage closes a scope.
  \<^item> \<^verbatim>\<open>Snapshot_Store\<close>: \<^verbatim>\<open>src/src/persistence/job-store.ts\<close> and the lease and instruction stores where they differ:
    what is loaded is what was appended last, and a torn tail that is not removed spoils the next append.
  \<^item> \<^verbatim>\<open>Worktree_Leases\<close>: \<^verbatim>\<open>src/src/control-plane/worktree-lease-manager.ts\<close>: one writer per target, increasing
    fencing tokens, validation, recovery, and memory that agrees with the store after failed writes.
  \<^item> \<^verbatim>\<open>Job_Control_Plane\<close>: \<^verbatim>\<open>src/src/control-plane/job-control-plane.ts\<close> as events of one plane: submission,
    delegation, the pump, dispatch with its later answers, reports, cancellation and recovery. A call that
    waits for an adapter is two events, so that every interleaving is a run. \<^verbatim>\<open>Job_Plane_Invariants\<close> states
    what the elementary changes keep, as locales; \<^verbatim>\<open>Job_Plane_Properties\<close> instantiates them;
    \<^verbatim>\<open>Job_Plane_Guarantees\<close> has the theorems over runs, and two that show what the plane does not do.
  \<^item> \<^verbatim>\<open>Control_Plane_Runtime\<close>: \<^verbatim>\<open>src/src/control-plane/runtime.ts\<close> and \<^verbatim>\<open>src/src/control-plane/reconciler.ts\<close>: the plane,
    the leases and the reports together. A start fails closed, a shutdown drains and nothing is dispatched
    after it, and reconciliation accounts for every job.

  \<^bold>\<open>The worker side.\<close>
  \<^item> \<^verbatim>\<open>Coordination_Journal\<close>: the records of \<^verbatim>\<open>src/src/domain/worker-coordination.ts\<close> and the journal of
    \<^verbatim>\<open>src/src/persistence/worker-coordination-store.ts\<close>: replay, and a checkpoint that drops intermediate
    snapshots and replays to the same state in the same order.
  \<^item> \<^verbatim>\<open>Worker_Ownership\<close> and \<^verbatim>\<open>Worker_Events\<close>: the calls of \<^verbatim>\<open>src/src/broker/worker-coordination.ts\<close> with the lease
    projections of \<^verbatim>\<open>src/src/broker/worker-lease-liveness.ts\<close>. The first has registration, leases, batches,
    handoffs, liveness and expiry, the second events, resolutions, pages, checkpoints and modal answers.
  \<^item> \<^verbatim>\<open>Lease_Authority\<close>: a lease call plans its changes on a state it does not touch and then commits one
    transaction, or leaves the maps alone; \<^verbatim>\<open>Coordination_Frame\<close>: what each call can change, as the locales
    \<^verbatim>\<open>co_frame\<close> and \<^verbatim>\<open>co_journaled\<close>.
  \<^item> \<^verbatim>\<open>Coordination_Runs\<close>: all calls and restarts as one machine \<^verbatim>\<open>co_step\<close>; memory is the replay of the
    journal along every run. \<^verbatim>\<open>Lease_History\<close>: versions never fall and a superseded token never authenticates
    again, through the locale \<^verbatim>\<open>lease_machine\<close>; a handoff takes every member or none.
  \<^item> \<^verbatim>\<open>Event_Queue\<close>: an abstract queue as a step relation with its invariant, and that every call of the
    service is a sequence of its steps. \<^verbatim>\<open>Event_Guarantees\<close>: bounded and well-numbered queues, exact
    summaries, pinned events, complete pages, restarts, and the pinned progress that is lost.
  \<^item> \<^verbatim>\<open>Worker_Budget\<close> and \<^verbatim>\<open>Budget_Enforcer\<close>: \<^verbatim>\<open>src/src/domain/worker-budget.ts\<close>, the budget calls of the
    coordination service and \<^verbatim>\<open>src/src/broker/worker-budget-enforcer.ts\<close>: the gate refuses exactly the spent
    workers, and a refresh stops at most the refreshed worker, once, when it is spent.
  \<^item> \<^verbatim>\<open>Instruction_Queue\<close> and \<^verbatim>\<open>Instruction_Delivery\<close>: \<^verbatim>\<open>src/src/orchestration/instruction-queue.ts\<close> with grants:
    receipts only advance in every interleaving, a flush keeps the order, racing calls can duplicate.
  \<^item> \<^verbatim>\<open>Notification_Inbox\<close>: the inbox of an orchestrator, \<^verbatim>\<open>src/src/persistence/orchestrator-notification-store.ts\<close>
    with its log and records. \<^verbatim>\<open>Inbox_Invariants\<close>: what each record of the log keeps, and that file and memory
    agree wherever a write fails; \<^verbatim>\<open>Inbox_Guarantees\<close>: over every run the log loads, the inbox is bounded, a
    notification is pending until it is acknowledged, dropped for space or replaced, and a key is used once.
  \<^item> \<^verbatim>\<open>Notification_Delivery\<close>: the wake budget, the notice text and the wake decision of
    \<^verbatim>\<open>src/src/broker/orchestrator-notification-delivery.ts\<close>: at most the ceiling of wakes in any hour, a wake exactly
    when one is due, notices of bounded length.
  \<^item> \<^verbatim>\<open>Attention_Sources\<close> and \<^verbatim>\<open>Attention_Waits\<close>: the durable waits of orchestrators, their capture of sources
    and wake policy (\<^verbatim>\<open>src/src/orchestration/orchestrator-attention-source.ts\<close>, \<^verbatim>\<open>orchestrator-attention-policy.ts\<close>), the
    control plane, the store and what the scheduler does to a record. \<^verbatim>\<open>Attention_Invariants\<close>: the record schema
    as an invariant and what one update may change; \<^verbatim>\<open>Attention_Guarantees\<close>: over every sequence of updates no
    record is refused or found corrupt, and a wait is kept until it is replaced by name.
  \<^item> \<^verbatim>\<open>Worker_Truth\<close> (\<^verbatim>\<open>src/src/domain/worker-truth.ts\<close>), \<^verbatim>\<open>Permission_Resolution\<close> (\<^verbatim>\<open>src/src/domain/permission-resolution.ts\<close>),
    \<^verbatim>\<open>Execution_Slots\<close> (\<^verbatim>\<open>src/src/orchestration/execution-slot-scheduler.ts\<close>) and \<^verbatim>\<open>Thread_Retention\<close>
    (\<^verbatim>\<open>src/src/domain/thread-retention.ts\<close> and the startup pass of \<^verbatim>\<open>src/src/orchestration/startup-thread-retention.ts\<close>).

  \<^bold>\<open>Loops and fuel.\<close> Loops over lists are structural. \<^verbatim>\<open>rescue_loop\<close>, \<^verbatim>\<open>slots_drain\<close> and the walk along a delegation
  chain have termination proofs. \<^verbatim>\<open>pump_loop\<close> has fuel, one more than the waiting queue; \<^verbatim>\<open>pump_exhausts_admission\<close>
  shows that it stops because nothing is left to admit. \<^verbatim>\<open>eligible_scan\<close> may run on in principle and is shown to end. \<^verbatim>\<open>read_pages\<close> stands for a reader, not for code of the
  repository; its fuel, one more than the stored events, is shown to be enough.

  \<^bold>\<open>Abstractions.\<close> Time is an integer, cost and elapsed time are rationals, and a hash is a parameter (or the
  request itself), so a theorem that needs hashes to differ says so. Messages for people are left out. A line
  of a file is a record, unreadable text, or a record of a foreign version. Calls of the coordination service
  run one after the other, as \<^verbatim>\<open>exclusive\<close> makes them; \<^verbatim>\<open>Worker_Budget\<close> keeps no audit records. A method of the
  job plane that starts the pump goes on without the answer of the adapter, which arrives as an event.

  \<^bold>\<open>Not modelled.\<close> Sessions, the turn engine and the request handlers that combine the services with
  processes, terminals and worktrees enter as environments only. The producer of
  notifications, the timers and tasks that run a delivery, and the loop, listeners and queue messages of the
  scheduler of waits are not modelled. Provider adapters, the fleet client, the command line, the editor integrations, transcripts and telemetry are input and output, or formats of third
  parties. When a journal is checkpointed and how the new file is installed are file-system effects.
\<close>

end
